(* ===== verification/AosPrelude.thy ===== *)
theory AosPrelude
  imports Main "HOL-Library.Word"
begin

text \<open>
  Shared vocabulary of the adapterOS development: the names of the Rust integer types,
  results as sums, the error type, the string operations the sources use (ASCII lower
  casing, decimal printing and parsing, splitting, joining), and the three interfaces
  that several components implement: a string codec, a transition system with terminal
  states, and a transition system whose moves climb a rank.
\<close>

section \<open>Types and results\<close>

type_synonym u8 = "8 word"
type_synonym u32 = "32 word"
type_synonym u64 = "64 word"
type_synonym bytes = "8 word list"
type_synonym ('e, 'a) result = "'e + 'a"

abbreviation Ok :: "'a \<Rightarrow> ('e, 'a) result" where
  "Ok \<equiv> Inr"

abbreviation Err :: "'e \<Rightarrow> ('e, 'a) result" where
  "Err \<equiv> Inl"

definition is_ok :: "('e, 'a) result \<Rightarrow> bool" where
  "is_ok r = (case r of Inl _ \<Rightarrow> False | Inr _ \<Rightarrow> True)"

lemma is_ok_simps [simp]: "is_ok (Ok x)" "\<not> is_ok (Err e)"
  by (simp_all add: is_ok_def)

lemma is_ok_iff: "is_ok r \<longleftrightarrow> (\<exists>x. r = Ok x)"
  by (cases r) (simp_all add: is_ok_def)

text \<open>The variants of \<open>AosError\<close> that the modelled code constructs.\<close>

datatype aos_error =
    EValidation string
  | ELifecycle string
  | EPolicyViolation string
  | EConfig string
  | EAuthz string
  | ECircuitBreakerOpen string
  | ECircuitBreakerHalfOpen string
  | EInternal string
  | EDeterminismViolation string
  | ERouting string
  | EWorker string
  | EResourceExhaustion string
  | EMemoryPressure string
  | EIsolationViolation string
  | EKernel string
  | EIo string
  | ENotFound string
  | EQuotaExceeded string "string option"
  | ECrypto string
  | EInvalidHash string
  | EDatabase string

text \<open>\<open>to_string\<close> of these variants.\<close>

definition aos_error_display :: "aos_error \<Rightarrow> string" where
  "aos_error_display e =
     (case e of
        EValidation m \<Rightarrow> ''Validation error: '' @ m
      | ELifecycle m \<Rightarrow> ''Lifecycle error: '' @ m
      | EPolicyViolation m \<Rightarrow> ''Policy violation: '' @ m
      | EConfig m \<Rightarrow> ''Configuration error: '' @ m
      | EAuthz m \<Rightarrow> ''Authorization error: '' @ m
      | ECircuitBreakerOpen s \<Rightarrow> ''Circuit breaker is open for service '' @ [char_of (39 :: nat)] @ s @ [char_of (39 :: nat)]
      | ECircuitBreakerHalfOpen s \<Rightarrow> ''Circuit breaker is half-open for service '' @ [char_of (39 :: nat)] @ s @ [char_of (39 :: nat)]
      | EInternal m \<Rightarrow> ''Internal error: '' @ m
      | EDeterminismViolation m \<Rightarrow> ''Determinism violation: '' @ m
      | ERouting m \<Rightarrow> ''Routing error: '' @ m
      | EWorker m \<Rightarrow> ''Worker error: '' @ m
      | EResourceExhaustion m \<Rightarrow> ''Resource exhaustion: '' @ m
      | EMemoryPressure m \<Rightarrow> ''Memory pressure: '' @ m
      | EIsolationViolation m \<Rightarrow> ''Isolation violation: '' @ m
      | EKernel m \<Rightarrow> ''Kernel error: '' @ m
      | EIo m \<Rightarrow> ''IO error: '' @ m
      | ENotFound m \<Rightarrow> ''Not found: '' @ m
      | EQuotaExceeded r _ \<Rightarrow> ''Quota exceeded for resource '' @ [char_of (39 :: nat)] @ r @ [char_of (39 :: nat)]
      | ECrypto m \<Rightarrow> ''Cryptographic error: '' @ m
      | EInvalidHash m \<Rightarrow> ''Invalid hash: '' @ m
      | EDatabase m \<Rightarrow> ''Database error: '' @ m)"

named_theorems state_simps \<open>tables of the state machines\<close>
named_theorems cache_simps \<open>accounting of the caches\<close>

section \<open>Strings\<close>

text \<open>
  A Rust string is its UTF-8 bytes. \<open>to_lowercase\<close> is modelled on the ASCII letters: the
  only non-ASCII character whose lower case is ASCII is the Kelvin sign (to \<open>k\<close>), and no
  keyword that the sources compare with contains a \<open>k\<close>.
\<close>

definition lower_char :: "char \<Rightarrow> char" where
  "lower_char c = (let n = (of_char c :: nat) in
     if 65 \<le> n \<and> n \<le> 90 then char_of (n + 32) else c)"

definition to_lowercase :: "string \<Rightarrow> string" where
  "to_lowercase s = map lower_char s"

lemma lower_char_idem [simp]: "lower_char (lower_char c) = lower_char c"
  by (auto simp: lower_char_def Let_def)

lemma to_lowercase_idem [simp]: "to_lowercase (to_lowercase s) = to_lowercase s"
  by (simp add: to_lowercase_def)

definition digit_char :: "nat \<Rightarrow> char" where
  "digit_char d = char_of (48 + d)"

definition digit_val :: "char \<Rightarrow> nat option" where
  "digit_val c = (let n = (of_char c :: nat) in
     if 48 \<le> n \<and> n \<le> 57 then Some (n - 48) else None)"

fun show_nat :: "nat \<Rightarrow> string" where
  "show_nat n = (if n < 10 then [digit_char n]
                 else show_nat (n div 10) @ [digit_char (n mod 10)])"

declare show_nat.simps [simp del]

definition show_int :: "int \<Rightarrow> string" where
  "show_int i = (if i < 0 then ''-'' @ show_nat (nat (- i)) else show_nat (nat i))"

fun parse_digits :: "nat \<Rightarrow> string \<Rightarrow> nat option" where
  "parse_digits acc [] = Some acc"
| "parse_digits acc (c # cs) =
     (case digit_val c of None \<Rightarrow> None | Some d \<Rightarrow> parse_digits (acc * 10 + d) cs)"

text \<open>
  \<open>str::parse\<close> for an unsigned type with values below \<open>bound\<close>: an optional plus sign, at
  least one digit, only digits, and no overflow.
\<close>

definition parse_uint :: "nat \<Rightarrow> string \<Rightarrow> nat option" where
  "parse_uint bound s =
     (let ds = (case s of [] \<Rightarrow> [] | c # cs \<Rightarrow> if c = CHR ''+'' then cs else s) in
      if ds = [] then None
      else (case parse_digits 0 ds of
              None \<Rightarrow> None
            | Some n \<Rightarrow> if n < bound then Some n else None))"

text \<open>\<open>str::split\<close> on one character: always at least one part.\<close>

fun split_on :: "char \<Rightarrow> string \<Rightarrow> string list" where
  "split_on c [] = [[]]"
| "split_on c (x # xs) =
     (if x = c then [] # split_on c xs
      else (case split_on c xs of [] \<Rightarrow> [[x]] | p # ps \<Rightarrow> (x # p) # ps))"

fun join_with :: "string \<Rightarrow> string list \<Rightarrow> string" where
  "join_with sep [] = []"
| "join_with sep [x] = x"
| "join_with sep (x # y # ys) = x @ sep @ join_with sep (y # ys)"

text \<open>A string between single quotes, as the error texts print identifiers.\<close>

definition quoted :: "string \<Rightarrow> string" where
  "quoted s = [CHR 0x27] @ s @ [CHR 0x27]"

subsection \<open>Decimal round trip\<close>

lemma of_char_digit_char: "d < 10 \<Longrightarrow> (of_char (digit_char d) :: nat) = 48 + d"
  by (simp add: digit_char_def)

lemma digit_val_digit_char [simp]: "d < 10 \<Longrightarrow> digit_val (digit_char d) = Some d"
  by (simp add: digit_val_def of_char_digit_char)

lemma digit_char_neq: "d < 10 \<Longrightarrow> (of_char c :: nat) < 48 \<Longrightarrow> digit_char d \<noteq> c"
  using of_char_digit_char by fastforce

lemma parse_digits_append:
  "parse_digits a (xs @ ys) =
     (case parse_digits a xs of None \<Rightarrow> None | Some b \<Rightarrow> parse_digits b ys)"
  by (induction xs arbitrary: a) (auto split: option.splits)

lemma parse_digits_show_nat: "parse_digits 0 (show_nat n) = Some n"
proof (induction n rule: show_nat.induct)
  case (1 n)
  then show ?case
    by (cases "n < 10")
      (simp_all add: show_nat.simps [of n] parse_digits_append mult.commute)
qed

lemma show_nat_digits: "c \<in> set (show_nat n) \<Longrightarrow> \<exists>d < 10. c = digit_char d"
proof (induction n rule: show_nat.induct)
  case (1 n)
  show ?case
  proof (cases "n < 10")
    case True
    with "1.prems" show ?thesis by (auto simp: show_nat.simps [of n])
  next
    case False
    with "1.prems" have "c \<in> set (show_nat (n div 10)) \<or> c = digit_char (n mod 10)"
      by (auto simp: show_nat.simps [of n])
    moreover have "n mod 10 < 10" by simp
    ultimately show ?thesis using "1.IH" False by blast
  qed
qed

lemma show_nat_neq_Nil [simp]: "show_nat n \<noteq> []"
  by (simp add: show_nat.simps [of n])

lemma show_nat_no_char: "(of_char c :: nat) < 48 \<Longrightarrow> c \<notin> set (show_nat n)"
  using show_nat_digits digit_char_neq by blast

lemma parse_uint_show_nat: "n < bound \<Longrightarrow> parse_uint bound (show_nat n) = Some n"
proof -
  assume n: "n < bound"
  have "CHR ''+'' \<notin> set (show_nat n)"
    by (rule show_nat_no_char) simp
  then have "(case show_nat n of [] \<Rightarrow> [] | c # cs \<Rightarrow>
                if c = CHR ''+'' then cs else show_nat n) = show_nat n"
    by (cases "show_nat n") auto
  with n show ?thesis
    by (simp add: parse_uint_def parse_digits_show_nat)
qed

lemma parse_uint_bound: "parse_uint bound s = Some n \<Longrightarrow> n < bound"
  by (auto simp: parse_uint_def Let_def split: if_splits option.splits)

subsection \<open>Splitting and joining\<close>

lemma split_on_neq_Nil [simp]: "split_on c s \<noteq> []"
  by (cases s) (auto split: list.splits)

lemma split_on_no_sep: "c \<notin> set s \<Longrightarrow> split_on c s = [s]"
  by (induction s) auto

lemma split_on_append_sep:
  "c \<notin> set a \<Longrightarrow> split_on c (a @ c # b) = a # split_on c b"
  by (induction a) (auto split: list.splits)

lemma join_split: "join_with [c] (split_on c s) = s"
proof (induction s)
  case Nil
  then show ?case by simp
next
  case (Cons x s)
  obtain p ps where ps: "split_on c s = p # ps"
    by (cases "split_on c s") auto
  with Cons show ?case by (cases ps) auto
qed

section \<open>Machine words\<close>

lemma word_succ_le: "(w :: 'a :: len word) \<noteq> - 1 \<Longrightarrow> w \<le> w + 1"
proof -
  assume "w \<noteq> - 1"
  then have "1 + w \<noteq> 0" by (metis add.commute max_word_wrap)
  then show ?thesis by (simp add: word_le_nat_alt unatSuc add.commute)
qed

lemma word_succ_greater: "(w :: 'a :: len word) < w + 1 \<longleftrightarrow> w \<noteq> - 1"
proof (cases "w = - 1")
  case False
  then show ?thesis using word_succ_le [of w] by (simp add: less_le)
qed simp

section \<open>Interfaces shared by the state machines\<close>

text \<open>
  A string codec: \<open>enc\<close> is the \<open>as_str\<close> or \<open>Display\<close> of an enumeration and \<open>dec\<close> its
  \<open>FromStr\<close>. Decoding recovers what was encoded, whatever the letter case.
\<close>

locale str_codec =
  fixes enc :: "'a \<Rightarrow> string"
    and dec :: "string \<Rightarrow> ('e, 'a) result"
  assumes dec_enc: "dec (enc x) = Ok x"
    and dec_lower: "dec (to_lowercase s) = Ok x \<longleftrightarrow> dec s = Ok x"
begin

lemma enc_inj: "enc x = enc y \<longleftrightarrow> x = y"
  by (metis dec_enc sum.inject(2))

lemma dec_case_insensitive: "to_lowercase s = to_lowercase (enc x) \<Longrightarrow> dec s = Ok x"
  using dec_enc dec_lower by metis

lemma dec_onto: "\<exists>s. dec s = Ok x"
  using dec_enc by blast

end

text \<open>
  A transition check with terminal states: from a terminal state the check accepts at
  most the move to the same state.
\<close>

locale transition_system =
  fixes valid :: "'s \<Rightarrow> 's \<Rightarrow> bool"
    and terminal :: "'s \<Rightarrow> bool"
  assumes terminal_stuck: "terminal s \<Longrightarrow> valid s t \<Longrightarrow> t = s"
begin

lemma terminal_absorbing: "valid\<^sup>*\<^sup>* s t \<Longrightarrow> terminal s \<Longrightarrow> t = s"
  by (induction rule: rtranclp_induct) (auto dest: terminal_stuck)

end

text \<open>
  A machine whose accepted moves to another state climb a rank: it visits no state twice,
  and the number of its moves is bounded by the rank.
\<close>

locale ranked_machine = transition_system +
  fixes rank :: "'s \<Rightarrow> nat"
  assumes valid_rank: "valid s t \<Longrightarrow> s \<noteq> t \<Longrightarrow> rank s < rank t"
begin

lemma path_rank: "valid\<^sup>*\<^sup>* s t \<Longrightarrow> rank s \<le> rank t \<and> (s \<noteq> t \<longrightarrow> rank s < rank t)"
proof (induction rule: rtranclp_induct)
  case base
  then show ?case by simp
next
  case (step t u)
  then show ?case using valid_rank [of t u] by (cases "t = u") auto
qed

lemma no_return: "valid\<^sup>*\<^sup>* s t \<Longrightarrow> valid\<^sup>*\<^sup>* t s \<Longrightarrow> s = t"
  using path_rank [of s t] path_rank [of t s] by auto

end

text \<open>A run of a machine as the list of states it passes, checked move by move.\<close>

fun run_ok :: "('s \<Rightarrow> 's \<Rightarrow> bool) \<Rightarrow> 's \<Rightarrow> 's list \<Rightarrow> bool" where
  "run_ok v s [] = True"
| "run_ok v s (t # ts) = (v s t \<and> run_ok v t ts)"

lemma run_ok_rtranclp: "run_ok v s ts \<Longrightarrow> v\<^sup>*\<^sup>* s (last (s # ts))"
proof (induction ts arbitrary: s)
  case Nil
  then show ?case by simp
next
  case (Cons t ts)
  then have "v s t" and "v\<^sup>*\<^sup>* t (last (t # ts))" by simp_all
  then show ?case by (auto intro: converse_rtranclp_into_rtranclp)
qed

text \<open>
  The checkpoint lemma: a run that leaves a region passes a checkpoint, when every move
  that leaves the region goes to a checkpoint.
\<close>

lemma run_checkpoint:
  assumes exit: "\<And>a b. v a b \<Longrightarrow> P a \<Longrightarrow> \<not> C b \<Longrightarrow> P b"
  shows "run_ok v s ts \<Longrightarrow> P s \<Longrightarrow> \<not> P (last (s # ts)) \<Longrightarrow> \<exists>c \<in> set ts. C c"
proof (induction ts arbitrary: s)
  case Nil
  then show ?case by simp
next
  case (Cons t ts)
  show ?case
  proof (cases "C t")
    case False
    with exit Cons.prems have "P t" by auto
    with Cons show ?thesis by auto
  qed simp
qed

lemma run_never:
  assumes keep: "\<And>a b. v a b \<Longrightarrow> P a \<Longrightarrow> P b"
  shows "run_ok v s ts \<Longrightarrow> P s \<Longrightarrow> \<forall>t \<in> set ts. P t"
  by (induction ts arbitrary: s) (auto dest: keep)

context ranked_machine
begin

lemma run_rank:
  "run_ok (\<lambda>a b. valid a b \<and> a \<noteq> b) s ts \<Longrightarrow> rank s + length ts \<le> rank (last (s # ts))"
proof (induction ts arbitrary: s)
  case Nil
  then show ?case by simp
next
  case (Cons t ts)
  then have "rank s < rank t" and "rank t + length ts \<le> rank (last (t # ts))"
    using valid_rank by simp_all
  then show ?case by simp
qed

end

end
