(* ===== verification/Lifecycle.thy ===== *)
theory Lifecycle
  imports AosPrelude
begin

text \<open>
  Adapter and stack lifecycle, \<open>crates/adapteros-core/src/lifecycle.rs\<close> (first half): the
  lifecycle states and their predicates, the transition table and its tier rules, parsing
  and printing, and semantic versions. The rule constraints of the second half are in
  theory \<open>LifecycleRules\<close>.
\<close>

section \<open>States\<close>

datatype lifecycle_state =
    LS_Draft
  | LS_Training
  | LS_Ready
  | LS_Active
  | LS_Deprecated
  | LS_Retired
  | LS_Failed

datatype lifecycle_error = DeterminismViolation lifecycle_state lifecycle_state

definition is_loadable :: "lifecycle_state \<Rightarrow> bool" where
  [state_simps]: "is_loadable s \<longleftrightarrow> s \<in> {LS_Ready, LS_Active, LS_Deprecated}"

definition is_mutable :: "lifecycle_state \<Rightarrow> bool" where
  [state_simps]: "is_mutable s \<longleftrightarrow> s \<in> {LS_Draft, LS_Training}"

definition lifecycle_is_terminal :: "lifecycle_state \<Rightarrow> bool" where
  [state_simps]: "lifecycle_is_terminal s \<longleftrightarrow> s \<in> {LS_Retired, LS_Failed}"

definition allows_alias_swap :: "lifecycle_state \<Rightarrow> bool \<Rightarrow> bool" where
  [state_simps]: "allows_alias_swap s allow_training \<longleftrightarrow>
     s \<in> {LS_Ready, LS_Active} \<or> (allow_training \<and> s = LS_Training)"

definition is_determinism_compatible :: "lifecycle_state \<Rightarrow> bool" where
  [state_simps]: "is_determinism_compatible s \<longleftrightarrow> s \<in> {LS_Ready, LS_Active}"

fun lifecycle_next :: "lifecycle_state \<Rightarrow> lifecycle_state option" where
  "lifecycle_next LS_Draft = Some LS_Training"
| "lifecycle_next LS_Training = Some LS_Ready"
| "lifecycle_next LS_Ready = Some LS_Active"
| "lifecycle_next LS_Active = Some LS_Deprecated"
| "lifecycle_next LS_Deprecated = Some LS_Retired"
| "lifecycle_next LS_Retired = None"
| "lifecycle_next LS_Failed = None"

fun lifecycle_valid_predecessors :: "lifecycle_state \<Rightarrow> lifecycle_state list" where
  "lifecycle_valid_predecessors LS_Draft = []"
| "lifecycle_valid_predecessors LS_Training = [LS_Draft]"
| "lifecycle_valid_predecessors LS_Ready = [LS_Training, LS_Active]"
| "lifecycle_valid_predecessors LS_Active = [LS_Ready]"
| "lifecycle_valid_predecessors LS_Deprecated = [LS_Active]"
| "lifecycle_valid_predecessors LS_Retired = [LS_Deprecated, LS_Active]"
| "lifecycle_valid_predecessors LS_Failed =
     [LS_Draft, LS_Training, LS_Ready, LS_Active, LS_Deprecated]"

fun lifecycle_as_str :: "lifecycle_state \<Rightarrow> string" where
  "lifecycle_as_str LS_Draft = ''draft''"
| "lifecycle_as_str LS_Training = ''training''"
| "lifecycle_as_str LS_Ready = ''ready''"
| "lifecycle_as_str LS_Active = ''active''"
| "lifecycle_as_str LS_Deprecated = ''deprecated''"
| "lifecycle_as_str LS_Retired = ''retired''"
| "lifecycle_as_str LS_Failed = ''failed''"

text \<open>The \<open>Display\<close> implementation has its own table in the source.\<close>

fun lifecycle_display :: "lifecycle_state \<Rightarrow> string" where
  "lifecycle_display LS_Draft = ''draft''"
| "lifecycle_display LS_Training = ''training''"
| "lifecycle_display LS_Ready = ''ready''"
| "lifecycle_display LS_Active = ''active''"
| "lifecycle_display LS_Deprecated = ''deprecated''"
| "lifecycle_display LS_Retired = ''retired''"
| "lifecycle_display LS_Failed = ''failed''"

definition lifecycle_from_str :: "string \<Rightarrow> (aos_error, lifecycle_state) result" where
  "lifecycle_from_str s =
     (let l = to_lowercase s in
      if l = ''draft'' then Ok LS_Draft
      else if l = ''training'' then Ok LS_Training
      else if l = ''ready'' then Ok LS_Ready
      else if l = ''active'' then Ok LS_Active
      else if l = ''deprecated'' then Ok LS_Deprecated
      else if l = ''retired'' then Ok LS_Retired
      else if l = ''failed'' then Ok LS_Failed
      else Err (EValidation (''Invalid lifecycle state: '' @ s @
        ''. Must be one of: draft, training, ready, active, deprecated, retired, failed'')))"

section \<open>Transitions\<close>

record lifecycle_transition =
  lt_from :: lifecycle_state
  lt_to :: lifecycle_state

definition transition_new ::
  "lifecycle_state \<Rightarrow> lifecycle_state \<Rightarrow> lifecycle_transition" where
  "transition_new f t = \<lparr>lt_from = f, lt_to = t\<rparr>"

definition transition_is_valid :: "lifecycle_transition \<Rightarrow> bool" where
  "transition_is_valid tr =
     (if lt_from tr = lt_to tr then True
      else if lifecycle_is_terminal (lt_from tr) then False
      else lt_from tr \<in> set (lifecycle_valid_predecessors (lt_to tr)))"

definition lifecycle_can_transition_to ::
  "lifecycle_state \<Rightarrow> lifecycle_state \<Rightarrow> bool" where
  "lifecycle_can_transition_to s t = transition_is_valid (transition_new s t)"

fun is_valid_for_tier :: "lifecycle_state \<Rightarrow> string \<Rightarrow> bool" where
  "is_valid_for_tier s tier = (if s = LS_Deprecated \<and> tier = ''ephemeral'' then False else True)"

definition can_transition_to_for_tier ::
  "lifecycle_state \<Rightarrow> lifecycle_state \<Rightarrow> string \<Rightarrow> bool" where
  "can_transition_to_for_tier s t tier =
     (if \<not> is_valid_for_tier t tier then False
      else if tier = ''ephemeral'' then
        (if s = LS_Active \<and> t = LS_Retired then True
         else if t = LS_Deprecated then False
         else lifecycle_can_transition_to s t)
      else
        (if s = LS_Active \<and> t = LS_Retired then False
         else lifecycle_can_transition_to s t))"

text \<open>The arrow U+2192 of the error text, as its UTF-8 bytes.\<close>

definition arrow :: string where
  "arrow = [CHR 0xE2, CHR 0x86, CHR 0x92]"

definition transition_validate :: "lifecycle_transition \<Rightarrow> (aos_error, unit) result" where
  "transition_validate tr =
     (if transition_is_valid tr then Ok ()
      else Err (EPolicyViolation (''Invalid lifecycle transition: '' @
        lifecycle_display (lt_from tr) @ '' '' @ arrow @ '' '' @ lifecycle_display (lt_to tr) @
        ''. Valid transitions: draft'' @ arrow @ ''training'' @ arrow @ ''ready'' @ arrow @
        ''active'' @ arrow @ ''deprecated'' @ arrow @ ''retired, active'' @ arrow @
        ''retired (ephemeral), active'' @ arrow @ ''ready, any non-terminal'' @ arrow @
        ''failed'')))"

definition transition_validation_error :: "lifecycle_transition \<Rightarrow> string option" where
  "transition_validation_error tr =
     (if transition_is_valid tr then None
      else Some (''Cannot transition from '' @ lifecycle_display (lt_from tr) @ '' to '' @
        lifecycle_display (lt_to tr) @ ''. Valid next state: '' @
        (if lt_from tr = LS_Active then ''deprecated (or retired for ephemeral tier)''
         else (case lifecycle_next (lt_from tr) of
                 Some n \<Rightarrow> lifecycle_display n
               | None \<Rightarrow> ''none (terminal state)''))))"

definition transition_validate_for_tier ::
  "lifecycle_transition \<Rightarrow> string \<Rightarrow> (aos_error, unit) result" where
  "transition_validate_for_tier tr tier =
     (if \<not> can_transition_to_for_tier (lt_from tr) (lt_to tr) tier
      then Err (EPolicyViolation (''Transition from '' @ quoted (lifecycle_display (lt_from tr)) @
        '' to '' @ quoted (lifecycle_display (lt_to tr)) @ '' is not allowed for tier '' @
        quoted tier))
      else Ok ())"

definition validate_deterministic_transition ::
  "lifecycle_state \<Rightarrow> lifecycle_state \<Rightarrow> bool \<Rightarrow> (lifecycle_error, unit) result" where
  "validate_deterministic_transition f t requires_determinism =
     (if requires_determinism \<and> \<not> is_determinism_compatible t
      then Err (DeterminismViolation f t) else Ok ())"

section \<open>Semantic versions\<close>

text \<open>
  \<open>derive(PartialOrd, Ord)\<close> on the source's struct is the lexicographic order of its
  fields. Release builds of the workspace have no overflow checks, so the bumps wrap.
\<close>

datatype semantic_version = SemanticVersion (major: u32) (minor: u32) (patch: u32)

instantiation semantic_version :: linorder
begin

fun less_eq_semantic_version :: "semantic_version \<Rightarrow> semantic_version \<Rightarrow> bool" where
  "less_eq_semantic_version (SemanticVersion a b c) (SemanticVersion a' b' c') \<longleftrightarrow>
     a < a' \<or> (a = a' \<and> (b < b' \<or> (b = b' \<and> c \<le> c')))"

definition less_semantic_version :: "semantic_version \<Rightarrow> semantic_version \<Rightarrow> bool" where
  "less_semantic_version v w \<longleftrightarrow> v \<le> w \<and> \<not> w \<le> v"

instance
proof
  fix x y z :: semantic_version
  show "(x < y) = (x \<le> y \<and> \<not> y \<le> x)" by (simp add: less_semantic_version_def)
  show "x \<le> x" by (cases x) simp
  show "x \<le> y \<Longrightarrow> y \<le> z \<Longrightarrow> x \<le> z" by (cases x; cases y; cases z) auto
  show "x \<le> y \<Longrightarrow> y \<le> x \<Longrightarrow> x = y" by (cases x; cases y) auto
  show "x \<le> y \<or> y \<le> x" by (cases x; cases y) auto
qed

end

fun bump_major :: "semantic_version \<Rightarrow> semantic_version" where
  "bump_major (SemanticVersion a b c) = SemanticVersion (a + 1) 0 0"

fun bump_minor :: "semantic_version \<Rightarrow> semantic_version" where
  "bump_minor (SemanticVersion a b c) = SemanticVersion a (b + 1) 0"

fun bump_patch :: "semantic_version \<Rightarrow> semantic_version" where
  "bump_patch (SemanticVersion a b c) = SemanticVersion a b (c + 1)"

definition parse_u32 :: "string \<Rightarrow> u32 option" where
  "parse_u32 s = map_option of_nat (parse_uint (2 ^ 32) s)"

definition semver_parse :: "string \<Rightarrow> (aos_error, semantic_version) result" where
  "semver_parse s =
     (case split_on CHR ''.'' s of
        [p0, p1, p2] \<Rightarrow>
          (case parse_u32 p0 of
             None \<Rightarrow> Err (EValidation (''Invalid major version number: '' @ p0))
           | Some a \<Rightarrow>
          (case parse_u32 p1 of
             None \<Rightarrow> Err (EValidation (''Invalid minor version number: '' @ p1))
           | Some b \<Rightarrow>
          (case parse_u32 p2 of
             None \<Rightarrow> Err (EValidation (''Invalid patch version number: '' @ p2))
           | Some c \<Rightarrow> Ok (SemanticVersion a b c))))
      | _ \<Rightarrow> Err (EValidation (''Invalid semantic version: '' @ s @
               ''. Expected format: major.minor.patch'')))"

fun semver_display :: "semantic_version \<Rightarrow> string" where
  "semver_display (SemanticVersion a b c) =
     show_nat (unat a) @ ''.'' @ show_nat (unat b) @ ''.'' @ show_nat (unat c)"

section \<open>Correctness\<close>

lemmas transition_defs [state_simps] =
  lifecycle_can_transition_to_def transition_is_valid_def transition_new_def
  can_transition_to_for_tier_def

interpretation lifecycle_codec: str_codec lifecycle_as_str lifecycle_from_str
proof
  fix x show "lifecycle_from_str (lifecycle_as_str x) = Ok x"
    by (cases x) (simp_all add: lifecycle_from_str_def to_lowercase_def lower_char_def)
next
  fix s x
  show "lifecycle_from_str (to_lowercase s) = Ok x \<longleftrightarrow> lifecycle_from_str s = Ok x"
    by (simp add: lifecycle_from_str_def Let_def)
qed

interpretation lifecycle_machine:
  transition_system lifecycle_can_transition_to lifecycle_is_terminal
  by unfold_locales (simp add: state_simps split: if_splits)

interpretation tier_machine:
  transition_system "\<lambda>s t. can_transition_to_for_tier s t tier" lifecycle_is_terminal for tier
  by unfold_locales (auto simp: state_simps split: if_splits)

subsection \<open>The transition table against its documentation\<close>

text \<open>
  The transitions the documentation lists, tier by tier: the progression from draft to
  retired, the rollback from active to ready, the short cut of ephemeral adapters from
  active to retired, and failure from every non-terminal state.
\<close>

inductive lifecycle_move :: "string \<Rightarrow> lifecycle_state \<Rightarrow> lifecycle_state \<Rightarrow> bool"
  for tier :: string where
  move_train: "lifecycle_move tier LS_Draft LS_Training"
| move_ready: "lifecycle_move tier LS_Training LS_Ready"
| move_activate: "lifecycle_move tier LS_Ready LS_Active"
| move_rollback: "lifecycle_move tier LS_Active LS_Ready"
| move_deprecate: "tier \<noteq> ''ephemeral'' \<Longrightarrow> lifecycle_move tier LS_Active LS_Deprecated"
| move_retire: "lifecycle_move tier LS_Deprecated LS_Retired"
| move_expire: "tier = ''ephemeral'' \<Longrightarrow> lifecycle_move tier LS_Active LS_Retired"
| move_fail: "s \<notin> {LS_Retired, LS_Failed} \<Longrightarrow> lifecycle_move tier s LS_Failed"
| move_stay: "is_valid_for_tier s tier \<Longrightarrow> lifecycle_move tier s s"

inductive_cases move_to_activeE: "lifecycle_move tier s LS_Active"
inductive_simps move_from_to: "lifecycle_move tier s t"

lemma tier_move: "can_transition_to_for_tier s t tier = lifecycle_move tier s t"
  unfolding move_from_to
  by (cases s; cases t) (simp_all add: state_simps)

text \<open>
  The tier-aware transition check \<open>can_transition_to_for_tier\<close> accepts exactly the
  documented moves of the tier, for every pair of states and every tier name.
\<close>

theorem tier_check_iff_move: "can_transition_to_for_tier s t tier \<longleftrightarrow> lifecycle_move tier s t"
  by (rule tier_move)

lemma tier_check_base:
  "can_transition_to_for_tier s t tier \<Longrightarrow> lifecycle_can_transition_to s t"
  by (cases s; cases t) (simp_all add: state_simps split: if_splits)

text \<open>
  An adapter of a tier other than ephemeral that is retired has been deprecated
  first: every accepted run from draft to retired passes through deprecated.
\<close>

theorem retired_only_via_deprecated:
  assumes "tier \<noteq> ''ephemeral''"
    and "run_ok (\<lambda>s t. can_transition_to_for_tier s t tier) LS_Draft ts"
    and "last (LS_Draft # ts) = LS_Retired"
  shows "LS_Deprecated \<in> set ts"
proof -
  have "\<exists>c \<in> set ts. c = LS_Deprecated"
    by (rule run_checkpoint [where P = "\<lambda>s. s \<notin> {LS_Deprecated, LS_Retired}",
          OF _ assms(2)])
      (use assms(1,3) in \<open>auto simp: tier_move is_loadable_def elim: lifecycle_move.cases\<close>)
  then show ?thesis by simp
qed

theorem retired_only_via_deprecated_witness:
  "LS_Deprecated \<in> set [LS_Training, LS_Ready, LS_Active, LS_Deprecated, LS_Retired]"
  by (rule retired_only_via_deprecated [of "''warm''"]) (simp_all add: state_simps)

text \<open>
  An ephemeral adapter is never deprecated: no accepted run of the ephemeral tier
  from draft contains the deprecated state.
\<close>

theorem ephemeral_never_deprecated:
  assumes "run_ok (\<lambda>s t. can_transition_to_for_tier s t ''ephemeral'') LS_Draft ts"
  shows "LS_Deprecated \<notin> set ts"
proof -
  have "\<forall>t \<in> set ts. t \<noteq> LS_Deprecated"
    by (rule run_never [OF _ assms]) (auto simp: tier_move elim: lifecycle_move.cases)
  then show ?thesis by blast
qed

theorem ephemeral_never_deprecated_witness:
  "LS_Deprecated \<notin> set [LS_Training, LS_Ready, LS_Active, LS_Retired]"
  by (rule ephemeral_never_deprecated) (simp add: state_simps)

text \<open>
  Whatever the tier, an accepted run from draft that ends in a loadable state (ready,
  active or deprecated) has passed through training and through ready: nothing is loaded
  or routed that was not trained and validated.
\<close>

theorem loadable_was_trained_and_ready:
  assumes run: "run_ok (\<lambda>s t. can_transition_to_for_tier s t tier) LS_Draft ts"
    and "is_loadable (last (LS_Draft # ts))"
  shows "LS_Training \<in> set ts \<and> LS_Ready \<in> set ts"
proof
  have "\<exists>c \<in> set ts. c = LS_Training"
    by (rule run_checkpoint [where P = "\<lambda>s. s \<in> {LS_Draft, LS_Failed}", OF _ run])
      (use assms(2) in \<open>auto simp: tier_move is_loadable_def elim: lifecycle_move.cases\<close>)
  then show "LS_Training \<in> set ts" by simp
next
  have "\<exists>c \<in> set ts. c = LS_Ready"
    by (rule run_checkpoint [where P = "\<lambda>s. s \<in> {LS_Draft, LS_Training, LS_Failed}", OF _ run])
      (use assms(2) in \<open>auto simp: tier_move is_loadable_def elim: lifecycle_move.cases\<close>)
  then show "LS_Ready \<in> set ts" by simp
qed

theorem loadable_was_trained_and_ready_witness:
  "LS_Training \<in> set [LS_Training, LS_Ready, LS_Active] \<and>
   LS_Ready \<in> set [LS_Training, LS_Ready, LS_Active]"
  by (rule loadable_was_trained_and_ready [of "''persistent''"]) (simp_all add: state_simps)

lemma terminal_run_constant:
  "(\<lambda>s t. can_transition_to_for_tier s t tier)\<^sup>*\<^sup>* s t \<Longrightarrow> lifecycle_is_terminal s \<Longrightarrow> t = s"
  by (rule tier_machine.terminal_absorbing)

subsection \<open>Semantic versions\<close>

lemma parse_u32_show: "parse_u32 (show_nat (unat (w :: u32))) = Some w"
proof -
  have "unat w < 2 ^ 32" using unsigned_less [of w, where ?'a = nat] by simp
  then show ?thesis by (simp add: parse_u32_def parse_uint_show_nat)
qed

text \<open>
  Parsing a printed semantic version gives the version back, for all 32-bit
  components.
\<close>

theorem semver_roundtrip: "semver_parse (semver_display v) = Ok v"
proof (cases v)
  case (SemanticVersion a b c)
  have dot: "CHR ''.'' \<notin> set (show_nat n)" for n
    by (rule show_nat_no_char) simp
  show ?thesis
    by (simp add: SemanticVersion semver_parse_def split_on_append_sep split_on_no_sep dot
          parse_u32_show)
qed

text \<open>
  Each bump gives a strictly greater version in the derived order unless the bumped
  component is the greatest 32-bit number, where it wraps to zero; a major bump wins over
  every version with the same major number.
\<close>

theorem semver_bump_order:
  "(v < bump_patch v \<longleftrightarrow> patch v \<noteq> - 1) \<and>
   (v < bump_minor v \<longleftrightarrow> minor v \<noteq> - 1) \<and>
   (v < bump_major v \<longleftrightarrow> major v \<noteq> - 1) \<and>
   (major v \<noteq> - 1 \<longrightarrow> major w = major v \<longrightarrow> w < bump_major v)"
  by (cases v; cases w)
    (auto simp: less_semantic_version_def word_succ_greater not_le dest: word_succ_le)

theorem semver_bump_order_witness:
  "SemanticVersion 1 9 9 < bump_major (SemanticVersion 1 2 3) \<and>
   SemanticVersion 1 2 3 < bump_patch (SemanticVersion 1 2 3)"
  using semver_bump_order [of "SemanticVersion 1 2 3" "SemanticVersion 1 9 9"] by simp

end
