(* ===== verification/LifecycleRules.thy ===== *)
theory LifecycleRules
  imports Lifecycle "HOL-Library.AList" "HOL-Library.Multiset"
begin

text \<open>
  Lifecycle rule constraints, \<open>crates/adapteros-core/src/lifecycle.rs\<close> (second half): the
  validation context, the built-in constraints with their priorities, the validator that
  applies a list of constraints to a transition, and the entry points that the control
  plane calls (\<open>validate_transition_with_context\<close>, \<open>can_activate\<close>,
  \<open>validate_alias_swap\<close>, \<open>apply_lifecycle_constraints\<close>).
\<close>

section \<open>JSON values\<close>

text \<open>
  \<open>serde_json::Value\<close> with the accessors the validator uses. A number is represented by
  the answer of \<open>as_u64\<close>: \<open>Some\<close> for a non-negative integer of 64 bits, \<open>None\<close> for a
  negative or fractional one. An object is an association list with distinct keys.
\<close>

datatype json =
    JNull
  | JBool bool
  | JNumber "u64 option"
  | JString string
  | JArray "json list"
  | JObject "(string \<times> json) list"

fun json_get :: "json \<Rightarrow> string \<Rightarrow> json option" where
  "json_get (JObject kvs) k = map_of kvs k"
| "json_get _ k = None"

fun as_str :: "json \<Rightarrow> string option" where
  "as_str (JString s) = Some s"
| "as_str _ = None"

fun as_bool :: "json \<Rightarrow> bool option" where
  "as_bool (JBool b) = Some b"
| "as_bool _ = None"

fun as_u64 :: "json \<Rightarrow> u64 option" where
  "as_u64 (JNumber n) = n"
| "as_u64 _ = None"

fun as_array :: "json \<Rightarrow> json list option" where
  "as_array (JArray xs) = Some xs"
| "as_array _ = None"

definition get_as :: "(json \<Rightarrow> 'a option) \<Rightarrow> json \<Rightarrow> string \<Rightarrow> 'a option" where
  "get_as f ctx k = Option.bind (json_get ctx k) f"

definition unwrap_or :: "'a option \<Rightarrow> 'a \<Rightarrow> 'a" where
  "unwrap_or m d = (case m of Some x \<Rightarrow> x | None \<Rightarrow> d)"

lemma unwrap_or_simps [simp]: "unwrap_or (Some x) d = x" "unwrap_or None d = d"
  by (simp_all add: unwrap_or_def)

section \<open>Validation context\<close>

datatype preflight_status = PS_Pending | PS_Passed | PS_Failed | PS_Skipped

fun preflight_display :: "preflight_status \<Rightarrow> string" where
  "preflight_display PS_Pending = ''pending''"
| "preflight_display PS_Passed = ''passed''"
| "preflight_display PS_Failed = ''failed''"
| "preflight_display PS_Skipped = ''skipped''"

record validation_context =
  vc_tier :: "string option"
  vc_preflight_status :: preflight_status
  vc_bypass_preflight :: bool
  vc_has_artifact :: bool
  vc_has_training_evidence :: bool
  vc_active_references :: u64
  vc_conflicting_adapters :: "string list"
  vc_initiated_by :: "string option"
  vc_reason :: "string option"
  vc_is_hotfix :: bool

definition validation_context_new :: validation_context where
  "validation_context_new =
     \<lparr>vc_tier = None, vc_preflight_status = PS_Pending, vc_bypass_preflight = False,
      vc_has_artifact = False, vc_has_training_evidence = False, vc_active_references = 0,
      vc_conflicting_adapters = [], vc_initiated_by = None, vc_reason = None,
      vc_is_hotfix = False\<rparr>"

definition preflight_satisfied :: "validation_context \<Rightarrow> bool" where
  "preflight_satisfied ctx =
     (if vc_bypass_preflight ctx \<or> vc_is_hotfix ctx then True
      else vc_preflight_status ctx = PS_Passed)"

record rule_violation =
  rv_rule :: string
  rv_message :: string
  rv_bypassable :: bool

section \<open>Constraints\<close>

datatype constraint_type =
    ArtifactRequired
  | TrainingEvidenceRequired
  | NoActiveReferences
  | SingleActivePerRepo
  | TierSpecific
  | PreflightRequired
  | Custom string

fun constraint_type_as_str :: "constraint_type \<Rightarrow> string" where
  "constraint_type_as_str ArtifactRequired = ''artifact_required''"
| "constraint_type_as_str TrainingEvidenceRequired = ''training_evidence_required''"
| "constraint_type_as_str NoActiveReferences = ''no_active_references''"
| "constraint_type_as_str SingleActivePerRepo = ''single_active_per_repo''"
| "constraint_type_as_str TierSpecific = ''tier_specific''"
| "constraint_type_as_str PreflightRequired = ''preflight_required''"
| "constraint_type_as_str (Custom name) = name"

record lifecycle_constraint =
  lc_id :: string
  lc_name :: string
  lc_description :: "string option"
  lc_type :: constraint_type
  lc_priority :: int
  lc_enabled :: bool

definition artifact_required :: lifecycle_constraint where
  "artifact_required =
     \<lparr>lc_id = ''builtin:artifact_required'', lc_name = ''Artifact Required'',
      lc_description = Some (''Requires .aos artifact (path, hash, content hash) before '' @
        ''entering ready/active/deprecated/retired''),
      lc_type = ArtifactRequired, lc_priority = 100, lc_enabled = True\<rparr>"

definition training_evidence_required :: lifecycle_constraint where
  "training_evidence_required =
     \<lparr>lc_id = ''builtin:training_evidence_required'', lc_name = ''Training Evidence Required'',
      lc_description = Some (''Requires training snapshot/metrics evidence before entering '' @
        ''active state''),
      lc_type = TrainingEvidenceRequired, lc_priority = 90, lc_enabled = True\<rparr>"

definition single_active_per_repo :: lifecycle_constraint where
  "single_active_per_repo =
     \<lparr>lc_id = ''builtin:single_active_per_repo'', lc_name = ''Single Active Per Repository'',
      lc_description =
        Some ''Only one adapter can be active per repository/branch combination'',
      lc_type = SingleActivePerRepo, lc_priority = 80, lc_enabled = True\<rparr>"

definition tier_specific :: lifecycle_constraint where
  "tier_specific =
     \<lparr>lc_id = ''builtin:tier_specific'', lc_name = ''Tier-Specific Rules'',
      lc_description = Some (''Enforces tier-specific transition rules '' @
        ''(e.g., ephemeral cannot be deprecated)''),
      lc_type = TierSpecific, lc_priority = 110, lc_enabled = True\<rparr>"

definition preflight_required :: lifecycle_constraint where
  "preflight_required =
     \<lparr>lc_id = ''builtin:preflight_required'', lc_name = ''Preflight Checks Required'',
      lc_description = Some ''Requires preflight checks to pass before activation'',
      lc_type = PreflightRequired, lc_priority = 95, lc_enabled = True\<rparr>"

definition no_active_references :: lifecycle_constraint where
  "no_active_references =
     \<lparr>lc_id = ''builtin:no_active_references'', lc_name = ''No Active References'',
      lc_description = Some (''Warns when deprecating/retiring adapters that have active '' @
        ''stack references''),
      lc_type = NoActiveReferences, lc_priority = 70, lc_enabled = True\<rparr>"

definition custom_constraint :: "string \<Rightarrow> string \<Rightarrow> string \<Rightarrow> lifecycle_constraint" where
  "custom_constraint i n rule_name =
     \<lparr>lc_id = i, lc_name = n, lc_description = None, lc_type = Custom rule_name,
      lc_priority = 0, lc_enabled = True\<rparr>"

fun applies_to_transition ::
  "lifecycle_constraint \<Rightarrow> lifecycle_state \<Rightarrow> lifecycle_state \<Rightarrow> bool" where
  "applies_to_transition c f t =
     (if \<not> lc_enabled c then False
      else (case lc_type c of
              ArtifactRequired \<Rightarrow> t \<in> {LS_Ready, LS_Active, LS_Deprecated, LS_Retired}
            | TrainingEvidenceRequired \<Rightarrow> t = LS_Active
            | SingleActivePerRepo \<Rightarrow> t = LS_Active
            | NoActiveReferences \<Rightarrow> t \<in> {LS_Deprecated, LS_Retired}
            | TierSpecific \<Rightarrow> True
            | PreflightRequired \<Rightarrow> f = LS_Ready \<and> t = LS_Active
            | Custom _ \<Rightarrow> True))"

section \<open>Violations and results\<close>

datatype violation_severity = SevError | SevWarning | SevInfo

record constraint_violation =
  cv_constraint_id :: string
  cv_constraint_name :: string
  cv_message :: string
  cv_severity :: violation_severity
  cv_context :: "json option"

definition violation_error :: "string \<Rightarrow> string \<Rightarrow> string \<Rightarrow> constraint_violation" where
  "violation_error i n m =
     \<lparr>cv_constraint_id = i, cv_constraint_name = n, cv_message = m,
      cv_severity = SevError, cv_context = None\<rparr>"

definition violation_warning :: "string \<Rightarrow> string \<Rightarrow> string \<Rightarrow> constraint_violation" where
  "violation_warning i n m =
     \<lparr>cv_constraint_id = i, cv_constraint_name = n, cv_message = m,
      cv_severity = SevWarning, cv_context = None\<rparr>"

definition with_context :: "constraint_violation \<Rightarrow> json \<Rightarrow> constraint_violation" where
  "with_context v j = v\<lparr>cv_context := Some j\<rparr>"

definition is_blocking :: "constraint_violation \<Rightarrow> bool" where
  "is_blocking v \<longleftrightarrow> cv_severity v = SevError"

record constraint_validation_result =
  cr_valid :: bool
  cr_violations :: "constraint_violation list"
  cr_evaluated :: "string list"

definition result_valid :: constraint_validation_result where
  "result_valid = \<lparr>cr_valid = True, cr_violations = [], cr_evaluated = []\<rparr>"

definition result_invalid :: "constraint_violation \<Rightarrow> constraint_validation_result" where
  "result_invalid v = \<lparr>cr_valid = False, cr_violations = [v], cr_evaluated = []\<rparr>"

definition result_merge ::
  "constraint_validation_result \<Rightarrow> constraint_validation_result \<Rightarrow> constraint_validation_result"
where
  "result_merge a b =
     (let vs = cr_violations a @ cr_violations b in
      \<lparr>cr_valid = cr_valid a \<and> \<not> list_ex is_blocking vs, cr_violations = vs,
       cr_evaluated = cr_evaluated a @ cr_evaluated b\<rparr>)"

definition result_errors :: "constraint_validation_result \<Rightarrow> constraint_violation list" where
  "result_errors r = filter is_blocking (cr_violations r)"

definition result_warnings :: "constraint_validation_result \<Rightarrow> constraint_violation list" where
  "result_warnings r = filter (\<lambda>v. cv_severity v = SevWarning) (cr_violations r)"

definition result_to_error :: "constraint_validation_result \<Rightarrow> aos_error option" where
  "result_to_error r =
     (if cr_valid r then None
      else Some (EPolicyViolation (join_with ''; '' (map cv_message (result_errors r)))))"

section \<open>Evaluating one constraint\<close>

definition evaluate_tier_constraint ::
  "lifecycle_constraint \<Rightarrow> lifecycle_state \<Rightarrow> lifecycle_state \<Rightarrow> json \<Rightarrow> constraint_violation option"
where
  "evaluate_tier_constraint c f t ctx =
     (let tier = unwrap_or (get_as as_str ctx ''tier'') ''persistent'' in
      if \<not> can_transition_to_for_tier f t tier
      then Some (violation_error (lc_id c) (lc_name c)
             (''Transition from '' @ quoted (lifecycle_display f) @ '' to '' @
              quoted (lifecycle_display t) @ '' is not allowed for tier '' @ quoted tier))
      else None)"

definition evaluate_artifact_constraint ::
  "lifecycle_constraint \<Rightarrow> json \<Rightarrow> constraint_violation option" where
  "evaluate_artifact_constraint c ctx =
     (let has_artifact = unwrap_or (get_as as_bool ctx ''has_artifact'') False in
      if \<not> has_artifact
      then Some (violation_error (lc_id c) (lc_name c)
             (''Immutable .aos artifact (path, hash, content hash) required before entering '' @
              ''ready/active/deprecated/retired''))
      else None)"

definition evaluate_training_evidence_constraint ::
  "lifecycle_constraint \<Rightarrow> json \<Rightarrow> constraint_violation option" where
  "evaluate_training_evidence_constraint c ctx =
     (let has_evidence = unwrap_or (get_as as_bool ctx ''has_training_evidence'') False in
      if \<not> has_evidence
      then Some (violation_error (lc_id c) (lc_name c)
             ''Active state requires a training snapshot/metrics evidence'')
      else None)"

definition evaluate_single_active_constraint ::
  "lifecycle_constraint \<Rightarrow> json \<Rightarrow> constraint_violation option" where
  "evaluate_single_active_constraint c ctx =
     (let conflicting =
            unwrap_or (map_option length (get_as as_array ctx ''conflicting_adapters'')) 0 in
      if conflicting > 0
      then (let adapters =
                  unwrap_or (map_option (List.map_filter as_str)
                               (get_as as_array ctx ''conflicting_adapters'')) [] in
            Some (with_context
              (violation_error (lc_id c) (lc_name c)
                (''Active state requires uniqueness per repo/branch; adapter(s) '' @
                 join_with '', '' adapters @ '' already active''))
              (JObject [(''conflicting_adapters'', JArray (map JString adapters))])))
      else None)"

definition evaluate_no_references_constraint ::
  "lifecycle_constraint \<Rightarrow> json \<Rightarrow> constraint_violation option" where
  "evaluate_no_references_constraint c ctx =
     (let active_refs = unwrap_or (get_as as_u64 ctx ''active_references'') 0 in
      if active_refs > 0
      then Some (with_context
             (violation_warning (lc_id c) (lc_name c)
               (show_nat (unat active_refs) @ '' active stack(s) reference this adapter. '' @
                ''Consider updating them before deprecating.''))
             (JObject [(''active_references'', JNumber (Some active_refs))]))
      else None)"

definition evaluate_preflight_constraint ::
  "lifecycle_constraint \<Rightarrow> json \<Rightarrow> constraint_violation option" where
  "evaluate_preflight_constraint c ctx =
     (let bypass_preflight = unwrap_or (get_as as_bool ctx ''bypass_preflight'') False;
          is_hotfix = unwrap_or (get_as as_bool ctx ''is_hotfix'') False in
      if bypass_preflight \<or> is_hotfix then None
      else (let status = unwrap_or (get_as as_str ctx ''preflight_status'') ''pending'' in
            if status \<noteq> ''passed''
            then Some (violation_error (lc_id c) (lc_name c)
                   (''Preflight checks must pass before activation. Current status: '' @ status))
            else None))"

fun evaluate_constraint ::
  "lifecycle_constraint \<Rightarrow> lifecycle_state \<Rightarrow> lifecycle_state \<Rightarrow> json \<Rightarrow> constraint_violation option"
where
  "evaluate_constraint c f t ctx =
     (case lc_type c of
        TierSpecific \<Rightarrow> evaluate_tier_constraint c f t ctx
      | ArtifactRequired \<Rightarrow> evaluate_artifact_constraint c ctx
      | TrainingEvidenceRequired \<Rightarrow> evaluate_training_evidence_constraint c ctx
      | SingleActivePerRepo \<Rightarrow> evaluate_single_active_constraint c ctx
      | NoActiveReferences \<Rightarrow> evaluate_no_references_constraint c ctx
      | PreflightRequired \<Rightarrow> evaluate_preflight_constraint c ctx
      | Custom _ \<Rightarrow> None)"

section \<open>The validator\<close>

text \<open>
  \<open>sort_by\<close> with the priorities compared in reverse is a stable sort by descending
  priority.
\<close>

record lifecycle_validator =
  lv_constraints :: "lifecycle_constraint list"

definition validator_new :: lifecycle_validator where
  "validator_new = \<lparr>lv_constraints = []\<rparr>"

definition with_constraint ::
  "lifecycle_validator \<Rightarrow> lifecycle_constraint \<Rightarrow> lifecycle_validator" where
  "with_constraint v c =
     v\<lparr>lv_constraints := sort_key (\<lambda>c. - lc_priority c) (lv_constraints v @ [c])\<rparr>"

definition with_constraints ::
  "lifecycle_validator \<Rightarrow> lifecycle_constraint list \<Rightarrow> lifecycle_validator" where
  "with_constraints v cs =
     v\<lparr>lv_constraints := sort_key (\<lambda>c. - lc_priority c) (lv_constraints v @ cs)\<rparr>"

definition with_defaults :: lifecycle_validator where
  "with_defaults =
     with_constraint (with_constraint (with_constraint (with_constraint (with_constraint
       (with_constraint validator_new tier_specific) artifact_required)
       training_evidence_required) single_active_per_repo) preflight_required)
       no_active_references"

text \<open>The loop over the constraints, with the result and the list of evaluated identifiers.\<close>

fun validate_loop ::
  "lifecycle_constraint list \<Rightarrow> lifecycle_state \<Rightarrow> lifecycle_state \<Rightarrow> json \<Rightarrow>
   constraint_validation_result \<Rightarrow> string list \<Rightarrow> constraint_validation_result" where
  "validate_loop [] f t ctx r evaluated = r\<lparr>cr_evaluated := evaluated\<rparr>"
| "validate_loop (c # cs) f t ctx r evaluated =
     (if \<not> applies_to_transition c f t then validate_loop cs f t ctx r evaluated
      else (case evaluate_constraint c f t ctx of
              None \<Rightarrow> validate_loop cs f t ctx r (evaluated @ [lc_id c])
            | Some v \<Rightarrow>
                (let vs = cr_violations r @ [v] in
                 validate_loop cs f t ctx
                   (r\<lparr>cr_violations := vs,
                      cr_valid := (if list_ex is_blocking vs then False else cr_valid r)\<rparr>)
                   (evaluated @ [lc_id c]))))"

definition validate_transition ::
  "lifecycle_validator \<Rightarrow> lifecycle_state \<Rightarrow> lifecycle_state \<Rightarrow> json \<Rightarrow> constraint_validation_result"
where
  "validate_transition v f t ctx =
     (let transition = transition_new f t;
          tier = get_as as_str ctx ''tier'';
          transition_valid = (case tier of
              Some tr \<Rightarrow> can_transition_to_for_tier f t tr
            | None \<Rightarrow> transition_is_valid transition) in
      if \<not> transition_valid then
        (let detail = (case tier of
             Some tr \<Rightarrow> ''Invalid transition: '' @ lifecycle_display f @ '' -> '' @
               lifecycle_display t @ '' for tier '' @ quoted tr
           | None \<Rightarrow> ''Invalid transition: '' @ lifecycle_display f @ '' -> '' @
               lifecycle_display t @ ''. '' @
               unwrap_or (transition_validation_error transition) []) in
         result_invalid (violation_error ''builtin:state_machine'' ''State Machine'' detail))
      else validate_loop (lv_constraints v) f t ctx result_valid [])"

definition validate_transition_for_tier ::
  "lifecycle_validator \<Rightarrow> lifecycle_state \<Rightarrow> lifecycle_state \<Rightarrow> string \<Rightarrow> json \<Rightarrow>
   constraint_validation_result" where
  "validate_transition_for_tier v f t tier ctx =
     validate_transition v f t
       (case ctx of
          JObject kvs \<Rightarrow> JObject (AList.update ''tier'' (JString tier) kvs)
        | _ \<Rightarrow> ctx)"

definition validate_with_constraints ::
  "lifecycle_transition \<Rightarrow> lifecycle_constraint list \<Rightarrow> json \<Rightarrow> constraint_validation_result" where
  "validate_with_constraints tr cs ctx =
     validate_transition (with_constraints validator_new cs) (lt_from tr) (lt_to tr) ctx"

definition apply_lifecycle_constraints ::
  "lifecycle_state \<Rightarrow> lifecycle_state \<Rightarrow> json \<Rightarrow> lifecycle_constraint list \<Rightarrow>
   constraint_validation_result" where
  "apply_lifecycle_constraints f t ctx cs =
     validate_transition (with_constraints validator_new cs) f t ctx"

definition apply_default_constraints ::
  "lifecycle_state \<Rightarrow> lifecycle_state \<Rightarrow> json \<Rightarrow> constraint_validation_result" where
  "apply_default_constraints f t ctx = validate_transition with_defaults f t ctx"

section \<open>Entry points of the control plane\<close>

definition context_json :: "validation_context \<Rightarrow> json" where
  "context_json ctx =
     JObject [(''tier'', JString (unwrap_or (vc_tier ctx) ''warm'')),
       (''preflight_status'', JString (preflight_display (vc_preflight_status ctx))),
       (''bypass_preflight'', JBool (vc_bypass_preflight ctx)),
       (''is_hotfix'', JBool (vc_is_hotfix ctx)),
       (''has_artifact'', JBool (vc_has_artifact ctx)),
       (''has_training_evidence'', JBool (vc_has_training_evidence ctx)),
       (''active_references'', JNumber (Some (vc_active_references ctx))),
       (''conflicting_adapters'', JArray (map JString (vc_conflicting_adapters ctx)))]"

definition rule_of_violation :: "constraint_violation \<Rightarrow> rule_violation" where
  "rule_of_violation v =
     (let i = cv_constraint_id v in
      \<lparr>rv_rule =
         (if i = ''builtin:state_machine'' \<or> i = ''builtin:tier_specific'' then ''state_transition''
          else if i = ''builtin:artifact_required'' then ''artifact_required''
          else if i = ''builtin:training_evidence_required'' then ''training_evidence_required''
          else if i = ''builtin:single_active_per_repo'' then ''single_active_per_repo''
          else if i = ''builtin:preflight_required'' then ''preflight_required''
          else if i = ''builtin:no_active_references'' then ''no_active_references''
          else i),
       rv_message = cv_message v,
       rv_bypassable = (i = ''builtin:preflight_required'')\<rparr>)"

definition validate_transition_with_context ::
  "lifecycle_state \<Rightarrow> lifecycle_state \<Rightarrow> validation_context \<Rightarrow> (rule_violation list, unit) result"
where
  "validate_transition_with_context f t ctx =
     (let r = validate_transition with_defaults f t (context_json ctx) in
      if cr_valid r then Ok () else Err (map rule_of_violation (result_errors r)))"

definition can_activate ::
  "lifecycle_state \<Rightarrow> validation_context \<Rightarrow> (rule_violation list, unit) result" where
  "can_activate current ctx = validate_transition_with_context current LS_Active ctx"

definition validate_alias_swap ::
  "lifecycle_state \<Rightarrow> bool \<Rightarrow> validation_context \<Rightarrow> (rule_violation list, unit) result" where
  "validate_alias_swap current allow_training ctx =
     (let target = (if allow_training \<and> current = LS_Training then LS_Ready else LS_Active) in
      validate_transition_with_context current target ctx)"

section \<open>Correctness\<close>

text \<open>Whether one constraint blocks the transition.\<close>

definition blocks ::
  "lifecycle_constraint \<Rightarrow> lifecycle_state \<Rightarrow> lifecycle_state \<Rightarrow> json \<Rightarrow> bool" where
  "blocks c f t ctx \<longleftrightarrow> applies_to_transition c f t \<and>
     (case evaluate_constraint c f t ctx of None \<Rightarrow> False | Some v \<Rightarrow> is_blocking v)"

definition base_valid :: "lifecycle_state \<Rightarrow> lifecycle_state \<Rightarrow> json \<Rightarrow> bool" where
  "base_valid f t ctx = (case get_as as_str ctx ''tier'' of
     Some tr \<Rightarrow> can_transition_to_for_tier f t tr
   | None \<Rightarrow> lifecycle_can_transition_to f t)"

lemma validate_loop_valid:
  "cr_valid r = (\<not> list_ex is_blocking (cr_violations r)) \<Longrightarrow>
   cr_valid (validate_loop cs f t ctx r ev) \<longleftrightarrow>
     cr_valid r \<and> (\<forall>c \<in> set cs. \<not> blocks c f t ctx)"
proof (induction cs arbitrary: r ev)
  case Nil
  then show ?case by simp
next
  case (Cons c cs)
  show ?case
  proof (cases "applies_to_transition c f t")
    case False
    with Cons show ?thesis by (simp add: blocks_def del: applies_to_transition.simps)
  next
    case True
    then show ?thesis
      using Cons.prems
      by (cases "evaluate_constraint c f t ctx")
        (auto simp: Cons.IH blocks_def Let_def simp del: applies_to_transition.simps
           evaluate_constraint.simps)
  qed
qed

lemma validate_transition_valid:
  "cr_valid (validate_transition v f t ctx) \<longleftrightarrow>
     base_valid f t ctx \<and> (\<forall>c \<in> set (lv_constraints v). \<not> blocks c f t ctx)"
  by (auto simp: validate_transition_def base_valid_def Let_def result_invalid_def
        result_valid_def validate_loop_valid lifecycle_can_transition_to_def
      split: option.splits)

lemma validate_loop_violations:
  "cr_violations (validate_loop cs f t ctx r ev) =
     cr_violations r @ List.map_filter
       (\<lambda>c. if applies_to_transition c f t then evaluate_constraint c f t ctx else None) cs"
  by (induction cs arbitrary: r ev)
    (simp_all add: Let_def del: applies_to_transition.simps evaluate_constraint.simps
       split: option.split)

lemma validate_loop_evaluated:
  "cr_evaluated (validate_loop cs f t ctx r ev) =
     ev @ map lc_id (filter (\<lambda>c. applies_to_transition c f t) cs)"
  by (induction cs arbitrary: r ev)
    (simp_all add: Let_def del: applies_to_transition.simps evaluate_constraint.simps
       split: option.split)

subsection \<open>The built-in constraints\<close>

lemmas builtin_defs = tier_specific_def artifact_required_def training_evidence_required_def
  single_active_per_repo_def preflight_required_def no_active_references_def

lemma default_constraints:
  "lv_constraints with_defaults =
     [tier_specific, artifact_required, preflight_required, training_evidence_required,
      single_active_per_repo, no_active_references]"
  by (simp add: with_defaults_def with_constraint_def validator_new_def builtin_defs)

lemma context_get:
  "get_as as_str (context_json ctx) ''tier'' = Some (unwrap_or (vc_tier ctx) ''warm'')"
  "get_as as_str (context_json ctx) ''preflight_status'' =
     Some (preflight_display (vc_preflight_status ctx))"
  "get_as as_bool (context_json ctx) ''bypass_preflight'' = Some (vc_bypass_preflight ctx)"
  "get_as as_bool (context_json ctx) ''is_hotfix'' = Some (vc_is_hotfix ctx)"
  "get_as as_bool (context_json ctx) ''has_artifact'' = Some (vc_has_artifact ctx)"
  "get_as as_bool (context_json ctx) ''has_training_evidence'' =
     Some (vc_has_training_evidence ctx)"
  "get_as as_u64 (context_json ctx) ''active_references'' = Some (vc_active_references ctx)"
  "get_as as_array (context_json ctx) ''conflicting_adapters'' =
     Some (map JString (vc_conflicting_adapters ctx))"
  by (simp_all add: get_as_def context_json_def)

lemma preflight_passed: "preflight_display p = ''passed'' \<longleftrightarrow> p = PS_Passed"
  by (cases p) simp_all

lemma blocking_simps [simp]:
  "is_blocking (violation_error i n m)" "\<not> is_blocking (violation_warning i n m)"
  "is_blocking (with_context v j) = is_blocking v"
  by (simp_all add: is_blocking_def violation_error_def violation_warning_def with_context_def)

lemma blocks_builtin:
  "blocks tier_specific f t (context_json ctx) \<longleftrightarrow>
     \<not> can_transition_to_for_tier f t (unwrap_or (vc_tier ctx) ''warm'')"
  "blocks artifact_required f t (context_json ctx) \<longleftrightarrow>
     t \<in> {LS_Ready, LS_Active, LS_Deprecated, LS_Retired} \<and> \<not> vc_has_artifact ctx"
  "blocks training_evidence_required f t (context_json ctx) \<longleftrightarrow>
     t = LS_Active \<and> \<not> vc_has_training_evidence ctx"
  "blocks single_active_per_repo f t (context_json ctx) \<longleftrightarrow>
     t = LS_Active \<and> vc_conflicting_adapters ctx \<noteq> []"
  "blocks preflight_required f t (context_json ctx) \<longleftrightarrow>
     f = LS_Ready \<and> t = LS_Active \<and> \<not> preflight_satisfied ctx"
  "\<not> blocks no_active_references f t (context_json ctx)"
  by (auto simp: blocks_def builtin_defs context_get Let_def evaluate_tier_constraint_def
        evaluate_artifact_constraint_def evaluate_training_evidence_constraint_def
        evaluate_single_active_constraint_def evaluate_preflight_constraint_def
        evaluate_no_references_constraint_def preflight_satisfied_def preflight_passed)

lemma context_validation:
  "cr_valid (validate_transition with_defaults f t (context_json ctx)) \<longleftrightarrow>
     can_transition_to_for_tier f t (unwrap_or (vc_tier ctx) ''warm'') \<and>
     (t \<in> {LS_Ready, LS_Active, LS_Deprecated, LS_Retired} \<longrightarrow> vc_has_artifact ctx) \<and>
     (t = LS_Active \<longrightarrow> vc_has_training_evidence ctx \<and> vc_conflicting_adapters ctx = []) \<and>
     (f = LS_Ready \<and> t = LS_Active \<longrightarrow> preflight_satisfied ctx)"
  by (auto simp: validate_transition_valid default_constraints blocks_builtin base_valid_def
        context_get)

lemma context_is_ok:
  "is_ok (validate_transition_with_context f t ctx) \<longleftrightarrow>
     cr_valid (validate_transition with_defaults f t (context_json ctx))"
  by (simp add: validate_transition_with_context_def Let_def)

subsection \<open>What the entry points promise\<close>

text \<open>
  (C19) The lifecycle entry point accepts a transition exactly when the documented rules
  hold: the move is allowed for the tier (warm when none is given); an artifact is present
  before entering ready, active, deprecated or retired; activation needs training evidence
  and no other active adapter of the repository; and activation from ready needs preflight
  to be passed or bypassed.
\<close>

theorem lifecycle_validation_complete:
  "is_ok (validate_transition_with_context f t ctx) \<longleftrightarrow>
     lifecycle_move (unwrap_or (vc_tier ctx) ''warm'') f t \<and>
     (t \<in> {LS_Ready, LS_Active, LS_Deprecated, LS_Retired} \<longrightarrow> vc_has_artifact ctx) \<and>
     (t = LS_Active \<longrightarrow> vc_has_training_evidence ctx \<and> vc_conflicting_adapters ctx = []) \<and>
     (f = LS_Ready \<and> t = LS_Active \<longrightarrow> preflight_satisfied ctx)"
  by (simp only: context_is_ok context_validation tier_move)

definition activation_context :: validation_context where
  "activation_context = validation_context_new
     \<lparr>vc_has_artifact := True, vc_has_training_evidence := True\<rparr>"

theorem lifecycle_validation_complete_witness:
  "\<not> is_ok (validate_transition_with_context LS_Ready LS_Active activation_context) \<and>
   is_ok (validate_transition_with_context LS_Ready LS_Active
     (activation_context\<lparr>vc_preflight_status := PS_Passed\<rparr>))"
  unfolding lifecycle_validation_complete
  by (simp add: activation_context_def validation_context_new_def preflight_satisfied_def
        lifecycle_move.intros)

lemma evaluate_constraint_id:
  "evaluate_constraint c f t ctx = Some v \<Longrightarrow> cv_constraint_id v = lc_id c"
  by (auto simp: Let_def evaluate_tier_constraint_def
        evaluate_artifact_constraint_def evaluate_training_evidence_constraint_def
        evaluate_single_active_constraint_def evaluate_preflight_constraint_def
        evaluate_no_references_constraint_def violation_error_def violation_warning_def
        with_context_def split: constraint_type.splits if_splits)

lemma loop_errors_ids:
  "(\<exists>v \<in> set (result_errors (validate_loop cs f t ctx result_valid [])). P (cv_constraint_id v))
     \<longleftrightarrow> (\<exists>c \<in> set cs. blocks c f t ctx \<and> P (lc_id c))"
  by (force simp: result_errors_def validate_loop_violations result_valid_def blocks_def
        List.map_filter_def dest: evaluate_constraint_id
        simp del: applies_to_transition.simps evaluate_constraint.simps
        split: option.splits if_splits)

lemma bypassable_iff: "rv_bypassable (rule_of_violation v) \<longleftrightarrow>
    cv_constraint_id v = ''builtin:preflight_required''"
  by (simp add: rule_of_violation_def Let_def)

lemma context_errors_bypassable:
  assumes "validate_transition_with_context f t ctx = Err vs"
  shows "(\<forall>v \<in> set vs. rv_bypassable v) \<longleftrightarrow>
     base_valid f t (context_json ctx) \<and>
     (\<forall>c \<in> set (lv_constraints with_defaults).
        blocks c f t (context_json ctx) \<longrightarrow> lc_id c = ''builtin:preflight_required'')"
proof -
  let ?r = "validate_transition with_defaults f t (context_json ctx)"
  have vs: "vs = map rule_of_violation (result_errors ?r)"
    using assms by (auto simp: validate_transition_with_context_def Let_def split: if_splits)
  show ?thesis
  proof (cases "base_valid f t (context_json ctx)")
    case False
    then have "result_errors ?r =
        [violation_error ''builtin:state_machine'' ''State Machine''
          (cv_message (hd (cr_violations ?r)))]"
      by (auto simp: validate_transition_def base_valid_def Let_def result_invalid_def
            result_errors_def lifecycle_can_transition_to_def violation_error_def is_blocking_def
          split: option.splits)
    with False show ?thesis
      by (simp add: vs bypassable_iff) (simp add: violation_error_def)
  next
    case True
    then have "?r = validate_loop (lv_constraints with_defaults) f t (context_json ctx)
        result_valid []"
      by (auto simp: validate_transition_def base_valid_def Let_def
            lifecycle_can_transition_to_def split: option.splits)
    then show ?thesis
      using True loop_errors_ids [of "lv_constraints with_defaults" f t "context_json ctx"
          "\<lambda>i. i \<noteq> ''builtin:preflight_required''"]
      unfolding vs by (simp add: bypassable_iff) blast
  qed
qed

text \<open>
  The bypass flag of the reported violations is meaningful: after a rejection, every
  reported violation is marked bypassable exactly when the same transition is accepted
  with the preflight bypass switched on.
\<close>

theorem bypassable_rejections:
  assumes "validate_transition_with_context f t ctx = Err vs"
  shows "(\<forall>v \<in> set vs. rv_bypassable v) \<longleftrightarrow>
         is_ok (validate_transition_with_context f t (ctx\<lparr>vc_bypass_preflight := True\<rparr>))"
proof -
  have "(\<forall>v \<in> set vs. rv_bypassable v) \<longleftrightarrow>
      can_transition_to_for_tier f t (unwrap_or (vc_tier ctx) ''warm'') \<and>
      (t \<in> {LS_Ready, LS_Active, LS_Deprecated, LS_Retired} \<longrightarrow> vc_has_artifact ctx) \<and>
      (t = LS_Active \<longrightarrow> vc_has_training_evidence ctx \<and> vc_conflicting_adapters ctx = [])"
    by (simp add: context_errors_bypassable [OF assms] default_constraints blocks_builtin
          base_valid_def context_get) (auto simp: builtin_defs)
  then show ?thesis
    by (simp add: context_is_ok context_validation preflight_satisfied_def)
qed

theorem bypassable_rejections_witness:
  "\<exists>vs. validate_transition_with_context LS_Ready LS_Active activation_context = Err vs \<and>
     (\<forall>v \<in> set vs. rv_bypassable v)"
proof -
  have no: "\<not> is_ok (validate_transition_with_context LS_Ready LS_Active activation_context)"
    by (simp add: context_is_ok context_validation activation_context_def
          validation_context_new_def preflight_satisfied_def)
  then obtain vs where vs:
    "validate_transition_with_context LS_Ready LS_Active activation_context = Err vs"
    by (cases "validate_transition_with_context LS_Ready LS_Active activation_context") auto
  have "is_ok (validate_transition_with_context LS_Ready LS_Active
      (activation_context\<lparr>vc_bypass_preflight := True\<rparr>))"
    by (simp add: context_is_ok context_validation activation_context_def state_simps
          validation_context_new_def preflight_satisfied_def)
  with bypassable_rejections [OF vs] vs show ?thesis by blast
qed

text \<open>
  A custom set of constraints means the same in whatever order it is supplied: two
  permutations of a constraint list accept the same transitions and report the same
  violations, counted with multiplicity.
\<close>

theorem constraint_order_irrelevant:
  assumes "mset cs = mset ds"
  shows "cr_valid (apply_lifecycle_constraints f t ctx cs) =
           cr_valid (apply_lifecycle_constraints f t ctx ds) \<and>
         mset (cr_violations (apply_lifecycle_constraints f t ctx cs)) =
           mset (cr_violations (apply_lifecycle_constraints f t ctx ds))"
proof -
  have "set cs = set ds" using assms by (rule mset_eq_setD)
  moreover have "mset (List.map_filter g cs) = mset (List.map_filter g ds)"
    for g :: "lifecycle_constraint \<Rightarrow> constraint_violation option"
    using assms by (metis List.map_filter_def mset_filter mset_map)
  moreover have "mset (List.map_filter g (sort_key p xs)) = mset (List.map_filter g xs)"
    for g :: "lifecycle_constraint \<Rightarrow> constraint_violation option"
    and p :: "lifecycle_constraint \<Rightarrow> int" and xs
    by (metis List.map_filter_def mset_filter mset_map mset_sort)
  ultimately show ?thesis
    unfolding apply_lifecycle_constraints_def validate_transition_valid
    by (simp add: with_constraints_def validator_new_def validate_transition_def Let_def
          validate_loop_violations)
qed

theorem constraint_order_irrelevant_witness:
  "cr_valid (apply_lifecycle_constraints LS_Draft LS_Training JNull
     [tier_specific, custom_constraint ''x'' ''X'' ''r'']) =
   cr_valid (apply_lifecycle_constraints LS_Draft LS_Training JNull
     [custom_constraint ''x'' ''X'' ''r'', tier_specific])"
  using constraint_order_irrelevant
    [of "[tier_specific, custom_constraint ''x'' ''X'' ''r'']"
        "[custom_constraint ''x'' ''X'' ''r'', tier_specific]" LS_Draft LS_Training JNull]
  by simp

text \<open>
  Constraints are evaluated by descending priority, equal priorities in the order in
  which they were supplied: the evaluated identifiers of an accepted state-machine move are
  those of the applicable constraints in the stable priority order.
\<close>

theorem evaluated_in_priority_order:
  assumes "base_valid f t ctx"
  shows "\<exists>order. cr_evaluated (apply_lifecycle_constraints f t ctx cs) =
             map lc_id (filter (\<lambda>c. applies_to_transition c f t) order) \<and>
           mset order = mset cs \<and>
           sorted_wrt (\<lambda>c d. lc_priority c \<ge> lc_priority d) order \<and>
           (\<forall>p. filter (\<lambda>c. lc_priority c = p) order = filter (\<lambda>c. lc_priority c = p) cs)"
proof (intro exI conjI allI)
  let ?order = "sort_key (\<lambda>c. - lc_priority c) cs"
  show "cr_evaluated (apply_lifecycle_constraints f t ctx cs) =
      map lc_id (filter (\<lambda>c. applies_to_transition c f t) ?order)"
    using assms
    by (auto simp: apply_lifecycle_constraints_def validate_transition_def base_valid_def
          with_constraints_def validator_new_def validate_loop_evaluated Let_def
          lifecycle_can_transition_to_def split: option.splits)
  show "mset ?order = mset cs" by simp
  have "sorted (map (\<lambda>c. - lc_priority c) ?order)" by (rule sorted_sort_key)
  then show "sorted_wrt (\<lambda>c d. lc_priority c \<ge> lc_priority d) ?order"
    by (simp add: sorted_wrt_map)
  show "filter (\<lambda>c. lc_priority c = p) ?order = filter (\<lambda>c. lc_priority c = p) cs" for p
    using sort_key_stable [of "\<lambda>c. - lc_priority c" "- p" cs] by simp
qed

theorem evaluated_in_priority_order_witness:
  "cr_evaluated (apply_lifecycle_constraints LS_Ready LS_Active JNull [artifact_required]) =
     [''builtin:artifact_required'']"
proof -
  have "base_valid LS_Ready LS_Active JNull"
    by (simp add: base_valid_def get_as_def state_simps)
  from evaluated_in_priority_order [OF this, of "[artifact_required]"] show ?thesis
    by (auto simp: artifact_required_def)
qed

text \<open>
  An alias swap that validates is one the state allows: the adapter is ready or
  active, or in training with training swaps allowed; it has its artifact; and outside
  training no other adapter of the repository is active.
\<close>

theorem alias_swap_safe:
  assumes "is_ok (validate_alias_swap s allow_training ctx)"
  shows "allows_alias_swap s allow_training \<and> vc_has_artifact ctx \<and>
         (s \<noteq> LS_Training \<longrightarrow> vc_conflicting_adapters ctx = [])"
  using assms
  by (cases s)
    (auto simp: validate_alias_swap_def context_is_ok context_validation state_simps Let_def
       split: if_splits)

theorem alias_swap_safe_witness:
  "allows_alias_swap LS_Active False \<and> vc_has_artifact activation_context \<and>
   vc_conflicting_adapters activation_context = []"
proof -
  have "is_ok (validate_alias_swap LS_Active False activation_context)"
    by (simp add: validate_alias_swap_def context_is_ok context_validation state_simps
          activation_context_def validation_context_new_def)
  from alias_swap_safe [OF this] show ?thesis by simp
qed

end
