(* ===== verification/WorkerLifecycle.thy ===== *)
theory WorkerLifecycle
  imports AosPrelude
begin

text \<open>
  Worker lifecycle status, \<open>crates/adapteros-core/src/worker_status.rs\<close>: the statuses, the
  forward and backward transition tables, the checked transition and its errors, and the
  parser with its legacy names.
\<close>

section \<open>Statuses and tables\<close>

datatype worker_status =
    WS_Pending
  | WS_Created
  | WS_Registered
  | WS_Healthy
  | WS_Draining
  | WS_Stopped
  | WS_Error

definition can_serve :: "worker_status \<Rightarrow> bool" where
  [state_simps]: "can_serve s \<longleftrightarrow> s = WS_Healthy"

definition worker_is_terminal :: "worker_status \<Rightarrow> bool" where
  [state_simps]: "worker_is_terminal s \<longleftrightarrow> s \<in> {WS_Stopped, WS_Error}"

definition is_running :: "worker_status \<Rightarrow> bool" where
  [state_simps]: "is_running s \<longleftrightarrow>
     s \<in> {WS_Pending, WS_Created, WS_Registered, WS_Healthy, WS_Draining}"

fun worker_valid_transitions :: "worker_status \<Rightarrow> worker_status list" where
  "worker_valid_transitions WS_Pending = [WS_Created, WS_Error]"
| "worker_valid_transitions WS_Created = [WS_Registered, WS_Error]"
| "worker_valid_transitions WS_Registered = [WS_Healthy, WS_Error]"
| "worker_valid_transitions WS_Healthy = [WS_Draining, WS_Error]"
| "worker_valid_transitions WS_Draining = [WS_Stopped, WS_Error]"
| "worker_valid_transitions WS_Stopped = []"
| "worker_valid_transitions WS_Error = []"

fun worker_valid_predecessors :: "worker_status \<Rightarrow> worker_status list" where
  "worker_valid_predecessors WS_Pending = []"
| "worker_valid_predecessors WS_Created = [WS_Pending]"
| "worker_valid_predecessors WS_Registered = [WS_Created]"
| "worker_valid_predecessors WS_Healthy = [WS_Registered]"
| "worker_valid_predecessors WS_Draining = [WS_Healthy]"
| "worker_valid_predecessors WS_Stopped = [WS_Draining]"
| "worker_valid_predecessors WS_Error =
     [WS_Pending, WS_Created, WS_Registered, WS_Healthy, WS_Draining]"

definition worker_can_transition_to :: "worker_status \<Rightarrow> worker_status \<Rightarrow> bool" where
  [state_simps]: "worker_can_transition_to s t =
     (if s = t then True else t \<in> set (worker_valid_transitions s))"

fun worker_as_str :: "worker_status \<Rightarrow> string" where
  "worker_as_str WS_Pending = ''pending''"
| "worker_as_str WS_Created = ''created''"
| "worker_as_str WS_Registered = ''registered''"
| "worker_as_str WS_Healthy = ''healthy''"
| "worker_as_str WS_Draining = ''draining''"
| "worker_as_str WS_Stopped = ''stopped''"
| "worker_as_str WS_Error = ''error''"

fun worker_legacy_alias :: "worker_status \<Rightarrow> string" where
  "worker_legacy_alias WS_Pending = ''starting''"
| "worker_legacy_alias WS_Created = ''starting''"
| "worker_legacy_alias WS_Registered = ''starting''"
| "worker_legacy_alias WS_Healthy = ''serving''"
| "worker_legacy_alias WS_Draining = ''draining''"
| "worker_legacy_alias WS_Stopped = ''stopped''"
| "worker_legacy_alias WS_Error = ''crashed''"

text \<open>The derived \<open>Debug\<close> text of a status and of a slice of statuses.\<close>

fun worker_debug :: "worker_status \<Rightarrow> string" where
  "worker_debug WS_Pending = ''Pending''"
| "worker_debug WS_Created = ''Created''"
| "worker_debug WS_Registered = ''Registered''"
| "worker_debug WS_Healthy = ''Healthy''"
| "worker_debug WS_Draining = ''Draining''"
| "worker_debug WS_Stopped = ''Stopped''"
| "worker_debug WS_Error = ''Error''"

definition worker_debug_list :: "worker_status list \<Rightarrow> string" where
  "worker_debug_list ss = ''['' @ join_with '', '' (map worker_debug ss) @ '']''"

definition worker_transition_error :: "worker_status \<Rightarrow> worker_status \<Rightarrow> aos_error" where
  "worker_transition_error s t =
     ELifecycle (''Invalid worker transition: '' @ worker_as_str s @ '' -> '' @ worker_as_str t @
       ''. Valid transitions from '' @ worker_as_str s @ '': '' @
       worker_debug_list (worker_valid_transitions s))"

definition worker_transition_to ::
  "worker_status \<Rightarrow> worker_status \<Rightarrow> (aos_error, worker_status) result" where
  "worker_transition_to s t =
     (if worker_can_transition_to s t then Ok t else Err (worker_transition_error s t))"

definition worker_from_str :: "string \<Rightarrow> (aos_error, worker_status) result" where
  "worker_from_str s =
     (let l = to_lowercase s in
      if l = ''pending'' then Ok WS_Pending
      else if l = ''created'' \<or> l = ''starting'' then Ok WS_Created
      else if l = ''registered'' then Ok WS_Registered
      else if l = ''healthy'' \<or> l = ''serving'' then Ok WS_Healthy
      else if l = ''draining'' then Ok WS_Draining
      else if l = ''stopped'' then Ok WS_Stopped
      else if l = ''error'' \<or> l = ''crashed'' then Ok WS_Error
      else Err (EValidation (''Invalid worker status: '' @ s @
        ''. Must be one of: pending, created, registered, healthy, draining, stopped, error'')))"

record worker_status_transition =
  wt_from :: worker_status
  wt_to :: worker_status

definition worker_transition_is_valid :: "worker_status_transition \<Rightarrow> bool" where
  "worker_transition_is_valid tr = worker_can_transition_to (wt_from tr) (wt_to tr)"

definition worker_transition_validate ::
  "worker_status_transition \<Rightarrow> (aos_error, unit) result" where
  "worker_transition_validate tr =
     (if worker_transition_is_valid tr then Ok ()
      else Err (worker_transition_error (wt_from tr) (wt_to tr)))"

definition worker_transition_validation_error :: "worker_status_transition \<Rightarrow> string option" where
  "worker_transition_validation_error tr =
     (if worker_transition_is_valid tr then None
      else Some (''Cannot transition worker from '' @ worker_as_str (wt_from tr) @ '' to '' @
        worker_as_str (wt_to tr) @ ''. Valid next states: '' @
        worker_debug_list (worker_valid_transitions (wt_from tr))))"

section \<open>Correctness\<close>

fun worker_rank :: "worker_status \<Rightarrow> nat" where
  "worker_rank WS_Pending = 0"
| "worker_rank WS_Created = 1"
| "worker_rank WS_Registered = 2"
| "worker_rank WS_Healthy = 3"
| "worker_rank WS_Draining = 4"
| "worker_rank WS_Stopped = 5"
| "worker_rank WS_Error = 5"

interpretation worker_machine:
  ranked_machine worker_can_transition_to worker_is_terminal worker_rank
proof
  fix s t
  show "worker_is_terminal s \<Longrightarrow> worker_can_transition_to s t \<Longrightarrow> t = s"
    by (auto simp: state_simps split: if_splits)
  show "worker_can_transition_to s t \<Longrightarrow> s \<noteq> t \<Longrightarrow> worker_rank s < worker_rank t"
    by (cases s) (auto simp: state_simps)
qed

interpretation worker_codec: str_codec worker_as_str worker_from_str
proof
  fix x show "worker_from_str (worker_as_str x) = Ok x"
    by (cases x) (simp_all add: worker_from_str_def to_lowercase_def lower_char_def)
next
  fix s x
  show "worker_from_str (to_lowercase s) = Ok x \<longleftrightarrow> worker_from_str s = Ok x"
    by (simp add: worker_from_str_def Let_def)
qed

text \<open>
  The forward and the backward table describe the same transitions, and the states
  with no way out are exactly the terminal ones, those in which the worker is not running.
\<close>

theorem worker_tables_agree:
  "(t \<in> set (worker_valid_transitions s) \<longleftrightarrow> s \<in> set (worker_valid_predecessors t)) \<and>
   (worker_valid_transitions s = [] \<longleftrightarrow> worker_is_terminal s) \<and>
   (worker_is_terminal s \<longleftrightarrow> \<not> is_running s)"
  by (cases s; cases t) (simp_all add: state_simps)

lemma worker_step:
  "worker_can_transition_to s t \<and> s \<noteq> t \<longleftrightarrow> t \<in> set (worker_valid_transitions s)"
  by (cases s) (auto simp: state_simps)

text \<open>
  A worker stops cleanly along one path only: a run of proper transitions from
  pending to stopped is created, registered, healthy, draining, stopped. In particular a
  stopped worker has drained, and only a registered worker has served.
\<close>

theorem worker_clean_stop_path:
  assumes "run_ok (\<lambda>s t. worker_can_transition_to s t \<and> s \<noteq> t) WS_Pending ts"
    and "last (WS_Pending # ts) = WS_Stopped"
  shows "ts = [WS_Created, WS_Registered, WS_Healthy, WS_Draining, WS_Stopped]"
proof -
  have dead: "run_ok (\<lambda>s t. t \<in> set (worker_valid_transitions s)) s ts \<Longrightarrow>
      worker_is_terminal s \<Longrightarrow> ts = []" for s ts
    by (cases ts) (auto simp: state_simps)
  have step: "run_ok (\<lambda>s t. t \<in> set (worker_valid_transitions s)) s ts \<Longrightarrow>
      last (s # ts) = WS_Stopped \<Longrightarrow> worker_valid_transitions s = [n, WS_Error] \<Longrightarrow>
      s \<noteq> WS_Stopped \<Longrightarrow> \<exists>us. ts = n # us \<and>
        run_ok (\<lambda>s t. t \<in> set (worker_valid_transitions s)) n us \<and>
        last (n # us) = WS_Stopped" for s n ts
    by (cases ts) (auto dest: dead simp: worker_is_terminal_def)
  from assms(1) have "run_ok (\<lambda>s t. t \<in> set (worker_valid_transitions s)) WS_Pending ts"
    unfolding worker_step .
  from step [OF this assms(2), of WS_Created] show ?thesis
    by (auto dest!: step [of WS_Created _ WS_Registered] step [of WS_Registered _ WS_Healthy]
          step [of WS_Healthy _ WS_Draining] step [of WS_Draining _ WS_Stopped]
        dest: dead [of WS_Stopped] simp: worker_is_terminal_def)
qed

theorem worker_clean_stop_path_witness:
  "\<exists>ts. run_ok (\<lambda>s t. worker_can_transition_to s t \<and> s \<noteq> t) WS_Pending ts \<and>
     last (WS_Pending # ts) = WS_Stopped \<and>
     ts = [WS_Created, WS_Registered, WS_Healthy, WS_Draining, WS_Stopped]"
proof -
  let ?ts = "[WS_Created, WS_Registered, WS_Healthy, WS_Draining, WS_Stopped]"
  have run: "run_ok (\<lambda>s t. worker_can_transition_to s t \<and> s \<noteq> t) WS_Pending ?ts"
    by (simp add: state_simps)
  have stop: "last (WS_Pending # ?ts) = WS_Stopped" by simp
  show ?thesis using run stop worker_clean_stop_path [OF run stop] by blast
qed

text \<open>
  A worker's life is finite and never repeats a status: a run of proper transitions
  has at most five steps, two statuses that reach each other are equal, and a worker that
  reached a terminal status stays there.
\<close>

theorem worker_life_is_finite:
  assumes "run_ok (\<lambda>s t. worker_can_transition_to s t \<and> s \<noteq> t) s ts"
  shows "length ts \<le> 5 \<and> (worker_can_transition_to\<^sup>*\<^sup>* (last (s # ts)) s \<longrightarrow> ts = []) \<and>
         (worker_is_terminal s \<longrightarrow> ts = [])"
proof (intro conjI impI)
  let ?l = "last (s # ts)"
  have rank: "worker_rank s + length ts \<le> worker_rank ?l"
    using assms by (rule worker_machine.run_rank)
  moreover have "worker_rank u \<le> 5" for u by (cases u) simp_all
  ultimately show "length ts \<le> 5" by (meson add_leE le_trans)
  { assume "worker_can_transition_to\<^sup>*\<^sup>* ?l s"
    then have "worker_rank ?l \<le> worker_rank s"
      using worker_machine.path_rank by blast
    with rank have "length ts = 0" by linarith
    then show "ts = []" by simp }
  assume "worker_is_terminal s"
  with assms show "ts = []"
    by (cases ts) (auto dest: worker_machine.terminal_stuck)
qed

theorem worker_life_is_finite_witness:
  "length [WS_Created, WS_Error] \<le> 5"
  using worker_life_is_finite [of WS_Pending "[WS_Created, WS_Error]"]
  by (simp add: state_simps)

text \<open>
  Parsing is a left inverse of printing, in any letter case; the legacy names parse
  to the status they stand for, except that the three starting statuses share one legacy
  name and all come back as created.
\<close>

theorem worker_parse_roundtrip:
  "worker_from_str (worker_as_str s) = Ok s \<and>
   (to_lowercase w = worker_as_str s \<longrightarrow> worker_from_str w = Ok s) \<and>
   worker_from_str (worker_legacy_alias s) =
     Ok (if s \<in> {WS_Pending, WS_Registered} then WS_Created else s)"
proof (intro conjI impI)
  show "worker_from_str (worker_as_str s) = Ok s" by (rule worker_codec.dec_enc)
  show "worker_from_str w = Ok s" if "to_lowercase w = worker_as_str s"
    using that worker_codec.dec_lower [of w s] worker_codec.dec_enc [of s] by simp
  show "worker_from_str (worker_legacy_alias s) =
     Ok (if s \<in> {WS_Pending, WS_Registered} then WS_Created else s)"
    by (cases s) (simp_all add: worker_from_str_def to_lowercase_def lower_char_def)
qed

theorem worker_parse_roundtrip_witness: "worker_from_str ''DrainING'' = Ok WS_Draining"
proof -
  have "to_lowercase ''DrainING'' = worker_as_str WS_Draining" by code_simp
  then show ?thesis using worker_parse_roundtrip [of WS_Draining "''DrainING''"] by blast
qed

end
