(* ===== verification/B3Hash.thy ===== *)
theory B3Hash
  imports AosPrelude "HOL-Library.List_Lexorder" "HOL-Library.Char_ord"
begin

text \<open>
  The hash newtype of \<open>crates/adapteros-infra-common/src/hash.rs\<close>. BLAKE3 and the hexadecimal
  codec are third-party crates: the digest function \<open>H\<close>, \<open>hex_encode\<close> and \<open>hex_decode\<close> are
  arguments of the definitions that use them, and what is relied on (a digest has 32
  bytes, decoding inverts encoding, no collision among the inputs at hand) is a hypothesis
  of the lemma that needs it.
\<close>

type_synonym b3hash = bytes
type_synonym hash_fn = "bytes \<Rightarrow> b3hash"

text \<open>The array length of the newtype, \<open>[u8; 32]\<close>.\<close>

definition b3_wf :: "b3hash \<Rightarrow> bool" where
  "b3_wf h \<longleftrightarrow> length h = 32"

definition b3_hash :: "hash_fn \<Rightarrow> bytes \<Rightarrow> b3hash" where
  "b3_hash H bs = H bs"

definition b3_hash_multi :: "hash_fn \<Rightarrow> bytes list \<Rightarrow> b3hash" where
  "b3_hash_multi H slices = H (concat slices)"

definition b3_to_hex :: "(bytes \<Rightarrow> string) \<Rightarrow> b3hash \<Rightarrow> string" where
  "b3_to_hex hex_encode h = hex_encode h"

definition b3_to_short_hex :: "(bytes \<Rightarrow> string) \<Rightarrow> b3hash \<Rightarrow> string" where
  "b3_to_short_hex hex_encode h = hex_encode (take 8 h)"

definition b3_is_zero :: "b3hash \<Rightarrow> bool" where
  "b3_is_zero h = list_all (\<lambda>b. b = 0) h"

definition b3_zero :: b3hash where
  "b3_zero = replicate 32 0"

datatype hash_error = InvalidHash string

definition b3_from_hex ::
  "(string \<Rightarrow> string + bytes) \<Rightarrow> string \<Rightarrow> (hash_error, b3hash) result" where
  "b3_from_hex hex_decode s =
     (case hex_decode s of
        Inl e \<Rightarrow> Err (InvalidHash (''Invalid hex: '' @ e))
      | Inr bs \<Rightarrow>
          (if length bs \<noteq> 32
           then Err (InvalidHash (''Expected 32 bytes, got '' @ show_nat (length bs)))
           else Ok bs))"

text \<open>\<open>str::as_bytes\<close>: a string is its list of UTF-8 bytes.\<close>

definition str_bytes :: "string \<Rightarrow> bytes" where
  "str_bytes s = map of_char s"

lemma of_char_u8_inj: "inj (of_char :: char \<Rightarrow> u8)"
proof (rule injI)
  fix a b assume "(of_char a :: u8) = of_char b"
  then have "(of_nat (of_char a) :: u8) = of_nat (of_char b)" by (simp add: of_nat_of_char)
  then show "a = b"
    using nat_of_char_less_256 [of a] nat_of_char_less_256 [of b]
    by (simp add: word_of_nat_eq_iff take_bit_nat_eq_self)
qed

lemma str_bytes_inj: "str_bytes s = str_bytes t \<longleftrightarrow> s = t"
  by (simp add: str_bytes_def inj_map_eq_map [OF of_char_u8_inj])

lemma b3_zero_wf [simp]: "b3_wf b3_zero" "b3_is_zero b3_zero"
  by (simp_all add: b3_wf_def b3_zero_def b3_is_zero_def list_all_iff)

lemma b3_is_zero_iff: "b3_wf h \<Longrightarrow> b3_is_zero h \<longleftrightarrow> h = b3_zero"
  by (auto simp: b3_wf_def b3_zero_def b3_is_zero_def list_all_iff intro!: replicate_eqI)

lemma b3_from_hex_wf: "b3_from_hex hex_decode s = Ok h \<Longrightarrow> b3_wf h"
  by (auto simp: b3_from_hex_def b3_wf_def split: sum.splits if_splits)

lemma b3_hex_roundtrip:
  assumes "\<And>bs. hex_decode (hex_encode bs) = Inr bs" and "b3_wf h"
  shows "b3_from_hex hex_decode (b3_to_hex hex_encode h) = Ok h"
  using assms by (simp add: b3_from_hex_def b3_to_hex_def b3_wf_def)

lemma append_wf_inject:
  "b3_wf a \<Longrightarrow> b3_wf c \<Longrightarrow> a @ b = c @ d \<longleftrightarrow> a = c \<and> b = d"
  by (simp add: b3_wf_def)

end
