(* ===== verification/BootSequence.thy ===== *)
theory BootSequence
  imports B3Hash
begin

text \<open>
  The boot lifecycle, \<open>crates/adapteros-boot/src/phase.rs\<close> (phases, their predicates, the
  transition table) and \<open>lifecycle_builder.rs\<close> (the phase-gated builder with its timings
  and the standard boot sequence). The clock is an argument: an \<open>Instant\<close> is a number of
  nanoseconds.
\<close>

section \<open>Phases\<close>

datatype boot_phase =
    BP_Stopped
  | BP_Starting
  | BP_SecurityInit
  | BP_ExecutorInit
  | BP_Preflight
  | BP_BootInvariants
  | BP_DbConnecting
  | BP_Migrating
  | BP_PostDbInvariants
  | BP_StartupRecovery
  | BP_Seeding
  | BP_LoadingPolicies
  | BP_StartingBackend
  | BP_LoadingBaseModels
  | BP_LoadingAdapters
  | BP_WorkerDiscovery
  | BP_RouterBuild
  | BP_Finalize
  | BP_Bind
  | BP_Ready
  | BP_FullyReady
  | BP_Degraded
  | BP_Failed
  | BP_Maintenance
  | BP_Draining
  | BP_Stopping

definition phase_is_ready :: "boot_phase \<Rightarrow> bool" where
  [state_simps]: "phase_is_ready p \<longleftrightarrow> p \<in> {BP_Ready, BP_FullyReady}"

definition phase_is_draining :: "boot_phase \<Rightarrow> bool" where
  [state_simps]: "phase_is_draining p \<longleftrightarrow> p \<in> {BP_Draining, BP_Stopping}"

definition phase_is_terminal :: "boot_phase \<Rightarrow> bool" where
  [state_simps]: "phase_is_terminal p \<longleftrightarrow> p \<in> {BP_Stopping, BP_Failed}"

definition phase_is_booting :: "boot_phase \<Rightarrow> bool" where
  [state_simps]: "phase_is_booting p \<longleftrightarrow>
     p \<in> {BP_Starting, BP_SecurityInit, BP_ExecutorInit, BP_Preflight, BP_BootInvariants,
          BP_DbConnecting, BP_Migrating, BP_PostDbInvariants, BP_StartupRecovery, BP_Seeding,
          BP_LoadingPolicies, BP_StartingBackend, BP_LoadingBaseModels, BP_LoadingAdapters,
          BP_WorkerDiscovery, BP_RouterBuild, BP_Finalize, BP_Bind}"

fun phase_as_str :: "boot_phase \<Rightarrow> string" where
  "phase_as_str BP_Stopped = ''stopped''"
| "phase_as_str BP_Starting = ''starting''"
| "phase_as_str BP_SecurityInit = ''security-init''"
| "phase_as_str BP_ExecutorInit = ''executor-init''"
| "phase_as_str BP_Preflight = ''preflight''"
| "phase_as_str BP_BootInvariants = ''boot-invariants''"
| "phase_as_str BP_DbConnecting = ''db-connecting''"
| "phase_as_str BP_Migrating = ''migrating''"
| "phase_as_str BP_PostDbInvariants = ''post-db-invariants''"
| "phase_as_str BP_StartupRecovery = ''startup-recovery''"
| "phase_as_str BP_Seeding = ''seeding''"
| "phase_as_str BP_LoadingPolicies = ''loading-policies''"
| "phase_as_str BP_StartingBackend = ''starting-backend''"
| "phase_as_str BP_LoadingBaseModels = ''loading-base-models''"
| "phase_as_str BP_LoadingAdapters = ''loading-adapters''"
| "phase_as_str BP_WorkerDiscovery = ''worker-discovery''"
| "phase_as_str BP_RouterBuild = ''router-build''"
| "phase_as_str BP_Finalize = ''finalize''"
| "phase_as_str BP_Bind = ''bind''"
| "phase_as_str BP_Ready = ''ready''"
| "phase_as_str BP_FullyReady = ''fully-ready''"
| "phase_as_str BP_Degraded = ''degraded''"
| "phase_as_str BP_Failed = ''failed''"
| "phase_as_str BP_Maintenance = ''maintenance''"
| "phase_as_str BP_Draining = ''draining''"
| "phase_as_str BP_Stopping = ''stopping''"

section \<open>Transitions\<close>

text \<open>The pairs of the final \<open>matches!\<close> of \<open>PhaseTransitions::is_valid\<close>, in its order.\<close>

definition standard_transitions :: "(boot_phase \<times> boot_phase) list" where
  "standard_transitions =
     [(BP_Stopped, BP_Starting), (BP_Starting, BP_SecurityInit),
      (BP_SecurityInit, BP_ExecutorInit), (BP_ExecutorInit, BP_Preflight),
      (BP_Preflight, BP_BootInvariants),
      (BP_BootInvariants, BP_DbConnecting), (BP_DbConnecting, BP_Migrating),
      (BP_Migrating, BP_PostDbInvariants), (BP_PostDbInvariants, BP_StartupRecovery),
      (BP_StartupRecovery, BP_Seeding), (BP_Seeding, BP_LoadingPolicies),
      (BP_LoadingPolicies, BP_StartingBackend), (BP_StartingBackend, BP_LoadingBaseModels),
      (BP_LoadingBaseModels, BP_LoadingAdapters), (BP_LoadingAdapters, BP_WorkerDiscovery),
      (BP_WorkerDiscovery, BP_RouterBuild), (BP_RouterBuild, BP_Finalize),
      (BP_Finalize, BP_Bind), (BP_Bind, BP_Ready),
      (BP_Ready, BP_FullyReady), (BP_Ready, BP_Maintenance), (BP_FullyReady, BP_Maintenance),
      (BP_Maintenance, BP_Ready),
      (BP_Ready, BP_Draining), (BP_FullyReady, BP_Draining), (BP_Degraded, BP_Draining),
      (BP_Maintenance, BP_Draining), (BP_Draining, BP_Stopping),
      (BP_Starting, BP_DbConnecting), (BP_Migrating, BP_Seeding),
      (BP_LoadingAdapters, BP_Ready), (BP_WorkerDiscovery, BP_Ready)]"

definition phase_transition_is_valid :: "boot_phase \<Rightarrow> boot_phase \<Rightarrow> bool" where
  "phase_transition_is_valid f t =
     (if phase_is_terminal f then False
      else if t = BP_Failed then True
      else if t = BP_Degraded then f \<in> {BP_Ready, BP_FullyReady}
      else if f = BP_Degraded \<and> t = BP_Ready then True
      else (f, t) \<in> set standard_transitions)"

fun next_boot_phase :: "boot_phase \<Rightarrow> boot_phase option" where
  "next_boot_phase BP_Stopped = Some BP_Starting"
| "next_boot_phase BP_Starting = Some BP_SecurityInit"
| "next_boot_phase BP_SecurityInit = Some BP_ExecutorInit"
| "next_boot_phase BP_ExecutorInit = Some BP_Preflight"
| "next_boot_phase BP_Preflight = Some BP_BootInvariants"
| "next_boot_phase BP_BootInvariants = Some BP_DbConnecting"
| "next_boot_phase BP_DbConnecting = Some BP_Migrating"
| "next_boot_phase BP_Migrating = Some BP_PostDbInvariants"
| "next_boot_phase BP_PostDbInvariants = Some BP_StartupRecovery"
| "next_boot_phase BP_StartupRecovery = Some BP_Seeding"
| "next_boot_phase BP_Seeding = Some BP_LoadingPolicies"
| "next_boot_phase BP_LoadingPolicies = Some BP_StartingBackend"
| "next_boot_phase BP_StartingBackend = Some BP_LoadingBaseModels"
| "next_boot_phase BP_LoadingBaseModels = Some BP_LoadingAdapters"
| "next_boot_phase BP_LoadingAdapters = Some BP_WorkerDiscovery"
| "next_boot_phase BP_WorkerDiscovery = Some BP_RouterBuild"
| "next_boot_phase BP_RouterBuild = Some BP_Finalize"
| "next_boot_phase BP_Finalize = Some BP_Bind"
| "next_boot_phase BP_Bind = Some BP_Ready"
| "next_boot_phase BP_Ready = Some BP_FullyReady"
| "next_boot_phase _ = None"

section \<open>The lifecycle builder\<close>

type_synonym instant = nat

record phase_timing =
  pt_phase :: boot_phase
  pt_started_at :: instant
  pt_completed_at :: "instant option"
  pt_duration_ms :: "u64 option"

definition timing_start :: "instant \<Rightarrow> boot_phase \<Rightarrow> phase_timing" where
  "timing_start now p =
     \<lparr>pt_phase = p, pt_started_at = now, pt_completed_at = None, pt_duration_ms = None\<rparr>"

definition timing_complete :: "instant \<Rightarrow> phase_timing \<Rightarrow> phase_timing" where
  "timing_complete now pt =
     pt\<lparr>pt_completed_at := Some now,
        pt_duration_ms := Some (of_nat ((now - pt_started_at pt) div 1000000))\<rparr>"

text \<open>\<open>if let Some(timing) = phase_timings.last_mut() { timing.complete() }\<close>\<close>

fun complete_last :: "instant \<Rightarrow> phase_timing list \<Rightarrow> phase_timing list" where
  "complete_last now [] = []"
| "complete_last now [pt] = [timing_complete now pt]"
| "complete_last now (pt # pts) = pt # complete_last now pts"

text \<open>
  Configuration, builder and artifacts. Signing keys, the service registry and the build
  information are opaque values of the types \<open>'k\<close>, \<open>'s\<close> and \<open>'b\<close>; durations are in
  nanoseconds.
\<close>

record lifecycle_config =
  lc_boot_timeout :: nat
  lc_emit_boot_report :: bool
  lc_boot_report_path :: "string option"
  lc_keys_dir :: string
  lc_bind_addr :: string
  lc_port :: "16 word"

record ('k, 's) lifecycle_builder =
  lb_config :: lifecycle_config
  lb_current_phase :: boot_phase
  lb_start_time :: instant
  lb_phase_timings :: "phase_timing list"
  lb_services :: 's
  lb_worker_keypair :: "'k option"
  lb_auth_key_kids :: "string list"
  lb_config_hash :: "string option"

record 'b boot_report =
  br_config_hash :: string
  br_config_schema_version :: string
  br_boot_phase_durations_ms :: "string \<rightharpoonup> u64"
  br_total_boot_time_ms :: u64
  br_enabled_features :: "string list"
  br_bind_addr :: string
  br_port :: "16 word"
  br_auth_key_kids :: "string list"
  br_worker_key_kids :: "string list"
  br_build :: 'b
  br_run_id :: "string option"
  br_build_id :: "string option"
  br_generated_at :: string

record ('k, 's, 'b) boot_artifacts =
  ba_services :: 's
  ba_phase_timings :: "phase_timing list"
  ba_boot_report :: "'b boot_report option"
  ba_worker_signing_keypair :: "'k option"
  ba_worker_verifying_key :: "bytes option"
  ba_worker_key_kid :: "string option"
  ba_config :: lifecycle_config

text \<open>
  What the builder takes from outside: the public key of a signing key (an Ed25519 crate),
  the digest function and its hexadecimal form, the features and build information fixed at
  compile time, and the formatted time of the report.
\<close>

record ('k, 'b) boot_env =
  be_verifying_key :: "'k \<Rightarrow> bytes"
  be_hash :: hash_fn
  be_hex :: "bytes \<Rightarrow> string"
  be_features :: "string list"
  be_build :: 'b
  be_generated_at :: string

datatype boot_error = InvalidTransition boot_phase boot_phase

definition builder_new ::
  "instant \<Rightarrow> 's \<Rightarrow> lifecycle_config \<Rightarrow> ('k, 's) lifecycle_builder" where
  "builder_new now services config =
     \<lparr>lb_config = config, lb_current_phase = BP_Stopped, lb_start_time = now,
      lb_phase_timings = [], lb_services = services, lb_worker_keypair = None,
      lb_auth_key_kids = [], lb_config_hash = None\<rparr>"

definition set_config_hash ::
  "string \<Rightarrow> ('k, 's) lifecycle_builder \<Rightarrow> ('k, 's) lifecycle_builder" where
  "set_config_hash h lb = lb\<lparr>lb_config_hash := Some h\<rparr>"

definition add_auth_key_kid ::
  "string \<Rightarrow> ('k, 's) lifecycle_builder \<Rightarrow> ('k, 's) lifecycle_builder" where
  "add_auth_key_kid kid lb = lb\<lparr>lb_auth_key_kids := lb_auth_key_kids lb @ [kid]\<rparr>"

definition builder_transition ::
  "instant \<Rightarrow> boot_phase \<Rightarrow> ('k, 's) lifecycle_builder \<Rightarrow>
   (boot_error, ('k, 's) lifecycle_builder) result" where
  "builder_transition now t lb =
     (if \<not> phase_transition_is_valid (lb_current_phase lb) t
      then Err (InvalidTransition (lb_current_phase lb) t)
      else Ok (lb\<lparr>lb_phase_timings := complete_last now (lb_phase_timings lb) @ [timing_start now t],
                  lb_current_phase := t\<rparr>))"

text \<open>\<open>fail\<close> keeps the builder as it is when the move to failed is refused.\<close>

definition builder_fail ::
  "instant \<Rightarrow> ('k, 's) lifecycle_builder \<Rightarrow> ('k, 's) lifecycle_builder" where
  "builder_fail now lb =
     (case builder_transition now BP_Failed lb of Err _ \<Rightarrow> lb | Ok lb' \<Rightarrow> lb')"

text \<open>
  The phase methods: all but \<open>init_crypto\<close> move to their phase, and that one stores the
  worker key when it could be loaded or generated and goes on without it otherwise.
\<close>

datatype 'k boot_method =
    M_start | M_db_connecting | M_migrating | M_seeding | M_loading_policies
  | M_init_crypto "'k option"
  | M_starting_backend | M_loading_base_models | M_loading_adapters | M_worker_discovery
  | M_ready

fun method_phase :: "'k boot_method \<Rightarrow> boot_phase option" where
  "method_phase M_start = Some BP_Starting"
| "method_phase M_db_connecting = Some BP_DbConnecting"
| "method_phase M_migrating = Some BP_Migrating"
| "method_phase M_seeding = Some BP_Seeding"
| "method_phase M_loading_policies = Some BP_LoadingPolicies"
| "method_phase (M_init_crypto _) = None"
| "method_phase M_starting_backend = Some BP_StartingBackend"
| "method_phase M_loading_base_models = Some BP_LoadingBaseModels"
| "method_phase M_loading_adapters = Some BP_LoadingAdapters"
| "method_phase M_worker_discovery = Some BP_WorkerDiscovery"
| "method_phase M_ready = Some BP_Ready"

definition init_crypto ::
  "'k option \<Rightarrow> ('k, 's) lifecycle_builder \<Rightarrow> ('k, 's) lifecycle_builder" where
  "init_crypto loaded lb =
     (case loaded of Some key \<Rightarrow> lb\<lparr>lb_worker_keypair := Some key\<rparr> | None \<Rightarrow> lb)"

definition run_method ::
  "instant \<Rightarrow> 'k boot_method \<Rightarrow> ('k, 's) lifecycle_builder \<Rightarrow>
   (boot_error, ('k, 's) lifecycle_builder) result" where
  "run_method now call lb =
     (case call of
        M_init_crypto loaded \<Rightarrow> Ok (init_crypto loaded lb)
      | _ \<Rightarrow> builder_transition now (the (method_phase call)) lb)"

text \<open>The report, as \<open>BootReportBuilder::build\<close> assembles it. The sum of durations wraps.\<close>

definition phase_durations :: "phase_timing list \<Rightarrow> (string \<rightharpoonup> u64)" where
  "phase_durations timings =
     fold (\<lambda>pt acc. case pt_duration_ms pt of
                      None \<Rightarrow> acc
                    | Some ms \<Rightarrow> acc(phase_as_str (pt_phase pt) \<mapsto> ms)) timings Map.empty"

definition total_duration :: "phase_timing list \<Rightarrow> u64" where
  "total_duration timings =
     fold (\<lambda>pt acc. case pt_duration_ms pt of None \<Rightarrow> acc | Some ms \<Rightarrow> acc + ms) timings 0"

definition derive_kid_from_verifying_key :: "hash_fn \<Rightarrow> (bytes \<Rightarrow> string) \<Rightarrow> bytes \<Rightarrow> string" where
  "derive_kid_from_verifying_key H hex_encode key =
     ''worker-'' @ take 32 (hex_encode (H key))"

definition builder_report ::
  "('k, 'b) boot_env \<Rightarrow> string option \<Rightarrow> phase_timing list \<Rightarrow> ('k, 's) lifecycle_builder \<Rightarrow>
   'b boot_report" where
  "builder_report env worker_kid timings lb =
     \<lparr>br_config_hash = (case lb_config_hash lb of Some h \<Rightarrow> h | None \<Rightarrow> ''unknown''),
      br_config_schema_version = ''1.0'',
      br_boot_phase_durations_ms = phase_durations timings,
      br_total_boot_time_ms = total_duration timings,
      br_enabled_features = be_features env,
      br_bind_addr = lc_bind_addr (lb_config lb), br_port = lc_port (lb_config lb),
      br_auth_key_kids = lb_auth_key_kids lb,
      br_worker_key_kids = (case worker_kid of Some kid \<Rightarrow> [kid] | None \<Rightarrow> []),
      br_build = be_build env, br_run_id = None, br_build_id = None,
      br_generated_at = be_generated_at env\<rparr>"

text \<open>Writing the report to its file and the log has no influence on the artifacts.\<close>

definition builder_build ::
  "('k, 'b) boot_env \<Rightarrow> instant \<Rightarrow> ('k, 's) lifecycle_builder \<Rightarrow>
   (boot_error, ('k, 's, 'b) boot_artifacts) result" where
  "builder_build env now lb =
     (if \<not> phase_is_ready (lb_current_phase lb)
      then Err (InvalidTransition (lb_current_phase lb) BP_Ready)
      else
        (let timings = complete_last now (lb_phase_timings lb);
             vkey = map_option (be_verifying_key env) (lb_worker_keypair lb);
             kid = map_option (derive_kid_from_verifying_key (be_hash env) (be_hex env)) vkey in
         Ok \<lparr>ba_services = lb_services lb, ba_phase_timings = timings,
             ba_boot_report =
               (if lc_emit_boot_report (lb_config lb)
                then Some (builder_report env kid timings lb) else None),
             ba_worker_signing_keypair = lb_worker_keypair lb,
             ba_worker_verifying_key = vkey, ba_worker_key_kid = kid,
             ba_config = lb_config lb\<rparr>))"

text \<open>
  A chain of phase methods, each at the time it runs, stopping at the first error as the
  question-mark operator does.
\<close>

fun builder_run ::
  "(instant \<times> 'k boot_method) list \<Rightarrow> ('k, 's) lifecycle_builder \<Rightarrow>
   (boot_error, ('k, 's) lifecycle_builder) result"
where
  "builder_run [] lb = Ok lb"
| "builder_run ((now, call) # steps) lb =
     (case run_method now call lb of
        Err e \<Rightarrow> Err e
      | Ok lb' \<Rightarrow> builder_run steps lb')"

definition simple_boot_methods :: "'k option \<Rightarrow> 'k boot_method list" where
  "simple_boot_methods loaded =
     [M_start, M_db_connecting, M_migrating, M_seeding, M_loading_policies,
      M_init_crypto loaded, M_starting_backend, M_loading_base_models, M_loading_adapters,
      M_worker_discovery, M_ready]"

text \<open>
  The complete \<open>simple_boot\<close>: \<open>clock i\<close> is the reading of the clock at its \<open>i\<close>-th method,
  the last reading is that of \<open>build\<close>, and \<open>loaded\<close> is the worker key that \<open>init_crypto\<close>
  could load or generate.
\<close>

definition simple_boot ::
  "('k, 'b) boot_env \<Rightarrow> (nat \<Rightarrow> instant) \<Rightarrow> 'k option \<Rightarrow> 's \<Rightarrow> lifecycle_config \<Rightarrow>
   (boot_error, ('k, 's, 'b) boot_artifacts) result" where
  "simple_boot env clock loaded services config =
     (let calls = simple_boot_methods loaded; n = length calls in
      case builder_run (zip (map clock [0..<n]) calls) (builder_new (clock 0) services config) of
        Err e \<Rightarrow> Err e
      | Ok lb \<Rightarrow> builder_build env (clock n) lb)"

section \<open>Correctness\<close>

subsection \<open>The transition table\<close>

fun boot_rank :: "boot_phase \<Rightarrow> nat" where
  "boot_rank BP_Stopped = 0"
| "boot_rank BP_Starting = 1"
| "boot_rank BP_SecurityInit = 2"
| "boot_rank BP_ExecutorInit = 3"
| "boot_rank BP_Preflight = 4"
| "boot_rank BP_BootInvariants = 5"
| "boot_rank BP_DbConnecting = 6"
| "boot_rank BP_Migrating = 7"
| "boot_rank BP_PostDbInvariants = 8"
| "boot_rank BP_StartupRecovery = 9"
| "boot_rank BP_Seeding = 10"
| "boot_rank BP_LoadingPolicies = 11"
| "boot_rank BP_StartingBackend = 12"
| "boot_rank BP_LoadingBaseModels = 13"
| "boot_rank BP_LoadingAdapters = 14"
| "boot_rank BP_WorkerDiscovery = 15"
| "boot_rank BP_RouterBuild = 16"
| "boot_rank BP_Finalize = 17"
| "boot_rank BP_Bind = 18"
| "boot_rank BP_Ready = 19"
| "boot_rank BP_FullyReady = 20"
| "boot_rank BP_Maintenance = 20"
| "boot_rank BP_Degraded = 20"
| "boot_rank BP_Draining = 21"
| "boot_rank BP_Stopping = 22"
| "boot_rank BP_Failed = 22"

interpretation boot_machine:
  transition_system phase_transition_is_valid phase_is_terminal
  by unfold_locales (simp add: phase_transition_is_valid_def)

lemma standard_transition_cases:
  assumes "phase_transition_is_valid f t"
  obtains (failed) "t = BP_Failed" "\<not> phase_is_terminal f"
  | (degraded) "t = BP_Degraded" "f \<in> {BP_Ready, BP_FullyReady}"
  | (recovered) "f = BP_Degraded" "t = BP_Ready"
  | (standard) "(f, t) \<in> set standard_transitions"
  using assms by (auto simp: phase_transition_is_valid_def split: if_splits)

lemma standard_rank:
  "(f, t) \<in> set standard_transitions \<Longrightarrow>
     (f = BP_Maintenance \<and> t = BP_Ready) \<or> (boot_rank f < boot_rank t \<and> t \<noteq> BP_Failed) \<or>
     (f = BP_FullyReady \<and> t = BP_Maintenance)"
  by (auto simp: standard_transitions_def)

text \<open>
  The transition check follows the documented rules of the boot state machine:
  terminal phases have no successor, failure is reachable from every other phase,
  degradation only from a ready phase and back to ready, and while booting every accepted
  move other than failure goes strictly forward in the boot order.
\<close>

theorem boot_transition_rules:
  "(phase_is_terminal f \<longrightarrow> \<not> phase_transition_is_valid f t) \<and>
   (phase_transition_is_valid f BP_Failed \<longleftrightarrow> \<not> phase_is_terminal f) \<and>
   (phase_transition_is_valid f BP_Degraded \<longleftrightarrow> phase_is_ready f) \<and>
   phase_transition_is_valid BP_Degraded BP_Ready \<and>
   (phase_is_booting f \<longrightarrow> phase_transition_is_valid f t \<longrightarrow> t \<noteq> BP_Failed \<longrightarrow>
      boot_rank f < boot_rank t \<and> (phase_is_booting t \<or> t = BP_Ready))"
proof (intro conjI impI)
  assume "phase_is_booting f" "phase_transition_is_valid f t" "t \<noteq> BP_Failed"
  then have "(f, t) \<in> set standard_transitions \<and> phase_is_booting f"
    by (auto simp: phase_transition_is_valid_def phase_is_booting_def split: if_splits)
  then show "boot_rank f < boot_rank t" and "phase_is_booting t \<or> t = BP_Ready"
    by (auto simp: standard_transitions_def phase_is_booting_def)
qed (auto simp: phase_transition_is_valid_def state_simps)

theorem boot_transition_rules_witness:
  "phase_transition_is_valid BP_Migrating BP_Seeding \<and>
   boot_rank BP_Migrating < boot_rank BP_Seeding"
  using boot_transition_rules [of BP_Migrating BP_Seeding]
  by (auto simp: phase_transition_is_valid_def standard_transitions_def state_simps)

text \<open>
  The expected next phase is always an accepted move, and it is the direct successor
  in the boot order.
\<close>

theorem next_boot_phase_valid:
  assumes "next_boot_phase f = Some t"
  shows "phase_transition_is_valid f t \<and> boot_rank t = Suc (boot_rank f)"
  using assms
  by (cases f) (auto simp: phase_transition_is_valid_def standard_transitions_def state_simps)

theorem next_boot_phase_valid_witness:
  "phase_transition_is_valid BP_Bind BP_Ready \<and> boot_rank BP_Ready = Suc (boot_rank BP_Bind)"
  by (rule next_boot_phase_valid) simp

subsection \<open>What a ready server has been through\<close>

definition mandatory_phases :: "boot_phase list" where
  "mandatory_phases =
     [BP_Starting, BP_DbConnecting, BP_Migrating, BP_Seeding, BP_LoadingPolicies,
      BP_StartingBackend, BP_LoadingBaseModels, BP_LoadingAdapters]"

lemma mandatory_exit:
  assumes "c \<in> set mandatory_phases" "phase_transition_is_valid f t"
    and "f = BP_Failed \<or> boot_rank f < boot_rank c" "t \<noteq> c"
  shows "t = BP_Failed \<or> boot_rank t < boot_rank c"
proof -
  have "boot_rank c \<le> 14" using assms(1) by (auto simp: mandatory_phases_def)
  with assms(2,3) have "t = BP_Failed \<or> (f, t) \<in> set standard_transitions"
    by (auto elim!: standard_transition_cases simp: phase_is_terminal_def)
  with assms(1,3,4) show ?thesis
    by (auto simp: standard_transitions_def mandatory_phases_def)
qed

lemma mandatory_on_run:
  assumes "run_ok phase_transition_is_valid BP_Stopped ps"
    and "phase_is_ready (last (BP_Stopped # ps))" and "c \<in> set mandatory_phases"
  shows "c \<in> set ps"
proof -
  let ?P = "\<lambda>f. f = BP_Failed \<or> boot_rank f < boot_rank c"
  have "0 < boot_rank c" "boot_rank c \<le> 14"
    using assms(3) by (auto simp: mandatory_phases_def)
  moreover from assms(2) have "19 \<le> boot_rank (last (BP_Stopped # ps))"
    "last (BP_Stopped # ps) \<noteq> BP_Failed"
    by (auto simp: phase_is_ready_def)
  ultimately have "\<not> ?P (last (BP_Stopped # ps))" and "?P BP_Stopped" by auto
  then have "\<exists>d \<in> set ps. d = c"
    using run_checkpoint [where P = ?P and C = "\<lambda>d. d = c", OF _ assms(1)]
      mandatory_exit [OF assms(3)] by blast
  then show ?thesis by simp
qed

text \<open>
  A server that accepts requests has gone through the whole boot: every accepted run
  from stopped to a ready phase contains the database connection, the migrations, seeding,
  policy loading, the backend start and the loading of base models and adapters.
\<close>

theorem ready_after_full_boot:
  assumes "run_ok phase_transition_is_valid BP_Stopped ps"
    and "phase_is_ready (last (BP_Stopped # ps))"
  shows "set mandatory_phases \<subseteq> set ps"
  using mandatory_on_run [OF assms] by blast

definition simple_boot_phases :: "boot_phase list" where
  "simple_boot_phases =
     [BP_Starting, BP_DbConnecting, BP_Migrating, BP_Seeding, BP_LoadingPolicies,
      BP_StartingBackend, BP_LoadingBaseModels, BP_LoadingAdapters, BP_WorkerDiscovery,
      BP_Ready]"

lemma simple_boot_phases_run: "run_ok phase_transition_is_valid BP_Stopped simple_boot_phases"
  by (simp add: simple_boot_phases_def phase_transition_is_valid_def standard_transitions_def
      state_simps)

theorem ready_after_full_boot_witness: "set mandatory_phases \<subseteq> set simple_boot_phases"
  by (rule ready_after_full_boot [OF simple_boot_phases_run])
    (simp add: simple_boot_phases_def state_simps)

subsection \<open>The builder\<close>

lemma complete_last_snoc: "complete_last now (pts @ [pt]) = pts @ [timing_complete now pt]"
  by (induction now pts rule: complete_last.induct) auto

lemma complete_last_phases [simp]: "map pt_phase (complete_last now pts) = map pt_phase pts"
  by (induction now pts rule: complete_last.induct) (auto simp: timing_complete_def)

definition completed :: "phase_timing \<Rightarrow> bool" where
  "completed pt \<longleftrightarrow> pt_completed_at pt \<noteq> None \<and> pt_duration_ms pt \<noteq> None"

lemma complete_last_completed:
  "list_all completed (butlast pts) \<Longrightarrow> list_all completed (complete_last now pts)"
  by (cases pts rule: rev_cases)
    (auto simp: complete_last_snoc timing_complete_def completed_def)

definition builder_inv :: "('k, 's) lifecycle_builder \<Rightarrow> bool" where
  "builder_inv lb \<longleftrightarrow>
     list_all completed (butlast (lb_phase_timings lb)) \<and>
     lb_current_phase lb = last (BP_Stopped # map pt_phase (lb_phase_timings lb)) \<and>
     run_ok phase_transition_is_valid BP_Stopped (map pt_phase (lb_phase_timings lb))"

lemma run_ok_snoc:
  "run_ok v s (ts @ [t]) \<longleftrightarrow> run_ok v s ts \<and> v (last (s # ts)) t"
  by (induction ts arbitrary: s) auto

lemma builder_inv_new: "builder_inv (builder_new now services config)"
  by (simp add: builder_inv_def builder_new_def)

lemma builder_transition_inv:
  assumes "builder_inv lb" "builder_transition now t lb = Ok lb'"
  shows "builder_inv lb' \<and>
    map pt_phase (lb_phase_timings lb') = map pt_phase (lb_phase_timings lb) @ [t]"
  using assms complete_last_completed [of "lb_phase_timings lb" now]
  by (auto simp: builder_transition_def builder_inv_def run_ok_snoc timing_start_def
      split: if_splits)

lemma builder_fail_inv: "builder_inv lb \<Longrightarrow> builder_inv (builder_fail now lb)"
  by (auto simp: builder_fail_def dest: builder_transition_inv split: sum.split)

definition phases_of :: "'k boot_method list \<Rightarrow> boot_phase list" where
  "phases_of calls = map (the \<circ> method_phase) (filter (\<lambda>c. method_phase c \<noteq> None) calls)"

lemma phases_of_simps [simp]:
  "phases_of [] = []"
  "phases_of (c # cs) = (case method_phase c of None \<Rightarrow> [] | Some p \<Rightarrow> [p]) @ phases_of cs"
  by (simp_all add: phases_of_def split: option.split)

lemma run_method_cases:
  "run_method now c lb =
     (case method_phase c of
        Some p \<Rightarrow> builder_transition now p lb
      | None \<Rightarrow> (case c of M_init_crypto k \<Rightarrow> Ok (init_crypto k lb) | _ \<Rightarrow> Ok lb))"
  by (cases c) (simp_all add: run_method_def)

lemma init_crypto_fields [simp]:
  "lb_phase_timings (init_crypto k lb) = lb_phase_timings lb"
  "lb_current_phase (init_crypto k lb) = lb_current_phase lb"
  "lb_config (init_crypto k lb) = lb_config lb"
  by (simp_all add: init_crypto_def split: option.split)

lemma init_crypto_inv [simp]: "builder_inv (init_crypto k lb) = builder_inv lb"
  by (simp add: builder_inv_def)

lemma run_method_inv:
  assumes "run_method now c lb = Ok lb'" "builder_inv lb"
  shows "builder_inv lb' \<and>
    map pt_phase (lb_phase_timings lb') = map pt_phase (lb_phase_timings lb) @ phases_of [c]"
  using assms builder_transition_inv [OF assms(2)]
  by (cases c) (auto simp: run_method_def init_crypto_inv)

lemma builder_run_inv:
  "builder_run steps lb = Ok lb' \<Longrightarrow> builder_inv lb \<Longrightarrow> builder_inv lb' \<and>
     map pt_phase (lb_phase_timings lb') =
       map pt_phase (lb_phase_timings lb) @ phases_of (map snd steps)"
proof (induction steps lb rule: builder_run.induct)
  case (2 now c steps lb)
  then obtain lb1 where "run_method now c lb = Ok lb1" "builder_run steps lb1 = Ok lb'"
    by (auto split: sum.splits)
  with "2.IH" "2.prems" run_method_inv [of now c lb lb1] show ?case by auto
qed simp

lemma builder_run_iff:
  "is_ok (builder_run steps lb) \<longleftrightarrow>
     run_ok phase_transition_is_valid (lb_current_phase lb) (phases_of (map snd steps))"
proof (induction steps lb rule: builder_run.induct)
  case (2 now c steps lb)
  then show ?case by (cases c) (auto simp: run_method_def builder_transition_def)
qed simp

text \<open>
  (C27) The builder refines the transition table: a chain of phase methods succeeds exactly
  when the phases they move to form accepted transitions from stopped, and then the
  recorded timings are those phases in that order, all but the last of them completed.
\<close>

theorem builder_refines_transitions:
  "(is_ok (builder_run steps (builder_new now services config)) \<longleftrightarrow>
      run_ok phase_transition_is_valid BP_Stopped (phases_of (map snd steps))) \<and>
   (\<forall>lb. builder_run steps (builder_new now services config) = Ok lb \<longrightarrow>
      map pt_phase (lb_phase_timings lb) = phases_of (map snd steps) \<and>
      list_all completed (butlast (lb_phase_timings lb)))"
  using builder_run_iff [of steps "builder_new now services config"]
    builder_run_inv [of steps "builder_new now services config"] builder_inv_new
  by (auto simp: builder_inv_def builder_new_def)

definition sample_config :: lifecycle_config where
  "sample_config = \<lparr>lc_boot_timeout = 300000000000, lc_emit_boot_report = True,
     lc_boot_report_path = None, lc_keys_dir = ''var/keys'', lc_bind_addr = ''0.0.0.0'',
     lc_port = 8080\<rparr>"

theorem builder_refines_transitions_witness:
  "is_ok (builder_run [(5, M_start), (7, M_init_crypto (Some True)), (9, M_db_connecting)]
     (builder_new 0 () sample_config)) \<and>
   \<not> is_ok (builder_run [(5, M_start :: bool boot_method), (9, M_ready)]
     (builder_new 0 () sample_config))"
  using builder_refines_transitions
      [of "[(5, M_start), (7, M_init_crypto (Some True)), (9, M_db_connecting)]" 0 "()" sample_config]
    builder_refines_transitions
      [of "[(5, M_start :: bool boot_method), (9, M_ready)]" 0 "()" sample_config]
  by (simp add: phase_transition_is_valid_def standard_transitions_def state_simps)

lemma total_duration_Cons:
  "total_duration (pt # pts) =
   (case pt_duration_ms pt of None \<Rightarrow> 0 | Some ms \<Rightarrow> ms) + total_duration pts"
proof -
  let ?f = "\<lambda>pt acc. case pt_duration_ms pt of None \<Rightarrow> acc | Some ms \<Rightarrow> acc + ms"
  have "fold ?f pts (d + c) = d + fold ?f pts c" for c d
    by (induction pts arbitrary: c) (auto simp: add.assoc split: option.split)
  from this [of "the (pt_duration_ms pt)" 0] show ?thesis
    by (cases "pt_duration_ms pt") (simp_all add: total_duration_def)
qed

lemma total_duration_sum:
  "list_all completed pts \<Longrightarrow> total_duration pts = sum_list (map (the \<circ> pt_duration_ms) pts)"
  by (induction pts) (auto simp: total_duration_Cons completed_def, simp add: total_duration_def)

text \<open>
  Artifacts exist only after a complete boot: when \<open>build\<close> succeeds on a builder
  that any chain of phase methods produced, every mandatory phase is among the recorded
  timings, every timing is completed, and a report, emitted exactly when the
  configuration asks for it, sums the durations of all phases and names the key of the
  worker exactly when there is one.
\<close>

theorem build_after_full_boot:
  assumes "builder_run steps (builder_new start services config) = Ok lb"
    and "builder_build env now lb = Ok ba"
  shows "set mandatory_phases \<subseteq> pt_phase ` set (ba_phase_timings ba) \<and>
         list_all completed (ba_phase_timings ba) \<and>
         (ba_boot_report ba \<noteq> None \<longleftrightarrow> lc_emit_boot_report (ba_config ba)) \<and>
         (\<forall>rep. ba_boot_report ba = Some rep \<longrightarrow>
            br_total_boot_time_ms rep =
              sum_list (map (the \<circ> pt_duration_ms) (ba_phase_timings ba)) \<and>
            (br_worker_key_kids rep = [] \<longleftrightarrow> ba_worker_signing_keypair ba = None))"
proof -
  have inv: "builder_inv lb" using builder_run_inv [OF assms(1) builder_inv_new] by simp
  from assms(2) have t: "ba_phase_timings ba = complete_last now (lb_phase_timings lb)"
    and ready: "phase_is_ready (lb_current_phase lb)"
    by (auto simp: builder_build_def Let_def split: if_splits)
  have "c \<in> set (map pt_phase (lb_phase_timings lb))" if "c \<in> set mandatory_phases" for c
    by (rule mandatory_on_run [OF _ _ that])
      (use inv ready in \<open>simp_all add: builder_inv_def\<close>)
  then have "set mandatory_phases \<subseteq> set (map pt_phase (ba_phase_timings ba))" by (auto simp: t)
  moreover have comp: "list_all completed (ba_phase_timings ba)"
    unfolding t by (rule complete_last_completed) (use inv in \<open>simp add: builder_inv_def\<close>)
  moreover have "(ba_boot_report ba \<noteq> None \<longleftrightarrow> lc_emit_boot_report (ba_config ba)) \<and>
         (\<forall>rep. ba_boot_report ba = Some rep \<longrightarrow>
            br_total_boot_time_ms rep = total_duration (ba_phase_timings ba) \<and>
            (br_worker_key_kids rep = [] \<longleftrightarrow> ba_worker_signing_keypair ba = None))"
    using assms(2) ready
    by (auto simp: builder_build_def builder_report_def Let_def split: if_splits option.splits)
  ultimately show ?thesis using total_duration_sum [OF comp] by simp
qed

lemma simple_boot_result:
  fixes env :: "('k, 'b) boot_env" and services :: 's
  shows "\<exists>(lb :: ('k, 's) lifecycle_builder) ba steps.
     builder_run steps (builder_new (clock 0) services config) = Ok lb \<and>
     builder_build env (clock 11) lb = Ok ba \<and>
     simple_boot env clock loaded services config = Ok ba \<and>
     map pt_phase (ba_phase_timings ba) = simple_boot_phases"
proof -
  let ?calls = "simple_boot_methods loaded" and ?new = "builder_new (clock 0) services config"
  let ?steps = "zip (map clock [0..<length ?calls]) ?calls"
  have phases: "phases_of (map snd ?steps) = simple_boot_phases" and len: "length ?calls = 11"
    by (simp_all add: simple_boot_methods_def simple_boot_phases_def)
  have "is_ok (builder_run ?steps ?new)"
    unfolding builder_run_iff phases
    using simple_boot_phases_run by (simp add: builder_new_def)
  then obtain lb :: "('k, 's) lifecycle_builder" where lb: "builder_run ?steps ?new = Ok lb"
    by (auto simp: is_ok_iff)
  then have ph: "builder_inv lb" "map pt_phase (lb_phase_timings lb) = simple_boot_phases"
    using builder_run_inv [OF lb builder_inv_new] phases by (simp_all add: builder_new_def)
  then have "lb_current_phase lb = BP_Ready"
    by (simp add: builder_inv_def simple_boot_phases_def)
  then obtain ba where "builder_build env (clock 11) lb = Ok ba"
    "ba_phase_timings ba = complete_last (clock 11) (lb_phase_timings lb)"
    by (simp add: builder_build_def phase_is_ready_def Let_def)
  with lb ph show ?thesis
    by (intro exI [of _ lb] exI [of _ ba] exI [of _ ?steps])
      (simp add: simple_boot_def Let_def len)
qed

definition sample_env :: "(bool, unit) boot_env" where
  "sample_env = \<lparr>be_verifying_key = (\<lambda>k. [if k then 1 else 0]), be_hash = (\<lambda>bs. bs),
     be_hex = (\<lambda>bs. ''00''), be_features = [], be_build = (), be_generated_at = ''now''\<rparr>"

theorem build_after_full_boot_witness:
  "\<exists>ba. simple_boot sample_env id (Some True) () sample_config = Ok ba \<and>
        set mandatory_phases \<subseteq> pt_phase ` set (ba_phase_timings ba)"
proof -
  obtain lb :: "(bool, unit) lifecycle_builder" and ba steps where
    "builder_run steps (builder_new (id 0) () sample_config) = Ok lb"
    "builder_build sample_env (id 11) lb = Ok ba"
    "simple_boot sample_env id (Some True) () sample_config = Ok ba"
    using simple_boot_result [of id "()" sample_config sample_env "Some True"] by blast
  with build_after_full_boot [OF this(1,2)] show ?thesis by auto
qed

text \<open>
  The standard boot sequence never gets stuck: whatever the clock reads and whether
  or not the worker key could be loaded, it reaches ready and its timings are its ten
  phases in order.
\<close>

theorem simple_boot_succeeds:
  "\<exists>ba. simple_boot env clock loaded services config = Ok ba \<and>
        map pt_phase (ba_phase_timings ba) = simple_boot_phases"
  using simple_boot_result [where env = env and clock = clock and loaded = loaded
      and services = services and config = config] by blast

end
