(* ===== verification/CircuitBreaker.thy ===== *)
theory CircuitBreaker
  imports AosPrelude
begin

text \<open>
  The standard circuit breaker, \<open>crates/adapteros-core/src/circuit_breaker.rs\<close>: its
  configuration and state, the cached state word, transitions, the handlers of a finished
  operation, admission of a call, and the call itself. A clock reading is an argument: the
  monotonic \<open>Instant\<close> in nanoseconds and the wall clock in seconds. The counters are the
  64-bit atomics of the source, so their increments wrap.
\<close>

unbundle bit_operations_syntax

section \<open>State\<close>

datatype circuit_state = CS_Closed | CS_Open nat | CS_HalfOpen

record time_reading =
  tr_instant :: nat
  tr_unix :: u64

record circuit_breaker_config =
  cc_failure_threshold :: u64
  cc_success_threshold :: u64
  cc_timeout_ms :: u64
  cc_half_open_max_requests :: u64

definition config_default :: circuit_breaker_config where
  "config_default = \<lparr>cc_failure_threshold = 5, cc_success_threshold = 3,
     cc_timeout_ms = 60000, cc_half_open_max_requests = 10\<rparr>"

record circuit_breaker =
  cb_name :: string
  cb_config :: circuit_breaker_config
  cb_state :: circuit_state
  cb_cached_state :: u64
  cb_consecutive_failures :: u64
  cb_consecutive_successes :: u64
  cb_half_open_requests :: u64
  cb_requests_total :: u64
  cb_successes_total :: u64
  cb_failures_total :: u64
  cb_opens_total :: u64
  cb_closes_total :: u64
  cb_half_opens_total :: u64
  cb_last_state_change :: u64

definition breaker_new ::
  "time_reading \<Rightarrow> string \<Rightarrow> circuit_breaker_config \<Rightarrow> circuit_breaker" where
  "breaker_new now name cfg =
     \<lparr>cb_name = name, cb_config = cfg, cb_state = CS_Closed, cb_cached_state = 0,
      cb_consecutive_failures = 0, cb_consecutive_successes = 0, cb_half_open_requests = 0,
      cb_requests_total = 0, cb_successes_total = 0, cb_failures_total = 0,
      cb_opens_total = 0, cb_closes_total = 0, cb_half_opens_total = 0,
      cb_last_state_change = tr_unix now\<rparr>"

section \<open>The cached state\<close>

fun encode_state_for_cache :: "time_reading \<Rightarrow> circuit_state \<Rightarrow> u64" where
  "encode_state_for_cache now CS_Closed = 0"
| "encode_state_for_cache now (CS_Open until) =
     (let deadline_secs =
            (if tr_instant now \<le> until
             then of_nat ((until - tr_instant now) div 1000000000) else 0) in
      1 OR push_bit 2 deadline_secs)"
| "encode_state_for_cache now CS_HalfOpen = 2"

definition update_state_cache ::
  "time_reading \<Rightarrow> circuit_state \<Rightarrow> circuit_breaker \<Rightarrow> circuit_breaker" where
  "update_state_cache now st cb = cb\<lparr>cb_cached_state := encode_state_for_cache now st\<rparr>"

definition decode_cached_state :: "time_reading \<Rightarrow> circuit_breaker \<Rightarrow> circuit_state" where
  "decode_cached_state now cb =
     (let cached = cb_cached_state cb; state_bits = cached AND 3 in
      if state_bits = 0 then CS_Closed
      else if state_bits = 1 then
        (let deadline_secs = drop_bit 2 cached in
         if deadline_secs = 0 then CS_HalfOpen
         else CS_Open (tr_instant now + unat deadline_secs * 1000000000))
      else CS_HalfOpen)"

section \<open>Transitions and handlers\<close>

definition update_state_change_time :: "time_reading \<Rightarrow> circuit_breaker \<Rightarrow> circuit_breaker" where
  "update_state_change_time now cb = cb\<lparr>cb_last_state_change := tr_unix now\<rparr>"

text \<open>The logging of a transition has no effect on the state and is left out.\<close>

definition breaker_transition_to ::
  "time_reading \<Rightarrow> circuit_state \<Rightarrow> circuit_breaker \<Rightarrow> circuit_breaker" where
  "breaker_transition_to now st cb =
     (let cb1 = update_state_cache now st (update_state_change_time now (cb\<lparr>cb_state := st\<rparr>)) in
      case st of
        CS_Open _ \<Rightarrow> cb1\<lparr>cb_opens_total := cb_opens_total cb1 + 1,
                         cb_consecutive_failures := 0, cb_consecutive_successes := 0\<rparr>
      | CS_Closed \<Rightarrow> cb1\<lparr>cb_closes_total := cb_closes_total cb1 + 1,
                         cb_consecutive_failures := 0, cb_consecutive_successes := 0,
                         cb_half_open_requests := 0\<rparr>
      | CS_HalfOpen \<Rightarrow> cb1\<lparr>cb_half_opens_total := cb_half_opens_total cb1 + 1,
                           cb_half_open_requests := 0\<rparr>)"

text \<open>The state under the lock, moving from open to half-open once the deadline has passed.\<close>

definition state_async :: "time_reading \<Rightarrow> circuit_breaker \<Rightarrow> circuit_state \<times> circuit_breaker" where
  "state_async now cb =
     (case cb_state cb of
        CS_Open until \<Rightarrow>
          (if tr_instant now \<ge> until
           then (CS_HalfOpen,
                 (update_state_cache now CS_HalfOpen
                   (update_state_change_time now (cb\<lparr>cb_state := CS_HalfOpen\<rparr>)))
                 \<lparr>cb_half_opens_total := cb_half_opens_total cb + 1\<rparr>)
           else (CS_Open until, cb))
      | st \<Rightarrow> (st, cb))"

definition release_half_open :: "circuit_breaker \<Rightarrow> circuit_breaker" where
  "release_half_open cb =
     cb\<lparr>cb_half_open_requests :=
          (if cb_half_open_requests cb > 0 then cb_half_open_requests cb - 1 else 0)\<rparr>"

definition calculate_timeout :: "time_reading \<Rightarrow> circuit_breaker \<Rightarrow> nat" where
  "calculate_timeout now cb = tr_instant now + unat (cc_timeout_ms (cb_config cb)) * 1000000"

definition on_success :: "time_reading \<Rightarrow> circuit_breaker \<Rightarrow> circuit_breaker" where
  "on_success now cb =
     (let (st, cb0) = state_async now cb;
          cb1 = cb0\<lparr>cb_requests_total := cb_requests_total cb0 + 1,
                     cb_successes_total := cb_successes_total cb0 + 1\<rparr> in
      case st of
        CS_Closed \<Rightarrow> cb1\<lparr>cb_consecutive_failures := 0\<rparr>
      | CS_HalfOpen \<Rightarrow>
          (let successes = cb_consecutive_successes cb1 + 1;
               cb2 = release_half_open (cb1\<lparr>cb_consecutive_successes := successes\<rparr>) in
           if successes \<ge> cc_success_threshold (cb_config cb2)
           then breaker_transition_to now CS_Closed cb2 else cb2)
      | CS_Open _ \<Rightarrow> cb1\<lparr>cb_consecutive_failures := 0\<rparr>)"

definition on_failure :: "time_reading \<Rightarrow> circuit_breaker \<Rightarrow> circuit_breaker" where
  "on_failure now cb =
     (let (st, cb0) = state_async now cb;
          cb1 = cb0\<lparr>cb_requests_total := cb_requests_total cb0 + 1,
                     cb_failures_total := cb_failures_total cb0 + 1\<rparr> in
      case st of
        CS_Closed \<Rightarrow>
          (let failures = cb_consecutive_failures cb1 + 1;
               cb2 = cb1\<lparr>cb_consecutive_failures := failures\<rparr> in
           if failures \<ge> cc_failure_threshold (cb_config cb2)
           then breaker_transition_to now (CS_Open (calculate_timeout now cb2)) cb2 else cb2)
      | CS_HalfOpen \<Rightarrow>
          (let cb2 = release_half_open cb1 in
           breaker_transition_to now (CS_Open (calculate_timeout now cb2)) cb2)
      | CS_Open _ \<Rightarrow> cb1)"

section \<open>Calls\<close>

text \<open>
  The admission part of \<open>call\<close>: both paths of the open branch return the same error. The
  compare-and-exchange loop of the half-open branch increments the counter in one step.
\<close>

definition breaker_admit ::
  "time_reading \<Rightarrow> circuit_breaker \<Rightarrow> (aos_error, unit) result \<times> circuit_breaker" where
  "breaker_admit now cb =
     (let (st, cb1) = state_async now cb in
      case st of
        CS_Open _ \<Rightarrow> (Err (ECircuitBreakerOpen (cb_name cb1)), cb1)
      | CS_HalfOpen \<Rightarrow>
          (if cb_half_open_requests cb1 \<ge> cc_half_open_max_requests (cb_config cb1)
           then (Err (ECircuitBreakerHalfOpen (cb_name cb1)), cb1)
           else (Ok (), cb1\<lparr>cb_half_open_requests := cb_half_open_requests cb1 + 1\<rparr>))
      | CS_Closed \<Rightarrow> (Ok (), cb1))"

definition breaker_call ::
  "time_reading \<Rightarrow> time_reading \<Rightarrow> (aos_error, 'a) result \<Rightarrow> circuit_breaker \<Rightarrow>
   (aos_error, 'a) result \<times> circuit_breaker" where
  "breaker_call begin_time end_time operation cb =
     (case breaker_admit begin_time cb of
        (Err e, cb1) \<Rightarrow> (Err e, cb1)
      | (Ok _, cb1) \<Rightarrow>
          (case operation of
             Ok v \<Rightarrow> (Ok v, on_success end_time cb1)
           | Err e \<Rightarrow> (Err e, on_failure end_time cb1)))"

text \<open>The synchronous reading: under the lock when it is free, from the cache otherwise.\<close>

definition breaker_state :: "bool \<Rightarrow> time_reading \<Rightarrow> circuit_breaker \<Rightarrow> circuit_state" where
  "breaker_state lock_free now cb =
     (if lock_free then
        (case cb_state cb of
           CS_Open until \<Rightarrow> if tr_instant now \<ge> until then CS_HalfOpen else CS_Open until
         | st \<Rightarrow> st)
      else decode_cached_state now cb)"

section \<open>Correctness\<close>

subsection \<open>Interleaved executions\<close>




lemmas handler_defs = on_success_def on_failure_def breaker_admit_def state_async_def
  breaker_transition_to_def update_state_cache_def update_state_change_time_def
  release_half_open_def Let_def












definition test_time :: "nat \<Rightarrow> time_reading" where
  "test_time n = \<lparr>tr_instant = n, tr_unix = 0\<rparr>"


subsection \<open>Protection and recovery\<close>

text \<open>
  An open breaker protects the service: before its deadline every call is rejected
  with the open error, the operation is not run, and the breaker is left unchanged.
\<close>

theorem open_rejects_calls:
  assumes "cb_state cb = CS_Open until" and "tr_instant now < until"
  shows "breaker_call now later operation cb = (Err (ECircuitBreakerOpen (cb_name cb)), cb)"
  using assms by (simp add: breaker_call_def breaker_admit_def state_async_def)

definition tripped_breaker :: circuit_breaker where
  "tripped_breaker =
     (breaker_new (test_time 0) ''db'' config_default)\<lparr>cb_state := CS_Open 100\<rparr>"

theorem open_rejects_calls_witness:
  "breaker_call (test_time 50) (test_time 60) (Ok True) tripped_breaker =
     (Err (ECircuitBreakerOpen ''db''), tripped_breaker)"
  using open_rejects_calls [of tripped_breaker 100 "test_time 50" "test_time 60" "Ok True"]
  by (simp add: tripped_breaker_def breaker_new_def test_time_def)

lemma on_failure_closed:
  assumes "cb_state cb = CS_Closed"
  shows "cb_state (on_failure now cb) =
      (if cb_consecutive_failures cb + 1 \<ge> cc_failure_threshold (cb_config cb)
       then CS_Open (calculate_timeout now cb) else CS_Closed)"
    and "cb_consecutive_failures cb + 1 < cc_failure_threshold (cb_config cb) \<Longrightarrow>
      cb_consecutive_failures (on_failure now cb) = cb_consecutive_failures cb + 1"
    and "cb_config (on_failure now cb) = cb_config cb"
  using assms by (auto simp: handler_defs calculate_timeout_def)

lemma failures_stay_closed:
  assumes "cb_state cb = CS_Closed"
  shows "unat (cb_consecutive_failures cb) + length ts <
           unat (cc_failure_threshold (cb_config cb)) \<Longrightarrow>
         cb_state (fold on_failure ts cb) = CS_Closed \<and>
         cb_config (fold on_failure ts cb) = cb_config cb \<and>
         unat (cb_consecutive_failures (fold on_failure ts cb)) =
           unat (cb_consecutive_failures cb) + length ts"
  using assms
proof (induction ts arbitrary: cb)
  case Nil
  then show ?case by simp
next
  case (Cons t ts)
  let ?c = "cb_consecutive_failures cb" and ?k = "cc_failure_threshold (cb_config cb)"
  have "unat ?k < 2 ^ 64" using unsigned_less [of ?k, where ?'a = nat] by simp
  with Cons.prems(1) have "unat (?c + 1) = Suc (unat ?c)"
    by (simp add: unat_word_ariths)
  moreover from this Cons.prems(1) have less: "?c + 1 < ?k"
    by (simp add: word_less_nat_alt)
  ultimately show ?case
    using Cons.IH [of "on_failure t cb"] Cons.prems on_failure_closed [OF Cons.prems(2), of t]
    by (simp add: not_le)
qed

text \<open>
  The breaker trips exactly at its threshold: after consecutive failures from a fresh
  closed state, it is still closed as long as there were fewer than the threshold, and the
  failure that reaches the threshold opens it until the configured timeout after that
  failure.
\<close>

theorem trips_at_threshold:
  assumes "cb_state cb = CS_Closed" and "cb_consecutive_failures cb = 0"
    and "Suc (length ts) = unat (cc_failure_threshold (cb_config cb))"
  shows "cb_state (fold on_failure ts cb) = CS_Closed \<and>
         cb_state (on_failure t (fold on_failure ts cb)) =
           CS_Open (tr_instant t + unat (cc_timeout_ms (cb_config cb)) * 1000000)"
proof -
  let ?cb = "fold on_failure ts cb"
  have pre: "cb_state ?cb = CS_Closed" "cb_config ?cb = cb_config cb"
    "unat (cb_consecutive_failures ?cb) = length ts"
    using failures_stay_closed [OF assms(1), of ts] assms(2,3) by simp_all
  then have "unat (cb_consecutive_failures ?cb + 1) = Suc (length ts)"
    using unsigned_less [of "cc_failure_threshold (cb_config cb)", where ?'a = nat] assms(3)
    by (simp add: unat_word_ariths)
  with pre assms(3) have "cb_consecutive_failures ?cb + 1 \<ge> cc_failure_threshold (cb_config ?cb)"
    by (simp add: word_le_nat_alt)
  with pre on_failure_closed(1) [OF pre(1), of t] show ?thesis
    by (simp add: calculate_timeout_def)
qed

theorem trips_at_threshold_witness:
  "cb_state (on_failure (test_time 5) (fold on_failure (map test_time [1, 2, 3, 4])
     (breaker_new (test_time 0) ''db'' config_default))) = CS_Open 60000000005"
  using trips_at_threshold
    [of "breaker_new (test_time 0) ''db'' config_default" "map test_time [1, 2, 3, 4]"
        "test_time 5"]
  by (simp add: breaker_new_def config_default_def test_time_def)

text \<open>A sequence of calls that succeed, each begun and ended at the given times.\<close>

definition good_call :: "time_reading \<times> time_reading \<Rightarrow> circuit_breaker \<Rightarrow> circuit_breaker" where
  "good_call = (\<lambda>(b, e) cb. snd (breaker_call b e (Ok ()) cb))"

lemma good_call_half_open:
  assumes "cb_state cb = CS_HalfOpen"
    and "cb_half_open_requests cb < cc_half_open_max_requests (cb_config cb)"
  shows "fst (breaker_call b e (Ok ()) cb) = Ok ()"
    and "cb_state (good_call (b, e) cb) =
      (if cb_consecutive_successes cb + 1 \<ge> cc_success_threshold (cb_config cb)
       then CS_Closed else CS_HalfOpen)"
    and "cb_config (good_call (b, e) cb) = cb_config cb"
    and "cb_consecutive_successes cb + 1 < cc_success_threshold (cb_config cb) \<Longrightarrow>
      cb_consecutive_successes (good_call (b, e) cb) = cb_consecutive_successes cb + 1 \<and>
      cb_half_open_requests (good_call (b, e) cb) = cb_half_open_requests cb"
proof -
  let ?h = "cb_half_open_requests cb"
  have "?h \<noteq> - 1" using assms(2) by auto
  then have "?h < ?h + 1" by (simp add: word_succ_greater)
  then have "0 < ?h + 1" by (metis word_gt_0 word_not_simps(1))
  then show "cb_consecutive_successes cb + 1 < cc_success_threshold (cb_config cb) \<Longrightarrow>
      cb_consecutive_successes (good_call (b, e) cb) = cb_consecutive_successes cb + 1 \<and>
      cb_half_open_requests (good_call (b, e) cb) = cb_half_open_requests cb"
    using assms by (auto simp: good_call_def breaker_call_def handler_defs not_le)
qed (use assms in \<open>auto simp: good_call_def breaker_call_def handler_defs not_le\<close>)

lemma good_calls_half_open:
  assumes "cb_state cb = CS_HalfOpen"
    and "cb_half_open_requests cb < cc_half_open_max_requests (cb_config cb)"
  shows "unat (cb_consecutive_successes cb) + length ts <
           unat (cc_success_threshold (cb_config cb)) \<Longrightarrow>
         cb_state (fold good_call ts cb) = CS_HalfOpen \<and>
         cb_config (fold good_call ts cb) = cb_config cb \<and>
         cb_half_open_requests (fold good_call ts cb) = cb_half_open_requests cb \<and>
         unat (cb_consecutive_successes (fold good_call ts cb)) =
           unat (cb_consecutive_successes cb) + length ts"
  using assms
proof (induction ts arbitrary: cb)
  case Nil
  then show ?case by simp
next
  case (Cons t ts)
  obtain b e where t: "t = (b, e)" by (cases t)
  let ?c = "cb_consecutive_successes cb" and ?k = "cc_success_threshold (cb_config cb)"
  have "unat ?k < 2 ^ 64" using unsigned_less [of ?k, where ?'a = nat] by simp
  with Cons.prems(1) have "unat (?c + 1) = Suc (unat ?c)"
    by (simp add: unat_word_ariths)
  moreover from this Cons.prems(1) have less: "?c + 1 < ?k"
    by (simp add: word_less_nat_alt)
  ultimately show ?case
    using Cons.IH [of "good_call t cb"] Cons.prems
      good_call_half_open [OF Cons.prems(2,3), of b e]
    by (simp add: t not_le)
qed

text \<open>
  A half-open breaker recovers: with a free half-open slot and no success counted yet,
  as many successful calls as the success threshold are all admitted and close it, and it
  is still half-open before the last of them.
\<close>

theorem recovers_after_successes:
  assumes "cb_state cb = CS_HalfOpen" and "cb_consecutive_successes cb = 0"
    and "cb_half_open_requests cb < cc_half_open_max_requests (cb_config cb)"
    and "Suc (length ts) = unat (cc_success_threshold (cb_config cb))"
  shows "cb_state (fold good_call ts cb) = CS_HalfOpen \<and>
         fst (breaker_call b e (Ok ()) (fold good_call ts cb)) = Ok () \<and>
         cb_state (good_call (b, e) (fold good_call ts cb)) = CS_Closed"
proof -
  let ?cb = "fold good_call ts cb"
  have pre: "cb_state ?cb = CS_HalfOpen" "cb_config ?cb = cb_config cb"
    "cb_half_open_requests ?cb < cc_half_open_max_requests (cb_config ?cb)"
    "unat (cb_consecutive_successes ?cb) = length ts"
    using good_calls_half_open [OF assms(1,3), of ts] assms(2,3,4) by simp_all
  then have "unat (cb_consecutive_successes ?cb + 1) = Suc (length ts)"
    using unsigned_less [of "cc_success_threshold (cb_config cb)", where ?'a = nat] assms(4)
    by (simp add: unat_word_ariths)
  with pre assms(4) have "cb_consecutive_successes ?cb + 1 \<ge> cc_success_threshold (cb_config ?cb)"
    by (simp add: word_le_nat_alt)
  then show ?thesis
    using pre(1) good_call_half_open(1,2) [OF pre(1,3), of b e] by simp
qed

theorem recovers_after_successes_witness:
  "cb_state (good_call (test_time 205, test_time 206)
     (fold good_call [(test_time 201, test_time 202), (test_time 203, test_time 204)]
       (tripped_breaker\<lparr>cb_state := CS_HalfOpen\<rparr>))) = CS_Closed"
  using recovers_after_successes
    [of "tripped_breaker\<lparr>cb_state := CS_HalfOpen\<rparr>"
        "[(test_time 201, test_time 202), (test_time 203, test_time 204)]"
        "test_time 205" "test_time 206"]
  by (simp add: tripped_breaker_def breaker_new_def config_default_def)

text \<open>
  Half-open slots have no timeout: when all slots are taken, every later call is
  rejected at whatever time it comes and the breaker does not change. A call that is
  cancelled after its admission runs neither handler, so its slot is gone until some other
  admitted call completes.
\<close>

theorem exhausted_half_open_rejects:
  assumes "cb_state cb = CS_HalfOpen"
    and "cc_half_open_max_requests (cb_config cb) \<le> cb_half_open_requests cb"
  shows "breaker_call now later operation cb =
           (Err (ECircuitBreakerHalfOpen (cb_name cb)), cb)"
  using assms by (simp add: breaker_call_def breaker_admit_def state_async_def)

text \<open>A breaker with one half-open slot after a trip, an admission, and no completion.\<close>

definition abandoned_breaker :: circuit_breaker where
  "abandoned_breaker =
     snd (breaker_admit (test_time 200)
       (tripped_breaker\<lparr>cb_config := config_default\<lparr>cc_half_open_max_requests := 1\<rparr>\<rparr>))"

theorem exhausted_half_open_rejects_witness:
  "breaker_call (test_time 10000000000000) (test_time 10000000000001) (Ok ()) abandoned_breaker
     = (Err (ECircuitBreakerHalfOpen ''db''), abandoned_breaker)"
proof -
  have "cb_state abandoned_breaker = CS_HalfOpen"
    and "cc_half_open_max_requests (cb_config abandoned_breaker)
           \<le> cb_half_open_requests abandoned_breaker"
    and "cb_name abandoned_breaker = ''db''"
    by (simp_all add: abandoned_breaker_def tripped_breaker_def breaker_new_def
          config_default_def test_time_def handler_defs)
  then show ?thesis
    using exhausted_half_open_rejects [of abandoned_breaker "test_time 10000000000000"
        "test_time 10000000000001" "Ok ()"] by simp
qed

subsection \<open>The cached state\<close>

lemma cache_state_bits: "(1 OR push_bit 2 d :: u64) AND 3 = 1"
proof -
  have "take_bit 2 (1 OR push_bit 2 d) = (1 :: u64)"
    by (simp add: take_bit_or take_bit_push_bit)
  moreover have "(3 :: u64) = mask 2" by (simp add: mask_eq_exp_minus_1)
  ultimately show ?thesis by (simp only: take_bit_eq_mask)
qed

lemma cache_deadline_le: "unat (drop_bit 2 (1 OR push_bit 2 (d :: u64))) \<le> unat d"
proof -
  have "drop_bit 2 (1 OR push_bit 2 d) = take_bit 62 d"
    by (rule bit_word_eqI) (auto simp: bit_simps)
  then show ?thesis
    by (simp add: unsigned_take_bit_eq take_bit_nat_less_eq_self)
qed

text \<open>
  A reader that finds the lock taken still errs on the side of protection: the cached
  state of an open breaker never reads as closed, and read at the instant it was cached its
  deadline is not later than the real one; closed and half-open read back exactly.
\<close>

theorem cached_state_is_protective:
  "(st \<noteq> CS_Closed \<longrightarrow>
      decode_cached_state later (update_state_cache now st cb) \<noteq> CS_Closed) \<and>
   (\<forall>until until'. st = CS_Open until \<longrightarrow>
      decode_cached_state now (update_state_cache now st cb) = CS_Open until' \<longrightarrow>
        until' \<le> until) \<and>
   decode_cached_state later (update_state_cache now CS_Closed cb) = CS_Closed \<and>
   decode_cached_state later (update_state_cache now CS_HalfOpen cb) = CS_HalfOpen"
proof (intro conjI allI impI)
  show "decode_cached_state later (update_state_cache now st cb) \<noteq> CS_Closed"
    if "st \<noteq> CS_Closed"
    using that by (cases st) (simp_all add: decode_cached_state_def update_state_cache_def
        cache_state_bits Let_def)
next
  fix until until'
  assume st: "st = CS_Open until"
    and dec: "decode_cached_state now (update_state_cache now st cb) = CS_Open until'"
  define d :: u64 where "d = (if tr_instant now \<le> until
    then of_nat ((until - tr_instant now) div 1000000000) else 0)"
  have u: "until' = tr_instant now + unat (drop_bit 2 (1 OR push_bit 2 d)) * 1000000000"
    and nz: "drop_bit 2 (1 OR push_bit 2 d) \<noteq> 0"
    using dec by (auto simp: st decode_cached_state_def update_state_cache_def d_def
        cache_state_bits Let_def split: if_splits)
  from nz have "d \<noteq> 0" by (metis cache_deadline_le le_zero_eq unat_0 unat_eq_zero)
  then have "tr_instant now \<le> until" and "unat d \<le> (until - tr_instant now) div 1000000000"
    by (auto simp: d_def unat_of_nat split: if_splits)
  moreover have "unat (drop_bit 2 (1 OR push_bit 2 d)) * 1000000000 \<le> unat d * 1000000000"
    using cache_deadline_le by (rule mult_le_mono1)
  ultimately show "until' \<le> until" unfolding u by linarith
qed (simp_all add: decode_cached_state_def update_state_cache_def Let_def)

theorem cached_state_is_protective_witness:
  "decode_cached_state (test_time 10)
     (update_state_cache (test_time 10) (CS_Open 5000000000) tripped_breaker) \<noteq> CS_Closed"
  using cached_state_is_protective
    [of "CS_Open 5000000000" "test_time 10" "test_time 10" tripped_breaker]
  by simp

end
