(* ===== verification/ReceiptMerkle.thy ===== *)
theory ReceiptMerkle
  imports B3Hash "HOL-Library.Multiset"
begin

text \<open>
  Merkle batches of inference receipts, \<open>crates/adapteros-core/src/receipt_merkle.rs\<close>: batch
  creation, the root, inclusion proofs and their verification. The fresh batch identifier
  and the creation time are arguments.
\<close>

section \<open>Data\<close>

record receipt_batch =
  rb_batch_id :: string
  rb_tenant_id :: string
  rb_receipt_digests :: "b3hash list"
  rb_merkle_root :: b3hash
  rb_created_at :: string
  rb_receipt_count :: nat

record receipt_inclusion_proof =
  rp_index :: nat
  rp_siblings :: "b3hash list"
  rp_merkle_root :: b3hash
  rp_trace_id :: string
  rp_batch_id :: string

section \<open>Root\<close>

text \<open>The range \<open>(0..n).step_by(2)\<close>.\<close>

definition step_by_2 :: "nat \<Rightarrow> nat list" where
  "step_by_2 n = map (\<lambda>k. 2 * k) [0..<(n + 1) div 2]"

definition node_input :: "b3hash list \<Rightarrow> nat \<Rightarrow> bytes" where
  "node_input level i =
     (let left = level ! i; right = (if i + 1 < length level then level ! (i + 1) else left)
      in left @ right)"

definition next_level :: "hash_fn \<Rightarrow> b3hash list \<Rightarrow> b3hash list" where
  "next_level H level = map (\<lambda>i. b3_hash H (node_input level i)) (step_by_2 (length level))"

lemma length_next_level [simp]: "length (next_level H level) = (length level + 1) div 2"
  by (simp add: next_level_def step_by_2_def)

function merkle_loop :: "hash_fn \<Rightarrow> b3hash list \<Rightarrow> b3hash" where
  "merkle_loop H level =
     (if length level > 1 then merkle_loop H (next_level H level) else level ! 0)"
  by auto
termination by (relation "measure (length \<circ> snd)") auto

declare merkle_loop.simps [simp del]

definition empty_receipt_batch :: bytes where
  "empty_receipt_batch = map of_char ''empty_receipt_batch''"

definition compute_receipt_merkle_root :: "hash_fn \<Rightarrow> b3hash list \<Rightarrow> b3hash" where
  "compute_receipt_merkle_root H digests =
     (if digests = [] then b3_hash H empty_receipt_batch
      else if length digests = 1 then digests ! 0
      else merkle_loop H digests)"

definition batch_receipts ::
  "hash_fn \<Rightarrow> (bytes \<Rightarrow> string) \<Rightarrow> string \<Rightarrow> string \<Rightarrow> string \<Rightarrow> b3hash list \<Rightarrow>
   (aos_error, receipt_batch) result" where
  "batch_receipts H hex_encode batch_id created_at tenant_id receipt_digests =
     (if receipt_digests = []
      then Err (EConfig ''Cannot create batch from empty receipt list'')
      else
        (let sorted_digests = sort_key (b3_to_hex hex_encode) receipt_digests;
             merkle_root = compute_receipt_merkle_root H sorted_digests in
         Ok \<lparr>rb_batch_id = batch_id, rb_tenant_id = tenant_id,
             rb_receipt_digests = sorted_digests, rb_merkle_root = merkle_root,
             rb_created_at = created_at, rb_receipt_count = length receipt_digests\<rparr>))"

section \<open>Inclusion proofs\<close>

definition sibling_index :: "b3hash list \<Rightarrow> nat \<Rightarrow> nat" where
  "sibling_index level index =
     (if even index then (if index + 1 < length level then index + 1 else index)
      else index - 1)"

function collect_siblings :: "hash_fn \<Rightarrow> b3hash list \<Rightarrow> nat \<Rightarrow> b3hash list" where
  "collect_siblings H level index =
     (if length level > 1
      then level ! sibling_index level index #
           collect_siblings H (next_level H level) (index div 2)
      else [])"
  by auto
termination by (relation "measure (length \<circ> fst \<circ> snd)") auto

declare collect_siblings.simps [simp del]

definition generate_inclusion_proof_with_trace_id ::
  "hash_fn \<Rightarrow> receipt_batch \<Rightarrow> nat \<Rightarrow> string \<Rightarrow>
   (aos_error, receipt_inclusion_proof) result" where
  "generate_inclusion_proof_with_trace_id H batch index trace_id =
     (if index \<ge> length (rb_receipt_digests batch)
      then Err (EConfig (''Receipt index '' @ show_nat index @ '' out of bounds (batch has '' @
             show_nat (length (rb_receipt_digests batch)) @ '' receipts)''))
      else Ok \<lparr>rp_index = index,
              rp_siblings = collect_siblings H (rb_receipt_digests batch) index,
              rp_merkle_root = rb_merkle_root batch, rp_trace_id = trace_id,
              rp_batch_id = rb_batch_id batch\<rparr>)"

definition generate_inclusion_proof ::
  "hash_fn \<Rightarrow> receipt_batch \<Rightarrow> nat \<Rightarrow> (aos_error, receipt_inclusion_proof) result" where
  "generate_inclusion_proof H batch index =
     generate_inclusion_proof_with_trace_id H batch index (''receipt-'' @ show_nat index)"

section \<open>Verification\<close>

definition path_input :: "nat \<Rightarrow> b3hash \<Rightarrow> b3hash \<Rightarrow> bytes" where
  "path_input index current sibling =
     (if even index then current @ sibling else sibling @ current)"

fun verify_path :: "hash_fn \<Rightarrow> b3hash list \<Rightarrow> nat \<Rightarrow> b3hash \<Rightarrow> b3hash" where
  "verify_path H [] index current = current"
| "verify_path H (sibling # siblings) index current =
     verify_path H siblings (index div 2) (b3_hash H (path_input index current sibling))"

definition verify_inclusion :: "hash_fn \<Rightarrow> receipt_inclusion_proof \<Rightarrow> b3hash \<Rightarrow> bool" where
  "verify_inclusion H proof_data receipt_digest \<longleftrightarrow>
     verify_path H (rp_siblings proof_data) (rp_index proof_data) receipt_digest =
       rp_merkle_root proof_data"

definition verify_batch_root :: "hash_fn \<Rightarrow> receipt_batch \<Rightarrow> bool" where
  "verify_batch_root H batch \<longleftrightarrow>
     compute_receipt_merkle_root H (rb_receipt_digests batch) = rb_merkle_root batch"

section \<open>Correctness\<close>

lemma nth_next_level:
  "k < (length level + 1) div 2 \<Longrightarrow>
   next_level H level ! k = H (node_input level (2 * k))"
  by (simp add: next_level_def step_by_2_def b3_hash_def)

lemma node_input_path:
  assumes "i < length level"
  shows "path_input i (level ! i) (level ! sibling_index level i) =
         node_input level (2 * (i div 2))"
  using assms by (auto simp: path_input_def sibling_index_def node_input_def Let_def elim!: evenE oddE)

lemma next_level_step:
  assumes "i < length level"
  shows "i div 2 < length (next_level H level)"
    and "next_level H level ! (i div 2) =
         H (path_input i (level ! i) (level ! sibling_index level i))"
proof -
  have "i div 2 < (length level + 1) div 2" using assms by linarith
  then show "i div 2 < length (next_level H level)"
    and "next_level H level ! (i div 2) =
         H (path_input i (level ! i) (level ! sibling_index level i))"
    using assms by (simp_all add: nth_next_level node_input_path)
qed

lemma root_eq_loop: "digests \<noteq> [] \<Longrightarrow> compute_receipt_merkle_root H digests = merkle_loop H digests"
  by (simp add: compute_receipt_merkle_root_def merkle_loop.simps)

lemma verify_collected:
  "i < length level \<Longrightarrow>
   verify_path H (collect_siblings H level i) i (level ! i) = merkle_loop H level"
proof (induction H level i rule: collect_siblings.induct)
  case (1 H level i)
  show ?case
  proof (cases "length level > 1")
    case True
    with 1 next_level_step [OF 1(2), of H] show ?thesis
      by (subst collect_siblings.simps, subst merkle_loop.simps) (simp add: b3_hash_def)
  next
    case False
    with 1(2) have "i = 0" by simp
    with False show ?thesis
      by (subst collect_siblings.simps, subst merkle_loop.simps) simp
  qed
qed

lemma batch_fields:
  assumes "batch_receipts H hex_encode bid at tid ds = Ok batch"
  shows "rb_receipt_digests batch = sort_key hex_encode ds" "ds \<noteq> []"
    "rb_merkle_root batch = merkle_loop H (sort_key hex_encode ds)"
    "length (rb_receipt_digests batch) = length ds"
proof -
  have key: "b3_to_hex hex_encode = hex_encode" by (rule ext) (simp add: b3_to_hex_def)
  show "ds \<noteq> []" using assms by (auto simp: batch_receipts_def)
  moreover from this have "sort_key hex_encode ds \<noteq> []"
    by (metis length_0_conv length_sort)
  ultimately show "rb_receipt_digests batch = sort_key hex_encode ds"
    "rb_merkle_root batch = merkle_loop H (sort_key hex_encode ds)"
    "length (rb_receipt_digests batch) = length ds"
    using assms by (auto simp: batch_receipts_def key root_eq_loop Let_def split: if_splits)
qed

text \<open>
  Every receipt of a batch has a proof that verifies: for a batch created from any
  non-empty list of digests and any index inside it, the generated inclusion proof is
  accepted for the digest at that index, the digest was one of the inputs, and every input
  digest has such an index.
\<close>

theorem inclusion_proofs_complete:
  assumes "batch_receipts H hex_encode bid at tid ds = Ok batch"
  shows "(i < rb_receipt_count batch \<longrightarrow>
           (\<exists>p. generate_inclusion_proof H batch i = Ok p \<and>
                verify_inclusion H p (rb_receipt_digests batch ! i) \<and>
                rb_receipt_digests batch ! i \<in> set ds)) \<and>
         (d \<in> set ds \<longrightarrow> (\<exists>j < rb_receipt_count batch. rb_receipt_digests batch ! j = d))"
proof -
  have cnt: "rb_receipt_count batch = length (rb_receipt_digests batch)"
    using assms by (auto simp: batch_receipts_def Let_def split: if_splits)
  have members: "set (rb_receipt_digests batch) = set ds"
    by (simp add: batch_fields(1) [OF assms])
  have "\<exists>p. generate_inclusion_proof H batch i = Ok p \<and>
            verify_inclusion H p (rb_receipt_digests batch ! i)"
    if "i < length (rb_receipt_digests batch)"
    using that batch_fields(1,3) [OF assms]
    by (simp add: generate_inclusion_proof_def generate_inclusion_proof_with_trace_id_def
        verify_inclusion_def verify_collected)
  then show ?thesis
    unfolding cnt members [symmetric] by (auto simp: in_set_conv_nth)
qed

text \<open>Three digests, a digest function and an encoding to run the lemmas on.\<close>

definition sample_digest :: "u8 \<Rightarrow> b3hash" where
  "sample_digest b = replicate 32 b"

definition sample_hash :: hash_fn where
  "sample_hash bs = replicate 32 (fold (\<lambda>b acc. acc * 3 + b) bs 0)"

definition sample_hex :: "bytes \<Rightarrow> string" where
  "sample_hex bs =
     concat (map (\<lambda>b. [''0123456789abcdef'' ! (unat b div 16),
                         ''0123456789abcdef'' ! (unat b mod 16)]) bs)"

definition sample_batch :: receipt_batch where
  "sample_batch =
     \<lparr>rb_batch_id = ''run-1'', rb_tenant_id = ''t'',
      rb_receipt_digests = [sample_digest 1, sample_digest 2, sample_digest 3],
      rb_merkle_root = compute_receipt_merkle_root sample_hash
        [sample_digest 1, sample_digest 2, sample_digest 3],
      rb_created_at = ''now'', rb_receipt_count = 3\<rparr>"

lemma sample_batch_created:
  "batch_receipts sample_hash sample_hex ''run-1'' ''now'' ''t''
     [sample_digest 2, sample_digest 1, sample_digest 3] = Ok sample_batch"
  by code_simp

theorem inclusion_proofs_complete_witness:
  "\<exists>p. generate_inclusion_proof sample_hash sample_batch 2 = Ok p \<and>
       verify_inclusion sample_hash p (sample_digest 3)"
  using inclusion_proofs_complete [OF sample_batch_created, of 2]
  by (auto simp: sample_batch_def)

subsection \<open>Soundness\<close>

text \<open>The inputs on which building the tree and checking a path call the digest function.\<close>

function tree_inputs :: "hash_fn \<Rightarrow> b3hash list \<Rightarrow> bytes list" where
  "tree_inputs H level =
     (if length level > 1
      then map (node_input level) (step_by_2 (length level)) @ tree_inputs H (next_level H level)
      else [])"
  by auto
termination by (relation "measure (length \<circ> snd)") auto

declare tree_inputs.simps [simp del]

fun path_inputs :: "hash_fn \<Rightarrow> b3hash list \<Rightarrow> nat \<Rightarrow> b3hash \<Rightarrow> bytes list" where
  "path_inputs H [] index current = []"
| "path_inputs H (sibling # siblings) index current =
     path_input index current sibling #
     path_inputs H siblings (index div 2) (b3_hash H (path_input index current sibling))"

lemma path_input_inject:
  assumes "b3_wf c" "b3_wf s" "b3_wf c'" "b3_wf s'"
  shows "path_input i c s = path_input i c' s' \<longleftrightarrow> c = c' \<and> s = s'"
  using assms by (auto simp: path_input_def append_wf_inject)

lemma sibling_index_less: "i < length level \<Longrightarrow> sibling_index level i < length level"
  by (auto simp: sibling_index_def)

lemma node_input_in_tree:
  assumes "i < length level" "length level > 1"
  shows "path_input i (level ! i) (level ! sibling_index level i) \<in> set (tree_inputs H level)"
proof -
  have "i div 2 < (length level + 1) div 2" using assms(1) by linarith
  then show ?thesis
    using assms by (subst tree_inputs.simps) (auto simp: node_input_path step_by_2_def)
qed

lemma next_level_wf: "\<forall>bs. b3_wf (H bs) \<Longrightarrow> list_all b3_wf (next_level H level)"
  by (simp add: next_level_def b3_hash_def list_all_iff)

lemma path_determines_leaf:
  "\<forall>bs. b3_wf (H bs) \<Longrightarrow> i < length level \<Longrightarrow> list_all b3_wf level \<Longrightarrow>
   list_all b3_wf sibs \<Longrightarrow> b3_wf d \<Longrightarrow>
   length sibs = length (collect_siblings H level i) \<Longrightarrow>
   inj_on H (set (tree_inputs H level) \<union> set (path_inputs H sibs i d)) \<Longrightarrow>
   verify_path H sibs i d = merkle_loop H level \<Longrightarrow>
   d = level ! i \<and> sibs = collect_siblings H level i"
proof (induction H level i arbitrary: sibs d rule: collect_siblings.induct)
  case (1 H level i)
  note wfH = "1.prems"(1) and i = "1.prems"(2)
  show ?case
  proof (cases "length level > 1")
    case True
    note step = next_level_step [OF i, of H] and coll = collect_siblings.simps [of H level i]
    let ?in = "path_input i (level ! i) (level ! sibling_index level i)"
    from True "1.prems"(6) coll obtain s ss where sibs: "sibs = s # ss"
      by (auto simp: length_Suc_conv)
    have "H (path_input i d s) = next_level H level ! (i div 2) \<and>
          ss = collect_siblings H (next_level H level) (i div 2)"
    proof (rule "1.IH" [OF True wfH step(1) next_level_wf [OF wfH]])
      show "length ss = length (collect_siblings H (next_level H level) (i div 2))"
        using "1.prems"(6) True coll by (simp add: sibs)
      show "inj_on H (set (tree_inputs H (next_level H level)) \<union>
              set (path_inputs H ss (i div 2) (H (path_input i d s))))"
        using True tree_inputs.simps [of H level]
        by (intro inj_on_subset [OF "1.prems"(7)]) (auto simp: sibs b3_hash_def)
      show "verify_path H ss (i div 2) (H (path_input i d s)) = merkle_loop H (next_level H level)"
        using "1.prems"(8) True merkle_loop.simps [of H level] by (simp add: sibs b3_hash_def)
    qed (use "1.prems"(4) wfH sibs in auto)
    moreover from this step(2) have "path_input i d s = ?in"
      using inj_onD [OF "1.prems"(7), of "path_input i d s" ?in] node_input_in_tree [OF i True]
      by (simp add: sibs)
    moreover have "b3_wf (level ! i)" "b3_wf (level ! sibling_index level i)"
      using "1.prems"(3) i sibling_index_less [OF i] by (simp_all add: list_all_length)
    ultimately show ?thesis
      using "1.prems"(4,5) True coll by (simp add: sibs path_input_inject)
  next
    case False
    with "1.prems" have "i = 0" "sibs = []"
      by (simp_all add: collect_siblings.simps)
    with False "1.prems"(8) show ?thesis
      by (simp add: collect_siblings.simps merkle_loop.simps)
  qed
qed

text \<open>
  (C20) Inclusion proofs are sound: if a proof carries the root of a batch, an index inside
  it and as many siblings as a generated proof for that index, and it is accepted for some
  digest, then that digest is the one the batch holds at that index, provided the digest
  function does not collide on the inputs hashed by the tree and by the check.
\<close>

theorem inclusion_proofs_sound:
  assumes "\<forall>bs. b3_wf (H bs)"
    and "batch_receipts H hex_encode bid at tid ds = Ok batch" and "list_all b3_wf ds"
    and "rp_merkle_root p = rb_merkle_root batch" and "rp_index p < rb_receipt_count batch"
    and "length (rp_siblings p) =
      length (collect_siblings H (rb_receipt_digests batch) (rp_index p))"
    and "list_all b3_wf (rp_siblings p)" and "b3_wf d"
    and "inj_on H (set (tree_inputs H (rb_receipt_digests batch)) \<union>
                   set (path_inputs H (rp_siblings p) (rp_index p) d))"
    and "verify_inclusion H p d"
  shows "d = rb_receipt_digests batch ! rp_index p \<and> d \<in> set ds"
proof -
  note fields = batch_fields [OF assms(2)]
  have "rb_receipt_count batch = length (rb_receipt_digests batch)"
    using assms(2) by (auto simp: batch_receipts_def Let_def split: if_splits)
  then have i: "rp_index p < length (rb_receipt_digests batch)" using assms(5) by simp
  have "d = rb_receipt_digests batch ! rp_index p"
    using path_determines_leaf [OF assms(1) i _ assms(7,8,6,9)] assms(3,4,10) fields
    by (simp add: verify_inclusion_def list_all_iff)
  with i show ?thesis using fields(1) nth_mem [OF i] by simp
qed

lemma sample_wf: "b3_wf (sample_hash bs)" "b3_wf (sample_digest b)"
  by (simp_all add: b3_wf_def sample_hash_def sample_digest_def)

definition pair_batch :: receipt_batch where
  "pair_batch =
     \<lparr>rb_batch_id = ''run-2'', rb_tenant_id = ''t'',
      rb_receipt_digests = [sample_digest 1, sample_digest 2],
      rb_merkle_root = sample_hash (sample_digest 1 @ sample_digest 2),
      rb_created_at = ''now'', rb_receipt_count = 2\<rparr>"

definition pair_proof :: receipt_inclusion_proof where
  "pair_proof =
     \<lparr>rp_index = 1, rp_siblings = [sample_digest 1],
      rp_merkle_root = sample_hash (sample_digest 1 @ sample_digest 2),
      rp_trace_id = ''r'', rp_batch_id = ''run-2''\<rparr>"

lemma pair_batch_created:
  "batch_receipts sample_hash sample_hex ''run-2'' ''now'' ''t''
     [sample_digest 2, sample_digest 1] = Ok pair_batch"
  by code_simp

lemma next_level_pair: "next_level H [a, b] = [H (a @ b)]"
  by (simp add: next_level_def step_by_2_def node_input_def b3_hash_def)

theorem inclusion_proofs_sound_witness:
  "sample_digest 2 = rb_receipt_digests pair_batch ! 1 \<and>
   sample_digest 2 \<in> set [sample_digest 2, sample_digest 1]"
proof -
  have "collect_siblings sample_hash (rb_receipt_digests pair_batch) 1 = [sample_digest 1]"
    by (simp add: pair_batch_def collect_siblings.simps next_level_pair sibling_index_def)
  moreover have "set (tree_inputs sample_hash (rb_receipt_digests pair_batch)) =
      {sample_digest 1 @ sample_digest 2}"
    by (simp add: pair_batch_def tree_inputs.simps next_level_pair step_by_2_def node_input_def)
  moreover have "verify_inclusion sample_hash pair_proof (sample_digest 2)"
    by (simp add: verify_inclusion_def pair_proof_def path_input_def b3_hash_def)
  ultimately show ?thesis
    using inclusion_proofs_sound [OF _ pair_batch_created, of pair_proof "sample_digest 2"]
    by (simp add: sample_wf pair_proof_def path_input_def) (simp add: pair_batch_def)
qed

subsection \<open>Order and ambiguity\<close>

lemma sort_key_mset_inj:
  assumes "mset xs = mset ys" and "inj_on f (set xs)"
  shows "sort_key f xs = sort_key f ys"
proof (rule map_inj_on [of f])
  have "map f (sort_key f xs) = sort (map f xs)" for xs
    by (rule properties_for_sort [symmetric]) simp_all
  moreover have "sort (map f xs) = sort (map f ys)"
    by (metis assms(1) mset_map mset_sort properties_for_sort sorted_sort)
  ultimately show "map f (sort_key f xs) = map f (sort_key f ys)" by simp
  show "inj_on f (set (sort_key f xs) \<union> set (sort_key f ys))"
    using assms mset_eq_setD [OF assms(1)] by simp
qed

text \<open>
  A batch depends on its receipts and not on the order in which they arrive: two
  lists with the same digests give the same batch, root included, provided the hexadecimal
  encoding separates the digests.
\<close>

theorem batch_order_independent:
  assumes "mset xs = mset ys" and "inj_on hex_encode (set xs)"
  shows "batch_receipts H hex_encode bid at tid xs = batch_receipts H hex_encode bid at tid ys"
proof -
  have key: "b3_to_hex hex_encode = hex_encode" by (rule ext) (simp add: b3_to_hex_def)
  have "xs = [] \<longleftrightarrow> ys = []" "length xs = length ys"
    using assms(1) by (auto dest: mset_eq_length)
  then show ?thesis
    using sort_key_mset_inj [OF assms] by (simp add: batch_receipts_def key)
qed

theorem batch_order_independent_witness:
  "batch_receipts sample_hash sample_hex ''run-2'' ''now'' ''t''
     [sample_digest 1, sample_digest 2] = Ok pair_batch"
proof -
  have "sample_hex (sample_digest 1) \<noteq> sample_hex (sample_digest 2)" by code_simp
  then have "inj_on sample_hex (set [sample_digest 1, sample_digest 2])" by auto
  from batch_order_independent [OF _ this, of "[sample_digest 2, sample_digest 1]"]
  show ?thesis using pair_batch_created by simp
qed

text \<open>
  The root does not determine the receipts: repeating the last digest of a batch of
  odd size greater than one leaves the root unchanged, so \<open>verify_batch_root\<close> accepts the longer list
  under the root of the shorter one.
\<close>

theorem odd_batch_duplicates_last:
  assumes "odd (length ds)" and "length ds > 1"
  shows "compute_receipt_merkle_root H (ds @ [last ds]) = compute_receipt_merkle_root H ds"
proof -
  obtain n where n: "length ds = 2 * n + 1" using assms(1) by (elim oddE)
  have nonempty: "ds \<noteq> []" using assms(2) by auto
  have "node_input (ds @ [last ds]) (2 * k) = node_input ds (2 * k)" if "k \<le> n" for k
    using that n nonempty
    by (cases "k = n") (auto simp: node_input_def Let_def nth_append last_conv_nth)
  then have "next_level H (ds @ [last ds]) = next_level H ds"
    using n by (simp add: next_level_def step_by_2_def)
  then show ?thesis
    using assms(2) nonempty merkle_loop.simps [of H ds] merkle_loop.simps [of H "ds @ [last ds]"]
    by (simp add: root_eq_loop)
qed

theorem odd_batch_duplicates_last_witness:
  "verify_batch_root sample_hash
     (sample_batch\<lparr>rb_receipt_digests :=
        [sample_digest 1, sample_digest 2, sample_digest 3, sample_digest 3]\<rparr>)"
  using odd_batch_duplicates_last
    [of "[sample_digest 1, sample_digest 2, sample_digest 3]" sample_hash]
  by (simp add: verify_batch_root_def sample_batch_def)

text \<open>
  Leaves and inner nodes are not separated: for a batch of more than one receipt, the
  hash of any inner node above the leaves is itself accepted as a receipt, with half the
  index and the first sibling left out.
\<close>

theorem inner_node_accepted:
  assumes "i < length level" and "length level > 1"
    and "rp_merkle_root p = compute_receipt_merkle_root H level"
    and "rp_siblings p = tl (collect_siblings H level i)" and "rp_index p = i div 2"
  shows "verify_inclusion H p (H (path_input i (level ! i) (level ! sibling_index level i)))"
proof -
  have "level \<noteq> []" using assms(2) by auto
  then show ?thesis
    using assms verify_collected [OF assms(1), of H] collect_siblings.simps [of H level i]
    by (simp add: verify_inclusion_def root_eq_loop b3_hash_def)
qed

theorem inner_node_accepted_witness:
  "verify_inclusion sample_hash
     \<lparr>rp_index = 0, rp_siblings = [],
      rp_merkle_root = sample_hash (sample_digest 1 @ sample_digest 2),
      rp_trace_id = ''forged'', rp_batch_id = ''run-2''\<rparr>
     (sample_hash (sample_digest 1 @ sample_digest 2))"
  using inner_node_accepted [of 0 "[sample_digest 1, sample_digest 2]"
      "\<lparr>rp_index = 0, rp_siblings = [],
        rp_merkle_root = sample_hash (sample_digest 1 @ sample_digest 2),
        rp_trace_id = ''forged'', rp_batch_id = ''run-2''\<rparr>" sample_hash]
  by (simp add: root_eq_loop merkle_loop.simps collect_siblings.simps next_level_pair
      path_input_def sibling_index_def)

end
