(* ===== verification/AuditChain.thy ===== *)
theory AuditChain
  imports B3Hash
begin

text \<open>
  Verification of policy audit chains, \<open>crates/adapteros-core/src/audit_chain.rs\<close>: the canonical
  data of an entry, the check of one chain with the result of every failure, and the check
  of the chains of all tenants. Logging is left out. The sequence number of an accepted
  entry is at most the length of the list, so the \<open>i64\<close> is an \<open>int\<close>.
\<close>

section \<open>Entries and results\<close>

record audit_entry =
  ae_id :: string
  ae_tenant_id :: string
  ae_policy_pack_id :: string
  ae_hook :: string
  ae_decision :: string
  ae_reason :: "string option"
  ae_request_id :: "string option"
  ae_user_id :: "string option"
  ae_resource_type :: "string option"
  ae_resource_id :: "string option"
  ae_metadata_json :: "string option"
  ae_timestamp :: string
  ae_entry_hash :: string
  ae_previous_hash :: "string option"
  ae_chain_sequence :: int

record audit_chain_result =
  ar_is_valid :: bool
  ar_entries_checked :: nat
  ar_first_invalid_index :: "nat option"
  ar_first_invalid_sequence :: "int option"
  ar_divergence_detected :: bool
  ar_error_message :: "string option"
  ar_tenant_id :: "string option"

definition chain_success :: "nat \<Rightarrow> string option \<Rightarrow> audit_chain_result" where
  "chain_success entries_checked tenant_id =
     \<lparr>ar_is_valid = True, ar_entries_checked = entries_checked, ar_first_invalid_index = None,
      ar_first_invalid_sequence = None, ar_divergence_detected = False,
      ar_error_message = None, ar_tenant_id = tenant_id\<rparr>"

definition chain_failure ::
  "nat \<Rightarrow> nat \<Rightarrow> int \<Rightarrow> string \<Rightarrow> string option \<Rightarrow> audit_chain_result" where
  "chain_failure entries_checked idx seqno message tenant_id =
     \<lparr>ar_is_valid = False, ar_entries_checked = entries_checked,
      ar_first_invalid_index = Some idx, ar_first_invalid_sequence = Some seqno,
      ar_divergence_detected = True, ar_error_message = Some message,
      ar_tenant_id = tenant_id\<rparr>"

section \<open>Hashing\<close>

definition unwrap_or_empty :: "string option \<Rightarrow> string" where
  "unwrap_or_empty s = (case s of None \<Rightarrow> [] | Some t \<Rightarrow> t)"

definition entry_fields :: "audit_entry \<Rightarrow> string list" where
  "entry_fields e =
     [ae_id e, ae_timestamp e, ae_tenant_id e, ae_policy_pack_id e, ae_hook e, ae_decision e,
      unwrap_or_empty (ae_reason e), unwrap_or_empty (ae_request_id e),
      unwrap_or_empty (ae_user_id e), unwrap_or_empty (ae_resource_type e),
      unwrap_or_empty (ae_resource_id e), unwrap_or_empty (ae_metadata_json e),
      unwrap_or_empty (ae_previous_hash e)]"

definition entry_data :: "audit_entry \<Rightarrow> string" where
  "entry_data e = join_with ''|'' (entry_fields e)"

definition compute_entry_hash :: "hash_fn \<Rightarrow> audit_entry \<Rightarrow> b3hash" where
  "compute_entry_hash H e = b3_hash H (map of_char (entry_data e))"

section \<open>Verification\<close>

text \<open>One iteration of the loop: the message of the first check that fails.\<close>

definition check_entry ::
  "hash_fn \<Rightarrow> (bytes \<Rightarrow> string) \<Rightarrow> string option \<Rightarrow> int \<Rightarrow> audit_entry \<Rightarrow> string option" where
  "check_entry H hex_encode prev_hash prev_seq entry =
     (let expected_seq = prev_seq + 1;
          computed_hex = b3_to_hex hex_encode (compute_entry_hash H entry) in
      if ae_chain_sequence entry \<noteq> expected_seq then
        Some (''Sequence gap: expected '' @ show_int expected_seq @ '', got '' @
              show_int (ae_chain_sequence entry))
      else
        case (case (prev_hash, ae_previous_hash entry) of
                (Some expected, Some actual) \<Rightarrow>
                  (if expected \<noteq> actual
                   then Some (''Previous hash mismatch: expected '' @ expected @ '', got '' @ actual)
                   else None)
              | (Some expected, None) \<Rightarrow> Some (''Previous hash missing: expected '' @ expected)
              | (None, Some actual) \<Rightarrow> Some ''First entry has non-null previous_hash''
              | (None, None) \<Rightarrow> None)
        of Some message \<Rightarrow> Some message
         | None \<Rightarrow>
             (if computed_hex \<noteq> ae_entry_hash entry then
                Some (''Entry hash mismatch (tampering detected): computed '' @ computed_hex @
                      '', stored '' @ ae_entry_hash entry)
              else None))"

fun verify_chain_loop ::
  "hash_fn \<Rightarrow> (bytes \<Rightarrow> string) \<Rightarrow> string option \<Rightarrow> nat \<Rightarrow> string option \<Rightarrow> int \<Rightarrow>
   audit_entry list \<Rightarrow> audit_chain_result" where
  "verify_chain_loop H hex_encode tenant_id idx prev_hash prev_seq [] =
     chain_success idx tenant_id"
| "verify_chain_loop H hex_encode tenant_id idx prev_hash prev_seq (entry # entries) =
     (case check_entry H hex_encode prev_hash prev_seq entry of
        Some message \<Rightarrow>
          chain_failure (idx + 1) idx (ae_chain_sequence entry) message tenant_id
      | None \<Rightarrow>
          verify_chain_loop H hex_encode tenant_id (idx + 1) (Some (ae_entry_hash entry))
            (ae_chain_sequence entry) entries)"

definition verify_audit_chain ::
  "hash_fn \<Rightarrow> (bytes \<Rightarrow> string) \<Rightarrow> audit_entry list \<Rightarrow> audit_chain_result" where
  "verify_audit_chain H hex_encode entries =
     (if entries = [] then chain_success 0 None
      else verify_chain_loop H hex_encode (Some (ae_tenant_id (hd entries))) 0 None 0 entries)"

text \<open>The \<open>BTreeMap\<close>s are maps.\<close>

definition push_entry ::
  "audit_entry \<Rightarrow> (string \<rightharpoonup> audit_entry list) \<Rightarrow> (string \<rightharpoonup> audit_entry list)" where
  "push_entry e m =
     m(ae_tenant_id e \<mapsto> (case m (ae_tenant_id e) of None \<Rightarrow> [] | Some l \<Rightarrow> l) @ [e])"

definition verify_audit_chains_by_tenant ::
  "hash_fn \<Rightarrow> (bytes \<Rightarrow> string) \<Rightarrow> audit_entry list \<Rightarrow> (string \<rightharpoonup> audit_chain_result)" where
  "verify_audit_chains_by_tenant H hex_encode entries =
     (if entries = [] then Map.empty
      else
        (let per_tenant = fold push_entry entries Map.empty in
         (\<lambda>t. map_option (\<lambda>chain. verify_audit_chain H hex_encode
                           (sort_key ae_chain_sequence chain)) (per_tenant t))))"

section \<open>Correctness\<close>

text \<open>What the entry at position \<open>i\<close> of a valid chain has to satisfy.\<close>

definition entry_ok ::
  "hash_fn \<Rightarrow> (bytes \<Rightarrow> string) \<Rightarrow> string option \<Rightarrow> int \<Rightarrow> audit_entry \<Rightarrow> bool" where
  "entry_ok H hex_encode prev_hash prev_seq e \<longleftrightarrow>
     ae_chain_sequence e = prev_seq + 1 \<and> ae_previous_hash e = prev_hash \<and>
     ae_entry_hash e = hex_encode (compute_entry_hash H e)"

definition chain_link :: "audit_entry list \<Rightarrow> nat \<Rightarrow> string option" where
  "chain_link es i = (if i = 0 then None else Some (ae_entry_hash (es ! (i - 1))))"

lemma check_entry_none:
  "check_entry H hex_encode p s e = None \<longleftrightarrow> entry_ok H hex_encode p s e"
  by (auto simp: check_entry_def entry_ok_def b3_to_hex_def Let_def split: option.splits)

lemma chain_link_Cons:
  "chain_link (e # es) (Suc i) = (if i = 0 then Some (ae_entry_hash e) else chain_link es i)"
  by (cases i) (simp_all add: chain_link_def)

definition next_hash :: "string option \<Rightarrow> audit_entry list \<Rightarrow> nat \<Rightarrow> string option" where
  "next_hash p es i = (if i = 0 then p else chain_link es i)"

lemma next_hash_simps [simp]:
  "next_hash p es 0 = p" "next_hash p (e # es) (Suc i) = next_hash (Some (ae_entry_hash e)) es i"
  by (simp_all add: next_hash_def chain_link_Cons)

lemma loop_valid_iff:
  "ar_is_valid (verify_chain_loop H hex_encode t k p (int m) es) \<longleftrightarrow>
   (\<forall>i < length es. entry_ok H hex_encode (next_hash p es i) (int (m + i)) (es ! i))"
proof (induction es arbitrary: k p m)
  case (Cons e es)
  show ?case
  proof (cases "check_entry H hex_encode p (int m) e")
    case None
    then have entry: "entry_ok H hex_encode p (int m) e" "ae_chain_sequence e = int (Suc m)"
      by (simp_all add: check_entry_none entry_ok_def)
    with None Cons.IH [of "k + 1" "Some (ae_entry_hash e)" "Suc m"] show ?thesis
      by (auto simp: All_less_Suc2 entry algebra_simps)
  next
    case (Some msg)
    then have "\<not> entry_ok H hex_encode p (int m) e" by (simp flip: check_entry_none)
    with Some show ?thesis by (auto simp: chain_failure_def)
  qed
qed (simp add: chain_success_def)

lemma loop_first_invalid:
  "\<not> ar_is_valid (verify_chain_loop H hex_encode t k p (int m) es) \<Longrightarrow>
   \<exists>j < length es.
     ar_first_invalid_index (verify_chain_loop H hex_encode t k p (int m) es) = Some (k + j) \<and>
     \<not> entry_ok H hex_encode (next_hash p es j) (int (m + j)) (es ! j) \<and>
     (\<forall>i < j. entry_ok H hex_encode (next_hash p es i) (int (m + i)) (es ! i))"
proof (induction es arbitrary: k p m)
  case (Cons e es)
  show ?case
  proof (cases "check_entry H hex_encode p (int m) e")
    case None
    then have "entry_ok H hex_encode p (int m) e" "ae_chain_sequence e = int (Suc m)"
      by (simp_all add: check_entry_none entry_ok_def)
    moreover from None Cons.prems Cons.IH [of "k + 1" "Some (ae_entry_hash e)" "Suc m"] this
    obtain j where "j < length es"
      "ar_first_invalid_index (verify_chain_loop H hex_encode t (k + 1)
         (Some (ae_entry_hash e)) (int (Suc m)) es) = Some (k + 1 + j)"
      "\<not> entry_ok H hex_encode (next_hash (Some (ae_entry_hash e)) es j) (int (Suc m + j)) (es ! j)"
      "\<forall>i < j. entry_ok H hex_encode (next_hash (Some (ae_entry_hash e)) es i)
         (int (Suc m + i)) (es ! i)"
      by auto
    ultimately show ?thesis using None
      by (intro exI [of _ "Suc j"]) (auto simp: All_less_Suc2 algebra_simps)
  next
    case (Some msg)
    then have "\<not> entry_ok H hex_encode p (int m) e" by (simp flip: check_entry_none)
    with Some show ?thesis by (auto simp: chain_failure_def intro!: exI [of _ 0])
  qed
qed (simp add: chain_success_def)

text \<open>
  The check accepts exactly the well-linked chains, and a rejection points at the
  first bad entry: the result is valid if and only if every entry has its position as
  sequence number, the stored hash of its predecessor (none for the first) and the hash of
  its own data; otherwise the reported index is the least one where this fails.
\<close>

theorem audit_chain_verified:
  "(ar_is_valid (verify_audit_chain H hex_encode es) \<longleftrightarrow>
     (\<forall>i < length es. entry_ok H hex_encode (chain_link es i) (int i) (es ! i))) \<and>
   (\<not> ar_is_valid (verify_audit_chain H hex_encode es) \<longrightarrow>
     (\<exists>j < length es. ar_first_invalid_index (verify_audit_chain H hex_encode es) = Some j \<and>
        \<not> entry_ok H hex_encode (chain_link es j) (int j) (es ! j) \<and>
        (\<forall>i < j. entry_ok H hex_encode (chain_link es i) (int i) (es ! i))))"
proof (cases "es = []")
  case False
  have link: "next_hash None es i = chain_link es i" for i
    by (simp add: next_hash_def chain_link_def)
  show ?thesis
    using False loop_valid_iff [of H hex_encode _ 0 None 0 es]
      loop_first_invalid [of H hex_encode _ 0 None 0 es]
    by (auto simp: verify_audit_chain_def link)
qed (simp add: verify_audit_chain_def chain_success_def)

text \<open>A chain of two decisions to run the lemmas on.\<close>

definition tally_hash :: hash_fn where
  "tally_hash bs = replicate 32 (fold (\<lambda>b acc. acc * 3 + b) bs 0)"

definition lower_hex :: "bytes \<Rightarrow> string" where
  "lower_hex bs = concat (map (\<lambda>b. [''0123456789abcdef'' ! unat (b div 16), ''0123456789abcdef'' ! unat (b mod 16)]) bs)"

lemma lower_hex_length: "length (lower_hex bs) = 2 * length bs"
  by (induction bs) (simp_all add: lower_hex_def)

definition blank_entry :: "string \<Rightarrow> int \<Rightarrow> string option \<Rightarrow> audit_entry" where
  "blank_entry i n prev =
     \<lparr>ae_id = i, ae_tenant_id = ''t'', ae_policy_pack_id = ''p'', ae_hook = ''training.start'',
      ae_decision = ''deny'', ae_reason = None, ae_request_id = None, ae_user_id = None,
      ae_resource_type = None, ae_resource_id = None, ae_metadata_json = None,
      ae_timestamp = ''now'', ae_entry_hash = [], ae_previous_hash = prev,
      ae_chain_sequence = n\<rparr>"

definition seal :: "audit_entry \<Rightarrow> audit_entry" where
  "seal e = e\<lparr>ae_entry_hash := lower_hex (compute_entry_hash tally_hash e)\<rparr>"

definition demo_chain :: "audit_entry list" where
  "demo_chain =
     (let e1 = seal (blank_entry ''a'' 1 None) in
      [e1, seal (blank_entry ''b'' 2 (Some (ae_entry_hash e1)))])"

lemma demo_chain_valid: "ar_is_valid (verify_audit_chain tally_hash lower_hex demo_chain)"
  by (simp add: verify_audit_chain_def demo_chain_def Let_def check_entry_def seal_def
      blank_entry_def compute_entry_hash_def entry_data_def entry_fields_def b3_to_hex_def
      chain_success_def)

theorem audit_chain_verified_witness:
  "ar_is_valid (verify_audit_chain tally_hash lower_hex demo_chain) \<and>
   ar_first_invalid_index (verify_audit_chain tally_hash lower_hex (rev demo_chain)) = Some 0"
proof -
  have "\<not> entry_ok tally_hash lower_hex (chain_link (rev demo_chain) 0) (int 0)
         (rev demo_chain ! 0)" and len: "0 < length (rev demo_chain)"
    by (simp_all add: entry_ok_def demo_chain_def Let_def seal_def blank_entry_def)
  then show ?thesis
    using audit_chain_verified [of tally_hash lower_hex "rev demo_chain"] demo_chain_valid
    by (metis gr_zeroI)
qed

subsection \<open>The last hash commits to the chain\<close>

lemma split_join:
  "fs \<noteq> [] \<Longrightarrow> \<forall>f \<in> set fs. c \<notin> set f \<Longrightarrow> split_on c (join_with [c] fs) = fs"
  by (induction "[c]" fs rule: join_with.induct)
    (simp_all add: split_on_no_sep split_on_append_sep)

definition separator_free :: "audit_entry \<Rightarrow> bool" where
  "separator_free e = list_all (\<lambda>f. CHR ''|'' \<notin> set f) (entry_fields e)"

lemma entry_data_inject:
  assumes "separator_free e" "separator_free f"
  shows "entry_data e = entry_data f \<longleftrightarrow> entry_fields e = entry_fields f"
proof
  assume "entry_data e = entry_data f"
  then have "split_on CHR ''|'' (entry_data e) = split_on CHR ''|'' (entry_data f)" by simp
  moreover have "split_on CHR ''|'' (entry_data x) = entry_fields x" if "separator_free x" for x
    unfolding entry_data_def using that
    by (intro split_join) (auto simp: separator_free_def list_all_iff entry_fields_def)
  ultimately show "entry_fields e = entry_fields f" using assms by simp
qed (simp add: entry_data_def)

definition chain_ok :: "hash_fn \<Rightarrow> (bytes \<Rightarrow> string) \<Rightarrow> audit_entry list \<Rightarrow> bool" where
  "chain_ok H hex_encode es \<longleftrightarrow>
     (\<forall>i < length es. entry_ok H hex_encode (chain_link es i) (int i) (es ! i))"

lemma valid_iff_chain_ok:
  "ar_is_valid (verify_audit_chain H hex_encode es) \<longleftrightarrow> chain_ok H hex_encode es"
proof (cases "es = []")
  case False
  have "next_hash None es i = chain_link es i" for i
    by (simp add: next_hash_def chain_link_def)
  with False show ?thesis
    using loop_valid_iff [of H hex_encode _ 0 None 0 es]
    by (simp add: verify_audit_chain_def chain_ok_def)
qed (simp add: verify_audit_chain_def chain_success_def chain_ok_def)

lemma chain_link_snoc:
  "i < length xs \<Longrightarrow> chain_link (xs @ [e]) i = chain_link xs i"
  "chain_link (xs @ [e]) (length xs) = (if xs = [] then None else Some (ae_entry_hash (last xs)))"
  by (auto simp: chain_link_def nth_append last_conv_nth)

lemma chain_ok_snoc:
  "chain_ok H hex_encode (xs @ [e]) \<longleftrightarrow> chain_ok H hex_encode xs \<and>
   entry_ok H hex_encode (if xs = [] then None else Some (ae_entry_hash (last xs)))
     (int (length xs)) e"
  by (auto simp: chain_ok_def less_Suc_eq chain_link_snoc nth_append)

lemma chain_ok_take: "chain_ok H hex_encode es \<Longrightarrow> chain_ok H hex_encode (take n es)"
  by (auto simp: chain_ok_def chain_link_def)

definition hashed_inputs :: "audit_entry list \<Rightarrow> bytes set" where
  "hashed_inputs es = (\<lambda>e. map of_char (entry_data e)) ` set es"

lemma same_hash_same_fields:
  assumes "inj_on (\<lambda>bs. hex_encode (H bs)) S"
    and "map of_char (entry_data e) \<in> S" "map of_char (entry_data f) \<in> S"
    and "separator_free e" "separator_free f"
    and "hex_encode (compute_entry_hash H e) = hex_encode (compute_entry_hash H f)"
  shows "entry_fields e = entry_fields f"
  using inj_onD [OF assms(1) _ assms(2,3)] assms(4-6)
  by (simp add: compute_entry_hash_def b3_hash_def inj_map_eq_map [OF of_char_u8_inj]
      entry_data_inject)

lemma last_hash_commits:
  assumes hex: "\<And>bs. length (hex_encode bs) = 2 * length bs" and dig: "\<And>bs. length (H bs) = 32" and inj: "inj_on (\<lambda>bs. hex_encode (H bs)) S"
  shows "es \<noteq> [] \<Longrightarrow> fs \<noteq> [] \<Longrightarrow> chain_ok H hex_encode es \<Longrightarrow> chain_ok H hex_encode fs \<Longrightarrow>
    list_all separator_free es \<Longrightarrow> list_all separator_free fs \<Longrightarrow>
    hashed_inputs es \<union> hashed_inputs fs \<subseteq> S \<Longrightarrow>
    ae_entry_hash (last es) = ae_entry_hash (last fs) \<Longrightarrow>
    map entry_fields es = map entry_fields fs \<and> map ae_entry_hash es = map ae_entry_hash fs"
proof (induction es arbitrary: fs rule: rev_induct)
  case (snoc e xs)
  from snoc.prems(2) obtain ys f where fs: "fs = ys @ [f]" by (metis rev_exhaust)
  note ok = snoc.prems(3,4) [unfolded fs chain_ok_snoc]
  have hash: "ae_entry_hash e = ae_entry_hash f" using snoc.prems(8) by (simp add: fs)
  have same: "entry_fields e = entry_fields f"
    by (rule same_hash_same_fields [of hex_encode H S, OF inj])
      (use snoc.prems(5,6,7) ok hash in \<open>auto simp: fs hashed_inputs_def entry_ok_def\<close>)
  then have prev: "unwrap_or_empty (ae_previous_hash e) = unwrap_or_empty (ae_previous_hash f)"
    by (simp add: entry_fields_def)
  have nonempty: "ae_entry_hash (last zs) \<noteq> []" if "chain_ok H hex_encode zs" "zs \<noteq> []" for zs
  proof -
    have "ae_entry_hash (last zs) = hex_encode (compute_entry_hash H (last zs))"
      using that by (metis append_butlast_last_id chain_ok_snoc entry_ok_def)
    moreover have "length (hex_encode (compute_entry_hash H e)) = 64" for e
      by (simp add: hex dig compute_entry_hash_def b3_hash_def)
    ultimately show ?thesis by (metis list.size(3) zero_neq_numeral)
  qed
  show ?case
  proof (cases "xs = []")
    case True
    with prev ok nonempty [of ys] have "ys = []"
      by (auto simp: entry_ok_def unwrap_or_empty_def split: if_splits)
    with True same hash show ?thesis by (simp add: fs)
  next
    case False
    with prev ok nonempty [of xs] have "ys \<noteq> []" "ae_entry_hash (last xs) = ae_entry_hash (last ys)"
      by (auto simp: entry_ok_def unwrap_or_empty_def split: if_splits)
    with False snoc.IH [of ys] snoc.prems(5,6,7) ok same hash show ?thesis
      by (auto simp: fs hashed_inputs_def)
  qed
qed simp

text \<open>
  (C21) The last hash commits to the whole chain: two accepted, non-empty chains that end
  in the same entry hash hold the same hashed fields and the same hashes in every entry
  and have the same length, provided no field contains the separator, the digest function
  does not collide on the data of the two chains and gives 32 bytes, and the hexadecimal encoding gives
  two characters for each byte.
\<close>

theorem audit_head_commits:
  assumes "ar_is_valid (verify_audit_chain H hex_encode es)"
    and "ar_is_valid (verify_audit_chain H hex_encode fs)"
    and "es \<noteq> []" and "fs \<noteq> []" and "ae_entry_hash (last es) = ae_entry_hash (last fs)"
    and "list_all separator_free es" and "list_all separator_free fs"
    and "inj_on (\<lambda>bs. hex_encode (H bs)) (hashed_inputs es \<union> hashed_inputs fs)"
    and "\<And>bs. length (H bs) = 32" and "\<And>bs. length (hex_encode bs) = 2 * length bs"
  shows "length es = length fs \<and> map entry_fields es = map entry_fields fs \<and>
         map ae_entry_hash es = map ae_entry_hash fs"
  using last_hash_commits [of hex_encode H, OF assms(10,9,8,3,4) _ _ assms(6,7) order_refl assms(5)]
    assms(1,2)
    map_eq_imp_length_eq
  by (auto simp: valid_iff_chain_ok)

definition single_chain :: "audit_entry list" where
  "single_chain = [seal (blank_entry ''a'' 1 None)]"

lemma single_chain_valid: "ar_is_valid (verify_audit_chain tally_hash lower_hex single_chain)"
  by (simp add: verify_audit_chain_def single_chain_def check_entry_def seal_def
      blank_entry_def compute_entry_hash_def entry_data_def entry_fields_def b3_to_hex_def
      chain_success_def)

text \<open>Dropping an absent reason for an empty one keeps the hash of the entry.\<close>

definition single_chain_blank :: "audit_entry list" where
  "single_chain_blank = map (ae_reason_update (\<lambda>_. Some [])) single_chain"

lemma single_chain_blank_valid:
  "ar_is_valid (verify_audit_chain tally_hash lower_hex single_chain_blank)"
  by (simp add: verify_audit_chain_def single_chain_def single_chain_blank_def check_entry_def
      seal_def blank_entry_def compute_entry_hash_def entry_data_def entry_fields_def
      b3_to_hex_def chain_success_def unwrap_or_empty_def)

theorem audit_head_commits_witness:
  "map entry_fields single_chain = map entry_fields single_chain_blank"
  using audit_head_commits [OF single_chain_valid single_chain_blank_valid]
  by (simp add: single_chain_def single_chain_blank_def seal_def blank_entry_def
      separator_free_def entry_fields_def hashed_inputs_def entry_data_def unwrap_or_empty_def
      lower_hex_length tally_hash_def)

subsection \<open>What the hash does not see\<close>

lemma check_entry_cong:
  assumes "entry_data e = entry_data f" "ae_chain_sequence e = ae_chain_sequence f"
    "ae_previous_hash e = ae_previous_hash f" "ae_entry_hash e = ae_entry_hash f"
  shows "check_entry H hex_encode p s e = check_entry H hex_encode p s f"
  by (simp only: check_entry_def compute_entry_hash_def assms)

lemma loop_replace:
  assumes "entry_data e = entry_data f" "ae_chain_sequence e = ae_chain_sequence f"
    "ae_previous_hash e = ae_previous_hash f" "ae_entry_hash e = ae_entry_hash f"
  shows "verify_chain_loop H hex_encode t k p s (xs @ e # ys) =
         verify_chain_loop H hex_encode t k p s (xs @ f # ys)"
  by (induction xs arbitrary: k p s)
    (auto simp: check_entry_cong [OF assms] assms split: option.split)

lemma verify_replace:
  assumes "entry_data e = entry_data f" "ae_chain_sequence e = ae_chain_sequence f"
    "ae_previous_hash e = ae_previous_hash f" "ae_entry_hash e = ae_entry_hash f"
    "ae_tenant_id e = ae_tenant_id f"
  shows "verify_audit_chain H hex_encode (xs @ e # ys) = verify_audit_chain H hex_encode (xs @ f # ys)"
proof -
  have "ae_tenant_id (hd (xs @ e # ys)) = ae_tenant_id (hd (xs @ f # ys))"
    using assms(5) by (cases xs) simp_all
  then show ?thesis
    using loop_replace [OF assms(1-4)] by (simp add: verify_audit_chain_def)
qed

text \<open>
  The separator is not escaped: when the hook of an entry contains a bar, moving the
  part after the bar to the front of the decision gives a different entry that every chain
  accepts in its place; an absent reason and an empty one are interchangeable too.
\<close>

theorem separator_shift_undetected:
  "verify_audit_chain H hex_encode
     (xs @ e\<lparr>ae_hook := h @ ''|'' @ x, ae_decision := d\<rparr> # ys) =
   verify_audit_chain H hex_encode
     (xs @ e\<lparr>ae_hook := h, ae_decision := x @ ''|'' @ d\<rparr> # ys) \<and>
   verify_audit_chain H hex_encode (xs @ e\<lparr>ae_reason := None\<rparr> # ys) =
   verify_audit_chain H hex_encode (xs @ e\<lparr>ae_reason := Some []\<rparr> # ys)"
proof -
  have "entry_data (e\<lparr>ae_hook := h @ ''|'' @ x, ae_decision := d\<rparr>) =
        entry_data (e\<lparr>ae_hook := h, ae_decision := x @ ''|'' @ d\<rparr>)"
    and "entry_data (e\<lparr>ae_reason := None\<rparr>) = entry_data (e\<lparr>ae_reason := Some []\<rparr>)"
    by (simp_all add: entry_data_def entry_fields_def unwrap_or_empty_def)
  then show ?thesis by (intro conjI; intro verify_replace) simp_all
qed

subsection \<open>Tenants\<close>

lemma grouped:
  "fold push_entry es m t =
     (let l = filter (\<lambda>e. ae_tenant_id e = t) es in
      if l = [] then m t else Some ((case m t of None \<Rightarrow> [] | Some l' \<Rightarrow> l') @ l))"
  by (induction es arbitrary: m) (auto simp: push_entry_def Let_def split: option.split)

text \<open>
  Tenants are verified independently: the result for a tenant is the check of that
  tenant's own entries in the order of their sequence numbers, whatever the entries of other tenants are
  and however the tenants are interleaved; a tenant without entries has no result.
\<close>

theorem tenant_chains_independent:
  "verify_audit_chains_by_tenant H hex_encode entries t =
     (let own = filter (\<lambda>e. ae_tenant_id e = t) entries in
      if own = [] then None
      else Some (verify_audit_chain H hex_encode (sort_key ae_chain_sequence own)))"
  by (simp add: verify_audit_chains_by_tenant_def grouped Let_def)

text \<open>A cut-off tail goes unnoticed: every prefix of an accepted chain is accepted.\<close>

lemma truncation_undetected:
  "ar_is_valid (verify_audit_chain H hex_encode es) \<Longrightarrow>
   ar_is_valid (verify_audit_chain H hex_encode (take n es))"
  by (simp add: valid_iff_chain_ok chain_ok_take)

end
