(* ===== verification/TenantIsolation.thy ===== *)
theory TenantIsolation
  imports LifecycleRules
begin

text \<open>
  The tenant isolation framework, \<open>crates/adapteros-core/src/tenant_isolation\<close>: configuration,
  principals, targets and requests (\<open>types.rs\<close>), the four built-in rules (\<open>rules.rs\<close>) and
  the engine that combines their effects (\<open>engine.rs\<close>). A rule object is a record of its
  identifier and its evaluation function; \<open>serde_json::Value\<close> is the type \<open>json\<close>.
\<close>

section \<open>Types\<close>

record tenant_isolation_config =
  tc_dev_mode_admin_all_tenants :: bool
  tc_dev_mode_bypass_overrides_denies :: bool
  tc_admin_role_names :: "string list"
  tc_use_roles_claim :: bool
  tc_admin_tenant_wildcard :: string
  tc_allow_admin_wildcard :: bool
  tc_allow_admin_tenant_grants :: bool
  tc_extensions :: "string \<rightharpoonup> json"

definition tenant_config_default :: tenant_isolation_config where
  "tenant_config_default =
     \<lparr>tc_dev_mode_admin_all_tenants = False, tc_dev_mode_bypass_overrides_denies = True,
      tc_admin_role_names = [''admin''], tc_use_roles_claim = False,
      tc_admin_tenant_wildcard = ''*'', tc_allow_admin_wildcard = True,
      tc_allow_admin_tenant_grants = True, tc_extensions = Map.empty\<rparr>"

record tenant_principal =
  tp_tenant_id :: string
  tp_role :: string
  tp_roles :: "string list"
  tp_admin_tenants :: "string list"
  tp_subject_id :: "string option"
  tp_subject_email :: "string option"

definition principal_new :: "string \<Rightarrow> string \<Rightarrow> string list \<Rightarrow> tenant_principal" where
  "principal_new tenant_id role admin_tenants =
     \<lparr>tp_tenant_id = tenant_id, tp_role = role, tp_roles = [], tp_admin_tenants = admin_tenants,
      tp_subject_id = None, tp_subject_email = None\<rparr>"

definition has_role :: "tenant_principal \<Rightarrow> string \<Rightarrow> tenant_isolation_config \<Rightarrow> bool" where
  "has_role p role cfg =
     (if tp_role p = role then True
      else if \<not> tc_use_roles_claim cfg then False
      else list_ex (\<lambda>r. r = role) (tp_roles p))"

definition is_admin :: "tenant_principal \<Rightarrow> tenant_isolation_config \<Rightarrow> bool" where
  "is_admin p cfg = list_ex (\<lambda>admin_role. has_role p admin_role cfg) (tc_admin_role_names cfg)"

record tenant_isolation_target =
  tt_tenant_id :: string
  tt_resource_kind :: "string option"
  tt_resource_id :: "string option"

datatype tenant_isolation_action = TA_Unspecified | TA_Read | TA_Write | TA_Admin

record tenant_isolation_request =
  tq_principal :: tenant_principal
  tq_target :: tenant_isolation_target
  tq_action :: tenant_isolation_action
  tq_attributes :: "json option"

definition request_new :: "tenant_principal \<Rightarrow> string \<Rightarrow> tenant_isolation_request" where
  "request_new caller target_tenant_id =
     \<lparr>tq_principal = caller,
      tq_target = \<lparr>tt_tenant_id = target_tenant_id, tt_resource_kind = None,
                   tt_resource_id = None\<rparr>,
      tq_action = TA_Unspecified, tq_attributes = None\<rparr>"

datatype tenant_isolation_decision = TD_Allow | TD_Deny

datatype tenant_isolation_reason =
    SameTenant | DevModeAdminBypass | AdminWildcardGrant | AdminExplicitGrant
  | TenantMismatch | DeniedByRule

record rule_decision =
  rd_reason :: tenant_isolation_reason
  rd_details :: "string option"

definition decision_new :: "tenant_isolation_reason \<Rightarrow> rule_decision" where
  "decision_new reason = \<lparr>rd_reason = reason, rd_details = None\<rparr>"

datatype rule_effect =
    Abstain | Allow rule_decision | AllowOverride rule_decision | Deny rule_decision

record tenant_isolation_verdict =
  tv_decision :: tenant_isolation_decision
  tv_reason :: tenant_isolation_reason
  tv_rule_id :: "string option"
  tv_details :: "string option"

definition verdict_allowed ::
  "tenant_isolation_reason \<Rightarrow> string option \<Rightarrow> string option \<Rightarrow> tenant_isolation_verdict" where
  "verdict_allowed reason rule_id details =
     \<lparr>tv_decision = TD_Allow, tv_reason = reason, tv_rule_id = rule_id, tv_details = details\<rparr>"

definition verdict_denied ::
  "tenant_isolation_reason \<Rightarrow> string option \<Rightarrow> string option \<Rightarrow> tenant_isolation_verdict" where
  "verdict_denied reason rule_id details =
     \<lparr>tv_decision = TD_Deny, tv_reason = reason, tv_rule_id = rule_id, tv_details = details\<rparr>"

definition verdict_is_allowed :: "tenant_isolation_verdict \<Rightarrow> bool" where
  "verdict_is_allowed v \<longleftrightarrow> tv_decision v = TD_Allow"

record tenant_isolation_violation =
  ti_message :: string
  ti_principal_tenant_id :: string
  ti_resource_tenant_id :: string
  ti_principal_role :: "string option"
  ti_reason :: tenant_isolation_reason
  ti_rule_id :: "string option"
  ti_details :: "string option"

definition violation_new ::
  "string \<Rightarrow> string \<Rightarrow> string option \<Rightarrow> tenant_isolation_reason \<Rightarrow> string option \<Rightarrow>
   string option \<Rightarrow> tenant_isolation_violation" where
  "violation_new principal_tenant resource_tenant role reason rule_id details =
     \<lparr>ti_message = ''Tenant isolation violation: user tenant '' @ quoted principal_tenant @
        '' cannot access resource tenant '' @ quoted resource_tenant,
      ti_principal_tenant_id = principal_tenant, ti_resource_tenant_id = resource_tenant,
      ti_principal_role = role, ti_reason = reason, ti_rule_id = rule_id,
      ti_details = details\<rparr>"

definition violation_to_error :: "tenant_isolation_violation \<Rightarrow> aos_error" where
  "violation_to_error v = EAuthz (ti_message v)"

section \<open>Rules\<close>

record tenant_isolation_rule =
  tr_id :: string
  tr_evaluate :: "tenant_isolation_request \<Rightarrow> tenant_isolation_config \<Rightarrow> rule_effect"

definition same_tenant_rule :: tenant_isolation_rule where
  "same_tenant_rule =
     \<lparr>tr_id = ''tenant.same_tenant'',
      tr_evaluate = (\<lambda>req cfg.
        if tp_tenant_id (tq_principal req) = tt_tenant_id (tq_target req)
        then Allow (decision_new SameTenant) else Abstain)\<rparr>"

definition dev_mode_admin_bypass_rule :: tenant_isolation_rule where
  "dev_mode_admin_bypass_rule =
     \<lparr>tr_id = ''tenant.dev_mode_admin_bypass'',
      tr_evaluate = (\<lambda>req cfg.
        if \<not> tc_dev_mode_admin_all_tenants cfg then Abstain
        else if \<not> is_admin (tq_principal req) cfg then Abstain
        else if tc_dev_mode_bypass_overrides_denies cfg
        then AllowOverride (decision_new DevModeAdminBypass)
        else Allow (decision_new DevModeAdminBypass))\<rparr>"

definition admin_wildcard_grant_rule :: tenant_isolation_rule where
  "admin_wildcard_grant_rule =
     \<lparr>tr_id = ''tenant.admin_wildcard_grant'',
      tr_evaluate = (\<lambda>req cfg.
        if \<not> tc_allow_admin_wildcard cfg then Abstain
        else if \<not> is_admin (tq_principal req) cfg then Abstain
        else if list_ex (\<lambda>t. t = tc_admin_tenant_wildcard cfg)
                  (tp_admin_tenants (tq_principal req))
        then Allow (decision_new AdminWildcardGrant) else Abstain)\<rparr>"

definition admin_explicit_grant_rule :: tenant_isolation_rule where
  "admin_explicit_grant_rule =
     \<lparr>tr_id = ''tenant.admin_explicit_grant'',
      tr_evaluate = (\<lambda>req cfg.
        if \<not> tc_allow_admin_tenant_grants cfg then Abstain
        else if \<not> is_admin (tq_principal req) cfg then Abstain
        else if list_ex (\<lambda>t. t = tt_tenant_id (tq_target req))
                  (tp_admin_tenants (tq_principal req))
        then Allow (decision_new AdminExplicitGrant) else Abstain)\<rparr>"

lemmas rule_defs = same_tenant_rule_def dev_mode_admin_bypass_rule_def
  admin_wildcard_grant_rule_def admin_explicit_grant_rule_def

section \<open>Engine\<close>

record tenant_isolation_engine =
  te_config :: tenant_isolation_config
  te_rules :: "tenant_isolation_rule list"

definition engine_builder :: "tenant_isolation_config \<Rightarrow> tenant_isolation_engine" where
  "engine_builder cfg =
     \<lparr>te_config = cfg,
      te_rules = [same_tenant_rule, dev_mode_admin_bypass_rule, admin_wildcard_grant_rule,
                  admin_explicit_grant_rule]\<rparr>"

definition with_rule :: "tenant_isolation_engine \<Rightarrow> tenant_isolation_rule \<Rightarrow> tenant_isolation_engine"
where
  "with_rule e r = e\<lparr>te_rules := te_rules e @ [r]\<rparr>"

definition with_rule_first ::
  "tenant_isolation_engine \<Rightarrow> tenant_isolation_rule \<Rightarrow> tenant_isolation_engine" where
  "with_rule_first e r = e\<lparr>te_rules := r # te_rules e\<rparr>"

definition engine_new :: "tenant_isolation_config \<Rightarrow> tenant_isolation_engine" where
  "engine_new cfg = engine_builder cfg"

text \<open>The three best candidates of the evaluation loop.\<close>

record best_effects =
  bst_allow_override :: "(string \<times> rule_decision) option"
  bst_deny :: "(string \<times> rule_decision) option"
  bst_allow :: "(string \<times> rule_decision) option"

definition keep_first :: "'a option \<Rightarrow> 'a \<Rightarrow> 'a option" where
  "keep_first best x = (if best = None then Some x else best)"

definition consider_rule ::
  "tenant_isolation_request \<Rightarrow> tenant_isolation_config \<Rightarrow> tenant_isolation_rule \<Rightarrow>
   best_effects \<Rightarrow> best_effects" where
  "consider_rule req cfg rule best =
     (case tr_evaluate rule req cfg of
        Abstain \<Rightarrow> best
      | Allow d \<Rightarrow> best\<lparr>bst_allow := keep_first (bst_allow best) (tr_id rule, d)\<rparr>
      | AllowOverride d \<Rightarrow>
          best\<lparr>bst_allow_override := keep_first (bst_allow_override best) (tr_id rule, d)\<rparr>
      | Deny d \<Rightarrow> best\<lparr>bst_deny := keep_first (bst_deny best) (tr_id rule, d)\<rparr>)"

definition engine_evaluate ::
  "tenant_isolation_engine \<Rightarrow> tenant_isolation_request \<Rightarrow> tenant_isolation_verdict" where
  "engine_evaluate e req =
     (let best = fold (consider_rule req (te_config e)) (te_rules e)
                   \<lparr>bst_allow_override = None, bst_deny = None, bst_allow = None\<rparr> in
      case bst_allow_override best of
        Some (rule_id, d) \<Rightarrow> verdict_allowed (rd_reason d) (Some rule_id) (rd_details d)
      | None \<Rightarrow>
          (case bst_deny best of
             Some (rule_id, d) \<Rightarrow> verdict_denied (rd_reason d) (Some rule_id) (rd_details d)
           | None \<Rightarrow>
               (case bst_allow best of
                  Some (rule_id, d) \<Rightarrow> verdict_allowed (rd_reason d) (Some rule_id) (rd_details d)
                | None \<Rightarrow> verdict_denied TenantMismatch None None)))"

definition engine_check :: "tenant_isolation_engine \<Rightarrow> tenant_isolation_request \<Rightarrow> bool" where
  "engine_check e req = verdict_is_allowed (engine_evaluate e req)"

definition engine_validate ::
  "tenant_isolation_engine \<Rightarrow> tenant_isolation_request \<Rightarrow>
   (tenant_isolation_violation, unit) result" where
  "engine_validate e req =
     (let verdict = engine_evaluate e req in
      if verdict_is_allowed verdict then Ok ()
      else Err (violation_new (tp_tenant_id (tq_principal req)) (tt_tenant_id (tq_target req))
                  (Some (tp_role (tq_principal req))) (tv_reason verdict) (tv_rule_id verdict)
                  (tv_details verdict)))"

section \<open>Correctness\<close>

subsection \<open>Combination of effects\<close>

fun overrides :: "rule_effect \<Rightarrow> bool" where
  "overrides (AllowOverride _) = True"
| "overrides _ = False"

fun denies :: "rule_effect \<Rightarrow> bool" where
  "denies (Deny _) = True"
| "denies _ = False"

fun allows :: "rule_effect \<Rightarrow> bool" where
  "allows (Allow _) = True"
| "allows _ = False"

definition some_rule ::
  "(rule_effect \<Rightarrow> bool) \<Rightarrow> tenant_isolation_engine \<Rightarrow> tenant_isolation_request \<Rightarrow> bool" where
  "some_rule p e req = list_ex (\<lambda>r. p (tr_evaluate r req (te_config e))) (te_rules e)"

lemma keep_first_None [simp]: "keep_first b x \<noteq> None" "keep_first b x = None \<longleftrightarrow> False"
  by (simp_all add: keep_first_def)

lemma consider_rule_None:
  "bst_allow_override (consider_rule req cfg r b) = None \<longleftrightarrow>
     bst_allow_override b = None \<and> \<not> overrides (tr_evaluate r req cfg)"
  "bst_deny (consider_rule req cfg r b) = None \<longleftrightarrow>
     bst_deny b = None \<and> \<not> denies (tr_evaluate r req cfg)"
  "bst_allow (consider_rule req cfg r b) = None \<longleftrightarrow>
     bst_allow b = None \<and> \<not> allows (tr_evaluate r req cfg)"
  by (cases "tr_evaluate r req cfg"; simp add: consider_rule_def)+

lemma fold_consider_None:
  "bst_allow_override (fold (consider_rule req cfg) rs b) = None \<longleftrightarrow>
     bst_allow_override b = None \<and> \<not> list_ex (\<lambda>r. overrides (tr_evaluate r req cfg)) rs"
  "bst_deny (fold (consider_rule req cfg) rs b) = None \<longleftrightarrow>
     bst_deny b = None \<and> \<not> list_ex (\<lambda>r. denies (tr_evaluate r req cfg)) rs"
  "bst_allow (fold (consider_rule req cfg) rs b) = None \<longleftrightarrow>
     bst_allow b = None \<and> \<not> list_ex (\<lambda>r. allows (tr_evaluate r req cfg)) rs"
  by (induction rs arbitrary: b) (auto simp: consider_rule_None)

lemma best_None:
  fixes e req
  defines "best \<equiv> fold (consider_rule req (te_config e)) (te_rules e)
                    \<lparr>bst_allow_override = None, bst_deny = None, bst_allow = None\<rparr>"
  shows "bst_allow_override best = None \<longleftrightarrow> \<not> some_rule overrides e req"
    "bst_deny best = None \<longleftrightarrow> \<not> some_rule denies e req"
    "bst_allow best = None \<longleftrightarrow> \<not> some_rule allows e req"
  by (simp_all add: best_def fold_consider_None some_rule_def)

lemmas verdict_defs = verdict_is_allowed_def verdict_allowed_def verdict_denied_def

lemma check_iff:
  "engine_check e req \<longleftrightarrow>
     some_rule overrides e req \<or> (\<not> some_rule denies e req \<and> some_rule allows e req)"
  unfolding engine_check_def engine_evaluate_def Let_def
  using best_None [where e = e and req = req]
  by (auto simp: verdict_defs split: option.split)

lemma unmatched_request:
  assumes "\<not> some_rule overrides e req" "\<not> some_rule denies e req" "\<not> some_rule allows e req"
  shows "engine_evaluate e req = verdict_denied TenantMismatch None None"
  using assms unfolding best_None [symmetric] by (simp add: engine_evaluate_def)

text \<open>
  Precedence: a request is allowed exactly when some rule overrides, or no rule denies and
  some rule allows. In particular the outcome does not depend on the order of the rules.
\<close>

theorem isolation_precedence:
  "(engine_check e req \<longleftrightarrow>
      some_rule overrides e req \<or> (\<not> some_rule denies e req \<and> some_rule allows e req)) \<and>
   engine_check (with_rule e r) req = engine_check (with_rule_first e r) req"
  by (auto simp: check_iff some_rule_def with_rule_def with_rule_first_def)

subsection \<open>Rules that respect tenants\<close>

text \<open>
  The contract of a rule that keeps tenants apart: it lets a request through only for the
  caller's own tenant or for an administrator.
\<close>

definition own_tenant :: "tenant_isolation_request \<Rightarrow> bool" where
  "own_tenant req \<longleftrightarrow> tp_tenant_id (tq_principal req) = tt_tenant_id (tq_target req)"

locale isolating_rule =
  fixes rule :: tenant_isolation_rule
  assumes lets_through:
    "allows (tr_evaluate rule req cfg) \<or> overrides (tr_evaluate rule req cfg) \<Longrightarrow>
     own_tenant req \<or> is_admin (tq_principal req) cfg"
begin

lemma foreign_stays_out:
  "\<not> own_tenant req \<Longrightarrow> \<not> is_admin (tq_principal req) cfg \<Longrightarrow>
   tr_evaluate rule req cfg = Abstain \<or> denies (tr_evaluate rule req cfg)"
  using lets_through [of req cfg] by (cases "tr_evaluate rule req cfg") auto

end

interpretation same_tenant: isolating_rule same_tenant_rule
  by unfold_locales (auto simp: same_tenant_rule_def own_tenant_def split: if_splits)

interpretation dev_mode_bypass: isolating_rule dev_mode_admin_bypass_rule
  by unfold_locales (auto simp: dev_mode_admin_bypass_rule_def split: if_splits)

interpretation wildcard_grant: isolating_rule admin_wildcard_grant_rule
  by unfold_locales (auto simp: admin_wildcard_grant_rule_def split: if_splits)

interpretation explicit_grant: isolating_rule admin_explicit_grant_rule
  by unfold_locales (auto simp: admin_explicit_grant_rule_def split: if_splits)

lemma builtin_rules_isolate: "r \<in> set (te_rules (engine_builder cfg)) \<Longrightarrow> isolating_rule r"
  by (auto simp: engine_builder_def same_tenant.isolating_rule_axioms
      dev_mode_bypass.isolating_rule_axioms wildcard_grant.isolating_rule_axioms
      explicit_grant.isolating_rule_axioms)

lemma engine_isolates:
  assumes "\<And>r. r \<in> set (te_rules e) \<Longrightarrow> isolating_rule r" and "engine_check e req"
  shows "own_tenant req \<or> is_admin (tq_principal req) (te_config e)"
  using assms
  by (auto simp: check_iff some_rule_def list_ex_iff dest: isolating_rule.lets_through)

text \<open>The built-in rules followed by extension rules.\<close>

definition extended_engine ::
  "tenant_isolation_config \<Rightarrow> tenant_isolation_rule list \<Rightarrow> tenant_isolation_engine" where
  "extended_engine cfg rs = fold (\<lambda>r e. with_rule e r) rs (engine_builder cfg)"

lemma extended_rules:
  "te_rules (extended_engine cfg rs) = te_rules (engine_builder cfg) @ rs"
  "te_config (extended_engine cfg rs) = cfg"
proof -
  have "te_rules (fold (\<lambda>r e. with_rule e r) rs e) = te_rules e @ rs \<and>
        te_config (fold (\<lambda>r e. with_rule e r) rs e) = te_config e" for e
    by (induction rs arbitrary: e) (simp_all add: with_rule_def)
  then show "te_rules (extended_engine cfg rs) = te_rules (engine_builder cfg) @ rs"
    "te_config (extended_engine cfg rs) = cfg"
    by (simp_all add: extended_engine_def engine_builder_def)
qed

text \<open>
  (C23) Extension rules that respect tenants cannot open a hole: with any such rules added
  to the built-in ones, a request of a caller who is not an administrator is allowed only
  for the caller's own tenant, and a rule that denies a request wins over every grant
  except the development-mode bypass and overriding extension rules.
\<close>

theorem extensions_keep_isolation:
  assumes "list_all isolating_rule rs" and "engine_check (extended_engine cfg rs) req"
  shows "(own_tenant req \<or> is_admin (tq_principal req) cfg) \<and>
         (list_ex (\<lambda>r. denies (tr_evaluate r req cfg)) rs \<longrightarrow>
            (tc_dev_mode_admin_all_tenants cfg \<and> tc_dev_mode_bypass_overrides_denies cfg \<and>
             is_admin (tq_principal req) cfg) \<or>
            list_ex (\<lambda>r. overrides (tr_evaluate r req cfg)) rs)"
proof
  have "isolating_rule r" if "r \<in> set (te_rules (extended_engine cfg rs))" for r
    using that assms(1) builtin_rules_isolate by (auto simp: extended_rules list_all_iff)
  from engine_isolates [OF this assms(2)]
  show "own_tenant req \<or> is_admin (tq_principal req) cfg" by (simp add: extended_rules)
  show "list_ex (\<lambda>r. denies (tr_evaluate r req cfg)) rs \<longrightarrow>
      (tc_dev_mode_admin_all_tenants cfg \<and> tc_dev_mode_bypass_overrides_denies cfg \<and>
       is_admin (tq_principal req) cfg) \<or>
      list_ex (\<lambda>r. overrides (tr_evaluate r req cfg)) rs"
    using assms(2)
    by (auto simp: check_iff some_rule_def extended_rules engine_builder_def rule_defs
        split: if_splits)
qed

definition deny_all_rule :: tenant_isolation_rule where
  "deny_all_rule =
     \<lparr>tr_id = ''test.deny'', tr_evaluate = (\<lambda>req cfg. Deny (decision_new DeniedByRule))\<rparr>"

definition dev_admin_request :: tenant_isolation_request where
  "dev_admin_request = request_new (principal_new ''t1'' ''admin'' []) ''t2''"

definition dev_config :: tenant_isolation_config where
  "dev_config = tenant_config_default\<lparr>tc_dev_mode_admin_all_tenants := True\<rparr>"

theorem extensions_keep_isolation_witness:
  "engine_check (extended_engine dev_config [deny_all_rule]) dev_admin_request \<and>
   is_admin (tq_principal dev_admin_request) dev_config"
proof -
  have "isolating_rule deny_all_rule" by unfold_locales (simp add: deny_all_rule_def)
  moreover have "engine_check (extended_engine dev_config [deny_all_rule]) dev_admin_request"
    by (simp add: check_iff some_rule_def extended_rules engine_builder_def rule_defs
        dev_config_def tenant_config_default_def dev_admin_request_def request_new_def
        principal_new_def is_admin_def has_role_def)
  ultimately show ?thesis
    using extensions_keep_isolation [of "[deny_all_rule]" dev_config dev_admin_request]
    by (simp add: deny_all_rule_def own_tenant_def dev_admin_request_def request_new_def
        principal_new_def)
qed

text \<open>
  The default engine allows exactly the documented accesses: the caller's own tenant,
  and for an administrator every tenant in development mode, with the wildcard grant, or
  with an explicit grant for the tenant; every other request gets a violation that names
  both tenants and a tenant mismatch.
\<close>

theorem default_engine_decisions:
  "engine_validate (engine_new cfg) req =
     (let p = tq_principal req; t = tt_tenant_id (tq_target req) in
      if tp_tenant_id p = t \<or>
         (is_admin p cfg \<and>
           (tc_dev_mode_admin_all_tenants cfg \<or>
            (tc_allow_admin_wildcard cfg \<and> tc_admin_tenant_wildcard cfg \<in> set (tp_admin_tenants p)) \<or>
            (tc_allow_admin_tenant_grants cfg \<and> t \<in> set (tp_admin_tenants p))))
      then Ok ()
      else Err (violation_new (tp_tenant_id p) t (Some (tp_role p)) TenantMismatch None None))"
proof -
  let ?e = "engine_new cfg"
  note rules = some_rule_def engine_new_def engine_builder_def rule_defs list_ex_iff
  have deny: "\<not> some_rule denies ?e req" by (simp add: rules)
  have "engine_validate ?e req =
      (if engine_check ?e req then Ok ()
       else Err (violation_new (tp_tenant_id (tq_principal req)) (tt_tenant_id (tq_target req))
              (Some (tp_role (tq_principal req))) TenantMismatch None None))"
    using deny unmatched_request [of ?e req] check_iff [of ?e req]
    by (auto simp: engine_validate_def engine_check_def Let_def verdict_denied_def)
  moreover have "some_rule overrides ?e req \<or> some_rule allows ?e req \<longleftrightarrow>
      own_tenant req \<or>
      (is_admin (tq_principal req) cfg \<and>
        (tc_dev_mode_admin_all_tenants cfg \<or>
         (tc_allow_admin_wildcard cfg \<and>
          tc_admin_tenant_wildcard cfg \<in> set (tp_admin_tenants (tq_principal req))) \<or>
         (tc_allow_admin_tenant_grants cfg \<and>
          tt_tenant_id (tq_target req) \<in> set (tp_admin_tenants (tq_principal req)))))"
    by (auto simp: rules own_tenant_def)
  ultimately show ?thesis using deny by (simp add: check_iff own_tenant_def Let_def)
qed

text \<open>
  With the default configuration a caller that does not carry the role \<open>admin\<close> in
  the single role claim reaches no foreign tenant, whatever its role list and its grants.
\<close>

theorem default_config_isolates:
  assumes "tp_role (tq_principal req) \<noteq> ''admin''"
  shows "engine_check (engine_new tenant_config_default) req \<longleftrightarrow> own_tenant req"
  using assms
  by (auto simp: check_iff some_rule_def engine_new_def engine_builder_def rule_defs
      tenant_config_default_def is_admin_def has_role_def own_tenant_def)

theorem default_config_isolates_witness:
  "\<not> engine_check (engine_new tenant_config_default)
     (request_new (principal_new ''t1'' ''operator'' [''*'', ''t2'']) ''t2'')"
  using default_config_isolates
    [of "request_new (principal_new ''t1'' ''operator'' [''*'', ''t2'']) ''t2''"]
  by (simp add: request_new_def principal_new_def own_tenant_def)

end
