(* ===== verification/Floats.thy ===== *)
theory Floats
  imports AosPrelude Complex_Main
begin

text \<open>
  Floating-point values in two forms. Where the sources only compare them with literals, a
  finite \<open>f32\<close> is its exact rational value. Where they compute, sort or hash them, a value is its
  bit pattern: comparisons, \<open>is_finite\<close> and \<open>total_cmp\<close> are defined on the pattern, and the
  rounding operations are the fields of a record that the definitions take as an argument,
  in the order in which the source applies them, so what is proved holds for every rounding.
\<close>

section \<open>Comparison with literals\<close>

datatype f32 = F32_NaN | F32_NegInf | F32_Fin rat | F32_PosInf

fun f32_gt :: "f32 \<Rightarrow> f32 \<Rightarrow> bool" where
  "f32_gt F32_NaN _ = False"
| "f32_gt _ F32_NaN = False"
| "f32_gt (F32_Fin x) (F32_Fin y) = (y < x)"
| "f32_gt F32_PosInf y = (y \<noteq> F32_PosInf)"
| "f32_gt _ F32_PosInf = False"
| "f32_gt F32_NegInf _ = False"
| "f32_gt (F32_Fin _) F32_NegInf = True"

text \<open>The literals of the sources, rounded to 24 significant bits.\<close>

definition f32_0 :: f32 where "f32_0 = F32_Fin 0"
definition f32_0_1 :: f32 where "f32_0_1 = F32_Fin (13421773 / 134217728)"
definition f32_0_3 :: f32 where "f32_0_3 = F32_Fin (10066330 / 33554432)"
definition f32_0_5 :: f32 where "f32_0_5 = F32_Fin (1 / 2)"
definition f32_0_7 :: f32 where "f32_0_7 = F32_Fin (11744051 / 16777216)"
definition f32_0_8 :: f32 where "f32_0_8 = F32_Fin (13421773 / 16777216)"
definition f32_0_9 :: f32 where "f32_0_9 = F32_Fin (15099494 / 16777216)"
definition f32_1 :: f32 where "f32_1 = F32_Fin 1"
definition f32_1_2 :: f32 where "f32_1_2 = F32_Fin (10066330 / 8388608)"

lemmas f32_literals = f32_0_def f32_0_1_def f32_0_3_def f32_0_5_def f32_0_7_def f32_0_8_def
  f32_0_9_def f32_1_def f32_1_2_def

lemma f32_gt_trans: "f32_gt q p \<Longrightarrow> f32_gt p t \<Longrightarrow> f32_gt q t"
  by (cases q; cases p; cases t) auto

section \<open>Bit patterns\<close>

type_synonym f32b = "32 word"
type_synonym f64b = "64 word"
type_synonym i16 = "16 word"

definition f32_mag :: "f32b \<Rightarrow> int" where
  "f32_mag w = uint (take_bit 31 w)"

definition f32_is_nan :: "f32b \<Rightarrow> bool" where
  "f32_is_nan w \<longleftrightarrow> f32_mag w > 0x7F800000"

definition f32_is_finite :: "f32b \<Rightarrow> bool" where
  "f32_is_finite w \<longleftrightarrow> f32_mag w < 0x7F800000"

text \<open>The order of the IEEE comparisons (both zeros are 0) and the order of \<open>f32::total_cmp\<close>.\<close>

definition f32_key :: "f32b \<Rightarrow> int" where
  "f32_key w = (if bit w 31 then - f32_mag w else f32_mag w)"

definition f32_total_key :: "f32b \<Rightarrow> int" where
  "f32_total_key w = (if bit w 31 then - 1 - f32_mag w else f32_mag w)"

definition f32_lt :: "f32b \<Rightarrow> f32b \<Rightarrow> bool" where
  "f32_lt a b \<longleftrightarrow> \<not> f32_is_nan a \<and> \<not> f32_is_nan b \<and> f32_key a < f32_key b"

definition f32_le :: "f32b \<Rightarrow> f32b \<Rightarrow> bool" where
  "f32_le a b \<longleftrightarrow> \<not> f32_is_nan a \<and> \<not> f32_is_nan b \<and> f32_key a \<le> f32_key b"

definition f32_eq :: "f32b \<Rightarrow> f32b \<Rightarrow> bool" where
  "f32_eq a b \<longleftrightarrow> \<not> f32_is_nan a \<and> \<not> f32_is_nan b \<and> f32_key a = f32_key b"

definition f32_negate :: "f32b \<Rightarrow> f32b" where
  "f32_negate w = flip_bit 31 w"

text \<open>\<open>f32::clamp\<close>: a NaN is returned as it is.\<close>

definition f32_clamp :: "f32b \<Rightarrow> f32b \<Rightarrow> f32b \<Rightarrow> f32b" where
  "f32_clamp lo hi w = (if f32_lt w lo then lo else if f32_lt hi w then hi else w)"

definition f64_mag :: "f64b \<Rightarrow> int" where
  "f64_mag w = uint (take_bit 63 w)"

text \<open>\<open>x > 0.0\<close> and \<open>x == 0.0\<close>.\<close>

definition f64_pos :: "f64b \<Rightarrow> bool" where
  "f64_pos w \<longleftrightarrow> \<not> bit w 63 \<and> 0 < f64_mag w \<and> f64_mag w \<le> 0x7FF0000000000000"

definition f64_is_zero :: "f64b \<Rightarrow> bool" where
  "f64_is_zero w \<longleftrightarrow> f64_mag w = 0"

definition f64_neg_inf :: f64b where
  "f64_neg_inf = 0xFFF0000000000000"

text \<open>The literals and constants of the router, as the compiler rounds them.\<close>

abbreviation lit_0 :: f32b where "lit_0 \<equiv> 0"
definition lit_0_02 :: f32b where "lit_0_02 = 0x3CA3D70A"
definition lit_0_06 :: f32b where "lit_0_06 = 0x3D75C28F"
definition lit_0_1 :: f32b where "lit_0_1 = 0x3DCCCCCD"
definition lit_0_12 :: f32b where "lit_0_12 = 0x3DF5C28F"
definition lit_0_2 :: f32b where "lit_0_2 = 0x3E4CCCCD"
definition lit_0_3 :: f32b where "lit_0_3 = 0x3E99999A"
definition lit_0_8 :: f32b where "lit_0_8 = 0x3F4CCCCD"
definition lit_1 :: f32b where "lit_1 = 0x3F800000"
definition lit_1_5 :: f32b where "lit_1_5 = 0x3FC00000"
definition lit_2 :: f32b where "lit_2 = 0x40000000"
definition lit_10000 :: f32b where "lit_10000 = 0x461C4000"
definition lit_32767 :: f32b where "lit_32767 = 0x46FFFE00"
definition lit_minus_1e9 :: f32b where "lit_minus_1e9 = 0xCE6E6B28"

text \<open>
  The rounding operations: arithmetic, conversions, \<open>round\<close>, \<open>log2\<close>, \<open>exp\<close>, \<open>max\<close> (whose result
  on two zeros is not fixed), the start value of \<open>sum\<close>, and \<open>as i32\<close>.
\<close>

record float_ops =
  fo_add32 :: "f32b \<Rightarrow> f32b \<Rightarrow> f32b"
  fo_sub32 :: "f32b \<Rightarrow> f32b \<Rightarrow> f32b"
  fo_mul32 :: "f32b \<Rightarrow> f32b \<Rightarrow> f32b"
  fo_div32 :: "f32b \<Rightarrow> f32b \<Rightarrow> f32b"
  fo_max32 :: "f32b \<Rightarrow> f32b \<Rightarrow> f32b"
  fo_round32 :: "f32b \<Rightarrow> f32b"
  fo_log2 :: "f32b \<Rightarrow> f32b"
  fo_sum_start :: f32b
  fo_of_usize32 :: "nat \<Rightarrow> f32b"
  fo_of_i16_32 :: "i16 \<Rightarrow> f32b"
  fo_to_i32 :: "f32b \<Rightarrow> int"
  fo_of_f32 :: "f32b \<Rightarrow> f64b"
  fo_to_f32 :: "f64b \<Rightarrow> f32b"
  fo_of_i16 :: "i16 \<Rightarrow> f64b"
  fo_add64 :: "f64b \<Rightarrow> f64b \<Rightarrow> f64b"
  fo_sub64 :: "f64b \<Rightarrow> f64b \<Rightarrow> f64b"
  fo_div64 :: "f64b \<Rightarrow> f64b \<Rightarrow> f64b"
  fo_max64 :: "f64b \<Rightarrow> f64b \<Rightarrow> f64b"
  fo_exp64 :: "f64b \<Rightarrow> f64b"

definition sum32 :: "float_ops \<Rightarrow> f32b list \<Rightarrow> f32b" where
  "sum32 fo xs = foldl (fo_add32 fo) (fo_sum_start fo) xs"

text \<open>Kahan summation: the sum and the compensation, one value after the other.\<close>

definition kahan_step :: "float_ops \<Rightarrow> f64b \<times> f64b \<Rightarrow> f64b \<Rightarrow> f64b \<times> f64b" where
  "kahan_step fo st g =
     (let (acc, c) = st;
          y = fo_sub64 fo g c;
          t = fo_add64 fo acc y in
      (t, fo_sub64 fo (fo_sub64 fo t acc) y))"

definition kahan_sum :: "float_ops \<Rightarrow> f64b list \<Rightarrow> f64b" where
  "kahan_sum fo gs = fst (foldl (kahan_step fo) (0, 0) gs)"

lemma f32_total_key_inject: "f32_total_key a = f32_total_key b \<longleftrightarrow> a = b"
proof
  assume eq: "f32_total_key a = f32_total_key b"
  have nn: "0 \<le> f32_mag w" for w by (simp add: f32_mag_def)
  from eq nn [of a] nn [of b] have s: "bit a 31 = bit b 31" and "f32_mag a = f32_mag b"
    by (auto simp: f32_total_key_def split: if_splits)
  then have t: "take_bit 31 a = take_bit 31 b"
    unfolding f32_mag_def by (metis word_uint_eq_iff)
  show "a = b"
  proof (rule bit_word_eqI)
    fix n assume "n < LENGTH(32)"
    then have "n < 31 \<or> n = 31" by auto
    moreover have "bit (take_bit 31 a) n = bit (take_bit 31 b) n" by (simp only: t)
    ultimately show "bit a n = bit b n" using s by (auto simp: bit_take_bit_iff)
  qed
qed simp

end
