(* ===== verification/AdapterHeat.thy ===== *)
theory AdapterHeat
  imports Floats
begin

text \<open>
  Adapter temperatures and category policies of
  \<open>crates/adapteros-lora-lifecycle/src/state.rs\<close> and \<open>category_policies.rs\<close>: the heat state
  with its promotion, demotion and eviction rules, the adapter record and its operations,
  and the policy manager. A system time is a
  number of nanoseconds and its reading an argument; the elapsed time since a later moment
  is zero, as the fallback in the source has it.
\<close>

section \<open>States\<close>

datatype acquisition_state =
  AQ_NotCached | AQ_Queued | AQ_Downloading u8 | AQ_Verifying | AQ_Available | AQ_Failed

definition acq_is_available :: "acquisition_state \<Rightarrow> bool" where
  "acq_is_available s \<longleftrightarrow> s = AQ_Available"

fun acq_progress_pct :: "acquisition_state \<Rightarrow> u8 option" where
  "acq_progress_pct (AQ_Downloading p) = Some p"
| "acq_progress_pct _ = None"

datatype eviction_priority = EP_Never | EP_Low | EP_Normal | EP_High | EP_Critical

fun numeric_value :: "eviction_priority \<Rightarrow> u8" where
  "numeric_value EP_Never = 0"
| "numeric_value EP_Low = 1"
| "numeric_value EP_Normal = 2"
| "numeric_value EP_High = 3"
| "numeric_value EP_Critical = 4"

datatype heat_state = HS_Unloaded | HS_Cold | HS_Warm | HS_Hot | HS_Resident

datatype allocation_tier = AT_Extra | AT_Critical

fun allocation_tier_of :: "heat_state \<Rightarrow> allocation_tier" where
  "allocation_tier_of HS_Unloaded = AT_Extra"
| "allocation_tier_of HS_Cold = AT_Extra"
| "allocation_tier_of HS_Warm = AT_Extra"
| "allocation_tier_of HS_Hot = AT_Critical"
| "allocation_tier_of HS_Resident = AT_Critical"

fun heat_promote :: "heat_state \<Rightarrow> heat_state option" where
  "heat_promote HS_Unloaded = Some HS_Cold"
| "heat_promote HS_Cold = Some HS_Warm"
| "heat_promote HS_Warm = Some HS_Hot"
| "heat_promote HS_Hot = Some HS_Resident"
| "heat_promote HS_Resident = None"

fun heat_demote :: "heat_state \<Rightarrow> heat_state option" where
  "heat_demote HS_Unloaded = None"
| "heat_demote HS_Cold = Some HS_Unloaded"
| "heat_demote HS_Warm = Some HS_Cold"
| "heat_demote HS_Hot = Some HS_Warm"
| "heat_demote HS_Resident = Some HS_Hot"

definition ok_or :: "'a option \<Rightarrow> 'e \<Rightarrow> ('e, 'a) result" where
  "ok_or x e = (case x of Some v \<Rightarrow> Ok v | None \<Rightarrow> Err e)"

definition heat_cas_promote :: "heat_state \<Rightarrow> heat_state \<Rightarrow> (heat_state, heat_state) result" where
  "heat_cas_promote s expected = (if s \<noteq> expected then Err s else ok_or (heat_promote s) s)"

definition heat_cas_demote :: "heat_state \<Rightarrow> heat_state \<Rightarrow> (heat_state, heat_state) result" where
  "heat_cas_demote s expected = (if s \<noteq> expected then Err s else ok_or (heat_demote s) s)"

definition heat_is_loaded :: "heat_state \<Rightarrow> bool" where
  "heat_is_loaded s \<longleftrightarrow> s \<noteq> HS_Unloaded"

definition heat_is_available :: "heat_state \<Rightarrow> bool" where
  "heat_is_available s \<longleftrightarrow> s \<in> {HS_Warm, HS_Hot, HS_Resident}"

definition heat_is_pinned :: "heat_state \<Rightarrow> bool" where
  "heat_is_pinned s \<longleftrightarrow> s = HS_Resident"

fun priority_boost :: "heat_state \<Rightarrow> f32" where
  "priority_boost HS_Unloaded = f32_0"
| "priority_boost HS_Cold = f32_0"
| "priority_boost HS_Warm = f32_0_1"
| "priority_boost HS_Hot = f32_0_3"
| "priority_boost HS_Resident = f32_0_5"

text \<open>The matches on a state and a category, in the order of their arms.\<close>

definition can_promote :: "heat_state \<Rightarrow> string \<Rightarrow> bool" where
  "can_promote s category =
     (if s = HS_Cold \<and> category = ''code'' then True
      else if s = HS_Warm \<and> category = ''code'' then True
      else if s = HS_Cold \<and> category = ''framework'' then False
      else if s = HS_Warm \<and> category = ''framework'' then True
      else if s = HS_Cold \<and> category = ''codebase'' then False
      else if s = HS_Warm \<and> category = ''codebase'' then True
      else if category = ''ephemeral'' then False
      else True)"

definition hours_ns :: "nat \<Rightarrow> nat" where
  "hours_ns h = h * 3600 * 1000000000"

definition should_demote :: "heat_state \<Rightarrow> string \<Rightarrow> nat \<Rightarrow> bool" where
  "should_demote s category last_used =
     (if s = HS_Hot \<and> category = ''code'' then last_used > hours_ns 24
      else if s = HS_Hot \<and> category = ''framework'' then last_used > hours_ns 12
      else if s = HS_Warm \<and> category = ''framework'' then last_used > hours_ns 6
      else if s = HS_Hot \<and> category = ''codebase'' then last_used > hours_ns 4
      else if s = HS_Warm \<and> category = ''codebase'' then last_used > hours_ns 2
      else if category = ''ephemeral'' then True
      else False)"

definition heat_eviction_priority :: "heat_state \<Rightarrow> string \<Rightarrow> eviction_priority" where
  "heat_eviction_priority s category =
     (if s = HS_Resident then EP_Never
      else if category = ''ephemeral'' then EP_Critical
      else if s = HS_Cold \<and> category = ''codebase'' then EP_High
      else if s = HS_Warm \<and> category = ''codebase'' then EP_High
      else if s = HS_Cold \<and> category = ''framework'' then EP_Normal
      else if s = HS_Warm \<and> category = ''framework'' then EP_Normal
      else if s = HS_Cold \<and> category = ''code'' then EP_Low
      else if s = HS_Warm \<and> category = ''code'' then EP_Low
      else EP_Normal)"

fun heat_display :: "heat_state \<Rightarrow> string" where
  "heat_display HS_Unloaded = ''unloaded''"
| "heat_display HS_Cold = ''cold''"
| "heat_display HS_Warm = ''warm''"
| "heat_display HS_Hot = ''hot''"
| "heat_display HS_Resident = ''resident''"

definition heat_from_str :: "string \<Rightarrow> (string, heat_state) result" where
  "heat_from_str s =
     (let l = to_lowercase s in
      if l = ''unloaded'' then Ok HS_Unloaded
      else if l = ''cold'' then Ok HS_Cold
      else if l = ''warm'' then Ok HS_Warm
      else if l = ''hot'' then Ok HS_Hot
      else if l = ''resident'' then Ok HS_Resident
      else Err (''Invalid adapter state: '' @ quoted s @
                ''. Valid states: unloaded, cold, warm, hot, resident''))"

section \<open>Adapter records\<close>

record adapter_heat_record =
  ah_adapter_id :: string
  ah_adapter_idx :: "16 word"
  ah_state :: heat_state
  ah_pinned :: bool
  ah_memory_bytes :: u64
  ah_category :: string
  ah_scope :: string
  ah_last_activated :: "nat option"
  ah_activation_count :: u64
  ah_parent_adapter_id :: "string option"
  ah_is_safety_adapter :: bool
  ah_domains :: "string list"
  ah_acquisition_state :: acquisition_state
  ah_download_progress_pct :: "u8 option"
  ah_local_path :: "string option"
  ah_repo_id :: "string option"

definition heat_record_new_with_metadata ::
  "string \<Rightarrow> 16 word \<Rightarrow> string \<Rightarrow> string \<Rightarrow> string option \<Rightarrow> bool \<Rightarrow> string list \<Rightarrow>
   adapter_heat_record" where
  "heat_record_new_with_metadata aid idx category scope parent safety domains =
     \<lparr>ah_adapter_id = aid, ah_adapter_idx = idx, ah_state = HS_Unloaded, ah_pinned = False,
      ah_memory_bytes = 0, ah_category = category, ah_scope = scope,
      ah_last_activated = None, ah_activation_count = 0, ah_parent_adapter_id = parent,
      ah_is_safety_adapter = safety, ah_domains = domains,
      ah_acquisition_state = AQ_NotCached, ah_download_progress_pct = None,
      ah_local_path = None, ah_repo_id = None\<rparr>"

definition heat_record_new_with_category ::
  "string \<Rightarrow> 16 word \<Rightarrow> string \<Rightarrow> string \<Rightarrow> adapter_heat_record" where
  "heat_record_new_with_category aid idx category scope =
     heat_record_new_with_metadata aid idx category scope None False []"

definition heat_record_new :: "string \<Rightarrow> 16 word \<Rightarrow> adapter_heat_record" where
  "heat_record_new aid idx = heat_record_new_with_category aid idx ''code'' ''global''"

definition record_promote :: "adapter_heat_record \<Rightarrow> bool \<times> adapter_heat_record" where
  "record_promote r =
     (if can_promote (ah_state r) (ah_category r) then
        (case heat_promote (ah_state r) of
           Some new_state \<Rightarrow> (True, r\<lparr>ah_state := new_state\<rparr>)
         | None \<Rightarrow> (False, r))
      else (False, r))"

definition record_cas_promote ::
  "heat_state \<Rightarrow> adapter_heat_record \<Rightarrow> (heat_state, bool) result \<times> adapter_heat_record" where
  "record_cas_promote expected r =
     (if ah_state r \<noteq> expected then (Err (ah_state r), r)
      else if can_promote (ah_state r) (ah_category r) then
        (case heat_promote (ah_state r) of
           Some new_state \<Rightarrow> (Ok True, r\<lparr>ah_state := new_state\<rparr>)
         | None \<Rightarrow> (Ok False, r))
      else (Ok False, r))"

text \<open>The early return of both demotions for an adapter that was used too recently.\<close>

definition kept_by_activity :: "nat \<Rightarrow> adapter_heat_record \<Rightarrow> bool" where
  "kept_by_activity now r =
     (case ah_last_activated r of
        Some last_activated \<Rightarrow>
          \<not> should_demote (ah_state r) (ah_category r) (now - last_activated)
      | None \<Rightarrow> False)"

definition record_demote :: "nat \<Rightarrow> adapter_heat_record \<Rightarrow> bool \<times> adapter_heat_record" where
  "record_demote now r =
     (if ah_pinned r then (False, r)
      else if kept_by_activity now r then (False, r)
      else
        (case heat_demote (ah_state r) of
           Some new_state \<Rightarrow> (True, r\<lparr>ah_state := new_state\<rparr>)
         | None \<Rightarrow> (False, r)))"

definition record_cas_demote ::
  "nat \<Rightarrow> heat_state \<Rightarrow> adapter_heat_record \<Rightarrow>
   (heat_state, bool) result \<times> adapter_heat_record" where
  "record_cas_demote now expected r =
     (if ah_state r \<noteq> expected then (Err (ah_state r), r)
      else if ah_pinned r then (Ok False, r)
      else if kept_by_activity now r then (Ok False, r)
      else
        (case heat_demote (ah_state r) of
           Some new_state \<Rightarrow> (Ok True, r\<lparr>ah_state := new_state\<rparr>)
         | None \<Rightarrow> (Ok False, r)))"

definition record_pin :: "adapter_heat_record \<Rightarrow> adapter_heat_record" where
  "record_pin r = r\<lparr>ah_pinned := True, ah_state := HS_Resident\<rparr>"

definition record_unpin :: "adapter_heat_record \<Rightarrow> adapter_heat_record" where
  "record_unpin r = r\<lparr>ah_pinned := False\<rparr>"

definition record_activation :: "nat \<Rightarrow> adapter_heat_record \<Rightarrow> adapter_heat_record" where
  "record_activation now r =
     r\<lparr>ah_last_activated := Some now, ah_activation_count := ah_activation_count r + 1\<rparr>"

definition record_eviction_priority :: "adapter_heat_record \<Rightarrow> eviction_priority" where
  "record_eviction_priority r = heat_eviction_priority (ah_state r) (ah_category r)"

fun evict_above :: "eviction_priority \<Rightarrow> f32 \<Rightarrow> bool" where
  "evict_above EP_Never _ = False"
| "evict_above EP_Low p = f32_gt p f32_0_9"
| "evict_above EP_Normal p = f32_gt p f32_0_8"
| "evict_above EP_High p = f32_gt p f32_0_7"
| "evict_above EP_Critical p = f32_gt p f32_0_5"

definition record_should_evict :: "adapter_heat_record \<Rightarrow> f32 \<Rightarrow> bool" where
  "record_should_evict r memory_pressure =
     (if ah_pinned r then False
      else evict_above (record_eviction_priority r) memory_pressure)"

section \<open>Category policies\<close>

record category_policy =
  cp_promotion_threshold :: nat
  cp_demotion_threshold :: nat
  cp_memory_limit :: u64
  cp_eviction_priority :: eviction_priority
  cp_auto_promote :: bool
  cp_auto_demote :: bool
  cp_max_in_memory :: "u64 option"
  cp_routing_priority :: f32

definition secs_ns :: "nat \<Rightarrow> nat" where
  "secs_ns s = s * 1000000000"

definition policy_default :: category_policy where
  "policy_default =
     \<lparr>cp_promotion_threshold = secs_ns 3600, cp_demotion_threshold = secs_ns 21600,
      cp_memory_limit = 100 * 1024 * 1024, cp_eviction_priority = EP_Normal,
      cp_auto_promote = True, cp_auto_demote = True, cp_max_in_memory = None,
      cp_routing_priority = f32_1\<rparr>"

type_synonym category_policy_manager = "string \<rightharpoonup> category_policy"

definition policy_manager_new :: category_policy_manager where
  "policy_manager_new =
     [''code'' \<mapsto> \<lparr>cp_promotion_threshold = secs_ns 1800, cp_demotion_threshold = secs_ns 86400,
        cp_memory_limit = 200 * 1024 * 1024, cp_eviction_priority = EP_Low,
        cp_auto_promote = True, cp_auto_demote = False, cp_max_in_memory = Some 10,
        cp_routing_priority = f32_1_2\<rparr>,
      ''framework'' \<mapsto> \<lparr>cp_promotion_threshold = secs_ns 3600,
        cp_demotion_threshold = secs_ns 43200,
        cp_memory_limit = 150 * 1024 * 1024, cp_eviction_priority = EP_Normal,
        cp_auto_promote = True, cp_auto_demote = True, cp_max_in_memory = Some 8,
        cp_routing_priority = f32_1\<rparr>,
      ''codebase'' \<mapsto> \<lparr>cp_promotion_threshold = secs_ns 7200,
        cp_demotion_threshold = secs_ns 14400,
        cp_memory_limit = 300 * 1024 * 1024, cp_eviction_priority = EP_High,
        cp_auto_promote = False, cp_auto_demote = True, cp_max_in_memory = Some 5,
        cp_routing_priority = f32_0_8\<rparr>,
      ''ephemeral'' \<mapsto> \<lparr>cp_promotion_threshold = secs_ns 0, cp_demotion_threshold = secs_ns 0,
        cp_memory_limit = 50 * 1024 * 1024, cp_eviction_priority = EP_Critical,
        cp_auto_promote = False, cp_auto_demote = True, cp_max_in_memory = Some 20,
        cp_routing_priority = f32_0_5\<rparr>]"

definition get_policy :: "category_policy_manager \<Rightarrow> string \<Rightarrow> category_policy" where
  "get_policy pm category = (case pm category of Some p \<Rightarrow> p | None \<Rightarrow> policy_default)"

definition update_policy ::
  "category_policy_manager \<Rightarrow> string \<Rightarrow> category_policy \<Rightarrow> category_policy_manager" where
  "update_policy pm category policy = pm(category \<mapsto> policy)"

definition policy_should_promote :: "category_policy_manager \<Rightarrow> string \<Rightarrow> nat \<Rightarrow> bool" where
  "policy_should_promote pm category time_since_creation =
     (let policy = get_policy pm category in
      cp_auto_promote policy \<and> time_since_creation \<ge> cp_promotion_threshold policy)"

definition policy_should_demote :: "category_policy_manager \<Rightarrow> string \<Rightarrow> nat \<Rightarrow> bool" where
  "policy_should_demote pm category time_since_last_use =
     (let policy = get_policy pm category in
      cp_auto_demote policy \<and> time_since_last_use \<ge> cp_demotion_threshold policy)"

definition policy_should_evict :: "category_policy_manager \<Rightarrow> string \<Rightarrow> f32 \<Rightarrow> bool" where
  "policy_should_evict pm category memory_pressure =
     (case cp_eviction_priority (get_policy pm category) of
        EP_Never \<Rightarrow> False
      | EP_Low \<Rightarrow> f32_gt memory_pressure f32_0_9
      | EP_Normal \<Rightarrow> f32_gt memory_pressure f32_0_8
      | EP_High \<Rightarrow> f32_gt memory_pressure f32_0_7
      | EP_Critical \<Rightarrow> f32_gt memory_pressure f32_0_5)"

section \<open>Correctness\<close>

interpretation heat_codec: str_codec heat_display heat_from_str
proof
  fix s :: string and x :: heat_state
  show "heat_from_str (heat_display x) = Ok x"
    by (cases x) (simp_all add: heat_from_str_def to_lowercase_def lower_char_def)
  show "(heat_from_str (to_lowercase s) = Ok x) = (heat_from_str s = Ok x)"
    by (simp add: heat_from_str_def Let_def)
qed

subsection \<open>Operations on a record\<close>

text \<open>
  The operations that change a record, at any time and with any expectation: those that
  usage and the lifecycle manager trigger, and pinning.
\<close>

inductive usage_step :: "adapter_heat_record \<Rightarrow> adapter_heat_record \<Rightarrow> bool" where
  us_promote: "usage_step r (snd (record_promote r))"
| us_cas_promote: "usage_step r (snd (record_cas_promote expected r))"
| us_demote: "usage_step r (snd (record_demote now r))"
| us_cas_demote: "usage_step r (snd (record_cas_demote now expected r))"
| us_activation: "usage_step r (record_activation now r)"

inductive heat_step :: "adapter_heat_record \<Rightarrow> adapter_heat_record \<Rightarrow> bool" where
  hs_use: "usage_step r r' \<Longrightarrow> heat_step r r'"
| hs_pin: "heat_step r (record_pin r)"

lemmas record_ops = record_promote_def record_cas_promote_def record_demote_def
  record_cas_demote_def record_activation_def record_pin_def record_unpin_def

lemma heat_step_pinned:
  "heat_step r r' \<Longrightarrow> ah_pinned r \<and> ah_state r = HS_Resident \<Longrightarrow>
   ah_pinned r' \<and> ah_state r' = HS_Resident"
  by (auto simp: record_ops elim!: heat_step.cases usage_step.cases)

lemma heat_steps_pinned:
  "heat_step\<^sup>*\<^sup>* r r' \<Longrightarrow> ah_pinned r \<and> ah_state r = HS_Resident \<Longrightarrow>
   ah_pinned r' \<and> ah_state r' = HS_Resident"
  by (induction rule: rtranclp_induct) (auto dest: heat_step_pinned)

text \<open>
  A pinned adapter stays: after pinning, whatever promotions, demotions, guarded
  changes and activations follow, it is still pinned and resident, it stays available for
  routing, and it is not evicted under any memory pressure.
\<close>

theorem pinned_adapter_stays:
  assumes "heat_step\<^sup>*\<^sup>* (record_pin r) r'"
  shows "ah_pinned r' \<and> ah_state r' = HS_Resident \<and> heat_is_available (ah_state r') \<and>
         \<not> record_should_evict r' pressure"
  using heat_steps_pinned [OF assms]
  by (simp add: record_pin_def heat_is_available_def record_should_evict_def)

theorem pinned_adapter_stays_witness:
  "ah_state (snd (record_demote 9 (record_activation 5 (record_pin (heat_record_new ''a'' 1)))))
     = HS_Resident"
proof -
  let ?r = "record_pin (heat_record_new ''a'' 1)"
  have "heat_step\<^sup>*\<^sup>* ?r (record_activation 5 ?r)"
    by (rule r_into_rtranclp) (intro hs_use us_activation)
  also have "heat_step\<^sup>*\<^sup>* (record_activation 5 ?r) (snd (record_demote 9 (record_activation 5 ?r)))"
    by (rule r_into_rtranclp) (intro hs_use us_demote)
  finally show ?thesis using pinned_adapter_stays by blast
qed

text \<open>
  The guarded operations are atomic checks: with a stale expectation nothing changes
  and the current state is returned; with the right one they behave like the plain
  operations; and of two guarded operations with the same expectation at most one succeeds.
\<close>

theorem cas_guards_state:
  "(ah_state r \<noteq> expected \<longrightarrow>
      record_cas_promote expected r = (Err (ah_state r), r) \<and>
      record_cas_demote now expected r = (Err (ah_state r), r)) \<and>
   record_cas_promote (ah_state r) r = (Ok (fst (record_promote r)), snd (record_promote r)) \<and>
   record_cas_demote now (ah_state r) r =
     (Ok (fst (record_demote now r)), snd (record_demote now r)) \<and>
   (fst (record_cas_promote expected r) = Ok True \<longrightarrow>
      fst (record_cas_promote expected (snd (record_cas_promote expected r))) \<noteq> Ok True \<and>
      fst (record_cas_demote now expected (snd (record_cas_promote expected r))) \<noteq> Ok True)"
proof -
  have "heat_promote s = Some t \<Longrightarrow> t \<noteq> s" for s t by (cases s) auto
  then show ?thesis
    by (auto simp: record_ops split: option.splits if_splits)
qed

theorem cas_guards_state_witness:
  "record_cas_promote HS_Warm (heat_record_new ''a'' 1) =
     (Err HS_Unloaded, heat_record_new ''a'' 1)"
  using cas_guards_state [of "heat_record_new ''a'' 1" HS_Warm 0]
  by (simp add: heat_record_new_def heat_record_new_with_category_def
      heat_record_new_with_metadata_def)

lemma heat_step_resident:
  "heat_step r r' \<Longrightarrow> ah_category r \<noteq> ''ephemeral'' \<Longrightarrow>
   ah_state r = HS_Resident \<and> ah_last_activated r \<noteq> None \<Longrightarrow>
   ah_category r' = ah_category r \<and> ah_state r' = HS_Resident \<and> ah_last_activated r' \<noteq> None"
  by (auto simp: record_ops kept_by_activity_def should_demote_def
      elim!: heat_step.cases usage_step.cases)

text \<open>
  Unpinning does not make room: an adapter of a category other than ephemeral that has
  been activated once and reached the resident state stays resident for ever, pinned or
  not, since no demotion rule covers that state, and it is never evicted.
\<close>

theorem resident_adapter_stuck:
  assumes "heat_step\<^sup>*\<^sup>* (record_unpin r) r'"
    and "ah_state r = HS_Resident" and "ah_last_activated r \<noteq> None"
    and "ah_category r \<noteq> ''ephemeral''"
  shows "ah_state r' = HS_Resident \<and> \<not> record_should_evict r' pressure"
proof -
  have "ah_category r' = ah_category r \<and> ah_state r' = HS_Resident \<and> ah_last_activated r' \<noteq> None"
    using assms
    by (induction rule: rtranclp_induct)
      (auto simp: record_unpin_def dest: heat_step_resident)
  then show ?thesis
    by (simp add: record_should_evict_def record_eviction_priority_def heat_eviction_priority_def)
qed

definition hot_code_adapter :: adapter_heat_record where
  "hot_code_adapter = (heat_record_new ''a'' 1)\<lparr>ah_state := HS_Hot, ah_last_activated := Some 5\<rparr>"

theorem resident_adapter_stuck_witness:
  "ah_state (snd (record_demote 1000000000000000000
     (record_unpin (record_pin hot_code_adapter)))) = HS_Resident"
proof -
  have "ah_last_activated (record_pin hot_code_adapter) \<noteq> None"
    and "ah_category (record_pin hot_code_adapter) \<noteq> ''ephemeral''"
    and "ah_state (record_pin hot_code_adapter) = HS_Resident"
    by (simp_all add: record_pin_def hot_code_adapter_def heat_record_new_def
        heat_record_new_with_category_def heat_record_new_with_metadata_def)
  moreover have "heat_step\<^sup>*\<^sup>* (record_unpin (record_pin hot_code_adapter))
      (snd (record_demote 1000000000000000000 (record_unpin (record_pin hot_code_adapter))))"
    by (rule r_into_rtranclp) (intro hs_use us_demote)
  ultimately show ?thesis using resident_adapter_stuck by blast
qed

subsection \<open>Eviction\<close>

lemma evict_above_mono: "evict_above e p \<Longrightarrow> f32_gt q p \<Longrightarrow> evict_above e q"
  by (cases e) (auto intro: f32_gt_trans)

lemma thresholds_ordered:
  "f32_gt p f32_0_9 \<Longrightarrow> f32_gt p f32_0_8" "f32_gt p f32_0_8 \<Longrightarrow> f32_gt p f32_0_7"
  "f32_gt p f32_0_7 \<Longrightarrow> f32_gt p f32_0_5"
  by (cases p; simp add: f32_literals)+

lemma evict_above_priority:
  "evict_above d p \<Longrightarrow> numeric_value d \<le> numeric_value e \<Longrightarrow> evict_above e p"
  by (cases d; cases e) (auto simp: word_le_nat_alt dest: thresholds_ordered)

text \<open>
  Eviction under memory pressure is monotone: what is evicted at some pressure is
  evicted at every higher one, and of two unpinned adapters the one with the higher numeric
  priority is evicted whenever the other is.
\<close>

theorem eviction_monotone:
  assumes "record_should_evict r p"
  shows "(f32_gt q p \<longrightarrow> record_should_evict r q) \<and>
         (\<not> ah_pinned r' \<longrightarrow>
          numeric_value (record_eviction_priority r) \<le> numeric_value (record_eviction_priority r') \<longrightarrow>
          record_should_evict r' p)"
  using assms by (auto simp: record_should_evict_def intro: evict_above_mono evict_above_priority
      split: if_splits)

theorem eviction_monotone_witness:
  "record_should_evict hot_code_adapter F32_PosInf"
  using eviction_monotone [of hot_code_adapter "F32_Fin (17 / 20)" F32_PosInf]
  by (simp add: record_should_evict_def hot_code_adapter_def heat_record_new_def
      heat_record_new_with_category_def heat_record_new_with_metadata_def
      record_eviction_priority_def heat_eviction_priority_def f32_literals)

text \<open>
  The two eviction tables agree on adapters that are merely loaded: for an unpinned
  cold or warm adapter of any category, the record's decision is the decision of the
  default policy manager for the category.
\<close>

theorem eviction_tables_agree:
  assumes "ah_state r \<in> {HS_Cold, HS_Warm}" and "\<not> ah_pinned r"
  shows "record_should_evict r p = policy_should_evict policy_manager_new (ah_category r) p"
  using assms
  by (auto simp: record_should_evict_def record_eviction_priority_def heat_eviction_priority_def
      policy_should_evict_def policy_manager_new_def get_policy_def policy_default_def)

theorem eviction_tables_agree_witness:
  "policy_should_evict policy_manager_new ''code'' (F32_Fin 1)"
  using eviction_tables_agree [of "hot_code_adapter\<lparr>ah_state := HS_Warm\<rparr>" "F32_Fin 1"]
  by (simp add: hot_code_adapter_def heat_record_new_def record_should_evict_def
      heat_record_new_with_category_def heat_record_new_with_metadata_def
      record_eviction_priority_def heat_eviction_priority_def f32_literals)

text \<open>
  A hot code adapter leaves before a cold one: hot is not in the table of the code
  category and gets the normal priority, so between the two thresholds the hot adapter is
  evicted while the same adapter in the cold state is kept.
\<close>

theorem hot_code_evicted_before_cold:
  assumes "ah_category r = ''code''" and "\<not> ah_pinned r"
    and "f32_gt p f32_0_8" and "\<not> f32_gt p f32_0_9"
  shows "record_should_evict (r\<lparr>ah_state := HS_Hot\<rparr>) p \<and>
         \<not> record_should_evict (r\<lparr>ah_state := HS_Cold\<rparr>) p"
  using assms
  by (simp add: record_should_evict_def record_eviction_priority_def heat_eviction_priority_def)

theorem hot_code_evicted_before_cold_witness:
  "record_should_evict (hot_code_adapter\<lparr>ah_state := HS_Hot\<rparr>) (F32_Fin (17 / 20)) \<and>
   \<not> record_should_evict (hot_code_adapter\<lparr>ah_state := HS_Cold\<rparr>) (F32_Fin (17 / 20))"
  by (rule hot_code_evicted_before_cold)
    (simp_all add: hot_code_adapter_def heat_record_new_def heat_record_new_with_category_def
      heat_record_new_with_metadata_def f32_literals)

subsection \<open>Promotion\<close>

lemma usage_step_cold:
  "usage_step r r' \<Longrightarrow> ah_category r \<in> {''framework'', ''codebase'', ''ephemeral''} \<Longrightarrow>
   ah_state r \<in> {HS_Unloaded, HS_Cold} \<Longrightarrow>
   ah_category r' = ah_category r \<and> ah_state r' \<in> {HS_Unloaded, HS_Cold}"
  by (auto simp: record_ops can_promote_def split: if_splits elim!: usage_step.cases)

text \<open>
  Usage alone never makes a framework, codebase or ephemeral adapter available:
  starting from a fresh record, any promotions, demotions, guarded changes and activations
  leave it unloaded or cold; only pinning gets it into rotation.
\<close>

theorem cold_categories_never_available:
  assumes "usage_step\<^sup>*\<^sup>* (heat_record_new_with_category aid idx category scope) r"
    and "category \<in> {''framework'', ''codebase'', ''ephemeral''}"
  shows "ah_state r \<in> {HS_Unloaded, HS_Cold} \<and> \<not> heat_is_available (ah_state r)"
proof -
  have "ah_category r = category \<and> ah_state r \<in> {HS_Unloaded, HS_Cold}"
    using assms
    by (induction rule: rtranclp_induct)
      (auto simp: heat_record_new_with_category_def heat_record_new_with_metadata_def
        dest: usage_step_cold)
  then show ?thesis by (auto simp: heat_is_available_def)
qed

theorem cold_categories_never_available_witness:
  "\<not> heat_is_available (ah_state (snd (record_promote (snd (record_promote
     (heat_record_new_with_category ''f'' 2 ''framework'' ''global''))))))"
proof -
  let ?r = "heat_record_new_with_category ''f'' 2 ''framework'' ''global''"
  have one: "usage_step\<^sup>*\<^sup>* ?r (snd (record_promote ?r))"
    by (rule r_into_rtranclp) (rule us_promote)
  have "usage_step\<^sup>*\<^sup>* ?r (snd (record_promote (snd (record_promote ?r))))"
    by (rule rtranclp.rtrancl_into_rtrancl [OF one us_promote])
  from cold_categories_never_available [OF this] show ?thesis by simp
qed

end
