(* ===== verification/AssocMap.thy ===== *)
theory AssocMap
  imports AosPrelude "HOL-Library.AList" "HOL-Library.List_Lexorder" "HOL-Library.Char_ord"
begin

text \<open>
  The maps of the caches as association lists with distinct keys. \<open>DashMap\<close> and \<open>HashMap\<close>
  list their entries in an unspecified order, here the order of the list; a \<open>BTreeMap\<close>
  lists them by key. The first locale is the interface both give to their clients, the
  second the contract of a cache that accounts for the bytes of its entries.
\<close>

section \<open>Operations\<close>

definition am_remove :: "'k \<Rightarrow> ('k \<times> 'v) list \<Rightarrow> ('k \<times> 'v) list" where
  "am_remove k m = filter (\<lambda>e. fst e \<noteq> k) m"

definition am_insert :: "'k \<Rightarrow> 'v \<Rightarrow> ('k \<times> 'v) list \<Rightarrow> ('k \<times> 'v) list" where
  "am_insert k v m = am_remove k m @ [(k, v)]"

definition am_keys :: "('k \<times> 'v) list \<Rightarrow> 'k list" where
  "am_keys m = map fst m"

definition am_update :: "('v \<Rightarrow> 'v) \<Rightarrow> 'k \<Rightarrow> ('k \<times> 'v) list \<Rightarrow> ('k \<times> 'v) list" where
  "am_update f k m = map (\<lambda>e. if fst e = k then (k, f (snd e)) else e) m"

fun bt_insert :: "'k :: linorder \<Rightarrow> 'v \<Rightarrow> ('k \<times> 'v) list \<Rightarrow> ('k \<times> 'v) list" where
  "bt_insert k v [] = [(k, v)]"
| "bt_insert k v (e # m) =
     (if k < fst e then (k, v) # e # m
      else if k = fst e then (k, v) # m
      else e # bt_insert k v m)"

definition am_ok :: "('k \<times> 'v) list \<Rightarrow> bool" where
  "am_ok m = distinct (am_keys m)"

definition bt_ok :: "('k :: linorder \<times> 'v) list \<Rightarrow> bool" where
  "bt_ok m = sorted_wrt (<) (am_keys m)"

section \<open>The map interface\<close>

locale map_interface =
  fixes insert_op :: "'k \<Rightarrow> 'v \<Rightarrow> ('k \<times> 'v) list \<Rightarrow> ('k \<times> 'v) list"
    and ok :: "('k \<times> 'v) list \<Rightarrow> bool"
  assumes ok_distinct: "ok m \<Longrightarrow> distinct (map fst m)"
    and ok_remove: "ok m \<Longrightarrow> ok (am_remove k m)"
    and ok_insert: "ok m \<Longrightarrow> ok (insert_op k v m)"
    and lookup_insert: "ok m \<Longrightarrow> map_of (insert_op k v m) = (map_of m)(k \<mapsto> v)"
    and ok_Nil: "ok []"
begin

lemma entry_lookup: "ok m \<Longrightarrow> (k, v) \<in> set m \<longleftrightarrow> map_of m k = Some v"
  using ok_distinct by (simp add: map_of_eq_Some_iff)

lemma lookup_remove: "map_of (am_remove k m) = (map_of m)(k := None)"
  by (induction m) (auto simp: am_remove_def)

lemma entries_insert:
  assumes "ok m" and "map_of m k = None"
  shows "set (insert_op k v m) = insert (k, v) (set m)"
proof -
  have "(a, b) \<in> set (insert_op k v m) \<longleftrightarrow> (a, b) \<in> insert (k, v) (set m)" for a b
    using assms entry_lookup [OF assms(1), of a b]
      entry_lookup [OF ok_insert [OF assms(1)], of a b k v]
    by (auto simp: lookup_insert split: if_splits)
  then show ?thesis by auto
qed

end

lemma am_keys_simps [simp]:
  "am_keys [] = []" "am_keys (e # m) = fst e # am_keys m" "am_keys (m @ n) = am_keys m @ am_keys n"
  by (simp_all add: am_keys_def)

lemma am_keys_remove: "am_keys (am_remove k m) = filter (\<lambda>x. x \<noteq> k) (am_keys m)"
  by (induction m) (auto simp: am_remove_def)

interpretation hash_map: map_interface am_insert am_ok
proof
  fix m :: "('k \<times> 'v) list" and k :: 'k and v :: 'v
  assume ok: "am_ok m"
  then show "distinct (map fst m)" and "am_ok (am_remove k m)"
    and "am_ok (am_insert k v m)"
    by (simp_all add: am_ok_def am_insert_def am_keys_remove) (simp add: am_keys_def)
  have rm: "map_of (am_remove k m) = (map_of m)(k := None)"
    by (induction m) (auto simp: am_remove_def)
  show "map_of (am_insert k v m) = (map_of m)(k \<mapsto> v)"
    by (auto simp: am_insert_def map_add_def rm fun_eq_iff split: option.split)
qed (simp add: am_ok_def)

lemma set_bt_insert_keys: "set (am_keys (bt_insert k v m)) = insert k (set (am_keys m))"
  by (induction m) auto

lemma bt_insert_ok: "bt_ok m \<Longrightarrow> bt_ok (bt_insert k v m)"
  by (induction m) (auto simp: bt_ok_def set_bt_insert_keys)

lemma bt_insert_lookup: "bt_ok m \<Longrightarrow> map_of (bt_insert k v m) = (map_of m)(k \<mapsto> v)"
  by (induction m) (auto simp: bt_ok_def fun_eq_iff)

lemma bt_remove_ok: "bt_ok m \<Longrightarrow> bt_ok (am_remove k m)"
  by (simp add: bt_ok_def am_keys_remove sorted_wrt_filter)

interpretation btree_map: map_interface "bt_insert :: 'k :: linorder \<Rightarrow> 'v \<Rightarrow> _" bt_ok
proof
  fix m :: "('k \<times> 'v) list" and k :: 'k and v :: 'v
  show "distinct (map fst m)" if "bt_ok m"
    using that by (simp add: bt_ok_def am_keys_def strict_sorted_iff)
qed (simp_all add: bt_insert_ok bt_insert_lookup bt_remove_ok, simp add: bt_ok_def)

section \<open>Byte accounting\<close>

text \<open>
  A cache keeps a 64-bit counter of the bytes of its entries. Each of its steps keeps the
  counter equal to the sum of the sizes; then so does every sequence of steps.
\<close>

locale accounted_cache =
  fixes used :: "'s \<Rightarrow> u64"
    and sizes :: "'s \<Rightarrow> u64 list"
    and cache_ok :: "'s \<Rightarrow> bool"
    and step :: "'s \<Rightarrow> 's \<Rightarrow> bool"
  assumes step_ok: "cache_ok s \<Longrightarrow> step s s' \<Longrightarrow> cache_ok s'"
    and step_used: "cache_ok s \<Longrightarrow> used s = sum_list (sizes s) \<Longrightarrow> step s s' \<Longrightarrow>
      used s' = sum_list (sizes s')"
begin

lemma run_accounted:
  "step\<^sup>*\<^sup>* s s' \<Longrightarrow> cache_ok s \<Longrightarrow> used s = sum_list (sizes s) \<Longrightarrow>
   cache_ok s' \<and> used s' = sum_list (sizes s')"
  by (induction rule: rtranclp_induct) (auto dest: step_ok step_used)

end

definition am_total :: "('v \<Rightarrow> u64) \<Rightarrow> ('k \<times> 'v) list \<Rightarrow> u64" where
  "am_total bsize m = sum_list (map (\<lambda>e. bsize (snd e)) m)"

lemma am_total_simps [cache_simps]:
  "am_total bsize [] = 0" "am_total bsize (e # m) = bsize (snd e) + am_total bsize m"
  "am_total bsize (m @ n) = am_total bsize m + am_total bsize n"
  by (simp_all add: am_total_def)

lemma am_remove_absent: "k \<notin> set (am_keys m) \<Longrightarrow> am_remove k m = m"
  by (induction m) (auto simp: am_remove_def)

lemma am_total_remove:
  "am_ok m \<Longrightarrow> map_of m k = Some v \<Longrightarrow> am_total bsize (am_remove k m) = am_total bsize m - bsize v"
proof (induction m)
  case (Cons e m)
  show ?case
  proof (cases "fst e = k")
    case True
    with Cons.prems have "am_remove k m = m" "snd e = v"
      by (auto simp: am_ok_def am_remove_absent)
    with True show ?thesis by (simp add: am_remove_def am_total_def)
  next
    case False
    with Cons have "am_total bsize (am_remove k m) = am_total bsize m - bsize v"
      by (simp add: am_ok_def split: if_splits)
    moreover have "am_remove k (e # m) = e # am_remove k m" using False by (simp add: am_remove_def)
    ultimately show ?thesis by (simp add: am_total_simps)
  qed
qed simp

lemma am_total_insert_new:
  "map_of m k = None \<Longrightarrow> am_total bsize (am_insert k v m) = am_total bsize m + bsize v"
  by (simp add: am_insert_def am_remove_absent am_keys_def map_of_eq_None_iff am_total_simps)

lemma am_keys_update: "am_keys (am_update f k m) = am_keys m"
  by (induction m) (auto simp: am_update_def)

lemma am_total_update:
  "(\<And>v. bsize (f v) = bsize v) \<Longrightarrow> am_total bsize (am_update f k m) = am_total bsize m"
  by (induction m) (auto simp: am_update_def am_total_simps)

lemma map_of_filter_key: "P k \<Longrightarrow> map_of (filter (\<lambda>e. P (fst e)) m) k = map_of m k"
  by (induction m) auto

lemma unat_sum_list:
  "sum_list (map unat ws) < 2 ^ 64 \<Longrightarrow> unat (sum_list (ws :: u64 list)) = sum_list (map unat ws)"
  by (induction ws) (simp_all add: unat_word_ariths)

lemma lookup_am_insert: "map_of (am_insert k v m) = (map_of m)(k \<mapsto> v)"
  by (auto simp: am_insert_def hash_map.lookup_remove map_add_def fun_eq_iff split: option.split)

lemma lookup_am_update:
  "map_of (am_update f k m) = (map_of m)(k := map_option f (map_of m k))"
  by (induction m) (auto simp: am_update_def fun_eq_iff)

end
