(* ===== verification/KvCache.thy ===== *)
theory KvCache
  imports AssocMap Floats
begin

text \<open>
  The session-keyed KV cache of the model server, \<open>crates/adapteros-model-server/src/kv_cache.rs\<close>:
  entries, lookup, creation with eviction of the least recently used sessions, removal and
  statistics. Each operation is one step; the clock is an argument. Byte counts are \<open>u64\<close>
  and wrap; \<open>usize\<close> has 64 bits.
\<close>

section \<open>Entries\<close>

record kv_cache_entry =
  ke_session_id :: string
  ke_keys :: "f32 list"
  ke_values :: "f32 list"
  ke_cached_tokens :: u32
  ke_max_seq_len :: u32
  ke_last_accessed :: nat
  ke_created_at :: nat
  ke_memory_bytes :: u64

definition kv_entry_new :: "nat \<Rightarrow> string \<Rightarrow> u32 \<Rightarrow> u64 \<Rightarrow> u64 \<Rightarrow> kv_cache_entry" where
  "kv_entry_new now session_id max_seq_len hidden_size num_layers =
     \<lparr>ke_session_id = session_id, ke_keys = [], ke_values = [], ke_cached_tokens = 0,
      ke_max_seq_len = max_seq_len, ke_last_accessed = now, ke_created_at = now,
      ke_memory_bytes = 2 * ucast max_seq_len * hidden_size * num_layers * 4\<rparr>"

definition kv_entry_touch :: "nat \<Rightarrow> kv_cache_entry \<Rightarrow> kv_cache_entry" where
  "kv_entry_touch now e = e\<lparr>ke_last_accessed := now\<rparr>"

definition kv_entry_update ::
  "nat \<Rightarrow> f32 list \<Rightarrow> f32 list \<Rightarrow> u32 \<Rightarrow> kv_cache_entry \<Rightarrow> kv_cache_entry" where
  "kv_entry_update now keys vals token_count e =
     e\<lparr>ke_keys := keys, ke_values := vals, ke_cached_tokens := token_count,
        ke_last_accessed := now\<rparr>"

section \<open>The manager\<close>

record kv_cache_manager =
  kc_caches :: "(string \<times> kv_cache_entry) list"
  kc_lru_order :: "string list"
  kc_max_bytes :: u64
  kc_current_bytes :: u64
  kc_hidden_size :: u64
  kc_num_layers :: u64
  kc_hits :: u64
  kc_misses :: u64
  kc_evictions :: u64

definition kv_cache_new :: "u64 \<Rightarrow> u64 \<Rightarrow> u64 \<Rightarrow> kv_cache_manager" where
  "kv_cache_new max_bytes hidden_size num_layers =
     \<lparr>kc_caches = [], kc_lru_order = [], kc_max_bytes = max_bytes, kc_current_bytes = 0,
      kc_hidden_size = hidden_size, kc_num_layers = num_layers, kc_hits = 0, kc_misses = 0,
      kc_evictions = 0\<rparr>"

definition update_lru :: "string \<Rightarrow> kv_cache_manager \<Rightarrow> kv_cache_manager" where
  "update_lru sid kc = kc\<lparr>kc_lru_order := filter (\<lambda>i. i \<noteq> sid) (kc_lru_order kc) @ [sid]\<rparr>"

definition kv_get :: "string \<Rightarrow> kv_cache_manager \<Rightarrow> kv_cache_entry option \<times> kv_cache_manager" where
  "kv_get sid kc =
     (case map_of (kc_caches kc) sid of
        Some entry \<Rightarrow> (Some entry, update_lru sid (kc\<lparr>kc_hits := kc_hits kc + 1\<rparr>))
      | None \<Rightarrow> (None, kc\<lparr>kc_misses := kc_misses kc + 1\<rparr>))"

definition kv_remove :: "string \<Rightarrow> kv_cache_manager \<Rightarrow> u64 option \<times> kv_cache_manager" where
  "kv_remove sid kc =
     (case map_of (kc_caches kc) sid of
        Some entry \<Rightarrow>
          (Some (ke_memory_bytes entry),
           kc\<lparr>kc_caches := am_remove sid (kc_caches kc),
              kc_current_bytes := kc_current_bytes kc - ke_memory_bytes entry,
              kc_lru_order := filter (\<lambda>i. i \<noteq> sid) (kc_lru_order kc)\<rparr>)
      | None \<Rightarrow> (None, kc))"

text \<open>One round of the eviction loop: the oldest session is popped and removed.\<close>

definition evict_oldest :: "string \<Rightarrow> kv_cache_manager \<Rightarrow> u64 \<Rightarrow> u64 \<times> kv_cache_manager" where
  "evict_oldest sid kc freed =
     (case kv_remove sid kc of
        (Some b, kc') \<Rightarrow> (freed + b, kc'\<lparr>kc_evictions := kc_evictions kc' + 1\<rparr>)
      | (None, kc') \<Rightarrow> (freed, kc'))"

lemma evict_oldest_lru:
  "length (kc_lru_order (snd (evict_oldest sid kc freed))) \<le> length (kc_lru_order kc)"
  by (auto simp: evict_oldest_def kv_remove_def split: option.split)

function evict_loop :: "u64 \<Rightarrow> u64 \<Rightarrow> kv_cache_manager \<Rightarrow> kv_cache_manager" where
  "evict_loop need freed kc =
     (if freed < need then
        (case kc_lru_order kc of
           sid # rest \<Rightarrow>
             (let (freed', kc') = evict_oldest sid (kc\<lparr>kc_lru_order := rest\<rparr>) freed in
              evict_loop need freed' kc')
         | [] \<Rightarrow> kc)
      else kc)"
  by auto
termination
proof (relation "measure (\<lambda>(need, freed, kc). length (kc_lru_order kc))", goal_cases)
  case (2 need freed kc sid rest p freed' kc')
  then have "kc' = snd (evict_oldest sid (kc\<lparr>kc_lru_order := rest\<rparr>) freed)" by (metis snd_conv)
  with 2 evict_oldest_lru [of sid "kc\<lparr>kc_lru_order := rest\<rparr>" freed] show ?case
    by (simp add: case_prod_unfold)
qed simp

declare evict_loop.simps [simp del]

definition evict_if_needed :: "u64 \<Rightarrow> kv_cache_manager \<Rightarrow> kv_cache_manager" where
  "evict_if_needed new_bytes kc =
     (let current = kc_current_bytes kc in
      if current + new_bytes \<le> kc_max_bytes kc then kc
      else evict_loop (current + new_bytes - kc_max_bytes kc) 0 kc)"

definition get_or_create ::
  "nat \<Rightarrow> string \<Rightarrow> u32 \<Rightarrow> kv_cache_manager \<Rightarrow> kv_cache_entry \<times> kv_cache_manager" where
  "get_or_create now sid max_seq_len kc =
     (case map_of (kc_caches kc) sid of
        Some entry \<Rightarrow> (entry, update_lru sid (kc\<lparr>kc_hits := kc_hits kc + 1\<rparr>))
      | None \<Rightarrow>
          (let entry = kv_entry_new now sid max_seq_len (kc_hidden_size kc) (kc_num_layers kc);
               kc1 = evict_if_needed (ke_memory_bytes entry)
                       (kc\<lparr>kc_misses := kc_misses kc + 1\<rparr>) in
           (entry,
            kc1\<lparr>kc_caches := am_insert sid entry (kc_caches kc1),
                kc_current_bytes := kc_current_bytes kc1 + ke_memory_bytes entry,
                kc_lru_order := kc_lru_order kc1 @ [sid]\<rparr>)))"

text \<open>A write through the handle that \<open>get\<close> or \<open>get_or_create\<close> returned.\<close>

definition kv_store ::
  "nat \<Rightarrow> string \<Rightarrow> f32 list \<Rightarrow> f32 list \<Rightarrow> u32 \<Rightarrow> kv_cache_manager \<Rightarrow> kv_cache_manager" where
  "kv_store now sid keys vals token_count kc =
     kc\<lparr>kc_caches := am_update (kv_entry_update now keys vals token_count) sid (kc_caches kc)\<rparr>"

definition kv_clear :: "kv_cache_manager \<Rightarrow> kv_cache_manager" where
  "kv_clear kc = kc\<lparr>kc_caches := [], kc_lru_order := [], kc_current_bytes := 0\<rparr>"

record kv_cache_stats =
  ks_active_sessions :: nat
  ks_used_bytes :: u64
  ks_max_bytes :: u64
  ks_hits :: u64
  ks_misses :: u64
  ks_evictions :: u64

definition kv_stats :: "kv_cache_manager \<Rightarrow> kv_cache_stats" where
  "kv_stats kc =
     \<lparr>ks_active_sessions = length (kc_caches kc), ks_used_bytes = kc_current_bytes kc,
      ks_max_bytes = kc_max_bytes kc, ks_hits = kc_hits kc, ks_misses = kc_misses kc,
      ks_evictions = kc_evictions kc\<rparr>"

section \<open>Correctness\<close>

subsection \<open>Accounting\<close>

inductive kv_step :: "kv_cache_manager \<Rightarrow> kv_cache_manager \<Rightarrow> bool" where
  kv_step_get_or_create: "kv_step kc (snd (get_or_create now sid max_seq_len kc))"
| kv_step_get: "kv_step kc (snd (kv_get sid kc))"
| kv_step_remove: "kv_step kc (snd (kv_remove sid kc))"
| kv_step_store: "kv_step kc (kv_store now sid keys vals token_count kc)"
| kv_step_clear: "kv_step kc (kv_clear kc)"

definition kv_ok :: "kv_cache_manager \<Rightarrow> bool" where
  "kv_ok kc \<longleftrightarrow> am_ok (kc_caches kc) \<and> distinct (kc_lru_order kc) \<and>
     set (kc_lru_order kc) = set (am_keys (kc_caches kc))"

definition kv_total :: "kv_cache_manager \<Rightarrow> u64" where
  "kv_total kc = am_total ke_memory_bytes (kc_caches kc)"

definition kv_accounted :: "kv_cache_manager \<Rightarrow> bool" where
  "kv_accounted kc \<longleftrightarrow> kc_current_bytes kc = kv_total kc"

lemma kv_lookup_key: "map_of m sid = Some e \<Longrightarrow> sid \<in> set (am_keys m)"
  by (force simp: am_keys_def dest: map_of_SomeD)

lemma kv_lookup_None: "map_of m sid = None \<longleftrightarrow> sid \<notin> set (am_keys m)"
  by (simp add: am_keys_def map_of_eq_None_iff)

lemma kv_remove_ok: "kv_ok kc \<Longrightarrow> kv_ok (snd (kv_remove sid kc))"
  by (auto simp: kv_ok_def kv_remove_def am_keys_remove hash_map.ok_remove split: option.split)

lemma kv_remove_accounted:
  "am_ok (kc_caches kc) \<Longrightarrow> kv_accounted kc \<Longrightarrow> kv_accounted (snd (kv_remove sid kc))"
  by (auto simp: kv_accounted_def kv_total_def kv_remove_def am_total_remove split: option.split)

lemma evict_oldest_eq:
  assumes "kv_ok kc" and "kc_lru_order kc = sid # rest"
  shows "\<exists>e. map_of (kc_caches kc) sid = Some e \<and>
    evict_oldest sid (kc\<lparr>kc_lru_order := rest\<rparr>) freed =
      (freed + ke_memory_bytes e,
       kc\<lparr>kc_caches := am_remove sid (kc_caches kc),
          kc_current_bytes := kc_current_bytes kc - ke_memory_bytes e,
          kc_lru_order := rest, kc_evictions := kc_evictions kc + 1\<rparr>)"
proof -
  have "sid \<in> set (am_keys (kc_caches kc))" "sid \<notin> set rest"
    using assms by (auto simp: kv_ok_def)
  then obtain e where "map_of (kc_caches kc) sid = Some e"
    using kv_lookup_None by fastforce
  moreover from \<open>sid \<notin> set rest\<close> have "filter (\<lambda>i. i \<noteq> sid) rest = rest"
    by (auto intro: filter_True)
  ultimately show ?thesis by (simp add: evict_oldest_def kv_remove_def)
qed

text \<open>The state after one round of the loop.\<close>

definition drop_oldest :: "kv_cache_manager \<Rightarrow> kv_cache_manager" where
  "drop_oldest kc =
     (case kc_lru_order kc of
        [] \<Rightarrow> kc
      | sid # rest \<Rightarrow> snd (evict_oldest sid (kc\<lparr>kc_lru_order := rest\<rparr>) 0))"

lemma evict_loop_step:
  assumes "kv_ok kc" and "kc_lru_order kc = sid # rest" and "freed < need"
    and "map_of (kc_caches kc) sid = Some e"
  shows "evict_loop need freed kc = evict_loop need (freed + ke_memory_bytes e) (drop_oldest kc)"
  using evict_oldest_eq [OF assms(1,2), of freed] evict_oldest_eq [OF assms(1,2), of 0] assms(2-4)
  by (subst evict_loop.simps) (auto simp: drop_oldest_def)

lemma drop_oldest_fields:
  assumes "kv_ok kc" and "kc_lru_order kc = sid # rest"
    and "map_of (kc_caches kc) sid = Some e"
  shows "kc_lru_order (drop_oldest kc) = rest"
    "kc_caches (drop_oldest kc) = am_remove sid (kc_caches kc)"
    "kc_current_bytes (drop_oldest kc) = kc_current_bytes kc - ke_memory_bytes e"
    "kc_max_bytes (drop_oldest kc) = kc_max_bytes kc"
  using evict_oldest_eq [OF assms(1,2), of 0] assms(2,3) by (auto simp: drop_oldest_def)

lemma oldest_cached:
  assumes "kv_ok kc" and "kc_lru_order kc = sid # rest"
  obtains e where "map_of (kc_caches kc) sid = Some e"
  using evict_oldest_eq [OF assms] by blast

lemma drop_oldest_ok:
  assumes "kv_ok kc" and "kc_lru_order kc = sid # rest"
  shows "kv_ok (drop_oldest kc)"
proof -
  obtain e where "map_of (kc_caches kc) sid = Some e" by (rule oldest_cached [OF assms])
  from drop_oldest_fields [OF assms this] assms show ?thesis
    by (auto simp: kv_ok_def am_keys_remove hash_map.ok_remove)
qed

text \<open>The sizes of the cached sessions, oldest first, as natural numbers.\<close>

definition lru_sizes :: "kv_cache_manager \<Rightarrow> nat list" where
  "lru_sizes kc =
     map (\<lambda>sid. unat (ke_memory_bytes (the (map_of (kc_caches kc) sid)))) (kc_lru_order kc)"

lemma lru_sizes_drop:
  assumes "kv_ok kc" and "kc_lru_order kc = sid # rest"
    and "map_of (kc_caches kc) sid = Some e"
  shows "lru_sizes kc = unat (ke_memory_bytes e) # lru_sizes (drop_oldest kc)"
proof -
  have "sid \<notin> set rest" using assms(1,2) by (simp add: kv_ok_def)
  then have "map (\<lambda>i. unat (ke_memory_bytes (the (map_of (kc_caches kc) i)))) rest =
      map (\<lambda>i. unat (ke_memory_bytes (the (map_of (am_remove sid (kc_caches kc)) i)))) rest"
    by (auto simp: hash_map.lookup_remove intro!: map_cong)
  then show ?thesis
    using drop_oldest_fields(1,2) [OF assms] assms(2,3) by (simp add: lru_sizes_def)
qed

text \<open>
  The eviction loop drops a prefix of the least recently used sessions, and the shortest one
  that frees enough.
\<close>

definition evicted_prefix :: "nat \<Rightarrow> kv_cache_manager \<Rightarrow> kv_cache_manager \<Rightarrow> bool" where
  "evicted_prefix n kc kc' \<longleftrightarrow>
     n \<le> length (kc_lru_order kc) \<and> kc_lru_order kc' = drop n (kc_lru_order kc) \<and>
     kc_caches kc' =
       filter (\<lambda>e. fst e \<notin> set (take n (kc_lru_order kc))) (kc_caches kc) \<and>
     kc_max_bytes kc' = kc_max_bytes kc"

lemma evict_loop_prefix:
  "kv_ok kc \<Longrightarrow> unat freed + sum_list (lru_sizes kc) < 2 ^ 64 \<Longrightarrow>
   \<exists>n. evicted_prefix n kc (evict_loop need freed kc) \<and>
       (unat need \<le> unat freed + sum_list (take n (lru_sizes kc)) \<or> n = length (kc_lru_order kc)) \<and>
       (\<forall>m < n. unat freed + sum_list (take m (lru_sizes kc)) < unat need)"
proof (induction "length (kc_lru_order kc)" arbitrary: kc freed)
  case 0
  then show ?case
    by (intro exI [of _ 0]) (simp add: evict_loop.simps [of need freed kc] evicted_prefix_def)
next
  case (Suc k)
  from Suc.hyps(2) obtain sid rest where lru: "kc_lru_order kc = sid # rest"
    by (cases "kc_lru_order kc") auto
  obtain e where e: "map_of (kc_caches kc) sid = Some e"
    by (rule oldest_cached [OF Suc.prems(1) lru])
  note fields = drop_oldest_fields [OF Suc.prems(1) lru e]
    and sizes = lru_sizes_drop [OF Suc.prems(1) lru e]
  show ?case
  proof (cases "freed < need")
    case False
    then show ?thesis
      by (intro exI [of _ 0])
        (simp add: evict_loop.simps [of need freed kc] evicted_prefix_def word_less_nat_alt)
  next
    case True
    let ?f = "freed + ke_memory_bytes e"
    have f: "unat ?f = unat freed + unat (ke_memory_bytes e)"
      using Suc.prems(2) sizes by (simp add: unat_word_ariths)
    have "\<exists>n. evicted_prefix n (drop_oldest kc) (evict_loop need ?f (drop_oldest kc)) \<and>
       (unat need \<le> unat ?f + sum_list (take n (lru_sizes (drop_oldest kc))) \<or>
        n = length (kc_lru_order (drop_oldest kc))) \<and>
       (\<forall>m < n. unat ?f + sum_list (take m (lru_sizes (drop_oldest kc))) < unat need)"
      by (rule Suc.hyps(1))
        (use Suc.prems Suc.hyps(2) lru fields f sizes drop_oldest_ok in auto)
    then obtain n where n: "evicted_prefix n (drop_oldest kc) (evict_loop need ?f (drop_oldest kc))"
      "unat need \<le> unat ?f + sum_list (take n (lru_sizes (drop_oldest kc))) \<or> n = length rest"
      "\<forall>m < n. unat ?f + sum_list (take m (lru_sizes (drop_oldest kc))) < unat need"
      using fields by auto
    have "evicted_prefix (Suc n) kc (evict_loop need freed kc)"
      using n(1) fields evict_loop_step [OF Suc.prems(1) lru True e] lru
      by (auto simp: evicted_prefix_def am_remove_def intro!: filter_cong)
    moreover have "\<forall>m < Suc n. unat freed + sum_list (take m (lru_sizes kc)) < unat need"
      using n(3) True f sizes by (auto simp: All_less_Suc2 word_less_nat_alt algebra_simps)
    ultimately show ?thesis
      using n(2) f sizes lru by (intro exI [of _ "Suc n"]) (auto simp: algebra_simps)
  qed
qed

lemma evict_loop_keeps:
  assumes "\<And>kc sid rest. kv_ok kc \<Longrightarrow> P kc \<Longrightarrow> kc_lru_order kc = sid # rest \<Longrightarrow> P (drop_oldest kc)"
  shows "kv_ok kc \<Longrightarrow> P kc \<Longrightarrow>
    kv_ok (evict_loop need freed kc) \<and> P (evict_loop need freed kc)"
proof (induction "length (kc_lru_order kc)" arbitrary: kc freed)
  case 0
  then show ?case by (simp add: evict_loop.simps [of need freed kc])
next
  case (Suc k)
  from Suc.hyps(2) obtain sid rest where lru: "kc_lru_order kc = sid # rest"
    by (cases "kc_lru_order kc") auto
  obtain e where e: "map_of (kc_caches kc) sid = Some e"
    by (rule oldest_cached [OF Suc.prems(1) lru])
  show ?case
  proof (cases "freed < need")
    case True
    then show ?thesis
      unfolding evict_loop_step [OF Suc.prems(1) lru True e]
      using Suc lru drop_oldest_fields(1) [OF Suc.prems(1) lru e] drop_oldest_ok assms by auto
  qed (use Suc.prems in \<open>simp add: evict_loop.simps [of need freed kc]\<close>)
qed

lemma drop_oldest_accounted:
  assumes "kv_ok kc" "kv_accounted kc" "kc_lru_order kc = sid # rest"
  shows "kv_accounted (drop_oldest kc)"
proof -
  obtain e where e: "map_of (kc_caches kc) sid = Some e"
    by (rule oldest_cached [OF assms(1,3)])
  from drop_oldest_fields [OF assms(1,3) e] assms(1,2) e show ?thesis
    by (simp add: kv_accounted_def kv_total_def kv_ok_def am_total_remove)
qed

definition kv_quiet :: "kv_cache_manager \<Rightarrow> kv_cache_manager \<Rightarrow> bool" where
  "kv_quiet kc kc' \<longleftrightarrow> kc_caches kc' = kc_caches kc \<and> kc_current_bytes kc' = kc_current_bytes kc \<and>
     kc_lru_order kc' = kc_lru_order kc"

lemma kv_quiet_keeps:
  "kv_quiet kc kc' \<Longrightarrow> kv_ok kc' = kv_ok kc" "kv_quiet kc kc' \<Longrightarrow> kv_accounted kc' = kv_accounted kc"
  by (simp_all add: kv_quiet_def kv_ok_def kv_accounted_def kv_total_def)

lemma evict_if_needed_keeps:
  assumes "kv_ok kc" "kv_accounted kc"
  shows "kv_ok (evict_if_needed n kc)" "kv_accounted (evict_if_needed n kc)"
  using evict_loop_keeps [of kv_accounted kc] drop_oldest_accounted assms
  by (simp_all add: evict_if_needed_def Let_def)

lemma evict_loop_keys:
  "kv_ok kc \<Longrightarrow> sid \<notin> set (am_keys (kc_caches kc)) \<Longrightarrow>
   sid \<notin> set (am_keys (kc_caches (evict_loop need freed kc)))"
proof -
  have "sid \<notin> set (am_keys (kc_caches (drop_oldest kc)))"
    if "kv_ok kc" "sid \<notin> set (am_keys (kc_caches kc))" "kc_lru_order kc = i # rest" for kc i rest
    using that oldest_cached [OF that(1,3)] drop_oldest_fields(2) [OF that(1,3)]
    by (metis am_keys_remove filter_is_subset subsetD)
  then show "kv_ok kc \<Longrightarrow> sid \<notin> set (am_keys (kc_caches kc)) \<Longrightarrow> ?thesis"
    using evict_loop_keeps [of "\<lambda>kc. sid \<notin> set (am_keys (kc_caches kc))"] by blast
qed

lemma update_lru_keeps:
  assumes "kv_ok kc" and "sid \<in> set (am_keys (kc_caches kc))"
  shows "kv_ok (update_lru sid kc)" "kv_accounted (update_lru sid kc) = kv_accounted kc"
  using assms by (auto simp: kv_ok_def update_lru_def kv_accounted_def kv_total_def)

lemma get_or_create_keeps:
  assumes ok: "kv_ok kc" and acc: "kv_accounted kc"
  shows "kv_ok (snd (get_or_create now sid len kc)) \<and> kv_accounted (snd (get_or_create now sid len kc))"
proof (cases "map_of (kc_caches kc) sid")
  case (Some e)
  let ?kc = "kc\<lparr>kc_hits := kc_hits kc + 1\<rparr>"
  have "kv_quiet kc ?kc" by (simp add: kv_quiet_def)
  with Some ok acc update_lru_keeps [of ?kc sid] kv_lookup_key [OF Some] show ?thesis
    by (simp add: get_or_create_def kv_quiet_keeps)
next
  case None
  let ?kc = "kc\<lparr>kc_misses := kc_misses kc + 1\<rparr>"
  let ?e = "kv_entry_new now sid len (kc_hidden_size kc) (kc_num_layers kc)"
  let ?kc1 = "evict_if_needed (ke_memory_bytes ?e) ?kc"
  have "kv_quiet kc ?kc" by (simp add: kv_quiet_def)
  then have q: "kv_ok ?kc" "kv_accounted ?kc" using ok acc by (simp_all add: kv_quiet_keeps)
  have "sid \<notin> set (am_keys (kc_caches ?kc1))"
    using None q(1) evict_loop_keys [OF q(1)]
    by (simp add: evict_if_needed_def Let_def kv_lookup_None)
  moreover from this have "am_remove sid (kc_caches ?kc1) = kc_caches ?kc1"
    by (rule am_remove_absent)
  ultimately show ?thesis
    using None evict_if_needed_keeps [OF q, of "ke_memory_bytes ?e"]
    by (auto simp: get_or_create_def Let_def kv_ok_def kv_accounted_def kv_total_def
        am_insert_def am_ok_def am_total_simps)
qed

lemma kv_step_keeps: "kv_step kc kc' \<Longrightarrow> kv_ok kc \<Longrightarrow> kv_accounted kc \<Longrightarrow> kv_ok kc' \<and> kv_accounted kc'"
proof (induction rule: kv_step.induct)
  case (kv_step_get kc sid)
  show ?case
  proof (cases "map_of (kc_caches kc) sid")
    case (Some e)
    let ?kc = "kc\<lparr>kc_hits := kc_hits kc + 1\<rparr>"
    have "kv_quiet kc ?kc" by (simp add: kv_quiet_def)
    with Some kv_step_get update_lru_keeps [of ?kc sid] kv_lookup_key [OF Some] show ?thesis
      by (simp add: kv_get_def kv_quiet_keeps)
  next
    case None
    have "kv_quiet kc (kc\<lparr>kc_misses := kc_misses kc + 1\<rparr>)" by (simp add: kv_quiet_def)
    with None kv_step_get show ?thesis by (simp add: kv_get_def kv_quiet_keeps)
  qed
next
  case (kv_step_store kc now sid keys vals n)
  then show ?case
    by (simp add: kv_store_def kv_ok_def kv_accounted_def kv_total_def am_keys_update am_ok_def
        am_total_update kv_entry_update_def)
next
  case (kv_step_clear kc)
  show ?case
    by (simp add: kv_clear_def kv_ok_def kv_accounted_def kv_total_def am_total_simps am_ok_def)
next
  case (kv_step_remove kc sid)
  then have "am_ok (kc_caches kc)" by (simp add: kv_ok_def)
  with kv_step_remove show ?case by (simp add: kv_remove_ok kv_remove_accounted)
qed (simp add: get_or_create_keeps)


interpretation kv_accounting:
  accounted_cache kc_current_bytes "\<lambda>kc. map (\<lambda>e. ke_memory_bytes (snd e)) (kc_caches kc)"
    "\<lambda>kc. kv_ok kc \<and> kv_accounted kc" kv_step
  by unfold_locales (auto simp: kv_accounted_def kv_total_def am_total_def dest!: kv_step_keeps)

lemma kv_new_ok: "kv_ok (kv_cache_new m h l)" "kv_accounted (kv_cache_new m h l)"
  by (simp_all add: kv_ok_def kv_accounted_def kv_total_def kv_cache_new_def am_ok_def am_total_simps)

text \<open>
  The KV cache accounts for its memory: after any sequence of lookups, creations with
  evictions, writes, removals and clearings the byte counter is the sum of the sizes of the
  cached sessions, and the recency list holds every cached session exactly once.
\<close>

theorem kv_cache_accounting:
  assumes "kv_step\<^sup>*\<^sup>* (kv_cache_new max_bytes hidden_size num_layers) kc"
  shows "kc_current_bytes kc = sum_list (map (\<lambda>e. ke_memory_bytes (snd e)) (kc_caches kc)) \<and>
         distinct (map fst (kc_caches kc)) \<and> distinct (kc_lru_order kc) \<and>
         set (kc_lru_order kc) = fst ` set (kc_caches kc)"
proof -
  have "(kv_ok kc \<and> kv_accounted kc) \<and>
      kc_current_bytes kc = sum_list (map (\<lambda>e. ke_memory_bytes (snd e)) (kc_caches kc))"
    by (rule kv_accounting.run_accounted [OF assms]) (simp_all add: kv_new_ok, simp add: kv_cache_new_def)
  then show ?thesis by (auto simp: kv_ok_def am_ok_def am_keys_def)
qed

theorem kv_cache_accounting_witness:
  "kc_current_bytes (snd (get_or_create 7 ''s'' 2 (kv_cache_new 100 1 1))) = 16"
proof -
  have "kv_step\<^sup>*\<^sup>* (kv_cache_new 100 1 1) (snd (get_or_create 7 ''s'' 2 (kv_cache_new 100 1 1)))"
    by (rule r_into_rtranclp) (rule kv_step_get_or_create)
  from kv_cache_accounting [OF this] show ?thesis
    by (simp add: get_or_create_def kv_cache_new_def evict_if_needed_def kv_entry_new_def
        am_insert_def am_remove_def Let_def)
qed

subsection \<open>Eviction\<close>

text \<open>
  Eviction takes the least recently used sessions and no more than needed: when the
  sizes do not overflow, the loop removes a prefix of the recency order, it stops only when
  enough bytes are freed or nothing is left, and no shorter prefix would have freed enough.
\<close>

theorem kv_eviction_minimal:
  assumes "kv_ok kc" and "sum_list (lru_sizes kc) < 2 ^ 64"
  shows "\<exists>n. evicted_prefix n kc (evict_loop need 0 kc) \<and>
     (unat need \<le> sum_list (take n (lru_sizes kc)) \<or> n = length (kc_lru_order kc)) \<and>
     (\<forall>m < n. sum_list (take m (lru_sizes kc)) < unat need)"
  using evict_loop_prefix [OF assms(1), of 0 need] assms(2) by simp

definition two_sessions :: kv_cache_manager where
  "two_sessions =
     snd (get_or_create 2 ''b'' 2 (snd (get_or_create 1 ''a'' 1 (kv_cache_new 24 1 1))))"

lemma two_sessions_eq:
  "kc_lru_order two_sessions = [''a'', ''b'']"
  "kc_caches two_sessions = [(''a'', kv_entry_new 1 ''a'' 1 1 1), (''b'', kv_entry_new 2 ''b'' 2 1 1)]"
  "kc_current_bytes two_sessions = 24" "kc_max_bytes two_sessions = 24"
  by (simp_all add: two_sessions_def get_or_create_def kv_cache_new_def evict_if_needed_def
      kv_entry_new_def am_insert_def am_remove_def Let_def)

lemma two_sessions_ok: "kv_ok two_sessions" "lru_sizes two_sessions = [8, 16]"
  by (simp_all add: kv_ok_def two_sessions_eq am_ok_def lru_sizes_def kv_entry_new_def)

theorem kv_eviction_minimal_witness:
  "\<exists>n. evicted_prefix n two_sessions (evict_loop 5 0 two_sessions) \<and> n = 1"
proof -
  obtain n where n: "evicted_prefix n two_sessions (evict_loop 5 0 two_sessions)"
    "unat (5 :: u64) \<le> sum_list (take n [8, 16]) \<or> n = length (kc_lru_order two_sessions)"
    "\<forall>m < n. sum_list (take m [8, 16]) < unat (5 :: u64)"
    using kv_eviction_minimal [OF two_sessions_ok(1), of 5] two_sessions_ok(2) by auto
  have "n \<noteq> 0" using n(2) by (cases n) (auto simp: two_sessions_eq)
  moreover have "\<not> 1 < n" using n(3) by (auto dest: spec [of _ 1])
  ultimately show ?thesis using n(1) by (intro exI [of _ n]) auto
qed

lemma total_lru_sizes:
  assumes "kv_ok kc"
  shows "sum_list (lru_sizes kc) = sum_list (map (\<lambda>e. unat (ke_memory_bytes (snd e))) (kc_caches kc))"
proof -
  let ?g = "\<lambda>sid. unat (ke_memory_bytes (the (map_of (kc_caches kc) sid)))"
  have d: "distinct (am_keys (kc_caches kc))" using assms by (simp add: kv_ok_def am_ok_def)
  have "sum_list (lru_sizes kc) = sum ?g (set (kc_lru_order kc))"
    using assms by (simp add: lru_sizes_def kv_ok_def sum_list_distinct_conv_sum_set)
  also have "\<dots> = sum_list (map ?g (am_keys (kc_caches kc)))"
    using assms d by (simp add: kv_ok_def sum_list_distinct_conv_sum_set)
  also have "\<dots> = sum_list (map (\<lambda>e. unat (ke_memory_bytes (snd e))) (kc_caches kc))"
    using d
    by (intro arg_cong [where f = sum_list])
      (auto simp: am_keys_def comp_def dest: map_of_is_SomeI)
  finally show ?thesis .
qed

definition kv_bytes :: "kv_cache_manager \<Rightarrow> nat" where
  "kv_bytes kc = sum_list (map (\<lambda>e. unat (ke_memory_bytes (snd e))) (kc_caches kc))"

lemma kv_bytes_current:
  "kv_accounted kc \<Longrightarrow> kv_bytes kc < 2 ^ 64 \<Longrightarrow> unat (kc_current_bytes kc) = kv_bytes kc"
  using unat_sum_list [of "map (\<lambda>e. ke_memory_bytes (snd e)) (kc_caches kc)"]
  by (simp add: kv_accounted_def kv_total_def am_total_def kv_bytes_def comp_def)

lemma evicted_prefix_bytes:
  assumes "kv_ok kc" and "evicted_prefix n kc kc'"
  shows "kv_bytes kc' = sum_list (drop n (lru_sizes kc))"
proof -
  let ?P = "\<lambda>e. fst e \<notin> set (take n (kc_lru_order kc))"
  have lru: "kc_lru_order kc' = drop n (kc_lru_order kc)"
    and caches: "kc_caches kc' = filter ?P (kc_caches kc)"
    using assms(2) by (simp_all add: evicted_prefix_def)
  have dist: "distinct (kc_lru_order kc)" using assms(1) by (simp add: kv_ok_def)
  then have split: "set (take n (kc_lru_order kc)) \<inter> set (drop n (kc_lru_order kc)) = {}"
    by (simp add: set_take_disj_set_drop_if_distinct)
  have keys: "am_keys (kc_caches kc') =
      filter (\<lambda>i. i \<notin> set (take n (kc_lru_order kc))) (am_keys (kc_caches kc))"
    by (simp add: caches am_keys_def filter_map comp_def)
  have "set (am_keys (kc_caches kc)) = set (take n (kc_lru_order kc)) \<union> set (drop n (kc_lru_order kc))"
    using assms(1) by (metis append_take_drop_id kv_ok_def set_append)
  with assms(1) split keys dist have ok: "kv_ok kc'"
    by (auto simp: kv_ok_def am_ok_def lru)
  have "map_of (kc_caches kc') i = map_of (kc_caches kc) i" if "i \<in> set (kc_lru_order kc')" for i
    using that split unfolding caches lru
    by (intro map_of_filter_key [where P = "\<lambda>i. i \<notin> set (take n (kc_lru_order kc))"]) auto
  then have "lru_sizes kc' = drop n (lru_sizes kc)"
    by (simp add: lru_sizes_def lru drop_map)
  then show ?thesis using total_lru_sizes [OF ok] by (simp add: kv_bytes_def)
qed

lemma evict_if_needed_bytes:
  assumes ok: "kv_ok kc" and acc: "kv_accounted kc"
    and small: "kv_bytes kc \<le> unat (kc_max_bytes kc)" "unat b \<le> unat (kc_max_bytes kc)"
    and fits: "unat (kc_max_bytes kc) + unat b < 2 ^ 64"
  shows "kv_bytes (evict_if_needed b kc) + unat b \<le> unat (kc_max_bytes kc) \<and>
         kc_max_bytes (evict_if_needed b kc) = kc_max_bytes kc"
proof -
  let ?cur = "kc_current_bytes kc" and ?max = "kc_max_bytes kc"
  have cur: "unat ?cur = kv_bytes kc" using kv_bytes_current [OF acc] small fits by linarith
  then have sum: "unat (?cur + b) = kv_bytes kc + unat b"
    using small fits by (simp add: unat_word_ariths)
  show ?thesis
  proof (cases "?cur + b \<le> ?max")
    case True
    then show ?thesis using sum by (simp add: evict_if_needed_def word_le_nat_alt)
  next
    case False
    then have need: "unat (?cur + b - ?max) = kv_bytes kc + unat b - unat ?max"
      using sum by (simp add: unat_sub word_le_nat_alt)
    have total: "sum_list (lru_sizes kc) = kv_bytes kc"
      using total_lru_sizes [OF ok] by (simp add: kv_bytes_def)
    obtain n where n: "evicted_prefix n kc (evict_loop (?cur + b - ?max) 0 kc)"
      "unat (?cur + b - ?max) \<le> sum_list (take n (lru_sizes kc)) \<or> n = length (kc_lru_order kc)"
      using evict_loop_prefix [OF ok, of 0 "?cur + b - ?max"] small fits total by auto
    have "sum_list (take n (lru_sizes kc)) + sum_list (drop n (lru_sizes kc)) = kv_bytes kc"
      by (metis append_take_drop_id sum_list_append total)
    moreover have "length (lru_sizes kc) = length (kc_lru_order kc)" by (simp add: lru_sizes_def)
    ultimately show ?thesis
      using n need False small evicted_prefix_bytes [OF ok n(1)]
      by (auto simp: evict_if_needed_def Let_def evicted_prefix_def)
  qed
qed

text \<open>
  The cache keeps to its memory limit: when the cached sessions are within the limit,
  and the new session alone fits into it, then after creating the session the cached bytes
  are within the limit again, the counter shows them, and the session is cached, provided
  the limit and the new size do not overflow together.
\<close>

theorem kv_cache_bounded:
  assumes "kv_ok kc" and "kv_accounted kc" and "map_of (kc_caches kc) sid = None"
    and "kv_bytes kc \<le> unat (kc_max_bytes kc)"
    and "b = ke_memory_bytes (kv_entry_new now sid len (kc_hidden_size kc) (kc_num_layers kc))"
    and "unat b \<le> unat (kc_max_bytes kc)" and "unat (kc_max_bytes kc) + unat b < 2 ^ 64"
    and "kc' = snd (get_or_create now sid len kc)"
  shows "kv_bytes kc' \<le> unat (kc_max_bytes kc) \<and> unat (kc_current_bytes kc') = kv_bytes kc' \<and>
         map_of (kc_caches kc') sid = Some (fst (get_or_create now sid len kc))"
proof -
  let ?kc = "kc\<lparr>kc_misses := kc_misses kc + 1\<rparr>"
  let ?e = "kv_entry_new now sid len (kc_hidden_size kc) (kc_num_layers kc)"
  let ?kc1 = "evict_if_needed b ?kc"
  have q: "kv_quiet kc ?kc" by (simp add: kv_quiet_def)
  have ok: "kv_ok ?kc" "kv_accounted ?kc" using assms(1,2) by (simp_all add: kv_quiet_keeps [OF q])
  have bytes: "kv_bytes ?kc1 + unat b \<le> unat (kc_max_bytes kc)" "kc_max_bytes ?kc1 = kc_max_bytes kc"
    using evict_if_needed_bytes [OF ok, of b] assms(4,6,7) by (simp_all add: kv_bytes_def)
  have "sid \<notin> set (am_keys (kc_caches ?kc1))"
    using assms(3) evict_loop_keys [OF ok(1)]
    by (simp add: evict_if_needed_def Let_def kv_lookup_None)
  then have rm: "am_remove sid (kc_caches ?kc1) = kc_caches ?kc1" by (rule am_remove_absent)
  have kc': "kc_caches kc' = am_insert sid ?e (kc_caches ?kc1)"
    "kc_max_bytes kc' = kc_max_bytes kc" "fst (get_or_create now sid len kc) = ?e"
    using assms(3,5,8) bytes(2) by (simp_all add: get_or_create_def Let_def)
  have "kv_bytes kc' = kv_bytes ?kc1 + unat b"
    unfolding kv_bytes_def kc'(1) am_insert_def rm by (simp flip: assms(5))
  moreover have "map_of (kc_caches kc') sid = Some ?e"
    using evict_if_needed_keeps(1) [OF ok, of b]
    by (simp add: kc' hash_map.lookup_insert kv_ok_def)
  moreover have "unat (kc_current_bytes kc') = kv_bytes kc'"
    using get_or_create_keeps [OF assms(1,2), of now sid len] assms(7,8) bytes calculation(1)
    by (intro kv_bytes_current) (auto simp: kc')
  ultimately show ?thesis using bytes by (simp add: kc')
qed

theorem kv_cache_bounded_witness:
  "kv_bytes (snd (get_or_create 3 ''c'' 1 two_sessions)) \<le> 24"
proof -
  have "kv_accounted two_sessions"
    by (simp add: kv_accounted_def kv_total_def two_sessions_eq kv_entry_new_def am_total_simps)
  moreover have "kc_hidden_size two_sessions = 1" "kc_num_layers two_sessions = 1"
    by (simp_all add: two_sessions_def get_or_create_def kv_cache_new_def evict_if_needed_def
        kv_entry_new_def am_insert_def am_remove_def Let_def)
  moreover have "map_of (kc_caches two_sessions) ''c'' = None" "kv_bytes two_sessions = 24"
    by (simp_all add: kv_bytes_def two_sessions_eq kv_entry_new_def)
  ultimately have "kv_bytes (snd (get_or_create 3 ''c'' 1 two_sessions)) \<le>
      unat (kc_max_bytes two_sessions)"
    using kv_cache_bounded [OF two_sessions_ok(1), of "''c''" 8 3 1] two_sessions_eq(4)
    by (simp add: kv_entry_new_def)
  then show ?thesis by (simp add: two_sessions_eq(4))
qed

end
