(* ===== verification/AdapterCache.thy ===== *)
theory AdapterCache
  imports AssocMap Floats
begin

text \<open>
  The hot adapter cache of the model server, \<open>crates/adapteros-model-server/src/adapter_cache.rs\<close>:
  loading with eviction of the least recently used adapter, unloading, access, fusion count
  and statistics. Each operation is one step; the clock is an argument; the iteration order
  of the map is the order of the list.
\<close>

section \<open>Adapters and the cache\<close>

record cached_adapter =
  ca_adapter_id :: u32
  ca_adapter_name :: string
  ca_lora_a :: "f32 list"
  ca_lora_b :: "f32 list"
  ca_scale :: f32
  ca_memory_bytes :: u64
  ca_loaded_at :: nat
  ca_last_used :: nat

definition cached_adapter_new ::
  "nat \<Rightarrow> u32 \<Rightarrow> string \<Rightarrow> f32 list \<Rightarrow> f32 list \<Rightarrow> f32 \<Rightarrow> cached_adapter" where
  "cached_adapter_new now aid name a b scale =
     \<lparr>ca_adapter_id = aid, ca_adapter_name = name, ca_lora_a = a, ca_lora_b = b, ca_scale = scale,
      ca_memory_bytes = of_nat (length a + length b) * 4, ca_loaded_at = now, ca_last_used = now\<rparr>"

definition adapter_touch :: "nat \<Rightarrow> cached_adapter \<Rightarrow> cached_adapter" where
  "adapter_touch now ca = ca\<lparr>ca_last_used := now\<rparr>"

record adapter_cache =
  ac_adapters :: "(u32 \<times> cached_adapter) list"
  ac_max_adapters :: nat
  ac_current_bytes :: u64
  ac_max_bytes :: "u64 option"
  ac_loads :: u64
  ac_unloads :: u64
  ac_fusions :: u64

definition adapter_cache_new :: "nat \<Rightarrow> u64 option \<Rightarrow> adapter_cache" where
  "adapter_cache_new max_adapters max_bytes =
     \<lparr>ac_adapters = [], ac_max_adapters = max_adapters, ac_current_bytes = 0,
      ac_max_bytes = max_bytes, ac_loads = 0, ac_unloads = 0, ac_fusions = 0\<rparr>"

definition adapter_unload :: "u32 \<Rightarrow> adapter_cache \<Rightarrow> u64 option \<times> adapter_cache" where
  "adapter_unload aid ac =
     (case map_of (ac_adapters ac) aid of
        Some ca \<Rightarrow>
          (Some (ca_memory_bytes ca),
           ac\<lparr>ac_adapters := am_remove aid (ac_adapters ac),
              ac_current_bytes := ac_current_bytes ac - ca_memory_bytes ca,
              ac_unloads := ac_unloads ac + 1\<rparr>)
      | None \<Rightarrow> (None, ac))"

text \<open>\<open>min_by\<close> on the time of last use: the first of the minimal entries.\<close>

fun lru_entry :: "(u32 \<times> cached_adapter) list \<Rightarrow> (u32 \<times> cached_adapter) option" where
  "lru_entry [] = None"
| "lru_entry (e # m) =
     (case lru_entry m of
        None \<Rightarrow> Some e
      | Some f \<Rightarrow> if ca_last_used (snd e) \<le> ca_last_used (snd f) then Some e else Some f)"

definition evict_lru :: "adapter_cache \<Rightarrow> u32 option \<times> adapter_cache" where
  "evict_lru ac =
     (case lru_entry (ac_adapters ac) of
        Some e \<Rightarrow> (Some (fst e), snd (adapter_unload (fst e) ac))
      | None \<Rightarrow> (None, ac))"

definition make_memory_room ::
  "u32 \<Rightarrow> u64 \<Rightarrow> adapter_cache \<Rightarrow> (string, adapter_cache) result" where
  "make_memory_room aid memory_bytes ac =
     (case ac_max_bytes ac of
        Some limit \<Rightarrow>
          (if ac_current_bytes ac + memory_bytes > limit then
             (case evict_lru ac of
                (Some _, ac') \<Rightarrow> Ok ac'
              | (None, _) \<Rightarrow>
                  Err (''Cannot load adapter '' @ show_nat (unat aid) @
                       '': memory limit exceeded ('' @ show_nat (unat limit) @ '' bytes)''))
           else Ok ac)
      | None \<Rightarrow> Ok ac)"

definition make_slot :: "u32 \<Rightarrow> adapter_cache \<Rightarrow> (string, adapter_cache) result" where
  "make_slot aid ac =
     (if length (ac_adapters ac) \<ge> ac_max_adapters ac then
        (case evict_lru ac of
           (Some _, ac') \<Rightarrow> Ok ac'
         | (None, _) \<Rightarrow>
             Err (''Cannot load adapter '' @ show_nat (unat aid) @ '': max adapters ('' @
                  show_nat (ac_max_adapters ac) @ '') reached''))
      else Ok ac)"

definition insert_adapter :: "cached_adapter \<Rightarrow> adapter_cache \<Rightarrow> adapter_cache" where
  "insert_adapter ca ac =
     ac\<lparr>ac_adapters := am_insert (ca_adapter_id ca) ca (ac_adapters ac),
        ac_current_bytes := ac_current_bytes ac + ca_memory_bytes ca,
        ac_loads := ac_loads ac + 1\<rparr>"

text \<open>On an error after an eviction the eviction has happened, so the cache is returned too.\<close>

definition adapter_load ::
  "nat \<Rightarrow> u32 \<Rightarrow> string \<Rightarrow> f32 list \<Rightarrow> f32 list \<Rightarrow> f32 \<Rightarrow> adapter_cache \<Rightarrow>
   (string, u32 option) result \<times> adapter_cache" where
  "adapter_load now aid name a b scale ac =
     (if map_of (ac_adapters ac) aid \<noteq> None then (Ok None, ac)
      else
        (let ca = cached_adapter_new now aid name a b scale in
         case make_memory_room aid (ca_memory_bytes ca) ac of
           Err msg \<Rightarrow> (Err msg, ac)
         | Ok ac1 \<Rightarrow>
             (case make_slot aid ac1 of
                Err msg \<Rightarrow> (Err msg, ac1)
              | Ok ac2 \<Rightarrow> (Ok None, insert_adapter ca ac2))))"

definition adapter_get ::
  "nat \<Rightarrow> u32 \<Rightarrow> adapter_cache \<Rightarrow> cached_adapter option \<times> adapter_cache" where
  "adapter_get now aid ac =
     (case map_of (ac_adapters ac) aid of
        Some ca \<Rightarrow>
          (Some (adapter_touch now ca),
           ac\<lparr>ac_adapters := am_update (adapter_touch now) aid (ac_adapters ac)\<rparr>)
      | None \<Rightarrow> (None, ac))"

fun adapter_get_many ::
  "(nat \<times> u32) list \<Rightarrow> adapter_cache \<Rightarrow> cached_adapter list \<times> adapter_cache" where
  "adapter_get_many [] ac = ([], ac)"
| "adapter_get_many ((now, aid) # aids) ac =
     (let (found, ac1) = adapter_get now aid ac; (rest, ac2) = adapter_get_many aids ac1 in
      (case found of Some ca \<Rightarrow> ca # rest | None \<Rightarrow> rest, ac2))"

definition record_fusion :: "adapter_cache \<Rightarrow> adapter_cache" where
  "record_fusion ac = ac\<lparr>ac_fusions := ac_fusions ac + 1\<rparr>"

definition adapter_clear :: "adapter_cache \<Rightarrow> adapter_cache" where
  "adapter_clear ac = ac\<lparr>ac_adapters := [], ac_current_bytes := 0\<rparr>"

section \<open>Correctness\<close>

inductive adapter_step :: "adapter_cache \<Rightarrow> adapter_cache \<Rightarrow> bool" where
  as_load: "adapter_step ac (snd (adapter_load now aid name a b scale ac))"
| as_unload: "adapter_step ac (snd (adapter_unload aid ac))"
| as_get: "adapter_step ac (snd (adapter_get now aid ac))"
| as_fusion: "adapter_step ac (record_fusion ac)"
| as_clear: "adapter_step ac (adapter_clear ac)"

definition adapters_ok :: "adapter_cache \<Rightarrow> bool" where
  "adapters_ok ac \<longleftrightarrow> am_ok (ac_adapters ac) \<and> length (ac_adapters ac) \<le> ac_max_adapters ac"

definition adapters_accounted :: "adapter_cache \<Rightarrow> bool" where
  "adapters_accounted ac \<longleftrightarrow> ac_current_bytes ac = am_total ca_memory_bytes (ac_adapters ac)"

definition adapters_inv :: "adapter_cache \<Rightarrow> bool" where
  "adapters_inv ac \<longleftrightarrow> adapters_ok ac \<and> adapters_accounted ac"

lemma lru_entry_in: "lru_entry m = Some e \<Longrightarrow> e \<in> set m"
  by (induction m arbitrary: e) (auto split: option.splits if_splits)

lemma lru_entry_None [simp]: "lru_entry m = None \<longleftrightarrow> m = []"
  by (cases m) (auto split: option.splits)

lemma lru_entry_min:
  "lru_entry m = Some e \<Longrightarrow> f \<in> set m \<Longrightarrow> ca_last_used (snd e) \<le> ca_last_used (snd f)"
  by (induction m arbitrary: e) (auto split: option.splits if_splits intro: order_trans)

lemma adapter_unload_inv:
  assumes "adapters_inv ac" shows "adapters_inv (snd (adapter_unload aid ac))"
proof (cases "map_of (ac_adapters ac) aid")
  case (Some ca)
  have "length (am_remove aid (ac_adapters ac)) \<le> length (ac_adapters ac)"
    by (simp add: am_remove_def)
  with Some assms show ?thesis
    by (auto simp: adapters_inv_def adapters_ok_def adapters_accounted_def adapter_unload_def
        am_total_remove hash_map.ok_remove)
qed (use assms in \<open>simp add: adapter_unload_def\<close>)

lemma evict_lru_some:
  assumes "adapters_inv ac" and "ac_adapters ac \<noteq> []"
  obtains e where "evict_lru ac = (Some (fst e), snd (adapter_unload (fst e) ac))"
    and "map_of (ac_adapters ac) (fst e) = Some (snd e)"
    and "\<And>f. f \<in> set (ac_adapters ac) \<Longrightarrow> ca_last_used (snd e) \<le> ca_last_used (snd f)"
proof -
  from assms(2) obtain e where e: "lru_entry (ac_adapters ac) = Some e"
    by (cases "lru_entry (ac_adapters ac)") auto
  show thesis
  proof (rule that)
    show "evict_lru ac = (Some (fst e), snd (adapter_unload (fst e) ac))"
      by (simp add: evict_lru_def e)
    show "map_of (ac_adapters ac) (fst e) = Some (snd e)"
      using lru_entry_in [OF e] assms(1) hash_map.entry_lookup [of "ac_adapters ac" "fst e" "snd e"]
      by (simp add: adapters_inv_def adapters_ok_def)
    show "ca_last_used (snd e) \<le> ca_last_used (snd f)" if "f \<in> set (ac_adapters ac)" for f
      using lru_entry_min [OF e that] .
  qed
qed

lemma unload_fields:
  assumes "am_ok (ac_adapters ac)" and "map_of (ac_adapters ac) aid = Some ca"
  shows "ac_adapters (snd (adapter_unload aid ac)) = am_remove aid (ac_adapters ac)"
    "length (am_remove aid (ac_adapters ac)) < length (ac_adapters ac)"
    "ac_max_adapters (snd (adapter_unload aid ac)) = ac_max_adapters ac"
    "ac_max_bytes (snd (adapter_unload aid ac)) = ac_max_bytes ac"
    "ac_current_bytes (snd (adapter_unload aid ac)) = ac_current_bytes ac - ca_memory_bytes ca"
proof -
  have "(aid, ca) \<in> set (ac_adapters ac)" using assms(2) by (rule map_of_SomeD)
  then show "length (am_remove aid (ac_adapters ac)) < length (ac_adapters ac)"
    unfolding am_remove_def by (rule length_filter_less) simp
qed (use assms(2) in \<open>simp_all add: adapter_unload_def\<close>)

text \<open>What the two preparation steps of a load leave of the cache.\<close>

definition reduced :: "adapter_cache \<Rightarrow> adapter_cache \<Rightarrow> bool" where
  "reduced ac ac' \<longleftrightarrow> adapters_inv ac' \<and> ac_max_adapters ac' = ac_max_adapters ac \<and>
     ac_max_bytes ac' = ac_max_bytes ac \<and> set (ac_adapters ac') \<subseteq> set (ac_adapters ac)"

lemma evict_lru_reduced:
  assumes "adapters_inv ac" and "ac_adapters ac \<noteq> []"
  shows "\<exists>aid ac'. evict_lru ac = (Some aid, ac') \<and> reduced ac ac' \<and>
    length (ac_adapters ac') < length (ac_adapters ac)"
proof -
  obtain e where e: "evict_lru ac = (Some (fst e), snd (adapter_unload (fst e) ac))"
    "map_of (ac_adapters ac) (fst e) = Some (snd e)"
    by (rule evict_lru_some [OF assms])
  have ok: "am_ok (ac_adapters ac)" using assms(1) by (simp add: adapters_inv_def adapters_ok_def)
  show ?thesis
    using e(1) unload_fields [OF ok e(2)] adapter_unload_inv [OF assms(1), of "fst e"]
    by (auto simp: reduced_def am_remove_def)
qed

lemma evict_lru_empty: "ac_adapters ac = [] \<Longrightarrow> evict_lru ac = (None, ac)"
  by (simp add: evict_lru_def)

lemma reduced_refl: "adapters_inv ac \<Longrightarrow> reduced ac ac"
  by (simp add: reduced_def)

lemma reduced_trans: "reduced ac ac1 \<Longrightarrow> reduced ac1 ac2 \<Longrightarrow> reduced ac ac2"
  by (auto simp: reduced_def)

lemma make_memory_room_reduced:
  assumes "adapters_inv ac" and "make_memory_room aid b ac = Ok ac1"
  shows "reduced ac ac1"
  using assms evict_lru_reduced [OF assms(1)]
  by (cases "ac_adapters ac = []")
    (auto simp: make_memory_room_def evict_lru_empty reduced_refl split: option.splits if_splits)

lemma make_slot_reduced:
  assumes "adapters_inv ac" and "make_slot aid ac = Ok ac1"
  shows "reduced ac ac1 \<and> length (ac_adapters ac1) < ac_max_adapters ac1"
  using assms evict_lru_reduced [OF assms(1)]
  by (cases "ac_adapters ac = []")
    (auto simp: make_slot_def evict_lru_empty reduced_refl reduced_def adapters_inv_def
      adapters_ok_def split: if_splits)

lemma insert_adapter_inv:
  assumes "adapters_inv ac" and "map_of (ac_adapters ac) (ca_adapter_id ca) = None"
    and "length (ac_adapters ac) < ac_max_adapters ac"
  shows "adapters_inv (insert_adapter ca ac)"
proof -
  have "am_remove (ca_adapter_id ca) (ac_adapters ac) = ac_adapters ac"
    using assms(2) by (intro am_remove_absent) (simp add: am_keys_def map_of_eq_None_iff)
  then show ?thesis
    using assms hash_map.ok_insert [of "ac_adapters ac" "ca_adapter_id ca" ca]
    by (simp add: adapters_inv_def adapters_ok_def adapters_accounted_def insert_adapter_def
        am_insert_def am_total_simps)
qed

lemma adapter_load_result:
  assumes "adapters_inv ac" and "map_of (ac_adapters ac) aid = None"
  shows "(\<exists>msg ac1. adapter_load now aid name a b scale ac = (Err msg, ac1) \<and> reduced ac ac1) \<or>
    (\<exists>ac2. adapter_load now aid name a b scale ac =
        (Ok None, insert_adapter (cached_adapter_new now aid name a b scale) ac2) \<and>
      reduced ac ac2 \<and> length (ac_adapters ac2) < ac_max_adapters ac2)"
proof -
  let ?b = "ca_memory_bytes (cached_adapter_new now aid name a b scale)"
  show ?thesis
  proof (cases "make_memory_room aid ?b ac")
    case (Inr ac1)
    then have red1: "reduced ac ac1" by (rule make_memory_room_reduced [OF assms(1)])
    then have inv1: "adapters_inv ac1" by (simp add: reduced_def)
    show ?thesis
    proof (cases "make_slot aid ac1")
      case (Inr ac2)
      then show ?thesis
        using make_slot_reduced [OF inv1 Inr] red1 assms \<open>make_memory_room aid ?b ac = Ok ac1\<close>
        by (auto simp: adapter_load_def Let_def intro: reduced_trans)
    qed (use red1 assms Inr in \<open>auto simp: adapter_load_def Let_def\<close>)
  qed (use assms in \<open>auto simp: adapter_load_def Let_def reduced_refl\<close>)
qed

lemma adapter_load_inv:
  assumes "adapters_inv ac"
  shows "adapters_inv (snd (adapter_load now aid name a b scale ac))"
proof (cases "map_of (ac_adapters ac) aid")
  case None
  from adapter_load_result [OF assms None, of now name a b scale] show ?thesis
    using None
    by (auto simp: cached_adapter_new_def intro!: insert_adapter_inv)
      (auto simp: reduced_def map_of_eq_None_iff)
qed (use assms in \<open>simp add: adapter_load_def\<close>)

lemma adapter_step_inv: "adapter_step ac ac' \<Longrightarrow> adapters_inv ac \<Longrightarrow> adapters_inv ac'"
proof (induction rule: adapter_step.induct)
  case (as_get ac now aid)
  then show ?case
    by (auto simp: adapter_get_def adapters_inv_def adapters_ok_def adapters_accounted_def
        am_ok_def am_keys_update am_total_update adapter_touch_def split: option.split)
      (simp_all add: am_update_def)
qed (simp_all add: adapter_load_inv adapter_unload_inv, simp_all add: record_fusion_def
    adapter_clear_def adapters_inv_def adapters_ok_def adapters_accounted_def am_ok_def am_total_simps)

interpretation adapter_accounting:
  accounted_cache ac_current_bytes "\<lambda>ac. map (\<lambda>e. ca_memory_bytes (snd e)) (ac_adapters ac)"
    adapters_inv adapter_step
  by unfold_locales
    (auto dest!: adapter_step_inv simp: adapters_inv_def adapters_accounted_def am_total_def)

text \<open>
  The adapter cache keeps its count limit and its accounting: after any sequence of
  loads, unloads, accesses and clearings it holds at most the configured number of
  adapters, each under one identifier, and the byte counter is the sum of their sizes.
\<close>

theorem adapter_cache_accounting:
  assumes "adapter_step\<^sup>*\<^sup>* (adapter_cache_new max_adapters max_bytes) ac"
  shows "length (ac_adapters ac) \<le> ac_max_adapters ac \<and> distinct (map fst (ac_adapters ac)) \<and>
         ac_current_bytes ac = sum_list (map (\<lambda>e. ca_memory_bytes (snd e)) (ac_adapters ac))"
proof -
  have "adapters_inv (adapter_cache_new max_adapters max_bytes)"
    by (simp add: adapters_inv_def adapters_ok_def adapters_accounted_def adapter_cache_new_def
        am_ok_def am_total_simps)
  then have "adapters_inv ac \<and>
      ac_current_bytes ac = sum_list (map (\<lambda>e. ca_memory_bytes (snd e)) (ac_adapters ac))"
    by (intro adapter_accounting.run_accounted [OF assms]) (simp_all add: adapter_cache_new_def)
  then show ?thesis by (simp add: adapters_inv_def adapters_ok_def am_ok_def am_keys_def)
qed

definition one_adapter :: adapter_cache where
  "one_adapter =
     snd (adapter_load 5 1 ''a'' [f32_0] [f32_0] f32_1 (adapter_cache_new 2 (Some 20)))"

lemma one_adapter_eq:
  "ac_adapters one_adapter = [(1, cached_adapter_new 5 1 ''a'' [f32_0] [f32_0] f32_1)]"
  "ac_max_adapters one_adapter = 2" "ac_current_bytes one_adapter = 8"
  "ac_max_bytes one_adapter = Some 20"
  by (simp_all add: one_adapter_def adapter_load_def adapter_cache_new_def cached_adapter_new_def
      make_memory_room_def make_slot_def insert_adapter_def am_insert_def am_remove_def Let_def)

theorem adapter_cache_accounting_witness:
  "length (ac_adapters one_adapter) \<le> 2 \<and>
   ac_current_bytes one_adapter =
     sum_list (map (\<lambda>e. ca_memory_bytes (snd e)) (ac_adapters one_adapter))"
proof -
  have "adapter_step\<^sup>*\<^sup>* (adapter_cache_new 2 (Some 20)) one_adapter"
    unfolding one_adapter_def by (rule r_into_rtranclp) (rule as_load)
  from adapter_cache_accounting [OF this] show ?thesis by (simp add: one_adapter_eq(2))
qed

text \<open>
  A load makes room by the least recently used adapter: without a byte limit, loading a
  new adapter into a full, non-empty cache succeeds, it removes one adapter that no cached
  adapter was used before, it keeps all others, and the new adapter can be found under its
  identifier.
\<close>

theorem adapter_load_evicts_lru:
  assumes "adapters_inv ac" and "map_of (ac_adapters ac) aid = None" and "ac_max_bytes ac = None"
    and "length (ac_adapters ac) = ac_max_adapters ac" and "ac_adapters ac \<noteq> []"
  shows "\<exists>victim \<in> set (ac_adapters ac).
    (\<forall>e \<in> set (ac_adapters ac). ca_last_used (snd victim) \<le> ca_last_used (snd e)) \<and>
    fst (adapter_load now aid name a b scale ac) = Ok None \<and>
    map_of (ac_adapters (snd (adapter_load now aid name a b scale ac))) =
      ((map_of (ac_adapters ac))(fst victim := None))
        (aid \<mapsto> cached_adapter_new now aid name a b scale)"
proof -
  obtain e where e: "evict_lru ac = (Some (fst e), snd (adapter_unload (fst e) ac))"
    "map_of (ac_adapters ac) (fst e) = Some (snd e)"
    "\<And>f. f \<in> set (ac_adapters ac) \<Longrightarrow> ca_last_used (snd e) \<le> ca_last_used (snd f)"
    by (rule evict_lru_some [OF assms(1,5)]) blast
  have ok: "am_ok (ac_adapters ac)" using assms(1) by (simp add: adapters_inv_def adapters_ok_def)
  have "e \<in> set (ac_adapters ac)" using map_of_SomeD [OF e(2)] by simp
  moreover have "adapter_load now aid name a b scale ac =
      (Ok None, insert_adapter (cached_adapter_new now aid name a b scale)
        (snd (adapter_unload (fst e) ac)))"
    using assms(2-4) e(1)
    by (simp add: adapter_load_def Let_def make_memory_room_def make_slot_def)
  moreover have "am_ok (am_remove (fst e) (ac_adapters ac))" by (rule hash_map.ok_remove [OF ok])
  ultimately show ?thesis
    using e(3) unload_fields(1) [OF ok e(2)]
    by (intro bexI [of _ e])
      (simp_all add: insert_adapter_def hash_map.lookup_insert hash_map.lookup_remove
        cached_adapter_new_def)
qed

definition full_cache :: adapter_cache where
  "full_cache = one_adapter\<lparr>ac_max_adapters := 1, ac_max_bytes := None\<rparr>"

lemma full_cache_inv: "adapters_inv full_cache"
  by (simp add: full_cache_def adapters_inv_def adapters_ok_def adapters_accounted_def
      one_adapter_eq am_ok_def am_total_simps cached_adapter_new_def)

theorem adapter_load_evicts_lru_witness:
  "fst (adapter_load 9 2 ''b'' [] [] f32_1 full_cache) = Ok None \<and>
   map_of (ac_adapters (snd (adapter_load 9 2 ''b'' [] [] f32_1 full_cache))) 1 = None"
proof -
  have "map_of (ac_adapters full_cache) 2 = None" "ac_max_bytes full_cache = None"
    "length (ac_adapters full_cache) = ac_max_adapters full_cache" "ac_adapters full_cache \<noteq> []"
    by (simp_all add: full_cache_def one_adapter_eq)
  from adapter_load_evicts_lru [OF full_cache_inv this, of 9 "''b''" "[]" "[]" f32_1]
  show ?thesis by (auto simp: full_cache_def one_adapter_eq)
qed

text \<open>
  The byte limit is not enforced: a load that exceeds it evicts one adapter only, and
  then stores the new adapter even when the bytes after that eviction still exceed the
  limit; it reports success and, against its documentation, no evicted identifier.
\<close>

theorem memory_limit_not_enforced:
  assumes "adapters_inv ac" and "map_of (ac_adapters ac) aid = None"
    and "ac_max_bytes ac = Some limit" and "lru_entry (ac_adapters ac) = Some victim"
    and "new = ca_memory_bytes (cached_adapter_new now aid name a b scale)"
    and "limit < ac_current_bytes ac + new"
    and "limit < ac_current_bytes ac - ca_memory_bytes (snd victim) + new"
  shows "fst (adapter_load now aid name a b scale ac) = Ok None \<and>
         ac_current_bytes (snd (adapter_load now aid name a b scale ac)) > limit"
proof -
  have ok: "am_ok (ac_adapters ac)" "length (ac_adapters ac) \<le> ac_max_adapters ac"
    using assms(1) by (simp_all add: adapters_inv_def adapters_ok_def)
  have "map_of (ac_adapters ac) (fst victim) = Some (snd victim)"
    using lru_entry_in [OF assms(4)] hash_map.entry_lookup [OF ok(1), of "fst victim" "snd victim"]
    by simp
  note f = unload_fields [OF ok(1) this]
  have "adapter_load now aid name a b scale ac =
      (Ok None, insert_adapter (cached_adapter_new now aid name a b scale)
        (snd (adapter_unload (fst victim) ac)))"
    using assms(2-6) f ok(2)
    by (simp add: adapter_load_def Let_def make_memory_room_def make_slot_def evict_lru_def)
  then show ?thesis using assms(5,7) f(5) by (simp add: insert_adapter_def)
qed

theorem memory_limit_not_enforced_witness:
  "ac_current_bytes (snd (adapter_load 9 2 ''b'' (replicate 100 f32_0) [] f32_1 one_adapter)) > 20"
proof -
  have "adapters_inv one_adapter"
    by (simp add: adapters_inv_def adapters_ok_def adapters_accounted_def one_adapter_eq am_ok_def
        am_total_simps cached_adapter_new_def)
  from memory_limit_not_enforced [OF this, of 2 20
      "(1, cached_adapter_new 5 1 ''a'' [f32_0] [f32_0] f32_1)" 400 9 "''b''" "replicate 100 f32_0"
      "[]" f32_1]
  show ?thesis by (simp add: one_adapter_eq cached_adapter_new_def)
qed

end
