(* ===== verification/TtlManager.thy ===== *)
theory TtlManager
  imports AssocMap
begin

text \<open>
  Expiry of ephemeral adapters, \<open>crates/adapteros-lora-lifecycle/src/ttl_manager.rs\<close>: tracking,
  extension, eviction in the order of the adapter identifiers, and the bounded audit log. A
  time is an integer number of nanoseconds. The arithmetic of the \<open>chrono\<close> crate is a
  parameter: \<open>ch_hours\<close> and \<open>ch_add\<close> give no value where the crate panics.
\<close>

section \<open>Records and the manager\<close>

record ttl_record =
  tl_adapter_id :: string
  tl_tenant_id :: string
  tl_expires_at :: int
  tl_ttl_hours :: u64
  tl_last_extension :: "int option"

record eviction_audit_entry =
  ev_adapter_id :: string
  ev_tenant_id :: string
  ev_evicted_at :: int
  ev_reason :: string

record ttl_manager =
  tm_records :: "(string \<times> ttl_record) list"
  tm_eviction_audit :: "eviction_audit_entry list"
  tm_audit_capacity :: nat

record chrono_ops =
  ch_hours :: "int \<Rightarrow> int option"
  ch_add :: "int \<Rightarrow> int \<Rightarrow> int option"

definition ttl_manager_new :: "nat \<Rightarrow> ttl_manager" where
  "ttl_manager_new audit_capacity =
     \<lparr>tm_records = [], tm_eviction_audit = [], tm_audit_capacity = audit_capacity\<rparr>"

definition ttl_track :: "int \<Rightarrow> ttl_record \<Rightarrow> ttl_manager \<Rightarrow> (string, unit) result \<times> ttl_manager" where
  "ttl_track now r tm =
     (if tl_expires_at r \<le> now then (Err ''Adapter pin TTL is in the past'', tm)
      else (Ok (), tm\<lparr>tm_records := bt_insert (tl_adapter_id r) r (tm_records tm)\<rparr>))"

text \<open>The value of \<open>additional_hours as i64\<close> and the two clock readings of the extension.\<close>

definition extended_record ::
  "chrono_ops \<Rightarrow> int \<Rightarrow> int \<Rightarrow> u64 \<Rightarrow> ttl_record \<Rightarrow> ttl_record option" where
  "extended_record ch now1 now2 additional_hours r =
     (case ch_hours ch 72 of None \<Rightarrow> None | Some limit \<Rightarrow>
      case ch_add ch now1 limit of None \<Rightarrow> None | Some max_expiry \<Rightarrow>
      case ch_hours ch (sint additional_hours) of None \<Rightarrow> None | Some d \<Rightarrow>
      case ch_add ch (tl_expires_at r) d of None \<Rightarrow> None | Some new_expiry \<Rightarrow>
        Some (r\<lparr>tl_expires_at := min new_expiry max_expiry, tl_last_extension := Some now2\<rparr>))"

definition extend_ttl ::
  "chrono_ops \<Rightarrow> int \<Rightarrow> int \<Rightarrow> string \<Rightarrow> u64 \<Rightarrow> ttl_manager \<Rightarrow> ttl_manager option" where
  "extend_ttl ch now1 now2 aid additional_hours tm =
     (case map_of (tm_records tm) aid of
        None \<Rightarrow> Some tm
      | Some r \<Rightarrow>
          map_option (\<lambda>r'. tm\<lparr>tm_records := am_update (\<lambda>_. r') aid (tm_records tm)\<rparr>)
            (extended_record ch now1 now2 additional_hours r))"

definition push_audit :: "eviction_audit_entry \<Rightarrow> ttl_manager \<Rightarrow> ttl_manager" where
  "push_audit entry tm =
     tm\<lparr>tm_eviction_audit :=
          (if length (tm_eviction_audit tm) = tm_audit_capacity tm
           then tl (tm_eviction_audit tm) else tm_eviction_audit tm) @ [entry]\<rparr>"

definition audit_entry_of :: "int \<Rightarrow> ttl_record \<Rightarrow> eviction_audit_entry" where
  "audit_entry_of now r =
     \<lparr>ev_adapter_id = tl_adapter_id r, ev_tenant_id = tl_tenant_id r, ev_evicted_at = now,
      ev_reason = ''ttl_expired''\<rparr>"

fun evict_ids ::
  "int \<Rightarrow> string list \<Rightarrow> ttl_manager \<Rightarrow> eviction_audit_entry list \<times> ttl_manager" where
  "evict_ids now [] tm = ([], tm)"
| "evict_ids now (aid # aids) tm =
     (case map_of (tm_records tm) aid of
        Some r \<Rightarrow>
          (let entry = audit_entry_of now r;
               (es, tm') = evict_ids now aids
                 (push_audit entry (tm\<lparr>tm_records := am_remove aid (tm_records tm)\<rparr>)) in
           (entry # es, tm'))
      | None \<Rightarrow> evict_ids now aids tm)"

definition evict_expired :: "int \<Rightarrow> ttl_manager \<Rightarrow> eviction_audit_entry list \<times> ttl_manager" where
  "evict_expired now tm =
     evict_ids now
       (map fst (filter (\<lambda>e. tl_expires_at (snd e) \<le> now) (tm_records tm))) tm"

definition active_records :: "ttl_manager \<Rightarrow> ttl_record list" where
  "active_records tm = map snd (tm_records tm)"

section \<open>Correctness\<close>

subsection \<open>The manager's invariant\<close>

text \<open>Records are sorted by identifier and stored under their own identifier.\<close>

definition ttl_ok :: "ttl_manager \<Rightarrow> bool" where
  "ttl_ok tm \<longleftrightarrow> bt_ok (tm_records tm) \<and> list_all (\<lambda>e. tl_adapter_id (snd e) = fst e) (tm_records tm) \<and>
     (0 < tm_audit_capacity tm \<longrightarrow> length (tm_eviction_audit tm) \<le> tm_audit_capacity tm)"

lemma set_bt_insert: "set (bt_insert k v m) \<subseteq> insert (k, v) (set m)"
  by (induction m) auto

lemma ttl_track_ok: "ttl_ok tm \<Longrightarrow> ttl_ok (snd (ttl_track now r tm))"
  using set_bt_insert [of "tl_adapter_id r" r "tm_records tm"]
  by (auto simp: ttl_ok_def ttl_track_def bt_insert_ok list_all_iff)

lemma extended_record_id:
  "extended_record ch n1 n2 h r = Some r' \<Longrightarrow> tl_adapter_id r' = tl_adapter_id r"
  by (auto simp: extended_record_def split: option.splits)

lemma extend_ttl_ok:
  assumes "ttl_ok tm" and "extend_ttl ch n1 n2 aid h tm = Some tm'"
  shows "ttl_ok tm'"
proof (cases "map_of (tm_records tm) aid")
  case (Some r)
  with assms(2) obtain r' where r': "extended_record ch n1 n2 h r = Some r'"
    "tm' = tm\<lparr>tm_records := am_update (\<lambda>_. r') aid (tm_records tm)\<rparr>"
    by (auto simp: extend_ttl_def)
  have "tl_adapter_id r = aid"
    using assms(1) map_of_SomeD [OF Some] by (auto simp: ttl_ok_def list_all_iff)
  then have "list_all (\<lambda>e. tl_adapter_id (snd e) = fst e)
      (am_update (\<lambda>_. r') aid (tm_records tm))"
    using assms(1) extended_record_id [OF r'(1)]
    by (auto simp: ttl_ok_def list_all_iff am_update_def)
  with r'(2) assms(1) show ?thesis by (simp add: ttl_ok_def bt_ok_def am_keys_update)
qed (use assms in \<open>simp add: extend_ttl_def\<close>)

text \<open>Pushing entries keeps the newest ones, as many as the capacity.\<close>

definition newest :: "nat \<Rightarrow> 'a list \<Rightarrow> 'a list" where
  "newest c xs = drop (length xs - c) xs"

lemma length_newest [simp]: "length (newest c xs) = min c (length xs)"
  by (auto simp: newest_def)

lemma newest_append: "newest c (newest c xs @ ys) = newest c (xs @ ys)"
proof (cases "length xs \<le> c")
  case False
  then have "length (newest c xs @ ys) - c = length ys"
    and "length (xs @ ys) - c = length ys + (length xs - c)" by simp_all
  with False show ?thesis
    by (cases "length ys \<le> c") (simp_all add: newest_def)
qed (simp add: newest_def)

lemma push_audit_newest:
  assumes "0 < tm_audit_capacity tm"
    and "length (tm_eviction_audit tm) \<le> tm_audit_capacity tm"
  shows "tm_eviction_audit (push_audit e tm) = newest (tm_audit_capacity tm) (tm_eviction_audit tm @ [e])"
  using assms by (cases "tm_eviction_audit tm") (auto simp: push_audit_def newest_def)

lemma push_audit_fields [simp]:
  "tm_audit_capacity (push_audit e tm) = tm_audit_capacity tm"
  "tm_records (push_audit e tm) = tm_records tm"
  by (simp_all add: push_audit_def)

lemma fold_push_audit:
  "0 < tm_audit_capacity tm \<Longrightarrow> length (tm_eviction_audit tm) \<le> tm_audit_capacity tm \<Longrightarrow>
   tm_eviction_audit (fold push_audit es tm) =
     newest (tm_audit_capacity tm) (tm_eviction_audit tm @ es)"
proof (induction es arbitrary: tm)
  case (Cons e es)
  note log = push_audit_newest [OF Cons.prems, of e]
  with Cons.IH [of "push_audit e tm"] Cons.prems show ?case
    using newest_append [of "tm_audit_capacity tm" "tm_eviction_audit tm @ [e]" es] by simp
qed (simp add: newest_def)

lemma push_audit_records:
  "push_audit e (t\<lparr>tm_records := m\<rparr>) = (push_audit e t)\<lparr>tm_records := m\<rparr>"
  by (simp add: push_audit_def)

lemma fold_push_records:
  "fold push_audit es (t\<lparr>tm_records := m\<rparr>) = (fold push_audit es t)\<lparr>tm_records := m\<rparr>"
  by (induction es arbitrary: t) (simp_all add: push_audit_records)

lemma evict_ids_eq:
  "distinct aids \<Longrightarrow> \<forall>aid \<in> set aids. map_of (tm_records tm) aid \<noteq> None \<Longrightarrow>
   let es = map (\<lambda>aid. audit_entry_of now (the (map_of (tm_records tm) aid))) aids in
   evict_ids now aids tm =
     (es, (fold push_audit es tm)
            \<lparr>tm_records := filter (\<lambda>e. fst e \<notin> set aids) (tm_records tm)\<rparr>)"
proof (induction aids arbitrary: tm)
  case (Cons aid aids)
  then obtain r where r: "map_of (tm_records tm) aid = Some r" by auto
  let ?e = "audit_entry_of now r"
  let ?tm = "push_audit ?e (tm\<lparr>tm_records := am_remove aid (tm_records tm)\<rparr>)"
  have look: "map_of (tm_records ?tm) i = map_of (tm_records tm) i" if "i \<in> set aids" for i
    using that Cons.prems(1) by (auto simp: hash_map.lookup_remove)
  from Cons.IH [of ?tm] Cons.prems look have "evict_ids now aids ?tm =
     (map (\<lambda>aid. audit_entry_of now (the (map_of (tm_records tm) aid))) aids,
      (fold push_audit (map (\<lambda>aid. audit_entry_of now (the (map_of (tm_records tm) aid))) aids) ?tm)
        \<lparr>tm_records := filter (\<lambda>e. fst e \<notin> set aids) (am_remove aid (tm_records tm))\<rparr>)"
    by (simp add: Let_def cong: map_cong)
  then show ?case
    using r by (auto simp: Let_def push_audit_records fold_push_records am_remove_def intro!: arg_cong [where f = "\<lambda>p. filter p _"])
qed simp

lemma evict_expired_result:
  assumes "ttl_ok tm" and "0 < tm_audit_capacity tm"
  shows "fst (evict_expired now tm) =
      map (audit_entry_of now) (filter (\<lambda>r. tl_expires_at r \<le> now) (active_records tm)) \<and>
    tm_records (snd (evict_expired now tm)) =
      filter (\<lambda>e. now < tl_expires_at (snd e)) (tm_records tm) \<and>
    tm_eviction_audit (snd (evict_expired now tm)) =
      newest (tm_audit_capacity tm) (tm_eviction_audit tm @ fst (evict_expired now tm)) \<and>
    sorted (map ev_adapter_id (fst (evict_expired now tm)))"
proof -
  let ?exp = "filter (\<lambda>e. tl_expires_at (snd e) \<le> now) (tm_records tm)"
  let ?es = "map (\<lambda>e. audit_entry_of now (snd e)) ?exp"
  have ok: "bt_ok (tm_records tm)" using assms(1) by (simp add: ttl_ok_def)
  have dist: "distinct (map fst (tm_records tm))" by (rule btree_map.ok_distinct [OF ok])
  have look: "map_of (tm_records tm) (fst e) = Some (snd e)" if "e \<in> set (tm_records tm)" for e
    using that btree_map.entry_lookup [OF ok, of "fst e" "snd e"] by simp
  have gone: "fst e \<in> fst ` set ?exp \<longleftrightarrow> tl_expires_at (snd e) \<le> now" if "e \<in> set (tm_records tm)" for e
    using that look by (force dest: look)
  have d: "distinct (map fst ?exp)" by (rule distinct_map_filter [OF dist])
  have l: "\<forall>aid \<in> set (map fst ?exp). map_of (tm_records tm) aid \<noteq> None"
    using look by auto
  have esq: "map (\<lambda>aid. audit_entry_of now (the (map_of (tm_records tm) aid))) (map fst ?exp) = ?es"
    using look by auto
  have eq: "evict_expired now tm = (?es, (fold push_audit ?es tm)
      \<lparr>tm_records := filter (\<lambda>e. fst e \<notin> fst ` set ?exp) (tm_records tm)\<rparr>)"
    using evict_ids_eq [OF d l, of now] unfolding Let_def esq set_map evict_expired_def .
  have "sorted (map ev_adapter_id ?es)"
  proof -
    have "map ev_adapter_id ?es = map fst ?exp"
      using assms(1) by (auto simp: ttl_ok_def list_all_iff audit_entry_of_def)
    moreover have "sorted_wrt (<) (map fst ?exp)"
      using ok by (simp add: bt_ok_def am_keys_def sorted_wrt_map sorted_wrt_filter)
    ultimately show ?thesis by (metis strict_sorted_imp_sorted)
  qed
  moreover have "filter (\<lambda>e. fst e \<notin> fst ` set ?exp) (tm_records tm) =
      filter (\<lambda>e. now < tl_expires_at (snd e)) (tm_records tm)"
    by (rule filter_cong [OF refl]) (metis gone not_le)
  moreover have "?es = map (audit_entry_of now)
      (filter (\<lambda>r. tl_expires_at r \<le> now) (active_records tm))"
    by (simp add: active_records_def filter_map comp_def)
  ultimately show ?thesis
    using assms fold_push_audit [of tm ?es] by (simp add: eq ttl_ok_def)
qed

lemmas evict_expired_records = evict_expired_result [THEN conjunct2, THEN conjunct1]

text \<open>
  Expired adapters are evicted, all of them and no others, in the order of their
  identifiers: the pass returns one entry per expired record, keeps the unexpired records
  unchanged, and the audit log holds the newest entries up to its capacity.
\<close>

theorem evict_expired_complete:
  assumes "ttl_ok tm" and "0 < tm_audit_capacity tm"
  shows "fst (evict_expired now tm) =
      map (audit_entry_of now) (filter (\<lambda>r. tl_expires_at r \<le> now) (active_records tm)) \<and>
    tm_records (snd (evict_expired now tm)) =
      filter (\<lambda>e. now < tl_expires_at (snd e)) (tm_records tm) \<and>
    tm_eviction_audit (snd (evict_expired now tm)) =
      newest (tm_audit_capacity tm) (tm_eviction_audit tm @ fst (evict_expired now tm)) \<and>
    sorted (map ev_adapter_id (fst (evict_expired now tm)))"
  by (rule evict_expired_result [OF assms])

definition ttl_hour :: int where
  "ttl_hour = 3600 * 1000000000"

definition sample_chrono :: chrono_ops where
  "sample_chrono = \<lparr>ch_hours = (\<lambda>h. Some (h * ttl_hour)), ch_add = (\<lambda>t d. Some (t + d))\<rparr>"

lemma sample_chrono_ok:
  "ch_hours sample_chrono 72 = Some (72 * ttl_hour)"
  "ch_add sample_chrono t d = Some u \<Longrightarrow> u = t + d"
  by (simp_all add: sample_chrono_def)

definition sample_ttl :: "string \<Rightarrow> int \<Rightarrow> ttl_record" where
  "sample_ttl aid t = \<lparr>tl_adapter_id = aid, tl_tenant_id = ''t'', tl_expires_at = t,
     tl_ttl_hours = 1, tl_last_extension = None\<rparr>"

definition sample_ttl_manager :: ttl_manager where
  "sample_ttl_manager =
     snd (ttl_track 0 (sample_ttl ''a'' 50) (snd (ttl_track 0 (sample_ttl ''b'' 10)
       (ttl_manager_new 4))))"

lemma sample_ttl_manager_ok: "ttl_ok sample_ttl_manager"
  unfolding sample_ttl_manager_def
  by (intro ttl_track_ok) (simp add: ttl_ok_def ttl_manager_new_def bt_ok_def)

theorem evict_expired_complete_witness:
  "fst (evict_expired 20 sample_ttl_manager) = [audit_entry_of 20 (sample_ttl ''b'' 10)] \<and>
   sorted (map ev_adapter_id (fst (evict_expired 20 sample_ttl_manager)))"
proof -
  have "0 < tm_audit_capacity sample_ttl_manager"
    by (simp add: sample_ttl_manager_def ttl_track_def ttl_manager_new_def sample_ttl_def)
  from evict_expired_complete [OF sample_ttl_manager_ok this, of 20] show ?thesis
    by (auto simp: sample_ttl_manager_def ttl_track_def ttl_manager_new_def sample_ttl_def
        active_records_def)
qed

subsection \<open>Lifetimes\<close>

text \<open>
  An extension is bounded: however many hours are added, an extended record expires at
  most 72 hours after the extension, so a pass at any later time evicts it.
\<close>

theorem extension_bounded:
  assumes "ttl_ok tm" and "0 < tm_audit_capacity tm"
    and "map_of (tm_records tm) aid = Some r"
    and "extend_ttl ch now1 now2 aid hours tm = Some tm'"
    and "ch_hours ch 72 = Some (72 * ttl_hour)"
    and "\<And>t d u. ch_add ch t d = Some u \<Longrightarrow> u = t + d"
    and "now1 + 72 * ttl_hour \<le> later"
  shows "\<exists>r'. map_of (tm_records tm') aid = Some r' \<and> tl_expires_at r' \<le> now1 + 72 * ttl_hour \<and>
         map_of (tm_records (snd (evict_expired later tm'))) aid = None"
proof -
  from assms(3,4) obtain r' where r': "extended_record ch now1 now2 hours r = Some r'"
    and tm': "tm' = tm\<lparr>tm_records := am_update (\<lambda>_. r') aid (tm_records tm)\<rparr>"
    by (auto simp: extend_ttl_def)
  have le: "tl_expires_at r' \<le> now1 + 72 * ttl_hour"
    using r' assms(5,6) by (auto simp: extended_record_def split: option.splits)
  have look: "map_of (tm_records tm') aid = Some r'"
    using assms(3) by (simp add: tm' lookup_am_update)
  have ok: "ttl_ok tm'" by (rule extend_ttl_ok [OF assms(1,4)])
  have "tm_records (snd (evict_expired later tm')) =
      filter (\<lambda>e. later < tl_expires_at (snd e)) (tm_records tm')"
    using evict_expired_records [OF ok] assms(2) tm' by simp
  moreover have "map_of (filter (\<lambda>e. later < tl_expires_at (snd e)) (tm_records tm')) aid = None"
    using look le assms(7) btree_map.entry_lookup [of "tm_records tm'" aid] ok
    by (auto simp: map_of_eq_None_iff ttl_ok_def)
  ultimately show ?thesis using look le by simp
qed

lemma sample_extension:
  "extend_ttl sample_chrono 5 6 ''b'' 1000 sample_ttl_manager =
   Some (sample_ttl_manager\<lparr>tm_records := am_update
     (\<lambda>_. (sample_ttl ''b'' (5 + 72 * ttl_hour))\<lparr>tl_last_extension := Some 6\<rparr>) ''b''
     (tm_records sample_ttl_manager)\<rparr>)"
  by (simp add: extend_ttl_def extended_record_def sample_chrono_def sample_ttl_manager_def
      ttl_track_def ttl_manager_new_def sample_ttl_def ttl_hour_def)

theorem extension_bounded_witness:
  "\<exists>tm'. extend_ttl sample_chrono 5 6 ''b'' 1000 sample_ttl_manager = Some tm' \<and>
     map_of (tm_records (snd (evict_expired (5 + 72 * ttl_hour) tm'))) ''b'' = None"
proof -
  have "0 < tm_audit_capacity sample_ttl_manager"
    and "map_of (tm_records sample_ttl_manager) ''b'' = Some (sample_ttl ''b'' 10)"
    by (simp_all add: sample_ttl_manager_def ttl_track_def ttl_manager_new_def sample_ttl_def)
  from extension_bounded [OF sample_ttl_manager_ok this sample_extension sample_chrono_ok order_refl]
  show ?thesis using sample_extension by blast
qed

text \<open>
  Extending can cut a lifetime short: a record that expires later than 72 hours from
  now, as tracking allows, expires earlier after an extension, whatever the number of
  hours, than before it.
\<close>

theorem extension_can_shorten:
  assumes "map_of (tm_records tm) aid = Some r"
    and "now1 + 72 * ttl_hour < tl_expires_at r"
    and "extend_ttl ch now1 now2 aid hours tm = Some tm'"
    and "ch_hours ch 72 = Some (72 * ttl_hour)"
    and "\<And>t d u. ch_add ch t d = Some u \<Longrightarrow> u = t + d"
  shows "\<exists>r'. map_of (tm_records tm') aid = Some r' \<and> tl_expires_at r' < tl_expires_at r"
proof -
  from assms(1,3) obtain r' where r': "extended_record ch now1 now2 hours r = Some r'"
    and tm': "tm' = tm\<lparr>tm_records := am_update (\<lambda>_. r') aid (tm_records tm)\<rparr>"
    by (auto simp: extend_ttl_def)
  have "tl_expires_at r' \<le> now1 + 72 * ttl_hour"
    using r' assms(4,5) by (auto simp: extended_record_def split: option.splits)
  then show ?thesis using assms(1,2) by (simp add: tm' lookup_am_update)
qed

theorem extension_can_shorten_witness:
  "\<exists>tm'. extend_ttl sample_chrono 5 6 ''c'' 1
       (snd (ttl_track 0 (sample_ttl ''c'' (100 * ttl_hour)) (ttl_manager_new 4))) = Some tm' \<and>
     (\<exists>r'. map_of (tm_records tm') ''c'' = Some r' \<and> tl_expires_at r' < 100 * ttl_hour)"
proof -
  let ?tm = "snd (ttl_track 0 (sample_ttl ''c'' (100 * ttl_hour)) (ttl_manager_new 4))"
  have c: "map_of (tm_records ?tm) ''c'' = Some (sample_ttl ''c'' (100 * ttl_hour))"
    by (simp add: ttl_track_def ttl_manager_new_def sample_ttl_def ttl_hour_def)
  have "extend_ttl sample_chrono 5 6 ''c'' 1 ?tm \<noteq> None"
    by (simp add: extend_ttl_def c extended_record_def sample_chrono_def)
  then obtain tm' where tm': "extend_ttl sample_chrono 5 6 ''c'' 1 ?tm = Some tm'" by blast
  have "5 + 72 * ttl_hour < tl_expires_at (sample_ttl ''c'' (100 * ttl_hour))"
    by (simp add: sample_ttl_def ttl_hour_def)
  from extension_can_shorten [OF c this tm' sample_chrono_ok] tm' show ?thesis
    by (simp add: sample_ttl_def)
qed

text \<open>
  With capacity zero, the capacity of the default manager, the log is never cut after its
  first entry and grows with every eviction.
\<close>

lemma zero_capacity_log_grows:
  "tm_audit_capacity tm = 0 \<Longrightarrow> tm_eviction_audit tm = [] \<Longrightarrow>
   length (tm_eviction_audit (fold push_audit es tm)) = length es"
proof -
  have "tm_audit_capacity tm = 0 \<Longrightarrow>
      tm_eviction_audit (fold push_audit es tm) = tm_eviction_audit tm @ es" for tm
    by (induction es arbitrary: tm) (simp_all add: push_audit_def)
  then show "tm_audit_capacity tm = 0 \<Longrightarrow> tm_eviction_audit tm = [] \<Longrightarrow> ?thesis" by simp
qed

end
