(* ===== verification/Seeds.thy ===== *)
theory Seeds
  imports B3Hash
begin

text \<open>
  Determinism contexts and seed derivation, \<open>crates/adapteros-core/src/determinism.rs\<close> with
  \<open>derive_seed\<close> of \<open>seed.rs\<close>. HKDF-SHA256 is a third-party crate: \<open>sv_hkdf\<close> takes the key
  material, the info bytes and the requested length. The process-wide determinism
  configuration enters as the fixed seed that \<open>derive_seed\<close> reads. Logging is left out.
\<close>

section \<open>Little-endian bytes\<close>

definition le_bytes :: "nat \<Rightarrow> 'a :: len word \<Rightarrow> bytes" where
  "le_bytes n w = map (\<lambda>i. ucast (drop_bit (8 * i) w)) [0..<n]"

fun from_le_bytes :: "bytes \<Rightarrow> 'a :: len word" where
  "from_le_bytes [] = 0"
| "from_le_bytes (b # bs) = or (ucast b) (push_bit 8 (from_le_bytes bs))"

lemma length_le_bytes [simp]: "length (le_bytes n w) = n"
  by (simp add: le_bytes_def)

lemma bit_from_le_bytes:
  "bit (from_le_bytes bs :: 'a :: len word) n \<longleftrightarrow>
     n < LENGTH('a) \<and> n div 8 < length bs \<and> bit (bs ! (n div 8)) (n mod 8)"
proof (induction bs arbitrary: n)
  case Nil
  then show ?case by simp
next
  case (Cons b bs)
  show ?case
  proof (cases "n < 8")
    case True
    then show ?thesis by (auto simp: bit_or_iff bit_push_bit_iff bit_ucast_iff)
  next
    case False
    then have "n div 8 = Suc ((n - 8) div 8)" "n mod 8 = (n - 8) mod 8"
      by (auto simp: le_div_geq le_mod_geq)
    moreover have "\<not> bit b n" using False bit_imp_le_length [of b n] by auto
    ultimately show ?thesis
      using False Cons.IH [of "n - 8"]
      by (auto simp: bit_or_iff bit_push_bit_iff bit_ucast_iff)
  qed
qed

lemma le_bytes_roundtrip:
  assumes "LENGTH('a) \<le> 8 * n"
  shows "from_le_bytes (le_bytes n w) = (w :: 'a :: len word)"
proof (rule bit_word_eqI)
  fix i assume i: "i < LENGTH('a)"
  with assms have "i div 8 < n" by auto
  moreover have "8 * (i div 8) + i mod 8 = i" by simp
  ultimately show "bit (from_le_bytes (le_bytes n w) :: 'a word) i = bit w i"
    using i by (auto simp: bit_from_le_bytes le_bytes_def bit_ucast_iff bit_drop_bit_eq)
qed

lemma le_bytes_inject:
  "LENGTH('a) \<le> 8 * n \<Longrightarrow> le_bytes n v = le_bytes n w \<longleftrightarrow> v = (w :: 'a :: len word)"
  by (metis le_bytes_roundtrip)

section \<open>Seeds\<close>

record seed_env =
  sv_hash :: hash_fn
  sv_hex_encode :: "bytes \<Rightarrow> string"
  sv_hex_decode :: "string \<Rightarrow> string + bytes"
  sv_hkdf :: "bytes \<Rightarrow> bytes \<Rightarrow> nat \<Rightarrow> bytes"
  sv_fixed_seed :: "u64 option"

definition derive_seed :: "seed_env \<Rightarrow> b3hash \<Rightarrow> string \<Rightarrow> bytes" where
  "derive_seed sv global label =
     (let effective_global =
            (case sv_fixed_seed sv of
               Some seed \<Rightarrow> b3_hash (sv_hash sv) (le_bytes 8 seed)
             | None \<Rightarrow> global) in
      sv_hkdf sv effective_global (str_bytes label) 32)"

definition router_label :: "seed_env \<Rightarrow> b3hash option \<Rightarrow> string" where
  "router_label sv manifest_hash =
     (case manifest_hash of
        Some h \<Rightarrow> ''router:'' @ b3_to_hex (sv_hex_encode sv) h
      | None \<Rightarrow> ''router'')"

definition derive_router_seed :: "seed_env \<Rightarrow> bytes \<Rightarrow> b3hash option \<Rightarrow> string" where
  "derive_router_seed sv request_seed manifest_hash =
     sv_hex_encode sv (derive_seed sv request_seed (router_label sv manifest_hash))"

definition sampler_label :: "u64 \<Rightarrow> string" where
  "sampler_label step = ''sample:'' @ show_nat (unat step)"

definition derive_sampler_seed :: "seed_env \<Rightarrow> bytes \<Rightarrow> u64 \<Rightarrow> bytes" where
  "derive_sampler_seed sv request_seed step = derive_seed sv request_seed (sampler_label step)"

definition expand_u64_seed :: "seed_env \<Rightarrow> u64 \<Rightarrow> bytes" where
  "expand_u64_seed sv seed =
     le_bytes 8 seed @ sv_hkdf sv (le_bytes 8 seed) (str_bytes ''replay-seed-expand'') 24"

definition derive_router_tiebreak_seed :: "seed_env \<Rightarrow> string \<Rightarrow> bytes" where
  "derive_router_tiebreak_seed sv router_seed_hex =
     (let router_seed =
            (case b3_from_hex (sv_hex_decode sv) router_seed_hex of
               Ok h \<Rightarrow> h
             | Err _ \<Rightarrow> b3_hash (sv_hash sv) (str_bytes router_seed_hex)) in
      derive_seed sv router_seed ''router-tie'')"

section \<open>Contexts\<close>

datatype determinism_source = RequestSeedHex | SeedU64Expanded | DerivedFromRequest
datatype seed_mode = SM_Strict | SM_BestEffort | SM_NonDeterministic
datatype routing_determinism_mode = RM_Deterministic | RM_Adaptive

record determinism_context =
  dx_request_seed :: bytes
  dx_request_seed_low64 :: u64
  dx_router_seed_hex :: string
  dx_seed_mode :: seed_mode
  dx_routing_mode :: routing_determinism_mode
  dx_source :: determinism_source

definition with_router_seed ::
  "bytes \<Rightarrow> string \<Rightarrow> seed_mode \<Rightarrow> routing_determinism_mode \<Rightarrow> determinism_source \<Rightarrow>
   determinism_context" where
  "with_router_seed request_seed router_seed_hex mode routing source =
     \<lparr>dx_request_seed = request_seed,
      dx_request_seed_low64 = from_le_bytes (take 8 request_seed),
      dx_router_seed_hex = router_seed_hex, dx_seed_mode = mode, dx_routing_mode = routing,
      dx_source = source\<rparr>"

definition context_new ::
  "seed_env \<Rightarrow> bytes \<Rightarrow> b3hash option \<Rightarrow> seed_mode \<Rightarrow> routing_determinism_mode \<Rightarrow>
   determinism_source \<Rightarrow> determinism_context" where
  "context_new sv request_seed manifest_hash mode routing source =
     with_router_seed request_seed (derive_router_seed sv request_seed manifest_hash) mode
       routing source"

definition context_new_with_router_seed ::
  "seed_env \<Rightarrow> bytes \<Rightarrow> string option \<Rightarrow> b3hash option \<Rightarrow> seed_mode \<Rightarrow>
   routing_determinism_mode \<Rightarrow> determinism_source \<Rightarrow> determinism_context" where
  "context_new_with_router_seed sv request_seed router_seed_hex manifest_hash mode routing source =
     with_router_seed request_seed
       (case router_seed_hex of
          Some s \<Rightarrow> s
        | None \<Rightarrow> derive_router_seed sv request_seed manifest_hash) mode routing source"

definition router_seed_bytes :: "seed_env \<Rightarrow> determinism_context \<Rightarrow> bytes" where
  "router_seed_bytes sv dx =
     (case b3_from_hex (sv_hex_decode sv) (dx_router_seed_hex dx) of
        Ok h \<Rightarrow> h
      | Err _ \<Rightarrow> replicate 32 0)"

definition sampler_seed :: "seed_env \<Rightarrow> determinism_context \<Rightarrow> u64 \<Rightarrow> bytes" where
  "sampler_seed sv dx step = derive_sampler_seed sv (dx_request_seed dx) step"

definition router_tiebreak_seed :: "seed_env \<Rightarrow> determinism_context \<Rightarrow> bytes" where
  "router_tiebreak_seed sv dx = derive_router_tiebreak_seed sv (dx_router_seed_hex dx)"

section \<open>Correctness\<close>

text \<open>
  A legacy seed can be read back from the context that was built from its expansion.
\<close>

theorem legacy_seed_roundtrip:
  "dx_request_seed_low64 (context_new sv (expand_u64_seed sv seed) manifest mode routing source)
     = seed"
  by (simp add: context_new_def with_router_seed_def expand_u64_seed_def le_bytes_roundtrip)

lemma show_nat_inject: "show_nat m = show_nat n \<longleftrightarrow> m = n"
  by (metis option.inject parse_digits_show_nat)

lemma sampler_label_inject: "sampler_label s = sampler_label t \<longleftrightarrow> s = t"
  by (simp add: sampler_label_def show_nat_inject word_unat_eq_iff)

lemma router_label_differs: "sampler_label s \<noteq> router_label sv manifest"
  by (simp add: sampler_label_def router_label_def split: option.split)

text \<open>
  (C25) The randomness of a request is separated by purpose: when the key derivation does not
  collide on the labels at hand, the sampler seeds of two steps are equal only for equal steps,
  a sampler seed differs from the router seed, and the router seed bytes of a context have
  the length of a seed.
\<close>

theorem request_seeds_separated:
  assumes "inj_on (\<lambda>label. sv_hkdf sv seed (str_bytes label) 32)
             {sampler_label s, sampler_label t, router_label sv manifest}"
    and "sv_fixed_seed sv = None"
    and "\<And>bs. sv_hex_decode sv (sv_hex_encode sv bs) = Inr bs"
    and "\<And>ikm info n. length (sv_hkdf sv ikm info n) = n"
    and "dx = context_new sv seed manifest mode routing source"
  shows "(sampler_seed sv dx s = sampler_seed sv dx t \<longleftrightarrow> s = t) \<and>
         sampler_seed sv dx s \<noteq> router_seed_bytes sv dx \<and>
         length (router_seed_bytes sv dx) = 32"
proof -
  have r: "router_seed_bytes sv dx = sv_hkdf sv seed (str_bytes (router_label sv manifest)) 32"
    using assms(2-5)
    by (simp add: router_seed_bytes_def context_new_def with_router_seed_def
        derive_router_seed_def derive_seed_def b3_from_hex_def)
  have s: "sampler_seed sv dx x = sv_hkdf sv seed (str_bytes (sampler_label x)) 32" for x
    using assms(2,5) by (simp add: sampler_seed_def derive_sampler_seed_def context_new_def
        with_router_seed_def derive_seed_def)
  from assms(1) have "sampler_seed sv dx s = sampler_seed sv dx t \<longleftrightarrow> s = t"
    and "sampler_seed sv dx s \<noteq> router_seed_bytes sv dx"
    unfolding r s inj_on_def using sampler_label_inject router_label_differs by blast+
  then show ?thesis by (simp add: r assms(4))
qed

text \<open>A derivation that keeps the start of the info, padded to the requested length.\<close>

definition sample_hkdf :: "bytes \<Rightarrow> bytes \<Rightarrow> nat \<Rightarrow> bytes" where
  "sample_hkdf ikm info n = take n (info @ replicate n 0)"

definition sample_seed_env :: seed_env where
  "sample_seed_env = \<lparr>sv_hash = id, sv_hex_encode = map (\<lambda>b. char_of (unat b)),
     sv_hex_decode = (\<lambda>s. Inr (str_bytes s)),
     sv_hkdf = sample_hkdf, sv_fixed_seed = None\<rparr>"

lemma char_u8_roundtrip: "(of_char (char_of (unat (b :: u8)) :: char) :: u8) = b"
proof -
  have "unat b < 256" using unsigned_less [of b] by simp
  then have "(of_char (char_of (unat b) :: char) :: nat) = unat b" by simp
  then have "(of_char (char_of (unat b) :: char) :: u8) = of_nat (unat b)"
    by (metis of_nat_of_char)
  then show ?thesis by simp
qed

theorem request_seeds_separated_witness:
  "sampler_seed sample_seed_env
     (context_new sample_seed_env [] None SM_Strict RM_Adaptive RequestSeedHex) 1 \<noteq>
   sampler_seed sample_seed_env
     (context_new sample_seed_env [] None SM_Strict RM_Adaptive RequestSeedHex) 2"
proof -
  let ?dx = "context_new sample_seed_env [] None SM_Strict RM_Adaptive RequestSeedHex"
  have hex: "sv_hex_decode sample_seed_env (sv_hex_encode sample_seed_env bs) = Inr bs" for bs
    by (simp add: sample_seed_env_def str_bytes_def o_def char_u8_roundtrip)
  have len: "length (sv_hkdf sample_seed_env ikm info n) = n" for ikm info n
    by (simp add: sample_seed_env_def sample_hkdf_def)
  have inj: "inj_on (\<lambda>label. sv_hkdf sample_seed_env [] (str_bytes label) 32)
      {sampler_label 1, sampler_label 2, router_label sample_seed_env None}"
    by (simp add: inj_on_def sample_seed_env_def sample_hkdf_def sampler_label_def
        router_label_def str_bytes_def show_nat.simps digit_char_def inj_eq [OF of_char_u8_inj])
  show ?thesis
    using request_seeds_separated [OF inj _ hex len refl [of ?dx]]
    by (simp add: sample_seed_env_def)
qed

text \<open>A fixed seed in the configuration replaces every request seed.\<close>

theorem fixed_seed_overrides:
  assumes "sv_fixed_seed sv = Some x"
  shows "derive_router_seed sv seed manifest = derive_router_seed sv seed' manifest \<and>
         derive_sampler_seed sv seed step = derive_sampler_seed sv seed' step"
  using assms by (simp add: derive_router_seed_def derive_sampler_seed_def derive_seed_def)

end
