(* ===== verification/PolicyMask.thy ===== *)
theory PolicyMask
  imports B3Hash Floats "HOL-Library.Sublist"
begin

text \<open>
  Routing policy masks and the filtering of router decisions,
  \<open>crates/adapteros-lora-router/src/policy_mask.rs\<close>, with the gate quantization of
  \<open>quantization.rs\<close>. Logging is left out.
\<close>

section \<open>Masks\<close>

record policy_override_flags =
  po_allow_list :: bool
  po_deny_list :: bool
  po_trust_state :: bool

definition override_flags_default :: policy_override_flags where
  "override_flags_default = \<lparr>po_allow_list = False, po_deny_list = False, po_trust_state = False\<rparr>"

record policy_mask =
  pm_allowed :: "bool list"
  pm_digest :: b3hash
  pm_overrides_applied :: policy_override_flags

definition mask_bytes :: "b3hash option \<Rightarrow> string list \<Rightarrow> bool list \<Rightarrow> bytes" where
  "mask_bytes context_digest adapter_ids allowed_bits =
     (case context_digest of Some d \<Rightarrow> d | None \<Rightarrow> b3_zero) @
     concat (map (\<lambda>i. str_bytes i @ [0]) adapter_ids) @
     map (\<lambda>b. if b then 1 else 0) allowed_bits"

definition compute_policy_mask_digest ::
  "hash_fn \<Rightarrow> b3hash option \<Rightarrow> string list \<Rightarrow> bool list \<Rightarrow> b3hash" where
  "compute_policy_mask_digest H context_digest adapter_ids allowed_bits =
     b3_hash H (mask_bytes context_digest adapter_ids allowed_bits)"

definition mask_allow_all :: "hash_fn \<Rightarrow> string list \<Rightarrow> b3hash option \<Rightarrow> policy_mask" where
  "mask_allow_all H adapter_ids context_digest =
     (let allowed = replicate (length adapter_ids) True in
      \<lparr>pm_allowed = allowed,
       pm_digest = compute_policy_mask_digest H context_digest adapter_ids allowed,
       pm_overrides_applied = override_flags_default\<rparr>)"

definition mask_deny_all :: "hash_fn \<Rightarrow> string list \<Rightarrow> b3hash option \<Rightarrow> policy_mask" where
  "mask_deny_all H adapter_ids context_digest =
     (let allowed = replicate (length adapter_ids) False in
      \<lparr>pm_allowed = allowed,
       pm_digest = compute_policy_mask_digest H context_digest adapter_ids allowed,
       pm_overrides_applied = override_flags_default\<rparr>)"

text \<open>
  The index of an identifier, as the \<open>BTreeMap\<close> collected from the enumerated list has it:
  a later occurrence replaces an earlier one.
\<close>

definition id_to_index :: "string list \<Rightarrow> (string \<rightharpoonup> nat)" where
  "id_to_index adapter_ids =
     fold (\<lambda>(idx, i) m. m(i \<mapsto> idx)) (enumerate 0 adapter_ids) Map.empty"

text \<open>\<open>if let Some(slot) = allowed.get_mut(idx) { *slot = v }\<close>\<close>

definition set_slot :: "nat \<Rightarrow> bool \<Rightarrow> bool list \<Rightarrow> bool list" where
  "set_slot idx v allowed = (if idx < length allowed then allowed[idx := v] else allowed)"

definition set_by_id :: "(string \<rightharpoonup> nat) \<Rightarrow> bool \<Rightarrow> string \<Rightarrow> bool list \<Rightarrow> bool list" where
  "set_by_id index v i allowed =
     (case index i of Some idx \<Rightarrow> set_slot idx v allowed | None \<Rightarrow> allowed)"

definition mask_build ::
  "hash_fn \<Rightarrow> string list \<Rightarrow> string list option \<Rightarrow> string list option \<Rightarrow> nat set option \<Rightarrow>
   nat list option \<Rightarrow> b3hash option \<Rightarrow> policy_mask" where
  "mask_build H adapter_ids allow_ids deny_ids indices_gate trust_blocked context_digest =
     (let allowed0 =
            (case indices_gate of
               Some indices \<Rightarrow> map (\<lambda>idx. idx \<in> indices) [0..<length adapter_ids]
             | None \<Rightarrow> replicate (length adapter_ids) True);
          index = id_to_index adapter_ids;
          allowed1 =
            (case allow_ids of
               Some ids \<Rightarrow>
                 fold (set_by_id index True) ids (replicate (length allowed0) False)
             | None \<Rightarrow> allowed0);
          allowed2 =
            (case deny_ids of
               Some ids \<Rightarrow> fold (set_by_id index False) ids allowed1
             | None \<Rightarrow> allowed1);
          allowed3 =
            (case trust_blocked of
               Some blocked \<Rightarrow> fold (\<lambda>idx. set_slot idx False) blocked allowed2
             | None \<Rightarrow> allowed2) in
      \<lparr>pm_allowed = allowed3,
       pm_digest = compute_policy_mask_digest H context_digest adapter_ids allowed3,
       pm_overrides_applied =
         \<lparr>po_allow_list = (indices_gate \<noteq> None \<or> allow_ids \<noteq> None),
          po_deny_list = (deny_ids \<noteq> None), po_trust_state = (trust_blocked \<noteq> None)\<rparr>\<rparr>)"

section \<open>Gates\<close>

definition quantize_gate :: "float_ops \<Rightarrow> f32b \<Rightarrow> i16" where
  "quantize_gate fo gate =
     of_int (max 0 (min 32767 (fo_to_i32 fo (fo_round32 fo (fo_mul32 fo gate lit_32767)))))"

definition renormalize_gates_q15 :: "float_ops \<Rightarrow> i16 list \<Rightarrow> i16 list" where
  "renormalize_gates_q15 fo gates =
     (if length gates = 0 then []
      else if length gates = 1 then [quantize_gate fo lit_1]
      else
        (let floats = map (\<lambda>q. fo_div64 fo (fo_of_i16 fo q) (fo_of_f32 fo lit_32767)) gates;
             acc = kahan_sum fo floats in
         if f64_pos acc
         then map (\<lambda>g. quantize_gate fo (fo_to_f32 fo (fo_div64 fo g acc))) floats
         else
           (let uniform = fo_div32 fo lit_1 (fo_of_usize32 fo (length gates)) in
            map (\<lambda>_. quantize_gate fo uniform) gates)))"

section \<open>Decisions\<close>

record decision_candidate =
  dc_adapter_idx :: "16 word"
  dc_raw_score :: f32b
  dc_gate_q15 :: i16

record decision_hash =
  dh_input_hash :: string
  dh_output_hash :: string
  dh_reasoning_hash :: "string option"
  dh_combined_hash :: string
  dh_tau :: f32b
  dh_eps :: f32b
  dh_k :: nat
  dh_backend_identity_hash :: "string option"

record router_decision =
  dn_indices :: "16 word list"
  dn_gates_q15 :: "i16 list"
  dn_entropy :: f32b
  dn_candidates :: "decision_candidate list"
  dn_decision_hash :: "decision_hash option"
  dn_policy_mask_digest :: "b3hash option"
  dn_policy_overrides :: "policy_override_flags option"

record routing_policy =
  rpol_allowed_stack_ids :: "string list option"
  rpol_allowed_adapter_ids :: "string list option"
  rpol_denied_adapter_ids :: "string list option"
  rpol_max_adapters_per_token :: "nat option"
  rpol_allowed_clusters :: "string list option"
  rpol_denied_clusters :: "string list option"
  rpol_max_reasoning_depth :: "nat option"
  rpol_cluster_fallback :: string
  rpol_pin_enforcement :: string
  rpol_require_stack :: bool
  rpol_require_pins :: bool

datatype adapter_verdict = Keep | DropById | DropByCluster

text \<open>The four tests of the loop body, in their order.\<close>

definition judge_adapter :: "routing_policy \<Rightarrow> string \<Rightarrow> string option \<Rightarrow> adapter_verdict" where
  "judge_adapter policy i cluster =
     (if (case rpol_allowed_adapter_ids policy of Some ids \<Rightarrow> i \<notin> set ids | None \<Rightarrow> False)
      then DropById
      else if (case rpol_denied_adapter_ids policy of Some ids \<Rightarrow> i \<in> set ids | None \<Rightarrow> False)
      then DropById
      else if (case rpol_allowed_clusters policy of
                 Some cs \<Rightarrow> (case cluster of Some c \<Rightarrow> c \<notin> set cs | None \<Rightarrow> True)
               | None \<Rightarrow> False)
      then DropByCluster
      else if (case rpol_denied_clusters policy of
                 Some cs \<Rightarrow> (case cluster of Some c \<Rightarrow> c \<in> set cs | None \<Rightarrow> False)
               | None \<Rightarrow> False)
      then DropByCluster
      else Keep)"

record filter_state =
  fs_indices :: "16 word list"
  fs_gates :: "i16 list"
  fs_candidates :: "decision_candidate list"
  fs_cluster_filtered :: nat

definition keep_adapter ::
  "16 word \<Rightarrow> i16 \<Rightarrow> decision_candidate option \<Rightarrow> filter_state \<Rightarrow> filter_state" where
  "keep_adapter idx gate candidate fs =
     fs\<lparr>fs_indices := fs_indices fs @ [idx], fs_gates := fs_gates fs @ [gate],
        fs_candidates := fs_candidates fs @
          (case candidate of Some c \<Rightarrow> [c] | None \<Rightarrow> [])\<rparr>"

fun filter_loop ::
  "string list \<Rightarrow> string option list \<Rightarrow> routing_policy \<Rightarrow> decision_candidate list \<Rightarrow> nat \<Rightarrow>
   (16 word \<times> i16) list \<Rightarrow> filter_state \<Rightarrow> (aos_error, filter_state) result" where
  "filter_loop ids clusters policy candidates i [] fs = Ok fs"
| "filter_loop ids clusters policy candidates i ((idx, gate) # rest) fs =
     (if unat idx \<ge> length ids
      then Err (EPolicyViolation (''RoutingPolicy adapter index '' @ show_nat (unat idx) @
             '' out of bounds''))
      else
        (let candidate = (if i < length candidates then Some (candidates ! i) else None) in
         filter_loop ids clusters policy candidates (i + 1) rest
           (case judge_adapter policy (ids ! unat idx) 
                   (if unat idx < length clusters then clusters ! unat idx else None) of
              Keep \<Rightarrow> keep_adapter idx gate candidate fs
            | DropById \<Rightarrow> fs
            | DropByCluster \<Rightarrow> fs\<lparr>fs_cluster_filtered := fs_cluster_filtered fs + 1\<rparr>)))"

definition truncate_state :: "nat \<Rightarrow> filter_state \<Rightarrow> filter_state" where
  "truncate_state n fs =
     (if length (fs_indices fs) > n
      then fs\<lparr>fs_indices := take n (fs_indices fs), fs_gates := take n (fs_gates fs),
              fs_candidates := take n (fs_candidates fs)\<rparr>
      else fs)"

definition filter_decision_by_policy ::
  "float_ops \<Rightarrow> router_decision \<Rightarrow> string list \<Rightarrow> string option list \<Rightarrow>
   routing_policy option \<Rightarrow> (aos_error, router_decision) result" where
  "filter_decision_by_policy fo dn ids clusters policy =
     (if length ids \<noteq> length clusters
      then Err (EPolicyViolation ''RoutingPolicy adapter ids/clusters length mismatch'')
      else
        case policy of
          None \<Rightarrow> Ok dn
        | Some p \<Rightarrow>
            (case filter_loop ids clusters p (dn_candidates dn) 0
                    (zip (dn_indices dn) (dn_gates_q15 dn))
                    \<lparr>fs_indices = [], fs_gates = [], fs_candidates = [], fs_cluster_filtered = 0\<rparr> of
               Err e \<Rightarrow> Err e
             | Ok fs \<Rightarrow>
                 if rpol_max_adapters_per_token p = Some 0
                 then Err (EPolicyViolation
                   ''Routing policy rejected all adapters (max_adapters_per_token=0)'')
                 else
                   (let fs1 = (case rpol_max_adapters_per_token p of
                                 Some n \<Rightarrow> truncate_state n fs | None \<Rightarrow> fs) in
                    if fs_indices fs1 = []
                    then Err (EPolicyViolation
                      (if fs_cluster_filtered fs1 > 0
                       then ''Routing policy denied all adapters for this token (clusters)''
                       else ''Routing policy denied all adapters for this token''))
                    else
                      Ok (dn\<lparr>dn_indices := fs_indices fs1,
                             dn_gates_q15 :=
                               (if length (fs_indices fs1) < length (dn_indices dn)
                                then renormalize_gates_q15 fo (fs_gates fs1)
                                else fs_gates fs1),
                             dn_candidates := fs_candidates fs1\<rparr>))))"

section \<open>What a mask allows\<close>

lemma id_to_index_snoc:
  "id_to_index (ids @ [x]) = (id_to_index ids)(x \<mapsto> length ids)"
  by (simp add: id_to_index_def enumerate_append_eq)

text \<open>The slot that an identifier of a list governs is the last one that carries it.\<close>

definition governs :: "string list \<Rightarrow> nat \<Rightarrow> bool" where
  "governs ids i \<longleftrightarrow> (\<forall>j. i < j \<longrightarrow> j < length ids \<longrightarrow> ids ! j \<noteq> ids ! i)"

lemma id_to_index_sound:
  "id_to_index ids x = Some k \<Longrightarrow> k < length ids \<and> ids ! k = x \<and> governs ids k"
proof (induction ids rule: rev_induct)
  case Nil
  then show ?case by (simp add: id_to_index_def)
next
  case (snoc y ids)
  show ?case
  proof (cases "x = y")
    case True
    with snoc.prems show ?thesis by (auto simp: id_to_index_snoc governs_def)
  next
    case False
    with snoc have "k < length ids" "ids ! k = x" "governs ids k"
      by (simp_all add: id_to_index_snoc)
    with False show ?thesis by (auto simp: governs_def nth_append less_Suc_eq)
  qed
qed

lemma id_to_index_last:
  "k < length ids \<Longrightarrow> (\<forall>j. k < j \<longrightarrow> j < length ids \<longrightarrow> ids ! j \<noteq> ids ! k) \<Longrightarrow>
   id_to_index ids (ids ! k) = Some k"
proof (induction ids rule: rev_induct)
  case (snoc y ids)
  show ?case
  proof (cases "k = length ids")
    case False
    with snoc.prems have k: "k < length ids" by simp
    then have "y \<noteq> ids ! k"
      using snoc.prems(2) [rule_format, of "length ids"] by (simp add: nth_append)
    moreover have "\<forall>j. k < j \<longrightarrow> j < length ids \<longrightarrow> ids ! j \<noteq> ids ! k"
    proof (intro allI impI)
      fix j assume "k < j" "j < length ids"
      then show "ids ! j \<noteq> ids ! k"
        using snoc.prems(2) [rule_format, of j] k by (simp add: nth_append)
    qed
    ultimately show ?thesis using k snoc.IH by (simp add: id_to_index_snoc nth_append)
  qed (simp add: id_to_index_snoc)
qed simp

lemma length_set_slot [simp]: "length (set_slot idx v al) = length al"
  by (simp add: set_slot_def)

lemma nth_set_slot: "i < length al \<Longrightarrow> set_slot idx v al ! i = (if i = idx then v else al ! i)"
  by (auto simp: set_slot_def)

lemma length_set_by_id [simp]: "length (set_by_id index v x al) = length al"
  by (simp add: set_by_id_def split: option.splits)

lemma nth_set_by_id:
  "i < length al \<Longrightarrow> set_by_id index v x al ! i = (if index x = Some i then v else al ! i)"
  by (auto simp: set_by_id_def nth_set_slot split: option.splits)

lemma length_fold_set_by_id [simp]: "length (fold (set_by_id index v) xs al) = length al"
  by (induction xs arbitrary: al) simp_all

lemma nth_fold_set_by_id:
  "i < length al \<Longrightarrow>
   fold (set_by_id index v) xs al ! i = ((\<exists>x \<in> set xs. index x = Some i) \<and> v \<or>
     \<not> (\<exists>x \<in> set xs. index x = Some i) \<and> al ! i)"
  by (induction xs arbitrary: al) (auto simp: nth_set_by_id)

lemma length_fold_set_slot [simp]: "length (fold (\<lambda>idx. set_slot idx v) xs al) = length al"
  by (induction xs arbitrary: al) simp_all

lemma nth_fold_set_slot:
  "i < length al \<Longrightarrow>
   fold (\<lambda>idx. set_slot idx v) xs al ! i = (i \<in> set xs \<and> v \<or> i \<notin> set xs \<and> al ! i)"
  by (induction xs arbitrary: al) (auto simp: nth_set_slot)

lemma mask_build_length:
  "length (pm_allowed (mask_build H ids allow deny gate trust ctx)) = length ids"
  by (simp add: mask_build_def Let_def split: option.splits)

lemma id_to_index_iff:
  "i < length ids \<Longrightarrow> id_to_index ids x = Some i \<longleftrightarrow> x = ids ! i \<and> governs ids i"
  using id_to_index_sound [of ids x i] id_to_index_last [of i ids] by (auto simp: governs_def)

lemma governs_distinct: "distinct ids \<Longrightarrow> i < length ids \<Longrightarrow> governs ids i"
  by (auto simp: governs_def nth_eq_iff_index_eq)

lemma mask_build_nth:
  "i < length ids \<Longrightarrow>
   pm_allowed (mask_build H ids allow deny gate trust ctx) ! i =
     ((case allow of Some a \<Rightarrow> governs ids i \<and> ids ! i \<in> set a
       | None \<Rightarrow> (case gate of Some g \<Rightarrow> i \<in> g | None \<Rightarrow> True)) \<and>
      (case deny of Some d \<Rightarrow> \<not> (governs ids i \<and> ids ! i \<in> set d) | None \<Rightarrow> True) \<and>
      (case trust of Some b \<Rightarrow> i \<notin> set b | None \<Rightarrow> True))"
  by (auto simp: mask_build_def Let_def nth_fold_set_slot nth_fold_set_by_id id_to_index_iff
      split: option.splits)

text \<open>
  A mask with distinct adapter identifiers: adapter \<open>i\<close> may be routed exactly when the
  allow list names it (or, without an allow list, the index gate contains it), the deny list
  does not name it, and it is not blocked by its trust state: denial and trust always win.
\<close>

theorem mask_build_allows:
  assumes "distinct ids" and "i < length ids"
  shows "pm_allowed (mask_build H ids allow deny gate trust ctx) ! i \<longleftrightarrow>
    (case allow of Some a \<Rightarrow> ids ! i \<in> set a
     | None \<Rightarrow> (case gate of Some g \<Rightarrow> i \<in> g | None \<Rightarrow> True)) \<and>
    (case deny of Some d \<Rightarrow> ids ! i \<notin> set d | None \<Rightarrow> True) \<and>
    (case trust of Some b \<Rightarrow> i \<notin> set b | None \<Rightarrow> True)"
  using assms governs_distinct [OF assms] by (simp add: mask_build_nth split: option.splits)

theorem mask_build_allows_witness:
  "\<not> pm_allowed (mask_build id [''a'', ''b''] (Some [''a'', ''b'']) (Some [''b'']) None (Some []) None) ! 1"
  using mask_build_allows [of "[''a'', ''b'']" 1 id "Some [''a'', ''b'']" "Some [''b'']" None
      "Some []" None]
  by simp

text \<open>
  The index gate restricts nothing once an allow list is given: the list is written over it.
\<close>

theorem allow_list_overrides_gate:
  "\<exists>ids allow gate i. i \<notin> gate \<and>
     pm_allowed (mask_build H ids (Some allow) None (Some gate) None ctx) ! i"
proof -
  have "pm_allowed (mask_build H [''a''] (Some [''a'']) None (Some {}) None ctx) ! 0"
    by (simp add: mask_build_nth governs_def)
  then show ?thesis by blast
qed

text \<open>
  With a repeated identifier the deny list reaches only the last of its slots.
\<close>

theorem duplicate_id_escapes_deny:
  "\<exists>ids deny i. i < length ids \<and> ids ! i \<in> set deny \<and>
     pm_allowed (mask_build H ids None (Some deny) None None ctx) ! i"
proof -
  have "pm_allowed (mask_build H [''a'', ''a''] None (Some [''a'']) None None ctx) ! 0"
    by (auto simp: mask_build_nth governs_def)
  moreover have "(0::nat) < length [''a'', ''a'']" "[''a'', ''a''] ! 0 \<in> set [''a'']"
    by simp_all
  ultimately show ?thesis by blast
qed

section \<open>The digest binds the mask\<close>

lemma terminated_inject:
  "0 \<notin> set xs \<Longrightarrow> 0 \<notin> set ys \<Longrightarrow>
   xs @ (0::u8) # r = ys @ 0 # r' \<longleftrightarrow> xs = ys \<and> r = r'"
proof (induction xs arbitrary: ys)
  case Nil
  then show ?case by (cases ys) auto
next
  case (Cons x xs)
  then show ?case by (cases ys) auto
qed

definition nul_free :: "string \<Rightarrow> bool" where
  "nul_free s \<longleftrightarrow> CHR 0x00 \<notin> set s"

lemma nul_free_bytes: "nul_free s \<Longrightarrow> 0 \<notin> set (str_bytes s)"
  using injD [OF of_char_u8_inj, of "CHR 0x00"] by (auto simp: nul_free_def str_bytes_def)

definition id_list_bytes :: "string list \<Rightarrow> bytes" where
  "id_list_bytes ids = concat (map (\<lambda>i. str_bytes i @ [0]) ids)"

lemma id_list_bytes_simps [simp]:
  "id_list_bytes [] = []"
  "id_list_bytes (x # xs) = str_bytes x @ 0 # id_list_bytes xs"
  by (simp_all add: id_list_bytes_def)

text \<open>
  The list of terminated identifiers needs no length prefix, since as many bits follow as
  there are identifiers.
\<close>

lemma id_list_inject:
  "list_all nul_free ids \<Longrightarrow> list_all nul_free ids' \<Longrightarrow>
   length r = length ids + k \<Longrightarrow> length r' = length ids' + k \<Longrightarrow>
   id_list_bytes ids @ r = id_list_bytes ids' @ r' \<Longrightarrow> ids = ids' \<and> r = r'"
proof (induction ids arbitrary: ids' k)
  case Nil
  then have "length r = length (id_list_bytes ids') + length r'" by (metis append_Nil
    id_list_bytes_simps(1) length_append)
  with Nil show ?case by simp
next
  case (Cons x xs)
  show ?case
  proof (cases ids')
    case Nil
    with Cons.prems have "length r' = length (id_list_bytes (x # xs)) + length r"
      by (metis append_Nil id_list_bytes_simps(1) length_append)
    with Cons.prems Nil show ?thesis by simp
  next
    case (Cons y ys)
    with Cons.prems have "str_bytes x = str_bytes y \<and> id_list_bytes xs @ r = id_list_bytes ys @ r'"
      by (simp add: terminated_inject nul_free_bytes)
    with Cons Cons.IH [of ys "Suc k"] Cons.prems show ?thesis by (simp add: str_bytes_inj)
  qed
qed

lemma bits_inject:
  "map (\<lambda>b. if b then 1 else 0) xs = map (\<lambda>b. if b then (1::u8) else 0) ys \<longleftrightarrow> xs = ys"
  by (rule inj_map_eq_map) (auto simp: inj_def split: if_splits)

lemma mask_bytes_inject:
  assumes "list_all nul_free ids" "list_all nul_free ids'"
    and "pred_option b3_wf ctx" "pred_option b3_wf ctx'"
    and "length bits = length ids" "length bits' = length ids'"
    and "mask_bytes ctx ids bits = mask_bytes ctx' ids' bits'"
  shows "ids = ids' \<and> bits = bits' \<and>
    case_option b3_zero (\<lambda>d. d) ctx = case_option b3_zero (\<lambda>d. d) ctx'"
proof -
  have wf: "b3_wf (case_option b3_zero (\<lambda>d. d) c)" if "pred_option b3_wf c" for c
    using that by (cases c) simp_all
  have "case_option b3_zero (\<lambda>d. d) ctx = case_option b3_zero (\<lambda>d. d) ctx' \<and>
    id_list_bytes ids @ map (\<lambda>b. if b then 1 else 0) bits =
    id_list_bytes ids' @ map (\<lambda>b. if b then 1 else 0) bits'"
    using assms(7) append_wf_inject [OF wf [OF assms(3)] wf [OF assms(4)]]
    by (simp add: mask_bytes_def id_list_bytes_def)
  then show ?thesis
    using id_list_inject [of ids ids' "map (\<lambda>b. if b then 1 else 0) bits" 0
        "map (\<lambda>b. if b then 1 else 0) bits'"] assms by (simp add: bits_inject)
qed

text \<open>
  The digest of a mask binds what it was computed from: for adapter identifiers
  without NUL bytes and a hash that does not collide on the two inputs, two masks with the
  same digest have the same adapters in the same order, the same allow bits, and the same
  upstream policy digest (a missing one counting as the zero digest). No separator is needed
  between the identifiers and the bits.
\<close>

theorem mask_digest_binds:
  assumes "list_all nul_free ids" "list_all nul_free ids'"
    and "pred_option b3_wf ctx" "pred_option b3_wf ctx'"
    and "inj_on H {mask_bytes ctx ids (pm_allowed (mask_build H ids al de ga tr ctx)),
                   mask_bytes ctx' ids' (pm_allowed (mask_build H ids' al' de' ga' tr' ctx'))}"
    and "pm_digest (mask_build H ids al de ga tr ctx) =
         pm_digest (mask_build H ids' al' de' ga' tr' ctx')"
  shows "ids = ids' \<and>
    pm_allowed (mask_build H ids al de ga tr ctx) =
    pm_allowed (mask_build H ids' al' de' ga' tr' ctx') \<and>
    case_option b3_zero (\<lambda>d. d) ctx = case_option b3_zero (\<lambda>d. d) ctx'"
proof -
  have dig: "pm_digest (mask_build H i a d g t c) =
      H (mask_bytes c i (pm_allowed (mask_build H i a d g t c)))" for i a d g t c
    by (simp add: mask_build_def Let_def compute_policy_mask_digest_def b3_hash_def)
  have "mask_bytes ctx ids (pm_allowed (mask_build H ids al de ga tr ctx)) =
        mask_bytes ctx' ids' (pm_allowed (mask_build H ids' al' de' ga' tr' ctx'))"
    using assms(5,6) unfolding dig by (auto dest: inj_onD)
  from mask_bytes_inject [OF assms(1-4) mask_build_length mask_build_length this]
  show ?thesis .
qed

theorem mask_digest_binds_witness:
  "pm_digest (mask_build id [''a''] None None None None None) \<noteq>
   pm_digest (mask_build id [''a''] None (Some [''a'']) None None None)"
proof
  assume eq: "pm_digest (mask_build id [''a''] None None None None None) =
    pm_digest (mask_build id [''a''] None (Some [''a'']) None None None)"
  have "list_all nul_free [''a'']" by (simp add: nul_free_def)
  from mask_digest_binds [OF this this _ _ _ eq]
  have "pm_allowed (mask_build id [''a''] None None None None None) ! 0 =
        pm_allowed (mask_build id [''a''] None (Some [''a'']) None None None) ! 0" by simp
  then show False by (simp add: mask_build_nth governs_def)
qed

section \<open>Filtering a decision\<close>

lemma quantize_gate_bounds: "sint (quantize_gate fo g) \<in> {0..32767}"
proof -
  define x where
    "x = max 0 (min 32767 (fo_to_i32 fo (fo_round32 fo (fo_mul32 fo g lit_32767))))"
  have "0 \<le> x" "x \<le> 32767" by (auto simp: x_def)
  moreover from this have "sint (of_int x :: i16) = x" by (simp add: sint_sbintrunc' signed_take_bit_int_eq_self)
  ultimately show ?thesis by (simp add: quantize_gate_def x_def)
qed

lemma length_renormalize [simp]: "length (renormalize_gates_q15 fo qs) = length qs"
  by (auto simp: renormalize_gates_q15_def Let_def)

lemma renormalize_bounds: "g \<in> set (renormalize_gates_q15 fo qs) \<Longrightarrow> sint g \<in> {0..32767}"
  by (auto simp: renormalize_gates_q15_def Let_def quantize_gate_bounds [unfolded atLeastAtMost_iff]
      split: if_splits)

text \<open>
  What the policy says of one adapter: it is permitted when both lists of identifiers and
  both lists of clusters admit it; an adapter without a cluster fails a cluster allow list.
\<close>

definition adapter_permitted :: "routing_policy \<Rightarrow> string \<Rightarrow> string option \<Rightarrow> bool" where
  "adapter_permitted p i cl \<longleftrightarrow>
     pred_option (\<lambda>a. i \<in> set a) (rpol_allowed_adapter_ids p) \<and>
     pred_option (\<lambda>d. i \<notin> set d) (rpol_denied_adapter_ids p) \<and>
     pred_option (\<lambda>a. \<exists>c. cl = Some c \<and> c \<in> set a) (rpol_allowed_clusters p) \<and>
     pred_option (\<lambda>d. pred_option (\<lambda>c. c \<notin> set d) cl) (rpol_denied_clusters p)"

lemma judge_keep: "judge_adapter p i cl = Keep \<longleftrightarrow> adapter_permitted p i cl"
  by (auto simp: judge_adapter_def adapter_permitted_def split: option.splits)

abbreviation permitted_at :: "routing_policy \<Rightarrow> string list \<Rightarrow> string option list \<Rightarrow> 16 word \<Rightarrow> bool" where
  "permitted_at p ids clusters idx \<equiv> adapter_permitted p (ids ! unat idx) (clusters ! unat idx)"

lemma filter_loop_indices:
  "filter_loop ids clusters p cs i ps fs = Ok fs' \<Longrightarrow> length ids = length clusters \<Longrightarrow>
   fs_indices fs' = fs_indices fs @ filter (permitted_at p ids clusters) (map fst ps) \<and>
   fs_gates fs' = fs_gates fs @ map snd (filter (\<lambda>q. permitted_at p ids clusters (fst q)) ps)"
proof (induction ps arbitrary: i fs)
  case (Cons q ps)
  obtain idx gate where q: "q = (idx, gate)" by (cases q)
  with Cons.prems have b: "unat idx < length clusters" by (simp split: if_splits)
  show ?case
  proof (cases "judge_adapter p (ids ! unat idx) (clusters ! unat idx)")
    case Keep
    moreover from this have "permitted_at p ids clusters idx" by (simp add: judge_keep)
    ultimately show ?thesis using Cons b q by (simp add: keep_adapter_def Let_def)
  next
    case DropById
    moreover from this have "\<not> permitted_at p ids clusters idx"
      by (metis adapter_verdict.distinct(1) judge_keep)
    ultimately show ?thesis using Cons b q by (simp add: Let_def)
  next
    case DropByCluster
    moreover from this have "\<not> permitted_at p ids clusters idx"
      by (metis adapter_verdict.distinct(3) judge_keep)
    ultimately show ?thesis using Cons b q by (simp add: Let_def)
  qed
qed simp

lemma filter_loop_is_ok:
  "is_ok (filter_loop ids clusters p cs i ps fs) \<longleftrightarrow> (\<forall>q \<in> set ps. unat (fst q) < length ids)"
proof (induction ps arbitrary: i fs)
  case (Cons q ps)
  then show ?case by (cases q) (simp add: Let_def not_le)
qed simp

lemma filter_loop_candidates:
  "filter_loop ids clusters p cs i ps fs = Ok fs' \<Longrightarrow> length ids = length clusters \<Longrightarrow>
   i + length ps \<le> length cs \<Longrightarrow>
   fs_candidates fs' = fs_candidates fs @
     map snd (filter (\<lambda>(q, c). permitted_at p ids clusters (fst q)) (zip ps (drop i cs)))"
proof (induction ps arbitrary: i fs)
  case (Cons q ps)
  obtain idx gate where q: "q = (idx, gate)" by (cases q)
  with Cons.prems have b: "unat idx < length clusters" "i < length cs" by (auto split: if_splits)
  then have d: "drop i cs = cs ! i # drop (Suc i) cs" by (simp add: Cons_nth_drop_Suc)
  show ?case
  proof (cases "permitted_at p ids clusters idx")
    case True
    then have "judge_adapter p (ids ! unat idx) (clusters ! unat idx) = Keep"
      by (simp add: judge_keep)
    with True Cons b q d show ?thesis by (simp add: keep_adapter_def Let_def)
  next
    case False
    then have "judge_adapter p (ids ! unat idx) (clusters ! unat idx) \<noteq> Keep"
      by (simp add: judge_keep)
    with False Cons b q d show ?thesis
      by (cases "judge_adapter p (ids ! unat idx) (clusters ! unat idx)") (simp_all add: Let_def)
  qed
qed simp

definition cap :: "nat option \<Rightarrow> 'a list \<Rightarrow> 'a list" where
  "cap m xs = (case m of Some n \<Rightarrow> take n xs | None \<Rightarrow> xs)"

lemma truncate_fields:
  "length (fs_gates fs) = length (fs_indices fs) \<Longrightarrow>
   fs_indices (truncate_state n fs) = take n (fs_indices fs) \<and>
   fs_gates (truncate_state n fs) = take n (fs_gates fs)"
  by (simp add: truncate_state_def)

lemma length_filter_fst:
  "length (filter P (map fst ps)) = length (map snd (filter (\<lambda>q. P (fst q)) ps))"
  by (simp add: filter_map o_def)

lemma filter_all_if_length: "length (filter P xs) = length xs \<Longrightarrow> filter P xs = xs"
  by (metis filter_True length_filter_less less_irrefl)

lemma filter_ok_cases:
  assumes ok: "filter_decision_by_policy fo dn ids clusters (Some p) = Ok dn'"
    and al: "length (dn_gates_q15 dn) = length (dn_indices dn)"
  obtains gs where
    "length ids = length clusters"
    "rpol_max_adapters_per_token p \<noteq> Some 0"
    "dn_indices dn' =
       cap (rpol_max_adapters_per_token p) (filter (permitted_at p ids clusters) (dn_indices dn))"
    "gs = cap (rpol_max_adapters_per_token p)
       (map snd (filter (\<lambda>q. permitted_at p ids clusters (fst q))
          (zip (dn_indices dn) (dn_gates_q15 dn))))"
    "length gs = length (dn_indices dn')"
    "dn_gates_q15 dn' = (if length (dn_indices dn') < length (dn_indices dn)
       then renormalize_gates_q15 fo gs else gs)"
    "dn_indices dn' \<noteq> []"
    "dn' = dn\<lparr>dn_indices := dn_indices dn', dn_gates_q15 := dn_gates_q15 dn',
             dn_candidates := dn_candidates dn'\<rparr>"
proof -
  let ?ps = "zip (dn_indices dn) (dn_gates_q15 dn)"
  let ?fs0 = "\<lparr>fs_indices = [], fs_gates = [], fs_candidates = [], fs_cluster_filtered = 0\<rparr>"
  from ok have len: "length ids = length clusters"
    by (simp add: filter_decision_by_policy_def split: if_splits)
  with ok obtain fs where fs: "filter_loop ids clusters p (dn_candidates dn) 0 ?ps ?fs0 = Ok fs"
    by (auto simp: filter_decision_by_policy_def split: sum.splits)
  define fs1 where "fs1 = (case rpol_max_adapters_per_token p of
    Some n \<Rightarrow> truncate_state n fs | None \<Rightarrow> fs)"
  from ok len fs have m: "rpol_max_adapters_per_token p \<noteq> Some 0" "fs_indices fs1 \<noteq> []"
    and dn': "dn' = dn\<lparr>dn_indices := fs_indices fs1,
        dn_gates_q15 := (if length (fs_indices fs1) < length (dn_indices dn)
          then renormalize_gates_q15 fo (fs_gates fs1) else fs_gates fs1),
        dn_candidates := fs_candidates fs1\<rparr>"
    by (simp_all add: filter_decision_by_policy_def fs1_def Let_def split: if_splits)
  have loop: "fs_indices fs = filter (permitted_at p ids clusters) (dn_indices dn)"
    "fs_gates fs = map snd (filter (\<lambda>q. permitted_at p ids clusters (fst q)) ?ps)"
    using filter_loop_indices [OF fs len] al by simp_all
  have lfs: "length (fs_gates fs) = length (fs_indices fs)"
    using length_filter_fst [of "permitted_at p ids clusters" ?ps] al by (simp add: loop)
  have fs1: "fs_indices fs1 = cap (rpol_max_adapters_per_token p) (fs_indices fs)"
    "fs_gates fs1 = cap (rpol_max_adapters_per_token p) (fs_gates fs)"
    using truncate_fields [OF lfs] by (auto simp: fs1_def cap_def split: option.splits)
  have "length (fs_gates fs1) = length (fs_indices fs1)"
    using lfs by (simp add: fs1 cap_def split: option.splits)
  with len m dn' fs1 loop show ?thesis by (intro that [of "fs_gates fs1"]) simp_all
qed

lemma cap_filter_same:
  assumes al: "length gates = length xs"
    and ys: "ys = cap m (filter P xs)"
    and gs: "gs = cap m (map snd (filter (\<lambda>q. P (fst q)) (zip xs gates)))"
    and l: "\<not> length ys < length xs"
  shows "gs = gates \<and> ys = xs"
proof -
  have le: "length (filter P xs) \<le> length xs" "length ys \<le> length (filter P xs)"
    by (auto simp: ys cap_def split: option.splits)
  have eqs: "length (filter P xs) = length xs" "length ys = length (filter P xs)"
    using l le by linarith+
  have f: "filter P xs = xs" by (rule filter_all_if_length) (rule eqs(1))
  then have fz: "filter (\<lambda>q. P (fst q)) (zip xs gates) = zip xs gates"
    by (auto simp: filter_id_conv dest: set_zip_leftD)
  show ?thesis
    using eqs al by (cases m) (auto simp: ys gs f fz cap_def)
qed

text \<open>
  (C24) A filtered decision keeps exactly the permitted adapters, in the order of the router,
  capped at \<open>max_adapters_per_token\<close>, and at least one of them; every kept adapter has one
  gate; the gates are untouched when nothing was removed and otherwise lie in the Q15 range.
\<close>

theorem filter_keeps_permitted:
  assumes "filter_decision_by_policy fo dn ids clusters (Some p) = Ok dn'"
    and "length (dn_gates_q15 dn) = length (dn_indices dn)"
  shows "dn_indices dn' =
      cap (rpol_max_adapters_per_token p) (filter (permitted_at p ids clusters) (dn_indices dn)) \<and>
    dn_indices dn' \<noteq> [] \<and>
    length (dn_gates_q15 dn') = length (dn_indices dn') \<and>
    (if dn_indices dn' = dn_indices dn then dn_gates_q15 dn' = dn_gates_q15 dn
     else list_all (\<lambda>g. sint g \<in> {0..32767}) (dn_gates_q15 dn'))"
proof (rule filter_ok_cases [OF assms])
  fix gs
  assume ind: "dn_indices dn' =
       cap (rpol_max_adapters_per_token p) (filter (permitted_at p ids clusters) (dn_indices dn))"
    and gs: "gs = cap (rpol_max_adapters_per_token p)
       (map snd (filter (\<lambda>q. permitted_at p ids clusters (fst q))
          (zip (dn_indices dn) (dn_gates_q15 dn))))"
    and len: "length gs = length (dn_indices dn')"
    and gates: "dn_gates_q15 dn' = (if length (dn_indices dn') < length (dn_indices dn)
       then renormalize_gates_q15 fo gs else gs)"
    and ne: "dn_indices dn' \<noteq> []"
  have same: "gs = dn_gates_q15 dn \<and> dn_indices dn' = dn_indices dn"
    if l: "\<not> length (dn_indices dn') < length (dn_indices dn)"
    using cap_filter_same [OF assms(2) ind gs] l by simp
  have ren: "list_all (\<lambda>g. sint g \<in> {0..32767}) (renormalize_gates_q15 fo gs)"
    by (simp add: list_all_iff renormalize_bounds [unfolded atLeastAtMost_iff])
  show ?thesis
    using ind len gates ne same ren
    by (cases "length (dn_indices dn') < length (dn_indices dn)") auto
qed

text \<open>
  When a decision is refused: for aligned inputs with all indices in range, filtering
  fails exactly when the cap is zero or the policy permits none of the adapters.
\<close>

theorem filter_rejects_iff:
  assumes "length ids = length clusters"
    and "length (dn_gates_q15 dn) = length (dn_indices dn)"
    and "list_all (\<lambda>idx. unat idx < length ids) (dn_indices dn)"
  shows "is_ok (filter_decision_by_policy fo dn ids clusters (Some p)) \<longleftrightarrow>
    rpol_max_adapters_per_token p \<noteq> Some 0 \<and>
    list_ex (permitted_at p ids clusters) (dn_indices dn)"
proof -
  let ?fs0 = "\<lparr>fs_indices = [], fs_gates = [], fs_candidates = [], fs_cluster_filtered = 0\<rparr>"
  let ?ps = "zip (dn_indices dn) (dn_gates_q15 dn)"
  have "is_ok (filter_loop ids clusters p (dn_candidates dn) 0 ?ps ?fs0)"
    using assms(3) by (auto simp: filter_loop_is_ok list_all_iff dest: set_zip_leftD)
  then obtain fs where fs: "filter_loop ids clusters p (dn_candidates dn) 0 ?ps ?fs0 = Ok fs"
    by (auto simp: is_ok_iff)
  have ind: "fs_indices fs = filter (permitted_at p ids clusters) (dn_indices dn)"
    using filter_loop_indices [OF fs assms(1)] assms(2) by simp
  then have "list_ex (permitted_at p ids clusters) (dn_indices dn) \<longleftrightarrow> fs_indices fs \<noteq> []"
    by (simp add: list_ex_iff filter_empty_conv)
  then show ?thesis
    using fs assms(1)
    by (auto simp: filter_decision_by_policy_def Let_def truncate_state_def
        split: option.splits if_splits)
qed

section \<open>Witnesses\<close>

text \<open>Operations that are exact on one and on integers, enough for a single gate.\<close>

definition example_ops :: float_ops where
  "example_ops = \<lparr>fo_add32 = (\<lambda>a b. if b = 0 then a else b), fo_sub32 = (\<lambda>a b. a),
     fo_mul32 = (\<lambda>a b. if a = lit_1 then b else a), fo_div32 = (\<lambda>a b. a),
     fo_max32 = (\<lambda>a b. if f32_lt a b then b else a), fo_round32 = (\<lambda>w. w),
     fo_log2 = (\<lambda>_. 0), fo_sum_start = 0, fo_of_usize32 = (\<lambda>_. lit_1),
     fo_of_i16_32 = (\<lambda>_. lit_1),
     fo_to_i32 = (\<lambda>w. (f32_mag w mod 0x800000 + 0x800000) * 2 ^ nat (f32_mag w div 0x800000)
                       div 2 ^ 150),
     fo_of_f32 = (\<lambda>_. 1), fo_to_f32 = (\<lambda>_. lit_1), fo_of_i16 = (\<lambda>_. 1),
     fo_add64 = (\<lambda>a b. a), fo_sub64 = (\<lambda>a b. a), fo_div64 = (\<lambda>a b. a),
     fo_max64 = (\<lambda>a b. a), fo_exp64 = (\<lambda>_. 1)\<rparr>"

definition example_policy :: routing_policy where
  "example_policy = \<lparr>rpol_allowed_stack_ids = None, rpol_allowed_adapter_ids = None,
     rpol_denied_adapter_ids = Some [''b''], rpol_max_adapters_per_token = Some 2,
     rpol_allowed_clusters = None, rpol_denied_clusters = None, rpol_max_reasoning_depth = None,
     rpol_cluster_fallback = ''stay_on_current'', rpol_pin_enforcement = ''warn'',
     rpol_require_stack = False, rpol_require_pins = False\<rparr>"

definition example_decision :: router_decision where
  "example_decision = \<lparr>dn_indices = [0, 1], dn_gates_q15 = [100, 200], dn_entropy = 0,
     dn_candidates = [], dn_decision_hash = None, dn_policy_mask_digest = None,
     dn_policy_overrides = None\<rparr>"

lemma example_filtered:
  "filter_decision_by_policy example_ops example_decision [''a'', ''b''] [None, None]
     (Some example_policy) = Ok (example_decision\<lparr>dn_indices := [0], dn_gates_q15 := [32767]\<rparr>)"
  by (simp add: filter_decision_by_policy_def example_ops_def example_decision_def
      example_policy_def judge_adapter_def keep_adapter_def truncate_state_def
      renormalize_gates_q15_def quantize_gate_def f32_mag_def lit_1_def lit_32767_def)

theorem filter_keeps_permitted_witness:
  "filter (permitted_at example_policy [''a'', ''b''] [None, None]) [0, 1] = [0]"
  using filter_keeps_permitted [OF example_filtered]
  by (simp add: example_decision_def example_policy_def cap_def)

theorem filter_rejects_iff_witness:
  "\<not> is_ok (filter_decision_by_policy example_ops (example_decision\<lparr>dn_indices := [1, 1]\<rparr>)
     [''a'', ''b''] [None, None] (Some example_policy))"
  using filter_rejects_iff [of "[''a'', ''b'']" "[None, None]"
      "example_decision\<lparr>dn_indices := [1, 1]\<rparr>" example_ops example_policy]
  by (simp add: example_decision_def example_policy_def adapter_permitted_def)

end
