(* ===== verification/RouterScore.thy ===== *)
theory RouterScore
  imports PolicyMask Seeds
begin

text \<open>
  The scoring side of the adapter router: weights, adapter metadata and tiers of
  \<open>crates/adapteros-lora-router/src/types.rs\<close>, the activation history of \<open>orthogonal.rs\<close>, and
  the per-adapter feature score of \<open>router.rs\<close>.
\<close>

section \<open>Adapters\<close>

record router_weights =
  rw_language_weight :: f32b
  rw_framework_weight :: f32b
  rw_symbol_hits_weight :: f32b
  rw_path_tokens_weight :: f32b
  rw_prompt_verb_weight :: f32b
  rw_orthogonal_weight :: f32b
  rw_diversity_weight :: f32b
  rw_similarity_penalty :: f32b

definition router_weights_default :: router_weights where
  "router_weights_default =
     \<lparr>rw_language_weight = 0x3E8BA2E9, rw_framework_weight = 0x3E68BA2F,
      rw_symbol_hits_weight = 0x3E3A2E8C, rw_path_tokens_weight = 0x3E0BA2E9,
      rw_prompt_verb_weight = 0x3DBA2E8C, rw_orthogonal_weight = 0x3D3A2E8D,
      rw_diversity_weight = 0x3CDF6B0F, rw_similarity_penalty = 0x3C94F20A\<rparr>"

record adapter_info =
  ai_id :: string
  ai_stable_id :: u64
  ai_framework :: "string option"
  ai_languages :: "nat list"
  ai_tier :: string
  ai_scope_path :: "string option"
  ai_lora_tier :: "string option"
  ai_base_model :: "string option"
  ai_version_weight :: f32b
  ai_recommended_for_moe :: bool
  ai_reasoning_specialties :: "string list"
  ai_adapter_type :: "string option"
  ai_stream_session_id :: "string option"
  ai_base_adapter_id :: "string option"

definition adapter_info_default :: adapter_info where
  "adapter_info_default =
     \<lparr>ai_id = [], ai_stable_id = 0, ai_framework = None, ai_languages = [],
      ai_tier = ''default'', ai_scope_path = None, ai_lora_tier = None, ai_base_model = None,
      ai_version_weight = lit_1, ai_recommended_for_moe = True, ai_reasoning_specialties = [],
      ai_adapter_type = None, ai_stream_session_id = None, ai_base_adapter_id = None\<rparr>"

definition supports_language :: "adapter_info \<Rightarrow> nat \<Rightarrow> bool" where
  "supports_language info lang_idx \<longleftrightarrow> lang_idx \<in> set (ai_languages info)"

datatype adapter_tier = Tier0 | Tier1 | Tier2 | TierDefault

fun adapter_tier_boost :: "adapter_tier \<Rightarrow> f32b" where
  "adapter_tier_boost Tier0 = lit_0_3"
| "adapter_tier_boost Tier1 = lit_0_2"
| "adapter_tier_boost Tier2 = lit_0_1"
| "adapter_tier_boost TierDefault = lit_0"

definition adapter_tier_from_str :: "string \<Rightarrow> adapter_tier" where
  "adapter_tier_from_str s =
     (if s = ''tier_0'' then Tier0 else if s = ''tier_1'' then Tier1
      else if s = ''tier_2'' then Tier2 else TierDefault)"

datatype lora_tier = LT_Max | LT_Standard | LT_Micro

fun lora_tier_boost :: "lora_tier \<Rightarrow> f32b" where
  "lora_tier_boost LT_Max = lit_0_12"
| "lora_tier_boost LT_Standard = lit_0_06"
| "lora_tier_boost LT_Micro = lit_0"

text \<open>The error is the rejected input.\<close>

definition lora_tier_from_str :: "string \<Rightarrow> (string, lora_tier) result" where
  "lora_tier_from_str s =
     (if s = ''max'' then Ok LT_Max else if s = ''standard'' then Ok LT_Standard
      else if s = ''micro'' then Ok LT_Micro else Err s)"

section \<open>Activation history\<close>

record orthogonal_constraints =
  oc_activation_history :: "f32b list list"
  oc_similarity_threshold :: f32b
  oc_penalty_weight :: f32b
  oc_history_window :: nat

definition orthogonal_new :: "f32b \<Rightarrow> f32b \<Rightarrow> nat \<Rightarrow> orthogonal_constraints" where
  "orthogonal_new similarity_threshold penalty_weight history_window =
     \<lparr>oc_activation_history = [], oc_similarity_threshold = similarity_threshold,
      oc_penalty_weight = penalty_weight, oc_history_window = history_window\<rparr>"

definition max_adapters :: nat where
  "max_adapters = 256"

definition gates_to_activation_vector ::
  "float_ops \<Rightarrow> 16 word list \<Rightarrow> i16 list \<Rightarrow> f32b list" where
  "gates_to_activation_vector fo adapter_indices gates =
     foldl (\<lambda>activation (idx, gate).
         if unat idx < max_adapters
         then activation[unat idx :=
                fo_div32 fo
                  (fo_round32 fo
                    (fo_mul32 fo (fo_div32 fo (fo_of_i16_32 fo gate) lit_32767) lit_10000))
                  lit_10000]
         else activation)
       (replicate max_adapters 0) (zip adapter_indices gates)"

definition update_history ::
  "float_ops \<Rightarrow> 16 word list \<Rightarrow> i16 list \<Rightarrow> orthogonal_constraints \<Rightarrow> orthogonal_constraints" where
  "update_history fo adapter_indices gates oc =
     (let h = oc_activation_history oc @ [gates_to_activation_vector fo adapter_indices gates] in
      oc\<lparr>oc_activation_history := drop (length h - oc_history_window oc) h\<rparr>)"

definition clear_history :: "orthogonal_constraints \<Rightarrow> orthogonal_constraints" where
  "clear_history oc = oc\<lparr>oc_activation_history := []\<rparr>"

definition compute_adapter_penalty ::
  "float_ops \<Rightarrow> nat \<Rightarrow> orthogonal_constraints \<Rightarrow> f32b" where
  "compute_adapter_penalty fo adapter_idx oc =
     (if oc_activation_history oc = [] \<or> adapter_idx \<ge> max_adapters then 0
      else
        foldl (\<lambda>acc h.
            let similarity = h ! adapter_idx in
            if f32_lt 0 similarity \<and> f32_lt (oc_similarity_threshold oc) similarity
            then fo_add32 fo acc (fo_mul32 fo (oc_penalty_weight oc) similarity) else acc)
          0 (oc_activation_history oc))"

section \<open>Feature scores\<close>

text \<open>\<open>max_by\<close> with \<open>total_cmp\<close>: the last of the maximal positions.\<close>

definition last_max_index :: "f32b list \<Rightarrow> nat option" where
  "last_max_index xs =
     (case xs of
        [] \<Rightarrow> None
      | x # _ \<Rightarrow>
          Some (fst (foldl (\<lambda>(bi, b) (i, y). if f32_total_key b \<le> f32_total_key y then (i, y)
                                              else (bi, b))
                  (0, x) (enumerate 0 xs))))"

definition slice :: "nat \<Rightarrow> nat \<Rightarrow> 'a list \<Rightarrow> 'a list" where
  "slice lo hi xs = take (hi - lo) (drop lo xs)"

definition language_score :: "float_ops \<Rightarrow> router_weights \<Rightarrow> f32b list \<Rightarrow> adapter_info \<Rightarrow> f32b" where
  "language_score fo w features info =
     (case last_max_index (slice 0 8 features) of
        Some lang_idx \<Rightarrow>
          (if supports_language info lang_idx \<and> f32_lt 0 (features ! lang_idx)
           then fo_add32 fo 0
                  (fo_mul32 fo (fo_mul32 fo (features ! lang_idx) (rw_language_weight w)) lit_2)
           else 0)
      | None \<Rightarrow> 0)"

definition framework_score ::
  "float_ops \<Rightarrow> router_weights \<Rightarrow> f32b list \<Rightarrow> adapter_info \<Rightarrow> f32b \<Rightarrow> f32b" where
  "framework_score fo w features info score =
     (case ai_framework info of
        Some _ \<Rightarrow>
          (let strength = sum32 fo (slice 8 11 features) in
           if f32_lt 0 strength
           then fo_add32 fo score
                  (fo_mul32 fo (fo_mul32 fo strength (rw_framework_weight w)) lit_1_5)
           else score)
      | None \<Rightarrow> score)"

definition compute_adapter_feature_score ::
  "float_ops \<Rightarrow> router_weights \<Rightarrow> f32b list \<Rightarrow> adapter_info \<Rightarrow> f32b" where
  "compute_adapter_feature_score fo w features info =
     (if length features \<noteq> 21 \<and> length features \<noteq> 22 \<and> length features \<noteq> 25 then 0
      else
        (let s1 = language_score fo w features info;
             s2 = framework_score fo w features info s1;
             s3 = fo_add32 fo s2 (fo_mul32 fo (features ! 11) (rw_symbol_hits_weight w));
             s4 = fo_add32 fo s3 (fo_mul32 fo (features ! 12) (rw_path_tokens_weight w));
             verb_strength = foldl (fo_max32 fo) 0 (slice 13 21 features);
             s5 = fo_add32 fo s4 (fo_mul32 fo verb_strength (rw_prompt_verb_weight w));
             s6 = fo_add32 fo s5 (adapter_tier_boost (adapter_tier_from_str (ai_tier info))) in
         case ai_lora_tier info of
           Some t \<Rightarrow>
             fo_add32 fo s6
               (case lora_tier_from_str t of Ok lt \<Rightarrow> lora_tier_boost lt | Err _ \<Rightarrow> 0)
         | None \<Rightarrow> s6))"

lemma length_activation_vector: "length (gates_to_activation_vector fo is gs) = max_adapters"
proof -
  have "length (foldl (\<lambda>activation (idx, gate).
      if unat idx < max_adapters then activation[unat idx := f gate] else activation) a ps) = length a"
    for a :: "f32b list" and ps :: "(16 word \<times> i16) list" and f
    by (induction ps arbitrary: a) auto
  then show ?thesis by (simp add: gates_to_activation_vector_def)
qed

definition history_ok :: "orthogonal_constraints \<Rightarrow> bool" where
  "history_ok oc \<longleftrightarrow> length (oc_activation_history oc) \<le> oc_history_window oc \<and>
     list_all (\<lambda>h. length h = max_adapters) (oc_activation_history oc)"

lemma update_history_ok:
  "history_ok oc \<Longrightarrow> history_ok (update_history fo is gs oc)"
  by (auto simp: history_ok_def update_history_def Let_def length_activation_vector list_all_iff
      dest: in_set_dropD)

lemma orthogonal_new_ok: "history_ok (orthogonal_new t w n)"
  by (simp add: history_ok_def orthogonal_new_def)

end
