(* ===== verification/Router.thy ===== *)
theory Router
  imports RouterScore "HOL-Library.Product_Lexorder" "HOL-Library.Multiset"
begin

text \<open>
  The adapter router, \<open>crates/adapteros-lora-router/src/router.rs\<close>: construction, the input
  checks, scoring under the policy mask, deterministic and seeded tie breaks, the softmax, and
  the routing call \<open>route_with_adapter_info_and_scope_with_ctx\<close> with the calls that wrap it.
  A panic is the value \<open>None\<close>. Telemetry and diagnostics are output and left out, except for the
  step counter that the telemetry writer drives and the abstain events that the router keeps.
\<close>

section \<open>The router\<close>

definition max_k :: nat where
  "max_k = 8"

definition sanitize_k :: "nat \<Rightarrow> nat" where
  "sanitize_k k = (if k = 0 then 1 else if k > max_k then max_k else k)"

definition sanitize_eps :: "f32b \<Rightarrow> f32b" where
  "sanitize_eps eps =
     (if \<not> f32_is_finite eps then lit_0_02
      else if \<not> (f32_le 0 eps \<and> f32_le eps lit_1) then lit_0_02 else eps)"

definition sanitize_tau :: "f32b \<Rightarrow> f32b" where
  "sanitize_tau tau =
     (if \<not> f32_is_finite tau then lit_1 else if f32_le tau 0 then lit_1 else tau)"

record router_determinism_config =
  rd_ieee754_deterministic :: bool
  rd_enable_decision_hashing :: bool

definition determinism_config_default :: router_determinism_config where
  "determinism_config_default =
     \<lparr>rd_ieee754_deterministic = True, rd_enable_decision_hashing = True\<rparr>"

record abstain_context =
  ax_request_id :: "string option"
  ax_stack_id :: "string option"
  ax_stack_version :: "64 word option"
  ax_prompt_digest_b3 :: "string option"
  ax_prompt_chars :: "nat option"
  ax_prompt :: "string option"
  ax_tenant_id :: "string option"

datatype abstain_reason =
    LowConfidence f32b
  | HighEntropy f32b
  | InsufficientEvidence nat
  | MissingFields

record abstain_event =
  av_timestamp_us :: u64
  av_reason :: abstain_reason
  av_confidence :: f32b
  av_entropy :: "f32b option"
  av_missing_fields :: "string list"
  av_evidence_span_count :: nat
  av_request_id :: "string option"
  av_stack_id :: "string option"
  av_stack_version :: "64 word option"
  av_prompt_digest_b3 :: "string option"
  av_prompt_chars :: "nat option"
  av_tenant_id :: "string option"

record router =
  rt_feature_weights :: router_weights
  rt_k :: nat
  rt_tau :: f32b
  rt_eps :: f32b
  rt_full_log_tokens :: nat
  rt_orthogonal_constraints :: "orthogonal_constraints option"
  rt_orthogonal_enabled :: bool
  rt_compression_ratio :: f32b
  rt_shared_downsample :: bool
  rt_active_stack_name :: "string option"
  rt_active_stack_adapter_ids :: "string list option"
  rt_active_stack_hash :: "b3hash option"
  rt_has_telemetry_writer :: bool
  rt_step_counter :: u64
  rt_determinism_config :: router_determinism_config
  rt_adaptive_routing :: bool
  rt_abstain_entropy_threshold :: "f32b option"
  rt_abstain_confidence_threshold :: "f32b option"
  rt_abstain_events :: "abstain_event list"
  rt_abstain_context :: "abstain_context option"
  rt_routing_bias :: f32b
  rt_is_moe_model :: bool

definition router_new_with_weights :: "router_weights \<Rightarrow> nat \<Rightarrow> f32b \<Rightarrow> f32b \<Rightarrow> router" where
  "router_new_with_weights feature_weights k tau eps =
     \<lparr>rt_feature_weights = feature_weights, rt_k = sanitize_k k, rt_tau = sanitize_tau tau,
      rt_eps = sanitize_eps eps, rt_full_log_tokens = 128, rt_orthogonal_constraints = None,
      rt_orthogonal_enabled = False, rt_compression_ratio = lit_0_8,
      rt_shared_downsample = False, rt_active_stack_name = None,
      rt_active_stack_adapter_ids = None, rt_active_stack_hash = None,
      rt_has_telemetry_writer = False, rt_step_counter = 0,
      rt_determinism_config = determinism_config_default, rt_adaptive_routing = False,
      rt_abstain_entropy_threshold = None, rt_abstain_confidence_threshold = None,
      rt_abstain_events = [], rt_abstain_context = None, rt_routing_bias = lit_1,
      rt_is_moe_model = False\<rparr>"

text \<open>The fields of the router policy pack that the constructor reads.\<close>

record router_policy_config =
  pc_k_sparse :: nat
  pc_entropy_floor :: f32b
  pc_sample_tokens_full :: nat
  pc_abstain_entropy_threshold :: "f32b option"
  pc_abstain_confidence_threshold :: "f32b option"

definition router_new_with_policy_config ::
  "router_weights \<Rightarrow> nat \<Rightarrow> f32b \<Rightarrow> router_policy_config \<Rightarrow> router" where
  "router_new_with_policy_config feature_weights k tau pc =
     (router_new_with_weights feature_weights k tau (pc_entropy_floor pc))
       \<lparr>rt_k := min (sanitize_k k) (sanitize_k (pc_k_sparse pc)),
        rt_full_log_tokens := pc_sample_tokens_full pc,
        rt_abstain_entropy_threshold := pc_abstain_entropy_threshold pc,
        rt_abstain_confidence_threshold := pc_abstain_confidence_threshold pc\<rparr>"

definition set_routing_bias :: "f32b \<Rightarrow> router \<Rightarrow> router" where
  "set_routing_bias bias rt =
     (if f32_is_finite bias \<and> f32_lt 0 bias then rt\<lparr>rt_routing_bias := bias\<rparr> else rt)"

definition set_orthogonal_constraints :: "bool \<Rightarrow> f32b \<Rightarrow> f32b \<Rightarrow> nat \<Rightarrow> router \<Rightarrow> router" where
  "set_orthogonal_constraints enabled similarity_threshold penalty_weight history_window rt =
     rt\<lparr>rt_orthogonal_enabled := enabled,
        rt_orthogonal_constraints :=
          (if enabled
           then Some (orthogonal_new similarity_threshold penalty_weight history_window)
           else None)\<rparr>"

definition set_abstain_thresholds :: "f32b option \<Rightarrow> f32b option \<Rightarrow> router \<Rightarrow> router" where
  "set_abstain_thresholds entropy_threshold confidence_threshold rt =
     rt\<lparr>rt_abstain_entropy_threshold := entropy_threshold,
        rt_abstain_confidence_threshold := confidence_threshold\<rparr>"

definition take_abstain_events :: "router \<Rightarrow> abstain_event list \<times> router" where
  "take_abstain_events rt = (rt_abstain_events rt, rt\<lparr>rt_abstain_events := []\<rparr>)"

section \<open>Input checks\<close>

text \<open>How a value that is not finite is printed.\<close>

definition show_nonfinite :: "f32b \<Rightarrow> string" where
  "show_nonfinite w =
     (if f32_is_nan w then ''NaN'' else if bit w 31 then ''-inf'' else ''inf'')"

fun check_numerics_from :: "nat \<Rightarrow> f32b list \<Rightarrow> string option" where
  "check_numerics_from i [] = None"
| "check_numerics_from i (v # vs) =
     (if \<not> f32_is_finite v
      then Some (''Non-finite numeric value at index '' @ show_nat i @ '': '' @ show_nonfinite v)
      else check_numerics_from (i + 1) vs)"

definition check_numerics :: "f32b list \<Rightarrow> (string, unit) result" where
  "check_numerics vs = (case check_numerics_from 0 vs of Some e \<Rightarrow> Err e | None \<Rightarrow> Ok ())"

definition validate_router_inputs :: "f32b list \<Rightarrow> f32b list \<Rightarrow> (aos_error, unit) result" where
  "validate_router_inputs features priors =
     (case check_numerics features of
        Err e \<Rightarrow> Err (EDeterminismViolation (''Non-finite router feature detected: '' @ e))
      | Ok _ \<Rightarrow>
          (case check_numerics priors of
             Err e \<Rightarrow> Err (EDeterminismViolation (''Non-finite router prior detected: '' @ e))
           | Ok _ \<Rightarrow> Ok ()))"

text \<open>
  The priors under a scope hint: adapters of other scopes are pushed to the bottom, unless
  no adapter has the scope.
\<close>

definition scope_priors :: "string option \<Rightarrow> f32b list \<Rightarrow> adapter_info list \<Rightarrow> f32b list" where
  "scope_priors scope_hint priors infos =
     (case scope_hint of
        None \<Rightarrow> priors
      | Some hint \<Rightarrow>
          if list_ex (\<lambda>(p, info). ai_scope_path info = Some hint) (zip priors infos)
          then map (\<lambda>(p, info). if ai_scope_path info = Some hint then p else lit_minus_1e9)
                 (zip priors infos) @ drop (length infos) priors
          else priors)"

section \<open>Scores\<close>

definition compute_adapter_orthogonal_penalty :: "float_ops \<Rightarrow> router \<Rightarrow> nat \<Rightarrow> f32b" where
  "compute_adapter_orthogonal_penalty fo rt adapter_idx =
     (if \<not> rt_orthogonal_enabled rt then 0
      else
        (case rt_orthogonal_constraints rt of
           Some oc \<Rightarrow>
             fo_mul32 fo (compute_adapter_penalty fo adapter_idx oc)
               (rw_orthogonal_weight (rt_feature_weights rt))
         | None \<Rightarrow> 0))"

definition compute_score :: "float_ops \<Rightarrow> f32b \<Rightarrow> f32b \<Rightarrow> f32b" where
  "compute_score fo similarity bias = fo_mul32 fo similarity bias"

definition nonfinite_error :: "string \<Rightarrow> nat \<Rightarrow> aos_error" where
  "nonfinite_error what i =
     EDeterminismViolation (''Non-finite '' @ what @ '' for adapter '' @ show_nat i)"

definition score_adapter ::
  "float_ops \<Rightarrow> router \<Rightarrow> f32b list \<Rightarrow> adapter_info \<Rightarrow> nat \<Rightarrow> f32b \<Rightarrow> (aos_error, f32b) result" where
  "score_adapter fo rt features info i prior =
     (if \<not> f32_is_finite prior then Err (nonfinite_error ''prior score'' i)
      else
        (let feature_score =
               compute_adapter_feature_score fo (rt_feature_weights rt) features info in
         if \<not> f32_is_finite feature_score then Err (nonfinite_error ''feature score'' i)
         else
           (let penalty = compute_adapter_orthogonal_penalty fo rt i in
            if \<not> f32_is_finite penalty then Err (nonfinite_error ''orthogonal penalty'' i)
            else
              (let s0 = compute_score fo
                          (fo_sub32 fo (fo_add32 fo prior feature_score) penalty)
                          (rt_routing_bias rt);
                   s1 = (if rt_is_moe_model rt \<and> \<not> ai_recommended_for_moe info
                         then fo_mul32 fo s0 lit_0_8 else s0);
                   version_weight = (if f32_is_finite (ai_version_weight info)
                                     then f32_clamp 0 lit_2 (ai_version_weight info) else lit_1);
                   s2 = fo_mul32 fo s1 version_weight in
               if \<not> f32_is_finite s2 then Err (nonfinite_error ''combined score'' i)
               else Ok s2))))"

fun score_loop ::
  "float_ops \<Rightarrow> router \<Rightarrow> f32b list \<Rightarrow> adapter_info list \<Rightarrow> bool list \<Rightarrow> nat \<Rightarrow> f32b list \<Rightarrow>
   (aos_error, (nat \<times> f32b) list) result" where
  "score_loop fo rt features infos allowed i [] = Ok []"
| "score_loop fo rt features infos allowed i (prior # priors) =
     (if \<not> (i < length allowed \<and> allowed ! i)
      then score_loop fo rt features infos allowed (i + 1) priors
      else
        (case score_adapter fo rt features (infos ! i) i prior of
           Err e \<Rightarrow> Err e
         | Ok s \<Rightarrow>
             (case score_loop fo rt features infos allowed (i + 1) priors of
                Err e \<Rightarrow> Err e
              | Ok rest \<Rightarrow> Ok ((i, s) # rest))))"

text \<open>\<open>sort_by\<close> is stable, like \<open>sort_key\<close>; the tie events of the comparator are diagnostics.\<close>

definition score_order :: "adapter_info list \<Rightarrow> nat \<times> f32b \<Rightarrow> int \<times> u64" where
  "score_order infos e = (- f32_total_key (snd e), ai_stable_id (infos ! fst e))"

definition sort_scores_deterministic ::
  "adapter_info list \<Rightarrow> (nat \<times> f32b) list \<Rightarrow> (nat \<times> f32b) list" where
  "sort_scores_deterministic infos scores = sort_key (score_order infos) scores"

definition adaptive_order :: "adapter_info list \<Rightarrow> u64 list \<Rightarrow> nat \<times> f32b \<Rightarrow> int \<times> u64 \<times> u64" where
  "adaptive_order infos tie_breakers e =
     (- f32_total_key (snd e), tie_breakers ! fst e, ai_stable_id (infos ! fst e))"

definition sort_scores_adaptive ::
  "adapter_info list \<Rightarrow> u64 list \<Rightarrow> (nat \<times> f32b) list \<Rightarrow> (nat \<times> f32b) list" where
  "sort_scores_adaptive infos tie_breakers scores =
     sort_key (adaptive_order infos tie_breakers) scores"

section \<open>Gates\<close>

definition softmax_exps :: "float_ops \<Rightarrow> f32b list \<Rightarrow> f32b \<Rightarrow> f64b list" where
  "softmax_exps fo scores tau =
     (let mx = foldl (fo_max64 fo) f64_neg_inf (map (fo_of_f32 fo) scores) in
      map (\<lambda>s. fo_exp64 fo
                 (fo_div64 fo (fo_sub64 fo (fo_of_f32 fo s) mx) (fo_of_f32 fo tau))) scores)"

definition deterministic_softmax ::
  "float_ops \<Rightarrow> (nat \<times> f32b) list \<Rightarrow> f32b \<Rightarrow> f32b list option" where
  "deterministic_softmax fo logits tau =
     (if logits = [] then Some []
      else if f32_eq tau 0 then Some (lit_1 # replicate (length logits - 1) 0)
      else if \<not> list_all (\<lambda>e. f32_is_finite (snd e)) logits then None
      else
        (let exps = softmax_exps fo (map snd logits) (sanitize_tau tau);
             acc = kahan_sum fo exps in
         Some (if f64_is_zero acc
               then replicate (length logits)
                      (fo_div32 fo lit_1 (fo_of_usize32 fo (length logits)))
               else map (\<lambda>e. fo_to_f32 fo (fo_div64 fo e acc)) exps)))"

definition compute_entropy :: "float_ops \<Rightarrow> f32b list \<Rightarrow> f32b" where
  "compute_entropy fo gates =
     sum32 fo (map (\<lambda>g. fo_mul32 fo (f32_negate g) (fo_log2 fo g)) (filter (f32_lt 0) gates))"

text \<open>The entropy floor, which a zero temperature skips.\<close>

definition floor_gates :: "float_ops \<Rightarrow> router \<Rightarrow> f32b list \<Rightarrow> f32b list" where
  "floor_gates fo rt gates =
     (if f32_eq (rt_tau rt) 0 then gates
      else
        (let min_gate = fo_div32 fo (rt_eps rt) (fo_of_usize32 fo (max (length gates) 1)) in
         map (\<lambda>g. fo_max32 fo g min_gate) gates))"

definition candidate_order ::
  "adapter_info list \<Rightarrow> decision_candidate \<Rightarrow> int \<times> int \<times> u64 \<times> 16 word" where
  "candidate_order infos c =
     (- sint (dc_gate_q15 c), - f32_total_key (dc_raw_score c),
      ai_stable_id (infos ! unat (dc_adapter_idx c)), dc_adapter_idx c)"

definition sort_candidates_canonical ::
  "adapter_info list \<Rightarrow> decision_candidate list \<Rightarrow> decision_candidate list" where
  "sort_candidates_canonical infos cs = sort_key (candidate_order infos) cs"

definition make_candidates ::
  "float_ops \<Rightarrow> (nat \<times> f32b) list \<Rightarrow> f32b list \<Rightarrow> decision_candidate list" where
  "make_candidates fo top_k gates =
     map (\<lambda>((i, s), g). \<lparr>dc_adapter_idx = of_nat i, dc_raw_score = s,
                          dc_gate_q15 = quantize_gate fo g\<rparr>)
       (zip top_k gates)"

section \<open>Abstain events\<close>

definition event_low_confidence :: "u64 \<Rightarrow> f32b \<Rightarrow> f32b \<Rightarrow> abstain_event" where
  "event_low_confidence now confidence threshold =
     \<lparr>av_timestamp_us = now, av_reason = LowConfidence threshold, av_confidence = confidence,
      av_entropy = None, av_missing_fields = [], av_evidence_span_count = 0,
      av_request_id = None, av_stack_id = None, av_stack_version = None,
      av_prompt_digest_b3 = None, av_prompt_chars = None, av_tenant_id = None\<rparr>"

definition event_high_entropy :: "u64 \<Rightarrow> f32b \<Rightarrow> f32b \<Rightarrow> abstain_event" where
  "event_high_entropy now entropy threshold =
     \<lparr>av_timestamp_us = now, av_reason = HighEntropy threshold, av_confidence = 0,
      av_entropy = Some entropy, av_missing_fields = [], av_evidence_span_count = 0,
      av_request_id = None, av_stack_id = None, av_stack_version = None,
      av_prompt_digest_b3 = None, av_prompt_chars = None, av_tenant_id = None\<rparr>"

definition event_with_context :: "abstain_context option \<Rightarrow> abstain_event \<Rightarrow> abstain_event" where
  "event_with_context c ev =
     ev\<lparr>av_request_id := Option.bind c ax_request_id, av_stack_id := Option.bind c ax_stack_id,
        av_stack_version := Option.bind c ax_stack_version,
        av_prompt_digest_b3 := Option.bind c ax_prompt_digest_b3,
        av_prompt_chars := Option.bind c ax_prompt_chars,
        av_tenant_id := Option.bind c ax_tenant_id\<rparr>"

definition check_abstain_conditions ::
  "float_ops \<Rightarrow> u64 \<Rightarrow> u64 \<Rightarrow> f32b \<Rightarrow> f32b list \<Rightarrow> router \<Rightarrow> router" where
  "check_abstain_conditions fo now1 now2 entropy gates rt =
     (if gates = [] then rt\<lparr>rt_abstain_events := []\<rparr>
      else
        (let high =
               (case rt_abstain_entropy_threshold rt of
                  Some threshold \<Rightarrow>
                    (if f32_lt threshold entropy
                     then [event_with_context (rt_abstain_context rt)
                             (event_high_entropy now1 entropy threshold)]
                     else [])
                | None \<Rightarrow> []);
             low =
               (case rt_abstain_confidence_threshold rt of
                  Some threshold \<Rightarrow>
                    (let max_gate = foldl (fo_max32 fo) 0 gates in
                     if f32_lt max_gate threshold
                     then [event_with_context (rt_abstain_context rt)
                             (event_low_confidence now2 max_gate threshold)]
                     else [])
                | None \<Rightarrow> []) in
         rt\<lparr>rt_abstain_events := high @ low\<rparr>))"

section \<open>Decision hash\<close>

definition opt_bytes :: "b3hash option \<Rightarrow> bytes" where
  "opt_bytes h = (case h of Some d \<Rightarrow> d | None \<Rightarrow> [])"

definition decision_input_bytes :: "f32b list \<Rightarrow> f32b list \<Rightarrow> b3hash option \<Rightarrow> bytes" where
  "decision_input_bytes features priors reasoning_hash =
     concat (map (le_bytes 4) features) @ concat (map (le_bytes 4) priors) @
     opt_bytes reasoning_hash"

definition decision_output_bytes :: "16 word list \<Rightarrow> i16 list \<Rightarrow> b3hash option \<Rightarrow> bytes" where
  "decision_output_bytes indices gates_q15 reasoning_hash =
     concat (map (le_bytes 2) indices) @ concat (map (le_bytes 2) gates_q15) @
     opt_bytes reasoning_hash"

definition compute_decision_hash ::
  "hash_fn \<Rightarrow> (bytes \<Rightarrow> string) \<Rightarrow> router \<Rightarrow> f32b list \<Rightarrow> f32b list \<Rightarrow> 16 word list \<Rightarrow> i16 list \<Rightarrow>
   b3hash option \<Rightarrow> b3hash option \<Rightarrow> decision_hash" where
  "compute_decision_hash H hex_encode rt features priors indices gates_q15 reasoning_hash
     backend_identity_hash =
     (let input_hash = b3_hash H (decision_input_bytes features priors reasoning_hash);
          output_hash = b3_hash H (decision_output_bytes indices gates_q15 reasoning_hash);
          combined_hash =
            b3_hash H (input_hash @ output_hash @ opt_bytes reasoning_hash @
                       opt_bytes backend_identity_hash) in
      \<lparr>dh_input_hash = b3_to_short_hex hex_encode input_hash,
       dh_output_hash = b3_to_short_hex hex_encode output_hash,
       dh_reasoning_hash = map_option (b3_to_short_hex hex_encode) reasoning_hash,
       dh_combined_hash = b3_to_short_hex hex_encode combined_hash,
       dh_tau = rt_tau rt, dh_eps = rt_eps rt, dh_k = rt_k rt,
       dh_backend_identity_hash = map_option (b3_to_short_hex hex_encode) backend_identity_hash\<rparr>)"

section \<open>Routing\<close>

text \<open>
  What the router calls outside its crate: floating-point rounding, the seed derivation, the
  ChaCha20 generator (the first \<open>n\<close> numbers drawn from a seed), and two readings of the clock in
  microseconds for the abstain events.
\<close>

record router_env =
  re_floats :: float_ops
  re_seeds :: seed_env
  re_rng :: "bytes \<Rightarrow> nat \<Rightarrow> u64 list"
  re_now1_us :: u64
  re_now2_us :: u64

type_synonym route_result = "((aos_error, router_decision) result \<times> router) option"

definition empty_decision_with_mask :: "policy_mask \<Rightarrow> router_decision" where
  "empty_decision_with_mask pmask =
     \<lparr>dn_indices = [], dn_gates_q15 = [], dn_entropy = 0, dn_candidates = [],
      dn_decision_hash = None, dn_policy_mask_digest = Some (pm_digest pmask),
      dn_policy_overrides = Some (pm_overrides_applied pmask)\<rparr>"

definition emit_decision_event :: "router \<Rightarrow> router" where
  "emit_decision_event rt =
     (if rt_has_telemetry_writer rt then rt\<lparr>rt_step_counter := rt_step_counter rt + 1\<rparr> else rt)"

definition sort_scores ::
  "router_env \<Rightarrow> router \<Rightarrow> adapter_info list \<Rightarrow> determinism_context option \<Rightarrow>
   (nat \<times> f32b) list \<Rightarrow> (nat \<times> f32b) list" where
  "sort_scores env rt infos determinism scores =
     (case (rt_adaptive_routing rt, determinism) of
        (True, Some dx) \<Rightarrow>
          sort_scores_adaptive infos
            (re_rng env (router_tiebreak_seed (re_seeds env) dx) (length infos)) scores
      | _ \<Rightarrow> sort_scores_deterministic infos scores)"

text \<open>The gates of the selected adapters before quantization, or \<open>None\<close> inside for no decision.\<close>

definition normalized_gates ::
  "float_ops \<Rightarrow> router \<Rightarrow> (nat \<times> f32b) list \<Rightarrow> f32b list option option" where
  "normalized_gates fo rt top_k =
     (case deterministic_softmax fo top_k (rt_tau rt) of
        None \<Rightarrow> None
      | Some gates0 \<Rightarrow>
          (let gates = floor_gates fo rt gates0;
               sum_gates = sum32 fo gates in
           if f32_le sum_gates 0 \<or> gates = [] then Some None
           else Some (Some (map (\<lambda>g. fo_div32 fo g sum_gates) gates))))"

text \<open>The part after the normalization: abstain check, candidates, history, hash, telemetry.\<close>

definition finish_decision ::
  "router_env \<Rightarrow> router \<Rightarrow> f32b list \<Rightarrow> f32b list \<Rightarrow> adapter_info list \<Rightarrow> policy_mask \<Rightarrow>
   (nat \<times> f32b) list \<Rightarrow> f32b list \<Rightarrow> router_decision \<times> router" where
  "finish_decision env rt features priors infos pmask top_k gates =
     (let fo = re_floats env;
          entropy = compute_entropy fo gates;
          rt1 = check_abstain_conditions fo (re_now1_us env) (re_now2_us env) entropy gates rt;
          cs = sort_candidates_canonical infos (make_candidates fo top_k gates);
          gates_q15 = map dc_gate_q15 cs;
          indices = map dc_adapter_idx cs;
          rt2 = (if rt_orthogonal_enabled rt1
                 then rt1\<lparr>rt_orthogonal_constraints :=
                        map_option (update_history fo indices gates_q15)
                          (rt_orthogonal_constraints rt1)\<rparr>
                 else rt1);
          h = (if rd_enable_decision_hashing (rt_determinism_config rt2)
               then Some (compute_decision_hash (sv_hash (re_seeds env))
                      (sv_hex_encode (re_seeds env)) rt2 features priors indices gates_q15
                      None None)
               else None) in
      (\<lparr>dn_indices = indices, dn_gates_q15 = gates_q15, dn_entropy = entropy,
        dn_candidates = cs, dn_decision_hash = h,
        dn_policy_mask_digest = Some (pm_digest pmask),
        dn_policy_overrides = Some (pm_overrides_applied pmask)\<rparr>,
       emit_decision_event rt2))"

definition adaptive_config_error :: aos_error where
  "adaptive_config_error =
     EConfig (''Adaptive routing configuration error: determinism context is required for '' @
       ''seeded tie-breaking when adaptive routing is enabled. Provide a determinism context '' @
       ''in the request or disable adaptive routing.'')"

definition route_scored ::
  "router_env \<Rightarrow> router \<Rightarrow> f32b list \<Rightarrow> f32b list \<Rightarrow> adapter_info list \<Rightarrow> policy_mask \<Rightarrow>
   determinism_context option \<Rightarrow> (nat \<times> f32b) list \<Rightarrow> route_result" where
  "route_scored env rt features priors infos pmask determinism scores =
     (if scores = [] then Some (Ok (empty_decision_with_mask pmask), rt)
      else
        (let top_k = take (rt_k rt) (sort_scores env rt infos determinism scores) in
         case normalized_gates (re_floats env) rt top_k of
           None \<Rightarrow> None
         | Some None \<Rightarrow> Some (Ok (empty_decision_with_mask pmask), rt)
         | Some (Some gates) \<Rightarrow>
             (let (d, rt') = finish_decision env rt features priors infos pmask top_k gates in
              Some (Ok d, rt'))))"

definition route_with_scope ::
  "router_env \<Rightarrow> router \<Rightarrow> f32b list \<Rightarrow> f32b list \<Rightarrow> adapter_info list \<Rightarrow> policy_mask \<Rightarrow>
   string option \<Rightarrow> determinism_context option \<Rightarrow> route_result" where
  "route_with_scope env rt features priors infos pmask scope_hint determinism =
     (case validate_router_inputs features priors of
        Err e \<Rightarrow> Some (Err e, rt)
      | Ok _ \<Rightarrow>
          (let priors' = scope_priors scope_hint priors infos in
           if rt_adaptive_routing rt \<and> determinism = None
           then Some (Err adaptive_config_error, rt)
           else if length priors' \<noteq> length infos
           then Some (Ok (empty_decision_with_mask pmask), rt)
           else if length (pm_allowed pmask) \<noteq> length infos
           then Some (Ok (empty_decision_with_mask pmask), rt)
           else
             (case score_loop (re_floats env) rt features infos (pm_allowed pmask) 0 priors' of
                Err e \<Rightarrow> Some (Err e, rt)
              | Ok scores \<Rightarrow>
                  route_scored env rt features priors' infos pmask determinism scores)))"

definition route_with_adapter_info_with_ctx ::
  "router_env \<Rightarrow> router \<Rightarrow> f32b list \<Rightarrow> f32b list \<Rightarrow> adapter_info list \<Rightarrow> policy_mask \<Rightarrow>
   determinism_context option \<Rightarrow> route_result" where
  "route_with_adapter_info_with_ctx env rt features priors infos pmask determinism =
     route_with_scope env rt features priors infos pmask None determinism"

definition route_with_adapter_info ::
  "router_env \<Rightarrow> router \<Rightarrow> f32b list \<Rightarrow> f32b list \<Rightarrow> adapter_info list \<Rightarrow> policy_mask \<Rightarrow>
   route_result" where
  "route_with_adapter_info env rt features priors infos pmask =
     route_with_adapter_info_with_ctx env rt features priors infos pmask None"

record backend_context =
  bc_backend_id :: string
  bc_kernel_version_id :: "string option"

definition backend_try_new :: "string \<Rightarrow> backend_context option" where
  "backend_try_new backend_id =
     (if backend_id = [] then None
      else Some \<lparr>bc_backend_id = backend_id, bc_kernel_version_id = None\<rparr>)"

definition backend_validate :: "backend_context \<Rightarrow> (aos_error, unit) result" where
  "backend_validate bc =
     (if bc_backend_id bc = []
      then Err (EDeterminismViolation ''Backend ID cannot be empty for routing decisions'')
      else Ok ())"

definition route_with_backend_context ::
  "router_env \<Rightarrow> router \<Rightarrow> f32b list \<Rightarrow> f32b list \<Rightarrow> adapter_info list \<Rightarrow> policy_mask \<Rightarrow>
   backend_context \<Rightarrow> determinism_context option \<Rightarrow> route_result" where
  "route_with_backend_context env rt features priors infos pmask backend determinism =
     (case backend_validate backend of
        Err e \<Rightarrow> Some (Err e, rt)
      | Ok _ \<Rightarrow>
          (case route_with_scope env rt features priors infos pmask None determinism of
             Some (Ok d, rt') \<Rightarrow>
               Some (Ok (if rd_enable_decision_hashing (rt_determinism_config rt')
                         then d\<lparr>dn_decision_hash :=
                                Some (compute_decision_hash (sv_hash (re_seeds env))
                                  (sv_hex_encode (re_seeds env)) rt' features priors
                                  (dn_indices d) (dn_gates_q15 d) None
                                  (Some (b3_hash (sv_hash (re_seeds env))
                                     (str_bytes (bc_backend_id backend)))))\<rparr>
                         else d), rt')
           | other \<Rightarrow> other))"

end
