(* ===== verification/RouterCorrect.thy ===== *)
theory RouterCorrect
  imports Router
begin

text \<open>
  What the router guarantees: it never panics, it selects at most \<open>k\<close> adapters and only those
  that the mask allows, the selected ones are the best by score and stable identifier, and
  the outcome does not depend on the order in which the adapters are listed.
\<close>

section \<open>Scoring\<close>

lemma score_adapter_finite: "score_adapter fo rt features info i prior = Ok s \<Longrightarrow> f32_is_finite s"
  by (auto simp: score_adapter_def Let_def split: if_splits)

lemma score_loop_fst:
  "score_loop fo rt features infos allowed i ps = Ok r \<Longrightarrow>
   map fst r = filter (\<lambda>j. j < length allowed \<and> allowed ! j) [i..<i + length ps]"
proof (induction ps arbitrary: i r)
  case (Cons p ps)
  have "[i..<i + length (p # ps)] = i # [i + 1..<(i + 1) + length ps]"
    by (simp add: upt_conv_Cons del: upt_Suc)
  with Cons show ?case by (auto split: if_splits sum.splits)
qed simp

lemma score_loop_score:
  "score_loop fo rt features infos allowed i ps = Ok r \<Longrightarrow> (j, s) \<in> set r \<Longrightarrow>
   i \<le> j \<and> score_adapter fo rt features (infos ! j) j (ps ! (j - i)) = Ok s"
proof (induction ps arbitrary: i r)
  case (Cons p ps)
  show ?case
  proof (cases "j = i \<and> i < length allowed \<and> allowed ! i \<and> (j, s) = hd r")
    case True
    with Cons.prems show ?thesis by (auto split: if_splits sum.splits)
  next
    case False
    with Cons.prems obtain r' where r': "score_loop fo rt features infos allowed (i + 1) ps = Ok r'"
      "(j, s) \<in> set r'" by (auto split: if_splits sum.splits)
    from Cons.IH [OF r'] show ?thesis by (auto simp: nth_Cons')
  qed
qed simp

lemma score_loop_finite:
  "score_loop fo rt features infos allowed i ps = Ok r \<Longrightarrow>
   list_all (\<lambda>e. f32_is_finite (snd e)) r"
  by (auto simp: list_all_iff dest!: score_loop_score dest: score_adapter_finite)

lemma score_loop_distinct:
  "score_loop fo rt features infos allowed i ps = Ok r \<Longrightarrow> distinct (map fst r)"
  using score_loop_fst by fastforce

lemma set_sort_scores [simp]: "set (sort_scores env rt infos dx scores) = set scores"
  by (auto simp: sort_scores_def sort_scores_adaptive_def sort_scores_deterministic_def
      split: bool.splits option.splits)

lemma mset_sort_scores [simp]: "mset (sort_scores env rt infos dx scores) = mset scores"
  by (auto simp: sort_scores_def sort_scores_adaptive_def sort_scores_deterministic_def
      split: bool.splits option.splits)

lemma length_sort_scores [simp]: "length (sort_scores env rt infos dx scores) = length scores"
  by (metis mset_sort_scores size_mset)

lemma distinct_sort_scores:
  "distinct (map fst scores) \<Longrightarrow> distinct (map fst (sort_scores env rt infos dx scores))"
  by (metis mset_map mset_sort_scores mset_eq_imp_distinct_iff)

section \<open>Gates\<close>

lemma length_softmax_exps [simp]: "length (softmax_exps fo ss tau) = length ss"
  by (simp add: softmax_exps_def Let_def)

lemma softmax_some:
  "list_all (\<lambda>e. f32_is_finite (snd e)) logits \<Longrightarrow> \<exists>gs. deterministic_softmax fo logits tau = Some gs"
  by (simp add: deterministic_softmax_def Let_def)

lemma softmax_length: "deterministic_softmax fo logits tau = Some gs \<Longrightarrow> length gs = length logits"
  by (auto simp: deterministic_softmax_def Let_def split: if_splits)

lemma softmax_scores_only:
  "map snd xs = map snd ys \<Longrightarrow> deterministic_softmax fo xs tau = deterministic_softmax fo ys tau"
proof -
  assume eq: "map snd xs = map snd ys"
  then have len: "length xs = length ys" by (metis length_map)
  then have nil: "xs = [] \<longleftrightarrow> ys = []" by auto
  have "list_all f32_is_finite (map snd xs) = list_all f32_is_finite (map snd ys)" by (simp only: eq)
  then have fin: "list_all (\<lambda>e. f32_is_finite (snd e)) xs = list_all (\<lambda>e. f32_is_finite (snd e)) ys"
    by (simp add: list.pred_map o_def)
  show ?thesis unfolding deterministic_softmax_def len nil fin eq by (rule refl)
qed

lemma normalized_gates_length:
  "normalized_gates fo rt best = Some (Some gs) \<Longrightarrow> length gs = length best \<and> gs \<noteq> []"
  by (auto simp: normalized_gates_def Let_def floor_gates_def dest: softmax_length
      split: option.splits if_splits)

section \<open>The routing call\<close>

text \<open>How a routing call can end.\<close>

lemma route_cases:
  assumes "route_with_scope env rt features priors infos pmask hint dx = r"
  obtains (error) e where "r = Some (Err e, rt)"
  | (none) "r = Some (Ok (empty_decision_with_mask pmask), rt)"
  | (selected) scores best gates where
      "length (scope_priors hint priors infos) = length infos"
      "length (pm_allowed pmask) = length infos"
      "score_loop (re_floats env) rt features infos (pm_allowed pmask) 0
         (scope_priors hint priors infos) = Ok scores"
      "best = take (rt_k rt) (sort_scores env rt infos dx scores)"
      "normalized_gates (re_floats env) rt best = Some (Some gates)"
      "r = Some (case finish_decision env rt features (scope_priors hint priors infos) infos pmask
                        best gates of (d, rt') \<Rightarrow> (Ok d, rt'))"
proof -
  let ?ps = "scope_priors hint priors infos"
  consider (early) e where "r = Some (Err e, rt)"
    | (empty) "r = Some (Ok (empty_decision_with_mask pmask), rt)"
    | (scored) scores where "length ?ps = length infos" "length (pm_allowed pmask) = length infos"
      "score_loop (re_floats env) rt features infos (pm_allowed pmask) 0 ?ps = Ok scores"
      "r = route_scored env rt features ?ps infos pmask dx scores"
    using assms
    by (auto simp: route_with_scope_def Let_def split: sum.splits if_splits)
  then show thesis
  proof cases
    case scored
    define best where "best = take (rt_k rt) (sort_scores env rt infos dx scores)"
    have "list_all (\<lambda>e. f32_is_finite (snd e)) best"
      using score_loop_finite [OF scored(3)]
      by (auto simp: best_def list_all_iff dest!: in_set_takeD)
    then obtain gs where "deterministic_softmax (re_floats env) best (rt_tau rt) = Some gs"
      using softmax_some by blast
    then have "normalized_gates (re_floats env) rt best \<noteq> None"
      by (simp add: normalized_gates_def Let_def)
    then consider "normalized_gates (re_floats env) rt best = Some None"
      | gates where "normalized_gates (re_floats env) rt best = Some (Some gates)"
      by (metis not_None_eq)
    then show thesis
    proof cases
      case 1
      with scored none show thesis by (simp add: route_scored_def best_def Let_def split: if_splits)
    next
      case (2 gates)
      with scored none selected [OF scored(1-3) best_def 2] show thesis
        by (auto simp: route_scored_def best_def Let_def split: if_splits prod.splits)
    qed
  qed (use error none in blast)+
qed

text \<open>
  Routing never panics, whatever the inputs, the rounding and the state of the router.
\<close>

theorem route_never_panics:
  "route_with_scope env rt features priors infos pmask hint dx \<noteq> None"
  by (rule route_cases [OF refl]) (auto split: prod.splits)

section \<open>The selection\<close>

lemma idx_u16: "i < 65536 \<Longrightarrow> unat (of_nat i :: 16 word) = i"
  by (simp add: unat_of_nat take_bit_nat_eq_self)

lemma make_candidates_idx:
  "length gates = length best \<Longrightarrow>
   map dc_adapter_idx (make_candidates fo best gates) = map (\<lambda>e. of_nat (fst e)) best"
proof -
  assume "length gates = length best"
  then have "map (\<lambda>e. of_nat (fst e) :: 16 word) (map fst (zip best gates)) = map (\<lambda>e. of_nat (fst e)) best"
    by simp
  then show ?thesis by (simp add: make_candidates_def case_prod_unfold o_def)
qed

lemma finish_indices:
  assumes "finish_decision env rt features priors infos pmask best gates = (d, rt')"
    and "length gates = length best"
  shows "mset (dn_indices d) = mset (map (\<lambda>e. of_nat (fst e)) best)"
    and "dn_indices d = map dc_adapter_idx (dn_candidates d)"
    and "dn_gates_q15 d = map dc_gate_q15 (dn_candidates d)"
    and "dn_candidates d = sort_candidates_canonical infos (make_candidates (re_floats env) best gates)"
    and "dn_policy_mask_digest d = Some (pm_digest pmask)"
    and "dn_entropy d = compute_entropy (re_floats env) gates"
proof -
  show cs: "dn_candidates d = sort_candidates_canonical infos (make_candidates (re_floats env) best gates)"
    and idx: "dn_indices d = map dc_adapter_idx (dn_candidates d)"
    and "dn_gates_q15 d = map dc_gate_q15 (dn_candidates d)"
    and "dn_policy_mask_digest d = Some (pm_digest pmask)"
    and "dn_entropy d = compute_entropy (re_floats env) gates"
    using assms(1) by (auto simp: finish_decision_def Let_def)
  have "mset (dn_indices d) = mset (map dc_adapter_idx (make_candidates (re_floats env) best gates))"
    by (simp add: idx cs sort_candidates_canonical_def)
  then show "mset (dn_indices d) = mset (map (\<lambda>e. of_nat (fst e)) best)"
    by (simp only: make_candidates_idx [OF assms(2)])
qed

lemma candidate_gate_bounds:
  "c \<in> set (sort_candidates_canonical infos (make_candidates fo best gates)) \<Longrightarrow>
   sint (dc_gate_q15 c) \<in> {0..32767}"
  by (auto simp: sort_candidates_canonical_def make_candidates_def
      quantize_gate_bounds [unfolded atLeastAtMost_iff])

definition decision_allowed :: "policy_mask \<Rightarrow> router_decision \<Rightarrow> bool" where
  "decision_allowed pmask d \<longleftrightarrow>
     list_all (\<lambda>idx. unat idx < length (pm_allowed pmask) \<and> pm_allowed pmask ! unat idx)
       (dn_indices d)"

lemma selected_facts:
  assumes scores: "score_loop fo rt features infos (pm_allowed pmask) 0 ps = Ok scores"
    and best: "best = take k (sort_scores env rt infos dx scores)"
    and len: "length ps = length infos" "length infos \<le> 65536"
  shows "distinct (map (\<lambda>e. of_nat (fst e) :: 16 word) best)"
    and "e \<in> set best \<Longrightarrow> fst e < length (pm_allowed pmask) \<and> pm_allowed pmask ! fst e \<and>
           unat (of_nat (fst e) :: 16 word) = fst e"
proof -
  have in_range: "fst e < length infos \<and> fst e < length (pm_allowed pmask) \<and> pm_allowed pmask ! fst e"
    if "e \<in> set scores" for e
  proof -
    from that have "fst e \<in> set (map fst scores)" by simp
    then show ?thesis unfolding score_loop_fst [OF scores] using len(1) by auto
  qed
  have sub: "set best \<subseteq> set scores" using best by (auto dest: in_set_takeD)
  have d: "distinct (map fst best)"
    using distinct_sort_scores [OF score_loop_distinct [OF scores]]
    by (simp add: best take_map [symmetric] distinct_take)
  have "inj_on (of_nat :: nat \<Rightarrow> 16 word) (set (map fst best))"
  proof (rule inj_onI)
    fix x y assume "x \<in> set (map fst best)" "y \<in> set (map fst best)" and eq: "(of_nat x :: 16 word) = of_nat y"
    then have "x < 65536" "y < 65536" using in_range sub len(2) by fastforce+
    then show "x = y" using eq idx_u16 by metis
  qed
  with d have "distinct (map of_nat (map fst best) :: 16 word list)" by (simp only: distinct_map)
  then show "distinct (map (\<lambda>e. of_nat (fst e) :: 16 word) best)" by (simp add: o_def)
  show "e \<in> set best \<Longrightarrow> fst e < length (pm_allowed pmask) \<and> pm_allowed pmask ! fst e \<and>
          unat (of_nat (fst e) :: 16 word) = fst e"
    using in_range sub len(2) by (fastforce intro: idx_u16)
qed

text \<open>
  (C1) A decision obeys the policy mask: with at most 65536 adapters, every selected adapter is
  in range and allowed by the mask, no adapter is selected twice, at most \<open>k\<close> are, each has
  one gate in the Q15 range, and the decision carries the digest of the mask.
\<close>

theorem route_respects_mask:
  assumes "route_with_scope env rt features priors infos pmask hint dx = Some (Ok d, rt')"
    and "length infos \<le> 65536"
  shows "decision_allowed pmask d \<and> distinct (dn_indices d) \<and> length (dn_indices d) \<le> rt_k rt \<and>
         length (dn_gates_q15 d) = length (dn_indices d) \<and>
         list_all (\<lambda>g. sint g \<in> {0..32767}) (dn_gates_q15 d) \<and>
         dn_policy_mask_digest d = Some (pm_digest pmask)"
  using assms(1)
proof (cases rule: route_cases)
  case none
  then have "d = empty_decision_with_mask pmask" by simp
  then show ?thesis by (simp add: empty_decision_with_mask_def decision_allowed_def)
next
  case (selected scores best gates)
  then have fin: "finish_decision env rt features (scope_priors hint priors infos) infos pmask
      best gates = (d, rt')" by (simp split: prod.splits)
  have len: "length gates = length best" using normalized_gates_length selected(5) by blast
  note f = finish_indices [OF fin len]
  note sel = selected_facts [OF selected(3,4,1) assms(2)]
  have "set (dn_indices d) = (\<lambda>e. of_nat (fst e)) ` set best"
    by (metis f(1) list.set_map set_mset_mset)
  then have "decision_allowed pmask d" using sel(2) by (auto simp: decision_allowed_def list_all_iff)
  moreover have "distinct (dn_indices d)" using sel(1) f(1) mset_eq_imp_distinct_iff by blast
  moreover have "length (dn_indices d) \<le> rt_k rt"
    using mset_eq_length [OF f(1)] selected(4) by simp
  moreover have "length (dn_gates_q15 d) = length (dn_indices d)" by (simp add: f(2,3))
  moreover have "list_all (\<lambda>g. sint g \<in> {0..32767}) (dn_gates_q15 d)"
    using candidate_gate_bounds f(4) by (auto simp: f(3) list_all_iff)
  ultimately show ?thesis using f(5) by simp
qed simp

section \<open>The best are selected\<close>

lemma sorted_take_drop:
  assumes "sorted (map f xs)" and x: "x \<in> set (take k xs)" and y: "y \<in> set (drop k xs)"
  shows "f x \<le> f y"
proof -
  have "sorted (map f (take k xs) @ map f (drop k xs))"
    using assms(1) by (simp add: map_append [symmetric] del: map_append)
  with x y show ?thesis by (auto simp: sorted_append)
qed

lemma score_loop_complete:
  assumes "score_loop fo rt features infos allowed i ps = Ok r"
    and "i \<le> j" "j < i + length ps" "j < length allowed" "allowed ! j"
  shows "\<exists>s. (j, s) \<in> set r"
proof -
  have "j \<in> set (map fst r)" unfolding score_loop_fst [OF assms(1)] using assms(2-) by auto
  then show ?thesis by auto
qed

definition adapter_score ::
  "router_env \<Rightarrow> router \<Rightarrow> f32b list \<Rightarrow> f32b list \<Rightarrow> adapter_info list \<Rightarrow> string option \<Rightarrow> nat \<Rightarrow>
   (aos_error, f32b) result" where
  "adapter_score env rt features priors infos hint i =
     score_adapter (re_floats env) rt features (infos ! i) i (scope_priors hint priors infos ! i)"

text \<open>
  The order of the scores is not quite the one that the comment at the sort describes: a negative zero is sorted
  after a positive one, whatever the stable identifiers, and a positive NaN before every number.
\<close>

theorem sort_splits_zeros:
  "sort_scores_deterministic infos [(i, 0x80000000), (j, 0)] = [(j, 0), (i, 0x80000000)] \<and>
   (\<not> f32_is_nan v \<and> f32_is_nan w \<and> \<not> bit w 31 \<longrightarrow>
     sort_scores_deterministic infos [(i, v), (j, w)] = [(j, w), (i, v)])"
proof -
  have z: "f32_total_key 0x80000000 < f32_total_key 0"
    by (simp add: f32_total_key_def f32_mag_def)
  have n: "f32_total_key v < f32_total_key w" if "\<not> f32_is_nan v" "f32_is_nan w" "\<not> bit w 31"
  proof -
    have "0 \<le> f32_mag v" by (simp add: f32_mag_def)
    with that show ?thesis by (auto simp: f32_total_key_def f32_is_nan_def)
  qed
  have swap: "sort_scores_deterministic infos [(i, x), (j, y)] = [(j, y), (i, x)]"
    if "f32_total_key x < f32_total_key y" for x y
    using that by (simp add: sort_scores_deterministic_def score_order_def)
  show ?thesis using swap [OF z] swap [OF n] by blast
qed

text \<open>
  (C3) The best adapters are selected: in deterministic mode, with at most 65536 adapters, a decision
  that is not empty and leaves out an allowed adapter selects as many adapters as \<open>k\<close> admits, and
  against every allowed adapter that it leaves out each selected one has the higher score in the order
  of \<open>f32::total_cmp\<close> (in which -0.0 is below +0.0 and a positive NaN above every number), or
  the same score and no larger stable identifier.
\<close>

theorem route_selects_best:
  assumes "route_with_scope env rt features priors infos pmask hint dx = Some (Ok d, rt')"
    and "\<not> rt_adaptive_routing rt" and "length infos \<le> 65536" and "dn_indices d \<noteq> []"
    and "of_nat i \<in> set (dn_indices d)" and "i < length infos"
    and "of_nat j \<notin> set (dn_indices d)" and "j < length infos" and "pm_allowed pmask ! j"
  shows "length (dn_indices d) = rt_k rt \<and>
    (\<exists>s t. adapter_score env rt features priors infos hint i = Ok s \<and>
           adapter_score env rt features priors infos hint j = Ok t \<and>
           (f32_total_key t < f32_total_key s \<or>
            s = t \<and> ai_stable_id (infos ! i) \<le> ai_stable_id (infos ! j)))"
  using assms(1)
proof (cases rule: route_cases)
  case none
  with assms(4) show ?thesis by (simp add: empty_decision_with_mask_def)
next
  case (selected scores best gates)
  let ?sorted = "sort_scores_deterministic infos scores"
  have best: "best = take (rt_k rt) ?sorted"
    using selected(4) assms(2) by (simp add: sort_scores_def)
  have fin: "finish_decision env rt features (scope_priors hint priors infos) infos pmask
      best gates = (d, rt')" using selected by (simp split: prod.splits)
  have len: "length gates = length best" using normalized_gates_length selected(5) by blast
  note f = finish_indices [OF fin len]
  note sel = selected_facts [OF selected(3,4,1) assms(3)]
  have ind: "set (dn_indices d) = (\<lambda>e. of_nat (fst e)) ` set best"
    by (metis f(1) list.set_map set_mset_mset)
  have "unat (of_nat i :: 16 word) = i" using assms(3,6) by (intro idx_u16) simp
  then obtain s where s: "(i, s) \<in> set best" using ind assms(5) sel(2) by force
  obtain t where t: "(j, t) \<in> set scores"
    using score_loop_complete [OF selected(3), of j] selected(1,2) assms(8,9) by auto
  have "(j, t) \<notin> set best" using ind assms(7) by force
  with t best have tj: "(j, t) \<in> set (drop (rt_k rt) ?sorted)"
    by (metis Un_iff append_take_drop_id set_append set_sort sort_scores_deterministic_def)
  then have "length best = rt_k rt" by (auto simp: best min_def dest: length_pos_if_in_set)
  moreover have "length (dn_indices d) = length best" using mset_eq_length [OF f(1)] by simp
  moreover have "f32_total_key t < f32_total_key s \<or>
      s = t \<and> ai_stable_id (infos ! i) \<le> ai_stable_id (infos ! j)"
  proof -
    have "score_order infos (i, s) \<le> score_order infos (j, t)"
      by (rule sorted_take_drop [OF _ _ tj]) (use s best in \<open>simp_all add: sort_scores_deterministic_def\<close>)
    then show ?thesis by (auto simp: score_order_def less_eq_prod_def f32_total_key_inject)
  qed
  moreover have "adapter_score env rt features priors infos hint i = Ok s"
  proof -
    have "(i, s) \<in> set (sort_scores env rt infos dx scores)"
      using s unfolding selected(4) by (rule in_set_takeD)
    then show ?thesis using score_loop_score [OF selected(3), of i s] by (simp add: adapter_score_def)
  qed
  moreover have "adapter_score env rt features priors infos hint j = Ok t"
    using score_loop_score [OF selected(3) t] by (simp add: adapter_score_def)
  ultimately show ?thesis by simp
qed simp

section \<open>The order of the adapters does not matter\<close>

text \<open>What identifies an adapter independently of its position.\<close>

definition score_view :: "adapter_info list \<Rightarrow> nat \<times> f32b \<Rightarrow> u64 \<times> f32b" where
  "score_view infos e = (ai_stable_id (infos ! fst e), snd e)"

definition view_order :: "u64 \<times> f32b \<Rightarrow> int \<times> u64" where
  "view_order v = (- f32_total_key (snd v), fst v)"

lemma view_order_inj: "inj view_order"
  by (auto simp: inj_def view_order_def f32_total_key_inject prod_eq_iff)

lemma sort_key_map: "map f (sort_key (\<lambda>x. g (f x)) xs) = sort_key g (map f xs)"
proof -
  have "map f (insort_key (\<lambda>x. g (f x)) x ys) = insort_key g (f x) (map f ys)" for x ys
    by (induction ys) auto
  then show ?thesis by (induction xs) (simp_all)
qed

lemma sorted_unique:
  assumes "mset xs = mset ys" "sorted (map g xs)" "sorted (map g ys)" "inj g"
  shows "xs = ys"
proof -
  have "mset (map g xs) = mset (map g ys)" using assms(1) by simp
  then have "map g xs = map g ys"
    using properties_for_sort [of "map g xs" "map g ys"] assms(2,3) by (simp add: sorted_sort_id)
  then show ?thesis using assms(4) by (metis inj_map_eq_map)
qed

lemma sort_key_mset: "mset xs = mset ys \<Longrightarrow> inj g \<Longrightarrow> sort_key g xs = sort_key g ys"
  by (rule sorted_unique [where g = g]) simp_all

lemma sorted_map_mono:
  "sorted (map f xs) \<Longrightarrow> (\<And>x y. f x \<le> f y \<Longrightarrow> g x \<le> g y) \<Longrightarrow> sorted (map g xs)"
  unfolding sorted_wrt_map by (rule sorted_wrt_mono_rel) auto

lemma sorted_view:
  "map (score_view infos) (sort_scores_deterministic infos scores) =
   sort_key view_order (map (score_view infos) scores)"
proof -
  have "score_order infos = (\<lambda>e. view_order (score_view infos e))"
    by (auto simp: score_order_def view_order_def score_view_def)
  then show ?thesis by (simp add: sort_scores_deterministic_def sort_key_map)
qed

definition candidate_view :: "adapter_info list \<Rightarrow> decision_candidate \<Rightarrow> u64 \<times> f32b \<times> i16" where
  "candidate_view infos c =
     (ai_stable_id (infos ! unat (dc_adapter_idx c)), dc_raw_score c, dc_gate_q15 c)"

definition decision_view :: "adapter_info list \<Rightarrow> router_decision \<Rightarrow> (u64 \<times> f32b \<times> i16) list" where
  "decision_view infos d = map (candidate_view infos) (dn_candidates d)"

definition candidate_view_order :: "u64 \<times> f32b \<times> i16 \<Rightarrow> int \<times> int \<times> u64" where
  "candidate_view_order v = (- sint (snd (snd v)), - f32_total_key (fst (snd v)), fst v)"

lemma candidate_view_order_inj: "inj candidate_view_order"
  by (auto simp: inj_def candidate_view_order_def f32_total_key_inject prod_eq_iff
      dest: arg_cong [where f = "word_of_int :: int \<Rightarrow> i16"])

lemma sorted_candidate_view:
  "map (candidate_view infos) (sort_candidates_canonical infos cs) =
   sort_key candidate_view_order (map (candidate_view infos) cs)"
proof (rule sorted_unique [where g = candidate_view_order])
  have "sorted (map (\<lambda>c. candidate_view_order (candidate_view infos c))
      (sort_key (candidate_order infos) cs))"
    by (rule sorted_map_mono [where f = "candidate_order infos"])
      (auto simp: candidate_order_def candidate_view_order_def candidate_view_def less_eq_prod_def)
  then show "sorted (map candidate_view_order (map (candidate_view infos)
      (sort_candidates_canonical infos cs)))"
    by (simp add: sort_candidates_canonical_def o_def)
qed (simp_all add: sort_candidates_canonical_def candidate_view_order_inj)

lemma make_candidates_view:
  assumes "\<And>e. e \<in> set best \<Longrightarrow> unat (of_nat (fst e) :: 16 word) = fst e"
  shows "map (candidate_view infos) (make_candidates fo best gates) =
    map (\<lambda>(v, g). (fst v, snd v, quantize_gate fo g)) (zip (map (score_view infos) best) gates)"
  using assms
proof (induction best arbitrary: gates)
  case Nil
  then show ?case by (simp add: make_candidates_def)
next
  case (Cons e best)
  from Cons.prems [of e] have "unat (of_nat (fst e) :: 16 word) = fst e" by simp
  with Cons show ?case
    by (cases gates; cases e)
      (simp_all add: make_candidates_def candidate_view_def score_view_def)
qed

lemma score_adapter_index:
  assumes "\<not> rt_orthogonal_enabled rt"
  shows "score_adapter fo rt features info i p = Ok s \<longleftrightarrow> score_adapter fo rt features info 0 p = Ok s"
  using assms by (simp add: score_adapter_def compute_adapter_orthogonal_penalty_def Let_def)

text \<open>The adapters with their priors and mask bits, in one list.\<close>

type_synonym entry = "f32b \<times> adapter_info \<times> bool"

definition entry_view :: "float_ops \<Rightarrow> router \<Rightarrow> f32b list \<Rightarrow> entry \<Rightarrow> u64 \<times> f32b" where
  "entry_view fo rt features z =
     (case z of (p, info, a) \<Rightarrow>
        (ai_stable_id info, (case score_adapter fo rt features info 0 p of Ok s \<Rightarrow> s | Err _ \<Rightarrow> 0)))"

definition entry_ok :: "float_ops \<Rightarrow> router \<Rightarrow> f32b list \<Rightarrow> entry \<Rightarrow> bool" where
  "entry_ok fo rt features z =
     (case z of (p, info, a) \<Rightarrow> a \<longrightarrow> is_ok (score_adapter fo rt features info 0 p))"

lemma entry_simps [simp]:
  "entry_ok fo rt features (p, info, a) = (a \<longrightarrow> is_ok (score_adapter fo rt features info 0 p))"
  "entry_view fo rt features (p, info, a) =
     (ai_stable_id info, (case score_adapter fo rt features info 0 p of Ok s \<Rightarrow> s | Err _ \<Rightarrow> 0))"
  by (simp_all add: entry_ok_def entry_view_def)

lemma score_loop_view:
  assumes "\<not> rt_orthogonal_enabled rt"
    and "length infos = i + length ps" and "length allowed = i + length ps"
    and "zs = zip ps (zip (drop i infos) (drop i allowed))"
  shows "(if list_all (entry_ok fo rt features) zs
          then \<exists>r. score_loop fo rt features infos allowed i ps = Ok r \<and>
                 map (score_view infos) r = map (entry_view fo rt features) (filter (\<lambda>z. snd (snd z)) zs)
          else \<exists>e. score_loop fo rt features infos allowed i ps = Err e)"
  using assms(2-)
proof (induction ps arbitrary: i zs)
  case (Cons p ps)
  let ?zs = "zip ps (zip (drop (Suc i) infos) (drop (Suc i) allowed))"
  have zs: "zs = (p, infos ! i, allowed ! i) # ?zs"
    using Cons.prems by (simp add: Cons_nth_drop_Suc [symmetric])
  have i: "i < length allowed" using Cons.prems by simp
  have IH: "if list_all (entry_ok fo rt features) ?zs
      then \<exists>r. score_loop fo rt features infos allowed (Suc i) ps = Ok r \<and>
             map (score_view infos) r = map (entry_view fo rt features) (filter (\<lambda>z. snd (snd z)) ?zs)
      else \<exists>e. score_loop fo rt features infos allowed (Suc i) ps = Err e"
    using Cons.IH [of "Suc i" ?zs] Cons.prems(1,2) by simp
  show ?case
  proof (cases "allowed ! i")
    case False
    with IH i show ?thesis unfolding zs by (simp split: if_splits)
  next
    case True
    show ?thesis
    proof (cases "score_adapter fo rt features (infos ! i) 0 p")
      case (Inl e)
      then obtain e' where "score_adapter fo rt features (infos ! i) i p = Err e'"
        using score_adapter_index [OF assms(1)] by (metis Inl_Inr_False obj_sumE)
      with True i Inl show ?thesis by (simp add: zs)
    next
      case (Inr s)
      then have s: "score_adapter fo rt features (infos ! i) i p = Ok s"
        using score_adapter_index [OF assms(1)] by blast
      show ?thesis
      proof (cases "list_all (entry_ok fo rt features) ?zs")
        case True
        with IH obtain r where
          "score_loop fo rt features infos allowed (Suc i) ps = Ok r"
          "map (score_view infos) r = map (entry_view fo rt features) (filter (\<lambda>z. snd (snd z)) ?zs)"
          by auto
        with True \<open>allowed ! i\<close> i s Inr show ?thesis
          by (simp add: zs score_view_def)
      next
        case False
        with IH obtain e where "score_loop fo rt features infos allowed (Suc i) ps = Err e"
          by auto
        with False \<open>allowed ! i\<close> i s Inr show ?thesis by (simp add: zs)
      qed
    qed
  qed
qed simp

lemma check_numerics_ok: "check_numerics vs = Ok () \<longleftrightarrow> list_all f32_is_finite vs"
proof -
  have "check_numerics_from i vs = None \<longleftrightarrow> list_all f32_is_finite vs" for i
    by (induction vs arbitrary: i) auto
  from this [of 0] show ?thesis by (auto simp: check_numerics_def split: option.split)
qed

lemma validate_ok:
  "is_ok (validate_router_inputs features priors) \<longleftrightarrow>
   list_all f32_is_finite features \<and> list_all f32_is_finite priors"
  using check_numerics_ok [of features] check_numerics_ok [of priors]
  by (cases "check_numerics features"; cases "check_numerics priors")
    (auto simp: validate_router_inputs_def)

text \<open>The priors under a scope hint, entry by entry.\<close>

definition scope_entry :: "string option \<Rightarrow> bool \<Rightarrow> entry \<Rightarrow> entry" where
  "scope_entry hint matched z =
     (if matched \<and> ai_scope_path (fst (snd z)) \<noteq> hint then (lit_minus_1e9, snd z) else z)"

definition scope_matched :: "string option \<Rightarrow> entry list \<Rightarrow> bool" where
  "scope_matched hint zs \<longleftrightarrow> hint \<noteq> None \<and> list_ex (\<lambda>z. ai_scope_path (fst (snd z)) = hint) zs"

definition entries :: "f32b list \<Rightarrow> adapter_info list \<Rightarrow> policy_mask \<Rightarrow> entry list" where
  "entries priors infos pmask = zip priors (zip infos (pm_allowed pmask))"

lemma scope_priors_entries:
  assumes "length priors = length infos" and "length (pm_allowed pmask) = length infos"
  shows "length (scope_priors hint priors infos) = length infos"
    and "entries (scope_priors hint priors infos) infos pmask =
      map (scope_entry hint (scope_matched hint (entries priors infos pmask)))
        (entries priors infos pmask)"
proof -
  show len: "length (scope_priors hint priors infos) = length infos"
    using assms by (simp add: scope_priors_def split: option.split)
  have ex: "list_ex (\<lambda>(p, info). ai_scope_path info = Some h) (zip priors infos) \<longleftrightarrow>
      list_ex (\<lambda>z. ai_scope_path (fst (snd z)) = Some h) (entries priors infos pmask)" for h
    using assms by (auto simp: list_ex_length entries_def)
  show "entries (scope_priors hint priors infos) infos pmask =
      map (scope_entry hint (scope_matched hint (entries priors infos pmask)))
        (entries priors infos pmask)"
  proof (rule nth_equalityI)
    show "length (entries (scope_priors hint priors infos) infos pmask) =
      length (map (scope_entry hint (scope_matched hint (entries priors infos pmask)))
        (entries priors infos pmask))" using assms len by (simp add: entries_def)
  next
    fix i assume "i < length (entries (scope_priors hint priors infos) infos pmask)"
    then have i: "i < length infos" using assms len by (simp add: entries_def)
    show "entries (scope_priors hint priors infos) infos pmask ! i =
      map (scope_entry hint (scope_matched hint (entries priors infos pmask)))
        (entries priors infos pmask) ! i"
    proof (cases hint)
      case None
      with i assms show ?thesis
        by (simp add: entries_def scope_priors_def scope_entry_def scope_matched_def)
    next
      case (Some h)
      show ?thesis
      proof (cases "list_ex (\<lambda>z. ai_scope_path (fst (snd z)) = Some h) (entries priors infos pmask)")
        case True
        with Some i assms ex [of h] show ?thesis
          by (simp add: entries_def scope_priors_def scope_entry_def scope_matched_def nth_append)
      next
        case False
        with Some i assms ex [of h] show ?thesis
          by (simp add: entries_def scope_priors_def scope_entry_def scope_matched_def)
      qed
    qed
  qed
qed

lemma finish_view:
  assumes "finish_decision env rt features ps infos pmask best gates = (d, rt1)"
    and "length gates = length best"
    and "\<And>e. e \<in> set best \<Longrightarrow> unat (of_nat (fst e) :: 16 word) = fst e"
  shows "decision_view infos d = sort_key candidate_view_order
    (map (\<lambda>(v, g). (fst v, snd v, quantize_gate (re_floats env) g))
      (zip (map (score_view infos) best) gates))"
  using finish_indices(4) [OF assms(1,2)]
  by (simp add: decision_view_def sorted_candidate_view make_candidates_view [OF assms(3)])

lemma route_scored_view:
  assumes det: "\<not> rt_adaptive_routing rt"
    and ms: "mset (map (score_view infos) scores) = mset (map (score_view infos') scores')"
    and rng: "\<And>e. e \<in> set scores \<union> set scores' \<Longrightarrow> unat (of_nat (fst e) :: 16 word) = fst e"
    and r: "route_scored env rt features ps infos pmask dx scores = Some (Ok d, rt1)"
  shows "\<exists>d' rt2. route_scored env rt features ps' infos' pmask' dx scores' = Some (Ok d', rt2) \<and>
    decision_view infos' d' = decision_view infos d \<and> dn_entropy d' = dn_entropy d"
proof -
  define best where "best = take (rt_k rt) (sort_scores_deterministic infos scores)"
  define best' where "best' = take (rt_k rt) (sort_scores_deterministic infos' scores')"
  have ss: "sort_scores env rt i dx sc = sort_scores_deterministic i sc" for i sc
    using det by (simp add: sort_scores_def)
  have views: "map (score_view infos') best' = map (score_view infos) best"
    unfolding best_def best'_def take_map [symmetric] sorted_view
    using sort_key_mset [OF ms view_order_inj] by simp
  have "map snd best' = map snd best"
    using arg_cong [OF views, of "map snd"] by (simp add: o_def score_view_def)
  then have "deterministic_softmax (re_floats env) best' (rt_tau rt) =
      deterministic_softmax (re_floats env) best (rt_tau rt)" by (rule softmax_scores_only)
  then have ng: "normalized_gates (re_floats env) rt best' = normalized_gates (re_floats env) rt best"
    by (simp add: normalized_gates_def)
  have nil: "scores' = [] \<longleftrightarrow> scores = []" using mset_eq_length [OF ms] by auto
  have rb: "unat (of_nat (fst e) :: 16 word) = fst e" if "e \<in> set best \<union> set best'" for e
  proof (rule rng)
    show "e \<in> set scores \<union> set scores'"
      using that by (auto simp: best_def best'_def sort_scores_deterministic_def dest!: in_set_takeD)
  qed
  show ?thesis
  proof (cases "scores = [] \<or> normalized_gates (re_floats env) rt best = Some None")
    case True
    with r nil ng have "d = empty_decision_with_mask pmask"
      and "route_scored env rt features ps' infos' pmask' dx scores' =
        Some (Ok (empty_decision_with_mask pmask'), rt)"
      by (auto simp: route_scored_def ss best_def [symmetric] best'_def [symmetric] Let_def)
    then show ?thesis by (simp add: decision_view_def empty_decision_with_mask_def)
  next
    case False
    with r obtain gates where g: "normalized_gates (re_floats env) rt best = Some (Some gates)"
      and fin: "finish_decision env rt features ps infos pmask best gates = (d, rt1)"
      by (auto simp: route_scored_def ss best_def [symmetric] Let_def split: option.splits prod.splits)
    obtain d' rt2 where fin': "finish_decision env rt features ps' infos' pmask' best' gates = (d', rt2)"
      by fastforce
    have "route_scored env rt features ps' infos' pmask' dx scores' = Some (Ok d', rt2)"
      using False nil ng g fin' by (simp add: route_scored_def ss best'_def [symmetric] Let_def)
    moreover have len: "length gates = length best" "length gates = length best'"
      using normalized_gates_length g ng by metis+
    moreover have "decision_view infos' d' = decision_view infos d"
      using finish_view [OF fin len(1)] finish_view [OF fin' len(2)] rb by (simp add: views)
    moreover have "dn_entropy d' = dn_entropy d"
      using finish_indices(6) [OF fin len(1)] finish_indices(6) [OF fin' len(2)] by simp
    ultimately show ?thesis by blast
  qed
qed

abbreviation scored ::
  "router_env \<Rightarrow> router \<Rightarrow> f32b list \<Rightarrow> f32b list \<Rightarrow> adapter_info list \<Rightarrow> policy_mask \<Rightarrow>
   string option \<Rightarrow> (aos_error, (nat \<times> f32b) list) result" where
  "scored env rt features priors infos pmask hint \<equiv>
     score_loop (re_floats env) rt features infos (pm_allowed pmask) 0
       (scope_priors hint priors infos)"

text \<open>In deterministic mode with aligned lists only the scores decide the outcome.\<close>

lemma route_ok_iff:
  assumes "length priors = length infos" "length (pm_allowed pmask) = length infos"
    and "\<not> rt_adaptive_routing rt"
  shows "route_with_scope env rt features priors infos pmask hint dx = Some (Ok d, rt1) \<longleftrightarrow>
    is_ok (validate_router_inputs features priors) \<and>
    (\<exists>scores. scored env rt features priors infos pmask hint = Ok scores \<and>
       route_scored env rt features (scope_priors hint priors infos) infos pmask dx scores
         = Some (Ok d, rt1))"
  using scope_priors_entries(1) [OF assms(1,2), of hint] assms(2,3)
  by (cases "validate_router_inputs features priors")
    (auto simp: route_with_scope_def Let_def split: sum.splits)

lemma scored_range:
  assumes "scored env rt features priors infos pmask hint = Ok scores"
    and "length priors = length infos" "length (pm_allowed pmask) = length infos"
    and "length infos \<le> 65536" "e \<in> set scores"
  shows "unat (of_nat (fst e) :: 16 word) = fst e"
proof (rule idx_u16)
  from assms(5) have "fst e \<in> set (map fst scores)" by simp
  then show "fst e < 65536"
    unfolding score_loop_fst [OF assms(1)]
    using assms(4) scope_priors_entries(1) [OF assms(2,3), of hint] by auto
qed

abbreviation scoped_entries where
  "scoped_entries hint priors infos pmask \<equiv> entries (scope_priors hint priors infos) infos pmask"

lemma scored_view:
  assumes "\<not> rt_orthogonal_enabled rt"
    and "length priors = length infos" "length (pm_allowed pmask) = length infos"
  shows "if list_all (entry_ok (re_floats env) rt features) (scoped_entries hint priors infos pmask)
    then \<exists>r. scored env rt features priors infos pmask hint = Ok r \<and>
      map (score_view infos) r =
        map (entry_view (re_floats env) rt features)
          (filter (\<lambda>z. snd (snd z)) (scoped_entries hint priors infos pmask))
    else \<exists>e. scored env rt features priors infos pmask hint = Err e"
  by (rule score_loop_view [OF assms(1)])
    (use scope_priors_entries(1) [OF assms(2,3), of hint] assms(3) in \<open>simp_all add: entries_def\<close>)

lemma scoped_entries_mset:
  assumes "mset (entries priors infos pmask) = mset (entries priors' infos' pmask')"
    and "length priors = length infos" "length (pm_allowed pmask) = length infos"
    and "length priors' = length infos'" "length (pm_allowed pmask') = length infos'"
  shows "mset (scoped_entries hint priors infos pmask) = mset (scoped_entries hint priors' infos' pmask')"
    and "length infos' = length infos" and "set priors = set priors'"
proof -
  have "scope_matched hint (entries priors infos pmask) = scope_matched hint (entries priors' infos' pmask')"
    using mset_eq_setD [OF assms(1)] by (simp add: scope_matched_def list_ex_iff)
  then show "mset (scoped_entries hint priors infos pmask) = mset (scoped_entries hint priors' infos' pmask')"
    using assms(1) scope_priors_entries(2) [OF assms(2,3), of hint]
      scope_priors_entries(2) [OF assms(4,5), of hint] by simp
  show "length infos' = length infos"
    using mset_eq_length [OF assms(1)] assms(2-5) by (simp add: entries_def)
  have "fst ` set (entries priors infos pmask) = fst ` set (entries priors' infos' pmask')"
    using mset_eq_setD [OF assms(1)] by simp
  then show "set priors = set priors'"
    using assms(2-5) by (simp add: entries_def set_map [symmetric] del: set_map)
qed

text \<open>
  (C2) Routing does not depend on the order of the adapters: when the same adapters are listed
  in another order, with their priors and their mask bits, a router in deterministic mode
  without activation history decides the same: the same stable identifiers with the same
  scores and gates in the same order, and the same entropy.
\<close>

theorem route_order_independent:
  assumes "mset (entries priors infos pmask) = mset (entries priors' infos' pmask')"
    and "length priors = length infos" "length (pm_allowed pmask) = length infos"
    and "length priors' = length infos'" "length (pm_allowed pmask') = length infos'"
    and "length infos \<le> 65536"
    and "\<not> rt_adaptive_routing rt" and "\<not> rt_orthogonal_enabled rt"
    and "route_with_scope env rt features priors infos pmask hint dx = Some (Ok d, rt1)"
  shows "\<exists>d' rt2. route_with_scope env rt features priors' infos' pmask' hint dx = Some (Ok d', rt2) \<and>
    decision_view infos' d' = decision_view infos d \<and> dn_entropy d' = dn_entropy d"
proof -
  let ?ok = "entry_ok (re_floats env) rt features"
  note ms = scoped_entries_mset [OF assms(1-5)]
  from assms(9) obtain scores where
    val: "is_ok (validate_router_inputs features priors)"
    and scores: "scored env rt features priors infos pmask hint = Ok scores"
    and r: "route_scored env rt features (scope_priors hint priors infos) infos pmask dx scores
              = Some (Ok d, rt1)"
    unfolding route_ok_iff [OF assms(2,3,7)] by blast
  have val': "is_ok (validate_router_inputs features priors')"
    using val ms(3) by (simp add: validate_ok list_all_iff)
  note v = scored_view [OF assms(8,2,3), of env features hint]
  note v' = scored_view [OF assms(8,4,5), of env features hint]
  have ok: "list_all ?ok (scoped_entries hint priors infos pmask)"
    using v scores by (auto split: if_splits)
  then have "list_all ?ok (scoped_entries hint priors' infos' pmask')"
    using mset_eq_setD [OF ms(1) [of hint]] by (simp add: list_all_iff)
  with v' obtain scores' where
    scores': "scored env rt features priors' infos' pmask' hint = Ok scores'"
    and sv': "map (score_view infos') scores' = map (entry_view (re_floats env) rt features)
      (filter (\<lambda>z. snd (snd z)) (scoped_entries hint priors' infos' pmask'))" by auto
  have sv: "map (score_view infos) scores = map (entry_view (re_floats env) rt features)
      (filter (\<lambda>z. snd (snd z)) (scoped_entries hint priors infos pmask))"
    using v ok scores by auto
  have views: "mset (map (score_view infos) scores) = mset (map (score_view infos') scores')"
    unfolding sv sv' using ms(1) [of hint] by simp
  have rng: "unat (of_nat (fst e) :: 16 word) = fst e" if "e \<in> set scores \<union> set scores'" for e
    using that scored_range [OF scores assms(2,3,6), of e] scored_range [OF scores' assms(4,5), of e]
      ms(2) assms(6) by (cases "e \<in> set scores") simp_all
  from route_scored_view [OF assms(7) views rng r] show ?thesis
    unfolding route_ok_iff [OF assms(4,5,7)] using val' scores' by blast
qed

section \<open>Witnesses\<close>

definition example_env :: router_env where
  "example_env = \<lparr>re_floats = example_ops, re_seeds = sample_seed_env, re_rng = (\<lambda>_ n. replicate n 0),
     re_now1_us = 0, re_now2_us = 0\<rparr>"

definition example_router :: router where
  "example_router = router_new_with_weights router_weights_default 1 lit_1 lit_0_02"

definition example_infos :: "adapter_info list" where
  "example_infos = [adapter_info_default\<lparr>ai_stable_id := 7\<rparr>, adapter_info_default\<lparr>ai_stable_id := 3\<rparr>]"

definition example_mask :: policy_mask where
  "example_mask = mask_allow_all id [''a'', ''b''] None"

lemma example_mask_allowed: "pm_allowed example_mask = [True, True]"
  by (simp add: example_mask_def mask_allow_all_def Let_def numeral_2_eq_2)

lemma example_literals: "f32_is_finite lit_1" "f32_is_finite 0" "f32_is_finite lit_0_02" "\<not> f32_le lit_1 0"  "f32_le 0 lit_0_02" "f32_le lit_0_02 lit_1" "\<not> f32_lt lit_1 0" "\<not> f32_lt lit_2 lit_1" "\<not> f32_eq lit_1 0" "\<not> f32_lt lit_1 lit_0_02"
  by (simp_all add: f32_is_finite_def f32_mag_def f32_le_def f32_lt_def f32_eq_def f32_key_def f32_is_nan_def
     lit_1_def lit_2_def lit_0_02_def)

lemma example_router_fields: "rt_k example_router = 1" "rt_tau example_router = lit_1" "rt_eps example_router = lit_0_02"
  "\<not> rt_adaptive_routing example_router" "\<not> rt_orthogonal_enabled example_router"
  "rt_routing_bias example_router = lit_1" "\<not> rt_is_moe_model example_router"
  by (simp_all add: example_router_def router_new_with_weights_def sanitize_k_def max_k_def sanitize_tau_def sanitize_eps_def example_literals)

lemma example_score: "info \<in> set example_infos \<Longrightarrow> score_adapter example_ops example_router [] info i lit_1 = Ok lit_1"
  by (auto simp: score_adapter_def Let_def example_router_fields example_literals compute_adapter_feature_score_def compute_adapter_orthogonal_penalty_def
     compute_score_def example_infos_def adapter_info_default_def f32_clamp_def example_ops_def)

lemma example_scores: "score_loop example_ops example_router [] example_infos [True, True] 0 [lit_1, lit_1] = Ok [(0, lit_1), (1, lit_1)]"
  using example_score [of "example_infos ! 0"] example_score [of "example_infos ! 1"] by (simp add: example_infos_def)

lemma example_sorted: "sort_scores_deterministic example_infos [(0, lit_1), (1, lit_1)] = [(1, lit_1), (0, lit_1)]"
  by (simp add: sort_scores_deterministic_def score_order_def example_infos_def)

lemma example_gates: "normalized_gates example_ops example_router [(Suc 0, lit_1)] = Some (Some [lit_1])"
  by (simp add: normalized_gates_def deterministic_softmax_def Let_def example_router_fields example_literals softmax_exps_def
      kahan_sum_def kahan_step_def example_ops_def f64_is_zero_def f64_mag_def floor_gates_def sum32_def)

lemma example_length: "length example_infos = 2" by (simp add: example_infos_def)

lemma example_route: "\<exists>d rt'. route_with_scope example_env example_router [] [lit_1, lit_1] example_infos example_mask None None = Some (Ok d, rt') \<and> dn_indices d = [1]"
proof -
  obtain d rt' where fd: "finish_decision example_env example_router [] [lit_1, lit_1] example_infos example_mask [(Suc 0, lit_1)] [lit_1] = (d, rt')"
    by fastforce
  then have "dn_indices d = [1]"
    by (auto simp: finish_decision_def Let_def sort_candidates_canonical_def make_candidates_def)
  moreover have "re_floats example_env = example_ops" by (simp add: example_env_def)
  then have "route_with_scope example_env example_router [] [lit_1, lit_1] example_infos example_mask None None = Some (Ok d, rt')"
    using fd example_sorted by (simp add: route_with_scope_def validate_router_inputs_def check_numerics_def scope_priors_def example_literals example_router_fields example_mask_allowed
      route_scored_def sort_scores_def example_scores example_gates example_length Let_def del: score_loop.simps)
  ultimately show ?thesis by blast
qed

theorem route_respects_mask_witness:
  "\<exists>d rt'. route_with_scope example_env example_router [] [lit_1, lit_1] example_infos example_mask
       None None = Some (Ok d, rt') \<and> decision_allowed example_mask d \<and> dn_indices d = [1]"
  using example_route route_respects_mask [of example_env example_router "[]" "[lit_1, lit_1]"
      example_infos example_mask None None] example_length by fastforce

theorem route_selects_best_witness:
  "\<exists>s t. adapter_score example_env example_router [] [lit_1, lit_1] example_infos None 1 = Ok s \<and>
     adapter_score example_env example_router [] [lit_1, lit_1] example_infos None 0 = Ok t \<and>
     (f32_total_key t < f32_total_key s \<or> s = t)"
proof -
  obtain d rt' where "route_with_scope example_env example_router [] [lit_1, lit_1] example_infos
      example_mask None None = Some (Ok d, rt')" and "dn_indices d = [1]"
    using example_route by blast
  then show ?thesis
    using route_selects_best [of example_env example_router "[]" "[lit_1, lit_1]" example_infos
        example_mask None None d rt' 1 0]
    by (auto simp: example_router_fields example_length example_mask_allowed)
qed

theorem route_order_independent_witness:
  "\<exists>d' rt2. route_with_scope example_env example_router [] [lit_1, lit_1] (rev example_infos)
     example_mask None None = Some (Ok d', rt2)"
proof -
  obtain d rt' where r: "route_with_scope example_env example_router [] [lit_1, lit_1] example_infos
      example_mask None None = Some (Ok d, rt')"
    using example_route by blast
  have "mset (entries [lit_1, lit_1] example_infos example_mask) =
      mset (entries [lit_1, lit_1] (rev example_infos) example_mask)"
    by (simp add: entries_def example_infos_def example_mask_allowed)
  from route_order_independent [OF this _ _ _ _ _ _ _ r] show ?thesis
    by (auto simp: example_length example_router_fields example_mask_allowed)
qed

end
