(* ===== verification/AdapterStore.thy ===== *)
theory AdapterStore
  imports AssocMap B3Hash "HOL-Library.Multiset"
begin

text \<open>
  The generation store of adapters, \<open>crates/adapteros-core/src/adapter_store.rs\<close>: snapshots of
  the adapter index by generation, request pins that count references, and the retirement of
  old snapshots. A shared counter \<open>Arc<AtomicUsize>\<close> is an address in a list of counters, so that
  snapshots of several generations share the counter of an adapter. Each call is one step; the
  lock protocol inside the calls is the subject of \<open>LockOrder\<close>.
\<close>

section \<open>Counters\<close>

type_synonym counters = "u64 list"

definition fetch_add :: "nat \<Rightarrow> counters \<Rightarrow> counters" where
  "fetch_add a cs = cs[a := cs ! a + 1]"

definition fetch_sub :: "nat \<Rightarrow> counters \<Rightarrow> counters" where
  "fetch_sub a cs = cs[a := cs ! a - 1]"

section \<open>Snapshots\<close>

record adapter_cache_key =
  ck_adapter_id :: string
  ck_adapter_hash :: b3hash
  ck_base_manifest_hash :: "b3hash option"
  ck_backend_type :: string
  ck_kernel_version_id :: string
  ck_tenant_id :: "string option"
  ck_adapter_dir_hash :: "b3hash option"
  ck_galaxy_id :: "string option"

definition cache_key_new ::
  "string \<Rightarrow> b3hash \<Rightarrow> b3hash option \<Rightarrow> string \<Rightarrow> string \<Rightarrow> string option \<Rightarrow> b3hash option \<Rightarrow>
   adapter_cache_key" where
  "cache_key_new adapter_id adapter_hash base_manifest_hash backend_type kernel_version_id
     tenant_id adapter_dir_hash =
     \<lparr>ck_adapter_id = adapter_id, ck_adapter_hash = adapter_hash,
      ck_base_manifest_hash = base_manifest_hash, ck_backend_type = backend_type,
      ck_kernel_version_id = kernel_version_id, ck_tenant_id = tenant_id,
      ck_adapter_dir_hash = adapter_dir_hash, ck_galaxy_id = None\<rparr>"

definition with_galaxy :: "string option \<Rightarrow> adapter_cache_key \<Rightarrow> adapter_cache_key" where
  "with_galaxy galaxy_id k = k\<lparr>ck_galaxy_id := galaxy_id\<rparr>"

record adapter_record =
  ar_hash :: b3hash
  ar_refcount :: nat

type_synonym store_entries = "(adapter_cache_key \<times> adapter_record) list"

record adapter_snapshot =
  sn_generation :: u64
  sn_entries :: store_entries

record adapter_pins =
  ap_snapshot :: adapter_snapshot
  ap_pinned :: "(adapter_cache_key \<times> nat) list"

record generation_audit_event =
  ge_timestamp_ms :: u64
  ge_event :: string
  ge_generation :: u64
  ge_previous_generation :: u64
  ge_retired_count :: nat
  ge_details :: string

record adapter_store =
  st_current :: adapter_snapshot
  st_retired :: "adapter_snapshot list"
  st_generation_audit :: "generation_audit_event list"

record adapter_store_health =
  sh_healthy :: bool
  sh_current_generation :: u64
  sh_retired_count :: nat
  sh_audit_events :: nat
  sh_next_action :: string

section \<open>Operations\<close>

definition max_retired_snapshots :: nat where
  "max_retired_snapshots = 50"

definition max_generation_audit_events :: nat where
  "max_generation_audit_events = 512"

definition store_new :: adapter_store where
  "store_new = \<lparr>st_current = \<lparr>sn_generation = 0, sn_entries = []\<rparr>, st_retired = [],
     st_generation_audit = []\<rparr>"

definition snapshot :: "adapter_store \<Rightarrow> adapter_snapshot" where
  "snapshot st = st_current st"

definition retired_count :: "adapter_store \<Rightarrow> nat" where
  "retired_count st = length (st_retired st)"

definition push_generation_audit ::
  "u64 \<Rightarrow> string \<Rightarrow> u64 \<Rightarrow> u64 \<Rightarrow> nat \<Rightarrow> string \<Rightarrow> adapter_store \<Rightarrow> adapter_store" where
  "push_generation_audit now event generation previous_generation n_retired details st =
     (let log = st_generation_audit st;
          log' = (if length log = max_generation_audit_events then tl log else log) in
      st\<lparr>st_generation_audit := log' @
          [\<lparr>ge_timestamp_ms = now, ge_event = event, ge_generation = generation,
            ge_previous_generation = previous_generation, ge_retired_count = n_retired,
            ge_details = details\<rparr>]\<rparr>)"

definition show_u64 :: "u64 \<Rightarrow> string" where
  "show_u64 w = show_nat (unat w)"

definition replace_current :: "adapter_snapshot \<Rightarrow> adapter_store \<Rightarrow> adapter_store" where
  "replace_current new_snapshot st =
     (let old = st_current st in
      st\<lparr>st_current := new_snapshot,
         st_retired := (if sn_generation old \<noteq> sn_generation new_snapshot
                        then st_retired st @ [old] else st_retired st)\<rparr>)"

definition install ::
  "u64 \<Rightarrow> u64 \<Rightarrow> store_entries \<Rightarrow> adapter_store \<Rightarrow> adapter_snapshot \<times> adapter_store" where
  "install now generation entries st =
     (let current = sn_generation (st_current st) in
      if generation \<le> current then
        (st_current st,
         push_generation_audit now ''generation_rejected'' generation current (retired_count st)
           (''Rejected non-monotonic install request (requested='' @ show_u64 generation @
            '', current='' @ show_u64 current @ '')'') st)
      else
        (let new_snapshot = \<lparr>sn_generation = generation, sn_entries = entries\<rparr>;
             st1 = replace_current new_snapshot st in
         (new_snapshot,
          push_generation_audit now ''generation_installed'' generation current
            (retired_count st1)
            (''Installed generation '' @ show_u64 generation @ '' with '' @
             show_nat (length entries) @ '' entries'') st1)))"

definition install_force ::
  "u64 \<Rightarrow> u64 \<Rightarrow> store_entries \<Rightarrow> adapter_store \<Rightarrow> adapter_snapshot \<times> adapter_store" where
  "install_force now generation entries st =
     (let previous = sn_generation (st_current st);
          new_snapshot = \<lparr>sn_generation = generation, sn_entries = entries\<rparr>;
          st1 = replace_current new_snapshot st in
      (new_snapshot,
       push_generation_audit now ''generation_forced_install'' generation previous
         (retired_count st1)
         (''Force-installed generation '' @ show_u64 generation @ '' with '' @
          show_nat (length entries) @ '' entries'') st1))"

text \<open>
  The retry loop sleeps after a failed attempt; \<open>others n\<close> is what the other threads do to the
  store during the sleep after attempt \<open>n\<close>. \<open>clock\<close> numbers the readings of the clock.
\<close>

fun install_attempts ::
  "(nat \<Rightarrow> u64) \<Rightarrow> (nat \<Rightarrow> adapter_store \<Rightarrow> adapter_store) \<Rightarrow> u64 \<Rightarrow> store_entries \<Rightarrow> nat \<Rightarrow>
   nat \<Rightarrow> adapter_store \<Rightarrow> adapter_snapshot option \<times> adapter_store" where
  "install_attempts clock others generation entries attempts 0 st = (None, st)"
| "install_attempts clock others generation entries attempts (Suc left) st =
     (let attempt = attempts - left;
          (sn, st1) = install (clock (2 * attempt)) generation entries st in
      if sn_generation sn = generation then
        (Some sn,
         (if attempt > 1
          then push_generation_audit (clock (2 * attempt + 1)) ''generation_retry_succeeded''
                 generation (sn_generation sn) (retired_count st1)
                 (''Install succeeded after '' @ show_nat attempt @ '' attempts'') st1
          else st1))
      else
        install_attempts clock others generation entries attempts left
          (if attempt < attempts then others attempt st1 else st1))"

definition install_with_retry ::
  "(nat \<Rightarrow> u64) \<Rightarrow> (nat \<Rightarrow> adapter_store \<Rightarrow> adapter_store) \<Rightarrow> u64 \<Rightarrow> store_entries \<Rightarrow> u32 \<Rightarrow>
   adapter_store \<Rightarrow> adapter_snapshot \<times> adapter_store" where
  "install_with_retry clock others generation entries max_attempts st =
     (let attempts = max (unat max_attempts) 1 in
      case install_attempts clock others generation entries attempts attempts st of
        (Some sn, st1) \<Rightarrow> (sn, st1)
      | (None, st1) \<Rightarrow>
          (let current = snapshot st1 in
           (current,
            push_generation_audit (clock (2 * attempts + 1)) ''generation_retry_exhausted''
              generation (sn_generation current) (retired_count st1)
              (''Install retry exhausted after '' @ show_nat attempts @
               '' attempts; keeping generation '' @ show_u64 (sn_generation current)) st1)))"

definition pin_current :: "adapter_store \<Rightarrow> counters \<Rightarrow> adapter_pins \<times> counters" where
  "pin_current st cs =
     (let sn = snapshot st;
          pinned = map (\<lambda>(k, r). (k, ar_refcount r)) (sn_entries sn) in
      (\<lparr>ap_snapshot = sn, ap_pinned = pinned\<rparr>, foldl (\<lambda>cs p. fetch_add (snd p) cs) cs pinned))"

text \<open>Dropping the pins; \<open>None\<close> is the panic of the underflow assertion.\<close>

fun drop_pinned :: "(adapter_cache_key \<times> nat) list \<Rightarrow> counters \<Rightarrow> counters option" where
  "drop_pinned [] cs = Some cs"
| "drop_pinned (p # ps) cs =
     (let prev = cs ! snd p in
      if prev \<ge> 1 then drop_pinned ps (fetch_sub (snd p) cs) else None)"

definition drop_pins :: "adapter_pins \<Rightarrow> counters \<Rightarrow> counters option" where
  "drop_pins pins cs = drop_pinned (ap_pinned pins) cs"

definition snapshot_in_use :: "counters \<Rightarrow> adapter_snapshot \<Rightarrow> bool" where
  "snapshot_in_use cs sn \<longleftrightarrow> list_ex (\<lambda>e. cs ! ar_refcount (snd e) > 0) (sn_entries sn)"

fun audit_evicted ::
  "(nat \<Rightarrow> u64) \<Rightarrow> nat \<Rightarrow> nat \<Rightarrow> adapter_snapshot list \<Rightarrow> adapter_store \<Rightarrow> adapter_store" where
  "audit_evicted clock i n_retired [] st = st"
| "audit_evicted clock i n_retired (sn # sns) st =
     audit_evicted clock (i + 1) n_retired sns
       (push_generation_audit (clock i) ''retired_force_evicted'' (sn_generation sn)
          (sn_generation (snapshot st)) n_retired
          ''Force-evicted retired snapshot due to retention cap'' st)"

definition drain_retired ::
  "(nat \<Rightarrow> u64) \<Rightarrow> counters \<Rightarrow> adapter_store \<Rightarrow> u64 list \<times> adapter_store" where
  "drain_retired clock cs st =
     (let in_use = filter (snapshot_in_use cs) (st_retired st);
          unused = filter (\<lambda>sn. \<not> snapshot_in_use cs sn) (st_retired st);
          excess = length in_use - max_retired_snapshots;
          evicted = take excess in_use;
          kept = drop excess in_use;
          drained = map sn_generation (unused @ evicted);
          st1 = audit_evicted clock 0 (length kept) evicted (st\<lparr>st_retired := kept\<rparr>) in
      (drained,
       (if drained = [] then st1
        else push_generation_audit (clock excess) ''retired_drained''
               (sn_generation (snapshot st1)) 0 (length kept)
               (''Drained retired generations: ['' @ join_with '', '' (map show_u64 drained) @
                '']'') st1)))"

definition generation_health :: "adapter_store \<Rightarrow> adapter_store_health" where
  "generation_health st =
     (let healthy = (retired_count st \<le> max_retired_snapshots) in
      \<lparr>sh_healthy = healthy, sh_current_generation = sn_generation (snapshot st),
       sh_retired_count = retired_count st,
       sh_audit_events = length (st_generation_audit st),
       sh_next_action = (if healthy then ''none''
                         else ''drain retired snapshots or inspect stuck request pins'')\<rparr>)"

section \<open>Laws of the store\<close>

lemma store_audit_fields [simp]:
  "st_current (push_generation_audit now ev g p n d st) = st_current st"
  "st_retired (push_generation_audit now ev g p n d st) = st_retired st"
  by (simp_all add: push_generation_audit_def Let_def)

lemma push_audit_bounded:
  "length (st_generation_audit st) \<le> max_generation_audit_events \<Longrightarrow>
   length (st_generation_audit (push_generation_audit now ev g p n d st)) \<le> max_generation_audit_events"
  by (simp add: push_generation_audit_def Let_def max_generation_audit_events_def)

lemma audit_evicted_fields [simp]:
  "st_current (audit_evicted clock i n sns st) = st_current st"
  "st_retired (audit_evicted clock i n sns st) = st_retired st"
  by (induction sns arbitrary: i st) simp_all

lemma install_rejected:
  "generation \<le> sn_generation (st_current st) \<Longrightarrow>
   st_current (snd (install now generation entries st)) = st_current st \<and>
   st_retired (snd (install now generation entries st)) = st_retired st \<and>
   fst (install now generation entries st) = st_current st"
  by (simp add: install_def Let_def)

lemma install_accepted:
  "sn_generation (st_current st) < generation \<Longrightarrow>
   st_current (snd (install now generation entries st)) =
     \<lparr>sn_generation = generation, sn_entries = entries\<rparr> \<and>
   st_retired (snd (install now generation entries st)) = st_retired st @ [st_current st] \<and>
   fst (install now generation entries st) = \<lparr>sn_generation = generation, sn_entries = entries\<rparr>"
  by (auto simp: install_def Let_def replace_current_def)

lemma install_force_fields:
  "st_current (snd (install_force now generation entries st)) =
     \<lparr>sn_generation = generation, sn_entries = entries\<rparr>"
  "st_retired (snd (install_force now generation entries st)) =
     (if sn_generation (st_current st) = generation then st_retired st
      else st_retired st @ [st_current st])"
  by (simp_all add: install_force_def Let_def replace_current_def)

lemma drain_fields:
  "st_current (snd (drain_retired clock cs st)) = st_current st"
  "st_retired (snd (drain_retired clock cs st)) =
     (let in_use = filter (snapshot_in_use cs) (st_retired st) in
      drop (length in_use - max_retired_snapshots) in_use)"
  by (simp_all add: drain_retired_def Let_def snapshot_def)

text \<open>
  What a client of the store relies on: a newer generation becomes current, an older one changes
  nothing, a forced one always becomes current, and draining leaves the current one alone.
\<close>

locale generation_store =
  fixes current_of :: "'s \<Rightarrow> adapter_snapshot"
    and install_op :: "u64 \<Rightarrow> store_entries \<Rightarrow> 's \<Rightarrow> 's"
    and force_op :: "u64 \<Rightarrow> store_entries \<Rightarrow> 's \<Rightarrow> 's"
    and drain_op :: "'s \<Rightarrow> 's"
  assumes install_newer: "sn_generation (current_of s) < g \<Longrightarrow>
      current_of (install_op g es s) = \<lparr>sn_generation = g, sn_entries = es\<rparr>"
    and install_older: "g \<le> sn_generation (current_of s) \<Longrightarrow> current_of (install_op g es s) = current_of s"
    and force_current: "current_of (force_op g es s) = \<lparr>sn_generation = g, sn_entries = es\<rparr>"
    and drain_current: "current_of (drain_op s) = current_of s"
begin

lemma install_max: "sn_generation (current_of (install_op g es s)) = max g (sn_generation (current_of s))"
  by (cases "sn_generation (current_of s) < g") (auto simp: install_newer install_older max_def)

lemma publish_next:
  assumes "sn_generation (current_of s) = g" and "g \<noteq> - 1"
  shows "current_of (install_op (g + 1) es s) = \<lparr>sn_generation = g + 1, sn_entries = es\<rparr>"
proof -
  have "g < g + 1" using assms(2) by (metis add.commute add_eq_0_iff unatSuc word_less_nat_alt lessI)
  with assms(1) show ?thesis by (intro install_newer) simp
qed

end

interpretation rcu: generation_store st_current "\<lambda>g es s. snd (install now g es s)"
  "\<lambda>g es s. snd (install_force now' g es s)" "\<lambda>s. snd (drain_retired clock cs s)"
  by unfold_locales (simp_all add: install_accepted install_rejected install_force_fields drain_fields)

section \<open>Reference counts\<close>

lemma length_fetch [simp]:
  "length (fetch_add a cs) = length cs" "length (fetch_sub a cs) = length cs"
  by (simp_all add: fetch_add_def fetch_sub_def)

abbreviation addresses :: "(adapter_cache_key \<times> nat) list \<Rightarrow> nat list" where
  "addresses \<equiv> map snd"

text \<open>Every counter is the number of its references in a multiset of addresses.\<close>

definition counted :: "counters \<Rightarrow> nat multiset \<Rightarrow> bool" where
  "counted cs M \<longleftrightarrow> (\<forall>a < length cs. cs ! a = of_nat (count M a)) \<and> set_mset M \<subseteq> {..<length cs}"

lemma counted_Nil [simp]: "counted [] {#}"
  by (simp add: counted_def)

lemma counted_alloc: "counted cs M \<Longrightarrow> counted (cs @ [0]) M"
proof -
  assume c: "counted cs M"
  then have "count M (length cs) = 0" by (auto simp: counted_def count_eq_zero_iff)
  with c show ?thesis by (auto simp: counted_def nth_append less_Suc_eq)
qed

lemma counted_add: "counted cs M \<Longrightarrow> a < length cs \<Longrightarrow> counted (fetch_add a cs) (add_mset a M)"
  by (auto simp: counted_def fetch_add_def nth_list_update)

lemma counted_sub: "counted cs M \<Longrightarrow> a \<in># M \<Longrightarrow> counted (fetch_sub a cs) (M - {#a#})"
  by (auto simp: counted_def fetch_sub_def nth_list_update of_nat_diff dest: in_diffD)

lemma counted_pos:
  assumes "counted cs M" "size M < 2 ^ 64" "a < length cs"
  shows "unat (cs ! a) = count M a"
proof -
  have "count M a \<le> size M" by (rule count_le_size)
  with assms show ?thesis by (simp add: counted_def unat_of_nat)
qed

lemma counted_add_all:
  "counted cs M \<Longrightarrow> set (addresses ps) \<subseteq> {..<length cs} \<Longrightarrow>
   counted (foldl (\<lambda>cs p. fetch_add (snd p) cs) cs ps) (M + mset (addresses ps)) \<and>
   length (foldl (\<lambda>cs p. fetch_add (snd p) cs) cs ps) = length cs"
proof (induction ps arbitrary: cs M)
  case (Cons p ps)
  then show ?case using Cons.IH [OF counted_add [OF Cons.prems(1)], of "snd p"] by simp
qed simp

lemma counted_drop:
  "counted cs M \<Longrightarrow> mset (addresses ps) \<subseteq># M \<Longrightarrow> drop_pinned ps cs = Some cs' \<Longrightarrow>
   counted cs' (M - mset (addresses ps)) \<and> length cs' = length cs"
proof (induction ps arbitrary: cs M)
  case (Cons p ps)
  have "snd p \<in># M" "mset (addresses ps) \<subseteq># M - {#snd p#}"
    using Cons.prems(2) by (simp_all add: insert_subset_eq_iff)
  with Cons show ?case
    using Cons.IH [OF counted_sub [OF Cons.prems(1)]] by (auto simp: Let_def split: if_splits)
qed simp

lemma counted_drop_some:
  "counted cs M \<Longrightarrow> size M < 2 ^ 64 \<Longrightarrow> mset (addresses ps) \<subseteq># M \<Longrightarrow> drop_pinned ps cs \<noteq> None"
proof (induction ps arbitrary: cs M)
  case (Cons p ps)
  have p: "snd p \<in># M" and ps: "mset (addresses ps) \<subseteq># M - {#snd p#}"
    using Cons.prems(3) by (simp_all add: insert_subset_eq_iff)
  have "snd p < length cs" using p Cons.prems(1) by (auto simp: counted_def)
  then have "1 \<le> unat (cs ! snd p)"
    using counted_pos [OF Cons.prems(1,2)] p by (simp add: Suc_le_eq)
  then have "1 \<le> cs ! snd p" by (simp add: word_le_nat_alt)
  moreover have "size (M - {#snd p#}) < 2 ^ 64" using Cons.prems(2) by (simp add: size_Diff_singleton p)
  ultimately show ?case
    using Cons.IH [OF counted_sub [OF Cons.prems(1) p] _ ps] by (simp add: Let_def)
qed simp

text \<open>
  A store in use: the store, the counters, and the pins of the requests in flight. The entries of
  a new index refer to allocated counters.
\<close>

record store_system =
  sy_store :: adapter_store
  sy_counters :: counters
  sy_live :: "adapter_pins list"

definition entry_addresses :: "store_entries \<Rightarrow> nat set" where
  "entry_addresses es = (\<lambda>e. ar_refcount (snd e)) ` set es"

inductive store_step :: "store_system \<Rightarrow> store_system \<Rightarrow> bool" where
  allocate: "store_step sy (sy\<lparr>sy_counters := sy_counters sy @ [0]\<rparr>)"
| installs: "entry_addresses es \<subseteq> {..<length (sy_counters sy)} \<Longrightarrow>
     store_step sy (sy\<lparr>sy_store := snd (install now g es (sy_store sy))\<rparr>)"
| forces: "entry_addresses es \<subseteq> {..<length (sy_counters sy)} \<Longrightarrow>
     store_step sy (sy\<lparr>sy_store := snd (install_force now g es (sy_store sy))\<rparr>)"
| pins: "pin_current (sy_store sy) (sy_counters sy) = (p, cs) \<Longrightarrow>
     store_step sy (sy\<lparr>sy_counters := cs, sy_live := p # sy_live sy\<rparr>)"
| unpins: "p \<in> set (sy_live sy) \<Longrightarrow> drop_pins p (sy_counters sy) = Some cs \<Longrightarrow>
     store_step sy (sy\<lparr>sy_counters := cs, sy_live := remove1 p (sy_live sy)\<rparr>)"
| drains: "store_step sy (sy\<lparr>sy_store := snd (drain_retired clock (sy_counters sy) (sy_store sy))\<rparr>)"

inductive_cases store_stepE: "store_step sy sy'"

definition store_start :: store_system where
  "store_start = \<lparr>sy_store = store_new, sy_counters = [], sy_live = []\<rparr>"

definition live_refs :: "adapter_pins list \<Rightarrow> nat multiset" where
  "live_refs live = sum_list (map (\<lambda>p. mset (addresses (ap_pinned p))) live)"

definition snapshot_ok :: "nat \<Rightarrow> adapter_snapshot \<Rightarrow> bool" where
  "snapshot_ok n sn \<longleftrightarrow> entry_addresses (sn_entries sn) \<subseteq> {..<n}"

definition pins_ok :: "nat \<Rightarrow> adapter_pins \<Rightarrow> bool" where
  "pins_ok n p \<longleftrightarrow> snapshot_ok n (ap_snapshot p) \<and>
     addresses (ap_pinned p) = map (\<lambda>e. ar_refcount (snd e)) (sn_entries (ap_snapshot p))"

definition system_ok :: "store_system \<Rightarrow> bool" where
  "system_ok sy \<longleftrightarrow>
     (let n = length (sy_counters sy) in
      snapshot_ok n (st_current (sy_store sy)) \<and>
      list_all (snapshot_ok n) (st_retired (sy_store sy)) \<and>
      list_all (pins_ok n) (sy_live sy) \<and> counted (sy_counters sy) (live_refs (sy_live sy)))"

lemma live_refs_simps [simp]:
  "live_refs [] = {#}" "live_refs (p # live) = mset (addresses (ap_pinned p)) + live_refs live"
  by (simp_all add: live_refs_def)

lemma live_refs_remove:
  "p \<in> set live \<Longrightarrow> live_refs live = mset (addresses (ap_pinned p)) + live_refs (remove1 p live)"
  by (induction live) auto

lemma in_live_refs: "a \<in># live_refs live \<longleftrightarrow> (\<exists>p \<in> set live. a \<in> set (addresses (ap_pinned p)))"
  by (induction live) auto

lemma pins_range: "pins_ok n p \<Longrightarrow> set (addresses (ap_pinned p)) \<subseteq> {..<n}"
  by (simp add: pins_ok_def snapshot_ok_def entry_addresses_def)

lemma ok_mono: "n \<le> m \<Longrightarrow> snapshot_ok n sn \<Longrightarrow> snapshot_ok m sn" "n \<le> m \<Longrightarrow> pins_ok n p \<Longrightarrow> pins_ok m p"
  by (auto simp: snapshot_ok_def pins_ok_def)

lemma counted_pin:
  assumes "counted cs (live_refs live)" "pins_ok (length cs) p"
  shows "counted (foldl (\<lambda>cs p. fetch_add (snd p) cs) cs (ap_pinned p)) (live_refs (p # live))"
  using counted_add_all [OF assms(1) pins_range [OF assms(2)]] by (simp add: add.commute)

lemma counted_unpin:
  assumes "counted cs (live_refs live)" "p \<in> set live" "drop_pins p cs = Some cs'"
  shows "length cs' = length cs" "counted cs' (live_refs (remove1 p live))"
  using counted_drop [OF assms(1) _ assms(3) [unfolded drop_pins_def]] live_refs_remove [OF assms(2)]
  by simp_all

lemma pin_current_fields:
  assumes "pin_current st cs = (p, cs')"
  shows "ap_snapshot p = st_current st"
    and "addresses (ap_pinned p) = map (\<lambda>e. ar_refcount (snd e)) (sn_entries (st_current st))"
    and "cs' = foldl (\<lambda>cs p. fetch_add (snd p) cs) cs (ap_pinned p)"
  using assms by (auto simp: pin_current_def Let_def snapshot_def case_prod_unfold o_def)

lemma store_step_ok:
  assumes "store_step sy sy'" and "system_ok sy"
  shows "system_ok sy'"
proof -
  let ?n = "length (sy_counters sy)"
  from assms(2) have ok: "snapshot_ok ?n (st_current (sy_store sy))"
    "list_all (snapshot_ok ?n) (st_retired (sy_store sy))"
    "list_all (pins_ok ?n) (sy_live sy)" "counted (sy_counters sy) (live_refs (sy_live sy))"
    by (simp_all add: system_ok_def Let_def)
  from assms(1) show ?thesis
  proof cases
    case allocate
    with ok show ?thesis
      by (auto simp: system_ok_def counted_alloc list_all_iff intro: ok_mono [of ?n])
  next
    case (installs es now g)
    with ok show ?thesis
      by (cases "sn_generation (st_current (sy_store sy)) < g")
        (simp_all add: system_ok_def install_accepted install_rejected not_less snapshot_ok_def)
  next
    case (forces es now g)
    with ok show ?thesis by (simp add: system_ok_def install_force_fields snapshot_ok_def)
  next
    case (pins p cs)
    note f = pin_current_fields [OF pins(2)]
    have p: "pins_ok ?n p" using ok(1) f(1,2) by (simp add: pins_ok_def)
    have "length cs = ?n" using counted_add_all [OF ok(4) pins_range [OF p]] f(3) by simp
    with pins(1) ok p counted_pin [OF ok(4) p] f(3) show ?thesis by (simp add: system_ok_def)
  next
    case (unpins p cs)
    note c = counted_unpin [OF ok(4) unpins(2,3)]
    have "list_all (pins_ok ?n) (remove1 p (sy_live sy))"
      using ok(3) by (auto simp: list_all_iff dest: notin_set_remove1)
    with unpins(1) ok c show ?thesis by (simp add: system_ok_def)
  next
    case (drains clock)
    with ok show ?thesis
      by (auto simp: system_ok_def drain_fields Let_def list_all_iff dest: in_set_dropD)
  qed
qed

lemma store_start_ok: "system_ok store_start"
  by (simp add: system_ok_def store_start_def store_new_def counted_def snapshot_ok_def
      entry_addresses_def)

lemma reachable_ok: "store_step\<^sup>*\<^sup>* store_start sy \<Longrightarrow> system_ok sy"
  by (induction rule: rtranclp_induct) (auto intro: store_step_ok store_start_ok)

text \<open>
  Reference counting is exact: in every state that allocations, installs, pins, unpins and drains
  reach, and with fewer than \<open>2\<^sup>6\<^sup>4\<close> references, every counter is the number of references that
  live requests hold on it, and releasing a live request never hits the underflow assertion.
\<close>

theorem pins_counted:
  assumes "store_step\<^sup>*\<^sup>* store_start sy" and "size (live_refs (sy_live sy)) < 2 ^ 64"
    and "p \<in> set (sy_live sy)"
  shows "(\<forall>a < length (sy_counters sy).
      unat (sy_counters sy ! a) = count (live_refs (sy_live sy)) a) \<and>
    drop_pins p (sy_counters sy) \<noteq> None"
proof -
  from reachable_ok [OF assms(1)] have c: "counted (sy_counters sy) (live_refs (sy_live sy))"
    by (simp add: system_ok_def Let_def)
  have "mset (addresses (ap_pinned p)) \<subseteq># live_refs (sy_live sy)"
    using live_refs_remove [OF assms(3)] by simp
  from counted_drop_some [OF c assms(2) this] counted_pos [OF c assms(2)] show ?thesis
    by (simp add: drop_pins_def)
qed

text \<open>Whether a live request holds an adapter of the snapshot.\<close>

definition held :: "adapter_pins list \<Rightarrow> adapter_snapshot \<Rightarrow> bool" where
  "held live sn \<longleftrightarrow> list_ex (\<lambda>p. list_ex (\<lambda>e. ar_refcount (snd e) \<in> set (addresses (ap_pinned p)))
     (sn_entries sn)) live"

lemma in_use_held:
  assumes "counted cs (live_refs live)" "size (live_refs live) < 2 ^ 64" "snapshot_ok (length cs) sn"
  shows "snapshot_in_use cs sn \<longleftrightarrow> held live sn"
proof -
  have "cs ! ar_refcount (snd e) > 0 \<longleftrightarrow> ar_refcount (snd e) \<in># live_refs live"
    if "e \<in> set (sn_entries sn)" for e
  proof -
    have "ar_refcount (snd e) < length cs"
      using assms(3) that by (auto simp: snapshot_ok_def entry_addresses_def)
    from counted_pos [OF assms(1,2) this] show ?thesis by (simp add: word_less_nat_alt)
  qed
  then show ?thesis
    by (auto simp: snapshot_in_use_def held_def list_ex_iff in_live_refs simp del: set_map)
qed

text \<open>
  Draining is exact: it frees the retired snapshots of which no live request holds an adapter, and
  beyond the cap the oldest of the others; every other retired snapshot stays, in order, and
  the current snapshot is untouched.
\<close>

theorem drain_exact:
  assumes "store_step\<^sup>*\<^sup>* store_start sy" and "size (live_refs (sy_live sy)) < 2 ^ 64"
    and "in_use = filter (held (sy_live sy)) (st_retired (sy_store sy))"
    and "excess = length in_use - max_retired_snapshots"
    and "drain_retired clock (sy_counters sy) (sy_store sy) = (drained, st')"
  shows "st_retired st' = drop excess in_use \<and> length (st_retired st') \<le> max_retired_snapshots \<and>
    drained = map sn_generation
      (filter (\<lambda>sn. \<not> held (sy_live sy) sn) (st_retired (sy_store sy)) @ take excess in_use) \<and>
    st_current st' = st_current (sy_store sy) \<and> sh_healthy (generation_health st')"
proof -
  from reachable_ok [OF assms(1)] have
    "list_all (snapshot_ok (length (sy_counters sy))) (st_retired (sy_store sy))"
    and c: "counted (sy_counters sy) (live_refs (sy_live sy))"
    by (auto simp: system_ok_def Let_def)
  then have u: "snapshot_in_use (sy_counters sy) sn \<longleftrightarrow> held (sy_live sy) sn"
    if "sn \<in> set (st_retired (sy_store sy))" for sn
    using that in_use_held [OF c assms(2)] by (simp add: list_all_iff)
  have f: "filter (snapshot_in_use (sy_counters sy)) (st_retired (sy_store sy)) = in_use"
    "filter (\<lambda>sn. \<not> snapshot_in_use (sy_counters sy) sn) (st_retired (sy_store sy)) =
       filter (\<lambda>sn. \<not> held (sy_live sy) sn) (st_retired (sy_store sy))"
    using u assms(3) by (auto intro: filter_cong)
  have st': "st' = snd (drain_retired clock (sy_counters sy) (sy_store sy))"
    and dr: "drained = fst (drain_retired clock (sy_counters sy) (sy_store sy))"
    using assms(5) by simp_all
  have "st_retired st' = drop excess in_use" "st_current st' = st_current (sy_store sy)"
    unfolding st' drain_fields Let_def f assms(4) by (rule refl)+
  moreover have "drained = map sn_generation
      (filter (\<lambda>sn. \<not> held (sy_live sy) sn) (st_retired (sy_store sy)) @ take excess in_use)"
    unfolding dr drain_retired_def Let_def f assms(4) fst_conv by (rule refl)
  ultimately show ?thesis by (simp add: assms(4) generation_health_def Let_def retired_count_def)
qed

text \<open>
  A retry with the generation that is already current reports success on the first attempt and
  discards its entries.
\<close>

theorem retry_discards_equal_generation:
  assumes "sn_generation (st_current st) = generation"
  shows "fst (install_with_retry clock others generation entries attempts st) = st_current st \<and>
    st_current (snd (install_with_retry clock others generation entries attempts st)) = st_current st"
proof -
  obtain n where n: "max (unat attempts) 1 = Suc n" by (cases "max (unat attempts) 1") simp_all
  obtain st1 where "install (clock 2) generation entries st = (st_current st, st1)"
    and "st_current st1 = st_current st"
    using install_rejected [of generation st "clock 2" entries] assms
    by (metis order_refl prod.collapse)
  then have "install_attempts clock others generation entries (Suc n) (Suc n) st =
      (Some (st_current st), st1)" and "st_current st1 = st_current st"
    using assms by simp_all
  then show ?thesis unfolding install_with_retry_def n Let_def by simp
qed

section \<open>Witnesses\<close>

definition sample_key :: adapter_cache_key where
  "sample_key = cache_key_new ''a'' b3_zero None ''metal'' ''1'' None None"

definition sample_entries :: store_entries where
  "sample_entries = [(sample_key, \<lparr>ar_hash = b3_zero, ar_refcount = 0\<rparr>)]"

definition sample_store :: adapter_store where
  "sample_store = snd (install 1 1 sample_entries store_new)"

definition sample_pins :: adapter_pins where
  "sample_pins = fst (pin_current sample_store [0])"

definition sample_system :: store_system where
  "sample_system = \<lparr>sy_store = snd (install 2 2 [] sample_store), sy_counters = [1],
     sy_live = [sample_pins]\<rparr>"

lemma sample_store_fields:
  "st_current sample_store = \<lparr>sn_generation = 1, sn_entries = sample_entries\<rparr>"
  "st_retired sample_store = [\<lparr>sn_generation = 0, sn_entries = []\<rparr>]"
  using install_accepted [of store_new 1 1 sample_entries]
  by (simp_all add: sample_store_def store_new_def)

lemma sample_pins_fields:
  "ap_snapshot sample_pins = \<lparr>sn_generation = 1, sn_entries = sample_entries\<rparr>"
  "ap_pinned sample_pins = [(sample_key, 0)]"
  by (simp_all add: sample_pins_def pin_current_def Let_def snapshot_def sample_store_fields
      sample_entries_def)

lemma sample_reachable: "store_step\<^sup>*\<^sup>* store_start sample_system"
proof -
  have "store_step store_start (store_start\<lparr>sy_counters := [0]\<rparr>)"
    using allocate [of store_start] by (simp add: store_start_def)
  moreover have "store_step (store_start\<lparr>sy_counters := [0]\<rparr>)
      \<lparr>sy_store = sample_store, sy_counters = [0], sy_live = []\<rparr>"
    using installs [of sample_entries "store_start\<lparr>sy_counters := [0]\<rparr>" 1 1]
    by (simp add: store_start_def sample_entries_def entry_addresses_def sample_store_def)
  moreover have "store_step \<lparr>sy_store = sample_store, sy_counters = [0], sy_live = []\<rparr>
      \<lparr>sy_store = sample_store, sy_counters = [1], sy_live = [sample_pins]\<rparr>"
    using pins [of "\<lparr>sy_store = sample_store, sy_counters = [0], sy_live = []\<rparr>" sample_pins "[1]"]
    by (simp add: sample_pins_def pin_current_def Let_def snapshot_def sample_store_fields
        sample_entries_def fetch_add_def)
  moreover have "store_step \<lparr>sy_store = sample_store, sy_counters = [1], sy_live = [sample_pins]\<rparr>
      sample_system"
    using installs [of "[]" "\<lparr>sy_store = sample_store, sy_counters = [1], sy_live = [sample_pins]\<rparr>" 2 2]
    by (simp add: sample_system_def entry_addresses_def)
  ultimately show ?thesis by (meson converse_rtranclp_into_rtranclp rtranclp.rtrancl_refl)
qed

lemma sample_live: "sy_live sample_system = [sample_pins]" "live_refs [sample_pins] = {#0#}"
  by (simp_all add: sample_system_def sample_pins_fields)

theorem pins_counted_witness:
  "unat (sy_counters sample_system ! 0) = 1 \<and> drop_pins sample_pins (sy_counters sample_system) \<noteq> None"
  using pins_counted [OF sample_reachable, of sample_pins] sample_live
  by (simp add: sample_system_def sample_pins_fields)

theorem drain_exact_witness:
  "fst (drain_retired (\<lambda>_. 3) (sy_counters sample_system) (sy_store sample_system)) = [0]"
proof -
  have r: "st_retired (sy_store sample_system) =
      [\<lparr>sn_generation = 0, sn_entries = []\<rparr>, \<lparr>sn_generation = 1, sn_entries = sample_entries\<rparr>]"
    using install_accepted [of sample_store 2 2 "[]"] by (simp add: sample_system_def sample_store_fields)
  have "filter (held [sample_pins]) (st_retired (sy_store sample_system)) =
      [\<lparr>sn_generation = 1, sn_entries = sample_entries\<rparr>]"
    by (simp add: r held_def sample_pins_fields sample_entries_def)
  moreover have "filter (\<lambda>sn. \<not> held [sample_pins] sn) (st_retired (sy_store sample_system)) =
      [\<lparr>sn_generation = 0, sn_entries = []\<rparr>]"
    by (simp add: r held_def sample_pins_fields sample_entries_def)
  ultimately show ?thesis
    using drain_exact [OF sample_reachable _ refl refl prod.collapse [symmetric], of "\<lambda>_. 3"]
    unfolding sample_live by (simp add: max_retired_snapshots_def)
qed

end
