(* ===== verification/StackHash.thy ===== *)
theory StackHash
  imports B3Hash "HOL-Library.Multiset"
begin

text \<open>
  The canonical hash of an adapter stack, \<open>crates/adapteros-core/src/stack.rs\<close>.
\<close>

definition stack_entry :: "(bytes \<Rightarrow> string) \<Rightarrow> string \<times> b3hash \<Rightarrow> string" where
  "stack_entry hex_encode e = fst e @ '':'' @ b3_to_hex hex_encode (snd e)"

definition compute_stack_hash ::
  "hash_fn \<Rightarrow> (bytes \<Rightarrow> string) \<Rightarrow> (string \<times> b3hash) list \<Rightarrow> b3hash" where
  "compute_stack_hash H hex_encode adapters =
     b3_hash H (str_bytes (concat (map (stack_entry hex_encode) (sort_key fst adapters))))"

text \<open>The bytes that are hashed.\<close>

definition stack_bytes :: "(bytes \<Rightarrow> string) \<Rightarrow> (string \<times> b3hash) list \<Rightarrow> bytes" where
  "stack_bytes hex_encode adapters =
     str_bytes (concat (map (stack_entry hex_encode) (sort_key fst adapters)))"

lemma split_at_colon:
  "x \<notin> set a \<Longrightarrow> x \<notin> set b \<Longrightarrow> a @ x # s = b @ x # t \<longleftrightarrow> a = b \<and> s = t"
proof (induction a arbitrary: b)
  case Nil
  then show ?case by (cases b) auto
next
  case (Cons c a)
  then show ?case by (cases b) auto
qed

definition stack_wf :: "(string \<times> b3hash) list \<Rightarrow> bool" where
  "stack_wf p \<longleftrightarrow> list_all (\<lambda>e. CHR '':'' \<notin> set (fst e) \<and> b3_wf (snd e)) p"

lemma stack_text_inject:
  assumes hex: "\<And>bs. length (hex_encode bs) = 2 * length bs" "inj hex_encode"
    and "stack_wf p" "stack_wf q"
    and "concat (map (stack_entry hex_encode) p) = concat (map (stack_entry hex_encode) q)"
  shows "p = q"
  using assms(3-)
proof (induction p arbitrary: q)
  case Nil
  then show ?case by (cases q) (auto simp: stack_entry_def)
next
  case (Cons e p)
  then obtain f q' where q: "q = f # q'" by (cases q) (auto simp: stack_entry_def)
  let ?h = "b3_to_hex hex_encode"
  have len: "length (?h (snd e)) = length (?h (snd f))"
    using Cons.prems(1,2) q by (simp add: stack_wf_def b3_wf_def b3_to_hex_def hex(1))
  have "fst e @ CHR '':'' # (?h (snd e) @ concat (map (stack_entry hex_encode) p)) =
        fst f @ CHR '':'' # (?h (snd f) @ concat (map (stack_entry hex_encode) q'))"
    using Cons.prems(3) by (simp add: q stack_entry_def [of _ e] stack_entry_def [of _ f])
  moreover have "CHR '':'' \<notin> set (fst e)" "CHR '':'' \<notin> set (fst f)"
    using Cons.prems(1,2) by (simp_all add: q stack_wf_def)
  ultimately have "fst e = fst f" "?h (snd e) = ?h (snd f)"
    "concat (map (stack_entry hex_encode) p) = concat (map (stack_entry hex_encode) q')"
    using len by (simp_all add: split_at_colon)
  then have "e = f" "p = q'"
    using Cons.IH [of q'] Cons.prems(1,2) hex(2)
    by (simp_all add: q stack_wf_def b3_to_hex_def prod_eq_iff inj_eq)
  then show ?case by (simp add: q)
qed

lemma compute_stack_hash_bytes: "compute_stack_hash H hex_encode p = H (stack_bytes hex_encode p)"
  by (simp add: compute_stack_hash_def stack_bytes_def b3_hash_def)

text \<open>
  The stack hash identifies the stack: for stacks with distinct identifiers without a colon, a
  hexadecimal encoding that is injective and doubles the length, and a digest that does not
  collide on the two inputs, two stacks have the same hash exactly when they have the same
  adapters with the same hashes, in whatever order.
\<close>

theorem stack_hash_identifies:
  assumes "\<And>bs. length (hex_encode bs) = 2 * length bs" "inj hex_encode"
    and "stack_wf p" "stack_wf q" "distinct (map fst p)"
    and "inj_on H {stack_bytes hex_encode p, stack_bytes hex_encode q}"
  shows "compute_stack_hash H hex_encode p = compute_stack_hash H hex_encode q \<longleftrightarrow> mset p = mset q"
proof
  assume "compute_stack_hash H hex_encode p = compute_stack_hash H hex_encode q"
  then have "stack_bytes hex_encode p = stack_bytes hex_encode q"
    unfolding compute_stack_hash_bytes by (rule inj_onD [OF assms(6)]) simp_all
  moreover have "stack_wf (sort_key fst p)" "stack_wf (sort_key fst q)"
    using assms(3,4) by (simp_all add: stack_wf_def list_all_iff)
  ultimately have "sort_key fst p = sort_key fst q"
    unfolding stack_bytes_def str_bytes_inj by (intro stack_text_inject [OF assms(1,2)])
  then show "mset p = mset q" by (metis mset_sort)
next
  assume "mset p = mset q"
  moreover have "inj_on fst (set p)" using assms(5) by (simp add: distinct_map)
  ultimately have "sort_key fst p = sort_key fst q" by (rule sort_key_eq_sort_key)
  then show "compute_stack_hash H hex_encode p = compute_stack_hash H hex_encode q"
    by (simp add: compute_stack_hash_def)
qed

text \<open>Without the condition on the identifiers two different stacks can have the same hash.\<close>

lemma colon_identifiers_collide:
  assumes "a < b"
  shows "compute_stack_hash H hex_encode [(a, g), (b, h)] =
         compute_stack_hash H hex_encode [(a @ '':'' @ hex_encode g @ b, h)]"
  using less_imp_le [OF assms] by (simp add: compute_stack_hash_def stack_entry_def b3_to_hex_def)

definition sample_hex :: "bytes \<Rightarrow> string" where
  "sample_hex bs = map (\<lambda>b. char_of (unat b)) bs @ replicate (length bs) CHR ''0''"

lemma sample_hex_length: "length (sample_hex bs) = 2 * length bs"
  by (simp add: sample_hex_def)

lemma sample_hex_inj: "inj sample_hex"
proof (rule injI)
  fix a b assume "sample_hex a = sample_hex b"
  then have "length a = length b" by (metis mult_cancel1 sample_hex_length zero_neq_numeral)
  with \<open>sample_hex a = sample_hex b\<close> have "map (\<lambda>b. char_of (unat b)) a = (map (\<lambda>b. char_of (unat b)) b :: string)"
    by (simp add: sample_hex_def)
  moreover have "inj (\<lambda>w :: u8. char_of (unat w) :: char)"
  proof (rule injI)
    fix v w :: u8 assume "(char_of (unat v) :: char) = char_of (unat w)"
    then have "unat v mod 256 = unat w mod 256" by (metis of_char_of)
    moreover have "unat v < 256" "unat w < 256" using unsigned_less [of v] unsigned_less [of w] by simp_all
    ultimately show "v = w" by (simp add: word_unat_eq_iff)
  qed
  ultimately show "a = b" by (metis inj_map_eq_map)
qed

theorem stack_hash_identifies_witness:
  "compute_stack_hash id sample_hex [(''a'', b3_zero), (''b'', b3_zero)] =
   compute_stack_hash id sample_hex [(''b'', b3_zero), (''a'', b3_zero)] \<and>
   compute_stack_hash id sample_hex [(''a'', b3_zero)] \<noteq>
   compute_stack_hash id sample_hex [(''b'', b3_zero)]"
  using stack_hash_identifies [of sample_hex "[(''a'', b3_zero), (''b'', b3_zero)]"
      "[(''b'', b3_zero), (''a'', b3_zero)]" id] sample_hex_inj
    stack_hash_identifies [of sample_hex "[(''a'', b3_zero)]" "[(''b'', b3_zero)]" id]
  by (simp add: stack_wf_def sample_hex_length add_mset_commute)

end
