(* ===== verification/HotSwap.thy ===== *)
theory HotSwap
  imports AdapterStore StackHash Seeds
begin

text \<open>
  The adapter table of a worker, \<open>AdapterTable\<close> of
  \<open>crates/adapteros-lora-worker/src/adapter_hotswap.rs\<close>: staging, the swap of the active set with
  its generation counter, rollback, checkpoints, reference counts, and the retirement of replaced
  stacks with the kernel backend. Each call is one step. The kernel backend is a state with the
  operations of the trait \<open>FusedKernels\<close>; telemetry, metrics and logging are left out.
\<close>

section \<open>Data\<close>

datatype load_lifecycle =
    WL_Unloaded | WL_Loading | WL_Loaded | WL_Active | WL_Unloading | WL_Error

text \<open>The path of the mapped file; only a galaxy bundle has an identifier.\<close>

datatype adapter_backing = Galaxy string | Standalone string

fun galaxy_id :: "adapter_backing \<Rightarrow> string option" where
  "galaxy_id (Galaxy path) = Some path"
| "galaxy_id (Standalone path) = None"

record adapter_load_state =
  al_id :: string
  al_hash :: b3hash
  al_expected_hash :: b3hash
  al_vram_mb :: u64
  al_loaded_at :: nat
  al_active :: bool
  al_lifecycle :: load_lifecycle
  al_backing :: "adapter_backing option"
  al_recent_uses :: "nat list"

type_synonym adapter_map = "(string \<times> adapter_load_state) list"

text \<open>Instants are nanoseconds.\<close>

definition record_use :: "nat \<Rightarrow> adapter_load_state \<Rightarrow> adapter_load_state" where
  "record_use now al =
     al\<lparr>al_recent_uses := dropWhile (\<lambda>t. t < now - 60000000000) (al_recent_uses al @ [now])\<rparr>"

definition uses_per_minute :: "adapter_load_state \<Rightarrow> u32" where
  "uses_per_minute al = of_nat (length (al_recent_uses al))"

definition recently_used :: "nat \<Rightarrow> adapter_load_state \<Rightarrow> bool" where
  "recently_used now al \<longleftrightarrow> al_recent_uses al \<noteq> [] \<and> now - last (al_recent_uses al) < 5000000000"

record cache_identity =
  ci_base_manifest_hash :: "b3hash option"
  ci_backend_type :: string
  ci_kernel_version_id :: string
  ci_tenant_id :: "string option"
  ci_adapter_dir_hash :: "b3hash option"

definition cache_identity_default :: "string \<Rightarrow> cache_identity" where
  "cache_identity_default version =
     \<lparr>ci_base_manifest_hash = None, ci_backend_type = ''unknown'', ci_kernel_version_id = version,
      ci_tenant_id = None, ci_adapter_dir_hash = None\<rparr>"

record adapter_stack =
  sk_generation :: u64
  sk_active :: adapter_map

record gpu_fingerprint =
  gf_adapter_id :: string
  gf_buffer_bytes :: u64
  gf_checkpoint_hash :: b3hash

record stack_checkpoint =
  cp_timestamp :: u64
  cp_metadata_hash :: b3hash
  cp_cross_layer_hash :: "b3hash option"
  cp_gpu_fingerprints :: "gpu_fingerprint list"
  cp_adapter_ids :: "string list"

record adapter_table =
  tb_active :: adapter_map
  tb_staged :: adapter_map
  tb_rollback_state :: "adapter_stack option"
  tb_checkpoints :: "stack_checkpoint list"
  tb_max_checkpoints :: nat
  tb_current_stack :: u64
  tb_refcounts :: "(string \<times> nat) list"
  tb_counters :: counters
  tb_retired_stacks :: "adapter_stack list"
  tb_retry_counts :: "(u64 \<times> u32) list"
  tb_store :: adapter_store
  tb_cache_identity :: cache_identity
  tb_adapter_cache_budget_bytes :: "u64 option"

definition with_checkpoint_limit :: "string \<Rightarrow> nat \<Rightarrow> adapter_table" where
  "with_checkpoint_limit version max_checkpoints =
     \<lparr>tb_active = [], tb_staged = [], tb_rollback_state = None, tb_checkpoints = [],
      tb_max_checkpoints = max_checkpoints, tb_current_stack = 0, tb_refcounts = [],
      tb_counters = [], tb_retired_stacks = [], tb_retry_counts = [], tb_store = store_new,
      tb_cache_identity = cache_identity_default version, tb_adapter_cache_budget_bytes = None\<rparr>"

definition table_new :: "string \<Rightarrow> adapter_table" where
  "table_new version = with_checkpoint_limit version 20"

definition set_cache_identity :: "cache_identity \<Rightarrow> adapter_table \<Rightarrow> adapter_table" where
  "set_cache_identity identity tb = tb\<lparr>tb_cache_identity := identity\<rparr>"

definition set_adapter_cache_budget_bytes :: "u64 option \<Rightarrow> adapter_table \<Rightarrow> adapter_table" where
  "set_adapter_cache_budget_bytes budget_bytes tb =
     tb\<lparr>tb_adapter_cache_budget_bytes := budget_bytes\<rparr>"

section \<open>Bytes in use\<close>

definition bytes_per_mb :: u64 where
  "bytes_per_mb = 1024 * 1024"

definition saturating_mul :: "u64 \<Rightarrow> u64 \<Rightarrow> u64" where
  "saturating_mul a b = (if unat a * unat b < 2 ^ 64 then a * b else - 1)"

definition state_bytes :: "adapter_load_state \<Rightarrow> u64" where
  "state_bytes al = saturating_mul (al_vram_mb al) bytes_per_mb"

definition note_bytes :: "(string \<times> u64) list \<Rightarrow> string \<times> adapter_load_state \<Rightarrow> (string \<times> u64) list" where
  "note_bytes m e =
     (let b = state_bytes (snd e) in
      case map_of m (fst e) of
        Some _ \<Rightarrow> am_update (\<lambda>existing. max existing b) (fst e) m
      | None \<Rightarrow> am_insert (fst e) b m)"

definition adapter_cache_bytes :: "adapter_table \<Rightarrow> u64" where
  "adapter_cache_bytes tb =
     sum_list (map snd (foldl note_bytes []
       (tb_active tb @ tb_staged tb @ concat (map sk_active (tb_retired_stacks tb)))))"

section \<open>Staging\<close>

definition ensure_refcount :: "adapter_table \<Rightarrow> string \<Rightarrow> adapter_table" where
  "ensure_refcount tb i =
     (case map_of (tb_refcounts tb) i of
        Some _ \<Rightarrow> tb
      | None \<Rightarrow> tb\<lparr>tb_refcounts := am_insert i (length (tb_counters tb)) (tb_refcounts tb),
                   tb_counters := tb_counters tb @ [0]\<rparr>)"

definition preload_with_backing ::
  "nat \<Rightarrow> string \<Rightarrow> b3hash \<Rightarrow> b3hash \<Rightarrow> u64 \<Rightarrow> adapter_backing option \<Rightarrow> adapter_table \<Rightarrow>
   (aos_error, unit) result \<times> adapter_table" where
  "preload_with_backing now i expected_hash h vram_mb backing tb =
     (if vram_mb = 0 then
        (Err (EWorker (''Adapter preload failed: VRAM estimate is zero for adapter '' @
           quoted i @ ''. This indicates the adapter weights could not be measured. '' @
           ''Check that the .aos file contains valid SafeTensors data.'')), tb)
      else
        (let tb1 = (if map_of (tb_staged tb) i = None
                    then tb\<lparr>tb_staged := am_insert i
                           \<lparr>al_id = i, al_hash = h, al_expected_hash = expected_hash,
                            al_vram_mb = vram_mb, al_loaded_at = now, al_active = False,
                            al_lifecycle = WL_Loaded, al_backing = backing,
                            al_recent_uses = []\<rparr> (tb_staged tb)\<rparr>
                    else tb) in
         (Ok (), ensure_refcount tb1 i)))"


definition preload ::
  "nat \<Rightarrow> string \<Rightarrow> b3hash \<Rightarrow> u64 \<Rightarrow> adapter_table \<Rightarrow> (aos_error, unit) result \<times> adapter_table" where
  "preload now i h vram_mb tb = preload_with_backing now i h h vram_mb None tb"

definition staged_expected_hash :: "adapter_table \<Rightarrow> string \<Rightarrow> b3hash option" where
  "staged_expected_hash tb i = map_option al_expected_hash (map_of (tb_staged tb) i)"

definition update_staged_hash :: "string \<Rightarrow> b3hash \<Rightarrow> adapter_table \<Rightarrow> adapter_table" where
  "update_staged_hash i h tb =
     tb\<lparr>tb_staged := am_update (\<lambda>al. al\<lparr>al_hash := h\<rparr>) i (tb_staged tb)\<rparr>"

definition clear_staged :: "adapter_table \<Rightarrow> adapter_table" where
  "clear_staged tb = tb\<lparr>tb_staged := []\<rparr>"

section \<open>Swap and rollback\<close>

definition cache_key_of :: "cache_identity \<Rightarrow> string \<times> adapter_load_state \<Rightarrow> adapter_cache_key" where
  "cache_key_of ci e =
     (let k = cache_key_new (fst e) (al_hash (snd e)) (ci_base_manifest_hash ci)
                (ci_backend_type ci) (ci_kernel_version_id ci) (ci_tenant_id ci)
                (ci_adapter_dir_hash ci) in
      case al_backing (snd e) of Some b \<Rightarrow> with_galaxy (galaxy_id b) k | None \<Rightarrow> k)"

text \<open>The index of a stack for request pinning; a missing reference counter is made on the fly.\<close>

fun index_entries ::
  "cache_identity \<Rightarrow> (string \<times> nat) list \<Rightarrow> adapter_map \<Rightarrow> counters \<Rightarrow> store_entries \<times> counters" where
  "index_entries ci refcounts [] cs = ([], cs)"
| "index_entries ci refcounts (e # m) cs =
     (let (a, cs1) = (case map_of refcounts (fst e) of
                        Some a \<Rightarrow> (a, cs) | None \<Rightarrow> (length cs, cs @ [0]));
          (es, cs2) = index_entries ci refcounts m cs1 in
      ((cache_key_of ci e, \<lparr>ar_hash = al_hash (snd e), ar_refcount = a\<rparr>) # es, cs2))"

definition save_rollback :: "adapter_table \<Rightarrow> adapter_table" where
  "save_rollback tb =
     tb\<lparr>tb_rollback_state :=
          Some \<lparr>sk_generation = tb_current_stack tb, sk_active = tb_active tb\<rparr>\<rparr>"

definition remove_active :: "adapter_map \<times> 64 word \<Rightarrow> string \<Rightarrow> adapter_map \<times> 64 word" where
  "remove_active acc i =
     (case map_of (fst acc) i of
        Some al \<Rightarrow> (am_remove i (fst acc), snd acc - al_vram_mb al)
      | None \<Rightarrow> acc)"

text \<open>The error is the identifier that is not staged.\<close>

fun add_staged ::
  "adapter_map \<Rightarrow> string list \<Rightarrow> adapter_map \<times> 64 word \<times> nat \<Rightarrow>
   (string, adapter_map \<times> 64 word \<times> nat) result" where
  "add_staged staged [] acc = Ok acc"
| "add_staged staged (i # ids) (active, delta, added) =
     (case map_of staged i of
        Some al \<Rightarrow>
          add_staged staged ids
            (am_insert i (al\<lparr>al_active := True, al_lifecycle := WL_Active\<rparr>) active,
             delta + al_vram_mb al, added + 1)
      | None \<Rightarrow> Err i)"

definition not_staged_error :: "string \<Rightarrow> aos_error" where
  "not_staged_error i =
     EWorker (''Hot-swap aborted: adapter '' @ quoted i @
       '' was not preloaded into staging. You must preload all adapters before swapping them '' @
       ''in. Use the Preload command first with adapter ID and hash.'')"

definition vanished_error :: "string \<Rightarrow> aos_error" where
  "vanished_error i =
     EWorker (''Critical hot-swap error: adapter '' @ quoted i @
       '' was removed from staging between validation and swap (concurrent modification '' @
       ''detected). Swap aborted; active set unchanged.'')"

definition prune_staged :: "string list \<Rightarrow> adapter_table \<Rightarrow> adapter_table" where
  "prune_staged add_ids tb =
     tb\<lparr>tb_staged := foldl (\<lambda>m i. if i \<in> set (am_keys (tb_active tb)) then m else am_remove i m)
          (tb_staged tb) add_ids\<rparr>"

text \<open>Publishing a new active set: reference counters, the flip of the active set and its
  generation, the index of the store, and the retirement of the previous stack.\<close>

definition commit_swap :: "u64 \<Rightarrow> adapter_map \<Rightarrow> adapter_table \<Rightarrow> adapter_table" where
  "commit_swap now new_active tb =
     (let tb1 = foldl ensure_refcount tb (am_keys new_active);
          previous_gen = tb_current_stack tb;
          new_gen = previous_gen + 1;
          (entries, cs) = index_entries (tb_cache_identity tb1) (tb_refcounts tb1) new_active
                            (tb_counters tb1) in
      tb1\<lparr>tb_active := new_active, tb_current_stack := new_gen, tb_counters := cs,
          tb_store := snd (install now new_gen entries (tb_store tb1)),
          tb_retired_stacks :=
            (if previous_gen \<noteq> new_gen
             then tb_retired_stacks tb1 @ [\<lparr>sk_generation = previous_gen, sk_active = tb_active tb\<rparr>]
             else tb_retired_stacks tb1)\<rparr>)"

definition swap ::
  "u64 \<Rightarrow> string list \<Rightarrow> string list \<Rightarrow> adapter_table \<Rightarrow>
   (aos_error, 64 word \<times> nat) result \<times> adapter_table" where
  "swap now add_ids remove_ids tb =
     (let tb0 = save_rollback tb in
      case find (\<lambda>i. map_of (tb_staged tb0) i = None) add_ids of
        Some i \<Rightarrow> (Err (not_staged_error i), tb0)
      | None \<Rightarrow>
          (let (active1, delta1) = foldl remove_active (tb_active tb0, 0) remove_ids in
           case add_staged (tb_staged tb0) add_ids (active1, delta1, 0) of
             Err i \<Rightarrow> (Err (vanished_error i), prune_staged add_ids tb0)
           | Ok (new_active, vram_delta, added) \<Rightarrow>
               (Ok (vram_delta, added), commit_swap now new_active tb0)))"

definition rollback_error :: aos_error where
  "rollback_error =
     EWorker (''Rollback failed: no previous adapter state saved. Cannot revert to earlier '' @
       ''configuration. This typically happens when attempting rollback before any '' @
       ''successful swap.'')"

definition rollback :: "u64 \<Rightarrow> adapter_table \<Rightarrow> (aos_error, unit) result \<times> adapter_table" where
  "rollback now tb =
     (case tb_rollback_state tb of
        None \<Rightarrow> (Err rollback_error, tb)
      | Some sk \<Rightarrow>
          (let old_generation = tb_current_stack tb;
               (entries, cs) = index_entries (tb_cache_identity tb) (tb_refcounts tb)
                                 (sk_active sk) (tb_counters tb) in
           (Ok (),
            tb\<lparr>tb_active := sk_active sk, tb_current_stack := sk_generation sk,
               tb_counters := cs,
               tb_store := snd (install_force now (sk_generation sk) entries (tb_store tb)),
               tb_retired_stacks :=
                 (if old_generation > sk_generation sk
                  then tb_retired_stacks tb @
                         [\<lparr>sk_generation = old_generation, sk_active = tb_active tb\<rparr>]
                  else tb_retired_stacks tb),
               tb_rollback_state := None\<rparr>)))"

definition get_current_stack_handle :: "adapter_table \<Rightarrow> adapter_stack" where
  "get_current_stack_handle tb =
     \<lparr>sk_generation = tb_current_stack tb, sk_active = tb_active tb\<rparr>"

definition total_vram_mb :: "adapter_table \<Rightarrow> u64" where
  "total_vram_mb tb = sum_list (map (\<lambda>e. al_vram_mb (snd e)) (tb_active tb))"

section \<open>Checkpoints\<close>

definition table_stack_hash :: "hash_fn \<Rightarrow> (bytes \<Rightarrow> string) \<Rightarrow> adapter_table \<Rightarrow> b3hash" where
  "table_stack_hash H hex_encode tb =
     compute_stack_hash H hex_encode (map (\<lambda>e. (fst e, al_hash (snd e))) (tb_active tb))"

definition compute_cross_layer_hash ::
  "hash_fn \<Rightarrow> adapter_table \<Rightarrow> gpu_fingerprint list \<Rightarrow> b3hash" where
  "compute_cross_layer_hash H tb fps =
     H (concat (map (\<lambda>i. case map_of (tb_active tb) i of
                           Some al \<Rightarrow> str_bytes i @ al_hash al | None \<Rightarrow> [])
                 (sort (am_keys (tb_active tb)))) @
        concat (map (\<lambda>fp. str_bytes (gf_adapter_id fp) @ le_bytes 8 (gf_buffer_bytes fp) @
                          gf_checkpoint_hash fp)
                 (sort_key gf_adapter_id fps)))"

definition create_checkpoint ::
  "hash_fn \<Rightarrow> (bytes \<Rightarrow> string) \<Rightarrow> u64 \<Rightarrow> gpu_fingerprint list \<Rightarrow> adapter_table \<Rightarrow>
   stack_checkpoint \<times> adapter_table" where
  "create_checkpoint H hex_encode now fps tb =
     (let cp = \<lparr>cp_timestamp = now, cp_metadata_hash = table_stack_hash H hex_encode tb,
                cp_cross_layer_hash = Some (compute_cross_layer_hash H tb fps),
                cp_gpu_fingerprints = fps, cp_adapter_ids = sort (am_keys (tb_active tb))\<rparr>;
          cps = tb_checkpoints tb @ [cp] in
      (cp, tb\<lparr>tb_checkpoints := (if length cps > tb_max_checkpoints tb then tl cps else cps)\<rparr>))"

definition get_checkpoints :: "nat \<Rightarrow> adapter_table \<Rightarrow> stack_checkpoint list" where
  "get_checkpoints limit tb =
     (let n = length (tb_checkpoints tb);
          start = (if n > limit then n - limit else 0) in
      drop start (tb_checkpoints tb))"

definition verify_against_checkpoint ::
  "hash_fn \<Rightarrow> (bytes \<Rightarrow> string) \<Rightarrow> stack_checkpoint \<Rightarrow> gpu_fingerprint list \<Rightarrow> adapter_table \<Rightarrow> bool" where
  "verify_against_checkpoint H hex_encode cp fps tb =
     (if table_stack_hash H hex_encode tb \<noteq> cp_metadata_hash cp then False
      else
        (case cp_cross_layer_hash cp of
           Some expected \<Rightarrow> compute_cross_layer_hash H tb fps = expected
         | None \<Rightarrow> True))"

section \<open>Reference counts\<close>

definition inc_ref :: "string \<Rightarrow> adapter_table \<Rightarrow> adapter_table" where
  "inc_ref i tb =
     (case map_of (tb_refcounts tb) i of
        Some a \<Rightarrow> tb\<lparr>tb_counters := fetch_add a (tb_counters tb)\<rparr> | None \<Rightarrow> tb)"

definition dec_ref :: "string \<Rightarrow> adapter_table \<Rightarrow> u64 \<times> adapter_table" where
  "dec_ref i tb =
     (case map_of (tb_refcounts tb) i of
        Some a \<Rightarrow>
          (let old = tb_counters tb ! a in
           (if old = 0 then 0 else old - 1, tb\<lparr>tb_counters := fetch_sub a (tb_counters tb)\<rparr>))
      | None \<Rightarrow> (0, tb))"

definition ref_count :: "adapter_table \<Rightarrow> string \<Rightarrow> u64" where
  "ref_count tb i =
     (case map_of (tb_refcounts tb) i of Some a \<Rightarrow> tb_counters tb ! a | None \<Rightarrow> 0)"

definition drain_timeout_error ::
  "(nat \<Rightarrow> string) \<Rightarrow> nat \<Rightarrow> (string \<times> u64) list \<Rightarrow> aos_error" where
  "drain_timeout_error show_duration timeout counts =
     (let busy = filter (\<lambda>c. snd c > 0) counts in
      EWorker (''Hot-swap blocked: '' @ show_nat (length busy) @
        '' adapter(s) still have active inference requests after '' @ show_duration timeout @
        '' timeout. Adapters in use: '' @
        join_with '', '' (map (\<lambda>c. quoted (fst c) @ '' ('' @ show_u64 (snd c) @ '' refs)'') busy) @
        ''. Wait for requests to complete or increase timeout.''))"

text \<open>
  The wait polls the table; the list holds what each poll sees, with the time elapsed since the
  start. \<open>None\<close>: the polls seen so far decide nothing.
\<close>

fun wait_for_zero_refs ::
  "(nat \<Rightarrow> string) \<Rightarrow> string list \<Rightarrow> nat \<Rightarrow> (adapter_table \<times> nat) list \<Rightarrow>
   (aos_error, unit) result option" where
  "wait_for_zero_refs show_duration ids timeout [] = None"
| "wait_for_zero_refs show_duration ids timeout ((tb, elapsed) # polls) =
     (let counts = map (\<lambda>i. (i, ref_count tb i)) ids in
      if list_all (\<lambda>c. snd c = 0) counts then Some (Ok ())
      else if elapsed \<ge> timeout then Some (Err (drain_timeout_error show_duration timeout counts))
      else wait_for_zero_refs show_duration ids timeout polls)"

section \<open>Retirement\<close>

record 'k kernel_ops =
  ko_attach :: "16 word \<Rightarrow> 'k \<Rightarrow> (aos_error, unit) result \<times> 'k"
  ko_detach :: "16 word \<Rightarrow> 'k \<Rightarrow> (aos_error, unit) result \<times> 'k"
  ko_switch :: "16 word \<Rightarrow> 'k \<Rightarrow> (aos_error, unit) result \<times> 'k"

definition adapter_id_to_u16 :: "hash_fn \<Rightarrow> string \<Rightarrow> 16 word" where
  "adapter_id_to_u16 H i = from_le_bytes (take 2 (b3_hash H (str_bytes i)))"

text \<open>The flag says that a detachment failed; the rest is then skipped.\<close>

fun detach_all :: "'k kernel_ops \<Rightarrow> hash_fn \<Rightarrow> string list \<Rightarrow> 'k \<Rightarrow> bool \<times> 'k" where
  "detach_all ko H [] k = (False, k)"
| "detach_all ko H (i # ids) k =
     (case ko_detach ko (adapter_id_to_u16 H i) k of
        (Ok _, k1) \<Rightarrow> detach_all ko H ids k1
      | (Err _, k1) \<Rightarrow> (True, k1))"

definition can_unload :: "adapter_table \<Rightarrow> adapter_stack \<Rightarrow> bool" where
  "can_unload tb sk \<longleftrightarrow>
     list_all (\<lambda>i. case map_of (tb_refcounts tb) i of
                     Some a \<Rightarrow> tb_counters tb ! a = 0 | None \<Rightarrow> False)
       (am_keys (sk_active sk))"

fun remove_generation :: "u64 \<Rightarrow> adapter_stack list \<Rightarrow> adapter_stack list" where
  "remove_generation gen [] = []"
| "remove_generation gen (sk # sks) =
     (if sk_generation sk = gen then sks else sk # remove_generation gen sks)"

definition remove_index :: "nat \<Rightarrow> 'a list \<Rightarrow> 'a list" where
  "remove_index i xs = take i xs @ drop (i + 1) xs"

definition forget_retired :: "u64 \<Rightarrow> adapter_table \<Rightarrow> adapter_table" where
  "forget_retired gen tb =
     tb\<lparr>tb_retired_stacks := remove_generation gen (tb_retired_stacks tb),
        tb_retry_counts := am_remove gen (tb_retry_counts tb)\<rparr>"

definition retry_count :: "adapter_table \<Rightarrow> u64 \<Rightarrow> u32" where
  "retry_count tb gen = (case map_of (tb_retry_counts tb) gen of Some n \<Rightarrow> n | None \<Rightarrow> 0)"

definition bump_retry :: "u64 \<Rightarrow> adapter_table \<Rightarrow> adapter_table" where
  "bump_retry gen tb =
     tb\<lparr>tb_retry_counts :=
          (case map_of (tb_retry_counts tb) gen of
             Some _ \<Rightarrow> am_update (\<lambda>n. n + 1) gen (tb_retry_counts tb)
           | None \<Rightarrow> am_insert gen 1 (tb_retry_counts tb))\<rparr>"

lemma length_remove_generation:
  "sk \<in> set sks \<Longrightarrow> length (remove_generation (sk_generation sk) sks) = length sks - 1"
proof (induction sks)
  case (Cons s sks)
  then show ?case by (cases sks) auto
qed simp

text \<open>
  One pass over the retired stacks. \<open>None\<close> for the kernels is a worker without a backend.
\<close>

function process_from ::
  "'k kernel_ops \<Rightarrow> hash_fn \<Rightarrow> nat \<Rightarrow> 'k option \<Rightarrow> adapter_table \<Rightarrow> 'k option \<times> adapter_table" where
  "process_from ko H i kernels tb =
     (if i \<ge> length (tb_retired_stacks tb) then (kernels, tb)
      else
        (let sk = tb_retired_stacks tb ! i;
             gen = sk_generation sk in
         if \<not> can_unload tb sk then process_from ko H (i + 1) kernels tb
         else if retry_count tb gen \<ge> 3 then
           process_from ko H i kernels
             (tb\<lparr>tb_retired_stacks := remove_index i (tb_retired_stacks tb),
                 tb_retry_counts := am_remove gen (tb_retry_counts tb)\<rparr>)
         else
           (case kernels of
              None \<Rightarrow> process_from ko H i None (forget_retired gen tb)
            | Some k \<Rightarrow>
                (let (failed, k1) = detach_all ko H (am_keys (sk_active sk)) k in
                 if \<not> failed then process_from ko H i (Some k1) (forget_retired gen tb)
                 else process_from ko H (i + 1) (Some k1) (bump_retry gen tb)))))"
  by pat_completeness auto
termination
  by (relation "measure (\<lambda>(ko, H, i, kernels, tb). length (tb_retired_stacks tb) - i)")
    (auto simp: forget_retired_def bump_retry_def remove_index_def length_remove_generation)

declare process_from.simps [simp del]

definition process_retired_stacks ::
  "'k kernel_ops \<Rightarrow> hash_fn \<Rightarrow> 'k option \<Rightarrow> adapter_table \<Rightarrow> 'k option \<times> adapter_table" where
  "process_retired_stacks ko H kernels tb = process_from ko H 0 kernels tb"

function cleanup_from ::
  "'k kernel_ops \<Rightarrow> hash_fn \<Rightarrow> nat \<Rightarrow> nat \<Rightarrow> 'k option \<Rightarrow> adapter_table \<Rightarrow>
   nat \<times> 'k option \<times> adapter_table" where
  "cleanup_from ko H cleaned i kernels tb =
     (if i \<ge> length (tb_retired_stacks tb) then (cleaned, kernels, tb)
      else
        (let sk = tb_retired_stacks tb ! i;
             gen = sk_generation sk in
         if \<not> can_unload tb sk then cleanup_from ko H cleaned (i + 1) kernels tb
         else
           (case kernels of
              None \<Rightarrow> cleanup_from ko H (cleaned + 1) i None (forget_retired gen tb)
            | Some k \<Rightarrow>
                (let (failed, k1) = detach_all ko H (am_keys (sk_active sk)) k in
                 if \<not> failed then
                   cleanup_from ko H (cleaned + 1) i (Some k1) (forget_retired gen tb)
                 else cleanup_from ko H cleaned (i + 1) (Some k1) tb))))"
  by pat_completeness auto
termination
  by (relation "measure (\<lambda>(ko, H, c, i, kernels, tb). length (tb_retired_stacks tb) - i)")
    (auto simp: forget_retired_def length_remove_generation)

declare cleanup_from.simps [simp del]

definition force_cleanup_retired ::
  "'k kernel_ops \<Rightarrow> hash_fn \<Rightarrow> 'k option \<Rightarrow> adapter_table \<Rightarrow> nat \<times> 'k option \<times> adapter_table" where
  "force_cleanup_retired ko H kernels tb = cleanup_from ko H 0 0 kernels tb"

text \<open>One round of the background retirement task.\<close>

fun retire_stacks ::
  "'k kernel_ops \<Rightarrow> hash_fn \<Rightarrow> adapter_stack list \<Rightarrow> 'k option \<Rightarrow> adapter_table \<Rightarrow>
   'k option \<times> adapter_table" where
  "retire_stacks ko H [] kernels tb = (kernels, tb)"
| "retire_stacks ko H (sk # sks) kernels tb =
     (let removed = tb\<lparr>tb_retired_stacks :=
                        remove_generation (sk_generation sk) (tb_retired_stacks tb)\<rparr> in
      if \<not> can_unload tb sk then retire_stacks ko H sks kernels tb
      else
        (case kernels of
           None \<Rightarrow> retire_stacks ko H sks None removed
         | Some k \<Rightarrow>
             (let (failed, k1) = detach_all ko H (am_keys (sk_active sk)) k in
              retire_stacks ko H sks (Some k1) (if failed then tb else removed))))"

definition retirement_round ::
  "'k kernel_ops \<Rightarrow> hash_fn \<Rightarrow> (nat \<Rightarrow> u64) \<Rightarrow> 'k option \<Rightarrow> adapter_table \<Rightarrow>
   'k option \<times> adapter_table" where
  "retirement_round ko H clock kernels tb =
     (let (kernels1, tb1) = retire_stacks ko H (tb_retired_stacks tb) kernels tb in
      (kernels1,
       tb1\<lparr>tb_store := snd (drain_retired clock (tb_counters tb1) (tb_store tb1))\<rparr>))"

section \<open>Request pins\<close>

record pinned_request =
  pr_pins :: adapter_pins
  pr_stack :: adapter_stack
  pr_stack_hash :: b3hash

text \<open>
  Pinning reads the table three times: the stack handle, the index of the store, and the stack
  hash. Each attempt names the tables that the three reads see; the pins of an attempt whose
  generations differ are dropped again at once.
\<close>

fun pin_attempts ::
  "hash_fn \<Rightarrow> (bytes \<Rightarrow> string) \<Rightarrow> bool \<Rightarrow> (adapter_table \<times> adapter_table \<times> adapter_table) list \<Rightarrow>
   (aos_error, pinned_request) result" where
  "pin_attempts H hex_encode allow_empty [] =
     Err (EWorker ''Adapter stack changed while pinning request'')"
| "pin_attempts H hex_encode allow_empty ((tb1, tb2, tb3) # reads) =
     (let sk = get_current_stack_handle tb1 in
      if sk_active sk = [] \<and> \<not> allow_empty
      then Err (EWorker ''No active adapters available to pin'')
      else
        (let pins = fst (pin_current (tb_store tb2) (tb_counters tb2)) in
         if sn_generation (ap_snapshot pins) = sk_generation sk
         then Ok \<lparr>pr_pins = pins, pr_stack = sk, pr_stack_hash = table_stack_hash H hex_encode tb3\<rparr>
         else pin_attempts H hex_encode allow_empty reads))"

definition pin_internal ::
  "hash_fn \<Rightarrow> (bytes \<Rightarrow> string) \<Rightarrow> bool \<Rightarrow> (nat \<Rightarrow> adapter_table) \<Rightarrow>
   (aos_error, pinned_request) result" where
  "pin_internal H hex_encode allow_empty see =
     pin_attempts H hex_encode allow_empty [(see 0, see 1, see 2), (see 3, see 4, see 5)]"

end
