(* ===== verification/HotSwapCorrect.thy ===== *)
theory HotSwapCorrect
  imports HotSwap
begin

text \<open>
  Correctness of the adapter table: a swap is atomic, a rollback undoes it, the index of the store
  agrees with the active set, references are counted exactly, and an adapter that a request has
  pinned is never detached by the retirement of old stacks.
\<close>

section \<open>Reference counters\<close>

definition refs_ok :: "adapter_table \<Rightarrow> bool" where
  "refs_ok tb \<longleftrightarrow> am_ok (tb_refcounts tb) \<and>
     list_all (\<lambda>e. snd e < length (tb_counters tb)) (tb_refcounts tb)"

definition known :: "adapter_table \<Rightarrow> adapter_map \<Rightarrow> bool" where
  "known tb m \<longleftrightarrow> am_ok m \<and> list_all (\<lambda>i. map_of (tb_refcounts tb) i \<noteq> None) (am_keys m)"

definition bound :: "adapter_table \<Rightarrow> store_entries \<Rightarrow> bool" where
  "bound tb es \<longleftrightarrow>
     list_all (\<lambda>e. map_of (tb_refcounts tb) (ck_adapter_id (fst e)) = Some (ar_refcount (snd e))) es"

lemma refs_ok_addr: "refs_ok tb \<Longrightarrow> map_of (tb_refcounts tb) i = Some a \<Longrightarrow> a < length (tb_counters tb)"
  by (force simp: refs_ok_def list_all_iff dest: map_of_SomeD)

lemma ensure_refcount_fields [simp]:
  "tb_active (ensure_refcount tb i) = tb_active tb"
  "tb_staged (ensure_refcount tb i) = tb_staged tb"
  "tb_rollback_state (ensure_refcount tb i) = tb_rollback_state tb"
  "tb_checkpoints (ensure_refcount tb i) = tb_checkpoints tb"
  "tb_max_checkpoints (ensure_refcount tb i) = tb_max_checkpoints tb"
  "tb_current_stack (ensure_refcount tb i) = tb_current_stack tb"
  "tb_retired_stacks (ensure_refcount tb i) = tb_retired_stacks tb"
  "tb_retry_counts (ensure_refcount tb i) = tb_retry_counts tb"
  "tb_store (ensure_refcount tb i) = tb_store tb"
  "tb_cache_identity (ensure_refcount tb i) = tb_cache_identity tb"
  by (simp_all add: ensure_refcount_def split: option.split)

lemma ensure_all_fields [simp]:
  "tb_active (foldl ensure_refcount tb ids) = tb_active tb"
  "tb_staged (foldl ensure_refcount tb ids) = tb_staged tb"
  "tb_rollback_state (foldl ensure_refcount tb ids) = tb_rollback_state tb"
  "tb_checkpoints (foldl ensure_refcount tb ids) = tb_checkpoints tb"
  "tb_max_checkpoints (foldl ensure_refcount tb ids) = tb_max_checkpoints tb"
  "tb_current_stack (foldl ensure_refcount tb ids) = tb_current_stack tb"
  "tb_retired_stacks (foldl ensure_refcount tb ids) = tb_retired_stacks tb"
  "tb_retry_counts (foldl ensure_refcount tb ids) = tb_retry_counts tb"
  "tb_store (foldl ensure_refcount tb ids) = tb_store tb"
  "tb_cache_identity (foldl ensure_refcount tb ids) = tb_cache_identity tb"
  by (induction ids arbitrary: tb) simp_all

lemma ensure_refcount_refs:
  assumes "refs_ok tb"
  shows "refs_ok (ensure_refcount tb i)"
    and "map_of (tb_refcounts tb) \<subseteq>\<^sub>m map_of (tb_refcounts (ensure_refcount tb i))"
    and "map_of (tb_refcounts (ensure_refcount tb i)) i \<noteq> None"
    and "counted (tb_counters tb) M \<Longrightarrow> counted (tb_counters (ensure_refcount tb i)) M"
proof -
  have ok: "am_ok (tb_refcounts tb)" using assms by (simp add: refs_ok_def)
  note l = hash_map.lookup_insert [OF ok, of i "length (tb_counters tb)"]
  have s: "set (am_insert i a m) \<subseteq> insert (i, a) (set m)" for a m
    by (auto simp: am_insert_def am_remove_def)
  show "refs_ok (ensure_refcount tb i)"
    using assms hash_map.ok_insert [OF ok] s [of "length (tb_counters tb)" "tb_refcounts tb"]
    by (fastforce simp: ensure_refcount_def refs_ok_def list_all_iff split: option.split)
  show "map_of (tb_refcounts tb) \<subseteq>\<^sub>m map_of (tb_refcounts (ensure_refcount tb i))"
    using l by (auto simp: ensure_refcount_def map_le_def split: option.split)
  show "map_of (tb_refcounts (ensure_refcount tb i)) i \<noteq> None"
    using l by (simp add: ensure_refcount_def split: option.split)
  show "counted (tb_counters tb) M \<Longrightarrow> counted (tb_counters (ensure_refcount tb i)) M"
    by (simp add: ensure_refcount_def counted_alloc split: option.split)
qed

lemma ensure_all_refs:
  assumes "refs_ok tb"
  shows "refs_ok (foldl ensure_refcount tb ids) \<and>
    map_of (tb_refcounts tb) \<subseteq>\<^sub>m map_of (tb_refcounts (foldl ensure_refcount tb ids)) \<and>
    (\<forall>i \<in> set ids. map_of (tb_refcounts (foldl ensure_refcount tb ids)) i \<noteq> None) \<and>
    (\<forall>M. counted (tb_counters tb) M \<longrightarrow> counted (tb_counters (foldl ensure_refcount tb ids)) M)"
  using assms
proof (induction ids arbitrary: tb)
  case (Cons i ids)
  let ?t = "ensure_refcount tb i"
  note e = ensure_refcount_refs [OF Cons.prems, where i = i]
  note IH = Cons.IH [OF e(1)]
  have "map_of (tb_refcounts (foldl ensure_refcount ?t ids)) i \<noteq> None"
    using IH e(3) by (metis domIff map_le_implies_dom_le subsetD)
  with IH e map_le_trans show ?case by (auto simp del: not_None_eq)
qed simp

lemma known_mono: "known tb m \<Longrightarrow> map_of (tb_refcounts tb) \<subseteq>\<^sub>m map_of (tb_refcounts tb') \<Longrightarrow> known tb' m"
  by (auto simp: known_def list_all_iff map_le_def dom_def)

lemma bound_mono: "bound tb es \<Longrightarrow> map_of (tb_refcounts tb) \<subseteq>\<^sub>m map_of (tb_refcounts tb') \<Longrightarrow> bound tb' es"
  by (auto simp: bound_def list_all_iff map_le_def dom_def)

lemma known_cong: "tb_refcounts tb' = tb_refcounts tb \<Longrightarrow> known tb' m = known tb m"
  by (simp add: known_def)

lemma bound_cong: "tb_refcounts tb' = tb_refcounts tb \<Longrightarrow> bound tb' es = bound tb es"
  by (simp add: bound_def)

section \<open>The index\<close>

definition index_entry :: "cache_identity \<Rightarrow> (string \<times> nat) list \<Rightarrow> string \<times> adapter_load_state \<Rightarrow>
  adapter_cache_key \<times> adapter_record" where
  "index_entry ci refcounts e =
     (cache_key_of ci e,
      \<lparr>ar_hash = al_hash (snd e), ar_refcount = the (map_of refcounts (fst e))\<rparr>)"

lemma cache_key_id [simp]: "ck_adapter_id (cache_key_of ci e) = fst e"
  by (simp add: cache_key_of_def Let_def with_galaxy_def cache_key_new_def split: option.split)

lemma index_entries_known:
  "known tb m \<Longrightarrow> index_entries ci (tb_refcounts tb) m cs =
     (map (index_entry ci (tb_refcounts tb)) m, cs)"
proof (induction m)
  case (Cons e m)
  then have "known tb m" by (simp add: known_def am_ok_def)
  with Cons show ?case by (auto simp: known_def index_entry_def)
qed simp

lemma bound_index: "known tb m \<Longrightarrow> bound tb (map (index_entry ci (tb_refcounts tb)) m)"
  by (auto simp: bound_def list_all_iff index_entry_def known_def am_keys_def)

text \<open>What the index says about each adapter: identifier, hash and counter.\<close>

definition index_view :: "adapter_store \<Rightarrow> (string \<times> b3hash \<times> nat) list" where
  "index_view st = map (\<lambda>e. (ck_adapter_id (fst e), ar_hash (snd e), ar_refcount (snd e)))
     (sn_entries (st_current st))"

definition active_view :: "adapter_table \<Rightarrow> adapter_map \<Rightarrow> (string \<times> b3hash \<times> nat) list" where
  "active_view tb m = map (\<lambda>e. (fst e, al_hash (snd e), the (map_of (tb_refcounts tb) (fst e)))) m"

lemma index_view_of_index:
  "sn_entries (st_current st) = map (index_entry ci (tb_refcounts tb)) m \<Longrightarrow>
   index_view st = active_view tb m"
  by (simp add: index_view_def active_view_def index_entry_def)

lemma active_view_mono:
  assumes "known tb m" "map_of (tb_refcounts tb) \<subseteq>\<^sub>m map_of (tb_refcounts tb')"
  shows "active_view tb' m = active_view tb m"
  using assms by (auto simp: active_view_def known_def list_all_iff map_le_def dom_def am_keys_def)

section \<open>The swap\<close>

lemma remove_all_lookup:
  "am_ok active \<Longrightarrow> foldl remove_active (active, d) ids = (active', d') \<Longrightarrow>
   am_ok active' \<and> (\<forall>i. map_of active' i = (if i \<in> set ids then None else map_of active i))"
proof (induction ids arbitrary: active d)
  case (Cons j ids)
  have l: "map_of (am_remove j active) = (map_of active)(j := None)" by (rule hash_map.lookup_remove)
  show ?case
  proof (cases "map_of active j")
    case None
    with Cons show ?thesis using Cons.IH [of active d] by (auto simp: remove_active_def [of "(active, d)"])
  next
    case (Some al)
    with Cons.prems have "foldl remove_active (am_remove j active, d - al_vram_mb al) ids = (active', d')"
      by (simp add: remove_active_def [of "(active, d)"])
    from Cons.IH [OF hash_map.ok_remove [OF Cons.prems(1)] this] show ?thesis by (simp add: l)
  qed
qed simp

definition activated :: "adapter_load_state \<Rightarrow> adapter_load_state" where
  "activated al = al\<lparr>al_active := True, al_lifecycle := WL_Active\<rparr>"

lemma add_staged_lookup:
  "am_ok active \<Longrightarrow> \<forall>i \<in> set ids. map_of staged i \<noteq> None \<Longrightarrow>
   \<exists>active' d'. add_staged staged ids (active, d, n) = Ok (active', d', n + length ids) \<and> am_ok active' \<and>
     (\<forall>i. map_of active' i =
        (if i \<in> set ids then map_option activated (map_of staged i) else map_of active i))"
proof (induction ids arbitrary: active d n)
  case (Cons j ids)
  then obtain al where al: "map_of staged j = Some al" by auto
  let ?a = "am_insert j (activated al) active"
  have l: "map_of ?a = (map_of active)(j \<mapsto> activated al)"
    by (rule hash_map.lookup_insert [OF Cons.prems(1)])
  have "\<forall>i \<in> set ids. map_of staged i \<noteq> None" using Cons.prems(2) by simp
  from Cons.IH [OF hash_map.ok_insert [OF Cons.prems(1)] this, of j "activated al" "d + al_vram_mb al" "n + 1"]
  show ?case using al l by (auto simp: activated_def)
qed simp

text \<open>The active set that a swap asks for.\<close>

definition swapped_lookup :: "adapter_table \<Rightarrow> string list \<Rightarrow> string list \<Rightarrow> string \<Rightarrow>
  adapter_load_state option" where
  "swapped_lookup tb add_ids remove_ids i =
     (if i \<in> set add_ids then map_option activated (map_of (tb_staged tb) i)
      else if i \<in> set remove_ids then None else map_of (tb_active tb) i)"

lemma swap_rejected:
  assumes "find (\<lambda>i. map_of (tb_staged tb) i = None) add_ids = Some i"
  shows "swap now add_ids remove_ids tb = (Err (not_staged_error i), save_rollback tb)"
  using assms by (simp add: swap_def save_rollback_def)

lemma swap_accepted:
  assumes "am_ok (tb_active tb)" "find (\<lambda>i. map_of (tb_staged tb) i = None) add_ids = None"
  shows "\<exists>delta new_active. swap now add_ids remove_ids tb =
      (Ok (delta, length add_ids), commit_swap now new_active (save_rollback tb)) \<and> am_ok new_active \<and>
    map_of new_active = swapped_lookup tb add_ids remove_ids"
proof -
  obtain active1 d1 where r: "foldl remove_active (tb_active tb, 0) remove_ids = (active1, d1)"
    by fastforce
  have a: "am_ok active1" "\<And>i. map_of active1 i = (if i \<in> set remove_ids then None else map_of (tb_active tb) i)"
    using remove_all_lookup [OF assms(1) r] by auto
  have "\<forall>i \<in> set add_ids. map_of (tb_staged tb) i \<noteq> None"
    using assms(2) by (simp add: find_None_iff)
  from add_staged_lookup [OF a(1) this, of d1 0] obtain new_active delta where
    n: "add_staged (tb_staged tb) add_ids (active1, d1, 0) = Ok (new_active, delta, length add_ids)"
    "am_ok new_active" "\<And>i. map_of new_active i = (if i \<in> set add_ids
       then map_option activated (map_of (tb_staged tb) i) else map_of active1 i)" by auto
  have "swap now add_ids remove_ids tb =
      (Ok (delta, length add_ids), commit_swap now new_active (save_rollback tb))"
    using assms(2) r n(1) by (simp add: swap_def save_rollback_def)
  moreover have "map_of new_active = swapped_lookup tb add_ids remove_ids"
    by (auto simp: fun_eq_iff n(3) a(2) swapped_lookup_def)
  ultimately show ?thesis using n(2) by blast
qed

lemma save_rollback_fields [simp]:
  "tb_active (save_rollback tb) = tb_active tb" "tb_staged (save_rollback tb) = tb_staged tb"
  "tb_current_stack (save_rollback tb) = tb_current_stack tb"
  "tb_refcounts (save_rollback tb) = tb_refcounts tb" "tb_counters (save_rollback tb) = tb_counters tb"
  "tb_retired_stacks (save_rollback tb) = tb_retired_stacks tb" "tb_store (save_rollback tb) = tb_store tb"
  "tb_cache_identity (save_rollback tb) = tb_cache_identity tb"
  "tb_rollback_state (save_rollback tb) =
     Some \<lparr>sk_generation = tb_current_stack tb, sk_active = tb_active tb\<rparr>"
  by (simp_all add: save_rollback_def)

lemma ensured_known:
  "refs_ok tb \<Longrightarrow> am_ok m \<Longrightarrow> known (foldl ensure_refcount tb (am_keys m)) m"
  using ensure_all_refs [of tb "am_keys m"] by (simp add: known_def list_all_iff)

lemma commit_swap_fields:
  assumes "refs_ok tb" "am_ok m"
  defines "tb1 \<equiv> foldl ensure_refcount tb (am_keys m)"
  shows "tb_active (commit_swap now m tb) = m"
    and "tb_staged (commit_swap now m tb) = tb_staged tb"
    and "tb_current_stack (commit_swap now m tb) = tb_current_stack tb + 1"
    and "tb_rollback_state (commit_swap now m tb) = tb_rollback_state tb"
    and "tb_cache_identity (commit_swap now m tb) = tb_cache_identity tb"
    and "tb_refcounts (commit_swap now m tb) = tb_refcounts tb1"
    and "tb_counters (commit_swap now m tb) = tb_counters tb1"
    and "tb_retired_stacks (commit_swap now m tb) =
      tb_retired_stacks tb @ [\<lparr>sk_generation = tb_current_stack tb, sk_active = tb_active tb\<rparr>]"
    and "tb_store (commit_swap now m tb) = snd (install now (tb_current_stack tb + 1)
      (map (index_entry (tb_cache_identity tb) (tb_refcounts tb1)) m) (tb_store tb))"
proof -
  note i = index_entries_known [OF ensured_known [OF assms(1,2)], folded tb1_def]
  show "tb_active (commit_swap now m tb) = m" "tb_staged (commit_swap now m tb) = tb_staged tb"
    "tb_current_stack (commit_swap now m tb) = tb_current_stack tb + 1"
    "tb_rollback_state (commit_swap now m tb) = tb_rollback_state tb"
    "tb_cache_identity (commit_swap now m tb) = tb_cache_identity tb"
    "tb_refcounts (commit_swap now m tb) = tb_refcounts tb1"
    "tb_counters (commit_swap now m tb) = tb_counters tb1"
    "tb_retired_stacks (commit_swap now m tb) =
      tb_retired_stacks tb @ [\<lparr>sk_generation = tb_current_stack tb, sk_active = tb_active tb\<rparr>]"
    "tb_store (commit_swap now m tb) = snd (install now (tb_current_stack tb + 1)
      (map (index_entry (tb_cache_identity tb) (tb_refcounts tb1)) m) (tb_store tb))"
    using i by (simp_all add: commit_swap_def Let_def tb1_def)
qed

section \<open>The table in use\<close>

record table_system =
  ts_table :: adapter_table
  ts_live :: "adapter_pins list"
  ts_held :: "nat list"

definition pins_bound :: "adapter_table \<Rightarrow> adapter_pins \<Rightarrow> bool" where
  "pins_bound tb p \<longleftrightarrow> bound tb (sn_entries (ap_snapshot p)) \<and>
     addresses (ap_pinned p) = map (\<lambda>e. ar_refcount (snd e)) (sn_entries (ap_snapshot p))"

definition stacks_known :: "adapter_table \<Rightarrow> bool" where
  "stacks_known tb \<longleftrightarrow> known tb (tb_active tb) \<and>
     (case tb_rollback_state tb of Some sk \<Rightarrow> known tb (sk_active sk) | None \<Rightarrow> True) \<and>
     list_all (\<lambda>sk. known tb (sk_active sk)) (tb_retired_stacks tb)"

text \<open>The index of the store is the index of the active set, at its generation.\<close>

definition index_ok :: "adapter_table \<Rightarrow> bool" where
  "index_ok tb \<longleftrightarrow> sn_generation (st_current (tb_store tb)) = tb_current_stack tb \<and>
     index_view (tb_store tb) = active_view tb (tb_active tb)"

definition store_bound :: "adapter_table \<Rightarrow> bool" where
  "store_bound tb \<longleftrightarrow> list_all (\<lambda>sn. bound tb (sn_entries sn))
     (st_current (tb_store tb) # st_retired (tb_store tb))"

definition table_ok :: "adapter_table \<Rightarrow> bool" where
  "table_ok tb \<longleftrightarrow> refs_ok tb \<and> am_ok (tb_staged tb) \<and> stacks_known tb \<and> index_ok tb \<and> store_bound tb"

definition table_system_ok :: "table_system \<Rightarrow> bool" where
  "table_system_ok ts \<longleftrightarrow> table_ok (ts_table ts) \<and>
     list_all (pins_bound (ts_table ts)) (ts_live ts) \<and>
     counted (tb_counters (ts_table ts)) (live_refs (ts_live ts) + mset (ts_held ts))"

lemma table_okD:
  assumes "table_ok tb"
  shows "refs_ok tb" "am_ok (tb_staged tb)" "known tb (tb_active tb)" "index_ok tb" "store_bound tb"
    "tb_rollback_state tb = Some sk \<Longrightarrow> known tb (sk_active sk)"
    "sk \<in> set (tb_retired_stacks tb) \<Longrightarrow> known tb (sk_active sk)"
  using assms by (auto simp: table_ok_def stacks_known_def list_all_iff)

text \<open>
  Operations keep what an adapter's counter is: whatever grows the map of counters and touches
  neither the stacks nor the index keeps the table in order.
\<close>

lemma table_ok_grow:
  assumes "table_ok tb" "refs_ok tb'" "map_of (tb_refcounts tb) \<subseteq>\<^sub>m map_of (tb_refcounts tb')"
    and "tb_active tb' = tb_active tb" "tb_rollback_state tb' = tb_rollback_state tb"
    and "set (tb_retired_stacks tb') \<subseteq> set (tb_retired_stacks tb)"
    and "tb_current_stack tb' = tb_current_stack tb" "am_ok (tb_staged tb')"
    and "st_current (tb_store tb') = st_current (tb_store tb)"
    and "set (st_retired (tb_store tb')) \<subseteq> set (st_retired (tb_store tb))"
  shows "table_ok tb'"
proof -
  note d = table_okD [OF assms(1)]
  have k: "known tb m \<Longrightarrow> known tb' m" for m by (rule known_mono [OF _ assms(3)])
  have b: "bound tb es \<Longrightarrow> bound tb' es" for es by (rule bound_mono [OF _ assms(3)])
  have "stacks_known tb'"
    using d(3,6,7) k assms(4-6) by (auto simp: stacks_known_def list_all_iff split: option.split)
  moreover have "index_ok tb'"
    using d(4) active_view_mono [OF d(3) assms(3)] assms(4,7,9) by (simp add: index_ok_def index_view_def)
  moreover have "store_bound tb'"
    using d(5) b assms(9,10) by (auto simp: store_bound_def list_all_iff)
  ultimately show ?thesis using assms(2,8) by (simp add: table_ok_def)
qed

lemma pins_bound_mono:
  "pins_bound tb p \<Longrightarrow> map_of (tb_refcounts tb) \<subseteq>\<^sub>m map_of (tb_refcounts tb') \<Longrightarrow> pins_bound tb' p"
  by (auto simp: pins_bound_def intro: bound_mono)

lemma commit_swap_ok:
  assumes ok: "table_ok tb" and rb: "tb_rollback_state tb = Some sk" "sk_active sk = tb_active tb"
    and m: "am_ok m" and gen: "tb_current_stack tb \<noteq> - 1"
  shows "table_ok (commit_swap now m tb)"
proof -
  note d = table_okD [OF ok]
  let ?tb = "commit_swap now m tb" and ?tb1 = "foldl ensure_refcount tb (am_keys m)"
  note f = commit_swap_fields [OF d(1) m, where now = now]
  note e = ensure_all_refs [OF d(1), of "am_keys m"]
  have le: "map_of (tb_refcounts tb) \<subseteq>\<^sub>m map_of (tb_refcounts ?tb)" using e f(6) by simp
  have r: "refs_ok ?tb" using e f(6,7) by (simp add: refs_ok_def)
  have k1: "known ?tb m" using f(6) ensured_known [OF d(1) m] known_cong by blast
  have cur: "st_current (tb_store ?tb) = \<lparr>sn_generation = tb_current_stack tb + 1,
      sn_entries = map (index_entry (tb_cache_identity tb) (tb_refcounts ?tb)) m\<rparr>"
    unfolding f(6,9) using d(4) rcu.publish_next [OF _ gen, of "tb_store tb"] by (simp add: index_ok_def)
  have ret: "st_retired (tb_store ?tb) = st_retired (tb_store tb) @ [st_current (tb_store tb)]"
  proof -
    have "sn_generation (st_current (tb_store tb)) < tb_current_stack tb + 1"
      using d(4) gen by (simp add: index_ok_def)
        (metis add.commute add_eq_0_iff unatSuc word_less_nat_alt lessI)
    then show ?thesis unfolding f(9) by (simp add: install_accepted)
  qed
  have k: "known ?tb (tb_active tb)" using d(3) le by (rule known_mono)
  have "known ?tb (sk_active s)" if "s \<in> set (tb_retired_stacks tb)" for s
    using d(7) [OF that] le by (rule known_mono)
  then have "stacks_known ?tb"
    using k1 k rb by (auto simp: stacks_known_def f(1,4,8) list_all_iff)
  moreover have "index_ok ?tb"
    using cur index_view_of_index [of "tb_store ?tb" "tb_cache_identity tb" ?tb m]
    by (simp add: index_ok_def f(1,3))
  moreover have "store_bound ?tb"
    using d(5) bound_index [OF k1] le unfolding store_bound_def cur ret
    by (auto simp: list_all_iff intro: bound_mono)
  ultimately show ?thesis using r d(2) f(2) by (simp add: table_ok_def)
qed

lemma save_rollback_ok: "table_ok tb \<Longrightarrow> table_ok (save_rollback tb)"
  using known_cong [of "save_rollback tb" tb] bound_cong [of "save_rollback tb" tb]
  by (simp add: table_ok_def stacks_known_def refs_ok_def index_ok_def active_view_def store_bound_def)

lemma swap_ok:
  assumes "table_ok tb" "tb_current_stack tb \<noteq> - 1" "swap now add_ids remove_ids tb = (r, tb')"
  shows "table_ok tb' \<and> map_of (tb_refcounts tb) \<subseteq>\<^sub>m map_of (tb_refcounts tb') \<and>
    (\<forall>M. counted (tb_counters tb) M \<longrightarrow> counted (tb_counters tb') M)"
proof (cases "find (\<lambda>i. map_of (tb_staged tb) i = None) add_ids")
  case (Some i)
  then have "tb' = save_rollback tb" using assms(3) swap_rejected by simp
  with assms(1) show ?thesis by (simp add: save_rollback_ok)
next
  case None
  note d = table_okD [OF assms(1)]
  have "am_ok (tb_active tb)" using d(3) by (simp add: known_def)
  from swap_accepted [OF this None, of now remove_ids] assms(3) obtain m where
    m: "tb' = commit_swap now m (save_rollback tb)" "am_ok m" by fastforce
  have s: "table_ok (save_rollback tb)" by (rule save_rollback_ok [OF assms(1)])
  note f = commit_swap_fields [OF table_okD(1) [OF s] m(2), where now = now]
  note e = ensure_all_refs [OF table_okD(1) [OF s], of "am_keys m"]
  show ?thesis
    using commit_swap_ok [OF s _ _ m(2), of _ now] assms(2) e unfolding m(1) f(6,7) by simp
qed

lemma rollback_fields:
  assumes "table_ok tb" "tb_rollback_state tb = Some sk"
  shows "rollback now tb = (Ok (),
    tb\<lparr>tb_active := sk_active sk, tb_current_stack := sk_generation sk,
       tb_store := snd (install_force now (sk_generation sk)
         (map (index_entry (tb_cache_identity tb) (tb_refcounts tb)) (sk_active sk)) (tb_store tb)),
       tb_retired_stacks :=
         (if tb_current_stack tb > sk_generation sk
          then tb_retired_stacks tb @ [\<lparr>sk_generation = tb_current_stack tb, sk_active = tb_active tb\<rparr>]
          else tb_retired_stacks tb),
       tb_rollback_state := None\<rparr>)"
  using index_entries_known [OF table_okD(6) [OF assms]] assms(2)
  by (simp add: rollback_def Let_def)

lemma rollback_ok:
  assumes "table_ok tb" "rollback now tb = (r, tb')"
  shows "table_ok tb' \<and> tb_refcounts tb' = tb_refcounts tb \<and> tb_counters tb' = tb_counters tb"
proof (cases "tb_rollback_state tb")
  case None
  with assms show ?thesis by (simp add: rollback_def)
next
  case (Some sk)
  note d = table_okD [OF assms(1)]
  note f = rollback_fields [OF assms(1) Some, of now]
  have tb': "tb' = snd (rollback now tb)" using assms(2) by simp
  have k: "known tb' m = known tb m" for m by (rule known_cong) (simp add: tb' f)
  have b: "bound tb' es = bound tb es" for es by (rule bound_cong) (simp add: tb' f)
  have "stacks_known tb'"
    using d(3,6,7) Some unfolding stacks_known_def k by (auto simp: tb' f list_all_iff)
  moreover have "index_view (tb_store tb') = active_view tb' (tb_active tb')"
    by (rule index_view_of_index [of _ "tb_cache_identity tb"]) (simp add: tb' f install_force_fields)
  then have "index_ok tb'" by (simp add: index_ok_def tb' f install_force_fields)
  moreover have "store_bound tb'"
    using d(5) bound_index [OF d(6) [OF Some]] unfolding store_bound_def list_all_iff b
    by (auto simp: tb' f install_force_fields)
  ultimately show ?thesis using d(1,2) by (simp add: table_ok_def refs_ok_def tb' f)
qed

lemma preload_ok:
  assumes "table_ok tb" "preload_with_backing now i eh h v bk tb = (r, tb')"
  shows "table_ok tb' \<and> map_of (tb_refcounts tb) \<subseteq>\<^sub>m map_of (tb_refcounts tb') \<and>
    (\<forall>M. counted (tb_counters tb) M \<longrightarrow> counted (tb_counters tb') M)"
proof (cases "v = 0")
  case False
  note d = table_okD [OF assms(1)]
  obtain staged where s: "tb' = ensure_refcount (tb\<lparr>tb_staged := staged\<rparr>) i" "am_ok staged"
    using assms(2) False d(2) hash_map.ok_insert [OF d(2)]
    by (auto simp: preload_with_backing_def Let_def split: if_splits)
       (metis adapter_table.surjective adapter_table.update_convs(2))
  have "refs_ok (tb\<lparr>tb_staged := staged\<rparr>)" using d(1) by (simp add: refs_ok_def)
  note e = ensure_refcount_refs [OF this, where i = i, folded s(1)]
  have "table_ok tb'"
    by (rule table_ok_grow [OF assms(1) e(1)]) (use e(2) s in simp_all)
  with e show ?thesis by simp
next
  case True
  with assms show ?thesis by (simp add: preload_with_backing_def)
qed

section \<open>Retirement\<close>

text \<open>Whether no reference to the adapter is counted.\<close>

definition idle :: "adapter_table \<Rightarrow> string \<Rightarrow> bool" where
  "idle tb i \<longleftrightarrow>
     (case map_of (tb_refcounts tb) i of Some a \<Rightarrow> tb_counters tb ! a = 0 | None \<Rightarrow> False)"

lemma can_unload_idle: "can_unload tb sk \<longleftrightarrow> list_all (idle tb) (am_keys (sk_active sk))"
  by (simp add: can_unload_def idle_def [abs_def])

text \<open>What retirement changes: it forgets retired stacks and their retries.\<close>

definition shrinks :: "adapter_table \<Rightarrow> adapter_table \<Rightarrow> bool" where
  "shrinks tb tb' \<longleftrightarrow> set (tb_retired_stacks tb') \<subseteq> set (tb_retired_stacks tb) \<and>
     (\<exists>sks rcs. tb' = tb\<lparr>tb_retired_stacks := sks, tb_retry_counts := rcs\<rparr>)"

lemma shrinks_refl [simp]: "shrinks tb tb"
  unfolding shrinks_def by (metis adapter_table.surjective adapter_table.update_convs(9,10) subset_refl)

lemma shrinks_trans: "shrinks a b \<Longrightarrow> shrinks b c \<Longrightarrow> shrinks a c"
  unfolding shrinks_def by force

lemma set_remove_generation: "set (remove_generation g sks) \<subseteq> set sks"
  by (induction sks) auto

lemma set_remove_index: "set (remove_index i xs) \<subseteq> set xs"
  by (auto simp: remove_index_def dest: in_set_takeD in_set_dropD)

lemma shrinksI:
  "set sks \<subseteq> set (tb_retired_stacks tb) \<Longrightarrow>
   shrinks tb (tb\<lparr>tb_retired_stacks := sks, tb_retry_counts := rcs\<rparr>)"
  by (auto simp: shrinks_def)

lemma shrinks_steps:
  "shrinks tb (forget_retired gen tb)" "shrinks tb (bump_retry gen tb)"
  "shrinks tb (tb\<lparr>tb_retired_stacks := remove_generation gen (tb_retired_stacks tb)\<rparr>)"
  "shrinks tb (tb\<lparr>tb_retired_stacks := remove_index i (tb_retired_stacks tb), tb_retry_counts := rcs\<rparr>)"
proof -
  show "shrinks tb (forget_retired gen tb)"
    unfolding forget_retired_def by (rule shrinksI [OF set_remove_generation])
  show "shrinks tb (bump_retry gen tb)"
    using shrinksI [of "tb_retired_stacks tb" tb] by (simp add: bump_retry_def)
  show "shrinks tb (tb\<lparr>tb_retired_stacks := remove_generation gen (tb_retired_stacks tb)\<rparr>)"
    using shrinksI [OF set_remove_generation, where tb = tb and rcs = "tb_retry_counts tb"] by simp
  show "shrinks tb (tb\<lparr>tb_retired_stacks := remove_index i (tb_retired_stacks tb), tb_retry_counts := rcs\<rparr>)"
    by (rule shrinksI [OF set_remove_index])
qed

lemma shrinks_idle: "shrinks tb tb' \<Longrightarrow> idle tb' = idle tb"
  by (auto simp: shrinks_def idle_def fun_eq_iff split: option.splits)

lemma shrinks_ok:
  assumes "shrinks tb tb'" "table_ok tb"
  shows "table_ok tb'"
  by (rule table_ok_grow [OF assms(2)])
    (use assms(1) table_okD(1,2) [OF assms(2)] in \<open>auto simp: shrinks_def refs_ok_def\<close>)

text \<open>
  A property of the kernel that detaching idle adapters keeps is kept by every kind of
  retirement.
\<close>

definition detach_safe :: "'k kernel_ops \<Rightarrow> hash_fn \<Rightarrow> adapter_table \<Rightarrow> ('k option \<Rightarrow> bool) \<Rightarrow> bool" where
  "detach_safe ko H tb P \<longleftrightarrow>
     (\<forall>i k. P (Some k) \<longrightarrow> idle tb i \<longrightarrow> P (Some (snd (ko_detach ko (adapter_id_to_u16 H i) k))))"

lemma detach_safe_mono: "detach_safe ko H tb P \<Longrightarrow> shrinks tb tb' \<Longrightarrow> detach_safe ko H tb' P"
  by (simp add: detach_safe_def shrinks_idle)

lemma detach_all_safe:
  "detach_safe ko H tb P \<Longrightarrow> list_all (idle tb) ids \<Longrightarrow> P (Some k) \<Longrightarrow>
   P (Some (snd (detach_all ko H ids k)))"
proof (induction ids arbitrary: k)
  case (Cons i ids)
  then have "P (Some (snd (ko_detach ko (adapter_id_to_u16 H i) k)))" by (simp add: detach_safe_def)
  with Cons show ?case by (auto split: prod.split sum.split)
qed simp

lemma process_from_steps:
  assumes "i < length (tb_retired_stacks tb)"
  defines "sk \<equiv> tb_retired_stacks tb ! i"
  shows "\<not> can_unload tb sk \<Longrightarrow> process_from ko H i kernels tb = process_from ko H (i + 1) kernels tb"
    and "can_unload tb sk \<Longrightarrow> retry_count tb (sk_generation sk) \<ge> 3 \<Longrightarrow>
      process_from ko H i kernels tb = process_from ko H i kernels
        (tb\<lparr>tb_retired_stacks := remove_index i (tb_retired_stacks tb),
            tb_retry_counts := am_remove (sk_generation sk) (tb_retry_counts tb)\<rparr>)"
    and "can_unload tb sk \<Longrightarrow> \<not> retry_count tb (sk_generation sk) \<ge> 3 \<Longrightarrow>
      process_from ko H i None tb = process_from ko H i None (forget_retired (sk_generation sk) tb)"
    and "can_unload tb sk \<Longrightarrow> \<not> retry_count tb (sk_generation sk) \<ge> 3 \<Longrightarrow>
      detach_all ko H (am_keys (sk_active sk)) k = (failed, k1) \<Longrightarrow>
      process_from ko H i (Some k) tb =
        (if failed then process_from ko H (i + 1) (Some k1) (bump_retry (sk_generation sk) tb)
         else process_from ko H i (Some k1) (forget_retired (sk_generation sk) tb))"
  using assms by (subst process_from.simps, simp add: Let_def)+

lemma process_from_retires:
  "process_from ko H i kernels tb = (kernels', tb') \<Longrightarrow> detach_safe ko H tb P \<Longrightarrow>
   P kernels \<Longrightarrow>
   shrinks tb tb' \<and> P kernels'"
proof (induction ko H i kernels tb arbitrary: kernels' tb' rule: process_from.induct)
  case (1 ko H i kernels tb)
  show ?case
  proof (cases "i \<ge> length (tb_retired_stacks tb)")
    case True
    with 1(6-8) show ?thesis by (simp add: process_from.simps [of _ _ i])
  next
    case False
    let ?sk = "tb_retired_stacks tb ! i"
    let ?f = "forget_retired (sk_generation ?sk) tb" and ?b = "bump_retry (sk_generation ?sk) tb"
    note st = process_from_steps [OF False [unfolded not_le]]
    note mono = detach_safe_mono [OF 1(7)]
    consider (busy) "\<not> can_unload tb ?sk"
      | (quarantine) "can_unload tb ?sk" "retry_count tb (sk_generation ?sk) \<ge> 3"
      | (bare) "can_unload tb ?sk" "\<not> retry_count tb (sk_generation ?sk) \<ge> 3" "kernels = None"
      | (detach) k failed k1 where "can_unload tb ?sk" "\<not> retry_count tb (sk_generation ?sk) \<ge> 3"
          "kernels = Some k" "detach_all ko H (am_keys (sk_active ?sk)) k = (failed, k1)"
      by (metis not_None_eq surj_pair)
    then show ?thesis
    proof cases
      case busy
      have "process_from ko H (i + 1) kernels tb = (kernels', tb')"
        using st(1) [OF busy, of ko H kernels] 1(6) by simp
      from 1(1) [OF False refl refl busy this 1(7,8)] show ?thesis .
    next
      case quarantine
      let ?t = "tb\<lparr>tb_retired_stacks := remove_index i (tb_retired_stacks tb),
        tb_retry_counts := am_remove (sk_generation ?sk) (tb_retry_counts tb)\<rparr>"
      have s: "shrinks tb ?t" by (rule shrinks_steps)
      have "process_from ko H i kernels ?t = (kernels', tb')"
        using st(2) [OF quarantine, of ko H kernels] 1(6) by simp
      from 1(2) [OF False refl refl _ quarantine(2) this mono [OF s] 1(8)] quarantine(1)
      show ?thesis using shrinks_trans [OF s] by blast
    next
      case bare
      have s: "shrinks tb ?f" by (rule shrinks_steps)
      have "process_from ko H i None ?f = (kernels', tb')"
        using st(3) [OF bare(1,2), of ko H] 1(6) bare(3) by simp
      from 1(3) [OF False refl refl _ bare(2,3) this mono [OF s]] bare(1,3) 1(8)
      show ?thesis using shrinks_trans [OF s] by auto
    next
      case (detach k failed k1)
      have k1: "P (Some k1)"
        using detach_all_safe [OF 1(7), of "am_keys (sk_active ?sk)" k] 1(8) detach
        by (simp add: can_unload_idle)
      show ?thesis
      proof (cases failed)
        case True
        have s: "shrinks tb ?b" by (rule shrinks_steps)
        have "process_from ko H (i + 1) (Some k1) ?b = (kernels', tb')"
          using st(4) [OF detach(1,2,4)] 1(6) detach(3) True by simp
        from 1(5) [OF False refl refl _ detach(2,3) detach(4) [symmetric] refl _ this mono [OF s]] detach(1) True k1
        show ?thesis using shrinks_trans [OF s] by auto
      next
        case f: False
        have s: "shrinks tb ?f" by (rule shrinks_steps)
        have "process_from ko H i (Some k1) ?f = (kernels', tb')"
          using st(4) [OF detach(1,2,4)] 1(6) detach(3) f by simp
        from 1(4) [OF False refl refl _ detach(2,3) detach(4) [symmetric] refl f this mono [OF s]] detach(1) k1
        show ?thesis using shrinks_trans [OF s] by auto
      qed
    qed
  qed
qed

lemma cleanup_from_steps:
  assumes "i < length (tb_retired_stacks tb)"
  defines "sk \<equiv> tb_retired_stacks tb ! i"
  shows "\<not> can_unload tb sk \<Longrightarrow> cleanup_from ko H c i kernels tb = cleanup_from ko H c (i + 1) kernels tb"
    and "can_unload tb sk \<Longrightarrow> cleanup_from ko H c i None tb =
      cleanup_from ko H (c + 1) i None (forget_retired (sk_generation sk) tb)"
    and "can_unload tb sk \<Longrightarrow> detach_all ko H (am_keys (sk_active sk)) k = (failed, k1) \<Longrightarrow>
      cleanup_from ko H c i (Some k) tb =
        (if failed then cleanup_from ko H c (i + 1) (Some k1) tb
         else cleanup_from ko H (c + 1) i (Some k1) (forget_retired (sk_generation sk) tb))"
  using assms by (subst cleanup_from.simps, simp add: Let_def)+

lemma cleanup_from_retires:
  "cleanup_from ko H c i kernels tb = (n, kernels', tb') \<Longrightarrow> detach_safe ko H tb P \<Longrightarrow>
   P kernels \<Longrightarrow>
   shrinks tb tb' \<and> P kernels'"
proof (induction ko H c i kernels tb arbitrary: n kernels' tb' rule: cleanup_from.induct)
  case (1 ko H c i kernels tb)
  show ?case
  proof (cases "i \<ge> length (tb_retired_stacks tb)")
    case True
    with 1(5-7) show ?thesis by (simp add: cleanup_from.simps [of _ _ _ i])
  next
    case False
    let ?sk = "tb_retired_stacks tb ! i"
    let ?f = "forget_retired (sk_generation ?sk) tb"
    note st = cleanup_from_steps [OF False [unfolded not_le]]
    have s: "shrinks tb ?f" by (rule shrinks_steps)
    note mono = detach_safe_mono [OF 1(6) s]
    consider (busy) "\<not> can_unload tb ?sk"
      | (bare) "can_unload tb ?sk" "kernels = None"
      | (detach) k failed k1 where "can_unload tb ?sk" "kernels = Some k"
          "detach_all ko H (am_keys (sk_active ?sk)) k = (failed, k1)"
      by (metis not_None_eq surj_pair)
    then show ?thesis
    proof cases
      case busy
      have "cleanup_from ko H c (i + 1) kernels tb = (n, kernels', tb')"
        using st(1) [OF busy, of ko H c kernels] 1(5) by simp
      from 1(1) [OF False refl refl busy this 1(6,7)] show ?thesis .
    next
      case bare
      have "cleanup_from ko H (c + 1) i None ?f = (n, kernels', tb')"
        using st(2) [OF bare(1), of ko H c] 1(5) bare(2) by simp
      from 1(2) [OF False refl refl _ bare(2) this mono] bare(1,2) 1(7)
      show ?thesis using shrinks_trans [OF s] by auto
    next
      case (detach k failed k1)
      have k1: "P (Some k1)"
        using detach_all_safe [OF 1(6), of "am_keys (sk_active ?sk)" k] 1(7) detach
        by (simp add: can_unload_idle)
      show ?thesis
      proof (cases failed)
        case True
        have "cleanup_from ko H c (i + 1) (Some k1) tb = (n, kernels', tb')"
          using st(3) [OF detach(1,3)] 1(5) detach(2) True by simp
        from 1(4) [OF False refl refl _ detach(2) detach(3) [symmetric] refl _ this 1(6)] detach(1) True k1
        show ?thesis by simp
      next
        case f: False
        have "cleanup_from ko H (c + 1) i (Some k1) ?f = (n, kernels', tb')"
          using st(3) [OF detach(1,3)] 1(5) detach(2) f by simp
        from 1(3) [OF False refl refl _ detach(2) detach(3) [symmetric] refl f this mono] detach(1) k1
        show ?thesis using shrinks_trans [OF s] by auto
      qed
    qed
  qed
qed

lemma retire_stacks_retires:
  "retire_stacks ko H sks kernels tb = (kernels', tb') \<Longrightarrow> detach_safe ko H tb P \<Longrightarrow>
   P kernels \<Longrightarrow>
   shrinks tb tb' \<and> P kernels'"
proof (induction sks arbitrary: kernels tb)
  case (Cons sk sks)
  let ?r = "tb\<lparr>tb_retired_stacks := remove_generation (sk_generation sk) (tb_retired_stacks tb)\<rparr>"
  have s: "shrinks tb ?r" by (rule shrinks_steps)
  note mono = detach_safe_mono [OF Cons.prems(2) s]
  consider (busy) "\<not> can_unload tb sk" | (bare) "can_unload tb sk" "kernels = None"
    | (detach) k failed k1 where "can_unload tb sk" "kernels = Some k"
        "detach_all ko H (am_keys (sk_active sk)) k = (failed, k1)"
    by (metis not_None_eq surj_pair)
  then show ?case
  proof cases
    case busy
    with Cons show ?thesis by simp
  next
    case bare
    with Cons.IH [of None ?r] Cons.prems(1,3) mono show ?thesis using shrinks_trans [OF s] by auto
  next
    case (detach k failed k1)
    have k1: "P (Some k1)"
      using detach_all_safe [OF Cons.prems(2), of "am_keys (sk_active sk)" k] Cons.prems(3) detach
      by (simp add: can_unload_idle)
    show ?thesis
    proof (cases failed)
      case True
      with Cons.IH [of "Some k1" tb] Cons.prems(1,2) detach k1 show ?thesis by simp
    next
      case False
      with Cons.IH [of "Some k1" ?r] Cons.prems(1) mono detach k1 show ?thesis
        using shrinks_trans [OF s] by auto
    qed
  qed
qed simp

lemma retirement_round_retires:
  assumes "retirement_round ko H clock kernels tb = (kernels', tb')" "detach_safe ko H tb P"
    "P kernels"
  shows "\<exists>tb1. shrinks tb tb1 \<and>
      tb' = tb1\<lparr>tb_store := snd (drain_retired clock (tb_counters tb1) (tb_store tb1))\<rparr> \<and>
      P kernels'"
proof -
  obtain tb1 where r: "retire_stacks ko H (tb_retired_stacks tb) kernels tb = (kernels', tb1)"
    "tb' = tb1\<lparr>tb_store := snd (drain_retired clock (tb_counters tb1) (tb_store tb1))\<rparr>"
    using assms(1) by (auto simp: retirement_round_def Let_def split: prod.splits)
  with retire_stacks_retires [OF r(1) assms(2,3)] show ?thesis by blast
qed

section \<open>Steps\<close>

text \<open>
  The table's own methods, with requests that pin and release the current index, and workflows that
  hold counted references. A swap below the largest generation number is assumed. The manager also
  edits the table from outside: after a failed swap it takes staged adapters and their counters out of
  the maps, and its eviction for the memory budget forgets adapters without references. Those edits are no steps
  of this relation. The eviction is judged in \<^verbatim>\<open>CacheBudget\<close>; what the clean-up breaks is shown in
  \<^verbatim>\<open>ManagerCorrect\<close>.
\<close>

inductive table_step ::
  "'k kernel_ops \<Rightarrow> hash_fn \<Rightarrow> table_system \<Rightarrow> table_system \<Rightarrow> bool" for ko H where
  preloads: "preload_with_backing now i eh h v bk (ts_table ts) = (r, tb) \<Longrightarrow>
     table_step ko H ts (ts\<lparr>ts_table := tb\<rparr>)"
| rehashes: "table_step ko H ts (ts\<lparr>ts_table := update_staged_hash i h (ts_table ts)\<rparr>)"
| clears: "table_step ko H ts (ts\<lparr>ts_table := clear_staged (ts_table ts)\<rparr>)"
| identifies: "table_step ko H ts (ts\<lparr>ts_table := set_cache_identity ci (ts_table ts)\<rparr>)"
| budgets: "table_step ko H ts (ts\<lparr>ts_table := set_adapter_cache_budget_bytes bb (ts_table ts)\<rparr>)"
| swaps: "tb_current_stack (ts_table ts) \<noteq> - 1 \<Longrightarrow>
     swap now add_ids remove_ids (ts_table ts) = (sr, tb) \<Longrightarrow>
     table_step ko H ts (ts\<lparr>ts_table := tb\<rparr>)"
| rolls_back: "rollback now (ts_table ts) = (r, tb) \<Longrightarrow> table_step ko H ts (ts\<lparr>ts_table := tb\<rparr>)"
| checkpoints: "create_checkpoint H hex_encode now fps (ts_table ts) = (cp, tb) \<Longrightarrow>
     table_step ko H ts (ts\<lparr>ts_table := tb\<rparr>)"
| table_pins: "pin_current (tb_store (ts_table ts)) (tb_counters (ts_table ts)) = (p, cs) \<Longrightarrow>
     table_step ko H ts
       (ts\<lparr>ts_table := (ts_table ts)\<lparr>tb_counters := cs\<rparr>, ts_live := p # ts_live ts\<rparr>)"
| table_unpins: "p \<in> set (ts_live ts) \<Longrightarrow> drop_pins p (tb_counters (ts_table ts)) = Some cs \<Longrightarrow>
     table_step ko H ts
       (ts\<lparr>ts_table := (ts_table ts)\<lparr>tb_counters := cs\<rparr>, ts_live := remove1 p (ts_live ts)\<rparr>)"
| holds: "map_of (tb_refcounts (ts_table ts)) i = Some a \<Longrightarrow>
     table_step ko H ts (ts\<lparr>ts_table := inc_ref i (ts_table ts), ts_held := a # ts_held ts\<rparr>)"
| releases: "map_of (tb_refcounts (ts_table ts)) i = Some a \<Longrightarrow> a \<in> set (ts_held ts) \<Longrightarrow>
     table_step ko H ts
       (ts\<lparr>ts_table := snd (dec_ref i (ts_table ts)), ts_held := remove1 a (ts_held ts)\<rparr>)"
| processes: "process_retired_stacks ko H kernels (ts_table ts) = (kernels', tb) \<Longrightarrow>
     table_step ko H ts (ts\<lparr>ts_table := tb\<rparr>)"
| cleans: "force_cleanup_retired ko H kernels (ts_table ts) = (n, kernels', tb) \<Longrightarrow>
     table_step ko H ts (ts\<lparr>ts_table := tb\<rparr>)"
| retires: "retirement_round ko H clock kernels (ts_table ts) = (kernels', tb) \<Longrightarrow>
     table_step ko H ts (ts\<lparr>ts_table := tb\<rparr>)"

definition table_start :: "string \<Rightarrow> table_system" where
  "table_start version = \<lparr>ts_table = table_new version, ts_live = [], ts_held = []\<rparr>"

lemma table_start_ok: "table_system_ok (table_start version)"
  by (simp add: table_system_ok_def table_start_def table_new_def with_checkpoint_limit_def
      table_ok_def refs_ok_def am_ok_def stacks_known_def known_def index_ok_def index_view_def
      active_view_def store_bound_def bound_def store_new_def)

text \<open>Changes that keep the counters' meaning keep the whole system in order.\<close>

lemma system_ok_table:
  assumes "table_system_ok ts" "table_ok tb"
    and "map_of (tb_refcounts (ts_table ts)) \<subseteq>\<^sub>m map_of (tb_refcounts tb)"
    and "\<And>M. counted (tb_counters (ts_table ts)) M \<Longrightarrow> counted (tb_counters tb) M"
  shows "table_system_ok (ts\<lparr>ts_table := tb\<rparr>)"
  using assms pins_bound_mono [OF _ assms(3)] by (auto simp: table_system_ok_def list_all_iff)

lemma table_ok_counters:
  assumes "table_ok tb" "length cs = length (tb_counters tb)"
  shows "table_ok (tb\<lparr>tb_counters := cs\<rparr>)"
  by (rule table_ok_grow [OF assms(1)]) (use assms table_okD(1,2) [OF assms(1)] in \<open>simp_all add: refs_ok_def\<close>)

lemma system_ok_counters:
  assumes "table_system_ok ts" "length cs = length (tb_counters (ts_table ts))"
    and "list_all (pins_bound (ts_table ts)) live" "counted cs (live_refs live + mset hs)"
  shows "table_system_ok (ts\<lparr>ts_table := (ts_table ts)\<lparr>tb_counters := cs\<rparr>, ts_live := live, ts_held := hs\<rparr>)"
  using assms table_ok_counters [of "ts_table ts" cs]
  by (simp add: table_system_ok_def pins_bound_def [abs_def] bound_def)

lemma shrinks_system_ok: "table_system_ok ts \<Longrightarrow> shrinks (ts_table ts) tb \<Longrightarrow> table_system_ok (ts\<lparr>ts_table := tb\<rparr>)"
  using shrinks_ok by (intro system_ok_table) (auto simp: table_system_ok_def shrinks_def)

lemma drain_system_ok:
  assumes "table_system_ok ts"
  shows "table_system_ok (ts\<lparr>ts_table := (ts_table ts)\<lparr>tb_store :=
      snd (drain_retired clock cs (tb_store (ts_table ts)))\<rparr>\<rparr>)"
proof -
  have t: "table_ok (ts_table ts)" using assms by (simp add: table_system_ok_def)
  have "table_ok ((ts_table ts)\<lparr>tb_store := snd (drain_retired clock cs (tb_store (ts_table ts)))\<rparr>)"
    by (rule table_ok_grow [OF t])
      (use table_okD(1,2) [OF t] in \<open>auto simp: refs_ok_def drain_fields Let_def dest: in_set_dropD\<close>)
  then show ?thesis by (intro system_ok_table [OF assms]) simp_all
qed

lemma pins_bound_range:
  assumes "refs_ok tb" "pins_bound tb p"
  shows "set (addresses (ap_pinned p)) \<subseteq> {..<length (tb_counters tb)}"
  using assms refs_ok_addr [OF assms(1)] by (auto simp: pins_bound_def bound_def list_all_iff)

lemma table_step_ok:
  assumes "table_step ko H ts ts'" and ok: "table_system_ok ts"
  shows "table_system_ok ts'"
proof -
  let ?tb = "ts_table ts"
  have t: "table_ok ?tb" and live: "list_all (pins_bound ?tb) (ts_live ts)"
    and c: "counted (tb_counters ?tb) (live_refs (ts_live ts) + mset (ts_held ts))"
    using ok by (simp_all add: table_system_ok_def)
  note d = table_okD [OF t]
  have trivial: "detach_safe ko H ?tb (\<lambda>_. True)" by (simp add: detach_safe_def)
  have staged: "table_system_ok (ts\<lparr>ts_table := ?tb\<lparr>tb_staged := m\<rparr>\<rparr>)" if "am_ok m" for m
    by (rule system_ok_table [OF ok table_ok_grow [OF t]]) (use that d(1) in \<open>simp_all add: refs_ok_def\<close>)
  from assms(1) show ?thesis
  proof cases
    case (preloads now i eh h v bk r tb)
    with preload_ok [OF t preloads(2)] show ?thesis by (auto intro: system_ok_table [OF ok])
  next
    case (rehashes i h)
    with staged d(2) show ?thesis by (simp add: update_staged_hash_def am_ok_def am_keys_update)
  next
    case clears
    with staged show ?thesis by (simp add: clear_staged_def am_ok_def)
  next
    case (identifies ci)
    have "table_ok (set_cache_identity ci ?tb)"
      by (rule table_ok_grow [OF t]) (use d(1,2) in \<open>simp_all add: refs_ok_def set_cache_identity_def\<close>)
    with identifies show ?thesis
      by (auto intro: system_ok_table [OF ok] simp: set_cache_identity_def)
  next
    case (budgets bb)
    have "table_ok (set_adapter_cache_budget_bytes bb ?tb)"
      by (rule table_ok_grow [OF t])
        (use d(1,2) in \<open>simp_all add: refs_ok_def set_adapter_cache_budget_bytes_def\<close>)
    with budgets show ?thesis
      by (auto intro: system_ok_table [OF ok] simp: set_adapter_cache_budget_bytes_def)
  next
    case (swaps now add_ids remove_ids sr tb)
    with swap_ok [OF t swaps(2,3)] show ?thesis by (auto intro: system_ok_table [OF ok])
  next
    case (rolls_back now r tb)
    with rollback_ok [OF t rolls_back(2)] show ?thesis by (auto intro: system_ok_table [OF ok])
  next
    case (checkpoints hex_encode now fps cp tb)
    have tb: "\<exists>cps. tb = ?tb\<lparr>tb_checkpoints := cps\<rparr>"
      using checkpoints(2) by (auto simp: create_checkpoint_def Let_def)
    then have "table_ok tb"
      by (intro table_ok_grow [OF t]) (use d(1,2) in \<open>auto simp: refs_ok_def\<close>)
    with checkpoints(1) tb show ?thesis by (auto intro: system_ok_table [OF ok])
  next
    case (table_pins p cs)
    note f = pin_current_fields [OF table_pins(2)]
    have p: "pins_bound ?tb p" using d(5) f(1,2) by (simp add: pins_bound_def store_bound_def)
    note a = counted_add_all [OF c pins_bound_range [OF d(1) p], folded f(3)]
    show ?thesis
      using system_ok_counters [OF ok, of cs "p # ts_live ts" "ts_held ts"] a p live table_pins(1)
      by (simp add: add_ac)
  next
    case (table_unpins p cs)
    have "mset (addresses (ap_pinned p)) \<subseteq># live_refs (ts_live ts) + mset (ts_held ts)"
      using live_refs_remove [OF table_unpins(2)] by simp
    note a = counted_drop [OF c this table_unpins(3) [unfolded drop_pins_def]]
    have "list_all (pins_bound ?tb) (remove1 p (ts_live ts))"
      using live by (auto simp: list_all_iff dest: notin_set_remove1)
    with a show ?thesis
      using system_ok_counters [OF ok, of cs "remove1 p (ts_live ts)" "ts_held ts"] table_unpins(1)
        live_refs_remove [OF table_unpins(2)] by simp
  next
    case (holds i a)
    note r = counted_add [OF c refs_ok_addr [OF d(1) holds(2)]]
    show ?thesis
      using system_ok_counters [OF ok, of "fetch_add a (tb_counters ?tb)" "ts_live ts" "a # ts_held ts"]
        r live holds by (simp add: inc_ref_def)
  next
    case (releases i a)
    have "a \<in># live_refs (ts_live ts) + mset (ts_held ts)" using releases(3) by simp
    note r = counted_sub [OF c this]
    show ?thesis
      using system_ok_counters [OF ok, of "fetch_sub a (tb_counters ?tb)" "ts_live ts" "remove1 a (ts_held ts)"]
        r live releases by (simp add: dec_ref_def Let_def)
  next
    case (processes kernels kernels' tb)
    with process_from_retires [OF processes(2) [unfolded process_retired_stacks_def] trivial] show ?thesis
      using shrinks_system_ok [OF ok] by simp
  next
    case (cleans kernels n kernels' tb)
    with cleanup_from_retires [OF cleans(2) [unfolded force_cleanup_retired_def] trivial] show ?thesis
      using shrinks_system_ok [OF ok] by simp
  next
    case (retires clock kernels kernels' tb)
    obtain tb1 where s: "shrinks ?tb tb1"
      "tb = tb1\<lparr>tb_store := snd (drain_retired clock (tb_counters tb1) (tb_store tb1))\<rparr>"
      using retirement_round_retires [OF retires(2) trivial] by auto
    show ?thesis
      using drain_system_ok [OF shrinks_system_ok [OF ok s(1)], of clock "tb_counters tb1"] retires(1) s(2)
      by simp
  qed
qed

lemma table_reachable_ok: "(table_step ko H)\<^sup>*\<^sup>* (table_start version) ts \<Longrightarrow> table_system_ok ts"
  by (induction rule: rtranclp_induct) (auto intro: table_step_ok table_start_ok)

section \<open>Theorems\<close>

text \<open>
  (C7) The published index follows the active set: after every sequence of calls of the table's own methods
  (\<open>table_step\<close>; the manager's edits of the counter map are not among them) the current index of
  the store has the generation of the table and lists exactly the active adapters with their hashes, every index entry of every retained generation uses the adapter's own counter, and with
  fewer than \<open>2\<^sup>6\<^sup>4\<close> references each counter is the number of references held on it.
\<close>

theorem index_follows_active:
  assumes "(table_step ko H)\<^sup>*\<^sup>* (table_start version) ts" and "tb = ts_table ts"
    and "refs = live_refs (ts_live ts) + mset (ts_held ts)" and "size refs < 2 ^ 64"
  shows "sn_generation (st_current (tb_store tb)) = tb_current_stack tb \<and>
    map (\<lambda>e. (ck_adapter_id (fst e), ar_hash (snd e))) (sn_entries (st_current (tb_store tb))) =
      map (\<lambda>e. (fst e, al_hash (snd e))) (tb_active tb) \<and>
    store_bound tb \<and> (\<forall>a < length (tb_counters tb). unat (tb_counters tb ! a) = count refs a)"
proof -
  from table_reachable_ok [OF assms(1)] have t: "table_ok tb" and c: "counted (tb_counters tb) refs"
    using assms(2,3) by (simp_all add: table_system_ok_def)
  note d = table_okD [OF t]
  have "map (\<lambda>x. (fst x, fst (snd x))) (index_view (tb_store tb)) =
        map (\<lambda>x. (fst x, fst (snd x))) (active_view tb (tb_active tb))"
    using d(4) by (simp add: index_ok_def)
  then have "map (\<lambda>e. (ck_adapter_id (fst e), ar_hash (snd e))) (sn_entries (st_current (tb_store tb))) =
      map (\<lambda>e. (fst e, al_hash (snd e))) (tb_active tb)"
    by (simp add: index_view_def active_view_def o_def)
  moreover have "\<forall>a < length (tb_counters tb). unat (tb_counters tb ! a) = count refs a"
    using counted_pos [OF c assms(4)] by blast
  ultimately show ?thesis using d(4,5) unfolding index_ok_def by blast
qed

text \<open>
  (C5) A swap of a table that was changed only by its own methods is all or nothing. It fails exactly when an adapter to add is not staged, and then only
  the saved rollback state changes; otherwise the active set is the old one without the removed
  and with the staged adapters, the generation goes up by one, the index is published at that
  generation, and the old stack is retired.
\<close>

theorem swap_atomic:
  assumes "(table_step ko H)\<^sup>*\<^sup>* (table_start version) ts" and "tb = ts_table ts"
    and "tb_current_stack tb \<noteq> - 1" and "swap now add_ids remove_ids tb = (r, tb')"
  shows "case r of
      Err e \<Rightarrow> list_ex (\<lambda>i. map_of (tb_staged tb) i = None \<and> e = not_staged_error i) add_ids \<and>
               tb' = save_rollback tb
    | Ok (delta, n) \<Rightarrow> list_all (\<lambda>i. map_of (tb_staged tb) i \<noteq> None) add_ids \<and> n = length add_ids \<and>
        map_of (tb_active tb') = swapped_lookup tb add_ids remove_ids \<and>
        tb_current_stack tb' = tb_current_stack tb + 1 \<and> index_ok tb' \<and>
        tb_retired_stacks tb' = tb_retired_stacks tb @ [get_current_stack_handle tb]"
proof (cases "find (\<lambda>i. map_of (tb_staged tb) i = None) add_ids")
  case (Some i)
  with swap_rejected [OF Some, of now remove_ids] assms(4) show ?thesis
    by (auto simp: list_ex_iff find_Some_iff)
next
  case None
  have t: "table_ok tb" using table_reachable_ok [OF assms(1)] assms(2) by (simp add: table_system_ok_def)
  note d = table_okD [OF t]
  have a: "am_ok (tb_active tb)" using d(3) by (simp add: known_def)
  obtain delta m where m: "r = Ok (delta, length add_ids)" "tb' = commit_swap now m (save_rollback tb)"
    "am_ok m" "map_of m = swapped_lookup tb add_ids remove_ids"
    using swap_accepted [OF a None, of now remove_ids] assms(4) by auto
  note f = commit_swap_fields [OF table_okD(1) [OF save_rollback_ok [OF t]] m(3), where now = now]
  have "index_ok tb'" using swap_ok [OF t assms(3,4)] table_okD(4) by blast
  then show ?thesis
    using None f(1,3,8) m by (simp add: find_None_iff list_all_iff get_current_stack_handle_def)
qed

text \<open>
  (C6) In a table that was changed only by its own methods a rollback undoes the last swap: the active
  set, the generation and the index are the ones
  before the swap, the failed stack is retired, and a second rollback has nothing to restore.
\<close>

theorem rollback_undoes_swap:
  assumes "(table_step ko H)\<^sup>*\<^sup>* (table_start version) ts" and "tb = ts_table ts"
    and "tb_current_stack tb \<noteq> - 1" and "swap now add_ids remove_ids tb = (Ok r, tb1)"
  shows "\<exists>tb2. rollback now' tb1 = (Ok (), tb2) \<and> tb_active tb2 = tb_active tb \<and>
    tb_current_stack tb2 = tb_current_stack tb \<and>
    sn_generation (st_current (tb_store tb2)) = tb_current_stack tb \<and>
    index_view (tb_store tb2) = index_view (tb_store tb) \<and>
    tb_retired_stacks tb2 = tb_retired_stacks tb1 @ [get_current_stack_handle tb1] \<and>
    rollback now'' tb2 = (Err rollback_error, tb2)"
proof -
  have t: "table_ok tb" using table_reachable_ok [OF assms(1)] assms(2) by (simp add: table_system_ok_def)
  note d = table_okD [OF t]
  have a: "am_ok (tb_active tb)" using d(3) by (simp add: known_def)
  have "find (\<lambda>i. map_of (tb_staged tb) i = None) add_ids = None"
    using swap_rejected [of tb add_ids _ now remove_ids] assms(4)
    by (cases "find (\<lambda>i. map_of (tb_staged tb) i = None) add_ids") auto
  from swap_accepted [OF a this, of now remove_ids] assms(4) obtain m where
    m: "tb1 = commit_swap now m (save_rollback tb)" "am_ok m" by auto
  note f = commit_swap_fields [OF table_okD(1) [OF save_rollback_ok [OF t]] m(2), where now = now]
  have s: "table_ok tb1" "map_of (tb_refcounts tb) \<subseteq>\<^sub>m map_of (tb_refcounts tb1)"
    using swap_ok [OF t assms(3,4)] by auto
  let ?sk = "\<lparr>sk_generation = tb_current_stack tb, sk_active = tb_active tb\<rparr>"
  have rb: "tb_rollback_state tb1 = Some ?sk" using f(4) m(1) by simp
  note r = rollback_fields [OF s(1) rb, of now']
  define tb2 where "tb2 = snd (rollback now' tb1)"
  have ok2: "table_ok tb2" "tb_refcounts tb2 = tb_refcounts tb1"
    using rollback_ok [OF s(1), of now' "fst (rollback now' tb1)" tb2] by (simp_all add: tb2_def)
  have "tb_current_stack tb < tb_current_stack tb + 1"
    using assms(3) by (metis add.commute add_eq_0_iff unatSuc word_less_nat_alt lessI)
  moreover have "tb_current_stack tb1 = tb_current_stack tb + 1" using f(3) m(1) by simp
  ultimately have "tb_retired_stacks tb2 = tb_retired_stacks tb1 @ [get_current_stack_handle tb1]"
    unfolding tb2_def r get_current_stack_handle_def by simp
  moreover have act: "tb_active tb2 = tb_active tb" "tb_current_stack tb2 = tb_current_stack tb"
    "tb_rollback_state tb2 = None" by (simp_all add: tb2_def r)
  moreover have "index_view (tb_store tb2) = index_view (tb_store tb)"
    using table_okD(4) [OF ok2(1)] d(4) act(1) active_view_mono [OF d(3), of tb2] s(2) ok2(2)
    by (simp add: index_ok_def)
  ultimately show ?thesis
    using table_okD(4) [OF ok2(1)] r by (auto simp: tb2_def index_ok_def rollback_def)
qed

text \<open>
  (C4) An adapter that a request has pinned stays attached, in a table that was changed only by its own
  methods, pins and counted references (\<open>table_step\<close>): with fewer than \<open>2\<^sup>6\<^sup>4\<close> references, as long as kernel slots
  of different adapters differ and detaching a slot leaves the others alone, no kind of retirement
  detaches an adapter of the snapshot that a live request holds, however often adapters are swapped.
  The restriction is needed: the manager's clean-up after a failed swap drops the counters of
  adapters that are still referenced, and \<^verbatim>\<open>ManagerCorrect\<close> shows that the stack of a pinned adapter
  may then be unloaded.
\<close>

theorem pinned_adapter_stays_attached:
  assumes "(table_step ko H)\<^sup>*\<^sup>* (table_start version) ts" and "tb = ts_table ts"
    and "size (live_refs (ts_live ts) + mset (ts_held ts)) < 2 ^ 64"
    and "p \<in> set (ts_live ts)" and "e \<in> set (sn_entries (ap_snapshot p))"
    and "slot = adapter_id_to_u16 H (ck_adapter_id (fst e))" and "attached k slot"
    and "\<And>j. map_of (tb_refcounts tb) j \<noteq> None \<Longrightarrow> adapter_id_to_u16 H j = slot \<Longrightarrow> j = ck_adapter_id (fst e)"
    and "\<And>u k. attached k slot \<Longrightarrow> u \<noteq> slot \<Longrightarrow> attached (snd (ko_detach ko u k)) slot"
  shows "(\<exists>k1 tb1. process_retired_stacks ko H (Some k) tb = (Some k1, tb1) \<and> attached k1 slot) \<and>
    (\<exists>n k2 tb2. force_cleanup_retired ko H (Some k) tb = (n, Some k2, tb2) \<and> attached k2 slot) \<and>
    (\<exists>k3 tb3. retirement_round ko H clock (Some k) tb = (Some k3, tb3) \<and> attached k3 slot)"
proof -
  from table_reachable_ok [OF assms(1)] have t: "table_ok tb"
    and c: "counted (tb_counters tb) (live_refs (ts_live ts) + mset (ts_held ts))"
    and p: "pins_bound tb p"
    using assms(2,4) by (auto simp: table_system_ok_def list_all_iff)
  let ?i = "ck_adapter_id (fst e)" and ?a = "ar_refcount (snd e)"
  have a: "map_of (tb_refcounts tb) ?i = Some ?a"
    using p assms(5) by (auto simp: pins_bound_def bound_def list_all_iff)
  have "?a \<in> set (addresses (ap_pinned p))"
    using p assms(5) unfolding pins_bound_def by auto
  then have "?a \<in># live_refs (ts_live ts)" using assms(4) in_live_refs by blast
  then have "unat (tb_counters tb ! ?a) > 0"
    using counted_pos [OF c assms(3) refs_ok_addr [OF table_okD(1) [OF t] a]] by simp
  then have busy: "\<not> idle tb ?i" using a by (auto simp: idle_def)
  let ?P = "\<lambda>ks. case ks of Some k \<Rightarrow> attached k slot | None \<Rightarrow> False"
  have safe: "detach_safe ko H tb ?P"
  proof -
    have "adapter_id_to_u16 H j \<noteq> slot" if "idle tb j" for j
      using that busy assms(8) [of j] by (auto simp: idle_def split: option.splits)
    then show ?thesis using assms(9) by (simp add: detach_safe_def)
  qed
  have start: "?P (Some k)" using assms(7) by simp
  obtain k1 tb1 k2 n tb2 k3 tb3 where
    r: "process_from ko H 0 (Some k) tb = (k1, tb1)" "cleanup_from ko H 0 0 (Some k) tb = (n, k2, tb2)"
    "retirement_round ko H clock (Some k) tb = (k3, tb3)" by (metis surj_pair)
  have "?P k1" "?P k2" "?P k3"
    using process_from_retires [OF r(1) safe start] cleanup_from_retires [OF r(2) safe start]
      retirement_round_retires [OF r(3) safe start] by auto
  with r show ?thesis
    by (auto simp: process_retired_stacks_def force_cleanup_retired_def split: option.splits)
qed

section \<open>Witnesses\<close>

definition listing_kernels :: "16 word list kernel_ops" where
  "listing_kernels = \<lparr>ko_attach = (\<lambda>u k. (Ok (), u # k)), ko_detach = (\<lambda>u k. (Ok (), filter (\<lambda>x. x \<noteq> u) k)),
     ko_switch = (\<lambda>u k. (Ok (), k))\<rparr>"

definition sample_table :: adapter_table where
  "sample_table = snd (preload 0 ''a'' b3_zero 5 (table_new ''1''))"

abbreviation sample_H :: hash_fn where
  "sample_H \<equiv> (\<lambda>bs. bs @ replicate 2 0)"

definition staged_system :: table_system where
  "staged_system = (table_start ''1'')\<lparr>ts_table := sample_table\<rparr>"

definition active_system :: table_system where
  "active_system = staged_system\<lparr>ts_table := snd (swap 1 [''a''] [] sample_table)\<rparr>"

definition pinned_system :: table_system where
  "pinned_system =
     (let tb = ts_table active_system; (p, cs) = pin_current (tb_store tb) (tb_counters tb) in
      active_system\<lparr>ts_table := tb\<lparr>tb_counters := cs\<rparr>, ts_live := [p]\<rparr>)"

lemma staged_reachable:
  "(table_step listing_kernels sample_H)\<^sup>*\<^sup>* (table_start ''1'') staged_system"
proof -
  have "preload_with_backing 0 ''a'' b3_zero b3_zero 5 None (ts_table (table_start ''1'')) =
      (fst (preload 0 ''a'' b3_zero 5 (table_new ''1'')), sample_table)"
    by (simp add: sample_table_def table_start_def preload_def)
  from preloads [OF this] show ?thesis unfolding staged_system_def by (rule r_into_rtranclp)
qed

lemma sample_fields:
  "tb_staged sample_table = [(''a'', \<lparr>al_id = ''a'', al_hash = b3_zero, al_expected_hash = b3_zero,
     al_vram_mb = 5, al_loaded_at = 0, al_active = False, al_lifecycle = WL_Loaded, al_backing = None,
     al_recent_uses = []\<rparr>)]"
  "tb_active sample_table = []" "tb_current_stack sample_table = 0" "tb_store sample_table = store_new"
  "tb_refcounts sample_table = [(''a'', 0)]" "tb_counters sample_table = [0]"
  "tb_retired_stacks sample_table = []" "tb_retry_counts sample_table = []"
  by (simp_all add: sample_table_def preload_def preload_with_backing_def Let_def table_new_def
      with_checkpoint_limit_def ensure_refcount_def am_insert_def am_remove_def)

lemma sample_swap: "fst (swap 1 [''a''] [] sample_table) = Ok (5, 1)"
  by (simp add: swap_def Let_def save_rollback_def sample_fields)

lemma active_reachable:
  "(table_step listing_kernels sample_H)\<^sup>*\<^sup>* (table_start ''1'') active_system"
proof -
  have "swap 1 [''a''] [] (ts_table staged_system) = (Ok (5, 1), ts_table active_system)"
    using sample_swap by (simp add: staged_system_def active_system_def prod_eq_iff)
  from swaps [OF _ this, of listing_kernels sample_H] staged_reachable show ?thesis
    by (auto simp: staged_system_def active_system_def sample_fields
        intro: rtranclp.rtrancl_into_rtrancl)
qed

theorem swap_atomic_witness:
  "tb_current_stack (snd (swap 1 [''a''] [] sample_table)) = 1 \<and>
   index_ok (snd (swap 1 [''a''] [] sample_table)) \<and>
   map_of (tb_active (snd (swap 1 [''a''] [] sample_table))) ''a'' \<noteq> None"
  using swap_atomic [OF staged_reachable refl, of 1 "[''a'']" "[]" "Ok (5, 1)"
      "snd (swap 1 [''a''] [] sample_table)"] sample_swap
  by (auto simp: staged_system_def sample_fields prod_eq_iff swapped_lookup_def)

theorem rollback_undoes_swap_witness:
  "\<exists>tb2. rollback 2 (snd (swap 1 [''a''] [] sample_table)) = (Ok (), tb2) \<and> tb_active tb2 = [] \<and>
     tb_current_stack tb2 = 0 \<and> index_view (tb_store tb2) = []"
  using rollback_undoes_swap [OF staged_reachable refl, of 1 "[''a'']" "[]" "(5, 1)"
      "snd (swap 1 [''a''] [] sample_table)" 2 3] sample_swap
  by (auto simp: staged_system_def sample_fields prod_eq_iff index_view_def store_new_def)

lemma active_fields:
  "tb_refcounts (ts_table active_system) = [(''a'', 0)]" "tb_counters (ts_table active_system) = [0]"
  "tb_active (ts_table active_system) = [(''a'', activated (snd (hd (tb_staged sample_table))))]"
  "ts_live active_system = []" "ts_held active_system = []"
  by (simp_all add: active_system_def staged_system_def table_start_def swap_def Let_def
      save_rollback_def sample_fields commit_swap_def am_insert_def am_remove_def
      ensure_refcount_def activated_def)

lemma pinned_reachable:
  "(table_step listing_kernels sample_H)\<^sup>*\<^sup>* (table_start ''1'') pinned_system"
proof -
  obtain p cs where pc: "pin_current (tb_store (ts_table active_system))
      (tb_counters (ts_table active_system)) = (p, cs)" by fastforce
  from table_pins [OF pc, of listing_kernels sample_H] active_reachable show ?thesis
    by (auto simp: pinned_system_def Let_def pc active_fields(4) intro: rtranclp.rtrancl_into_rtrancl)
qed

lemma pinned_fields:
  "\<exists>p e. ts_live pinned_system = [p] \<and> e \<in> set (sn_entries (ap_snapshot p)) \<and>
     ck_adapter_id (fst e) = ''a'' \<and> addresses (ap_pinned p) = [0]"
  "tb_refcounts (ts_table pinned_system) = [(''a'', 0)]" "ts_held pinned_system = []"
proof -
  obtain p cs where pc: "pin_current (tb_store (ts_table active_system))
      (tb_counters (ts_table active_system)) = (p, cs)" by fastforce
  note f = pin_current_fields [OF pc]
  let ?es = "sn_entries (st_current (tb_store (ts_table active_system)))"
  have "index_view (tb_store (ts_table active_system)) = active_view (ts_table active_system) (tb_active (ts_table active_system))"
    using table_okD(4) [of "ts_table active_system"] table_reachable_ok [OF active_reachable]
    by (simp add: table_system_ok_def index_ok_def)
  then obtain e where e: "?es = [e]" "ck_adapter_id (fst e) = ''a''" "ar_refcount (snd e) = 0"
    by (auto simp: index_view_def active_view_def active_fields)
  then show "\<exists>p e. ts_live pinned_system = [p] \<and> e \<in> set (sn_entries (ap_snapshot p)) \<and>
      ck_adapter_id (fst e) = ''a'' \<and> addresses (ap_pinned p) = [0]"
    using f by (intro exI [of _ p] exI [of _ e]) (simp add: pinned_system_def Let_def pc)
  show "tb_refcounts (ts_table pinned_system) = [(''a'', 0)]" "ts_held pinned_system = []"
    by (simp_all add: pinned_system_def Let_def pc active_fields(1,5))
qed

theorem index_follows_active_witness:
  "sn_generation (st_current (tb_store (ts_table pinned_system))) = tb_current_stack (ts_table pinned_system) \<and>
   unat (tb_counters (ts_table pinned_system) ! 0) = 1"
proof -
  obtain p where p: "ts_live pinned_system = [p]" "addresses (ap_pinned p) = [0]"
    using pinned_fields(1) by auto
  have "table_ok (ts_table pinned_system)"
    using table_reachable_ok [OF pinned_reachable] by (simp add: table_system_ok_def)
  then have "0 < length (tb_counters (ts_table pinned_system))"
    using table_okD(1) pinned_fields(2) by (fastforce simp: refs_ok_def)
  then show ?thesis
    using index_follows_active [OF pinned_reachable refl refl] p pinned_fields(3) by simp
qed

theorem pinned_adapter_stays_attached_witness:
  "\<exists>k1 tb1. process_retired_stacks listing_kernels sample_H (Some [97])
     (ts_table pinned_system) = (Some k1, tb1) \<and> 97 \<in> set k1"
proof -
  obtain p e where p: "ts_live pinned_system = [p]" "e \<in> set (sn_entries (ap_snapshot p))"
    "ck_adapter_id (fst e) = ''a''" "addresses (ap_pinned p) = [0]"
    using pinned_fields(1) by auto
  have slot: "adapter_id_to_u16 sample_H ''a'' = 97"
    by (simp add: adapter_id_to_u16_def b3_hash_def str_bytes_def)
  have other: "v \<in> set (snd (ko_detach listing_kernels u k))" if "v \<in> set k" "u \<noteq> v" for u v k
    using that by (auto simp: listing_kernels_def)
  have single: "j = ck_adapter_id (fst e)" if "map_of (tb_refcounts (ts_table pinned_system)) j \<noteq> None" for j
    using that p(3) by (simp add: pinned_fields(2) split: if_splits)
  have "size (live_refs (ts_live pinned_system) + mset (ts_held pinned_system)) < 2 ^ 64"
    using p by (simp add: pinned_fields(3))
  from pinned_adapter_stays_attached [OF pinned_reachable refl this _ p(2) refl, of "\<lambda>k u. u \<in> set k" "[97]"]
  show ?thesis using p(1,3) slot single other by auto
qed

end
