(* ===== verification/HotSwapRetire.thy ===== *)
theory HotSwapRetire
  imports HotSwapCorrect
begin

text \<open>
  Progress and limits of the retirement of stacks: an idle stack leaves the queue after at most
  four passes whatever the kernels answer, and three ways in which the queue goes wrong: a
  generation number that a rollback frees is used again, adapters of a retired stack are detached
  although the active stack still has them, and an unmatched release wraps a counter.
\<close>

section \<open>Progress\<close>

definition generations :: "adapter_table \<Rightarrow> u64 list" where
  "generations tb = map sk_generation (tb_retired_stacks tb)"

lemma remove_generation_index:
  "distinct (map sk_generation sks) \<Longrightarrow> i < length sks \<Longrightarrow>
   remove_generation (sk_generation (sks ! i)) sks = remove_index i sks"
proof (induction sks arbitrary: i)
  case (Cons s sks)
  then show ?case by (cases i) (auto simp: remove_index_def)
qed simp

lemma remove_index_parts:
  assumes "i < length xs"
  shows "take i (remove_index i xs) = take i xs" "drop i (remove_index i xs) = drop (i + 1) xs"
  using assms by (simp_all add: remove_index_def)

lemma drop_nth_Cons: "i < length xs \<Longrightarrow> set (drop i xs) = insert (xs ! i) (set (drop (i + 1) xs))"
  by (metis Cons_nth_drop_Suc Suc_eq_plus1 list.simps(15))

lemma take_nth_snoc: "i < length xs \<Longrightarrow> set (take (i + 1) xs) = insert (xs ! i) (set (take i xs))"
  by (simp add: take_Suc_conv_app_nth)

lemma distinct_other:
  assumes "distinct (map f xs)" "i < length xs" "y \<in> set (take i xs) \<union> set (drop (i + 1) xs)"
  shows "f y \<noteq> f (xs ! i)"
proof -
  have "xs = take i xs @ xs ! i # drop (i + 1) xs" using assms(2) by (simp add: id_take_nth_drop)
  with assms(1) have "distinct (map f (take i xs @ xs ! i # drop (i + 1) xs))" by simp
  with assms(3) show ?thesis by (auto; metis imageI)
qed

lemma retry_count_simps:
  "retry_count (forget_retired g tb) h = (if h = g then 0 else retry_count tb h)"
  "retry_count (bump_retry g tb) h = (if h = g then retry_count tb h + 1 else retry_count tb h)"
  "retry_count (tb\<lparr>tb_retired_stacks := sks, tb_retry_counts := am_remove g (tb_retry_counts tb)\<rparr>) h =
     (if h = g then 0 else retry_count tb h)"
  by (auto simp: retry_count_def forget_retired_def bump_retry_def hash_map.lookup_remove
      lookup_am_update am_insert_def map_of_append map_add_def split: option.splits)

text \<open>What a pass does to a stack before and after the position it has reached.\<close>

lemma distinct_remove_index: "distinct (map f xs) \<Longrightarrow> distinct (map f (remove_index i xs))"
  unfolding remove_index_def map_append take_map [symmetric] drop_map [symmetric]
  by (simp add: set_take_disj_set_drop_if_distinct)

definition pass_effect :: "nat \<Rightarrow> adapter_table \<Rightarrow> adapter_table \<Rightarrow> bool" where
  "pass_effect i tb tb' \<longleftrightarrow> distinct (generations tb') \<and>
     (\<forall>s \<in> set (take i (tb_retired_stacks tb)).
        retry_count tb' (sk_generation s) = retry_count tb (sk_generation s)) \<and>
     (\<forall>s \<in> set (drop i (tb_retired_stacks tb)). can_unload tb s \<longrightarrow> s \<in> set (tb_retired_stacks tb') \<longrightarrow>
        retry_count tb (sk_generation s) < 3 \<and>
        retry_count tb' (sk_generation s) = retry_count tb (sk_generation s) + 1)"

lemma pass_effect_removed:
  assumes i: "i < length (tb_retired_stacks tb)" and d: "distinct (generations tb)"
    and t: "tb_retired_stacks t = remove_index i (tb_retired_stacks tb)" "idle t = idle tb"
      "\<And>h. retry_count t h = (if h = sk_generation (tb_retired_stacks tb ! i) then 0 else retry_count tb h)"
    and e: "pass_effect i t tb'" and sub: "set (tb_retired_stacks tb') \<subseteq> set (tb_retired_stacks t)"
  shows "pass_effect i tb tb'"
proof -
  let ?x = "tb_retired_stacks tb ! i" and ?R = "tb_retired_stacks tb"
  note p = remove_index_parts [OF i]
  have other: "sk_generation s \<noteq> sk_generation ?x" if "s \<in> set (take i ?R) \<union> set (drop (i + 1) ?R)" for s
    by (rule distinct_other [OF d [unfolded generations_def] i that])
  have gone: "?x \<notin> set (tb_retired_stacks tb')"
    using sub other by (auto simp: t(1) remove_index_def)
  have u: "can_unload t s = can_unload tb s" for s by (simp add: can_unload_idle t(2))
  show ?thesis unfolding pass_effect_def
  proof (intro conjI ballI impI)
    show "distinct (generations tb')" using e by (simp add: pass_effect_def)
    fix s assume s: "s \<in> set (take i ?R)"
    then show "retry_count tb' (sk_generation s) = retry_count tb (sk_generation s)"
      using e other p(1) by (simp add: pass_effect_def t(1,3))
  next
    fix s assume s: "s \<in> set (drop i ?R)" and c: "can_unload tb s" "s \<in> set (tb_retired_stacks tb')"
    have s': "s \<in> set (drop (i + 1) ?R)" using s gone c(2) by (auto simp: drop_nth_Cons [OF i])
    then have "retry_count t (sk_generation s) = retry_count tb (sk_generation s)"
      using other by (simp add: t(3))
    moreover have "s \<in> set (drop i (tb_retired_stacks t))" using s' by (simp add: t(1) p(2))
    ultimately show "retry_count tb (sk_generation s) < 3"
      "retry_count tb' (sk_generation s) = retry_count tb (sk_generation s) + 1"
      using e c u by (auto simp: pass_effect_def)
  qed
qed

lemma pass_effect_failed:
  assumes i: "i < length (tb_retired_stacks tb)" and d: "distinct (generations tb)"
    and x: "x = tb_retired_stacks tb ! i" "\<not> retry_count tb (sk_generation x) \<ge> 3"
    and e: "pass_effect (i + 1) (bump_retry (sk_generation x) tb) tb'"
  shows "pass_effect i tb tb'"
proof -
  let ?t = "bump_retry (sk_generation x) tb" and ?R = "tb_retired_stacks tb"
  have R: "tb_retired_stacks (bump_retry g tb) = ?R" for g by (simp add: bump_retry_def)
  have other: "sk_generation s \<noteq> sk_generation x" if "s \<in> set (take i ?R) \<union> set (drop (i + 1) ?R)" for s
    using distinct_other [OF d [unfolded generations_def] i that] x(1) by simp
  have u: "can_unload (bump_retry g tb) s = can_unload tb s" for s g
    using shrinks_idle [OF shrinks_steps(2)] by (simp add: can_unload_idle)
  show ?thesis unfolding pass_effect_def
  proof (intro conjI ballI impI)
    show "distinct (generations tb')" using e by (simp add: pass_effect_def)
    fix s assume s: "s \<in> set (take i ?R)"
    then show "retry_count tb' (sk_generation s) = retry_count tb (sk_generation s)"
      using e other take_nth_snoc [OF i] by (auto simp: pass_effect_def R retry_count_simps)
  next
    fix s assume s: "s \<in> set (drop i ?R)" and c: "can_unload tb s" "s \<in> set (tb_retired_stacks tb')"
    consider "s = x" | "s \<in> set (drop (i + 1) ?R)" using s x(1) by (auto simp: drop_nth_Cons [OF i])
    then have "retry_count tb (sk_generation s) < 3 \<and>
        retry_count tb' (sk_generation s) = retry_count tb (sk_generation s) + 1"
    proof cases
      case 1
      with e take_nth_snoc [OF i] x show ?thesis by (auto simp: pass_effect_def R retry_count_simps)
    next
      case 2
      with e other c u show ?thesis by (auto simp: pass_effect_def R retry_count_simps)
    qed
    then show "retry_count tb (sk_generation s) < 3"
      "retry_count tb' (sk_generation s) = retry_count tb (sk_generation s) + 1" by blast+
  qed
qed

lemma process_pass:
  "process_from ko H i kernels tb = (kernels', tb') \<Longrightarrow> distinct (generations tb) \<Longrightarrow> pass_effect i tb tb'"
proof (induction ko H i kernels tb arbitrary: kernels' tb' rule: process_from.induct)
  case (1 ko H i kernels tb)
  show ?case
  proof (cases "i \<ge> length (tb_retired_stacks tb)")
    case True
    with 1(6,7) show ?thesis by (simp add: process_from.simps [of _ _ i] pass_effect_def)
  next
    case False
    then have i: "i < length (tb_retired_stacks tb)" by simp
    let ?sk = "tb_retired_stacks tb ! i"
    let ?f = "forget_retired (sk_generation ?sk) tb" and ?b = "bump_retry (sk_generation ?sk) tb"
    let ?q = "tb\<lparr>tb_retired_stacks := remove_index i (tb_retired_stacks tb),
        tb_retry_counts := am_remove (sk_generation ?sk) (tb_retry_counts tb)\<rparr>"
    note st = process_from_steps [OF i]
    have fq: "?f = ?q"
      using remove_generation_index [OF 1(7) [unfolded generations_def] i] by (simp add: forget_retired_def)
    have dq: "distinct (generations ?q)"
      using 1(7) distinct_remove_index by (simp add: generations_def)
    have removed: "pass_effect i tb tb'" if "pass_effect i ?q tb'" "shrinks ?q tb'"
      using that(2) by (intro pass_effect_removed [OF i 1(7) _ _ _ that(1)])
        (simp_all add: shrinks_idle [OF shrinks_steps(4)] retry_count_simps shrinks_def)
    have shr: "shrinks t tb'" if "process_from ko H j ks t = (kernels', tb')" for j ks t
      using process_from_retires [OF that, of "\<lambda>_. True"] by (simp add: detach_safe_def)
    consider (busy) "\<not> can_unload tb ?sk"
      | (quarantine) "can_unload tb ?sk" "retry_count tb (sk_generation ?sk) \<ge> 3"
      | (bare) "can_unload tb ?sk" "\<not> retry_count tb (sk_generation ?sk) \<ge> 3" "kernels = None"
      | (detach) k failed k1 where "can_unload tb ?sk" "\<not> retry_count tb (sk_generation ?sk) \<ge> 3"
          "kernels = Some k" "detach_all ko H (am_keys (sk_active ?sk)) k = (failed, k1)"
      by (metis not_None_eq surj_pair)
    then show ?thesis
    proof cases
      case busy
      have "process_from ko H (i + 1) kernels tb = (kernels', tb')"
        using st(1) [OF busy, of ko H kernels] 1(6) by simp
      from 1(1) [OF False refl refl busy this 1(7)] show ?thesis
        using busy by (auto simp: pass_effect_def drop_nth_Cons [OF i] take_nth_snoc [OF i] simp del: One_nat_def)
    next
      case quarantine
      have p: "process_from ko H i kernels ?q = (kernels', tb')"
        using st(2) [OF quarantine, of ko H kernels] 1(6) by simp
      from 1(2) [OF False refl refl _ quarantine(2) p dq] quarantine(1) removed shr [OF p] show ?thesis by blast
    next
      case bare
      have p: "process_from ko H i None ?f = (kernels', tb')"
        using st(3) [OF bare(1,2), of ko H] 1(6) bare(3) by simp
      from 1(3) [OF False refl refl _ bare(2,3) p] bare(1) removed shr [OF p] dq fq show ?thesis by auto
    next
      case (detach k failed k1)
      show ?thesis
      proof (cases failed)
        case True
        have p: "process_from ko H (i + 1) (Some k1) ?b = (kernels', tb')"
          using st(4) [OF detach(1,2,4)] 1(6) detach(3) True by simp
        have "distinct (generations ?b)" using 1(7) by (simp add: generations_def bump_retry_def)
        with 1(5) [OF False refl refl _ detach(2,3) detach(4) [symmetric] refl _ p] detach(1) True
        show ?thesis by (intro pass_effect_failed [OF i 1(7) refl detach(2)]) simp
      next
        case f: False
        have p: "process_from ko H i (Some k1) ?f = (kernels', tb')"
          using st(4) [OF detach(1,2,4)] 1(6) detach(3) f by simp
        from 1(4) [OF False refl refl _ detach(2,3) detach(4) [symmetric] refl f p] detach(1) removed shr [OF p] dq fq
        show ?thesis by auto
      qed
    qed
  qed
qed

text \<open>A run of passes; the kernels may answer differently in each.\<close>

fun passes :: "hash_fn \<Rightarrow> ('k kernel_ops \<times> 'k option) list \<Rightarrow> adapter_table \<Rightarrow> adapter_table" where
  "passes H [] tb = tb"
| "passes H ((ko, kernels) # ks) tb = passes H ks (snd (process_retired_stacks ko H kernels tb))"

lemma one_pass:
  assumes "distinct (generations tb)" "can_unload tb sk" "sk \<in> set (tb_retired_stacks tb)"
    and "tb' = snd (process_retired_stacks ko H kernels tb)"
  shows "distinct (generations tb')" "can_unload tb' sk"
    "sk \<in> set (tb_retired_stacks tb') \<Longrightarrow> unat (retry_count tb (sk_generation sk)) < 3 \<and>
       unat (retry_count tb' (sk_generation sk)) = unat (retry_count tb (sk_generation sk)) + 1"
proof -
  obtain ks where p: "process_from ko H 0 kernels tb = (ks, tb')"
    using assms(4) by (metis process_retired_stacks_def prod.collapse)
  have e: "pass_effect 0 tb tb'" by (rule process_pass [OF p assms(1)])
  then show "distinct (generations tb')" by (simp add: pass_effect_def)
  have "shrinks tb tb'" using process_from_retires [OF p, of "\<lambda>_. True"] by (simp add: detach_safe_def)
  then show "can_unload tb' sk" using assms(2) by (simp add: can_unload_idle shrinks_idle)
  assume "sk \<in> set (tb_retired_stacks tb')"
  with e assms(2,3) have "retry_count tb (sk_generation sk) < 3"
    "retry_count tb' (sk_generation sk) = retry_count tb (sk_generation sk) + 1"
    by (simp_all add: pass_effect_def)
  then show "unat (retry_count tb (sk_generation sk)) < 3 \<and>
      unat (retry_count tb' (sk_generation sk)) = unat (retry_count tb (sk_generation sk)) + 1"
    by (simp add: word_less_nat_alt unat_word_ariths)
qed

lemma pass_gone: "sk \<notin> set (tb_retired_stacks tb) \<Longrightarrow> sk \<notin> set (tb_retired_stacks (passes H ks tb))"
proof (induction ks arbitrary: tb)
  case (Cons c ks)
  obtain ko kernels where c: "c = (ko, kernels)" by fastforce
  obtain ks' tb' where p: "process_from ko H 0 kernels tb = (ks', tb')" by fastforce
  have "shrinks tb tb'" using process_from_retires [OF p, of "\<lambda>_. True"] by (simp add: detach_safe_def)
  with Cons show ?case by (auto simp: c process_retired_stacks_def p shrinks_def)
qed simp

lemma passes_count:
  assumes "distinct (generations tb)" "can_unload tb sk" "sk \<in> set (tb_retired_stacks (passes H ks tb))"
  shows "length ks \<le> 3 \<and> unat (retry_count tb (sk_generation sk)) + length ks \<le> 3 \<or> ks = []"
  using assms
proof (induction ks arbitrary: tb)
  case (Cons c ks)
  obtain ko kernels where c: "c = (ko, kernels)" by fastforce
  let ?t = "snd (process_retired_stacks ko H kernels tb)"
  have here: "sk \<in> set (tb_retired_stacks tb)" "sk \<in> set (tb_retired_stacks ?t)"
    using Cons.prems(3) pass_gone c by (metis passes.simps(2))+
  note o = one_pass [OF Cons.prems(1,2) here(1) refl, of ko H kernels]
  from Cons.IH [OF o(1,2)] Cons.prems(3) o(3) [OF here(2)] show ?case by (auto simp: c)
qed simp

text \<open>
  An idle stack leaves the queue: as long as the retired generations differ, four passes remove a
  retired stack without references, whatever the kernels answer in each pass, either because
  its adapters were detached or because it is given up after three failed attempts.
\<close>

theorem idle_stack_leaves:
  assumes "distinct (generations tb)" "can_unload tb sk" "length ks \<ge> 4"
  shows "sk \<notin> set (tb_retired_stacks (passes H ks tb))"
  using passes_count [OF assms(1,2), of H ks] assms(3) by auto

section \<open>Reused generations\<close>

text \<open>
  A rollback gives the generation number back: a swap, a rollback and another swap leave the same
  generation twice among the retired stacks.
\<close>

theorem generation_reused:
  assumes "(table_step ko H)\<^sup>*\<^sup>* (table_start version) ts" and "tb = ts_table ts"
    and "tb_current_stack tb \<noteq> - 1" and "swap t1 add1 rem1 tb = (Ok r1, tb1)"
    and "rollback t2 tb1 = (Ok (), tb2)" and "swap t3 add2 rem2 tb2 = (Ok r2, tb3)"
  shows "generations tb3 = generations tb @ [tb_current_stack tb, tb_current_stack tb + 1, tb_current_stack tb]"
proof -
  have s1: "(table_step ko H) ts (ts\<lparr>ts_table := tb1\<rparr>)"
    using swaps [of ts t1 add1 rem1 "Ok r1" tb1] assms(2-4) by simp
  have s2: "(table_step ko H) (ts\<lparr>ts_table := tb1\<rparr>) (ts\<lparr>ts_table := tb2\<rparr>)"
    using rolls_back [of t2 "ts\<lparr>ts_table := tb1\<rparr>" "Ok ()" tb2] assms(5) by simp
  have reach: "(table_step ko H)\<^sup>*\<^sup>* (table_start version) (ts\<lparr>ts_table := tb2\<rparr>)"
    using assms(1) s1 s2 by (meson rtranclp.rtrancl_into_rtrancl)
  have t: "table_ok tb" using table_reachable_ok [OF assms(1)] assms(2) by (simp add: table_system_ok_def)
  have t2: "table_ok tb2" using table_reachable_ok [OF reach] by (simp add: table_system_ok_def)
  have swapped: "tb_retired_stacks y = tb_retired_stacks x @ [get_current_stack_handle x]"
    "tb_current_stack y = tb_current_stack x + 1"
    "tb_rollback_state y = Some \<lparr>sk_generation = tb_current_stack x, sk_active = tb_active x\<rparr>"
    if x: "table_ok x" and sw: "swap tm ad re x = (Ok r, y)" for x y tm ad re r
  proof -
    have a: "am_ok (tb_active x)" using table_okD(3) [OF x] by (simp add: known_def)
    have "find (\<lambda>i. map_of (tb_staged x) i = None) ad = None"
      using swap_rejected [of x ad _ tm re] sw by (cases "find (\<lambda>i. map_of (tb_staged x) i = None) ad") auto
    from swap_accepted [OF a this, of tm re] sw obtain m where
      m: "y = commit_swap tm m (save_rollback x)" "am_ok m" by auto
    note f = commit_swap_fields [OF table_okD(1) [OF save_rollback_ok [OF x]] m(2), where now = tm]
    show "tb_retired_stacks y = tb_retired_stacks x @ [get_current_stack_handle x]"
      "tb_current_stack y = tb_current_stack x + 1"
      "tb_rollback_state y = Some \<lparr>sk_generation = tb_current_stack x, sk_active = tb_active x\<rparr>"
      using f(3,4,8) by (simp_all add: m(1) get_current_stack_handle_def)
  qed
  have r: "tb_retired_stacks tb2 = tb_retired_stacks tb1 @ [get_current_stack_handle tb1]"
    "tb_current_stack tb2 = tb_current_stack tb"
  proof -
    have t1: "table_ok tb1" using swap_ok [OF t assms(3,4)] by simp
    have "tb_current_stack tb < tb_current_stack tb + 1"
      using assms(3) by (metis add.commute add_eq_0_iff unatSuc word_less_nat_alt lessI)
    then show "tb_retired_stacks tb2 = tb_retired_stacks tb1 @ [get_current_stack_handle tb1]"
      "tb_current_stack tb2 = tb_current_stack tb"
      using assms(5) rollback_fields [OF t1 swapped(3) [OF t assms(4)], of t2] swapped(2) [OF t assms(4)]
      by (auto simp: get_current_stack_handle_def)
  qed
  show ?thesis
    using swapped(1) [OF t assms(4)] swapped(1) [OF t2 assms(6)] r swapped(2) [OF t assms(4)]
    by (simp add: generations_def get_current_stack_handle_def)
qed

text \<open>
  With a repeated generation the queue loses the wrong stack: a stack in use is dropped in place of
  the idle one that was detached, which stays in the queue.
\<close>

theorem repeated_generation_drops_busy_stack:
  assumes "tb_retired_stacks tb = [busy, unused]" and "sk_generation busy = sk_generation unused"
    and "\<not> can_unload tb busy" "can_unload tb unused" and "retry_count tb (sk_generation unused) < 3"
    and "detach_all ko H (am_keys (sk_active unused)) k = (False, k1)"
  shows "\<exists>tb'. process_retired_stacks ko H (Some k) tb = (Some k1, tb') \<and> tb_retired_stacks tb' = [unused]"
proof -
  have "process_from ko H 0 (Some k) tb = process_from ko H 1 (Some k) tb"
    using process_from_steps(1) [of 0 tb ko H "Some k"] assms by simp
  also have "\<dots> = process_from ko H 1 (Some k1) (forget_retired (sk_generation unused) tb)"
    using process_from_steps(4) [of 1 tb ko H k False k1] assms by (simp add: not_le)
  also have "\<dots> = (Some k1, forget_retired (sk_generation unused) tb)"
    by (subst process_from.simps) (simp add: assms(1,2) forget_retired_def)
  finally show ?thesis
    using assms(1,2) by (simp add: process_retired_stacks_def forget_retired_def)
qed

section \<open>Adapters shared by stacks\<close>

definition two_active :: adapter_table where
  "two_active = snd (swap 3 [''b''] [] (snd (preload 2 ''b'' b3_zero 5 (ts_table active_system))))"

lemma two_active_fields:
  "am_keys (tb_active two_active) = [''a'', ''b'']"
  "map sk_generation (tb_retired_stacks two_active) = [0, 1]"
  "map (\<lambda>sk. am_keys (sk_active sk)) (tb_retired_stacks two_active) = [[], [''a'']]"
  "map_of (tb_refcounts two_active) ''a'' = Some 0" "tb_counters two_active ! 0 = 0"
  "tb_retry_counts two_active = []"
  by (simp_all add: two_active_def active_system_def staged_system_def table_start_def swap_def Let_def
      save_rollback_def sample_fields commit_swap_def am_insert_def am_remove_def am_keys_def
      ensure_refcount_def preload_def preload_with_backing_def)

text \<open>
  A retired stack takes its adapters along even when the active stack has them too: after a second
  adapter was swapped in beside an unpinned first one, a pass over the retired stacks detaches the
  first adapter from the kernels while it is still in the active set.
\<close>

theorem active_adapter_detached:
  "\<exists>k tb. process_retired_stacks listing_kernels sample_H (Some [97, 98]) two_active = (Some k, tb) \<and>
     map_of (tb_active tb) ''a'' \<noteq> None \<and> adapter_id_to_u16 sample_H ''a'' = 97 \<and> 97 \<notin> set k"
proof -
  obtain s0 s1 where r: "tb_retired_stacks two_active = [s0, s1]"
    using two_active_fields(2) by (auto simp: map_eq_Cons_conv)
  note f = two_active_fields [unfolded r]
  have slot: "adapter_id_to_u16 sample_H ''a'' = 97"
    by (simp add: adapter_id_to_u16_def b3_hash_def str_bytes_def)
  have "process_from listing_kernels sample_H 0 (Some [97, 98]) two_active =
      process_from listing_kernels sample_H 0 (Some [97, 98]) (forget_retired 0 two_active)"
    using process_from_steps(4) [of 0 two_active listing_kernels sample_H "[97, 98]" False "[97, 98]"] f r
    by (simp add: can_unload_def retry_count_def)
  also have "\<dots> = process_from listing_kernels sample_H 0 (Some [98]) (forget_retired 1 (forget_retired 0 two_active))"
    using process_from_steps(4) [of 0 "forget_retired 0 two_active" listing_kernels sample_H "[97, 98]" False "[98]"] f r slot
    by (simp add: can_unload_def retry_count_def forget_retired_def listing_kernels_def am_remove_def)
  also have "\<dots> = (Some [98], forget_retired 1 (forget_retired 0 two_active))"
    using f r by (subst process_from.simps) (simp add: forget_retired_def)
  finally have p: "process_retired_stacks listing_kernels sample_H (Some [97, 98]) two_active =
      (Some [98], forget_retired 1 (forget_retired 0 two_active))"
    by (simp add: process_retired_stacks_def)
  have "map_of (tb_active two_active) ''a'' \<noteq> None"
    using f(1) by (auto simp: map_of_eq_None_iff am_keys_def simp flip: set_map)
  then show ?thesis using p slot by (auto simp: forget_retired_def)
qed

section \<open>Witnesses\<close>

definition failing_kernels :: "unit kernel_ops" where
  "failing_kernels = \<lparr>ko_attach = (\<lambda>u k. (Ok (), k)), ko_detach = (\<lambda>u k. (Err (EKernel ''busy''), k)),
     ko_switch = (\<lambda>u k. (Ok (), k))\<rparr>"

theorem idle_stack_leaves_witness:
  "set (tb_retired_stacks two_active) \<inter>
     set (tb_retired_stacks (passes sample_H (replicate 4 (failing_kernels, Some ())) two_active)) = {}"
proof -
  obtain s0 s1 where r: "tb_retired_stacks two_active = [s0, s1]"
    using two_active_fields(2) by (auto simp: map_eq_Cons_conv)
  note f = two_active_fields [unfolded r]
  have "distinct (generations two_active)" by (simp add: generations_def two_active_fields(2))
  moreover have "can_unload two_active s0" "can_unload two_active s1"
    using f by (simp_all add: can_unload_def)
  moreover have "length (replicate 4 (failing_kernels, Some ())) \<ge> 4" by simp
  ultimately show ?thesis
    using idle_stack_leaves [of two_active _ "replicate 4 (failing_kernels, Some ())" sample_H] r by auto
qed

lemma empty_swap:
  "swap now [] [] tb = (Ok (0, 0), commit_swap now (tb_active tb) (save_rollback tb))"
  by (simp add: swap_def Let_def save_rollback_def)

theorem generation_reused_witness:
  "generations (snd (swap 4 [] [] (snd (rollback 3 (snd (swap 2 [] [] (ts_table active_system))))))) =
     [0, 1, 2, 1]"
proof -
  let ?tb = "ts_table active_system"
  define tb1 where "tb1 = snd (swap 2 [] [] ?tb)"
  have f: "tb_current_stack ?tb = 1" "generations ?tb = [0]"
    by (simp_all add: active_system_def staged_system_def table_start_def swap_def Let_def generations_def
      save_rollback_def sample_fields commit_swap_def am_insert_def am_remove_def ensure_refcount_def)
  have "fst (rollback 3 tb1) = Ok ()"
    by (simp add: tb1_def rollback_def empty_swap commit_swap_def Let_def save_rollback_def active_fields
        ensure_refcount_def split: prod.splits)
  then have r: "rollback 3 tb1 = (Ok (), snd (rollback 3 tb1))" by (simp add: prod_eq_iff)
  have s: "swap now [] [] t = (Ok (0, 0), snd (swap now [] [] t))" for now t by (simp add: empty_swap)
  show ?thesis
    using generation_reused [OF active_reachable refl _ s [of 2 ?tb, folded tb1_def] r s [of 4]] f
    by (simp add: tb1_def)
qed

definition twice_retired :: adapter_table where
  "twice_retired = (table_new ''1'')\<lparr>tb_refcounts := [(''a'', 0), (''b'', 1)], tb_counters := [1, 0],
     tb_retired_stacks := [\<lparr>sk_generation = 1, sk_active = [(''a'', activated (snd (hd (tb_staged sample_table))))]\<rparr>,
       \<lparr>sk_generation = 1, sk_active = [(''b'', activated (snd (hd (tb_staged sample_table))))]\<rparr>]\<rparr>"

theorem repeated_generation_drops_busy_stack_witness:
  "\<exists>tb'. process_retired_stacks listing_kernels sample_H (Some [97, 98]) twice_retired = (Some [97], tb') \<and>
     map (\<lambda>sk. am_keys (sk_active sk)) (tb_retired_stacks tb') = [[''b'']]"
proof -
  have slot: "adapter_id_to_u16 sample_H ''b'' = 98"
    by (simp add: adapter_id_to_u16_def b3_hash_def str_bytes_def)
  show ?thesis
    using repeated_generation_drops_busy_stack [of twice_retired _ _ listing_kernels sample_H "[97, 98]" "[97]"] slot
    by (auto simp: twice_retired_def can_unload_def retry_count_def table_new_def with_checkpoint_limit_def
        listing_kernels_def)
qed

end
