(* ===== verification/LockOrder.thy ===== *)
theory LockOrder
  imports AosPrelude
begin

text \<open>
  Calls that take locks, as far as their locks go: a call is the sequence of acquisitions and
  releases it performs, and threads run their calls step by step in any order. A mutex is a lock
  that is only taken exclusively. The flag of the step relation says whether a waiting writer
  holds back readers, as the locks of \<open>parking_lot\<close> do; no lock may be taken twice by one
  thread. The interface \<open>lock_hierarchy\<close> is a set of calls that take their locks in the order
  of a rank: threads that run such calls never get stuck.
\<close>

section \<open>Threads and steps\<close>

datatype lock_mode = Shared | Exclusive

datatype 'l lock_action = Acquire 'l lock_mode | Release 'l

type_synonym 'l lock_program = "'l lock_action list"

record 'l lock_thread =
  lt_held :: "('l \<times> lock_mode) list"
  lt_todo :: "'l lock_program"

definition spawn :: "'l lock_program \<Rightarrow> 'l lock_thread" where
  "spawn p = \<lparr>lt_held = [], lt_todo = p\<rparr>"

definition conflicts :: "lock_mode \<Rightarrow> lock_mode \<Rightarrow> bool" where
  "conflicts m m' \<longleftrightarrow> m = Exclusive \<or> m' = Exclusive"

definition taken :: "'l lock_thread list \<Rightarrow> 'l \<Rightarrow> lock_mode \<Rightarrow> bool" where
  "taken ths l m \<longleftrightarrow> list_ex (\<lambda>t. list_ex (\<lambda>h. fst h = l \<and> conflicts m (snd h)) (lt_held t)) ths"

lemma takenI: "t \<in> set ths \<Longrightarrow> (l, n) \<in> set (lt_held t) \<Longrightarrow> conflicts m n \<Longrightarrow> taken ths l m"
  by (force simp: taken_def list_ex_iff)

definition wants :: "'l lock_thread \<Rightarrow> ('l \<times> lock_mode) option" where
  "wants t = (case lt_todo t of Acquire l m # _ \<Rightarrow> Some (l, m) | _ \<Rightarrow> None)"

definition writer_waits :: "'l lock_thread list \<Rightarrow> 'l \<Rightarrow> bool" where
  "writer_waits ths l \<longleftrightarrow> list_ex (\<lambda>t. wants t = Some (l, Exclusive)) ths"

definition may_acquire :: "bool \<Rightarrow> 'l lock_thread list \<Rightarrow> 'l \<Rightarrow> lock_mode \<Rightarrow> bool" where
  "may_acquire fair ths l m \<longleftrightarrow> \<not> taken ths l m \<and> \<not> (fair \<and> m = Shared \<and> writer_waits ths l)"

inductive lock_step :: "bool \<Rightarrow> 'l lock_thread list \<Rightarrow> 'l lock_thread list \<Rightarrow> bool" for fair where
  acquires: "i < length ths \<Longrightarrow> lt_todo (ths ! i) = Acquire l m # p \<Longrightarrow> may_acquire fair ths l m \<Longrightarrow>
    lock_step fair ths (ths[i := \<lparr>lt_held = (l, m) # lt_held (ths ! i), lt_todo = p\<rparr>])"
| releases: "i < length ths \<Longrightarrow> lt_todo (ths ! i) = Release l # p \<Longrightarrow>
    lock_step fair ths (ths[i := \<lparr>lt_held = filter (\<lambda>h. fst h \<noteq> l) (lt_held (ths ! i)), lt_todo = p\<rparr>])"

inductive_cases lock_stepE: "lock_step fair ths ths'"

definition returned :: "'l lock_thread list \<Rightarrow> bool" where
  "returned ths \<longleftrightarrow> list_all (\<lambda>t. lt_todo t = []) ths"

definition deadlocked :: "bool \<Rightarrow> 'l lock_thread list \<Rightarrow> bool" where
  "deadlocked fair ths \<longleftrightarrow> \<not> returned ths \<and> (\<forall>ths'. \<not> lock_step fair ths ths')"

text \<open>Every step shortens what is left to do.\<close>

definition work :: "'l lock_thread list \<Rightarrow> nat" where
  "work ths = sum_list (map (\<lambda>t. length (lt_todo t)) ths)"

lemma work_update:
  assumes "i < length ths" "length (lt_todo (ths ! i)) = Suc (length (lt_todo t))"
  shows "work ths = Suc (work (ths[i := t]))"
proof -
  have w: "work (xs @ y # ys) = work xs + length (lt_todo y) + work ys" for xs ys :: "'a lock_thread list" and y
    by (simp add: work_def)
  have "work ths = work (take i ths) + length (lt_todo (ths ! i)) + work (drop (Suc i) ths)"
    by (subst (1) id_take_nth_drop [OF assms(1)]) (rule w)
  then show ?thesis using assms(2) by (simp add: upd_conv_take_nth_drop [OF assms(1)] w)
qed

lemma lock_step_work: "lock_step fair ths ths' \<Longrightarrow> work ths = Suc (work ths')"
  by (induction rule: lock_step.induct) (auto intro: work_update)

lemma lock_steps_work: "(lock_step fair ^^ n) ths ths' \<Longrightarrow> work ths = n + work ths'"
  by (induction n arbitrary: ths') (auto dest!: lock_step_work)

section \<open>Ordered calls\<close>

fun ordered :: "('l \<Rightarrow> nat) \<Rightarrow> 'l list \<Rightarrow> 'l lock_program \<Rightarrow> bool" where
  "ordered rank hs [] \<longleftrightarrow> hs = []"
| "ordered rank hs (Acquire l m # p) \<longleftrightarrow>
     list_all (\<lambda>h. rank h < rank l) hs \<and> ordered rank (l # hs) p"
| "ordered rank hs (Release l # p) \<longleftrightarrow> l \<in> set hs \<and> ordered rank (filter (\<lambda>h. h \<noteq> l) hs) p"

fun locks_of :: "'l lock_program \<Rightarrow> 'l set" where
  "locks_of [] = {}"
| "locks_of (Acquire l m # p) = insert l (locks_of p)"
| "locks_of (Release l # p) = locks_of p"

lemma locks_of_append [simp]: "locks_of (p @ q) = locks_of p \<union> locks_of q"
  by (induction p rule: locks_of.induct) auto

text \<open>A complete call may run inside another one that holds only locks of lower rank.\<close>

lemma ordered_inside:
  assumes "ordered rank ks p" "\<forall>h \<in> set hs. \<forall>l \<in> locks_of p \<union> set ks. rank h < rank l"
    and "ordered rank hs q"
  shows "ordered rank (ks @ hs) (p @ q)"
  using assms
proof (induction rank ks p rule: ordered.induct)
  case (3 rank ks l p)
  have "filter (\<lambda>h. h \<noteq> l) hs = hs" using 3(3,2) by (auto intro!: filter_True)
  then show ?case using 3 by auto
qed (auto simp: list_all_iff)

lemma ordered_call:
  assumes "ordered rank [] p" "\<forall>h \<in> set hs. \<forall>l \<in> locks_of p. rank h < rank l" "ordered rank hs q"
  shows "ordered rank hs (p @ q)"
  using ordered_inside [OF assms(1) _ assms(3)] assms(2) by simp

lemma ordered_append: "ordered rank [] p \<Longrightarrow> ordered rank [] q \<Longrightarrow> ordered rank [] (p @ q)"
  by (rule ordered_call) auto

lemma ordered_concat: "list_all (ordered rank []) ps \<Longrightarrow> ordered rank [] (concat ps)"
  by (induction ps) (auto intro: ordered_append)

text \<open>A guard: the calls inside run while the lock is held.\<close>

definition holding :: "'l \<Rightarrow> lock_mode \<Rightarrow> 'l lock_program \<Rightarrow> 'l lock_program" where
  "holding l m p = Acquire l m # p @ [Release l]"

lemma locks_of_holding [simp]: "locks_of (holding l m p) = insert l (locks_of p)"
  by (simp add: holding_def)

lemma ordered_holding:
  assumes "ordered rank [] p" "\<forall>k \<in> locks_of p. rank l < rank k"
  shows "ordered rank [] (holding l m p)"
  using ordered_call [OF assms(1), of "[l]" "[Release l]"] assms(2) by (simp add: holding_def)

definition orderly :: "('l \<Rightarrow> nat) \<Rightarrow> 'l lock_thread list \<Rightarrow> bool" where
  "orderly rank ths \<longleftrightarrow> list_all (\<lambda>t. ordered rank (map fst (lt_held t)) (lt_todo t)) ths"

lemma orderly_update:
  "orderly rank ths \<Longrightarrow> ordered rank (map fst (lt_held t)) (lt_todo t) \<Longrightarrow> orderly rank (ths[i := t])"
  by (auto simp: orderly_def list_all_iff dest: subsetD [OF set_update_subset_insert])

lemma orderly_nth: "orderly rank ths \<Longrightarrow> i < length ths \<Longrightarrow>
    ordered rank (map fst (lt_held (ths ! i))) (lt_todo (ths ! i))"
  by (simp add: orderly_def list_all_length)

lemma orderly_step: "lock_step fair ths ths' \<Longrightarrow> orderly rank ths \<Longrightarrow> orderly rank ths'"
proof (induction rule: lock_step.induct)
  case (acquires i ths l m p)
  from orderly_nth [OF acquires(4,1)] acquires show ?case by (intro orderly_update) auto
next
  case (releases i ths l p)
  from orderly_nth [OF releases(3,1)] releases show ?case
    by (intro orderly_update) (auto simp: filter_map comp_def)
qed

lemma orderly_steps: "(lock_step fair)\<^sup>*\<^sup>* ths ths' \<Longrightarrow> orderly rank ths \<Longrightarrow> orderly rank ths'"
  by (induction rule: rtranclp_induct) (auto intro: orderly_step)

text \<open>
  Some thread can go on: of the locks that are waited for, take one of highest rank. A thread
  that holds it is not waiting, since it could only wait for a lock of higher rank.
\<close>

lemma holder_releases:
  assumes "orderly rank ths" "t \<in> set ths" "(l, m) \<in> set (lt_held t)"
    and "\<And>t' l' m'. t' \<in> set ths \<Longrightarrow> wants t' = Some (l', m') \<Longrightarrow> rank l' \<le> rank l"
  shows "\<exists>ths'. lock_step fair ths ths'"
proof -
  obtain i where i: "i < length ths" "ths ! i = t" using assms(2) by (auto simp: in_set_conv_nth)
  have o: "ordered rank (map fst (lt_held t)) (lt_todo t)"
    using assms(1,2) by (simp add: orderly_def list_all_iff)
  show ?thesis
  proof (cases "lt_todo t")
    case Nil
    with o assms(3) show ?thesis by auto
  next
    case (Cons a p)
    show ?thesis
    proof (cases a)
      case (Acquire l' m')
      then have "rank l' \<le> rank l" using assms(2,4) Cons by (simp add: wants_def)
      moreover have "rank l < rank l'" using o Cons Acquire assms(3) by (auto simp: list_all_iff)
      ultimately show ?thesis by simp
    next
      case (Release l')
      then show ?thesis using releases [of i ths l' p fair] i Cons by auto
    qed
  qed
qed

lemma waiting_progress:
  assumes "orderly rank ths" "t \<in> set ths" "wants t = Some (l, m)"
    and "\<And>t' l' m'. t' \<in> set ths \<Longrightarrow> wants t' = Some (l', m') \<Longrightarrow> rank l' \<le> rank l"
  shows "\<exists>ths'. lock_step fair ths ths'"
proof -
  have go: "\<exists>ths'. lock_step fair ths ths'"
    if w: "t' \<in> set ths" "wants t' = Some (l, m')" "may_acquire fair ths l m'" for t' m'
  proof -
    obtain i where i: "i < length ths" "ths ! i = t'" using w(1) by (auto simp: in_set_conv_nth)
    obtain p where "lt_todo t' = Acquire l m' # p"
      using w(2) by (auto simp: wants_def split: list.splits lock_action.splits)
    with acquires [of i ths l m' p fair] i w(3) show ?thesis by auto
  qed
  show ?thesis
  proof (cases "\<exists>m'. taken ths l m'")
    case True
    then obtain t' m' where "t' \<in> set ths" "(l, m') \<in> set (lt_held t')"
      by (auto simp: taken_def list_ex_iff)
    from holder_releases [OF assms(1) this, where fair = fair] assms(4) show ?thesis by blast
  next
    case False
    show ?thesis
    proof (cases "writer_waits ths l")
      case True
      with False go [of _ Exclusive] show ?thesis
        by (auto simp: writer_waits_def list_ex_iff may_acquire_def)
    next
      case no: False
      with False go [OF assms(2,3)] show ?thesis by (auto simp: may_acquire_def)
    qed
  qed
qed

lemma orderly_progress:
  assumes "orderly rank ths" "\<not> returned ths"
  shows "\<exists>ths'. lock_step fair ths ths'"
proof -
  obtain t a p where t: "t \<in> set ths" "lt_todo t = a # p"
    using assms(2) by (auto simp: returned_def list_all_iff neq_Nil_conv)
  let ?W = "{rank l |l t m. t \<in> set ths \<and> wants t = Some (l, m)}"
  have fin: "finite ?W"
  proof (rule finite_subset)
    show "?W \<subseteq> (\<lambda>t. rank (fst (the (wants t)))) ` set ths" by force
  qed simp
  show ?thesis
  proof (cases "?W = {}")
    case True
    then have "wants t = None" using t(1) by (cases "wants t") fastforce+
    then obtain l where "a = Release l" using t(2) by (cases a) (auto simp: wants_def)
    moreover obtain i where "i < length ths" "ths ! i = t" using t(1) by (auto simp: in_set_conv_nth)
    ultimately show ?thesis using releases [of i ths l p fair] t(2) by auto
  next
    case False
    have "Max ?W \<in> ?W" by (rule Max_in [OF fin False])
    then obtain l t' m where w: "t' \<in> set ths" "wants t' = Some (l, m)" "rank l = Max ?W" by auto
    have "rank l' \<le> rank l" if "t'' \<in> set ths" "wants t'' = Some (l', m')" for t'' l' m'
      unfolding w(3) using that by (intro Max_ge [OF fin]) blast
    with waiting_progress [OF assms(1) w(1,2), where fair = fair] show ?thesis by blast
  qed
qed

lemma spawn_orderly: "list_all (ordered rank []) ps \<Longrightarrow> orderly rank (map spawn ps)"
  by (auto simp: orderly_def list_all_iff spawn_def)

lemma spawn_work: "work (map spawn ps) = sum_list (map length ps)"
  by (induction ps) (simp_all add: work_def spawn_def)

section \<open>Running a call alone\<close>

fun shared_locks :: "'l lock_program \<Rightarrow> 'l set" where
  "shared_locks [] = {}"
| "shared_locks (Acquire l Shared # p) = insert l (shared_locks p)"
| "shared_locks (Acquire l Exclusive # p) = shared_locks p"
| "shared_locks (Release l # p) = shared_locks p"

lemma shared_locks_append [simp]: "shared_locks (p @ q) = shared_locks p \<union> shared_locks q"
  by (induction p rule: shared_locks.induct) auto

lemma shared_locks_holding [simp]:
  "shared_locks (holding l m p) = (if m = Shared then insert l (shared_locks p) else shared_locks p)"
  by (cases m) (simp_all add: holding_def)

text \<open>While the other threads hold nothing, a thread runs an ordered call to its end.\<close>

lemma run_alone:
  assumes "i < length ths" "lt_todo (ths ! i) = p @ q" "ordered rank (map fst (lt_held (ths ! i))) p"
    and "\<And>j. j < length ths \<Longrightarrow> j \<noteq> i \<Longrightarrow> lt_held (ths ! j) = []"
    and "\<And>j l. j < length ths \<Longrightarrow> j \<noteq> i \<Longrightarrow> wants (ths ! j) = Some (l, Exclusive) \<Longrightarrow> l \<notin> shared_locks p"
  shows "(lock_step fair)\<^sup>*\<^sup>* ths (ths[i := \<lparr>lt_held = [], lt_todo = q\<rparr>])"
  using assms
proof (induction p arbitrary: ths)
  case Nil
  then have "ths ! i = \<lparr>lt_held = [], lt_todo = q\<rparr>" by (cases "ths ! i") simp
  then show ?case by (metis list_update_id rtranclp.rtrancl_refl)
next
  case (Cons a p)
  have rest: ?case if s: "lock_step fair ths (ths[i := t])" and t: "lt_todo t = p @ q"
      "ordered rank (map fst (lt_held t)) p" for t
  proof -
    have "l \<notin> shared_locks p" if "j < length ths" "j \<noteq> i" "wants (ths ! j) = Some (l, Exclusive)" for j l
      using Cons.prems(5) [OF that] shared_locks_append [of "[a]" p] by simp
    then have "(lock_step fair)\<^sup>*\<^sup>* (ths[i := t]) ((ths[i := t])[i := \<lparr>lt_held = [], lt_todo = q\<rparr>])"
      using Cons.prems(1,4) t by (intro Cons.IH) auto
    with s show ?thesis by (simp add: converse_rtranclp_into_rtranclp)
  qed
  show ?case
  proof (cases a)
    case (Acquire l m)
    have "\<not> taken ths l m"
    proof
      assume "taken ths l m"
      then obtain t n where "t \<in> set ths" "(l, n) \<in> set (lt_held t)" by (auto simp: taken_def list_ex_iff)
      then obtain j where j: "j < length ths" "(l, n) \<in> set (lt_held (ths ! j))" by (metis in_set_conv_nth)
      then have "j = i" using Cons.prems(4) by fastforce
      with j Cons.prems(3) Acquire show False by (force simp: list_all_iff)
    qed
    moreover have "\<not> writer_waits ths l" if "m = Shared"
    proof
      assume "writer_waits ths l"
      then obtain j where j: "j < length ths" "wants (ths ! j) = Some (l, Exclusive)"
        by (auto simp: writer_waits_def list_ex_iff in_set_conv_nth)
      moreover have "wants (ths ! i) = Some (l, m)" using Cons.prems(2) Acquire by (simp add: wants_def)
      ultimately show False using Cons.prems(5) [of j l] Acquire that by (cases "j = i") auto
    qed
    ultimately have "lock_step fair ths (ths[i := \<lparr>lt_held = (l, m) # lt_held (ths ! i), lt_todo = p @ q\<rparr>])"
      using Cons.prems(1,2) Acquire by (intro acquires) (auto simp: may_acquire_def)
    then show ?thesis using Cons.prems(3) Acquire by (intro rest) auto
  next
    case (Release l)
    have "lock_step fair ths (ths[i := \<lparr>lt_held = filter (\<lambda>h. fst h \<noteq> l) (lt_held (ths ! i)), lt_todo = p @ q\<rparr>])"
      using Cons.prems(1,2) Release by (intro releases) auto
    then show ?thesis using Cons.prems(3) Release by (intro rest) (auto simp: filter_map comp_def)
  qed
qed

section \<open>The interface\<close>

locale lock_hierarchy =
  fixes rank :: "'l \<Rightarrow> nat" and call :: "'l lock_program \<Rightarrow> bool"
  assumes call_ordered: "call p \<Longrightarrow> ordered rank [] p"
begin

lemma calls_orderly: "list_all call ps \<Longrightarrow> orderly rank (map spawn ps)"
  using call_ordered by (intro spawn_orderly) (auto simp: list_all_iff)

text \<open>Concurrent calls never deadlock, and a run that goes on as long as it can lets all return.\<close>

lemma never_deadlocked:
  assumes "list_all call ps" "(lock_step fair)\<^sup>*\<^sup>* (map spawn ps) ths"
  shows "\<not> deadlocked fair ths"
  using orderly_progress [OF orderly_steps [OF assms(2) calls_orderly [OF assms(1)]]]
  by (auto simp: deadlocked_def)

lemma run_length:
  assumes "list_all call ps" "(lock_step fair ^^ n) (map spawn ps) ths"
  shows "n \<le> sum_list (map length ps)" "returned ths \<longleftrightarrow> n = sum_list (map length ps)"
proof -
  have w: "sum_list (map length ps) = n + work ths"
    using lock_steps_work [OF assms(2)] by (simp add: spawn_work)
  then show "n \<le> sum_list (map length ps)" by simp
  have "returned ths \<longleftrightarrow> work ths = 0" by (auto simp: returned_def work_def list_all_iff)
  with w show "returned ths \<longleftrightarrow> n = sum_list (map length ps)" by simp
qed

lemma returns:
  assumes "list_all call ps" "(lock_step fair)\<^sup>*\<^sup>* (map spawn ps) ths"
  shows "\<exists>ths'. (lock_step fair)\<^sup>*\<^sup>* ths ths' \<and> returned ths'"
  using orderly_steps [OF assms(2) calls_orderly [OF assms(1)]]
proof (induction "work ths" arbitrary: ths rule: less_induct)
  case less
  show ?case
  proof (cases "returned ths")
    case False
    then obtain u where u: "lock_step fair ths u" using orderly_progress [OF less.prems] by blast
    from less.hyps [OF _ orderly_step [OF u less.prems]] lock_step_work [OF u]
    obtain v where "(lock_step fair)\<^sup>*\<^sup>* u v" "returned v" by auto
    with u show ?thesis by (meson converse_rtranclp_into_rtranclp)
  qed blast
qed

end

section \<open>Crossed locks\<close>

text \<open>
  Two calls whose next acquisitions wait for each other: each holds exclusively what the
  other one wants.
\<close>

lemma crossed_deadlock:
  assumes "lt_todo t = Acquire l m # p" "lt_todo u = Acquire k n # q"
    and "(k, Exclusive) \<in> set (lt_held t)" "(l, Exclusive) \<in> set (lt_held u)"
  shows "deadlocked fair [t, u]"
proof -
  have "taken [t, u] l m" "taken [t, u] k n"
    using assms(3,4) by (auto intro: takenI simp: conflicts_def)
  then have "\<not> lock_step fair [t, u] ths'" for ths'
    using assms(1,2) by (auto elim!: lock_stepE simp: may_acquire_def less_Suc_eq)
  then show ?thesis using assms(1) by (auto simp: deadlocked_def returned_def)
qed

text \<open>A call that takes a lock again which it still holds never returns.\<close>

lemma own_lock_deadlock:
  assumes "lt_todo t = Acquire l m # p" "(l, n) \<in> set (lt_held t)" "conflicts m n"
  shows "deadlocked fair [t]"
proof -
  have "taken [t] l m" using assms(2,3) by (auto intro: takenI)
  then have "\<not> lock_step fair [t] ths'" for ths'
    using assms(1) by (auto elim!: lock_stepE simp: may_acquire_def)
  then show ?thesis using assms(1) by (auto simp: deadlocked_def returned_def)
qed

text \<open>Two calls whose next acquisitions cross, after each has run an ordered beginning.\<close>

lemma cross_after:
  assumes "ordered rank [] p" "ordered rank [] q" "k \<noteq> l"
    and "\<And>k'. wants (spawn (q @ [Acquire k Exclusive, Acquire l n] @ w)) = Some (k', Exclusive) \<Longrightarrow>
      k' \<notin> shared_locks p"
    and "l \<notin> shared_locks q"
  shows "\<exists>ths. (lock_step fair)\<^sup>*\<^sup>*
      [spawn (p @ [Acquire l Exclusive, Acquire k m] @ v), spawn (q @ [Acquire k Exclusive, Acquire l n] @ w)] ths \<and>
    deadlocked fair ths"
proof -
  let ?v = "[Acquire l Exclusive, Acquire k m] @ v" and ?w = "[Acquire k Exclusive, Acquire l n] @ w"
  let ?a = "\<lparr>lt_held = [(l, Exclusive)], lt_todo = Acquire k m # v\<rparr>"
  let ?b = "\<lparr>lt_held = [(k, Exclusive)], lt_todo = Acquire l n # w\<rparr>"
  have "(lock_step fair)\<^sup>*\<^sup>* [spawn (p @ ?v), spawn (q @ ?w)] [spawn ?v, spawn (q @ ?w)]"
    using run_alone [of 0 "[spawn (p @ ?v), spawn (q @ ?w)]" p ?v rank fair] assms(1,4)
    by (fastforce simp: spawn_def less_Suc_eq)
  also have "(lock_step fair)\<^sup>*\<^sup>* [spawn ?v, spawn (q @ ?w)] [spawn ?v, spawn ?w]"
    using run_alone [of 1 "[spawn ?v, spawn (q @ ?w)]" q ?w rank fair] assms(2,5)
    by (auto simp: spawn_def wants_def less_Suc_eq)
  also have "lock_step fair [spawn ?v, spawn ?w] [?a, spawn ?w]"
    using acquires [of 0 "[spawn ?v, spawn ?w]" l Exclusive _ fair] by (simp add: spawn_def may_acquire_def taken_def)
  also have "lock_step fair [?a, spawn ?w] [?a, ?b]"
    using acquires [of 1 "[?a, spawn ?w]" k Exclusive _ fair] assms(3)
    by (simp add: spawn_def may_acquire_def taken_def)
  finally show ?thesis using crossed_deadlock [of ?a k m v ?b l n w fair] by auto
qed

end
