(* ===== verification/StoreLocks.thy ===== *)
theory StoreLocks
  imports AdapterStore LockOrder
begin

text \<open>
  The locks that the calls of the generation store take
  (\<open>crates/adapteros-core/src/adapter_store.rs\<close>): the current snapshot, the list of retired
  snapshots and the audit log. All calls but one take them in this order; draining takes the
  current snapshot while it holds the retired list.
\<close>

section \<open>Locks of the calls\<close>

datatype store_lock = L_current | L_retired | L_generation_audit

definition snapshot_locks :: "store_lock lock_program" where
  "snapshot_locks = [Acquire L_current Shared, Release L_current]"

definition retired_count_locks :: "store_lock lock_program" where
  "retired_count_locks = [Acquire L_retired Exclusive, Release L_retired]"

definition push_audit_locks :: "store_lock lock_program" where
  "push_audit_locks = [Acquire L_generation_audit Exclusive, Release L_generation_audit]"

text \<open>The store is the one that the call finds once it holds the current snapshot.\<close>

definition replace_locks :: "u64 \<Rightarrow> adapter_store \<Rightarrow> store_lock lock_program" where
  "replace_locks generation st =
     (if sn_generation (st_current st) \<noteq> generation
      then [Acquire L_retired Exclusive, Release L_retired] else [])"

definition install_locks :: "u64 \<Rightarrow> adapter_store \<Rightarrow> store_lock lock_program" where
  "install_locks generation st =
     [Acquire L_current Exclusive] @
     (if generation \<le> sn_generation (st_current st) then retired_count_locks @ push_audit_locks
      else replace_locks generation st @ retired_count_locks @ push_audit_locks) @
     [Release L_current]"

definition install_force_locks :: "u64 \<Rightarrow> adapter_store \<Rightarrow> store_lock lock_program" where
  "install_force_locks generation st =
     [Acquire L_current Exclusive] @ replace_locks generation st @ retired_count_locks @
     push_audit_locks @ [Release L_current]"

text \<open>The stores that the attempts find; \<open>attempt\<close> counts from one.\<close>

fun install_with_retry_locks :: "u64 \<Rightarrow> nat \<Rightarrow> adapter_store list \<Rightarrow> store_lock lock_program" where
  "install_with_retry_locks generation attempt [] =
     snapshot_locks @ retired_count_locks @ push_audit_locks"
| "install_with_retry_locks generation attempt (st # sts) =
     install_locks generation st @
     (if generation \<ge> sn_generation (st_current st)
      then (if attempt > 1 then retired_count_locks @ push_audit_locks else [])
      else install_with_retry_locks generation (attempt + 1) sts)"

definition pin_current_locks :: "store_lock lock_program" where
  "pin_current_locks = snapshot_locks"

text \<open>The retired list is held throughout, also while the current snapshot is read.\<close>

definition drain_retired_locks :: "counters \<Rightarrow> adapter_store \<Rightarrow> store_lock lock_program" where
  "drain_retired_locks cs st =
     (let in_use = length (filter (snapshot_in_use cs) (st_retired st));
          excess = in_use - max_retired_snapshots in
      [Acquire L_retired Exclusive] @
      concat (replicate excess (snapshot_locks @ push_audit_locks)) @
      (if excess = 0 \<and> in_use = length (st_retired st) then []
       else snapshot_locks @ push_audit_locks) @
      [Release L_retired])"

definition generation_health_locks :: "store_lock lock_program" where
  "generation_health_locks = snapshot_locks @ retired_count_locks @ push_audit_locks"

definition generation_audit_log_locks :: "store_lock lock_program" where
  "generation_audit_log_locks = push_audit_locks"

lemmas store_lock_defs = snapshot_locks_def retired_count_locks_def push_audit_locks_def
  replace_locks_def install_locks_def install_force_locks_def pin_current_locks_def
  generation_health_locks_def generation_audit_log_locks_def

lemma drain_idle: "fst (drain_retired clock cs st) = [] \<Longrightarrow>
    drain_retired_locks cs st = [Acquire L_retired Exclusive, Release L_retired]"
proof -
  assume "fst (drain_retired clock cs st) = []"
  then have n: "filter (\<lambda>sn. \<not> snapshot_in_use cs sn) (st_retired st) = []"
    "length (filter (snapshot_in_use cs) (st_retired st)) - max_retired_snapshots = 0"
    by (auto simp: drain_retired_def Let_def)
  have "length (filter (snapshot_in_use cs) (st_retired st)) = length (st_retired st)"
    using sum_length_filter_compl [of "snapshot_in_use cs" "st_retired st"] n(1) by simp
  with n(2) show ?thesis by (simp add: drain_retired_locks_def)
qed

section \<open>The order of the locks\<close>

fun store_rank :: "store_lock \<Rightarrow> nat" where
  "store_rank L_current = 0"
| "store_rank L_retired = 1"
| "store_rank L_generation_audit = 2"

inductive store_call :: "store_lock lock_program \<Rightarrow> bool" where
  "store_call snapshot_locks"
| "store_call retired_count_locks"
| "store_call (install_locks generation st)"
| "store_call (install_force_locks generation st)"
| "store_call (install_with_retry_locks generation 1 sts)"
| "store_call pin_current_locks"
| "store_call generation_health_locks"
| "store_call generation_audit_log_locks"
| "fst (drain_retired clock cs st) = [] \<Longrightarrow> store_call (drain_retired_locks cs st)"

lemma install_retry_ordered: "ordered store_rank [] (install_with_retry_locks generation n sts)"
  by (induction generation n sts rule: install_with_retry_locks.induct)
    (auto simp: store_lock_defs intro!: ordered_append)

interpretation store_locks: lock_hierarchy store_rank store_call
proof
  show "ordered store_rank [] p" if "store_call p" for p
    using that by cases (auto simp: store_lock_defs install_retry_ordered drain_idle)
qed

text \<open>
  Concurrent calls of the store return: with any number of snapshots, installations, pins,
  audits and drains that find nothing to free, no interleaving gets stuck, whether or not a
  waiting writer holds back readers, and when no step is left all calls have returned.
\<close>

theorem store_calls_return:
  assumes "list_all store_call calls" and "(lock_step fair ^^ n) (map spawn calls) ths"
  shows "n \<le> sum_list (map length calls) \<and> \<not> deadlocked fair ths \<and>
    (returned ths \<longleftrightarrow> n = sum_list (map length calls)) \<and>
    (\<exists>ths'. (lock_step fair)\<^sup>*\<^sup>* ths ths' \<and> returned ths')"
  using store_locks.run_length [OF assms] store_locks.never_deadlocked [OF assms(1) relpowp_imp_rtranclp [OF assms(2)]]
    store_locks.returns [OF assms(1) relpowp_imp_rtranclp [OF assms(2)]] by blast

section \<open>Draining against an installation\<close>

lemma drain_reads_current:
  assumes "fst (drain_retired clock cs st) \<noteq> []"
  shows "\<exists>p. drain_retired_locks cs st = Acquire L_retired Exclusive # Acquire L_current Shared # p"
proof -
  let ?n = "length (filter (snapshot_in_use cs) (st_retired st))"
  have "\<not> (?n - max_retired_snapshots = 0 \<and> ?n = length (st_retired st))"
  proof
    assume a: "?n - max_retired_snapshots = 0 \<and> ?n = length (st_retired st)"
    then have "filter (\<lambda>sn. \<not> snapshot_in_use cs sn) (st_retired st) = []"
      using sum_length_filter_compl [of "snapshot_in_use cs" "st_retired st"] by simp
    with a assms show False by (simp add: drain_retired_def Let_def)
  qed
  then show ?thesis
    by (cases "?n - max_retired_snapshots")
      (auto simp: drain_retired_locks_def Let_def snapshot_locks_def split: if_splits)
qed

lemma install_takes_retired:
  assumes "generation > sn_generation (st_current st)"
  shows "\<exists>p. install_locks generation st = Acquire L_current Exclusive # Acquire L_retired Exclusive # p"
  using assms less_imp_neq [OF assms] by (simp add: install_locks_def replace_locks_def not_le [symmetric])

text \<open>
  A drain that frees a snapshot and an installation of a newer generation can deadlock: the
  installation holds the current snapshot and wants the retired list, the drain holds the
  retired list and wants the current snapshot.
\<close>

theorem drain_deadlocks_install:
  assumes "generation > sn_generation (st_current st)" and "fst (drain_retired clock cs st) \<noteq> []"
  shows "\<exists>ths. (lock_step fair)\<^sup>*\<^sup>* [spawn (install_locks generation st), spawn (drain_retired_locks cs st)] ths \<and>
    deadlocked fair ths"
proof -
  obtain p where p: "drain_retired_locks cs st = Acquire L_retired Exclusive # Acquire L_current Shared # p"
    using drain_reads_current [OF assms(2)] by blast
  obtain q where q: "install_locks generation st = Acquire L_current Exclusive # Acquire L_retired Exclusive # q"
    using install_takes_retired [OF assms(1)] by blast
  let ?i = "\<lparr>lt_held = [(L_current, Exclusive)], lt_todo = Acquire L_retired Exclusive # q\<rparr>"
  let ?d = "\<lparr>lt_held = [(L_retired, Exclusive)], lt_todo = Acquire L_current Shared # p\<rparr>"
  let ?s = "[spawn (install_locks generation st), spawn (drain_retired_locks cs st)]"
  have "lock_step fair ?s [?i, spawn (drain_retired_locks cs st)]"
    using acquires [of 0 ?s L_current Exclusive _ fair] q
    by (simp add: spawn_def may_acquire_def taken_def)
  moreover have "lock_step fair [?i, spawn (drain_retired_locks cs st)] [?i, ?d]"
    using acquires [of 1 "[?i, spawn (drain_retired_locks cs st)]" L_retired Exclusive _ fair] p
    by (simp add: spawn_def may_acquire_def taken_def)
  moreover have "deadlocked fair [?i, ?d]" by (rule crossed_deadlock) auto
  ultimately show ?thesis by (meson rtranclp.rtrancl_into_rtrancl rtranclp.rtrancl_refl)
qed

section \<open>Witnesses\<close>

theorem store_calls_return_witness:
  "\<exists>ths'. (lock_step True)\<^sup>*\<^sup>* (map spawn [install_locks 1 store_new, pin_current_locks, generation_health_locks]) ths' \<and>
     returned ths'"
proof -
  have "list_all store_call [install_locks 1 store_new, pin_current_locks, generation_health_locks]"
    by (simp add: store_call.intros)
  from store_calls_return [OF this, where n = 0 and fair = True] show ?thesis by auto
qed

theorem drain_deadlocks_install_witness:
  "\<exists>ths. (lock_step True)\<^sup>*\<^sup>* [spawn (install_locks 2 sample_store),
      spawn (drain_retired_locks [0] sample_store)] ths \<and> deadlocked True ths"
proof -
  have "fst (drain_retired (\<lambda>_. 0) [0] sample_store) \<noteq> []"
    by (simp add: drain_retired_def Let_def sample_store_fields snapshot_in_use_def)
  from drain_deadlocks_install [OF _ this] show ?thesis by (simp add: sample_store_fields)
qed

end
