(* ===== verification/TableLocks.thy ===== *)
theory TableLocks
  imports HotSwap StoreLocks
begin

text \<open>
  The locks that the calls of the adapter table and its retirement task take
  (\<open>crates/adapteros-lora-worker/src/adapter_hotswap.rs\<close>). What a call finds under its locks
  depends on the other threads and is an argument: the outcome of a swap, of each turn of a loop,
  and the store that an installation or a drain finds. \<open>metrics_set\<close> says that a metrics sink
  is configured.
\<close>

section \<open>Locks of the calls\<close>

datatype table_lock =
    T_active | T_staged | T_rollback_state | T_checkpoints | T_refcounts | T_retired_stacks
  | T_retry_counts | T_cache_identity | T_metrics | T_kernels | T_store store_lock

definition in_store :: "store_lock lock_program \<Rightarrow> table_lock lock_program" where
  "in_store p = map (map_lock_action T_store) p"

definition record_adapter_cache_bytes_locks :: "bool \<Rightarrow> table_lock lock_program" where
  "record_adapter_cache_bytes_locks metrics_set =
     holding T_metrics Shared [] @
     (if metrics_set
      then holding T_active Shared [] @ holding T_staged Shared [] @ holding T_retired_stacks Exclusive []
      else [])"

definition preload_locks :: "bool \<Rightarrow> u64 \<Rightarrow> table_lock lock_program" where
  "preload_locks metrics_set vram_mb =
     (if vram_mb = 0 then []
      else holding T_staged Exclusive [] @ holding T_refcounts Exclusive [] @
           record_adapter_cache_bytes_locks metrics_set)"

datatype swap_outcome = Not_staged | Vanished | Swapped bool

definition publish_locks :: "table_lock lock_program" where
  "publish_locks = holding T_refcounts Exclusive (holding T_cache_identity Shared [])"

text \<open>Up to the point where the new index is installed; the active set is read for the log, for
  the rollback state, and for the new active set.\<close>

definition swap_prepare_locks :: "table_lock lock_program" where
  "swap_prepare_locks =
     holding T_active Shared [] @ holding T_staged Shared [] @
     holding T_active Shared (holding T_rollback_state Exclusive []) @
     holding T_staged Shared [] @ holding T_active Shared []"

definition swap_commit_locks :: "table_lock lock_program" where
  "swap_commit_locks =
     holding T_staged Shared [] @ holding T_refcounts Exclusive [] @ holding T_active Exclusive [] @
     publish_locks"

text \<open>When an adapter has vanished, the guard of the staged adapters is still alive.\<close>

fun swap_locks :: "bool \<Rightarrow> u64 \<Rightarrow> adapter_store \<Rightarrow> swap_outcome \<Rightarrow> table_lock lock_program" where
  "swap_locks metrics_set generation st Not_staged =
     holding T_active Shared [] @ holding T_staged Shared [] @
     holding T_active Shared (holding T_rollback_state Exclusive []) @ holding T_staged Shared []"
| "swap_locks metrics_set generation st Vanished =
     swap_prepare_locks @
     holding T_staged Shared (holding T_active Shared [] @ holding T_staged Exclusive [])"
| "swap_locks metrics_set generation st (Swapped retires) =
     swap_prepare_locks @ swap_commit_locks @ in_store (install_locks generation st) @
     (if retires then holding T_retired_stacks Exclusive [] else []) @
     record_adapter_cache_bytes_locks metrics_set"

text \<open>\<open>None\<close>: there is nothing to roll back to; otherwise whether a stack is retired.\<close>

fun rollback_locks :: "u64 \<Rightarrow> adapter_store \<Rightarrow> bool option \<Rightarrow> table_lock lock_program" where
  "rollback_locks generation st None = holding T_rollback_state Shared []"
| "rollback_locks generation st (Some retires) =
     holding T_rollback_state Shared [] @ holding T_active Exclusive [] @ publish_locks @
     in_store (install_force_locks generation st) @
     (if retires then holding T_retired_stacks Exclusive [] else []) @
     holding T_rollback_state Exclusive [] @ holding T_active Shared []"

definition create_checkpoint_locks :: "table_lock lock_program" where
  "create_checkpoint_locks =
     holding T_active Shared [] @ holding T_active Shared [] @ holding T_active Shared [] @
     holding T_checkpoints Exclusive []"

definition compute_stack_hash_locks :: "table_lock lock_program" where
  "compute_stack_hash_locks = holding T_active Shared []"

text \<open>The hash of the stack and the hash with the GPU fingerprints are computed one after the other.\<close>

definition verify_against_checkpoint_locks :: "table_lock lock_program" where
  "verify_against_checkpoint_locks = compute_stack_hash_locks @ holding T_active Shared []"

definition get_checkpoints_locks :: "table_lock lock_program" where
  "get_checkpoints_locks = holding T_checkpoints Shared []"

text \<open>The file is written under the guard of the checkpoints.\<close>

definition save_checkpoints_locks :: "table_lock lock_program" where
  "save_checkpoints_locks = holding T_checkpoints Shared []"

text \<open>\<open>restored\<close>: the file exists and is parsed; the count for the log is read afterwards.\<close>

definition restore_checkpoints_locks :: "bool \<Rightarrow> table_lock lock_program" where
  "restore_checkpoints_locks restored =
     (if restored then holding T_checkpoints Exclusive [] @ holding T_checkpoints Shared [] else [])"

definition update_staged_hash_locks :: "table_lock lock_program" where
  "update_staged_hash_locks = holding T_staged Exclusive []"

definition clear_staged_locks :: "table_lock lock_program" where
  "clear_staged_locks = holding T_staged Exclusive []"

definition set_cache_identity_locks :: "table_lock lock_program" where
  "set_cache_identity_locks = holding T_cache_identity Exclusive []"

definition ref_locks :: "table_lock lock_program" where
  "ref_locks = holding T_refcounts Exclusive []"

definition wait_for_zero_refs_locks :: "nat \<Rightarrow> table_lock lock_program" where
  "wait_for_zero_refs_locks polls = concat (replicate polls ref_locks)"

text \<open>
  One turn of the loop over the retired stacks. The guard of the queue is given up and taken
  again around the reference counts and around the kernels. \<open>found\<close>: the stack is still there
  when the queue is taken again.
\<close>

datatype pass_turn =
    Turn_gone | Turn_skipped | Turn_quarantined | Turn_unloaded bool | Turn_failed | Turn_bare bool

fun turn_locks :: "pass_turn \<Rightarrow> table_lock lock_program" where
  "turn_locks Turn_gone = []"
| "turn_locks Turn_skipped = []"
| "turn_locks Turn_quarantined = holding T_retry_counts Exclusive [] @ holding T_retry_counts Exclusive []"
| "turn_locks (Turn_unloaded found) =
     holding T_retry_counts Exclusive [] @ [Release T_retired_stacks] @ holding T_kernels Exclusive [] @
     [Acquire T_retired_stacks Exclusive] @ (if found then holding T_retry_counts Exclusive [] else [])"
| "turn_locks Turn_failed =
     holding T_retry_counts Exclusive [] @ [Release T_retired_stacks] @ holding T_kernels Exclusive [] @
     [Acquire T_retired_stacks Exclusive] @ holding T_retry_counts Exclusive []"
| "turn_locks (Turn_bare found) =
     holding T_retry_counts Exclusive [] @ [Release T_retired_stacks] @
     [Acquire T_retired_stacks Exclusive] @ (if found then holding T_retry_counts Exclusive [] else [])"

fun turns_locks :: "pass_turn list \<Rightarrow> table_lock lock_program" where
  "turns_locks [] = []"
| "turns_locks (turn # turns) =
     [Release T_retired_stacks] @ holding T_refcounts Exclusive [] @
     [Acquire T_retired_stacks Exclusive] @ turn_locks turn @
     (if turn = Turn_gone then [] else turns_locks turns)"

definition process_retired_stacks_locks :: "bool \<Rightarrow> bool \<Rightarrow> pass_turn list \<Rightarrow> table_lock lock_program" where
  "process_retired_stacks_locks metrics_set evicted turns =
     [Acquire T_retired_stacks Exclusive] @ turns_locks turns @ [Release T_retired_stacks] @
     (if evicted then record_adapter_cache_bytes_locks metrics_set else [])"

text \<open>
  One turn of the forced cleanup: the stack is gone, it is passed over (replaced or busy), it is
  unloaded with kernels or without, or its detachment failed.
\<close>

datatype cleanup_turn = Cleanup_gone | Cleanup_skipped | Cleanup_unloaded bool | Cleanup_failed | Cleanup_bare bool

fun cleanup_turn_locks :: "cleanup_turn \<Rightarrow> table_lock lock_program" where
  "cleanup_turn_locks Cleanup_gone = []"
| "cleanup_turn_locks Cleanup_skipped = []"
| "cleanup_turn_locks (Cleanup_unloaded found) =
     [Release T_retired_stacks] @ holding T_kernels Exclusive [] @ [Acquire T_retired_stacks Exclusive] @
     (if found then holding T_retry_counts Exclusive [] else [])"
| "cleanup_turn_locks Cleanup_failed =
     [Release T_retired_stacks] @ holding T_kernels Exclusive [] @ [Acquire T_retired_stacks Exclusive]"
| "cleanup_turn_locks (Cleanup_bare found) =
     [Release T_retired_stacks] @ [Acquire T_retired_stacks Exclusive] @
     (if found then holding T_retry_counts Exclusive [] else [])"

fun cleanup_turns_locks :: "cleanup_turn list \<Rightarrow> table_lock lock_program" where
  "cleanup_turns_locks [] = []"
| "cleanup_turns_locks (turn # turns) =
     [Release T_retired_stacks] @ holding T_refcounts Exclusive [] @
     [Acquire T_retired_stacks Exclusive] @ cleanup_turn_locks turn @
     (if turn = Cleanup_gone then [] else cleanup_turns_locks turns)"

definition force_cleanup_retired_locks :: "bool \<Rightarrow> bool \<Rightarrow> cleanup_turn list \<Rightarrow> table_lock lock_program" where
  "force_cleanup_retired_locks metrics_set cleaned turns =
     [Acquire T_retired_stacks Exclusive] @ cleanup_turns_locks turns @ [Release T_retired_stacks] @
     (if cleaned then record_adapter_cache_bytes_locks metrics_set else [])"

text \<open>The background task: a stack is busy, its detachment failed, or it is unloaded with the
  guard of the kernels still alive, or unloaded without kernels.\<close>

datatype retire_turn = Retire_busy | Retire_failed | Retire_unloaded | Retire_bare

fun retire_turn_locks :: "bool \<Rightarrow> retire_turn \<Rightarrow> table_lock lock_program" where
  "retire_turn_locks metrics_set Retire_busy = ref_locks"
| "retire_turn_locks metrics_set Retire_failed = ref_locks @ holding T_kernels Exclusive []"
| "retire_turn_locks metrics_set Retire_unloaded =
     ref_locks @ holding T_kernels Exclusive
       (holding T_retired_stacks Exclusive [] @ record_adapter_cache_bytes_locks metrics_set)"
| "retire_turn_locks metrics_set Retire_bare =
     ref_locks @ holding T_retired_stacks Exclusive [] @ record_adapter_cache_bytes_locks metrics_set"

definition retire_stacks_locks :: "bool \<Rightarrow> retire_turn list \<Rightarrow> table_lock lock_program" where
  "retire_stacks_locks metrics_set turns =
     holding T_retired_stacks Exclusive [] @ concat (map (retire_turn_locks metrics_set) turns)"

definition retirement_round_locks ::
  "bool \<Rightarrow> retire_turn list \<Rightarrow> counters \<Rightarrow> adapter_store \<Rightarrow> table_lock lock_program" where
  "retirement_round_locks metrics_set turns cs st =
     retire_stacks_locks metrics_set turns @ in_store (drain_retired_locks cs st)"

definition pin_attempt_locks :: "table_lock lock_program" where
  "pin_attempt_locks =
     holding T_active Shared [] @ in_store pin_current_locks @ holding T_active Shared []"

text \<open>The prediction of the stack hash before a swap, and the attachment of staged adapters.\<close>

definition compute_stack_hash_with_locks :: "table_lock lock_program" where
  "compute_stack_hash_with_locks = holding T_active Shared (holding T_staged Shared [])"

definition attach_staged_for_swap_locks :: "bool \<Rightarrow> table_lock lock_program" where
  "attach_staged_for_swap_locks attaches =
     holding T_active Shared [] @ holding T_staged Shared [] @
     (if attaches then holding T_kernels Exclusive [] else [])"

definition cleanup_staged_on_failure_locks :: "bool \<Rightarrow> bool \<Rightarrow> bool \<Rightarrow> table_lock lock_program" where
  "cleanup_staged_on_failure_locks metrics_set any has_kernels =
     holding T_active Shared [] @ holding T_staged Shared [] @
     (if any
      then (if has_kernels then holding T_kernels Exclusive [] else []) @ holding T_staged Exclusive [] @
           holding T_refcounts Exclusive [] @ record_adapter_cache_bytes_locks metrics_set
      else [])"

section \<open>The order of the locks\<close>

text \<open>
  The kernels come first: the background task holds them while it takes the queue of retired
  stacks and the active and staged adapters.
\<close>

fun table_rank :: "table_lock \<Rightarrow> nat" where
  "table_rank T_kernels = 0"
| "table_rank T_active = 1"
| "table_rank T_staged = 2"
| "table_rank T_rollback_state = 2"
| "table_rank T_retired_stacks = 1"
| "table_rank T_retry_counts = 2"
| "table_rank T_refcounts = 1"
| "table_rank T_cache_identity = 2"
| "table_rank T_metrics = 1"
| "table_rank T_checkpoints = 1"
| "table_rank (T_store l) = 1 + store_rank l"

lemma in_store_ordered: "ordered store_rank hs p \<Longrightarrow> ordered table_rank (map T_store hs) (in_store p)"
proof (induction store_rank hs p rule: ordered.induct)
  case (3 hs l p)
  have "filter (\<lambda>h. h \<noteq> T_store l) (map T_store hs) = map T_store (filter (\<lambda>h. h \<noteq> l) hs)"
    by (simp add: filter_map comp_def)
  with 3 show ?case by (auto simp: in_store_def)
qed (auto simp: in_store_def list_all_iff)

lemma locks_of_in_store: "locks_of (in_store p) = T_store ` locks_of p"
  by (induction p rule: locks_of.induct) (auto simp: in_store_def)

lemma store_call_ordered: "store_call p \<Longrightarrow> ordered table_rank [] (in_store p)"
  using in_store_ordered [OF store_locks.call_ordered] by fastforce

lemma concat_ordered: "(\<And>x. ordered rank [] (f x)) \<Longrightarrow> ordered rank [] (concat (map f xs))"
  by (induction xs) (auto intro: ordered_append)

named_theorems lock_intros

declare ordered_append [lock_intros] ordered_holding [lock_intros] store_call_ordered [lock_intros]
  store_call.intros [lock_intros] concat_ordered [lock_intros]

lemma record_ordered [lock_intros]: "ordered table_rank [] (record_adapter_cache_bytes_locks metrics_set)"
  by (auto simp: record_adapter_cache_bytes_locks_def intro!: lock_intros)

lemma record_rank: "k \<in> locks_of (record_adapter_cache_bytes_locks metrics_set) \<Longrightarrow> 0 < table_rank k"
  by (auto simp: record_adapter_cache_bytes_locks_def split: if_splits)

lemma publish_ordered [lock_intros]: "ordered table_rank [] publish_locks"
  by (auto simp: publish_locks_def intro!: lock_intros)

lemma swap_parts_ordered [lock_intros]:
  "ordered table_rank [] swap_prepare_locks" "ordered table_rank [] swap_commit_locks"
  by (auto simp: swap_prepare_locks_def swap_commit_locks_def intro!: lock_intros)

lemma swap_ordered: "outcome \<noteq> Vanished \<Longrightarrow> ordered table_rank [] (swap_locks metrics_set generation st outcome)"
  by (cases outcome) (auto intro!: lock_intros)

lemma rollback_ordered: "ordered table_rank [] (rollback_locks generation st outcome)"
  by (cases outcome) (auto intro!: lock_intros)

lemma turn_ordered:
  "ordered table_rank [T_retired_stacks] q \<Longrightarrow> ordered table_rank [T_retired_stacks] (turn_locks turn @ q)"
  by (cases turn) (auto simp: holding_def)

lemma turns_ordered: "ordered table_rank [T_retired_stacks] q \<Longrightarrow>
    ordered table_rank [T_retired_stacks] (turns_locks turns @ q)"
proof (induction turns)
  case (Cons turn turns)
  have "ordered table_rank [T_retired_stacks] (turn_locks turn @ (if turn = Turn_gone then [] else turns_locks turns) @ q)"
    using Cons by (intro turn_ordered) auto
  then show ?case by (simp add: holding_def)
qed simp

lemma process_ordered: "ordered table_rank [] (process_retired_stacks_locks metrics_set evicted turns)"
  by (auto simp: process_retired_stacks_locks_def record_ordered intro!: turns_ordered)

lemma cleanup_turns_ordered: "ordered table_rank [T_retired_stacks] q \<Longrightarrow>
    ordered table_rank [T_retired_stacks] (cleanup_turns_locks turns @ q)"
proof (induction turns)
  case (Cons turn turns)
  have "ordered table_rank [T_retired_stacks] (cleanup_turn_locks turn @ (if turn = Cleanup_gone then [] else cleanup_turns_locks turns) @ q)"
    using Cons by (cases turn) (auto simp: holding_def)
  then show ?case by (simp add: holding_def)
qed simp

lemma force_cleanup_ordered: "ordered table_rank [] (force_cleanup_retired_locks metrics_set cleaned turns)"
  by (auto simp: force_cleanup_retired_locks_def record_ordered intro!: cleanup_turns_ordered)

lemma retire_stacks_ordered [lock_intros]: "ordered table_rank [] (retire_stacks_locks metrics_set turns)"
proof -
  have "ordered table_rank [] (retire_turn_locks metrics_set turn)" for turn
    by (cases turn) (auto simp: ref_locks_def record_rank intro!: lock_intros)
  then show ?thesis by (auto simp: retire_stacks_locks_def intro!: lock_intros)
qed

inductive table_call :: "table_lock lock_program \<Rightarrow> bool" where
  "table_call (preload_locks metrics_set vram_mb)"
| "outcome \<noteq> Vanished \<Longrightarrow> table_call (swap_locks metrics_set generation st outcome)"
| "table_call (rollback_locks generation st rollback_outcome)"
| "table_call create_checkpoint_locks"
| "table_call ref_locks"
| "table_call (wait_for_zero_refs_locks polls)"
| "table_call (process_retired_stacks_locks metrics_set evicted turns)"
| "fst (drain_retired clock cs st) = [] \<Longrightarrow> table_call (retirement_round_locks metrics_set retire_turns cs st)"
| "table_call pin_attempt_locks"
| "table_call compute_stack_hash_with_locks"
| "table_call (attach_staged_for_swap_locks attaches)"
| "table_call (cleanup_staged_on_failure_locks metrics_set any has_kernels)"
| "store_call p \<Longrightarrow> table_call (in_store p)"
| "table_call (force_cleanup_retired_locks metrics_set cleaned cleanup_turns)"
| "table_call update_staged_hash_locks"
| "table_call clear_staged_locks"
| "table_call set_cache_identity_locks"
| "table_call compute_stack_hash_locks"
| "table_call verify_against_checkpoint_locks"
| "table_call get_checkpoints_locks"
| "table_call save_checkpoints_locks"
| "table_call (restore_checkpoints_locks restored)"

interpretation table_locks: lock_hierarchy table_rank table_call
proof
  show "ordered table_rank [] p" if "table_call p" for p
    using that
  proof cases
    case (6 polls)
    then show ?thesis
      by (auto simp: wait_for_zero_refs_locks_def ref_locks_def list_all_iff intro!: ordered_concat lock_intros)
  qed (auto simp: preload_locks_def create_checkpoint_locks_def ref_locks_def pin_attempt_locks_def
      compute_stack_hash_with_locks_def attach_staged_for_swap_locks_def cleanup_staged_on_failure_locks_def
      retirement_round_locks_def swap_ordered rollback_ordered process_ordered force_cleanup_ordered
      update_staged_hash_locks_def clear_staged_locks_def set_cache_identity_locks_def compute_stack_hash_locks_def
      verify_against_checkpoint_locks_def get_checkpoints_locks_def save_checkpoints_locks_def
      restore_checkpoints_locks_def intro!: lock_intros)
qed

text \<open>
  (C8) Concurrent calls of the adapter table return: preloads, swaps, rollbacks, checkpoints (made, listed,
  verified, saved and restored), changes of the staged adapters, passes over the retired stacks, forced cleanups,
  rounds of the background task, request pins and the calls of the store never deadlock, except for a drain that frees something and a swap whose staged
  adapter vanishes meanwhile.
\<close>

theorem table_calls_return:
  assumes "list_all table_call calls" and "(lock_step fair ^^ n) (map spawn calls) ths"
  shows "n \<le> sum_list (map length calls) \<and> \<not> deadlocked fair ths \<and>
    (returned ths \<longleftrightarrow> n = sum_list (map length calls)) \<and>
    (\<exists>ths'. (lock_step fair)\<^sup>*\<^sup>* ths ths' \<and> returned ths')"
  using table_locks.run_length [OF assms] table_locks.never_deadlocked [OF assms(1) relpowp_imp_rtranclp [OF assms(2)]]
    table_locks.returns [OF assms(1) relpowp_imp_rtranclp [OF assms(2)]] by blast

section \<open>The exceptions\<close>

text \<open>
  A swap that finds a staged adapter gone takes the staged adapters for writing while it still
  holds them for reading, so it never returns its error.
\<close>

theorem vanished_swap_hangs:
  "\<exists>ths. (lock_step fair)\<^sup>*\<^sup>* [spawn (swap_locks metrics_set generation st Vanished)] ths \<and> deadlocked fair ths"
proof -
  let ?q = "holding T_staged Shared (holding T_active Shared [] @ holding T_staged Exclusive [])"
  let ?r = "holding T_staged Exclusive [] @ [Release T_staged]"
  let ?t = "\<lambda>hs p. [\<lparr>lt_held = hs, lt_todo = p\<rparr>]"
  have "(lock_step fair)\<^sup>*\<^sup>* [spawn (swap_prepare_locks @ ?q)] (?t [] ?q)"
    using run_alone [of 0 "[spawn (swap_prepare_locks @ ?q)]" swap_prepare_locks ?q table_rank fair]
      swap_parts_ordered(1) by (simp add: spawn_def)
  also have "lock_step fair (?t [] ?q) (?t [(T_staged, Shared)] (holding T_active Shared [] @ ?r))"
    using acquires [of 0 "?t [] ?q" T_staged Shared _ fair]
    by (simp add: holding_def may_acquire_def taken_def writer_waits_def wants_def)
  also have "lock_step fair (?t [(T_staged, Shared)] (holding T_active Shared [] @ ?r))
      (?t [(T_active, Shared), (T_staged, Shared)] (Release T_active # ?r))"
    using acquires [of 0 "?t [(T_staged, Shared)] (holding T_active Shared [] @ ?r)" T_active Shared _ fair]
    by (simp add: holding_def may_acquire_def taken_def writer_waits_def wants_def)
  also have "lock_step fair (?t [(T_active, Shared), (T_staged, Shared)] (Release T_active # ?r))
      (?t [(T_staged, Shared)] ?r)"
    using releases [of 0 "?t [(T_active, Shared), (T_staged, Shared)] (Release T_active # ?r)" T_active ?r fair]
    by simp
  finally have "(lock_step fair)\<^sup>*\<^sup>* [spawn (swap_locks metrics_set generation st Vanished)] (?t [(T_staged, Shared)] ?r)"
    by simp
  moreover have "deadlocked fair (?t [(T_staged, Shared)] ?r)"
    by (rule own_lock_deadlock [where l = T_staged and m = Exclusive and n = Shared])
      (simp_all add: holding_def conflicts_def)
  ultimately show ?thesis by blast
qed

text \<open>
  (C9) A swap and a round of the background task can wait for each other: the swap installs its
  index while the round drains the retired snapshots.
\<close>

theorem swap_deadlocks_retirement:
  assumes "generation > sn_generation (st_current st)" and "fst (drain_retired clock cs st) \<noteq> []"
  shows "\<exists>ths. (lock_step fair)\<^sup>*\<^sup>*
      [spawn (swap_locks metrics_set generation st (Swapped retires)),
       spawn (retirement_round_locks metrics_set turns cs st)] ths \<and> deadlocked fair ths"
proof -
  obtain w where w: "drain_retired_locks cs st = Acquire L_retired Exclusive # Acquire L_current Shared # w"
    using drain_reads_current [OF assms(2)] by blast
  obtain v where v: "install_locks generation st = Acquire L_current Exclusive # Acquire L_retired Exclusive # v"
    using install_takes_retired [OF assms(1)] by blast
  let ?p = "swap_prepare_locks @ swap_commit_locks" and ?q = "retire_stacks_locks metrics_set turns"
  have first: "wants (spawn (?q @ r)) = Some (T_retired_stacks, Exclusive)" for r
    by (simp add: retire_stacks_locks_def holding_def wants_def spawn_def)
  have shared: "T_retired_stacks \<notin> shared_locks ?p" "T_store l \<notin> shared_locks ?q" for l
  proof -
    show "T_retired_stacks \<notin> shared_locks ?p"
      by (simp add: swap_prepare_locks_def swap_commit_locks_def publish_locks_def)
    have "T_store l \<notin> shared_locks (retire_turn_locks metrics_set turn)" for turn
      by (cases turn) (simp_all add: ref_locks_def record_adapter_cache_bytes_locks_def)
    then have "T_store l \<notin> shared_locks (concat (map (retire_turn_locks metrics_set) turns))"
      by (induction turns) auto
    then show "T_store l \<notin> shared_locks ?q" by (simp add: retire_stacks_locks_def)
  qed
  let ?v = "in_store v @ (if retires then holding T_retired_stacks Exclusive [] else []) @
      record_adapter_cache_bytes_locks metrics_set"
  have "swap_locks metrics_set generation st (Swapped retires) =
      ?p @ [Acquire (T_store L_current) Exclusive, Acquire (T_store L_retired) Exclusive] @ ?v"
    by (simp add: v in_store_def)
  moreover have "retirement_round_locks metrics_set turns cs st =
      ?q @ [Acquire (T_store L_retired) Exclusive, Acquire (T_store L_current) Shared] @ in_store w"
    by (simp add: retirement_round_locks_def w in_store_def)
  moreover have "ordered table_rank [] ?p" "ordered table_rank [] ?q" by (auto intro!: lock_intros)
  ultimately show ?thesis
    using cross_after [of table_rank ?p ?q "T_store L_retired" "T_store L_current" Shared "in_store w" fair Exclusive ?v]
      first shared by simp
qed

text \<open>
  The documented order of the locks, with the kernels last, is not the one of the background
  task, which takes the queue of retired stacks while it holds the kernels.
\<close>

fun documented_rank :: "table_lock \<Rightarrow> nat" where
  "documented_rank T_retired_stacks = 1"
| "documented_rank T_refcounts = 2"
| "documented_rank T_retry_counts = 3"
| "documented_rank T_kernels = 4"
| "documented_rank _ = 5"

lemma documented_order_violated:
  "\<not> ordered documented_rank [] (retirement_round_locks metrics_set [Retire_unloaded] cs st)"
  by (simp add: retirement_round_locks_def retire_stacks_locks_def ref_locks_def holding_def)

section \<open>Witnesses\<close>

theorem table_calls_return_witness:
  "\<exists>ths'. (lock_step True)\<^sup>*\<^sup>* (map spawn [swap_locks True 1 store_new (Swapped True),
      process_retired_stacks_locks True True [Turn_unloaded True], pin_attempt_locks]) ths' \<and> returned ths'"
proof -
  have "list_all table_call [swap_locks True 1 store_new (Swapped True),
      process_retired_stacks_locks True True [Turn_unloaded True], pin_attempt_locks]"
    using table_call.intros(2) [of "Swapped True" True 1 store_new] by (simp add: table_call.intros)
  from table_calls_return [OF this, where n = 0 and fair = True] show ?thesis by auto
qed

theorem swap_deadlocks_retirement_witness:
  "\<exists>ths. (lock_step True)\<^sup>*\<^sup>* [spawn (swap_locks False 2 sample_store (Swapped True)),
      spawn (retirement_round_locks False [] [0] sample_store)] ths \<and> deadlocked True ths"
proof -
  have "fst (drain_retired (\<lambda>_. 0) [0] sample_store) \<noteq> []"
    by (simp add: drain_retired_def Let_def sample_store_fields snapshot_in_use_def)
  moreover have "2 > sn_generation (st_current sample_store)" by (simp add: sample_store_fields)
  ultimately show ?thesis by (rule swap_deadlocks_retirement [rotated])
qed

end
