(* ===== verification/CacheBudget.thy ===== *)
theory CacheBudget
  imports HotSwapCorrect "HOL-Library.Product_Lexorder"
begin

text \<open>
  The memory budget of the hot-swap manager, \<open>enforce_adapter_cache_budget\<close> of
  \<open>crates/adapteros-lora-worker/src/adapter_hotswap.rs\<close>: which staged and retired adapters may be
  evicted, in which order, and when a load is refused. Metrics are left out.
\<close>

section \<open>Eviction\<close>

record eviction_candidate =
  ec_adapter_id :: string
  ec_loaded_at :: nat
  ec_vram_bytes :: u64

record eviction_block_counts =
  bc_pinned :: nat
  bc_active :: nat

definition consider_adapter ::
  "string list \<Rightarrow> adapter_table \<Rightarrow> eviction_block_counts \<times> (string \<times> eviction_candidate) list \<Rightarrow>
   string \<times> adapter_load_state \<Rightarrow> eviction_block_counts \<times> (string \<times> eviction_candidate) list" where
  "consider_adapter protected_ids tb acc e =
     (let (blocked, candidates) = acc; (i, al) = e in
      if i \<in> set protected_ids then acc
      else if map_of (tb_active tb) i \<noteq> None then (blocked\<lparr>bc_active := bc_active blocked + 1\<rparr>, candidates)
      else if ref_count tb i > 0 then (blocked\<lparr>bc_pinned := bc_pinned blocked + 1\<rparr>, candidates)
      else if state_bytes al = 0 then acc
      else
        (blocked,
         case map_of candidates i of
           Some _ \<Rightarrow>
             am_update (\<lambda>existing. existing\<lparr>ec_loaded_at := min (al_loaded_at al) (ec_loaded_at existing),
                                         ec_vram_bytes := max (ec_vram_bytes existing) (state_bytes al)\<rparr>)
               i candidates
         | None \<Rightarrow> am_insert i \<lparr>ec_adapter_id = i, ec_loaded_at = al_loaded_at al,
                               ec_vram_bytes = state_bytes al\<rparr> candidates))"

text \<open>The oldest first, equal times by identifier.\<close>

definition collect_eviction_candidates ::
  "string list \<Rightarrow> adapter_table \<Rightarrow> eviction_candidate list \<times> eviction_block_counts" where
  "collect_eviction_candidates protected_ids tb =
     (let (blocked, candidates) = foldl (consider_adapter protected_ids tb) (\<lparr>bc_pinned = 0, bc_active = 0\<rparr>, [])
            (tb_staged tb @ concat (map sk_active (tb_retired_stacks tb))) in
      (sort_key (\<lambda>c. (ec_loaded_at c, ec_adapter_id c)) (map snd candidates), blocked))"

definition evictable_bytes :: "adapter_table \<Rightarrow> string \<Rightarrow> u64" where
  "evictable_bytes tb i =
     foldl (\<lambda>b sk. case map_of (sk_active sk) i of Some al \<Rightarrow> max b (state_bytes al) | None \<Rightarrow> b)
       (case map_of (tb_staged tb) i of Some al \<Rightarrow> max 0 (state_bytes al) | None \<Rightarrow> 0)
       (tb_retired_stacks tb)"

text \<open>The remaining stacks, and the generations of those that became empty.\<close>

fun remove_adapter_from_retired ::
  "string \<Rightarrow> adapter_stack list \<Rightarrow> adapter_stack list \<times> u64 list" where
  "remove_adapter_from_retired i [] = ([], [])"
| "remove_adapter_from_retired i (sk # sks) =
     (let (updated, removed) = remove_adapter_from_retired i sks in
      if map_of (sk_active sk) i \<noteq> None then
        (let active = am_remove i (sk_active sk) in
         if active = [] then (updated, sk_generation sk # removed)
         else (\<lparr>sk_generation = sk_generation sk, sk_active = active\<rparr> # updated, removed))
      else (sk # updated, removed))"

definition still_present :: "adapter_table \<Rightarrow> string \<Rightarrow> bool" where
  "still_present tb i \<longleftrightarrow> map_of (tb_active tb) i \<noteq> None \<or> map_of (tb_staged tb) i \<noteq> None \<or>
     list_ex (\<lambda>sk. map_of (sk_active sk) i \<noteq> None) (tb_retired_stacks tb)"

definition forget_adapter :: "string \<Rightarrow> adapter_table \<Rightarrow> adapter_table" where
  "forget_adapter i tb =
     (let (retired, removed) = remove_adapter_from_retired i (tb_retired_stacks tb);
          tb1 = tb\<lparr>tb_staged := am_remove i (tb_staged tb), tb_retired_stacks := retired,
                   tb_retry_counts := foldl (\<lambda>m gen. am_remove gen m) (tb_retry_counts tb) removed\<rparr> in
      if still_present tb1 i then tb1 else tb1\<lparr>tb_refcounts := am_remove i (tb_refcounts tb1)\<rparr>)"

definition detach_one ::
  "'k kernel_ops \<Rightarrow> hash_fn \<Rightarrow> string \<Rightarrow> 'k option \<Rightarrow> (aos_error, unit) result \<times> 'k option" where
  "detach_one ko H i kernels =
     (case kernels of
        None \<Rightarrow> (Ok (), None)
      | Some k \<Rightarrow> (let (r, k1) = ko_detach ko (adapter_id_to_u16 H i) k in (r, Some k1)))"

definition evict_adapter_by_id ::
  "'k kernel_ops \<Rightarrow> hash_fn \<Rightarrow> string \<Rightarrow> 'k option \<Rightarrow> adapter_table \<Rightarrow>
   (aos_error, u64) result \<times> 'k option \<times> adapter_table" where
  "evict_adapter_by_id ko H i kernels tb =
     (if map_of (tb_active tb) i \<noteq> None then (Ok 0, kernels, tb)
      else if ref_count tb i > 0 then (Ok 0, kernels, tb)
      else if evictable_bytes tb i = 0 then (Ok 0, kernels, tb)
      else
        (case detach_one ko H i kernels of
           (Err e, kernels1) \<Rightarrow> (Err e, kernels1, tb)
         | (Ok _, kernels1) \<Rightarrow> (Ok (evictable_bytes tb i), kernels1, forget_adapter i tb)))"

fun evict_candidates_for_budget ::
  "'k kernel_ops \<Rightarrow> hash_fn \<Rightarrow> u64 \<Rightarrow> u64 \<Rightarrow> eviction_candidate list \<Rightarrow> 'k option \<Rightarrow> adapter_table \<Rightarrow>
   u64 \<times> 'k option \<times> adapter_table" where
  "evict_candidates_for_budget ko H target freed [] kernels tb = (freed, kernels, tb)"
| "evict_candidates_for_budget ko H target freed (c # cs) kernels tb =
     (if freed \<ge> target then (freed, kernels, tb)
      else
        (case evict_adapter_by_id ko H (ec_adapter_id c) kernels tb of
           (Ok b, kernels1, tb1) \<Rightarrow> evict_candidates_for_budget ko H target (freed + b) cs kernels1 tb1
         | (Err _, kernels1, tb1) \<Rightarrow> evict_candidates_for_budget ko H target freed cs kernels1 tb1))"

definition div_ceil_mb :: "u64 \<Rightarrow> u64" where
  "div_ceil_mb b = (if b mod bytes_per_mb = 0 then b div bytes_per_mb else b div bytes_per_mb + 1)"

definition budget_error :: "u64 \<Rightarrow> u64 \<Rightarrow> eviction_block_counts \<Rightarrow> u64 \<Rightarrow> aos_error" where
  "budget_error needed freed blocked budget =
     EResourceExhaustion (''Adapter cache budget exceeded: needed '' @ show_u64 (div_ceil_mb needed) @
       '' MB, freed '' @ show_u64 (freed div bytes_per_mb) @ '' MB (pinned='' @
       show_nat (bc_pinned blocked) @ '', active='' @ show_nat (bc_active blocked) @ ''), max '' @
       show_u64 (budget div bytes_per_mb) @ '' MB'')"

definition enforce_adapter_cache_budget ::
  "'k kernel_ops \<Rightarrow> hash_fn \<Rightarrow> u64 \<Rightarrow> string option \<Rightarrow> 'k option \<Rightarrow> adapter_table \<Rightarrow>
   (aos_error, unit) result \<times> 'k option \<times> adapter_table" where
  "enforce_adapter_cache_budget ko H needed protected kernels tb =
     (case tb_adapter_cache_budget_bytes tb of
        None \<Rightarrow> (Ok (), kernels, tb)
      | Some budget \<Rightarrow>
          if budget = 0 then
            (Err (EValidation ''Adapter cache budget bytes must be greater than zero''), kernels, tb)
          else if adapter_cache_bytes tb + needed \<le> budget then (Ok (), kernels, tb)
          else
            (let target = adapter_cache_bytes tb + needed - budget;
                 (candidates, blocked) =
                   collect_eviction_candidates (case protected of Some i \<Rightarrow> [i] | None \<Rightarrow> []) tb;
                 (freed, kernels1, tb1) =
                   (if target = 0 then (0, kernels, tb)
                    else evict_candidates_for_budget ko H target 0 candidates kernels tb) in
             if adapter_cache_bytes tb1 + needed > budget
             then (Err (budget_error needed freed blocked budget), kernels1, tb1)
             else (Ok (), kernels1, tb1)))"

section \<open>Bytes by adapter\<close>

definition entries :: "adapter_table \<Rightarrow> adapter_map" where
  "entries tb = tb_active tb @ tb_staged tb @ concat (map sk_active (tb_retired_stacks tb))"

text \<open>The largest size under which an adapter appears.\<close>

fun peak :: "adapter_map \<Rightarrow> string \<Rightarrow> u64" where
  "peak [] i = 0"
| "peak (e # es) i = (if fst e = i then max (state_bytes (snd e)) (peak es i) else peak es i)"

lemma peak_append: "peak (es @ es') i = max (peak es i) (peak es' i)"
  by (induction es) (auto simp: max.assoc)

lemma peak_absent: "i \<notin> fst ` set es \<Longrightarrow> peak es i = 0"
  by (induction es) auto

lemma peak_filter: "peak (filter (\<lambda>e. fst e \<noteq> i) es) j = (if j = i then 0 else peak es j)"
  by (induction es) auto

lemma note_bytes_lookup:
  "map_of (note_bytes m e) = (map_of m)(fst e \<mapsto>
     (case map_of m (fst e) of Some b \<Rightarrow> max b (state_bytes (snd e)) | None \<Rightarrow> state_bytes (snd e)))"
  by (auto simp: note_bytes_def Let_def lookup_am_insert lookup_am_update fun_eq_iff split: option.split)

lemma note_bytes_keys: "am_ok m \<Longrightarrow> am_ok (note_bytes m e)"
  by (simp add: note_bytes_def Let_def am_ok_def am_keys_update hash_map.ok_insert [unfolded am_ok_def]
      split: option.split)

lemma foldl_note_bytes:
  "am_ok m \<Longrightarrow> am_ok (foldl note_bytes m es) \<and>
   map_of (foldl note_bytes m es) = (\<lambda>i. if i \<in> fst ` set es
     then Some (max (case map_of m i of Some b \<Rightarrow> b | None \<Rightarrow> 0) (peak es i)) else map_of m i)"
proof (induction es arbitrary: m)
  case (Cons e es)
  from Cons.IH [OF note_bytes_keys [OF Cons.prems, of e]] show ?case
    by (auto simp: fun_eq_iff note_bytes_lookup peak_absent max.assoc max.commute max.left_commute split: option.splits)
qed simp

lemma sum_of_map:
  assumes "am_ok m"
  shows "sum_list (map snd m) = (\<Sum>i \<in> dom (map_of m). the (map_of m i))"
proof -
  have d: "distinct (map fst m)" by (rule hash_map.ok_distinct [OF assms])
  have "sum_list (map snd m) = (\<Sum>e \<in> set m. snd e)"
    using d by (simp add: sum_list_distinct_conv_sum_set distinct_map)
  also have "\<dots> = (\<Sum>i \<in> fst ` set m. the (map_of m i))"
    using d by (subst sum.reindex) (auto simp: distinct_map intro!: sum.cong)
  finally show ?thesis by (simp add: dom_map_of_conv_image_fst)
qed

lemma cache_bytes_sum:
  "adapter_cache_bytes tb = (\<Sum>i \<in> fst ` set (entries tb). peak (entries tb) i)"
proof -
  let ?m = "foldl note_bytes [] (entries tb)"
  have m: "am_ok ?m" "map_of ?m = (\<lambda>i. if i \<in> fst ` set (entries tb) then Some (peak (entries tb) i) else None)"
    using foldl_note_bytes [of "[]" "entries tb"] by (auto simp: am_ok_def fun_eq_iff)
  have "dom (map_of ?m) = fst ` set (entries tb)" by (force simp: m(2) split: if_splits)
  then show ?thesis
    using sum_of_map [OF m(1)] by (simp add: adapter_cache_bytes_def entries_def [symmetric] m(2))
qed

text \<open>The bytes of a set of adapters, without wrap-around.\<close>

definition bytes_of :: "adapter_map \<Rightarrow> string set \<Rightarrow> nat" where
  "bytes_of es I = (\<Sum>i \<in> I. unat (peak es i))"

abbreviation total_bytes :: "adapter_table \<Rightarrow> nat" where
  "total_bytes tb \<equiv> bytes_of (entries tb) (fst ` set (entries tb))"

lemma unat_sum_words:
  "finite I \<Longrightarrow> (\<Sum>i \<in> I. unat (f i :: u64)) < 2 ^ 64 \<Longrightarrow> unat (\<Sum>i \<in> I. f i) = (\<Sum>i \<in> I. unat (f i))"
proof (induction I rule: finite_induct)
  case (insert i I)
  then have s: "unat (\<Sum>i \<in> I. f i) = (\<Sum>i \<in> I. unat (f i))" by simp
  with insert show ?case by (simp add: unat_word_ariths)
qed simp

lemma cache_bytes_exact: "total_bytes tb < 2 ^ 64 \<Longrightarrow> unat (adapter_cache_bytes tb) = total_bytes tb"
  by (simp add: cache_bytes_sum bytes_of_def unat_sum_words)

section \<open>One eviction\<close>

lemma forgotten_retired:
  "concat (map sk_active (fst (remove_adapter_from_retired i sks))) =
    filter (\<lambda>e. fst e \<noteq> i) (concat (map sk_active sks))"
proof (induction sks)
  case (Cons sk sks)
  have "filter (\<lambda>e. fst e \<noteq> i) m = m" if "map_of m i = None" for m :: adapter_map
    using that by (induction m) (auto split: if_splits)
  with Cons show ?case by (auto simp: Let_def am_remove_def split: prod.splits)
qed simp

lemma forget_adapter_fields:
  "tb_active (forget_adapter i tb) = tb_active tb" "tb_staged (forget_adapter i tb) = am_remove i (tb_staged tb)"
  "tb_counters (forget_adapter i tb) = tb_counters tb" "tb_store (forget_adapter i tb) = tb_store tb"
  "tb_rollback_state (forget_adapter i tb) = tb_rollback_state tb"
  "tb_current_stack (forget_adapter i tb) = tb_current_stack tb"
  "tb_retired_stacks (forget_adapter i tb) = fst (remove_adapter_from_retired i (tb_retired_stacks tb))"
  "j \<noteq> i \<Longrightarrow> map_of (tb_refcounts (forget_adapter i tb)) j = map_of (tb_refcounts tb) j"
  by (simp_all add: forget_adapter_def Let_def hash_map.lookup_remove split: prod.splits)

lemma forget_adapter_refs: "j \<noteq> i \<Longrightarrow> ref_count (forget_adapter i tb) j = ref_count tb j"
  by (simp add: ref_count_def forget_adapter_fields split: option.split)

lemma entries_forget:
  assumes "map_of (tb_active tb) i = None"
  shows "entries (forget_adapter i tb) = filter (\<lambda>e. fst e \<noteq> i) (entries tb)"
proof -
  have "filter (\<lambda>e. fst e \<noteq> i) (tb_active tb) = tb_active tb"
    using assms by (auto simp: map_of_eq_None_iff filter_id_conv)
  then show ?thesis
    by (simp add: entries_def forget_adapter_fields forgotten_retired am_remove_def)
qed

definition maps_ok :: "adapter_table \<Rightarrow> bool" where
  "maps_ok tb \<longleftrightarrow> am_ok (tb_staged tb) \<and> list_all (\<lambda>sk. am_ok (sk_active sk)) (tb_retired_stacks tb)"

lemma table_maps_ok: "table_ok tb \<Longrightarrow> maps_ok tb"
  by (auto simp: maps_ok_def list_all_iff known_def dest: table_okD)

lemma retired_am_ok:
  "list_all (\<lambda>sk. am_ok (sk_active sk)) sks \<Longrightarrow>
    list_all (\<lambda>sk. am_ok (sk_active sk)) (fst (remove_adapter_from_retired i sks))"
  by (induction sks) (auto simp: Let_def hash_map.ok_remove split: prod.splits)

lemma maps_ok_forget: "maps_ok tb \<Longrightarrow> maps_ok (forget_adapter i tb)"
  by (simp add: maps_ok_def forget_adapter_fields hash_map.ok_remove retired_am_ok)

lemma peak_map:
  assumes "am_ok m"
  shows "peak m i = (case map_of m i of Some al \<Rightarrow> state_bytes al | None \<Rightarrow> 0)"
  using assms
proof (induction m)
  case (Cons e m)
  then have "am_ok m" "fst e \<notin> set (am_keys m)" by (auto simp: am_ok_def)
  with Cons.IH show ?case
    by (auto simp: am_keys_def peak_absent map_of_eq_None_iff split: option.split)
qed simp

lemma evictable_is_peak:
  assumes "maps_ok tb" and "map_of (tb_active tb) i = None"
  shows "evictable_bytes tb i = peak (entries tb) i"
proof -
  have f: "foldl (\<lambda>b sk. case map_of (sk_active sk) i of Some al \<Rightarrow> max b (state_bytes al) | None \<Rightarrow> b) b sks =
      max b (peak (concat (map sk_active sks)) i)" if "list_all (\<lambda>sk. am_ok (sk_active sk)) sks" for b sks
    using that by (induction sks arbitrary: b)
      (auto simp: peak_append peak_map max.assoc split: option.split)
  have "peak (tb_active tb) i = 0" using assms(2) by (intro peak_absent) (auto simp: map_of_eq_None_iff)
  then show ?thesis
    using assms(1) by (simp add: evictable_bytes_def f maps_ok_def entries_def peak_append peak_map split: option.split)
qed

section \<open>The candidates\<close>

definition evictable :: "string list \<Rightarrow> adapter_table \<Rightarrow> string \<Rightarrow> bool" where
  "evictable protected_ids tb i \<longleftrightarrow>
     i \<notin> set protected_ids \<and> map_of (tb_active tb) i = None \<and> ref_count tb i = 0"

definition keyed :: "(string \<times> eviction_candidate) list \<Rightarrow> bool" where
  "keyed cands \<longleftrightarrow> am_ok cands \<and> list_all (\<lambda>(i, c). ec_adapter_id c = i) cands"

lemma keyed_step:
  assumes "keyed (snd acc)"
  shows "keyed (snd (consider_adapter protected_ids tb acc e)) \<and>
    set (am_keys (snd (consider_adapter protected_ids tb acc e))) = set (am_keys (snd acc)) \<union>
      (if evictable protected_ids tb (fst e) \<and> state_bytes (snd e) \<noteq> 0 then {fst e} else {})"
proof -
  obtain blocked cands i al where [simp]: "acc = (blocked, cands)" "e = (i, al)" by (cases acc; cases e) auto
  have k: "am_ok cands" "list_all (\<lambda>(i, c). ec_adapter_id c = i) cands" using assms by (auto simp: keyed_def)
  have u: "list_all (\<lambda>(i, c). ec_adapter_id c = i) (am_update (\<lambda>c. c\<lparr>ec_loaded_at := f c, ec_vram_bytes := g c\<rparr>) i cands)" for f g
    using k(2) by (auto simp: list_all_iff am_update_def)
  have n: "list_all (\<lambda>(i, c). ec_adapter_id c = i) (am_insert i \<lparr>ec_adapter_id = i, ec_loaded_at = a, ec_vram_bytes = b\<rparr> cands)" for a b
    using k(2) by (auto simp: list_all_iff am_insert_def am_remove_def)
  have ki: "set (am_keys (am_insert i c cands)) = insert i (set (am_keys cands))" for c
    by (auto simp: am_insert_def am_keys_remove)
  have lk: "i \<in> set (am_keys cands)" if "map_of cands i = Some c" for c
    using that by (force simp: am_keys_def dest: map_of_SomeD)
  show ?thesis
    using k u n hash_map.ok_insert [OF k(1)]
    by (auto simp: consider_adapter_def keyed_def evictable_def Let_def am_keys_update am_ok_def ki word_neq_0_conv
        split: option.split dest: lk)
qed

lemma keyed_fold:
  "keyed (snd acc) \<Longrightarrow> keyed (snd (foldl (consider_adapter protected_ids tb) acc es)) \<and>
    set (am_keys (snd (foldl (consider_adapter protected_ids tb) acc es))) = set (am_keys (snd acc)) \<union>
      {i. evictable protected_ids tb i \<and> (\<exists>al. (i, al) \<in> set es \<and> state_bytes al \<noteq> 0)}"
proof (induction es arbitrary: acc)
  case (Cons e es)
  note s = keyed_step [OF Cons.prems, of protected_ids tb e]
  from Cons.IH [OF conjunct1 [OF s]] s show ?case by (cases e) auto
qed simp

lemma peak_nonzero: "peak es i \<noteq> 0 \<longleftrightarrow> (\<exists>al. (i, al) \<in> set es \<and> state_bytes al \<noteq> 0)"
proof (induction es)
  case (Cons e es)
  have "max a b \<noteq> 0 \<longleftrightarrow> a \<noteq> 0 \<or> b \<noteq> (0 :: u64)" for a b
    by (auto simp: max_def)
  with Cons show ?case by (cases e) auto
qed simp

lemma collect_ids:
  assumes "collect_eviction_candidates protected_ids tb = (cs, blocked)"
  shows "distinct (map ec_adapter_id cs) \<and>
    set (map ec_adapter_id cs) = {i. evictable protected_ids tb i \<and> peak (entries tb) i \<noteq> 0}"
proof -
  let ?es = "tb_staged tb @ concat (map sk_active (tb_retired_stacks tb))"
  obtain b cands where f: "foldl (consider_adapter protected_ids tb) (\<lparr>bc_pinned = 0, bc_active = 0\<rparr>, []) ?es = (b, cands)"
    by fastforce
  have cs: "cs = sort_key (\<lambda>c. (ec_loaded_at c, ec_adapter_id c)) (map snd cands)"
    using assms f by (auto simp: collect_eviction_candidates_def)
  have k: "keyed cands" "set (am_keys cands) = {i. evictable protected_ids tb i \<and> peak ?es i \<noteq> 0}"
    using keyed_fold [of "(\<lparr>bc_pinned = 0, bc_active = 0\<rparr>, [])" protected_ids tb ?es] f
    by (auto simp: keyed_def am_ok_def peak_nonzero)
  have ids: "map ec_adapter_id (map snd cands) = am_keys cands"
    using k(1) by (auto simp: keyed_def am_keys_def list_all_iff)
  have "mset (map ec_adapter_id cs) = mset (am_keys cands)"
    by (simp add: cs ids [symmetric] mset_sort multiset.map_comp)
  then have "distinct (map ec_adapter_id cs) = distinct (am_keys cands)"
    "set (map ec_adapter_id cs) = set (am_keys cands)"
    by (rule mset_eq_imp_distinct_iff, rule mset_eq_setD)
  moreover have "peak (entries tb) i = peak ?es i" if "evictable protected_ids tb i" for i
    using that peak_absent [of i "tb_active tb"] by (simp add: entries_def peak_append evictable_def map_of_eq_None_iff)
  ultimately show ?thesis using k by (auto simp: keyed_def am_ok_def)
qed

section \<open>The loop\<close>

definition without :: "string set \<Rightarrow> adapter_map \<Rightarrow> adapter_map" where
  "without I es = filter (\<lambda>e. fst e \<notin> I) es"

lemma bytes_of_without:
  "bytes_of (without I es) (fst ` set (without I es)) = bytes_of es (fst ` set es - I)"
proof -
  have ks: "fst ` set (without I es) = fst ` set es - I" by (auto simp: without_def)
  have "peak (without I es) i = peak es i" if "i \<notin> I" for i
    using that by (induction es) (auto simp: without_def)
  then show ?thesis by (simp add: ks bytes_of_def)
qed

text \<open>What the loop keeps of the table, whatever the kernels answer.\<close>

definition only_forgets :: "adapter_table \<Rightarrow> adapter_table \<Rightarrow> string set \<Rightarrow> bool" where
  "only_forgets tb tb' I \<longleftrightarrow> tb_active tb' = tb_active tb \<and> tb_store tb' = tb_store tb \<and>
     tb_counters tb' = tb_counters tb \<and> tb_rollback_state tb' = tb_rollback_state tb \<and>
     tb_current_stack tb' = tb_current_stack tb \<and>
     tb_staged tb' = without I (tb_staged tb) \<and>
     concat (map sk_active (tb_retired_stacks tb')) = without I (concat (map sk_active (tb_retired_stacks tb))) \<and>
     (\<forall>i. i \<notin> I \<longrightarrow> map_of (tb_refcounts tb') i = map_of (tb_refcounts tb) i) \<and>
     (\<forall>i \<in> I. map_of (tb_active tb) i = None \<and> ref_count tb i = 0)"

lemma only_forgets_refl: "only_forgets tb tb {}"
  by (simp add: only_forgets_def without_def)

lemma only_forgets_step:
  assumes "map_of (tb_active tb) i = None" and "ref_count tb i = 0"
    and "only_forgets (forget_adapter i tb) tb' I" and "i \<notin> I"
  shows "only_forgets tb tb' (insert i I)"
proof -
  have "ref_count tb j = 0" if "j \<in> I" for j
    using that assms(3,4) forget_adapter_refs [of j i tb] by (auto simp: only_forgets_def)
  with assms show ?thesis
    by (auto simp: only_forgets_def forget_adapter_fields forgotten_retired without_def am_remove_def
        intro!: filter_cong)
qed

lemma evict_cases:
  assumes "evict_adapter_by_id ko H i kernels tb = (r, kernels', tb')"
  shows "(tb' = tb \<and> (kernels' = kernels \<and> r = Ok 0 \<or>
      map_of (tb_active tb) i = None \<and> ref_count tb i = 0 \<and> kernels' = snd (detach_one ko H i kernels) \<and> \<not> is_ok r)) \<or>
    (map_of (tb_active tb) i = None \<and> ref_count tb i = 0 \<and> tb' = forget_adapter i tb \<and>
      kernels' = snd (detach_one ko H i kernels) \<and> r = Ok (evictable_bytes tb i))"
  using assms by (auto simp: evict_adapter_by_id_def word_neq_0_conv split: if_splits prod.splits sum.splits)

lemma loop_forgets:
  assumes "evict_candidates_for_budget ko H target freed cs kernels tb = (freed', kernels', tb')"
    and "distinct (map ec_adapter_id cs)"
    and "\<And>i k. map_of (tb_active tb) i = None \<Longrightarrow> ref_count tb i = 0 \<Longrightarrow> i \<in> set (map ec_adapter_id cs) \<Longrightarrow>
      P k \<Longrightarrow> P (snd (ko_detach ko (adapter_id_to_u16 H i) k))"
    and "pred_option P kernels"
  shows "(\<exists>I \<subseteq> set (map ec_adapter_id cs). only_forgets tb tb' I) \<and> pred_option P kernels'"
  using assms
proof (induction cs arbitrary: freed kernels tb)
  case Nil
  then show ?case using only_forgets_refl by auto
next
  case (Cons c cs)
  let ?i = "ec_adapter_id c"
  show ?case
  proof (cases "freed \<ge> target")
    case True
    with Cons.prems only_forgets_refl show ?thesis by auto
  next
    case False
    obtain r k1 tb1 where e: "evict_adapter_by_id ko H ?i kernels tb = (r, k1, tb1)" by (metis prod_cases3)
    obtain freed1 where l: "evict_candidates_for_budget ko H target freed1 cs k1 tb1 = (freed', kernels', tb')"
      using Cons.prems(1) False e by (auto split: sum.splits)
    have d: "pred_option P (snd (detach_one ko H ?i kernels))"
      if "map_of (tb_active tb) ?i = None" "ref_count tb ?i = 0"
      using Cons.prems(3) [OF that] Cons.prems(4) by (auto simp: detach_one_def split_beta split: option.splits)
    from evict_cases [OF e] consider
        (same) "tb1 = tb" "pred_option P k1"
      | (gone) "map_of (tb_active tb) ?i = None" "ref_count tb ?i = 0" "tb1 = forget_adapter ?i tb" "pred_option P k1"
      using Cons.prems(4) d by (elim disjE conjE) auto
    then show ?thesis
    proof cases
      case same
      have "(\<exists>I \<subseteq> set (map ec_adapter_id cs). only_forgets tb1 tb' I) \<and> pred_option P kernels'"
        using Cons.prems(2,3) same by (intro Cons.IH [OF l]) auto
      then show ?thesis using same(1) by auto
    next
      case gone
      have n: "?i \<notin> set (map ec_adapter_id cs)" using Cons.prems(2) by simp
      have "(\<exists>I \<subseteq> set (map ec_adapter_id cs). only_forgets tb1 tb' I) \<and> pred_option P kernels'"
      proof (rule Cons.IH [OF l])
        fix i k assume i: "map_of (tb_active tb1) i = None" "ref_count tb1 i = 0" "i \<in> set (map ec_adapter_id cs)" "P k"
        then have "i \<noteq> ?i" using n by blast
        with i gone(3) show "P (snd (ko_detach ko (adapter_id_to_u16 H i) k))"
          by (intro Cons.prems(3)) (auto simp: forget_adapter_fields forget_adapter_refs)
      qed (use Cons.prems(2) gone in auto)
      then obtain I where "I \<subseteq> set (map ec_adapter_id cs)" "only_forgets tb1 tb' I" "pred_option P kernels'" by auto
      then show ?thesis using only_forgets_step [OF gone(1,2)] gone(3) n
        by (intro conjI exI [of _ "insert ?i I"]) auto
    qed
  qed
qed

lemma entries_only_forgets: "only_forgets tb tb' I \<Longrightarrow> entries tb' = without I (entries tb)"
proof -
  assume a: "only_forgets tb tb' I"
  then have "without I (tb_active tb) = tb_active tb"
    by (auto simp: only_forgets_def without_def filter_id_conv map_of_eq_None_iff)
  with a show ?thesis by (simp add: only_forgets_def entries_def) (simp add: without_def)
qed

lemma loop_frees:
  assumes "evict_candidates_for_budget ko H target freed cs kernels tb = (freed', kernels', tb')"
    and "distinct (map ec_adapter_id cs)" and "maps_ok tb"
    and "\<And>i. i \<in> set (map ec_adapter_id cs) \<Longrightarrow>
      map_of (tb_active tb) i = None \<and> ref_count tb i = 0 \<and> peak (entries tb) i \<noteq> 0"
    and "\<And>n k. is_ok (fst (ko_detach ko n k))"
    and "unat freed + bytes_of (entries tb) (set (map ec_adapter_id cs)) < 2 ^ 64"
  shows "\<exists>I \<subseteq> set (map ec_adapter_id cs). only_forgets tb tb' I \<and>
    unat freed' = unat freed + bytes_of (entries tb) I \<and> (freed' \<ge> target \<or> I = set (map ec_adapter_id cs))"
  using assms
proof (induction cs arbitrary: freed kernels tb)
  case Nil
  then show ?case using only_forgets_refl by (auto simp: bytes_of_def)
next
  case (Cons c cs)
  let ?i = "ec_adapter_id c" and ?ids = "set (map ec_adapter_id cs)"
  show ?case
  proof (cases "freed \<ge> target")
    case True
    with Cons.prems(1) show ?thesis using only_forgets_refl by (intro exI [of _ "{}"]) (auto simp: bytes_of_def)
  next
    case False
    have i: "map_of (tb_active tb) ?i = None" "ref_count tb ?i = 0" "peak (entries tb) ?i \<noteq> 0"
      using Cons.prems(4) [of ?i] by auto
    have n: "?i \<notin> ?ids" using Cons.prems(2) by simp
    let ?b = "peak (entries tb) ?i" and ?tb1 = "forget_adapter ?i tb"
    have "is_ok (fst (detach_one ko H ?i kernels))"
      using Cons.prems(5) by (auto simp: detach_one_def split_beta split: option.split)
    then obtain k1 where e: "evict_adapter_by_id ko H ?i kernels tb = (Ok ?b, k1, ?tb1)"
      using i evictable_is_peak [OF Cons.prems(3) i(1)]
      by (cases "detach_one ko H ?i kernels") (auto simp: evict_adapter_by_id_def is_ok_iff)
    have l: "evict_candidates_for_budget ko H target (freed + ?b) cs k1 ?tb1 = (freed', kernels', tb')"
      using Cons.prems(1) False e by simp
    have es: "entries ?tb1 = filter (\<lambda>e. fst e \<noteq> ?i) (entries tb)" by (rule entries_forget [OF i(1)])
    have b: "bytes_of (entries ?tb1) I = bytes_of (entries tb) I" if "?i \<notin> I" for I
      using that by (auto simp: bytes_of_def es peak_filter intro!: sum.cong)
    have s: "unat ?b + bytes_of (entries tb) ?ids = bytes_of (entries tb) (set (map ec_adapter_id (c # cs)))"
      using n by (simp add: bytes_of_def)
    have f: "unat (freed + ?b) = unat freed + unat ?b"
      using s Cons.prems(6) by (simp add: unat_word_ariths)
    have "\<exists>I \<subseteq> ?ids. only_forgets ?tb1 tb' I \<and>
      unat freed' = unat (freed + ?b) + bytes_of (entries ?tb1) I \<and> (freed' \<ge> target \<or> I = ?ids)"
    proof (rule Cons.IH [OF l _ maps_ok_forget [OF Cons.prems(3)] _ Cons.prems(5)])
      show "map_of (tb_active ?tb1) j = None \<and> ref_count ?tb1 j = 0 \<and> peak (entries ?tb1) j \<noteq> 0"
        if "j \<in> ?ids" for j
      proof -
        have "j \<noteq> ?i" using that n by blast
        then show ?thesis
          using that Cons.prems(4) [of j] by (auto simp: forget_adapter_fields forget_adapter_refs es peak_filter)
      qed
      show "unat (freed + ?b) + bytes_of (entries ?tb1) ?ids < 2 ^ 64"
        using s f b [OF n] Cons.prems(6) by simp
    qed (use Cons.prems(2) in simp)
    then obtain I where I: "I \<subseteq> ?ids" "only_forgets ?tb1 tb' I"
      "unat freed' = unat (freed + ?b) + bytes_of (entries ?tb1) I" "freed' \<ge> target \<or> I = ?ids" by auto
    have ni: "?i \<notin> I" "finite I" using I(1) n finite_subset [OF I(1)] by auto
    have "unat freed' = unat freed + bytes_of (entries tb) (insert ?i I)"
      using I(3) f b [OF ni(1)] ni by (simp add: bytes_of_def)
    then show ?thesis
      using I only_forgets_step [OF i(1,2) I(2) ni(1)] by (intro exI [of _ "insert ?i I"]) auto
  qed
qed

section \<open>The budget\<close>

lemma enforce_forgets:
  assumes "enforce_adapter_cache_budget ko H needed protected kernels tb = (r, kernels', tb')"
    and "\<And>i k. map_of (tb_active tb) i = None \<Longrightarrow> ref_count tb i = 0 \<Longrightarrow> protected \<noteq> Some i \<Longrightarrow>
      P k \<Longrightarrow> P (snd (ko_detach ko (adapter_id_to_u16 H i) k))"
    and "pred_option P kernels"
  shows "pred_option P kernels' \<and> (\<exists>I. only_forgets tb tb' I \<and> (\<forall>i \<in> I. protected \<noteq> Some i))"
proof -
  let ?prot = "case protected of Some i \<Rightarrow> [i] | None \<Rightarrow> []"
  obtain cs blocked where c: "collect_eviction_candidates ?prot tb = (cs, blocked)" by fastforce
  note ids = collect_ids [OF c]
  have "(\<exists>I \<subseteq> set (map ec_adapter_id cs). only_forgets tb tb' I) \<and> pred_option P kernels'"
  proof (cases "tb' = tb \<and> kernels' = kernels")
    case True
    then show ?thesis using only_forgets_refl assms(3) by auto
  next
    case False
    then obtain target freed' where "evict_candidates_for_budget ko H target 0 cs kernels tb = (freed', kernels', tb')"
      using assms(1) c by (auto simp: enforce_adapter_cache_budget_def Let_def split: option.splits if_splits prod.splits)
    then show ?thesis
    proof (rule loop_forgets)
      show "P (snd (ko_detach ko (adapter_id_to_u16 H i) k))"
        if "map_of (tb_active tb) i = None" "ref_count tb i = 0" "i \<in> set (map ec_adapter_id cs)" "P k" for i k
        using that ids by (intro assms(2)) (auto simp: evictable_def)
    qed (use ids assms(3) in auto)
  qed
  moreover have "protected \<noteq> Some i" if "i \<in> set (map ec_adapter_id cs)" for i
    using that ids by (auto simp: evictable_def simp del: set_map)
  ultimately show ?thesis by blast
qed

text \<open>
  (C14) Enforcing the budget never touches an adapter in use. Whatever it evicts was neither active nor
  referenced nor the one to protect; every other adapter keeps its staged entry, its places in
  the retired stacks and its counter, and the kernels keep every property that detaching
  unused adapters preserves.
\<close>

theorem budget_spares_used:
  assumes "enforce_adapter_cache_budget ko H needed protected kernels tb = (r, kernels', tb')"
    and "\<And>i k. map_of (tb_active tb) i = None \<Longrightarrow> ref_count tb i = 0 \<Longrightarrow> protected \<noteq> Some i \<Longrightarrow>
      P k \<Longrightarrow> P (snd (ko_detach ko (adapter_id_to_u16 H i) k))"
    and "pred_option P kernels"
  shows "pred_option P kernels' \<and> tb_active tb' = tb_active tb \<and> tb_store tb' = tb_store tb \<and>
    tb_counters tb' = tb_counters tb \<and>
    (\<forall>i. map_of (tb_active tb) i \<noteq> None \<or> ref_count tb i \<noteq> 0 \<or> protected = Some i \<longrightarrow>
      filter (\<lambda>e. fst e = i) (tb_staged tb') = filter (\<lambda>e. fst e = i) (tb_staged tb) \<and>
      filter (\<lambda>e. fst e = i) (concat (map sk_active (tb_retired_stacks tb'))) =
        filter (\<lambda>e. fst e = i) (concat (map sk_active (tb_retired_stacks tb))) \<and>
      map_of (tb_refcounts tb') i = map_of (tb_refcounts tb) i)"
proof -
  have "pred_option P kernels' \<and> (\<exists>I. only_forgets tb tb' I \<and> (\<forall>i \<in> I. protected \<noteq> Some i))"
  proof (rule enforce_forgets [where P = P, OF assms(1)])
    show "P (snd (ko_detach ko (adapter_id_to_u16 H i) k))"
      if "map_of (tb_active tb) i = None" "ref_count tb i = 0" "protected \<noteq> Some i" "P k" for i k
      by (rule assms(2) [OF that])
  qed (rule assms(3))
  then obtain I where I: "pred_option P kernels'" "only_forgets tb tb' I" "\<forall>i \<in> I. protected \<noteq> Some i" by blast
  have "i \<notin> I" if "map_of (tb_active tb) i \<noteq> None \<or> ref_count tb i \<noteq> 0 \<or> protected = Some i" for i
    using that I(2,3) by (auto simp: only_forgets_def)
  moreover have "filter (\<lambda>e. fst e = i) (without I es) = filter (\<lambda>e. fst e = i) es" if "i \<notin> I" for i es
    using that by (auto simp: without_def intro!: filter_cong)
  ultimately show ?thesis using I(1,2) by (auto simp: only_forgets_def)
qed

text \<open>The adapters that may not be evicted: the active, the referenced and the protected ones.\<close>

definition blocked_ids :: "string option \<Rightarrow> adapter_table \<Rightarrow> string set" where
  "blocked_ids protected tb = {i \<in> fst ` set (entries tb).
     map_of (tb_active tb) i \<noteq> None \<or> ref_count tb i \<noteq> 0 \<or> protected = Some i}"

lemma bytes_of_mono: "A \<subseteq> B \<Longrightarrow> finite B \<Longrightarrow> bytes_of es A \<le> bytes_of es B"
  by (auto simp: bytes_of_def intro!: sum_mono2)

lemma total_bytes_forgets:
  assumes "only_forgets tb tb' I"
  shows "total_bytes tb' = bytes_of (entries tb) (fst ` set (entries tb) - I)"
  by (simp add: entries_only_forgets [OF assms] bytes_of_without)

lemma cache_bytes_needed:
  assumes "total_bytes tb + unat needed < 2 ^ 64"
  shows "unat (adapter_cache_bytes tb + needed) = total_bytes tb + unat needed"
  using assms cache_bytes_exact [of tb] by (simp add: unat_word_ariths)

text \<open>Whatever the kernels answer, the verdict is about what is cached at the end, and what is blocked is kept.\<close>

lemma enforce_verdict:
  assumes "tb_adapter_cache_budget_bytes tb = Some budget" and "budget \<noteq> 0" and "total_bytes tb + unat needed < 2 ^ 64"
    and "enforce_adapter_cache_budget ko H needed protected kernels tb = (r, kernels', tb')"
  shows "(is_ok r \<longleftrightarrow> total_bytes tb' + unat needed \<le> unat budget) \<and>
    bytes_of (entries tb) (blocked_ids protected tb) \<le> total_bytes tb'"
proof -
  obtain I where I: "only_forgets tb tb' I" "\<forall>i \<in> I. protected \<noteq> Some i"
    using enforce_forgets [where P = "\<lambda>_. True", OF assms(4)] by (auto simp: pred_option_def)
  note after = total_bytes_forgets [OF I(1)]
  have "total_bytes tb' \<le> total_bytes tb" unfolding after by (rule bytes_of_mono) auto
  then have "unat (adapter_cache_bytes tb' + needed) = total_bytes tb' + unat needed"
    using assms(3) by (intro cache_bytes_needed) simp
  moreover have "is_ok r \<longleftrightarrow> \<not> budget < adapter_cache_bytes tb' + needed"
    using assms(1,2,4) by (auto simp: enforce_adapter_cache_budget_def Let_def not_less split: if_splits prod.splits)
  moreover have "blocked_ids protected tb \<subseteq> fst ` set (entries tb) - I"
    using I by (auto simp: blocked_ids_def only_forgets_def)
  ultimately show ?thesis
    unfolding after by (auto simp: word_less_nat_alt not_less intro: bytes_of_mono)
qed

text \<open>When detaching works, eviction goes on until there is room or only blocked adapters are left.\<close>

lemma enforce_frees:
  assumes "maps_ok tb" and "tb_adapter_cache_budget_bytes tb = Some budget" and "budget \<noteq> 0"
    and "\<And>n k. is_ok (fst (ko_detach ko n k))" and "total_bytes tb + unat needed < 2 ^ 64"
    and "enforce_adapter_cache_budget ko H needed protected kernels tb = (r, kernels', tb')"
  shows "total_bytes tb' + unat needed \<le> unat budget \<or>
    total_bytes tb' = bytes_of (entries tb) (blocked_ids protected tb)"
proof (cases "adapter_cache_bytes tb + needed \<le> budget")
  case True
  with assms(2,3,6) cache_bytes_needed [OF assms(5)] show ?thesis
    by (auto simp: enforce_adapter_cache_budget_def word_le_nat_alt)
next
  case False
  let ?prot = "case protected of Some i \<Rightarrow> [i] | None \<Rightarrow> []" and ?all = "fst ` set (entries tb)"
  obtain cs blocked where c: "collect_eviction_candidates ?prot tb = (cs, blocked)" by fastforce
  note ids = collect_ids [OF c]
  let ?target = "adapter_cache_bytes tb + needed - budget" and ?ids = "set (map ec_adapter_id cs)"
  have over: "unat budget < total_bytes tb + unat needed"
    using False cache_bytes_needed [OF assms(5)] by (simp add: word_le_nat_alt)
  have target: "unat ?target = total_bytes tb + unat needed - unat budget" "?target \<noteq> 0"
    using False cache_bytes_needed [OF assms(5)] over by (auto simp: unat_sub_if_size word_le_nat_alt)
  obtain freed' where l: "evict_candidates_for_budget ko H ?target 0 cs kernels tb = (freed', kernels', tb')"
    using assms(2,3,6) c False target(2)
    by (auto simp: enforce_adapter_cache_budget_def Let_def split: if_splits prod.splits)
  have sub: "?ids \<subseteq> ?all" using ids peak_absent [of _ "entries tb"] by (auto simp del: set_map)
  have "\<exists>I \<subseteq> ?ids. only_forgets tb tb' I \<and> unat freed' = unat (0 :: u64) + bytes_of (entries tb) I \<and>
      (freed' \<ge> ?target \<or> I = ?ids)"
  proof (rule loop_frees [OF l _ assms(1) _ assms(4)])
    show "unat (0 :: u64) + bytes_of (entries tb) ?ids < 2 ^ 64"
      using bytes_of_mono [OF sub, of "entries tb"] assms(5) by simp
  qed (use ids in \<open>auto simp: evictable_def\<close>)
  then obtain I where I: "I \<subseteq> ?ids" "only_forgets tb tb' I" "unat freed' = bytes_of (entries tb) I"
    "freed' \<ge> ?target \<or> I = ?ids" by auto
  have "I \<subseteq> ?all" using I(1) sub by blast
  then have tot: "total_bytes tb = bytes_of (entries tb) I + total_bytes tb'"
    using total_bytes_forgets [OF I(2)] sum.subset_diff [of I ?all "\<lambda>i. unat (peak (entries tb) i)"]
    by (simp add: bytes_of_def)
  show ?thesis
  proof (cases "freed' \<ge> ?target")
    case True
    then have "total_bytes tb + unat needed - unat budget \<le> bytes_of (entries tb) I"
      using target(1) I(3) by (simp add: word_le_nat_alt)
    then show ?thesis using tot by arith
  next
    case False
    then have "I = ?ids" using I(4) by simp
    have "bytes_of (entries tb) (?all - I) = bytes_of (entries tb) (blocked_ids protected tb)"
      unfolding bytes_of_def
    proof (rule sum.mono_neutral_right)
      show "\<forall>i \<in> ?all - I - blocked_ids protected tb. unat (peak (entries tb) i) = 0"
        using \<open>I = ?ids\<close> ids by (auto simp: blocked_ids_def evictable_def unat_eq_0 simp del: set_map split: option.splits)
      show "blocked_ids protected tb \<subseteq> ?all - I"
        using I(1) ids by (auto simp: blocked_ids_def evictable_def simp del: set_map split: option.splits)
    qed simp
    then show ?thesis by (simp add: total_bytes_forgets [OF I(2)])
  qed
qed

text \<open>
  (C13) Enforcing the budget is exact, for a budget that is set and not zero, sizes that add up without overflow
  and maps that, as hash maps, name no adapter twice.
  It succeeds exactly when what is cached afterwards fits the budget together with what is needed. That takes
  the adapters that may not be evicted (the active, the referenced and the protected ones) to leave room,
  whatever the kernels answer; and when every detach succeeds, that they leave room is also enough. A detach that
  fails may keep an unused adapter in the cache, and then the call may fail although there was room to make.
\<close>

theorem budget_exact:
  assumes "maps_ok tb" and "tb_adapter_cache_budget_bytes tb = Some budget" and "budget \<noteq> 0"
    and "total_bytes tb + unat needed < 2 ^ 64"
    and "enforce_adapter_cache_budget ko H needed protected kernels tb = (r, kernels', tb')"
  shows "(is_ok r \<longleftrightarrow> total_bytes tb' + unat needed \<le> unat budget) \<and>
    (is_ok r \<longrightarrow> bytes_of (entries tb) (blocked_ids protected tb) + unat needed \<le> unat budget) \<and>
    ((\<forall>n k. is_ok (fst (ko_detach ko n k))) \<and>
       bytes_of (entries tb) (blocked_ids protected tb) + unat needed \<le> unat budget \<longrightarrow> is_ok r)"
  using enforce_verdict [OF assms(2-5)] enforce_frees [OF assms(1-3) _ assms(4,5)] by fastforce

section \<open>Witnesses\<close>

definition quiet_kernels :: "16 word list kernel_ops" where
  "quiet_kernels = \<lparr>ko_attach = (\<lambda>n k. (Ok (), n # k)), ko_detach = (\<lambda>n k. (Ok (), removeAll n k)),
     ko_switch = (\<lambda>n k. (Ok (), k))\<rparr>"

text \<open>Two adapters of one megabyte are staged, and there is room for two.\<close>

definition full_table :: adapter_table where
  "full_table = set_adapter_cache_budget_bytes (Some (2 * bytes_per_mb))
     (snd (preload 1 ''b'' [] 1 (snd (preload 0 ''a'' [] 1 (table_new ''v'')))))"

lemma full_table_eq:
  "full_table = (table_new ''v'')\<lparr>
     tb_staged := map (\<lambda>(i, t). (i, \<lparr>al_id = i, al_hash = [], al_expected_hash = [], al_vram_mb = 1, al_loaded_at = t,
        al_active = False, al_lifecycle = WL_Loaded, al_backing = None, al_recent_uses = []\<rparr>)) [(''a'', 0), (''b'', 1)],
     tb_refcounts := [(''a'', 0), (''b'', 1)], tb_counters := [0, 0],
     tb_adapter_cache_budget_bytes := Some (2 * bytes_per_mb)\<rparr>"
  by (simp add: full_table_def preload_def preload_with_backing_def ensure_refcount_def table_new_def
      with_checkpoint_limit_def set_adapter_cache_budget_bytes_def am_insert_def am_remove_def)

lemma full_table_ok: "table_ok full_table"
  by (simp add: full_table_eq table_new_def with_checkpoint_limit_def table_ok_def refs_ok_def am_ok_def am_keys_def
      stacks_known_def known_def index_ok_def index_view_def active_view_def store_bound_def bound_def
      store_new_def)

lemma full_table_entries:
  "map fst (entries full_table) = [''a'', ''b'']" "peak (entries full_table) ''a'' = bytes_per_mb"
  "peak (entries full_table) ''b'' = bytes_per_mb" "tb_active full_table = []"
  "ref_count full_table ''a'' = 0" "ref_count full_table ''b'' = 0"
  "tb_adapter_cache_budget_bytes full_table = Some (2 * bytes_per_mb)"
  by (simp_all add: full_table_eq entries_def table_new_def with_checkpoint_limit_def state_bytes_def
      saturating_mul_def bytes_per_mb_def ref_count_def)

lemma full_table_total: "fst ` set (entries full_table) = {''a'', ''b''}" "total_bytes full_table = 2097152"
proof -
  show s: "fst ` set (entries full_table) = {''a'', ''b''}"
    using full_table_entries(1) by (metis list.set_map list.simps(15) empty_set)
  show "total_bytes full_table = 2097152"
    by (simp only: s) (simp add: bytes_of_def full_table_entries bytes_per_mb_def)
qed

theorem budget_exact_witness:
  "\<exists>kernels' tb'. enforce_adapter_cache_budget quiet_kernels (\<lambda>_. []) bytes_per_mb None (Some [0, 7]) full_table =
     (Ok (), kernels', tb') \<and> total_bytes tb' + 1048576 \<le> 2097152"
proof -
  obtain r kernels' tb' where e: "enforce_adapter_cache_budget quiet_kernels (\<lambda>_. []) bytes_per_mb None
      (Some [0, 7]) full_table = (r, kernels', tb')" by (metis prod_cases3)
  have B: "bytes_of (entries full_table) (blocked_ids None full_table) = 0"
    unfolding blocked_ids_def full_table_total(1) by (auto simp: full_table_entries bytes_of_def)
  have "(is_ok r \<longleftrightarrow> total_bytes tb' + unat bytes_per_mb \<le> unat (2 * bytes_per_mb)) \<and>
    (is_ok r \<longrightarrow> bytes_of (entries full_table) (blocked_ids None full_table) + unat bytes_per_mb \<le> unat (2 * bytes_per_mb)) \<and>
    ((\<forall>n k. is_ok (fst (ko_detach quiet_kernels n k))) \<and>
      bytes_of (entries full_table) (blocked_ids None full_table) + unat bytes_per_mb \<le> unat (2 * bytes_per_mb) \<longrightarrow> is_ok r)"
    by (rule budget_exact [OF table_maps_ok [OF full_table_ok] full_table_entries(7) _ _ e])
      (simp_all add: full_table_total(2) bytes_per_mb_def)
  then have "is_ok r \<and> total_bytes tb' + unat bytes_per_mb \<le> unat (2 * bytes_per_mb)"
    unfolding B by (auto simp: bytes_per_mb_def quiet_kernels_def)
  with e show ?thesis by (auto simp: bytes_per_mb_def is_ok_iff)
qed

theorem budget_spares_used_witness:
  "\<exists>r kernels' tb'. enforce_adapter_cache_budget quiet_kernels (\<lambda>_. []) bytes_per_mb (Some ''a'') (Some [0, 7]) full_table =
     (r, kernels', tb') \<and> pred_option (\<lambda>k. 7 \<in> set k) kernels' \<and>
     filter (\<lambda>e. fst e = ''a'') (tb_staged tb') = filter (\<lambda>e. fst e = ''a'') (tb_staged full_table)"
proof -
  obtain r kernels' tb' where e: "enforce_adapter_cache_budget quiet_kernels (\<lambda>_. []) bytes_per_mb (Some ''a'')
      (Some [0, 7]) full_table = (r, kernels', tb')" by (metis prod_cases3)
  have slot: "adapter_id_to_u16 (\<lambda>_. []) i = 0" for i
    by (simp add: adapter_id_to_u16_def b3_hash_def)
  let ?Q = "\<lambda>k. 7 \<in> set (k :: 16 word list)"
  have "pred_option ?Q kernels' \<and>
     filter (\<lambda>e. fst e = ''a'') (tb_staged tb') = filter (\<lambda>e. fst e = ''a'') (tb_staged full_table)"
    using budget_spares_used [OF e, of ?Q] by (auto simp: slot quiet_kernels_def)
  with e show ?thesis by auto
qed

end
