(* ===== verification/AosArchive.thy ===== *)
theory AosArchive
  imports LifecycleRules Seeds
begin

text \<open>
  Adapter archives, \<open>crates/adapteros-aos/src/writer.rs\<close>: a header of 64 bytes, an index of
  80 bytes per segment, the segment payloads, and the manifest. Writing is modelled up to the
  bytes of the file; the disk-space check and the JSON printer are arguments, and the handling
  of the temporary file is left out. A slice that is out of range panics, which is the
  value \<open>None\<close>.
\<close>

section \<open>Slices\<close>

definition field :: "nat \<Rightarrow> nat \<Rightarrow> bytes \<Rightarrow> bytes" where
  "field a b bs = take (b - a) (drop a bs)"

definition slice :: "nat \<Rightarrow> nat \<Rightarrow> bytes \<Rightarrow> bytes option" where
  "slice a b bs = (if a \<le> b \<and> b \<le> length bs then Some (field a b bs) else None)"

definition checked_add :: "u64 \<Rightarrow> u64 \<Rightarrow> u64 option" where
  "checked_add a b = (if unat a + unat b < 2 ^ 64 then Some (a + b) else None)"

lemma length_field [simp]: "length (field a b bs) = min (b - a) (length bs - a)"
  by (simp add: field_def min.commute)

lemma field_append:
  "field a b (xs @ ys) = field a (min b (length xs)) xs @ field (a - length xs) (b - length xs) ys"
  by (cases "a \<le> length xs") (auto simp: field_def min_def)

lemma field_all [simp]: "length bs \<le> b \<Longrightarrow> field 0 b bs = bs"
  by (simp add: field_def)

lemma field_empty [simp]: "b \<le> a \<Longrightarrow> field a b bs = []"
  by (simp add: field_def)

lemma field_beyond [simp]: "length bs \<le> a \<Longrightarrow> field a b bs = []"
  by (simp add: field_def)

lemma field_in: "length xs = a \<Longrightarrow> b = a + length ys \<Longrightarrow> field a b (xs @ ys @ zs) = ys"
  by (simp add: field_def)

lemma field_field: "a + d \<le> b \<Longrightarrow> field c d (field a b bs) = field (a + c) (a + d) bs"
  by (cases "c \<le> d") (simp_all add: field_def drop_take min_absorb1 add.commute)

lemma field_span: "a \<le> b \<Longrightarrow> b \<le> length bs \<Longrightarrow> a + length (field a b bs) = b"
  by simp

lemma checked_add_Some: "checked_add a b = Some c \<longleftrightarrow> unat c = unat a + unat b"
  using unsigned_less [of c, where 'a = nat]
  by (auto simp: checked_add_def unat_word_ariths word_unat_eq_iff)

section \<open>Format\<close>

definition aos_magic :: bytes where
  "aos_magic = str_bytes ''AOS'' @ [0]"

definition aos_magic_v2 :: bytes where
  "aos_magic_v2 = str_bytes ''AOS2''"

lemma length_magic [simp]: "length aos_magic = 4"
  by (simp add: aos_magic_def str_bytes_def)

definition header_size :: nat where
  "header_size = 64"

definition index_entry_size :: nat where
  "index_entry_size = 80"

definition has_index_flag :: u32 where
  "has_index_flag = 1"

definition compute_scope_hash :: "hash_fn \<Rightarrow> string \<Rightarrow> bytes" where
  "compute_scope_hash H scope_path = take 16 (b3_hash H (str_bytes scope_path))"

datatype backend_tag = Canonical | Mlx | Metal | Coreml

fun tag_as_u16 :: "backend_tag \<Rightarrow> 16 word" where
  "tag_as_u16 Canonical = 0"
| "tag_as_u16 Mlx = 1"
| "tag_as_u16 Metal = 2"
| "tag_as_u16 Coreml = 3"

fun tag_as_str :: "backend_tag \<Rightarrow> string" where
  "tag_as_str Canonical = ''canonical''"
| "tag_as_str Mlx = ''mlx''"
| "tag_as_str Metal = ''metal''"
| "tag_as_str Coreml = ''coreml''"

definition tag_try_from :: "16 word \<Rightarrow> (aos_error, backend_tag) result" where
  "tag_try_from v =
     (if v = 0 then Ok Canonical else if v = 1 then Ok Mlx else if v = 2 then Ok Metal
      else if v = 3 then Ok Coreml
      else Err (EValidation (''Unknown backend tag: '' @ show_nat (unat v))))"

lemma tag_roundtrip [simp]: "tag_try_from (tag_as_u16 t) = Ok t"
  by (cases t) (simp_all add: tag_try_from_def)

record pending_segment =
  ps_segment_id :: u32
  ps_backend_tag :: backend_tag
  ps_scope_hash :: bytes
  ps_weights_hash :: b3hash
  ps_payload :: bytes

record aos_writer =
  aw_include_signature :: bool
  aw_segments :: "pending_segment list"

record aos_header =
  ah_flags :: u32
  ah_index_offset :: u64
  ah_index_size :: u64
  ah_manifest_offset :: u64
  ah_manifest_size :: u64

record segment_descriptor =
  sd_segment_id :: u32
  sd_backend_tag :: backend_tag
  sd_scope_hash :: bytes
  sd_weights_hash :: b3hash
  sd_offset :: u64
  sd_len :: u64

text \<open>A borrowed slice is its position in the archive and its bytes.\<close>

record segment_view =
  sv_segment_id :: u32
  sv_backend_tag :: backend_tag
  sv_scope_hash :: bytes
  sv_payload :: "nat \<times> bytes"

record aos_file_view =
  av_manifest_bytes :: "nat \<times> bytes"
  av_segments :: "segment_view list"

section \<open>Writing\<close>

definition writer_new :: aos_writer where
  "writer_new = \<lparr>aw_include_signature = True, aw_segments = []\<rparr>"

definition writer_with_options :: "bool \<Rightarrow> aos_writer" where
  "writer_with_options include_signature =
     \<lparr>aw_include_signature = include_signature, aw_segments = []\<rparr>"

definition add_segment ::
  "hash_fn \<Rightarrow> backend_tag \<Rightarrow> string option \<Rightarrow> bytes \<Rightarrow> aos_writer \<Rightarrow> u32 \<times> aos_writer" where
  "add_segment H tag scope_path bs w =
     (let segment_id = of_nat (length (aw_segments w));
          scope_hash = (case scope_path of Some s \<Rightarrow> compute_scope_hash H s | None \<Rightarrow> replicate 16 0) in
      (segment_id,
       w\<lparr>aw_segments := aw_segments w @
           [\<lparr>ps_segment_id = segment_id, ps_backend_tag = tag, ps_scope_hash = scope_hash,
             ps_weights_hash = b3_hash H bs, ps_payload = bs\<rparr>]\<rparr>))"

definition clear_segments :: "aos_writer \<Rightarrow> aos_writer" where
  "clear_segments w = w\<lparr>aw_segments := []\<rparr>"

definition manifest_scope_path :: "json \<Rightarrow> string option" where
  "manifest_scope_path manifest =
     (case Option.bind (Option.bind (json_get manifest ''metadata'') (\<lambda>v. json_get v ''scope_path'')) as_str of
        Some s \<Rightarrow> if s \<noteq> [] then Some s else None
      | None \<Rightarrow> None)"

definition index_entry :: "pending_segment \<Rightarrow> u64 \<Rightarrow> u64 \<Rightarrow> bytes \<Rightarrow> b3hash \<Rightarrow> bytes" where
  "index_entry seg offset len scope_hash h =
     le_bytes 4 (ps_segment_id seg) @ le_bytes 2 (tag_as_u16 (ps_backend_tag seg)) @ replicate 2 0 @
     le_bytes 8 offset @ le_bytes 8 len @ scope_hash @ h @ replicate 8 0"

text \<open>The index and the offset behind the last payload.\<close>

fun build_index ::
  "hash_fn \<Rightarrow> bytes \<Rightarrow> pending_segment list \<Rightarrow> u64 \<Rightarrow> (aos_error, bytes \<times> u64) result" where
  "build_index H scope [] current = Ok ([], current)"
| "build_index H scope (seg # segs) current =
     (let len = of_nat (length (ps_payload seg));
          actual = b3_hash H (ps_payload seg) in
      case checked_add current len of
        None \<Rightarrow> Err (EValidation ''Segment offsets overflow'')
      | Some next \<Rightarrow>
          if actual \<noteq> ps_weights_hash seg then
            Err (EValidation (''Corrupted / needs retrain: segment '' @
              show_nat (unat (ps_segment_id seg)) @ '' hash mismatch before write''))
          else if ps_scope_hash seg \<noteq> replicate 16 0 \<and> ps_scope_hash seg \<noteq> scope then
            Err (EValidation (''Corrupted / needs retrain: segment scope hash does not match '' @
              ''manifest scope_path''))
          else
            (case build_index H scope segs next of
               Err e \<Rightarrow> Err e
             | Ok (rest, end) \<Rightarrow> Ok (index_entry seg current len scope actual @ rest, end)))"

definition header_bytes :: "u64 \<Rightarrow> u64 \<Rightarrow> u64 \<Rightarrow> u64 \<Rightarrow> bytes" where
  "header_bytes index_offset index_size manifest_offset manifest_size =
     aos_magic @ le_bytes 4 has_index_flag @ le_bytes 8 index_offset @ le_bytes 8 index_size @
     le_bytes 8 manifest_offset @ le_bytes 8 manifest_size @ replicate 24 0"

definition write_archive ::
  "hash_fn \<Rightarrow> (json \<Rightarrow> bytes) \<Rightarrow> (u64 \<Rightarrow> (aos_error, unit) result) \<Rightarrow> json \<Rightarrow> aos_writer \<Rightarrow>
   (aos_error, u64 \<times> bytes) result" where
  "write_archive H to_vec_pretty check_disk_space manifest w =
     (let segs = aw_segments w in
      if segs = [] then Err (EValidation ''Cannot write .aos archive without segments'')
      else if \<not> list_ex (\<lambda>s. ps_backend_tag s = Canonical) segs then
        Err (EValidation ''Cannot write .aos archive without canonical segment'')
      else
        (case manifest_scope_path manifest of
           None \<Rightarrow> Err (EValidation (''Corrupted / needs retrain: missing scope_path in '' @
                      ''manifest metadata''))
         | Some scope_path \<Rightarrow>
             (let scope = compute_scope_hash H scope_path;
                  manifest_json = to_vec_pretty manifest;
                  total_payload = sum_list (map (\<lambda>s. of_nat (length (ps_payload s))) segs);
                  index_offset = of_nat header_size;
                  index_size = of_nat (length segs) * of_nat index_entry_size;
                  manifest_size = of_nat (length manifest_json);
                  estimated = of_nat header_size + index_size + total_payload + manifest_size in
              case check_disk_space estimated of
                Err e \<Rightarrow> Err e
              | Ok _ \<Rightarrow>
                  (case build_index H scope segs (index_offset + index_size) of
                     Err e \<Rightarrow> Err e
                   | Ok (index_bytes, manifest_offset) \<Rightarrow>
                       Ok (manifest_offset + manifest_size,
                           header_bytes index_offset index_size manifest_offset manifest_size @
                           index_bytes @ concat (map ps_payload segs) @ manifest_json)))))"

section \<open>Reading\<close>

definition parse_header_bytes :: "bytes \<Rightarrow> (aos_error, aos_header) result" where
  "parse_header_bytes bs =
     (let index_offset = from_le_bytes (field 8 16 bs) in
      if length bs < header_size then
        Err (EValidation ''Corrupted / needs retrain: file too small for AOS header'')
      else if field 0 4 bs \<noteq> aos_magic \<and> field 0 4 bs \<noteq> aos_magic_v2 then
        Err (EValidation ''Corrupted / needs retrain: invalid AOS magic'')
      else if index_offset \<noteq> of_nat header_size then
        Err (EValidation ''Corrupted / needs retrain: invalid header layout (index offset)'')
      else if list_ex (\<lambda>b. b \<noteq> 0) (field 40 header_size bs) then
        Err (EValidation ''Corrupted / needs retrain: reserved header bytes non-zero'')
      else
        Ok \<lparr>ah_flags = from_le_bytes (field 4 8 bs), ah_index_offset = index_offset,
            ah_index_size = from_le_bytes (field 16 24 bs),
            ah_manifest_offset = from_le_bytes (field 24 32 bs),
            ah_manifest_size = from_le_bytes (field 32 40 bs)\<rparr>)"

definition parse_entry ::
  "hash_fn \<Rightarrow> bytes \<Rightarrow> u64 \<Rightarrow> u64 \<Rightarrow> bytes \<Rightarrow> (aos_error, segment_descriptor) result" where
  "parse_entry H bs index_end manifest_offset entry =
     (let segment_id = from_le_bytes (field 0 4 entry);
          offset = from_le_bytes (field 8 16 entry);
          len = from_le_bytes (field 16 24 entry);
          weights_hash = field 40 72 entry in
      case tag_try_from (from_le_bytes (field 4 6 entry)) of
        Err e \<Rightarrow> Err e
      | Ok tag \<Rightarrow>
          (case checked_add offset len of
             None \<Rightarrow> Err (EValidation ''Corrupted / needs retrain: segment overflow'')
           | Some payload_end \<Rightarrow>
               if offset < index_end then
                 Err (EValidation ''Corrupted / needs retrain: segment overlaps index'')
               else if payload_end > manifest_offset then
                 Err (EValidation ''Corrupted / needs retrain: segment overlaps manifest'')
               else if unat payload_end > length bs then
                 Err (EValidation ''Corrupted / needs retrain: segment beyond file'')
               else if b3_hash H (field (unat offset) (unat payload_end) bs) \<noteq> weights_hash then
                 Err (EValidation (''Corrupted / needs retrain: segment '' @
                   show_nat (unat segment_id) @ '' hash mismatch''))
               else
                 Ok \<lparr>sd_segment_id = segment_id, sd_backend_tag = tag,
                     sd_scope_hash = field 24 40 entry, sd_weights_hash = weights_hash,
                     sd_offset = offset, sd_len = len\<rparr>))"

fun parse_entries ::
  "hash_fn \<Rightarrow> bytes \<Rightarrow> u64 \<Rightarrow> u64 \<Rightarrow> bytes \<Rightarrow> nat \<Rightarrow> nat \<Rightarrow>
   (aos_error, segment_descriptor list) result" where
  "parse_entries H bs index_end manifest_offset index_bytes i 0 = Ok []"
| "parse_entries H bs index_end manifest_offset index_bytes i (Suc n) =
     (case parse_entry H bs index_end manifest_offset
             (field (i * index_entry_size) (i * index_entry_size + index_entry_size) index_bytes) of
        Err e \<Rightarrow> Err e
      | Ok d \<Rightarrow>
          (case parse_entries H bs index_end manifest_offset index_bytes (i + 1) n of
             Err e \<Rightarrow> Err e | Ok ds \<Rightarrow> Ok (d # ds)))"

definition parse_segments ::
  "hash_fn \<Rightarrow> bytes \<Rightarrow> aos_header \<Rightarrow> (aos_error, segment_descriptor list) result" where
  "parse_segments H bs hdr =
     (let index_offset = ah_index_offset hdr; index_size = ah_index_size hdr;
          manifest_offset = ah_manifest_offset hdr in
      if and (ah_flags hdr) has_index_flag = 0 then
        Err (EValidation ''Corrupted / needs retrain: missing segment index'')
      else if index_offset < of_nat header_size then
        Err (EValidation ''Corrupted / needs retrain: index overlaps header'')
      else
        (case checked_add index_offset index_size of
           None \<Rightarrow> Err (EValidation ''Corrupted / needs retrain: index overflow'')
         | Some index_end \<Rightarrow>
             if unat index_end > length bs then
               Err (EValidation ''Corrupted / needs retrain: index beyond file'')
             else if unat index_size mod index_entry_size \<noteq> 0 then
               Err (EValidation ''Corrupted / needs retrain: index size not 80-byte aligned'')
             else
               (case checked_add manifest_offset (ah_manifest_size hdr) of
                  None \<Rightarrow> Err (EValidation ''Corrupted / needs retrain: manifest overflow'')
                | Some manifest_end \<Rightarrow>
                    if unat manifest_end > length bs then
                      Err (EValidation ''Corrupted / needs retrain: manifest beyond file'')
                    else if manifest_offset < index_end then
                      Err (EValidation ''Corrupted / needs retrain: manifest overlaps index/segments'')
                    else
                      parse_entries H bs index_end manifest_offset
                        (field (unat index_offset) (unat index_end) bs) 0
                        (unat index_size div index_entry_size))))"

text \<open>Slicing the payloads and the manifest; \<open>None\<close> is the panic of a slice out of range.\<close>

fun view_segments :: "bytes \<Rightarrow> segment_descriptor list \<Rightarrow> segment_view list option" where
  "view_segments bs [] = Some []"
| "view_segments bs (d # ds) =
     (case slice (unat (sd_offset d)) (unat (sd_offset d + sd_len d)) bs of
        None \<Rightarrow> None
      | Some payload \<Rightarrow>
          map_option ((#) \<lparr>sv_segment_id = sd_segment_id d, sv_backend_tag = sd_backend_tag d,
                      sv_scope_hash = sd_scope_hash d,
                      sv_payload = (unat (sd_offset d), payload)\<rparr>) (view_segments bs ds))"

definition open_aos :: "hash_fn \<Rightarrow> bytes \<Rightarrow> (aos_error, aos_file_view) result option" where
  "open_aos H bs =
     (case parse_header_bytes bs of
        Err e \<Rightarrow> Some (Err e)
      | Ok hdr \<Rightarrow>
          (case parse_segments H bs hdr of
             Err e \<Rightarrow> Some (Err e)
           | Ok ds \<Rightarrow>
               (case view_segments bs ds of
                  None \<Rightarrow> None
                | Some segs \<Rightarrow>
                    (let manifest_start = unat (ah_manifest_offset hdr) in
                     case slice manifest_start (unat (ah_manifest_offset hdr + ah_manifest_size hdr)) bs of
                       None \<Rightarrow> None
                     | Some m \<Rightarrow> Some (Ok \<lparr>av_manifest_bytes = (manifest_start, m), av_segments = segs\<rparr>)))))"

definition select_segment ::
  "segment_descriptor list \<Rightarrow> bytes \<Rightarrow> backend_tag option \<Rightarrow> segment_descriptor option" where
  "select_segment segs scope_hash preferred_backend =
     (let scoped = filter (\<lambda>s. sd_scope_hash s = scope_hash) segs;
          canonical = (\<lambda>s. sd_backend_tag s = Canonical);
          preferred = Option.bind preferred_backend (\<lambda>t. find (\<lambda>s. sd_backend_tag s = t) scoped);
          first = (case segs of [] \<Rightarrow> None | s # _ \<Rightarrow> Some s) in
      case preferred of Some s \<Rightarrow> Some s
      | None \<Rightarrow> (case find canonical scoped of Some s \<Rightarrow> Some s
        | None \<Rightarrow> (case find canonical segs of Some s \<Rightarrow> Some s | None \<Rightarrow> first)))"

section \<open>Opening is safe\<close>

definition descriptor_ok :: "hash_fn \<Rightarrow> bytes \<Rightarrow> nat \<Rightarrow> nat \<Rightarrow> segment_descriptor \<Rightarrow> bool" where
  "descriptor_ok H bs index_end manifest_offset d \<longleftrightarrow>
     (let start = unat (sd_offset d); stop = unat (sd_offset d + sd_len d) in
      index_end \<le> start \<and> start \<le> stop \<and> stop \<le> manifest_offset \<and> stop \<le> length bs \<and>
      b3_hash H (field start stop bs) = sd_weights_hash d)"

lemma checked_add_eq: "checked_add a b = Some c \<Longrightarrow> c = a + b"
  by (simp add: checked_add_def split: if_splits)

lemma parse_entry_ok:
  assumes "parse_entry H bs ie mo entry = Ok d"
  shows "descriptor_ok H bs (unat ie) (unat mo) d"
proof -
  let ?o = "from_le_bytes (field 8 16 entry) :: u64" and ?n = "from_le_bytes (field 16 24 entry) :: u64"
  obtain e where e: "checked_add ?o ?n = Some e" "\<not> ?o < ie" "\<not> e > mo" "\<not> unat e > length bs"
    "b3_hash H (field (unat ?o) (unat e) bs) = field 40 72 entry"
    "sd_offset d = ?o" "sd_len d = ?n" "sd_weights_hash d = field 40 72 entry"
    using assms by (auto simp: parse_entry_def Let_def split: sum.splits option.splits if_splits)
  have "e = ?o + ?n" "unat e = unat ?o + unat ?n"
    using e(1) checked_add_eq checked_add_Some by blast+
  with e show ?thesis
    by (simp add: descriptor_ok_def Let_def word_less_nat_alt)
qed

lemma parse_entries_ok:
  "parse_entries H bs ie mo ib i n = Ok ds \<Longrightarrow> list_all (descriptor_ok H bs (unat ie) (unat mo)) ds"
proof (induction n arbitrary: i ds)
  case (Suc n)
  then show ?case by (force dest!: parse_entry_ok split: sum.splits)
qed simp

lemma parse_segments_ok:
  assumes "parse_segments H bs hdr = Ok ds"
  shows "\<exists>ie. header_size \<le> ie \<and> list_all (descriptor_ok H bs ie (unat (ah_manifest_offset hdr))) ds"
    "unat (ah_manifest_offset hdr) \<le> unat (ah_manifest_offset hdr + ah_manifest_size hdr)"
    "unat (ah_manifest_offset hdr + ah_manifest_size hdr) \<le> length bs"
proof -
  obtain ie me where c: "checked_add (ah_index_offset hdr) (ah_index_size hdr) = Some ie"
    "checked_add (ah_manifest_offset hdr) (ah_manifest_size hdr) = Some me" "unat me \<le> length bs"
    "ah_index_offset hdr \<ge> of_nat header_size"
    "parse_entries H bs ie (ah_manifest_offset hdr) (field (unat (ah_index_offset hdr)) (unat ie) bs) 0
       (unat (ah_index_size hdr) div index_entry_size) = Ok ds"
    using assms by (auto simp: parse_segments_def Let_def not_less split: if_splits option.splits)
  have "header_size \<le> unat ie"
    using c(1,4) by (simp add: checked_add_Some word_le_nat_alt header_size_def)
  with parse_entries_ok [OF c(5)]
  show "\<exists>ie. header_size \<le> ie \<and> list_all (descriptor_ok H bs ie (unat (ah_manifest_offset hdr))) ds" by blast
  show "unat (ah_manifest_offset hdr) \<le> unat (ah_manifest_offset hdr + ah_manifest_size hdr)"
    "unat (ah_manifest_offset hdr + ah_manifest_size hdr) \<le> length bs"
    using c(2,3) checked_add_eq [OF c(2)] by (simp_all add: checked_add_Some)
qed

definition view_of :: "bytes \<Rightarrow> segment_descriptor \<Rightarrow> segment_view" where
  "view_of bs d = \<lparr>sv_segment_id = sd_segment_id d, sv_backend_tag = sd_backend_tag d,
     sv_scope_hash = sd_scope_hash d,
     sv_payload = (unat (sd_offset d), field (unat (sd_offset d)) (unat (sd_offset d + sd_len d)) bs)\<rparr>"

lemma view_segments_ok:
  "list_all (descriptor_ok H bs ie mo) ds \<Longrightarrow> view_segments bs ds = Some (map (view_of bs) ds)"
  by (induction ds) (auto simp: slice_def descriptor_ok_def Let_def view_of_def)

lemma open_aos_eq:
  assumes "parse_header_bytes bs = Ok hdr" "parse_segments H bs hdr = Ok ds"
  shows "open_aos H bs = Some (Ok
    \<lparr>av_manifest_bytes = (unat (ah_manifest_offset hdr),
       field (unat (ah_manifest_offset hdr)) (unat (ah_manifest_offset hdr + ah_manifest_size hdr)) bs),
     av_segments = map (view_of bs) ds\<rparr>)"
  using parse_segments_ok [OF assms(2)] view_segments_ok assms
  by (auto simp: open_aos_def slice_def Let_def)

lemma open_aos_total: "\<exists>r. open_aos H bs = Some r"
proof (cases "parse_header_bytes bs")
  case (Inr hdr)
  with open_aos_eq [OF Inr] show ?thesis by (cases "parse_segments H bs hdr") (auto simp: open_aos_def)
qed (simp add: open_aos_def)

lemma open_aos_Ok:
  assumes "open_aos H bs = Some (Ok v)"
  obtains hdr ds where "parse_header_bytes bs = Ok hdr" "parse_segments H bs hdr = Ok ds"
    "av_segments v = map (view_of bs) ds"
    "av_manifest_bytes v = (unat (ah_manifest_offset hdr),
       field (unat (ah_manifest_offset hdr)) (unat (ah_manifest_offset hdr + ah_manifest_size hdr)) bs)"
proof (cases "parse_header_bytes bs")
  case (Inr hdr)
  then show ?thesis
  proof (cases "parse_segments H bs hdr")
    case ds: (Inr ds)
    with open_aos_eq [OF Inr ds] assms show ?thesis by (intro that [OF Inr ds]) auto
  qed (use assms in \<open>simp add: open_aos_def\<close>)
qed (use assms in \<open>simp add: open_aos_def\<close>)

text \<open>Where the slices of an opened archive lie.\<close>

lemma opened_slices:
  assumes "open_aos H bs = Some (Ok v)"
  shows "fst (av_manifest_bytes v) + length (snd (av_manifest_bytes v)) \<le> length bs"
    "snd (av_manifest_bytes v) = field (fst (av_manifest_bytes v))
       (fst (av_manifest_bytes v) + length (snd (av_manifest_bytes v))) bs"
    "s \<in> set (av_segments v) \<Longrightarrow> sv_payload s = (start, p) \<Longrightarrow>
       header_size \<le> start \<and> start + length p \<le> fst (av_manifest_bytes v) \<and>
       p = field start (start + length p) bs"
proof -
  obtain hdr ds where o: "parse_segments H bs hdr = Ok ds" "av_segments v = map (view_of bs) ds"
    "av_manifest_bytes v = (unat (ah_manifest_offset hdr),
       field (unat (ah_manifest_offset hdr)) (unat (ah_manifest_offset hdr + ah_manifest_size hdr)) bs)"
    using open_aos_Ok [OF assms] by metis
  note m = parse_segments_ok(2,3) [OF o(1)]
  show "fst (av_manifest_bytes v) + length (snd (av_manifest_bytes v)) \<le> length bs"
    "snd (av_manifest_bytes v) = field (fst (av_manifest_bytes v))
       (fst (av_manifest_bytes v) + length (snd (av_manifest_bytes v))) bs"
    using field_span [OF m] m o(3) by (simp_all del: length_field)
  obtain ie where ie: "header_size \<le> ie" "list_all (descriptor_ok H bs ie (unat (ah_manifest_offset hdr))) ds"
    using parse_segments_ok(1) [OF o(1)] by blast
  assume s: "s \<in> set (av_segments v)" "sv_payload s = (start, p)"
  then obtain d where d: "d \<in> set ds" "s = view_of bs d" using o(2) by auto
  then have ok: "header_size \<le> unat (sd_offset d)" "unat (sd_offset d) \<le> unat (sd_offset d + sd_len d)"
    "unat (sd_offset d + sd_len d) \<le> unat (ah_manifest_offset hdr)" "unat (sd_offset d + sd_len d) \<le> length bs"
    using ie by (auto simp: list_all_iff descriptor_ok_def Let_def)
  have "start = unat (sd_offset d)" "p = field (unat (sd_offset d)) (unat (sd_offset d + sd_len d)) bs"
    using s(2) d(2) by (auto simp: view_of_def)
  with ok field_span [OF ok(2,4)] o(3)
  show "header_size \<le> start \<and> start + length p \<le> fst (av_manifest_bytes v) \<and>
      p = field start (start + length p) bs" by (simp del: length_field)
qed

text \<open>
  Opening an archive is safe: whatever the bytes, it never slices out of range, and a view that is
  returned has every payload between the index and the manifest and inside the file, with the
  hash that the index records for it.
\<close>

theorem opened_archive_sound:
  "\<exists>r. open_aos H bs = Some r \<and>
    (case r of Err _ \<Rightarrow> True
     | Ok v \<Rightarrow> \<exists>hdr ds. parse_header_bytes bs = Ok hdr \<and> parse_segments H bs hdr = Ok ds \<and>
         fst (av_manifest_bytes v) + length (snd (av_manifest_bytes v)) \<le> length bs \<and>
         list_all2 (\<lambda>d s. sv_segment_id s = sd_segment_id d \<and> sv_backend_tag s = sd_backend_tag d \<and>
             b3_hash H (snd (sv_payload s)) = sd_weights_hash d) ds (av_segments v) \<and>
         list_all (\<lambda>s. case sv_payload s of (start, p) \<Rightarrow>
             header_size \<le> start \<and> start + length p \<le> fst (av_manifest_bytes v) \<and>
             p = field start (start + length p) bs) (av_segments v))"
proof -
  obtain r where r: "open_aos H bs = Some r" using open_aos_total by blast
  show ?thesis
  proof (cases r)
    case (Inr v)
    obtain hdr ds where o: "parse_header_bytes bs = Ok hdr" "parse_segments H bs hdr = Ok ds"
      "av_segments v = map (view_of bs) ds"
      using open_aos_Ok [of H bs v] r Inr by metis
    have "b3_hash H (snd (sv_payload (view_of bs d))) = sd_weights_hash d" if "d \<in> set ds" for d
      using parse_segments_ok(1) [OF o(2)] that by (auto simp: list_all_iff descriptor_ok_def Let_def view_of_def)
    then have "list_all2 (\<lambda>d s. sv_segment_id s = sd_segment_id d \<and> sv_backend_tag s = sd_backend_tag d \<and>
             b3_hash H (snd (sv_payload s)) = sd_weights_hash d) ds (av_segments v)"
      by (simp add: o(3) list_all2_map2 list_all2_same) (simp add: view_of_def)
    then show ?thesis
      using r Inr o opened_slices(1,3) [of H bs v] by (auto simp: list_all_iff)
  qed (use r in simp)
qed

section \<open>Reading back what was written\<close>

lemma index_entry_fields:
  fixes seg :: pending_segment and offset len :: u64
  assumes "length scope = 16" "length h = 32"
  defines "e \<equiv> index_entry seg offset len scope h"
  shows "length e = index_entry_size" "from_le_bytes (field 0 4 e) = ps_segment_id seg"
    "from_le_bytes (field 4 6 e) = tag_as_u16 (ps_backend_tag seg)" "from_le_bytes (field 8 16 e) = offset"
    "from_le_bytes (field 16 24 e) = len" "field 24 40 e = scope" "field 40 72 e = h"
  using assms(1,2)
  by (simp_all add: e_def index_entry_def index_entry_size_def field_append le_bytes_roundtrip)

lemma header_fields:
  fixes io sz mo ms :: u64 and rest :: bytes
  defines "h \<equiv> header_bytes io sz mo ms"
  shows "length h = header_size" "field 0 4 (h @ rest) = aos_magic"
    "from_le_bytes (field 4 8 (h @ rest)) = has_index_flag" "from_le_bytes (field 8 16 (h @ rest)) = io"
    "from_le_bytes (field 16 24 (h @ rest)) = sz" "from_le_bytes (field 24 32 (h @ rest)) = mo"
    "from_le_bytes (field 32 40 (h @ rest)) = ms" "field 40 header_size (h @ rest) = replicate 24 0"
  by (simp_all add: h_def header_bytes_def header_size_def field_append le_bytes_roundtrip)

lemma parse_header_written:
  "parse_header_bytes (header_bytes (of_nat header_size) sz mo ms @ rest) =
     Ok \<lparr>ah_flags = has_index_flag, ah_index_offset = of_nat header_size, ah_index_size = sz,
         ah_manifest_offset = mo, ah_manifest_size = ms\<rparr>"
  using header_fields(2-8) [of "of_nat header_size" sz mo ms rest] header_fields(1)
  by (simp add: parse_header_bytes_def Let_def list_ex_iff)

lemma field_split:
  assumes "field a b bs = p @ q" "b = a + length p + length q"
  shows "field a (a + length p) bs = p" "field (a + length p) b bs = q"
proof -
  have "field a (a + length p) bs = take (length p) (field a b bs)"
    using assms(2) by (simp add: field_def min_def)
  then show "field a (a + length p) bs = p" by (simp add: assms(1))
  have "field (a + length p) b bs = drop (length p) (field a b bs)"
    using assms(2) by (simp add: field_def drop_take add.commute)
  then show "field (a + length p) b bs = q" by (simp add: assms(1))
qed

text \<open>The descriptors that an index describes.\<close>

fun placed :: "hash_fn \<Rightarrow> bytes \<Rightarrow> pending_segment list \<Rightarrow> u64 \<Rightarrow> segment_descriptor list" where
  "placed H scope [] current = []"
| "placed H scope (seg # segs) current =
     \<lparr>sd_segment_id = ps_segment_id seg, sd_backend_tag = ps_backend_tag seg, sd_scope_hash = scope,
      sd_weights_hash = b3_hash H (ps_payload seg), sd_offset = current,
      sd_len = of_nat (length (ps_payload seg))\<rparr> #
     placed H scope segs (current + of_nat (length (ps_payload seg)))"

definition payload_size :: "pending_segment list \<Rightarrow> nat" where
  "payload_size segs = sum_list (map (\<lambda>s. length (ps_payload s)) segs)"

lemma payload_size_simps [simp]:
  "payload_size [] = 0" "payload_size (s # segs) = length (ps_payload s) + payload_size segs"
  by (simp_all add: payload_size_def)

lemma length_payloads: "length (concat (map ps_payload segs)) = payload_size segs"
  by (induction segs) simp_all

lemma build_index_Cons:
  assumes "build_index H scope (seg # segs) cur = Ok (ib, stop)"
  obtains rest where "checked_add cur (of_nat (length (ps_payload seg))) = Some (cur + of_nat (length (ps_payload seg)))"
    "build_index H scope segs (cur + of_nat (length (ps_payload seg))) = Ok (rest, stop)"
    "ib = index_entry seg cur (of_nat (length (ps_payload seg))) scope (b3_hash H (ps_payload seg)) @ rest"
  using assms
  by (auto simp: Let_def checked_add_def split: option.splits if_splits sum.splits prod.splits)

lemma build_index_end:
  assumes "build_index H scope segs cur = Ok (ib, stop)" "payload_size segs < 2 ^ 64"
    and "length scope = 16" "\<And>x. length (H x) = 32"
  shows "unat stop = unat cur + payload_size segs \<and> length ib = length segs * index_entry_size"
  using assms(1,2)
proof (induction segs arbitrary: cur ib)
  case (Cons seg segs)
  from build_index_Cons [OF Cons.prems(1)] obtain rest where
    r: "checked_add cur (of_nat (length (ps_payload seg))) = Some (cur + of_nat (length (ps_payload seg)))"
      "build_index H scope segs (cur + of_nat (length (ps_payload seg))) = Ok (rest, stop)"
      "ib = index_entry seg cur (of_nat (length (ps_payload seg))) scope (b3_hash H (ps_payload seg)) @ rest" by blast
  have "unat (of_nat (length (ps_payload seg)) :: u64) = length (ps_payload seg)"
    using Cons.prems(2) by (simp add: unat_of_nat)
  then have "unat (cur + of_nat (length (ps_payload seg))) = unat cur + length (ps_payload seg)"
    using r(1) by (simp add: checked_add_Some)
  with Cons.IH [OF r(2)] Cons.prems(2) r(3) show ?case
    using index_entry_fields(1) [OF assms(3), of "b3_hash H (ps_payload seg)"] assms(4)
    by (simp add: b3_hash_def)
qed simp

lemma parse_built_entry:
  assumes "unat (cur + of_nat (length p)) = unat cur + length p" "unat (of_nat (length p) :: u64) = length p"
    and "p = ps_payload seg" "field (unat cur) (unat cur + length p) bs = p"
    and "ie \<le> cur" "unat cur + length p \<le> unat mo" "unat mo \<le> length bs"
    and "length scope = 16" "\<And>x. length (H x) = 32"
  shows "parse_entry H bs ie mo (index_entry seg cur (of_nat (length p)) scope (b3_hash H p)) =
    Ok \<lparr>sd_segment_id = ps_segment_id seg, sd_backend_tag = ps_backend_tag seg, sd_scope_hash = scope,
        sd_weights_hash = b3_hash H p, sd_offset = cur, sd_len = of_nat (length p)\<rparr>"
proof -
  have "length (b3_hash H p) = 32" using assms(9) by (simp add: b3_hash_def)
  note f = index_entry_fields [OF assms(8) this, of seg cur "of_nat (length p)"]
  have c: "checked_add cur (of_nat (length p)) = Some (cur + of_nat (length p))"
    using assms(1,2) by (simp add: checked_add_Some)
  have "\<not> cur < ie" "\<not> cur + of_nat (length p) > mo" "\<not> unat (cur + of_nat (length p)) > length bs"
    using assms(1,5-7) by (simp_all add: word_le_nat_alt word_less_nat_alt)
  then show ?thesis using f c assms(1,4) by (simp add: parse_entry_def Let_def)
qed

lemma parse_built:
  assumes "build_index H scope segs cur = Ok (ib, stop)" "payload_size segs < 2 ^ 64"
    and "length scope = 16" "\<And>x. length (H x) = 32"
    and "ie \<le> cur" "unat stop \<le> unat mo" "unat mo \<le> length bs"
    and "field (unat cur) (unat stop) bs = concat (map ps_payload segs)"
    and "length pre = i * index_entry_size"
  shows "parse_entries H bs ie mo (pre @ ib @ post) i (length segs) = Ok (placed H scope segs cur) \<and>
    map (\<lambda>d. (sd_segment_id d, sd_backend_tag d, sd_scope_hash d, snd (sv_payload (view_of bs d)))) (placed H scope segs cur) =
    map (\<lambda>s. (ps_segment_id s, ps_backend_tag s, scope, ps_payload s)) segs"
  using assms(1,2,5,8,9)
proof (induction segs arbitrary: cur ib pre i)
  case (Cons seg segs)
  let ?p = "ps_payload seg" and ?n = "of_nat (length (ps_payload seg)) :: u64"
  from build_index_Cons [OF Cons.prems(1)] obtain rest where
    r: "checked_add cur ?n = Some (cur + ?n)" "build_index H scope segs (cur + ?n) = Ok (rest, stop)"
      "ib = index_entry seg cur ?n scope (b3_hash H ?p) @ rest" by blast
  have n: "unat ?n = length ?p" using Cons.prems(2) by (simp add: unat_of_nat)
  then have next_off: "unat (cur + ?n) = unat cur + length ?p" using r(1) by (simp add: checked_add_Some)
  have stop: "unat stop = unat (cur + ?n) + payload_size segs"
    using build_index_end [OF r(2) _ assms(3,4)] Cons.prems(2) by simp
  have split: "field (unat cur) (unat cur + length ?p) bs = ?p"
    "field (unat (cur + ?n)) (unat stop) bs = concat (map ps_payload segs)"
    using field_split [of "unat cur" "unat stop" bs ?p "concat (map ps_payload segs)"] Cons.prems(4) stop next_off
    by (simp_all add: length_payloads)
  let ?e = "index_entry seg cur ?n scope (b3_hash H ?p)"
  have e: "length ?e = index_entry_size"
    using index_entry_fields(1) [OF assms(3)] assms(4) by (simp add: b3_hash_def)
  have "field (i * index_entry_size) (i * index_entry_size + index_entry_size) (pre @ ib @ post) = ?e"
    using field_in [of pre "i * index_entry_size" _ ?e "rest @ post"] Cons.prems(5) e r(3) by simp
  moreover have "parse_entry H bs ie mo ?e = Ok (hd (placed H scope (seg # segs) cur))"
    using parse_built_entry [OF next_off n refl split(1) Cons.prems(3) _ assms(7,3)] stop next_off assms(4,6) by simp
  moreover have "parse_entries H bs ie mo ((pre @ ?e) @ rest @ post) (i + 1) (length segs) = Ok (placed H scope segs (cur + ?n)) \<and>
    map (\<lambda>d. (sd_segment_id d, sd_backend_tag d, sd_scope_hash d, snd (sv_payload (view_of bs d)))) (placed H scope segs (cur + ?n)) =
    map (\<lambda>s. (ps_segment_id s, ps_backend_tag s, scope, ps_payload s)) segs"
    using Cons.prems(2,3,5) next_off e split(2) word_le_nat_alt [of ie cur]
    by (intro Cons.IH [OF r(2)]) (simp_all add: word_le_nat_alt)
  ultimately show ?case using r(3) split(1) next_off by (simp add: view_of_def)
qed simp

lemma write_archive_ok:
  assumes "write_archive H to_vec_pretty check_disk manifest w = Ok (written, bs)"
  obtains scope ib mo where "manifest_scope_path manifest = Some scope"
    "build_index H (compute_scope_hash H scope) (aw_segments w)
       (of_nat header_size + of_nat (length (aw_segments w)) * of_nat index_entry_size) = Ok (ib, mo)"
    "written = mo + of_nat (length (to_vec_pretty manifest))"
    "bs = header_bytes (of_nat header_size) (of_nat (length (aw_segments w)) * of_nat index_entry_size)
            mo (of_nat (length (to_vec_pretty manifest))) @
          ib @ concat (map ps_payload (aw_segments w)) @ to_vec_pretty manifest"
  using assms
  by (auto simp: write_archive_def Let_def split: if_splits option.splits sum.splits prod.splits)

text \<open>
  (C15) An archive reads back as it was written: opening the bytes of a written archive gives the
  segments in order with their numbers, tags and payloads, all under the scope hash of the
  manifest, and the printed manifest; the reported size is the size of the file.
\<close>

theorem archive_roundtrip:
  assumes "write_archive H to_vec_pretty check_disk manifest w = Ok (written, bs)"
    and "\<And>x. length (H x) = 32"
    and "64 + 80 * length (aw_segments w) + payload_size (aw_segments w) + length (to_vec_pretty manifest) < 2 ^ 64"
  shows "unat written = length bs \<and>
    (\<exists>scope view. manifest_scope_path manifest = Some scope \<and> open_aos H bs = Some (Ok view) \<and>
       map (\<lambda>v. (sv_segment_id v, sv_backend_tag v, sv_scope_hash v, snd (sv_payload v))) (av_segments view) =
         map (\<lambda>s. (ps_segment_id s, ps_backend_tag s, compute_scope_hash H scope, ps_payload s)) (aw_segments w) \<and>
       snd (av_manifest_bytes view) = to_vec_pretty manifest)"
proof -
  let ?segs = "aw_segments w" and ?m = "to_vec_pretty manifest"
  let ?sz = "of_nat (length ?segs) * of_nat index_entry_size :: u64" and ?ms = "of_nat (length ?m) :: u64"
  obtain scope ib mo where wr: "manifest_scope_path manifest = Some scope"
    "build_index H (compute_scope_hash H scope) ?segs (of_nat header_size + ?sz) = Ok (ib, mo)"
    "written = mo + ?ms"
    "bs = header_bytes (of_nat header_size) ?sz mo ?ms @ ib @ concat (map ps_payload ?segs) @ ?m"
    using write_archive_ok [OF assms(1)] by blast
  let ?scope = "compute_scope_hash H scope" and ?cur = "of_nat header_size + ?sz"
  have scope: "length ?scope = 16" using assms(2) by (simp add: compute_scope_hash_def b3_hash_def)
  have "?sz = of_nat (80 * length ?segs)" by (simp add: index_entry_size_def)
  then have sz: "unat ?sz = 80 * length ?segs" using assms(3) by (simp only: unat_of_nat) simp
  have "?cur = of_nat (64 + 80 * length ?segs)" by (simp add: index_entry_size_def header_size_def)
  then have cur: "unat ?cur = 64 + 80 * length ?segs" using assms(3) by (simp only: unat_of_nat) simp
  have ms: "unat ?ms = length ?m" using assms(3) by (simp add: unat_of_nat)
  have small: "payload_size ?segs < 2 ^ 64" using assms(3) by simp
  note e = build_index_end [OF wr(2) small scope assms(2)]
  have ib: "length ib = 80 * length ?segs" and mo: "unat mo = 64 + 80 * length ?segs + payload_size ?segs"
    using e cur by (simp_all add: index_entry_size_def)
  have hdr: "length (header_bytes a b c d) = 64" for a b c d
    using header_fields(1) by (simp add: header_size_def)
  have len: "length bs = unat mo + length ?m" by (simp add: wr(4) hdr ib mo length_payloads header_size_def)
  have total: "unat (mo + ?ms) = length bs"
    using assms(3) len mo ms by (simp add: unat_word_ariths)
  let ?hdr = "header_bytes (of_nat header_size) ?sz mo ?ms"
  have pay: "field (unat ?cur) (unat mo) bs = concat (map ps_payload ?segs)"
    using field_in [of "?hdr @ ib" "unat ?cur" "unat mo" "concat (map ps_payload ?segs)" ?m] hdr ib cur mo
    by (simp add: wr(4) length_payloads header_size_def)
  have idx: "field (unat (of_nat header_size :: u64)) (unat ?cur) bs = ib"
    using field_in [of ?hdr header_size "unat ?cur" ib "concat (map ps_payload ?segs) @ ?m"] hdr ib cur
    by (simp add: wr(4) header_size_def)
  have man: "field (unat mo) (unat (mo + ?ms)) bs = ?m"
    using field_in [of "?hdr @ ib @ concat (map ps_payload ?segs)" "unat mo" "unat (mo + ?ms)" ?m "[]"] hdr ib mo len total
    by (simp add: wr(4) length_payloads header_size_def)
  have header: "parse_header_bytes bs = Ok \<lparr>ah_flags = has_index_flag, ah_index_offset = of_nat header_size,
      ah_index_size = ?sz, ah_manifest_offset = mo, ah_manifest_size = ?ms\<rparr>"
    unfolding wr(4) by (rule parse_header_written)
  note built = parse_built [OF wr(2) small scope assms(2), of ?cur mo bs "[]" 0 "[]", simplified]
  have "parse_segments H bs \<lparr>ah_flags = has_index_flag, ah_index_offset = of_nat header_size,
      ah_index_size = ?sz, ah_manifest_offset = mo, ah_manifest_size = ?ms\<rparr> = Ok (placed H ?scope ?segs ?cur)"
  proof -
    have "checked_add (of_nat header_size) ?sz = Some ?cur" "checked_add mo ?ms = Some (mo + ?ms)"
      using cur sz total len ms by (simp_all add: checked_add_Some header_size_def)
    moreover have "\<not> mo < ?cur" using cur mo by (simp add: word_less_nat_alt)
    ultimately show ?thesis
      using built pay len mo cur total sz idx
      by (simp add: parse_segments_def Let_def has_index_flag_def index_entry_size_def)
  qed
  from open_aos_eq [OF header this] built pay len mo cur man total wr(1,3) show ?thesis
    by (simp add: o_def view_of_def)
qed

section \<open>Witness\<close>

abbreviation archive_H :: hash_fn where
  "archive_H \<equiv> (\<lambda>bs. take 32 (bs @ replicate 32 7))"

definition sample_manifest :: json where
  "sample_manifest = JObject [(''metadata'', JObject [(''scope_path'', JString ''s'')])]"

definition sample_writer :: aos_writer where
  "sample_writer = snd (add_segment archive_H Mlx (Some ''s'') [9] (snd (add_segment archive_H Canonical None [1, 2] writer_new)))"

theorem archive_roundtrip_witness:
  "\<exists>size bs view. write_archive archive_H (\<lambda>_. [123, 125]) (\<lambda>_. Ok ()) sample_manifest sample_writer = Ok (size, bs) \<and>
     open_aos archive_H bs = Some (Ok view) \<and> map (\<lambda>v. snd (sv_payload v)) (av_segments view) = [[1, 2], [9]]"
proof -
  have segs: "map ps_payload (aw_segments sample_writer) = [[1, 2], [9]]"
    by (simp add: sample_writer_def add_segment_def Let_def writer_new_def)
  then have n: "length (aw_segments sample_writer) = 2" "payload_size (aw_segments sample_writer) = 3"
    using length_map [of ps_payload "aw_segments sample_writer"] length_payloads [of "aw_segments sample_writer"] by simp_all
  have "is_ok (write_archive archive_H (\<lambda>_. [123, 125]) (\<lambda>_. Ok ()) sample_manifest sample_writer)"
    by (simp add: write_archive_def Let_def sample_writer_def add_segment_def writer_new_def sample_manifest_def
        manifest_scope_path_def compute_scope_hash_def checked_add_def header_size_def index_entry_size_def b3_hash_def)
  then obtain size bs where w: "write_archive archive_H (\<lambda>_. [123, 125]) (\<lambda>_. Ok ()) sample_manifest sample_writer = Ok (size, bs)"
    by (auto simp: is_ok_iff)
  have len: "length (archive_H x) = 32" for x by simp
  from archive_roundtrip [OF w len] n obtain scope view where
    v: "open_aos archive_H bs = Some (Ok view)"
    "map (\<lambda>v. (sv_segment_id v, sv_backend_tag v, sv_scope_hash v, snd (sv_payload v))) (av_segments view) =
       map (\<lambda>s. (ps_segment_id s, ps_backend_tag s, compute_scope_hash archive_H scope, ps_payload s)) (aw_segments sample_writer)"
    by auto
  from arg_cong [OF v(2), of "map (\<lambda>x. snd (snd (snd x)))"] segs
  have "map (\<lambda>v. snd (sv_payload v)) (av_segments view) = [[1, 2], [9]]" by (simp add: o_def)
  with w v(1) show ?thesis by (intro exI conjI)
qed

end
