(* ===== verification/GalaxyLoader.thy ===== *)
theory GalaxyLoader
  imports AosArchive HotSwap
begin

text \<open>
  Loading adapters from bundles and single files,
  \<open>crates/adapteros-lora-worker/src/galaxy_loader.rs\<close>. A bundle is a header that lists
  archives at page boundaries. Files are an argument: the contents of a path, the bundles
  beside an adapter file, and the texts of operating system errors. Mapped files stay in the
  tables of the loader. \<open>None\<close> is the panic of a slice out of range.
\<close>

section \<open>UTF-8\<close>

definition cont_byte :: "u8 \<Rightarrow> bool" where
  "cont_byte b \<longleftrightarrow> 0x80 \<le> b \<and> b \<le> 0xBF"

fun valid_utf8 :: "bytes \<Rightarrow> bool" where
  "valid_utf8 [] \<longleftrightarrow> True"
| "valid_utf8 (a # bs) \<longleftrightarrow>
     (if a \<le> 0x7F then valid_utf8 bs
      else
        (case bs of
           [] \<Rightarrow> False
         | b # bs1 \<Rightarrow>
             if 0xC2 \<le> a \<and> a \<le> 0xDF then cont_byte b \<and> valid_utf8 bs1
             else
               (case bs1 of
                  [] \<Rightarrow> False
                | c # bs2 \<Rightarrow>
                    if 0xE0 \<le> a \<and> a \<le> 0xEF then
                      cont_byte b \<and> cont_byte c \<and> (a = 0xE0 \<longrightarrow> 0xA0 \<le> b) \<and>
                      (a = 0xED \<longrightarrow> b \<le> 0x9F) \<and> valid_utf8 bs2
                    else
                      (case bs2 of
                         [] \<Rightarrow> False
                       | d # bs3 \<Rightarrow>
                           0xF0 \<le> a \<and> a \<le> 0xF4 \<and> cont_byte b \<and> cont_byte c \<and> cont_byte d \<and>
                           (a = 0xF0 \<longrightarrow> 0x90 \<le> b) \<and> (a = 0xF4 \<longrightarrow> b \<le> 0x8F) \<and> valid_utf8 bs3))))"

definition bytes_str :: "bytes \<Rightarrow> string" where
  "bytes_str bs = map (\<lambda>b. char_of (unat b)) bs"

section \<open>Header of a bundle\<close>

definition galaxy_magic :: bytes where
  "galaxy_magic = str_bytes ''GLXYAOS1''"

definition galaxy_version :: "16 word" where
  "galaxy_version = 1"

definition galaxy_header_fixed :: nat where
  "galaxy_header_fixed = 16"

definition galaxy_entry_fixed :: nat where
  "galaxy_entry_fixed = 20"

record galaxy_entry =
  gx_offset :: nat
  gx_len :: nat

record galaxy_header =
  gh_entries :: "(string \<times> galaxy_entry) list"
  gh_header_size :: nat

definition galaxy_header_slice :: "bytes \<Rightarrow> nat \<Rightarrow> nat \<Rightarrow> string \<Rightarrow> (aos_error, bytes) result" where
  "galaxy_header_slice bs start len name =
     (if start + len \<ge> 2 ^ 64 then
        Err (EValidation (''Galaxy header field '' @ quoted name @ '' range overflow ('' @
          show_nat start @ '' + '' @ show_nat len @ '')''))
      else if start + len \<le> length bs then Ok (field start (start + len) bs)
      else Err (EValidation (''Galaxy header truncated while reading field '' @ quoted name)))"

definition galaxy_header_uint :: "nat \<Rightarrow> bytes \<Rightarrow> nat \<Rightarrow> string \<Rightarrow> (aos_error, nat) result" where
  "galaxy_header_uint width bs start name =
     (case galaxy_header_slice bs start width name of
        Err e \<Rightarrow> Err e | Ok raw \<Rightarrow> Ok (unat (from_le_bytes raw :: u64)))"

definition align_up :: "u64 \<Rightarrow> u64 \<Rightarrow> u64" where
  "align_up v alignment =
     (if alignment = 0 then v else and (v + alignment - 1) (not (alignment - 1)))"

text \<open>One entry: its identifier, its place, and the position behind it.\<close>

definition parse_galaxy_entry ::
  "(bytes \<Rightarrow> string) \<Rightarrow> bytes \<Rightarrow> nat \<Rightarrow> nat \<Rightarrow> (aos_error, (string \<times> galaxy_entry) \<times> nat) result" where
  "parse_galaxy_entry utf8_error bs page_size cursor =
     (if cursor + galaxy_entry_fixed > length bs then
        Err (EValidation ''Galaxy header truncated while reading entries'')
      else
        (case galaxy_header_uint 8 bs cursor ''entry_offset'' of Err e \<Rightarrow> Err e | Ok offset \<Rightarrow>
        (case galaxy_header_uint 8 bs (cursor + 8) ''entry_length'' of Err e \<Rightarrow> Err e | Ok len \<Rightarrow>
        (case galaxy_header_uint 2 bs (cursor + 16) ''adapter_id_length'' of Err e \<Rightarrow> Err e | Ok id_len \<Rightarrow>
          (let start = cursor + galaxy_entry_fixed; id_end = start + id_len;
               raw = field start id_end bs in
           if id_end \<ge> 2 ^ 64 then Err (EValidation ''Galaxy adapter id length overflow'')
           else if id_end > length bs then
             Err (EValidation ''Galaxy header truncated while reading adapter ids'')
           else if \<not> valid_utf8 raw then
             Err (EValidation (''Galaxy adapter id not UTF-8: '' @ utf8_error raw))
           else if \<not> page_size dvd offset then
             Err (EValidation (''Adapter '' @ quoted (bytes_str raw) @ '' not page aligned (offset '' @
               show_nat offset @ '', page '' @ show_nat page_size @ '')''))
           else Ok ((bytes_str raw, \<lparr>gx_offset = offset, gx_len = len\<rparr>), id_end))))))"

fun parse_galaxy_entries ::
  "(bytes \<Rightarrow> string) \<Rightarrow> bytes \<Rightarrow> nat \<Rightarrow> nat \<Rightarrow> nat \<Rightarrow>
   (aos_error, (string \<times> galaxy_entry) list \<times> nat) result" where
  "parse_galaxy_entries utf8_error bs page_size cursor 0 = Ok ([], cursor)"
| "parse_galaxy_entries utf8_error bs page_size cursor (Suc n) =
     (case parse_galaxy_entry utf8_error bs page_size cursor of
        Err e \<Rightarrow> Err e
      | Ok (entry, next) \<Rightarrow>
          (case parse_galaxy_entries utf8_error bs page_size next n of
             Err e \<Rightarrow> Err e | Ok (entries, stop) \<Rightarrow> Ok (entry # entries, stop)))"

fun check_galaxy_entries ::
  "bytes \<Rightarrow> nat \<Rightarrow> (string \<times> galaxy_entry) list \<Rightarrow> (aos_error, unit) result" where
  "check_galaxy_entries bs hsize [] = Ok ()"
| "check_galaxy_entries bs hsize ((i, e) # es) =
     (let stop = gx_offset e + gx_len e in
      if stop \<ge> 2 ^ 64 then Err (EValidation ''Galaxy entry size overflow'')
      else if gx_offset e < hsize \<or> stop > length bs then
        Err (EValidation (''Galaxy entry for '' @ quoted i @ '' is out of bounds''))
      else check_galaxy_entries bs hsize es)"

definition parse_galaxy_header ::
  "(bytes \<Rightarrow> string) \<Rightarrow> bytes \<Rightarrow> nat \<Rightarrow> (aos_error, galaxy_header) result" where
  "parse_galaxy_header utf8_error bs page_size =
     (if length bs < galaxy_header_fixed then
        Err (EValidation ''Galaxy bundle too small for header'')
      else if field 0 8 bs \<noteq> galaxy_magic then Err (EValidation ''Invalid galaxy magic'')
      else
        (case galaxy_header_uint 2 bs 8 ''version'' of Err e \<Rightarrow> Err e | Ok version \<Rightarrow>
         if version \<noteq> unat galaxy_version then
           Err (EValidation (''Unsupported galaxy version '' @ show_nat version @ '' (expected '' @
             show_nat (unat galaxy_version) @ '')''))
         else
        (case galaxy_header_uint 2 bs 10 ''entry_count'' of Err e \<Rightarrow> Err e | Ok entry_count \<Rightarrow>
        (case galaxy_header_uint 4 bs 12 ''header_size'' of Err e \<Rightarrow> Err e | Ok header_size0 \<Rightarrow>
        (case parse_galaxy_entries utf8_error bs page_size galaxy_header_fixed entry_count of
           Err e \<Rightarrow> Err e
         | Ok (entries, cursor) \<Rightarrow>
             (let hsize = max header_size0 (unat (align_up (of_nat cursor) (of_nat page_size))) in
              if hsize > length bs then
                Err (EValidation ''Galaxy header size exceeds file length'')
              else
                (case check_galaxy_entries bs hsize entries of
                   Err e \<Rightarrow> Err e
                 | Ok _ \<Rightarrow> Ok \<lparr>gh_entries = entries, gh_header_size = hsize\<rparr>)))))))"

section \<open>Views\<close>

record adapter_view =
  vw_payload_range :: "nat \<times> nat"
  vw_manifest_range :: "nat \<times> nat"
  vw_adapter_range :: "nat \<times> nat"

record galaxy_map =
  gm_path :: string
  gm_mmap :: bytes
  gm_header_size :: nat
  gm_page_size :: nat
  gm_entries :: "(string \<times> galaxy_entry) list"
  gm_views :: "(string \<times> adapter_view) list"

record standalone_mapping =
  sm_path :: string
  sm_mmap :: bytes
  sm_view :: "adapter_view option"

definition select_view_segment :: "aos_file_view \<Rightarrow> (aos_error, segment_view) result" where
  "select_view_segment v =
     (case find (\<lambda>s. sv_backend_tag s = Coreml) (av_segments v) of
        Some s \<Rightarrow> Ok s
      | None \<Rightarrow>
          (case find (\<lambda>s. sv_backend_tag s = Canonical) (av_segments v) of
             Some s \<Rightarrow> Ok s
           | None \<Rightarrow> Err (EValidation ''Missing CoreML or canonical segment in adapter'')))"

text \<open>A borrowed slice starts at or behind its parent, so only its end is checked.\<close>

definition absolute_range :: "nat \<Rightarrow> nat \<times> bytes \<Rightarrow> nat \<Rightarrow> (aos_error, nat \<times> nat) result" where
  "absolute_range parent_len s parent_offset =
     (let (rel, p) = s in
      if rel + length p > parent_len then
        Err (EValidation ''Segment slice extends past parent mapping'')
      else Ok (parent_offset + rel, parent_offset + rel + length p))"

definition view_of_archive ::
  "hash_fn \<Rightarrow> bytes \<Rightarrow> nat \<Rightarrow> (aos_error, adapter_view) result option" where
  "view_of_archive H aos_slice offset =
     (case open_aos H aos_slice of
        None \<Rightarrow> None
      | Some (Err e) \<Rightarrow> Some (Err e)
      | Some (Ok file_view) \<Rightarrow> Some
          (case select_view_segment file_view of Err e \<Rightarrow> Err e | Ok segment \<Rightarrow>
          (case absolute_range (length aos_slice) (sv_payload segment) offset of Err e \<Rightarrow> Err e | Ok pr \<Rightarrow>
          (case absolute_range (length aos_slice) (av_manifest_bytes file_view) offset of Err e \<Rightarrow> Err e | Ok mr \<Rightarrow>
             Ok \<lparr>vw_payload_range = pr, vw_manifest_range = mr,
                 vw_adapter_range = (offset, offset + length aos_slice)\<rparr>))))"

definition galaxy_view_for ::
  "hash_fn \<Rightarrow> string \<Rightarrow> galaxy_map \<Rightarrow> ((aos_error, adapter_view \<times> bool) result \<times> galaxy_map) option" where
  "galaxy_view_for H i gm =
     (case map_of (gm_views gm) i of
        Some view \<Rightarrow> Some (Ok (view, True), gm)
      | None \<Rightarrow>
          (case map_of (gm_entries gm) i of
             None \<Rightarrow> Some (Err (ENotFound (''Adapter '' @ quoted i @ '' not found in galaxy '' @
                       quoted (gm_path gm))), gm)
           | Some e \<Rightarrow>
               (case slice (gx_offset e) (gx_offset e + gx_len e) (gm_mmap gm) of
                  None \<Rightarrow> None
                | Some aos_slice \<Rightarrow>
                    (case view_of_archive H aos_slice (gx_offset e) of
                       None \<Rightarrow> None
                     | Some (Err er) \<Rightarrow> Some (Err er, gm)
                     | Some (Ok view) \<Rightarrow>
                         Some (Ok (view, False), gm\<lparr>gm_views := am_insert i view (gm_views gm)\<rparr>)))))"

definition standalone_view ::
  "hash_fn \<Rightarrow> standalone_mapping \<Rightarrow>
   ((aos_error, adapter_view \<times> bool) result \<times> standalone_mapping) option" where
  "standalone_view H sm =
     (case sm_view sm of
        Some view \<Rightarrow> Some (Ok (view, True), sm)
      | None \<Rightarrow>
          (case view_of_archive H (sm_mmap sm) 0 of
             None \<Rightarrow> None
           | Some (Err e) \<Rightarrow> Some (Err e, sm)
           | Some (Ok view) \<Rightarrow> Some (Ok (view, False), sm\<lparr>sm_view := Some view\<rparr>)))"

section \<open>The loader\<close>

text \<open>Files: contents or the text of the error, and the existing bundles beside a path, in order.\<close>

record files =
  fs_read :: "string \<Rightarrow> string + bytes"
  fs_galaxies :: "string \<Rightarrow> string list"
  fs_utf8_error :: "bytes \<Rightarrow> string"

record galaxy_loader =
  gl_page_size :: nat
  gl_galaxies :: "(string \<times> galaxy_map) list"
  gl_standalones :: "(string \<times> standalone_mapping) list"

record load_outcome =
  lo_view :: adapter_view
  lo_backing :: adapter_backing
  lo_mmap :: bytes
  lo_reused_mapping :: bool
  lo_cached_view :: bool

definition loader_new :: "nat \<Rightarrow> galaxy_loader" where
  "loader_new system_page_size =
     \<lparr>gl_page_size = max system_page_size 4096, gl_galaxies = [], gl_standalones = []\<rparr>"

definition galaxy_map_load :: "files \<Rightarrow> string \<Rightarrow> nat \<Rightarrow> (aos_error, galaxy_map) result" where
  "galaxy_map_load fs path page_size =
     (case fs_read fs path of
        Inl e \<Rightarrow> Err (EIo (''Failed to open galaxy bundle '' @ quoted path @ '': '' @ e))
      | Inr mmap \<Rightarrow>
          (case parse_galaxy_header (fs_utf8_error fs) mmap page_size of
             Err e \<Rightarrow> Err e
           | Ok hdr \<Rightarrow>
               Ok \<lparr>gm_path = path, gm_mmap = mmap, gm_header_size = gh_header_size hdr,
                   gm_page_size = page_size,
                   gm_entries = foldl (\<lambda>m e. am_insert (fst e) (snd e) m) [] (gh_entries hdr),
                   gm_views = []\<rparr>))"

definition galaxy_for_path ::
  "files \<Rightarrow> string \<Rightarrow> galaxy_loader \<Rightarrow> (aos_error, galaxy_map \<times> bool) result \<times> galaxy_loader" where
  "galaxy_for_path fs path gl =
     (case map_of (gl_galaxies gl) path of
        Some gm \<Rightarrow> (Ok (gm, True), gl)
      | None \<Rightarrow>
          (case galaxy_map_load fs path (gl_page_size gl) of
             Err e \<Rightarrow> (Err e, gl)
           | Ok gm \<Rightarrow> (Ok (gm, False), gl\<lparr>gl_galaxies := am_insert path gm (gl_galaxies gl)\<rparr>)))"

definition load_from_galaxy ::
  "hash_fn \<Rightarrow> files \<Rightarrow> string \<Rightarrow> string \<Rightarrow> galaxy_loader \<Rightarrow>
   ((aos_error, load_outcome) result \<times> galaxy_loader) option" where
  "load_from_galaxy H fs i path gl =
     (case galaxy_for_path fs path gl of
        (Err e, gl1) \<Rightarrow> Some (Err e, gl1)
      | (Ok (gm, reused), gl1) \<Rightarrow>
          if map_of (gm_entries gm) i = None then
            Some (Err (ENotFound (''Galaxy at '' @ quoted path @ '' does not contain adapter '' @
              quoted i)), gl1)
          else
            (case galaxy_view_for H i gm of
               None \<Rightarrow> None
             | Some (Err e, gm1) \<Rightarrow> Some (Err e, gl1)
             | Some (Ok (view, cached_view), gm1) \<Rightarrow>
                 Some (Ok \<lparr>lo_view = view, lo_backing = Galaxy (gm_path gm), lo_mmap = gm_mmap gm,
                           lo_reused_mapping = reused, lo_cached_view = cached_view\<rparr>,
                       gl1\<lparr>gl_galaxies := am_update (\<lambda>_. gm1) path (gl_galaxies gl1)\<rparr>)))"

definition standalone_for_path ::
  "files \<Rightarrow> string \<Rightarrow> galaxy_loader \<Rightarrow>
   (aos_error, standalone_mapping \<times> bool) result \<times> galaxy_loader" where
  "standalone_for_path fs path gl =
     (case map_of (gl_standalones gl) path of
        Some sm \<Rightarrow> (Ok (sm, True), gl)
      | None \<Rightarrow>
          (case fs_read fs path of
             Inl e \<Rightarrow> (Err (EIo (''Failed to open adapter at '' @ quoted path @ '': '' @ e)), gl)
           | Inr mmap \<Rightarrow>
               (let sm = \<lparr>sm_path = path, sm_mmap = mmap, sm_view = None\<rparr> in
                (Ok (sm, False), gl\<lparr>gl_standalones := am_insert path sm (gl_standalones gl)\<rparr>))))"

definition load_standalone ::
  "hash_fn \<Rightarrow> files \<Rightarrow> string \<Rightarrow> galaxy_loader \<Rightarrow>
   ((aos_error, load_outcome) result \<times> galaxy_loader) option" where
  "load_standalone H fs path gl =
     (case standalone_for_path fs path gl of
        (Err e, gl1) \<Rightarrow> Some (Err e, gl1)
      | (Ok (sm, reused), gl1) \<Rightarrow>
          (case standalone_view H sm of
             None \<Rightarrow> None
           | Some (Err e, sm1) \<Rightarrow> Some (Err e, gl1)
           | Some (Ok (view, cached_view), sm1) \<Rightarrow>
               Some (Ok \<lparr>lo_view = view, lo_backing = Standalone (sm_path sm), lo_mmap = sm_mmap sm,
                         lo_reused_mapping = reused, lo_cached_view = cached_view\<rparr>,
                     gl1\<lparr>gl_standalones := am_update (\<lambda>_. sm1) path (gl_standalones gl1)\<rparr>)))"

text \<open>The bundles are tried in order; the errors of those that fail are only logged.\<close>

fun load_from_candidates ::
  "hash_fn \<Rightarrow> files \<Rightarrow> string \<Rightarrow> string list \<Rightarrow> galaxy_loader \<Rightarrow>
   (load_outcome option \<times> galaxy_loader) option" where
  "load_from_candidates H fs i [] gl = Some (None, gl)"
| "load_from_candidates H fs i (path # paths) gl =
     (case load_from_galaxy H fs i path gl of
        None \<Rightarrow> None
      | Some (Ok outcome, gl1) \<Rightarrow> Some (Some outcome, gl1)
      | Some (Err _, gl1) \<Rightarrow> load_from_candidates H fs i paths gl1)"

definition load_adapter ::
  "hash_fn \<Rightarrow> files \<Rightarrow> string \<Rightarrow> string \<Rightarrow> galaxy_loader \<Rightarrow>
   ((aos_error, load_outcome) result \<times> galaxy_loader) option" where
  "load_adapter H fs i path gl =
     (case load_from_candidates H fs i (fs_galaxies fs path) gl of
        None \<Rightarrow> None
      | Some (Some outcome, gl1) \<Rightarrow> Some (Ok outcome, gl1)
      | Some (None, gl1) \<Rightarrow> load_standalone H fs path gl1)"

definition payload_of :: "load_outcome \<Rightarrow> bytes option" where
  "payload_of lo = (let (a, b) = vw_payload_range (lo_view lo) in slice a b (lo_mmap lo))"

definition manifest_of :: "load_outcome \<Rightarrow> bytes option" where
  "manifest_of lo = (let (a, b) = vw_manifest_range (lo_view lo) in slice a b (lo_mmap lo))"

section \<open>Bounds of a bundle\<close>

lemma parse_entries_aligned:
  "parse_galaxy_entries u bs page cursor n = Ok (es, stop) \<Longrightarrow> list_all (\<lambda>e. page dvd gx_offset (snd e)) es"
proof (induction n arbitrary: cursor es stop)
  case (Suc n)
  then show ?case
    by (fastforce simp: parse_galaxy_entry_def Let_def split: sum.splits prod.splits if_splits)
qed simp

lemma parse_entries_cursor:
  "parse_galaxy_entries u bs page cursor n = Ok (es, stop) \<Longrightarrow> cursor \<le> stop \<and> (cursor \<le> length bs \<longrightarrow> stop \<le> length bs)"
proof (induction n arbitrary: cursor es stop)
  case (Suc n)
  then obtain e next_cur es' where
    p: "parse_galaxy_entry u bs page cursor = Ok (e, next_cur)" "parse_galaxy_entries u bs page next_cur n = Ok (es', stop)"
    by (auto split: sum.splits prod.splits)
  have "cursor \<le> next_cur" "next_cur \<le> length bs"
    using p(1) by (auto simp: parse_galaxy_entry_def Let_def split: sum.splits if_splits)
  with Suc.IH [OF p(2)] show ?case by simp
qed simp

lemma check_entries_ok: "check_galaxy_entries bs hsize es = Ok () \<longleftrightarrow>
    list_all (\<lambda>e. gx_offset (snd e) + gx_len (snd e) < 2 ^ 64 \<and> hsize \<le> gx_offset (snd e) \<and>
      gx_offset (snd e) + gx_len (snd e) \<le> length bs) es"
  by (induction bs hsize es rule: check_galaxy_entries.induct) (auto simp: Let_def)

text \<open>Rounding up to a page, for pages whose size is a power of two.\<close>

lemma unat_clear_low: "unat (and x (not (mask k)) :: u64) = 2 ^ k * (unat x div 2 ^ k)"
proof -
  have "and x (not (mask k)) = push_bit k (drop_bit k x)"
    by (rule bit_word_eqI) (auto simp: bit_simps)
  then have x: "and x (not (mask k)) + take_bit k x = x" by (simp add: bits_ident)
  have t: "unat (take_bit k x) = unat x mod 2 ^ k"
    by (simp only: unsigned_take_bit_eq) (simp only: take_bit_eq_mod)
  then have "take_bit k x \<le> x" by (simp add: word_le_nat_alt)
  moreover have "and x (not (mask k)) = x - take_bit k x" using x by (metis add_diff_cancel_right')
  ultimately show ?thesis by (simp add: unat_sub t minus_mod_eq_mult_div)
qed

lemma align_up_page:
  assumes "unat v + 2 ^ k \<le> 2 ^ 64" "k < 64"
  shows "unat v \<le> unat (align_up v (2 ^ k))" "2 ^ k dvd unat (align_up v (2 ^ k))"
proof -
  let ?x = "v + 2 ^ k - 1"
  have p: "unat (2 ^ k :: u64) = 2 ^ k"
  proof -
    have "(2 :: nat) ^ k < 2 ^ 64" using assms(2) by (rule power_strict_increasing) simp
    then have "unat (of_nat (2 ^ k) :: u64) = 2 ^ k" by (simp only: unat_of_nat) simp
    then show ?thesis by simp
  qed
  have "unat (v + (2 ^ k - 1)) = unat v + (2 ^ k - 1)"
    using assms(1) p by (subst unat_plus_if_size) (auto simp: unat_sub word_le_nat_alt word_size Suc_le_eq)
  then have x: "unat ?x = unat v + (2 ^ k - 1)" by (simp add: algebra_simps)
  have nz: "(2 ^ k :: u64) \<noteq> 0" using p by (metis unat_0 power_not_zero zero_neq_numeral)
  have a: "unat (align_up v (2 ^ k)) = 2 ^ k * (unat ?x div 2 ^ k)"
    unfolding align_up_def using nz unat_clear_low [of ?x k] by (simp add: mask_eq_exp_minus_1)
  then show "2 ^ k dvd unat (align_up v (2 ^ k))" by simp
  have "unat ?x < 2 ^ k * (unat ?x div 2 ^ k) + 2 ^ k"
    using dividend_less_times_div [of "2 ^ k" "unat ?x"] by simp
  then show "unat v \<le> unat (align_up v (2 ^ k))" using a x by simp
qed

text \<open>
  The entries of a parsed bundle are sound: each starts at a page boundary behind the header and
  ends inside the file; and when pages are a power of two, the header covers the table of
  entries that was read.
\<close>

theorem galaxy_entries_bounded:
  assumes "parse_galaxy_header utf8_error bs page_size = Ok hdr"
  shows "gh_header_size hdr \<le> length bs \<and>
    list_all (\<lambda>(i, e). page_size dvd gx_offset e \<and> gh_header_size hdr \<le> gx_offset e \<and>
      gx_offset e + gx_len e \<le> length bs) (gh_entries hdr) \<and>
    (\<forall>k < 64. page_size = 2 ^ k \<and> length bs + 2 ^ k \<le> 2 ^ 64 \<longrightarrow>
      (\<exists>n stop. parse_galaxy_entries utf8_error bs page_size galaxy_header_fixed n = Ok (gh_entries hdr, stop) \<and>
         stop \<le> gh_header_size hdr))"
proof -
  obtain n h0 es stop h where
    q: "parse_galaxy_entries utf8_error bs page_size galaxy_header_fixed n = Ok (es, stop)"
      "h = max h0 (unat (align_up (of_nat stop) (of_nat page_size)))" "\<not> h > length bs"
      "check_galaxy_entries bs h es = Ok ()" "\<not> length bs < galaxy_header_fixed"
      "hdr = \<lparr>gh_entries = es, gh_header_size = h\<rparr>"
    using assms unfolding parse_galaxy_header_def Let_def
    by (auto split: if_splits sum.splits prod.splits)
  then have p: "parse_galaxy_entries utf8_error bs page_size galaxy_header_fixed n = Ok (gh_entries hdr, stop)"
      "gh_header_size hdr = max h0 (unat (align_up (of_nat stop) (of_nat page_size)))"
      "gh_header_size hdr \<le> length bs" "check_galaxy_entries bs (gh_header_size hdr) (gh_entries hdr) = Ok ()"
      "galaxy_header_fixed \<le> length bs" by (simp_all add: not_less)
  have "list_all (\<lambda>(i, e). page_size dvd gx_offset e \<and> gh_header_size hdr \<le> gx_offset e \<and>
      gx_offset e + gx_len e \<le> length bs) (gh_entries hdr)"
    using p(4) parse_entries_aligned [OF p(1)] by (auto simp: check_entries_ok list_all_iff)
  moreover have "stop \<le> gh_header_size hdr" if "k < 64" "page_size = 2 ^ k" "length bs + 2 ^ k \<le> 2 ^ 64" for k
  proof -
    have "stop \<le> length bs" using parse_entries_cursor [OF p(1)] p(5) by simp
    then have "stop + 2 ^ k \<le> 2 ^ 64" using that(3) by simp
    moreover have "stop < 2 ^ 64" using calculation by (rule less_le_trans [rotated]) simp
    then have "unat (of_nat stop :: u64) = stop" by (simp only: unat_of_nat) simp
    ultimately show ?thesis
      using align_up_page(1) [of "of_nat stop" k] that(1,2) p(2) by simp
  qed
  ultimately show ?thesis using p(1,3) by blast
qed

section \<open>Views stay inside their files\<close>

text \<open>A view of the archive at some place of a mapped file.\<close>

definition view_good :: "hash_fn \<Rightarrow> bytes \<Rightarrow> adapter_view \<Rightarrow> bool" where
  "view_good H mmap v \<longleftrightarrow> (\<exists>start stop. start \<le> stop \<and> stop \<le> length mmap \<and>
     view_of_archive H (field start stop mmap) start = Some (Ok v))"

definition map_good :: "hash_fn \<Rightarrow> galaxy_map \<Rightarrow> bool" where
  "map_good H gm \<longleftrightarrow>
     list_all (\<lambda>e. gx_offset (snd e) + gx_len (snd e) \<le> length (gm_mmap gm)) (gm_entries gm) \<and>
     list_all (\<lambda>e. view_good H (gm_mmap gm) (snd e)) (gm_views gm)"

definition standalone_good :: "hash_fn \<Rightarrow> standalone_mapping \<Rightarrow> bool" where
  "standalone_good H sm \<longleftrightarrow> (case sm_view sm of Some v \<Rightarrow> view_good H (sm_mmap sm) v | None \<Rightarrow> True)"

definition loader_good :: "hash_fn \<Rightarrow> galaxy_loader \<Rightarrow> bool" where
  "loader_good H gl \<longleftrightarrow> list_all (\<lambda>e. map_good H (snd e)) (gl_galaxies gl) \<and>
     list_all (\<lambda>e. standalone_good H (snd e)) (gl_standalones gl)"

lemma list_all_insert: "list_all P m \<Longrightarrow> P (k, v) \<Longrightarrow> list_all P (am_insert k v m)"
  by (auto simp: am_insert_def am_remove_def list_all_iff)

lemma list_all_set: "list_all P m \<Longrightarrow> P (k, v) \<Longrightarrow> list_all P (am_update (\<lambda>_. v) k m)"
  by (auto simp: am_update_def list_all_iff)

lemma list_all_lookup: "list_all (\<lambda>e. P (snd e)) m \<Longrightarrow> map_of m k = Some v \<Longrightarrow> P v"
  by (force simp: list_all_iff dest: map_of_SomeD)

lemma list_all_collect: "list_all (\<lambda>e. P (snd e)) es \<Longrightarrow> list_all (\<lambda>e. P (snd e)) m \<Longrightarrow>
    list_all (\<lambda>e. P (snd e)) (foldl (\<lambda>m e. am_insert (fst e) (snd e) m) m es)"
  by (induction es arbitrary: m) (simp_all add: list_all_insert)

lemma view_of_archive_total: "\<exists>r. view_of_archive H bs start = Some r"
  using open_aos_total [of H bs] by (auto simp: view_of_archive_def split: sum.splits)

lemma galaxy_view_good:
  assumes "map_good H gm" "map_of (gm_entries gm) i \<noteq> None"
  shows "\<exists>r gm1. galaxy_view_for H i gm = Some (r, gm1) \<and> map_good H gm1 \<and>
    (case r of Err _ \<Rightarrow> True | Ok (v, c) \<Rightarrow> view_good H (gm_mmap gm) v)"
proof (cases "map_of (gm_views gm) i")
  case (Some v)
  have "view_good H (gm_mmap gm) v"
    using list_all_lookup [OF _ Some, of "view_good H (gm_mmap gm)"] assms(1) by (simp add: map_good_def)
  with Some assms(1) show ?thesis by (simp add: galaxy_view_for_def)
next
  case None
  obtain e where e: "map_of (gm_entries gm) i = Some e" using assms(2) by blast
  then have b: "gx_offset e + gx_len e \<le> length (gm_mmap gm)"
    using list_all_lookup [OF _ e, of "\<lambda>e. gx_offset e + gx_len e \<le> length (gm_mmap gm)"] assms(1)
    by (simp add: map_good_def)
  let ?s = "field (gx_offset e) (gx_offset e + gx_len e) (gm_mmap gm)"
  obtain r where r: "view_of_archive H ?s (gx_offset e) = Some r" using view_of_archive_total by blast
  show ?thesis
  proof (cases r)
    case (Inr v)
    then have "view_good H (gm_mmap gm) v"
      unfolding view_good_def using r b by (intro exI [of _ "gx_offset e"] exI [of _ "gx_offset e + gx_len e"]) simp
    with r Inr None e b assms(1) show ?thesis
      by (auto simp: galaxy_view_for_def slice_def map_good_def intro: list_all_insert)
  qed (use r None e b assms(1) in \<open>simp add: galaxy_view_for_def slice_def\<close>)
qed

lemma standalone_view_good:
  assumes "standalone_good H sm"
  shows "\<exists>r sm1. standalone_view H sm = Some (r, sm1) \<and> standalone_good H sm1 \<and>
    (case r of Err _ \<Rightarrow> True | Ok (v, c) \<Rightarrow> view_good H (sm_mmap sm) v)"
proof (cases "sm_view sm")
  case (Some v)
  with assms show ?thesis by (simp add: standalone_view_def standalone_good_def)
next
  case None
  obtain r where r: "view_of_archive H (sm_mmap sm) 0 = Some r" using view_of_archive_total by blast
  have "view_good H (sm_mmap sm) v" if "r = Ok v" for v
    unfolding view_good_def using r that by (intro exI [of _ 0] exI [of _ "length (sm_mmap sm)"]) simp
  with r None assms show ?thesis
    by (cases r) (auto simp: standalone_view_def standalone_good_def)
qed

lemma galaxy_map_load_good:
  assumes "galaxy_map_load fs path page = Ok gm"
  shows "map_good H gm"
proof -
  obtain mmap hdr where h: "parse_galaxy_header (fs_utf8_error fs) mmap page = Ok hdr"
    "gm_mmap gm = mmap" "gm_views gm = []"
    "gm_entries gm = foldl (\<lambda>m e. am_insert (fst e) (snd e) m) [] (gh_entries hdr)"
    using assms by (auto simp: galaxy_map_load_def split: sum.splits)
  obtain hs where "check_galaxy_entries mmap hs (gh_entries hdr) = Ok ()"
    using h(1) unfolding parse_galaxy_header_def Let_def by (auto split: if_splits sum.splits prod.splits)
  then have "list_all (\<lambda>e. gx_offset (snd e) + gx_len (snd e) \<le> length mmap) (gh_entries hdr)"
    by (auto simp: check_entries_ok list_all_iff)
  from list_all_collect [OF this, of "[]"] show ?thesis by (simp add: map_good_def h)
qed

lemma galaxy_for_path_good:
  assumes "loader_good H gl" "galaxy_for_path fs path gl = (r, gl1)"
  shows "loader_good H gl1" "r = Ok (gm, reused) \<Longrightarrow> map_good H gm"
proof -
  have "loader_good H gl1 \<and> (\<forall>gm reused. r = Ok (gm, reused) \<longrightarrow> map_good H gm)"
  proof (cases "map_of (gl_galaxies gl) path")
    case (Some gm)
    with assms list_all_lookup [OF _ Some, of "map_good H"] show ?thesis
      by (auto simp: galaxy_for_path_def loader_good_def)
  next
    case None
    with assms galaxy_map_load_good [of fs path "gl_page_size gl" _ H] show ?thesis
      by (auto simp: galaxy_for_path_def loader_good_def list_all_insert split: sum.splits)
  qed
  then show "loader_good H gl1" "r = Ok (gm, reused) \<Longrightarrow> map_good H gm" by blast+
qed

lemma load_from_galaxy_good:
  assumes "loader_good H gl"
  shows "\<exists>r gl1. load_from_galaxy H fs i path gl = Some (r, gl1) \<and> loader_good H gl1 \<and>
    (case r of Err _ \<Rightarrow> True | Ok lo \<Rightarrow> view_good H (lo_mmap lo) (lo_view lo))"
proof -
  obtain r gl1 where r: "galaxy_for_path fs path gl = (r, gl1)" by fastforce
  note g = galaxy_for_path_good [OF assms r]
  show ?thesis
  proof (cases r)
    case (Inr p)
    obtain gm reused where p: "p = (gm, reused)" by fastforce
    have m: "map_good H gm" using g(2) Inr p by simp
    show ?thesis
    proof (cases "map_of (gm_entries gm) i = None")
      case False
      obtain v gm1 where v: "galaxy_view_for H i gm = Some (v, gm1)" "map_good H gm1"
        "case v of Err _ \<Rightarrow> True | Ok (w, c) \<Rightarrow> view_good H (gm_mmap gm) w"
        using galaxy_view_good [OF m False] by blast
      with False r Inr p g(1) show ?thesis
        by (cases v) (auto simp: load_from_galaxy_def loader_good_def list_all_set)
    qed (use r Inr p g(1) in \<open>simp add: load_from_galaxy_def\<close>)
  qed (use r g(1) in \<open>simp add: load_from_galaxy_def\<close>)
qed

lemma load_standalone_good:
  assumes "loader_good H gl"
  shows "\<exists>r gl1. load_standalone H fs path gl = Some (r, gl1) \<and> loader_good H gl1 \<and>
    (case r of Err _ \<Rightarrow> True | Ok lo \<Rightarrow> view_good H (lo_mmap lo) (lo_view lo))"
proof -
  obtain r gl1 where r: "standalone_for_path fs path gl = (r, gl1)" by fastforce
  have g: "loader_good H gl1 \<and> (\<forall>sm reused. r = Ok (sm, reused) \<longrightarrow> standalone_good H sm)"
  proof (cases "map_of (gl_standalones gl) path")
    case (Some sm)
    with assms r list_all_lookup [OF _ Some, of "standalone_good H"] show ?thesis
      by (auto simp: standalone_for_path_def loader_good_def)
  next
    case None
    with assms r show ?thesis
      by (auto simp: standalone_for_path_def loader_good_def standalone_good_def Let_def list_all_insert split: sum.splits)
  qed
  show ?thesis
  proof (cases r)
    case (Inr p)
    obtain sm reused where p: "p = (sm, reused)" by fastforce
    obtain v sm1 where "standalone_view H sm = Some (v, sm1)" "standalone_good H sm1"
      "case v of Err _ \<Rightarrow> True | Ok (w, c) \<Rightarrow> view_good H (sm_mmap sm) w"
      using standalone_view_good [of H sm] g Inr p by blast
    with r Inr p g show ?thesis
      by (cases v) (auto simp: load_standalone_def loader_good_def list_all_set)
  qed (use r g in \<open>simp add: load_standalone_def\<close>)
qed

lemma load_candidates_good:
  "loader_good H gl \<Longrightarrow> \<exists>r gl1. load_from_candidates H fs i paths gl = Some (r, gl1) \<and> loader_good H gl1 \<and>
    (case r of None \<Rightarrow> True | Some lo \<Rightarrow> view_good H (lo_mmap lo) (lo_view lo))"
proof (induction paths arbitrary: gl)
  case (Cons path paths)
  obtain r gl1 where r: "load_from_galaxy H fs i path gl = Some (r, gl1)" "loader_good H gl1"
    "case r of Err _ \<Rightarrow> True | Ok lo \<Rightarrow> view_good H (lo_mmap lo) (lo_view lo)"
    using load_from_galaxy_good [OF Cons.prems] by blast
  with Cons.IH [OF r(2)] show ?case by (cases r) auto
qed simp

lemma load_adapter_good:
  assumes "loader_good H gl"
  shows "\<exists>r gl1. load_adapter H fs i path gl = Some (r, gl1) \<and> loader_good H gl1 \<and>
    (case r of Err _ \<Rightarrow> True | Ok lo \<Rightarrow> view_good H (lo_mmap lo) (lo_view lo))"
proof -
  obtain r gl1 where r: "load_from_candidates H fs i (fs_galaxies fs path) gl = Some (r, gl1)" "loader_good H gl1"
    "case r of None \<Rightarrow> True | Some lo \<Rightarrow> view_good H (lo_mmap lo) (lo_view lo)"
    using load_candidates_good [OF assms] by blast
  with load_standalone_good [OF r(2), of fs path] show ?thesis by (cases r) (auto simp: load_adapter_def)
qed

lemma view_of_archive_Ok:
  assumes "view_of_archive H bs a = Some (Ok w)"
  obtains v seg where "open_aos H bs = Some (Ok v)" "select_view_segment v = Ok seg"
    "vw_payload_range w = (a + fst (sv_payload seg), a + fst (sv_payload seg) + length (snd (sv_payload seg)))"
    "vw_manifest_range w = (a + fst (av_manifest_bytes v),
       a + fst (av_manifest_bytes v) + length (snd (av_manifest_bytes v)))"
    "vw_adapter_range w = (a, a + length bs)"
  using assms
  by (auto simp: view_of_archive_def absolute_range_def Let_def split: option.splits sum.splits prod.splits if_splits)

text \<open>What a good view shows of its file.\<close>

lemma view_good_slices:
  assumes "view_good H (lo_mmap lo) (lo_view lo)"
  shows "\<exists>start stop v seg. start \<le> stop \<and> stop \<le> length (lo_mmap lo) \<and>
    vw_adapter_range (lo_view lo) = (start, stop) \<and>
    open_aos H (field start stop (lo_mmap lo)) = Some (Ok v) \<and> select_view_segment v = Ok seg \<and>
    payload_of lo = Some (snd (sv_payload seg)) \<and> manifest_of lo = Some (snd (av_manifest_bytes v))"
proof -
  obtain a b where ab: "a \<le> b" "b \<le> length (lo_mmap lo)"
    "view_of_archive H (field a b (lo_mmap lo)) a = Some (Ok (lo_view lo))"
    using assms by (auto simp: view_good_def)
  let ?s = "field a b (lo_mmap lo)"
  have len: "length ?s = b - a" using ab by simp
  obtain v seg where v: "open_aos H ?s = Some (Ok v)" "select_view_segment v = Ok seg"
    "vw_payload_range (lo_view lo) = (a + fst (sv_payload seg), a + fst (sv_payload seg) + length (snd (sv_payload seg)))"
    "vw_manifest_range (lo_view lo) = (a + fst (av_manifest_bytes v),
       a + fst (av_manifest_bytes v) + length (snd (av_manifest_bytes v)))"
    "vw_adapter_range (lo_view lo) = (a, a + length ?s)"
    using view_of_archive_Ok [OF ab(3)] by blast
  have "seg \<in> set (av_segments v)"
    using v(2) by (auto simp: select_view_segment_def find_Some_iff split: option.splits)
  note m = opened_slices(1,2) [OF v(1)] and p = opened_slices(3) [OF v(1) this surjective_pairing]
  have cut: "slice (a + x) (a + x + n) (lo_mmap lo) = Some (field x (x + n) ?s)" if "x + n \<le> b - a" for x n
    using that ab field_field [of a "x + n" b x "lo_mmap lo"] by (simp add: slice_def add.assoc)
  have "payload_of lo = Some (snd (sv_payload seg))"
    using cut p m(1) len v(3) by (simp add: payload_of_def)
  moreover have "manifest_of lo = Some (snd (av_manifest_bytes v))"
    using cut m len v(4) by (simp add: manifest_of_def)
  ultimately show ?thesis using ab v len by (intro exI [of _ a] exI [of _ b] exI [of _ v] exI [of _ seg]) simp
qed

fun load_all :: "hash_fn \<Rightarrow> (files \<times> string \<times> string) list \<Rightarrow> galaxy_loader \<Rightarrow> galaxy_loader option" where
  "load_all H [] gl = Some gl"
| "load_all H ((fs, i, path) # calls) gl =
     (case load_adapter H fs i path gl of None \<Rightarrow> None | Some (_, gl1) \<Rightarrow> load_all H calls gl1)"

lemma load_all_good: "loader_good H gl \<Longrightarrow> \<exists>gl1. load_all H calls gl = Some gl1 \<and> loader_good H gl1"
proof (induction calls arbitrary: gl)
  case (Cons c calls)
  obtain fs i path where c: "c = (fs, i, path)" by (metis prod_cases3)
  obtain r gl1 where "load_adapter H fs i path gl = Some (r, gl1)" "loader_good H gl1"
    using load_adapter_good [OF Cons.prems] by blast
  with Cons.IH c show ?case by auto
qed simp

text \<open>
  (C16) Loading is safe whatever the files hold: after any loads, with any contents of the files at each
  of them, a load does not panic, and a loaded adapter is a verified archive inside its mapped file
  whose selected payload and manifest are exactly the slices that the outcome names.
\<close>

theorem load_adapter_safe:
  "\<exists>gl r gl1. load_all H calls (loader_new system_page_size) = Some gl \<and>
     load_adapter H fs i path gl = Some (r, gl1) \<and>
     (case r of Err _ \<Rightarrow> True
      | Ok lo \<Rightarrow> \<exists>start stop v seg. start \<le> stop \<and> stop \<le> length (lo_mmap lo) \<and>
          vw_adapter_range (lo_view lo) = (start, stop) \<and>
          open_aos H (field start stop (lo_mmap lo)) = Some (Ok v) \<and> select_view_segment v = Ok seg \<and>
          payload_of lo = Some (snd (sv_payload seg)) \<and> manifest_of lo = Some (snd (av_manifest_bytes v)))"
proof -
  have "loader_good H (loader_new system_page_size)" by (simp add: loader_good_def loader_new_def)
  then obtain gl where gl: "load_all H calls (loader_new system_page_size) = Some gl" "loader_good H gl"
    using load_all_good by blast
  then obtain r gl1 where "load_adapter H fs i path gl = Some (r, gl1)"
    "case r of Err _ \<Rightarrow> True | Ok lo \<Rightarrow> view_good H (lo_mmap lo) (lo_view lo)"
    using load_adapter_good by blast
  with gl(1) view_good_slices show ?thesis by (cases r) fastforce+
qed

text \<open>
  A mapped file is never read again: once an adapter was loaded from its own file, every
  later load from that path shows the old contents, whatever the file has become.
\<close>

theorem replaced_file_not_reloaded:
  assumes "load_standalone H fs path gl = Some (Ok lo, gl1)" and "fs_galaxies fs' path = []"
  shows "\<exists>lo' gl2. load_adapter H fs' i path gl1 = Some (Ok lo', gl2) \<and>
    lo_mmap lo' = lo_mmap lo \<and> lo_view lo' = lo_view lo"
proof -
  obtain sm reused gl0 v c sm1 where s: "standalone_for_path fs path gl = (Ok (sm, reused), gl0)"
    "standalone_view H sm = Some (Ok (v, c), sm1)" "lo_view lo = v" "lo_mmap lo = sm_mmap sm"
    "gl1 = gl0\<lparr>gl_standalones := am_update (\<lambda>_. sm1) path (gl_standalones gl0)\<rparr>"
    using assms(1) by (auto simp: load_standalone_def split: prod.splits sum.splits option.splits)
  have "map_of (gl_standalones gl0) path \<noteq> None"
    using s(1) by (auto simp: standalone_for_path_def Let_def am_insert_def map_add_Some_iff hash_map.lookup_remove
        split: option.splits sum.splits)
  then have m: "map_of (gl_standalones gl1) path = Some sm1" using s(5) by (auto simp: lookup_am_update)
  have "sm_view sm1 = Some v" "sm_mmap sm1 = sm_mmap sm"
    using s(2) by (auto simp: standalone_view_def split: option.splits sum.splits)
  then show ?thesis
    using m s(3,4) assms(2)
    by (simp add: load_adapter_def load_standalone_def standalone_for_path_def standalone_view_def)
qed

section \<open>Witness\<close>

definition sample_bundle :: bytes where
  "sample_bundle = galaxy_magic @ [1, 0, 1, 0, 48, 0, 0, 0] @ [48, 0, 0, 0, 0, 0, 0, 0] @
     [2, 0, 0, 0, 0, 0, 0, 0] @ [1, 0, 0, 0, 97] @ replicate 11 0 @ [5, 6]"

theorem galaxy_entries_bounded_witness:
  "\<exists>hdr. parse_galaxy_header (\<lambda>_. []) sample_bundle 16 = Ok hdr \<and> gh_header_size hdr \<le> 50 \<and>
     list_all (\<lambda>(i, e). 16 dvd gx_offset e \<and> gx_offset e + gx_len e \<le> 50) (gh_entries hdr)"
proof -
  have len: "length sample_bundle = 50" by (simp add: sample_bundle_def galaxy_magic_def str_bytes_def)
  have al: "align_up 37 16 = 48" by (simp add: align_up_def)
  have "is_ok (parse_galaxy_header (\<lambda>_. []) sample_bundle 16)"
    by (simp add: parse_galaxy_header_def parse_galaxy_entry_def galaxy_header_uint_def galaxy_header_slice_def
        sample_bundle_def galaxy_magic_def str_bytes_def galaxy_header_fixed_def galaxy_entry_fixed_def
        galaxy_version_def field_def Let_def bytes_str_def al)
  then obtain hdr where h: "parse_galaxy_header (\<lambda>_. []) sample_bundle 16 = Ok hdr" by (auto simp: is_ok_iff)
  from galaxy_entries_bounded [OF h] h len show ?thesis
    by (intro exI [of _ hdr]) (auto simp: list_all_iff)
qed

end
