(* ===== verification/AdapterIntegrity.thy ===== *)
theory AdapterIntegrity
  imports GalaxyLoader
begin

text \<open>
  The check of loaded adapters against what the control plane expects,
  \<open>crates/adapteros-lora-worker/src/adapter_integrity.rs\<close>, with its cache of results. Reading
  file metadata, the JSON parser and the printing of strings for debugging are arguments, and so
  is how the verification task ends: it runs, it times out, or it fails.
\<close>

section \<open>Modes, reasons, errors\<close>

datatype integrity_mode = Integrity_Off | Integrity_Warn | Integrity_Enforce

definition mode_default :: "bool \<Rightarrow> integrity_mode" where
  "mode_default debug_assertions = (if debug_assertions then Integrity_Warn else Integrity_Enforce)"

definition mode_from_env :: "bool \<Rightarrow> string option \<Rightarrow> integrity_mode" where
  "mode_from_env debug_assertions var =
     (case var of
        None \<Rightarrow> mode_default debug_assertions
      | Some s \<Rightarrow>
          (let v = to_lowercase s in
           if v \<in> {''off'', ''disable'', ''disabled''} then Integrity_Off
           else if v = ''warn'' then Integrity_Warn
           else if v \<in> {''enforce'', ''strict'', ''reject''} then Integrity_Enforce
           else mode_default debug_assertions))"

definition mode_is_off :: "integrity_mode \<Rightarrow> bool" where
  "mode_is_off m \<longleftrightarrow> m = Integrity_Off"

definition mode_is_enforce :: "integrity_mode \<Rightarrow> bool" where
  "mode_is_enforce m \<longleftrightarrow> m = Integrity_Enforce"

datatype integrity_reason =
    MissingAdapter | ManifestParseFailed | AdapterIdMismatch | BaseModelMismatch | TierViolation
  | ScopeViolation | HashMismatch | VerifyTimeout | StackHashMismatch

fun reason_as_str :: "integrity_reason \<Rightarrow> string" where
  "reason_as_str MissingAdapter = ''missing_adapter''"
| "reason_as_str ManifestParseFailed = ''manifest_parse_failed''"
| "reason_as_str AdapterIdMismatch = ''adapter_id_mismatch''"
| "reason_as_str BaseModelMismatch = ''base_model_mismatch''"
| "reason_as_str TierViolation = ''tier_violation''"
| "reason_as_str ScopeViolation = ''scope_violation''"
| "reason_as_str HashMismatch = ''hash_mismatch''"
| "reason_as_str VerifyTimeout = ''verify_timeout''"
| "reason_as_str StackHashMismatch = ''stack_hash_mismatch''"

record integrity_error =
  ie_adapter_id :: string
  ie_reason :: integrity_reason
  ie_message :: string
  ie_expected :: "b3hash option"
  ie_actual :: "b3hash option"

datatype manifest_tier = Persistent | Ephemeral

datatype manifest_scope = Scope_Global | Scope_Tenant | Scope_Repo | Scope_Commit

record manifest_info =
  mi_adapter_id :: string
  mi_base_model :: "string option"
  mi_base_model_id :: "string option"
  mi_tier :: "string option"
  mi_scope :: "string option"

record adapter_verification =
  vr_weights_hash :: b3hash
  vr_manifest_hash :: b3hash
  vr_manifest_info :: manifest_info

record expected_metadata =
  em_tier :: "manifest_tier option"
  em_scope :: "manifest_scope option"

text \<open>Path, length and modification time of a file.\<close>

record file_identity =
  fi_path :: string
  fi_len :: u64
  fi_modified :: "nat option"

type_synonym verify_result = "(integrity_error, adapter_verification) result"

record integrity_cache_entry =
  ic_identity :: file_identity
  ic_expected_hash :: b3hash
  ic_outcome :: verify_result

record integrity_verifier =
  iv_tenant_id :: string
  iv_base_model :: string
  iv_expected :: "(string \<times> expected_metadata) list"
  iv_cache :: "(string \<times> integrity_cache_entry) list"
  iv_mode :: integrity_mode

record verify_env =
  ve_hash :: hash_fn
  ve_hex_encode :: "bytes \<Rightarrow> string"
  ve_parse_json :: "bytes \<Rightarrow> string + json"
  ve_debug :: "string \<Rightarrow> string"
  ve_panic :: string

definition verifier_new ::
  "bool \<Rightarrow> string option \<Rightarrow> string \<Rightarrow> string \<Rightarrow> (string \<times> expected_metadata) list \<Rightarrow> integrity_verifier" where
  "verifier_new debug_assertions var tenant_id base_model expected =
     \<lparr>iv_tenant_id = tenant_id, iv_base_model = base_model, iv_expected = expected, iv_cache = [],
      iv_mode = mode_from_env debug_assertions var\<rparr>"

definition verifier_disabled :: "string \<Rightarrow> integrity_verifier" where
  "verifier_disabled tenant_id =
     \<lparr>iv_tenant_id = tenant_id, iv_base_model = [], iv_expected = [], iv_cache = [],
      iv_mode = Integrity_Off\<rparr>"

section \<open>Manifest and hashes\<close>

definition normalize_tier :: "string \<Rightarrow> manifest_tier option" where
  "normalize_tier s =
     (let v = to_lowercase s in
      if v \<in> {''persistent'', ''warm''} then Some Persistent
      else if v = ''ephemeral'' then Some Ephemeral else None)"

definition normalize_scope :: "string \<Rightarrow> manifest_scope option" where
  "normalize_scope s =
     (let v = to_lowercase s in
      if v = ''global'' then Some Scope_Global
      else if v = ''tenant'' then Some Scope_Tenant
      else if v \<in> {''repo'', ''repository'', ''project''} then Some Scope_Repo
      else if v = ''commit'' then Some Scope_Commit else None)"

definition get_str :: "json \<Rightarrow> string \<Rightarrow> string option" where
  "get_str v k = Option.bind (json_get v k) as_str"

definition top_or_metadata :: "json \<Rightarrow> string \<Rightarrow> string option" where
  "top_or_metadata v k =
     (case get_str v k of
        Some s \<Rightarrow> Some s
      | None \<Rightarrow> Option.bind (json_get v ''metadata'') (\<lambda>m. get_str m k))"

definition parse_manifest_info ::
  "verify_env \<Rightarrow> string \<Rightarrow> bytes \<Rightarrow> (integrity_error, manifest_info) result" where
  "parse_manifest_info env i manifest_bytes =
     (let failed = (\<lambda>msg. Err \<lparr>ie_adapter_id = i, ie_reason = ManifestParseFailed, ie_message = msg,
                             ie_expected = None, ie_actual = None\<rparr>) in
      case ve_parse_json env manifest_bytes of
        Inl e \<Rightarrow> failed (''Adapter manifest parse failed: '' @ e)
      | Inr v \<Rightarrow>
          (case get_str v ''adapter_id'' of
             None \<Rightarrow> failed ''Adapter manifest missing adapter_id''
           | Some found \<Rightarrow>
               Ok \<lparr>mi_adapter_id = found, mi_base_model = get_str v ''base_model'',
                   mi_base_model_id = get_str v ''base_model_id'',
                   mi_tier = top_or_metadata v ''tier'', mi_scope = top_or_metadata v ''scope''\<rparr>))"

definition show_opt :: "(string \<Rightarrow> string) \<Rightarrow> string option \<Rightarrow> string" where
  "show_opt dbg v = (case v of None \<Rightarrow> ''None'' | Some s \<Rightarrow> ''Some('' @ dbg s @ '')'')"

fun show_tier :: "manifest_tier \<Rightarrow> string" where
  "show_tier Persistent = ''Persistent''"
| "show_tier Ephemeral = ''Ephemeral''"

fun show_scope :: "manifest_scope \<Rightarrow> string" where
  "show_scope Scope_Global = ''Global''"
| "show_scope Scope_Tenant = ''Tenant''"
| "show_scope Scope_Repo = ''Repo''"
| "show_scope Scope_Commit = ''Commit''"

definition base_model_matches :: "manifest_info \<Rightarrow> string \<Rightarrow> bool" where
  "base_model_matches info expected \<longleftrightarrow>
     mi_base_model info = Some expected \<or> mi_base_model_id info = Some expected"

definition tier_violated :: "manifest_info \<Rightarrow> manifest_tier \<Rightarrow> bool" where
  "tier_violated info expected \<longleftrightarrow> Option.bind (mi_tier info) normalize_tier \<noteq> Some expected"

definition scope_violated :: "manifest_info \<Rightarrow> manifest_scope \<Rightarrow> bool" where
  "scope_violated info expected \<longleftrightarrow> Option.bind (mi_scope info) normalize_scope \<noteq> Some expected"

text \<open>The message of a tier or scope the manifest should not have, if it has one.\<close>

definition tier_error :: "verify_env \<Rightarrow> manifest_info \<Rightarrow> expected_metadata option \<Rightarrow> string option" where
  "tier_error env info expected_meta =
     (case Option.bind expected_meta em_tier of
        None \<Rightarrow> None
      | Some tier \<Rightarrow>
          if tier_violated info tier then
            Some (''Adapter tier '' @ quoted (show_opt (ve_debug env) (mi_tier info)) @
              '' does not match expected '' @ quoted (show_tier tier))
          else None)"

definition scope_error :: "verify_env \<Rightarrow> manifest_info \<Rightarrow> expected_metadata option \<Rightarrow> string option" where
  "scope_error env info expected_meta =
     (case Option.bind expected_meta em_scope of
        None \<Rightarrow> None
      | Some scope \<Rightarrow>
          if scope_violated info scope then
            Some (''Adapter scope '' @ quoted (show_opt (ve_debug env) (mi_scope info)) @
              '' does not match expected '' @ quoted (show_scope scope))
          else None)"

definition verify_manifest_and_hashes ::
  "verify_env \<Rightarrow> string \<Rightarrow> b3hash \<Rightarrow> string \<Rightarrow> expected_metadata option \<Rightarrow> bytes \<Rightarrow> bytes \<Rightarrow> verify_result" where
  "verify_manifest_and_hashes env i expected_hash expected_base_model expected_meta manifest_bytes payload_bytes =
     (let manifest_hash = b3_hash (ve_hash env) manifest_bytes;
          actual = b3_hash (ve_hash env) payload_bytes;
          mismatch = (\<lambda>reason msg expected. Err \<lparr>ie_adapter_id = i, ie_reason = reason, ie_message = msg,
                        ie_expected = expected, ie_actual = Some actual\<rparr>) in
      case parse_manifest_info env i manifest_bytes of
        Err e \<Rightarrow> Err (e\<lparr>ie_actual := Some actual\<rparr>)
      | Ok info \<Rightarrow>
          if mi_adapter_id info \<noteq> i then
            mismatch AdapterIdMismatch (''Adapter manifest adapter_id '' @ quoted (mi_adapter_id info) @
              '' does not match requested '' @ quoted i) None
          else if expected_base_model \<noteq> [] \<and> \<not> base_model_matches info expected_base_model then
            mismatch BaseModelMismatch (''Adapter base_model '' @
              quoted (case mi_base_model info of Some s \<Rightarrow> s
                      | None \<Rightarrow> (case mi_base_model_id info of Some s \<Rightarrow> s | None \<Rightarrow> ''<missing>'')) @
              '' does not match worker base '' @ quoted expected_base_model) None
          else
            (case tier_error env info expected_meta of
               Some msg \<Rightarrow> mismatch TierViolation msg None
             | None \<Rightarrow>
                 (case scope_error env info expected_meta of
                    Some msg \<Rightarrow> mismatch ScopeViolation msg None
                  | None \<Rightarrow>
                      if actual \<noteq> expected_hash then
                        mismatch HashMismatch (''Adapter hash mismatch: expected '' @
                          b3_to_hex (ve_hex_encode env) expected_hash @ '', got '' @
                          b3_to_hex (ve_hex_encode env) actual) (Some expected_hash)
                      else Ok \<lparr>vr_weights_hash = actual, vr_manifest_hash = manifest_hash,
                               vr_manifest_info = info\<rparr>)))"

section \<open>The verification task and its cache\<close>

text \<open>How the blocking task ends. A task that runs fails all the same when the closure panics.\<close>

datatype task_end = Runs | Times_out | Task_fails string

definition verify_with_timeout ::
  "verify_env \<Rightarrow> task_end \<Rightarrow> verify_result option \<Rightarrow> string \<Rightarrow> verify_result" where
  "verify_with_timeout env te verify_fn i =
     (let failed = (\<lambda>reason msg. Err \<lparr>ie_adapter_id = i, ie_reason = reason, ie_message = msg,
                              ie_expected = None, ie_actual = None\<rparr>);
          join_error = (\<lambda>e. failed ManifestParseFailed (''Adapter verification task failed: '' @ e)) in
      case te of
        Runs \<Rightarrow> (case verify_fn of Some r \<Rightarrow> r | None \<Rightarrow> join_error (ve_panic env))
      | Task_fails e \<Rightarrow> join_error e
      | Times_out \<Rightarrow> failed VerifyTimeout ''Adapter verification timed out'')"

type_synonym metadata_fn = "string \<Rightarrow> string + u64 \<times> nat option"

definition file_identity_of :: "metadata_fn \<Rightarrow> string \<Rightarrow> (integrity_error, file_identity) result" where
  "file_identity_of md path =
     (case md path of
        Inl e \<Rightarrow> Err \<lparr>ie_adapter_id = path, ie_reason = MissingAdapter,
                     ie_message = ''Adapter file metadata unavailable: '' @ e,
                     ie_expected = None, ie_actual = None\<rparr>
      | Inr (len, modified) \<Rightarrow> Ok \<lparr>fi_path = path, fi_len = len, fi_modified = modified\<rparr>)"

definition identity_matches :: "file_identity \<Rightarrow> file_identity \<Rightarrow> bool" where
  "identity_matches a b \<longleftrightarrow> fi_path a = fi_path b \<and> fi_len a = fi_len b \<and> fi_modified a = fi_modified b"

definition integrity_expected :: "integrity_verifier \<Rightarrow> string \<Rightarrow> expected_metadata option" where
  "integrity_expected iv i = map_of (iv_expected iv) i"

definition cache_hit :: "integrity_verifier \<Rightarrow> string \<Rightarrow> b3hash \<Rightarrow> file_identity \<Rightarrow> verify_result option" where
  "cache_hit iv i expected_hash ident =
     (case map_of (iv_cache iv) i of
        None \<Rightarrow> None
      | Some entry \<Rightarrow>
          if ic_expected_hash entry \<noteq> expected_hash then None
          else if \<not> identity_matches ident (ic_identity entry) then None
          else Some (ic_outcome entry))"

definition store_cache ::
  "string \<Rightarrow> b3hash \<Rightarrow> file_identity \<Rightarrow> verify_result \<Rightarrow> integrity_verifier \<Rightarrow> integrity_verifier" where
  "store_cache i expected_hash ident r iv =
     iv\<lparr>iv_cache := am_insert i \<lparr>ic_identity = ident, ic_expected_hash = expected_hash, ic_outcome = r\<rparr> (iv_cache iv)\<rparr>"

definition should_cache :: "verify_result \<Rightarrow> bool" where
  "should_cache r = (case r of Ok _ \<Rightarrow> True | Err e \<Rightarrow> ie_reason e \<noteq> VerifyTimeout)"

fun backing_path :: "adapter_backing \<Rightarrow> string" where
  "backing_path (Galaxy path) = path"
| "backing_path (Standalone path) = path"

text \<open>The closure of the task: both slices of the mapping, then the checks.\<close>

definition verify_task :: "verify_env \<Rightarrow> integrity_verifier \<Rightarrow> string \<Rightarrow> b3hash \<Rightarrow> load_outcome \<Rightarrow> verify_result option" where
  "verify_task env iv i expected_hash lo =
     (case manifest_of lo of
        None \<Rightarrow> None
      | Some manifest_bytes \<Rightarrow>
          (case payload_of lo of
             None \<Rightarrow> None
           | Some payload_bytes \<Rightarrow>
               Some (verify_manifest_and_hashes env i expected_hash (iv_base_model iv)
                 (integrity_expected iv i) manifest_bytes payload_bytes)))"

definition verify_outcome ::
  "verify_env \<Rightarrow> metadata_fn \<Rightarrow> task_end \<Rightarrow> string \<Rightarrow> b3hash \<Rightarrow> load_outcome \<Rightarrow> integrity_verifier \<Rightarrow>
    verify_result \<times> integrity_verifier" where
  "verify_outcome env md te i expected_hash lo iv =
     (case file_identity_of md (backing_path (lo_backing lo)) of
        Err e \<Rightarrow> (Err e, iv)
      | Ok ident \<Rightarrow>
          (case cache_hit iv i expected_hash ident of
             Some r \<Rightarrow> (r, iv)
           | None \<Rightarrow>
               (let r = verify_with_timeout env te (verify_task env iv i expected_hash lo) i in
                (r, if should_cache r then store_cache i expected_hash ident r iv else iv))))"

text \<open>A sequence of calls, each with the file metadata and the end of the task it meets.\<close>

record verify_call =
  vc_metadata :: metadata_fn
  vc_task :: task_end
  vc_id :: string
  vc_expected :: b3hash
  vc_outcome :: load_outcome

definition verify_step :: "verify_env \<Rightarrow> integrity_verifier \<Rightarrow> verify_call \<Rightarrow> integrity_verifier" where
  "verify_step env iv c =
     snd (verify_outcome env (vc_metadata c) (vc_task c) (vc_id c) (vc_expected c) (vc_outcome c) iv)"

definition call_identity :: "verify_call \<Rightarrow> (integrity_error, file_identity) result" where
  "call_identity c = file_identity_of (vc_metadata c) (backing_path (lo_backing (vc_outcome c)))"

text \<open>What the call answers without a cache.\<close>

definition verify_fresh :: "verify_env \<Rightarrow> integrity_verifier \<Rightarrow> verify_call \<Rightarrow> verify_result" where
  "verify_fresh env iv c =
     (case call_identity c of
        Err e \<Rightarrow> Err e
      | Ok _ \<Rightarrow> verify_with_timeout env (vc_task c)
                 (verify_task env iv (vc_id c) (vc_expected c) (vc_outcome c)) (vc_id c))"

section \<open>What a positive verification means\<close>

lemma tier_error_none:
  "tier_error env info meta = None \<longleftrightarrow>
    (case meta of None \<Rightarrow> True | Some m \<Rightarrow> em_tier m = None \<or> Option.bind (mi_tier info) normalize_tier = em_tier m)"
  by (auto simp: tier_error_def tier_violated_def split: option.splits)

lemma scope_error_none:
  "scope_error env info meta = None \<longleftrightarrow>
    (case meta of None \<Rightarrow> True | Some m \<Rightarrow> em_scope m = None \<or> Option.bind (mi_scope info) normalize_scope = em_scope m)"
  by (auto simp: scope_error_def scope_violated_def split: option.splits)

lemma verified_cases:
  "verify_manifest_and_hashes env i expected base meta manifest_bytes payload_bytes = Ok v \<longleftrightarrow>
   (\<exists>info. parse_manifest_info env i manifest_bytes = Ok info \<and> mi_adapter_id info = i \<and>
     (base = [] \<or> base_model_matches info base) \<and> tier_error env info meta = None \<and>
     scope_error env info meta = None \<and> b3_hash (ve_hash env) payload_bytes = expected \<and>
     v = \<lparr>vr_weights_hash = expected, vr_manifest_hash = b3_hash (ve_hash env) manifest_bytes,
          vr_manifest_info = info\<rparr>)"
proof (cases "parse_manifest_info env i manifest_bytes")
  case (Inr info)
  then show ?thesis
    by (cases "tier_error env info meta"; cases "scope_error env info meta")
      (auto simp: verify_manifest_and_hashes_def Let_def)
qed (simp add: verify_manifest_and_hashes_def Let_def)

text \<open>
  An adapter is verified exactly when its manifest parses, names the adapter, names the
  worker's base model (unless the worker has none), has the expected tier and scope where the
  control plane gave them, and the payload has the expected hash.
\<close>

theorem integrity_verified_iff:
  "verify_manifest_and_hashes env i expected base meta manifest_bytes payload_bytes = Ok v \<longleftrightarrow>
   (\<exists>info. parse_manifest_info env i manifest_bytes = Ok info \<and> mi_adapter_id info = i \<and>
     (base = [] \<or> mi_base_model info = Some base \<or> mi_base_model_id info = Some base) \<and>
     (case meta of None \<Rightarrow> True | Some m \<Rightarrow>
        (em_tier m = None \<or> Option.bind (mi_tier info) normalize_tier = em_tier m) \<and>
        (em_scope m = None \<or> Option.bind (mi_scope info) normalize_scope = em_scope m)) \<and>
     b3_hash (ve_hash env) payload_bytes = expected \<and>
     v = \<lparr>vr_weights_hash = expected, vr_manifest_hash = b3_hash (ve_hash env) manifest_bytes,
          vr_manifest_info = info\<rparr>)"
  by (cases meta) (auto simp: verified_cases tier_error_none scope_error_none base_model_matches_def)

lemma verified_weights:
  "verify_manifest_and_hashes env i expected base meta mb pb = Ok v \<Longrightarrow>
    vr_weights_hash v = expected \<and> b3_hash (ve_hash env) pb = expected"
  by (auto simp: verified_cases)

section \<open>The cache\<close>

text \<open>What the calls leave as they found it, and where a cached outcome comes from.\<close>

definition same_config :: "integrity_verifier \<Rightarrow> integrity_verifier \<Rightarrow> bool" where
  "same_config iv iv' \<longleftrightarrow> iv_base_model iv' = iv_base_model iv \<and> iv_expected iv' = iv_expected iv \<and>
     iv_tenant_id iv' = iv_tenant_id iv \<and> iv_mode iv' = iv_mode iv"

definition entry_from :: "verify_env \<Rightarrow> integrity_verifier \<Rightarrow> string \<Rightarrow> integrity_cache_entry \<Rightarrow> verify_call \<Rightarrow> bool" where
  "entry_from env iv i e c \<longleftrightarrow> vc_id c = i \<and> vc_expected c = ic_expected_hash e \<and>
     call_identity c = Ok (ic_identity e) \<and> verify_fresh env iv c = ic_outcome e \<and> should_cache (ic_outcome e)"

lemma verify_task_config: "same_config iv iv' \<Longrightarrow> verify_task env iv' = verify_task env iv"
  by (simp add: fun_eq_iff verify_task_def same_config_def integrity_expected_def split: option.split)

lemma verify_fresh_config: "same_config iv iv' \<Longrightarrow> verify_fresh env iv' c = verify_fresh env iv c"
  by (simp add: verify_fresh_def verify_task_config split: sum.split)

lemma verify_step_config: "same_config iv iv' \<Longrightarrow> same_config iv (verify_step env iv' c)"
  by (auto simp: verify_step_def verify_outcome_def store_cache_def same_config_def Let_def
      split: sum.splits option.splits)

lemma verify_step_entry:
  "map_of (iv_cache (verify_step env iv c)) i = Some e \<Longrightarrow>
    map_of (iv_cache iv) i = Some e \<or> entry_from env iv i e c"
  by (auto simp: verify_step_def verify_outcome_def store_cache_def Let_def entry_from_def verify_fresh_def
      call_identity_def lookup_am_insert
      split: sum.splits option.splits if_splits)

lemma cache_entries_from:
  assumes "map_of (iv_cache (foldl (verify_step env) iv cs)) i = Some e" and "iv_cache iv = []"
  shows "same_config iv (foldl (verify_step env) iv cs) \<and> (\<exists>c \<in> set cs. entry_from env iv i e c)"
proof -
  have cfg: "same_config iv (foldl (verify_step env) iv cs)" for cs
    by (induction cs rule: rev_induct) (simp_all add: verify_step_config, simp add: same_config_def)
  have "map_of (iv_cache (foldl (verify_step env) iv cs)) i = Some e \<Longrightarrow> \<exists>c \<in> set cs. entry_from env iv i e c"
  proof (induction cs rule: rev_induct)
    case Nil
    then show ?case using assms(2) by simp
  next
    case (snoc c cs)
    have "entry_from env (foldl (verify_step env) iv cs) i e c \<longleftrightarrow> entry_from env iv i e c"
      by (simp add: entry_from_def verify_fresh_config [OF cfg])
    then show ?case using snoc verify_step_entry [of env "foldl (verify_step env) iv cs" c i e] by auto
  qed
  then show ?thesis using assms(1) cfg by blast
qed

definition verify_call_on :: "verify_env \<Rightarrow> integrity_verifier \<Rightarrow> verify_call \<Rightarrow> verify_result" where
  "verify_call_on env iv c =
     fst (verify_outcome env (vc_metadata c) (vc_task c) (vc_id c) (vc_expected c) (vc_outcome c) iv)"

lemma cache_hit_eq:
  "cache_hit iv i h ident = Some r \<longleftrightarrow>
    (\<exists>e. map_of (iv_cache iv) i = Some e \<and> ic_expected_hash e = h \<and> ic_identity e = ident \<and> ic_outcome e = r)"
  by (auto simp: cache_hit_def identity_matches_def split: option.splits)

text \<open>The answer is the fresh one, or that of an earlier call for the same adapter, hash and file.\<close>

lemma verify_call_cases:
  assumes "iv_cache iv = []"
  shows "verify_call_on env (foldl (verify_step env) iv cs) c = verify_fresh env iv c \<or>
    (\<exists>c' \<in> set cs. vc_id c' = vc_id c \<and> vc_expected c' = vc_expected c \<and> is_ok (call_identity c) \<and>
      call_identity c' = call_identity c \<and> should_cache (verify_fresh env iv c') \<and>
      verify_call_on env (foldl (verify_step env) iv cs) c = verify_fresh env iv c')"
proof -
  let ?iv = "foldl (verify_step env) iv cs"
  have cfg: "same_config iv ?iv"
    by (induction cs rule: rev_induct) (simp_all add: verify_step_config, simp add: same_config_def)
  show ?thesis
  proof (cases "call_identity c")
    case (Inl e)
    then show ?thesis by (simp add: verify_call_on_def verify_outcome_def verify_fresh_def call_identity_def)
  next
    case (Inr ident)
    show ?thesis
    proof (cases "cache_hit ?iv (vc_id c) (vc_expected c) ident")
      case None
      then show ?thesis using Inr
        by (simp add: verify_call_on_def verify_outcome_def verify_fresh_def call_identity_def Let_def
            verify_task_config [OF cfg])
    next
      case (Some r)
      then obtain e where e: "map_of (iv_cache ?iv) (vc_id c) = Some e" "ic_expected_hash e = vc_expected c"
        "ic_identity e = ident" "ic_outcome e = r" by (auto simp: cache_hit_eq)
      then obtain c' where "c' \<in> set cs" "entry_from env iv (vc_id c) e c'"
        using cache_entries_from assms by blast
      moreover have "verify_call_on env ?iv c = r"
        using Some Inr by (simp add: verify_call_on_def verify_outcome_def call_identity_def)
      ultimately show ?thesis using e Inr by (auto simp: entry_from_def)
    qed
  qed
qed

lemma fresh_hashed:
  "verify_fresh env iv c = Ok v \<Longrightarrow> vr_weights_hash v = vc_expected c \<and>
    map_option (b3_hash (ve_hash env)) (payload_of (vc_outcome c)) = Some (vc_expected c)"
  by (auto simp: verify_fresh_def verify_with_timeout_def verify_task_def Let_def
      split: sum.splits task_end.splits option.splits dest: verified_weights)

text \<open>
  (C18) Whatever calls came before, a verification that succeeds carries the hash the control
  plane expects, and the payload was hashed to it, in this call or in an earlier one for the
  same adapter and the same file by path, length and modification time.
\<close>

theorem verified_payload_hashed:
  assumes "verify_call_on env
    (foldl (verify_step env) (verifier_new debug_assertions var tenant_id base_model expected) cs) c = Ok v"
  shows "vr_weights_hash v = vc_expected c \<and>
    (\<exists>c' \<in> set (cs @ [c]). vc_id c' = vc_id c \<and> call_identity c' = call_identity c \<and>
      map_option (b3_hash (ve_hash env)) (payload_of (vc_outcome c')) = Some (vc_expected c))"
proof -
  let ?iv = "verifier_new debug_assertions var tenant_id base_model expected"
  have "iv_cache ?iv = []" by (simp add: verifier_new_def)
  then obtain c' where c': "c' \<in> set (cs @ [c])" "vc_id c' = vc_id c" "call_identity c' = call_identity c"
    "vc_expected c' = vc_expected c" "verify_fresh env ?iv c' = Ok v"
    using verify_call_cases [of ?iv env cs c] assms by force
  from fresh_hashed [OF c'(5)] c' show ?thesis by metis
qed

text \<open>
  (C17) The cache is transparent. When equal paths, lengths and modification times mean equal
  bytes, and no verification task failed, a call whose task runs answers what it would
  have answered without a cache.
\<close>

theorem cached_verification_exact:
  assumes "\<And>c'. c' \<in> set cs \<Longrightarrow> vc_id c' = vc_id c \<Longrightarrow> call_identity c' = call_identity c \<Longrightarrow>
      manifest_of (vc_outcome c') = manifest_of (vc_outcome c) \<and>
      payload_of (vc_outcome c') = payload_of (vc_outcome c)"
    and "\<And>c'. c' \<in> set cs \<Longrightarrow> vc_task c' = Runs \<or> vc_task c' = Times_out" and "vc_task c = Runs"
  shows "verify_call_on env
      (foldl (verify_step env) (verifier_new debug_assertions var tenant_id base_model expected) cs) c =
    verify_fresh env (verifier_new debug_assertions var tenant_id base_model expected) c"
proof -
  let ?iv = "verifier_new debug_assertions var tenant_id base_model expected"
  have "iv_cache ?iv = []" by (simp add: verifier_new_def)
  from verify_call_cases [OF this, of env cs c] show ?thesis
  proof (elim disjE bexE conjE)
    fix c' assume c': "c' \<in> set cs" "vc_id c' = vc_id c" "vc_expected c' = vc_expected c"
      "is_ok (call_identity c)" "call_identity c' = call_identity c" "should_cache (verify_fresh env ?iv c')"
      and eq: "verify_call_on env (foldl (verify_step env) ?iv cs) c = verify_fresh env ?iv c'"
    have "vc_task c' = Runs"
      using assms(2) [OF c'(1)] c'(4-6)
      by (auto simp: should_cache_def verify_fresh_def verify_with_timeout_def Let_def is_ok_iff)
    moreover have "verify_task env ?iv (vc_id c) (vc_expected c) (vc_outcome c') =
        verify_task env ?iv (vc_id c) (vc_expected c) (vc_outcome c)"
      using assms(1) [OF c'(1,2,5)] by (simp add: verify_task_def cong: option.case_cong)
    ultimately show ?thesis using eq c' assms(3) by (simp add: verify_fresh_def split: sum.split)
  qed
qed

text \<open>
  A verification task that fails for a passing reason (the runtime could not run it) is
  cached like a verdict: every later call for the same adapter, hash and file repeats the failure
  without looking at the bytes.
\<close>

theorem task_failure_is_kept:
  assumes "call_identity c = Ok ident" and "vc_task c = Task_fails msg"
    and "cache_hit iv (vc_id c) (vc_expected c) ident = None"
    and "vc_id c' = vc_id c" and "vc_expected c' = vc_expected c" and "call_identity c' = Ok ident"
  shows "verify_call_on env (verify_step env iv c) c' =
    Err \<lparr>ie_adapter_id = vc_id c, ie_reason = ManifestParseFailed,
         ie_message = ''Adapter verification task failed: '' @ msg, ie_expected = None, ie_actual = None\<rparr>"
proof -
  let ?r = "Err \<lparr>ie_adapter_id = vc_id c, ie_reason = ManifestParseFailed,
         ie_message = ''Adapter verification task failed: '' @ msg, ie_expected = None, ie_actual = None\<rparr>"
  have "verify_step env iv c = store_cache (vc_id c) (vc_expected c) ident ?r iv"
    using assms(1-3)
    by (simp add: verify_step_def verify_outcome_def call_identity_def verify_with_timeout_def should_cache_def Let_def)
  then have "cache_hit (verify_step env iv c) (vc_id c) (vc_expected c) ident = Some ?r"
    by (simp add: cache_hit_def store_cache_def lookup_am_insert identity_matches_def)
  then show ?thesis using assms(4-6) by (simp add: verify_call_on_def verify_outcome_def call_identity_def)
qed

section \<open>Witnesses\<close>

definition sample_env :: verify_env where
  "sample_env = \<lparr>ve_hash = (\<lambda>bs. bs), ve_hex_encode = (\<lambda>_. []),
     ve_parse_json = (\<lambda>_. Inr (JObject [(''adapter_id'', JString ''a'')])), ve_debug = (\<lambda>s. s),
     ve_panic = ''panicked''\<rparr>"

definition sample_call :: "task_end \<Rightarrow> verify_call" where
  "sample_call te = \<lparr>vc_metadata = (\<lambda>_. Inr (3, Some 7)), vc_task = te, vc_id = ''a'', vc_expected = [2, 3],
     vc_outcome = \<lparr>lo_view = \<lparr>vw_payload_range = (1, 3), vw_manifest_range = (0, 1), vw_adapter_range = (0, 3)\<rparr>,
       lo_backing = Standalone ''f'', lo_mmap = [1, 2, 3], lo_reused_mapping = False, lo_cached_view = False\<rparr>\<rparr>"

abbreviation sample_verifier :: integrity_verifier where
  "sample_verifier \<equiv> verifier_new True None ''t'' [] []"

lemmas sample_defs = sample_env_def sample_call_def verifier_new_def mode_from_env_def mode_default_def
  verify_fresh_def call_identity_def file_identity_of_def verify_with_timeout_def verify_task_def
  manifest_of_def payload_of_def slice_def field_def integrity_expected_def verify_manifest_and_hashes_def
  parse_manifest_info_def get_str_def top_or_metadata_def tier_error_def scope_error_def b3_hash_def Let_def

lemma sample_fresh: "is_ok (verify_fresh sample_env sample_verifier (sample_call Runs))"
  by (simp add: sample_defs)

theorem cached_verification_exact_witness:
  "verify_call_on sample_env
     (foldl (verify_step sample_env) sample_verifier [sample_call Times_out, sample_call Runs]) (sample_call Runs) =
   verify_fresh sample_env sample_verifier (sample_call Runs) \<and>
   is_ok (verify_fresh sample_env sample_verifier (sample_call Runs))"
proof -
  have same: "vc_outcome (sample_call Times_out) = vc_outcome (sample_call Runs)"
    "vc_task (sample_call te) = te" for te
    by (simp_all add: sample_call_def)
  have "verify_call_on sample_env
     (foldl (verify_step sample_env) sample_verifier [sample_call Times_out, sample_call Runs]) (sample_call Runs) =
   verify_fresh sample_env sample_verifier (sample_call Runs)"
    by (rule cached_verification_exact) (auto simp: same)
  with sample_fresh show ?thesis by simp
qed

theorem verified_payload_hashed_witness:
  "\<exists>v. verify_call_on sample_env sample_verifier (sample_call Runs) = Ok v \<and> vr_weights_hash v = [2, 3]"
proof -
  have "is_ok (verify_call_on sample_env (foldl (verify_step sample_env) sample_verifier []) (sample_call Runs))"
    by (simp add: sample_defs verify_call_on_def verify_outcome_def cache_hit_def)
  then obtain v where v: "verify_call_on sample_env (foldl (verify_step sample_env) sample_verifier [])
      (sample_call Runs) = Ok v" by (auto simp: is_ok_iff)
  from verified_payload_hashed [OF v] v show ?thesis by (auto simp: sample_call_def)
qed

theorem task_failure_is_kept_witness:
  "verify_call_on sample_env (verify_step sample_env sample_verifier (sample_call (Task_fails ''shutdown'')))
     (sample_call Runs) =
   Err \<lparr>ie_adapter_id = ''a'', ie_reason = ManifestParseFailed,
        ie_message = ''Adapter verification task failed: shutdown'', ie_expected = None, ie_actual = None\<rparr>"
  using task_failure_is_kept [of "sample_call (Task_fails ''shutdown'')"
      "\<lparr>fi_path = ''f'', fi_len = 3, fi_modified = Some 7\<rparr>" "''shutdown''" sample_verifier "sample_call Runs" sample_env]
  by (simp add: sample_call_def call_identity_def file_identity_of_def cache_hit_def verifier_new_def)

end
