(* ===== verification/HotSwapManager.thy ===== *)
theory HotSwapManager
  imports CacheBudget AdapterIntegrity
begin

text \<open>
  The hot-swap manager, \<open>HotSwapManager\<close> of
  \<open>crates/adapteros-lora-worker/src/adapter_hotswap.rs\<close>: it puts the adapter table, the loader,
  the integrity verifier and the kernels together behind the commands of the control plane. What
  the surroundings do during a call (files, tasks, other users of the table while a swap
  waits) is a record of arguments. Telemetry, durations and the GPU fingerprints that only a macOS
  build stores are left out.
\<close>

section \<open>Data\<close>

text \<open>What the manager reads of a parsed manifest; the scaling factor as its bits.\<close>

record archive_manifest =
  mf_adapter_id :: string
  mf_rank :: u32
  mf_alpha :: u32
  mf_target_modules :: "string list"
  mf_base_model :: string
  mf_base_model_id :: "string option"

record load_metadata =
  lm_adapter_id :: string
  lm_rank :: u32
  lm_alpha :: u32
  lm_target_modules :: "string list"
  lm_base_model :: "string option"
  lm_base_model_id :: "string option"

record 'k manager =
  mg_table :: adapter_table
  mg_kernels :: "'k option"
  mg_integrity :: integrity_verifier
  mg_loader :: galaxy_loader

record 'k manager_env =
  me_ops :: "'k kernel_ops"
  me_load :: "16 word \<Rightarrow> bytes \<Rightarrow> load_metadata \<Rightarrow> 'k \<Rightarrow> (aos_error, unit) result \<times> 'k"
  me_buffer_size :: "16 word \<Rightarrow> 'k \<Rightarrow> (aos_error, u64) result"
  me_fingerprints :: "'k \<Rightarrow> 16 word \<Rightarrow> (u64 \<times> b3hash) option"
  me_verify :: verify_env
  me_parse_manifest :: "bytes \<Rightarrow> string + archive_manifest"
  me_path :: "string \<Rightarrow> string"
  me_tenant_root :: string
  me_within_root :: "string \<Rightarrow> bool"
  me_show_duration :: "nat \<Rightarrow> string"
  me_show_error :: "aos_error \<Rightarrow> string"

text \<open>
  What a call meets: the files, how blocking tasks end, the clocks, the tables that the
  polls of a waiting swap see, what others do to the table between the wait and the swap, and the
  memory monitor (available megabytes and whether pressure is critical), if there is one.
\<close>

record surroundings =
  su_files :: files
  su_metadata :: metadata_fn
  su_verify_task :: "string \<Rightarrow> task_end"
  su_load_task :: "string \<Rightarrow> string option"
  su_instant :: nat
  su_clock :: u64
  su_polls :: "adapter_table \<Rightarrow> (adapter_table \<times> nat) list"
  su_between :: "adapter_table \<Rightarrow> adapter_table"
  su_memory :: "(u64 \<times> bool) option"

abbreviation env_hash :: "'k manager_env \<Rightarrow> hash_fn" where
  "env_hash env \<equiv> ve_hash (me_verify env)"

abbreviation env_hex :: "'k manager_env \<Rightarrow> bytes \<Rightarrow> string" where
  "env_hex env \<equiv> ve_hex_encode (me_verify env)"

abbreviation slot_of :: "'k manager_env \<Rightarrow> string \<Rightarrow> 16 word" where
  "slot_of env i \<equiv> adapter_id_to_u16 (env_hash env) i"

record memory_state_entry =
  ms_id :: string
  ms_vram_mb :: u64
  ms_active :: bool

record memory_state =
  ms_total_vram_mb :: u64
  ms_active_adapters :: "memory_state_entry list"

record adapter_command_result =
  cr_success :: bool
  cr_message :: string
  cr_vram_delta_mb :: "64 word option"
  cr_stack_hash :: "b3hash option"
  cr_memory_state :: "memory_state option"
  cr_reject_reason :: "string option"

datatype adapter_command =
    Preload string b3hash
  | Swap "string list" "string list" "b3hash option"
  | Rollback
  | VerifyStack

definition memory_state_of :: "'k manager \<Rightarrow> memory_state" where
  "memory_state_of mg =
     \<lparr>ms_total_vram_mb = total_vram_mb (mg_table mg),
      ms_active_adapters =
        map (\<lambda>e. \<lparr>ms_id = al_id (snd e), ms_vram_mb = al_vram_mb (snd e), ms_active = al_active (snd e)\<rparr>)
          (tb_active (mg_table mg))\<rparr>"

definition rejection_result :: "integrity_error \<Rightarrow> b3hash option \<Rightarrow> 'k manager \<Rightarrow> adapter_command_result" where
  "rejection_result err stack_hash mg =
     \<lparr>cr_success = False, cr_message = ie_message err, cr_vram_delta_mb = None, cr_stack_hash = stack_hash,
      cr_memory_state = Some (memory_state_of mg), cr_reject_reason = Some (reason_as_str (ie_reason err))\<rparr>"

definition new_metadata_only :: "nat \<Rightarrow> string \<Rightarrow> string \<Rightarrow> 'k manager" where
  "new_metadata_only system_page_size version tenant_id =
     \<lparr>mg_table = table_new version, mg_kernels = None, mg_integrity = verifier_disabled tenant_id,
      mg_loader = loader_new system_page_size\<rparr>"

section \<open>Integrity of a swap\<close>

definition should_reject_integrity :: "integrity_mode \<Rightarrow> integrity_error \<Rightarrow> bool" where
  "should_reject_integrity mode err \<longleftrightarrow>
     ie_reason err \<in> {MissingAdapter, ManifestParseFailed} \<or> mode_is_enforce mode"

definition missing_adapter_error :: "string \<Rightarrow> string \<Rightarrow> integrity_error" where
  "missing_adapter_error i msg =
     \<lparr>ie_adapter_id = i, ie_reason = MissingAdapter, ie_message = msg, ie_expected = None, ie_actual = None\<rparr>"

definition not_preloaded :: "string \<Rightarrow> integrity_error" where
  "not_preloaded i = missing_adapter_error i
     (''Hot-swap aborted: adapter '' @ quoted i @ '' was not preloaded into staging'')"

definition parse_failed :: "string \<Rightarrow> string \<Rightarrow> integrity_error" where
  "parse_failed i msg =
     \<lparr>ie_adapter_id = i, ie_reason = ManifestParseFailed, ie_message = msg, ie_expected = None, ie_actual = None\<rparr>"

text \<open>The blocking task around the loader; \<open>Inl\<close> is the message of a task that failed.\<close>

definition load_blocking ::
  "'k manager_env \<Rightarrow> surroundings \<Rightarrow> string \<Rightarrow> galaxy_loader \<Rightarrow>
   (string + (aos_error, load_outcome) result) \<times> galaxy_loader" where
  "load_blocking env su i gl =
     (case su_load_task su i of
        Some msg \<Rightarrow> (Inl msg, gl)
      | None \<Rightarrow>
          (case load_adapter (env_hash env) (su_files su) i (me_path env i) gl of
             None \<Rightarrow> (Inl (ve_panic (me_verify env)), gl)
           | Some (r, gl1) \<Rightarrow> (Inr r, gl1)))"

definition load_error_of :: "'k manager_env \<Rightarrow> string \<Rightarrow> aos_error \<Rightarrow> integrity_error" where
  "load_error_of env i err =
     (case err of
        ENotFound _ \<Rightarrow> missing_adapter_error i
          (''Adapter file not found for '' @ quoted i @ '' at '' @ quoted (me_path env i))
      | _ \<Rightarrow> parse_failed i (''Adapter verification load failed: '' @ me_show_error env err))"

fun verify_add_ids_for_swap ::
  "'k manager_env \<Rightarrow> surroundings \<Rightarrow> string list \<Rightarrow> 'k manager \<Rightarrow>
   (integrity_error, unit) result \<times> 'k manager" where
  "verify_add_ids_for_swap env su [] mg = (Ok (), mg)"
| "verify_add_ids_for_swap env su (i # ids) mg =
     (case staged_expected_hash (mg_table mg) i of
        None \<Rightarrow> (Err (not_preloaded i), mg)
      | Some expected_hash \<Rightarrow>
          (case load_blocking env su i (mg_loader mg) of
             (Inl msg, gl) \<Rightarrow>
               (Err (parse_failed i (''Adapter verification task failed: '' @ msg)), mg\<lparr>mg_loader := gl\<rparr>)
           | (Inr (Err err), gl) \<Rightarrow> (Err (load_error_of env i err), mg\<lparr>mg_loader := gl\<rparr>)
           | (Inr (Ok outcome), gl) \<Rightarrow>
               (let (r, iv) = verify_outcome (me_verify env) (su_metadata su) (su_verify_task su i) i
                                expected_hash outcome (mg_integrity mg);
                    mg1 = mg\<lparr>mg_loader := gl, mg_integrity := iv\<rparr> in
                case r of
                  Ok v \<Rightarrow>
                    verify_add_ids_for_swap env su ids
                      (mg1\<lparr>mg_table := update_staged_hash i (vr_weights_hash v) (mg_table mg1)\<rparr>)
                | Err err \<Rightarrow>
                    (let mg2 = (case ie_actual err of
                                  Some actual \<Rightarrow> mg1\<lparr>mg_table := update_staged_hash i actual (mg_table mg1)\<rparr>
                                | None \<Rightarrow> mg1) in
                     if should_reject_integrity (iv_mode (mg_integrity mg)) err then (Err err, mg2)
                     else verify_add_ids_for_swap env su ids mg2))))"

fun stack_entries_with ::
  "adapter_map \<Rightarrow> string list \<Rightarrow> (string \<times> b3hash) list \<Rightarrow> (integrity_error, (string \<times> b3hash) list) result" where
  "stack_entries_with staged [] es = Ok es"
| "stack_entries_with staged (i # ids) es =
     (case map_of staged i of
        None \<Rightarrow> Err (not_preloaded i)
      | Some al \<Rightarrow> stack_entries_with staged ids (am_insert i (al_hash al) es))"

definition compute_stack_hash_with ::
  "'k manager_env \<Rightarrow> string list \<Rightarrow> string list \<Rightarrow> adapter_table \<Rightarrow> (integrity_error, b3hash) result" where
  "compute_stack_hash_with env add_ids remove_ids tb =
     (case stack_entries_with (tb_staged tb) add_ids
             (foldl (\<lambda>es i. am_remove i es) (map (\<lambda>e. (fst e, al_hash (snd e))) (tb_active tb)) remove_ids) of
        Err e \<Rightarrow> Err e
      | Ok es \<Rightarrow> Ok (compute_stack_hash (env_hash env) (env_hex env) es))"

definition stack_mismatch :: "'k manager_env \<Rightarrow> b3hash \<Rightarrow> b3hash \<Rightarrow> integrity_error" where
  "stack_mismatch env expected predicted =
     \<lparr>ie_adapter_id = ''stack'', ie_reason = StackHashMismatch,
      ie_message = ''Adapter stack hash mismatch: expected '' @ b3_to_hex (env_hex env) expected @
        '', got '' @ b3_to_hex (env_hex env) predicted,
      ie_expected = Some expected, ie_actual = Some predicted\<rparr>"

definition check_swap_integrity ::
  "'k manager_env \<Rightarrow> surroundings \<Rightarrow> string list \<Rightarrow> string list \<Rightarrow> b3hash option \<Rightarrow> 'k manager \<Rightarrow>
   (integrity_error, unit) result \<times> 'k manager" where
  "check_swap_integrity env su add_ids remove_ids expected_stack_hash mg =
     (case find (\<lambda>i. staged_expected_hash (mg_table mg) i = None) add_ids of
        Some missing \<Rightarrow> (Err (not_preloaded missing), mg)
      | None \<Rightarrow>
          if \<not> mode_is_off (iv_mode (mg_integrity mg)) \<or> expected_stack_hash \<noteq> None then
            (case verify_add_ids_for_swap env su add_ids mg of
               (Err e, mg1) \<Rightarrow> (Err e, mg1)
             | (Ok _, mg1) \<Rightarrow>
                 (case expected_stack_hash of
                    None \<Rightarrow> (Ok (), mg1)
                  | Some expected \<Rightarrow>
                      (case compute_stack_hash_with env add_ids remove_ids (mg_table mg1) of
                         Err e \<Rightarrow> (Err e, mg1)
                       | Ok predicted \<Rightarrow>
                           if predicted \<noteq> expected then (Err (stack_mismatch env expected predicted), mg1)
                           else (Ok (), mg1))))
          else (Ok (), mg))"

section \<open>The steps of a swap\<close>

fun first_occurrences :: "'a list \<Rightarrow> 'a list \<Rightarrow> 'a list" where
  "first_occurrences seen [] = []"
| "first_occurrences seen (x # xs) =
     (if x \<in> set seen then first_occurrences seen xs else x # first_occurrences (x # seen) xs)"

definition staged_adds_for_swap :: "string list \<Rightarrow> adapter_table \<Rightarrow> string list" where
  "staged_adds_for_swap add_ids tb =
     filter (\<lambda>i. map_of (tb_staged tb) i \<noteq> None \<and> map_of (tb_active tb) i = None) (first_occurrences [] add_ids)"

text \<open>Detach every adapter of a list; failures are only logged.\<close>

fun detach_each :: "'k kernel_ops \<Rightarrow> hash_fn \<Rightarrow> string list \<Rightarrow> 'k \<Rightarrow> 'k" where
  "detach_each ko H [] k = k"
| "detach_each ko H (i # ids) k = detach_each ko H ids (snd (ko_detach ko (adapter_id_to_u16 H i) k))"

definition cleanup_staged_on_failure :: "'k manager_env \<Rightarrow> string list \<Rightarrow> 'k manager \<Rightarrow> 'k manager" where
  "cleanup_staged_on_failure env add_ids mg =
     (let tb = mg_table mg; staged_adds = staged_adds_for_swap add_ids tb in
      if staged_adds = [] then mg
      else mg\<lparr>mg_kernels := map_option (detach_each (me_ops env) (env_hash env) staged_adds) (mg_kernels mg),
              mg_table := tb\<lparr>tb_staged := foldl (\<lambda>m i. am_remove i m) (tb_staged tb) staged_adds,
                            tb_refcounts := foldl (\<lambda>m i. am_remove i m) (tb_refcounts tb) staged_adds\<rparr>\<rparr>)"

fun attach_each ::
  "'k kernel_ops \<Rightarrow> hash_fn \<Rightarrow> string list \<Rightarrow> 'k \<Rightarrow> (aos_error, unit) result \<times> 'k" where
  "attach_each ko H [] k = (Ok (), k)"
| "attach_each ko H (i # ids) k =
     (case ko_attach ko (adapter_id_to_u16 H i) k of
        (Err e, k1) \<Rightarrow> (Err e, k1)
      | (Ok _, k1) \<Rightarrow> attach_each ko H ids k1)"

definition attach_staged_for_swap ::
  "'k manager_env \<Rightarrow> string list \<Rightarrow> 'k manager \<Rightarrow> (aos_error, unit) result \<times> 'k manager" where
  "attach_staged_for_swap env add_ids mg =
     (case mg_kernels mg of
        None \<Rightarrow> (Ok (), mg)
      | Some k \<Rightarrow>
          (let (r, k1) = attach_each (me_ops env) (env_hash env) (staged_adds_for_swap add_ids (mg_table mg)) k in
           (r, mg\<lparr>mg_kernels := Some k1\<rparr>)))"

definition detach_removed_after_swap :: "'k manager_env \<Rightarrow> string list \<Rightarrow> 'k manager \<Rightarrow> 'k manager" where
  "detach_removed_after_swap env remove_ids mg =
     mg\<lparr>mg_kernels := map_option (detach_each (me_ops env) (env_hash env)
          (filter (\<lambda>i. map_of (tb_active (mg_table mg)) i = None) (first_occurrences [] remove_ids))) (mg_kernels mg)\<rparr>"

definition hint_switch_adapter_after_swap :: "'k manager_env \<Rightarrow> string list \<Rightarrow> 'k manager \<Rightarrow> 'k manager" where
  "hint_switch_adapter_after_swap env add_ids mg =
     (case add_ids of
        [i] \<Rightarrow>
          if length (tb_active (mg_table mg)) = 1 \<and> map_of (tb_active (mg_table mg)) i \<noteq> None
          then mg\<lparr>mg_kernels := map_option (\<lambda>k. snd (ko_switch (me_ops env) (slot_of env i) k)) (mg_kernels mg)\<rparr>
          else mg
      | _ \<Rightarrow> mg)"

text \<open>The wait and the table that its last poll sees.\<close>

fun wait_end ::
  "(nat \<Rightarrow> string) \<Rightarrow> string list \<Rightarrow> nat \<Rightarrow> (adapter_table \<times> nat) list \<Rightarrow>
   ((aos_error, unit) result \<times> adapter_table) option" where
  "wait_end show_duration ids timeout [] = None"
| "wait_end show_duration ids timeout (poll # polls) =
     (case wait_for_zero_refs show_duration ids timeout [poll] of
        Some r \<Rightarrow> Some (r, fst poll)
      | None \<Rightarrow> wait_end show_duration ids timeout polls)"

datatype swap_end = Swap_rejected integrity_error | Swap_failed aos_error | Swapped "64 word" nat

text \<open>Integrity, the wait of two seconds, attaching, the swap of the table, detaching.\<close>

definition swap_steps ::
  "'k manager_env \<Rightarrow> surroundings \<Rightarrow> string list \<Rightarrow> string list \<Rightarrow> b3hash option \<Rightarrow> 'k manager \<Rightarrow>
   (swap_end \<times> 'k manager) option" where
  "swap_steps env su add_ids remove_ids expected_stack_hash mg =
     (case check_swap_integrity env su add_ids remove_ids expected_stack_hash mg of
        (Err err, mg1) \<Rightarrow> Some (Swap_rejected err, cleanup_staged_on_failure env add_ids mg1)
      | (Ok _, mg1) \<Rightarrow>
          (case (if remove_ids = [] then Some (Ok (), mg_table mg1)
                 else wait_end (me_show_duration env) remove_ids 2000000000 (su_polls su (mg_table mg1))) of
             None \<Rightarrow> None
           | Some (Err e, tb) \<Rightarrow>
               Some (Swap_failed e, cleanup_staged_on_failure env add_ids (mg1\<lparr>mg_table := tb\<rparr>))
           | Some (Ok _, tb) \<Rightarrow>
               (case attach_staged_for_swap env add_ids (mg1\<lparr>mg_table := su_between su tb\<rparr>) of
                  (Err e, mg2) \<Rightarrow> Some (Swap_failed e, cleanup_staged_on_failure env add_ids mg2)
                | (Ok _, mg2) \<Rightarrow>
                    (case swap (su_clock su) add_ids remove_ids (mg_table mg2) of
                       (Err e, tb1) \<Rightarrow>
                         Some (Swap_failed e, cleanup_staged_on_failure env add_ids (mg2\<lparr>mg_table := tb1\<rparr>))
                     | (Ok (delta, added), tb1) \<Rightarrow>
                         Some (Swapped delta added,
                           hint_switch_adapter_after_swap env add_ids
                             (detach_removed_after_swap env remove_ids (mg2\<lparr>mg_table := tb1\<rparr>)))))))"

definition swap_with_expected_hash ::
  "'k manager_env \<Rightarrow> surroundings \<Rightarrow> string list \<Rightarrow> string list \<Rightarrow> b3hash option \<Rightarrow> 'k manager \<Rightarrow>
   ((aos_error, 64 word \<times> nat) result \<times> 'k manager) option" where
  "swap_with_expected_hash env su add_ids remove_ids expected_stack_hash mg =
     map_option (\<lambda>(r, mg1).
       (case r of
          Swap_rejected err \<Rightarrow> Err (EWorker (''Adapter integrity reject ('' @ reason_as_str (ie_reason err) @
            ''): '' @ ie_message err))
        | Swap_failed e \<Rightarrow> Err e
        | Swapped delta added \<Rightarrow> Ok (delta, added), mg1))
       (swap_steps env su add_ids remove_ids expected_stack_hash mg)"

definition manager_swap ::
  "'k manager_env \<Rightarrow> surroundings \<Rightarrow> string list \<Rightarrow> string list \<Rightarrow> 'k manager \<Rightarrow>
   ((aos_error, 64 word \<times> nat) result \<times> 'k manager) option" where
  "manager_swap env su add_ids remove_ids mg = swap_with_expected_hash env su add_ids remove_ids None mg"

section \<open>Commands\<close>

text \<open>The GPU fingerprints of the active adapters.\<close>

definition collect_fingerprints :: "'k manager_env \<Rightarrow> 'k \<Rightarrow> adapter_table \<Rightarrow> gpu_fingerprint list" where
  "collect_fingerprints env k tb =
     List.map_filter (\<lambda>e. map_option (\<lambda>(buffer_bytes, h).
         \<lparr>gf_adapter_id = al_id (snd e), gf_buffer_bytes = buffer_bytes, gf_checkpoint_hash = h\<rparr>)
       (me_fingerprints env k (slot_of env (al_id (snd e))))) (tb_active tb)"

definition show_debug_list :: "(string \<Rightarrow> string) \<Rightarrow> string list \<Rightarrow> string" where
  "show_debug_list dbg xs = ''['' @ join_with '', '' (map dbg xs) @ '']''"

definition execute_swap ::
  "'k manager_env \<Rightarrow> surroundings \<Rightarrow> string list \<Rightarrow> string list \<Rightarrow> b3hash option \<Rightarrow> 'k manager \<Rightarrow>
   ((aos_error, adapter_command_result) result \<times> 'k manager) option" where
  "execute_swap env su add_ids remove_ids expected_stack_hash mg =
     (case swap_steps env su add_ids remove_ids expected_stack_hash mg of
        None \<Rightarrow> None
      | Some (Swap_rejected err, mg1) \<Rightarrow> Some (Ok (rejection_result err (ie_actual err) mg1), mg1)
      | Some (Swap_failed e, mg1) \<Rightarrow> Some (Err e, mg1)
      | Some (Swapped delta added, mg1) \<Rightarrow>
          (let stack_hash = table_stack_hash (env_hash env) (env_hex env) (mg_table mg1);
               (cross, tb2) =
                 (case mg_kernels mg1 of
                    None \<Rightarrow> (None, mg_table mg1)
                  | Some k \<Rightarrow>
                      (let fps = collect_fingerprints env k (mg_table mg1) in
                       if fps = [] then (None, mg_table mg1)
                       else (let (cp, tb) = create_checkpoint (env_hash env) (env_hex env) (su_clock su) fps (mg_table mg1)
                             in (cp_cross_layer_hash cp, tb))));
               mg2 = mg1\<lparr>mg_table := tb2\<rparr> in
           Some (Ok \<lparr>cr_success = True,
                     cr_message = ''Swapped: +'' @ show_debug_list (ve_debug (me_verify env)) add_ids @ '' / -'' @
                       show_debug_list (ve_debug (me_verify env)) remove_ids,
                     cr_vram_delta_mb = Some delta,
                     cr_stack_hash = (case cross of Some h \<Rightarrow> Some h | None \<Rightarrow> Some stack_hash),
                     cr_memory_state = Some (memory_state_of mg2), cr_reject_reason = None\<rparr>, mg2)))"

definition execute_rollback ::
  "'k manager_env \<Rightarrow> surroundings \<Rightarrow> 'k manager \<Rightarrow> (aos_error, adapter_command_result) result \<times> 'k manager" where
  "execute_rollback env su mg =
     (case rollback (su_clock su) (mg_table mg) of
        (Err e, tb) \<Rightarrow> (Err e, mg\<lparr>mg_table := tb\<rparr>)
      | (Ok _, tb) \<Rightarrow>
          (let mg1 = mg\<lparr>mg_table := tb\<rparr> in
           (Ok \<lparr>cr_success = True, cr_message = ''Rolled back to last verified state'', cr_vram_delta_mb = None,
                cr_stack_hash = Some (table_stack_hash (env_hash env) (env_hex env) tb),
                cr_memory_state = Some (memory_state_of mg1), cr_reject_reason = None\<rparr>, mg1)))"

text \<open>The comparison with the latest checkpoint is only logged; a new checkpoint is made always.\<close>

definition execute_verify_stack ::
  "'k manager_env \<Rightarrow> surroundings \<Rightarrow> 'k manager \<Rightarrow> (aos_error, adapter_command_result) result \<times> 'k manager" where
  "execute_verify_stack env su mg =
     (let stack_hash = table_stack_hash (env_hash env) (env_hex env) (mg_table mg);
          (cross, tb1) =
            (case mg_kernels mg of
               None \<Rightarrow> (None, mg_table mg)
             | Some k \<Rightarrow>
                 (let (cp, tb) = create_checkpoint (env_hash env) (env_hex env) (su_clock su)
                                   (collect_fingerprints env k (mg_table mg)) (mg_table mg)
                  in (cp_cross_layer_hash cp, tb)));
          mg1 = mg\<lparr>mg_table := tb1\<rparr> in
      (Ok \<lparr>cr_success = True, cr_message = ''Stack verified (with GPU integrity check)'',
           cr_vram_delta_mb = None,
           cr_stack_hash = (case cross of Some h \<Rightarrow> Some h | None \<Rightarrow> Some stack_hash),
           cr_memory_state = Some (memory_state_of mg1), cr_reject_reason = None\<rparr>, mg1))"

subsection \<open>Preloading\<close>

text \<open>A stage of the command ends with a value, a rejection or an error.\<close>

datatype 'a stage = Go 'a | Reject integrity_error | Fail aos_error

definition isolation_error :: "'k manager_env \<Rightarrow> string \<Rightarrow> aos_error" where
  "isolation_error env path =
     EIsolationViolation (''Tenant isolation violation: adapter path '' @ quoted path @
       '' is outside tenant root '' @ quoted (me_tenant_root env) @ ''. This is a security '' @
       ''violation - adapters must reside within their tenant's directory.'')"

definition preload_load ::
  "'k manager_env \<Rightarrow> surroundings \<Rightarrow> string \<Rightarrow> b3hash \<Rightarrow> 'k manager \<Rightarrow> load_outcome option stage \<times> 'k manager" where
  "preload_load env su i h mg =
     (if mg_kernels mg = None \<and> mode_is_off (iv_mode (mg_integrity mg)) then (Go None, mg)
      else
        (case load_blocking env su i (mg_loader mg) of
           (Inl msg, gl) \<Rightarrow>
             (Fail (EWorker (''Adapter preload failed: galaxy loader join error: '' @ msg)), mg\<lparr>mg_loader := gl\<rparr>)
         | (Inr (Err err), gl) \<Rightarrow>
             (case err of
                ENotFound _ \<Rightarrow>
                  Reject ((missing_adapter_error i (''Adapter file not found for '' @ quoted i @ '' at '' @
                    quoted (me_path env i)))\<lparr>ie_expected := Some h\<rparr>)
              | _ \<Rightarrow> Fail err, mg\<lparr>mg_loader := gl\<rparr>)
         | (Inr (Ok outcome), gl) \<Rightarrow> (Go (Some outcome), mg\<lparr>mg_loader := gl\<rparr>)))"

definition preload_manifest :: "'k manager_env \<Rightarrow> string \<Rightarrow> load_outcome \<Rightarrow> archive_manifest stage option" where
  "preload_manifest env i outcome =
     map_option (\<lambda>manifest_bytes.
       case me_parse_manifest env manifest_bytes of
         Inl e \<Rightarrow> Reject (parse_failed i (''Adapter manifest parse failed for '' @ quoted (me_path env i) @ '': '' @ e))
       | Inr manifest \<Rightarrow> Go manifest)
       (manifest_of outcome)"

text \<open>
  The observed hash of the weights; without verification the manifest has to parse. \<open>None\<close> is a
  slice out of range.
\<close>

definition preload_verify ::
  "'k manager_env \<Rightarrow> surroundings \<Rightarrow> string \<Rightarrow> b3hash \<Rightarrow> load_outcome option \<Rightarrow> 'k manager \<Rightarrow>
   (b3hash stage \<times> 'k manager) option" where
  "preload_verify env su i h outcome mg =
     (if \<not> mode_is_off (iv_mode (mg_integrity mg)) then
        (case outcome of
           None \<Rightarrow> Some (Fail (EWorker (''Adapter preload failed: integrity verification requires '' @
                     ''adapter load outcome'')), mg)
         | Some lo \<Rightarrow>
             (let (r, iv) = verify_outcome (me_verify env) (su_metadata su) (su_verify_task su i) i h lo (mg_integrity mg) in
              Some (case r of
                      Ok v \<Rightarrow> Go (vr_weights_hash v)
                    | Err err \<Rightarrow>
                        if should_reject_integrity (iv_mode (mg_integrity mg)) err then Reject err
                        else Go (case ie_actual err of Some actual \<Rightarrow> actual | None \<Rightarrow> h),
                    mg\<lparr>mg_integrity := iv\<rparr>)))
      else
        (case outcome of
           None \<Rightarrow> Some (Go h, mg)
         | Some lo \<Rightarrow>
             (case preload_manifest env i lo of
                None \<Rightarrow> None
              | Some (Reject err) \<Rightarrow> Some (Reject err, mg)
              | Some (Fail e) \<Rightarrow> Some (Fail e, mg)
              | Some (Go _) \<Rightarrow> Some (Go h, mg))))"

definition load_metadata_of :: "string \<Rightarrow> archive_manifest \<Rightarrow> load_metadata" where
  "load_metadata_of i manifest =
     \<lparr>lm_adapter_id = (if mf_adapter_id manifest = [] then i else mf_adapter_id manifest),
      lm_rank = mf_rank manifest, lm_alpha = mf_alpha manifest, lm_target_modules = mf_target_modules manifest,
      lm_base_model = (if mf_base_model manifest = [] then None else Some (mf_base_model manifest)),
      lm_base_model_id = mf_base_model_id manifest\<rparr>"

definition memory_error :: "surroundings \<Rightarrow> string \<Rightarrow> u64 \<Rightarrow> aos_error option" where
  "memory_error su i estimated_mb =
     (case su_memory su of
        None \<Rightarrow> None
      | Some (available_mb, critical) \<Rightarrow>
          if estimated_mb > available_mb then
            Some (EMemoryPressure (''Adapter preload blocked: insufficient VRAM for adapter '' @ quoted i @
              ''. Requires ~'' @ show_u64 estimated_mb @ ''MB but only '' @ show_u64 available_mb @
              ''MB available. Unload other adapters or reduce active adapter count.''))
          else if critical then
            Some (EMemoryPressure (''Adapter preload blocked: critical memory pressure detected. Cannot load adapter '' @
              quoted i @ '' (requires ~'' @ show_u64 estimated_mb @ ''MB). System is under severe memory stress. '' @
              ''Wait for memory to free up or terminate other processes.''))
          else None)"

text \<open>Loading and attaching; a failure of either detaches the slot again.\<close>

definition kernel_load ::
  "'k manager_env \<Rightarrow> string \<Rightarrow> bytes \<Rightarrow> load_metadata \<Rightarrow> 'k \<Rightarrow> (aos_error, u64) result \<times> 'k" where
  "kernel_load env i weights metadata k =
     (case me_load env (slot_of env i) weights metadata k of
        (Err e, k1) \<Rightarrow> (Err e, snd (ko_detach (me_ops env) (slot_of env i) k1))
      | (Ok _, k1) \<Rightarrow>
          (case ko_attach (me_ops env) (slot_of env i) k1 of
             (Err e, k2) \<Rightarrow> (Err e, snd (ko_detach (me_ops env) (slot_of env i) k2))
           | (Ok _, k2) \<Rightarrow>
               (Ok (max ((case me_buffer_size env (slot_of env i) k2 of
                            Ok buffer_size \<Rightarrow> buffer_size | Err _ \<Rightarrow> of_nat (length weights)) div bytes_per_mb) 1), k2)))"

definition preload_kernels ::
  "'k manager_env \<Rightarrow> surroundings \<Rightarrow> string \<Rightarrow> load_outcome option \<Rightarrow> 'k manager \<Rightarrow>
   ((u64 \<times> adapter_backing option) stage \<times> 'k manager) option" where
  "preload_kernels env su i outcome mg =
     (case mg_kernels mg of
        None \<Rightarrow> Some (Go (24, None), mg)
      | Some _ \<Rightarrow>
          (case outcome of
             None \<Rightarrow> Some (Fail (EWorker ''Adapter preload failed: missing adapter load outcome''), mg)
           | Some lo \<Rightarrow>
               (case preload_manifest env i lo of
                  None \<Rightarrow> None
                | Some (Reject err) \<Rightarrow> Some (Reject err, mg)
                | Some (Fail e) \<Rightarrow> Some (Fail e, mg)
                | Some (Go manifest) \<Rightarrow>
                    (case payload_of lo of
                       None \<Rightarrow> None
                     | Some weights \<Rightarrow>
                         (let estimated_mb = max (of_nat (length weights) div bytes_per_mb) 1;
                              needed = (if still_present (mg_table mg) i then 0
                                        else saturating_mul estimated_mb bytes_per_mb);
                              (r, kernels1, tb1) = enforce_adapter_cache_budget (me_ops env) (env_hash env) needed
                                                     (Some i) (mg_kernels mg) (mg_table mg);
                              mg1 = mg\<lparr>mg_kernels := kernels1, mg_table := tb1\<rparr> in
                          case r of
                            Err e \<Rightarrow> Some (Fail e, mg1)
                          | Ok _ \<Rightarrow>
                              (case memory_error su i estimated_mb of
                                 Some e \<Rightarrow> Some (Fail e, mg1)
                               | None \<Rightarrow>
                                   (case kernels1 of
                                      None \<Rightarrow> Some (Go (24, None), mg1)
                                    | Some k1 \<Rightarrow>
                                        (case kernel_load env i weights (load_metadata_of i manifest) k1 of
                                           (Err e, k2) \<Rightarrow> Some (Fail e, mg1\<lparr>mg_kernels := Some k2\<rparr>)
                                         | (Ok vram_mb, k2) \<Rightarrow>
                                             Some (Go (vram_mb, Some (lo_backing lo)), mg1\<lparr>mg_kernels := Some k2\<rparr>)))))))))"

definition preload_stage ::
  "'k manager_env \<Rightarrow> surroundings \<Rightarrow> string \<Rightarrow> b3hash \<Rightarrow> b3hash \<Rightarrow> u64 \<times> adapter_backing option \<Rightarrow> 'k manager \<Rightarrow>
   (aos_error, adapter_command_result) result \<times> 'k manager" where
  "preload_stage env su i h observed loaded mg =
     (case preload_with_backing (su_instant su) i h observed (fst loaded) (snd loaded) (mg_table mg) of
        (Err e, tb) \<Rightarrow>
          (Err e, mg\<lparr>mg_kernels := map_option (\<lambda>k. snd (ko_detach (me_ops env) (slot_of env i) k)) (mg_kernels mg),
                   mg_table := tb\<lparr>tb_staged := am_remove i (tb_staged tb), tb_refcounts := am_remove i (tb_refcounts tb)\<rparr>\<rparr>)
      | (Ok _, tb) \<Rightarrow>
          (case enforce_adapter_cache_budget (me_ops env) (env_hash env) 0 (Some i) (mg_kernels mg) tb of
             (Err e, kernels1, tb1) \<Rightarrow>
               (let (_, kernels2, tb2) = evict_adapter_by_id (me_ops env) (env_hash env) i kernels1 tb1 in
                (Err e, mg\<lparr>mg_kernels := kernels2, mg_table := tb2\<rparr>))
           | (Ok _, kernels1, tb1) \<Rightarrow>
               (let mg1 = mg\<lparr>mg_kernels := kernels1, mg_table := tb1\<rparr> in
                (Ok \<lparr>cr_success = True, cr_message = ''Preloaded adapter: '' @ i, cr_vram_delta_mb = Some (fst loaded),
                     cr_stack_hash = None, cr_memory_state = Some (memory_state_of mg1), cr_reject_reason = None\<rparr>, mg1))))"

definition stage_result ::
  "'a stage \<times> 'k manager \<Rightarrow> ('a \<Rightarrow> 'k manager \<Rightarrow> ((aos_error, adapter_command_result) result \<times> 'k manager) option) \<Rightarrow>
   ((aos_error, adapter_command_result) result \<times> 'k manager) option" where
  "stage_result st cont =
     (case st of
        (Go x, mg) \<Rightarrow> cont x mg
      | (Reject err, mg) \<Rightarrow> Some (Ok (rejection_result err None mg), mg)
      | (Fail e, mg) \<Rightarrow> Some (Err e, mg))"

definition execute_preload ::
  "'k manager_env \<Rightarrow> surroundings \<Rightarrow> string \<Rightarrow> b3hash \<Rightarrow> 'k manager \<Rightarrow>
   ((aos_error, adapter_command_result) result \<times> 'k manager) option" where
  "execute_preload env su i h mg =
     (if \<not> me_within_root env (me_path env i) then Some (Err (isolation_error env (me_path env i)), mg)
      else
        stage_result (preload_load env su i h mg) (\<lambda>outcome mg1.
          case preload_verify env su i h outcome mg1 of
            None \<Rightarrow> None
          | Some st \<Rightarrow> stage_result st (\<lambda>observed mg2.
              case preload_kernels env su i outcome mg2 of
                None \<Rightarrow> None
              | Some st2 \<Rightarrow> stage_result st2 (\<lambda>loaded mg3. Some (preload_stage env su i h observed loaded mg3)))))"

text \<open>\<open>None\<close>: the call does not return (a swap that still waits, or a slice out of range).\<close>

fun manager_execute ::
  "'k manager_env \<Rightarrow> surroundings \<Rightarrow> adapter_command \<Rightarrow> 'k manager \<Rightarrow>
   ((aos_error, adapter_command_result) result \<times> 'k manager) option" where
  "manager_execute env su (Preload i h) mg = execute_preload env su i h mg"
| "manager_execute env su (Swap add_ids remove_ids expected) mg = execute_swap env su add_ids remove_ids expected mg"
| "manager_execute env su Rollback mg = Some (execute_rollback env su mg)"
| "manager_execute env su VerifyStack mg = Some (execute_verify_stack env su mg)"

section \<open>Loading with fallback\<close>

record fallback_failure =
  ff_adapter_id :: string
  ff_reason :: string

record fallback_outcome =
  fo_adapter_id :: string
  fo_result :: adapter_command_result
  fo_attempts :: nat
  fo_failures :: "fallback_failure list"

text \<open>
  An attempt comes with its surroundings and, when it times out, with the manager that the
  cancelled call leaves behind.
\<close>

type_synonym 'k attempt = "(string \<times> b3hash) \<times> surroundings \<times> ('k manager \<Rightarrow> 'k manager) option"

definition attempt_preload ::
  "'k manager_env \<Rightarrow> nat \<Rightarrow> 'k attempt \<Rightarrow> 'k manager \<Rightarrow> ((string + adapter_command_result) \<times> 'k manager) option" where
  "attempt_preload env timeout_ms a mg =
     (case a of ((i, h), su, cancelled) \<Rightarrow>
        (case cancelled of
           Some f \<Rightarrow> Some (Inl (''Timed out after '' @ show_nat timeout_ms @ ''ms''), f mg)
         | None \<Rightarrow>
             map_option (\<lambda>(r, mg1).
               (case r of
                  Err e \<Rightarrow> Inl (me_show_error env e)
                | Ok res \<Rightarrow>
                    if cr_success res then Inr res
                    else Inl (case cr_reject_reason res of Some s \<Rightarrow> s | None \<Rightarrow> cr_message res), mg1))
               (manager_execute env su (Preload i h) mg)))"

fun fallback_loop ::
  "'k manager_env \<Rightarrow> nat \<Rightarrow> fallback_failure list \<Rightarrow> 'k attempt list \<Rightarrow> 'k manager \<Rightarrow>
   ((fallback_failure list + fallback_outcome) \<times> 'k manager) option" where
  "fallback_loop env timeout_ms failures [] mg = Some (Inl failures, mg)"
| "fallback_loop env timeout_ms failures (a # as) mg =
     (case attempt_preload env timeout_ms a mg of
        None \<Rightarrow> None
      | Some (Inr res, mg1) \<Rightarrow>
          Some (Inr \<lparr>fo_adapter_id = fst (fst a), fo_result = res, fo_attempts = length failures + 1,
                     fo_failures = failures\<rparr>, mg1)
      | Some (Inl reason, mg1) \<Rightarrow>
          fallback_loop env timeout_ms (failures @ [\<lparr>ff_adapter_id = fst (fst a), ff_reason = reason\<rparr>]) as mg1)"

definition try_load_with_fallback ::
  "'k manager_env \<Rightarrow> nat \<Rightarrow> 'k attempt list \<Rightarrow> 'k manager \<Rightarrow>
   ((aos_error, fallback_outcome) result \<times> 'k manager) option" where
  "try_load_with_fallback env timeout_ms as mg =
     (if as = [] then Some (Err (EResourceExhaustion ''No adapter candidates provided for fallback load''), mg)
      else
        map_option (\<lambda>(r, mg1).
          (case r of
             Inr outcome \<Rightarrow> Ok outcome
           | Inl failures \<Rightarrow>
               Err (EResourceExhaustion (''All '' @ show_nat (length as) @ '' adapter candidates failed: ['' @
                 join_with ''; '' (map (\<lambda>f. ff_adapter_id f @ '':'' @ ff_reason f) failures) @ '']'')), mg1))
          (fallback_loop env timeout_ms [] as mg))"

end
