(* ===== verification/ManagerCorrect.thy ===== *)
theory ManagerCorrect
  imports HotSwapManager
begin

text \<open>
  Correctness of the hot-swap manager: a swap with an expected hash ends with that hash, in enforcing
  mode only verified adapters become active, a failed swap leaves what is served as it was,
  and preloading never changes it. The counter map is the exception: the clean-up after a failed swap
  drops counters of adapters that are still referenced, and after another preload the stack of a
  pinned adapter may be unloaded.
\<close>

section \<open>The predicted stack\<close>

definition hashes_of :: "adapter_map \<Rightarrow> (string \<times> b3hash) list" where
  "hashes_of m = map (\<lambda>e. (fst e, al_hash (snd e))) m"

lemma hashes_of_remove: "hashes_of (am_remove i m) = am_remove i (hashes_of m)"
  by (simp add: hashes_of_def am_remove_def filter_map comp_def)

lemma hashes_of_insert: "hashes_of (am_insert i al m) = am_insert i (al_hash al) (hashes_of m)"
  by (simp add: am_insert_def hashes_of_remove [symmetric]) (simp add: hashes_of_def)

lemma remove_active_hashes:
  "hashes_of (fst (foldl remove_active (m, d) ids)) = foldl (\<lambda>es i. am_remove i es) (hashes_of m) ids"
proof (induction ids arbitrary: m d)
  case (Cons i ids)
  have "am_remove i m = m" if "map_of m i = None"
    using that by (intro am_remove_absent) (auto simp: am_keys_def map_of_eq_None_iff)
  then have "fst (remove_active (m, d) i) = am_remove i m"
    by (simp add: remove_active_def split: option.split)
  then obtain d' where "remove_active (m, d) i = (am_remove i m, d')" by (metis prod.collapse)
  then show ?case using Cons.IH [of "am_remove i m" d'] by (simp add: hashes_of_remove)
qed simp

lemma add_staged_hashes:
  "add_staged staged ids (m, d, n) = Ok (m', d', n') \<Longrightarrow> stack_entries_with staged ids (hashes_of m) = Ok (hashes_of m')"
proof (induction ids arbitrary: m d n)
  case (Cons i ids)
  then obtain al where al: "map_of staged i = Some al"
    "add_staged staged ids (am_insert i (al\<lparr>al_active := True, al_lifecycle := WL_Active\<rparr>) m, d + al_vram_mb al, n + 1) =
      Ok (m', d', n')" by (auto split: option.splits)
  from Cons.IH [OF al(2)] al(1) show ?case by (simp add: hashes_of_insert)
qed simp

lemma commit_swap_active [simp]: "tb_active (commit_swap now m tb) = m"
  by (simp add: commit_swap_def Let_def split: prod.split)

lemma swap_hash:
  assumes "swap now add_ids remove_ids tb = (Ok r, tb')"
  shows "compute_stack_hash_with env add_ids remove_ids tb =
    Ok (table_stack_hash (env_hash env) (env_hex env) tb')"
proof -
  obtain m d where r: "foldl remove_active (tb_active tb, 0) remove_ids = (m, d)" by fastforce
  obtain m' d' n' where a: "add_staged (tb_staged tb) add_ids (m, d, 0) = Ok (m', d', n')"
    and tb': "tb_active tb' = m'"
    using assms r by (auto simp: swap_def Let_def split: option.splits sum.splits)
  have "hashes_of m = foldl (\<lambda>es i. am_remove i es) (hashes_of (tb_active tb)) remove_ids"
    using remove_active_hashes [of "tb_active tb" 0 remove_ids] r by simp
  then show ?thesis
    using add_staged_hashes [OF a]
    by (simp add: compute_stack_hash_with_def table_stack_hash_def tb' hashes_of_def)
qed

lemma added_lookup:
  assumes "add_staged staged ids (m, d, n) = Ok (m', d', n')" and "map_of staged i = Some al"
    and "i \<in> set ids \<or> map_of m i = Some (activated al)"
  shows "map_of m' i = Some (activated al)"
  using assms
proof (induction ids arbitrary: m d n)
  case (Cons j ids)
  then obtain al' where al': "map_of staged j = Some al'"
    "add_staged staged ids (am_insert j (activated al') m, d + al_vram_mb al', n + 1) = Ok (m', d', n')"
    by (auto simp: activated_def split: option.splits)
  from Cons.prems(2,3) al'(1)
  have "i \<in> set ids \<or> map_of (am_insert j (activated al') m) i = Some (activated al)"
    by (auto simp: lookup_am_insert)
  from Cons.IH [OF al'(2) Cons.prems(2) this] show ?case .
qed simp

lemma activated_hashes [simp]:
  "al_hash (activated al) = al_hash al" "al_expected_hash (activated al) = al_expected_hash al"
  by (simp_all add: activated_def)

section \<open>The steps of a swap\<close>

text \<open>Others may use the table while the swap waits, but they swap and stage nothing.\<close>

definition undisturbed :: "surroundings \<Rightarrow> bool" where
  "undisturbed su \<longleftrightarrow>
     (\<forall>tb. \<forall>p \<in> set (su_polls su tb). tb_active (fst p) = tb_active tb \<and> tb_staged (fst p) = tb_staged tb) \<and>
     (\<forall>tb. tb_active (su_between su tb) = tb_active tb \<and> tb_staged (su_between su tb) = tb_staged tb)"

lemma wait_end_table: "wait_end show_duration ids timeout polls = Some (r, tb) \<Longrightarrow> tb \<in> fst ` set polls"
  by (induction polls) (auto split: option.splits)

lemma manager_tables [simp]:
  "mg_table (hint_switch_adapter_after_swap env add_ids mg) = mg_table mg"
  "mg_table (detach_removed_after_swap env remove_ids mg) = mg_table mg"
  "mg_table (snd (attach_staged_for_swap env add_ids mg)) = mg_table mg"
  by (auto simp: hint_switch_adapter_after_swap_def detach_removed_after_swap_def attach_staged_for_swap_def
      split: list.split option.split prod.split)

lemma swapped_table:
  assumes "swap_steps env su add_ids remove_ids expected mg = Some (Swapped delta added, mg')" and "undisturbed su"
  obtains mg1 tb where "check_swap_integrity env su add_ids remove_ids expected mg = (Ok (), mg1)"
    and "tb_active tb = tb_active (mg_table mg1)" and "tb_staged tb = tb_staged (mg_table mg1)"
    and "swap (su_clock su) add_ids remove_ids tb = (Ok (delta, added), mg_table mg')"
proof -
  obtain mg1 where c: "check_swap_integrity env su add_ids remove_ids expected mg = (Ok (), mg1)"
    using assms(1) by (auto simp: swap_steps_def split: prod.splits sum.splits)
  let ?wait = "if remove_ids = [] then Some (Ok (), mg_table mg1)
    else wait_end (me_show_duration env) remove_ids 2000000000 (su_polls su (mg_table mg1))"
  obtain tb0 where w: "?wait = Some (Ok (), tb0)"
    and rest: "(case attach_staged_for_swap env add_ids (mg1\<lparr>mg_table := su_between su tb0\<rparr>) of
        (Err e, mg2) \<Rightarrow> Some (Swap_failed e, cleanup_staged_on_failure env add_ids mg2)
      | (Ok _, mg2) \<Rightarrow>
          (case swap (su_clock su) add_ids remove_ids (mg_table mg2) of
             (Err e, tb1) \<Rightarrow> Some (Swap_failed e, cleanup_staged_on_failure env add_ids (mg2\<lparr>mg_table := tb1\<rparr>))
           | (Ok (delta, added), tb1) \<Rightarrow>
               Some (Swapped delta added, hint_switch_adapter_after_swap env add_ids
                 (detach_removed_after_swap env remove_ids (mg2\<lparr>mg_table := tb1\<rparr>))))) =
      Some (Swapped delta added, mg')"
    using assms(1) c by (auto simp: swap_steps_def simp del: wait_end.simps split: option.splits prod.splits sum.splits)
  have t0: "tb_active tb0 = tb_active (mg_table mg1) \<and> tb_staged tb0 = tb_staged (mg_table mg1)"
    using w wait_end_table assms(2) by (fastforce simp: undisturbed_def split: if_splits)
  let ?tb = "su_between su tb0"
  obtain mg2 where a: "attach_staged_for_swap env add_ids (mg1\<lparr>mg_table := ?tb\<rparr>) = (Ok (), mg2)"
    using rest by (auto split: prod.splits sum.splits)
  have "mg_table mg2 = ?tb" using a manager_tables(3) [of env add_ids "mg1\<lparr>mg_table := ?tb\<rparr>"] by simp
  then have "swap (su_clock su) add_ids remove_ids ?tb = (Ok (delta, added), mg_table mg')"
    using rest a by (auto split: prod.splits sum.splits)
  moreover have "tb_active ?tb = tb_active (mg_table mg1)" "tb_staged ?tb = tb_staged (mg_table mg1)"
    using t0 assms(2) by (simp_all add: undisturbed_def)
  ultimately show thesis using that c by blast
qed

text \<open>
  (C10) A swap with an expected stack hash that succeeds ends with exactly that hash, provided nobody else
  swaps or stages adapters while it waits.
\<close>

theorem swap_reaches_expected_hash:
  assumes "swap_with_expected_hash env su add_ids remove_ids (Some h) mg = Some (Ok r, mg')" and "undisturbed su"
  shows "table_stack_hash (env_hash env) (env_hex env) (mg_table mg') = h"
proof -
  obtain delta added where s: "swap_steps env su add_ids remove_ids (Some h) mg = Some (Swapped delta added, mg')"
    using assms(1) by (cases "swap_steps env su add_ids remove_ids (Some h) mg")
      (auto simp: swap_with_expected_hash_def split: swap_end.splits prod.splits)
  obtain mg1 tb where c: "check_swap_integrity env su add_ids remove_ids (Some h) mg = (Ok (), mg1)"
    and t: "tb_active tb = tb_active (mg_table mg1)" "tb_staged tb = tb_staged (mg_table mg1)"
    and sw: "swap (su_clock su) add_ids remove_ids tb = (Ok (delta, added), mg_table mg')"
    using swapped_table [OF s assms(2)] by blast
  have "compute_stack_hash_with env add_ids remove_ids (mg_table mg1) = Ok h"
    using c by (auto simp: check_swap_integrity_def split: option.splits prod.splits sum.splits if_splits)
  then have "compute_stack_hash_with env add_ids remove_ids tb = Ok h"
    using t by (simp add: compute_stack_hash_with_def)
  with swap_hash [OF sw, of env] show ?thesis by simp
qed

section \<open>Enforcing mode\<close>

text \<open>Every cached success carries the hash it was cached for.\<close>

definition cache_sound :: "integrity_verifier \<Rightarrow> bool" where
  "cache_sound iv \<longleftrightarrow> (\<forall>i e v. map_of (iv_cache iv) i = Some e \<longrightarrow> ic_outcome e = Ok v \<longrightarrow>
     vr_weights_hash v = ic_expected_hash e)"

lemma cache_sound_new: "cache_sound (verifier_new debug_assertions var tenant_id base_model expected)"
  by (simp add: cache_sound_def verifier_new_def)

lemma verify_outcome_sound:
  assumes "verify_outcome env md te i h lo iv = (r, iv')" and "cache_sound iv"
  shows "cache_sound iv' \<and> iv_mode iv' = iv_mode iv \<and> (\<forall>v. r = Ok v \<longrightarrow> vr_weights_hash v = h)"
proof (cases "file_identity_of md (backing_path (lo_backing lo))")
  case (Inl e)
  with assms show ?thesis by (auto simp: verify_outcome_def)
next
  case (Inr ident)
  have w: "vr_weights_hash v = h" if "verify_with_timeout env te (verify_task env iv i h lo) i = Ok v" for v
    using that by (auto simp: verify_with_timeout_def verify_task_def Let_def
        split: task_end.splits option.splits dest: verified_weights)
  show ?thesis
  proof (cases "cache_hit iv i h ident")
    case None
    then show ?thesis
      using assms Inr w
      by (auto simp: verify_outcome_def Let_def store_cache_def cache_sound_def lookup_am_insert split: if_splits)
  next
    case (Some c)
    then have "r = c" "iv' = iv" using assms(1) Inr by (simp_all add: verify_outcome_def)
    moreover have "vr_weights_hash v = h" if "c = Ok v" for v
      using Some that assms(2) by (auto simp: cache_hit_eq cache_sound_def)
    ultimately show ?thesis using assms(2) by simp
  qed
qed

definition staged_verified :: "adapter_table \<Rightarrow> string \<Rightarrow> bool" where
  "staged_verified tb i \<longleftrightarrow> (\<exists>al. map_of (tb_staged tb) i = Some al \<and> al_hash al = al_expected_hash al)"

lemma update_staged_lookup:
  "map_of (tb_staged (update_staged_hash i h tb)) j =
    (if j = i then map_option (\<lambda>al. al\<lparr>al_hash := h\<rparr>) (map_of (tb_staged tb) i) else map_of (tb_staged tb) j)"
  by (auto simp: update_staged_hash_def lookup_am_update)

lemma update_staged_fields [simp]:
  "tb_active (update_staged_hash i h tb) = tb_active tb" "tb_refcounts (update_staged_hash i h tb) = tb_refcounts tb"
  "tb_counters (update_staged_hash i h tb) = tb_counters tb" "tb_store (update_staged_hash i h tb) = tb_store tb"
  "tb_current_stack (update_staged_hash i h tb) = tb_current_stack tb"
  "tb_retired_stacks (update_staged_hash i h tb) = tb_retired_stacks tb"
  "map fst (tb_staged (update_staged_hash i h tb)) = map fst (tb_staged tb)"
  by (simp_all add: update_staged_hash_def am_update_def comp_def split_beta)

lemma verify_add_enforced:
  assumes "verify_add_ids_for_swap env su ids mg = (Ok (), mg')"
    and "cache_sound (mg_integrity mg)" and "iv_mode (mg_integrity mg) = Integrity_Enforce"
  shows "\<forall>i. i \<in> set ids \<or> staged_verified (mg_table mg) i \<longrightarrow> staged_verified (mg_table mg') i"
  using assms
proof (induction ids arbitrary: mg)
  case (Cons i ids)
  obtain h where h: "staged_expected_hash (mg_table mg) i = Some h" using Cons.prems(1) by (auto split: option.splits)
  obtain lo gl where l: "load_blocking env su i (mg_loader mg) = (Inr (Ok lo), gl)"
    using Cons.prems(1) h by (auto split: prod.splits sum.splits)
  obtain r iv where v: "verify_outcome (me_verify env) (su_metadata su) (su_verify_task su i) i h lo (mg_integrity mg) = (r, iv)"
    by fastforce
  note sound = verify_outcome_sound [OF v Cons.prems(2)]
  obtain w where w: "r = Ok w"
    using Cons.prems(1,3) h l v
    by (cases r) (auto simp: should_reject_integrity_def mode_is_enforce_def Let_def)
  let ?mg1 = "mg\<lparr>mg_loader := gl, mg_integrity := iv, mg_table := update_staged_hash i (vr_weights_hash w) (mg_table mg)\<rparr>"
  have "verify_add_ids_for_swap env su ids ?mg1 = (Ok (), mg')" using Cons.prems(1) h l v w by simp
  moreover have "cache_sound (mg_integrity ?mg1)" "iv_mode (mg_integrity ?mg1) = Integrity_Enforce"
    using sound Cons.prems(3) by simp_all
  ultimately have IH: "\<forall>j. j \<in> set ids \<or> staged_verified (mg_table ?mg1) j \<longrightarrow> staged_verified (mg_table mg') j"
    by (rule Cons.IH)
  have "staged_verified (mg_table ?mg1) j" if "j = i \<or> staged_verified (mg_table mg) j" for j
    using that h sound w by (auto simp: staged_verified_def update_staged_lookup staged_expected_hash_def)
  with IH show ?case by auto
qed simp

text \<open>
  (C11) In enforcing mode only verified adapters become active: after a successful swap, every added adapter is
  active and its hash is the one that the control plane expects, provided that nobody else swaps or stages adapters while
  the swap waits and that the results in the verifier's cache carry the hashes they are cached for. The second
  condition holds of a new verifier and is kept by every command (\<open>execute_keeps_sound\<close>); the first one is a real
  restriction, since the swap does not look at the hashes again after the wait.
\<close>

theorem enforced_swap_verified:
  assumes "manager_swap env su add_ids remove_ids mg = Some (Ok r, mg')" and "undisturbed su"
    and "cache_sound (mg_integrity mg)" and "iv_mode (mg_integrity mg) = Integrity_Enforce"
    and "i \<in> set add_ids"
  shows "\<exists>al. map_of (tb_active (mg_table mg')) i = Some al \<and> al_hash al = al_expected_hash al"
proof -
  obtain delta added where s: "swap_steps env su add_ids remove_ids None mg = Some (Swapped delta added, mg')"
    using assms(1) by (cases "swap_steps env su add_ids remove_ids None mg")
      (auto simp: manager_swap_def swap_with_expected_hash_def split: swap_end.splits prod.splits)
  obtain mg1 tb where c: "check_swap_integrity env su add_ids remove_ids None mg = (Ok (), mg1)"
    and t: "tb_active tb = tb_active (mg_table mg1)" "tb_staged tb = tb_staged (mg_table mg1)"
    and sw: "swap (su_clock su) add_ids remove_ids tb = (Ok (delta, added), mg_table mg')"
    using swapped_table [OF s assms(2)] by blast
  have "verify_add_ids_for_swap env su add_ids mg = (Ok (), mg1)"
    using c assms(4) by (auto simp: check_swap_integrity_def mode_is_off_def split: option.splits prod.splits sum.splits)
  then have "staged_verified (mg_table mg1) i" using verify_add_enforced assms(3-5) by blast
  then obtain al where al: "map_of (tb_staged tb) i = Some al" "al_hash al = al_expected_hash al"
    using t by (auto simp: staged_verified_def)
  obtain m d where "foldl remove_active (tb_active tb, 0) remove_ids = (m, d)" by fastforce
  then obtain m' d' n' where "add_staged (tb_staged tb) add_ids (m, d, 0) = Ok (m', d', n')" "tb_active (mg_table mg') = m'"
    using sw by (auto simp: swap_def Let_def split: option.splits sum.splits dest: sym)
  with added_lookup [of "tb_staged tb" add_ids m d 0 m' d' n' i al] al assms(5) show ?thesis by auto
qed

text \<open>What a verification may do to the verifier: its mode stays and its cache stays sound.\<close>

definition keeps_sound :: "'k manager \<Rightarrow> 'k manager \<Rightarrow> bool" where
  "keeps_sound mg mg' \<longleftrightarrow> iv_mode (mg_integrity mg') = iv_mode (mg_integrity mg) \<and>
     (cache_sound (mg_integrity mg) \<longrightarrow> cache_sound (mg_integrity mg'))"

lemma keeps_sound_same: "mg_integrity mg' = mg_integrity mg \<Longrightarrow> keeps_sound mg mg'"
  by (simp add: keeps_sound_def)

lemma keeps_sound_trans [trans]: "keeps_sound a b \<Longrightarrow> keeps_sound b c \<Longrightarrow> keeps_sound a c"
  by (simp add: keeps_sound_def)

lemma verify_keeps_mode: "iv_mode (snd (verify_outcome env md te i h lo iv)) = iv_mode iv"
  by (simp add: verify_outcome_def Let_def store_cache_def split: sum.split option.split)

lemma verify_keeps_sound:
  assumes "verify_outcome env md te i h lo (mg_integrity mg) = (r, iv)" and "mg_integrity mg' = iv"
  shows "keeps_sound mg mg'"
  using verify_outcome_sound [OF assms(1)] verify_keeps_mode [of env md te i h lo "mg_integrity mg"] assms
  by (simp add: keeps_sound_def)

lemma verify_add_keeps_sound: "verify_add_ids_for_swap env su ids mg = (r, mg') \<Longrightarrow> keeps_sound mg mg'"
proof (induction ids arbitrary: mg)
  case (Cons i ids)
  show ?case
  proof (cases "mg_integrity mg' = mg_integrity mg")
    case False
    then obtain h lo gl where l: "staged_expected_hash (mg_table mg) i = Some h"
      "load_blocking env su i (mg_loader mg) = (Inr (Ok lo), gl)"
      using Cons.prems by (auto split: option.splits prod.splits sum.splits)
    obtain v iv where v: "verify_outcome (me_verify env) (su_metadata su) (su_verify_task su i) i h lo (mg_integrity mg) = (v, iv)"
      by fastforce
    obtain mg1 where mg1: "mg_integrity mg1 = iv" "mg' = mg1 \<or> verify_add_ids_for_swap env su ids mg1 = (r, mg')"
    proof (cases v)
      case (Inl e)
      with Cons.prems l v show thesis
        by (intro that [of "case ie_actual e of Some actual \<Rightarrow> mg\<lparr>mg_loader := gl, mg_integrity := iv,
            mg_table := update_staged_hash i actual (mg_table mg)\<rparr> | None \<Rightarrow> mg\<lparr>mg_loader := gl, mg_integrity := iv\<rparr>"])
          (auto simp: Let_def split: if_splits option.splits)
    next
      case (Inr w)
      with Cons.prems l v show thesis
        by (intro that [of "mg\<lparr>mg_loader := gl, mg_integrity := iv,
            mg_table := update_staged_hash i (vr_weights_hash w) (mg_table mg)\<rparr>"]) (auto simp: Let_def)
    qed
    have "keeps_sound mg mg1" by (rule verify_keeps_sound [OF v mg1(1)])
    with mg1(2) Cons.IH [of mg1] keeps_sound_trans show ?thesis by blast
  qed (rule keeps_sound_same)
qed (simp add: keeps_sound_same)

lemma swap_steps_keeps_sound:
  assumes "swap_steps env su add_ids remove_ids expected mg = Some (r, mg')"
  shows "keeps_sound mg mg'"
proof -
  obtain c mg1 where c: "check_swap_integrity env su add_ids remove_ids expected mg = (c, mg1)" by fastforce
  have i: "mg_integrity (cleanup_staged_on_failure env add_ids m) = mg_integrity m"
    "mg_integrity (snd (attach_staged_for_swap env add_ids m)) = mg_integrity m"
    "mg_integrity (hint_switch_adapter_after_swap env add_ids m) = mg_integrity m"
    "mg_integrity (detach_removed_after_swap env remove_ids m) = mg_integrity m" for m
    by (auto simp: cleanup_staged_on_failure_def attach_staged_for_swap_def hint_switch_adapter_after_swap_def
        detach_removed_after_swap_def Let_def split: option.split prod.split list.split)
  have a: "mg_integrity mg2 = mg_integrity m" if "attach_staged_for_swap env add_ids m = (x, mg2)" for m x mg2
    using i(2) [of m] that by simp
  have "mg_integrity mg' = mg_integrity mg1"
    using assms c by (auto simp: swap_steps_def i dest!: a simp del: wait_end.simps split: sum.splits option.splits prod.splits)
  moreover have "keeps_sound mg mg1"
    using c verify_add_keeps_sound [of env su add_ids mg]
    by (fastforce simp: check_swap_integrity_def keeps_sound_same split: option.splits prod.splits sum.splits if_splits)
  ultimately show ?thesis by (simp add: keeps_sound_def)
qed

section \<open>What is served\<close>

definition same_service :: "adapter_table \<Rightarrow> adapter_table \<Rightarrow> bool" where
  "same_service tb tb' \<longleftrightarrow> tb_active tb' = tb_active tb \<and> tb_current_stack tb' = tb_current_stack tb \<and>
     tb_store tb' = tb_store tb \<and> tb_counters tb' = tb_counters tb"

lemma same_service_refl [simp]: "same_service tb tb" by (simp add: same_service_def)

lemma same_service_trans [trans]: "same_service a b \<Longrightarrow> same_service b c \<Longrightarrow> same_service a c"
  by (simp add: same_service_def)

text \<open>
  What a swap may change before its last step: the hashes of staged adapters and the saved rollback state. The map
  from adapters to their counters stays too.
\<close>

definition staging_only :: "adapter_table \<Rightarrow> adapter_table \<Rightarrow> bool" where
  "staging_only tb tb' \<longleftrightarrow> same_service tb tb' \<and> tb_retired_stacks tb' = tb_retired_stacks tb \<and>
     tb_refcounts tb' = tb_refcounts tb \<and> map fst (tb_staged tb') = map fst (tb_staged tb)"

lemma staging_only_refl [simp]: "staging_only tb tb" by (simp add: staging_only_def)

lemma staging_only_trans [trans]: "staging_only a b \<Longrightarrow> staging_only b c \<Longrightarrow> staging_only a c"
  using same_service_trans by (auto simp: staging_only_def)

lemma staging_only_staged:
  assumes "staging_only tb tb'"
  shows "map_of (tb_staged tb') i = None \<longleftrightarrow> map_of (tb_staged tb) i = None"
proof -
  have "fst ` set (tb_staged tb') = fst ` set (tb_staged tb)"
    using assms unfolding staging_only_def by (metis list.set_map)
  then show ?thesis by (simp add: map_of_eq_None_iff)
qed

lemma update_staged_service: "staging_only tb (update_staged_hash i h tb)"
  by (simp add: staging_only_def same_service_def)

lemma verify_add_service:
  "verify_add_ids_for_swap env su ids mg = (r, mg') \<Longrightarrow>
    staging_only (mg_table mg) (mg_table mg') \<and> mg_kernels mg' = mg_kernels mg"
proof (induction ids arbitrary: mg)
  case (Cons i ids)
  show ?case
  proof (cases "staged_expected_hash (mg_table mg) i")
    case None
    with Cons.prems show ?thesis by auto
  next
    case (Some h)
    obtain lr gl where l: "load_blocking env su i (mg_loader mg) = (lr, gl)" by fastforce
    consider (failed) "mg_table mg' = mg_table mg" "mg_kernels mg' = mg_kernels mg"
      | (loaded) lo where "lr = Inr (Ok lo)"
      using Cons.prems Some l by (cases lr; cases "projr lr") auto
    then show ?thesis
    proof cases
      case (loaded lo)
      obtain v iv where v: "verify_outcome (me_verify env) (su_metadata su) (su_verify_task su i) i h lo (mg_integrity mg) = (v, iv)"
        by fastforce
      let ?mg1 = "\<lambda>tb. mg\<lparr>mg_loader := gl, mg_integrity := iv, mg_table := tb\<rparr>"
      obtain tb where tb: "tb = mg_table mg \<or> (\<exists>h'. tb = update_staged_hash i h' (mg_table mg))"
        "mg' = ?mg1 tb \<or> verify_add_ids_for_swap env su ids (?mg1 tb) = (r, mg')"
      proof (cases v)
        case (Inl e)
        show thesis
        proof (cases "ie_actual e")
          case None
          have same: "?mg1 (mg_table mg) = mg\<lparr>mg_loader := gl, mg_integrity := iv\<rparr>" by (cases mg) simp
          show thesis
            using Cons.prems Some l loaded v Inl None by (intro that [of "mg_table mg"]) (auto simp: Let_def same split: if_splits)
        next
          case (Some actual)
          then show thesis
            using Cons.prems \<open>staged_expected_hash (mg_table mg) i = Some h\<close> l loaded v Inl
            by (intro that [of "update_staged_hash i actual (mg_table mg)"]) (auto simp: Let_def split: if_splits)
        qed
      next
        case (Inr w)
        then show thesis
          using Cons.prems Some l loaded v
          by (intro that [of "update_staged_hash i (vr_weights_hash w) (mg_table mg)"]) (auto simp: Let_def)
      qed
      have "staging_only (mg_table mg) tb" using tb(1) update_staged_service by auto
      with tb(2) Cons.IH [of "?mg1 tb"] show ?thesis using staging_only_trans by auto
    qed auto
  qed
qed auto

lemma check_swap_service:
  "check_swap_integrity env su add_ids remove_ids expected mg = (r, mg') \<Longrightarrow>
    staging_only (mg_table mg) (mg_table mg') \<and> mg_kernels mg' = mg_kernels mg"
  using verify_add_service [of env su add_ids mg]
  by (fastforce simp: check_swap_integrity_def split: option.splits prod.splits sum.splits if_splits)

lemma first_occurrences_set: "set (first_occurrences seen xs) = set xs - set seen"
  by (induction xs arbitrary: seen) auto

lemma detach_each_keeps:
  "(\<And>i k. i \<in> set ids \<Longrightarrow> P k \<Longrightarrow> P (snd (ko_detach ko (adapter_id_to_u16 H i) k))) \<Longrightarrow> P k \<Longrightarrow> P (detach_each ko H ids k)"
  by (induction ids arbitrary: k) auto

lemma attach_each_keeps:
  "(\<And>i k. i \<in> set ids \<Longrightarrow> P k \<Longrightarrow> P (snd (ko_attach ko (adapter_id_to_u16 H i) k))) \<Longrightarrow> P k \<Longrightarrow>
    P (snd (attach_each ko H ids k))"
proof (induction ids arbitrary: k)
  case (Cons i ids)
  obtain r k1 where a: "ko_attach ko (adapter_id_to_u16 H i) k = (r, k1)" by fastforce
  then have k1: "P k1" using Cons.prems(1) [of i k] Cons.prems(2) by simp
  have "P (snd (attach_each ko H ids k1))"
    by (rule Cons.IH [OF _ k1]) (use Cons.prems(1) in simp)
  with a k1 show ?case by (auto split: sum.split)
qed simp

lemma staged_adds_inactive: "i \<in> set (staged_adds_for_swap add_ids tb) \<Longrightarrow> i \<in> set add_ids \<and> map_of (tb_active tb) i = None"
  by (auto simp: staged_adds_for_swap_def first_occurrences_set)

text \<open>Kernels keep \<open>P\<close> when slots of adapters to add that are not active are attached or detached.\<close>

definition indifferent :: "'k manager_env \<Rightarrow> ('k \<Rightarrow> bool) \<Rightarrow> string list \<Rightarrow> adapter_map \<Rightarrow> bool" where
  "indifferent env P add_ids active \<longleftrightarrow>
     (\<forall>i \<in> set add_ids. map_of active i = None \<longrightarrow> (\<forall>k. P k \<longrightarrow>
        P (snd (ko_attach (me_ops env) (slot_of env i) k)) \<and> P (snd (ko_detach (me_ops env) (slot_of env i) k))))"

lemma indifferentD:
  assumes "indifferent env P add_ids (tb_active tb)" and "i \<in> set (staged_adds_for_swap add_ids tb)" and "P k"
  shows "P (snd (ko_attach (me_ops env) (slot_of env i) k))" "P (snd (ko_detach (me_ops env) (slot_of env i) k))"
  using assms staged_adds_inactive [OF assms(2)] unfolding indifferent_def by blast+

lemma lookup_remove_all:
  "map_of (foldl (\<lambda>m i. am_remove i m) m ids) k = (if k \<in> set ids then None else map_of m k)"
  by (induction ids arbitrary: m) (auto simp: hash_map.lookup_remove)

text \<open>The clean-up drops the counters of exactly the staged adapters to add that are not active.\<close>

lemma cleanup_table:
  "same_service (mg_table mg) (mg_table (cleanup_staged_on_failure env add_ids mg))"
  "tb_retired_stacks (mg_table (cleanup_staged_on_failure env add_ids mg)) = tb_retired_stacks (mg_table mg)"
  "map_of (tb_refcounts (mg_table (cleanup_staged_on_failure env add_ids mg))) i =
     (if i \<in> set (staged_adds_for_swap add_ids (mg_table mg)) then None else map_of (tb_refcounts (mg_table mg)) i)"
  by (simp_all add: cleanup_staged_on_failure_def Let_def same_service_def lookup_remove_all)

lemma cleanup_kernels:
  assumes "indifferent env P add_ids (tb_active (mg_table mg))" and "pred_option P (mg_kernels mg)"
  shows "pred_option P (mg_kernels (cleanup_staged_on_failure env add_ids mg))"
proof -
  let ?ids = "staged_adds_for_swap add_ids (mg_table mg)"
  have "P (detach_each (me_ops env) (env_hash env) ?ids k)" if "P k" for k
    by (rule detach_each_keeps [where P = P, OF indifferentD(2) [OF assms(1)] that])
  then have "pred_option P (map_option (detach_each (me_ops env) (env_hash env) ?ids) (mg_kernels mg))"
    using assms(2) by (cases "mg_kernels mg") auto
  then show ?thesis
    using assms(2) by (simp add: cleanup_staged_on_failure_def Let_def)
qed

lemma attach_service:
  assumes "indifferent env P add_ids (tb_active (mg_table mg))" and "pred_option P (mg_kernels mg)"
  shows "pred_option P (mg_kernels (snd (attach_staged_for_swap env add_ids mg)))"
proof (cases "mg_kernels mg")
  case (Some k)
  have "P (snd (attach_each (me_ops env) (env_hash env) (staged_adds_for_swap add_ids (mg_table mg)) k))"
    by (rule attach_each_keeps [where P = P, OF indifferentD(1) [OF assms(1)]]) (use assms(2) Some in auto)
  with Some show ?thesis by (simp add: attach_staged_for_swap_def split_beta)
qed (simp add: attach_staged_for_swap_def)

lemma add_staged_missing:
  "add_staged staged ids (m, d, n) = Err i \<Longrightarrow> i \<in> set ids \<and> map_of staged i = None"
  by (induction ids arbitrary: m d n) (auto split: option.splits)

lemma swap_failed_service:
  assumes "swap now add_ids remove_ids tb = (Err e, tb')"
  shows "staging_only tb tb'"
proof -
  have "tb' = save_rollback tb"
    using assms by (fastforce simp: swap_def Let_def find_None_iff dest: add_staged_missing
        split: option.splits prod.splits sum.splits)
  then show ?thesis by (simp add: staging_only_def same_service_def save_rollback_def)
qed

text \<open>Nobody else touches the table while the swap waits.\<close>

definition alone :: "surroundings \<Rightarrow> bool" where
  "alone su \<longleftrightarrow> (\<forall>tb. (\<forall>p \<in> set (su_polls su tb). fst p = tb) \<and> su_between su tb = tb)"

lemma alone_wait:
  assumes "(if ids = [] then Some (Ok (), tb) else wait_end show_duration ids timeout (su_polls su tb)) = Some (w, tb1)"
    and "alone su"
  shows "tb1 = tb"
  using assms wait_end_table by (fastforce simp: alone_def split: if_splits)

text \<open>Every failing end of a swap is the clean-up of a manager in which only the staging changed.\<close>

lemma failed_swap_cleans:
  assumes "swap_steps env su add_ids remove_ids expected mg = Some (r, mg')" and "\<And>d n. r \<noteq> Swapped d n"
    and "alone su" and "indifferent env P add_ids (tb_active (mg_table mg))" and "pred_option P (mg_kernels mg)"
  obtains mg2 where "mg' = cleanup_staged_on_failure env add_ids mg2" and "staging_only (mg_table mg) (mg_table mg2)"
    and "pred_option P (mg_kernels mg2)"
proof -
  obtain c mg1 where c: "check_swap_integrity env su add_ids remove_ids expected mg = (c, mg1)" by fastforce
  note cs = check_swap_service [OF c]
  let ?wait = "if remove_ids = [] then Some (Ok (), mg_table mg1)
    else wait_end (me_show_duration env) remove_ids 2000000000 (su_polls su (mg_table mg1))"
  have wait: "mg1\<lparr>mg_table := tb\<rparr> = mg1" "su_between su tb = tb" if "?wait = Some (w, tb)" for w tb
    using alone_wait [OF that assms(3)] assms(3) by (simp_all add: alone_def)
  have k1: "indifferent env P add_ids (tb_active (mg_table mg1))" "pred_option P (mg_kernels mg1)"
    using cs assms(4,5) by (simp_all add: staging_only_def same_service_def)
  obtain a mg2 where a: "attach_staged_for_swap env add_ids mg1 = (a, mg2)" by fastforce
  have t2: "mg_table mg2 = mg_table mg1" "pred_option P (mg_kernels mg2)"
    using manager_tables(3) [of env add_ids mg1] attach_service [OF k1] a by simp_all
  obtain x tb1 where sw: "swap (su_clock su) add_ids remove_ids (mg_table mg2) = (x, tb1)" by fastforce
  consider (early) "mg' = cleanup_staged_on_failure env add_ids mg1"
    | (attach) "mg' = cleanup_staged_on_failure env add_ids mg2"
    | (swap) e where "x = Err e" "mg' = cleanup_staged_on_failure env add_ids (mg2\<lparr>mg_table := tb1\<rparr>)"
    using assms(1,2) c a sw wait
    by (auto simp: swap_steps_def simp del: wait_end.simps split: sum.splits option.splits prod.splits)
  then show thesis
  proof cases
    case (swap e)
    have "staging_only (mg_table mg) tb1"
      using staging_only_trans [of "mg_table mg" "mg_table mg1" tb1] cs t2(1) swap_failed_service [OF sw [unfolded swap(1)]]
      by simp
    with that [of "mg2\<lparr>mg_table := tb1\<rparr>"] swap(2) t2(2) show thesis by simp
  qed (use that [of mg1] that [of mg2] cs k1 t2 in auto)
qed

text \<open>
  (C12) A swap that fails, for whatever reason, leaves the active set, its generation, the published index, the
  values of the counters and the retired stacks as they were, provided nobody else uses the table while it waits.
  The map from adapters to counters loses at most adapters to add that are staged and not active, and the kernels are
  touched only at slots of adapters to add that are not active.
\<close>

theorem failed_swap_keeps_serving:
  assumes "swap_with_expected_hash env su add_ids remove_ids expected mg = Some (Err e, mg')" and "alone su"
    and "indifferent env P add_ids (tb_active (mg_table mg))" and "pred_option P (mg_kernels mg)"
  shows "same_service (mg_table mg) (mg_table mg') \<and>
    tb_retired_stacks (mg_table mg') = tb_retired_stacks (mg_table mg) \<and> pred_option P (mg_kernels mg') \<and>
    (\<forall>i. map_of (tb_refcounts (mg_table mg')) i = map_of (tb_refcounts (mg_table mg)) i \<or>
       map_of (tb_refcounts (mg_table mg')) i = None \<and> i \<in> set add_ids \<and>
       map_of (tb_staged (mg_table mg)) i \<noteq> None \<and> map_of (tb_active (mg_table mg)) i = None)"
proof -
  obtain r where r: "swap_steps env su add_ids remove_ids expected mg = Some (r, mg')" "\<And>d n. r \<noteq> Swapped d n"
    using assms(1) by (cases "swap_steps env su add_ids remove_ids expected mg")
      (auto simp: swap_with_expected_hash_def split: swap_end.splits prod.splits)
  from failed_swap_cleans [OF r assms(2-4)] obtain mg2 where mg2: "mg' = cleanup_staged_on_failure env add_ids mg2"
    "staging_only (mg_table mg) (mg_table mg2)" "pred_option P (mg_kernels mg2)" by blast
  have same: "same_service (mg_table mg) (mg_table mg2)" "tb_retired_stacks (mg_table mg2) = tb_retired_stacks (mg_table mg)"
    "tb_refcounts (mg_table mg2) = tb_refcounts (mg_table mg)" "tb_active (mg_table mg2) = tb_active (mg_table mg)"
    using mg2(2) by (simp_all add: staging_only_def same_service_def)
  have "pred_option P (mg_kernels mg')" using cleanup_kernels [of env P add_ids mg2] assms(3) same(4) mg2(1,3) by simp
  moreover have "same_service (mg_table mg) (mg_table mg')"
    using same_service_trans [OF same(1) cleanup_table(1)] mg2(1) by simp
  moreover have "map_of (tb_refcounts (mg_table mg')) i = map_of (tb_refcounts (mg_table mg)) i \<or>
       map_of (tb_refcounts (mg_table mg')) i = None \<and> i \<in> set add_ids \<and>
       map_of (tb_staged (mg_table mg)) i \<noteq> None \<and> map_of (tb_active (mg_table mg)) i = None" for i
    using staged_adds_inactive [of i add_ids "mg_table mg2"] staging_only_staged [OF mg2(2), of i]
    by (auto simp: mg2(1) cleanup_table(3) same(3,4) staged_adds_for_swap_def)
  ultimately show ?thesis using cleanup_table(2) [of env add_ids mg2] same(2) mg2(1) by simp
qed

lemma missing_second_cleans:
  assumes "map_of (tb_staged (mg_table mg)) a \<noteq> None" and "map_of (tb_active (mg_table mg)) a = None"
    and "map_of (tb_staged (mg_table mg)) b = None"
  shows "swap_steps env su [a, b] remove_ids expected mg =
      Some (Swap_rejected (not_preloaded b), cleanup_staged_on_failure env [a, b] mg)"
    and "staged_adds_for_swap [a, b] (mg_table mg) = [a]"
proof -
  have ab: "a \<noteq> b" using assms(1,3) by auto
  have "check_swap_integrity env su [a, b] remove_ids expected mg = (Err (not_preloaded b), mg)"
    using assms(1,3) by (auto simp: check_swap_integrity_def staged_expected_hash_def)
  then show "swap_steps env su [a, b] remove_ids expected mg =
      Some (Swap_rejected (not_preloaded b), cleanup_staged_on_failure env [a, b] mg)"
    by (simp add: swap_steps_def)
  show "staged_adds_for_swap [a, b] (mg_table mg) = [a]"
    using assms ab by (simp add: staged_adds_for_swap_def)
qed

text \<open>
  The cleanup after a failed swap does not look at references. When the second adapter to add is not
  staged, the first one (staged and not active, but possibly pinned by a request that runs on a replaced stack) is
  detached from the kernels and loses its counter, and no retired stack with it is unloaded until it gets a new one.
\<close>

theorem failed_swap_detaches_referenced:
  assumes "map_of (tb_staged (mg_table mg)) a \<noteq> None" and "map_of (tb_active (mg_table mg)) a = None"
    and "map_of (tb_staged (mg_table mg)) b = None"
  shows "\<exists>e mg'. swap_with_expected_hash env su [a, b] remove_ids expected mg = Some (Err e, mg') \<and>
    mg_kernels mg' = map_option (\<lambda>k. snd (ko_detach (me_ops env) (slot_of env a) k)) (mg_kernels mg) \<and>
    map_of (tb_refcounts (mg_table mg')) a = None \<and>
    (\<forall>sk. a \<in> set (am_keys (sk_active sk)) \<longrightarrow> \<not> can_unload (mg_table mg') sk)"
proof -
  note s = missing_second_cleans [OF assms]
  let ?mg = "cleanup_staged_on_failure env [a, b] mg"
  have r: "map_of (tb_refcounts (mg_table ?mg)) a = None" by (simp add: cleanup_table(3) s(2))
  moreover have "mg_kernels ?mg = map_option (\<lambda>k. snd (ko_detach (me_ops env) (slot_of env a) k)) (mg_kernels mg)"
    by (simp add: cleanup_staged_on_failure_def s(2) Let_def) (cases "mg_kernels mg"; simp)
  moreover have "\<not> can_unload (mg_table ?mg) sk" if "a \<in> set (am_keys (sk_active sk))" for sk
    using that r by (auto simp: can_unload_def list_all_iff intro!: bexI [of _ a])
  ultimately show ?thesis using s(1) by (simp add: swap_with_expected_hash_def)
qed

section \<open>Preloading\<close>

lemma stage_result_simps [simp]:
  "stage_result (Go x, mg) cont = cont x mg"
  "stage_result (Reject err, mg) cont = Some (Ok (rejection_result err None mg), mg)"
  "stage_result (Fail e, mg) cont = Some (Err e, mg)"
  by (simp_all add: stage_result_def)

lemma enforce_service:
  assumes "enforce_adapter_cache_budget ko H needed protected kernels tb = (r, kernels', tb')"
  shows "same_service tb tb' \<and> (\<forall>i. protected = Some i \<longrightarrow> map_of (tb_staged tb') i = map_of (tb_staged tb) i)"
proof -
  have "\<exists>I. only_forgets tb tb' I \<and> (\<forall>i \<in> I. protected \<noteq> Some i)"
    using enforce_forgets [where P = "\<lambda>_. True", OF assms] by (auto simp: pred_option_def)
  then obtain I where I: "only_forgets tb tb' I" "\<forall>i \<in> I. protected \<noteq> Some i" by blast
  have "map_of (without I m) i = map_of m i" if "i \<notin> I" for i and m :: adapter_map
    unfolding without_def using that by (rule map_of_filter_key)
  with I show ?thesis unfolding only_forgets_def same_service_def by metis
qed

lemma evict_service: "evict_adapter_by_id ko H i kernels tb = (r, kernels', tb') \<Longrightarrow> same_service tb tb'"
  by (drule evict_cases) (auto simp: same_service_def forget_adapter_fields)

lemma preload_load_table:
  "preload_load env su i h mg = (st, mg') \<Longrightarrow> mg_table mg' = mg_table mg \<and> mg_integrity mg' = mg_integrity mg \<and>
    mg_kernels mg' = mg_kernels mg"
  by (auto simp: preload_load_def split: if_splits prod.splits sum.splits)

lemma preload_verify_table:
  assumes "preload_verify env su i h lo mg = Some (st, mg')"
  shows "mg_table mg' = mg_table mg \<and> mg_kernels mg' = mg_kernels mg \<and>
    (cache_sound (mg_integrity mg) \<and> iv_mode (mg_integrity mg) = Integrity_Enforce \<longrightarrow> (\<forall>x. st = Go x \<longrightarrow> x = h))"
proof (cases "mode_is_off (iv_mode (mg_integrity mg))")
  case True
  then show ?thesis
    using assms by (auto simp: preload_verify_def mode_is_off_def split: option.splits stage.splits)
next
  case False
  obtain r iv where v: "lo = None \<or> verify_outcome (me_verify env) (su_metadata su) (su_verify_task su i) i h
      (the lo) (mg_integrity mg) = (r, iv)" by fastforce
  show ?thesis
  proof (cases lo)
    case None
    with False assms show ?thesis by (auto simp: preload_verify_def)
  next
    case (Some l)
    then have e: "verify_outcome (me_verify env) (su_metadata su) (su_verify_task su i) i h l (mg_integrity mg) = (r, iv)"
      using v by simp
    then have "mg' = mg\<lparr>mg_integrity := iv\<rparr>"
      "st = (case r of Ok v \<Rightarrow> Go (vr_weights_hash v) | Err err \<Rightarrow>
         if should_reject_integrity (iv_mode (mg_integrity mg)) err then Reject err
         else Go (case ie_actual err of Some actual \<Rightarrow> actual | None \<Rightarrow> h))"
      using assms False Some by (simp_all add: preload_verify_def)
    with verify_outcome_sound [OF e] show ?thesis
      by (cases r) (auto simp: should_reject_integrity_def mode_is_enforce_def)
  qed
qed

lemma preload_kernels_table:
  assumes "preload_kernels env su i lo mg = Some (st, mg')"
  shows "same_service (mg_table mg) (mg_table mg') \<and> map_of (tb_staged (mg_table mg')) i = map_of (tb_staged (mg_table mg)) i"
proof -
  consider "mg_table mg' = mg_table mg"
    | needed r kernels' where "enforce_adapter_cache_budget (me_ops env) (env_hash env) needed (Some i) (mg_kernels mg) (mg_table mg) =
        (r, kernels', mg_table mg')"
    using assms
    by (auto simp: preload_kernels_def Let_def split: option.splits stage.splits prod.splits sum.splits)
  then show ?thesis using enforce_service by cases fastforce+
qed

lemma preload_stage_table:
  assumes "preload_stage env su i h observed loaded mg = (r, mg')"
  shows "tb_active (mg_table mg') = tb_active (mg_table mg) \<and> tb_current_stack (mg_table mg') = tb_current_stack (mg_table mg) \<and>
    tb_store (mg_table mg') = tb_store (mg_table mg) \<and>
    (is_ok r \<and> map_of (tb_staged (mg_table mg)) i = None \<longrightarrow>
      (\<exists>al. map_of (tb_staged (mg_table mg')) i = Some al \<and> al_hash al = observed \<and> al_expected_hash al = h))"
proof -
  obtain p tb where p: "preload_with_backing (su_instant su) i h observed (fst loaded) (snd loaded) (mg_table mg) = (p, tb)"
    by fastforce
  have tb: "tb_active tb = tb_active (mg_table mg)" "tb_current_stack tb = tb_current_stack (mg_table mg)"
    "tb_store tb = tb_store (mg_table mg)" using p by (auto simp: preload_with_backing_def Let_def split: if_splits)
  show ?thesis
  proof (cases p)
    case (Inl e)
    with assms p tb show ?thesis by (auto simp: preload_stage_def)
  next
    case (Inr u)
    obtain b kernels1 tb1 where b: "enforce_adapter_cache_budget (me_ops env) (env_hash env) 0 (Some i) (mg_kernels mg) tb =
        (b, kernels1, tb1)" by (metis prod_cases3)
    note es = enforce_service [OF b]
    have st: "\<exists>al. map_of (tb_staged tb) i = Some al \<and> al_hash al = observed \<and> al_expected_hash al = h"
      if "map_of (tb_staged (mg_table mg)) i = None"
      using p Inr that by (auto simp: preload_with_backing_def Let_def lookup_am_insert split: if_splits)
    show ?thesis
    proof (cases b)
      case (Inl e)
      obtain x kernels2 tb2 where x: "evict_adapter_by_id (me_ops env) (env_hash env) i kernels1 tb1 = (x, kernels2, tb2)"
        by (metis prod_cases3)
      with assms p Inr b Inl es tb evict_service [OF x] show ?thesis by (auto simp: preload_stage_def same_service_def)
    next
      case (Inr u')
      with assms p \<open>p = Ok u\<close> b es tb st show ?thesis by (auto simp: preload_stage_def same_service_def Let_def)
    qed
  qed
qed

text \<open>
  Preloading never changes what is served: the active set, its generation and the published index stay, whatever
  the outcome. And in enforcing mode an adapter that was not staged before is staged only under the hash that was
  asked for.
\<close>

theorem preload_keeps_serving:
  assumes "manager_execute env su (Preload i h) mg = Some (r, mg')"
  shows "tb_active (mg_table mg') = tb_active (mg_table mg) \<and> tb_current_stack (mg_table mg') = tb_current_stack (mg_table mg) \<and>
    tb_store (mg_table mg') = tb_store (mg_table mg) \<and>
    (\<forall>res. r = Ok res \<and> cr_success res \<and> cache_sound (mg_integrity mg) \<and> iv_mode (mg_integrity mg) = Integrity_Enforce \<and>
        map_of (tb_staged (mg_table mg)) i = None \<longrightarrow>
      (\<exists>al. map_of (tb_staged (mg_table mg')) i = Some al \<and> al_hash al = h \<and> al_expected_hash al = h))"
proof -
  obtain st1 mg1 where l: "preload_load env su i h mg = (st1, mg1)" by fastforce
  note l1 = preload_load_table [OF l]
  show ?thesis
  proof (cases "me_within_root env (me_path env i) \<and> (\<exists>lo. st1 = Go lo)")
    case False
    then show ?thesis
      using assms l l1 by (cases st1) (auto simp: execute_preload_def rejection_result_def split: if_splits)
  next
    case True
    then obtain lo where lo: "st1 = Go lo" "me_within_root env (me_path env i)" by blast
    obtain st2 mg2 where v: "preload_verify env su i h lo mg1 = Some (st2, mg2)"
      using assms l lo by (cases "preload_verify env su i h lo mg1") (auto simp: execute_preload_def)
    note v1 = preload_verify_table [OF v]
    show ?thesis
    proof (cases st2)
      case (Go observed)
      obtain st3 mg3 where k: "preload_kernels env su i lo mg2 = Some (st3, mg3)"
        using assms l lo v Go by (cases "preload_kernels env su i lo mg2") (auto simp: execute_preload_def)
      note k1 = preload_kernels_table [OF k]
      show ?thesis
      proof (cases st3)
        case (Go loaded)
        then have "preload_stage env su i h observed loaded mg3 = (r, mg')"
          using assms l lo v \<open>st2 = Go observed\<close> k by (simp add: execute_preload_def)
        from preload_stage_table [OF this] show ?thesis
          using l1 v1 k1 \<open>st2 = Go observed\<close> by (auto simp: same_service_def)
      qed (use assms l lo v \<open>st2 = Go observed\<close> k l1 v1 k1 in
          \<open>auto simp: execute_preload_def rejection_result_def same_service_def\<close>)
    qed (use assms l lo v l1 v1 in \<open>auto simp: execute_preload_def rejection_result_def\<close>)
  qed
qed

lemma preload_keeps_sound:
  assumes "execute_preload env su i h mg = Some (r, mg')"
  shows "keeps_sound mg mg'"
proof (cases "mg_integrity mg' = mg_integrity mg")
  case False
  obtain st mg1 where l: "preload_load env su i h mg = (st, mg1)" by fastforce
  note l1 = preload_load_table [OF l]
  obtain lo st2 mg2 where v: "st = Go lo" "preload_verify env su i h lo mg1 = Some (st2, mg2)"
    using assms l l1 False
    by (cases st) (auto simp: execute_preload_def rejection_result_def split: if_splits option.splits prod.splits)
  have k: "mg_integrity m' = mg_integrity m" if "preload_kernels env su i lo m = Some (x, m')" for m m' x
    using that by (auto simp: preload_kernels_def Let_def split: option.splits stage.splits prod.splits sum.splits)
  have s: "mg_integrity (snd (preload_stage env su i h ob ld m)) = mg_integrity m" for ob ld m
    by (auto simp: preload_stage_def Let_def split: prod.split sum.split)
  have "mg_integrity mg' = mg_integrity mg2"
    using assms l v k s False l1
    by (auto simp: execute_preload_def stage_result_def split: if_splits stage.splits option.splits prod.splits) (metis snd_conv)+
  moreover have "keeps_sound mg1 mg2"
    using v(2) verify_keeps_sound [of "me_verify env" "su_metadata su" "su_verify_task su i" i h _ mg1]
    by (auto simp: preload_verify_def keeps_sound_same split: if_splits option.splits stage.splits prod.splits)
  ultimately show ?thesis using l1 by (simp add: keeps_sound_def)
qed (rule keeps_sound_same)

text \<open>
  No command changes the mode of the verifier, and none files a result in its cache under a hash that the result
  does not carry.
\<close>

theorem execute_keeps_sound:
  assumes "manager_execute env su c mg = Some (r, mg')"
  shows "iv_mode (mg_integrity mg') = iv_mode (mg_integrity mg) \<and>
    (cache_sound (mg_integrity mg) \<longrightarrow> cache_sound (mg_integrity mg'))"
proof -
  have "keeps_sound mg mg'"
  proof (cases c)
    case (Preload i h)
    with assms preload_keeps_sound show ?thesis by simp
  next
    case (Swap add_ids remove_ids expected)
    then obtain x mg1 where x: "swap_steps env su add_ids remove_ids expected mg = Some (x, mg1)"
      using assms by (auto simp: execute_swap_def split: option.splits)
    have "mg_integrity mg' = mg_integrity mg1"
      using assms Swap x by (auto simp: execute_swap_def Let_def split: swap_end.splits option.splits prod.splits if_splits)
    with swap_steps_keeps_sound [OF x] show ?thesis by (simp add: keeps_sound_def)
  next
    case Rollback
    with assms show ?thesis by (auto simp: execute_rollback_def Let_def split: prod.splits sum.splits intro: keeps_sound_same)
  next
    case VerifyStack
    with assms show ?thesis
      by (auto simp: execute_verify_stack_def Let_def split: prod.splits option.splits intro: keeps_sound_same)
  qed
  then show ?thesis by (simp add: keeps_sound_def)
qed

text \<open>The stages of a preload that succeeds.\<close>

lemma preload_stages:
  assumes "manager_execute env su (Preload i h) mg = Some (Ok res, mg')" and "cr_success res"
  obtains lo mg1 observed mg2 loaded mg3 where "preload_load env su i h mg = (Go lo, mg1)"
    and "preload_verify env su i h lo mg1 = Some (Go observed, mg2)"
    and "preload_kernels env su i lo mg2 = Some (Go loaded, mg3)"
    and "preload_stage env su i h observed loaded mg3 = (Ok res, mg')"
proof -
  have fails: "\<not> cr_success (rejection_result err x m)" for err x and m :: "'a manager"
    by (simp add: rejection_result_def)
  from assms that show thesis
    by (auto simp: execute_preload_def stage_result_def fails split: if_splits stage.splits option.splits prod.splits)
qed

text \<open>With no memory budget a preload that succeeds changes the table only by staging the adapter.\<close>

lemma preload_unbudgeted:
  assumes "manager_execute env su (Preload i h) mg = Some (Ok res, mg')" and "cr_success res"
    and "tb_adapter_cache_budget_bytes (mg_table mg) = None"
  shows "\<exists>observed vram_mb backing.
    preload_with_backing (su_instant su) i h observed vram_mb backing (mg_table mg) = (Ok (), mg_table mg')"
proof -
  have unlimited: "enforce_adapter_cache_budget ko H needed protected kernels tb = (Ok (), kernels, tb)"
    if "tb_adapter_cache_budget_bytes tb = None" for ko :: "'a kernel_ops" and H needed protected kernels tb
    using that by (simp add: enforce_adapter_cache_budget_def)
  have budget: "tb_adapter_cache_budget_bytes tb' = tb_adapter_cache_budget_bytes tb"
    if "preload_with_backing now i h ob v bk tb = (r, tb')" for now ob v bk tb r tb'
    using that by (auto simp: preload_with_backing_def ensure_refcount_def Let_def split: if_splits option.splits)
  obtain lo mg1 observed mg2 loaded mg3 where st: "preload_load env su i h mg = (Go lo, mg1)"
    "preload_verify env su i h lo mg1 = Some (Go observed, mg2)"
    "preload_kernels env su i lo mg2 = Some (Go loaded, mg3)"
    "preload_stage env su i h observed loaded mg3 = (Ok res, mg')"
    using preload_stages [OF assms(1,2)] by blast
  have t2: "mg_table mg2 = mg_table mg" using preload_load_table [OF st(1)] preload_verify_table [OF st(2)] by simp
  have t3: "mg_table mg3 = mg_table mg2"
    using st(3) assms(3) t2 by (auto simp: preload_kernels_def unlimited Let_def
        split: option.splits stage.splits prod.splits sum.splits)
  obtain r tb where p: "preload_with_backing (su_instant su) i h observed (fst loaded) (snd loaded) (mg_table mg) = (r, tb)"
    by fastforce
  have "r = Ok () \<and> tb = mg_table mg'"
    using st(4) p budget [OF p] assms(3) unlimited [of tb] by (cases r) (auto simp: preload_stage_def t2 t3 Let_def)
  with p show ?thesis by blast
qed

lemma preload_fresh_counter:
  assumes "preload_with_backing now i h observed v bk tb = (Ok (), tb')" and "map_of (tb_refcounts tb) i = None"
  shows "map_of (tb_refcounts tb') i = Some (length (tb_counters tb))" and "tb_counters tb' = tb_counters tb @ [0]"
    and "tb_retired_stacks tb' = tb_retired_stacks tb"
  using assms by (auto simp: preload_with_backing_def ensure_refcount_def lookup_am_insert Let_def split: if_splits)

text \<open>
  (C26) The counterexample to the safety of pins once the manager's clean-up is involved. An adapter is staged, not
  active, and referenced, so the retired stack with it may not be unloaded; a swap that adds it together with an
  adapter that is not staged fails; the adapter is preloaded again. Then, with no memory budget, the same retired
  stack passes the check for unloading although the counter that the request holds is as it was: the clean-up
  dropped the counter from the map and the preload put a new one at zero in its place.
\<close>

theorem repreload_frees_pinned_stack:
  assumes "map_of (tb_staged (mg_table mg)) a \<noteq> None" and "map_of (tb_active (mg_table mg)) a = None"
    and "map_of (tb_staged (mg_table mg)) b = None" and "tb_adapter_cache_budget_bytes (mg_table mg) = None"
    and "map_of (tb_refcounts (mg_table mg)) a = Some c" and "c < length (tb_counters (mg_table mg))"
    and "tb_counters (mg_table mg) ! c \<noteq> 0"
    and "sk \<in> set (tb_retired_stacks (mg_table mg))" and "am_keys (sk_active sk) = [a]"
    and "swap_with_expected_hash env su [a, b] remove_ids expected mg = Some (r, mg1)"
    and "manager_execute env su' (Preload a h) mg1 = Some (Ok res, mg2)" and "cr_success res"
  shows "\<not> is_ok r \<and> \<not> can_unload (mg_table mg) sk \<and> sk \<in> set (tb_retired_stacks (mg_table mg2)) \<and>
    can_unload (mg_table mg2) sk \<and> tb_counters (mg_table mg2) ! c = tb_counters (mg_table mg) ! c"
proof -
  note s = missing_second_cleans [OF assms(1-3)]
  have r: "\<not> is_ok r" "mg1 = cleanup_staged_on_failure env [a, b] mg"
    using assms(10) by (auto simp: swap_with_expected_hash_def s(1))
  have t1: "map_of (tb_refcounts (mg_table mg1)) a = None" "tb_counters (mg_table mg1) = tb_counters (mg_table mg)"
    "tb_retired_stacks (mg_table mg1) = tb_retired_stacks (mg_table mg)"
    using cleanup_table(1) [of mg env "[a, b]"] by (simp_all add: r(2) cleanup_table(2,3) s(2) same_service_def)
  have "tb_adapter_cache_budget_bytes (mg_table mg1) = None"
    using assms(4) by (simp add: r(2) cleanup_staged_on_failure_def Let_def)
  from preload_unbudgeted [OF assms(11,12) this] obtain observed v bk where
    "preload_with_backing (su_instant su') a h observed v bk (mg_table mg1) = (Ok (), mg_table mg2)" by blast
  from preload_fresh_counter [OF this t1(1)] have t2: "map_of (tb_refcounts (mg_table mg2)) a = Some (length (tb_counters (mg_table mg1)))"
    "tb_counters (mg_table mg2) = tb_counters (mg_table mg1) @ [0]"
    "tb_retired_stacks (mg_table mg2) = tb_retired_stacks (mg_table mg1)" by simp_all
  show ?thesis
    using r(1) t1(2,3) t2 assms(5-9) by (simp add: can_unload_def nth_append)
qed

section \<open>Fallback\<close>

lemma attempt_success:
  assumes "attempt_preload env timeout_ms a mg = Some (Inr res, mg')"
  shows "cr_success res"
proof -
  obtain i h su cancelled where [simp]: "a = ((i, h), su, cancelled)" by (metis surj_pair)
  have [simp]: "cancelled = None" using assms by (cases cancelled) (auto simp: attempt_preload_def)
  obtain x where "execute_preload env su i h mg = Some (x, mg')" using assms by (auto simp: attempt_preload_def)
  with assms show ?thesis by (cases x) (auto simp: attempt_preload_def split: if_splits)
qed

lemma fallback_loop_order:
  assumes "fallback_loop env timeout_ms failures as mg = Some (r, mg')"
  shows "case r of
      Inl fs \<Rightarrow> map ff_adapter_id fs = map ff_adapter_id failures @ map (fst \<circ> fst) as
    | Inr fo \<Rightarrow> cr_success (fo_result fo) \<and> fo_attempts fo = length (fo_failures fo) + 1 \<and>
        (\<exists>n < length as. map ff_adapter_id (fo_failures fo) = map ff_adapter_id failures @ take n (map (fst \<circ> fst) as) \<and>
          fo_adapter_id fo = fst (fst (as ! n)))"
  using assms
proof (induction as arbitrary: failures mg)
  case (Cons a as)
  obtain x mg1 where x: "attempt_preload env timeout_ms a mg = Some (x, mg1)"
    using Cons.prems by (auto split: option.splits)
  show ?case
  proof (cases x)
    case (Inl reason)
    then have "fallback_loop env timeout_ms (failures @ [\<lparr>ff_adapter_id = fst (fst a), ff_reason = reason\<rparr>]) as mg1 = Some (r, mg')"
      using Cons.prems x by simp
    from Cons.IH [OF this] show ?thesis
      by (auto split: sum.splits intro: exI [of _ "Suc _"])
  next
    case (Inr res)
    with Cons.prems x attempt_success [of env timeout_ms a mg res mg1] show ?thesis
      by (auto intro: exI [of _ 0])
  qed
qed auto

text \<open>
  Loading with fallback tries the candidates in order: a success is reported for the first candidate that
  loads, with one failure for each candidate before it; it fails only after every candidate failed.
\<close>

theorem fallback_in_order:
  assumes "try_load_with_fallback env timeout_ms as mg = Some (Ok fo, mg')"
  shows "cr_success (fo_result fo) \<and> (\<exists>n < length as. fo_attempts fo = n + 1 \<and> fo_adapter_id fo = fst (fst (as ! n)) \<and>
    map ff_adapter_id (fo_failures fo) = take n (map (fst \<circ> fst) as))"
proof -
  have "fallback_loop env timeout_ms [] as mg = Some (Inr fo, mg')"
  proof (cases "fallback_loop env timeout_ms [] as mg")
    case (Some p)
    with assms show ?thesis
      by (cases p; cases "fst p") (auto simp: try_load_with_fallback_def split: if_splits)
  qed (use assms in \<open>auto simp: try_load_with_fallback_def split: if_splits\<close>)
  from fallback_loop_order [OF this] obtain n where n: "cr_success (fo_result fo)" "fo_attempts fo = length (fo_failures fo) + 1"
    "n < length as" "map ff_adapter_id (fo_failures fo) = take n (map (fst \<circ> fst) as)" "fo_adapter_id fo = fst (fst (as ! n))"
    by auto
  have "length (map ff_adapter_id (fo_failures fo)) = n" unfolding n(4) using n(3) by simp
  then have "length (fo_failures fo) = n" by simp
  with n show ?thesis by auto
qed

section \<open>Missing files\<close>

lemma entries_validation: "parse_entries H bs e m ib i n = Err err \<Longrightarrow> \<exists>s. err = EValidation s"
proof (induction n arbitrary: i)
  case (Suc n)
  have "\<exists>s. err = EValidation s" if "parse_entry H bs e m entry = Err err" for entry
    using that by (auto simp: parse_entry_def tag_try_from_def Let_def split: sum.splits option.splits if_splits)
  with Suc show ?case by (auto split: sum.splits)
qed simp

lemma archive_validation: "view_of_archive H bs offset = Some (Err err) \<Longrightarrow> \<exists>s. err = EValidation s"
proof -
  have s: "\<exists>s. err = EValidation s" if "parse_segments H bs hdr = Err err" for hdr
    using that by (auto simp: parse_segments_def Let_def dest: entries_validation split: option.splits if_splits)
  have o: "\<exists>s. err = EValidation s" if "open_aos H bs = Some (Err err)"
    using that s by (auto simp: open_aos_def parse_header_bytes_def Let_def split: sum.splits option.splits if_splits)
  assume "view_of_archive H bs offset = Some (Err err)"
  with o show ?thesis
    by (auto simp: view_of_archive_def select_view_segment_def absolute_range_def Let_def
        split: option.splits sum.splits if_splits prod.splits)
qed

lemma load_never_not_found:
  assumes "load_adapter H fs i path gl = Some (Err err, gl')"
  shows "(\<exists>s. err = EIo s) \<or> (\<exists>s. err = EValidation s)"
proof -
  obtain gl1 where l: "load_standalone H fs path gl1 = Some (Err err, gl')"
    using assms by (auto simp: load_adapter_def split: option.splits)
  obtain r gl2 where s: "standalone_for_path fs path gl1 = (r, gl2)" by fastforce
  show ?thesis
  proof (cases r)
    case (Inl e)
    then show ?thesis
      using l s by (auto simp: load_standalone_def standalone_for_path_def Let_def split: option.splits sum.splits)
  next
    case (Inr p)
    obtain sm reused where p: "p = (sm, reused)" by fastforce
    then obtain sm1 where "standalone_view H sm = Some (Err err, sm1)"
      using l s Inr by (auto simp: load_standalone_def split: option.splits sum.splits)
    then show ?thesis
      by (auto simp: standalone_view_def split: option.splits sum.splits dest: archive_validation)
  qed
qed

text \<open>
  The loader never reports an absent adapter as not found, so the rejection for a missing file that
  the manager has for that case is never given: preloading an adapter whose file is absent ends with an
  input-output error.
\<close>

theorem missing_file_never_rejected: "fst (preload_load env su i h mg) \<noteq> Reject err"
  using load_never_not_found [of "env_hash env" "su_files su" i "me_path env i" "mg_loader mg"]
  by (auto simp: preload_load_def load_blocking_def split: if_splits option.splits sum.splits aos_error.splits prod.splits)

section \<open>Witnesses\<close>

definition demo_env :: "nat list manager_env" where
  "demo_env = \<lparr>me_ops = \<lparr>ko_attach = (\<lambda>n k. (Ok (), unat n # k)), ko_detach = (\<lambda>n k. (Ok (), removeAll (unat n) k)),
       ko_switch = (\<lambda>n k. (Ok (), k))\<rparr>,
     me_load = (\<lambda>n w md k. (Ok (), k)), me_buffer_size = (\<lambda>n k. Ok 0), me_fingerprints = (\<lambda>k n. None),
     me_verify = sample_env, me_parse_manifest = (\<lambda>_. Inl ''''), me_path = (\<lambda>i. i), me_tenant_root = '''',
     me_within_root = (\<lambda>_. True), me_show_duration = (\<lambda>_. ''2s''), me_show_error = (\<lambda>_. '''')\<rparr>"

definition demo_su :: surroundings where
  "demo_su = \<lparr>su_files = \<lparr>fs_read = (\<lambda>_. Inl ''''), fs_galaxies = (\<lambda>_. []), fs_utf8_error = (\<lambda>_. '''')\<rparr>,
     su_metadata = (\<lambda>_. Inr (3, Some 7)), su_verify_task = (\<lambda>_. Runs), su_load_task = (\<lambda>_. None), su_instant = 0, su_clock = 0,
     su_polls = (\<lambda>tb. [(tb, 0)]), su_between = (\<lambda>tb. tb), su_memory = None\<rparr>"

definition demo_manager :: "integrity_mode \<Rightarrow> adapter_table \<Rightarrow> nat list manager" where
  "demo_manager mode tb = \<lparr>mg_table = tb, mg_kernels = Some [0, 513], mg_integrity = sample_verifier\<lparr>iv_mode := mode\<rparr>,
     mg_loader = \<lparr>gl_page_size = 4096, gl_galaxies = [],
       gl_standalones = [(''a'', \<lparr>sm_path = ''a'', sm_mmap = [1, 2, 3],
         sm_view = Some \<lparr>vw_payload_range = (1, 3), vw_manifest_range = (0, 1), vw_adapter_range = (0, 3)\<rparr>\<rparr>)]\<rparr>\<rparr>"

definition staged_table :: adapter_table where
  "staged_table = snd (preload 0 ''a'' [2, 3] 1 (table_new ''v''))"

lemma demo_quiet: "undisturbed demo_su" "alone demo_su"
  by (auto simp: undisturbed_def alone_def demo_su_def)

lemma staged_table_eq:
  "staged_table = (table_new ''v'')\<lparr>tb_staged := [(''a'', \<lparr>al_id = ''a'', al_hash = [2, 3], al_expected_hash = [2, 3],
      al_vram_mb = 1, al_loaded_at = 0, al_active = False, al_lifecycle = WL_Loaded, al_backing = None, al_recent_uses = []\<rparr>)],
     tb_refcounts := [(''a'', 0)], tb_counters := [0]\<rparr>"
  by (simp add: staged_table_def preload_def preload_with_backing_def ensure_refcount_def table_new_def
      with_checkpoint_limit_def am_insert_def am_remove_def)

lemmas demo_defs = demo_env_def demo_su_def demo_manager_def staged_table_eq table_new_def with_checkpoint_limit_def
  sample_env_def verifier_new_def mode_from_env_def mode_default_def load_blocking_def load_adapter_def load_standalone_def
  standalone_for_path_def standalone_view_def verify_outcome_def file_identity_of_def cache_hit_def verify_with_timeout_def
  verify_task_def manifest_of_def payload_of_def slice_def field_def integrity_expected_def verify_manifest_and_hashes_def
  parse_manifest_info_def get_str_def top_or_metadata_def tier_error_def scope_error_def b3_hash_def Let_def

lemmas swap_defs = manager_swap_def swap_with_expected_hash_def swap_steps_def check_swap_integrity_def
  staged_expected_hash_def mode_is_off_def attach_staged_for_swap_def staged_adds_for_swap_def swap_def save_rollback_def
  commit_swap_def ensure_refcount_def update_staged_hash_def am_update_def am_insert_def am_remove_def am_keys_def
  hint_switch_adapter_after_swap_def detach_removed_after_swap_def

lemma demo_swap:
  "\<exists>r mg'. manager_swap demo_env demo_su [''a''] [] (demo_manager Integrity_Enforce staged_table) = Some (Ok r, mg')"
  by (simp add: swap_defs demo_defs)

theorem enforced_swap_verified_witness:
  "\<exists>r mg'. manager_swap demo_env demo_su [''a''] [] (demo_manager Integrity_Enforce staged_table) = Some (Ok r, mg') \<and>
     (\<exists>al. map_of (tb_active (mg_table mg')) ''a'' = Some al \<and> al_hash al = al_expected_hash al)"
proof -
  obtain r mg' where s: "manager_swap demo_env demo_su [''a''] [] (demo_manager Integrity_Enforce staged_table) = Some (Ok r, mg')"
    using demo_swap by blast
  have "\<exists>al. map_of (tb_active (mg_table mg')) ''a'' = Some al \<and> al_hash al = al_expected_hash al"
    by (rule enforced_swap_verified [OF s demo_quiet(1)]) (simp_all add: demo_manager_def cache_sound_def verifier_new_def)
  with s show ?thesis by blast
qed

theorem swap_reaches_expected_hash_witness:
  "\<exists>h r mg'. swap_with_expected_hash demo_env demo_su [''a''] [] (Some h) (demo_manager Integrity_Off staged_table) =
     Some (Ok r, mg') \<and> table_stack_hash (env_hash demo_env) (env_hex demo_env) (mg_table mg') = h"
proof -
  let ?h = "compute_stack_hash (env_hash demo_env) (env_hex demo_env) [(''a'', [2, 3])]"
  have "\<exists>r mg'. swap_with_expected_hash demo_env demo_su [''a''] [] (Some ?h) (demo_manager Integrity_Off staged_table) =
     Some (Ok r, mg')"
    by (simp add: swap_defs demo_defs compute_stack_hash_with_def)
  then obtain r mg' where s: "swap_with_expected_hash demo_env demo_su [''a''] [] (Some ?h) (demo_manager Integrity_Off staged_table) =
     Some (Ok r, mg')" by blast
  from swap_reaches_expected_hash [OF s demo_quiet(1)] s show ?thesis by blast
qed

lemma demo_slots: "slot_of demo_env ''a'' = 97" "slot_of demo_env ''b'' = 98"
  by (simp_all add: adapter_id_to_u16_def demo_env_def sample_env_def b3_hash_def str_bytes_def)

theorem failed_swap_keeps_serving_witness:
  "\<exists>e mg'. swap_with_expected_hash demo_env demo_su [''a'', ''b''] [] None (demo_manager Integrity_Off staged_table) =
     Some (Err e, mg') \<and> same_service staged_table (mg_table mg') \<and> pred_option (\<lambda>k. 513 \<in> set k) (mg_kernels mg')"
proof -
  have "\<exists>e mg'. swap_with_expected_hash demo_env demo_su [''a'', ''b''] [] None (demo_manager Integrity_Off staged_table) =
     Some (Err e, mg')"
    by (simp add: swap_defs demo_defs)
  then obtain e mg' where s: "swap_with_expected_hash demo_env demo_su [''a'', ''b''] [] None (demo_manager Integrity_Off staged_table) =
     Some (Err e, mg')" by blast
  have "indifferent demo_env (\<lambda>k. 513 \<in> set k) [''a'', ''b''] (tb_active (mg_table (demo_manager Integrity_Off staged_table)))"
    unfolding indifferent_def using demo_slots by (auto simp: demo_env_def)
  from failed_swap_keeps_serving [OF s demo_quiet(2) this] s show ?thesis
    by (auto simp: demo_manager_def)
qed

theorem preload_keeps_serving_witness:
  "\<exists>r mg'. manager_execute demo_env demo_su (Preload ''a'' [2, 3])
      ((demo_manager Integrity_Enforce (table_new ''v''))\<lparr>mg_kernels := None\<rparr>) = Some (Ok r, mg') \<and>
    tb_active (mg_table mg') = [] \<and>
    (\<exists>al. map_of (tb_staged (mg_table mg')) ''a'' = Some al \<and> al_hash al = [2, 3] \<and> al_expected_hash al = [2, 3])"
proof -
  let ?mg = "(demo_manager Integrity_Enforce (table_new ''v''))\<lparr>mg_kernels := None\<rparr>"
  have "\<exists>r mg'. manager_execute demo_env demo_su (Preload ''a'' [2, 3]) ?mg = Some (Ok r, mg') \<and> cr_success r"
    by (simp add: execute_preload_def preload_load_def preload_verify_def preload_kernels_def preload_stage_def
        preload_with_backing_def enforce_adapter_cache_budget_def ensure_refcount_def mode_is_off_def am_insert_def am_remove_def demo_defs)
  then obtain r mg' where s: "manager_execute demo_env demo_su (Preload ''a'' [2, 3]) ?mg = Some (Ok r, mg')" "cr_success r" by blast
  have "cache_sound (mg_integrity ?mg)" "iv_mode (mg_integrity ?mg) = Integrity_Enforce"
    "map_of (tb_staged (mg_table ?mg)) ''a'' = None" "tb_active (mg_table ?mg) = []"
    by (simp_all add: demo_manager_def cache_sound_def verifier_new_def table_new_def with_checkpoint_limit_def)
  with preload_keeps_serving [OF s(1)] s show ?thesis by auto
qed

text \<open>A request pins the adapter, then the swap that brought it is rolled back.\<close>

definition pinned_table :: adapter_table where
  "pinned_table =
     (let tb = snd (swap 1 [''a''] [] staged_table);
          tb1 = tb\<lparr>tb_counters := snd (pin_current (tb_store tb) (tb_counters tb))\<rparr> in
      snd (rollback 2 tb1))"

lemma pinned_table_facts:
  "ref_count pinned_table ''a'' = 1" "map_of (tb_staged pinned_table) ''a'' \<noteq> None"
  "map_of (tb_staged pinned_table) ''b'' = None" "map_of (tb_active pinned_table) ''a'' = None"
  "list_ex (\<lambda>sk. ''a'' \<in> set (am_keys (sk_active sk))) (tb_retired_stacks pinned_table)"
  by (simp_all add: pinned_table_def Let_def swap_def save_rollback_def commit_swap_def ensure_refcount_def staged_table_eq
      table_new_def with_checkpoint_limit_def am_insert_def am_remove_def am_keys_def rollback_def pin_current_def
      install_def install_force_def replace_current_def push_generation_audit_def store_new_def snapshot_def
      fetch_add_def ref_count_def cache_key_of_def cache_key_new_def)

theorem failed_swap_detaches_referenced_witness:
  "\<exists>e mg'. ref_count pinned_table ''a'' = 1 \<and>
     swap_with_expected_hash demo_env demo_su [''a'', ''b''] [] None (demo_manager Integrity_Off pinned_table) = Some (Err e, mg') \<and>
     map_of (tb_refcounts (mg_table mg')) ''a'' = None \<and>
     (\<exists>sk \<in> set (tb_retired_stacks pinned_table). \<not> can_unload (mg_table mg') sk)"
proof -
  have t: "mg_table (demo_manager Integrity_Off pinned_table) = pinned_table" by (simp add: demo_manager_def)
  obtain e mg' where s: "swap_with_expected_hash demo_env demo_su [''a'', ''b''] [] None (demo_manager Integrity_Off pinned_table) =
      Some (Err e, mg')" "map_of (tb_refcounts (mg_table mg')) ''a'' = None"
    "\<forall>sk. ''a'' \<in> set (am_keys (sk_active sk)) \<longrightarrow> \<not> can_unload (mg_table mg') sk"
    using failed_swap_detaches_referenced [of "demo_manager Integrity_Off pinned_table" "''a''" "''b''" demo_env demo_su "[]" None]
      pinned_table_facts by (auto simp: t)
  with pinned_table_facts(1,5) show ?thesis by (auto simp: list_ex_iff)
qed

definition pinned_manager :: "nat list manager" where
  "pinned_manager = (demo_manager Integrity_Off pinned_table)\<lparr>mg_kernels := None\<rparr>"

lemma unverified_preload_succeeds:
  assumes "mg_kernels mg = None" and "iv_mode (mg_integrity mg) = Integrity_Off"
    and "tb_adapter_cache_budget_bytes (mg_table mg) = None" and "me_within_root env (me_path env i)"
  shows "\<exists>res mg'. manager_execute env su (Preload i h) mg = Some (Ok res, mg') \<and> cr_success res"
proof -
  obtain tb where "preload_with_backing (su_instant su) i h h 24 None (mg_table mg) = (Ok (), tb)"
    "tb_adapter_cache_budget_bytes tb = None"
    using assms(3) by (auto simp: preload_with_backing_def ensure_refcount_def Let_def split: option.split)
  with assms show ?thesis
    by (simp add: execute_preload_def preload_load_def preload_verify_def preload_kernels_def preload_stage_def
        mode_is_off_def enforce_adapter_cache_budget_def Let_def)
qed

lemma pinned_table_counter:
  "map_of (tb_refcounts pinned_table) ''a'' = Some 0" "tb_counters pinned_table = [1]"
  "tb_adapter_cache_budget_bytes pinned_table = None"
  "list_ex (\<lambda>sk. am_keys (sk_active sk) = [''a'']) (tb_retired_stacks pinned_table)"
  by (simp_all add: pinned_table_def Let_def swap_def save_rollback_def commit_swap_def ensure_refcount_def staged_table_eq
      table_new_def with_checkpoint_limit_def am_insert_def am_remove_def am_keys_def rollback_def pin_current_def
      install_def install_force_def replace_current_def push_generation_audit_def store_new_def snapshot_def
      fetch_add_def cache_key_of_def cache_key_new_def)

theorem repreload_frees_pinned_stack_witness:
  "\<exists>r mg1 res mg2 sk. swap_with_expected_hash demo_env demo_su [''a'', ''b''] [] None pinned_manager = Some (r, mg1) \<and>
     manager_execute demo_env demo_su (Preload ''a'' [2, 3]) mg1 = Some (Ok res, mg2) \<and> \<not> is_ok r \<and>
     sk \<in> set (tb_retired_stacks (mg_table mg2)) \<and> am_keys (sk_active sk) = [''a''] \<and>
     can_unload (mg_table mg2) sk \<and> tb_counters (mg_table mg2) ! 0 = 1"
proof -
  have t: "mg_table pinned_manager = pinned_table" by (simp add: pinned_manager_def demo_manager_def)
  obtain sk where sk: "sk \<in> set (tb_retired_stacks pinned_table)" "am_keys (sk_active sk) = [''a'']"
    using pinned_table_counter(4) by (auto simp: list_ex_iff)
  let ?mg1 = "cleanup_staged_on_failure demo_env [''a'', ''b''] pinned_manager"
  obtain r where s: "swap_with_expected_hash demo_env demo_su [''a'', ''b''] [] None pinned_manager = Some (r, ?mg1)"
    using missing_second_cleans(1) [of pinned_manager "''a''" "''b''" demo_env demo_su "[]" None] pinned_table_facts
    by (simp add: swap_with_expected_hash_def t)
  have "mg_kernels ?mg1 = None" "iv_mode (mg_integrity ?mg1) = Integrity_Off"
    "tb_adapter_cache_budget_bytes (mg_table ?mg1) = None" "me_within_root demo_env (me_path demo_env ''a'')"
    by (simp_all add: cleanup_staged_on_failure_def Let_def pinned_manager_def demo_manager_def demo_env_def
        pinned_table_counter(3))
  then obtain res mg2 where p: "manager_execute demo_env demo_su (Preload ''a'' [2, 3]) ?mg1 = Some (Ok res, mg2)" "cr_success res"
    using unverified_preload_succeeds by blast
  show ?thesis
    using repreload_frees_pinned_stack [of pinned_manager "''a''" "''b''" 0 sk demo_env demo_su "[]" None r ?mg1 demo_su "[2, 3]"
        res mg2] s p sk pinned_table_facts(2-4) pinned_table_counter(1-3) by (auto simp: t)
qed

end
