(* ===== verification/ByteCode.thy ===== *)
theory ByteCode
  imports B3Hash Seeds
begin

text \<open>
  Byte strings that are put together from slices before they are hashed: fixed-size fields and
  fields with a length prefix. The interface \<open>prefix_code\<close> is a group of slices that can be
  split off the front of any byte string; such groups compose by concatenation, and a digest
  over one determines its slices when the hash does not collide.
\<close>

definition prefixed :: "bytes \<Rightarrow> bytes list" where
  "prefixed bs = [le_bytes 4 (of_nat (length bs) :: u32), bs]"

locale prefix_code =
  fixes slices :: "'a \<Rightarrow> bytes list"
    and ok :: "'a \<Rightarrow> bool"
  assumes same_count: "length (slices a) = length (slices b)"
    and cancel: "ok a \<Longrightarrow> ok b \<Longrightarrow>
      concat (slices a) @ x = concat (slices b) @ y \<longleftrightarrow> slices a = slices b \<and> x = y"
begin

lemma concat_inject: "ok a \<Longrightarrow> ok b \<Longrightarrow> concat (slices a) = concat (slices b) \<longleftrightarrow> slices a = slices b"
  using cancel [of a b "[]" "[]"] by simp

lemma digest_inject:
  assumes "ok a" "ok b" "inj_on H {concat (slices a), concat (slices b)}"
  shows "b3_hash_multi H (slices a) = b3_hash_multi H (slices b) \<longleftrightarrow> slices a = slices b"
proof -
  have "H (concat (slices a)) = H (concat (slices b)) \<longleftrightarrow> concat (slices a) = concat (slices b)"
    by (rule inj_on_eq_iff [OF assms(3)]) simp_all
  then show ?thesis by (simp only: b3_hash_multi_def concat_inject [OF assms(1,2)])
qed

end

lemma prefix_code_Nil: "prefix_code (\<lambda>_. []) ok"
  by unfold_locales simp_all

lemma prefix_code_Cons:
  assumes "\<And>a. ok a \<Longrightarrow> length (f a) = n" "prefix_code t ok"
  shows "prefix_code (\<lambda>a. f a # t a) ok"
proof
  fix a b
  show "length (f a # t a) = length (f b # t b)"
    using prefix_code.same_count [OF assms(2)] by simp
  fix x y
  assume ok: "ok a" "ok b"
  then have "concat (f a # t a) @ x = concat (f b # t b) @ y \<longleftrightarrow>
      f a = f b \<and> concat (t a) @ x = concat (t b) @ y"
    using assms(1) [OF ok(1)] assms(1) [OF ok(2)] by simp
  then show "concat (f a # t a) @ x = concat (f b # t b) @ y \<longleftrightarrow> f a # t a = f b # t b \<and> x = y"
    using prefix_code.cancel [OF assms(2) ok, of x y] by auto
qed

lemma prefix_code_append:
  assumes "prefix_code s ok" "prefix_code t ok"
  shows "prefix_code (\<lambda>a. s a @ t a) ok"
proof
  fix a b
  show "length (s a @ t a) = length (s b @ t b)"
    using prefix_code.same_count [OF assms(1), of a b] prefix_code.same_count [OF assms(2), of a b] by simp
  fix x y
  assume ok: "ok a" "ok b"
  show "concat (s a @ t a) @ x = concat (s b @ t b) @ y \<longleftrightarrow> s a @ t a = s b @ t b \<and> x = y"
    using prefix_code.cancel [OF assms(1) ok, of "concat (t a) @ x" "concat (t b) @ y"]
      prefix_code.cancel [OF assms(2) ok, of x y] prefix_code.same_count [OF assms(1), of a b]
    by auto
qed

lemma of_nat_length_inject:
  "length xs < 2 ^ 32 \<Longrightarrow> length ys < 2 ^ 32 \<Longrightarrow>
   (of_nat (length xs) :: u32) = of_nat (length ys) \<longleftrightarrow> length xs = length ys"
  by (simp add: word_of_nat_eq_iff take_bit_nat_eq_self)

lemma prefixed_cancel:
  assumes "length s < 2 ^ 32" "length t < 2 ^ 32"
  shows "concat (prefixed s) @ x = concat (prefixed t) @ y \<longleftrightarrow> s = t \<and> x = y"
proof
  assume e: "concat (prefixed s) @ x = concat (prefixed t) @ y"
  then have "le_bytes 4 (of_nat (length s) :: u32) = le_bytes 4 (of_nat (length t) :: u32)"
    by (simp add: prefixed_def)
  then have "length s = length t"
    using of_nat_length_inject [OF assms] by (simp add: le_bytes_inject)
  with e show "s = t \<and> x = y" by (simp add: prefixed_def)
qed simp

lemma prefix_code_prefixed:
  assumes "\<And>a. ok a \<Longrightarrow> length (f a) < 2 ^ 32" "prefix_code t ok"
  shows "prefix_code (\<lambda>a. prefixed (f a) @ t a) ok"
proof (rule prefix_code_append [OF _ assms(2)])
  show "prefix_code (\<lambda>a. prefixed (f a)) ok"
  proof
    fix a b
    show "length (prefixed (f a)) = length (prefixed (f b))" by (simp add: prefixed_def)
    fix x y
    assume "ok a" "ok b"
    then have "concat (prefixed (f a)) @ x = concat (prefixed (f b)) @ y \<longleftrightarrow> f a = f b \<and> x = y"
      using assms(1) by (intro prefixed_cancel)
    then show "concat (prefixed (f a)) @ x = concat (prefixed (f b)) @ y \<longleftrightarrow>
        prefixed (f a) = prefixed (f b) \<and> x = y"
      by (auto simp: prefixed_def)
  qed
qed

lemma prefixed_inject [simp]: "prefixed s = prefixed t \<longleftrightarrow> s = t"
  by (auto simp: prefixed_def)

lemma length_prefixed [simp]: "length (prefixed s) = 2"
  by (simp add: prefixed_def)

lemmas prefix_code_intros = prefix_code_Nil prefix_code_Cons prefix_code_prefixed

subsection \<open>Lists of words and of strings\<close>

lemma concat_le_bytes_inject:
  assumes "0 < n" "LENGTH('a :: len) \<le> 8 * n"
  shows "concat (map (le_bytes n) xs) = concat (map (le_bytes n) (ys :: 'a word list)) \<Longrightarrow> xs = ys"
proof (induction xs arbitrary: ys)
  case Nil
  then have "length (concat (map (le_bytes n) ys)) = 0" by simp
  then show ?case using assms(1) by (cases ys) simp_all
next
  case (Cons x xs)
  have "length (concat (map (le_bytes n) (x # xs))) \<noteq> 0" using assms(1) by simp
  then have "length (concat (map (le_bytes n) ys)) \<noteq> 0" using Cons.prems by metis
  then obtain y ys' where ys: "ys = y # ys'" by (cases ys) simp_all
  with Cons.prems have "x = y" "concat (map (le_bytes n) xs) = concat (map (le_bytes n) ys')"
    using assms(2) by (simp_all add: le_bytes_inject)
  with Cons.IH ys show ?case by simp
qed

lemma concat_prefixed_inject:
  assumes "length xs = length ys" "\<forall>s \<in> set xs. length s < 2 ^ 32" "\<forall>s \<in> set ys. length s < 2 ^ 32"
    and "concat (map (\<lambda>s. concat (prefixed s)) xs) = concat (map (\<lambda>s. concat (prefixed s)) ys)"
  shows "xs = ys"
  using assms
proof (induction xs ys rule: list_induct2)
  case (Cons x xs y ys)
  then have "x = y \<and> concat (map (\<lambda>s. concat (prefixed s)) xs) = concat (map (\<lambda>s. concat (prefixed s)) ys)"
    using prefixed_cancel [of x y] by simp
  with Cons show ?case by simp
qed simp

end
