(* ===== verification/StopController.thy ===== *)
theory StopController
  imports ByteCode Floats "HOL-Library.Sublist"
begin

text \<open>
  The stop controller of a generation,
  \<open>crates/adapteros-lora-worker/src/stop_controller.rs\<close>, with the policy it enforces
  (\<open>StopPolicySpec\<close> of \<open>adapteros-api-types\<close>) and the reason codes it emits
  (\<open>StopReasonCode\<close> of \<open>adapteros-types\<close>). The controller keeps a sliding window of tokens;
  the lemmas show that its decisions are those of a specification on the whole stream of
  tokens, that the budget ends every generation, and what the digests bind.
\<close>

section \<open>Reasons and policy\<close>

datatype stop_reason_code =
    SR_Length
  | SR_BudgetMax
  | SR_CompletionConfident
  | SR_RepetitionGuard
  | SR_StopSequence
  | SR_Cancelled
  | SR_SystemError

fun stop_reason_display :: "stop_reason_code \<Rightarrow> string" where
  "stop_reason_display SR_Length = ''LENGTH''"
| "stop_reason_display SR_BudgetMax = ''BUDGET_MAX''"
| "stop_reason_display SR_CompletionConfident = ''COMPLETION_CONFIDENT''"
| "stop_reason_display SR_RepetitionGuard = ''REPETITION_GUARD''"
| "stop_reason_display SR_StopSequence = ''STOP_SEQUENCE''"
| "stop_reason_display SR_Cancelled = ''CANCELLED''"
| "stop_reason_display SR_SystemError = ''SYSTEM_ERROR''"

definition stop_reason_from_str :: "string \<Rightarrow> (string, stop_reason_code) result" where
  "stop_reason_from_str s =
     (if s = ''LENGTH'' then Ok SR_Length
      else if s = ''BUDGET_MAX'' then Ok SR_BudgetMax
      else if s = ''COMPLETION_CONFIDENT'' then Ok SR_CompletionConfident
      else if s = ''REPETITION_GUARD'' then Ok SR_RepetitionGuard
      else if s = ''STOP_SEQUENCE'' then Ok SR_StopSequence
      else if s = ''CANCELLED'' then Ok SR_Cancelled
      else if s = ''SYSTEM_ERROR'' then Ok SR_SystemError
      else Err (''Unknown stop reason code: '' @ s))"

type_synonym u16 = "16 word"

record stop_policy_spec =
  sp_output_max_tokens :: u32
  sp_eos_token_id :: "u32 option"
  sp_completion_threshold_q15 :: i16
  sp_repetition_ngram :: u8
  sp_repetition_window :: u16
  sp_repetition_threshold :: u8
  sp_stop_sequences :: "string list"

definition default_stop_policy :: stop_policy_spec where
  "default_stop_policy =
     \<lparr>sp_output_max_tokens = 2048, sp_eos_token_id = None, sp_completion_threshold_q15 = 24576,
      sp_repetition_ngram = 3, sp_repetition_window = 32, sp_repetition_threshold = 1,
      sp_stop_sequences = []\<rparr>"

definition stop_policy_new :: "u32 \<Rightarrow> stop_policy_spec" where
  "stop_policy_new output_max_tokens =
     default_stop_policy\<lparr>sp_output_max_tokens := output_max_tokens\<rparr>"

definition policy_canonical_bytes :: "stop_policy_spec \<Rightarrow> bytes" where
  "policy_canonical_bytes p =
     le_bytes 4 (sp_output_max_tokens p) @
     le_bytes 4 (case sp_eos_token_id p of Some t \<Rightarrow> t | None \<Rightarrow> 0) @
     le_bytes 2 (sp_completion_threshold_q15 p) @
     [sp_repetition_ngram p] @
     le_bytes 2 (sp_repetition_window p) @
     [sp_repetition_threshold p] @
     le_bytes 4 (of_nat (length (sp_stop_sequences p)) :: u32) @
     concat (map (\<lambda>s. concat (prefixed (str_bytes s))) (sp_stop_sequences p))"

definition stop_policy_digest :: "hash_fn \<Rightarrow> stop_policy_spec \<Rightarrow> b3hash" where
  "stop_policy_digest H p = b3_hash H (policy_canonical_bytes p)"

definition completion_threshold_f32 :: "float_ops \<Rightarrow> stop_policy_spec \<Rightarrow> f32b" where
  "completion_threshold_f32 fo p =
     fo_div32 fo (fo_of_i16_32 fo (sp_completion_threshold_q15 p)) lit_32767"

section \<open>The controller\<close>

record stop_decision =
  sd_reason :: stop_reason_code
  sd_token_index :: u32
  sd_trim_tokens :: nat

record stop_controller =
  sc_policy :: stop_policy_spec
  sc_policy_digest :: b3hash
  sc_generated_count :: u32
  sc_token_history :: "u32 list"
  sc_stop_sequences_tokens :: "u32 list list"
  sc_max_stop_sequence_len :: nat
  sc_history_window :: nat

definition new_with_stop_sequences ::
  "hash_fn \<Rightarrow> stop_policy_spec \<Rightarrow> u32 list list \<Rightarrow> stop_controller" where
  "new_with_stop_sequences H policy seqs =
     (let max_len = fold max (map length seqs) 0 in
      \<lparr>sc_policy = policy, sc_policy_digest = stop_policy_digest H policy,
       sc_generated_count = 0, sc_token_history = [], sc_stop_sequences_tokens = seqs,
       sc_max_stop_sequence_len = max_len,
       sc_history_window = max (unat (sp_repetition_window policy)) max_len\<rparr>)"

definition stop_controller_new :: "hash_fn \<Rightarrow> stop_policy_spec \<Rightarrow> stop_controller" where
  "stop_controller_new H policy = new_with_stop_sequences H policy []"

definition from_policy_or_default_with_stop_sequences ::
  "hash_fn \<Rightarrow> stop_policy_spec option \<Rightarrow> u32 \<Rightarrow> u32 list list \<Rightarrow> stop_controller" where
  "from_policy_or_default_with_stop_sequences H policy max_tokens seqs =
     new_with_stop_sequences H
       (case policy of Some p \<Rightarrow> p | None \<Rightarrow> stop_policy_new max_tokens) seqs"

definition from_policy_or_default ::
  "hash_fn \<Rightarrow> stop_policy_spec option \<Rightarrow> u32 \<Rightarrow> stop_controller" where
  "from_policy_or_default H policy max_tokens =
     stop_controller_new H (case policy of Some p \<Rightarrow> p | None \<Rightarrow> stop_policy_new max_tokens)"

text \<open>Pushing at the back, then dropping from the front until the window fits.\<close>

definition push_token :: "u32 \<Rightarrow> stop_controller \<Rightarrow> stop_controller" where
  "push_token token sc =
     (let h = sc_token_history sc @ [token] in
      sc\<lparr>sc_token_history := drop (length h - sc_history_window sc) h\<rparr>)"

definition sat_succ32 :: "u32 \<Rightarrow> u32" where
  "sat_succ32 c = (if c = - 1 then c else c + 1)"

definition preload_tokens :: "u32 list \<Rightarrow> stop_controller \<Rightarrow> stop_controller" where
  "preload_tokens ts sc =
     fold (\<lambda>t s. push_token t (s\<lparr>sc_generated_count := sat_succ32 (sc_generated_count s)\<rparr>)) ts sc"

definition reset_controller :: "stop_controller \<Rightarrow> stop_controller" where
  "reset_controller sc = sc\<lparr>sc_generated_count := 0, sc_token_history := []\<rparr>"

definition window_digest :: "hash_fn \<Rightarrow> stop_controller \<Rightarrow> b3hash" where
  "window_digest H sc =
     b3_hash H (le_bytes 4 (sc_generated_count sc) @ concat (map (le_bytes 4) (sc_token_history sc)))"

subsection \<open>The five checks\<close>

definition check_budget_max :: "stop_controller \<Rightarrow> u32 \<Rightarrow> stop_reason_code option" where
  "check_budget_max sc token_index =
     (if token_index \<ge> sp_output_max_tokens (sc_policy sc) then Some SR_BudgetMax else None)"

definition effective_eos :: "stop_controller \<Rightarrow> u32 \<Rightarrow> u32" where
  "effective_eos sc eos = (case sp_eos_token_id (sc_policy sc) of Some t \<Rightarrow> t | None \<Rightarrow> eos)"

text \<open>\<open>max_by\<close> with \<open>partial_cmp\<close>: the last of the greatest, incomparable values count as equal.\<close>

fun max_logit :: "f32b list \<Rightarrow> f32b" where
  "max_logit [] = lit_0"
| "max_logit (x # xs) = foldl (\<lambda>a b. if f32_lt b a then a else b) x xs"

definition compute_eos_probability :: "float_ops \<Rightarrow> f32b list \<Rightarrow> nat \<Rightarrow> f32b" where
  "compute_eos_probability fo logits i =
     (let m = max_logit logits;
          e = (\<lambda>l. fo_exp64 fo (fo_of_f32 fo (fo_sub32 fo l m)));
          total = foldl (fo_add64 fo) (fo_of_f32 fo (fo_sum_start fo)) (map e logits) in
      fo_to_f32 fo (fo_div64 fo (e (logits ! i)) total))"

text \<open>\<open>round\<close> and the saturating cast to \<open>i16\<close>.\<close>

definition eos_prob_q15 :: "float_ops \<Rightarrow> f32b list \<Rightarrow> nat \<Rightarrow> int" where
  "eos_prob_q15 fo logits i =
     max (- 32768) (min 32767 (fo_to_i32 fo
       (fo_round32 fo (fo_mul32 fo (compute_eos_probability fo logits i) lit_32767))))"

definition check_completion_confident ::
  "float_ops \<Rightarrow> stop_controller \<Rightarrow> f32b list \<Rightarrow> u32 \<Rightarrow> stop_reason_code option" where
  "check_completion_confident fo sc logits eos =
     (let e = unat (effective_eos sc eos) in
      if e \<ge> length logits then None
      else if eos_prob_q15 fo logits e \<ge> sint (sp_completion_threshold_q15 (sc_policy sc))
      then Some SR_CompletionConfident
      else None)"

text \<open>The counts of the n-grams of one size, and the greatest of them.\<close>

definition ngrams :: "nat \<Rightarrow> 'a list \<Rightarrow> 'a list list" where
  "ngrams n window = map (\<lambda>start. take n (drop start window)) [0..<Suc (length window - n)]"

fun count_ngrams :: "'a list list \<Rightarrow> ('a list \<times> nat) list \<Rightarrow> ('a list \<times> nat) list" where
  "count_ngrams [] counts = counts"
| "count_ngrams (g # gs) counts =
     count_ngrams gs ((g, (case map_of counts g of Some c \<Rightarrow> c | None \<Rightarrow> 0) + 1) #
       filter (\<lambda>e. fst e \<noteq> g) counts)"

definition max_ngram_count :: "nat \<Rightarrow> 'a list \<Rightarrow> nat" where
  "max_ngram_count n window = fold max (map snd (count_ngrams (ngrams n window) [])) 0"

definition repetition_window_of :: "stop_controller \<Rightarrow> u32 list" where
  "repetition_window_of sc =
     drop (length (sc_token_history sc) - unat (sp_repetition_window (sc_policy sc)))
       (sc_token_history sc)"

definition check_repetition_guard :: "stop_controller \<Rightarrow> stop_reason_code option" where
  "check_repetition_guard sc =
     (let min_ngram = unat (sp_repetition_ngram (sc_policy sc));
          threshold = unat (sp_repetition_threshold (sc_policy sc));
          window = repetition_window_of sc in
      if length window < min_ngram * 2 then None
      else if list_ex (\<lambda>n. max_ngram_count n window > threshold)
                [min_ngram..<Suc (length window div 2)]
      then Some SR_RepetitionGuard
      else None)"

fun find_stop_sequence :: "u32 list \<Rightarrow> u32 list list \<Rightarrow> nat option" where
  "find_stop_sequence history [] = None"
| "find_stop_sequence history (s # rest) =
     (if length s = 0 \<or> length history < length s then find_stop_sequence history rest
      else if list_all (\<lambda>(a, b). a = b) (zip (drop (length history - length s) history) s)
      then Some (length s - 1)
      else find_stop_sequence history rest)"

definition check_stop_sequences :: "stop_controller \<Rightarrow> nat option" where
  "check_stop_sequences sc =
     (if sc_stop_sequences_tokens sc = [] \<or> sc_max_stop_sequence_len sc = 0 then None
      else find_stop_sequence (sc_token_history sc) (sc_stop_sequences_tokens sc))"

text \<open>
  \<open>check_stop\<close>: the state moves first, then the checks run in the order of their priority.
  The count is a \<open>u32\<close> and wraps.
\<close>

definition check_stop ::
  "float_ops \<Rightarrow> stop_controller \<Rightarrow> u32 \<Rightarrow> u32 \<Rightarrow> f32b list \<Rightarrow> stop_decision option \<times> stop_controller"
  where
  "check_stop fo sc token eos logits =
     (let token_index = sc_generated_count sc;
          sc1 = push_token token (sc\<lparr>sc_generated_count := sc_generated_count sc + 1\<rparr>);
          decide = (\<lambda>reason trim. Some \<lparr>sd_reason = reason, sd_token_index = token_index,
                                        sd_trim_tokens = trim\<rparr>) in
      (case check_budget_max sc1 token_index of
         Some reason \<Rightarrow> decide reason 0
       | None \<Rightarrow>
           (case check_completion_confident fo sc1 logits eos of
              Some reason \<Rightarrow> decide reason 0
            | None \<Rightarrow>
                (case check_repetition_guard sc1 of
                   Some reason \<Rightarrow> decide reason 0
                 | None \<Rightarrow>
                     (case check_stop_sequences sc1 of
                        Some trim \<Rightarrow> decide SR_StopSequence trim
                      | None \<Rightarrow>
                          if token = effective_eos sc1 eos then decide SR_Length 0 else None))),
       sc1))"

section \<open>The specification on the whole stream\<close>

text \<open>
  What happens to a controller: tokens preloaded, a token checked, a new generation. The
  stream is every token since the last reset.
\<close>

datatype stop_event =
    Preloaded "u32 list"
  | Checked u32 u32 "f32b list"
  | Restarted

fun apply_event :: "float_ops \<Rightarrow> stop_event \<Rightarrow> stop_controller \<Rightarrow> stop_controller" where
  "apply_event fo (Preloaded ts) sc = preload_tokens ts sc"
| "apply_event fo (Checked t eos logits) sc = snd (check_stop fo sc t eos logits)"
| "apply_event fo Restarted sc = reset_controller sc"

fun extend_stream :: "stop_event \<Rightarrow> u32 list \<Rightarrow> u32 list" where
  "extend_stream (Preloaded ts) xs = xs @ ts"
| "extend_stream (Checked t _ _) xs = xs @ [t]"
| "extend_stream Restarted xs = []"

definition last_n :: "nat \<Rightarrow> 'a list \<Rightarrow> 'a list" where
  "last_n n xs = drop (length xs - n) xs"

definition occurrences :: "'a list \<Rightarrow> 'a list \<Rightarrow> nat" where
  "occurrences g w = card {i. i + length g \<le> length w \<and> take (length g) (drop i w) = g}"

definition repeats :: "stop_policy_spec \<Rightarrow> u32 list \<Rightarrow> bool" where
  "repeats p w \<longleftrightarrow>
     (\<exists>g. unat (sp_repetition_ngram p) \<le> length g \<and> 2 * length g \<le> length w \<and>
          occurrences g w > unat (sp_repetition_threshold p))"

definition stop_spec ::
  "float_ops \<Rightarrow> stop_policy_spec \<Rightarrow> u32 list list \<Rightarrow> u32 list \<Rightarrow> u32 \<Rightarrow> u32 \<Rightarrow> f32b list \<Rightarrow>
   (stop_reason_code \<times> nat) option" where
  "stop_spec fo p seqs stream t eos logits =
     (let e = (case sp_eos_token_id p of Some x \<Rightarrow> x | None \<Rightarrow> eos);
          out = stream @ [t] in
      if unat (sp_output_max_tokens p) \<le> length stream then Some (SR_BudgetMax, 0)
      else if unat e < length logits \<and>
              sint (sp_completion_threshold_q15 p) \<le> eos_prob_q15 fo logits (unat e)
      then Some (SR_CompletionConfident, 0)
      else if repeats p (last_n (unat (sp_repetition_window p)) out) then Some (SR_RepetitionGuard, 0)
      else (case find (\<lambda>s. s \<noteq> [] \<and> suffix s out) seqs of
              Some s \<Rightarrow> Some (SR_StopSequence, length s - 1)
            | None \<Rightarrow> if t = e then Some (SR_Length, 0) else None))"

subsection \<open>Windows\<close>

lemma length_last_n [simp]: "length (last_n n xs) = min n (length xs)"
  by (simp add: last_n_def)

lemma last_n_snoc: "last_n n (last_n n xs @ [x]) = last_n n (xs @ [x])"
proof (cases "n = 0")
  case False
  have "Suc (length xs) - (length xs - n + n) + (length xs - n) = Suc (length xs) - n"
    using False by (cases "length xs \<le> n") auto
  with False show ?thesis by (simp add: last_n_def)
qed (simp add: last_n_def)

lemma last_n_last_n: "m \<le> n \<Longrightarrow> last_n m (last_n n xs) = last_n m xs"
proof -
  assume "m \<le> n"
  then have "length xs - (length xs - n + m) + (length xs - n) = length xs - m"
    by (cases "length xs \<le> n") auto
  then show ?thesis by (simp add: last_n_def)
qed

lemma suffix_last_n: "length s \<le> n \<Longrightarrow> suffix s (last_n n xs) \<longleftrightarrow> suffix s xs"
proof -
  assume n: "length s \<le> n"
  have "suffix (last_n n xs) xs" by (simp add: last_n_def suffix_drop)
  moreover have "suffix s (last_n n xs)" if "suffix s xs"
    using that calculation n suffix_length_le [OF that]
    by (auto intro: suffix_length_suffix)
  ultimately show ?thesis using suffix_order.trans by blast
qed

lemma suffix_iff_drop: "suffix s xs \<longleftrightarrow> length s \<le> length xs \<and> drop (length xs - length s) xs = s"
  by (metis append_eq_conv_conj append_take_drop_id length_drop diff_diff_cancel suffix_def
      suffix_length_le suffix_take)

lemma zip_all_eq:
  "length a = length b \<Longrightarrow> list_all (\<lambda>(x, y). x = y) (zip a b) \<longleftrightarrow> a = b"
  by (induction a b rule: list_induct2) auto

lemma find_stop_sequence_eq:
  "find_stop_sequence h seqs =
     map_option (\<lambda>s. length s - 1) (find (\<lambda>s. s \<noteq> [] \<and> suffix s h) seqs)"
proof (induction seqs)
  case (Cons s seqs)
  show ?case
  proof (cases "s = [] \<or> length h < length s")
    case True
    then show ?thesis using Cons by (auto simp: suffix_iff_drop)
  next
    case False
    then have "list_all (\<lambda>(x, y). x = y) (zip (drop (length h - length s) h) s) \<longleftrightarrow>
        drop (length h - length s) h = s"
      by (intro zip_all_eq) simp
    then show ?thesis using Cons False by (auto simp: suffix_iff_drop)
  qed
qed simp

lemma fold_max_ge: "(a :: nat) \<le> fold max xs a \<and> (\<forall>x \<in> set xs. x \<le> fold max xs a)"
proof (induction xs arbitrary: a)
  case (Cons x xs)
  from Cons [of "max x a"] show ?case by auto
qed simp

lemma fold_max_greater: "(t :: nat) < fold max xs a \<longleftrightarrow> t < a \<or> (\<exists>x \<in> set xs. t < x)"
  by (induction xs arbitrary: a) auto

subsection \<open>Counting n-grams\<close>

definition counts_of :: "'a list list \<Rightarrow> ('a list \<times> nat) list \<Rightarrow> bool" where
  "counts_of seen counts \<longleftrightarrow>
     distinct (map fst counts) \<and>
     (\<forall>g c. (g, c) \<in> set counts \<longleftrightarrow> g \<in> set seen \<and> c = count_list seen g)"

lemma count_ngrams_counts:
  "counts_of seen counts \<Longrightarrow> counts_of (seen @ gs) (count_ngrams gs counts)"
proof (induction gs arbitrary: seen counts)
  case (Cons g gs)
  have m: "(case map_of counts g of Some c \<Rightarrow> c | None \<Rightarrow> 0) = count_list seen g"
  proof (cases "map_of counts g")
    case None
    then have "g \<notin> set seen"
      using Cons.prems by (metis counts_of_def fst_conv image_eqI map_of_eq_None_iff)
    with None show ?thesis by simp
  next
    case (Some c)
    then show ?thesis using Cons.prems by (auto simp: counts_of_def dest: map_of_SomeD)
  qed
  have "counts_of (seen @ [g]) ((g, count_list seen g + 1) # filter (\<lambda>e. fst e \<noteq> g) counts)"
    using Cons.prems by (auto simp: counts_of_def distinct_map_filter)
  from Cons.IH [OF this] show ?case by (simp add: m)
qed simp

lemma count_list_upt:
  "count_list (map f [0..<m]) g = card {i. i < m \<and> f i = g}"
proof (induction m)
  case (Suc m)
  have "{i. i < Suc m \<and> f i = g} =
      (if f m = g then insert m {i. i < m \<and> f i = g} else {i. i < m \<and> f i = g})"
    by (auto simp: less_Suc_eq)
  then show ?case using Suc by simp
qed simp

lemma max_ngram_count_greater:
  assumes "n \<le> length w"
  shows "t < max_ngram_count n w \<longleftrightarrow> (\<exists>g. length g = n \<and> t < occurrences g w)"
proof -
  have c: "counts_of (ngrams n w) (count_ngrams (ngrams n w) [])"
    using count_ngrams_counts [of "[]" "[]" "ngrams n w"] by (simp add: counts_of_def)
  have occ: "count_list (ngrams n w) g = occurrences g w" if "length g = n" for g
  proof -
    have "{i. i < Suc (length w - n) \<and> take n (drop i w) = g} =
        {i. i + n \<le> length w \<and> take n (drop i w) = g}"
      using assms by auto
    then show ?thesis using that by (simp only: ngrams_def count_list_upt occurrences_def)
  qed
  have len: "length g = n" if "g \<in> set (ngrams n w)" for g
    using that assms by (auto simp: ngrams_def)
  have "t < max_ngram_count n w \<longleftrightarrow>
      (\<exists>g \<in> set (ngrams n w). t < count_list (ngrams n w) g)"
    unfolding max_ngram_count_def fold_max_greater
    using c by (force simp: counts_of_def)
  also have "\<dots> \<longleftrightarrow> (\<exists>g. length g = n \<and> t < occurrences g w)"
  proof
    assume "\<exists>g. length g = n \<and> t < occurrences g w"
    then obtain g where g: "length g = n" "t < occurrences g w" by blast
    then have "count_list (ngrams n w) g \<noteq> 0" using occ by simp
    then have "g \<in> set (ngrams n w)" using count_notin by metis
    moreover have "t < count_list (ngrams n w) g" using g occ by simp
    ultimately show "\<exists>g \<in> set (ngrams n w). t < count_list (ngrams n w) g" by blast
  qed (use len occ in auto)
  finally show ?thesis .
qed

lemma check_repetition_guard_eq:
  "check_repetition_guard sc =
     (if repeats (sc_policy sc) (repetition_window_of sc) then Some SR_RepetitionGuard else None)"
proof -
  define w where "w = repetition_window_of sc"
  define m where "m = unat (sp_repetition_ngram (sc_policy sc))"
  define t where "t = unat (sp_repetition_threshold (sc_policy sc))"
  have "repeats (sc_policy sc) w \<longleftrightarrow>
      (\<exists>n. m \<le> n \<and> n \<le> length w div 2 \<and> t < max_ngram_count n w)"
  proof -
    have "t < max_ngram_count n w \<longleftrightarrow> (\<exists>g. length g = n \<and> t < occurrences g w)"
      if "n \<le> length w div 2" for n
      using that by (intro max_ngram_count_greater) simp
    moreover have "2 * length g \<le> length w \<longleftrightarrow> length g \<le> length w div 2" for g :: "u32 list"
      by auto
    ultimately show ?thesis unfolding repeats_def m_def t_def by metis
  qed
  moreover have "\<dots> \<longleftrightarrow> \<not> length w < m * 2 \<and>
      list_ex (\<lambda>n. t < max_ngram_count n w) [m..<Suc (length w div 2)]"
    by (auto simp: list_ex_iff)
  ultimately show ?thesis
    by (auto simp: check_repetition_guard_def w_def m_def t_def Let_def)
qed

subsection \<open>The window refines the stream\<close>

definition follows_stream :: "hash_fn \<Rightarrow> stop_policy_spec \<Rightarrow> u32 list list \<Rightarrow> u32 list \<Rightarrow> stop_controller \<Rightarrow> bool"
  where
  "follows_stream H p seqs xs sc \<longleftrightarrow>
     sc\<lparr>sc_token_history := [], sc_generated_count := 0\<rparr> = new_with_stop_sequences H p seqs \<and>
     sc_token_history sc = last_n (sc_history_window sc) xs \<and>
     (length xs < 2 ^ 32 \<longrightarrow> unat (sc_generated_count sc) = length xs)"

lemma follows_fields:
  assumes "follows_stream H p seqs xs sc"
  shows "sc_policy sc = p" "sc_stop_sequences_tokens sc = seqs"
    "sc_max_stop_sequence_len sc = fold max (map length seqs) 0"
    "sc_history_window sc = max (unat (sp_repetition_window p)) (fold max (map length seqs) 0)"
proof -
  from assms have e: "sc\<lparr>sc_token_history := [], sc_generated_count := 0\<rparr> = new_with_stop_sequences H p seqs"
    by (simp add: follows_stream_def)
  show "sc_policy sc = p" "sc_stop_sequences_tokens sc = seqs"
    "sc_max_stop_sequence_len sc = fold max (map length seqs) 0"
    "sc_history_window sc = max (unat (sp_repetition_window p)) (fold max (map length seqs) 0)"
    using arg_cong [OF e, of sc_policy] arg_cong [OF e, of sc_stop_sequences_tokens]
      arg_cong [OF e, of sc_max_stop_sequence_len] arg_cong [OF e, of sc_history_window]
    by (simp_all add: new_with_stop_sequences_def Let_def)
qed

lemma new_follows: "follows_stream H p seqs [] (new_with_stop_sequences H p seqs)"
  by (simp add: follows_stream_def new_with_stop_sequences_def last_n_def Let_def)

lemma reset_follows: "follows_stream H p seqs xs sc \<Longrightarrow> follows_stream H p seqs [] (reset_controller sc)"
  by (simp add: follows_stream_def reset_controller_def last_n_def)

lemma push_follows:
  assumes "follows_stream H p seqs xs sc"
    and "length xs < 2 ^ 32 - 1 \<Longrightarrow> c = sc_generated_count sc + 1"
  shows "follows_stream H p seqs (xs @ [t]) (push_token t (sc\<lparr>sc_generated_count := c\<rparr>))"
proof -
  have "unat c = Suc (length xs)" if "length xs < 2 ^ 32 - 1"
  proof -
    have "unat (sc_generated_count sc) = length xs"
      using assms(1) that by (simp add: follows_stream_def)
    with that show ?thesis using assms(2) [OF that] by (simp add: unat_word_ariths)
  qed
  then show ?thesis
    using assms(1) last_n_snoc [of "sc_history_window sc" xs t]
    by (simp add: follows_stream_def push_token_def last_n_def Let_def)
qed

lemma preload_follows:
  "follows_stream H p seqs xs sc \<Longrightarrow> follows_stream H p seqs (xs @ ts) (preload_tokens ts sc)"
proof (induction ts arbitrary: xs sc)
  case (Cons t ts)
  have "sat_succ32 (sc_generated_count sc) = sc_generated_count sc + 1"
    if "length xs < 2 ^ 32 - 1"
  proof -
    have "unat (sc_generated_count sc) \<noteq> 2 ^ 32 - 1"
      using Cons.prems that by (simp add: follows_stream_def)
    then have "sc_generated_count sc \<noteq> - 1" by (auto simp: unsigned_minus_1_eq_mask mask_eq_exp_minus_1)
    then show ?thesis by (simp add: sat_succ32_def)
  qed
  from Cons.IH [OF push_follows [OF Cons.prems this]] show ?case
    by (simp add: preload_tokens_def)
qed (simp add: preload_tokens_def)

lemma check_stop_state:
  "snd (check_stop fo sc t eos logits) =
     push_token t (sc\<lparr>sc_generated_count := sc_generated_count sc + 1\<rparr>)"
  by (simp add: check_stop_def Let_def)

lemma check_stop_follows:
  "follows_stream H p seqs xs sc \<Longrightarrow>
   follows_stream H p seqs (xs @ [t]) (snd (check_stop fo sc t eos logits))"
  by (simp add: check_stop_state push_follows)

lemma event_follows:
  "follows_stream H p seqs xs sc \<Longrightarrow>
   follows_stream H p seqs (extend_stream ev xs) (apply_event fo ev sc)"
  by (cases ev) (auto simp: preload_follows check_stop_follows reset_follows)

lemma events_follow:
  "follows_stream H p seqs xs sc \<Longrightarrow>
   follows_stream H p seqs (fold extend_stream evs xs) (fold (apply_event fo) evs sc)"
  by (induction evs arbitrary: xs sc) (auto dest: event_follows)

lemma check_stop_sequences_stream:
  assumes "follows_stream H p seqs xs sc"
  shows "check_stop_sequences sc =
     map_option (\<lambda>s. length s - 1) (find (\<lambda>s. s \<noteq> [] \<and> suffix s xs) seqs)"
proof -
  let ?m = "fold max (map length seqs) 0"
  note f = follows_fields [OF assms]
  have h: "sc_token_history sc = last_n (max (unat (sp_repetition_window p)) ?m) xs"
    using assms f by (simp add: follows_stream_def)
  have le: "length s \<le> ?m" if "s \<in> set seqs" for s
    using that fold_max_ge [of 0 "map length seqs"] by auto
  have "(s \<noteq> [] \<and> suffix s (sc_token_history sc)) = (s \<noteq> [] \<and> suffix s xs)" if "s \<in> set seqs" for s
    using le [OF that] by (simp add: h suffix_last_n)
  then have "find (\<lambda>s. s \<noteq> [] \<and> suffix s (sc_token_history sc)) seqs =
      find (\<lambda>s. s \<noteq> [] \<and> suffix s xs) seqs"
    by (intro find_cong) auto
  moreover have "find (\<lambda>s. s \<noteq> [] \<and> suffix s xs) seqs = None" if "?m = 0"
    using le that by (force simp: find_None_iff)
  ultimately show ?thesis
    by (auto simp: check_stop_sequences_def find_stop_sequence_eq f)
qed

lemma repetition_window_stream:
  assumes "follows_stream H p seqs xs sc"
  shows "repetition_window_of sc = last_n (unat (sp_repetition_window p)) xs"
proof -
  have "sc_token_history sc = last_n (sc_history_window sc) xs"
    using assms by (simp add: follows_stream_def)
  moreover have "repetition_window_of sc = last_n (unat (sp_repetition_window p)) (sc_token_history sc)"
    by (simp add: repetition_window_of_def last_n_def follows_fields [OF assms])
  ultimately show ?thesis by (simp add: last_n_last_n follows_fields [OF assms])
qed

lemma check_stop_stream:
  assumes "follows_stream H p seqs xs sc" and "length xs < 2 ^ 32"
  shows "fst (check_stop fo sc t eos logits) =
     map_option (\<lambda>(r, n). \<lparr>sd_reason = r, sd_token_index = of_nat (length xs), sd_trim_tokens = n\<rparr>)
       (stop_spec fo p seqs xs t eos logits)"
proof -
  define sc1 where "sc1 = push_token t (sc\<lparr>sc_generated_count := sc_generated_count sc + 1\<rparr>)"
  have f1: "follows_stream H p seqs (xs @ [t]) sc1"
    using check_stop_follows [OF assms(1)] by (simp add: check_stop_state sc1_def)
  have n: "unat (sc_generated_count sc) = length xs"
    using assms by (simp add: follows_stream_def)
  then have idx: "sc_generated_count sc = of_nat (length xs)"
    by (metis of_nat_unat ucast_id)
  have b: "check_budget_max sc1 (sc_generated_count sc) =
      (if unat (sp_output_max_tokens p) \<le> length xs then Some SR_BudgetMax else None)"
    by (simp add: check_budget_max_def follows_fields [OF f1] word_le_nat_alt n)
  show ?thesis
    using check_repetition_guard_eq [of sc1] check_stop_sequences_stream [OF f1] b
    unfolding check_stop_def Let_def sc1_def [symmetric]
    by (auto simp: stop_spec_def Let_def check_completion_confident_def effective_eos_def idx
        follows_fields [OF f1] repetition_window_stream [OF f1] split: option.split)
qed

text \<open>
  (C30) The stop controller keeps only a window of tokens, and yet decides as if it saw the
  whole stream: after any sequence of preloads, checks and resets, its decision on the next
  token, the token index and the number of tokens to trim are those of the specification
  on all tokens since the last reset (fewer than \<open>2^32\<close> of them): the budget first, then the
  confidence in the end of sequence, then an n-gram that occurs too often in the repetition
  window, then the first listed stop sequence that ends the stream, then the end-of-sequence
  token.
\<close>

theorem stop_decision_by_stream:
  assumes "length (fold extend_stream evs []) < 2 ^ 32"
  shows "fst (check_stop fo (fold (apply_event fo) evs (new_with_stop_sequences H p seqs)) t eos logits) =
     map_option (\<lambda>(r, n). \<lparr>sd_reason = r,
         sd_token_index = of_nat (length (fold extend_stream evs [])), sd_trim_tokens = n\<rparr>)
       (stop_spec fo p seqs (fold extend_stream evs []) t eos logits)"
  by (rule check_stop_stream [OF events_follow [OF new_follows] assms])

section \<open>Every generation ends\<close>

text \<open>A run of checks none of which stops.\<close>

fun continues :: "float_ops \<Rightarrow> stop_controller \<Rightarrow> (u32 \<times> u32 \<times> f32b list) list \<Rightarrow> bool" where
  "continues fo sc [] = True"
| "continues fo sc ((t, eos, logits) # rest) =
     (case check_stop fo sc t eos logits of
        (Some _, _) \<Rightarrow> False
      | (None, sc') \<Rightarrow> continues fo sc' rest)"

lemma check_stop_none:
  assumes "fst (check_stop fo sc t eos logits) = None"
  shows "sc_generated_count sc < sp_output_max_tokens (sc_policy sc)"
  using assms
  by (auto simp: check_stop_def Let_def check_budget_max_def push_token_def split: if_splits)

lemma check_stop_counts:
  "sc_generated_count (snd (check_stop fo sc t eos logits)) = sc_generated_count sc + 1"
  "sc_policy (snd (check_stop fo sc t eos logits)) = sc_policy sc"
  by (simp_all add: check_stop_state push_token_def Let_def)

lemma continues_bound:
  "continues fo sc inputs \<Longrightarrow> inputs \<noteq> [] \<Longrightarrow>
   unat (sc_generated_count sc) + length inputs \<le> unat (sp_output_max_tokens (sc_policy sc))"
proof (induction inputs arbitrary: sc)
  case (Cons x rest)
  obtain t eos logits where x: "x = (t, eos, logits)" by (cases x)
  let ?r = "check_stop fo sc t eos logits"
  have none: "fst ?r = None" and go: "continues fo (snd ?r) rest"
    using Cons.prems by (auto simp: x split: prod.splits option.splits)
  have lt: "unat (sc_generated_count sc) < unat (sp_output_max_tokens (sc_policy sc))"
    using check_stop_none [OF none] by (simp add: word_less_nat_alt)
  moreover have "unat (sc_generated_count sc + 1) = Suc (unat (sc_generated_count sc))"
  proof -
    have "unat (sp_output_max_tokens (sc_policy sc)) < 2 ^ LENGTH(32)" by (rule unsigned_less)
    with lt show ?thesis by (simp add: unat_word_ariths)
  qed
  ultimately show ?case
    using Cons.IH [OF go] by (cases "rest = []") (simp_all add: check_stop_counts)
qed simp

text \<open>
  (C31) The token budget ends every generation: whatever tokens, logits and end-of-sequence
  ids follow, a run of checks that all let the generation continue is no longer than the
  budget less the tokens already counted since the last reset, so a generation of more
  steps is stopped.
\<close>

theorem budget_ends_generation:
  assumes "length (fold extend_stream evs []) < 2 ^ 32"
    and "unat (sp_output_max_tokens p) - length (fold extend_stream evs []) < length inputs"
  shows "\<not> continues fo (fold (apply_event fo) evs (new_with_stop_sequences H p seqs)) inputs"
proof
  let ?sc = "fold (apply_event fo) evs (new_with_stop_sequences H p seqs)"
  have f: "follows_stream H p seqs (fold extend_stream evs []) ?sc"
    by (rule events_follow [OF new_follows])
  assume "continues fo ?sc inputs"
  moreover have "inputs \<noteq> []" using assms(2) by auto
  ultimately have "unat (sc_generated_count ?sc) + length inputs \<le> unat (sp_output_max_tokens p)"
    using continues_bound follows_fields(1) [OF f] by metis
  moreover have "unat (sc_generated_count ?sc) = length (fold extend_stream evs [])"
    using f assms(1) by (simp add: follows_stream_def)
  ultimately show False using assms(2) by simp
qed

text \<open>
  When a stop sequence ends the generation, trimming the announced number of tokens from the
  stream before the current token leaves exactly what precedes a listed stop sequence.
\<close>

lemma stop_sequence_trims:
  assumes "stop_spec fo p seqs stream t eos logits = Some (SR_StopSequence, n)"
  shows "n \<le> length stream \<and>
     (\<exists>s \<in> set seqs. s \<noteq> [] \<and> stream @ [t] = take (length stream - n) stream @ s)"
proof -
  from assms obtain s where s: "find (\<lambda>s. s \<noteq> [] \<and> suffix s (stream @ [t])) seqs = Some s"
    and n: "n = length s - 1"
    by (auto simp: stop_spec_def Let_def split: if_splits option.splits)
  from s have ss: "s \<in> set seqs" "s \<noteq> []" "suffix s (stream @ [t])"
    by (metis (mono_tags, lifting) find_Some_iff nth_mem)+
  then have len: "length s \<le> Suc (length stream)"
    and d: "drop (Suc (length stream) - length s) (stream @ [t]) = s"
    by (simp_all add: suffix_iff_drop)
  have l: "Suc (length stream) - length s = length stream - n"
    using n ss(2) len by (cases s) auto
  have "stream @ [t] = take (length stream - n) (stream @ [t]) @ s"
    using d by (metis l append_take_drop_id)
  then show ?thesis using ss n len by auto
qed

text \<open>
  With \<open>repetition_ngram\<close> set to 0 the empty n-gram is counted at every position, so the
  guard fires as soon as the window holds as many tokens as the threshold.
\<close>

lemma zero_ngram_always_repeats:
  assumes "sp_repetition_ngram p = 0" and "unat (sp_repetition_threshold p) \<le> length w"
  shows "repeats p w"
proof -
  have "{i. i \<le> length w} = {..length w}" by auto
  then have "occurrences [] w = Suc (length w)" by (simp add: occurrences_def)
  with assms show ?thesis unfolding repeats_def by (intro exI [of _ "[]"]) simp
qed

section \<open>What the digests bind\<close>



definition policy_bounded :: "stop_policy_spec \<Rightarrow> bool" where
  "policy_bounded p \<longleftrightarrow> length (sp_stop_sequences p) < 2 ^ 32 \<and>
     list_all (\<lambda>s. length s < 2 ^ 32) (sp_stop_sequences p)"

definition eos_field :: "stop_policy_spec \<Rightarrow> u32" where
  "eos_field p = (case sp_eos_token_id p of Some t \<Rightarrow> t | None \<Rightarrow> 0)"

lemma policy_bytes_inject:
  assumes "policy_bounded p" "policy_bounded q"
  shows "policy_canonical_bytes p = policy_canonical_bytes q \<longleftrightarrow>
     p\<lparr>sp_eos_token_id := None\<rparr> = q\<lparr>sp_eos_token_id := None\<rparr> \<and> eos_field p = eos_field q"
proof
  assume e: "policy_canonical_bytes p = policy_canonical_bytes q"
  then have fixed: "sp_output_max_tokens p = sp_output_max_tokens q" "eos_field p = eos_field q"
    "sp_completion_threshold_q15 p = sp_completion_threshold_q15 q"
    "sp_repetition_ngram p = sp_repetition_ngram q" "sp_repetition_window p = sp_repetition_window q"
    "sp_repetition_threshold p = sp_repetition_threshold q"
    "(of_nat (length (sp_stop_sequences p)) :: u32) = of_nat (length (sp_stop_sequences q))"
    by (simp_all add: policy_canonical_bytes_def le_bytes_inject eos_field_def)
  then have "length (sp_stop_sequences p) = length (sp_stop_sequences q)"
    using assms by (simp add: policy_bounded_def word_of_nat_eq_iff take_bit_nat_eq_self)
  moreover from e fixed have
    "concat (map (\<lambda>s. concat (prefixed s)) (map str_bytes (sp_stop_sequences p))) =
     concat (map (\<lambda>s. concat (prefixed s)) (map str_bytes (sp_stop_sequences q)))"
    by (simp add: policy_canonical_bytes_def comp_def)
  ultimately have "map str_bytes (sp_stop_sequences p) = map str_bytes (sp_stop_sequences q)"
    using assms by (intro concat_prefixed_inject) (simp_all add: policy_bounded_def list_all_iff str_bytes_def)
  then have "sp_stop_sequences p = sp_stop_sequences q"
    by (metis (mono_tags) inj_map_eq_map injI str_bytes_inj)
  with fixed show "p\<lparr>sp_eos_token_id := None\<rparr> = q\<lparr>sp_eos_token_id := None\<rparr> \<and> eos_field p = eos_field q"
    by (cases p; cases q) simp
next
  assume "p\<lparr>sp_eos_token_id := None\<rparr> = q\<lparr>sp_eos_token_id := None\<rparr> \<and> eos_field p = eos_field q"
  then show "policy_canonical_bytes p = policy_canonical_bytes q"
    by (cases p; cases q) (simp add: policy_canonical_bytes_def eos_field_def)
qed

text \<open>
  What the digest of a stop policy commits to, when the hash has no collision on the
  two encodings: every field of the policy, the stop sequences included, up to one confusion,
  a policy without an end-of-sequence token and one that names token 0 have the same digest.
\<close>

theorem stop_policy_digest_binds:
  assumes "H (policy_canonical_bytes p) = H (policy_canonical_bytes q) \<Longrightarrow>
      policy_canonical_bytes p = policy_canonical_bytes q"
    and "policy_bounded p" "policy_bounded q"
  shows "stop_policy_digest H p = stop_policy_digest H q \<longleftrightarrow>
     p\<lparr>sp_eos_token_id := None\<rparr> = q\<lparr>sp_eos_token_id := None\<rparr> \<and>
     (sp_eos_token_id p = sp_eos_token_id q \<or>
      {sp_eos_token_id p, sp_eos_token_id q} = {None, Some 0})"
proof -
  have "stop_policy_digest H p = stop_policy_digest H q \<longleftrightarrow>
      policy_canonical_bytes p = policy_canonical_bytes q"
    using assms(1) by (auto simp: stop_policy_digest_def b3_hash_def)
  moreover have "eos_field p = eos_field q \<longleftrightarrow>
      sp_eos_token_id p = sp_eos_token_id q \<or> {sp_eos_token_id p, sp_eos_token_id q} = {None, Some 0}"
    by (auto simp: eos_field_def doubleton_eq_iff split: option.splits)
  ultimately show ?thesis by (simp add: policy_bytes_inject [OF assms(2,3)])
qed

text \<open>The window digest determines the token count and the window.\<close>

lemma window_digest_binds:
  assumes "window_digest H a = window_digest H b"
    and "\<And>x y. H x = H y \<Longrightarrow> x = y"
  shows "sc_generated_count a = sc_generated_count b \<and> sc_token_history a = sc_token_history b"
  using assms by (auto simp: window_digest_def b3_hash_def le_bytes_inject
      dest!: assms(2) concat_le_bytes_inject [rotated 2])

lemma stop_reason_roundtrip: "stop_reason_from_str (stop_reason_display r) = Ok r"
  by (cases r) (simp_all add: stop_reason_from_str_def)

section \<open>Witnesses\<close>

theorem stop_decision_by_stream_witness:
  "\<forall>fo. stop_spec fo (stop_policy_new 10) [[4], [8, 9]] [7, 8] 9 2 [] = Some (SR_StopSequence, 1)"
proof
  fix fo
  let ?evs = "[Preloaded [1, 2], Restarted, Preloaded [7], Checked 8 2 []]"
  let ?sc = "fold (apply_event fo) ?evs (new_with_stop_sequences (\<lambda>_. b3_zero) (stop_policy_new 10) [[4], [8, 9]])"
  have s: "fold extend_stream ?evs [] = [7, 8]" by simp
  have "fst (check_stop fo ?sc 9 2 []) =
      Some \<lparr>sd_reason = SR_StopSequence, sd_token_index = 2, sd_trim_tokens = 1\<rparr>"
    by (simp add: preload_tokens_def push_token_def reset_controller_def sat_succ32_def Let_def
        new_with_stop_sequences_def stop_policy_new_def default_stop_policy_def check_stop_def
        check_budget_max_def check_completion_confident_def check_repetition_guard_def
        repetition_window_of_def check_stop_sequences_def)
  then show "stop_spec fo (stop_policy_new 10) [[4], [8, 9]] [7, 8] 9 2 [] = Some (SR_StopSequence, 1)"
    using stop_decision_by_stream [of ?evs fo "\<lambda>_. b3_zero" "stop_policy_new 10" "[[4], [8, 9]]" 9 2 "[]"]
    unfolding s by (cases "stop_spec fo (stop_policy_new 10) [[4], [8, 9]] [7, 8] 9 2 []") auto
qed

theorem budget_ends_generation_witness:
  "\<forall>fo. \<not> continues fo (preload_tokens [7, 8] (stop_controller_new (\<lambda>_. b3_zero) (stop_policy_new 3)))
     [(1, 0, []), (5, 0, [])]"
  using budget_ends_generation [of "[Preloaded [7, 8]]" "stop_policy_new 3" "[(1, 0, []), (5, 0, [])]"
      _ "\<lambda>_. b3_zero" "[]"]
  by (simp add: stop_controller_new_def stop_policy_new_def default_stop_policy_def)

theorem stop_policy_digest_binds_witness:
  "stop_policy_digest (\<lambda>bs. bs) (stop_policy_new 3) \<noteq> stop_policy_digest (\<lambda>bs. bs) (stop_policy_new 4) \<and>
   stop_policy_digest (\<lambda>bs. bs) (stop_policy_new 3) =
   stop_policy_digest (\<lambda>bs. bs) ((stop_policy_new 3)\<lparr>sp_eos_token_id := Some 0\<rparr>)"
  using stop_policy_digest_binds [of "\<lambda>bs. bs" "stop_policy_new 3" "stop_policy_new 4"]
    stop_policy_digest_binds [of "\<lambda>bs. bs" "stop_policy_new 3" "(stop_policy_new 3)\<lparr>sp_eos_token_id := Some 0\<rparr>"]
  by (simp add: stop_policy_new_def default_stop_policy_def policy_bounded_def)

end
