(* ===== verification/KvQuota.thy ===== *)
theory KvQuota
  imports AssocMap Floats
begin

text \<open>
  The per-tenant quota of KV cache bytes, \<open>crates/adapteros-lora-worker/src/kv_quota.rs\<close>:
  bytes are reserved, then finalized into used bytes or rolled back, and released when a
  sequence is freed. A reservation expires after five minutes and is dropped by the next
  call of \<open>reserve\<close>. The counters are \<open>u64\<close> and wrap, as the atomics do. Each operation that
  changes them runs under the usage lock, so it is one step; the readings of the two clocks
  are arguments, in nanoseconds.
\<close>

section \<open>Reservations and the manager\<close>

definition reservation_timeout :: nat where
  "reservation_timeout = 300 * 10 ^ 9"

record kv_reservation =
  kr_id :: string
  kr_size_bytes :: u64
  kr_created_at :: nat
  kr_expires_at :: nat

definition kv_reservation_new :: "nat \<Rightarrow> string \<Rightarrow> u64 \<Rightarrow> kv_reservation" where
  "kv_reservation_new now i size_bytes =
     \<lparr>kr_id = i, kr_size_bytes = size_bytes, kr_created_at = now,
      kr_expires_at = now + reservation_timeout\<rparr>"

definition reservation_is_expired :: "nat \<Rightarrow> kv_reservation \<Rightarrow> bool" where
  "reservation_is_expired now r \<longleftrightarrow> now > kr_expires_at r"

record kv_quota =
  kq_tenant_id :: string
  kq_quota_bytes :: "u64 option"
  kq_used_bytes :: u64
  kq_reserved_bytes :: u64
  kq_reservations :: "kv_reservation list"
  kq_evictions :: u32
  kq_quota_enforced :: bool

definition kv_quota_new :: "string \<Rightarrow> u64 option \<Rightarrow> kv_quota" where
  "kv_quota_new tenant_id quota_bytes =
     \<lparr>kq_tenant_id = tenant_id, kq_quota_bytes = quota_bytes, kq_used_bytes = 0,
      kq_reserved_bytes = 0, kq_reservations = [], kq_evictions = 0,
      kq_quota_enforced = (quota_bytes \<noteq> None)\<rparr>"

definition sat_add64 :: "u64 \<Rightarrow> u64 \<Rightarrow> u64" where
  "sat_add64 a b = (if unat a + unat b < 2 ^ 64 then a + b else - 1)"

definition show_u64 :: "u64 \<Rightarrow> string" where
  "show_u64 w = show_nat (unat w)"

definition check_quota :: "u64 \<Rightarrow> kv_quota \<Rightarrow> (aos_error, unit) result" where
  "check_quota n kq =
     (case kq_quota_bytes kq of
        None \<Rightarrow> Ok ()
      | Some quota \<Rightarrow>
          (let current = kq_used_bytes kq;
               reserved = kq_reserved_bytes kq;
               total_needed = sat_add64 (sat_add64 current reserved) n in
           if total_needed > quota
           then Err (EMemoryPressure (''KV quota exceeded for tenant '' @ kq_tenant_id kq @
             '': need '' @ show_u64 total_needed @ '' bytes, quota '' @ show_u64 quota @
             '' bytes (used: '' @ show_u64 current @ '', reserved: '' @ show_u64 reserved @ '')''))
           else Ok ()))"

definition cleanup_expired :: "nat \<Rightarrow> kv_quota \<Rightarrow> kv_quota" where
  "cleanup_expired now kq =
     (let kept = filter (\<lambda>r. \<not> reservation_is_expired now r) (kq_reservations kq);
          expired_bytes = sum_list (map kr_size_bytes
            (filter (reservation_is_expired now) (kq_reservations kq)));
          kq1 = kq\<lparr>kq_reservations := kept\<rparr> in
      if expired_bytes > 0
      then kq1\<lparr>kq_reserved_bytes := kq_reserved_bytes kq - expired_bytes\<rparr>
      else kq1)"

definition reservation_id :: "nat \<Rightarrow> kv_quota \<Rightarrow> string" where
  "reservation_id wall kq = ''kvres_'' @ kq_tenant_id kq @ ''_'' @ show_nat wall"

definition kv_reserve ::
  "nat \<Rightarrow> nat \<Rightarrow> u64 \<Rightarrow> kv_quota \<Rightarrow> (aos_error, kv_reservation) result \<times> kv_quota" where
  "kv_reserve now wall n kq =
     (let kq1 = cleanup_expired now kq in
      case check_quota n kq1 of
        Err e \<Rightarrow> (Err e, kq1)
      | Ok _ \<Rightarrow>
          (let r = kv_reservation_new now (reservation_id wall kq1) n in
           (Ok r, kq1\<lparr>kq_reserved_bytes := kq_reserved_bytes kq1 + n,
                       kq_reservations := kq_reservations kq1 @ [r]\<rparr>)))"

definition forget_reservation :: "kv_reservation \<Rightarrow> kv_quota \<Rightarrow> kv_quota" where
  "forget_reservation r kq =
     kq\<lparr>kq_reservations := filter (\<lambda>x. kr_id x \<noteq> kr_id r) (kq_reservations kq)\<rparr>"

definition kv_finalize :: "kv_reservation \<Rightarrow> kv_quota \<Rightarrow> (aos_error, unit) result \<times> kv_quota" where
  "kv_finalize r kq =
     (let kq1 = forget_reservation r kq in
      (Ok (), kq1\<lparr>kq_reserved_bytes := kq_reserved_bytes kq1 - kr_size_bytes r,
                  kq_used_bytes := kq_used_bytes kq1 + kr_size_bytes r\<rparr>))"

definition kv_rollback :: "kv_reservation \<Rightarrow> kv_quota \<Rightarrow> kv_quota" where
  "kv_rollback r kq =
     (let kq1 = forget_reservation r kq in
      kq1\<lparr>kq_reserved_bytes := kq_reserved_bytes kq1 - kr_size_bytes r\<rparr>)"

definition kv_release :: "u64 \<Rightarrow> kv_quota \<Rightarrow> kv_quota" where
  "kv_release n kq = kq\<lparr>kq_used_bytes := kq_used_bytes kq - n\<rparr>"

definition record_eviction :: "kv_quota \<Rightarrow> kv_quota" where
  "record_eviction kq = kq\<lparr>kq_evictions := kq_evictions kq + 1\<rparr>"

definition reset_evictions :: "kv_quota \<Rightarrow> kv_quota" where
  "reset_evictions kq = kq\<lparr>kq_evictions := 0\<rparr>"

text \<open>The usage report. The percentage is computed in \<open>f64\<close>; the conversion, the division and
  the product are the argument.\<close>

record kv_quota_usage =
  ku_tenant_id :: string
  ku_used_bytes :: u64
  ku_reserved_bytes :: u64
  ku_quota_bytes :: "u64 option"
  ku_available_bytes :: u64
  ku_usage_pct :: f64b

definition kv_quota_usage :: "(u64 \<Rightarrow> u64 \<Rightarrow> f64b) \<Rightarrow> kv_quota \<Rightarrow> kv_quota_usage" where
  "kv_quota_usage percent kq =
     (let used = kq_used_bytes kq;
          reserved = kq_reserved_bytes kq;
          total = used + reserved in
      \<lparr>ku_tenant_id = kq_tenant_id kq, ku_used_bytes = used, ku_reserved_bytes = reserved,
       ku_quota_bytes = kq_quota_bytes kq,
       ku_available_bytes =
         (case kq_quota_bytes kq of Some q \<Rightarrow> if q < total then 0 else q - total | None \<Rightarrow> - 1),
       ku_usage_pct =
         (case kq_quota_bytes kq of Some q \<Rightarrow> if q > 0 then percent total q else 0 | None \<Rightarrow> 0)\<rparr>)"

section \<open>The contract of the counters\<close>

text \<open>
  The accounting invariant: reserved bytes are the sum of the open reservations, whose ids
  differ, and under a quota the two counters together stay within it, without wrapping.
\<close>

definition reserved_total :: "kv_quota \<Rightarrow> nat" where
  "reserved_total kq = sum_list (map (unat \<circ> kr_size_bytes) (kq_reservations kq))"

definition quota_ok :: "kv_quota \<Rightarrow> bool" where
  "quota_ok kq \<longleftrightarrow>
     distinct (map kr_id (kq_reservations kq)) \<and>
     unat (kq_reserved_bytes kq) = reserved_total kq \<and>
     (case kq_quota_bytes kq of
        Some q \<Rightarrow> q \<noteq> - 1 \<and> unat (kq_used_bytes kq) + unat (kq_reserved_bytes kq) \<le> unat q
      | None \<Rightarrow> True)"

lemma unat_sat_add64: "unat (sat_add64 a b) = min (2 ^ 64 - 1) (unat a + unat b)"
proof (cases "unat a + unat b < 2 ^ 64")
  case True
  then show ?thesis by (simp add: sat_add64_def unat_word_ariths)
qed (simp add: sat_add64_def unsigned_minus_1_eq_mask mask_eq_exp_minus_1)

lemma check_quota_ok_iff:
  "is_ok (check_quota n kq) \<longleftrightarrow>
     (case kq_quota_bytes kq of
        None \<Rightarrow> True
      | Some q \<Rightarrow> min (2 ^ 64 - 1) (unat (kq_used_bytes kq) + unat (kq_reserved_bytes kq) + unat n) \<le> unat q)"
proof -
  have "min (2 ^ 64 - 1 :: nat) (min (2 ^ 64 - 1) a + b) = min (2 ^ 64 - 1) (a + b)" for a b
    by auto
  then show ?thesis
    by (auto simp: check_quota_def Let_def word_less_nat_alt unat_sat_add64 split: option.splits)
qed

lemma unat_diff_le: "unat b \<le> unat (a :: u64) \<Longrightarrow> unat (a - b) = unat a - unat b"
  by (simp add: unat_sub word_le_nat_alt)

lemma unat_sum_sizes:
  "sum_list (map (unat \<circ> kr_size_bytes) rs) < 2 ^ 64 \<Longrightarrow>
   unat (sum_list (map kr_size_bytes rs)) = sum_list (map (unat \<circ> kr_size_bytes) rs)"
  using unat_sum_list [of "map kr_size_bytes rs"] by (simp add: comp_def)

lemma sum_list_split:
  "sum_list (map f xs) = sum_list (map f (filter P xs)) + (sum_list (map f (filter (\<lambda>x. \<not> P x) xs)) :: nat)"
  by (induction xs) auto

lemma cleanup_expired_fields:
  "kq_reservations (cleanup_expired now kq) =
     filter (\<lambda>r. \<not> reservation_is_expired now r) (kq_reservations kq)"
  "kq_reserved_bytes (cleanup_expired now kq) = kq_reserved_bytes kq -
     sum_list (map kr_size_bytes (filter (reservation_is_expired now) (kq_reservations kq)))"
  "kq_quota_bytes (cleanup_expired now kq) = kq_quota_bytes kq"
  "kq_used_bytes (cleanup_expired now kq) = kq_used_bytes kq"
  "kq_tenant_id (cleanup_expired now kq) = kq_tenant_id kq"
  by (auto simp: cleanup_expired_def Let_def word_greater_zero_iff)

lemma cleanup_expired_ok:
  assumes "quota_ok kq"
  shows "quota_ok (cleanup_expired now kq)"
    "unat (kq_reserved_bytes (cleanup_expired now kq)) \<le> unat (kq_reserved_bytes kq)"
proof -
  let ?rs = "kq_reservations kq" and ?E = "reservation_is_expired now"
  have tot: "unat (kq_reserved_bytes kq) =
      sum_list (map (unat \<circ> kr_size_bytes) (filter ?E ?rs)) +
      sum_list (map (unat \<circ> kr_size_bytes) (filter (\<lambda>r. \<not> ?E r) ?rs))"
    using assms sum_list_split [of "unat \<circ> kr_size_bytes" ?rs ?E]
    by (simp add: quota_ok_def reserved_total_def)
  have "unat (kq_reserved_bytes kq) < 2 ^ LENGTH(64)" by (rule unsigned_less)
  then have "unat (sum_list (map kr_size_bytes (filter ?E ?rs))) =
      sum_list (map (unat \<circ> kr_size_bytes) (filter ?E ?rs))"
    using tot by (intro unat_sum_sizes) simp
  then have r: "unat (kq_reserved_bytes (cleanup_expired now kq)) =
      sum_list (map (unat \<circ> kr_size_bytes) (filter (\<lambda>r. \<not> ?E r) ?rs))"
    using tot by (simp add: cleanup_expired_fields unat_diff_le)
  then show le: "unat (kq_reserved_bytes (cleanup_expired now kq)) \<le> unat (kq_reserved_bytes kq)"
    using tot by simp
  show "quota_ok (cleanup_expired now kq)"
    unfolding quota_ok_def reserved_total_def r cleanup_expired_fields(1,3,4)
    using assms le [unfolded r]
    by (auto simp: quota_ok_def distinct_map_filter split: option.splits)
qed

lemma reserve_ok:
  assumes "quota_ok kq" and "kv_reserve now wall n kq = (Ok r, kq')"
    and "reservation_id wall kq \<notin> kr_id ` set (kq_reservations kq)"
    and "kq_quota_bytes kq = None \<Longrightarrow> reserved_total kq + unat n < 2 ^ 64"
  shows "quota_ok kq'" "r \<in> set (kq_reservations kq')" "kr_size_bytes r = n"
    "kr_id r = reservation_id wall kq" "kr_expires_at r = now + reservation_timeout"
    "kq_used_bytes kq' = kq_used_bytes kq" "kq_quota_bytes kq' = kq_quota_bytes kq"
    "kq_reservations kq' = filter (\<lambda>r. \<not> reservation_is_expired now r) (kq_reservations kq) @ [r]"
    "is_ok (check_quota n (cleanup_expired now kq))"
proof -
  let ?k1 = "cleanup_expired now kq"
  have ok1: "quota_ok ?k1" and le: "unat (kq_reserved_bytes ?k1) \<le> unat (kq_reserved_bytes kq)"
    using cleanup_expired_ok [OF assms(1)] by blast+
  have r: "r = kv_reservation_new now (reservation_id wall ?k1) n"
    and kq': "kq' = ?k1\<lparr>kq_reserved_bytes := kq_reserved_bytes ?k1 + n,
                       kq_reservations := kq_reservations ?k1 @ [r]\<rparr>"
    and chk: "is_ok (check_quota n ?k1)"
    using assms(2) by (auto simp: kv_reserve_def Let_def split: sum.splits)
  show "r \<in> set (kq_reservations kq')" "kr_size_bytes r = n" "kr_id r = reservation_id wall kq"
    "kr_expires_at r = now + reservation_timeout"
    "kq_used_bytes kq' = kq_used_bytes kq" "kq_quota_bytes kq' = kq_quota_bytes kq"
    "kq_reservations kq' = filter (\<lambda>r. \<not> reservation_is_expired now r) (kq_reservations kq) @ [r]"
    "is_ok (check_quota n ?k1)"
    using chk by (simp_all add: kq' r kv_reservation_new_def cleanup_expired_fields reservation_id_def)
  have fits: "unat (kq_used_bytes kq) + unat (kq_reserved_bytes ?k1) + unat n \<le> unat q"
    if q: "kq_quota_bytes kq = Some q" for q
  proof -
    have "q \<noteq> - 1" using assms(1) q by (simp add: quota_ok_def)
    then have "unat q \<noteq> unat (- 1 :: u64)" by (simp add: word_unat_eq_iff)
    moreover have "unat q < 2 ^ LENGTH(64)" by (rule unsigned_less)
    ultimately have "unat q < 2 ^ 64 - 1" by (simp add: unsigned_minus_1_eq_mask mask_eq_exp_minus_1)
    then show ?thesis using chk q by (auto simp: check_quota_ok_iff cleanup_expired_fields)
  qed
  have "unat (kq_reserved_bytes ?k1) + unat n < 2 ^ 64"
  proof (cases "kq_quota_bytes kq")
    case None
    then show ?thesis using assms(1,4) le by (simp add: quota_ok_def)
  next
    case (Some q)
    have "unat q < 2 ^ LENGTH(64)" by (rule unsigned_less)
    then show ?thesis using fits [OF Some] by simp
  qed
  then have sum: "unat (kq_reserved_bytes ?k1 + n) = unat (kq_reserved_bytes ?k1) + unat n"
    by (simp add: unat_word_ariths)
  have "kr_id r \<notin> kr_id ` set (kq_reservations ?k1)"
    using assms(3) by (auto simp: r kv_reservation_new_def cleanup_expired_fields reservation_id_def)
  then show "quota_ok kq'"
    using ok1 fits
    by (auto simp: kq' quota_ok_def reserved_total_def sum kv_reservation_new_def
        cleanup_expired_fields(1,3,4) r split: option.splits)
qed

lemma reserve_err_ok: "quota_ok kq \<Longrightarrow> kv_reserve now wall n kq = (Err e, kq') \<Longrightarrow> quota_ok kq'"
  using cleanup_expired_ok(1) [of kq now]
  by (auto simp: kv_reserve_def Let_def split: sum.splits)

lemma forget_reservation_total:
  assumes "distinct (map kr_id rs)" "r \<in> set rs"
  shows "sum_list (map (unat \<circ> kr_size_bytes) rs) =
     unat (kr_size_bytes r) +
     sum_list (map (unat \<circ> kr_size_bytes) (filter (\<lambda>x. kr_id x \<noteq> kr_id r) rs))"
  using assms
proof (induction rs)
  case (Cons x rs)
  show ?case
  proof (cases "x = r")
    case True
    then have "filter (\<lambda>y. kr_id y \<noteq> kr_id r) rs = rs"
      using Cons.prems(1) by (simp add: filter_id_conv image_iff) metis
    with True show ?thesis by simp
  next
    case False
    then have "r \<in> set rs" "kr_id x \<noteq> kr_id r" using Cons.prems by auto
    with Cons show ?thesis by simp
  qed
qed simp

lemma settle_ok:
  assumes "quota_ok kq" "r \<in> set (kq_reservations kq)"
  shows "quota_ok (snd (kv_finalize r kq))" "quota_ok (kv_rollback r kq)"
    "unat (kq_used_bytes (snd (kv_finalize r kq))) = unat (kq_used_bytes kq) + unat (kr_size_bytes r) \<or>
     kq_quota_bytes kq = None"
proof -
  let ?n = "kr_size_bytes r"
  define rest where "rest = sum_list (map (unat \<circ> kr_size_bytes)
    (filter (\<lambda>x. kr_id x \<noteq> kr_id r) (kq_reservations kq)))"
  have tot: "unat (kq_reserved_bytes kq) = unat ?n + rest"
    using assms forget_reservation_total [of "kq_reservations kq" r]
    by (simp add: quota_ok_def reserved_total_def rest_def)
  then have r: "unat (kq_reserved_bytes kq - ?n) = rest" by (simp add: unat_diff_le)
  have fits: "unat (kq_used_bytes kq) + (unat ?n + rest) \<le> unat q \<and> q \<noteq> - 1"
    if "kq_quota_bytes kq = Some q" for q
    using assms(1) that tot by (simp add: quota_ok_def)
  have u: "unat (kq_used_bytes kq + ?n) = unat (kq_used_bytes kq) + unat ?n"
    if "kq_quota_bytes kq = Some q" for q
  proof -
    have "unat q < 2 ^ LENGTH(64)" by (rule unsigned_less)
    with fits [OF that] show ?thesis by (simp add: unat_word_ariths)
  qed
  note d = kv_finalize_def kv_rollback_def forget_reservation_def Let_def quota_ok_def reserved_total_def
  show "quota_ok (snd (kv_finalize r kq))" "quota_ok (kv_rollback r kq)"
    using assms(1) r fits u
    by (auto simp: d distinct_map_filter rest_def split: option.splits)
  show "unat (kq_used_bytes (snd (kv_finalize r kq))) = unat (kq_used_bytes kq) + unat ?n \<or>
     kq_quota_bytes kq = None"
    using u by (cases "kq_quota_bytes kq") (auto simp: d)
qed

lemma release_ok:
  assumes "quota_ok kq" "n \<le> kq_used_bytes kq"
  shows "quota_ok (kv_release n kq)"
proof -
  have "unat (kq_used_bytes kq - n) \<le> unat (kq_used_bytes kq)"
    using assms(2) by (simp add: word_le_nat_alt unat_diff_le)
  then show ?thesis
    using assms(1) by (auto simp: quota_ok_def kv_release_def reserved_total_def split: option.splits)
qed

lemma evictions_ok [simp]:
  "quota_ok (record_eviction kq) = quota_ok kq" "quota_ok (reset_evictions kq) = quota_ok kq"
  by (simp_all add: quota_ok_def record_eviction_def reset_evictions_def reserved_total_def
      split: option.split)

text \<open>
  The steps of well-behaved clients: each reservation has its own id, is settled before the
  clean-up drops it, and no more is released than is used.
\<close>

inductive quota_step :: "kv_quota \<Rightarrow> kv_quota \<Rightarrow> bool" where
  qs_reserve: "reservation_id wall kq \<notin> kr_id ` set (kq_reservations kq) \<Longrightarrow>
    (kq_quota_bytes kq = None \<longrightarrow> reserved_total kq + unat n < 2 ^ 64) \<Longrightarrow>
    quota_step kq (snd (kv_reserve now wall n kq))"
| qs_finalize: "r \<in> set (kq_reservations kq) \<Longrightarrow> quota_step kq (snd (kv_finalize r kq))"
| qs_rollback: "r \<in> set (kq_reservations kq) \<Longrightarrow> quota_step kq (kv_rollback r kq)"
| qs_release: "n \<le> kq_used_bytes kq \<Longrightarrow> quota_step kq (kv_release n kq)"
| qs_record: "quota_step kq (record_eviction kq)"
| qs_reset: "quota_step kq (reset_evictions kq)"

lemma quota_step_keeps: "quota_step kq kq' \<Longrightarrow> quota_ok kq \<Longrightarrow> quota_ok kq'"
proof (induction rule: quota_step.induct)
  case (qs_reserve wall kq n now)
  obtain res kq' where e: "kv_reserve now wall n kq = (res, kq')" by fastforce
  show ?case
  proof (cases res)
    case (Inl err)
    with e qs_reserve.prems show ?thesis using reserve_err_ok by simp
  next
    case (Inr r)
    with e qs_reserve show ?thesis using reserve_ok(1) [of kq now wall n r kq'] by simp
  qed
qed (simp_all add: settle_ok release_ok)

lemma quota_step_quota: "quota_step kq kq' \<Longrightarrow> kq_quota_bytes kq' = kq_quota_bytes kq"
  by (induction rule: quota_step.induct)
    (auto simp: kv_reserve_def kv_finalize_def kv_rollback_def kv_release_def record_eviction_def
      reset_evictions_def forget_reservation_def Let_def cleanup_expired_fields split: sum.splits)

lemma new_quota_ok: "q \<noteq> Some (- 1) \<Longrightarrow> quota_ok (kv_quota_new t q)"
  by (auto simp: quota_ok_def kv_quota_new_def reserved_total_def split: option.splits)

text \<open>
  The tenant's quota of KV cache bytes holds: whatever sequence of reservations,
  settlements, releases and clean-ups, the bytes used and reserved together never exceed the
  quota (below the greatest \<open>u64\<close>), neither counter wraps, and the reserved bytes are the sum
  of the open reservations.
\<close>

theorem tenant_quota_holds:
  assumes "quota_step\<^sup>*\<^sup>* (kv_quota_new tenant (Some q)) kq" and "q \<noteq> - 1"
  shows "unat (kq_used_bytes kq) + unat (kq_reserved_bytes kq) \<le> unat q \<and>
    unat (kq_reserved_bytes kq) = sum_list (map (unat \<circ> kr_size_bytes) (kq_reservations kq))"
proof -
  have "quota_ok kq \<and> kq_quota_bytes kq = Some q"
    using assms(1)
  proof (induction rule: rtranclp_induct)
    case base
    show ?case using assms(2) new_quota_ok [of "Some q" tenant] by (simp add: kv_quota_new_def)
  next
    case (step y z)
    then show ?case using quota_step_keeps quota_step_quota by metis
  qed
  then show ?thesis by (auto simp: quota_ok_def reserved_total_def)
qed

text \<open>
  The clean-up and a late settlement count the same bytes twice: when a reservation
  expires, another reservation is made (which drops the expired one) and rolled back, and the
  first is finalized only then, its bytes are subtracted from the reserved bytes again. The
  counter wraps to the greatest values of \<open>u64\<close>, and from then on every reservation is
  refused, whatever its size and however large the quota.
\<close>

theorem late_finalize_blocks_tenant:
  assumes "quota_ok kq" "kq_reservations kq = []" "kq_quota_bytes kq = Some q"
    and "unat n > 0" "unat (kq_used_bytes kq) + unat n + unat q < 2 ^ 64"
    and "kv_reserve t0 w0 n kq = (Ok r, kq1)"
    and "t1 > t0 + reservation_timeout"
    and "kv_reserve t1 w1 n' kq1 = (Ok r', kq1')"
    and "kq2 = kv_rollback r' kq1'"
    and "kq3 = snd (kv_finalize r kq2)"
  shows "unat (kq_reserved_bytes kq3) = 2 ^ 64 - unat n \<and>
    (\<exists>e. fst (kv_reserve t2 w2 m kq3) = Err e)"
proof -
  have k1: "kq_reservations kq1 = [r]" "kr_size_bytes r = n" "kr_expires_at r = t0 + reservation_timeout"
    "kq_quota_bytes kq1 = Some q" "kq_used_bytes kq1 = kq_used_bytes kq"
    "kq_reserved_bytes kq1 = kq_reserved_bytes kq + n"
    using assms(2,3,6)
    by (auto simp: kv_reserve_def Let_def kv_reservation_new_def cleanup_expired_fields split: sum.splits)
  have zero: "kq_reserved_bytes kq = 0"
    using assms(1,2) by (simp add: quota_ok_def reserved_total_def unat_eq_0)
  have "kq_reservations kq1' = [r']" "kr_size_bytes r' = n'" "kq_quota_bytes kq1' = Some q"
    "kq_used_bytes kq1' = kq_used_bytes kq" "kq_reserved_bytes kq1' = n'"
    using assms(7,8) k1 zero
    by (auto simp: kv_reserve_def Let_def kv_reservation_new_def cleanup_expired_fields
        reservation_is_expired_def split: sum.splits)
  then have k2: "kq_reservations kq2 = []" "kq_reserved_bytes kq2 = 0" "kq_quota_bytes kq2 = Some q"
    "kq_used_bytes kq2 = kq_used_bytes kq"
    by (simp_all add: assms(9) kv_rollback_def forget_reservation_def Let_def)
  have k3: "kq_reservations kq3 = []" "kq_reserved_bytes kq3 = - n" "kq_quota_bytes kq3 = Some q"
    "kq_used_bytes kq3 = kq_used_bytes kq + n"
    using k2 k1(2) by (simp_all add: assms(10) kv_finalize_def Let_def forget_reservation_def)
  have "n \<noteq> 0" using assms(4) by auto
  then have r3: "unat (kq_reserved_bytes kq3) = 2 ^ 64 - unat n"
    using unat_sub_if' [of 0 n] by (simp add: k3(2) unat_eq_0)
  have u3: "unat (kq_used_bytes kq3) = unat (kq_used_bytes kq) + unat n"
    using assms(5) by (simp add: k3(4) unat_word_ariths)
  have n64: "unat n < 2 ^ 64" using assms(5) by simp
  have "unat q < 2 ^ 64 - 1" using assms(4,5) by simp
  moreover have "unat q < 2 ^ 64 - unat n" using assms(5) n64 by simp
  ultimately have "\<not> is_ok (check_quota m (cleanup_expired t2 kq3))"
    by (simp add: check_quota_ok_iff cleanup_expired_fields k3(1,3) r3 u3)
  then have "\<exists>e. fst (kv_reserve t2 w2 m kq3) = Err e"
    by (auto simp: kv_reserve_def Let_def is_ok_def split: sum.splits)
  with r3 show ?thesis by simp
qed

section \<open>Witnesses\<close>

definition example_quota :: kv_quota where
  "example_quota = kv_quota_new ''t'' (Some 1000)"

lemma show_digits: "show_nat 2 = ''2''" "show_nat 3 = ''3''"
  by code_simp+

lemma example_reserve:
  "kv_reserve 0 2 600 example_quota =
     (Ok (kv_reservation_new 0 ''kvres_t_2'' 600),
      example_quota\<lparr>kq_reserved_bytes := 600,
        kq_reservations := [kv_reservation_new 0 ''kvres_t_2'' 600]\<rparr>)"
  by (simp add: kv_reserve_def example_quota_def kv_quota_new_def cleanup_expired_def check_quota_def
      sat_add64_def reservation_id_def show_digits Let_def)

theorem tenant_quota_holds_witness:
  "let kq = snd (kv_finalize (kv_reservation_new 0 ''kvres_t_2'' 600) (snd (kv_reserve 0 2 600 example_quota)))
   in unat (kq_used_bytes kq) = 600 \<and> unat (kq_used_bytes kq) + unat (kq_reserved_bytes kq) \<le> 1000"
proof -
  let ?r = "kv_reservation_new 0 ''kvres_t_2'' 600" and ?k1 = "snd (kv_reserve 0 2 600 example_quota)"
  have "quota_step example_quota ?k1"
    by (rule qs_reserve) (simp_all add: example_quota_def kv_quota_new_def)
  moreover have "quota_step ?k1 (snd (kv_finalize ?r ?k1))"
    by (rule qs_finalize) (simp add: example_reserve)
  ultimately have "quota_step\<^sup>*\<^sup>* (kv_quota_new ''t'' (Some 1000)) (snd (kv_finalize ?r ?k1))"
    unfolding example_quota_def by (meson converse_rtranclp_into_rtranclp r_into_rtranclp)
  from tenant_quota_holds [OF this] show ?thesis
    unfolding example_reserve
    by (simp add: kv_finalize_def forget_reservation_def kv_reservation_new_def Let_def)
      (simp add: example_quota_def kv_quota_new_def)
qed

theorem late_finalize_blocks_tenant_witness:
  "\<exists>kq r. fst (kv_reserve 0 2 600 example_quota) = Ok r \<and>
     unat (kq_reserved_bytes kq) = 2 ^ 64 - 600 \<and> \<not> is_ok (fst (kv_reserve 400000000001 4 0 kq))"
proof -
  let ?r = "kv_reservation_new 0 ''kvres_t_2'' 600"
  let ?k1 = "snd (kv_reserve 0 2 600 example_quota)"
  let ?r' = "kv_reservation_new 400000000000 ''kvres_t_3'' 5"
  let ?k1' = "snd (kv_reserve 400000000000 3 5 ?k1)"
  have q: "quota_ok example_quota"
    unfolding example_quota_def by (rule new_quota_ok) simp
  have k1': "kv_reserve 400000000000 3 5 ?k1 = (Ok ?r', ?k1')"
    unfolding example_reserve
    by (simp add: kv_reserve_def example_quota_def kv_quota_new_def cleanup_expired_def check_quota_def
        sat_add64_def reservation_id_def show_digits Let_def kv_reservation_new_def
        reservation_is_expired_def reservation_timeout_def)
  have "unat (kq_reserved_bytes (snd (kv_finalize ?r (kv_rollback ?r' ?k1')))) = 2 ^ 64 - unat (600 :: u64) \<and>
    (\<exists>e. fst (kv_reserve 400000000001 4 0 (snd (kv_finalize ?r (kv_rollback ?r' ?k1')))) = Err e)"
  proof (rule late_finalize_blocks_tenant [OF q _ _ _ _ _ _ k1' refl refl])
    show "kv_reserve 0 2 600 example_quota = (Ok ?r, ?k1)" by (simp add: example_reserve)
    show "kq_quota_bytes example_quota = Some 1000" by (simp add: example_quota_def kv_quota_new_def)
  qed (simp_all add: example_quota_def kv_quota_new_def reservation_timeout_def)
  then show ?thesis by (auto simp: example_reserve is_ok_def)
qed

end
