(* ===== verification/KvSlab.thy ===== *)
theory KvSlab
  imports KvQuota Seeds "HOL-Library.Multiset"
begin

text \<open>
  The KV cache of the inference worker, \<open>crates/adapteros-lora-worker/src/kvcache.rs\<close>: a slab
  allocator over one address range with free regions, a quota manager, guards that record the
  generation of the adapter stack, and the Metal buffers for the K and V states as byte lists
  (\<open>None\<close> where the cache has no device). The worker holds the cache in a mutex, so every call
  is one step. Sizes are \<open>u64\<close> and wrap; a hash map is an association list, in any order.
\<close>

section \<open>State\<close>

record kv_allocation =
  ka_k_offset :: u64
  ka_k_size :: u64
  ka_v_offset :: u64
  ka_v_size :: u64

record sequence_guard =
  sg_sequence_id :: u64
  sg_generation :: u64
  sg_active :: bool

definition sequence_guard_new :: "u64 \<Rightarrow> u64 \<Rightarrow> sequence_guard" where
  "sequence_guard_new sequence_id generation =
     \<lparr>sg_sequence_id = sequence_id, sg_generation = generation, sg_active = True\<rparr>"

definition guard_deactivate :: "sequence_guard \<Rightarrow> sequence_guard" where
  "guard_deactivate g = g\<lparr>sg_active := False\<rparr>"

record kv_slab =
  ks_k_buffer :: "bytes option"
  ks_v_buffer :: "bytes option"
  ks_capacity_bytes :: u64
  ks_used_bytes :: u64
  ks_allocations :: "(u64 \<times> kv_allocation) list"
  ks_next_seq_id :: u64
  ks_bytes_per_token :: u64
  ks_free_regions :: "(u64 \<times> u64) list"
  ks_stack_generation :: u64
  ks_active_guards :: "(u64 \<times> u64) list"
  ks_quota_manager :: "kv_quota option"

definition slab_new_with_quota :: "u64 \<Rightarrow> kv_quota option \<Rightarrow> kv_slab" where
  "slab_new_with_quota capacity_bytes quota_manager =
     \<lparr>ks_k_buffer = None, ks_v_buffer = None, ks_capacity_bytes = capacity_bytes,
      ks_used_bytes = 0, ks_allocations = [], ks_next_seq_id = 1, ks_bytes_per_token = 8192,
      ks_free_regions = [], ks_stack_generation = 0, ks_active_guards = [],
      ks_quota_manager = quota_manager\<rparr>"

definition slab_new :: "u64 \<Rightarrow> kv_slab" where
  "slab_new capacity_bytes = slab_new_with_quota capacity_bytes None"

text \<open>With a device: two buffers of the full capacity, of whatever content the device gives.\<close>

definition new_with_metal_and_quota ::
  "(nat \<Rightarrow> bytes) \<Rightarrow> u64 \<Rightarrow> u64 \<Rightarrow> kv_quota option \<Rightarrow> kv_slab" where
  "new_with_metal_and_quota new_buffer capacity_bytes bytes_per_token quota_manager =
     (slab_new_with_quota capacity_bytes quota_manager)
       \<lparr>ks_k_buffer := Some (new_buffer (unat capacity_bytes)),
        ks_v_buffer := Some (new_buffer (unat capacity_bytes)),
        ks_bytes_per_token := bytes_per_token\<rparr>"

definition new_with_metal :: "(nat \<Rightarrow> bytes) \<Rightarrow> u64 \<Rightarrow> u64 \<Rightarrow> kv_slab" where
  "new_with_metal new_buffer capacity_bytes bytes_per_token =
     new_with_metal_and_quota new_buffer capacity_bytes bytes_per_token None"

section \<open>Operations\<close>

definition allocation_bytes :: "kv_allocation \<Rightarrow> u64" where
  "allocation_bytes a = sat_add64 (ka_k_size a) (ka_v_size a)"

definition release_allocation_quota :: "kv_slab \<Rightarrow> kv_slab" where
  "release_allocation_quota ks =
     (case ks_quota_manager ks of
        None \<Rightarrow> ks
      | Some kq \<Rightarrow>
          (let allocated_bytes = am_total allocation_bytes (ks_allocations ks);
               release_bytes = min allocated_bytes (kq_used_bytes kq) in
           if allocated_bytes = 0 then ks
           else if release_bytes > 0 then ks\<lparr>ks_quota_manager := Some (kv_release release_bytes kq)\<rparr>
           else ks))"

definition zero_fill :: "nat \<Rightarrow> bytes \<Rightarrow> bytes" where
  "zero_fill n bs = replicate n 0 @ drop n bs"

definition reset_all :: "kv_slab \<Rightarrow> kv_slab" where
  "reset_all ks =
     (let ks1 = (release_allocation_quota ks)\<lparr>ks_used_bytes := 0, ks_allocations := [],
            ks_next_seq_id := 1, ks_free_regions := [], ks_active_guards := []\<rparr>;
          cap = unat (ks_capacity_bytes ks) in
      case (ks_k_buffer ks1, ks_v_buffer ks1) of
        (Some k, Some v) \<Rightarrow> ks1\<lparr>ks_k_buffer := Some (zero_fill cap k), ks_v_buffer := Some (zero_fill cap v)\<rparr>
      | _ \<Rightarrow> ks1)"

definition set_generation :: "u64 \<Rightarrow> kv_slab \<Rightarrow> kv_slab" where
  "set_generation generation ks = ks\<lparr>ks_stack_generation := generation\<rparr>"

definition ensure_cache_coherence :: "u64 \<Rightarrow> kv_slab \<Rightarrow> bool \<times> kv_slab" where
  "ensure_cache_coherence current_generation ks =
     (if current_generation \<noteq> ks_stack_generation ks
      then (True, (reset_all ks)\<lparr>ks_stack_generation := current_generation\<rparr>)
      else (False, ks))"

subsection \<open>Allocation\<close>

definition round_len :: "nat \<Rightarrow> nat" where
  "round_len seq_len =
     (let l = min seq_len (2 ^ 20) in
      if l \<le> 128 then 128 else if l \<le> 256 then 256 else if l \<le> 512 then 512 else l)"

definition str_contains :: "string \<Rightarrow> string \<Rightarrow> bool" where
  "str_contains s p = list_ex (\<lambda>i. take (length p) (drop i s) = p) [0..<Suc (length s)]"

definition reserve_quota ::
  "nat \<Rightarrow> nat \<Rightarrow> u64 \<Rightarrow> kv_slab \<Rightarrow> (aos_error, kv_reservation option) result \<times> kv_slab" where
  "reserve_quota now wall n ks =
     (case ks_quota_manager ks of
        None \<Rightarrow> (Ok None, ks)
      | Some kq \<Rightarrow>
          (case kv_reserve now wall n kq of
             (Ok res, kq1) \<Rightarrow> (Ok (Some res), ks\<lparr>ks_quota_manager := Some kq1\<rparr>)
           | (Err e, kq1) \<Rightarrow>
               ((case e of
                   EMemoryPressure msg \<Rightarrow>
                     if str_contains msg ''KV quota exceeded''
                     then Err (EQuotaExceeded ''kv_cache'' (Some ''KV_QUOTA_EXCEEDED''))
                     else Err e
                 | _ \<Rightarrow> Err e),
                ks\<lparr>ks_quota_manager := Some kq1\<rparr>)))"

definition rollback_quota :: "kv_reservation option \<Rightarrow> kv_slab \<Rightarrow> kv_slab" where
  "rollback_quota reservation ks =
     (case (reservation, ks_quota_manager ks) of
        (Some res, Some kq) \<Rightarrow> ks\<lparr>ks_quota_manager := Some (kv_rollback res kq)\<rparr>
      | _ \<Rightarrow> ks)"

text \<open>The first free region that fits is removed; what remains of it goes to the end of the list.\<close>

fun take_region :: "u64 \<Rightarrow> (u64 \<times> u64) list \<Rightarrow> (u64 \<times> u64) option \<times> (u64 \<times> u64) list" where
  "take_region need [] = (None, [])"
| "take_region need ((off, sz) # rest) =
     (if sz \<ge> need then (Some (off, sz), rest)
      else (case take_region need rest of (found, rest') \<Rightarrow> (found, (off, sz) # rest')))"

definition place_slices :: "u64 \<Rightarrow> kv_slab \<Rightarrow> kv_allocation \<times> kv_slab" where
  "place_slices required ks =
     (case take_region (required * 2) (ks_free_regions ks) of
        (Some (off, sz), rest) \<Rightarrow>
          (let v_offset = off + required;
               consumed = required + required;
               remaining = sz - consumed in
           (\<lparr>ka_k_offset = off, ka_k_size = required, ka_v_offset = v_offset, ka_v_size = required\<rparr>,
            ks\<lparr>ks_free_regions :=
                 (if remaining > 0 then rest @ [(off + consumed, remaining)] else rest)\<rparr>))
      | (None, _) \<Rightarrow>
          (\<lparr>ka_k_offset = ks_used_bytes ks, ka_k_size = required,
            ka_v_offset = ks_used_bytes ks + required, ka_v_size = required\<rparr>, ks))"

definition finalize_quota ::
  "kv_reservation option \<Rightarrow> u64 \<Rightarrow> kv_allocation \<Rightarrow> kv_slab \<Rightarrow> (aos_error, u64) result \<times> kv_slab" where
  "finalize_quota reservation seq_id a ks =
     (case (reservation, ks_quota_manager ks) of
        (Some res, Some kq) \<Rightarrow>
          (case kv_finalize res kq of
             (Ok _, kq1) \<Rightarrow> (Ok seq_id, ks\<lparr>ks_quota_manager := Some kq1\<rparr>)
           | (Err e, kq1) \<Rightarrow>
               (Err e, ks\<lparr>ks_quota_manager := Some kq1,
                  ks_allocations := am_remove seq_id (ks_allocations ks),
                  ks_used_bytes :=
                    (if ka_v_offset a + ka_v_size a = ks_used_bytes ks
                     then ks_used_bytes ks - (ka_k_size a + ka_v_size a) else ks_used_bytes ks)\<rparr>))
      | _ \<Rightarrow> (Ok seq_id, ks))"

text \<open>Everything after the capacity check: the next id, the slices, the high-water mark, the quota.\<close>

definition install_sequence ::
  "kv_reservation option \<Rightarrow> u64 \<Rightarrow> kv_slab \<Rightarrow> (aos_error, u64) result \<times> kv_slab" where
  "install_sequence reservation required ks =
     (let seq_id = ks_next_seq_id ks;
          (a, ks2) = place_slices required (ks\<lparr>ks_next_seq_id := seq_id + 1\<rparr>);
          end_pos = ka_v_offset a + ka_v_size a;
          ks3 = ks2\<lparr>ks_allocations := am_insert seq_id a (ks_allocations ks2),
                    ks_used_bytes := (if end_pos > ks_used_bytes ks2 then end_pos
                                      else ks_used_bytes ks2)\<rparr> in
      finalize_quota reservation seq_id a ks3)"

definition slab_allocate :: "nat \<Rightarrow> nat \<Rightarrow> nat \<Rightarrow> kv_slab \<Rightarrow> (aos_error, u64) result \<times> kv_slab" where
  "slab_allocate now wall seq_len ks =
     (if unat (of_nat (round_len seq_len) :: u64) * unat (ks_bytes_per_token ks) \<ge> 2 ^ 64
      then (Err (EValidation ''Sequence length overflow''), ks)
      else
        (let required = of_nat (round_len seq_len) * ks_bytes_per_token ks in
         case reserve_quota now wall (required * 2) ks of
           (Err e, ks1) \<Rightarrow> (Err e, ks1)
         | (Ok reservation, ks1) \<Rightarrow>
             (if ks_used_bytes ks1 + required * 2 > ks_capacity_bytes ks1
              then (Err (EMemoryPressure (''KV cache full: '' @ show_u64 (ks_used_bytes ks1) @ '' / '' @
                      show_u64 (ks_capacity_bytes ks1) @ '' bytes used'')),
                    rollback_quota reservation ks1)
              else install_sequence reservation required ks1)))"

definition allocate_with_guard ::
  "nat \<Rightarrow> nat \<Rightarrow> nat \<Rightarrow> u64 \<Rightarrow> kv_slab \<Rightarrow> (aos_error, sequence_guard) result \<times> kv_slab" where
  "allocate_with_guard now wall seq_len generation ks =
     (case slab_allocate now wall seq_len (snd (ensure_cache_coherence generation ks)) of
        (Err e, ks1) \<Rightarrow> (Err e, ks1)
      | (Ok seq_id, ks1) \<Rightarrow>
          (Ok (sequence_guard_new seq_id generation),
           ks1\<lparr>ks_active_guards := am_insert seq_id generation (ks_active_guards ks1)\<rparr>))"

subsection \<open>Release\<close>

fun merge_regions :: "u64 \<times> u64 \<Rightarrow> (u64 \<times> u64) list \<Rightarrow> (u64 \<times> u64) list" where
  "merge_regions current [] = [current]"
| "merge_regions (cur_off, cur_size) ((off, sz) # rest) =
     (if off = cur_off + cur_size then merge_regions (cur_off, cur_size + sz) rest
      else (cur_off, cur_size) # merge_regions (off, sz) rest)"

definition coalesce_free_regions :: "(u64 \<times> u64) list \<Rightarrow> (u64 \<times> u64) list" where
  "coalesce_free_regions regions =
     (case sort_key fst regions of [] \<Rightarrow> [] | r # rest \<Rightarrow> merge_regions r rest)"

definition slab_free :: "u64 \<Rightarrow> kv_slab \<Rightarrow> (aos_error, unit) result \<times> kv_slab" where
  "slab_free seq_id ks =
     (let ks1 = ks\<lparr>ks_active_guards := am_remove seq_id (ks_active_guards ks)\<rparr> in
      case map_of (ks_allocations ks1) seq_id of
        Some a \<Rightarrow>
          (let freed_bytes = ka_k_size a + ka_v_size a;
               ks2 = ks1\<lparr>ks_allocations := am_remove seq_id (ks_allocations ks1),
                         ks_free_regions :=
                           coalesce_free_regions (ks_free_regions ks1 @ [(ka_k_offset a, freed_bytes)])\<rparr> in
           (Ok (), ks2\<lparr>ks_quota_manager := map_option (kv_release freed_bytes) (ks_quota_manager ks2)\<rparr>))
      | None \<Rightarrow>
          (Err (EWorker (''Sequence ID '' @ show_u64 seq_id @ '' not found in KV cache'')), ks1))"

definition has_active_sequences_with_generation :: "u64 \<Rightarrow> kv_slab \<Rightarrow> bool" where
  "has_active_sequences_with_generation generation ks =
     list_ex (\<lambda>e. snd e \<noteq> generation) (ks_active_guards ks)"

definition drain_active_sequences :: "kv_slab \<Rightarrow> nat \<times> kv_slab" where
  "drain_active_sequences ks =
     (let count = length (ks_active_guards ks) in
      (count,
       if count > 0
       then (fold (\<lambda>seq_id s. snd (slab_free seq_id s)) (am_keys (ks_active_guards ks)) ks)
              \<lparr>ks_active_guards := []\<rparr>
       else ks))"

definition slab_zeroize :: "kv_slab \<Rightarrow> kv_slab" where
  "slab_zeroize ks =
     (let ks1 = (case (ks_k_buffer ks, ks_v_buffer ks) of
                   (Some k, Some v) \<Rightarrow> ks\<lparr>ks_k_buffer := Some (replicate (length k) 0),
                                           ks_v_buffer := Some (replicate (length v) 0)\<rparr>
                 | _ \<Rightarrow> ks) in
      (release_allocation_quota ks1)\<lparr>ks_allocations := [], ks_used_bytes := 0, ks_free_regions := []\<rparr>)"

definition zeroize_all :: "kv_slab \<Rightarrow> kv_slab" where
  "zeroize_all ks =
     (let ks1 = (release_allocation_quota ks)\<lparr>ks_allocations := [], ks_used_bytes := 0,
            ks_free_regions := [(0, ks_capacity_bytes ks)], ks_active_guards := []\<rparr>;
          cap = unat (ks_capacity_bytes ks) in
      ks1\<lparr>ks_k_buffer := map_option (zero_fill cap) (ks_k_buffer ks1),
          ks_v_buffer := map_option (zero_fill cap) (ks_v_buffer ks1)\<rparr>)"

definition zero_slice :: "nat \<Rightarrow> nat \<Rightarrow> bytes \<Rightarrow> bytes" where
  "zero_slice off sz bs = take off bs @ replicate sz 0 @ drop (off + sz) bs"

definition bounds_error :: "string \<Rightarrow> u64 \<Rightarrow> u64 \<Rightarrow> nat \<Rightarrow> aos_error" where
  "bounds_error which off sz len =
     EWorker (which @ '' buffer bounds exceeded: offset '' @ show_u64 off @ '' + size '' @
       show_u64 sz @ '' > buffer len '' @ show_nat len)"

definition zeroize_slices ::
  "kv_allocation \<Rightarrow> bytes \<Rightarrow> bytes \<Rightarrow> (aos_error, bytes \<times> bytes) result" where
  "zeroize_slices a k v =
     (let ko = unat (ka_k_offset a); ks = unat (ka_k_size a);
          vo = unat (ka_v_offset a); vs = unat (ka_v_size a) in
      if ko + ks \<ge> 2 ^ 64 then Err (EWorker ''K buffer offset+size overflow'')
      else if vo + vs \<ge> 2 ^ 64 then Err (EWorker ''V buffer offset+size overflow'')
      else if ko + ks > length k then Err (bounds_error ''K'' (ka_k_offset a) (ka_k_size a) (length k))
      else if vo + vs > length k then Err (bounds_error ''V'' (ka_v_offset a) (ka_v_size a) (length k))
      else Ok (zero_slice ko ks k, zero_slice vo vs v))"

definition zeroize_sequence :: "u64 \<Rightarrow> kv_slab \<Rightarrow> (aos_error, unit) result \<times> kv_slab" where
  "zeroize_sequence seq_id ks =
     (case map_of (ks_allocations ks) seq_id of
        None \<Rightarrow> (Err (EWorker (''Sequence ID '' @ show_u64 seq_id @ '' not found'')), ks)
      | Some a \<Rightarrow>
          (case (ks_k_buffer ks, ks_v_buffer ks) of
             (Some k, Some v) \<Rightarrow>
               (case zeroize_slices a k v of
                  Err e \<Rightarrow> (Err e, ks)
                | Ok (k', v') \<Rightarrow> slab_free seq_id (ks\<lparr>ks_k_buffer := Some k', ks_v_buffer := Some v'\<rparr>))
           | _ \<Rightarrow> slab_free seq_id ks))"

subsection \<open>Queries\<close>

definition slab_usage :: "kv_slab \<Rightarrow> u64 \<times> u64" where
  "slab_usage ks = (ks_used_bytes ks, ks_capacity_bytes ks)"

definition active_sequences :: "kv_slab \<Rightarrow> nat" where
  "active_sequences ks = length (ks_allocations ks)"

definition is_allocated :: "u64 \<Rightarrow> kv_slab \<Rightarrow> bool" where
  "is_allocated seq_id ks \<longleftrightarrow> map_of (ks_allocations ks) seq_id \<noteq> None"

definition get_allocation :: "u64 \<Rightarrow> kv_slab \<Rightarrow> (u64 \<times> u64 \<times> u64 \<times> u64) option" where
  "get_allocation seq_id ks =
     map_option (\<lambda>a. (ka_k_offset a, ka_k_size a, ka_v_offset a, ka_v_size a))
       (map_of (ks_allocations ks) seq_id)"

end
