(* ===== verification/KvSlabCorrect.thy ===== *)
theory KvSlabCorrect
  imports KvSlab
begin

text \<open>
  Correctness of the worker's KV cache: slices of live sequences never overlap and stay inside
  the buffers, the tenant's quota counts exactly the live bytes, guards carry the current
  generation, and zeroizing a sequence clears its own bytes only. Two defects are proved as
  well: freed space below the high-water mark cannot be used again once the cache has been
  full, and a guard that survives a reset frees another request's sequence.
\<close>

section \<open>Regions as sets of addresses\<close>

definition region_end :: "u64 \<times> u64 \<Rightarrow> nat" where
  "region_end r = unat (fst r) + unat (snd r)"

definition covers :: "nat \<Rightarrow> u64 \<times> u64 \<Rightarrow> bool" where
  "covers a r \<longleftrightarrow> unat (fst r) \<le> a \<and> a < region_end r"

text \<open>How many regions of a list hold an address.\<close>

definition cover :: "(u64 \<times> u64) list \<Rightarrow> nat \<Rightarrow> nat" where
  "cover rs a = length (filter (covers a) rs)"

lemma cover_simps [simp]:
  "cover [] a = 0" "cover (r # rs) a = (if covers a r then 1 else 0) + cover rs a"
  "cover (rs @ qs) a = cover rs a + cover qs a"
  by (simp_all add: cover_def)

lemma cover_mset: "mset rs = mset qs \<Longrightarrow> cover rs a = cover qs a"
  by (metis cover_def mset_filter size_mset)

lemma cover_pos: "0 < cover rs a \<longleftrightarrow> (\<exists>r \<in> set rs. covers a r)"
  by (induction rs) auto

lemma unat_add_bounded: "unat (a :: u64) + unat b < 2 ^ 64 \<Longrightarrow> unat (a + b) = unat a + unat b"
  by (simp add: unat_word_ariths)

lemma covers_split:
  assumes "n \<le> s" "region_end (o', s) < 2 ^ 64"
  shows "(if covers a (o', s) then 1 else 0 :: nat) =
     (if covers a (o', n) then 1 else 0) + (if covers a (o' + n, s - n) then 1 else 0)"
    "region_end (o' + n, s - n) = region_end (o', s)"
proof -
  have n: "unat n \<le> unat s" using assms(1) by (simp add: word_le_nat_alt)
  then have s: "unat (s - n) = unat s - unat n" by (rule unat_diff_le)
  have o: "unat (o' + n) = unat o' + unat n"
    using assms(2) n by (intro unat_add_bounded) (simp add: region_end_def)
  show "region_end (o' + n, s - n) = region_end (o', s)"
    using n by (simp add: region_end_def s o)
  show "(if covers a (o', s) then 1 else 0 :: nat) =
     (if covers a (o', n) then 1 else 0) + (if covers a (o' + n, s - n) then 1 else 0)"
    using n by (auto simp: covers_def region_end_def s o)
qed

lemma take_region_some:
  "take_region need rs = (Some r, rest) \<Longrightarrow> need \<le> snd r \<and> mset rs = mset (r # rest)"
  by (induction need rs arbitrary: rest rule: take_region.induct)
    (auto split: if_splits prod.splits)

lemma take_region_none:
  "take_region need rs = (None, rest) \<Longrightarrow> r \<in> set rs \<Longrightarrow> snd r < need"
  by (induction need rs arbitrary: rest rule: take_region.induct)
    (auto split: if_splits prod.splits)

lemma merge_regions_spec:
  assumes "region_end c < 2 ^ 64" "\<forall>r \<in> set rest. region_end r < 2 ^ 64"
  shows "cover (merge_regions c rest) a = cover (c # rest) a \<and>
     region_end ` set (merge_regions c rest) \<subseteq> region_end ` set (c # rest) \<and>
     (\<forall>r \<in> set (c # rest). \<exists>m \<in> set (merge_regions c rest). unat (fst m) \<le> unat (fst r) \<and> region_end r \<le> region_end m)"
  using assms
proof (induction c rest rule: merge_regions.induct)
  case (2 co cs off sz rest)
  show ?case
  proof (cases "off = co + cs")
    case True
    have o: "unat off = unat co + unat cs"
      using "2.prems"(1) True by (simp add: unat_add_bounded region_end_def)
    have s: "unat (cs + sz) = unat cs + unat sz"
      using "2.prems"(2) o by (intro unat_add_bounded) (simp add: region_end_def)
    have e: "region_end (co, cs + sz) = region_end (off, sz)" by (simp add: region_end_def s o)
    have c: "(if covers a (co, cs + sz) then 1 else 0 :: nat) =
        (if covers a (co, cs) then 1 else 0) + (if covers a (off, sz) then 1 else 0)"
      by (auto simp: covers_def region_end_def s o)
    have "region_end (co, cs + sz) < 2 ^ 64" "\<forall>r \<in> set rest. region_end r < 2 ^ 64"
      using "2.prems" e by simp_all
    note IH = "2.IH"(1) [OF True this]
    obtain m where m: "m \<in> set (merge_regions (co, cs + sz) rest)" "unat (fst m) \<le> unat co"
      "region_end (co, cs + sz) \<le> region_end m"
      using IH by auto
    have "region_end (co, cs) \<le> region_end (co, cs + sz)" "unat co \<le> unat off"
      by (simp_all add: region_end_def s o)
    then have "unat (fst m) \<le> unat off" "region_end (co, cs) \<le> region_end m"
      "region_end (off, sz) \<le> region_end m"
      using m e by simp_all
    then show ?thesis using IH True c e m by auto
  next
    case False
    then show ?thesis using "2.IH"(2) [OF False] "2.prems" by auto
  qed
qed simp

lemma coalesce_spec:
  assumes "\<forall>r \<in> set rs. region_end r < 2 ^ 64"
  shows "cover (coalesce_free_regions rs) a = cover rs a \<and>
     region_end ` set (coalesce_free_regions rs) \<subseteq> region_end ` set rs \<and>
     (\<forall>r \<in> set rs. \<exists>m \<in> set (coalesce_free_regions rs). unat (fst m) \<le> unat (fst r) \<and> region_end r \<le> region_end m)"
proof (cases "sort_key fst rs")
  case Nil
  then have "rs = []" by (metis mset_sort mset_zero_iff)
  then show ?thesis by (simp add: coalesce_free_regions_def)
next
  case (Cons r rest)
  have m: "mset (r # rest) = mset rs" using Cons by (metis mset_sort)
  then have s: "set (r # rest) = set rs" by (metis set_mset_mset)
  have "region_end r < 2 ^ 64" "\<forall>r \<in> set rest. region_end r < 2 ^ 64"
    using assms s by auto
  from merge_regions_spec [OF this, of a] show ?thesis
    unfolding coalesce_free_regions_def Cons list.case s cover_mset [OF m] by blast
qed

section \<open>The layout invariant\<close>

definition alloc_region :: "kv_allocation \<Rightarrow> u64 \<times> u64" where
  "alloc_region a = (ka_k_offset a, ka_k_size a + ka_v_size a)"

definition alloc_ok :: "u64 \<Rightarrow> kv_allocation \<Rightarrow> bool" where
  "alloc_ok used a \<longleftrightarrow> ka_v_offset a = ka_k_offset a + ka_k_size a \<and>
     unat (ka_k_offset a) + unat (ka_k_size a) + unat (ka_v_size a) \<le> unat used"

text \<open>
  Free regions lie below the high-water mark, or one of them reaches from the mark or before
  it to the end of the cache (after \<open>zeroize_all\<close>).
\<close>

definition tail_ok :: "u64 \<Rightarrow> u64 \<Rightarrow> (u64 \<times> u64) list \<Rightarrow> bool" where
  "tail_ok cap used free \<longleftrightarrow>
     (\<forall>r \<in> set free. region_end r \<le> unat used) \<or>
     (\<exists>r \<in> set free. unat (fst r) \<le> unat used \<and> region_end r = unat cap)"

definition space_ok :: "u64 \<Rightarrow> u64 \<Rightarrow> kv_allocation list \<Rightarrow> (u64 \<times> u64) list \<Rightarrow> bool" where
  "space_ok cap used als free \<longleftrightarrow>
     (\<forall>a \<in> set als. alloc_ok used a) \<and> used \<le> cap \<and>
     (\<forall>r \<in> set free. region_end r \<le> unat cap) \<and>
     (\<forall>x. cover (map alloc_region als @ free) x \<le> 1) \<and>
     tail_ok cap used free"

lemma alloc_ok_mono: "alloc_ok used a \<Longrightarrow> used \<le> used' \<Longrightarrow> alloc_ok used' a"
  by (auto simp: alloc_ok_def word_le_nat_alt)

lemma unat_lt64: "unat (a :: u64) < 2 ^ 64"
proof -
  have "unat a < 2 ^ LENGTH(64)" by (rule unsigned_less)
  then show ?thesis by simp
qed

lemma alloc_region_end:
  assumes "alloc_ok used a"
  shows "region_end (alloc_region a) = unat (ka_k_offset a) + unat (ka_k_size a) + unat (ka_v_size a)"
    "region_end (alloc_region a) \<le> unat used"
proof -
  have "unat (ka_k_size a + ka_v_size a) = unat (ka_k_size a) + unat (ka_v_size a)"
    using assms unat_lt64 [of used] by (intro unat_add_bounded) (simp add: alloc_ok_def)
  then show "region_end (alloc_region a) = unat (ka_k_offset a) + unat (ka_k_size a) + unat (ka_v_size a)"
    "region_end (alloc_region a) \<le> unat used"
    using assms by (simp_all add: region_end_def alloc_region_def alloc_ok_def)
qed

lemma space_ok_empty: "space_ok cap 0 [] []"
  by (simp add: space_ok_def tail_ok_def)

lemma space_ok_whole: "space_ok cap 0 [] [(0, cap)]"
  by (simp add: space_ok_def tail_ok_def region_end_def covers_def)

lemma space_ok_free:
  assumes "space_ok cap used als free" and "mset als = add_mset a (mset als')"
  shows "space_ok cap used als' (coalesce_free_regions (free @ [alloc_region a]))"
proof -
  let ?rs = "free @ [alloc_region a]"
  have set: "set als = insert a (set als')" by (metis assms(2) set_mset_add_mset_insert set_mset_mset)
  have a: "alloc_ok used a" and le: "unat used \<le> unat cap"
    using assms(1) set by (simp_all add: space_ok_def word_le_nat_alt)
  note ae = alloc_region_end [OF a]
  have ends: "\<forall>r \<in> set ?rs. region_end r \<le> unat cap"
    using assms(1) ae le by (auto simp: space_ok_def)
  then have b: "\<forall>r \<in> set ?rs. region_end r < 2 ^ 64" using unat_lt64 [of cap] by fastforce
  note C = coalesce_spec [OF b]
  have sub: "region_end ` set (coalesce_free_regions ?rs) \<subseteq> region_end ` set ?rs"
    using C [of 0] by blast
  have "cover (map alloc_region als) x = (if covers x (alloc_region a) then 1 else 0) +
      cover (map alloc_region als') x" for x
    using cover_mset [of "map alloc_region als" "alloc_region a # map alloc_region als'" x]
    by (simp add: assms(2))
  then have cov: "cover (map alloc_region als' @ coalesce_free_regions ?rs) x =
      cover (map alloc_region als @ free) x" for x
    using C [of x] by simp
  have "tail_ok cap used ?rs"
    using assms(1) ae(2) by (auto simp: space_ok_def tail_ok_def)
  then have "tail_ok cap used (coalesce_free_regions ?rs)"
  proof (unfold tail_ok_def [of _ _ ?rs], elim disjE bexE)
    assume "\<forall>r \<in> set ?rs. region_end r \<le> unat used"
    then have "region_end m \<le> unat used" if m: "m \<in> set (coalesce_free_regions ?rs)" for m
      using imageI [OF m, of region_end] sub by auto
    then show ?thesis unfolding tail_ok_def by blast
  next
    fix r assume r: "r \<in> set ?rs" "unat (fst r) \<le> unat used \<and> region_end r = unat cap"
    then obtain m where m: "m \<in> set (coalesce_free_regions ?rs)" "unat (fst m) \<le> unat (fst r)"
      "region_end r \<le> region_end m"
      using C [of 0] by blast
    then have "region_end m \<le> unat cap" using C [of 0] ends by fastforce
    with m r show ?thesis unfolding tail_ok_def by (intro disjI2 bexI [of _ m]) auto
  qed
  moreover have "\<forall>r \<in> set (coalesce_free_regions ?rs). region_end r \<le> unat cap"
    using C [of 0] ends by fastforce
  ultimately show ?thesis using assms(1) cov set unfolding space_ok_def by auto
qed

lemma space_ok_take:
  assumes ok: "space_ok cap used als free" and m: "mset free = mset (r # rest)"
    and n: "n + n \<le> snd r" "2 * unat n < 2 ^ 64"
    and a: "a = \<lparr>ka_k_offset = fst r, ka_k_size = n, ka_v_offset = fst r + n, ka_v_size = n\<rparr>"
    and free': "free' = (if snd r - (n + n) > 0 then rest @ [(fst r + (n + n), snd r - (n + n))] else rest)"
    and used': "used' = (if fst r + n + n > used then fst r + n + n else used)"
  shows "space_ok cap used' (a # als) free'"
proof -
  obtain o1 s where r: "r = (o1, s)" by (cases r)
  let ?rem = "(o1 + (n + n), s - (n + n))"
  have set: "set free = insert r (set rest)" using m by (metis list.simps(15) set_mset_mset)
  have nn: "unat (n + n) = 2 * unat n" using n(2) unat_add_bounded [of n n] by simp
  have re: "region_end r \<le> unat cap" using ok set by (simp add: space_ok_def)
  then have rb: "region_end (o1, s) < 2 ^ 64" using unat_lt64 [of cap] r by simp
  have ns: "n + n \<le> s" "unat (n + n) \<le> unat s" using n(1) r by (simp_all add: word_le_nat_alt)
  note split = covers_split [OF ns(1) rb]
  have o1n: "unat (o1 + (n + n)) = unat o1 + 2 * unat n"
    using rb ns nn by (subst unat_add_bounded) (simp_all add: region_end_def)
  have used: "unat used' = max (unat used) (unat o1 + 2 * unat n)"
    using o1n by (auto simp: used' r word_less_nat_alt add.assoc)
  have le: "used \<le> used'" "unat used' \<le> unat cap"
    using used re ns nn ok r
    by (simp_all add: word_le_nat_alt region_end_def space_ok_def)
  have ra: "alloc_region a = (o1, n + n)" by (simp add: a r alloc_region_def)
  have cov: "cover (map alloc_region (a # als) @ free') x = cover (map alloc_region als @ free) x" for x
  proof -
    have "s - (n + n) = 0 \<Longrightarrow> \<not> covers x ?rem" by (simp add: covers_def region_end_def)
    then have "cover free' x + (if covers x (alloc_region a) then 1 else 0) = cover (r # rest) x"
      using split(1) [of x] by (auto simp: free' r ra word_greater_zero_iff)
    then show ?thesis using cover_mset [OF m, of x] by simp
  qed
  have tail: "tail_ok cap used' free'"
  proof (cases "\<forall>q \<in> set free. region_end q \<le> unat used")
    case True
    then have "region_end ?rem \<le> unat used" using split(2) set r by simp
    then show ?thesis using True le(1) set
      by (auto simp: tail_ok_def free' r word_le_nat_alt)
  next
    case False
    then obtain t where t: "t \<in> set free" "unat (fst t) \<le> unat used" "region_end t = unat cap"
      using ok by (auto simp: space_ok_def tail_ok_def)
    show ?thesis
    proof (cases "t = r")
      case False
      then have "t \<in> set free'" using t set by (auto simp: free')
      then show ?thesis using t le unfolding tail_ok_def
        by (intro disjI2 bexI [of _ t]) (auto simp: word_le_nat_alt)
    next
      case True
      show ?thesis
      proof (cases "s - (n + n) > 0")
        case True
        then have "?rem \<in> set free'" by (simp add: free' r)
        moreover have "unat (fst ?rem) \<le> unat used'" using used o1n by simp
        ultimately show ?thesis using split(2) t \<open>t = r\<close> r unfolding tail_ok_def
          by (intro disjI2 bexI [of _ ?rem]) simp_all
      next
        case False
        then have "s = n + n" by (simp add: word_greater_zero_iff)
        then have "unat used' = unat cap" using used t \<open>t = r\<close> r nn le(2) by (simp add: region_end_def)
        then show ?thesis using ok set False by (auto simp: tail_ok_def free' r space_ok_def)
      qed
    qed
  qed
  have "alloc_ok used' a" using used by (simp add: alloc_ok_def a r)
  moreover have "\<forall>q \<in> set free'. region_end q \<le> unat cap"
    using ok set re split(2) r by (auto simp: free' space_ok_def)
  moreover have "\<forall>x. cover (map alloc_region (a # als) @ free') x \<le> 1"
    using ok by (simp only: cov space_ok_def) blast
  ultimately show ?thesis
    using ok le tail alloc_ok_mono [OF _ le(1)] unfolding space_ok_def
    by (simp add: word_le_nat_alt)
qed

lemma space_ok_append:
  assumes ok: "space_ok cap used als free" and none: "\<forall>r \<in> set free. snd r < n + n"
    and n: "unat used + 2 * unat n \<le> unat cap"
    and a: "a = \<lparr>ka_k_offset = used, ka_k_size = n, ka_v_offset = used + n, ka_v_size = n\<rparr>"
    and used': "used' = (if used + n + n > used then used + n + n else used)"
  shows "space_ok cap used' (a # als) free"
proof -
  have nn: "unat (n + n) = 2 * unat n" using n unat_lt64 [of cap] unat_add_bounded [of n n] by simp
  have e: "unat (used + (n + n)) = unat used + 2 * unat n"
    using n nn unat_lt64 [of cap] by (subst unat_add_bounded) simp_all
  then have u: "unat used' = unat used + 2 * unat n"
    by (auto simp: used' word_less_nat_alt add.assoc)
  then have le: "used \<le> used'" "used' \<le> cap" using n by (simp_all add: word_le_nat_alt)
  have below: "\<forall>r \<in> set free. region_end r \<le> unat used"
  proof (rule ccontr)
    assume "\<not> ?thesis"
    then obtain t where t: "t \<in> set free" "unat (fst t) \<le> unat used" "region_end t = unat cap"
      using ok by (auto simp: space_ok_def tail_ok_def)
    then have "2 * unat n \<le> unat (snd t)" using n by (simp add: region_end_def)
    then show False using none t(1) nn by (auto simp: word_less_nat_alt)
  qed
  have ra: "alloc_region a = (used, n + n)" by (simp add: a alloc_region_def)
  have "cover (map alloc_region (a # als) @ free) x \<le> 1" for x
  proof (cases "covers x (alloc_region a)")
    case True
    then have x: "unat used \<le> x" by (simp add: covers_def ra)
    have "\<not> covers x q" if "q \<in> set (map alloc_region als @ free)" for q
      using that ok x below alloc_region_end(2) by (fastforce simp: space_ok_def covers_def)
    then have "cover (map alloc_region als @ free) x = 0"
      using cover_pos [of "map alloc_region als @ free" x] by blast
    then show ?thesis by simp
  next
    case False
    then show ?thesis using ok by (simp add: space_ok_def)
  qed
  moreover have "alloc_ok used' a" by (simp add: alloc_ok_def a u)
  moreover have "tail_ok cap used' free"
    using below le(1) by (auto simp: tail_ok_def word_le_nat_alt)
  ultimately show ?thesis
    using ok le alloc_ok_mono [OF _ le(1)] unfolding space_ok_def by simp
qed

section \<open>Live bytes\<close>

definition live_bytes :: "kv_allocation list \<Rightarrow> nat" where
  "live_bytes als = sum_list (map (\<lambda>a. unat (ka_k_size a) + unat (ka_v_size a)) als)"

lemma live_bytes_mset: "mset als = mset als' \<Longrightarrow> live_bytes als = live_bytes als'"
  by (metis live_bytes_def mset_map sum_mset_sum_list)

lemma sum_covers:
  "region_end r \<le> N \<Longrightarrow> (\<Sum>x < N. if covers x r then 1 else 0 :: nat) = unat (snd r)"
proof -
  assume "region_end r \<le> N"
  then have "{x. x < N \<and> covers x r} = {unat (fst r)..<region_end r}"
    by (auto simp: covers_def)
  then show ?thesis
    by (simp add: sum.If_cases region_end_def Collect_conj_eq lessThan_def)
qed

lemma sum_cover:
  "\<forall>r \<in> set rs. region_end r \<le> N \<Longrightarrow> (\<Sum>x < N. cover rs x) = sum_list (map (unat \<circ> snd) rs)"
  by (induction rs) (simp_all add: sum.distrib sum_covers)

lemma live_bytes_bounded:
  assumes "space_ok cap used als free"
  shows "live_bytes als \<le> unat cap"
proof -
  let ?rs = "map alloc_region als"
  have ends: "\<forall>r \<in> set ?rs. region_end r \<le> unat cap"
    using assms alloc_region_end(2) by (fastforce simp: space_ok_def word_le_nat_alt)
  have "cover ?rs x \<le> 1" for x
  proof -
    have "cover (?rs @ free) x \<le> 1" using assms by (simp only: space_ok_def)
    then show ?thesis by simp
  qed
  then have "(\<Sum>x < unat cap. cover ?rs x) \<le> (\<Sum>x < unat cap. 1)" by (intro sum_mono)
  then have "sum_list (map (unat \<circ> snd) ?rs) \<le> unat cap" by (simp add: sum_cover [OF ends])
  moreover have "map (unat \<circ> snd) ?rs = map (\<lambda>a. unat (ka_k_size a) + unat (ka_v_size a)) als"
  proof (simp, rule ballI)
    fix a assume "a \<in> set als"
    then have "alloc_ok used a" using assms by (simp add: space_ok_def)
    then show "unat (snd (alloc_region a)) = unat (ka_k_size a) + unat (ka_v_size a)"
      using alloc_region_end(1) by (simp add: region_end_def alloc_region_def)
  qed
  ultimately show ?thesis by (simp only: live_bytes_def)
qed

section \<open>The invariant of the cache\<close>

definition quota_follows :: "kv_quota option \<Rightarrow> kv_allocation list \<Rightarrow> bool" where
  "quota_follows q als \<longleftrightarrow>
     (case q of
        None \<Rightarrow> True
      | Some kq \<Rightarrow> quota_ok kq \<and> kq_reservations kq = [] \<and> unat (kq_used_bytes kq) = live_bytes als)"

abbreviation live :: "kv_slab \<Rightarrow> kv_allocation list" where
  "live ks \<equiv> map snd (ks_allocations ks)"

definition slab_ok :: "kv_slab \<Rightarrow> bool" where
  "slab_ok ks \<longleftrightarrow>
     am_ok (ks_allocations ks) \<and>
     space_ok (ks_capacity_bytes ks) (ks_used_bytes ks) (live ks) (ks_free_regions ks) \<and>
     (\<forall>i \<in> set (am_keys (ks_allocations ks)). i < ks_next_seq_id ks) \<and>
     unat (ks_capacity_bytes ks) + 2 ^ 21 * unat (ks_bytes_per_token ks) < 2 ^ 64 \<and>
     quota_follows (ks_quota_manager ks) (live ks)"

lemma reserve_follows:
  assumes "quota_follows (Some kq) als" "kv_reserve now wall n kq = (res, kq1)"
  shows "case res of
       Err e \<Rightarrow> quota_follows (Some kq1) als
     | Ok r \<Rightarrow> quota_ok kq1 \<and> kq_reservations kq1 = [r] \<and> kr_size_bytes r = n \<and>
         unat (kq_used_bytes kq1) = live_bytes als"
proof -
  have q: "quota_ok kq" "kq_reservations kq = []" "unat (kq_used_bytes kq) = live_bytes als"
    using assms(1) by (simp_all add: quota_follows_def)
  show ?thesis
  proof (cases res)
    case (Inl e)
    have "kq1 = cleanup_expired now kq"
      using assms(2) Inl by (auto simp: kv_reserve_def Let_def split: sum.splits)
    then show ?thesis using q cleanup_expired_ok(1) [OF q(1), of now] Inl
      by (simp add: quota_follows_def cleanup_expired_fields)
  next
    case (Inr r)
    have "kv_reserve now wall n kq = (Ok r, kq1)" using assms(2) Inr by simp
    note R = reserve_ok [OF q(1) this]
    have "reserved_total kq + unat n < 2 ^ 64" using q(2) unat_lt64 [of n] by (simp add: reserved_total_def)
    then show ?thesis using R q Inr by simp
  qed
qed

lemma rollback_follows:
  assumes "quota_ok kq1" "kq_reservations kq1 = [r]" "unat (kq_used_bytes kq1) = live_bytes als"
  shows "quota_follows (Some (kv_rollback r kq1)) als"
  using settle_ok(2) [OF assms(1), of r] assms
  by (simp add: quota_follows_def) (simp add: kv_rollback_def forget_reservation_def Let_def)

lemma finalize_follows:
  assumes "quota_ok kq1" "kq_reservations kq1 = [r]" "unat (kq_used_bytes kq1) = live_bytes als"
    and "unat (kr_size_bytes r) = unat (ka_k_size a) + unat (ka_v_size a)"
    and "live_bytes (a # als) < 2 ^ 64"
  shows "quota_follows (Some (snd (kv_finalize r kq1))) (a # als)"
proof -
  have "unat (kq_used_bytes kq1 + kr_size_bytes r) = live_bytes (a # als)"
    using assms(3,4,5) by (simp add: unat_add_bounded live_bytes_def)
  then show ?thesis using settle_ok(1) [OF assms(1), of r] assms(2)
    by (simp add: quota_follows_def) (simp add: kv_finalize_def forget_reservation_def Let_def)
qed

lemma release_follows:
  assumes "quota_follows (Some kq) als" "mset als = add_mset a (mset als')"
    and "alloc_ok used a"
  shows "quota_follows (Some (kv_release (ka_k_size a + ka_v_size a) kq)) als'"
proof -
  let ?n = "ka_k_size a + ka_v_size a"
  have n: "unat ?n = unat (ka_k_size a) + unat (ka_v_size a)"
    using assms(3) unat_lt64 [of used] by (intro unat_add_bounded) (simp add: alloc_ok_def)
  have l: "live_bytes als = unat ?n + live_bytes als'"
    using live_bytes_mset [of als "a # als'"] assms(2) by (simp add: n live_bytes_def)
  have q: "quota_ok kq" "kq_reservations kq = []" "unat (kq_used_bytes kq) = live_bytes als"
    using assms(1) by (simp_all add: quota_follows_def)
  then have "?n \<le> kq_used_bytes kq" using l by (simp add: word_le_nat_alt)
  moreover have "unat (kq_used_bytes kq - ?n) = live_bytes als'"
    using q(3) l by (simp add: unat_diff_le)
  ultimately show ?thesis
    using release_ok [OF q(1)] q(2) by (simp add: quota_follows_def) (simp add: kv_release_def)
qed

lemma release_all_fields [simp]:
  "ks_allocations (release_allocation_quota ks) = ks_allocations ks"
  "ks_capacity_bytes (release_allocation_quota ks) = ks_capacity_bytes ks"
  "ks_bytes_per_token (release_allocation_quota ks) = ks_bytes_per_token ks"
  "ks_k_buffer (release_allocation_quota ks) = ks_k_buffer ks"
  "ks_v_buffer (release_allocation_quota ks) = ks_v_buffer ks"
  "ks_active_guards (release_allocation_quota ks) = ks_active_guards ks"
  "ks_stack_generation (release_allocation_quota ks) = ks_stack_generation ks"
  "ks_next_seq_id (release_allocation_quota ks) = ks_next_seq_id ks"
  by (simp_all add: release_allocation_quota_def Let_def split: option.split)

lemma unat_am_total:
  assumes "\<forall>a \<in> set (map snd m). alloc_ok used a" "live_bytes (map snd m) < 2 ^ 64"
  shows "unat (am_total allocation_bytes m) = live_bytes (map snd m)"
  using assms
proof (induction m)
  case (Cons e m)
  have "unat (allocation_bytes (snd e)) = unat (ka_k_size (snd e)) + unat (ka_v_size (snd e))"
    using Cons.prems(1) unat_lt64 [of used]
    by (simp add: allocation_bytes_def unat_sat_add64 alloc_ok_def)
  then show ?case using Cons by (simp add: am_total_simps live_bytes_def unat_add_bounded)
qed (simp add: am_total_simps live_bytes_def)

lemma release_all_follows:
  assumes "slab_ok ks"
  shows "quota_follows (ks_quota_manager (release_allocation_quota ks)) []"
proof (cases "ks_quota_manager ks")
  case None
  then show ?thesis by (simp add: release_allocation_quota_def quota_follows_def)
next
  case (Some kq)
  let ?t = "am_total allocation_bytes (ks_allocations ks)"
  have sp: "space_ok (ks_capacity_bytes ks) (ks_used_bytes ks) (live ks) (ks_free_regions ks)"
    using assms by (simp add: slab_ok_def)
  have "unat ?t = live_bytes (live ks)"
    using sp live_bytes_bounded [OF sp] unat_lt64 [of "ks_capacity_bytes ks"]
    by (intro unat_am_total) (auto simp: space_ok_def)
  moreover have q: "quota_ok kq" "kq_reservations kq = []" "unat (kq_used_bytes kq) = live_bytes (live ks)"
    using assms Some by (simp_all add: slab_ok_def quota_follows_def)
  ultimately have t: "?t = kq_used_bytes kq" by (simp add: word_unat_eq_iff)
  have "quota_ok (kv_release (kq_used_bytes kq) kq)" using release_ok [OF q(1)] by simp
  then show ?thesis using q(1,2) Some t
    by (auto simp: release_allocation_quota_def Let_def quota_follows_def live_bytes_def kv_release_def
        word_greater_zero_iff)
qed

section \<open>Every operation keeps the invariant\<close>

lemma round_len_bound: "round_len n \<le> 2 ^ 20"
  by (simp add: round_len_def Let_def)

lemma required_size:
  fixes l :: nat
  assumes "slab_ok ks"
  defines "n \<equiv> of_nat (round_len l) * ks_bytes_per_token ks"
  shows "unat (ks_capacity_bytes ks) + 2 * unat n < 2 ^ 64" "unat (n * 2) = 2 * unat n"
    "unat n = round_len l * unat (ks_bytes_per_token ks)"
proof -
  let ?b = "unat (ks_bytes_per_token ks)"
  have b: "unat (ks_capacity_bytes ks) + 2 ^ 21 * ?b < 2 ^ 64" using assms(1) by (simp add: slab_ok_def)
  have p: "round_len l * ?b \<le> 2 ^ 20 * ?b" using round_len_bound by (rule mult_le_mono1)
  have "unat (of_nat (round_len l) :: u64) = round_len l"
    using round_len_bound [of l] by (simp add: unsigned_of_nat take_bit_nat_eq_self)
  then show n: "unat n = round_len l * ?b"
  proof -
    have "2 ^ 20 * ?b < 2 ^ 64" using b by simp
    with p have "round_len l * ?b < 2 ^ 64" by (rule order.strict_trans1)
    then show ?thesis
      using \<open>unat (of_nat (round_len l) :: u64) = round_len l\<close> by (simp add: n_def unat_word_ariths)
  qed
  have "2 * unat n \<le> 2 * (2 ^ 20 * ?b)" unfolding n by (rule mult_le_mono2 [OF p])
  also have "\<dots> = 2 ^ 21 * ?b" by simp
  finally show c: "unat (ks_capacity_bytes ks) + 2 * unat n < 2 ^ 64" using b by linarith
  then show "unat (n * 2) = 2 * unat n" by (simp add: unat_word_ariths)
qed

lemma reserve_quota_cases:
  assumes "reserve_quota now wall n ks = (res, ks1)"
    and "quota_follows (ks_quota_manager ks) als"
  obtains (none) "ks_quota_manager ks = None" "res = Ok None" "ks1 = ks"
  | (rejected) e kq1 where "res = Err e" "ks1 = ks\<lparr>ks_quota_manager := Some kq1\<rparr>"
      "quota_follows (Some kq1) als"
  | (granted) r kq1 where "res = Ok (Some r)" "ks1 = ks\<lparr>ks_quota_manager := Some kq1\<rparr>"
      "quota_ok kq1" "kq_reservations kq1 = [r]" "kr_size_bytes r = n"
      "unat (kq_used_bytes kq1) = live_bytes als"
proof (cases "ks_quota_manager ks")
  case None
  then have "res = Ok None" "ks1 = ks" using assms(1) by (simp_all add: reserve_quota_def)
  with None show ?thesis by (rule none)
next
  case (Some kq)
  obtain r kq1 where e: "kv_reserve now wall n kq = (r, kq1)" by fastforce
  have f: "quota_follows (Some kq) als" using assms(2) Some by simp
  show ?thesis
  proof (cases r)
    case (Inl e')
    have "\<exists>e. res = Err e" "ks1 = ks\<lparr>ks_quota_manager := Some kq1\<rparr>"
      using assms(1) Some e Inl by (auto simp: reserve_quota_def split: aos_error.splits if_splits)
    then show ?thesis using reserve_follows [OF f e] Inl rejected by auto
  next
    case (Inr r')
    then have "res = Ok (Some r')" "ks1 = ks\<lparr>ks_quota_manager := Some kq1\<rparr>"
      using assms(1) Some e by (simp_all add: reserve_quota_def)
    then show ?thesis using reserve_follows [OF f e] Inr granted by auto
  qed
qed

lemma place_slices_ok:
  assumes sp: "space_ok (ks_capacity_bytes ks) (ks_used_bytes ks) als (ks_free_regions ks)"
    and n: "unat (ks_used_bytes ks) + 2 * unat n \<le> unat (ks_capacity_bytes ks)"
    and p: "place_slices n ks = (a, ks2)"
  shows "space_ok (ks_capacity_bytes ks)
      (if ka_v_offset a + ka_v_size a > ks_used_bytes ks then ka_v_offset a + ka_v_size a
       else ks_used_bytes ks) (a # als) (ks_free_regions ks2)"
    "ka_k_size a = n" "ka_v_size a = n"
    "\<exists>free. ks2 = ks\<lparr>ks_free_regions := free\<rparr>"
proof -
  have nn: "2 * unat n < 2 ^ 64" using n unat_lt64 [of "ks_capacity_bytes ks"] by simp
  obtain found rest where t: "take_region (n * 2) (ks_free_regions ks) = (found, rest)" by fastforce
  have two: "n * 2 = n + n" by simp
  show "space_ok (ks_capacity_bytes ks)
      (if ka_v_offset a + ka_v_size a > ks_used_bytes ks then ka_v_offset a + ka_v_size a
       else ks_used_bytes ks) (a # als) (ks_free_regions ks2)"
  proof (cases found)
    case None
    then have "\<forall>r \<in> set (ks_free_regions ks). snd r < n + n"
      using take_region_none t two by metis
    note A = space_ok_append [OF sp this n refl refl]
    have "a = \<lparr>ka_k_offset = ks_used_bytes ks, ka_k_size = n, ka_v_offset = ks_used_bytes ks + n, ka_v_size = n\<rparr>"
      "ks2 = ks"
      using p t None by (auto simp: place_slices_def)
    then show ?thesis using A by (simp only: kv_allocation.select_convs)
  next
    case (Some r)
    have r: "n + n \<le> snd r" "mset (ks_free_regions ks) = mset (r # rest)"
      using take_region_some t Some two by metis+
    note A = space_ok_take [OF sp r(2,1) nn refl refl refl]
    have "a = \<lparr>ka_k_offset = fst r, ka_k_size = n, ka_v_offset = fst r + n, ka_v_size = n\<rparr>"
      "ks_free_regions ks2 =
        (if snd r - (n + n) > 0 then rest @ [(fst r + (n + n), snd r - (n + n))] else rest)"
      using p t Some by (auto simp: place_slices_def Let_def split: prod.splits)
    then show ?thesis using A by (simp only: kv_allocation.select_convs)
  qed
  show "ka_k_size a = n" "ka_v_size a = n" "\<exists>free. ks2 = ks\<lparr>ks_free_regions := free\<rparr>"
    using p t by (auto simp: place_slices_def Let_def split: option.splits prod.splits)
      (metis kv_slab.surjective kv_slab.update_convs(8))
qed

text \<open>The quota manager between a granted reservation and its settlement.\<close>

definition quota_pending :: "kv_reservation option \<Rightarrow> u64 \<Rightarrow> kv_quota option \<Rightarrow> kv_allocation list \<Rightarrow> bool" where
  "quota_pending res n q als \<longleftrightarrow>
     (case (res, q) of
        (None, None) \<Rightarrow> True
      | (Some r, Some kq) \<Rightarrow> quota_ok kq \<and> kq_reservations kq = [r] \<and> kr_size_bytes r = n \<and>
          unat (kq_used_bytes kq) = live_bytes als
      | _ \<Rightarrow> False)"

lemma mset_am_insert: "k \<notin> set (am_keys m) \<Longrightarrow> mset (map snd (am_insert k v m)) = add_mset v (mset (map snd m))"
  by (simp add: am_insert_def am_remove_absent)

lemma space_ok_mset: "mset als = mset als' \<Longrightarrow> space_ok cap used als free = space_ok cap used als' free"
proof -
  assume m: "mset als = mset als'"
  then have "cover (map alloc_region als @ free) x = cover (map alloc_region als' @ free) x" for x
    by (intro cover_mset) simp
  moreover have "set als = set als'" using m by (metis set_mset_mset)
  ultimately show ?thesis by (simp only: space_ok_def)
qed

lemma quota_follows_mset: "mset als = mset als' \<Longrightarrow> quota_follows q als = quota_follows q als'"
  using live_bytes_mset [of als als'] by (cases q) (simp_all add: quota_follows_def)

lemma install_ok:
  assumes am: "am_ok (ks_allocations ks)"
    and sp: "space_ok (ks_capacity_bytes ks) (ks_used_bytes ks) (live ks) (ks_free_regions ks)"
    and ids: "\<forall>i \<in> set (am_keys (ks_allocations ks)). i < ks_next_seq_id ks"
    and sz: "unat (ks_capacity_bytes ks) + 2 ^ 21 * unat (ks_bytes_per_token ks) < 2 ^ 64"
    and nx: "ks_next_seq_id ks \<noteq> - 1"
    and n: "unat (ks_used_bytes ks) + 2 * unat n \<le> unat (ks_capacity_bytes ks)"
    and q: "quota_pending res (n * 2) (ks_quota_manager ks) (live ks)"
  shows "slab_ok (snd (install_sequence res n ks))"
    "fst (install_sequence res n ks) = Ok (ks_next_seq_id ks)"
    "ks_next_seq_id (snd (install_sequence res n ks)) = ks_next_seq_id ks + 1"
    "\<exists>a. ka_k_size a = n \<and> ka_v_size a = n \<and>
       ks_allocations (snd (install_sequence res n ks)) = am_insert (ks_next_seq_id ks) a (ks_allocations ks)"
    "ks_active_guards (snd (install_sequence res n ks)) = ks_active_guards ks"
    "ks_stack_generation (snd (install_sequence res n ks)) = ks_stack_generation ks"
proof -
  let ?id = "ks_next_seq_id ks"
  obtain a ks2 where p: "place_slices n (ks\<lparr>ks_next_seq_id := ?id + 1\<rparr>) = (a, ks2)" by fastforce
  have sp': "space_ok (ks_capacity_bytes (ks\<lparr>ks_next_seq_id := ?id + 1\<rparr>))
      (ks_used_bytes (ks\<lparr>ks_next_seq_id := ?id + 1\<rparr>)) (live ks) (ks_free_regions (ks\<lparr>ks_next_seq_id := ?id + 1\<rparr>))"
    and n': "unat (ks_used_bytes (ks\<lparr>ks_next_seq_id := ?id + 1\<rparr>)) + 2 * unat n \<le>
      unat (ks_capacity_bytes (ks\<lparr>ks_next_seq_id := ?id + 1\<rparr>))"
    using sp n by simp_all
  have P: "space_ok (ks_capacity_bytes ks)
      (if ka_v_offset a + ka_v_size a > ks_used_bytes ks then ka_v_offset a + ka_v_size a
       else ks_used_bytes ks) (a # live ks) (ks_free_regions ks2)"
    "ka_k_size a = n" "ka_v_size a = n"
    using place_slices_ok(1-3) [OF sp' n' p] by (simp_all cong: if_cong)
  obtain free where ks2: "ks2 = ks\<lparr>ks_next_seq_id := ?id + 1, ks_free_regions := free\<rparr>"
    using place_slices_ok(4) [OF sp' n' p] by auto
  define ks3 where "ks3 = ks2\<lparr>ks_allocations := am_insert ?id a (ks_allocations ks2),
      ks_used_bytes := (if ka_v_offset a + ka_v_size a > ks_used_bytes ks2 then ka_v_offset a + ka_v_size a
                        else ks_used_bytes ks2)\<rparr>"
  have inst: "install_sequence res n ks = finalize_quota res ?id a ks3"
    by (simp add: install_sequence_def p ks3_def Let_def)
  have fresh: "?id \<notin> set (am_keys (ks_allocations ks))" using ids by auto
  have m: "mset (live ks3) = mset (a # live ks)"
    using mset_am_insert [OF fresh] by (simp add: ks3_def ks2)
  have sp3: "space_ok (ks_capacity_bytes ks3) (ks_used_bytes ks3) (live ks3) (ks_free_regions ks3)"
    unfolding space_ok_mset [OF m] using P(1) by (simp add: ks3_def ks2 cong: if_cong)
  obtain q' where fin: "finalize_quota res ?id a ks3 = (Ok ?id, ks3\<lparr>ks_quota_manager := q'\<rparr>)"
    and q': "quota_follows q' (a # live ks)"
  proof (cases res)
    case None
    then have "ks_quota_manager ks = None" using q by (simp add: quota_pending_def split: option.splits)
    then show ?thesis using None that [of None]
      by (simp add: finalize_quota_def ks3_def ks2 quota_follows_def)
  next
    case (Some r)
    then obtain kq where kq: "ks_quota_manager ks = Some kq" "quota_ok kq" "kq_reservations kq = [r]"
      "kr_size_bytes r = n * 2" "unat (kq_used_bytes kq) = live_bytes (live ks)"
      using q by (auto simp: quota_pending_def split: option.splits)
    have "2 * unat n < 2 ^ 64" using n unat_lt64 [of "ks_capacity_bytes ks"] by simp
    then have "unat (n * 2) = unat (ka_k_size a) + unat (ka_v_size a)"
      using P(2,3) by (simp add: unat_word_ariths)
    moreover have "live_bytes (a # live ks) < 2 ^ 64"
      using live_bytes_bounded [OF P(1)] unat_lt64 [of "ks_capacity_bytes ks"] by simp
    ultimately have "quota_follows (Some (snd (kv_finalize r kq))) (a # live ks)"
      using finalize_follows kq by simp
    then show ?thesis using Some kq(1) that [of "Some (snd (kv_finalize r kq))"]
      by (simp add: finalize_quota_def ks3_def ks2 kv_finalize_def Let_def)
  qed
  have id1: "i < ?id + 1" if "i < ?id" for i
    using that word_succ_greater [of ?id] nx by (meson order_less_trans)
  show "slab_ok (snd (install_sequence res n ks))"
    unfolding slab_ok_def inst fin snd_conv
    using sp3 quota_follows_mset [OF m, of q'] q' sz hash_map.ok_insert [OF am] ids id1
      word_succ_greater [of ?id] nx
    by (simp add: ks3_def ks2) (auto simp: am_insert_def am_keys_remove)
  show "fst (install_sequence res n ks) = Ok ?id"
    "ks_next_seq_id (snd (install_sequence res n ks)) = ?id + 1"
    "\<exists>a. ka_k_size a = n \<and> ka_v_size a = n \<and>
       ks_allocations (snd (install_sequence res n ks)) = am_insert (ks_next_seq_id ks) a (ks_allocations ks)"
    "ks_active_guards (snd (install_sequence res n ks)) = ks_active_guards ks"
    "ks_stack_generation (snd (install_sequence res n ks)) = ks_stack_generation ks"
    unfolding inst fin using P(2,3) by (auto simp: ks3_def ks2)
qed

lemma slab_ok_quota:
  "slab_ok ks \<Longrightarrow> quota_follows q (live ks) \<Longrightarrow> slab_ok (ks\<lparr>ks_quota_manager := q\<rparr>)"
  by (simp add: slab_ok_def)

text \<open>The three ways an allocation ends.\<close>

lemma slab_allocate_cases:
  assumes ok: "slab_ok ks" and nx: "ks_next_seq_id ks \<noteq> - 1"
    and al: "slab_allocate now wall l ks = (res, ks')"
  obtains (refused) e q where "res = Err e" "ks' = ks\<lparr>ks_quota_manager := q\<rparr>"
      "quota_follows q (live ks)"
  | (allocated) a where "res = Ok (ks_next_seq_id ks)" "slab_ok ks'"
      "ks_next_seq_id ks' = ks_next_seq_id ks + 1"
      "ks_allocations ks' = am_insert (ks_next_seq_id ks) a (ks_allocations ks)"
      "unat (ka_k_size a) = round_len l * unat (ks_bytes_per_token ks)"
      "ka_v_size a = ka_k_size a"
      "ks_active_guards ks' = ks_active_guards ks"
      "ks_stack_generation ks' = ks_stack_generation ks"
proof -
  define n where "n = of_nat (round_len l) * ks_bytes_per_token ks"
  note n = required_size [OF ok, of l, folded n_def]
  have fits: "\<not> 2 ^ 64 \<le> unat (of_nat (round_len l) :: u64) * unat (ks_bytes_per_token ks)"
    using n(1,3) round_len_bound [of l] by (simp add: unsigned_of_nat take_bit_nat_eq_self)
  obtain r ks1 where rq: "reserve_quota now wall (n * 2) ks = (r, ks1)" by fastforce
  have al': "(case r of
       Err e \<Rightarrow> (Err e, ks1)
     | Ok reservation \<Rightarrow>
         if ks_used_bytes ks1 + n * 2 > ks_capacity_bytes ks1
         then (Err (EMemoryPressure (''KV cache full: '' @ show_u64 (ks_used_bytes ks1) @ '' / '' @
                      show_u64 (ks_capacity_bytes ks1) @ '' bytes used'')), rollback_quota reservation ks1)
         else install_sequence reservation n ks1) = (res, ks')"
    using fits al unfolding slab_allocate_def n_def [symmetric] Let_def rq prod.case by simp
  have qf: "quota_follows (ks_quota_manager ks) (live ks)" using ok by (simp add: slab_ok_def)
  have go: thesis
    if r: "r = Ok rs" and k1: "ks1 = ks\<lparr>ks_quota_manager := q\<rparr>"
      and pend: "quota_pending rs (n * 2) q (live ks)"
      and roll: "rollback_quota rs ks1 = ks1\<lparr>ks_quota_manager := q'\<rparr>" "quota_follows q' (live ks)" for rs q q'
  proof (cases "ks_used_bytes ks1 + n * 2 > ks_capacity_bytes ks1")
    case True
    then show ?thesis using al' r roll k1 refused by auto
  next
    case False
    have "unat (ks_used_bytes ks) \<le> unat (ks_capacity_bytes ks)"
      using ok by (simp add: slab_ok_def space_ok_def word_le_nat_alt)
    then have "unat (ks_used_bytes ks + n * 2) = unat (ks_used_bytes ks) + 2 * unat n"
      using n(1,2) by (subst unat_add_bounded) simp_all
    then have "unat (ks_used_bytes ks1) + 2 * unat n \<le> unat (ks_capacity_bytes ks1)"
      using False by (simp add: k1 word_less_nat_alt)
    moreover have "install_sequence rs n ks1 = (res, ks')" using al' r False by simp
    ultimately show ?thesis
      using install_ok [of ks1 n rs] ok nx pend k1 n(3) by (auto simp: slab_ok_def intro!: allocated)
  qed
  from rq qf show thesis
  proof (cases rule: reserve_quota_cases)
    case none
    then show thesis by (intro go [of None "ks_quota_manager ks" "ks_quota_manager ks"])
        (simp_all add: quota_pending_def rollback_quota_def quota_follows_def)
  next
    case (rejected e kq1)
    then show thesis using al' refused by auto
  next
    case (granted rv kq1)
    then show thesis
      using rollback_follows [of kq1 rv "live ks"]
      by (intro go [of "Some rv" "Some kq1" "Some (kv_rollback rv kq1)"])
        (simp_all add: quota_pending_def rollback_quota_def)
  qed
qed

lemma slab_ok_allocate:
  assumes "slab_ok ks" "ks_next_seq_id ks \<noteq> - 1"
  shows "slab_ok (snd (slab_allocate now wall l ks))"
    "unat (ks_next_seq_id (snd (slab_allocate now wall l ks))) \<le> Suc (unat (ks_next_seq_id ks))"
proof -
  obtain res ks' where al: "slab_allocate now wall l ks = (res, ks')" by fastforce
  have "unat (ks_next_seq_id ks + 1) \<le> Suc (unat (ks_next_seq_id ks))"
    by (simp add: unat_word_ariths)
  then have "slab_ok ks' \<and> unat (ks_next_seq_id ks') \<le> Suc (unat (ks_next_seq_id ks))"
    using assms(1) by (cases rule: slab_allocate_cases [OF assms al]) (auto simp: slab_ok_quota)
  then show "slab_ok (snd (slab_allocate now wall l ks))"
    "unat (ks_next_seq_id (snd (slab_allocate now wall l ks))) \<le> Suc (unat (ks_next_seq_id ks))"
    by (simp_all add: al)
qed

lemma mset_am_remove:
  "am_ok m \<Longrightarrow> map_of m k = Some v \<Longrightarrow> mset (map snd m) = add_mset v (mset (map snd (am_remove k m)))"
proof (induction m)
  case (Cons e m)
  show ?case
  proof (cases "fst e = k")
    case True
    with Cons.prems have "am_remove k m = m" by (auto simp: am_ok_def am_remove_absent)
    then show ?thesis using True Cons.prems by (simp add: am_remove_def)
  next
    case False
    then show ?thesis using Cons by (simp add: am_ok_def am_remove_def)
  qed
qed simp

lemma slab_ok_guards [simp]: "slab_ok (ks\<lparr>ks_active_guards := g\<rparr>) = slab_ok ks"
  by (simp add: slab_ok_def)

lemma slab_ok_generation [simp]: "slab_ok (ks\<lparr>ks_stack_generation := g\<rparr>) = slab_ok ks"
  by (simp add: slab_ok_def)

lemma slab_ok_buffers: "slab_ok (ks\<lparr>ks_k_buffer := k, ks_v_buffer := v\<rparr>) = slab_ok ks"
  by (simp add: slab_ok_def)

lemma slab_free_next [simp]:
  "ks_next_seq_id (snd (slab_free i ks)) = ks_next_seq_id ks"
  "ks_stack_generation (snd (slab_free i ks)) = ks_stack_generation ks"
  "ks_allocations (snd (slab_free i ks)) = am_remove i (ks_allocations ks)"
  "ks_active_guards (snd (slab_free i ks)) = am_remove i (ks_active_guards ks)"
  by (simp_all add: slab_free_def Let_def am_remove_absent am_keys_def map_of_eq_None_iff split: option.split)

lemma slab_ok_free:
  assumes "slab_ok ks"
  shows "slab_ok (snd (slab_free i ks))"
proof (cases "map_of (ks_allocations ks) i")
  case None
  then show ?thesis using assms by (simp add: slab_free_def Let_def)
next
  case (Some a)
  have am: "am_ok (ks_allocations ks)"
    and sp: "space_ok (ks_capacity_bytes ks) (ks_used_bytes ks) (live ks) (ks_free_regions ks)"
    and qf: "quota_follows (ks_quota_manager ks) (live ks)"
    using assms by (simp_all add: slab_ok_def)
  note m = mset_am_remove [OF am Some]
  have "a \<in> set (live ks)" using Some by (force dest: map_of_SomeD)
  then have a: "alloc_ok (ks_used_bytes ks) a" using sp unfolding space_ok_def by blast
  have "quota_follows (map_option (kv_release (ka_k_size a + ka_v_size a)) (ks_quota_manager ks))
      (map snd (am_remove i (ks_allocations ks)))"
    using release_follows [OF _ m a] qf by (cases "ks_quota_manager ks") (simp_all add: quota_follows_def)
  then show ?thesis
    using space_ok_free [OF sp m] assms hash_map.ok_remove [OF am]
    by (simp add: slab_ok_def slab_free_def Let_def Some alloc_region_def am_keys_remove)
qed

section \<open>Sequences of calls\<close>

datatype slab_call =
    CallAllocate nat nat nat
  | CallAllocateWithGuard nat nat nat u64
  | CallFree u64
  | CallDrain
  | CallZeroize
  | CallZeroizeAll
  | CallZeroizeSequence u64
  | CallReset
  | CallCoherence u64
  | CallSetGeneration u64

fun apply_call :: "slab_call \<Rightarrow> kv_slab \<Rightarrow> kv_slab" where
  "apply_call (CallAllocate now wall l) ks = snd (slab_allocate now wall l ks)"
| "apply_call (CallAllocateWithGuard now wall l g) ks = snd (allocate_with_guard now wall l g ks)"
| "apply_call (CallFree i) ks = snd (slab_free i ks)"
| "apply_call CallDrain ks = snd (drain_active_sequences ks)"
| "apply_call CallZeroize ks = slab_zeroize ks"
| "apply_call CallZeroizeAll ks = zeroize_all ks"
| "apply_call (CallZeroizeSequence i) ks = snd (zeroize_sequence i ks)"
| "apply_call CallReset ks = reset_all ks"
| "apply_call (CallCoherence g) ks = snd (ensure_cache_coherence g ks)"
| "apply_call (CallSetGeneration g) ks = set_generation g ks"

lemma reset_all_fields [simp]:
  "ks_allocations (reset_all ks) = []" "ks_next_seq_id (reset_all ks) = 1"
  "ks_active_guards (reset_all ks) = []" "ks_stack_generation (reset_all ks) = ks_stack_generation ks"
  "ks_used_bytes (reset_all ks) = 0" "ks_free_regions (reset_all ks) = []"
  "ks_capacity_bytes (reset_all ks) = ks_capacity_bytes ks"
  "ks_bytes_per_token (reset_all ks) = ks_bytes_per_token ks"
  "ks_quota_manager (reset_all ks) = ks_quota_manager (release_allocation_quota ks)"
  by (simp_all add: reset_all_def Let_def split: option.split)

lemma slab_ok_cleared:
  assumes "slab_ok ks" "ks_allocations ks' = []" "ks_used_bytes ks' = 0"
    "ks_free_regions ks' = [] \<or> ks_free_regions ks' = [(0, ks_capacity_bytes ks')]"
    "ks_capacity_bytes ks' = ks_capacity_bytes ks" "ks_bytes_per_token ks' = ks_bytes_per_token ks"
    "ks_quota_manager ks' = ks_quota_manager (release_allocation_quota ks)"
  shows "slab_ok ks'"
  using assms release_all_follows [OF assms(1)] space_ok_empty space_ok_whole
  by (auto simp: slab_ok_def am_ok_def)

lemma reset_all_ok: "slab_ok ks \<Longrightarrow> slab_ok (reset_all ks)"
  by (rule slab_ok_cleared) simp_all

lemma coherence_ok:
  "slab_ok ks \<Longrightarrow> slab_ok (snd (ensure_cache_coherence g ks))"
  by (simp add: ensure_cache_coherence_def reset_all_ok)

lemma coherence_next:
  "ks_next_seq_id (snd (ensure_cache_coherence g ks)) = ks_next_seq_id ks \<or>
   ks_next_seq_id (snd (ensure_cache_coherence g ks)) = 1"
  "ks_stack_generation (snd (ensure_cache_coherence g ks)) = g"
  by (simp_all add: ensure_cache_coherence_def)

lemma allocate_with_guard_state:
  "snd (allocate_with_guard now wall l g ks) =
     (let (res, ks1) = slab_allocate now wall l (snd (ensure_cache_coherence g ks)) in
      case res of
        Err e \<Rightarrow> ks1
      | Ok i \<Rightarrow> ks1\<lparr>ks_active_guards := am_insert i g (ks_active_guards ks1)\<rparr>)"
  by (simp add: allocate_with_guard_def Let_def split: prod.split sum.split)

lemma fold_free_ok:
  "slab_ok ks \<Longrightarrow> slab_ok (fold (\<lambda>i s. snd (slab_free i s)) is ks) \<and>
   ks_next_seq_id (fold (\<lambda>i s. snd (slab_free i s)) is ks) = ks_next_seq_id ks \<and>
   ks_stack_generation (fold (\<lambda>i s. snd (slab_free i s)) is ks) = ks_stack_generation ks"
  by (induction "is" arbitrary: ks) (simp_all add: slab_ok_free)

lemma slab_ok_zeroize: "slab_ok ks \<Longrightarrow> slab_ok (slab_zeroize ks)"
proof (rule slab_ok_cleared)
  show "ks_quota_manager (slab_zeroize ks) = ks_quota_manager (release_allocation_quota ks)"
    by (simp add: slab_zeroize_def release_allocation_quota_def Let_def split: option.split)
qed (simp_all add: slab_zeroize_def Let_def split: option.split)

lemma slab_ok_zeroize_all: "slab_ok ks \<Longrightarrow> slab_ok (zeroize_all ks)"
  by (rule slab_ok_cleared) (simp_all add: zeroize_all_def Let_def)

lemma zeroize_sequence_state:
  "snd (zeroize_sequence i ks) = ks \<or>
   (\<exists>k v. snd (zeroize_sequence i ks) = snd (slab_free i (ks\<lparr>ks_k_buffer := k, ks_v_buffer := v\<rparr>)))"
proof -
  have "ks = ks\<lparr>ks_k_buffer := ks_k_buffer ks, ks_v_buffer := ks_v_buffer ks\<rparr>" by simp
  then have "\<exists>k v. snd (slab_free i ks) = snd (slab_free i (ks\<lparr>ks_k_buffer := k, ks_v_buffer := v\<rparr>))"
    by metis
  then show ?thesis by (auto simp: zeroize_sequence_def split: option.split sum.split)
qed

lemma apply_call_ok:
  assumes "slab_ok ks" "Suc (unat (ks_next_seq_id ks)) < 2 ^ 64" "0 < unat (ks_next_seq_id ks)"
  shows "slab_ok (apply_call c ks) \<and>
     unat (ks_next_seq_id (apply_call c ks)) \<le> Suc (unat (ks_next_seq_id ks)) \<and>
     0 < unat (ks_next_seq_id (apply_call c ks))"
proof -
  have nx: "ks_next_seq_id s \<noteq> - 1" if "unat (ks_next_seq_id s) \<le> unat (ks_next_seq_id ks)" for s
    using that assms(2) by (auto simp: unsigned_minus_1_eq_mask mask_eq_exp_minus_1)
  have alloc: "slab_ok (snd (slab_allocate now wall l s)) \<and>
      unat (ks_next_seq_id (snd (slab_allocate now wall l s))) \<le> Suc (unat (ks_next_seq_id ks)) \<and>
      0 < unat (ks_next_seq_id (snd (slab_allocate now wall l s)))"
    if s: "slab_ok s" "unat (ks_next_seq_id s) \<le> unat (ks_next_seq_id ks)" "0 < unat (ks_next_seq_id s)" for now wall l s
  proof -
    obtain res s' where al: "slab_allocate now wall l s = (res, s')" by fastforce
    have "unat (ks_next_seq_id s + 1) = Suc (unat (ks_next_seq_id s))"
      using s(2) assms(2) by (simp add: unat_word_ariths)
    then have "0 < unat (ks_next_seq_id s')"
      using s(3) by (cases rule: slab_allocate_cases [OF s(1) nx [OF s(2)] al]) simp_all
    then show ?thesis using slab_ok_allocate [OF s(1) nx [OF s(2)], of now wall l] s(2) al by simp
  qed
  show ?thesis
  proof (cases c)
    case (CallAllocate now wall l)
    then show ?thesis using alloc [OF assms(1)] assms(3) by simp
  next
    case (CallAllocateWithGuard now wall l g)
    let ?s = "snd (ensure_cache_coherence g ks)"
    have "unat (ks_next_seq_id ?s) \<le> unat (ks_next_seq_id ks)" "0 < unat (ks_next_seq_id ?s)"
      using coherence_next(1) [of g ks] assms(3) by auto
    from alloc [OF coherence_ok [OF assms(1)] this, of now wall l] show ?thesis
      using CallAllocateWithGuard
      by (auto simp: allocate_with_guard_state Let_def split: prod.split sum.split)
  next
    case (CallZeroizeSequence i)
    then show ?thesis using zeroize_sequence_state [of i ks] assms
      by (auto simp: slab_ok_free slab_ok_buffers)
  next
    case (CallCoherence g)
    then show ?thesis using coherence_ok [OF assms(1), of g] coherence_next(1) [of g ks] assms(3) by auto
  qed (use assms fold_free_ok [OF assms(1)] in \<open>simp_all add: slab_ok_free drain_active_sequences_def
      slab_ok_zeroize slab_ok_zeroize_all reset_all_ok set_generation_def Let_def, simp_all add: slab_zeroize_def
      zeroize_all_def Let_def split: option.split\<close>)
qed

lemma calls_ok:
  assumes "slab_ok ks" "unat (ks_next_seq_id ks) + length calls < 2 ^ 64" "0 < unat (ks_next_seq_id ks)"
  shows "slab_ok (fold apply_call calls ks)"
  using assms
proof (induction calls arbitrary: ks)
  case (Cons c calls)
  then have "Suc (unat (ks_next_seq_id ks)) < 2 ^ 64" by simp
  from apply_call_ok [OF Cons.prems(1) this Cons.prems(3), of c] Cons show ?case by simp
qed simp

definition fresh_slab :: "u64 \<Rightarrow> (string \<times> u64 option) option \<Rightarrow> kv_slab" where
  "fresh_slab cap q = slab_new_with_quota cap (map_option (\<lambda>(t, b). kv_quota_new t b) q)"

lemma fresh_slab_ok:
  assumes "unat cap < 2 ^ 64 - 2 ^ 34" "\<forall>t. q \<noteq> Some (t, Some (- 1))"
  shows "slab_ok (fresh_slab cap q)"
proof -
  have "quota_follows (map_option (\<lambda>(t, b). kv_quota_new t b) q) []"
  proof (cases q)
    case (Some p)
    obtain t b where p: "p = (t, b)" by (cases p)
    then have "quota_ok (kv_quota_new t b)" using assms(2) Some by (intro new_quota_ok) auto
    then show ?thesis using Some p
      by (simp add: quota_follows_def live_bytes_def) (simp add: kv_quota_new_def)
  qed (simp add: quota_follows_def)
  then show ?thesis using assms(1) space_ok_empty
    by (simp add: slab_ok_def fresh_slab_def slab_new_with_quota_def am_ok_def)
qed

lemma reachable_slab_ok:
  assumes "unat cap < 2 ^ 64 - 2 ^ 34" "\<forall>t. q \<noteq> Some (t, Some (- 1))" "length calls < 2 ^ 64 - 1"
  shows "slab_ok (fold apply_call calls (fresh_slab cap q))"
  using assms by (intro calls_ok fresh_slab_ok) (simp_all add: fresh_slab_def slab_new_with_quota_def)

section \<open>Properties\<close>

definition slice_bytes :: "kv_allocation \<Rightarrow> nat set" where
  "slice_bytes a =
     {unat (ka_k_offset a)..<unat (ka_k_offset a) + unat (ka_k_size a)} \<union>
     {unat (ka_v_offset a)..<unat (ka_v_offset a) + unat (ka_v_size a)}"

lemma slice_bytes_region:
  assumes "alloc_ok used a"
  shows "x \<in> slice_bytes a \<longleftrightarrow> covers x (alloc_region a)"
proof -
  have "unat (ka_v_offset a) = unat (ka_k_offset a) + unat (ka_k_size a)"
    using assms unat_lt64 [of used] by (auto simp: alloc_ok_def intro: unat_add_bounded)
  then show ?thesis using alloc_region_end(1) [OF assms]
    by (auto simp: slice_bytes_def covers_def alloc_region_def)
qed

lemma slab_ok_alloc: "slab_ok ks \<Longrightarrow> map_of (ks_allocations ks) i = Some a \<Longrightarrow> alloc_ok (ks_used_bytes ks) a"
proof -
  assume "slab_ok ks" and m: "map_of (ks_allocations ks) i = Some a"
  moreover have "a \<in> set (live ks)" using m by (force dest: map_of_SomeD)
  ultimately show ?thesis unfolding slab_ok_def space_ok_def by blast
qed

lemma cover_two:
  assumes "map_of m i = Some a" "map_of m j = Some b" "i \<noteq> j" "covers x (f a)" "covers x (f b)"
  shows "2 \<le> cover (map (f \<circ> snd) m) x"
proof -
  have "0 < cover (map (f \<circ> snd) m) x" if "map_of m k = Some c" "covers x (f c)" for m k c
    using that by (force simp: cover_pos dest: map_of_SomeD)
  then show ?thesis using assms
    by (induction m) (force split: if_splits)+
qed

lemma live_slices_disjoint:
  assumes "slab_ok ks" "map_of (ks_allocations ks) i = Some a" "map_of (ks_allocations ks) j = Some b" "i \<noteq> j"
  shows "slice_bytes a \<inter> slice_bytes b = {}"
proof (rule ccontr)
  assume "\<not> ?thesis"
  then obtain x where x: "x \<in> slice_bytes a" "x \<in> slice_bytes b" by blast
  note sl = slice_bytes_region [OF slab_ok_alloc [OF assms(1)]]
  have "covers x (alloc_region a)" "covers x (alloc_region b)"
    using x sl [OF assms(2)] sl [OF assms(3)] by blast+
  then have "2 \<le> cover (map (alloc_region \<circ> snd) (ks_allocations ks)) x"
    using cover_two [OF assms(2,3,4)] by blast
  moreover have "cover (map alloc_region (live ks) @ ks_free_regions ks) x \<le> 1"
    using assms(1) by (simp only: slab_ok_def space_ok_def)
  ultimately show False by simp
qed

lemma live_slices_inside:
  assumes "slab_ok ks" "map_of (ks_allocations ks) i = Some a"
  shows "slice_bytes a \<subseteq> {..<unat (ks_capacity_bytes ks)}"
proof
  fix x assume "x \<in> slice_bytes a"
  moreover have a: "alloc_ok (ks_used_bytes ks) a" by (rule slab_ok_alloc [OF assms])
  moreover have "unat (ks_used_bytes ks) \<le> unat (ks_capacity_bytes ks)"
    using assms(1) by (simp add: slab_ok_def space_ok_def word_le_nat_alt)
  ultimately show "x \<in> {..<unat (ks_capacity_bytes ks)}"
    using slice_bytes_region [OF a, of x] alloc_region_end(2) [OF a] by (auto simp: covers_def)
qed

text \<open>What no call changes: the capacity and the limit of the quota manager.\<close>

definition fixed_part :: "kv_slab \<Rightarrow> u64 \<times> u64 option option" where
  "fixed_part ks = (ks_capacity_bytes ks, map_option kq_quota_bytes (ks_quota_manager ks))"

lemma quota_ops_limit [simp]:
  "kq_quota_bytes (snd (kv_reserve now wall n kq)) = kq_quota_bytes kq"
  "kq_quota_bytes (snd (kv_finalize r kq)) = kq_quota_bytes kq"
  "kq_quota_bytes (kv_rollback r kq) = kq_quota_bytes kq"
  "kq_quota_bytes (kv_release n kq) = kq_quota_bytes kq"
  by (simp_all add: kv_reserve_def kv_finalize_def kv_rollback_def kv_release_def forget_reservation_def
      cleanup_expired_fields Let_def split: sum.split)

lemma fixed_free: "fixed_part (snd (slab_free i s)) = fixed_part s"
  by (simp add: slab_free_def fixed_part_def Let_def comp_def option.map_comp split: option.split)

lemma fixed_release: "fixed_part (release_allocation_quota s) = fixed_part s"
  by (simp add: release_allocation_quota_def fixed_part_def Let_def split: option.split)

lemma fixed_clear:
  assumes "ks_capacity_bytes s' = ks_capacity_bytes s"
    "ks_quota_manager s' = ks_quota_manager (release_allocation_quota s)"
  shows "fixed_part s' = fixed_part s"
  using assms fixed_release [of s] by (simp add: fixed_part_def)

lemma fixed_reset: "fixed_part (reset_all s) = fixed_part s"
  by (rule fixed_clear) simp_all

lemma fixed_zeroize: "fixed_part (slab_zeroize s) = fixed_part s"
  by (rule fixed_clear)
    (simp_all add: slab_zeroize_def release_allocation_quota_def Let_def split: option.split)

lemma fixed_zeroize_all: "fixed_part (zeroize_all s) = fixed_part s"
  by (rule fixed_clear) (simp_all add: zeroize_all_def Let_def)

lemma fixed_install: "fixed_part (snd (install_sequence r n s)) = fixed_part s"
proof -
  obtain a s2 where p: "place_slices n (s\<lparr>ks_next_seq_id := ks_next_seq_id s + 1\<rparr>) = (a, s2)" by fastforce
  then have "fixed_part s2 = fixed_part s"
    by (auto simp: place_slices_def fixed_part_def Let_def split: prod.splits option.splits)
  then show ?thesis
    by (auto simp: install_sequence_def finalize_quota_def p fixed_part_def Let_def kv_finalize_def
        forget_reservation_def split: option.split)
qed

lemma fixed_reserve: "reserve_quota now wall n s = (r, s') \<Longrightarrow> fixed_part s' = fixed_part s"
proof (cases "ks_quota_manager s")
  case (Some kq)
  assume "reserve_quota now wall n s = (r, s')"
  then have "s' = s\<lparr>ks_quota_manager := Some (snd (kv_reserve now wall n kq))\<rparr>"
    using Some by (auto simp: reserve_quota_def split: prod.splits sum.splits)
  then show ?thesis using Some by (simp add: fixed_part_def)
qed (simp add: reserve_quota_def)

lemma fixed_allocate: "fixed_part (snd (slab_allocate now wall l s)) = fixed_part s"
proof -
  let ?n = "of_nat (round_len l) * ks_bytes_per_token s"
  obtain r s' where rq: "reserve_quota now wall (?n * 2) s = (r, s')" by fastforce
  have "fixed_part (rollback_quota rv s') = fixed_part s'" for rv
    by (auto simp: rollback_quota_def fixed_part_def split: option.split)
  then show ?thesis using fixed_reserve [OF rq] rq
    by (auto simp: slab_allocate_def Let_def fixed_install split: sum.split)
qed

lemma fixed_call: "fixed_part (apply_call c ks) = fixed_part ks"
proof -
  have g: "fixed_part (s\<lparr>ks_active_guards := x\<rparr>) = fixed_part s"
    "fixed_part (s\<lparr>ks_stack_generation := y\<rparr>) = fixed_part s"
    "fixed_part (s\<lparr>ks_k_buffer := k, ks_v_buffer := v\<rparr>) = fixed_part s" for s x y k v
    by (simp_all add: fixed_part_def)
  have fold: "fixed_part (fold (\<lambda>i s. snd (slab_free i s)) is s) = fixed_part s" for "is" s
    by (induction "is" arbitrary: s) (simp_all add: fixed_free)
  have coh: "fixed_part (snd (ensure_cache_coherence x s)) = fixed_part s" for x s
    by (simp add: ensure_cache_coherence_def fixed_reset g)
  show ?thesis
  proof (cases c)
    case (CallAllocateWithGuard now wall l x)
    have "fixed_part (snd (slab_allocate now wall l (snd (ensure_cache_coherence x ks)))) = fixed_part ks"
      by (simp add: fixed_allocate coh)
    then show ?thesis using CallAllocateWithGuard
      by (auto simp: allocate_with_guard_state Let_def g split: prod.split sum.split)
  next
    case (CallZeroizeSequence i)
    then show ?thesis using zeroize_sequence_state [of i ks] by (auto simp: fixed_free g)
  qed (simp_all add: fixed_allocate fixed_free fold coh g fixed_zeroize fixed_zeroize_all fixed_reset
      drain_active_sequences_def set_generation_def Let_def)
qed

lemma fixed_calls: "fixed_part (fold apply_call calls ks) = fixed_part ks"
  by (induction calls arbitrary: ks) (simp_all add: fixed_call)

lemma calls_capacity: "ks_capacity_bytes (fold apply_call calls ks) = ks_capacity_bytes ks"
  using fixed_calls [of calls ks] by (simp add: fixed_part_def)

text \<open>
  (C28) The KV cache of the worker never gives two live sequences the same memory: after any
  sequence of calls (allocations with or without a guard, frees, drains, resets, zeroizations,
  generation changes), the K and V slices of two sequences have no byte in common and lie
  inside the capacity, whether they were placed in reused regions or at the end. The capacity
  stays \<open>2^34\<close> below the range of \<open>u64\<close>, where the size computations cannot wrap.
\<close>

theorem kv_slices_disjoint:
  assumes "unat cap < 2 ^ 64 - 2 ^ 34" "\<forall>t. q \<noteq> Some (t, Some (- 1))" "length calls < 2 ^ 64 - 1"
    and "ks = fold apply_call calls (fresh_slab cap q)"
    and "map_of (ks_allocations ks) i = Some a" "map_of (ks_allocations ks) j = Some b" "i \<noteq> j"
  shows "slice_bytes a \<inter> slice_bytes b = {} \<and> slice_bytes a \<subseteq> {..<unat cap}"
proof -
  have ok: "slab_ok ks" unfolding assms(4) by (rule reachable_slab_ok [OF assms(1-3)])
  have "ks_capacity_bytes ks = cap"
    by (simp add: assms(4) calls_capacity fresh_slab_def slab_new_with_quota_def)
  then show ?thesis
    using live_slices_disjoint [OF ok assms(5-7)] live_slices_inside [OF ok assms(5)] by simp
qed

text \<open>
  (C29) The tenant's quota counts exactly the live sequences: after any sequence of calls the
  used bytes of the quota manager are the bytes of the allocated slices, nothing stays
  reserved, and the quota is not exceeded. Reservation, roll-back on a full cache, release on
  free and the bulk release before a reset fit together.
\<close>

theorem kv_quota_exact:
  assumes "unat cap < 2 ^ 64 - 2 ^ 34" "b \<noteq> - 1" "length calls < 2 ^ 64 - 1"
    and "ks = fold apply_call calls (fresh_slab cap (Some (tenant, Some b)))"
  shows "\<exists>kq. ks_quota_manager ks = Some kq \<and> unat (kq_used_bytes kq) = live_bytes (live ks) \<and>
    kq_reserved_bytes kq = 0 \<and> live_bytes (live ks) \<le> unat b"
proof -
  have "fixed_part ks = fixed_part (fresh_slab cap (Some (tenant, Some b)))"
    unfolding assms(4) by (rule fixed_calls)
  then obtain kq where kq: "ks_quota_manager ks = Some kq" "kq_quota_bytes kq = Some b"
    by (auto simp: fixed_part_def fresh_slab_def slab_new_with_quota_def kv_quota_new_def)
  have "slab_ok ks" unfolding assms(4) by (rule reachable_slab_ok) (use assms in auto)
  then have "quota_ok kq" "kq_reservations kq = []" "unat (kq_used_bytes kq) = live_bytes (live ks)"
    using kq(1) by (simp_all add: slab_ok_def quota_follows_def)
  then show ?thesis using kq by (auto simp: quota_ok_def reserved_total_def unat_eq_0)
qed

subsection \<open>Generations\<close>

definition guards_current :: "kv_slab \<Rightarrow> bool" where
  "guards_current ks \<longleftrightarrow> \<not> has_active_sequences_with_generation (ks_stack_generation ks) ks"

lemma guards_current_iff: "guards_current ks \<longleftrightarrow> snd ` set (ks_active_guards ks) \<subseteq> {ks_stack_generation ks}"
  by (auto simp: guards_current_def has_active_sequences_with_generation_def list_ex_iff)

lemma set_am_remove_subset: "snd ` set (am_remove k m) \<subseteq> snd ` set m"
  by (auto simp: am_remove_def)

lemma allocate_guards:
  "ks_active_guards (snd (slab_allocate now wall l ks)) = ks_active_guards ks \<and>
   ks_stack_generation (snd (slab_allocate now wall l ks)) = ks_stack_generation ks"
proof -
  let ?n = "of_nat (round_len l) * ks_bytes_per_token ks"
  obtain r s' where rq: "reserve_quota now wall (?n * 2) ks = (r, s')" by fastforce
  then have s': "ks_active_guards s' = ks_active_guards ks" "ks_stack_generation s' = ks_stack_generation ks"
    by (auto simp: reserve_quota_def split: option.splits prod.splits sum.splits)
  obtain a s2 where p: "place_slices ?n (s'\<lparr>ks_next_seq_id := ks_next_seq_id s' + 1\<rparr>) = (a, s2)" by fastforce
  then have "ks_active_guards s2 = ks_active_guards s'" "ks_stack_generation s2 = ks_stack_generation s'"
    by (auto simp: place_slices_def Let_def split: prod.splits option.splits)
  then have "ks_active_guards (snd (install_sequence rv ?n s')) = ks_active_guards s' \<and>
      ks_stack_generation (snd (install_sequence rv ?n s')) = ks_stack_generation s'" for rv
    by (auto simp: install_sequence_def p finalize_quota_def kv_finalize_def Let_def split: option.split)
  then show ?thesis using rq s'
    by (auto simp: slab_allocate_def Let_def rollback_quota_def split: sum.split option.split)
qed

lemma call_guards_current:
  assumes "guards_current ks" "\<forall>g. c \<noteq> CallSetGeneration g"
  shows "guards_current (apply_call c ks)"
proof -
  have free: "guards_current (snd (slab_free i s))" if "guards_current s" for i s
    using that set_am_remove_subset [of i "ks_active_guards s"] by (auto simp: guards_current_iff)
  have coh: "guards_current (snd (ensure_cache_coherence g ks))" for g
    using assms(1) by (simp add: ensure_cache_coherence_def guards_current_iff)
  show ?thesis
  proof (cases c)
    case (CallAllocate now wall l)
    then show ?thesis using assms(1) allocate_guards [of now wall l ks] by (simp add: guards_current_iff)
  next
    case (CallAllocateWithGuard now wall l g)
    let ?s = "snd (ensure_cache_coherence g ks)"
    obtain r s' where al: "slab_allocate now wall l ?s = (r, s')" by fastforce
    then have s': "ks_active_guards s' = ks_active_guards ?s" "ks_stack_generation s' = g"
      using allocate_guards [of now wall l ?s] coherence_next(2) [of g ks] by simp_all
    moreover have g: "snd ` set (ks_active_guards ?s) \<subseteq> {g}"
      using coh [of g] coherence_next(2) [of g ks] by (simp add: guards_current_iff)
    moreover have "snd ` set (am_insert i g (ks_active_guards ?s)) \<subseteq> {g}" for i
      using g by (auto simp: am_insert_def am_remove_def)
    ultimately show ?thesis
      using CallAllocateWithGuard al
      by (auto simp: allocate_with_guard_state guards_current_iff split: sum.split)
  next
    case (CallZeroizeSequence i)
    have "guards_current (ks\<lparr>ks_k_buffer := k, ks_v_buffer := v\<rparr>)" for k v
      using assms(1) by (simp add: guards_current_iff)
    then show ?thesis using zeroize_sequence_state [of i ks] assms(1) CallZeroizeSequence
      by (auto intro!: free)
  next
    case CallZeroize
    then show ?thesis using assms(1)
      by (simp add: guards_current_iff slab_zeroize_def Let_def split: option.split)
  qed (use assms free coh in \<open>simp_all add: guards_current_iff drain_active_sequences_def
      zeroize_all_def Let_def\<close>)
qed

text \<open>
  No guarded sequence outlives its adapter stack: as long as the generation only moves
  through the coherence check, every guard that the cache tracks carries the current
  generation, since the check drops all sequences and guards of the former one.
\<close>

theorem guards_follow_generation:
  assumes "\<forall>g. CallSetGeneration g \<notin> set calls"
  shows "\<not> has_active_sequences_with_generation
      (ks_stack_generation (fold apply_call calls (fresh_slab cap q)))
      (fold apply_call calls (fresh_slab cap q))"
proof -
  have "guards_current (fold apply_call calls ks)" if "guards_current ks" for ks
    using that assms
  proof (induction calls arbitrary: ks)
    case (Cons c calls)
    then have "guards_current (apply_call c ks)" by (intro call_guards_current) auto
    with Cons show ?case by simp
  qed simp
  moreover have "guards_current (fresh_slab cap q)"
    by (simp add: guards_current_iff fresh_slab_def slab_new_with_quota_def)
  ultimately show ?thesis by (simp only: guards_current_def)
qed

subsection \<open>Two defects\<close>

text \<open>
  A reset starts the sequence ids again at 1, and \<open>free\<close> takes an id only: a request that
  still holds the guard of its sequence when the adapters change then frees the sequence of
  the next request, which has received the same id under the new generation.
\<close>

theorem stale_guard_frees_new_sequence:
  assumes "allocate_with_guard t1 w1 l1 g1 (fresh_slab cap q) = (Ok old, ks1)"
    and "allocate_with_guard t2 w2 l2 g2 ks1 = (Ok new, ks2)"
    and "g1 \<noteq> g2" "unat cap < 2 ^ 64 - 2 ^ 34" "\<forall>t. q \<noteq> Some (t, Some (- 1))"
  shows "sg_sequence_id old = sg_sequence_id new \<and> is_allocated (sg_sequence_id new) ks2 \<and>
    \<not> is_allocated (sg_sequence_id new) (snd (slab_free (sg_sequence_id old) ks2))"
proof -
  have guarded: "sg_sequence_id gd = ks_next_seq_id (snd (ensure_cache_coherence g s)) \<and>
      map_of (ks_allocations s') (sg_sequence_id gd) \<noteq> None \<and> ks_stack_generation s' = g \<and> slab_ok s'"
    if al: "allocate_with_guard t w l g s = (Ok gd, s')" and s: "slab_ok s"
      and nx: "ks_next_seq_id (snd (ensure_cache_coherence g s)) = 1" for t w l g s gd s'
  proof -
    let ?s = "snd (ensure_cache_coherence g s)"
    have nx': "ks_next_seq_id ?s \<noteq> - 1" using nx by simp
    obtain r s1 where sa: "slab_allocate t w l ?s = (r, s1)" by fastforce
    then obtain i where r: "r = Ok i" and gd: "gd = sequence_guard_new i g"
      and s': "s' = s1\<lparr>ks_active_guards := am_insert i g (ks_active_guards s1)\<rparr>"
      using al by (auto simp: allocate_with_guard_def split: sum.splits)
    show ?thesis
      using r coherence_next(2) [of g s]
      by (cases rule: slab_allocate_cases [OF coherence_ok [OF s, of g] nx' sa])
        (auto simp: gd s' sequence_guard_new_def lookup_am_insert)
  qed
  have f: "slab_ok (fresh_slab cap q)" by (rule fresh_slab_ok [OF assms(4,5)])
  have n1: "ks_next_seq_id (snd (ensure_cache_coherence g1 (fresh_slab cap q))) = 1"
    by (simp add: ensure_cache_coherence_def fresh_slab_def slab_new_with_quota_def)
  note A = guarded [OF assms(1) f n1]
  then have n2: "ks_next_seq_id (snd (ensure_cache_coherence g2 ks1)) = 1"
    using assms(3) by (simp add: ensure_cache_coherence_def)
  have ok1: "slab_ok ks1" using A by blast
  note B = guarded [OF assms(2) ok1 n2]
  show ?thesis using A B n1 n2 by (auto simp: is_allocated_def hash_map.lookup_remove)
qed

text \<open>
  Freed memory is lost to a cache that has been full: \<open>used_bytes\<close> is the high-water mark,
  which no \<open>free\<close> lowers, and the capacity check adds the request to it before the free regions
  are searched. In a cache with room for one sequence but not for two, the second allocation
  of the same length fails although the first sequence was freed and nothing is allocated.
\<close>

theorem freed_space_is_lost:
  assumes "2 * (round_len l * 8192) \<le> unat cap" "unat cap < 4 * (round_len l * 8192)"
  shows "let (r1, ks1) = slab_allocate t1 w1 l (slab_new cap);
             (r2, ks2) = slab_free 1 ks1;
             (r3, ks3) = slab_allocate t2 w2 l ks2
         in r1 = Ok 1 \<and> r2 = Ok () \<and> active_sequences ks2 = 0 \<and>
            (\<exists>msg. r3 = Err (EMemoryPressure msg))"
proof -
  let ?n = "of_nat (round_len l) * 8192 :: u64"
  have rb: "round_len l \<le> 2 ^ 20" by (rule round_len_bound)
  have u: "unat (of_nat (round_len l) :: u64) = round_len l"
    using rb by (simp add: unsigned_of_nat take_bit_nat_eq_self)
  have n: "unat ?n = round_len l * 8192" using rb by (simp add: unat_word_ariths u)
  have n2: "unat (?n * 2) = 2 * (round_len l * 8192)" using rb by (simp add: unat_word_ariths u)
  have n4: "unat (?n * 2 + ?n * 2) = 4 * (round_len l * 8192)" using rb by (simp add: unat_word_ariths u)
  have fits: "\<not> 2 ^ 64 \<le> unat (of_nat (round_len l) :: u64) * unat (8192 :: u64)"
    using rb by (simp add: u)
  let ?a = "\<lparr>ka_k_offset = 0, ka_k_size = ?n, ka_v_offset = ?n, ka_v_size = ?n\<rparr>"
  have le: "\<not> ?n * 2 > cap" using assms(1) n2 by (simp add: word_less_nat_alt)
  have gt: "?n * 2 + ?n * 2 > cap" using assms(2) n4 by (simp add: word_less_nat_alt)
  have pos: "?n + ?n > 0"
  proof -
    have "0 < round_len l" by (auto simp: round_len_def Let_def)
    then have "0 < unat (?n * 2)" using n2 by simp
    then show ?thesis by (simp add: word_less_nat_alt mult.commute)
  qed
  define ks1 where "ks1 = (slab_new cap)\<lparr>ks_next_seq_id := 2, ks_allocations := [(1, ?a)], ks_used_bytes := ?n + ?n\<rparr>"
  have s1: "slab_allocate t1 w1 l (slab_new cap) = (Ok 1, ks1)"
    using fits le pos
    by (simp add: slab_allocate_def slab_new_def slab_new_with_quota_def reserve_quota_def install_sequence_def
        place_slices_def finalize_quota_def am_insert_def am_remove_def ks1_def Let_def)
  obtain r2 ks2 where s2: "slab_free 1 ks1 = (r2, ks2)" by fastforce
  then have k2: "r2 = Ok ()" "ks_allocations ks2 = []" "ks_used_bytes ks2 = ?n + ?n"
    "ks_quota_manager ks2 = None" "ks_bytes_per_token ks2 = 8192" "ks_capacity_bytes ks2 = cap"
    by (auto simp: slab_free_def ks1_def Let_def am_remove_def slab_new_def slab_new_with_quota_def)
  have "?n + ?n + ?n * 2 > cap" using gt by (simp add: mult.commute)
  then have "\<exists>msg. fst (slab_allocate t2 w2 l ks2) = Err (EMemoryPressure msg)"
    using fits k2 by (simp add: slab_allocate_def reserve_quota_def Let_def)
  then show ?thesis using s1 s2 k2 by (auto simp: active_sequences_def split: prod.split)
qed

section \<open>Witnesses\<close>

text \<open>Four megabytes hold two short sequences.\<close>

definition two_calls :: "slab_call list" where
  "two_calls = [CallAllocate 0 2 10, CallAllocateWithGuard 1 3 20 0]"

lemmas slab_eval = slab_allocate_def fresh_slab_def slab_new_def slab_new_with_quota_def reserve_quota_def
  install_sequence_def place_slices_def finalize_quota_def am_insert_def am_remove_def Let_def
  round_len_def allocate_with_guard_def ensure_cache_coherence_def sequence_guard_new_def
  kv_reserve_def cleanup_expired_def check_quota_def sat_add64_def kv_finalize_def forget_reservation_def
  kv_reservation_new_def kv_quota_new_def

lemma two_calls_state:
  "ks_allocations (fold apply_call two_calls (fresh_slab 4194304 (Some (''t'', Some 4194304)))) =
     [(1, \<lparr>ka_k_offset = 0, ka_k_size = 1048576, ka_v_offset = 1048576, ka_v_size = 1048576\<rparr>),
      (2, \<lparr>ka_k_offset = 2097152, ka_k_size = 1048576, ka_v_offset = 3145728, ka_v_size = 1048576\<rparr>)]"
  by (simp add: two_calls_def slab_eval)

theorem kv_slices_disjoint_witness:
  "\<exists>a b. map_of (ks_allocations (fold apply_call two_calls (fresh_slab 4194304 (Some (''t'', Some 4194304))))) 1 = Some a \<and>
     map_of (ks_allocations (fold apply_call two_calls (fresh_slab 4194304 (Some (''t'', Some 4194304))))) 2 = Some b \<and>
     slice_bytes a \<inter> slice_bytes b = {} \<and> slice_bytes a \<subseteq> {..<4194304}"
  using kv_slices_disjoint [OF _ _ _ refl, of 4194304 "Some (''t'', Some 4194304)" two_calls 1 _ 2]
  by (simp add: two_calls_state) (simp add: two_calls_def)

theorem kv_quota_exact_witness:
  "\<exists>kq. ks_quota_manager (fold apply_call two_calls (fresh_slab 4194304 (Some (''t'', Some 4194304)))) = Some kq \<and>
     unat (kq_used_bytes kq) = 4194304 \<and> kq_reserved_bytes kq = 0"
  using kv_quota_exact [OF _ _ _ refl, of 4194304 4194304 two_calls "''t''"]
  by (simp add: two_calls_state live_bytes_def) (simp add: two_calls_def)

theorem guards_follow_generation_witness:
  "\<not> has_active_sequences_with_generation
      (ks_stack_generation (fold apply_call two_calls (fresh_slab 4194304 None)))
      (fold apply_call two_calls (fresh_slab 4194304 None))"
  using guards_follow_generation [of two_calls 4194304 None] by (simp add: two_calls_def)

theorem stale_guard_frees_new_sequence_witness:
  "let (r1, ks1) = allocate_with_guard 0 1 10 1 (fresh_slab 4194304 None);
       (r2, ks2) = allocate_with_guard 2 3 10 2 ks1 in
   r1 = Ok \<lparr>sg_sequence_id = 1, sg_generation = 1, sg_active = True\<rparr> \<and>
   r2 = Ok \<lparr>sg_sequence_id = 1, sg_generation = 2, sg_active = True\<rparr> \<and>
   is_allocated 1 ks2 \<and> \<not> is_allocated 1 (snd (slab_free 1 ks2))"
proof -
  obtain r1 ks1 where a: "allocate_with_guard 0 1 10 1 (fresh_slab 4194304 None) = (r1, ks1)" by fastforce
  obtain r2 ks2 where b: "allocate_with_guard 2 3 10 2 ks1 = (r2, ks2)" by fastforce
  have r1: "r1 = Ok \<lparr>sg_sequence_id = 1, sg_generation = 1, sg_active = True\<rparr>"
    and ks1: "ks_quota_manager ks1 = None" "ks_stack_generation ks1 = 1" "ks_capacity_bytes ks1 = 4194304"
      "ks_bytes_per_token ks1 = 8192" "ks_k_buffer ks1 = None"
    using a by (auto simp: slab_eval reset_all_def release_allocation_quota_def)
  have r2: "r2 = Ok \<lparr>sg_sequence_id = 1, sg_generation = 2, sg_active = True\<rparr>"
    using b ks1 by (auto simp: slab_eval reset_all_def release_allocation_quota_def)
  from stale_guard_frees_new_sequence [OF a [unfolded r1] b [unfolded r2]] show ?thesis
    using a b r1 r2 by simp
qed

theorem freed_space_is_lost_witness:
  "let (r1, ks1) = slab_allocate 0 1 10 (slab_new 4000000);
       (r2, ks2) = slab_free 1 ks1;
       (r3, ks3) = slab_allocate 2 3 10 ks2
   in r1 = Ok 1 \<and> r2 = Ok () \<and> active_sequences ks2 = 0 \<and> (\<exists>msg. r3 = Err (EMemoryPressure msg))"
  by (rule freed_space_is_lost) (simp_all add: round_len_def)

section \<open>Zeroizing one sequence\<close>

lemma zero_slice_nth:
  "off + sz \<le> length bs \<Longrightarrow> x < length bs \<Longrightarrow>
   zero_slice off sz bs ! x = (if off \<le> x \<and> x < off + sz then 0 else bs ! x)"
  by (auto simp: zero_slice_def nth_append)

lemma slab_free_found:
  assumes "map_of (ks_allocations ks) i = Some a"
  shows "fst (slab_free i ks) = Ok ()" "ks_k_buffer (snd (slab_free i ks)) = ks_k_buffer ks"
    "ks_v_buffer (snd (slab_free i ks)) = ks_v_buffer ks"
  using assms by (simp_all add: slab_free_def Let_def)

text \<open>
  Zeroizing a sequence clears its own bytes and no others: in a cache whose invariant
  holds and whose two buffers have the size of the capacity, the call succeeds, the K slice and
  the V slice of the sequence are zero, the sequence is gone, and every other live sequence
  keeps its allocation and all its bytes.
\<close>

theorem zeroize_sequence_exact:
  assumes "slab_ok ks" "ks_k_buffer ks = Some k" "ks_v_buffer ks = Some v"
    and "length k = unat (ks_capacity_bytes ks)" "length v = unat (ks_capacity_bytes ks)"
    and "map_of (ks_allocations ks) i = Some a"
  shows "\<exists>k' v' ks'. zeroize_sequence i ks = (Ok (), ks') \<and> ks_k_buffer ks' = Some k' \<and>
    ks_v_buffer ks' = Some v' \<and> \<not> is_allocated i ks' \<and>
    (\<forall>x. unat (ka_k_offset a) \<le> x \<and> x < unat (ka_k_offset a) + unat (ka_k_size a) \<longrightarrow> k' ! x = 0) \<and>
    (\<forall>x. unat (ka_v_offset a) \<le> x \<and> x < unat (ka_v_offset a) + unat (ka_v_size a) \<longrightarrow> v' ! x = 0) \<and>
    (\<forall>j b x. j \<noteq> i \<and> map_of (ks_allocations ks) j = Some b \<and> x \<in> slice_bytes b \<longrightarrow>
       map_of (ks_allocations ks') j = Some b \<and> k' ! x = k ! x \<and> v' ! x = v ! x)"
proof -
  let ?ko = "unat (ka_k_offset a)" and ?kn = "unat (ka_k_size a)"
  let ?vo = "unat (ka_v_offset a)" and ?vn = "unat (ka_v_size a)"
  have a: "alloc_ok (ks_used_bytes ks) a" by (rule slab_ok_alloc [OF assms(1,6)])
  have used: "unat (ks_used_bytes ks) \<le> unat (ks_capacity_bytes ks)"
    using assms(1) by (simp add: slab_ok_def space_ok_def word_le_nat_alt)
  have vo: "?vo = ?ko + ?kn"
    using a unat_lt64 [of "ks_used_bytes ks"] by (auto simp: alloc_ok_def intro: unat_add_bounded)
  have b: "?ko + ?kn + ?vn \<le> unat (ks_capacity_bytes ks)" using a used by (simp add: alloc_ok_def)
  let ?k = "zero_slice ?ko ?kn k" and ?v = "zero_slice ?vo ?vn v"
  have z: "zeroize_slices a k v = Ok (?k, ?v)"
    using b vo assms(4) unat_lt64 [of "ks_capacity_bytes ks"] by (simp add: zeroize_slices_def Let_def)
  let ?s = "ks\<lparr>ks_k_buffer := Some ?k, ks_v_buffer := Some ?v\<rparr>"
  have zs: "zeroize_sequence i ks = slab_free i ?s"
    using assms(2,3,6) z by (simp add: zeroize_sequence_def)
  have f: "map_of (ks_allocations ?s) i = Some a" using assms(6) by simp
  have other: "map_of (ks_allocations (snd (slab_free i ?s))) j = Some c \<and> ?k ! x = k ! x \<and> ?v ! x = v ! x"
    if j: "j \<noteq> i" "map_of (ks_allocations ks) j = Some c" "x \<in> slice_bytes c" for j c x
  proof -
    have "x \<notin> slice_bytes a" using live_slices_disjoint [OF assms(1,6) j(2)] j(1,3) by blast
    moreover have "x < length k" "x < length v"
      using live_slices_inside [OF assms(1) j(2)] j(3) assms(4,5) by auto
    ultimately show ?thesis
      using b vo assms(4,5) j(1,2)
      by (auto simp: slice_bytes_def zero_slice_nth hash_map.lookup_remove)
  qed
  show ?thesis
    by (rule exI [of _ ?k], rule exI [of _ ?v], rule exI [of _ "snd (slab_free i ?s)"])
      (use other slab_free_found [OF f] b vo assms(4,5) in
        \<open>auto simp: zs is_allocated_def hash_map.lookup_remove zero_slice_nth prod_eq_iff\<close>)
qed

definition metal_slab :: kv_slab where
  "metal_slab = \<lparr>ks_k_buffer = Some [1, 2, 3, 4], ks_v_buffer = Some [5, 6, 7, 8],
     ks_capacity_bytes = 4, ks_used_bytes = 4,
     ks_allocations = [(1, \<lparr>ka_k_offset = 0, ka_k_size = 1, ka_v_offset = 1, ka_v_size = 1\<rparr>),
                       (2, \<lparr>ka_k_offset = 2, ka_k_size = 1, ka_v_offset = 3, ka_v_size = 1\<rparr>)],
     ks_next_seq_id = 3, ks_bytes_per_token = 1, ks_free_regions = [], ks_stack_generation = 0,
     ks_active_guards = [], ks_quota_manager = None\<rparr>"

theorem zeroize_sequence_exact_witness:
  "\<exists>ks' k' v'. zeroize_sequence 1 metal_slab = (Ok (), ks') \<and> ks_k_buffer ks' = Some k' \<and>
     ks_v_buffer ks' = Some v' \<and> k' ! 0 = 0 \<and> v' ! 1 = 0 \<and> k' ! 2 = 3 \<and> v' ! 3 = 8"
proof -
  have ok: "slab_ok metal_slab"
    by (simp add: slab_ok_def metal_slab_def am_ok_def space_ok_def tail_ok_def alloc_ok_def
        quota_follows_def alloc_region_def covers_def region_end_def)
  let ?a = "\<lparr>ka_k_offset = 0, ka_k_size = 1, ka_v_offset = 1, ka_v_size = 1\<rparr>"
  let ?b = "\<lparr>ka_k_offset = 2, ka_k_size = 1, ka_v_offset = 3, ka_v_size = 1\<rparr>"
  have pre: "ks_k_buffer metal_slab = Some [1, 2, 3, 4]" "ks_v_buffer metal_slab = Some [5, 6, 7, 8]"
    "length [1, 2, 3, 4 :: u8] = unat (ks_capacity_bytes metal_slab)"
    "length [5, 6, 7, 8 :: u8] = unat (ks_capacity_bytes metal_slab)"
    "map_of (ks_allocations metal_slab) 1 = Some ?a"
    by (simp_all add: metal_slab_def)
  have b: "map_of (ks_allocations metal_slab) 2 = Some ?b" "2 \<in> slice_bytes ?b" "3 \<in> slice_bytes ?b"
    by (simp_all add: metal_slab_def slice_bytes_def)
  obtain k' v' ks' where z: "zeroize_sequence 1 metal_slab = (Ok (), ks')" "ks_k_buffer ks' = Some k'"
    "ks_v_buffer ks' = Some v'"
    "\<forall>x. unat (ka_k_offset ?a) \<le> x \<and> x < unat (ka_k_offset ?a) + unat (ka_k_size ?a) \<longrightarrow> k' ! x = 0"
    "\<forall>x. unat (ka_v_offset ?a) \<le> x \<and> x < unat (ka_v_offset ?a) + unat (ka_v_size ?a) \<longrightarrow> v' ! x = 0"
    "\<forall>j b x. j \<noteq> 1 \<and> map_of (ks_allocations metal_slab) j = Some b \<and> x \<in> slice_bytes b \<longrightarrow>
       map_of (ks_allocations ks') j = Some b \<and> k' ! x = [1, 2, 3, 4] ! x \<and> v' ! x = [5, 6, 7, 8] ! x"
    using zeroize_sequence_exact [OF ok pre] by blast
  have "k' ! 0 = 0" "v' ! 1 = 0" using z(4,5) by simp_all
  moreover have "k' ! 2 = 3" "v' ! 3 = 8"
    using z(6) [rule_format, of 2 ?b 2] z(6) [rule_format, of 2 ?b 3] b by simp_all
  ultimately show ?thesis using z(1-3) by blast
qed

end
