(* ===== verification/PrefixKvCache.thy ===== *)
theory PrefixKvCache
  imports AssocMap ByteCode Floats "HOL-Library.Product_Lexorder" "HOL-Library.Multiset"
begin

text \<open>
  The prefix cache of the worker (\<open>crates/adapteros-lora-worker/src/prefix_kv_cache.rs\<close>) and
  its keys (\<open>crates/adapteros-core/src/prefix_kv_key.rs\<close>): tensors of prompt prefixes, kept in
  an ordered map by key, found by key or by the longest common prefix, and evicted by logical
  ticks. The entries of the map are shared with the callers: their tick and their reference
  count are atomics inside the entry, so an update through a handle is an update of the entry
  in the map. Each call is one step; the load that the single flight hands out is run by its
  leader.
\<close>

section \<open>Keys\<close>

definition encode_prefix_tokens :: "u32 list \<Rightarrow> bytes" where
  "encode_prefix_tokens tokens =
     le_bytes 4 (of_nat (length tokens) :: u32) @ concat (map (le_bytes 4) tokens)"

definition compute_prefix_kv_key :: "hash_fn \<Rightarrow> b3hash \<Rightarrow> u32 list \<Rightarrow> b3hash \<Rightarrow> bytes \<Rightarrow> b3hash" where
  "compute_prefix_kv_key H context_digest tokens tokenizer identity =
     H (context_digest @ encode_prefix_tokens tokens @ tokenizer @ identity)"

definition compute_tokenizer_manifest_hash :: "hash_fn \<Rightarrow> b3hash \<Rightarrow> b3hash \<Rightarrow> b3hash" where
  "compute_tokenizer_manifest_hash H tokenizer cfg = H (tokenizer @ cfg)"

record key_builder =
  kb_context_digest :: "b3hash option"
  kb_prefix_token_ids :: "u32 list option"
  kb_tokenizer_manifest_hash :: "b3hash option"
  kb_model_cache_identity_bytes :: "bytes option"

definition key_builder_new :: key_builder where
  "key_builder_new =
     \<lparr>kb_context_digest = None, kb_prefix_token_ids = None, kb_tokenizer_manifest_hash = None,
      kb_model_cache_identity_bytes = None\<rparr>"

definition kb_with_context_digest :: "b3hash \<Rightarrow> key_builder \<Rightarrow> key_builder" where
  "kb_with_context_digest d kb = kb\<lparr>kb_context_digest := Some d\<rparr>"

definition kb_with_prefix_tokens :: "u32 list \<Rightarrow> key_builder \<Rightarrow> key_builder" where
  "kb_with_prefix_tokens ts kb = kb\<lparr>kb_prefix_token_ids := Some ts\<rparr>"

definition kb_with_tokenizer_manifest_hash :: "b3hash \<Rightarrow> key_builder \<Rightarrow> key_builder" where
  "kb_with_tokenizer_manifest_hash h kb = kb\<lparr>kb_tokenizer_manifest_hash := Some h\<rparr>"

definition kb_with_tokenizer_hashes :: "hash_fn \<Rightarrow> b3hash \<Rightarrow> b3hash \<Rightarrow> key_builder \<Rightarrow> key_builder" where
  "kb_with_tokenizer_hashes H tokenizer cfg kb =
     kb\<lparr>kb_tokenizer_manifest_hash := Some (compute_tokenizer_manifest_hash H tokenizer cfg)\<rparr>"

definition kb_with_model_cache_identity_bytes :: "bytes \<Rightarrow> key_builder \<Rightarrow> key_builder" where
  "kb_with_model_cache_identity_bytes bs kb = kb\<lparr>kb_model_cache_identity_bytes := Some bs\<rparr>"

definition kb_build :: "hash_fn \<Rightarrow> key_builder \<Rightarrow> (aos_error, b3hash) result" where
  "kb_build H kb =
     (case kb_context_digest kb of
        None \<Rightarrow> Err (EValidation ''context_digest is required for prefix KV key'')
      | Some context_digest \<Rightarrow>
          (case kb_prefix_token_ids kb of
             None \<Rightarrow> Err (EValidation ''prefix_token_ids is required for prefix KV key'')
           | Some tokens \<Rightarrow>
               (case kb_tokenizer_manifest_hash kb of
                  None \<Rightarrow> Err (EValidation ''tokenizer_manifest_hash is required for prefix KV key'')
                | Some tokenizer \<Rightarrow>
                    (case kb_model_cache_identity_bytes kb of
                       None \<Rightarrow>
                         Err (EValidation ''model_cache_identity_bytes is required for prefix KV key'')
                     | Some identity \<Rightarrow>
                         Ok (compute_prefix_kv_key H context_digest tokens tokenizer identity)))))"

definition kb_try_build :: "hash_fn \<Rightarrow> key_builder \<Rightarrow> b3hash option" where
  "kb_try_build H kb =
     Option.bind (kb_context_digest kb) (\<lambda>context_digest.
     Option.bind (kb_prefix_token_ids kb) (\<lambda>tokens.
     Option.bind (kb_tokenizer_manifest_hash kb) (\<lambda>tokenizer.
     Option.bind (kb_model_cache_identity_bytes kb) (\<lambda>identity.
       Some (compute_prefix_kv_key H context_digest tokens tokenizer identity)))))"

section \<open>Entries\<close>

record prefix_kv_entry =
  pk_keys :: "f32b list list"
  pk_values :: "f32b list list"
  pk_tenant_id :: string
  pk_prefix_cached_token_count :: u32
  pk_kv_bytes :: u64
  pk_created_tick :: u64
  pk_last_access_tick :: u64
  pk_active_refcount :: u32
  pk_prefix_tokens :: "u32 list"
  pk_context_digest :: b3hash
  pk_tokenizer_hash :: b3hash
  pk_model_identity_hash :: b3hash
  pk_payload_integrity_hash :: b3hash

definition compute_kv_bytes :: "f32b list list \<Rightarrow> f32b list list \<Rightarrow> u64" where
  "compute_kv_bytes ks vs =
     of_nat (sum_list (map (\<lambda>k. length k * 4) ks) + sum_list (map (\<lambda>v. length v * 4) vs))"

text \<open>\<open>to_ne_bytes\<close> on the little-endian targets.\<close>

definition layer_bytes :: "f32b list list \<Rightarrow> bytes" where
  "layer_bytes layers = concat (map (\<lambda>layer. concat (map (le_bytes 4) layer)) layers)"

definition compute_payload_hash :: "hash_fn \<Rightarrow> f32b list list \<Rightarrow> f32b list list \<Rightarrow> b3hash" where
  "compute_payload_hash H ks vs = H (layer_bytes ks @ layer_bytes vs)"

definition entry_new_with_tick ::
  "hash_fn \<Rightarrow> f32b list list \<Rightarrow> f32b list list \<Rightarrow> string \<Rightarrow> u32 \<Rightarrow> u64 \<Rightarrow> prefix_kv_entry" where
  "entry_new_with_tick H ks vs tenant token_count tick =
     \<lparr>pk_keys = ks, pk_values = vs, pk_tenant_id = tenant, pk_prefix_cached_token_count = token_count,
      pk_kv_bytes = compute_kv_bytes ks vs, pk_created_tick = tick, pk_last_access_tick = tick,
      pk_active_refcount = 0, pk_prefix_tokens = [], pk_context_digest = b3_zero,
      pk_tokenizer_hash = b3_zero, pk_model_identity_hash = b3_zero,
      pk_payload_integrity_hash = compute_payload_hash H ks vs\<rparr>"

definition entry_new ::
  "hash_fn \<Rightarrow> f32b list list \<Rightarrow> f32b list list \<Rightarrow> string \<Rightarrow> u32 \<Rightarrow> prefix_kv_entry" where
  "entry_new H ks vs tenant token_count = entry_new_with_tick H ks vs tenant token_count 0"

definition entry_new_with_tokens_and_tick ::
  "hash_fn \<Rightarrow> f32b list list \<Rightarrow> f32b list list \<Rightarrow> string \<Rightarrow> u32 list \<Rightarrow> b3hash \<Rightarrow> b3hash \<Rightarrow> b3hash \<Rightarrow> u64 \<Rightarrow>
   prefix_kv_entry" where
  "entry_new_with_tokens_and_tick H ks vs tenant tokens context_digest tokenizer model tick =
     \<lparr>pk_keys = ks, pk_values = vs, pk_tenant_id = tenant,
      pk_prefix_cached_token_count = of_nat (length tokens),
      pk_kv_bytes = compute_kv_bytes ks vs, pk_created_tick = tick, pk_last_access_tick = tick,
      pk_active_refcount = 0, pk_prefix_tokens = tokens, pk_context_digest = context_digest,
      pk_tokenizer_hash = tokenizer, pk_model_identity_hash = model,
      pk_payload_integrity_hash = compute_payload_hash H ks vs\<rparr>"

definition entry_new_with_tokens ::
  "hash_fn \<Rightarrow> f32b list list \<Rightarrow> f32b list list \<Rightarrow> string \<Rightarrow> u32 list \<Rightarrow> b3hash \<Rightarrow> b3hash \<Rightarrow> b3hash \<Rightarrow>
   prefix_kv_entry" where
  "entry_new_with_tokens H ks vs tenant tokens context_digest tokenizer model =
     entry_new_with_tokens_and_tick H ks vs tenant tokens context_digest tokenizer model 0"

definition supports_prefix_matching :: "prefix_kv_entry \<Rightarrow> bool" where
  "supports_prefix_matching e \<longleftrightarrow> pk_prefix_tokens e \<noteq> []"

definition compute_prefix_match_length ::
  "prefix_kv_entry \<Rightarrow> u32 list \<Rightarrow> b3hash \<Rightarrow> b3hash \<Rightarrow> b3hash \<Rightarrow> u32" where
  "compute_prefix_match_length e input context_digest tokenizer model =
     (if \<not> supports_prefix_matching e then 0
      else if pk_context_digest e \<noteq> context_digest \<or> pk_tokenizer_hash e \<noteq> tokenizer
           \<or> pk_model_identity_hash e \<noteq> model then 0
      else of_nat (length (takeWhile (\<lambda>(a, b). a = b) (zip (pk_prefix_tokens e) input))))"

definition verify_integrity :: "hash_fn \<Rightarrow> prefix_kv_entry \<Rightarrow> bool" where
  "verify_integrity H e \<longleftrightarrow>
     compute_payload_hash H (pk_keys e) (pk_values e) = pk_payload_integrity_hash e"

definition record_access :: "u64 \<Rightarrow> prefix_kv_entry \<Rightarrow> prefix_kv_entry" where
  "record_access tick e = e\<lparr>pk_last_access_tick := tick\<rparr>"

definition entry_acquire :: "prefix_kv_entry \<Rightarrow> u32 \<times> prefix_kv_entry" where
  "entry_acquire e = (pk_active_refcount e + 1, e\<lparr>pk_active_refcount := pk_active_refcount e + 1\<rparr>)"

definition entry_release :: "prefix_kv_entry \<Rightarrow> u32 \<times> prefix_kv_entry" where
  "entry_release e = (pk_active_refcount e - 1, e\<lparr>pk_active_refcount := pk_active_refcount e - 1\<rparr>)"

definition is_in_use :: "prefix_kv_entry \<Rightarrow> bool" where
  "is_in_use e \<longleftrightarrow> pk_active_refcount e > 0"

section \<open>The cache\<close>

record prefix_kv_cache_stats =
  px_hits :: u64
  px_misses :: u64
  px_evictions :: u64
  px_entry_count :: u64
  px_used_bytes :: u64
  px_max_bytes :: u64
  px_in_flight_builds :: u64
  px_integrity_failures :: u64

record prefix_kv_cache =
  pc_entries :: "(b3hash \<times> prefix_kv_entry) list"
  pc_max_bytes :: u64
  pc_used_bytes :: u64
  pc_current_tick :: u64
  pc_stats :: prefix_kv_cache_stats

definition prefix_cache_new :: "u64 \<Rightarrow> prefix_kv_cache" where
  "prefix_cache_new max_bytes =
     \<lparr>pc_entries = [], pc_max_bytes = max_bytes, pc_used_bytes = 0, pc_current_tick = 0,
      pc_stats = \<lparr>px_hits = 0, px_misses = 0, px_evictions = 0, px_entry_count = 0, px_used_bytes = 0,
                  px_max_bytes = max_bytes, px_in_flight_builds = 0, px_integrity_failures = 0\<rparr>\<rparr>"

definition advance_tick :: "prefix_kv_cache \<Rightarrow> u64 \<times> prefix_kv_cache" where
  "advance_tick c = (pc_current_tick c + 1, c\<lparr>pc_current_tick := pc_current_tick c + 1\<rparr>)"

definition set_tick :: "u64 \<Rightarrow> prefix_kv_cache \<Rightarrow> prefix_kv_cache" where
  "set_tick tick c = c\<lparr>pc_current_tick := tick\<rparr>"

definition count_hit :: "prefix_kv_cache \<Rightarrow> prefix_kv_cache" where
  "count_hit c = c\<lparr>pc_stats := (pc_stats c)\<lparr>px_hits := px_hits (pc_stats c) + 1\<rparr>\<rparr>"

definition count_miss :: "prefix_kv_cache \<Rightarrow> prefix_kv_cache" where
  "count_miss c = c\<lparr>pc_stats := (pc_stats c)\<lparr>px_misses := px_misses (pc_stats c) + 1\<rparr>\<rparr>"

definition count_integrity_failures :: "nat \<Rightarrow> prefix_kv_cache \<Rightarrow> prefix_kv_cache" where
  "count_integrity_failures n c =
     c\<lparr>pc_stats := (pc_stats c)\<lparr>px_integrity_failures := px_integrity_failures (pc_stats c) + of_nat n\<rparr>\<rparr>"

text \<open>A hit on an entry: the next tick is stored in the entry.\<close>

definition touch_entry :: "b3hash \<Rightarrow> prefix_kv_cache \<Rightarrow> prefix_kv_cache" where
  "touch_entry k c =
     (case advance_tick c of
        (tick, c1) \<Rightarrow> count_hit (c1\<lparr>pc_entries := am_update (record_access tick) k (pc_entries c1)\<rparr>))"

definition prefix_get :: "hash_fn \<Rightarrow> b3hash \<Rightarrow> prefix_kv_cache \<Rightarrow> prefix_kv_entry option \<times> prefix_kv_cache" where
  "prefix_get H k c =
     (case map_of (pc_entries c) k of
        Some e \<Rightarrow>
          if \<not> verify_integrity H e then (None, count_miss (count_integrity_failures 1 c))
          else (Some (record_access (pc_current_tick c + 1) e), touch_entry k c)
      | None \<Rightarrow> (None, count_miss c))"

record prefix_match =
  pm_entry :: prefix_kv_entry
  pm_cache_key :: b3hash
  pm_matched_token_count :: u32
  pm_remaining_tokens :: u32

definition is_better :: "b3hash \<Rightarrow> u32 \<Rightarrow> (b3hash \<times> prefix_kv_entry \<times> u32) option \<Rightarrow> bool" where
  "is_better k match_len best =
     (case best of
        Some (best_key, _, best_len) \<Rightarrow> match_len > best_len \<or> match_len = best_len \<and> k < best_key
      | None \<Rightarrow> True)"

fun scan_entries ::
  "hash_fn \<Rightarrow> (prefix_kv_entry \<Rightarrow> u32) \<Rightarrow> u32 \<Rightarrow> (b3hash \<times> prefix_kv_entry) list \<Rightarrow>
   (b3hash \<times> prefix_kv_entry \<times> u32) option \<Rightarrow> b3hash list \<Rightarrow>
   (b3hash \<times> prefix_kv_entry \<times> u32) option \<times> b3hash list" where
  "scan_entries H match_length min_match [] best corrupted = (best, corrupted)"
| "scan_entries H match_length min_match ((k, e) # rest) best corrupted =
     (if \<not> supports_prefix_matching e then scan_entries H match_length min_match rest best corrupted
      else if \<not> verify_integrity H e then
        scan_entries H match_length min_match rest best (corrupted @ [k])
      else
        (let match_len = match_length e in
         scan_entries H match_length min_match rest
           (if match_len \<ge> min_match \<and> is_better k match_len best then Some (k, e, match_len) else best)
           corrupted))"

definition find_longest_prefix_match ::
  "hash_fn \<Rightarrow> u32 list \<Rightarrow> b3hash \<Rightarrow> b3hash \<Rightarrow> b3hash \<Rightarrow> u32 \<Rightarrow> prefix_kv_cache \<Rightarrow>
   prefix_match option \<times> prefix_kv_cache" where
  "find_longest_prefix_match H input context_digest tokenizer model min_match c =
     (if input = [] then (None, c)
      else
        (let (best, corrupted) = scan_entries H
               (\<lambda>e. compute_prefix_match_length e input context_digest tokenizer model)
               min_match (pc_entries c) None [];
             c1 = (if corrupted \<noteq> [] then count_integrity_failures (length corrupted) c else c) in
         case best of
           Some (k, e, matched) \<Rightarrow>
             (Some \<lparr>pm_entry = record_access (pc_current_tick c + 1) e, pm_cache_key = k,
                    pm_matched_token_count = matched,
                    pm_remaining_tokens = of_nat (length input) - matched\<rparr>,
              touch_entry k c1)
         | None \<Rightarrow> (None, count_miss c1)))"

datatype prefix_match_result = ExactMatch prefix_kv_entry | PrefixMatch prefix_match

definition get_or_find_prefix ::
  "hash_fn \<Rightarrow> b3hash \<Rightarrow> u32 list \<Rightarrow> b3hash \<Rightarrow> b3hash \<Rightarrow> b3hash \<Rightarrow> prefix_kv_cache \<Rightarrow>
   prefix_match_result option \<times> prefix_kv_cache" where
  "get_or_find_prefix H exact_key input context_digest tokenizer model c =
     (case prefix_get H exact_key c of
        (Some e, c1) \<Rightarrow> (Some (ExactMatch e), c1)
      | (None, c1) \<Rightarrow>
          (case find_longest_prefix_match H input context_digest tokenizer model 1 c1 of
             (Some pm, c2) \<Rightarrow> (Some (PrefixMatch pm), c2)
           | (None, c2) \<Rightarrow> (None, c2)))"

section \<open>Eviction and insertion\<close>

definition eviction_order :: "b3hash \<times> u64 \<times> u64 \<Rightarrow> u64 \<times> b3hash" where
  "eviction_order cand = (case cand of (k, tick, _) \<Rightarrow> (tick, k))"

definition eviction_candidates :: "prefix_kv_cache \<Rightarrow> (b3hash \<times> u64 \<times> u64) list" where
  "eviction_candidates c =
     sort_key eviction_order
       (map (\<lambda>(k, e). (k, pk_last_access_tick e, pk_kv_bytes e))
         (filter (\<lambda>(_, e). \<not> is_in_use e) (pc_entries c)))"

fun select_victims :: "u64 \<Rightarrow> (b3hash \<times> u64 \<times> u64) list \<Rightarrow> u64 \<Rightarrow> b3hash list \<times> u64" where
  "select_victims to_free [] freed = ([], freed)"
| "select_victims to_free ((k, _, n) # cands) freed =
     (if freed + n \<ge> to_free then ([k], freed + n)
      else (case select_victims to_free cands (freed + n) of (ks, f) \<Rightarrow> (k # ks, f)))"

definition dec_entry_count :: "prefix_kv_cache_stats \<Rightarrow> prefix_kv_cache_stats" where
  "dec_entry_count px =
     px\<lparr>px_entry_count := (if px_entry_count px = 0 then 0 else px_entry_count px - 1)\<rparr>"

definition evict_key :: "b3hash \<Rightarrow> prefix_kv_cache \<Rightarrow> prefix_kv_cache" where
  "evict_key k c =
     (case map_of (pc_entries c) k of
        Some e \<Rightarrow>
          c\<lparr>pc_entries := am_remove k (pc_entries c),
            pc_used_bytes := pc_used_bytes c - pk_kv_bytes e,
            pc_stats := dec_entry_count ((pc_stats c)\<lparr>px_evictions := px_evictions (pc_stats c) + 1\<rparr>)\<rparr>
      | None \<Rightarrow> c)"

definition sync_used_bytes :: "prefix_kv_cache \<Rightarrow> prefix_kv_cache" where
  "sync_used_bytes c = c\<lparr>pc_stats := (pc_stats c)\<lparr>px_used_bytes := pc_used_bytes c\<rparr>\<rparr>"

definition evict_until_fits :: "u64 \<Rightarrow> prefix_kv_cache \<Rightarrow> (aos_error, unit) result \<times> prefix_kv_cache" where
  "evict_until_fits needed c =
     (let available = (if pc_used_bytes c \<le> pc_max_bytes c then pc_max_bytes c - pc_used_bytes c else 0) in
      if available \<ge> needed then (Ok (), c)
      else
        (let to_free = needed - available;
             (victims, freed) = select_victims to_free (eviction_candidates c) 0 in
         if freed < to_free then
           (Err (EMemoryPressure (''Cannot evict enough prefix KV entries: need '' @ show_nat (unat to_free) @
             '' bytes, can free '' @ show_nat (unat freed) @ '' bytes'')), c)
         else (Ok (), sync_used_bytes (fold evict_key victims c))))"

definition prefix_insert ::
  "b3hash \<Rightarrow> prefix_kv_entry \<Rightarrow> prefix_kv_cache \<Rightarrow> (aos_error, prefix_kv_entry) result \<times> prefix_kv_cache" where
  "prefix_insert k e c =
     (if pk_kv_bytes e > pc_max_bytes c then
        (Err (EValidation (''Prefix KV entry ('' @ show_nat (unat (pk_kv_bytes e)) @
          '' bytes) exceeds max budget ('' @ show_nat (unat (pc_max_bytes c)) @ '' bytes)'')), c)
      else
        (case evict_until_fits (pk_kv_bytes e) c of
           (Err err, c1) \<Rightarrow> (Err err, c1)
         | (Ok _, c1) \<Rightarrow>
             (let c2 = c1\<lparr>pc_entries := bt_insert k e (pc_entries c1),
                          pc_used_bytes := pc_used_bytes c1 + pk_kv_bytes e\<rparr> in
              (Ok e, sync_used_bytes
                (c2\<lparr>pc_stats := (pc_stats c2)\<lparr>px_entry_count := px_entry_count (pc_stats c2) + 1\<rparr>\<rparr>)))))"

text \<open>The builder is a value that is only used when it is called.\<close>

definition build_and_cache_entry ::
  "b3hash \<Rightarrow> (aos_error, prefix_kv_entry) result \<Rightarrow> prefix_kv_cache \<Rightarrow>
   (string, prefix_kv_entry) result \<times> prefix_kv_cache" where
  "build_and_cache_entry k built c =
     (case map_of (pc_entries c) k of
        Some e \<Rightarrow> (Ok (record_access (pc_current_tick c + 1) e), touch_entry k c)
      | None \<Rightarrow>
          (case built of
             Err err \<Rightarrow> (Err (aos_error_display err), c)
           | Ok e \<Rightarrow>
               (case prefix_insert k e c of
                  (Err err, c1) \<Rightarrow> (Err (aos_error_display err), c1)
                | (Ok e', c1) \<Rightarrow> (Ok e', c1))))"

definition get_or_build ::
  "hash_fn \<Rightarrow> b3hash \<Rightarrow> (aos_error, prefix_kv_entry) result \<Rightarrow> prefix_kv_cache \<Rightarrow>
   (aos_error, prefix_kv_entry) result \<times> prefix_kv_cache" where
  "get_or_build H k built c =
     (case prefix_get H k c of
        (Some e, c1) \<Rightarrow> (Ok e, c1)
      | (None, c1) \<Rightarrow>
          (case build_and_cache_entry k built c1 of
             (Err m, c2) \<Rightarrow> (Err (ELifecycle m), c2)
           | (Ok e, c2) \<Rightarrow> (Ok e, c2)))"

definition prefix_remove :: "b3hash \<Rightarrow> prefix_kv_cache \<Rightarrow> prefix_kv_entry option \<times> prefix_kv_cache" where
  "prefix_remove k c =
     (case map_of (pc_entries c) k of
        Some e \<Rightarrow>
          (Some e, sync_used_bytes
            (c\<lparr>pc_entries := am_remove k (pc_entries c),
               pc_used_bytes := pc_used_bytes c - pk_kv_bytes e,
               pc_stats := dec_entry_count (pc_stats c)\<rparr>))
      | None \<Rightarrow> (None, c))"

definition prefix_clear :: "prefix_kv_cache \<Rightarrow> prefix_kv_cache" where
  "prefix_clear c =
     c\<lparr>pc_entries := [], pc_used_bytes := 0, pc_current_tick := 0,
       pc_stats := (pc_stats c)\<lparr>px_entry_count := 0, px_used_bytes := 0\<rparr>\<rparr>"

definition prefix_stats :: "nat \<Rightarrow> prefix_kv_cache \<Rightarrow> prefix_kv_cache_stats" where
  "prefix_stats pending_loads c = (pc_stats c)\<lparr>px_in_flight_builds := of_nat pending_loads\<rparr>"

definition prefix_len :: "prefix_kv_cache \<Rightarrow> nat" where
  "prefix_len c = length (pc_entries c)"

definition prefix_is_empty :: "prefix_kv_cache \<Rightarrow> bool" where
  "prefix_is_empty c \<longleftrightarrow> pc_entries c = []"

text \<open>Calls on the handle of an entry that is in the map.\<close>

definition acquire_key :: "b3hash \<Rightarrow> prefix_kv_cache \<Rightarrow> prefix_kv_cache" where
  "acquire_key k c = c\<lparr>pc_entries := am_update (\<lambda>e. snd (entry_acquire e)) k (pc_entries c)\<rparr>"

definition release_key :: "b3hash \<Rightarrow> prefix_kv_cache \<Rightarrow> prefix_kv_cache" where
  "release_key k c = c\<lparr>pc_entries := am_update (\<lambda>e. snd (entry_release e)) k (pc_entries c)\<rparr>"

section \<open>Match results\<close>

definition is_full_match :: "prefix_match \<Rightarrow> bool" where
  "is_full_match pm \<longleftrightarrow> pm_remaining_tokens pm = 0"

definition reusable_kv_layers :: "prefix_match \<Rightarrow> nat" where
  "reusable_kv_layers pm = length (pk_keys (pm_entry pm))"

definition attributed_tokens :: "prefix_match \<Rightarrow> u32 \<Rightarrow> u32" where
  "attributed_tokens pm total_input =
     (if pm_matched_token_count pm \<le> total_input then total_input - pm_matched_token_count pm else 0)"

definition result_entry :: "prefix_match_result \<Rightarrow> prefix_kv_entry" where
  "result_entry r = (case r of ExactMatch e \<Rightarrow> e | PrefixMatch pm \<Rightarrow> pm_entry pm)"

definition result_matched_token_count :: "prefix_match_result \<Rightarrow> u32" where
  "result_matched_token_count r =
     (case r of ExactMatch e \<Rightarrow> pk_prefix_cached_token_count e | PrefixMatch pm \<Rightarrow> pm_matched_token_count pm)"

definition result_is_exact :: "prefix_match_result \<Rightarrow> bool" where
  "result_is_exact r = (case r of ExactMatch _ \<Rightarrow> True | PrefixMatch _ \<Rightarrow> False)"

definition result_is_partial :: "prefix_match_result \<Rightarrow> bool" where
  "result_is_partial r = (case r of ExactMatch _ \<Rightarrow> False | PrefixMatch _ \<Rightarrow> True)"

end
