(* ===== verification/PrefixKvCorrect.thy ===== *)
theory PrefixKvCorrect
  imports PrefixKvCache "HOL-Library.Sublist"
begin

text \<open>
  What the prefix cache promises: the bytes it holds stay within the budget for every sequence
  of calls, the counters are exact as long as no entry is replaced, eviction follows the age of
  idle entries, and a match is the longest one and sound.
\<close>

section \<open>Sizes\<close>

definition am_weight :: "('v \<Rightarrow> nat) \<Rightarrow> ('k \<times> 'v) list \<Rightarrow> nat" where
  "am_weight f m = sum_list (map (\<lambda>e. f (snd e)) m)"

lemma am_weight_simps [cache_simps]:
  "am_weight f [] = 0" "am_weight f (e # m) = f (snd e) + am_weight f m"
  by (simp_all add: am_weight_def)

lemma am_weight_insert_le: "am_weight f (bt_insert k v m) \<le> am_weight f m + f v"
  by (induction m) (auto simp: cache_simps)

lemma am_weight_insert_new:
  "map_of m k = None \<Longrightarrow> am_weight f (bt_insert k v m) = am_weight f m + f v"
  by (induction m) (auto simp: cache_simps split: if_splits)

lemma length_insert_new: "map_of m k = None \<Longrightarrow> length (bt_insert k v m) = Suc (length m)"
  by (induction m) (auto split: if_splits)

lemma bt_ok_am_ok: "bt_ok m \<Longrightarrow> am_ok m"
  by (simp add: bt_ok_def am_ok_def strict_sorted_iff)

lemma am_weight_remove:
  "am_ok m \<Longrightarrow> map_of m k = Some v \<Longrightarrow> am_weight f (am_remove k m) + f v = am_weight f m"
proof (induction m)
  case (Cons e m)
  then show ?case
    by (cases "fst e = k") (auto simp: am_ok_def am_remove_def cache_simps am_remove_absent [unfolded am_remove_def])
qed simp

lemma length_remove:
  "am_ok m \<Longrightarrow> map_of m k = Some v \<Longrightarrow> Suc (length (am_remove k m)) = length m"
proof (induction m)
  case (Cons e m)
  then show ?case
    by (cases "fst e = k") (auto simp: am_ok_def am_remove_def am_remove_absent [unfolded am_remove_def])
qed simp

lemma am_weight_update: "(\<And>v. f (g v) = f v) \<Longrightarrow> am_weight f (am_update g k m) = am_weight f m"
  by (induction m) (auto simp: am_update_def cache_simps)

lemma bt_ok_update: "bt_ok (am_update g k m) \<longleftrightarrow> bt_ok m"
  by (simp add: bt_ok_def am_keys_update)

section \<open>The invariant\<close>

definition entry_size :: "prefix_kv_entry \<Rightarrow> nat" where
  "entry_size e = unat (pk_kv_bytes e)"

definition bytes_held :: "prefix_kv_cache \<Rightarrow> nat" where
  "bytes_held c = am_weight entry_size (pc_entries c)"

text \<open>The byte counter is what the entries hold and a surplus for replaced entries.\<close>

definition prefix_ok :: "nat \<Rightarrow> prefix_kv_cache \<Rightarrow> bool" where
  "prefix_ok lost c \<longleftrightarrow>
     bt_ok (pc_entries c) \<and> unat (pc_used_bytes c) = bytes_held c + lost \<and> pc_used_bytes c \<le> pc_max_bytes c"

definition counts_ok :: "prefix_kv_cache \<Rightarrow> bool" where
  "counts_ok c \<longleftrightarrow>
     unat (px_entry_count (pc_stats c)) = length (pc_entries c) \<and>
     px_used_bytes (pc_stats c) = pc_used_bytes c"

lemma entry_held: "am_ok m \<Longrightarrow> map_of m k = Some e \<Longrightarrow> f e \<le> am_weight f m"
  using am_weight_remove [of m k e f] by simp

lemma entry_size_simps [cache_simps]:
  "entry_size (record_access t e) = entry_size e"
  "entry_size (snd (entry_acquire e)) = entry_size e" "entry_size (snd (entry_release e)) = entry_size e"
  by (simp_all add: entry_size_def record_access_def entry_acquire_def entry_release_def)

lemma remaining_counter:
  assumes "prefix_ok lost c" "map_of (pc_entries c) k = Some e"
  shows "unat (pc_used_bytes c - pk_kv_bytes e) = am_weight entry_size (am_remove k (pc_entries c)) + lost"
    and "pc_used_bytes c - pk_kv_bytes e \<le> pc_max_bytes c"
proof -
  have "am_weight entry_size (am_remove k (pc_entries c)) + entry_size e = bytes_held c"
    using assms am_weight_remove bt_ok_am_ok by (fastforce simp: prefix_ok_def bytes_held_def)
  moreover from this have le: "pk_kv_bytes e \<le> pc_used_bytes c"
    using assms(1) by (simp add: prefix_ok_def entry_size_def word_le_nat_alt)
  ultimately show "unat (pc_used_bytes c - pk_kv_bytes e) = am_weight entry_size (am_remove k (pc_entries c)) + lost"
    using assms(1) by (simp add: prefix_ok_def entry_size_def unat_sub)
  show "pc_used_bytes c - pk_kv_bytes e \<le> pc_max_bytes c"
    using assms(1) unat_sub [OF le] by (auto simp: prefix_ok_def word_le_nat_alt)
qed

lemma evict_key_ok: "prefix_ok lost c \<Longrightarrow> prefix_ok lost (evict_key k c)"
  using remaining_counter [of lost c k]
  by (auto simp: evict_key_def prefix_ok_def bytes_held_def bt_remove_ok split: option.split)

lemma dec_entry_count_fields [simp]:
  "px_used_bytes (dec_entry_count px) = px_used_bytes px"
  "unat (px_entry_count (dec_entry_count px)) = unat (px_entry_count px) - 1"
proof -
  have "unat (px_entry_count px - 1) = unat (px_entry_count px) - 1" if "px_entry_count px \<noteq> 0"
    using that by (simp add: unat_minus_one)
  then show "unat (px_entry_count (dec_entry_count px)) = unat (px_entry_count px) - 1"
    by (simp add: dec_entry_count_def)
qed (simp add: dec_entry_count_def)

lemma fold_evict_key_ok: "prefix_ok lost c \<Longrightarrow> prefix_ok lost (fold evict_key ks c)"
  by (induction ks arbitrary: c) (simp_all add: evict_key_ok)

lemma evict_key_max [simp]: "pc_max_bytes (evict_key k c) = pc_max_bytes c"
  by (simp add: evict_key_def split: option.split)

lemma fold_evict_key_max [simp]: "pc_max_bytes (fold evict_key ks c) = pc_max_bytes c"
  by (induction ks arbitrary: c) simp_all

lemma sync_used_bytes_fields [simp]:
  "pc_entries (sync_used_bytes c) = pc_entries c" "pc_max_bytes (sync_used_bytes c) = pc_max_bytes c"
  "pc_used_bytes (sync_used_bytes c) = pc_used_bytes c" "prefix_ok lost (sync_used_bytes c) = prefix_ok lost c"
  "px_entry_count (pc_stats (sync_used_bytes c)) = px_entry_count (pc_stats c)"
  "px_used_bytes (pc_stats (sync_used_bytes c)) = pc_used_bytes c"
  by (simp_all add: sync_used_bytes_def prefix_ok_def bytes_held_def)

section \<open>Eviction\<close>

definition cand_size :: "b3hash \<times> u64 \<times> u64 \<Rightarrow> nat" where
  "cand_size cand = unat (snd (snd cand))"

lemma cand_size_simp [simp]: "cand_size (k, t, n) = unat n"
  by (simp add: cand_size_def)

lemma select_victims_spec:
  assumes "unat freed + sum_list (map cand_size cands) < 2 ^ 64"
    and "select_victims to_free cands freed = (ks, f)"
  shows "\<exists>vs rest. cands = vs @ rest \<and> ks = map fst vs \<and>
    unat f = unat freed + sum_list (map cand_size vs) \<and>
    (f < to_free \<longrightarrow> rest = []) \<and>
    (freed < to_free \<longrightarrow> vs \<noteq> [] \<longrightarrow> unat freed + sum_list (map cand_size (butlast vs)) < unat to_free)"
  using assms
proof (induction to_free cands freed arbitrary: ks rule: select_victims.induct)
  case (2 to_free k t n cands freed)
  have step: "unat (freed + n) = unat freed + unat n"
    using "2.prems"(1) by (simp add: unat_word_ariths)
  show ?case
  proof (cases "freed + n \<ge> to_free")
    case True
    with "2.prems" step show ?thesis
      by (rule_tac exI [of _ "[(k, t, n)]"], rule_tac exI [of _ cands])
        (auto simp: word_less_nat_alt word_le_nat_alt)
  next
    case False
    obtain ks' where rec: "select_victims to_free cands (freed + n) = (ks', f)" "ks = k # ks'"
      using "2.prems"(2) False by (auto split: prod.splits)
    have "unat (freed + n) + sum_list (map cand_size cands) < 2 ^ 64"
      using "2.prems"(1) step by simp
    from "2.IH" [OF False this rec(1)] obtain vs rest where
      IH: "cands = vs @ rest" "ks' = map fst vs" "unat f = unat (freed + n) + sum_list (map cand_size vs)"
        "f < to_free \<longrightarrow> rest = []"
        "vs \<noteq> [] \<longrightarrow> unat (freed + n) + sum_list (map cand_size (butlast vs)) < unat to_free"
      using False by auto
    with False step rec(2) show ?thesis
      by (rule_tac exI [of _ "(k, t, n) # vs"], rule_tac exI [of _ rest])
        (auto simp: word_less_nat_alt word_le_nat_alt)
  qed
qed auto

lemma evict_key_entries: "pc_entries (evict_key k c) = am_remove k (pc_entries c)"
  by (auto simp: evict_key_def am_remove_absent am_keys_def map_of_eq_None_iff split: option.split)

lemma fold_evict_entries:
  "pc_entries (fold evict_key ks c) = filter (\<lambda>e. fst e \<notin> set ks) (pc_entries c)"
proof (induction ks arbitrary: c)
  case (Cons k ks)
  then show ?case by (auto simp: evict_key_entries am_remove_def intro: filter_cong)
qed simp

definition idle :: "prefix_kv_cache \<Rightarrow> (b3hash \<times> prefix_kv_entry) list" where
  "idle c = filter (\<lambda>(_, e). \<not> is_in_use e) (pc_entries c)"

lemma sum_list_sort_key: "sum_list (map f (sort_key g xs)) = (sum_list (map f xs) :: nat)"
proof -
  have "sum_mset (image_mset f (mset (sort_key g xs))) = sum_mset (image_mset f (mset xs))" by simp
  then show ?thesis by (simp only: mset_map [symmetric] sum_mset_sum_list)
qed

lemma sum_candidates: "sum_list (map cand_size (eviction_candidates c)) = am_weight entry_size (idle c)"
  by (simp add: eviction_candidates_def sum_list_sort_key am_weight_def idle_def o_def entry_size_def
      case_prod_unfold)

lemma am_weight_filter_le: "am_weight f (filter P m) \<le> am_weight f m"
  by (induction m) (auto simp: cache_simps)

lemma set_eviction_candidates:
  "set (eviction_candidates c) = (\<lambda>(k, e). (k, pk_last_access_tick e, pk_kv_bytes e)) ` set (idle c)"
  by (simp add: eviction_candidates_def idle_def)

lemma distinct_candidates:
  assumes "bt_ok (pc_entries c)"
  shows "distinct (map fst (eviction_candidates c))"
proof -
  have "distinct (map fst (pc_entries c))" using assms btree_map.ok_distinct by blast
  then have "distinct (map fst (idle c))" unfolding idle_def by (rule distinct_map_filter)
  moreover have "mset (map fst (eviction_candidates c)) = mset (map fst (idle c))"
    by (simp add: eviction_candidates_def idle_def case_prod_unfold image_mset.compositionality o_def)
  ultimately show ?thesis by (metis mset_eq_imp_distinct_iff)
qed

lemma am_weight_without:
  assumes "am_ok m" "distinct (map fst vs)"
    and "\<And>k t n. (k, t, n) \<in> set vs \<Longrightarrow> \<exists>e. map_of m k = Some e \<and> pk_kv_bytes e = n"
  shows "am_weight entry_size (filter (\<lambda>e. fst e \<notin> set (map fst vs)) m) + sum_list (map cand_size vs) =
    am_weight entry_size m"
  using assms
proof (induction vs arbitrary: m)
  case (Cons v vs)
  obtain k t n where v: "v = (k, t, n)" by (cases v)
  obtain e where e: "map_of m k = Some e" "pk_kv_bytes e = n" using Cons.prems(3) [of k t n] v by auto
  have present: "\<exists>e. map_of (am_remove k m) k' = Some e \<and> pk_kv_bytes e = n'"
    if "(k', t', n') \<in> set vs" for k' t' n'
  proof -
    have "k' \<noteq> k" using that Cons.prems(2) v by force
    with Cons.prems(3) [of k' t' n'] that show ?thesis by (simp add: hash_map.lookup_remove)
  qed
  have "am_weight entry_size (filter (\<lambda>e. fst e \<notin> set (map fst vs)) (am_remove k m)) +
      sum_list (map cand_size vs) = am_weight entry_size (am_remove k m)"
    using Cons.prems(1,2) v present by (intro Cons.IH) (auto simp: hash_map.ok_remove)
  moreover have "filter (\<lambda>e. fst e \<notin> set (map fst vs)) (am_remove k m) =
      filter (\<lambda>e. fst e \<notin> set (map fst (v # vs))) m"
    using v by (auto simp: am_remove_def intro: filter_cong)
  ultimately show ?case
    using am_weight_remove [OF Cons.prems(1) e(1), of entry_size] v e(2) entry_size_def [of e] by simp
qed simp

text \<open>What a successful eviction did: the oldest idle entries are gone, and no more than needed.\<close>

definition evicted_oldest :: "nat \<Rightarrow> prefix_kv_cache \<Rightarrow> prefix_kv_cache \<Rightarrow> bool" where
  "evicted_oldest needed c c' \<longleftrightarrow>
     (\<exists>vs rest. eviction_candidates c = vs @ rest \<and>
        pc_entries c' = filter (\<lambda>e. fst e \<notin> set (map fst vs)) (pc_entries c) \<and>
        (vs \<noteq> [] \<longrightarrow> unat (pc_max_bytes c) + sum_list (map cand_size (butlast vs)) <
          unat (pc_used_bytes c) + needed))"

lemma evicted_oldestI:
  assumes "eviction_candidates c = vs @ rest"
    and "pc_entries c' = filter (\<lambda>e. fst e \<notin> set (map fst vs)) (pc_entries c)"
    and "vs \<noteq> [] \<Longrightarrow> unat (pc_max_bytes c) + sum_list (map cand_size (butlast vs)) <
      unat (pc_used_bytes c) + needed"
  shows "evicted_oldest needed c c'"
  using assms unfolding evicted_oldest_def by blast

lemma victim_entry:
  assumes "bt_ok (pc_entries c)" "eviction_candidates c = vs @ rest" "(k, t, n) \<in> set vs"
  shows "\<exists>e. map_of (pc_entries c) k = Some e \<and> pk_kv_bytes e = n \<and> pk_last_access_tick e = t \<and> \<not> is_in_use e"
proof -
  have "(k, t, n) \<in> set (eviction_candidates c)" using assms(2,3) by simp
  then show ?thesis
    using btree_map.entry_lookup [OF assms(1)] by (fastforce simp: set_eviction_candidates idle_def)
qed

lemma victims_bytes:
  assumes "prefix_ok lost c" "prefix_ok lost c'" "eviction_candidates c = vs @ rest"
    and "pc_entries c' = filter (\<lambda>e. fst e \<notin> set (map fst vs)) (pc_entries c)"
  shows "unat (pc_used_bytes c') + sum_list (map cand_size vs) = unat (pc_used_bytes c)"
proof -
  have ok: "bt_ok (pc_entries c)" using assms(1) by (simp add: prefix_ok_def)
  have "distinct (map fst vs)" using distinct_candidates [OF ok] assms(3) by simp
  then show ?thesis
    using am_weight_without [OF bt_ok_am_ok [OF ok], of vs] victim_entry [OF ok assms(3)] assms(1,2,4)
    by (fastforce simp: prefix_ok_def bytes_held_def)
qed

lemma evict_until_fits_spec:
  assumes ok: "prefix_ok lost c" and ev: "evict_until_fits needed c = (r, c')"
  shows "case r of
      Err _ \<Rightarrow> c' = c \<and> unat (pc_max_bytes c) + am_weight entry_size (idle c) <
        unat (pc_used_bytes c) + unat needed
    | Ok _ \<Rightarrow> prefix_ok lost c' \<and> pc_max_bytes c' = pc_max_bytes c \<and>
        unat (pc_used_bytes c') + unat needed \<le> unat (pc_max_bytes c) \<and> evicted_oldest (unat needed) c c'"
proof -
  define room where "room = pc_max_bytes c - pc_used_bytes c"
  have le: "pc_used_bytes c \<le> pc_max_bytes c" using ok by (simp add: prefix_ok_def)
  then have room: "unat room + unat (pc_used_bytes c) = unat (pc_max_bytes c)"
    by (simp add: room_def unat_sub word_le_nat_alt)
  show ?thesis
  proof (cases "needed \<le> room")
    case True
    then have "r = Ok ()" "c' = c" using ev le by (auto simp: evict_until_fits_def Let_def room_def)
    moreover have "evicted_oldest (unat needed) c c" by (auto simp: evicted_oldest_def intro: exI [of _ "[]"])
    ultimately show ?thesis using ok True room by (simp add: word_le_nat_alt)
  next
    case False
    obtain ks f where sel: "select_victims (needed - room) (eviction_candidates c) 0 = (ks, f)" by fastforce
    have need: "unat (needed - room) + unat room = unat needed"
      using False by (simp add: unat_sub word_le_nat_alt not_le)
    have "am_weight entry_size (idle c) \<le> bytes_held c"
      by (simp add: idle_def bytes_held_def am_weight_filter_le)
    then have "unat (0 :: u64) + sum_list (map cand_size (eviction_candidates c)) < 2 ^ 64"
      using ok unsigned_less [of "pc_used_bytes c", where 'a = nat] by (simp add: sum_candidates prefix_ok_def)
    from select_victims_spec [OF this sel] obtain vs rest where
      vs: "eviction_candidates c = vs @ rest" "ks = map fst vs" "unat f = sum_list (map cand_size vs)"
        "f < needed - room \<longrightarrow> rest = []"
        "0 < needed - room \<longrightarrow> vs \<noteq> [] \<longrightarrow> sum_list (map cand_size (butlast vs)) < unat (needed - room)"
      by auto
    show ?thesis
    proof (cases "f < needed - room")
      case True
      then have "is_ok r = False" "c' = c"
        using ev le False sel by (auto simp: evict_until_fits_def Let_def room_def [symmetric])
      moreover have "am_weight entry_size (idle c) = unat f"
        using vs True by (simp add: sum_candidates [symmetric])
      ultimately show ?thesis
        using True need room by (auto simp: word_less_nat_alt split: sum.split)
    next
      case enough: False
      then have r: "r = Ok ()" and c': "c' = sync_used_bytes (fold evict_key ks c)"
        using ev le False sel by (auto simp: evict_until_fits_def Let_def room_def [symmetric])
      have ok': "prefix_ok lost c'" using ok by (simp add: c' fold_evict_key_ok)
      have "unat (pc_used_bytes c') + unat f = unat (pc_used_bytes c)"
        using victims_bytes [OF ok ok' vs(1)] vs(2,3) by (simp add: c' fold_evict_entries)
      moreover have "unat (needed - room) \<le> unat f" using enough by (simp add: word_le_nat_alt not_less)
      ultimately have "unat (pc_used_bytes c') + unat needed \<le> unat (pc_max_bytes c)"
        using ok ok' need room by (simp add: prefix_ok_def)
      moreover have "evicted_oldest (unat needed) c c'"
        using vs False need room
        by (intro evicted_oldestI [of c vs rest]) (auto simp: c' fold_evict_entries word_less_nat_alt not_le)
      ultimately show ?thesis using r ok' by (simp add: c')
    qed
  qed
qed

lemma prefix_insert_cases:
  assumes "prefix_insert k e c = (r, c')" "prefix_ok lost c"
  obtains (refused) err where "r = Err err" "c' = c"
  | (inserted) c1 where "r = Ok e" "evict_until_fits (pk_kv_bytes e) c = (Ok (), c1)"
      "pc_entries c' = bt_insert k e (pc_entries c1)"
      "pc_used_bytes c' = pc_used_bytes c1 + pk_kv_bytes e" "pc_max_bytes c' = pc_max_bytes c1"
      "px_entry_count (pc_stats c') = px_entry_count (pc_stats c1) + 1"
      "px_used_bytes (pc_stats c') = pc_used_bytes c'"
proof -
  obtain r1 c1 where ev: "evict_until_fits (pk_kv_bytes e) c = (r1, c1)" by fastforce
  show thesis
  proof (cases "pk_kv_bytes e > pc_max_bytes c \<or> \<not> is_ok r1")
    case True
    then show thesis
      using refused assms(1) ev evict_until_fits_spec [OF assms(2) ev]
      by (auto simp: prefix_insert_def is_ok_iff split: if_splits sum.splits)
  next
    case False
    then have "r1 = Ok ()" by (simp add: is_ok_iff)
    then show thesis
      using inserted [of c1] assms(1) ev False by (auto simp: prefix_insert_def Let_def)
  qed
qed

lemma prefix_insert_ok:
  assumes "prefix_insert k e c = (r, c')" "prefix_ok lost c"
  shows "\<exists>lost'. prefix_ok lost' c' \<and> (map_of (pc_entries c) k = None \<longrightarrow> lost' = lost)"
  using assms
proof (cases rule: prefix_insert_cases)
  case (inserted c1)
  let ?held = "am_weight entry_size (bt_insert k e (pc_entries c1))"
  have c1: "prefix_ok lost c1" "pc_max_bytes c1 = pc_max_bytes c"
      "unat (pc_used_bytes c1) + entry_size e \<le> unat (pc_max_bytes c)"
      "evicted_oldest (unat (pk_kv_bytes e)) c c1"
    using evict_until_fits_spec [OF assms(2) inserted(2)] by (simp_all add: entry_size_def)
  have used: "unat (pc_used_bytes c') = unat (pc_used_bytes c1) + entry_size e"
    using c1(3) unsigned_less [of "pc_max_bytes c", where 'a = nat] inserted(4)
    by (simp add: entry_size_def unat_word_ariths)
  have "?held \<le> bytes_held c1 + entry_size e" unfolding bytes_held_def by (rule am_weight_insert_le)
  then have "prefix_ok (lost + (bytes_held c1 + entry_size e - ?held)) c'"
    using c1 inserted used bt_insert_ok [of "pc_entries c1" k e]
    by (simp add: prefix_ok_def bytes_held_def word_le_nat_alt)
  moreover have "?held = bytes_held c1 + entry_size e" if "map_of (pc_entries c) k = None"
  proof -
    have "map_of (pc_entries c1) k = None"
      using that c1(4) by (auto simp: evicted_oldest_def map_of_eq_None_iff)
    then show ?thesis by (simp add: bytes_held_def am_weight_insert_new)
  qed
  ultimately show ?thesis by (intro exI) auto
qed (use assms in auto)

section \<open>Sequences of calls\<close>

datatype prefix_call =
    PcGet b3hash
  | PcFind "u32 list" b3hash b3hash b3hash u32
  | PcInsert b3hash prefix_kv_entry
  | PcBuild b3hash "(aos_error, prefix_kv_entry) result"
  | PcRemove b3hash
  | PcClear
  | PcAcquire b3hash
  | PcRelease b3hash
  | PcSetTick u64
  | PcCorrupt b3hash "f32b list list" "f32b list list"

text \<open>The last kind of call is damage to the tensors of an entry in memory.\<close>

fun apply_prefix_call :: "hash_fn \<Rightarrow> prefix_call \<Rightarrow> prefix_kv_cache \<Rightarrow> prefix_kv_cache" where
  "apply_prefix_call H (PcGet k) c = snd (prefix_get H k c)"
| "apply_prefix_call H (PcFind input context_digest tokenizer model min_match) c =
     snd (find_longest_prefix_match H input context_digest tokenizer model min_match c)"
| "apply_prefix_call H (PcInsert k e) c = snd (prefix_insert k e c)"
| "apply_prefix_call H (PcBuild k built) c = snd (get_or_build H k built c)"
| "apply_prefix_call H (PcRemove k) c = snd (prefix_remove k c)"
| "apply_prefix_call H PcClear c = prefix_clear c"
| "apply_prefix_call H (PcAcquire k) c = acquire_key k c"
| "apply_prefix_call H (PcRelease k) c = release_key k c"
| "apply_prefix_call H (PcSetTick t) c = set_tick t c"
| "apply_prefix_call H (PcCorrupt k ks vs) c =
     c\<lparr>pc_entries := am_update (\<lambda>e. e\<lparr>pk_keys := ks, pk_values := vs\<rparr>) k (pc_entries c)\<rparr>"

text \<open>A direct insertion is fresh when its key is not in use; built entries always are.\<close>

fun fresh_call :: "prefix_call \<Rightarrow> prefix_kv_cache \<Rightarrow> bool" where
  "fresh_call (PcInsert k e) c \<longleftrightarrow> map_of (pc_entries c) k = None"
| "fresh_call _ c \<longleftrightarrow> True"

fun fresh_run :: "hash_fn \<Rightarrow> prefix_call list \<Rightarrow> prefix_kv_cache \<Rightarrow> bool" where
  "fresh_run H [] c \<longleftrightarrow> True"
| "fresh_run H (x # xs) c \<longleftrightarrow> fresh_call x c \<and> fresh_run H xs (apply_prefix_call H x c)"

text \<open>Calls that move ticks, counts of hits, references or tensors keep the accounting.\<close>

definition same_accounts :: "prefix_kv_cache \<Rightarrow> prefix_kv_cache \<Rightarrow> bool" where
  "same_accounts c c' \<longleftrightarrow>
     am_keys (pc_entries c') = am_keys (pc_entries c) \<and> bytes_held c' = bytes_held c \<and>
     pc_used_bytes c' = pc_used_bytes c \<and> pc_max_bytes c' = pc_max_bytes c \<and>
     px_entry_count (pc_stats c') = px_entry_count (pc_stats c) \<and>
     px_used_bytes (pc_stats c') = px_used_bytes (pc_stats c)"

lemma same_accounts_refl [simp]: "same_accounts c c"
  by (simp add: same_accounts_def)

lemma same_accounts_update:
  "(\<And>e. pk_kv_bytes (f e) = pk_kv_bytes e) \<Longrightarrow>
   same_accounts c (c\<lparr>pc_entries := am_update f k (pc_entries c)\<rparr>)"
  by (simp add: same_accounts_def am_keys_update bytes_held_def am_weight_update entry_size_def)

lemma same_accounts_stats:
  "same_accounts c (count_miss c')= same_accounts c c'" "same_accounts c (count_hit c') = same_accounts c c'"
  "same_accounts c (count_integrity_failures n c') = same_accounts c c'"
  "same_accounts c (c'\<lparr>pc_current_tick := t\<rparr>) = same_accounts c c'"
  by (simp_all add: same_accounts_def bytes_held_def count_miss_def count_hit_def count_integrity_failures_def)

lemma same_accounts_trans: "same_accounts a b \<Longrightarrow> same_accounts b c \<Longrightarrow> same_accounts a c"
  by (simp add: same_accounts_def)

lemma same_accounts_touch: "same_accounts c c' \<Longrightarrow> same_accounts c (touch_entry k c')"
  by (rule same_accounts_trans [of _ c'])
    (auto simp: touch_entry_def advance_tick_def same_accounts_def bytes_held_def am_keys_update count_hit_def
      am_weight_update record_access_def entry_size_def)

lemma same_accounts_get: "same_accounts c (snd (prefix_get H k c))"
  by (simp add: prefix_get_def same_accounts_stats same_accounts_touch split: option.split)

lemma same_accounts_find:
  "same_accounts c (snd (find_longest_prefix_match H input context_digest tokenizer model min_match c))"
  by (auto simp: find_longest_prefix_match_def Let_def same_accounts_stats
      split: prod.split option.split intro!: same_accounts_touch)

lemma same_accounts_ok: "same_accounts c c' \<Longrightarrow> prefix_ok lost c' = prefix_ok lost c"
  by (auto simp: same_accounts_def prefix_ok_def bt_ok_def)

lemma same_accounts_lookup:
  "same_accounts c c' \<Longrightarrow> map_of (pc_entries c') k = None \<longleftrightarrow> map_of (pc_entries c) k = None"
  by (simp add: same_accounts_def map_of_eq_None_iff am_keys_def [symmetric] del: set_map flip: set_map)

lemma get_or_build_state:
  "snd (get_or_build H k built c) =
     (case fst (prefix_get H k c) of
        Some _ \<Rightarrow> snd (prefix_get H k c)
      | None \<Rightarrow> snd (build_and_cache_entry k built (snd (prefix_get H k c))))"
  by (simp add: get_or_build_def split: prod.split option.split sum.split)

lemma built_ok:
  assumes "prefix_ok lost c"
  shows "prefix_ok lost (snd (get_or_build H k built c))"
proof -
  obtain r c1 where get: "prefix_get H k c = (r, c1)" by fastforce
  have same: "same_accounts c c1" using same_accounts_get [of c H k] get by simp
  have ok1: "prefix_ok lost c1" using assms same by (simp add: same_accounts_ok)
  have "prefix_ok lost (snd (build_and_cache_entry k built c1))"
  proof (cases "map_of (pc_entries c1) k")
    case None
    show ?thesis
    proof (cases built)
      case (Inr e)
      obtain r2 c2 where ins: "prefix_insert k e c1 = (r2, c2)" by fastforce
      with prefix_insert_ok [OF ins ok1] None have "prefix_ok lost c2" by auto
      with Inr None ins show ?thesis by (simp add: build_and_cache_entry_def split: sum.split)
    qed (use None ok1 in \<open>simp add: build_and_cache_entry_def\<close>)
  next
    case (Some e)
    then show ?thesis
      using ok1 same_accounts_ok [OF same_accounts_touch [OF same_accounts_refl]]
      by (simp add: build_and_cache_entry_def)
  qed
  with ok1 get show ?thesis by (simp add: get_or_build_state split: option.split)
qed

lemma remove_ok: "prefix_ok lost c \<Longrightarrow> prefix_ok lost (snd (prefix_remove k c))"
  using remaining_counter [of lost c k]
  by (auto simp: prefix_remove_def prefix_ok_def bytes_held_def bt_remove_ok split: option.split)

lemma set_tick_accounts: "same_accounts c (set_tick t c)"
  by (simp add: set_tick_def same_accounts_stats)

lemma handle_accounts:
  "same_accounts c (acquire_key k c)" "same_accounts c (release_key k c)"
  "same_accounts c (c\<lparr>pc_entries := am_update (\<lambda>e. e\<lparr>pk_keys := ks, pk_values := vs\<rparr>) k (pc_entries c)\<rparr>)"
  by (simp_all add: acquire_key_def release_key_def same_accounts_update entry_acquire_def entry_release_def)

lemmas accounts_kept = same_accounts_get same_accounts_find set_tick_accounts handle_accounts

lemma prefix_call_ok:
  assumes "prefix_ok lost c"
  shows "\<exists>lost'. prefix_ok lost' (apply_prefix_call H x c) \<and> (fresh_call x c \<longrightarrow> lost' \<le> lost)"
proof (cases x)
  case (PcInsert k e)
  then show ?thesis
    using prefix_insert_ok [OF _ assms, of k e "fst (prefix_insert k e c)" "snd (prefix_insert k e c)"] by auto
next
  case PcClear
  then show ?thesis by (auto simp: prefix_clear_def prefix_ok_def bytes_held_def bt_ok_def cache_simps)
next
  case (PcBuild k built)
  then show ?thesis using built_ok [OF assms] by auto
next
  case (PcRemove k)
  then show ?thesis using remove_ok [OF assms] by auto
qed (use assms in \<open>auto simp: same_accounts_ok [OF same_accounts_get] same_accounts_ok [OF same_accounts_find]
  same_accounts_ok [OF set_tick_accounts] same_accounts_ok [OF handle_accounts(1)]
  same_accounts_ok [OF handle_accounts(2)] same_accounts_ok [OF handle_accounts(3)]\<close>)

abbreviation prefix_run :: "hash_fn \<Rightarrow> prefix_call list \<Rightarrow> prefix_kv_cache \<Rightarrow> prefix_kv_cache" where
  "prefix_run H calls c \<equiv> fold (apply_prefix_call H) calls c"

lemma prefix_new_ok: "prefix_ok 0 (prefix_cache_new max_bytes)"
  by (simp add: prefix_ok_def prefix_cache_new_def bytes_held_def bt_ok_def cache_simps)

lemma prefix_run_ok: "prefix_ok lost c \<Longrightarrow> \<exists>lost'. prefix_ok lost' (prefix_run H calls c)"
proof (induction calls arbitrary: c lost)
  case (Cons x calls)
  then show ?case using prefix_call_ok [OF Cons.prems, of H x] by auto
qed auto

lemma prefix_run_fresh:
  "prefix_ok 0 c \<Longrightarrow> fresh_run H calls c \<Longrightarrow> prefix_ok 0 (prefix_run H calls c)"
proof (induction calls arbitrary: c)
  case (Cons x calls)
  then show ?case using prefix_call_ok [OF Cons.prems(1), of H x] by auto
qed auto

lemma evict_max: "pc_max_bytes (snd (evict_until_fits n c)) = pc_max_bytes c"
  by (simp add: evict_until_fits_def Let_def split: prod.split)

lemma insert_max: "pc_max_bytes (snd (prefix_insert k e c)) = pc_max_bytes c"
  using evict_max [of "pk_kv_bytes e" c]
  by (auto simp: prefix_insert_def Let_def split: prod.split sum.split)

lemma accounts_max: "same_accounts c c' \<Longrightarrow> pc_max_bytes c' = pc_max_bytes c"
  by (simp add: same_accounts_def)

lemma build_max: "pc_max_bytes (snd (get_or_build H k built c)) = pc_max_bytes c"
proof -
  have "pc_max_bytes (snd (build_and_cache_entry k built d)) = pc_max_bytes d" for d
    using accounts_max [OF same_accounts_touch [OF same_accounts_refl]]
    by (auto simp: build_and_cache_entry_def
        split: option.split sum.split prod.split) (metis insert_max snd_conv)+
  then show ?thesis
    using accounts_max [OF same_accounts_get [of c H k]] by (simp add: get_or_build_state split: option.split)
qed

lemma call_max: "pc_max_bytes (apply_prefix_call H x c) = pc_max_bytes c"
proof (cases x)
  case (PcRemove k)
  then show ?thesis by (simp add: prefix_remove_def split: option.split)
qed (simp_all add: insert_max build_max prefix_clear_def accounts_max [OF same_accounts_get]
  accounts_max [OF same_accounts_find] set_tick_def acquire_key_def release_key_def)

lemma run_max: "pc_max_bytes (prefix_run H calls c) = pc_max_bytes c"
  by (induction calls arbitrary: c) (simp_all add: call_max)

text \<open>
  (C38) Budget: after every sequence of calls, replaced and damaged entries included, the
  entries hold no more bytes than the counter says, and the counter stays within the budget
  the cache was made with.
\<close>

theorem prefix_cache_bounded:
  "bytes_held (prefix_run H calls (prefix_cache_new max_bytes)) \<le>
     unat (pc_used_bytes (prefix_run H calls (prefix_cache_new max_bytes))) \<and>
   pc_used_bytes (prefix_run H calls (prefix_cache_new max_bytes)) \<le> max_bytes"
proof -
  let ?c = "prefix_run H calls (prefix_cache_new max_bytes)"
  obtain lost where "prefix_ok lost ?c" using prefix_run_ok [OF prefix_new_ok] by blast
  moreover have "pc_max_bytes ?c = max_bytes" by (simp add: run_max prefix_cache_new_def)
  ultimately show ?thesis by (simp add: prefix_ok_def)
qed

section \<open>Counters\<close>

lemma evict_key_length:
  assumes "am_ok (pc_entries c)" "unat (px_entry_count (pc_stats c)) = length (pc_entries c)"
  shows "unat (px_entry_count (pc_stats (evict_key k c))) = length (pc_entries (evict_key k c))"
  using assms length_remove [of "pc_entries c" k] by (auto simp: evict_key_def split: option.split)

lemma fold_evict_length:
  assumes "am_ok (pc_entries c)" "unat (px_entry_count (pc_stats c)) = length (pc_entries c)"
  shows "unat (px_entry_count (pc_stats (fold evict_key ks c))) = length (pc_entries (fold evict_key ks c))"
  using assms
proof (induction ks arbitrary: c)
  case (Cons k ks)
  then show ?case by (simp add: evict_key_length evict_key_entries hash_map.ok_remove)
qed simp

lemma counts_evict:
  assumes "counts_ok c" "prefix_ok lost c"
  shows "counts_ok (snd (evict_until_fits n c))"
  using assms fold_evict_length [of c] bt_ok_am_ok
  by (auto simp: evict_until_fits_def Let_def counts_ok_def prefix_ok_def split: prod.split)

lemma length_evict: "length (pc_entries (snd (evict_until_fits n c))) \<le> length (pc_entries c)"
  by (auto simp: evict_until_fits_def Let_def fold_evict_entries length_filter_le split: prod.split)

lemma counts_insert:
  assumes "prefix_insert k e c = (r, c')" "counts_ok c" "prefix_ok lost c" "map_of (pc_entries c) k = None"
    and "length (pc_entries c) < 2 ^ 64 - 1"
  shows "counts_ok c' \<and> length (pc_entries c') \<le> Suc (length (pc_entries c))"
  using assms(1,3)
proof (cases rule: prefix_insert_cases)
  case (inserted c1)
  have c1: "counts_ok c1" "length (pc_entries c1) \<le> length (pc_entries c)"
    using counts_evict [OF assms(2,3), of "pk_kv_bytes e"] length_evict [of "pk_kv_bytes e" c] inserted(2)
    by simp_all
  have "map_of (pc_entries c1) k = None"
    using evict_until_fits_spec [OF assms(3) inserted(2)] assms(4)
    by (auto simp: evicted_oldest_def map_of_eq_None_iff)
  then show ?thesis
    using c1 inserted assms(5) by (simp add: counts_ok_def length_insert_new unat_word_ariths)
qed (use assms in auto)

lemma same_accounts_counts:
  assumes "same_accounts c c'"
  shows "counts_ok c' = counts_ok c" "length (pc_entries c') = length (pc_entries c)"
proof -
  show "length (pc_entries c') = length (pc_entries c)"
    using assms map_eq_imp_length_eq by (fastforce simp: same_accounts_def am_keys_def)
  then show "counts_ok c' = counts_ok c" using assms by (simp add: same_accounts_def counts_ok_def)
qed

lemma counts_build:
  assumes "counts_ok c" "prefix_ok lost c" "length (pc_entries c) < 2 ^ 64 - 1"
  shows "counts_ok (snd (get_or_build H k built c)) \<and>
    length (pc_entries (snd (get_or_build H k built c))) \<le> Suc (length (pc_entries c))"
proof -
  obtain r c1 where get: "prefix_get H k c = (r, c1)" by fastforce
  have same: "same_accounts c c1" using same_accounts_get [of c H k] get by simp
  have c1: "counts_ok c1" "prefix_ok lost c1" "length (pc_entries c1) = length (pc_entries c)"
    using assms same by (simp_all add: same_accounts_ok same_accounts_counts)
  have "counts_ok (snd (build_and_cache_entry k built c1)) \<and>
    length (pc_entries (snd (build_and_cache_entry k built c1))) \<le> Suc (length (pc_entries c1))"
  proof (cases "map_of (pc_entries c1) k")
    case None
    show ?thesis
    proof (cases built)
      case (Inr e)
      obtain r2 c2 where ins: "prefix_insert k e c1 = (r2, c2)" by fastforce
      with counts_insert [OF ins c1(1,2) None] assms(3) c1(3)
      have "counts_ok c2 \<and> length (pc_entries c2) \<le> Suc (length (pc_entries c1))" by simp
      with Inr None ins show ?thesis by (simp add: build_and_cache_entry_def split: sum.split)
    qed (use None c1 in \<open>simp add: build_and_cache_entry_def\<close>)
  next
    case (Some e)
    then show ?thesis
      using c1 same_accounts_counts [OF same_accounts_touch [OF same_accounts_refl]]
      by (simp add: build_and_cache_entry_def)
  qed
  with c1 get show ?thesis by (simp add: get_or_build_state split: option.split)
qed

lemma counts_remove:
  assumes "counts_ok c" "prefix_ok lost c"
  shows "counts_ok (snd (prefix_remove k c)) \<and>
    length (pc_entries (snd (prefix_remove k c))) \<le> length (pc_entries c)"
  using assms length_remove [OF bt_ok_am_ok, of "pc_entries c" k]
  by (auto simp: prefix_remove_def counts_ok_def prefix_ok_def split: option.split)

lemma counts_call:
  assumes "counts_ok c" "prefix_ok lost c" "fresh_call x c" "length (pc_entries c) < 2 ^ 64 - 1"
  shows "counts_ok (apply_prefix_call H x c) \<and>
    length (pc_entries (apply_prefix_call H x c)) \<le> Suc (length (pc_entries c))"
proof (cases x)
  case (PcInsert k e)
  then show ?thesis
    using counts_insert [of k e c "fst (prefix_insert k e c)" "snd (prefix_insert k e c)" lost] assms by simp
next
  case (PcBuild k built)
  then show ?thesis using counts_build [OF assms(1,2,4)] by simp
next
  case (PcRemove k)
  then show ?thesis using counts_remove [OF assms(1,2), of k] by auto
next
  case PcClear
  then show ?thesis by (simp add: prefix_clear_def counts_ok_def)
qed (use assms(1) same_accounts_counts [OF same_accounts_get] same_accounts_counts [OF same_accounts_find]
  same_accounts_counts [OF set_tick_accounts] same_accounts_counts [OF handle_accounts(1)]
  same_accounts_counts [OF handle_accounts(2)] same_accounts_counts [OF handle_accounts(3)] in simp_all)

lemma counts_run:
  "prefix_ok 0 c \<Longrightarrow> counts_ok c \<Longrightarrow> fresh_run H calls c \<Longrightarrow> length (pc_entries c) + length calls < 2 ^ 64 \<Longrightarrow>
   counts_ok (prefix_run H calls c)"
proof (induction calls arbitrary: c)
  case (Cons x calls)
  have "prefix_ok 0 (apply_prefix_call H x c)"
    using prefix_call_ok [OF Cons.prems(1), of H x] Cons.prems(3) by auto
  with Cons counts_call [OF Cons.prems(2,1), of x H] show ?case by auto
qed simp

text \<open>
  Exact accounting: as long as direct insertions use new keys, the byte counter is the
  sum of the sizes of the entries, and the statistics show the counter and the number of
  entries, for every sequence of fewer than \<open>2 ^ 64\<close> calls.
\<close>

theorem prefix_cache_exact:
  assumes "fresh_run H calls (prefix_cache_new max_bytes)" and "length calls < 2 ^ 64"
  shows "unat (pc_used_bytes (prefix_run H calls (prefix_cache_new max_bytes))) =
       bytes_held (prefix_run H calls (prefix_cache_new max_bytes)) \<and>
     px_used_bytes (prefix_stats n (prefix_run H calls (prefix_cache_new max_bytes))) =
       pc_used_bytes (prefix_run H calls (prefix_cache_new max_bytes)) \<and>
     unat (px_entry_count (prefix_stats n (prefix_run H calls (prefix_cache_new max_bytes)))) =
       prefix_len (prefix_run H calls (prefix_cache_new max_bytes))"
proof -
  have "counts_ok (prefix_cache_new max_bytes)" by (simp add: counts_ok_def prefix_cache_new_def)
  then show ?thesis
    using prefix_run_fresh [OF prefix_new_ok assms(1)] counts_run [OF prefix_new_ok _ assms(1)] assms(2)
    by (simp add: prefix_ok_def counts_ok_def prefix_stats_def prefix_len_def prefix_cache_new_def)
qed

section \<open>Age\<close>

lemma candidates_by_age:
  assumes "eviction_candidates c = vs @ rest" "v \<in> set vs" "w \<in> set rest"
  shows "eviction_order v \<le> eviction_order w"
proof -
  have "sorted (map eviction_order (vs @ rest))"
    unfolding assms(1) [symmetric] eviction_candidates_def by (rule sorted_sort_key)
  then show ?thesis using assms(2,3) by (auto simp: sorted_append)
qed

lemma gone_is_victim:
  assumes "bt_ok (pc_entries c)" "eviction_candidates c = vs @ rest"
    and "pc_entries c' = filter (\<lambda>e. fst e \<notin> set (map fst vs)) (pc_entries c)"
    and "(k, e) \<in> set (pc_entries c) - set (pc_entries c')"
  shows "(k, pk_last_access_tick e, pk_kv_bytes e) \<in> set vs \<and> \<not> is_in_use e"
proof -
  obtain t n where v: "(k, t, n) \<in> set vs" using assms(3,4) by auto
  moreover have "map_of (pc_entries c) k = Some e"
    using assms(4) btree_map.entry_lookup [OF assms(1), of k e] by simp
  ultimately show ?thesis using victim_entry [OF assms(1,2) v] by auto
qed

lemma gone_is_older:
  assumes "bt_ok (pc_entries c)" "eviction_candidates c = vs @ rest"
    and "pc_entries c' = filter (\<lambda>e. fst e \<notin> set (map fst vs)) (pc_entries c)"
    and "(k, e) \<in> set (pc_entries c) - set (pc_entries c')" "(k', e') \<in> set (idle c')"
  shows "(pk_last_access_tick e, k) < (pk_last_access_tick e', k')"
proof -
  have v: "(k, pk_last_access_tick e, pk_kv_bytes e) \<in> set vs" using gone_is_victim [OF assms(1-4)] by simp
  have "(k', e') \<in> set (idle c)" and kept: "k' \<notin> fst ` set vs" using assms(3,5) by (auto simp: idle_def)
  then have "(k', pk_last_access_tick e', pk_kv_bytes e') \<in> set (eviction_candidates c)"
    by (force simp: set_eviction_candidates)
  with kept assms(2) have "(k', pk_last_access_tick e', pk_kv_bytes e') \<in> set rest" by force
  from candidates_by_age [OF assms(2) v this]
  have "(pk_last_access_tick e, k) \<le> (pk_last_access_tick e', k')" by (simp add: eviction_order_def)
  moreover have "k \<noteq> k'" using v kept by force
  ultimately show ?thesis by (simp add: less_le)
qed

text \<open>
  Eviction: making room fails exactly when the idle entries are too small, and then
  nothing changes; otherwise the new size fits, entries in use stay, every evicted entry is
  older than every idle entry that stays (by last access, then by key), and without the last
  eviction there would not have been room.
\<close>

theorem prefix_eviction_by_age:
  assumes reach: "c = prefix_run H calls (prefix_cache_new max_bytes)"
  shows "case evict_until_fits needed c of
      (Err _, c') \<Rightarrow> c' = c \<and>
        unat max_bytes + am_weight entry_size (idle c) < unat (pc_used_bytes c) + unat needed
    | (Ok _, c') \<Rightarrow>
        unat (pc_used_bytes c') + unat needed \<le> unat max_bytes \<and>
        set (pc_entries c') \<subseteq> set (pc_entries c) \<and>
        (\<forall>(k, e) \<in> set (pc_entries c) - set (pc_entries c').
           \<not> is_in_use e \<and>
           (\<forall>(k', e') \<in> set (idle c'). (pk_last_access_tick e, k) < (pk_last_access_tick e', k'))) \<and>
        (pc_entries c' \<noteq> pc_entries c \<longrightarrow> (\<exists>(k, e) \<in> set (pc_entries c) - set (pc_entries c').
           unat max_bytes < unat (pc_used_bytes c') + entry_size e + unat needed))"
proof -
  obtain lost where ok: "prefix_ok lost c" using prefix_run_ok [OF prefix_new_ok] reach by blast
  have max: "pc_max_bytes c = max_bytes" using reach by (simp add: run_max prefix_cache_new_def)
  obtain r c' where ev: "evict_until_fits needed c = (r, c')" by fastforce
  note spec = evict_until_fits_spec [OF ok ev]
  show ?thesis
  proof (cases r)
    case (Inr u)
    then have ok': "prefix_ok lost c'" and fits: "unat (pc_used_bytes c') + unat needed \<le> unat max_bytes"
      and "evicted_oldest (unat needed) c c'" using spec max by simp_all
    then obtain vs rest where
      vs: "eviction_candidates c = vs @ rest" "pc_entries c' = filter (\<lambda>e. fst e \<notin> set (map fst vs)) (pc_entries c)"
        "vs \<noteq> [] \<Longrightarrow> unat max_bytes + sum_list (map cand_size (butlast vs)) < unat (pc_used_bytes c) + unat needed"
      unfolding evicted_oldest_def max by blast
    have bt: "bt_ok (pc_entries c)" using ok by (simp add: prefix_ok_def)
    have "\<exists>(k, e) \<in> set (pc_entries c) - set (pc_entries c').
        unat max_bytes < unat (pc_used_bytes c') + entry_size e + unat needed"
      if "pc_entries c' \<noteq> pc_entries c"
    proof -
      from that vs(2) have "vs \<noteq> []" by auto
      then obtain k t n where split: "vs = butlast vs @ [(k, t, n)]" by (metis append_butlast_last_id prod_cases3)
      then obtain e where e: "map_of (pc_entries c) k = Some e" "pk_kv_bytes e = n"
        using victim_entry [OF bt vs(1), of k t n] by (metis in_set_conv_decomp)
      have "sum_list (map cand_size vs) = sum_list (map cand_size (butlast vs)) + entry_size e"
        by (subst split) (simp add: entry_size_def e(2))
      then have "unat max_bytes < unat (pc_used_bytes c') + entry_size e + unat needed"
        using vs(3) [OF \<open>vs \<noteq> []\<close>] victims_bytes [OF ok ok' vs(1,2)] by simp
      moreover have "(k, t, n) \<in> set vs" by (subst split) simp
      then have "(k, e) \<in> set (pc_entries c) - set (pc_entries c')"
        using map_of_SomeD [OF e(1)] vs(2) by force
      ultimately show ?thesis by blast
    qed
    moreover have "set (pc_entries c') \<subseteq> set (pc_entries c)" using vs(2) by auto
    moreover have "\<forall>(k, e) \<in> set (pc_entries c) - set (pc_entries c'). \<not> is_in_use e \<and>
        (\<forall>(k', e') \<in> set (idle c'). (pk_last_access_tick e, k) < (pk_last_access_tick e', k'))"
      using gone_is_victim [OF bt vs(1,2)] gone_is_older [OF bt vs(1,2)] by blast
    ultimately show ?thesis unfolding ev Inr prod.case sum.case using fits by blast
  qed (use spec ev max in auto)
qed

section \<open>Matching\<close>

lemma common_prefix_length:
  "length (takeWhile (\<lambda>(a, b). a = b) (zip xs ys)) = length (longest_common_prefix xs ys)"
  by (induction xs ys rule: longest_common_prefix.induct) auto

definition best_of :: "('e \<Rightarrow> u32) \<Rightarrow> (b3hash \<times> 'e) set \<Rightarrow> (b3hash \<times> 'e \<times> u32) option \<Rightarrow> bool" where
  "best_of len S best =
     (case best of
        None \<Rightarrow> S = {}
      | Some (k, e, l) \<Rightarrow> (k, e) \<in> S \<and> l = len e \<and>
          (\<forall>(k', e') \<in> S. len e' < l \<or> len e' = l \<and> k \<le> k'))"

definition matchable :: "hash_fn \<Rightarrow> (b3hash \<times> prefix_kv_entry) list \<Rightarrow> (b3hash \<times> prefix_kv_entry) set" where
  "matchable H m = {(k, e) \<in> set m. supports_prefix_matching e \<and> verify_integrity H e}"

lemma scan_entries_best:
  "best_of len S best \<Longrightarrow>
   best_of len (S \<union> {(k, e) \<in> matchable H m. min_match \<le> len e}) (fst (scan_entries H len min_match m best corrupted))"
proof (induction H len min_match m best corrupted arbitrary: S rule: scan_entries.induct)
  case (2 H len min_match k e rest best corrupted)
  show ?case
  proof (cases "supports_prefix_matching e \<and> verify_integrity H e \<and> min_match \<le> len e")
    case True
    have "best_of len (insert (k, e) S) (if is_better k (len e) best then Some (k, e, len e) else best)"
      using "2.prems" by (auto simp: best_of_def is_better_def split: option.splits)
    moreover have "S \<union> {(k', e') \<in> matchable H ((k, e) # rest). min_match \<le> len e'} =
        insert (k, e) S \<union> {(k', e') \<in> matchable H rest. min_match \<le> len e'}"
      using True by (auto simp: matchable_def)
    ultimately show ?thesis
      using True "2.IH"(3) [OF _ _ refl, of "insert (k, e) S"] by (simp add: Let_def)
  next
    case False
    then have "{(k', e') \<in> matchable H ((k, e) # rest). min_match \<le> len e'} =
        {(k', e') \<in> matchable H rest. min_match \<le> len e'}"
      by (auto simp: matchable_def)
    with False 2 show ?thesis by (auto simp: Let_def)
  qed
qed (simp add: matchable_def)

definition same_model :: "prefix_kv_entry \<Rightarrow> b3hash \<Rightarrow> b3hash \<Rightarrow> b3hash \<Rightarrow> bool" where
  "same_model e context_digest tokenizer model \<longleftrightarrow>
     pk_context_digest e = context_digest \<and> pk_tokenizer_hash e = tokenizer \<and> pk_model_identity_hash e = model"

text \<open>The tokens of the input that an entry has computed, as a specification.\<close>

definition reusable :: "prefix_kv_entry \<Rightarrow> u32 list \<Rightarrow> b3hash \<Rightarrow> b3hash \<Rightarrow> b3hash \<Rightarrow> u32 list" where
  "reusable e input context_digest tokenizer model =
     (if same_model e context_digest tokenizer model then longest_common_prefix (pk_prefix_tokens e) input
      else [])"

lemma match_length_reusable:
  assumes "length input < 2 ^ 32"
  shows "unat (compute_prefix_match_length e input context_digest tokenizer model) =
    length (reusable e input context_digest tokenizer model)"
proof -
  have "length (longest_common_prefix (pk_prefix_tokens e) input) \<le> length input"
    using prefix_length_le [OF longest_common_prefix_prefix2] by blast
  then have "unat (of_nat (length (longest_common_prefix (pk_prefix_tokens e) input)) :: u32) =
      length (longest_common_prefix (pk_prefix_tokens e) input)"
    using assms by (simp add: unat_of_nat)
  then show ?thesis
    by (auto simp: compute_prefix_match_length_def reusable_def same_model_def common_prefix_length
        supports_prefix_matching_def)
qed

lemma reusable_supported:
  "reusable e input context_digest tokenizer model \<noteq> [] \<Longrightarrow> supports_prefix_matching e"
  by (auto simp: reusable_def supports_prefix_matching_def split: if_splits)

lemma scan_longest:
  assumes "length input < 2 ^ 32" "1 \<le> min_match"
  shows "case fst (scan_entries H (\<lambda>e. compute_prefix_match_length e input context_digest tokenizer model)
           min_match m None []) of
      None \<Rightarrow> \<forall>(k, e) \<in> set m. verify_integrity H e \<longrightarrow>
        length (reusable e input context_digest tokenizer model) < unat min_match
    | Some (k, e, l) \<Rightarrow> (k, e) \<in> set m \<and> verify_integrity H e \<and> min_match \<le> l \<and>
        unat l = length (reusable e input context_digest tokenizer model) \<and>
        (\<forall>(k', e') \<in> set m. verify_integrity H e' \<longrightarrow>
           length (reusable e' input context_digest tokenizer model) < unat l \<or>
           length (reusable e' input context_digest tokenizer model) = unat l \<and> k \<le> k')"
proof -
  let ?len = "\<lambda>e. compute_prefix_match_length e input context_digest tokenizer model"
  let ?reuse = "\<lambda>e. reusable e input context_digest tokenizer model"
  let ?S = "{(k, e) \<in> matchable H m. min_match \<le> ?len e}"
  let ?best = "fst (scan_entries H ?len min_match m None [])"
  have len: "unat (?len e) = length (?reuse e)" for e using match_length_reusable [OF assms(1)] .
  have best: "best_of ?len ?S ?best"
    using scan_entries_best [of ?len "{}" None H m min_match "[]"] by (simp add: best_of_def)
  have short: "length (?reuse e) < unat min_match"
    if "(k, e) \<in> set m" "verify_integrity H e" "(k, e) \<notin> ?S" for k e
    using that assms(2) reusable_supported [of e input context_digest tokenizer model] len [of e]
    by (cases "?reuse e = []") (auto simp: matchable_def word_le_nat_alt not_le)
  show ?thesis
  proof (cases ?best)
    case None
    with best have "?S = {}" by (simp add: best_of_def)
    with short None show ?thesis by auto
  next
    case (Some b)
    obtain k e l where b: "b = (k, e, l)" by (cases b)
    have e: "(k, e) \<in> ?S" "l = ?len e" and top: "\<And>k' e'. (k', e') \<in> ?S \<Longrightarrow> ?len e' < l \<or> ?len e' = l \<and> k \<le> k'"
      using best Some b by (auto simp: best_of_def)
    have "length (?reuse e') < unat l \<or> length (?reuse e') = unat l \<and> k \<le> k'"
      if "(k', e') \<in> set m" "verify_integrity H e'" for k' e'
    proof (cases "(k', e') \<in> ?S")
      case True
      with top [OF True] show ?thesis by (simp add: word_less_nat_alt len [symmetric]) auto
    next
      case False
      then show ?thesis using short [OF that] e by (simp add: word_le_nat_alt)
    qed
    then show ?thesis using Some b e len [of e] by (auto simp: matchable_def)
  qed
qed

lemma find_longest_result:
  "input \<noteq> [] \<Longrightarrow> fst (find_longest_prefix_match H input context_digest tokenizer model min_match c) =
   map_option (\<lambda>(k, e, l). \<lparr>pm_entry = record_access (pc_current_tick c + 1) e, pm_cache_key = k,
       pm_matched_token_count = l, pm_remaining_tokens = of_nat (length input) - l\<rparr>)
     (fst (scan_entries H (\<lambda>e. compute_prefix_match_length e input context_digest tokenizer model)
       min_match (pc_entries c) None []))"
  by (simp add: find_longest_prefix_match_def Let_def case_prod_unfold split: option.split)

lemma reusable_length_le: "length (reusable e input context_digest tokenizer model) \<le> length input"
  using prefix_length_le [OF longest_common_prefix_prefix2] by (auto simp: reusable_def)

lemma remaining_tokens:
  assumes "length input < 2 ^ 32" "unat l \<le> length input"
  shows "unat l + unat (of_nat (length input) - l :: u32) = length input"
proof -
  have "unat (of_nat (length input) :: u32) = length input" using assms(1) by (simp add: unat_of_nat)
  with assms(2) show ?thesis by (simp add: unat_sub word_le_nat_alt)
qed

lemma match_entry:
  assumes "input \<noteq> []" "length input < 2 ^ 32" "1 \<le> min_match" "bt_ok (pc_entries c)"
    and "fst (find_longest_prefix_match H input context_digest tokenizer model min_match c) = Some pm"
  shows "\<exists>e. map_of (pc_entries c) (pm_cache_key pm) = Some e \<and> verify_integrity H e \<and>
    pm_entry pm = record_access (pc_current_tick c + 1) e \<and>
    same_model e context_digest tokenizer model \<and>
    unat (pm_matched_token_count pm) = length (longest_common_prefix (pk_prefix_tokens e) input) \<and>
    unat (pm_matched_token_count pm) + unat (pm_remaining_tokens pm) = length input \<and>
    min_match \<le> pm_matched_token_count pm"
proof -
  obtain k e l where scan: "fst (scan_entries H (\<lambda>e. compute_prefix_match_length e input context_digest tokenizer model)
      min_match (pc_entries c) None []) = Some (k, e, l)"
    and pm: "pm = \<lparr>pm_entry = record_access (pc_current_tick c + 1) e, pm_cache_key = k,
       pm_matched_token_count = l, pm_remaining_tokens = of_nat (length input) - l\<rparr>"
    using assms(5) by (auto simp: find_longest_result [OF assms(1)])
  have facts: "(k, e) \<in> set (pc_entries c)" "verify_integrity H e" "min_match \<le> l"
      "unat l = length (reusable e input context_digest tokenizer model)"
    using scan_longest [OF assms(2,3), where H = H and m = "pc_entries c" and context_digest = context_digest
        and tokenizer = tokenizer and model = model] by (simp_all add: scan)
  have same: "same_model e context_digest tokenizer model"
  proof (rule ccontr)
    assume "\<not> same_model e context_digest tokenizer model"
    with facts have "unat l = 0" by (simp add: reusable_def)
    with facts assms(3) show False by (simp add: word_le_nat_alt)
  qed
  moreover have "unat l + unat (of_nat (length input) - l :: u32) = length input"
    using facts reusable_length_le assms(2) by (intro remaining_tokens) simp_all
  ultimately show ?thesis
    using facts btree_map.entry_lookup [OF assms(4), of k e] by (simp add: pm reusable_def)
qed

text \<open>
  (C37) Longest match: a search with a minimum match of at least one token, for a non-empty input of fewer than
  \<open>2\<^sup>3\<^sup>2\<close> tokens, returns an undamaged entry of the same
  context, tokenizer and model, and the number of tokens it shares with the input from the
  start; no undamaged entry shares more, and of those that share as many it has the smallest
  key. Without a result every undamaged entry shares fewer tokens than asked for.
\<close>

theorem longest_prefix_found:
  assumes "input \<noteq> []" "length input < 2 ^ 32" "1 \<le> min_match" "bt_ok (pc_entries c)"
  shows "case fst (find_longest_prefix_match H input context_digest tokenizer model min_match c) of
      None \<Rightarrow> \<forall>(k, e) \<in> set (pc_entries c). verify_integrity H e \<longrightarrow>
        length (reusable e input context_digest tokenizer model) < unat min_match
    | Some pm \<Rightarrow> \<exists>e. map_of (pc_entries c) (pm_cache_key pm) = Some e \<and> verify_integrity H e \<and>
        pm_entry pm = record_access (pc_current_tick c + 1) e \<and>
        same_model e context_digest tokenizer model \<and>
        unat (pm_matched_token_count pm) = length (longest_common_prefix (pk_prefix_tokens e) input) \<and>
        unat (pm_matched_token_count pm) + unat (pm_remaining_tokens pm) = length input \<and>
        min_match \<le> pm_matched_token_count pm \<and>
        (\<forall>(k', e') \<in> set (pc_entries c). verify_integrity H e' \<longrightarrow>
           length (reusable e' input context_digest tokenizer model) < unat (pm_matched_token_count pm) \<or>
           length (reusable e' input context_digest tokenizer model) = unat (pm_matched_token_count pm) \<and>
           pm_cache_key pm \<le> k')"
proof -
  let ?best = "fst (scan_entries H (\<lambda>e. compute_prefix_match_length e input context_digest tokenizer model)
    min_match (pc_entries c) None [])"
  note scan = scan_longest [OF assms(2,3), where H = H and m = "pc_entries c"
    and context_digest = context_digest and tokenizer = tokenizer and model = model]
  show ?thesis
  proof (cases ?best)
    case None
    then show ?thesis using scan by (simp add: find_longest_result [OF assms(1)])
  next
    case (Some b)
    obtain k e l where b: "b = (k, e, l)" by (cases b)
    let ?pm = "\<lparr>pm_entry = record_access (pc_current_tick c + 1) e, pm_cache_key = k,
      pm_matched_token_count = l, pm_remaining_tokens = of_nat (length input) - l\<rparr>"
    have res: "fst (find_longest_prefix_match H input context_digest tokenizer model min_match c) = Some ?pm"
      by (simp add: find_longest_result [OF assms(1)] Some b)
    from match_entry [OF assms res] show ?thesis
      using scan [unfolded Some b option.case prod.case] by (auto simp: res)
  qed
qed

section \<open>Roads to wrong states\<close>

text \<open>
  A damaged entry is never rebuilt: a lookup treats it as a miss, but the second look
  before building returns it as it is, without checking it, and the builder is not used.
\<close>

theorem damaged_entry_is_served:
  assumes "map_of (pc_entries c) k = Some e" "\<not> verify_integrity H e"
  shows "fst (prefix_get H k c) = None \<and>
    fst (get_or_build H k built c) = Ok (record_access (pc_current_tick c + 1) e) \<and>
    map_of (pc_entries (snd (get_or_build H k built c))) k = Some (record_access (pc_current_tick c + 1) e)"
proof -
  let ?c = "count_miss (count_integrity_failures 1 c)"
  have "prefix_get H k c = (None, ?c)" using assms by (simp add: prefix_get_def)
  moreover have "pc_entries ?c = pc_entries c" "pc_current_tick ?c = pc_current_tick c"
    by (simp_all add: count_miss_def count_integrity_failures_def)
  ultimately show ?thesis
    using assms(1)
    by (simp add: get_or_build_def build_and_cache_entry_def touch_entry_def advance_tick_def count_hit_def
        lookup_am_update)
qed

lemma prefix_cache_new_fields [simp]:
  "pc_entries (prefix_cache_new m) = []" "pc_max_bytes (prefix_cache_new m) = m"
  "pc_used_bytes (prefix_cache_new m) = 0" "pc_current_tick (prefix_cache_new m) = 0"
  by (simp_all add: prefix_cache_new_def)

lemma insert_with_room:
  assumes "pk_kv_bytes e \<le> pc_max_bytes c - pc_used_bytes c" "pc_used_bytes c \<le> pc_max_bytes c"
  shows "\<exists>px. prefix_insert k e c = (Ok e, c\<lparr>pc_entries := bt_insert k e (pc_entries c),
    pc_used_bytes := pc_used_bytes c + pk_kv_bytes e, pc_stats := px\<rparr>)"
proof -
  have "pk_kv_bytes e \<le> pc_max_bytes c" using assms by (simp add: word_le_nat_alt unat_sub)
  then show ?thesis
    using assms
    by (simp add: prefix_insert_def evict_until_fits_def sync_used_bytes_def not_less Let_def) (rule exI, rule refl)
qed

text \<open>
  The bytes of a replaced entry are never given back: an entry of \<open>b\<close> bytes that is put
  twice under one key and then removed leaves an empty cache whose counter still says \<open>b\<close>, and
  an entry that needs the whole budget is refused from then on.
\<close>

theorem replaced_bytes_are_lost:
  assumes "pk_kv_bytes e = b" "0 < b" "unat b + unat b \<le> unat max_bytes" "pk_kv_bytes big = max_bytes"
  shows "(let c = prefix_run H [PcInsert k e, PcInsert k e, PcRemove k] (prefix_cache_new max_bytes) in
    prefix_len c = 0 \<and> pc_used_bytes c = b \<and>
    (\<exists>msg. prefix_insert k' big c = (Err (EMemoryPressure msg), c)))"
proof -
  let ?c0 = "prefix_cache_new max_bytes"
  have le: "b \<le> max_bytes" "b \<le> max_bytes - b" "max_bytes - b < max_bytes"
    using assms(2,3) by (simp_all add: word_le_nat_alt word_less_nat_alt unat_sub)
  obtain px1 where s1: "prefix_insert k e ?c0 = (Ok e, ?c0\<lparr>pc_entries := [(k, e)], pc_used_bytes := b, pc_stats := px1\<rparr>)"
    using insert_with_room [of e ?c0 k] le assms(1) by auto
  obtain px2 where s2: "prefix_insert k e (snd (prefix_insert k e ?c0)) =
      (Ok e, ?c0\<lparr>pc_entries := [(k, e)], pc_used_bytes := b + b, pc_stats := px2\<rparr>)"
    using insert_with_room [of e "snd (prefix_insert k e ?c0)" k] le assms(1) unfolding s1 snd_conv by auto
  define c where "c = prefix_run H [PcInsert k e, PcInsert k e, PcRemove k] ?c0"
  have c: "pc_entries c = []" "pc_used_bytes c = b" "pc_max_bytes c = max_bytes"
    using assms(1) by (simp_all add: c_def s2 prefix_remove_def am_remove_def)
  have "evict_until_fits max_bytes c = (Err (EMemoryPressure (''Cannot evict enough prefix KV entries: need '' @
      show_nat (unat b) @ '' bytes, can free '' @ show_nat (unat (0 :: u64)) @ '' bytes'')), c)"
    using c le assms(2) by (simp add: evict_until_fits_def eviction_candidates_def Let_def not_le)
  then show ?thesis
    using c assms(4) unfolding c_def [symmetric] Let_def by (simp add: prefix_insert_def prefix_len_def)
qed

section \<open>Examples\<close>

definition demo_prefix_entry :: "u32 list \<Rightarrow> prefix_kv_entry" where
  "demo_prefix_entry tokens = entry_new_with_tokens (\<lambda>bs. bs) [[1]] [[2]] ''tenant'' tokens [1] [2] [3]"

lemma demo_prefix_bytes [simp]: "pk_kv_bytes (demo_prefix_entry tokens) = 8"
  by (simp add: demo_prefix_entry_def entry_new_with_tokens_def entry_new_with_tokens_and_tick_def
      compute_kv_bytes_def)

lemma demo_prefix_ok [simp]: "verify_integrity (\<lambda>bs. bs) (demo_prefix_entry tokens)"
  by (simp add: demo_prefix_entry_def entry_new_with_tokens_def entry_new_with_tokens_and_tick_def
      verify_integrity_def)

abbreviation demo_prefix_calls :: "prefix_call list" where
  "demo_prefix_calls \<equiv> [PcInsert [1] (demo_prefix_entry [7, 8]), PcInsert [2] (demo_prefix_entry [7, 8, 9])]"

lemma demo_prefix_state:
  "pc_entries (prefix_run (\<lambda>bs. bs) demo_prefix_calls (prefix_cache_new 16)) =
     [([1], demo_prefix_entry [7, 8]), ([2], demo_prefix_entry [7, 8, 9])]"
  "fresh_run (\<lambda>bs. bs) demo_prefix_calls (prefix_cache_new 16)"
  by (simp_all add: prefix_insert_def evict_until_fits_def Let_def sync_used_bytes_def)

theorem prefix_cache_exact_witness:
  "fresh_run (\<lambda>bs. bs) demo_prefix_calls (prefix_cache_new 16) \<and>
   unat (pc_used_bytes (prefix_run (\<lambda>bs. bs) demo_prefix_calls (prefix_cache_new 16))) =
     bytes_held (prefix_run (\<lambda>bs. bs) demo_prefix_calls (prefix_cache_new 16)) \<and>
   unat (px_entry_count (prefix_stats 0 (prefix_run (\<lambda>bs. bs) demo_prefix_calls (prefix_cache_new 16)))) =
     prefix_len (prefix_run (\<lambda>bs. bs) demo_prefix_calls (prefix_cache_new 16))"
  using prefix_cache_exact [OF demo_prefix_state(2), of 0] demo_prefix_state(2) by simp

theorem prefix_eviction_by_age_witness:
  "(let c = prefix_run (\<lambda>bs. bs) demo_prefix_calls (prefix_cache_new 16) in
    case evict_until_fits 10 c of
      (Err _, c') \<Rightarrow> False
    | (Ok _, c') \<Rightarrow>
        unat (pc_used_bytes c') + 10 \<le> 16 \<and>
        (\<forall>(k, e) \<in> set (pc_entries c) - set (pc_entries c'). \<not> is_in_use e))"
proof -
  let ?c = "prefix_run (\<lambda>bs. bs) demo_prefix_calls (prefix_cache_new 16)"
  have idle: "am_weight entry_size (idle ?c) = 16"
    unfolding idle_def demo_prefix_state(1)
    by (simp add: am_weight_def entry_size_def is_in_use_def demo_prefix_entry_def
        entry_new_with_tokens_def entry_new_with_tokens_and_tick_def compute_kv_bytes_def)
  have "pc_used_bytes ?c \<le> 16"
    using prefix_run_ok [OF prefix_new_ok, of "\<lambda>bs. bs" demo_prefix_calls 16]
      run_max [of "\<lambda>bs. bs" demo_prefix_calls "prefix_cache_new 16"]
    by (auto simp: prefix_ok_def)
  then have "unat (pc_used_bytes ?c) \<le> 16" by (simp add: word_le_nat_alt)
  with prefix_eviction_by_age [OF refl, where H = "\<lambda>bs. bs" and calls = demo_prefix_calls and max_bytes = 16
      and needed = 10] idle
  show ?thesis unfolding Let_def by (auto split: prod.splits sum.splits)
qed

theorem longest_prefix_found_witness:
  "case fst (find_longest_prefix_match (\<lambda>bs. bs) [7, 8, 9, 10] [1] [2] [3] 1
       (prefix_run (\<lambda>bs. bs) demo_prefix_calls (prefix_cache_new 16))) of
     None \<Rightarrow> False
   | Some pm \<Rightarrow> unat (pm_matched_token_count pm) + unat (pm_remaining_tokens pm) = 4"
proof -
  let ?c = "prefix_run (\<lambda>bs. bs) demo_prefix_calls (prefix_cache_new 16)"
  have "bt_ok (pc_entries ?c)" unfolding demo_prefix_state(1) by (simp add: bt_ok_def)
  from longest_prefix_found [OF _ _ _ this, of "[7, 8, 9, 10]" 1 "\<lambda>bs. bs" "[1]" "[2]" "[3]"]
  show ?thesis
    unfolding demo_prefix_state(1)
    by (auto simp: reusable_def same_model_def demo_prefix_entry_def entry_new_with_tokens_def
        entry_new_with_tokens_and_tick_def verify_integrity_def split: option.splits)
qed

abbreviation damaged_cache :: prefix_kv_cache where
  "damaged_cache \<equiv> prefix_run (\<lambda>bs. bs) (demo_prefix_calls @ [PcCorrupt [1] [[9]] [[9]]]) (prefix_cache_new 16)"

theorem damaged_entry_is_served_witness:
  "\<exists>e. map_of (pc_entries damaged_cache) [1] = Some e \<and> \<not> verify_integrity (\<lambda>bs. bs) e \<and>
     fst (get_or_build (\<lambda>bs. bs) [1] (Ok (demo_prefix_entry [7, 8])) damaged_cache) =
       Ok (record_access (pc_current_tick damaged_cache + 1) e)"
proof -
  let ?e = "(demo_prefix_entry [7, 8])\<lparr>pk_keys := [[9]], pk_values := [[9]]\<rparr>"
  have found: "map_of (pc_entries damaged_cache) [1] = Some ?e"
    using demo_prefix_state(1) by (simp add: am_update_def)
  have "\<not> verify_integrity (\<lambda>bs. bs) ?e"
    by (simp add: verify_integrity_def compute_payload_hash_def layer_bytes_def demo_prefix_entry_def
        entry_new_with_tokens_def entry_new_with_tokens_and_tick_def le_bytes_inject)
  with damaged_entry_is_served [OF found, of "\<lambda>bs. bs" "Ok (demo_prefix_entry [7, 8])"] found
  show ?thesis by blast
qed

theorem replaced_bytes_are_lost_witness:
  "(let c = prefix_run (\<lambda>bs. bs) [PcInsert [1] (demo_prefix_entry [7]), PcInsert [1] (demo_prefix_entry [7]),
      PcRemove [1]] (prefix_cache_new 16) in
    prefix_len c = 0 \<and> pc_used_bytes c = 8 \<and>
    (\<exists>msg. prefix_insert [2] ((demo_prefix_entry [7])\<lparr>pk_kv_bytes := 16\<rparr>) c = (Err (EMemoryPressure msg), c)))"
  by (rule replaced_bytes_are_lost) simp_all

end
