(* ===== verification/PrefixLookup.thy ===== *)
theory PrefixLookup
  imports PrefixKvCorrect
begin

text \<open>
  The lookup of a prompt in the prefix cache
  (\<open>crates/adapteros-lora-worker/src/cache_prefix_lookup.rs\<close>), the signed attestation of its
  result (\<open>crates/adapteros-core/src/cache_attestation.rs\<close>) and the context digest
  (\<open>crates/adapteros-core/src/context_digest.rs\<close>). Signing, parsing of public keys and the check
  of a signature are third-party and arguments.
\<close>

section \<open>Attestations\<close>

record cache_attestation =
  att_schema_version :: u8
  att_cache_key_hash :: bytes
  att_token_count :: u32
  att_worker_id :: string
  att_timestamp_tick :: u64
  att_signature :: bytes

definition compute_canonical_bytes :: "u8 \<Rightarrow> bytes \<Rightarrow> u32 \<Rightarrow> string \<Rightarrow> u64 \<Rightarrow> bytes" where
  "compute_canonical_bytes schema_version cache_key_hash token_count worker_id timestamp_tick =
     [schema_version] @ cache_key_hash @ le_bytes 4 token_count @
     le_bytes 4 (of_nat (length (str_bytes worker_id)) :: u32) @ str_bytes worker_id @
     le_bytes 8 timestamp_tick"

definition attestation_bytes :: "cache_attestation \<Rightarrow> bytes" where
  "attestation_bytes a =
     compute_canonical_bytes (att_schema_version a) (att_cache_key_hash a) (att_token_count a)
       (att_worker_id a) (att_timestamp_tick a)"

definition attestation_verify ::
  "(bytes \<Rightarrow> (string, 'vk) result) \<Rightarrow> ('vk \<Rightarrow> bytes \<Rightarrow> bytes \<Rightarrow> (string, unit) result) \<Rightarrow>
   cache_attestation \<Rightarrow> bytes \<Rightarrow> (aos_error, unit) result" where
  "attestation_verify parse_key verify_sig a public_key =
     (if att_schema_version a \<noteq> 1 then
        Err (ECrypto (''Unsupported cache attestation schema version: '' @
          show_nat (unat (att_schema_version a)) @ '' (expected 1)''))
      else
        (case parse_key public_key of
           Err e \<Rightarrow> Err (ECrypto (''Invalid public key: '' @ e))
         | Ok vk \<Rightarrow>
             (case verify_sig vk (attestation_bytes a) (att_signature a) of
                Err e \<Rightarrow> Err (ECrypto (''Cache attestation signature verification failed: '' @ e))
              | Ok _ \<Rightarrow> Ok ())))"

record attestation_builder =
  ab_cache_key_hash :: "bytes option"
  ab_token_count :: "u32 option"
  ab_worker_id :: "string option"
  ab_timestamp_tick :: "u64 option"

definition attestation_builder_new :: attestation_builder where
  "attestation_builder_new =
     \<lparr>ab_cache_key_hash = None, ab_token_count = None, ab_worker_id = None, ab_timestamp_tick = None\<rparr>"

definition ab_with_cache_key :: "bytes \<Rightarrow> attestation_builder \<Rightarrow> attestation_builder" where
  "ab_with_cache_key h ab = ab\<lparr>ab_cache_key_hash := Some h\<rparr>"

definition ab_with_token_count :: "u32 \<Rightarrow> attestation_builder \<Rightarrow> attestation_builder" where
  "ab_with_token_count n ab = ab\<lparr>ab_token_count := Some n\<rparr>"

definition ab_with_worker_id :: "string \<Rightarrow> attestation_builder \<Rightarrow> attestation_builder" where
  "ab_with_worker_id w ab = ab\<lparr>ab_worker_id := Some w\<rparr>"

definition ab_with_timestamp_tick :: "u64 \<Rightarrow> attestation_builder \<Rightarrow> attestation_builder" where
  "ab_with_timestamp_tick t ab = ab\<lparr>ab_timestamp_tick := Some t\<rparr>"

definition build_and_sign ::
  "(bytes \<Rightarrow> bytes \<Rightarrow> bytes) \<Rightarrow> attestation_builder \<Rightarrow> bytes \<Rightarrow> (aos_error, cache_attestation) result" where
  "build_and_sign sign ab signing_key =
     (case ab_cache_key_hash ab of
        None \<Rightarrow> Err (EValidation ''cache_key_hash is required'')
      | Some key_hash \<Rightarrow>
          (case ab_token_count ab of
             None \<Rightarrow> Err (EValidation ''token_count is required'')
           | Some n \<Rightarrow>
               (case ab_worker_id ab of
                  None \<Rightarrow> Err (EValidation ''worker_id is required'')
                | Some w \<Rightarrow>
                    (case ab_timestamp_tick ab of
                       None \<Rightarrow> Err (EValidation ''timestamp_tick is required'')
                     | Some t \<Rightarrow>
                         Ok \<lparr>att_schema_version = 1, att_cache_key_hash = key_hash, att_token_count = n,
                             att_worker_id = w, att_timestamp_tick = t,
                             att_signature = sign signing_key (compute_canonical_bytes 1 key_hash n w t)\<rparr>))))"

definition create_cache_attestation ::
  "(bytes \<Rightarrow> bytes \<Rightarrow> bytes) \<Rightarrow> bytes \<Rightarrow> u32 \<Rightarrow> string \<Rightarrow> u64 \<Rightarrow> bytes \<Rightarrow> (aos_error, cache_attestation) result" where
  "create_cache_attestation sign key_hash n w t signing_key =
     build_and_sign sign
       (ab_with_timestamp_tick t (ab_with_worker_id w (ab_with_token_count n
         (ab_with_cache_key key_hash attestation_builder_new)))) signing_key"

section \<open>Context digest\<close>

definition compute_context_digest_bytes ::
  "string \<Rightarrow> bytes \<Rightarrow> bytes option \<Rightarrow> string option \<Rightarrow> string option \<Rightarrow> u32 list \<Rightarrow> bytes" where
  "compute_context_digest_bytes namespace stack_hash tokenizer version normalization tokens =
     str_bytes namespace @ stack_hash @
     (case tokenizer of
        None \<Rightarrow> []
      | Some h \<Rightarrow> h @
          (case version of None \<Rightarrow> [] | Some v \<Rightarrow> concat (prefixed (str_bytes v))) @
          (case normalization of None \<Rightarrow> [] | Some n \<Rightarrow> concat (prefixed (str_bytes n)))) @
     le_bytes 4 (of_nat (length tokens) :: u32) @ concat (map (le_bytes 4) tokens)"

definition compute_context_digest ::
  "hash_fn \<Rightarrow> string \<Rightarrow> bytes \<Rightarrow> bytes option \<Rightarrow> string option \<Rightarrow> string option \<Rightarrow> u32 list \<Rightarrow> b3hash" where
  "compute_context_digest H namespace stack_hash tokenizer version normalization tokens =
     b3_hash H (compute_context_digest_bytes namespace stack_hash tokenizer version normalization tokens)"

section \<open>Results of a lookup\<close>

datatype cache_miss_reason =
  NoMatchingPrefix | IntegrityValidationFailed | MaxPrefixLengthReached | EmptyInput

definition miss_reason_display :: "cache_miss_reason \<Rightarrow> string" where
  "miss_reason_display r =
     (case r of
        NoMatchingPrefix \<Rightarrow> ''no matching prefix in cache''
      | IntegrityValidationFailed \<Rightarrow> ''cache entry integrity failed''
      | MaxPrefixLengthReached \<Rightarrow> ''max prefix length reached''
      | EmptyInput \<Rightarrow> ''empty input tokens'')"

record cache_lookup_result =
  cl_cache_hit :: bool
  cl_cache_id :: "b3hash option"
  cl_cached_token_count :: u32
  cl_tokens_to_compute :: u32
  cl_total_input_tokens :: u32
  cl_cached_kv_bytes :: u64
  cl_is_exact_match :: bool
  cl_miss_reason :: "cache_miss_reason option"
  cl_attestation :: "cache_attestation option"

definition lookup_miss :: "u32 \<Rightarrow> cache_miss_reason \<Rightarrow> cache_lookup_result" where
  "lookup_miss total_tokens reason =
     \<lparr>cl_cache_hit = False, cl_cache_id = None, cl_cached_token_count = 0, cl_tokens_to_compute = total_tokens,
      cl_total_input_tokens = total_tokens, cl_cached_kv_bytes = 0, cl_is_exact_match = False,
      cl_miss_reason = Some reason, cl_attestation = None\<rparr>"

definition sat_sub32 :: "u32 \<Rightarrow> u32 \<Rightarrow> u32" where
  "sat_sub32 a b = (if b \<le> a then a - b else 0)"

definition lookup_hit :: "b3hash \<Rightarrow> u32 \<Rightarrow> u32 \<Rightarrow> u64 \<Rightarrow> bool \<Rightarrow> cache_lookup_result" where
  "lookup_hit cache_id cached total_tokens kv_bytes exact =
     \<lparr>cl_cache_hit = True, cl_cache_id = Some cache_id, cl_cached_token_count = cached,
      cl_tokens_to_compute = sat_sub32 total_tokens cached, cl_total_input_tokens = total_tokens,
      cl_cached_kv_bytes = kv_bytes, cl_is_exact_match = exact, cl_miss_reason = None,
      cl_attestation = None\<rparr>"

definition hit_with_attestation ::
  "(bytes \<Rightarrow> bytes \<Rightarrow> bytes) \<Rightarrow> b3hash \<Rightarrow> u32 \<Rightarrow> u32 \<Rightarrow> u64 \<Rightarrow> bool \<Rightarrow> string \<Rightarrow> u64 \<Rightarrow> bytes \<Rightarrow>
   (aos_error, cache_lookup_result) result" where
  "hit_with_attestation sign cache_id cached total_tokens kv_bytes exact worker_id tick signing_key =
     (case build_and_sign sign
        (ab_with_timestamp_tick tick (ab_with_worker_id worker_id (ab_with_token_count cached
          (ab_with_cache_key cache_id attestation_builder_new)))) signing_key of
        Err e \<Rightarrow> Err e
      | Ok a \<Rightarrow> Ok ((lookup_hit cache_id cached total_tokens kv_bytes exact)\<lparr>cl_attestation := Some a\<rparr>))"

definition with_attestation :: "cache_attestation \<Rightarrow> cache_lookup_result \<Rightarrow> cache_lookup_result" where
  "with_attestation a r = r\<lparr>cl_attestation := Some a\<rparr>"

definition billed_input_tokens :: "cache_lookup_result \<Rightarrow> u32" where
  "billed_input_tokens r = cl_tokens_to_compute r"

record cache_lookup_config =
  lc_min_match_tokens :: u32
  lc_max_prefix_length :: u32

definition lookup_config_default :: cache_lookup_config where
  "lookup_config_default = \<lparr>lc_min_match_tokens = 1, lc_max_prefix_length = - 1\<rparr>"

definition entry_metadata_valid :: "prefix_kv_entry \<Rightarrow> b3hash \<Rightarrow> b3hash \<Rightarrow> b3hash \<Rightarrow> bool" where
  "entry_metadata_valid e context_digest tokenizer model \<longleftrightarrow>
     pk_context_digest e = context_digest \<and> pk_tokenizer_hash e = tokenizer \<and>
     pk_model_identity_hash e = model \<and> length (pk_keys e) = length (pk_values e) \<and> pk_keys e \<noteq> []"

section \<open>Lookups\<close>

text \<open>The tokens to search with and the reason of a miss, given the configured maximum.\<close>

definition effective_max :: "cache_lookup_config \<Rightarrow> u32 list \<Rightarrow> u32" where
  "effective_max cfg input = min (lc_max_prefix_length cfg) (of_nat (length input))"

definition search_tokens :: "cache_lookup_config \<Rightarrow> u32 list \<Rightarrow> u32 list" where
  "search_tokens cfg input =
     (if effective_max cfg input < of_nat (length input) then take (unat (effective_max cfg input)) input
      else input)"

definition no_match_reason :: "cache_lookup_config \<Rightarrow> u32 list \<Rightarrow> cache_miss_reason" where
  "no_match_reason cfg input =
     (if effective_max cfg input < of_nat (length input) then MaxPrefixLengthReached else NoMatchingPrefix)"

definition cache_prefix_lookup ::
  "hash_fn \<Rightarrow> prefix_kv_cache \<Rightarrow> u32 list \<Rightarrow> b3hash \<Rightarrow> b3hash \<Rightarrow> b3hash \<Rightarrow> bytes \<Rightarrow> cache_lookup_config \<Rightarrow>
   cache_lookup_result \<times> prefix_kv_cache" where
  "cache_prefix_lookup H c input context_digest tokenizer model identity cfg =
     (let total_tokens = of_nat (length input) in
      if input = [] then (lookup_miss 0 EmptyInput, c)
      else
        (let exact_key = compute_prefix_kv_key H context_digest input tokenizer identity in
         case prefix_get H exact_key c of
           (Some e, c1) \<Rightarrow>
             if \<not> entry_metadata_valid e context_digest tokenizer model then
               (lookup_miss total_tokens IntegrityValidationFailed, snd (prefix_remove exact_key c1))
             else
               (lookup_hit exact_key (pk_prefix_cached_token_count e) total_tokens (pk_kv_bytes e) True, c1)
         | (None, c1) \<Rightarrow>
             (case find_longest_prefix_match H (search_tokens cfg input) context_digest tokenizer model
                (lc_min_match_tokens cfg) c1 of
                (Some pm, c2) \<Rightarrow>
                  if \<not> entry_metadata_valid (pm_entry pm) context_digest tokenizer model then
                    (lookup_miss total_tokens IntegrityValidationFailed, snd (prefix_remove (pm_cache_key pm) c2))
                  else
                    (lookup_hit (pm_cache_key pm) (pm_matched_token_count pm) total_tokens
                       (pk_kv_bytes (pm_entry pm)) (is_full_match pm), c2)
              | (None, c2) \<Rightarrow> (lookup_miss total_tokens (no_match_reason cfg input), c2))))"

record attested_lookup_config =
  al_lookup :: cache_lookup_config
  al_worker_id :: string
  al_signing_key :: bytes

definition cache_prefix_lookup_attested ::
  "(bytes \<Rightarrow> bytes \<Rightarrow> bytes) \<Rightarrow> hash_fn \<Rightarrow> prefix_kv_cache \<Rightarrow> u32 list \<Rightarrow> b3hash \<Rightarrow> b3hash \<Rightarrow> b3hash \<Rightarrow> bytes \<Rightarrow>
   attested_lookup_config \<Rightarrow> u64 \<Rightarrow> (aos_error, cache_lookup_result) result \<times> prefix_kv_cache" where
  "cache_prefix_lookup_attested sign H c input context_digest tokenizer model identity acfg tick =
     (let total_tokens = of_nat (length input); cfg = al_lookup acfg in
      if input = [] then (Ok (lookup_miss 0 EmptyInput), c)
      else
        (let exact_key = compute_prefix_kv_key H context_digest input tokenizer identity in
         case prefix_get H exact_key c of
           (Some e, c1) \<Rightarrow>
             if \<not> entry_metadata_valid e context_digest tokenizer model then
               (Ok (lookup_miss total_tokens IntegrityValidationFailed), snd (prefix_remove exact_key c1))
             else
               (hit_with_attestation sign exact_key (pk_prefix_cached_token_count e) total_tokens (pk_kv_bytes e)
                  True (al_worker_id acfg) tick (al_signing_key acfg), c1)
         | (None, c1) \<Rightarrow>
             (case find_longest_prefix_match H (search_tokens cfg input) context_digest tokenizer model
                (lc_min_match_tokens cfg) c1 of
                (Some pm, c2) \<Rightarrow>
                  if \<not> entry_metadata_valid (pm_entry pm) context_digest tokenizer model then
                    (Ok (lookup_miss total_tokens IntegrityValidationFailed),
                     snd (prefix_remove (pm_cache_key pm) c2))
                  else
                    (hit_with_attestation sign (pm_cache_key pm) (pm_matched_token_count pm) total_tokens
                       (pk_kv_bytes (pm_entry pm)) (is_full_match pm) (al_worker_id acfg) tick
                       (al_signing_key acfg), c2)
              | (None, c2) \<Rightarrow> (Ok (lookup_miss total_tokens (no_match_reason cfg input)), c2))))"

record cache_entry_handle =
  ch_entry :: prefix_kv_entry
  ch_cache_key :: b3hash
  ch_matched_token_count :: u32

definition from_prefix_match :: "prefix_match \<Rightarrow> cache_entry_handle" where
  "from_prefix_match pm =
     \<lparr>ch_entry = pm_entry pm, ch_cache_key = pm_cache_key pm,
      ch_matched_token_count = pm_matched_token_count pm\<rparr>"

definition from_exact_match :: "prefix_kv_entry \<Rightarrow> b3hash \<Rightarrow> cache_entry_handle" where
  "from_exact_match e k =
     \<lparr>ch_entry = e, ch_cache_key = k, ch_matched_token_count = pk_prefix_cached_token_count e\<rparr>"

definition load_kv_tensors :: "cache_entry_handle \<Rightarrow> f32b list list \<times> f32b list list \<times> u32" where
  "load_kv_tensors h =
     (pk_keys (ch_entry h), pk_values (ch_entry h), pk_prefix_cached_token_count (ch_entry h))"

definition cache_prefix_lookup_with_tensors ::
  "hash_fn \<Rightarrow> prefix_kv_cache \<Rightarrow> u32 list \<Rightarrow> b3hash \<Rightarrow> b3hash \<Rightarrow> b3hash \<Rightarrow> bytes \<Rightarrow> cache_lookup_config \<Rightarrow>
   (cache_lookup_result \<times> cache_entry_handle option) \<times> prefix_kv_cache" where
  "cache_prefix_lookup_with_tensors H c input context_digest tokenizer model identity cfg =
     (let total_tokens = of_nat (length input) in
      if input = [] then ((lookup_miss 0 EmptyInput, None), c)
      else
        (let exact_key = compute_prefix_kv_key H context_digest input tokenizer identity in
         case prefix_get H exact_key c of
           (Some e, c1) \<Rightarrow>
             if entry_metadata_valid e context_digest tokenizer model then
               ((lookup_hit exact_key (pk_prefix_cached_token_count e) total_tokens (pk_kv_bytes e) True,
                 Some (from_exact_match e exact_key)), c1)
             else
               ((lookup_miss total_tokens IntegrityValidationFailed, None), snd (prefix_remove exact_key c1))
         | (None, c1) \<Rightarrow>
             (case find_longest_prefix_match H (search_tokens cfg input) context_digest tokenizer model
                (lc_min_match_tokens cfg) c1 of
                (Some pm, c2) \<Rightarrow>
                  if entry_metadata_valid (pm_entry pm) context_digest tokenizer model then
                    ((lookup_hit (pm_cache_key pm) (pm_matched_token_count pm) total_tokens
                        (pk_kv_bytes (pm_entry pm)) (is_full_match pm), Some (from_prefix_match pm)), c2)
                  else
                    ((lookup_miss total_tokens IntegrityValidationFailed, None),
                     snd (prefix_remove (pm_cache_key pm) c2))
              | (None, c2) \<Rightarrow> ((lookup_miss total_tokens (no_match_reason cfg input), None), c2))))"

section \<open>The three lookups agree\<close>

lemma build_and_sign_eq:
  "build_and_sign sign (ab_with_timestamp_tick t (ab_with_worker_id w (ab_with_token_count n
     (ab_with_cache_key k attestation_builder_new)))) signing_key =
   Ok \<lparr>att_schema_version = 1, att_cache_key_hash = k, att_token_count = n, att_worker_id = w,
       att_timestamp_tick = t, att_signature = sign signing_key (compute_canonical_bytes 1 k n w t)\<rparr>"
  by (simp add: build_and_sign_def ab_with_timestamp_tick_def ab_with_worker_id_def ab_with_token_count_def
      ab_with_cache_key_def)

lemma result_fields [simp]:
  "cl_cache_hit (lookup_hit k n t b x)" "\<not> cl_cache_hit (lookup_miss t r)"
  "cl_attestation (lookup_hit k n t b x) = None" "cl_attestation (lookup_miss t r) = None"
  "cl_cache_id (lookup_hit k n t b x) = Some k" "cl_cache_id (lookup_miss t r) = None"
  "cl_cached_token_count (lookup_hit k n t b x) = n" "cl_cached_token_count (lookup_miss t r) = 0"
  "billed_input_tokens (lookup_hit k n t b x) = sat_sub32 t n" "billed_input_tokens (lookup_miss t r) = t"
  "(lookup_hit k n t b x)\<lparr>cl_attestation := None\<rparr> = lookup_hit k n t b x"
  "(lookup_miss t r)\<lparr>cl_attestation := None\<rparr> = lookup_miss t r"
  by (simp_all add: lookup_hit_def lookup_miss_def billed_input_tokens_def)

text \<open>The attestation that a worker signs for a lookup result.\<close>

definition attests ::
  "(bytes \<Rightarrow> bytes \<Rightarrow> bytes) \<Rightarrow> attested_lookup_config \<Rightarrow> u64 \<Rightarrow> cache_lookup_result \<Rightarrow> bool" where
  "attests sign acfg tick r \<longleftrightarrow>
     cl_attestation r =
       map_option (\<lambda>k. \<lparr>att_schema_version = 1, att_cache_key_hash = k,
         att_token_count = cl_cached_token_count r, att_worker_id = al_worker_id acfg, att_timestamp_tick = tick,
         att_signature = sign (al_signing_key acfg)
           (compute_canonical_bytes 1 k (cl_cached_token_count r) (al_worker_id acfg) tick)\<rparr>) (cl_cache_id r)"

lemma hit_with_attestation_eq:
  "\<exists>r. hit_with_attestation sign k n t b x (al_worker_id acfg) tick (al_signing_key acfg) = Ok r \<and>
     r\<lparr>cl_attestation := None\<rparr> = lookup_hit k n t b x \<and> attests sign acfg tick r"
  by (simp add: hit_with_attestation_def build_and_sign_eq attests_def lookup_hit_def)

text \<open>
  The three forms of the lookup agree: they change the cache in the same way and report
  the same result; the attested form never fails, and its result carries a signed
  attestation of the key and the number of tokens exactly when there is a hit; the form with
  tensors hands out the entry that the result names.
\<close>

theorem lookups_agree:
  "(let plain = cache_prefix_lookup H c input context_digest tokenizer model identity (al_lookup acfg);
        tensors = cache_prefix_lookup_with_tensors H c input context_digest tokenizer model identity (al_lookup acfg);
        attested = cache_prefix_lookup_attested sign H c input context_digest tokenizer model identity acfg tick in
    fst (fst tensors) = fst plain \<and> snd tensors = snd plain \<and> snd attested = snd plain \<and>
    (\<exists>r. fst attested = Ok r \<and> r\<lparr>cl_attestation := None\<rparr> = fst plain \<and> attests sign acfg tick r) \<and>
    map_option (\<lambda>h. (ch_cache_key h, ch_matched_token_count h)) (snd (fst tensors)) =
      map_option (\<lambda>k. (k, cl_cached_token_count (fst plain))) (cl_cache_id (fst plain)))"
proof -
  have miss: "attests sign acfg tick (lookup_miss t r)" for t r by (simp add: attests_def)
  show ?thesis
  proof (cases "input = []")
    case False
    obtain r1 c1 where get: "prefix_get H (compute_prefix_kv_key H context_digest input tokenizer identity) c = (r1, c1)"
      by fastforce
    obtain r2 c2 where find: "find_longest_prefix_match H (search_tokens (al_lookup acfg) input) context_digest
        tokenizer model (lc_min_match_tokens (al_lookup acfg)) c1 = (r2, c2)" by fastforce
    from False show ?thesis
      using get find hit_with_attestation_eq miss
      by (cases r1; cases r2)
        (simp_all add: cache_prefix_lookup_def cache_prefix_lookup_with_tensors_def
          cache_prefix_lookup_attested_def Let_def from_exact_match_def from_prefix_match_def)
  qed (use miss in \<open>simp add: cache_prefix_lookup_def cache_prefix_lookup_with_tensors_def
      cache_prefix_lookup_attested_def\<close>)
qed

section \<open>Keys identify prefixes\<close>

definition key_bytes :: "b3hash \<Rightarrow> u32 list \<Rightarrow> b3hash \<Rightarrow> bytes \<Rightarrow> bytes" where
  "key_bytes context_digest tokens tokenizer identity =
     context_digest @ encode_prefix_tokens tokens @ tokenizer @ identity"

lemma encode_prefix_tokens_cancel:
  assumes "length ts < 2 ^ 32" "length us < 2 ^ 32"
  shows "encode_prefix_tokens ts @ x = encode_prefix_tokens us @ y \<longleftrightarrow> ts = us \<and> x = y"
proof
  assume e: "encode_prefix_tokens ts @ x = encode_prefix_tokens us @ y"
  then have len: "length ts = length us"
    using of_nat_length_inject [OF assms] by (simp add: encode_prefix_tokens_def le_bytes_inject)
  have size: "length (concat (map (le_bytes 4) (ws :: u32 list))) = 4 * length ws" for ws
    by (induction ws) simp_all
  from e len have "concat (map (le_bytes 4) ts) = concat (map (le_bytes 4) us) \<and> x = y"
    by (simp add: encode_prefix_tokens_def size)
  then show "ts = us \<and> x = y" using concat_le_bytes_inject [of 4 ts us] by simp
qed simp

lemma key_bytes_inject:
  assumes "length a = length b" "length s = length t" "length ts < 2 ^ 32" "length us < 2 ^ 32"
  shows "key_bytes a ts s i = key_bytes b us t j \<longleftrightarrow> a = b \<and> ts = us \<and> s = t \<and> i = j"
  using assms encode_prefix_tokens_cancel [OF assms(3,4)] by (auto simp: key_bytes_def)

text \<open>Every entry is filed under the key of its own prefix.\<close>

definition filed :: "hash_fn \<Rightarrow> (b3hash \<Rightarrow> bytes) \<Rightarrow> (b3hash \<times> prefix_kv_entry) list \<Rightarrow> bool" where
  "filed H ident m = list_all (\<lambda>(k, e).
     k = compute_prefix_kv_key H (pk_context_digest e) (pk_prefix_tokens e) (pk_tokenizer_hash e)
           (ident (pk_model_identity_hash e)) \<and>
     length (pk_context_digest e) = 32 \<and> length (pk_tokenizer_hash e) = 32 \<and>
     length (pk_prefix_tokens e) < 2 ^ 32 \<and>
     pk_prefix_cached_token_count e = of_nat (length (pk_prefix_tokens e))) m"

definition filed_bytes :: "(b3hash \<Rightarrow> bytes) \<Rightarrow> (b3hash \<times> prefix_kv_entry) list \<Rightarrow> bytes set" where
  "filed_bytes ident m =
     (\<lambda>(k, e). key_bytes (pk_context_digest e) (pk_prefix_tokens e) (pk_tokenizer_hash e)
        (ident (pk_model_identity_hash e))) ` set m"

lemma exact_key_same_tokens:
  assumes "filed H ident m" "(compute_prefix_kv_key H context_digest input tokenizer identity, e) \<in> set m"
    and "length context_digest = 32" "length tokenizer = 32" "length input < 2 ^ 32"
    and "inj_on H (insert (key_bytes context_digest input tokenizer identity) (filed_bytes ident m))"
  shows "pk_prefix_tokens e = input \<and> pk_prefix_cached_token_count e = of_nat (length input)"
proof -
  let ?mine = "key_bytes context_digest input tokenizer identity"
  let ?its = "key_bytes (pk_context_digest e) (pk_prefix_tokens e) (pk_tokenizer_hash e)
    (ident (pk_model_identity_hash e))"
  have e: "H ?mine = H ?its" "length (pk_context_digest e) = 32" "length (pk_tokenizer_hash e) = 32"
      "length (pk_prefix_tokens e) < 2 ^ 32" "pk_prefix_cached_token_count e = of_nat (length (pk_prefix_tokens e))"
    using assms(1,2) by (auto simp: filed_def list_all_iff compute_prefix_kv_key_def key_bytes_def)
  have "?its \<in> filed_bytes ident m" using assms(2) by (force simp: filed_bytes_def)
  then have "?mine = ?its" using e(1) assms(6) by (simp add: inj_on_def)
  then show ?thesis using e assms(3-5) by (simp add: key_bytes_inject)
qed

section \<open>What a hit is worth\<close>

lemma record_access_fields [simp]:
  "pk_prefix_cached_token_count (record_access t e) = pk_prefix_cached_token_count e"
  "pk_kv_bytes (record_access t e) = pk_kv_bytes e" "pk_prefix_tokens (record_access t e) = pk_prefix_tokens e"
  "entry_metadata_valid (record_access t e) a b d = entry_metadata_valid e a b d"
  "same_model (record_access t e) a b d = same_model e a b d"
  by (simp_all add: record_access_def entry_metadata_valid_def same_model_def)

lemma prefix_get_miss:
  "prefix_get H k c = (None, c1) \<Longrightarrow> pc_entries c1 = pc_entries c \<and> pc_current_tick c1 = pc_current_tick c"
  by (auto simp: prefix_get_def count_miss_def count_integrity_failures_def split: option.splits if_splits)

lemma lookup_cases:
  assumes "input \<noteq> []" and lookup: "cache_prefix_lookup H c input context_digest tokenizer model identity cfg = (r, c')"
  obtains (exact) e where
      "(compute_prefix_kv_key H context_digest input tokenizer identity, e) \<in> set (pc_entries c)"
      "verify_integrity H e" "entry_metadata_valid e context_digest tokenizer model"
      "r = lookup_hit (compute_prefix_kv_key H context_digest input tokenizer identity)
         (pk_prefix_cached_token_count e) (of_nat (length input)) (pk_kv_bytes e) True"
  | (matched) pm c1 where "pc_entries c1 = pc_entries c"
      "fst (find_longest_prefix_match H (search_tokens cfg input) context_digest tokenizer model
         (lc_min_match_tokens cfg) c1) = Some pm"
      "r = lookup_hit (pm_cache_key pm) (pm_matched_token_count pm) (of_nat (length input))
         (pk_kv_bytes (pm_entry pm)) (is_full_match pm)"
  | (missed) reason where "r = lookup_miss (of_nat (length input)) reason"
proof -
  let ?key = "compute_prefix_kv_key H context_digest input tokenizer identity"
  obtain r1 c1 where get: "prefix_get H ?key c = (r1, c1)" by fastforce
  show thesis
  proof (cases r1)
    case (Some e1)
    then obtain e where "map_of (pc_entries c) ?key = Some e" "verify_integrity H e"
        "e1 = record_access (pc_current_tick c + 1) e"
      using get by (auto simp: prefix_get_def split: option.splits if_splits)
    with Some show thesis
      using exact [of e] missed lookup get assms(1) map_of_SomeD
      by (fastforce simp: cache_prefix_lookup_def Let_def split: if_splits)
  next
    case None
    obtain r2 c2 where find: "find_longest_prefix_match H (search_tokens cfg input) context_digest tokenizer model
        (lc_min_match_tokens cfg) c1 = (r2, c2)" by fastforce
    show thesis
      using matched [of c1] missed lookup get None find assms(1) prefix_get_miss [of H ?key c c1]
      by (cases r2) (auto simp: cache_prefix_lookup_def Let_def split: if_splits)
  qed
qed

lemma search_tokens_take: "\<exists>n. search_tokens cfg input = take n input"
  by (auto simp: search_tokens_def intro: exI [of _ "length input"])

lemma prefix_take: "prefix l xs \<Longrightarrow> take (length l) xs = l"
  by (auto simp: prefix_def)

lemma matched_tokens:
  assumes "length input < 2 ^ 32" "1 \<le> min_match" "bt_ok (pc_entries c)"
    and "fst (find_longest_prefix_match H (search_tokens cfg input) context_digest tokenizer model min_match c) = Some pm"
  obtains e where "map_of (pc_entries c) (pm_cache_key pm) = Some e" "verify_integrity H e"
    "same_model e context_digest tokenizer model" "unat (pm_matched_token_count pm) \<le> length input"
    "take (unat (pm_matched_token_count pm)) (pk_prefix_tokens e) = take (unat (pm_matched_token_count pm)) input"
proof -
  obtain n where n: "search_tokens cfg input = take n input" using search_tokens_take by blast
  have ne: "search_tokens cfg input \<noteq> []"
    using assms(4) by (auto simp: find_longest_prefix_match_def)
  have len: "length (search_tokens cfg input) < 2 ^ 32" using assms(1) by (simp add: n)
  obtain e where e: "map_of (pc_entries c) (pm_cache_key pm) = Some e" "verify_integrity H e"
      "same_model e context_digest tokenizer model"
      "unat (pm_matched_token_count pm) =
         length (longest_common_prefix (pk_prefix_tokens e) (search_tokens cfg input))"
    using match_entry [OF ne len assms(2,3,4)] by blast
  let ?l = "longest_common_prefix (pk_prefix_tokens e) (search_tokens cfg input)"
  have pre: "prefix ?l (pk_prefix_tokens e)" "prefix ?l input"
    using longest_common_prefix_prefix1 longest_common_prefix_prefix2 [of "pk_prefix_tokens e" "search_tokens cfg input"]
      take_is_prefix [of n input] prefix_order.trans unfolding n by blast+
  have "take (length ?l) (pk_prefix_tokens e) = ?l" "take (length ?l) input = ?l"
    using prefix_take [OF pre(1)] prefix_take [OF pre(2)] .
  with e show thesis using that [of e] prefix_length_le [OF pre(2)] by simp
qed

lemma sat_sub32_total:
  assumes "length input < 2 ^ 32" "unat n \<le> length (input :: 'a list)"
  shows "unat n + unat (sat_sub32 (of_nat (length input)) n) = length input"
proof -
  have "unat (of_nat (length input) :: u32) = length input" using assms(1) by (simp add: unat_of_nat)
  then show ?thesis using assms(2) by (simp add: sat_sub32_def unat_sub word_le_nat_alt)
qed

text \<open>
  (C39) Credits are earned: what a lookup credits as cached and what it leaves to be computed
  add up to the prompt. A hit names an undamaged entry of the same context, tokenizer and model
  whose first tokens are the credited tokens of the prompt, when entries are filed under the
  keys of their prefixes, the digest does not collide on the keys at hand and at least one
  token is asked for.
\<close>

theorem cache_credit_earned:
  assumes "length input < 2 ^ 32" "1 \<le> lc_min_match_tokens cfg" "bt_ok (pc_entries c)"
    and "filed H ident (pc_entries c)" "length context_digest = 32" "length tokenizer = 32"
    and "inj_on H (insert (key_bytes context_digest input tokenizer identity) (filed_bytes ident (pc_entries c)))"
    and "cache_prefix_lookup H c input context_digest tokenizer model identity cfg = (r, c')"
  shows "unat (cl_cached_token_count r) + unat (billed_input_tokens r) = length input \<and>
    (cl_cache_hit r \<longrightarrow> (\<exists>k e. cl_cache_id r = Some k \<and> map_of (pc_entries c) k = Some e \<and>
       verify_integrity H e \<and> same_model e context_digest tokenizer model \<and>
       take (unat (cl_cached_token_count r)) (pk_prefix_tokens e) = take (unat (cl_cached_token_count r)) input))"
proof (cases "input = []")
  case True
  then show ?thesis using assms(8) by (auto simp: cache_prefix_lookup_def)
next
  case False
  have total: "unat (of_nat (length input) :: u32) = length input" using assms(1) by (simp add: unat_of_nat)
  show ?thesis
  using False assms(8)
  proof (cases rule: lookup_cases)
    case (exact e)
    then have "pk_prefix_tokens e = input" "pk_prefix_cached_token_count e = of_nat (length input)"
      using exact_key_same_tokens [OF assms(4) _ assms(5,6,1,7)] by blast+
    then show ?thesis
      using exact btree_map.entry_lookup [OF assms(3)] total
      by (auto simp: sat_sub32_def entry_metadata_valid_def same_model_def)
  next
    case (matched pm c1)
    then obtain e where "map_of (pc_entries c) (pm_cache_key pm) = Some e" "verify_integrity H e"
        "same_model e context_digest tokenizer model" "unat (pm_matched_token_count pm) \<le> length input"
        "take (unat (pm_matched_token_count pm)) (pk_prefix_tokens e) = take (unat (pm_matched_token_count pm)) input"
      using matched_tokens [OF assms(1,2), of c1 H cfg] assms(3) by metis
    then show ?thesis using matched(3) sat_sub32_total [OF assms(1)] by auto
  next
    case (missed reason)
    then show ?thesis using total by simp
  qed
qed

section \<open>Contexts of the worker\<close>

lemma context_bytes_inject:
  assumes "length s = length t" "length ts < 2 ^ 32" "length us < 2 ^ 32"
  shows "compute_context_digest_bytes ns s (Some h) None None ts =
      compute_context_digest_bytes ns t (Some h) None None us \<longleftrightarrow> s = t \<and> ts = us"
  using assms encode_prefix_tokens_cancel [OF assms(2,3), of "[]" "[]"]
  by (auto simp: compute_context_digest_bytes_def encode_prefix_tokens_def)

text \<open>Entries that the worker made: their context is the digest that includes their prompt.\<close>

definition prompt_contexts ::
  "hash_fn \<Rightarrow> string \<Rightarrow> bytes \<Rightarrow> (b3hash \<Rightarrow> bytes) \<Rightarrow> (b3hash \<times> prefix_kv_entry) list \<Rightarrow> bool" where
  "prompt_contexts H ns tokenizer stack_of m = list_all (\<lambda>(k, e).
     pk_context_digest e =
       compute_context_digest H ns (stack_of k) (Some tokenizer) None None (pk_prefix_tokens e) \<and>
     length (stack_of k) = 32 \<and> length (pk_prefix_tokens e) < 2 ^ 32) m"

definition context_inputs :: "string \<Rightarrow> bytes \<Rightarrow> (b3hash \<Rightarrow> bytes) \<Rightarrow> (b3hash \<times> prefix_kv_entry) list \<Rightarrow> bytes set" where
  "context_inputs ns tokenizer stack_of m =
     (\<lambda>(k, e). compute_context_digest_bytes ns (stack_of k) (Some tokenizer) None None (pk_prefix_tokens e)) ` set m"

lemma same_context_same_prompt:
  assumes "prompt_contexts H ns th stack_of m" "(k, e) \<in> set m"
    and "pk_context_digest e = compute_context_digest H ns stack (Some th) None None input"
    and "length stack = 32" "length input < 2 ^ 32"
    and "inj_on H (insert (compute_context_digest_bytes ns stack (Some th) None None input)
          (context_inputs ns th stack_of m))"
  shows "pk_prefix_tokens e = input"
proof -
  have e: "pk_context_digest e = compute_context_digest H ns (stack_of k) (Some th) None None (pk_prefix_tokens e)"
      "length (stack_of k) = 32" "length (pk_prefix_tokens e) < 2 ^ 32"
    using assms(1,2) by (auto simp: prompt_contexts_def list_all_iff)
  have "compute_context_digest_bytes ns (stack_of k) (Some th) None None (pk_prefix_tokens e)
      \<in> context_inputs ns th stack_of m"
    using assms(2) by (force simp: context_inputs_def)
  then have "compute_context_digest_bytes ns stack (Some th) None None input =
      compute_context_digest_bytes ns (stack_of k) (Some th) None None (pk_prefix_tokens e)"
    using assms(3,6) e(1) by (simp add: compute_context_digest_def b3_hash_def inj_on_def)
  then show ?thesis using e assms(4,5) context_bytes_inject by metis
qed

text \<open>
  Prefixes are not shared in the worker: it looks prompts up under a context digest that
  contains the whole prompt, so a hit is always on the entry of the very same prompt, and the
  search for the longest common prefix never finds a shorter one.
\<close>

theorem hits_are_whole_prompts:
  assumes "length input < 2 ^ 32" "1 \<le> lc_min_match_tokens cfg" "bt_ok (pc_entries c)" "length stack = 32"
    and "prompt_contexts H ns th stack_of (pc_entries c)"
    and "inj_on H (insert (compute_context_digest_bytes ns stack (Some th) None None input)
          (context_inputs ns th stack_of (pc_entries c)))"
    and "cache_prefix_lookup H c input (compute_context_digest H ns stack (Some th) None None input)
           tokenizer model identity cfg = (r, c')"
    and "cl_cache_hit r"
  shows "\<exists>k e. cl_cache_id r = Some k \<and> map_of (pc_entries c) k = Some e \<and> pk_prefix_tokens e = input"
proof -
  note same = same_context_same_prompt [OF assms(5) _ _ assms(4,1,6)]
  have "input \<noteq> []" using assms(7,8) by (auto simp: cache_prefix_lookup_def)
  then show ?thesis using assms(7)
  proof (cases rule: lookup_cases)
    case (exact e)
    then show ?thesis
      using same [of _ e] btree_map.entry_lookup [OF assms(3)] by (auto simp: entry_metadata_valid_def)
  next
    case (matched pm c1)
    then obtain e where "map_of (pc_entries c) (pm_cache_key pm) = Some e"
        "same_model e (compute_context_digest H ns stack (Some th) None None input) tokenizer model"
      using matched_tokens [OF assms(1,2), of c1 H cfg] assms(3) by metis
    then show ?thesis
      using matched(3) same [OF map_of_SomeD] by (auto simp: same_model_def)
  next
    case (missed reason)
    with assms(8) show ?thesis by simp
  qed
qed

section \<open>Two surprises of the configuration\<close>

lemma lookup_single:
  assumes "input \<noteq> []" "pc_entries c = [(k, e)]" "k \<noteq> compute_prefix_kv_key H context_digest input tokenizer identity"
    and "supports_prefix_matching e" "verify_integrity H e" "search_tokens cfg input \<noteq> []"
    and "lc_min_match_tokens cfg \<le>
      compute_prefix_match_length e (search_tokens cfg input) context_digest tokenizer model"
  shows "\<exists>c2 e2. pc_entries c2 = [(k, e2)] \<and>
    cache_prefix_lookup H c input context_digest tokenizer model identity cfg =
     (let n = compute_prefix_match_length e (search_tokens cfg input) context_digest tokenizer model in
      if entry_metadata_valid e context_digest tokenizer model then
        (lookup_hit k n (of_nat (length input)) (pk_kv_bytes e) (of_nat (length (search_tokens cfg input)) = n), c2)
      else (lookup_miss (of_nat (length input)) IntegrityValidationFailed, snd (prefix_remove k c2)))"
proof -
  have get: "prefix_get H (compute_prefix_kv_key H context_digest input tokenizer identity) c = (None, count_miss c)"
    using assms(2,3) by (simp add: prefix_get_def)
  have "pc_entries (count_miss c) = [(k, e)]" using assms(2) by (simp add: count_miss_def)
  then show ?thesis
    using assms get
    by (auto simp: cache_prefix_lookup_def Let_def find_longest_prefix_match_def is_better_def
        is_full_match_def touch_entry_def advance_tick_def count_hit_def am_update_def
        intro: exI [of _ "touch_entry k (count_miss c)"])
qed

text \<open>
  A truncated match is called exact: when the search is limited to fewer tokens than the
  prompt has and an entry covers all of those, the result says exact match although tokens
  remain to be computed.
\<close>

theorem truncated_match_is_called_exact:
  assumes "pc_entries c = [(k, e)]" "k \<noteq> compute_prefix_kv_key H context_digest input tokenizer identity"
    and "verify_integrity H e" "entry_metadata_valid e context_digest tokenizer model"
    and "length input < 2 ^ 32" "lc_max_prefix_length cfg = n" "0 < n" "unat n < length input"
    and "pk_prefix_tokens e = take (unat n) input" "lc_min_match_tokens cfg \<le> n"
  shows "(let r = fst (cache_prefix_lookup H c input context_digest tokenizer model identity cfg) in
    cl_is_exact_match r \<and> cl_cached_token_count r = n \<and> 0 < billed_input_tokens r)"
proof -
  have total: "unat (of_nat (length input) :: u32) = length input" using assms(5) by (simp add: unat_of_nat)
  then have eff: "effective_max cfg input = n" "n < of_nat (length input)"
    using assms(6,8) by (simp_all add: effective_max_def min_def word_le_nat_alt word_less_nat_alt)
  then have search: "search_tokens cfg input = take (unat n) input" by (simp add: search_tokens_def)
  have size: "length (take (unat n) input) = unat n" using assms(8) by simp
  have pos: "0 < unat n" using assms(7) by (simp add: word_less_nat_alt)
  then have ne: "take (unat n) input \<noteq> []" using assms(8) by auto
  have all: "takeWhile (\<lambda>(a, b). a = b) (zip xs xs) = zip xs xs" for xs :: "u32 list"
    by (induction xs) auto
  have len: "compute_prefix_match_length e (search_tokens cfg input) context_digest tokenizer model = n"
    using assms(4,9) ne
    by (simp add: compute_prefix_match_length_def supports_prefix_matching_def entry_metadata_valid_def
        search all size del: take_eq_Nil length_take)
  have "input \<noteq> []" using assms(8) by auto
  then obtain c2 where "cache_prefix_lookup H c input context_digest tokenizer model identity cfg =
      (lookup_hit k n (of_nat (length input)) (pk_kv_bytes e) True, c2)"
    using lookup_single [of input c k e H context_digest tokenizer identity cfg model] assms(1-4,10) len ne
    by (auto simp: search supports_prefix_matching_def assms(9) Let_def size simp del: take_eq_Nil length_take)
  then show ?thesis
    using eff(2) total assms(8)
    by (simp add: Let_def lookup_hit_def billed_input_tokens_def sat_sub32_def word_less_nat_alt word_le_nat_alt unat_sub)
qed

text \<open>
  Without a minimum a lookup throws out the entries of others: with a minimal match of
  zero tokens an undamaged entry of another context matches with no token, fails the check of
  its metadata, and is removed from the cache as corrupted.
\<close>

theorem zero_minimum_evicts_others:
  assumes "pc_entries c = [(k, e)]" "k \<noteq> compute_prefix_kv_key H context_digest input tokenizer identity"
    and "verify_integrity H e" "pk_prefix_tokens e \<noteq> []" "pk_context_digest e \<noteq> context_digest"
    and "input \<noteq> []" "search_tokens cfg input \<noteq> []" "lc_min_match_tokens cfg = 0"
  shows "(let (r, c') = cache_prefix_lookup H c input context_digest tokenizer model identity cfg in
    cl_miss_reason r = Some IntegrityValidationFailed \<and> pc_entries c' = [])"
proof -
  have invalid: "\<not> entry_metadata_valid e context_digest tokenizer model"
    using assms(5) by (simp add: entry_metadata_valid_def)
  have "supports_prefix_matching e" using assms(4) by (simp add: supports_prefix_matching_def)
  then obtain c2 e2 where c2: "pc_entries c2 = [(k, e2)]"
      "cache_prefix_lookup H c input context_digest tokenizer model identity cfg =
        (lookup_miss (of_nat (length input)) IntegrityValidationFailed, snd (prefix_remove k c2))"
    using lookup_single [OF assms(6,1,2) _ assms(3,7), of model] assms(8) invalid
    unfolding Let_def by auto
  then show ?thesis by (simp add: lookup_miss_def prefix_remove_def am_remove_def)
qed

section \<open>Signatures\<close>

lemma attestation_bytes_inject:
  assumes "length (att_cache_key_hash a) = 32" "length (att_cache_key_hash b) = 32"
    and "length (att_worker_id a) < 2 ^ 32" "length (att_worker_id b) < 2 ^ 32"
    and "attestation_bytes a = attestation_bytes b"
  shows "att_cache_key_hash a = att_cache_key_hash b \<and> att_token_count a = att_token_count b \<and>
    att_worker_id a = att_worker_id b \<and> att_timestamp_tick a = att_timestamp_tick b"
proof -
  have len: "length (str_bytes s) = length s" for s by (simp add: str_bytes_def)
  have "att_cache_key_hash a = att_cache_key_hash b" "att_token_count a = att_token_count b"
    and rest: "concat (prefixed (str_bytes (att_worker_id a))) @ le_bytes 8 (att_timestamp_tick a) =
      concat (prefixed (str_bytes (att_worker_id b))) @ le_bytes 8 (att_timestamp_tick b)"
    using assms by (simp_all add: attestation_bytes_def compute_canonical_bytes_def prefixed_def le_bytes_inject)
  moreover have "str_bytes (att_worker_id a) = str_bytes (att_worker_id b) \<and>
      le_bytes 8 (att_timestamp_tick a) = le_bytes 8 (att_timestamp_tick b)"
    using rest assms(3,4) by (subst (asm) prefixed_cancel) (simp_all add: len)
  ultimately show ?thesis by (simp add: str_bytes_inj le_bytes_inject)
qed

text \<open>
  An attestation that a worker makes is accepted under its public key, when the signature
  scheme accepts its own signatures.
\<close>

theorem attestation_is_accepted:
  assumes "parse_key public_key = Ok vk" "\<And>m. verify_sig vk m (sign seed m) = Ok ()"
  shows "\<exists>a. create_cache_attestation sign key_hash n w t seed = Ok a \<and>
    attestation_verify parse_key verify_sig a public_key = Ok ()"
  using assms by (simp add: create_cache_attestation_def build_and_sign_eq attestation_verify_def attestation_bytes_def)

section \<open>Examples\<close>

text \<open>A cache with one entry for the tokens 7 and 8, filed under its key.\<close>

definition lookup_entry :: prefix_kv_entry where
  "lookup_entry = entry_new_with_tokens (\<lambda>bs. bs) [[1]] [[2]] ''tenant'' [7, 8]
     (replicate 32 1) (replicate 32 2) [3]"

definition lookup_context :: b3hash where
  "lookup_context = pk_context_digest lookup_entry"

definition lookup_key :: "b3hash" where
  "lookup_key = compute_prefix_kv_key (\<lambda>bs. bs) lookup_context [7, 8] (replicate 32 2) [3]"

definition lookup_cache :: prefix_kv_cache where
  "lookup_cache = (prefix_cache_new 64)\<lparr>pc_entries := [(lookup_key, lookup_entry)], pc_used_bytes := 8\<rparr>"

lemma lookup_entry_fields [simp]:
  "pk_prefix_tokens lookup_entry = [7, 8]" "pk_prefix_cached_token_count lookup_entry = 2"
  "pk_context_digest lookup_entry = lookup_context" "pk_tokenizer_hash lookup_entry = replicate 32 2"
  "pk_model_identity_hash lookup_entry = [3]" "pk_keys lookup_entry = [[1]]" "pk_values lookup_entry = [[2]]"
  "verify_integrity (\<lambda>bs. bs) lookup_entry"
  by (simp_all add: lookup_context_def lookup_entry_def entry_new_with_tokens_def
      entry_new_with_tokens_and_tick_def verify_integrity_def)

lemma lookup_cache_entries [simp]: "pc_entries lookup_cache = [(lookup_key, lookup_entry)]"
  by (simp add: lookup_cache_def)

lemma length_lookup_context [simp]: "length lookup_context = 32"
  by (simp add: lookup_context_def lookup_entry_def entry_new_with_tokens_def entry_new_with_tokens_and_tick_def)

lemma lookup_cache_filed: "filed (\<lambda>bs. bs) (\<lambda>m. m) (pc_entries lookup_cache)" "bt_ok (pc_entries lookup_cache)"
  by (simp_all add: filed_def lookup_key_def bt_ok_def)

theorem cache_credit_earned_witness:
  "(let r = fst (cache_prefix_lookup (\<lambda>bs. bs) lookup_cache [7, 8, 9] lookup_context (replicate 32 2) [3] [3]
       lookup_config_default) in
    unat (cl_cached_token_count r) + unat (billed_input_tokens r) = 3)"
  using cache_credit_earned [OF _ _ lookup_cache_filed(2,1), of "[7, 8, 9]" lookup_config_default lookup_context
      "replicate 32 2" "[3]" "[3]" "fst (cache_prefix_lookup (\<lambda>bs. bs) lookup_cache [7, 8, 9] lookup_context
       (replicate 32 2) [3] [3] lookup_config_default)" "snd (cache_prefix_lookup (\<lambda>bs. bs) lookup_cache [7, 8, 9]
       lookup_context (replicate 32 2) [3] [3] lookup_config_default)"]
  by (simp add: lookup_config_default_def Let_def)

abbreviation prompt_context :: b3hash where
  "prompt_context \<equiv> compute_context_digest (\<lambda>bs. bs) [] (replicate 32 5) (Some []) None None [7, 8]"

abbreviation prompt_cache :: prefix_kv_cache where
  "prompt_cache \<equiv> lookup_cache\<lparr>pc_entries :=
     [(compute_prefix_kv_key (\<lambda>bs. bs) prompt_context [7, 8] [2] [3],
       lookup_entry\<lparr>pk_context_digest := prompt_context, pk_tokenizer_hash := [2]\<rparr>)]\<rparr>"

theorem hits_are_whole_prompts_witness:
  "\<exists>k e. cl_cache_id (fst (cache_prefix_lookup (\<lambda>bs. bs) prompt_cache [7, 8] prompt_context [2] [3] [3]
       lookup_config_default)) = Some k \<and> map_of (pc_entries prompt_cache) k = Some e \<and>
     pk_prefix_tokens e = [7, 8]"
proof -
  let ?l = "cache_prefix_lookup (\<lambda>bs. bs) prompt_cache [7, 8] prompt_context [2] [3] [3] lookup_config_default"
  have "verify_integrity (\<lambda>bs. bs) (lookup_entry\<lparr>pk_context_digest := prompt_context, pk_tokenizer_hash := [2]\<rparr>)"
    using lookup_entry_fields(8) by (simp add: verify_integrity_def lookup_entry_def entry_new_with_tokens_def
        entry_new_with_tokens_and_tick_def)
  then have hit: "cl_cache_hit (fst ?l)"
    by (simp add: cache_prefix_lookup_def Let_def prefix_get_def entry_metadata_valid_def record_access_def)
  have min: "1 \<le> lc_min_match_tokens lookup_config_default" by (simp add: lookup_config_default_def)
  show ?thesis
    by (rule hits_are_whole_prompts [where stack_of = "\<lambda>_. replicate 32 5" and stack = "replicate 32 5" and ns = "[]"
          and th = "[]" and H = "\<lambda>bs. bs" and cfg = lookup_config_default and tokenizer = "[2]" and model = "[3]"
          and identity = "[3]" and c' = "snd ?l"])
      (simp_all add: hit min bt_ok_def prompt_contexts_def)
qed

theorem truncated_match_is_called_exact_witness:
  "(let r = fst (cache_prefix_lookup (\<lambda>bs. bs) lookup_cache [7, 8, 9] lookup_context (replicate 32 2) [3] [3]
       \<lparr>lc_min_match_tokens = 1, lc_max_prefix_length = 2\<rparr>) in
    cl_is_exact_match r \<and> cl_cached_token_count r = 2 \<and> 0 < billed_input_tokens r)"
proof (rule truncated_match_is_called_exact [OF lookup_cache_entries])
  show "lookup_key \<noteq> compute_prefix_kv_key (\<lambda>bs. bs) lookup_context [7, 8, 9] (replicate 32 2) [3]"
    by (simp add: lookup_key_def compute_prefix_kv_key_def encode_prefix_tokens_def le_bytes_inject)
qed (simp_all add: entry_metadata_valid_def)

theorem zero_minimum_evicts_others_witness:
  "(let (r, c') = cache_prefix_lookup (\<lambda>bs. bs) lookup_cache [7, 8, 9] (replicate 32 9) (replicate 32 2) [3] [3]
       \<lparr>lc_min_match_tokens = 0, lc_max_prefix_length = 8\<rparr> in
    cl_miss_reason r = Some IntegrityValidationFailed \<and> pc_entries c' = [])"
proof (rule zero_minimum_evicts_others [OF lookup_cache_entries])
  show "lookup_key \<noteq> compute_prefix_kv_key (\<lambda>bs. bs) (replicate 32 9) [7, 8, 9] (replicate 32 2) [3]"
    by (simp add: lookup_key_def compute_prefix_kv_key_def encode_prefix_tokens_def le_bytes_inject)
  show "pk_context_digest lookup_entry \<noteq> replicate 32 9"
    unfolding lookup_entry_fields
    by (simp add: lookup_context_def lookup_entry_def entry_new_with_tokens_def entry_new_with_tokens_and_tick_def)
qed (simp_all add: search_tokens_def effective_max_def)

theorem attestation_is_accepted_witness:
  "\<exists>a. create_cache_attestation (\<lambda>seed m. m) (replicate 32 1) 5 ''worker'' 9 [] = Ok a \<and>
     attestation_verify (\<lambda>k. Ok ()) (\<lambda>vk m s. if s = m then Ok () else Err ''no'') a [] = Ok ()"
  by (rule attestation_is_accepted [where vk = "()"]) simp_all

end
