(* ===== verification/ReceiptDigest.thy ===== *)
theory ReceiptDigest
  imports ByteCode Floats "HOL-Library.Multiset"
begin

text \<open>
  The digest of an inference receipt, \<open>crates/adapteros-core/src/receipt_digest.rs\<close>: the
  input record, its builder methods, the eight schema versions, the chain of token decisions,
  the digest of the output tokens, the blob encodings and the canonical form of JSON values.
  BLAKE3 is the argument \<open>H\<close>; \<open>hash_multi\<close> hashes the concatenation of the slices. The slices
  that several versions repeat are shared groups here. A hash field is a list of 32 bytes.
\<close>

section \<open>The input\<close>

record receipt_digest_input =
  rd_context_digest :: bytes
  rd_run_head_hash :: bytes
  rd_output_digest :: bytes
  rd_logical_prompt_tokens :: u32
  rd_prefix_cached_token_count :: u32
  rd_billed_input_tokens :: u32
  rd_logical_output_tokens :: u32
  rd_billed_output_tokens :: u32
  rd_backend_used :: "string option"
  rd_backend_attestation_b3 :: "bytes option"
  rd_root_seed_digest :: "bytes option"
  rd_seed_mode :: "string option"
  rd_has_manifest_binding :: "bool option"
  rd_stop_reason_code :: "string option"
  rd_stop_reason_token_index :: "u32 option"
  rd_stop_policy_digest_b3 :: "bytes option"
  rd_tenant_kv_quota_bytes :: u64
  rd_tenant_kv_bytes_used :: u64
  rd_kv_evictions :: u32
  rd_kv_residency_policy_id :: "string option"
  rd_kv_quota_enforced :: bool
  rd_prefix_kv_key_b3 :: "bytes option"
  rd_prefix_cache_hit :: bool
  rd_prefix_kv_bytes :: u64
  rd_model_cache_identity_v2_digest_b3 :: "bytes option"
  rd_equipment_profile_digest_b3 :: "bytes option"
  rd_processor_id :: "string option"
  rd_mlx_version :: "string option"
  rd_ane_version :: "string option"
  rd_citations_merkle_root_b3 :: "bytes option"
  rd_citation_count :: u32
  rd_previous_receipt_digest :: "bytes option"
  rd_session_sequence :: u64
  rd_tokenizer_hash_b3 :: "bytes option"
  rd_tokenizer_version :: "string option"
  rd_tokenizer_normalization :: "string option"
  rd_model_build_hash_b3 :: "bytes option"
  rd_adapter_build_hash_b3 :: "bytes option"
  rd_decode_algo :: "string option"
  rd_temperature_q15 :: "i16 option"
  rd_top_p_q15 :: "i16 option"
  rd_top_k :: "u32 option"
  rd_seed_digest_b3 :: "bytes option"
  rd_sampling_backend :: "string option"
  rd_thread_count :: "u32 option"
  rd_reduction_strategy :: "string option"
  rd_stop_eos_q15 :: "i16 option"
  rd_stop_window_digest_b3 :: "bytes option"
  rd_cache_scope :: "string option"
  rd_cached_prefix_digest_b3 :: "bytes option"
  rd_cached_prefix_len :: "u32 option"
  rd_cache_key_b3 :: "bytes option"
  rd_retrieval_merkle_root_b3 :: "bytes option"
  rd_retrieval_order_digest_b3 :: "bytes option"
  rd_tool_call_inputs_digest_b3 :: "bytes option"
  rd_tool_call_outputs_digest_b3 :: "bytes option"
  rd_disclosure_level :: "string option"
  rd_adapter_version_bindings_digest_b3 :: "bytes option"

definition receipt_input_new ::
  "bytes \<Rightarrow> bytes \<Rightarrow> bytes \<Rightarrow> u32 \<Rightarrow> u32 \<Rightarrow> u32 \<Rightarrow> u32 \<Rightarrow> u32 \<Rightarrow> receipt_digest_input" where
  "receipt_input_new context_digest run_head_hash output_digest logical_prompt_tokens
     prefix_cached_token_count billed_input_tokens logical_output_tokens billed_output_tokens =
     \<lparr>rd_context_digest = context_digest, rd_run_head_hash = run_head_hash,
      rd_output_digest = output_digest, rd_logical_prompt_tokens = logical_prompt_tokens,
      rd_prefix_cached_token_count = prefix_cached_token_count,
      rd_billed_input_tokens = billed_input_tokens,
      rd_logical_output_tokens = logical_output_tokens,
      rd_billed_output_tokens = billed_output_tokens,
      rd_backend_used = None, rd_backend_attestation_b3 = None, rd_root_seed_digest = None,
      rd_seed_mode = None, rd_has_manifest_binding = None, rd_stop_reason_code = None,
      rd_stop_reason_token_index = None, rd_stop_policy_digest_b3 = None,
      rd_tenant_kv_quota_bytes = 0, rd_tenant_kv_bytes_used = 0, rd_kv_evictions = 0,
      rd_kv_residency_policy_id = None, rd_kv_quota_enforced = False, rd_prefix_kv_key_b3 = None,
      rd_prefix_cache_hit = False, rd_prefix_kv_bytes = 0,
      rd_model_cache_identity_v2_digest_b3 = None, rd_equipment_profile_digest_b3 = None,
      rd_processor_id = None, rd_mlx_version = None, rd_ane_version = None,
      rd_citations_merkle_root_b3 = None, rd_citation_count = 0,
      rd_previous_receipt_digest = None, rd_session_sequence = 0, rd_tokenizer_hash_b3 = None,
      rd_tokenizer_version = None, rd_tokenizer_normalization = None,
      rd_model_build_hash_b3 = None, rd_adapter_build_hash_b3 = None, rd_decode_algo = None,
      rd_temperature_q15 = None, rd_top_p_q15 = None, rd_top_k = None, rd_seed_digest_b3 = None,
      rd_sampling_backend = None, rd_thread_count = None, rd_reduction_strategy = None,
      rd_stop_eos_q15 = None, rd_stop_window_digest_b3 = None, rd_cache_scope = None,
      rd_cached_prefix_digest_b3 = None, rd_cached_prefix_len = None, rd_cache_key_b3 = None,
      rd_retrieval_merkle_root_b3 = None, rd_retrieval_order_digest_b3 = None,
      rd_tool_call_inputs_digest_b3 = None, rd_tool_call_outputs_digest_b3 = None,
      rd_disclosure_level = None, rd_adapter_version_bindings_digest_b3 = None\<rparr>"

subsection \<open>Builder methods\<close>

definition with_stop_controller ::
  "string option \<Rightarrow> u32 option \<Rightarrow> bytes option \<Rightarrow> receipt_digest_input \<Rightarrow> receipt_digest_input" where
  "with_stop_controller code idx policy a =
     a\<lparr>rd_stop_reason_code := code, rd_stop_reason_token_index := idx, rd_stop_policy_digest_b3 := policy\<rparr>"

definition with_kv_quota ::
  "u64 \<Rightarrow> u64 \<Rightarrow> u32 \<Rightarrow> string option \<Rightarrow> bool \<Rightarrow> receipt_digest_input \<Rightarrow> receipt_digest_input" where
  "with_kv_quota quota used evictions policy_id enforced a =
     a\<lparr>rd_tenant_kv_quota_bytes := quota, rd_tenant_kv_bytes_used := used, rd_kv_evictions := evictions,
        rd_kv_residency_policy_id := policy_id, rd_kv_quota_enforced := enforced\<rparr>"

definition with_prefix_cache ::
  "bytes option \<Rightarrow> bool \<Rightarrow> u64 \<Rightarrow> receipt_digest_input \<Rightarrow> receipt_digest_input" where
  "with_prefix_cache key hit kv_bytes a =
     a\<lparr>rd_prefix_kv_key_b3 := key, rd_prefix_cache_hit := hit, rd_prefix_kv_bytes := kv_bytes\<rparr>"

definition with_model_cache_identity :: "bytes option \<Rightarrow> receipt_digest_input \<Rightarrow> receipt_digest_input" where
  "with_model_cache_identity d a = a\<lparr>rd_model_cache_identity_v2_digest_b3 := d\<rparr>"

definition with_tokenizer_identity ::
  "bytes option \<Rightarrow> string option \<Rightarrow> string option \<Rightarrow> receipt_digest_input \<Rightarrow> receipt_digest_input" where
  "with_tokenizer_identity h version normalization a =
     a\<lparr>rd_tokenizer_hash_b3 := h, rd_tokenizer_version := version, rd_tokenizer_normalization := normalization\<rparr>"

definition with_build_provenance ::
  "bytes option \<Rightarrow> bytes option \<Rightarrow> receipt_digest_input \<Rightarrow> receipt_digest_input" where
  "with_build_provenance model adapter a =
     a\<lparr>rd_model_build_hash_b3 := model, rd_adapter_build_hash_b3 := adapter\<rparr>"

definition with_decoder_config ::
  "string option \<Rightarrow> i16 option \<Rightarrow> i16 option \<Rightarrow> u32 option \<Rightarrow> bytes option \<Rightarrow> string option \<Rightarrow>
   receipt_digest_input \<Rightarrow> receipt_digest_input" where
  "with_decoder_config algo temperature top_p top_k seed backend a =
     a\<lparr>rd_decode_algo := algo, rd_temperature_q15 := temperature, rd_top_p_q15 := top_p,
        rd_top_k := top_k, rd_seed_digest_b3 := seed, rd_sampling_backend := backend\<rparr>"

definition with_concurrency_determinism ::
  "u32 option \<Rightarrow> string option \<Rightarrow> receipt_digest_input \<Rightarrow> receipt_digest_input" where
  "with_concurrency_determinism threads strategy a =
     a\<lparr>rd_thread_count := threads, rd_reduction_strategy := strategy\<rparr>"

definition with_stop_controller_inputs ::
  "i16 option \<Rightarrow> bytes option \<Rightarrow> receipt_digest_input \<Rightarrow> receipt_digest_input" where
  "with_stop_controller_inputs eos window a =
     a\<lparr>rd_stop_eos_q15 := eos, rd_stop_window_digest_b3 := window\<rparr>"

definition with_cache_proof ::
  "string option \<Rightarrow> bytes option \<Rightarrow> u32 option \<Rightarrow> bytes option \<Rightarrow> receipt_digest_input \<Rightarrow> receipt_digest_input"
  where
  "with_cache_proof scope prefix_digest prefix_len key a =
     a\<lparr>rd_cache_scope := scope, rd_cached_prefix_digest_b3 := prefix_digest,
        rd_cached_prefix_len := prefix_len, rd_cache_key_b3 := key\<rparr>"

definition with_retrieval_tool_binding ::
  "bytes option \<Rightarrow> bytes option \<Rightarrow> bytes option \<Rightarrow> bytes option \<Rightarrow> receipt_digest_input \<Rightarrow> receipt_digest_input"
  where
  "with_retrieval_tool_binding merkle_root order inputs outputs a =
     a\<lparr>rd_retrieval_merkle_root_b3 := merkle_root, rd_retrieval_order_digest_b3 := order,
        rd_tool_call_inputs_digest_b3 := inputs, rd_tool_call_outputs_digest_b3 := outputs\<rparr>"

definition with_disclosure_level :: "string option \<Rightarrow> receipt_digest_input \<Rightarrow> receipt_digest_input" where
  "with_disclosure_level level a = a\<lparr>rd_disclosure_level := level\<rparr>"

definition with_adapter_version_bindings_digest ::
  "bytes option \<Rightarrow> receipt_digest_input \<Rightarrow> receipt_digest_input" where
  "with_adapter_version_bindings_digest d a = a\<lparr>rd_adapter_version_bindings_digest_b3 := d\<rparr>"

definition with_equipment_profile ::
  "bytes option \<Rightarrow> string option \<Rightarrow> string option \<Rightarrow> string option \<Rightarrow>
   receipt_digest_input \<Rightarrow> receipt_digest_input" where
  "with_equipment_profile d processor mlx ane a =
     a\<lparr>rd_equipment_profile_digest_b3 := d, rd_processor_id := processor, rd_mlx_version := mlx,
        rd_ane_version := ane\<rparr>"

definition with_citations :: "bytes option \<Rightarrow> u32 \<Rightarrow> receipt_digest_input \<Rightarrow> receipt_digest_input" where
  "with_citations merkle_root n a = a\<lparr>rd_citations_merkle_root_b3 := merkle_root, rd_citation_count := n\<rparr>"

definition with_backend ::
  "string option \<Rightarrow> bytes option \<Rightarrow> receipt_digest_input \<Rightarrow> receipt_digest_input" where
  "with_backend backend attestation a =
     a\<lparr>rd_backend_used := backend, rd_backend_attestation_b3 := attestation\<rparr>"

definition with_seed_lineage ::
  "bytes option \<Rightarrow> string option \<Rightarrow> bool option \<Rightarrow> receipt_digest_input \<Rightarrow> receipt_digest_input" where
  "with_seed_lineage seed mode manifest a =
     a\<lparr>rd_root_seed_digest := seed, rd_seed_mode := mode, rd_has_manifest_binding := manifest\<rparr>"

definition with_cross_run_lineage ::
  "bytes option \<Rightarrow> u64 \<Rightarrow> receipt_digest_input \<Rightarrow> receipt_digest_input" where
  "with_cross_run_lineage previous sequence a =
     a\<lparr>rd_previous_receipt_digest := previous, rd_session_sequence := sequence\<rparr>"

section \<open>Slices\<close>

text \<open>The sentinels of absent fields.\<close>

definition opt_str :: "string option \<Rightarrow> bytes" where
  "opt_str s = str_bytes (case s of Some x \<Rightarrow> x | None \<Rightarrow> [])"

definition opt_hash :: "bytes option \<Rightarrow> bytes" where
  "opt_hash h = (case h of Some x \<Rightarrow> x | None \<Rightarrow> replicate 32 0)"

definition opt_u32 :: "u32 option \<Rightarrow> bytes" where
  "opt_u32 n = le_bytes 4 (case n of Some x \<Rightarrow> x | None \<Rightarrow> 0xFFFFFFFF)"

definition opt_i16 :: "i16 option \<Rightarrow> bytes" where
  "opt_i16 n = le_bytes 2 (case n of Some x \<Rightarrow> x | None \<Rightarrow> 0x8000)"

definition opt_vec :: "bytes option \<Rightarrow> bytes" where
  "opt_vec h = (case h of Some x \<Rightarrow> x | None \<Rightarrow> [])"

definition bool_byte :: "bool \<Rightarrow> bytes" where
  "bool_byte b = (if b then [1] else [0])"

definition core_slices :: "receipt_digest_input \<Rightarrow> bytes list" where
  "core_slices a =
     [rd_context_digest a, rd_run_head_hash a, rd_output_digest a,
      le_bytes 4 (rd_logical_prompt_tokens a), le_bytes 4 (rd_prefix_cached_token_count a),
      le_bytes 4 (rd_billed_input_tokens a), le_bytes 4 (rd_logical_output_tokens a),
      le_bytes 4 (rd_billed_output_tokens a)]"

definition backend_slices :: "receipt_digest_input \<Rightarrow> bytes list" where
  "backend_slices a = prefixed (opt_str (rd_backend_used a)) @ prefixed (opt_vec (rd_backend_attestation_b3 a))"

definition stop_slices :: "receipt_digest_input \<Rightarrow> bytes list" where
  "stop_slices a =
     prefixed (opt_str (rd_stop_reason_code a)) @
     [opt_u32 (rd_stop_reason_token_index a), opt_hash (rd_stop_policy_digest_b3 a)]"

definition kv_slices :: "receipt_digest_input \<Rightarrow> bytes list" where
  "kv_slices a =
     [le_bytes 8 (rd_tenant_kv_quota_bytes a), le_bytes 8 (rd_tenant_kv_bytes_used a),
      le_bytes 4 (rd_kv_evictions a)] @
     prefixed (opt_str (rd_kv_residency_policy_id a)) @
     [bool_byte (rd_kv_quota_enforced a)]"

definition cache_slices :: "receipt_digest_input \<Rightarrow> bytes list" where
  "cache_slices a =
     [opt_hash (rd_prefix_kv_key_b3 a), bool_byte (rd_prefix_cache_hit a),
      le_bytes 8 (rd_prefix_kv_bytes a), opt_hash (rd_model_cache_identity_v2_digest_b3 a)]"

definition equipment_slices :: "receipt_digest_input \<Rightarrow> bytes list" where
  "equipment_slices a =
     [opt_hash (rd_equipment_profile_digest_b3 a)] @
     prefixed (opt_str (rd_processor_id a)) @
     prefixed (opt_str (rd_mlx_version a)) @
     prefixed (opt_str (rd_ane_version a)) @
     [opt_hash (rd_citations_merkle_root_b3 a), le_bytes 4 (rd_citation_count a)]"

definition lineage_slices :: "receipt_digest_input \<Rightarrow> bytes list" where
  "lineage_slices a = [opt_hash (rd_previous_receipt_digest a), le_bytes 8 (rd_session_sequence a)]"

definition v7_slices :: "receipt_digest_input \<Rightarrow> bytes list" where
  "v7_slices a =
     [opt_hash (rd_tokenizer_hash_b3 a)] @
     prefixed (opt_str (rd_tokenizer_version a)) @
     prefixed (opt_str (rd_tokenizer_normalization a)) @
     [opt_hash (rd_model_build_hash_b3 a), opt_hash (rd_adapter_build_hash_b3 a)] @
     prefixed (opt_str (rd_decode_algo a)) @
     [opt_i16 (rd_temperature_q15 a), opt_i16 (rd_top_p_q15 a), opt_u32 (rd_top_k a),
      opt_hash (rd_seed_digest_b3 a)] @
     prefixed (opt_str (rd_sampling_backend a)) @
     [opt_u32 (rd_thread_count a)] @
     prefixed (opt_str (rd_reduction_strategy a)) @
     [opt_i16 (rd_stop_eos_q15 a), opt_hash (rd_stop_window_digest_b3 a)] @
     prefixed (opt_str (rd_cache_scope a)) @
     [opt_hash (rd_cached_prefix_digest_b3 a), opt_u32 (rd_cached_prefix_len a), opt_hash (rd_cache_key_b3 a),
      opt_hash (rd_retrieval_merkle_root_b3 a), opt_hash (rd_retrieval_order_digest_b3 a),
      opt_hash (rd_tool_call_inputs_digest_b3 a), opt_hash (rd_tool_call_outputs_digest_b3 a)] @
     prefixed (opt_str (rd_disclosure_level a))"

section \<open>The eight versions\<close>

definition compute_v1_digest :: "hash_fn \<Rightarrow> receipt_digest_input \<Rightarrow> b3hash" where
  "compute_v1_digest H a = b3_hash_multi H (core_slices a)"

definition compute_v2_digest :: "hash_fn \<Rightarrow> receipt_digest_input \<Rightarrow> b3hash" where
  "compute_v2_digest H a = b3_hash_multi H (core_slices a @ [[2]] @ backend_slices a)"

definition seed_slices :: "receipt_digest_input \<Rightarrow> bytes list" where
  "seed_slices a =
     [opt_hash (rd_root_seed_digest a)] @
     prefixed (str_bytes (case rd_seed_mode a of Some m \<Rightarrow> m | None \<Rightarrow> ''unknown'')) @
     [bool_byte (case rd_has_manifest_binding a of Some b \<Rightarrow> b | None \<Rightarrow> False)]"

definition compute_v3_digest :: "hash_fn \<Rightarrow> receipt_digest_input \<Rightarrow> b3hash" where
  "compute_v3_digest H a = b3_hash_multi H (core_slices a @ [[3]] @ backend_slices a @ seed_slices a)"

definition compute_v4_digest :: "hash_fn \<Rightarrow> receipt_digest_input \<Rightarrow> b3hash" where
  "compute_v4_digest H a =
     b3_hash_multi H (core_slices a @ stop_slices a @ kv_slices a @ cache_slices a)"

definition compute_v5_digest :: "hash_fn \<Rightarrow> receipt_digest_input \<Rightarrow> b3hash" where
  "compute_v5_digest H a =
     b3_hash_multi H ([[5]] @ core_slices a @ backend_slices a @ stop_slices a @ kv_slices a @
       cache_slices a @ equipment_slices a)"

definition compute_v6_digest :: "hash_fn \<Rightarrow> receipt_digest_input \<Rightarrow> b3hash" where
  "compute_v6_digest H a =
     b3_hash_multi H ([[6]] @ core_slices a @ backend_slices a @ stop_slices a @ kv_slices a @
       cache_slices a @ equipment_slices a @ lineage_slices a)"

definition compute_v7_digest :: "hash_fn \<Rightarrow> receipt_digest_input \<Rightarrow> b3hash" where
  "compute_v7_digest H a =
     b3_hash_multi H ([[7]] @ core_slices a @ backend_slices a @ stop_slices a @ kv_slices a @
       cache_slices a @ equipment_slices a @ lineage_slices a @ v7_slices a)"

definition compute_v8_digest :: "hash_fn \<Rightarrow> receipt_digest_input \<Rightarrow> b3hash" where
  "compute_v8_digest H a =
     b3_hash_multi H [[8], compute_v7_digest H a, opt_hash (rd_adapter_version_bindings_digest_b3 a)]"

definition receipt_schema_current :: u8 where
  "receipt_schema_current = 8"

definition compute_receipt_digest :: "hash_fn \<Rightarrow> receipt_digest_input \<Rightarrow> u8 \<Rightarrow> b3hash option" where
  "compute_receipt_digest H a v =
     (if v = 1 then Some (compute_v1_digest H a)
      else if v = 2 then Some (compute_v2_digest H a)
      else if v = 3 then Some (compute_v3_digest H a)
      else if v = 4 then Some (compute_v4_digest H a)
      else if v = 5 then Some (compute_v5_digest H a)
      else if v = 6 then Some (compute_v6_digest H a)
      else if v = 7 then Some (compute_v7_digest H a)
      else if v = 8 then Some (compute_v8_digest H a)
      else None)"

datatype receipt_digest_error = MissingBackendId | EmptyBackendId

definition receipt_error_display :: "receipt_digest_error \<Rightarrow> string" where
  "receipt_error_display e =
     (case e of
        MissingBackendId \<Rightarrow> ''Backend ID is required for V5+ receipts''
      | EmptyBackendId \<Rightarrow> ''Backend ID cannot be empty for V5+ receipts'')"

definition validate_backend_id_for_v5 :: "string option \<Rightarrow> (receipt_digest_error, unit) result" where
  "validate_backend_id_for_v5 backend_id =
     (case backend_id of
        None \<Rightarrow> Err MissingBackendId
      | Some b \<Rightarrow> if b = [] then Err EmptyBackendId else Ok ())"

definition compute_v5_digest_checked ::
  "hash_fn \<Rightarrow> receipt_digest_input \<Rightarrow> string \<Rightarrow> (receipt_digest_error, b3hash) result" where
  "compute_v5_digest_checked H a backend_id =
     (if backend_id = [] then Err EmptyBackendId
      else Ok (compute_v5_digest H (a\<lparr>rd_backend_used := Some backend_id\<rparr>)))"

section \<open>Tokens and decisions\<close>

definition compute_output_digest :: "hash_fn \<Rightarrow> u32 list \<Rightarrow> b3hash" where
  "compute_output_digest H tokens =
     b3_hash H (le_bytes 4 (of_nat (length tokens) :: u32) @ concat (map (le_bytes 4) tokens))"

record token_decision =
  td_context_digest :: bytes
  td_token_index :: u32
  td_adapter_ids_blob :: bytes
  td_gates_blob :: bytes
  td_policy_mask_digest :: "bytes option"
  td_allowed_mask_blob :: "bytes option"
  td_policy_overrides_json :: "string option"
  td_backend_id :: "string option"
  td_kernel_version_id :: "string option"

definition hash_token_decision :: "hash_fn \<Rightarrow> token_decision \<Rightarrow> b3hash" where
  "hash_token_decision H d =
     b3_hash_multi H ([td_context_digest d, le_bytes 4 (td_token_index d)] @
       prefixed (td_adapter_ids_blob d) @ prefixed (td_gates_blob d) @
       prefixed (opt_vec (td_policy_mask_digest d)) @ prefixed (opt_vec (td_allowed_mask_blob d)) @
       prefixed (opt_str (td_policy_overrides_json d)) @ prefixed (opt_str (td_backend_id d)) @
       prefixed (opt_str (td_kernel_version_id d)))"

definition update_run_head :: "hash_fn \<Rightarrow> b3hash \<Rightarrow> u32 \<Rightarrow> b3hash \<Rightarrow> b3hash" where
  "update_run_head H prev token_index decision_hash =
     b3_hash_multi H [prev, decision_hash, le_bytes 4 token_index]"

definition encode_adapter_ids :: "string list \<Rightarrow> bytes" where
  "encode_adapter_ids ids =
     le_bytes 4 (of_nat (length ids) :: u32) @ concat (map (\<lambda>i. concat (prefixed (str_bytes i))) ids)"

definition encode_gates_q15 :: "i16 list \<Rightarrow> bytes" where
  "encode_gates_q15 gates =
     le_bytes 4 (of_nat (length gates) :: u32) @ concat (map (le_bytes 2) gates)"

definition encode_allowed_mask :: "bool list \<Rightarrow> bytes" where
  "encode_allowed_mask allowed =
     le_bytes 4 (of_nat (length allowed) :: u32) @ map (\<lambda>b. if b then 1 else 0) allowed"

fun decode_mask_bits :: "nat \<Rightarrow> bytes \<Rightarrow> (string, bool list) result" where
  "decode_mask_bits 0 bs = Ok []"
| "decode_mask_bits (Suc n) [] = Err ''allowed_mask blob truncated''"
| "decode_mask_bits (Suc n) (b # bs) =
     (case decode_mask_bits n bs of Err e \<Rightarrow> Err e | Ok ms \<Rightarrow> Ok ((b = 1) # ms))"

definition decode_allowed_mask :: "bytes \<Rightarrow> (string, bool list) result" where
  "decode_allowed_mask bs =
     (if length bs < 4 then Err ''allowed_mask blob missing length''
      else decode_mask_bits (unat (from_le_bytes (take 4 bs) :: u32)) (drop 4 bs))"

section \<open>Canonical JSON\<close>

text \<open>
  A JSON value with its objects as lists of entries; numbers, strings, booleans and null are
  the leaves and stay as they are.
\<close>

datatype 'a json = JObject "(string \<times> 'a json) list" | JArray "'a json list" | JLeaf 'a

fun canonicalize_json_value :: "'a json \<Rightarrow> 'a json" where
  "canonicalize_json_value (JObject entries) =
     JObject (sort_key fst (map (\<lambda>(k, v). (k, canonicalize_json_value v)) entries))"
| "canonicalize_json_value (JArray vs) = JArray (map canonicalize_json_value vs)"
| "canonicalize_json_value (JLeaf x) = JLeaf x"

definition canonical_json_string :: "('a json \<Rightarrow> string) \<Rightarrow> 'a json \<Rightarrow> string" where
  "canonical_json_string print v = print (canonicalize_json_value v)"

section \<open>What the digest binds\<close>

definition hash_ok :: "bytes option \<Rightarrow> bool" where
  "hash_ok h \<longleftrightarrow> (case h of Some x \<Rightarrow> length x = 32 | None \<Rightarrow> True)"

definition str_ok :: "string option \<Rightarrow> bool" where
  "str_ok s \<longleftrightarrow> (case s of Some x \<Rightarrow> length x < 2 ^ 32 | None \<Rightarrow> True)"

text \<open>The array lengths of the input's types, and strings whose length fits the prefix.\<close>

definition receipt_ok :: "receipt_digest_input \<Rightarrow> bool" where
  "receipt_ok a \<longleftrightarrow>
     list_all (\<lambda>h. length h = 32) [rd_context_digest a, rd_run_head_hash a, rd_output_digest a] \<and>
     list_all hash_ok
       [rd_backend_attestation_b3 a, rd_root_seed_digest a, rd_stop_policy_digest_b3 a, rd_prefix_kv_key_b3 a,
        rd_model_cache_identity_v2_digest_b3 a, rd_equipment_profile_digest_b3 a,
        rd_citations_merkle_root_b3 a, rd_previous_receipt_digest a, rd_tokenizer_hash_b3 a,
        rd_model_build_hash_b3 a, rd_adapter_build_hash_b3 a, rd_seed_digest_b3 a,
        rd_stop_window_digest_b3 a, rd_cached_prefix_digest_b3 a, rd_cache_key_b3 a,
        rd_retrieval_merkle_root_b3 a, rd_retrieval_order_digest_b3 a, rd_tool_call_inputs_digest_b3 a,
        rd_tool_call_outputs_digest_b3 a, rd_adapter_version_bindings_digest_b3 a] \<and>
     list_all str_ok
       [rd_backend_used a, rd_seed_mode a, rd_stop_reason_code a, rd_kv_residency_policy_id a,
        rd_processor_id a, rd_mlx_version a, rd_ane_version a, rd_tokenizer_version a,
        rd_tokenizer_normalization a, rd_decode_algo a, rd_sampling_backend a, rd_reduction_strategy a,
        rd_cache_scope a, rd_disclosure_level a]"

lemma field_lengths:
  "hash_ok h \<Longrightarrow> length (opt_hash h) = 32" "length (opt_u32 n) = 4" "length (opt_i16 i) = 2"
  "length (bool_byte b) = 1" "str_ok s \<Longrightarrow> length (opt_str s) < 4294967296"
  "hash_ok h \<Longrightarrow> length (opt_vec h) < 4294967296"
  "str_ok m \<Longrightarrow> length (str_bytes (case m of Some x \<Rightarrow> x | None \<Rightarrow> ''unknown'')) < 4294967296"
  by (auto simp: hash_ok_def str_ok_def opt_hash_def opt_u32_def opt_i16_def bool_byte_def opt_str_def
      opt_vec_def str_bytes_def split: option.splits)

lemmas receipt_lengths = receipt_ok_def field_lengths

lemma core_code: "prefix_code t receipt_ok \<Longrightarrow> prefix_code (\<lambda>a. core_slices a @ t a) receipt_ok"
  unfolding core_slices_def append.simps
  by (intro prefix_code_intros) (simp_all add: receipt_lengths)

lemma backend_code: "prefix_code t receipt_ok \<Longrightarrow> prefix_code (\<lambda>a. backend_slices a @ t a) receipt_ok"
  unfolding backend_slices_def append_assoc
  by (intro prefix_code_intros) (simp_all add: receipt_lengths)

lemma stop_code: "prefix_code t receipt_ok \<Longrightarrow> prefix_code (\<lambda>a. stop_slices a @ t a) receipt_ok"
  unfolding stop_slices_def append_assoc append.simps
  by (intro prefix_code_intros) (simp_all add: receipt_lengths)

lemma kv_code: "prefix_code t receipt_ok \<Longrightarrow> prefix_code (\<lambda>a. kv_slices a @ t a) receipt_ok"
  unfolding kv_slices_def append_assoc append.simps
  by (intro prefix_code_intros) (simp_all add: receipt_lengths)

lemma cache_code: "prefix_code t receipt_ok \<Longrightarrow> prefix_code (\<lambda>a. cache_slices a @ t a) receipt_ok"
  unfolding cache_slices_def append.simps
  by (intro prefix_code_intros) (simp_all add: receipt_lengths)

lemma equipment_code: "prefix_code t receipt_ok \<Longrightarrow> prefix_code (\<lambda>a. equipment_slices a @ t a) receipt_ok"
  unfolding equipment_slices_def append_assoc append.simps
  by (intro prefix_code_intros) (simp_all add: receipt_lengths)

lemma lineage_code: "prefix_code t receipt_ok \<Longrightarrow> prefix_code (\<lambda>a. lineage_slices a @ t a) receipt_ok"
  unfolding lineage_slices_def append.simps
  by (intro prefix_code_intros) (simp_all add: receipt_lengths)

lemma seed_code: "prefix_code t receipt_ok \<Longrightarrow> prefix_code (\<lambda>a. seed_slices a @ t a) receipt_ok"
  unfolding seed_slices_def append_assoc append.simps
  by (intro prefix_code_intros) (simp_all add: receipt_lengths)

lemma v7_code: "prefix_code t receipt_ok \<Longrightarrow> prefix_code (\<lambda>a. v7_slices a @ t a) receipt_ok"
  unfolding v7_slices_def append_assoc append.simps
  by (intro prefix_code_intros) (simp_all add: receipt_lengths)

text \<open>The slices of each version, with the inner digest of the last version opened.\<close>

definition receipt_slices :: "u8 \<Rightarrow> receipt_digest_input \<Rightarrow> bytes list" where
  "receipt_slices v a =
     (if v = 1 then core_slices a @ []
      else if v = 2 then core_slices a @ [2] # backend_slices a @ []
      else if v = 3 then core_slices a @ [3] # backend_slices a @ seed_slices a @ []
      else if v = 4 then core_slices a @ stop_slices a @ kv_slices a @ cache_slices a @ []
      else if v = 5 then [5] # core_slices a @ backend_slices a @ stop_slices a @ kv_slices a @
        cache_slices a @ equipment_slices a @ []
      else if v = 6 then [6] # core_slices a @ backend_slices a @ stop_slices a @ kv_slices a @
        cache_slices a @ equipment_slices a @ lineage_slices a @ []
      else [7] # core_slices a @ backend_slices a @ stop_slices a @ kv_slices a @
        cache_slices a @ equipment_slices a @ lineage_slices a @ v7_slices a @ [])"

lemma prefix_code_if:
  "prefix_code f ok \<Longrightarrow> prefix_code g ok \<Longrightarrow> prefix_code (\<lambda>a. if P then f a else g a) ok"
  by (cases P) simp_all

lemmas receipt_groups = core_code backend_code stop_code kv_code cache_code equipment_code lineage_code
  seed_code v7_code prefix_code_Nil prefix_code_Cons [OF refl]

lemma receipt_code: "prefix_code (receipt_slices v) receipt_ok"
  unfolding receipt_slices_def [abs_def]
  by (intro prefix_code_if receipt_groups)

interpretation receipt: prefix_code "receipt_slices v" receipt_ok for v
  by (rule receipt_code)

lemma receipt_digest_slices:
  assumes "v \<in> {1, 2, 3, 4, 5, 6, 7}"
  shows "compute_receipt_digest H a v = Some (b3_hash_multi H (receipt_slices v a))"
  using assms
  by (auto simp: compute_receipt_digest_def receipt_slices_def compute_v1_digest_def compute_v2_digest_def
      compute_v3_digest_def compute_v4_digest_def compute_v5_digest_def compute_v6_digest_def
      compute_v7_digest_def)

lemma v7_digest_slices: "compute_v7_digest H a = b3_hash_multi H (receipt_slices 7 a)"
  by (simp add: compute_v7_digest_def receipt_slices_def)

text \<open>The byte strings that are hashed for a receipt: one, or two in the last version.\<close>

definition hashed_inputs :: "hash_fn \<Rightarrow> u8 \<Rightarrow> receipt_digest_input \<Rightarrow> bytes set" where
  "hashed_inputs H v a =
     (if v = 8
      then {concat (receipt_slices 7 a),
            concat [[8], compute_v7_digest H a, opt_hash (rd_adapter_version_bindings_digest_b3 a)]}
      else {concat (receipt_slices v a)})"

lemma receipt_digest_iff:
  assumes "receipt_ok a" "receipt_ok b" "v \<in> {1, 2, 3, 4, 5, 6, 7}"
    and "inj_on H (hashed_inputs H v a \<union> hashed_inputs H v b)"
  shows "compute_receipt_digest H a v = compute_receipt_digest H b v \<longleftrightarrow>
     receipt_slices v a = receipt_slices v b"
proof -
  have "v \<noteq> 8" using assms(3) by auto
  then have "inj_on H {concat (receipt_slices v a), concat (receipt_slices v b)}"
    using assms(4) by (simp add: hashed_inputs_def insert_commute)
  from receipt.digest_inject [OF assms(1,2) this] show ?thesis
    by (simp add: receipt_digest_slices [OF assms(3)])
qed

lemma receipt_v8_iff:
  assumes ok: "receipt_ok a" "receipt_ok b" and len: "\<And>x. length (H x) = 32"
    and inj: "inj_on H (hashed_inputs H 8 a \<union> hashed_inputs H 8 b)"
  shows "compute_v8_digest H a = compute_v8_digest H b \<longleftrightarrow>
     receipt_slices 7 a = receipt_slices 7 b \<and>
     opt_hash (rd_adapter_version_bindings_digest_b3 a) = opt_hash (rd_adapter_version_bindings_digest_b3 b)"
proof -
  let ?o = "\<lambda>a. concat [[8], compute_v7_digest H a, opt_hash (rd_adapter_version_bindings_digest_b3 a)]"
  have d7: "length (compute_v7_digest H c) = 32" for c
    by (simp add: v7_digest_slices b3_hash_multi_def len)
  have "H (?o a) = H (?o b) \<longleftrightarrow> ?o a = ?o b"
    by (rule inj_on_eq_iff [OF inj]) (simp_all add: hashed_inputs_def)
  also have "\<dots> \<longleftrightarrow> compute_v7_digest H a = compute_v7_digest H b \<and>
      opt_hash (rd_adapter_version_bindings_digest_b3 a) = opt_hash (rd_adapter_version_bindings_digest_b3 b)"
    using d7 [of a] d7 [of b] by simp
  also have "compute_v7_digest H a = compute_v7_digest H b \<longleftrightarrow> receipt_slices 7 a = receipt_slices 7 b"
  proof -
    have "inj_on H {concat (receipt_slices 7 a), concat (receipt_slices 7 b)}"
      by (rule inj_on_subset [OF inj]) (simp add: hashed_inputs_def)
    from receipt.digest_inject [OF ok this] show ?thesis by (simp only: v7_digest_slices)
  qed
  finally show ?thesis by (simp only: compute_v8_digest_def b3_hash_multi_def)
qed

lemma core_slices_inject:
  assumes "core_slices a = core_slices b"
  shows "rd_context_digest a = rd_context_digest b" "rd_run_head_hash a = rd_run_head_hash b"
    "rd_output_digest a = rd_output_digest b"
    "rd_logical_prompt_tokens a = rd_logical_prompt_tokens b"
    "rd_prefix_cached_token_count a = rd_prefix_cached_token_count b"
    "rd_billed_input_tokens a = rd_billed_input_tokens b"
    "rd_logical_output_tokens a = rd_logical_output_tokens b"
    "rd_billed_output_tokens a = rd_billed_output_tokens b"
  using assms by (simp_all add: core_slices_def le_bytes_inject)

lemma length_core_slices [simp]: "length (core_slices a) = 8"
  by (simp add: core_slices_def)

lemma slices_core: "receipt_slices v a = receipt_slices v b \<Longrightarrow> core_slices a = core_slices b"
  by (auto simp: receipt_slices_def split: if_splits)

text \<open>
  In every schema version the digest of a receipt binds what was run and what is billed:
  two receipts with the same digest have the same context, the same chain of decisions, the
  same output and the same five token counts, when the hash does not collide on the bytes
  that are hashed.
\<close>

theorem receipt_binds_billing:
  assumes "receipt_ok a" "receipt_ok b" "\<And>x. length (H x) = 32"
    and "inj_on H (hashed_inputs H v a \<union> hashed_inputs H v b)"
    and "compute_receipt_digest H a v = Some d" "compute_receipt_digest H b v = Some d"
  shows "rd_context_digest a = rd_context_digest b \<and> rd_run_head_hash a = rd_run_head_hash b \<and>
    rd_output_digest a = rd_output_digest b \<and>
    rd_logical_prompt_tokens a = rd_logical_prompt_tokens b \<and>
    rd_prefix_cached_token_count a = rd_prefix_cached_token_count b \<and>
    rd_billed_input_tokens a = rd_billed_input_tokens b \<and>
    rd_logical_output_tokens a = rd_logical_output_tokens b \<and>
    rd_billed_output_tokens a = rd_billed_output_tokens b"
proof -
  have "v \<in> {1, 2, 3, 4, 5, 6, 7} \<or> v = 8"
    using assms(5) by (auto simp: compute_receipt_digest_def split: if_splits)
  then have "core_slices a = core_slices b"
  proof
    assume v: "v \<in> {1, 2, 3, 4, 5, 6, 7}"
    then have "receipt_slices v a = receipt_slices v b"
      using receipt_digest_iff [OF assms(1,2) v assms(4)] assms(5,6) by simp
    then show ?thesis by (rule slices_core)
  next
    assume v: "v = 8"
    then have "compute_v8_digest H a = compute_v8_digest H b"
      using assms(5,6) by (simp add: compute_receipt_digest_def)
    then have "receipt_slices 7 a = receipt_slices 7 b"
      using receipt_v8_iff [of a b H, OF assms(1-3)] assms(4) v by blast
    then show ?thesis by (rule slices_core)
  qed
  from core_slices_inject [OF this] show ?thesis by blast
qed

subsection \<open>The current version\<close>

definition norm_str :: "string option \<Rightarrow> string option" where
  "norm_str s = Some (case s of Some x \<Rightarrow> x | None \<Rightarrow> [])"

definition norm_hash :: "bytes option \<Rightarrow> bytes option" where
  "norm_hash h = Some (opt_hash h)"

definition norm_u32 :: "u32 option \<Rightarrow> u32 option" where
  "norm_u32 n = Some (case n of Some x \<Rightarrow> x | None \<Rightarrow> 0xFFFFFFFF)"

definition norm_i16 :: "i16 option \<Rightarrow> i16 option" where
  "norm_i16 n = Some (case n of Some x \<Rightarrow> x | None \<Rightarrow> 0x8000)"

lemma norm_inject:
  "norm_str s = norm_str t \<longleftrightarrow> opt_str s = opt_str t"
  "norm_hash g = norm_hash h \<longleftrightarrow> opt_hash g = opt_hash h"
  "norm_u32 m = norm_u32 n \<longleftrightarrow> opt_u32 m = opt_u32 n"
  "norm_i16 i = norm_i16 j \<longleftrightarrow> opt_i16 i = opt_i16 j"
  "bool_byte p = bool_byte q \<longleftrightarrow> p = q"
  by (simp_all add: norm_str_def norm_hash_def norm_u32_def norm_i16_def opt_str_def opt_u32_def
      opt_i16_def bool_byte_def le_bytes_inject str_bytes_inj)

lemma opt_vec_inject: "hash_ok g \<Longrightarrow> hash_ok h \<Longrightarrow> opt_vec g = opt_vec h \<longleftrightarrow> g = h"
  by (auto simp: hash_ok_def opt_vec_def split: option.splits)

text \<open>
  What the current digest sees of an input: absent values as their sentinels, and nothing of the
  seed lineage.
\<close>

definition receipt_norm :: "receipt_digest_input \<Rightarrow> receipt_digest_input" where
  "receipt_norm a = a\<lparr>
     rd_backend_used := norm_str (rd_backend_used a),
     rd_root_seed_digest := None, rd_seed_mode := None, rd_has_manifest_binding := None,
     rd_stop_reason_code := norm_str (rd_stop_reason_code a),
     rd_stop_reason_token_index := norm_u32 (rd_stop_reason_token_index a),
     rd_stop_policy_digest_b3 := norm_hash (rd_stop_policy_digest_b3 a),
     rd_kv_residency_policy_id := norm_str (rd_kv_residency_policy_id a),
     rd_prefix_kv_key_b3 := norm_hash (rd_prefix_kv_key_b3 a),
     rd_model_cache_identity_v2_digest_b3 := norm_hash (rd_model_cache_identity_v2_digest_b3 a),
     rd_equipment_profile_digest_b3 := norm_hash (rd_equipment_profile_digest_b3 a),
     rd_processor_id := norm_str (rd_processor_id a),
     rd_mlx_version := norm_str (rd_mlx_version a),
     rd_ane_version := norm_str (rd_ane_version a),
     rd_citations_merkle_root_b3 := norm_hash (rd_citations_merkle_root_b3 a),
     rd_previous_receipt_digest := norm_hash (rd_previous_receipt_digest a),
     rd_tokenizer_hash_b3 := norm_hash (rd_tokenizer_hash_b3 a),
     rd_tokenizer_version := norm_str (rd_tokenizer_version a),
     rd_tokenizer_normalization := norm_str (rd_tokenizer_normalization a),
     rd_model_build_hash_b3 := norm_hash (rd_model_build_hash_b3 a),
     rd_adapter_build_hash_b3 := norm_hash (rd_adapter_build_hash_b3 a),
     rd_decode_algo := norm_str (rd_decode_algo a),
     rd_temperature_q15 := norm_i16 (rd_temperature_q15 a),
     rd_top_p_q15 := norm_i16 (rd_top_p_q15 a),
     rd_top_k := norm_u32 (rd_top_k a),
     rd_seed_digest_b3 := norm_hash (rd_seed_digest_b3 a),
     rd_sampling_backend := norm_str (rd_sampling_backend a),
     rd_thread_count := norm_u32 (rd_thread_count a),
     rd_reduction_strategy := norm_str (rd_reduction_strategy a),
     rd_stop_eos_q15 := norm_i16 (rd_stop_eos_q15 a),
     rd_stop_window_digest_b3 := norm_hash (rd_stop_window_digest_b3 a),
     rd_cache_scope := norm_str (rd_cache_scope a),
     rd_cached_prefix_digest_b3 := norm_hash (rd_cached_prefix_digest_b3 a),
     rd_cached_prefix_len := norm_u32 (rd_cached_prefix_len a),
     rd_cache_key_b3 := norm_hash (rd_cache_key_b3 a),
     rd_retrieval_merkle_root_b3 := norm_hash (rd_retrieval_merkle_root_b3 a),
     rd_retrieval_order_digest_b3 := norm_hash (rd_retrieval_order_digest_b3 a),
     rd_tool_call_inputs_digest_b3 := norm_hash (rd_tool_call_inputs_digest_b3 a),
     rd_tool_call_outputs_digest_b3 := norm_hash (rd_tool_call_outputs_digest_b3 a),
     rd_disclosure_level := norm_str (rd_disclosure_level a),
     rd_adapter_version_bindings_digest_b3 := norm_hash (rd_adapter_version_bindings_digest_b3 a)\<rparr>"

lemmas group_slices = core_slices_def backend_slices_def stop_slices_def kv_slices_def cache_slices_def
  equipment_slices_def lineage_slices_def v7_slices_def

lemma length_groups [simp]:
  "length (backend_slices a) = 4" "length (stop_slices a) = 4" "length (kv_slices a) = 6"
  "length (cache_slices a) = 4" "length (equipment_slices a) = 9" "length (lineage_slices a) = 2"
  by (simp_all add: group_slices)

lemma v7_slices_groups:
  "receipt_slices 7 a = receipt_slices 7 b \<longleftrightarrow>
     core_slices a = core_slices b \<and> backend_slices a = backend_slices b \<and> stop_slices a = stop_slices b \<and>
     kv_slices a = kv_slices b \<and> cache_slices a = cache_slices b \<and> equipment_slices a = equipment_slices b \<and>
     lineage_slices a = lineage_slices b \<and> v7_slices a = v7_slices b"
  by (simp add: receipt_slices_def)

lemma receipt_norm_slices:
  "receipt_slices 7 (receipt_norm a) = receipt_slices 7 a"
  "opt_hash (rd_adapter_version_bindings_digest_b3 (receipt_norm a)) =
   opt_hash (rd_adapter_version_bindings_digest_b3 a)"
proof -
  have o: "opt_str (norm_str s) = opt_str s" "opt_hash (norm_hash h) = opt_hash h"
    "opt_u32 (norm_u32 n) = opt_u32 n" "opt_i16 (norm_i16 i) = opt_i16 i" for s h n i
    by (simp_all add: opt_str_def norm_str_def opt_hash_def norm_hash_def opt_u32_def norm_u32_def
        opt_i16_def norm_i16_def)
  show "receipt_slices 7 (receipt_norm a) = receipt_slices 7 a"
    unfolding v7_slices_groups by (simp add: group_slices receipt_norm_def o)
  show "opt_hash (rd_adapter_version_bindings_digest_b3 (receipt_norm a)) =
     opt_hash (rd_adapter_version_bindings_digest_b3 a)"
    by (simp add: receipt_norm_def o)
qed

lemma receipt_norm_eq:
  assumes "receipt_ok a" "receipt_ok b" "receipt_slices 7 a = receipt_slices 7 b"
    "opt_hash (rd_adapter_version_bindings_digest_b3 a) = opt_hash (rd_adapter_version_bindings_digest_b3 b)"
  shows "receipt_norm a = receipt_norm b"
proof -
  have att: "rd_backend_attestation_b3 a = rd_backend_attestation_b3 b"
    using assms(1-3) by (auto simp: v7_slices_groups backend_slices_def receipt_ok_def opt_vec_inject)
  show ?thesis
    using assms(3,4) att unfolding v7_slices_groups
    by (intro receipt_digest_input.equality)
      (simp_all add: receipt_norm_def group_slices norm_inject le_bytes_inject)
qed

text \<open>
  (C32) The digest of the current schema version binds the whole input up to two things: an absent
  value and its sentinel (the empty string, zero bytes, all ones, the least \<open>i16\<close>) are the
  same, and the seed lineage (\<open>root_seed_digest\<close>, \<open>seed_mode\<close>, \<open>has_manifest_binding\<close>) is not
  bound at all. Two inputs have the same digest exactly when they agree in everything else.
\<close>

theorem current_receipt_exact:
  assumes "receipt_ok a" "receipt_ok b" "\<And>x. length (H x) = 32"
    and "inj_on H (hashed_inputs H receipt_schema_current a \<union> hashed_inputs H receipt_schema_current b)"
  shows "compute_receipt_digest H a receipt_schema_current = compute_receipt_digest H b receipt_schema_current \<longleftrightarrow>
    receipt_norm a = receipt_norm b"
proof -
  have "compute_v8_digest H a = compute_v8_digest H b \<longleftrightarrow> receipt_norm a = receipt_norm b"
    using receipt_v8_iff [of a b H, OF assms(1-3)] assms(4) receipt_norm_eq [OF assms(1,2)]
      receipt_norm_slices [of a] receipt_norm_slices [of b]
    unfolding receipt_schema_current_def by metis
  then show ?thesis by (simp add: compute_receipt_digest_def receipt_schema_current_def)
qed

section \<open>The chain of decisions\<close>

definition decision_slices :: "token_decision \<Rightarrow> bytes list" where
  "decision_slices d =
     [td_context_digest d, le_bytes 4 (td_token_index d)] @
       prefixed (td_adapter_ids_blob d) @ prefixed (td_gates_blob d) @
       prefixed (opt_vec (td_policy_mask_digest d)) @ prefixed (opt_vec (td_allowed_mask_blob d)) @
       prefixed (opt_str (td_policy_overrides_json d)) @ prefixed (opt_str (td_backend_id d)) @
       prefixed (opt_str (td_kernel_version_id d)) @ []"

definition decision_ok :: "token_decision \<Rightarrow> bool" where
  "decision_ok d \<longleftrightarrow> length (td_context_digest d) = 32 \<and>
     list_all (\<lambda>bs. length bs < 4294967296)
       [td_adapter_ids_blob d, td_gates_blob d, opt_vec (td_policy_mask_digest d),
        opt_vec (td_allowed_mask_blob d), opt_str (td_policy_overrides_json d), opt_str (td_backend_id d),
        opt_str (td_kernel_version_id d)]"

interpretation decision: prefix_code decision_slices decision_ok
  unfolding decision_slices_def [abs_def] append.simps
  by (intro prefix_code_intros) (simp_all add: decision_ok_def)

lemma hash_token_decision_slices: "hash_token_decision H d = b3_hash_multi H (decision_slices d)"
  by (simp add: hash_token_decision_def decision_slices_def)

definition run_head :: "hash_fn \<Rightarrow> b3hash \<Rightarrow> token_decision list \<Rightarrow> b3hash" where
  "run_head H start ds =
     foldl (\<lambda>h d. update_run_head H h (td_token_index d) (hash_token_decision H d)) start ds"

fun chain_inputs :: "hash_fn \<Rightarrow> b3hash \<Rightarrow> token_decision list \<Rightarrow> bytes set" where
  "chain_inputs H h [] = {}"
| "chain_inputs H h (d # ds) =
     {concat (decision_slices d), concat [h, hash_token_decision H d, le_bytes 4 (td_token_index d)]} \<union>
     chain_inputs H (update_run_head H h (td_token_index d) (hash_token_decision H d)) ds"

lemma run_head_Nil [simp]: "run_head H h [] = h"
  by (simp add: run_head_def)

lemma run_head_snoc [simp]:
  "run_head H h (ds @ [d]) = update_run_head H (run_head H h ds) (td_token_index d) (hash_token_decision H d)"
  by (simp add: run_head_def)

lemma chain_inputs_snoc:
  "chain_inputs H h (ds @ [d]) = chain_inputs H h ds \<union>
     {concat (decision_slices d), concat [run_head H h ds, hash_token_decision H d, le_bytes 4 (td_token_index d)]}"
  by (induction ds arbitrary: h) (auto simp: run_head_def)

lemma run_head_length:
  assumes "\<And>x. length (H x) = 32" "length h = 32"
  shows "length (run_head H h ds) = 32"
  using assms by (cases ds rule: rev_cases) (simp_all add: update_run_head_def b3_hash_multi_def)

text \<open>A link of the chain determines the head before it and the decision it adds.\<close>

lemma run_head_link:
  assumes len: "length h = 32" "length k = 32" "\<And>x. length (H x) = 32" and ok: "decision_ok d" "decision_ok e"
    and inj: "inj_on H A" "{concat (decision_slices d), concat (decision_slices e),
      concat [h, hash_token_decision H d, le_bytes 4 (td_token_index d)],
      concat [k, hash_token_decision H e, le_bytes 4 (td_token_index e)]} \<subseteq> A"
    and eq: "update_run_head H h (td_token_index d) (hash_token_decision H d) =
      update_run_head H k (td_token_index e) (hash_token_decision H e)"
  shows "h = k \<and> decision_slices d = decision_slices e"
proof -
  let ?c = "\<lambda>h d. concat [h, hash_token_decision H d, le_bytes 4 (td_token_index d)]"
  have "length (hash_token_decision H c) = 32" for c
    by (simp add: hash_token_decision_slices b3_hash_multi_def len(3))
  moreover have "H (?c h d) = H (?c k e)" using eq by (simp add: update_run_head_def b3_hash_multi_def)
  then have "?c h d = ?c k e" by (rule inj_onD [OF inj(1)]) (use inj(2) in simp_all)
  ultimately have "h = k" "hash_token_decision H d = hash_token_decision H e" using len(1,2) by simp_all
  moreover have "inj_on H {concat (decision_slices d), concat (decision_slices e)}"
    using inj(2) by (intro inj_on_subset [OF inj(1)]) simp
  ultimately show ?thesis
    using decision.digest_inject [of d e H] ok by (simp add: hash_token_decision_slices)
qed

text \<open>
  The head of the run chain commits to the whole run, its length included: two runs that end in
  the same head took the same decision at every token, in the same order (an absent value counts
  as an empty one).
\<close>

lemma run_head_unique:
  assumes "length z = 32" "\<And>x. length (H x) = 32" "\<forall>d \<in> set ds \<union> set es. decision_ok d"
    and "inj_on H (chain_inputs H z ds \<union> chain_inputs H z es)"
    and "z \<notin> H ` (chain_inputs H z ds \<union> chain_inputs H z es)"
    and "run_head H z ds = run_head H z es"
  shows "map decision_slices ds = map decision_slices es"
  using assms(3-6)
proof (induction ds arbitrary: es rule: rev_induct)
  case Nil
  then show ?case
    by (cases es rule: rev_cases) (auto simp: chain_inputs_snoc update_run_head_def b3_hash_multi_def)
next
  case (snoc d ds)
  show ?case
  proof (cases es rule: rev_cases)
    case Nil
    with snoc.prems(3,4) show ?thesis
      by (auto simp: chain_inputs_snoc update_run_head_def b3_hash_multi_def)
  next
    case (snoc fs f)
    have "run_head H z ds = run_head H z fs \<and> decision_slices d = decision_slices f"
      using snoc.prems(1,4) run_head_length [OF assms(2,1)]
      by (intro run_head_link [OF _ _ assms(2) _ _ snoc.prems(2)]) (simp_all add: snoc chain_inputs_snoc)
    moreover have "inj_on H (chain_inputs H z ds \<union> chain_inputs H z fs)"
      by (rule inj_on_subset [OF snoc.prems(2)]) (auto simp: snoc chain_inputs_snoc)
    ultimately show ?thesis
      using snoc.IH [of fs] snoc.prems(1,3) by (simp add: snoc chain_inputs_snoc)
  qed
qed

section \<open>Blobs\<close>

lemma decode_mask_bits_map: "decode_mask_bits (length m) (map (\<lambda>b. if b then 1 else 0) m @ rest) = Ok m"
  by (induction m) auto

lemma allowed_mask_roundtrip:
  "length m < 2 ^ 32 \<Longrightarrow> decode_allowed_mask (encode_allowed_mask m) = Ok m"
  using decode_mask_bits_map [of m "[]"]
  by (simp add: decode_allowed_mask_def encode_allowed_mask_def le_bytes_roundtrip
      unsigned_of_nat take_bit_nat_eq_self)

lemma encode_adapter_ids_inject:
  assumes "length xs < 2 ^ 32" "length ys < 2 ^ 32" "\<forall>s \<in> set xs \<union> set ys. length s < 2 ^ 32"
    and "encode_adapter_ids xs = encode_adapter_ids ys"
  shows "xs = ys"
proof -
  have "length xs = length ys"
    using assms(4) of_nat_length_inject [OF assms(1,2)]
    by (simp add: encode_adapter_ids_def le_bytes_inject)
  moreover have "concat (map (\<lambda>s. concat (prefixed s)) (map str_bytes xs)) =
      concat (map (\<lambda>s. concat (prefixed s)) (map str_bytes ys))"
    using assms(4) by (simp add: encode_adapter_ids_def comp_def)
  ultimately have "map str_bytes xs = map str_bytes ys"
    using assms(3) by (intro concat_prefixed_inject) (auto simp: str_bytes_def)
  then show ?thesis by (metis (mono_tags) inj_map_eq_map injI str_bytes_inj)
qed

lemma encode_gates_inject: "encode_gates_q15 xs = encode_gates_q15 ys \<Longrightarrow> xs = ys"
  by (auto simp: encode_gates_q15_def dest: concat_le_bytes_inject [rotated 2])

lemma output_digest_inject:
  assumes "compute_output_digest H xs = compute_output_digest H ys"
    and "H (le_bytes 4 (of_nat (length xs) :: u32) @ concat (map (le_bytes 4) xs)) =
         H (le_bytes 4 (of_nat (length ys) :: u32) @ concat (map (le_bytes 4) ys)) \<Longrightarrow>
         le_bytes 4 (of_nat (length xs) :: u32) @ concat (map (le_bytes 4) xs) =
         le_bytes 4 (of_nat (length ys) :: u32) @ concat (map (le_bytes 4) ys)"
  shows "xs = ys"
  using assms by (auto simp: compute_output_digest_def b3_hash_def dest: concat_le_bytes_inject [rotated 2])

section \<open>Canonical JSON\<close>

text \<open>The same value up to the order of the entries of its objects, at every depth.\<close>

inductive json_same :: "'a json \<Rightarrow> 'a json \<Rightarrow> bool" where
  same_leaf: "json_same (JLeaf x) (JLeaf x)"
| same_array: "list_all2 json_same vs ws \<Longrightarrow> json_same (JArray vs) (JArray ws)"
| same_object: "list_all2 (\<lambda>p q. fst p = fst q \<and> json_same (snd p) (snd q)) es es' \<Longrightarrow>
    mset es' = mset es'' \<Longrightarrow> distinct (map fst es) \<Longrightarrow> json_same (JObject es) (JObject es'')"

lemma sort_key_perm:
  assumes "mset xs = mset ys" "distinct (map fst xs)"
  shows "sort_key fst xs = sort_key fst ys"
proof (rule sort_key_inj_key_eq)
  show "inj_on fst (set xs)" using assms(2) by (simp add: distinct_map)
qed (simp_all add: assms(1))

lemma canonical_json_order_free:
  "json_same v w \<Longrightarrow> canonicalize_json_value v = canonicalize_json_value w"
proof (induction rule: json_same.induct)
  case (same_array vs ws)
  then show ?case by (simp add: list_all2_conv_all_nth map_equality_iff)
next
  case (same_object es es' es'')
  let ?c = "map (\<lambda>(k, v). (k, canonicalize_json_value v))"
  have "?c es = ?c es'"
    using same_object(1) by (auto simp: list_all2_conv_all_nth list_eq_iff_nth_eq split: prod.split)
  moreover have "mset (?c es') = mset (?c es'')" using same_object(2) by (simp add: mset_map)
  moreover have "distinct (map fst (?c es))"
    using same_object(3) by (simp add: comp_def case_prod_beta')
  ultimately show ?case by (simp add: sort_key_perm [of "?c es'" "?c es''"])
qed simp

section \<open>Witnesses\<close>

text \<open>A digest function with 32 bytes that separates inputs by their first byte.\<close>

definition pad32 :: hash_fn where
  "pad32 x = take 32 (x @ replicate 32 0)"

lemma length_pad32 [simp]: "length (pad32 x) = 32"
  by (simp add: pad32_def)

lemma pad32_separates: "b \<noteq> c \<Longrightarrow> pad32 (b # xs) \<noteq> pad32 (c # ys)"
  by (simp add: pad32_def)

definition example_receipt :: receipt_digest_input where
  "example_receipt = receipt_input_new (replicate 32 1) (replicate 32 2) (replicate 32 3) 10 4 6 5 5"

lemma example_receipt_ok: "receipt_ok example_receipt"
  "receipt_ok (example_receipt\<lparr>rd_seed_mode := Some ''strict'', rd_backend_used := Some []\<rparr>)"
  by (simp_all add: receipt_ok_def example_receipt_def receipt_input_new_def hash_ok_def str_ok_def)

lemma example_receipt_inj:
  "inj_on pad32 (hashed_inputs pad32 8 example_receipt \<union>
     hashed_inputs pad32 8 (example_receipt\<lparr>rd_seed_mode := Some ''strict'', rd_backend_used := Some []\<rparr>))"
proof -
  let ?b = "example_receipt\<lparr>rd_seed_mode := Some ''strict'', rd_backend_used := Some []\<rparr>"
  have "rd_backend_used example_receipt = None" by (simp add: example_receipt_def receipt_input_new_def)
  then have "receipt_slices 7 ?b = receipt_slices 7 example_receipt"
    unfolding v7_slices_groups by (simp add: group_slices opt_str_def)
  then have "hashed_inputs pad32 8 ?b = hashed_inputs pad32 8 example_receipt"
    by (simp add: hashed_inputs_def v7_digest_slices)
  moreover have "inj_on pad32 (hashed_inputs pad32 8 example_receipt)"
    by (simp add: hashed_inputs_def receipt_slices_def pad32_separates)
  ultimately show ?thesis by simp
qed

theorem current_receipt_exact_witness:
  "compute_receipt_digest pad32 example_receipt receipt_schema_current =
   compute_receipt_digest pad32 (example_receipt\<lparr>rd_seed_mode := Some ''strict'', rd_backend_used := Some []\<rparr>)
     receipt_schema_current"
proof -
  have "rd_backend_used example_receipt = None" "rd_seed_mode example_receipt = None"
    by (simp_all add: example_receipt_def receipt_input_new_def)
  then have "receipt_norm example_receipt =
      receipt_norm (example_receipt\<lparr>rd_seed_mode := Some ''strict'', rd_backend_used := Some []\<rparr>)"
    by (simp add: receipt_norm_def norm_str_def)
  then show ?thesis
    using current_receipt_exact [OF example_receipt_ok length_pad32] example_receipt_inj
    by (simp add: receipt_schema_current_def)
qed

theorem receipt_binds_billing_witness:
  "compute_receipt_digest pad32 example_receipt 8 =
     Some (compute_v8_digest pad32 (example_receipt\<lparr>rd_seed_mode := Some ''strict'', rd_backend_used := Some []\<rparr>)) \<and>
   rd_billed_input_tokens example_receipt =
     rd_billed_input_tokens (example_receipt\<lparr>rd_seed_mode := Some ''strict'', rd_backend_used := Some []\<rparr>)"
proof -
  let ?b = "example_receipt\<lparr>rd_seed_mode := Some ''strict'', rd_backend_used := Some []\<rparr>"
  have "rd_backend_used example_receipt = None" by (simp add: example_receipt_def receipt_input_new_def)
  then have "receipt_slices 7 ?b = receipt_slices 7 example_receipt"
    unfolding v7_slices_groups by (simp add: group_slices opt_str_def)
  then have e: "compute_receipt_digest pad32 example_receipt 8 = Some (compute_v8_digest pad32 ?b)"
    "compute_receipt_digest pad32 ?b 8 = Some (compute_v8_digest pad32 ?b)"
    by (simp_all add: compute_receipt_digest_def compute_v8_digest_def v7_digest_slices)
  from receipt_binds_billing [OF example_receipt_ok length_pad32 example_receipt_inj e] e(1)
  show ?thesis by simp
qed

end
