(* ===== verification/TraceReceipts.thy ===== *)
theory TraceReceipts
  imports PrefixLookup ReceiptDigest
begin

text \<open>
  The trace of an inference and its receipt (\<open>crates/adapteros-db/src/inference_trace.rs\<close>):
  the sink that records a decision per token, the checks before a receipt is issued, and the
  verification that recomputes a stored receipt. The three SQL tables are association lists by
  trace, with the primary keys of the schema; the outcome of a transaction, the JSON codec of
  the policy overrides and the hexadecimal codec are arguments; queries that read are taken to
  succeed, the observability event of a mismatch is left out. The fields that
  \<open>TraceFinalization\<close> and \<open>TraceReceipt\<close> both declare are one record here.
\<close>

section \<open>Data\<close>

record trace_start =
  st_trace_id :: string
  st_tenant_id :: string
  st_request_id :: "string option"
  st_context_digest :: bytes
  st_stack_id :: "string option"
  st_model_id :: "string option"
  st_policy_id :: "string option"

record 'o trace_token_input =
  ti_token_index :: u32
  ti_adapter_ids :: "string list"
  ti_gates_q15 :: "i16 list"
  ti_policy_mask_digest_b3 :: "bytes option"
  ti_allowed_mask :: "bool list option"
  ti_policy_overrides_applied :: "'o option"
  ti_backend_id :: "string option"
  ti_kernel_version_id :: "string option"

record equipment_profile =
  ep_processor_id :: string
  ep_engine_version :: string
  ep_ane_version :: "string option"
  ep_digest :: b3hash

record trace_fields =
  tf_logical_prompt_tokens :: u32
  tf_prefix_cached_token_count :: u32
  tf_billed_input_tokens :: u32
  tf_logical_output_tokens :: u32
  tf_billed_output_tokens :: u32
  tf_stop_reason_code :: "string option"
  tf_stop_reason_token_index :: "u32 option"
  tf_stop_policy_digest_b3 :: "b3hash option"
  tf_tenant_kv_quota_bytes :: u64
  tf_tenant_kv_bytes_used :: u64
  tf_kv_evictions :: u32
  tf_kv_residency_policy_id :: "string option"
  tf_kv_quota_enforced :: bool
  tf_prefix_kv_key_b3 :: "b3hash option"
  tf_prefix_cache_hit :: bool
  tf_prefix_kv_bytes :: u64
  tf_model_cache_identity_v2_digest_b3 :: "b3hash option"
  tf_equipment_profile :: "equipment_profile option"
  tf_attestation :: "bytes option"
  tf_crypto_receipt_digest_b3 :: "b3hash option"
  tf_receipt_parity_verified :: "bool option"
  tf_tenant_id :: "string option"
  tf_copy_bytes :: "u64 option"
  tf_tokenizer_hash_b3 :: "b3hash option"
  tf_tokenizer_version :: "string option"
  tf_tokenizer_normalization :: "string option"
  tf_model_build_hash_b3 :: "b3hash option"
  tf_adapter_build_hash_b3 :: "b3hash option"
  tf_decode_algo :: "string option"
  tf_temperature_q15 :: "i16 option"
  tf_top_p_q15 :: "i16 option"
  tf_top_k :: "u32 option"
  tf_seed_digest_b3 :: "b3hash option"
  tf_sampling_backend :: "string option"
  tf_thread_count :: "u32 option"
  tf_reduction_strategy :: "string option"
  tf_stop_eos_q15 :: "i16 option"
  tf_stop_window_digest_b3 :: "b3hash option"
  tf_cache_scope :: "string option"
  tf_cached_prefix_digest_b3 :: "b3hash option"
  tf_cached_prefix_len :: "u32 option"
  tf_cache_key_b3 :: "b3hash option"
  tf_retrieval_merkle_root_b3 :: "b3hash option"
  tf_retrieval_order_digest_b3 :: "b3hash option"
  tf_tool_call_inputs_digest_b3 :: "b3hash option"
  tf_tool_call_outputs_digest_b3 :: "b3hash option"
  tf_disclosure_level :: "string option"
  tf_receipt_signing_kid :: "string option"
  tf_receipt_signed_at :: "string option"

record trace_finalization =
  fz_output_tokens :: "u32 list"
  fz_fields :: trace_fields
  fz_cache_attestation :: "cache_attestation option"
  fz_worker_public_key :: "bytes option"

record trace_receipt =
  rc_trace_id :: string
  rc_run_head_hash :: b3hash
  rc_output_digest :: b3hash
  rc_receipt_digest :: b3hash
  rc_signature :: "bytes option"
  rc_input_digest_b3 :: "b3hash option"
  rc_fields :: trace_fields

record 'o trace_token_row =
  tr_token_index :: u32
  tr_adapter_ids_blob :: bytes
  tr_gates_blob :: bytes
  tr_decision_hash :: b3hash
  tr_policy_mask_digest :: "bytes option"
  tr_allowed_mask_blob :: "bytes option"
  tr_policy_overrides :: 'o
  tr_backend_id :: "string option"
  tr_kernel_version_id :: "string option"

text \<open>Buffered rows hold the overrides as a value, stored rows their JSON text.\<close>

record trace_db =
  td_traces :: "(string \<times> trace_start) list"
  td_tokens :: "(string \<times> string option trace_token_row) list"
  td_receipts :: "(string \<times> trace_receipt) list"

record 'o trace_sink =
  sk_start :: trace_start
  sk_buffer :: "'o option trace_token_row list"
  sk_flush_every :: nat
  sk_run_head_hash :: b3hash
  sk_input_digest_b3 :: "b3hash option"

record 'o trace_env =
  te_hash :: hash_fn
  te_print :: "'o \<Rightarrow> (string, string) result"
  te_parse :: "string \<Rightarrow> (string, 'o) result"
  te_hex_encode :: "bytes \<Rightarrow> string"
  te_hex_decode :: "string \<Rightarrow> string + bytes"
  te_unique_error :: string

datatype tx_outcome = TxCommitted | TxBeginFailed string | TxCommitFailed string

section \<open>The sink\<close>

definition compute_input_digest :: "hash_fn \<Rightarrow> u32 list \<Rightarrow> b3hash" where
  "compute_input_digest H tokens =
     b3_hash H (le_bytes 4 (of_nat (length tokens) :: u32) @ concat (map (le_bytes 4) tokens))"

definition new_with_input_tokens ::
  "'o trace_env \<Rightarrow> bool \<Rightarrow> string option \<Rightarrow> trace_start \<Rightarrow> nat \<Rightarrow> u32 list option \<Rightarrow> trace_db \<Rightarrow>
   (aos_error, 'o trace_sink) result \<times> trace_db" where
  "new_with_input_tokens env write_to_sql db_error start flush_every input_tokens db =
     (if \<not> write_to_sql then
        (Err (EValidation ''SQL write disabled - cannot persist inference trace''), db)
      else if map_of (td_traces db) (st_trace_id start) \<noteq> None then
        (Err (EDatabase (''Failed to insert inference_trace: '' @ te_unique_error env)), db)
      else
        (case db_error of
           Some e \<Rightarrow> (Err (EDatabase (''Failed to insert inference_trace: '' @ e)), db)
         | None \<Rightarrow>
             (Ok \<lparr>sk_start = start, sk_buffer = [], sk_flush_every = max flush_every 1,
                  sk_run_head_hash = b3_zero,
                  sk_input_digest_b3 = map_option (compute_input_digest (te_hash env)) input_tokens\<rparr>,
              db\<lparr>td_traces := am_insert (st_trace_id start) start (td_traces db)\<rparr>)))"

definition trace_sink_new ::
  "'o trace_env \<Rightarrow> bool \<Rightarrow> string option \<Rightarrow> trace_start \<Rightarrow> nat \<Rightarrow> trace_db \<Rightarrow>
   (aos_error, 'o trace_sink) result \<times> trace_db" where
  "trace_sink_new env write_to_sql db_error start flush_every db =
     new_with_input_tokens env write_to_sql db_error start flush_every None db"

definition encode_overrides_json ::
  "'o trace_env \<Rightarrow> 'o option \<Rightarrow> (aos_error, string option) result" where
  "encode_overrides_json env overrides =
     (case overrides of
        None \<Rightarrow> Ok None
      | Some v \<Rightarrow> (case te_print env v of Err e \<Rightarrow> Err (EInvalidHash e) | Ok s \<Rightarrow> Ok (Some s)))"

definition decode_overrides_json ::
  "'o trace_env \<Rightarrow> string option \<Rightarrow> (aos_error, 'o option) result" where
  "decode_overrides_json env json =
     (case json of
        None \<Rightarrow> Ok None
      | Some s \<Rightarrow>
          (case te_parse env s of
             Err e \<Rightarrow> Err (EInvalidHash (''policy_overrides decode error: '' @ e))
           | Ok v \<Rightarrow> Ok (Some v)))"

definition to_digest :: "bytes \<Rightarrow> (aos_error, bytes) result" where
  "to_digest bs =
     (if length bs \<noteq> 32 then Err (EInvalidHash (''expected 32-byte digest, got '' @ show_nat (length bs)))
      else Ok bs)"

definition stored_row :: "string option \<Rightarrow> 'o option trace_token_row \<Rightarrow> string option trace_token_row" where
  "stored_row json row =
     \<lparr>tr_token_index = tr_token_index row, tr_adapter_ids_blob = tr_adapter_ids_blob row,
      tr_gates_blob = tr_gates_blob row, tr_decision_hash = tr_decision_hash row,
      tr_policy_mask_digest = tr_policy_mask_digest row, tr_allowed_mask_blob = tr_allowed_mask_blob row,
      tr_policy_overrides = json, tr_backend_id = tr_backend_id row,
      tr_kernel_version_id = tr_kernel_version_id row\<rparr>"

fun insert_rows ::
  "'o trace_env \<Rightarrow> string \<Rightarrow> 'o option trace_token_row list \<Rightarrow> (string \<times> string option trace_token_row) list \<Rightarrow>
   (aos_error, (string \<times> string option trace_token_row) list) result" where
  "insert_rows env trace_id [] tokens = Ok tokens"
| "insert_rows env trace_id (row # rows) tokens =
     (case encode_overrides_json env (tr_policy_overrides row) of
        Err e \<Rightarrow> Err (EDatabase (''Failed to serialize policy_overrides_applied for trace '' @ trace_id @
          '': '' @ aos_error_display e))
      | Ok json \<Rightarrow>
          if list_ex (\<lambda>(i, r). i = trace_id \<and> tr_token_index r = tr_token_index row) tokens
          then Err (EDatabase (''Failed to insert trace token: '' @ te_unique_error env))
          else insert_rows env trace_id rows (tokens @ [(trace_id, stored_row json row)]))"

definition insert_buffer ::
  "'o trace_env \<Rightarrow> tx_outcome \<Rightarrow> 'o trace_sink \<times> trace_db \<Rightarrow>
   (aos_error, unit) result \<times> 'o trace_sink \<times> trace_db" where
  "insert_buffer env tx s =
     (let (sk, db) = s in
      if sk_buffer sk = [] then (Ok (), sk, db)
      else
        (case tx of
           TxBeginFailed e \<Rightarrow>
             (Err (EDatabase (''Failed to begin inference trace token transaction: '' @ e)), sk, db)
         | _ \<Rightarrow>
             (case insert_rows env (st_trace_id (sk_start sk)) (sk_buffer sk) (td_tokens db) of
                Err e \<Rightarrow> (Err e, sk\<lparr>sk_buffer := []\<rparr>, db)
              | Ok tokens \<Rightarrow>
                  (case tx of
                     TxCommitFailed e \<Rightarrow>
                       (Err (EDatabase (''Failed to commit trace tokens: '' @ e)), sk\<lparr>sk_buffer := []\<rparr>, db)
                   | _ \<Rightarrow> (Ok (), sk\<lparr>sk_buffer := []\<rparr>, db\<lparr>td_tokens := tokens\<rparr>)))))"

definition record_token ::
  "'o trace_env \<Rightarrow> tx_outcome \<Rightarrow> 'o trace_token_input \<Rightarrow> 'o trace_sink \<times> trace_db \<Rightarrow>
   (aos_error, unit) result \<times> 'o trace_sink \<times> trace_db" where
  "record_token env tx token s =
     (let (sk, db) = s;
          adapter_blob = encode_adapter_ids (ti_adapter_ids token);
          gates_blob = encode_gates_q15 (ti_gates_q15 token);
          allowed_blob = map_option encode_allowed_mask (ti_allowed_mask token) in
      case encode_overrides_json env (ti_policy_overrides_applied token) of
        Err e \<Rightarrow> (Err e, sk, db)
      | Ok overrides_json \<Rightarrow>
          (let decision_hash = hash_token_decision (te_hash env)
                 \<lparr>td_context_digest = st_context_digest (sk_start sk), td_token_index = ti_token_index token,
                  td_adapter_ids_blob = adapter_blob, td_gates_blob = gates_blob,
                  td_policy_mask_digest = ti_policy_mask_digest_b3 token, td_allowed_mask_blob = allowed_blob,
                  td_policy_overrides_json = overrides_json, td_backend_id = ti_backend_id token,
                  td_kernel_version_id = ti_kernel_version_id token\<rparr>;
               row = \<lparr>tr_token_index = ti_token_index token, tr_adapter_ids_blob = adapter_blob,
                      tr_gates_blob = gates_blob, tr_decision_hash = decision_hash,
                      tr_policy_mask_digest = ti_policy_mask_digest_b3 token,
                      tr_allowed_mask_blob = allowed_blob,
                      tr_policy_overrides = ti_policy_overrides_applied token,
                      tr_backend_id = ti_backend_id token,
                      tr_kernel_version_id = ti_kernel_version_id token\<rparr>;
               sk1 = sk\<lparr>sk_run_head_hash :=
                          update_run_head (te_hash env) (sk_run_head_hash sk) (ti_token_index token) decision_hash,
                        sk_buffer := sk_buffer sk @ [row]\<rparr> in
           if length (sk_buffer sk1) \<ge> sk_flush_every sk1 then insert_buffer env tx (sk1, db)
           else (Ok (), sk1, db)))"

definition trace_flush ::
  "'o trace_env \<Rightarrow> tx_outcome \<Rightarrow> 'o trace_sink \<times> trace_db \<Rightarrow>
   (aos_error, unit) result \<times> 'o trace_sink \<times> trace_db" where
  "trace_flush env tx s = insert_buffer env tx s"

section \<open>Issuing a receipt\<close>

definition check_billing :: "trace_fields \<Rightarrow> (aos_error, unit) result" where
  "check_billing tf =
     (if sat_sub32 (tf_logical_prompt_tokens tf) (tf_prefix_cached_token_count tf) \<noteq> tf_billed_input_tokens tf
      then Err (EValidation
        ''billed_input_tokens must equal logical_prompt_tokens - prefix_cached_token_count'')
      else if tf_billed_output_tokens tf \<noteq> tf_logical_output_tokens tf
      then Err (EValidation ''billed_output_tokens must equal logical_output_tokens (v1)'')
      else Ok ())"

definition check_cache_credits ::
  "(bytes \<Rightarrow> (string, 'vk) result) \<Rightarrow> ('vk \<Rightarrow> bytes \<Rightarrow> bytes \<Rightarrow> (string, unit) result) \<Rightarrow>
   trace_finalization \<Rightarrow> (aos_error, unit) result" where
  "check_cache_credits parse_key verify_sig fz =
     (let cached = tf_prefix_cached_token_count (fz_fields fz) in
      if cached > 0 then
        (case fz_cache_attestation fz of
           None \<Rightarrow> Err (EValidation (''cache_attestation required when prefix_cached_token_count > 0 '' @
             ''(P0-1: billing fraud prevention)''))
         | Some a \<Rightarrow>
             (case fz_worker_public_key fz of
                None \<Rightarrow> Err (EValidation ''worker_public_key required for cache attestation verification'')
              | Some public_key \<Rightarrow>
                  (case attestation_verify parse_key verify_sig a public_key of
                     Err e \<Rightarrow> Err (EValidation (''cache attestation verification failed: '' @
                       aos_error_display e @ '' (P0-1: potential billing fraud)''))
                   | Ok _ \<Rightarrow>
                       if att_token_count a \<noteq> cached then
                         Err (EValidation (''cache attestation token_count ('' @ show_nat (unat (att_token_count a)) @
                           '') does not match prefix_cached_token_count ('' @ show_nat (unat cached) @
                           '') (P0-1: billing mismatch)''))
                       else
                         (case tf_prefix_kv_key_b3 (fz_fields fz) of
                            Some k \<Rightarrow>
                              if att_cache_key_hash a \<noteq> k then
                                Err (EValidation (''cache attestation cache_key_hash does not match '' @
                                  ''prefix_kv_key_b3 (P0-1: cache key mismatch)''))
                              else Ok ()
                          | None \<Rightarrow> Ok ()))))
      else Ok ())"

definition trace_receipt_input :: "bytes \<Rightarrow> b3hash \<Rightarrow> b3hash \<Rightarrow> trace_fields \<Rightarrow> receipt_digest_input" where
  "trace_receipt_input context_digest head output tf =
     with_disclosure_level (tf_disclosure_level tf)
     (with_retrieval_tool_binding (tf_retrieval_merkle_root_b3 tf) (tf_retrieval_order_digest_b3 tf)
        (tf_tool_call_inputs_digest_b3 tf) (tf_tool_call_outputs_digest_b3 tf)
     (with_cache_proof (tf_cache_scope tf) (tf_cached_prefix_digest_b3 tf) (tf_cached_prefix_len tf)
        (tf_cache_key_b3 tf)
     (with_stop_controller_inputs (tf_stop_eos_q15 tf) (tf_stop_window_digest_b3 tf)
     (with_concurrency_determinism (tf_thread_count tf) (tf_reduction_strategy tf)
     (with_decoder_config (tf_decode_algo tf) (tf_temperature_q15 tf) (tf_top_p_q15 tf) (tf_top_k tf)
        (tf_seed_digest_b3 tf) (tf_sampling_backend tf)
     (with_build_provenance (tf_model_build_hash_b3 tf) (tf_adapter_build_hash_b3 tf)
     (with_tokenizer_identity (tf_tokenizer_hash_b3 tf) (tf_tokenizer_version tf)
        (tf_tokenizer_normalization tf)
     (with_equipment_profile (map_option ep_digest (tf_equipment_profile tf))
        (map_option ep_processor_id (tf_equipment_profile tf))
        (map_option ep_engine_version (tf_equipment_profile tf))
        (Option.bind (tf_equipment_profile tf) ep_ane_version)
     (with_model_cache_identity (tf_model_cache_identity_v2_digest_b3 tf)
     (with_prefix_cache (tf_prefix_kv_key_b3 tf) (tf_prefix_cache_hit tf) (tf_prefix_kv_bytes tf)
     (with_kv_quota (tf_tenant_kv_quota_bytes tf) (tf_tenant_kv_bytes_used tf) (tf_kv_evictions tf)
        (tf_kv_residency_policy_id tf) (tf_kv_quota_enforced tf)
     (with_stop_controller (tf_stop_reason_code tf) (tf_stop_reason_token_index tf)
        (tf_stop_policy_digest_b3 tf)
     (receipt_input_new context_digest head output (tf_logical_prompt_tokens tf)
        (tf_prefix_cached_token_count tf) (tf_billed_input_tokens tf) (tf_logical_output_tokens tf)
        (tf_billed_output_tokens tf))))))))))))))"

definition finalize ::
  "'o trace_env \<Rightarrow> (bytes \<Rightarrow> (string, 'vk) result) \<Rightarrow> ('vk \<Rightarrow> bytes \<Rightarrow> bytes \<Rightarrow> (string, unit) result) \<Rightarrow>
   tx_outcome \<Rightarrow> string option \<Rightarrow> trace_finalization \<Rightarrow> 'o trace_sink \<times> trace_db \<Rightarrow>
   (aos_error, trace_receipt) result \<times> 'o trace_sink \<times> trace_db" where
  "finalize env parse_key verify_sig tx db_error fz s =
     (case insert_buffer env tx s of
        (Err e, s1) \<Rightarrow> (Err e, s1)
      | (Ok _, sk, db) \<Rightarrow>
          (case check_billing (fz_fields fz) of
             Err e \<Rightarrow> (Err e, sk, db)
           | Ok _ \<Rightarrow>
               (case check_cache_credits parse_key verify_sig fz of
                  Err e \<Rightarrow> (Err e, sk, db)
                | Ok _ \<Rightarrow>
                    (let output = compute_output_digest (te_hash env) (fz_output_tokens fz) in
                     case compute_receipt_digest (te_hash env)
                            (trace_receipt_input (st_context_digest (sk_start sk)) (sk_run_head_hash sk) output
                              (fz_fields fz)) receipt_schema_current of
                       None \<Rightarrow> (Err (EInternal ''receipt schema unsupported''), sk, db)
                     | Some digest \<Rightarrow>
                         (let rc = \<lparr>rc_trace_id = st_trace_id (sk_start sk), rc_run_head_hash = sk_run_head_hash sk,
                                    rc_output_digest = output, rc_receipt_digest = digest, rc_signature = None,
                                    rc_input_digest_b3 = sk_input_digest_b3 sk, rc_fields = fz_fields fz\<rparr> in
                          case db_error of
                            Some e \<Rightarrow> (Err (EDatabase (''Failed to insert trace receipt: '' @ e)), sk, db)
                          | None \<Rightarrow>
                              (Ok rc, sk,
                               db\<lparr>td_receipts := am_insert (st_trace_id (sk_start sk)) rc (td_receipts db)\<rparr>))))))"

section \<open>Decoding\<close>

fun decode_ids_loop :: "(bytes \<Rightarrow> string option) \<Rightarrow> nat \<Rightarrow> bytes \<Rightarrow> string list" where
  "decode_ids_loop from_utf8 0 bs = []"
| "decode_ids_loop from_utf8 (Suc n) bs =
     (if length bs < 4 then []
      else
        (let len = unat (from_le_bytes (take 4 bs) :: u32); rest = drop 4 bs in
         if length rest < len then []
         else
           (case from_utf8 (take len rest) of Some s \<Rightarrow> [s] | None \<Rightarrow> []) @
           decode_ids_loop from_utf8 n (drop len rest)))"

definition decode_adapter_ids :: "(bytes \<Rightarrow> string option) \<Rightarrow> bytes \<Rightarrow> string list" where
  "decode_adapter_ids from_utf8 bs =
     (if length bs < 4 then [] else decode_ids_loop from_utf8 (unat (from_le_bytes (take 4 bs) :: u32)) (drop 4 bs))"

fun decode_gates_loop :: "nat \<Rightarrow> bytes \<Rightarrow> i16 list" where
  "decode_gates_loop 0 bs = []"
| "decode_gates_loop (Suc n) bs =
     (if length bs < 2 then [] else from_le_bytes (take 2 bs) # decode_gates_loop n (drop 2 bs))"

definition decode_gates_q15 :: "bytes \<Rightarrow> i16 list" where
  "decode_gates_q15 bs =
     (if length bs < 4 then [] else decode_gates_loop (unat (from_le_bytes (take 4 bs) :: u32)) (drop 4 bs))"

definition sink_decode_allowed_mask :: "bytes \<Rightarrow> (aos_error, bool list) result" where
  "sink_decode_allowed_mask bs =
     (if length bs < 4 then Err (EInvalidHash ''allowed_mask blob missing length'')
      else
        (case decode_mask_bits (unat (from_le_bytes (take 4 bs) :: u32)) (drop 4 bs) of
           Err _ \<Rightarrow> Err (EInvalidHash ''allowed_mask blob truncated (data)'')
         | Ok m \<Rightarrow> Ok m))"

section \<open>Verifying a receipt\<close>

definition row_mask_digest :: "bytes option \<Rightarrow> (aos_error, bytes option) result" where
  "row_mask_digest column =
     (case column of
        Some bs \<Rightarrow> if bs \<noteq> [] then (case to_digest bs of Err e \<Rightarrow> Err e | Ok d \<Rightarrow> Ok (Some d)) else Ok None
      | None \<Rightarrow> Ok None)"

definition row_allowed_mask :: "bytes option \<Rightarrow> (aos_error, bool list option) result" where
  "row_allowed_mask column =
     (case column of
        Some bs \<Rightarrow>
          if bs \<noteq> [] then (case sink_decode_allowed_mask bs of Err e \<Rightarrow> Err e | Ok m \<Rightarrow> Ok (Some m)) else Ok None
      | None \<Rightarrow> Ok None)"

fun verify_rows ::
  "'o trace_env \<Rightarrow> bytes \<Rightarrow> string option trace_token_row list \<Rightarrow> b3hash \<Rightarrow> u32 option \<Rightarrow>
   (aos_error, b3hash \<times> u32 option) result" where
  "verify_rows env context_digest [] head mismatched = Ok (head, mismatched)"
| "verify_rows env context_digest (row # rows) head mismatched =
     (case row_mask_digest (tr_policy_mask_digest row) of
        Err e \<Rightarrow> Err e
      | Ok mask_digest \<Rightarrow>
          (case row_allowed_mask (tr_allowed_mask_blob row) of
             Err e \<Rightarrow> Err e
           | Ok allowed \<Rightarrow>
               (case decode_overrides_json env (tr_policy_overrides row) of
                  Err e \<Rightarrow> Err e
                | Ok overrides \<Rightarrow>
                    (let recomputed = hash_token_decision (te_hash env)
                           \<lparr>td_context_digest = context_digest, td_token_index = tr_token_index row,
                            td_adapter_ids_blob = tr_adapter_ids_blob row, td_gates_blob = tr_gates_blob row,
                            td_policy_mask_digest = mask_digest,
                            td_allowed_mask_blob = map_option encode_allowed_mask allowed,
                            td_policy_overrides_json =
                              map_option (\<lambda>v. case te_print env v of Ok s \<Rightarrow> s | Err _ \<Rightarrow> []) overrides,
                            td_backend_id = tr_backend_id row,
                            td_kernel_version_id = tr_kernel_version_id row\<rparr> in
                     case to_digest (tr_decision_hash row) of
                       Err e \<Rightarrow> Err e
                     | Ok stored \<Rightarrow>
                         verify_rows env context_digest rows
                           (update_run_head (te_hash env) head (tr_token_index row) recomputed)
                           (if mismatched = None \<and> recomputed \<noteq> stored then Some (tr_token_index row)
                            else mismatched)))))"

text \<open>
  Columns of the receipt table: unsigned 64-bit values are stored as signed ones and read with
  a lower bound of zero, digests of another length are dropped, the key of the prefix cache is
  stored in hexadecimal.
\<close>

definition db_u64 :: "u64 \<Rightarrow> u64" where
  "db_u64 w = (if sint w < 0 then 0 else w)"

definition db_digest :: "bytes option \<Rightarrow> bytes option" where
  "db_digest column = (case column of Some bs \<Rightarrow> if length bs = 32 then Some bs else None | None \<Rightarrow> None)"

definition db_hex_digest :: "'o trace_env \<Rightarrow> b3hash option \<Rightarrow> b3hash option" where
  "db_hex_digest env key =
     Option.bind key (\<lambda>h.
       case b3_from_hex (te_hex_decode env) (b3_to_hex (te_hex_encode env) h) of Ok d \<Rightarrow> Some d | Err _ \<Rightarrow> None)"

definition db_equipment :: "equipment_profile option \<Rightarrow> equipment_profile option" where
  "db_equipment ep =
     Option.bind ep (\<lambda>p. if length (ep_digest p) = 32 then Some p else None)"

definition read_fields :: "'o trace_env \<Rightarrow> trace_fields \<Rightarrow> trace_fields" where
  "read_fields env tf =
     tf\<lparr>tf_stop_policy_digest_b3 := db_digest (tf_stop_policy_digest_b3 tf),
        tf_tenant_kv_quota_bytes := db_u64 (tf_tenant_kv_quota_bytes tf),
        tf_tenant_kv_bytes_used := db_u64 (tf_tenant_kv_bytes_used tf),
        tf_prefix_kv_key_b3 := db_hex_digest env (tf_prefix_kv_key_b3 tf),
        tf_prefix_kv_bytes := db_u64 (tf_prefix_kv_bytes tf),
        tf_model_cache_identity_v2_digest_b3 := db_digest (tf_model_cache_identity_v2_digest_b3 tf),
        tf_equipment_profile := db_equipment (tf_equipment_profile tf),
        tf_crypto_receipt_digest_b3 := None, tf_receipt_parity_verified := None, tf_tenant_id := None,
        tf_copy_bytes := map_option db_u64 (tf_copy_bytes tf),
        tf_tokenizer_hash_b3 := db_digest (tf_tokenizer_hash_b3 tf),
        tf_model_build_hash_b3 := db_digest (tf_model_build_hash_b3 tf),
        tf_adapter_build_hash_b3 := db_digest (tf_adapter_build_hash_b3 tf),
        tf_seed_digest_b3 := db_digest (tf_seed_digest_b3 tf),
        tf_stop_window_digest_b3 := db_digest (tf_stop_window_digest_b3 tf),
        tf_cached_prefix_digest_b3 := db_digest (tf_cached_prefix_digest_b3 tf),
        tf_cache_key_b3 := db_digest (tf_cache_key_b3 tf),
        tf_retrieval_merkle_root_b3 := db_digest (tf_retrieval_merkle_root_b3 tf),
        tf_retrieval_order_digest_b3 := db_digest (tf_retrieval_order_digest_b3 tf),
        tf_tool_call_inputs_digest_b3 := db_digest (tf_tool_call_inputs_digest_b3 tf),
        tf_tool_call_outputs_digest_b3 := db_digest (tf_tool_call_outputs_digest_b3 tf)\<rparr>"

definition read_receipt :: "'o trace_env \<Rightarrow> string \<Rightarrow> trace_receipt \<Rightarrow> (aos_error, trace_receipt) result" where
  "read_receipt env trace_id row =
     (case to_digest (rc_run_head_hash row) of
        Err e \<Rightarrow> Err e
      | Ok head \<Rightarrow>
          (case to_digest (rc_output_digest row) of
             Err e \<Rightarrow> Err e
           | Ok output \<Rightarrow>
               (case to_digest (rc_receipt_digest row) of
                  Err e \<Rightarrow> Err e
                | Ok digest \<Rightarrow>
                    Ok \<lparr>rc_trace_id = trace_id, rc_run_head_hash = head, rc_output_digest = output,
                        rc_receipt_digest = digest, rc_signature = rc_signature row,
                        rc_input_digest_b3 = None, rc_fields = read_fields env (rc_fields row)\<rparr>)))"

definition default_fields :: "u32 \<Rightarrow> trace_fields" where
  "default_fields n =
     \<lparr>tf_logical_prompt_tokens = 0, tf_prefix_cached_token_count = 0, tf_billed_input_tokens = 0,
      tf_logical_output_tokens = n, tf_billed_output_tokens = n, tf_stop_reason_code = None,
      tf_stop_reason_token_index = None, tf_stop_policy_digest_b3 = None, tf_tenant_kv_quota_bytes = 0,
      tf_tenant_kv_bytes_used = 0, tf_kv_evictions = 0, tf_kv_residency_policy_id = None,
      tf_kv_quota_enforced = False, tf_prefix_kv_key_b3 = None, tf_prefix_cache_hit = False,
      tf_prefix_kv_bytes = 0, tf_model_cache_identity_v2_digest_b3 = None, tf_equipment_profile = None,
      tf_attestation = None, tf_crypto_receipt_digest_b3 = None, tf_receipt_parity_verified = None,
      tf_tenant_id = None, tf_copy_bytes = None, tf_tokenizer_hash_b3 = None, tf_tokenizer_version = None,
      tf_tokenizer_normalization = None, tf_model_build_hash_b3 = None, tf_adapter_build_hash_b3 = None,
      tf_decode_algo = None, tf_temperature_q15 = None, tf_top_p_q15 = None, tf_top_k = None,
      tf_seed_digest_b3 = None, tf_sampling_backend = None, tf_thread_count = None,
      tf_reduction_strategy = None, tf_stop_eos_q15 = None, tf_stop_window_digest_b3 = None,
      tf_cache_scope = None, tf_cached_prefix_digest_b3 = None, tf_cached_prefix_len = None,
      tf_cache_key_b3 = None, tf_retrieval_merkle_root_b3 = None, tf_retrieval_order_digest_b3 = None,
      tf_tool_call_inputs_digest_b3 = None, tf_tool_call_outputs_digest_b3 = None,
      tf_disclosure_level = None, tf_receipt_signing_kid = None, tf_receipt_signed_at = None\<rparr>"

record trace_receipt_verification =
  tv_matches :: bool
  tv_mismatched_token :: "u32 option"
  tv_tenant_id :: string
  tv_context_digest :: bytes
  tv_stored :: "trace_receipt option"
  tv_recomputed :: trace_receipt

definition billing_mismatch :: "trace_fields \<Rightarrow> bool" where
  "billing_mismatch tf \<longleftrightarrow>
     tf_billed_input_tokens tf \<noteq> sat_sub32 (tf_logical_prompt_tokens tf) (tf_prefix_cached_token_count tf) \<or>
     tf_billed_output_tokens tf \<noteq> tf_logical_output_tokens tf"

definition load_receipt ::
  "'o trace_env \<Rightarrow> string \<Rightarrow> trace_db \<Rightarrow> (aos_error, trace_receipt option) result" where
  "load_receipt env trace_id db =
     (case map_of (td_receipts db) trace_id of
        None \<Rightarrow> Ok None
      | Some row \<Rightarrow> (case read_receipt env trace_id row of Err e \<Rightarrow> Err e | Ok rc \<Rightarrow> Ok (Some rc)))"

definition trace_rows :: "string \<Rightarrow> trace_db \<Rightarrow> string option trace_token_row list" where
  "trace_rows trace_id db =
     sort_key tr_token_index (map snd (filter (\<lambda>e. fst e = trace_id) (td_tokens db)))"

definition recompute_receipt ::
  "'o trace_env \<Rightarrow> trace_db \<Rightarrow> string \<Rightarrow> (aos_error, trace_receipt_verification) result" where
  "recompute_receipt env db trace_id =
     (case map_of (td_traces db) trace_id of
        None \<Rightarrow> Err (ENotFound (''Trace '' @ trace_id @ '' not found''))
      | Some start \<Rightarrow>
          (case to_digest (st_context_digest start) of
             Err e \<Rightarrow> Err e
           | Ok context_digest \<Rightarrow>
               (let tokens = trace_rows trace_id db in
                case verify_rows env context_digest tokens b3_zero None of
                  Err e \<Rightarrow> Err e
                | Ok (head, mismatched) \<Rightarrow>
                    (case load_receipt env trace_id db of
                       Err e \<Rightarrow> Err e
                     | Ok stored \<Rightarrow>
                         (let output = (case stored of Some rc \<Rightarrow> rc_output_digest rc | None \<Rightarrow> b3_zero);
                              fields = (case stored of
                                  Some rc \<Rightarrow> rc_fields rc
                                | None \<Rightarrow> default_fields (of_nat (length tokens))) in
                          case compute_receipt_digest (te_hash env)
                                 (trace_receipt_input context_digest head output fields) receipt_schema_current of
                            None \<Rightarrow> Err (EInternal ''receipt schema unsupported'')
                          | Some digest \<Rightarrow>
                              Ok \<lparr>tv_matches =
                                    (case stored of
                                       Some rc \<Rightarrow> rc_receipt_digest rc = digest \<and> mismatched = None \<and>
                                         \<not> billing_mismatch fields
                                     | None \<Rightarrow> False),
                                  tv_mismatched_token = mismatched, tv_tenant_id = st_tenant_id start,
                                  tv_context_digest = context_digest, tv_stored = stored,
                                  tv_recomputed =
                                    \<lparr>rc_trace_id = trace_id, rc_run_head_hash = head, rc_output_digest = output,
                                     rc_receipt_digest = digest, rc_signature = None,
                                     rc_input_digest_b3 =
                                       (case stored of Some rc \<Rightarrow> rc_input_digest_b3 rc | None \<Rightarrow> None),
                                     rc_fields = fields\<lparr>tf_attestation := None\<rparr>\<rparr>\<rparr>)))))"

text \<open>
  The verdict is written back to the receipt; the digest of the older receipt format and the
  tenant are filled in only where the column is empty.
\<close>

definition crypto_receipt_schema_version :: u8 where
  "crypto_receipt_schema_version = 1"

definition crypto_lookup_digest :: "hash_fn \<Rightarrow> trace_receipt_verification \<Rightarrow> b3hash option" where
  "crypto_lookup_digest H v =
     (if tv_matches v then
        Option.bind (tv_stored v) (\<lambda>rc.
        Option.bind (rc_input_digest_b3 rc) (\<lambda>input_digest.
        Option.bind (tf_equipment_profile (rc_fields rc)) (\<lambda>ep.
          Some (b3_hash_multi H
            [[crypto_receipt_schema_version], tv_context_digest v, input_digest,
             rc_run_head_hash (tv_recomputed v), rc_output_digest (tv_recomputed v), ep_digest ep]))))
      else None)"

definition coalesce :: "'a option \<Rightarrow> 'a option \<Rightarrow> 'a option" where
  "coalesce a b = (case a of Some x \<Rightarrow> Some x | None \<Rightarrow> b)"

definition persist_receipt_verification ::
  "'o trace_env \<Rightarrow> string option \<Rightarrow> string \<Rightarrow> trace_receipt_verification \<Rightarrow> trace_db \<Rightarrow>
   (aos_error, unit) result \<times> trace_db" where
  "persist_receipt_verification env db_error trace_id v db =
     (case db_error of
        Some e \<Rightarrow> (Err (EDatabase (''Failed to persist receipt verification: '' @ e)), db)
      | None \<Rightarrow>
          (Ok (), db\<lparr>td_receipts := map (\<lambda>(i, rc).
             if i = trace_id then
               (i, rc\<lparr>rc_fields := (rc_fields rc)
                  \<lparr>tf_crypto_receipt_digest_b3 :=
                     coalesce (tf_crypto_receipt_digest_b3 (rc_fields rc)) (crypto_lookup_digest (te_hash env) v),
                   tf_receipt_parity_verified := Some (tv_matches v),
                   tf_tenant_id := coalesce (tf_tenant_id (rc_fields rc)) (Some (tv_tenant_id v))\<rparr>\<rparr>)
             else (i, rc)) (td_receipts db)\<rparr>))"

definition recompute_receipt_and_persist ::
  "'o trace_env \<Rightarrow> string option \<Rightarrow> string \<Rightarrow> trace_db \<Rightarrow>
   (aos_error, trace_receipt_verification) result \<times> trace_db" where
  "recompute_receipt_and_persist env db_error trace_id db =
     (case recompute_receipt env db trace_id of
        Err e \<Rightarrow> (Err e, db)
      | Ok v \<Rightarrow>
          (case persist_receipt_verification env db_error trace_id v db of
             (Err e, db1) \<Rightarrow> (Err e, db1)
           | (Ok _, db1) \<Rightarrow> (Ok v, db1)))"

end
