(* ===== verification/TraceCorrect.thy ===== *)
theory TraceCorrect
  imports TraceReceipts
begin

text \<open>
  What the trace of an inference promises: a trace that was recorded in order and finalized
  verifies; cached tokens are credited only with a signature of the worker; what a verified
  receipt binds; and the receipts that can never verify or never be issued.
\<close>

section \<open>Rows\<close>

lemma b3_zero_length [simp]: "length b3_zero = 32"
  by (simp add: b3_zero_def)

definition overrides_text :: "'o trace_env \<Rightarrow> 'o option \<Rightarrow> string option" where
  "overrides_text env v = Option.bind v (\<lambda>x. case te_print env x of Ok s \<Rightarrow> Some s | Err _ \<Rightarrow> None)"

definition decision_of :: "'o trace_env \<Rightarrow> bytes \<Rightarrow> 'o trace_token_input \<Rightarrow> token_decision" where
  "decision_of env ctx t =
     \<lparr>td_context_digest = ctx, td_token_index = ti_token_index t,
      td_adapter_ids_blob = encode_adapter_ids (ti_adapter_ids t),
      td_gates_blob = encode_gates_q15 (ti_gates_q15 t),
      td_policy_mask_digest = ti_policy_mask_digest_b3 t,
      td_allowed_mask_blob = map_option encode_allowed_mask (ti_allowed_mask t),
      td_policy_overrides_json = overrides_text env (ti_policy_overrides_applied t),
      td_backend_id = ti_backend_id t, td_kernel_version_id = ti_kernel_version_id t\<rparr>"

definition token_row :: "'o trace_env \<Rightarrow> bytes \<Rightarrow> 'v \<Rightarrow> 'o trace_token_input \<Rightarrow> 'v trace_token_row" where
  "token_row env ctx v t =
     \<lparr>tr_token_index = ti_token_index t, tr_adapter_ids_blob = encode_adapter_ids (ti_adapter_ids t),
      tr_gates_blob = encode_gates_q15 (ti_gates_q15 t),
      tr_decision_hash = hash_token_decision (te_hash env) (decision_of env ctx t),
      tr_policy_mask_digest = ti_policy_mask_digest_b3 t,
      tr_allowed_mask_blob = map_option encode_allowed_mask (ti_allowed_mask t),
      tr_policy_overrides = v, tr_backend_id = ti_backend_id t, tr_kernel_version_id = ti_kernel_version_id t\<rparr>"

abbreviation buffered :: "'o trace_env \<Rightarrow> bytes \<Rightarrow> 'o trace_token_input \<Rightarrow> 'o option trace_token_row" where
  "buffered env ctx t \<equiv> token_row env ctx (ti_policy_overrides_applied t) t"

abbreviation stored :: "'o trace_env \<Rightarrow> bytes \<Rightarrow> 'o trace_token_input \<Rightarrow> string option trace_token_row" where
  "stored env ctx t \<equiv> token_row env ctx (overrides_text env (ti_policy_overrides_applied t)) t"

text \<open>Arrays of their length, and overrides that the JSON codec prints and reads back.\<close>

definition token_ok :: "'o trace_env \<Rightarrow> 'o trace_token_input \<Rightarrow> bool" where
  "token_ok env t \<longleftrightarrow>
     hash_ok (ti_policy_mask_digest_b3 t) \<and>
     (case ti_allowed_mask t of Some m \<Rightarrow> length m < 2 ^ 32 | None \<Rightarrow> True) \<and>
     (case ti_policy_overrides_applied t of
        Some v \<Rightarrow> (case te_print env v of Ok s \<Rightarrow> te_parse env s = Ok v | Err _ \<Rightarrow> False)
      | None \<Rightarrow> True)"

lemma encode_overrides_ok:
  "token_ok env t \<Longrightarrow> encode_overrides_json env (ti_policy_overrides_applied t) =
     Ok (overrides_text env (ti_policy_overrides_applied t))"
  by (auto simp: token_ok_def encode_overrides_json_def overrides_text_def split: option.splits sum.splits)

lemma decode_overrides_ok:
  "token_ok env t \<Longrightarrow> decode_overrides_json env (overrides_text env (ti_policy_overrides_applied t)) =
     Ok (ti_policy_overrides_applied t)"
  by (auto simp: token_ok_def decode_overrides_json_def overrides_text_def split: option.splits sum.splits)

lemma reprint_overrides:
  "token_ok env t \<Longrightarrow> map_option (\<lambda>v. case te_print env v of Ok s \<Rightarrow> s | Err _ \<Rightarrow> []) (ti_policy_overrides_applied t) =
     overrides_text env (ti_policy_overrides_applied t)"
  by (auto simp: token_ok_def overrides_text_def split: option.splits sum.splits)

lemma row_mask_digest_ok: "hash_ok d \<Longrightarrow> row_mask_digest d = Ok d"
  by (auto simp: hash_ok_def row_mask_digest_def to_digest_def split: option.splits)

lemma row_allowed_mask_ok:
  assumes "token_ok env t"
  shows "row_allowed_mask (map_option encode_allowed_mask (ti_allowed_mask t)) = Ok (ti_allowed_mask t)"
proof (cases "ti_allowed_mask t")
  case (Some m)
  then have "decode_allowed_mask (encode_allowed_mask m) = Ok m"
    using assms by (intro allowed_mask_roundtrip) (simp add: token_ok_def)
  moreover have "\<not> length (encode_allowed_mask m) < 4" "encode_allowed_mask m \<noteq> []"
    by (auto simp: encode_allowed_mask_def simp flip: length_greater_0_conv)
  ultimately show ?thesis
    using Some by (simp add: row_allowed_mask_def sink_decode_allowed_mask_def decode_allowed_mask_def)
qed (simp add: row_allowed_mask_def)

lemma decision_of_index [simp]: "td_token_index (decision_of env ctx t) = ti_token_index t"
  by (simp add: decision_of_def)

lemma token_row_fields [simp]:
  "tr_token_index (token_row env ctx v t) = ti_token_index t"
  "tr_adapter_ids_blob (token_row env ctx v t) = encode_adapter_ids (ti_adapter_ids t)"
  "tr_gates_blob (token_row env ctx v t) = encode_gates_q15 (ti_gates_q15 t)"
  "tr_decision_hash (token_row env ctx v t) = hash_token_decision (te_hash env) (decision_of env ctx t)"
  "tr_policy_mask_digest (token_row env ctx v t) = ti_policy_mask_digest_b3 t"
  "tr_allowed_mask_blob (token_row env ctx v t) = map_option encode_allowed_mask (ti_allowed_mask t)"
  "tr_policy_overrides (token_row env ctx v t) = v" "tr_backend_id (token_row env ctx v t) = ti_backend_id t"
  "tr_kernel_version_id (token_row env ctx v t) = ti_kernel_version_id t"
  by (simp_all add: token_row_def)

lemma verify_rows_stored:
  assumes "\<And>x. length (te_hash env x) = 32" "list_all (token_ok env) ts"
  shows "verify_rows env ctx (map (stored env ctx) ts) head None =
    Ok (run_head (te_hash env) head (map (decision_of env ctx) ts), None)"
  using assms(2)
proof (induction ts arbitrary: head)
  case (Cons t ts)
  then have t: "token_ok env t" by simp
  then have "hash_ok (ti_policy_mask_digest_b3 t)" by (simp add: token_ok_def)
  moreover have "to_digest (hash_token_decision (te_hash env) d) = Ok (hash_token_decision (te_hash env) d)" for d
    by (simp add: to_digest_def hash_token_decision_def b3_hash_multi_def assms(1))
  ultimately show ?case
    using Cons t
    by (simp add: row_mask_digest_ok row_allowed_mask_ok decode_overrides_ok reprint_overrides
        decision_of_def [symmetric] run_head_def)
qed (simp add: run_head_def)

section \<open>Recording\<close>

definition sink_inv ::
  "'o trace_env \<Rightarrow> trace_start \<Rightarrow> 'o trace_token_input list \<Rightarrow> 'o trace_sink \<times> trace_db \<Rightarrow> bool" where
  "sink_inv env start ts s \<longleftrightarrow>
     (let (sk, db) = s; ctx = st_context_digest start in
      sk_start sk = start \<and> map_of (td_traces db) (st_trace_id start) = Some start \<and>
      sk_run_head_hash sk = run_head (te_hash env) b3_zero (map (decision_of env ctx) ts) \<and>
      (\<exists>old rest. ts = old @ rest \<and> sk_buffer sk = map (buffered env ctx) rest \<and>
         map snd (filter (\<lambda>e. fst e = st_trace_id start) (td_tokens db)) = map (stored env ctx) old))"

lemma sink_invI:
  assumes "sk_start sk = start" "map_of (td_traces db) (st_trace_id start) = Some start"
    and "sk_run_head_hash sk = run_head (te_hash env) b3_zero (map (decision_of env (st_context_digest start)) ts)"
    and "ts = old @ rest" "sk_buffer sk = map (buffered env (st_context_digest start)) rest"
    and "map snd (filter (\<lambda>e. fst e = st_trace_id start) (td_tokens db)) =
      map (stored env (st_context_digest start)) old"
  shows "sink_inv env start ts (sk, db)"
  using assms unfolding sink_inv_def Let_def by auto

lemma sink_invE:
  assumes "sink_inv env start ts (sk, db)"
  obtains old rest where "sk_start sk = start" "map_of (td_traces db) (st_trace_id start) = Some start"
    "sk_run_head_hash sk = run_head (te_hash env) b3_zero (map (decision_of env (st_context_digest start)) ts)"
    "ts = old @ rest" "sk_buffer sk = map (buffered env (st_context_digest start)) rest"
    "map snd (filter (\<lambda>e. fst e = st_trace_id start) (td_tokens db)) =
      map (stored env (st_context_digest start)) old"
  using assms unfolding sink_inv_def Let_def by auto

lemma stored_row_eq: "stored_row json (buffered env ctx t) = token_row env ctx json t"
  by (simp add: stored_row_def token_row_def)

lemma insert_rows_ok:
  assumes "list_all (token_ok env) ts"
    and "distinct (map tr_token_index (map snd (filter (\<lambda>e. fst e = i) tokens)) @ map ti_token_index ts)"
  shows "insert_rows env i (map (buffered env ctx) ts) tokens = Ok (tokens @ map (\<lambda>t. (i, stored env ctx t)) ts)"
  using assms
proof (induction ts arbitrary: tokens)
  case (Cons t ts)
  have new: "\<not> list_ex (\<lambda>(j, r). j = i \<and> tr_token_index r = ti_token_index t) tokens"
    using Cons.prems(2) by (auto simp: list_ex_iff image_iff)
  have "insert_rows env i (map (buffered env ctx) ts) (tokens @ [(i, stored env ctx t)]) =
      Ok ((tokens @ [(i, stored env ctx t)]) @ map (\<lambda>t. (i, stored env ctx t)) ts)"
    using Cons.prems by (intro Cons.IH) auto
  then show ?case
    using Cons.prems(1) new encode_overrides_ok [of env t] stored_row_eq [of _ env ctx t] by simp
qed simp

lemma flush_ok:
  assumes "sink_inv env start ts s" "list_all (token_ok env) ts" "sorted_wrt (<) (map ti_token_index ts)"
  shows "\<exists>sk db. insert_buffer env TxCommitted s = (Ok (), sk, db) \<and> sink_inv env start ts (sk, db) \<and>
    map snd (filter (\<lambda>e. fst e = st_trace_id start) (td_tokens db)) = map (stored env (st_context_digest start)) ts \<and>
    sk_flush_every sk = sk_flush_every (fst s)"
proof -
  let ?ctx = "st_context_digest start"
  let ?mine = "filter (\<lambda>e. fst e = st_trace_id start)"
  obtain sk db where s: "s = (sk, db)" by (cases s)
  obtain old rest where inv: "ts = old @ rest" "sk_buffer sk = map (buffered env ?ctx) rest"
      "map snd (?mine (td_tokens db)) = map (stored env ?ctx) old" "sk_start sk = start"
      "map_of (td_traces db) (st_trace_id start) = Some start"
      "sk_run_head_hash sk = run_head (te_hash env) b3_zero (map (decision_of env ?ctx) ts)"
    using assms(1) unfolding s by (elim sink_invE) blast
  have "distinct (map ti_token_index ts)" using assms(3) by (simp add: strict_sorted_iff)
  then have dist: "distinct (map tr_token_index (map snd (?mine (td_tokens db))) @ map ti_token_index rest)"
    unfolding inv(3) by (simp add: inv(1) comp_def)
  have "list_all (token_ok env) rest" using assms(2) inv(1) by simp
  then have ins: "insert_rows env (st_trace_id start) (sk_buffer sk) (td_tokens db) =
      Ok (td_tokens db @ map (\<lambda>t. (st_trace_id start, stored env ?ctx t)) rest)"
    unfolding inv(2) using insert_rows_ok [OF _ dist] by simp
  have rows: "map snd (?mine (td_tokens db @ map (\<lambda>t. (st_trace_id start, stored env ?ctx t)) rest)) =
      map (stored env ?ctx) ts"
    using inv(1,3) by (simp add: filter_map comp_def)
  show ?thesis
  proof (cases "sk_buffer sk = []")
    case True
    with inv rows show ?thesis using assms(1) by (simp add: insert_buffer_def s)
  next
    case False
    let ?db = "db\<lparr>td_tokens := td_tokens db @ map (\<lambda>t. (st_trace_id start, stored env ?ctx t)) rest\<rparr>"
    have "insert_buffer env TxCommitted s = (Ok (), sk\<lparr>sk_buffer := []\<rparr>, ?db)"
      using False ins inv(4) by (simp add: insert_buffer_def s)
    moreover have "sink_inv env start ts (sk\<lparr>sk_buffer := []\<rparr>, ?db)"
      using inv rows by (intro sink_invI [of _ _ _ _ _ ts "[]"]) simp_all
    ultimately show ?thesis using rows by (simp add: s)
  qed
qed

lemma record_ok:
  assumes "sink_inv env start ts s" "list_all (token_ok env) (ts @ [t])"
    and "sorted_wrt (<) (map ti_token_index (ts @ [t]))"
  shows "fst (record_token env TxCommitted t s) = Ok () \<and>
    sink_inv env start (ts @ [t]) (snd (record_token env TxCommitted t s))"
proof -
  let ?ctx = "st_context_digest start"
  obtain sk db where s: "s = (sk, db)" by (cases s)
  define sk1 where "sk1 = sk\<lparr>sk_run_head_hash := update_run_head (te_hash env) (sk_run_head_hash sk) (ti_token_index t)
      (hash_token_decision (te_hash env) (decision_of env ?ctx t)),
    sk_buffer := sk_buffer sk @ [buffered env ?ctx t]\<rparr>"
  obtain old rest where prev: "sk_start sk = start" "map_of (td_traces db) (st_trace_id start) = Some start"
      "sk_run_head_hash sk = run_head (te_hash env) b3_zero (map (decision_of env ?ctx) ts)"
      "ts = old @ rest" "sk_buffer sk = map (buffered env ?ctx) rest"
      "map snd (filter (\<lambda>e. fst e = st_trace_id start) (td_tokens db)) = map (stored env ?ctx) old"
    using assms(1) unfolding s by (elim sink_invE) blast
  have t: "token_ok env t" using assms(2) by simp
  have inv: "sink_inv env start (ts @ [t]) (sk1, db)"
    using prev by (intro sink_invI [of _ _ _ _ _ old "rest @ [t]"]) (simp_all add: sk1_def run_head_def)
  have rec: "record_token env TxCommitted t s =
      (if length (sk_buffer sk1) \<ge> sk_flush_every sk1 then insert_buffer env TxCommitted (sk1, db)
       else (Ok (), sk1, db))"
    using encode_overrides_ok [OF t]
    by (simp add: record_token_def s prev(1) Let_def sk1_def token_row_def [symmetric] decision_of_def [symmetric])
  show ?thesis
    using flush_ok [OF inv assms(2,3)] inv rec by auto
qed

definition record_all ::
  "'o trace_env \<Rightarrow> 'o trace_token_input list \<Rightarrow> 'o trace_sink \<times> trace_db \<Rightarrow> 'o trace_sink \<times> trace_db" where
  "record_all env ts s = fold (\<lambda>t s. snd (record_token env TxCommitted t s)) ts s"

lemma record_all_inv:
  assumes "sink_inv env start old s" "list_all (token_ok env) (old @ ts)"
    and "sorted_wrt (<) (map ti_token_index (old @ ts))"
  shows "sink_inv env start (old @ ts) (record_all env ts s)"
  using assms
proof (induction ts arbitrary: old s)
  case (Cons t ts)
  have "sink_inv env start (old @ [t]) (snd (record_token env TxCommitted t s))"
    using record_ok [OF Cons.prems(1), of t] Cons.prems(2,3) by (simp add: sorted_wrt_append)
  from Cons.IH [OF this] Cons.prems(2,3) show ?case by (simp add: record_all_def)
qed (simp add: record_all_def)

lemma new_sink_inv:
  assumes "new_with_input_tokens env True None start n input db = (Ok sk, db')"
    and "filter (\<lambda>e. fst e = st_trace_id start) (td_tokens db) = []"
  shows "sink_inv env start [] (sk, db')"
  using assms
  by (intro sink_invI [of _ _ _ _ _ "[]" "[]"])
    (auto simp: new_with_input_tokens_def lookup_am_insert run_head_def split: if_splits)

section \<open>Stored receipts\<close>

definition u64_stored :: "u64 \<Rightarrow> bool" where
  "u64_stored w \<longleftrightarrow> unat w < 2 ^ 63"

lemma sint_negative: "sint (w :: u64) < 0 \<longleftrightarrow> 2 ^ 63 \<le> unat w"
proof -
  have "unat w div 2 ^ 63 < 2"
    using unsigned_less [of w, where 'a = nat] by (simp add: div_less_iff_less_mult)
  then have "unat w div 2 ^ 63 = 0 \<or> unat w div 2 ^ 63 = 1" by linarith
  then have "odd (unat w div 2 ^ 63) \<longleftrightarrow> 2 ^ 63 \<le> unat w" by (auto simp: div_eq_0_iff not_less)
  moreover have "bit (uint w) 63 \<longleftrightarrow> odd (unat w div 2 ^ 63)"
    unfolding bit_iff_odd uint_nat by (metis even_of_nat of_nat_numeral of_nat_power zdiv_int)
  ultimately show ?thesis by (simp add: sint_uint)
qed

lemma db_u64_stored: "u64_stored w \<Longrightarrow> db_u64 w = w"
  by (simp add: db_u64_def sint_negative u64_stored_def)

definition fields_ok :: "trace_fields \<Rightarrow> bool" where
  "fields_ok tf \<longleftrightarrow>
     list_all hash_ok [tf_stop_policy_digest_b3 tf, tf_prefix_kv_key_b3 tf, tf_model_cache_identity_v2_digest_b3 tf,
       map_option ep_digest (tf_equipment_profile tf), tf_tokenizer_hash_b3 tf, tf_model_build_hash_b3 tf,
       tf_adapter_build_hash_b3 tf, tf_seed_digest_b3 tf, tf_stop_window_digest_b3 tf,
       tf_cached_prefix_digest_b3 tf, tf_cache_key_b3 tf, tf_retrieval_merkle_root_b3 tf,
       tf_retrieval_order_digest_b3 tf, tf_tool_call_inputs_digest_b3 tf, tf_tool_call_outputs_digest_b3 tf]"

definition sizes_stored :: "trace_fields \<Rightarrow> bool" where
  "sizes_stored tf \<longleftrightarrow> list_all u64_stored
     [tf_tenant_kv_quota_bytes tf, tf_tenant_kv_bytes_used tf, tf_prefix_kv_bytes tf]"

lemma db_digest_ok: "hash_ok h \<Longrightarrow> db_digest h = h"
  by (auto simp: hash_ok_def db_digest_def split: option.splits)

lemma db_hex_digest_ok:
  assumes "\<And>bs. te_hex_decode env (te_hex_encode env bs) = Inr bs" "hash_ok h"
  shows "db_hex_digest env h = h"
  using assms b3_hex_roundtrip [OF assms(1)]
  by (cases h) (simp_all add: db_hex_digest_def hash_ok_def b3_wf_def)

lemma db_equipment_ok: "hash_ok (map_option ep_digest ep) \<Longrightarrow> db_equipment ep = ep"
  by (cases ep) (simp_all add: hash_ok_def db_equipment_def)

lemma read_fields_input:
  assumes "\<And>bs. te_hex_decode env (te_hex_encode env bs) = Inr bs" "fields_ok tf" "sizes_stored tf"
  shows "trace_receipt_input ctx head output (read_fields env tf) = trace_receipt_input ctx head output tf"
  using assms(2,3)
  by (simp add: read_fields_def fields_ok_def sizes_stored_def db_digest_ok db_u64_stored db_equipment_ok
      db_hex_digest_ok [OF assms(1)] trace_receipt_input_def)

lemma read_fields_billing: "billing_mismatch (read_fields env tf) = billing_mismatch tf"
  by (simp add: billing_mismatch_def read_fields_def)

section \<open>Honest traces verify\<close>

lemma finalize_cases:
  assumes "finalize env parse_key verify_sig TxCommitted None fz s = (Ok rc, sk', db')"
  obtains sk db where "insert_buffer env TxCommitted s = (Ok (), sk, db)" "sk' = sk"
    "check_billing (fz_fields fz) = Ok ()" "check_cache_credits parse_key verify_sig fz = Ok ()"
    "rc = \<lparr>rc_trace_id = st_trace_id (sk_start sk), rc_run_head_hash = sk_run_head_hash sk,
           rc_output_digest = compute_output_digest (te_hash env) (fz_output_tokens fz),
           rc_receipt_digest = compute_v8_digest (te_hash env) (trace_receipt_input (st_context_digest (sk_start sk))
             (sk_run_head_hash sk) (compute_output_digest (te_hash env) (fz_output_tokens fz)) (fz_fields fz)),
           rc_signature = None, rc_input_digest_b3 = sk_input_digest_b3 sk, rc_fields = fz_fields fz\<rparr>"
    "db' = db\<lparr>td_receipts := am_insert (st_trace_id (sk_start sk)) rc (td_receipts db)\<rparr>"
proof -
  obtain r sk db where "insert_buffer env TxCommitted s = (r, sk, db)" by (cases "insert_buffer env TxCommitted s") auto
  then show thesis
    using assms that [of sk db]
    by (auto simp: finalize_def Let_def compute_receipt_digest_def receipt_schema_current_def
        split: sum.splits)
qed

lemma sorted_rows:
  assumes "sorted_wrt (<) (map ti_token_index ts)"
  shows "sort_key tr_token_index (map (stored env ctx) ts) = map (stored env ctx) ts"
proof -
  have "sorted (map tr_token_index (map (stored env ctx) ts))"
    using assms strict_sorted_imp_sorted by (simp add: comp_def)
  then show ?thesis by (simp add: sort_key_id_if_sorted)
qed

lemma recompute_matches:
  assumes "\<And>x. length (te_hash env x) = 32" "list_all (token_ok env) ts" "length (st_context_digest start) = 32"
    and "map_of (td_traces db) i = Some start" "trace_rows i db = map (stored env (st_context_digest start)) ts"
    and "load_receipt env i db = Ok (Some rc)" "\<not> billing_mismatch (rc_fields rc)"
    and "rc_receipt_digest rc = compute_v8_digest (te_hash env) (trace_receipt_input (st_context_digest start)
      (run_head (te_hash env) b3_zero (map (decision_of env (st_context_digest start)) ts))
      (rc_output_digest rc) (rc_fields rc))"
  shows "\<exists>v. recompute_receipt env db i = Ok v \<and> tv_matches v \<and> tv_mismatched_token v = None \<and>
    rc_receipt_digest (tv_recomputed v) = rc_receipt_digest rc"
  using assms(3-8) verify_rows_stored [OF assms(1,2)]
  by (simp add: recompute_receipt_def to_digest_def compute_receipt_digest_def receipt_schema_current_def Let_def)

lemma load_issued:
  assumes "map_of (td_receipts db) i = Some rc" "length (rc_run_head_hash rc) = 32"
    and "length (rc_output_digest rc) = 32" "length (rc_receipt_digest rc) = 32"
  shows "load_receipt env i db = Ok (Some (rc\<lparr>rc_trace_id := i, rc_input_digest_b3 := None,
    rc_fields := read_fields env (rc_fields rc)\<rparr>))"
  using assms by (cases rc) (simp add: load_receipt_def read_receipt_def to_digest_def)

text \<open>
  (C33) Honest receipts verify: a trace whose tokens were recorded in the order of their
  indices and that was finalized is verified by the recomputation, without a mismatched token,
  when the sizes fit a signed column and the codecs read back what they print.
\<close>

theorem recorded_trace_verifies:
  assumes "\<And>x. length (te_hash env x) = 32" "\<And>bs. te_hex_decode env (te_hex_encode env bs) = Inr bs"
    and "new_with_input_tokens env True None start n input db0 = (Ok sk, db)"
    and "filter (\<lambda>e. fst e = st_trace_id start) (td_tokens db0) = []" "length (st_context_digest start) = 32"
    and "list_all (token_ok env) ts" "sorted_wrt (<) (map ti_token_index ts)"
    and "finalize env parse_key verify_sig TxCommitted None fz (record_all env ts (sk, db)) = (Ok rc, sk', db')"
    and "fields_ok (fz_fields fz)" "sizes_stored (fz_fields fz)"
  shows "\<exists>v. recompute_receipt env db' (st_trace_id start) = Ok v \<and> tv_matches v \<and>
    tv_mismatched_token v = None \<and> rc_receipt_digest (tv_recomputed v) = rc_receipt_digest rc"
proof -
  let ?H = "te_hash env" and ?ctx = "st_context_digest start" and ?id = "st_trace_id start"
  have inv: "sink_inv env start ts (record_all env ts (sk, db))"
    using record_all_inv [OF new_sink_inv [OF assms(3,4)]] assms(6,7) by simp
  from assms(8) obtain sk1 db1 where fin: "insert_buffer env TxCommitted (record_all env ts (sk, db)) = (Ok (), sk1, db1)"
      "check_billing (fz_fields fz) = Ok ()"
      "rc = \<lparr>rc_trace_id = st_trace_id (sk_start sk1), rc_run_head_hash = sk_run_head_hash sk1,
           rc_output_digest = compute_output_digest ?H (fz_output_tokens fz),
           rc_receipt_digest = compute_v8_digest ?H (trace_receipt_input (st_context_digest (sk_start sk1))
             (sk_run_head_hash sk1) (compute_output_digest ?H (fz_output_tokens fz)) (fz_fields fz)),
           rc_signature = None, rc_input_digest_b3 = sk_input_digest_b3 sk1, rc_fields = fz_fields fz\<rparr>"
      "db' = db1\<lparr>td_receipts := am_insert (st_trace_id (sk_start sk1)) rc (td_receipts db1)\<rparr>"
    by (elim finalize_cases)
  have flushed: "sink_inv env start ts (sk1, db1)"
      "map snd (filter (\<lambda>e. fst e = ?id) (td_tokens db1)) = map (stored env ?ctx) ts"
    using flush_ok [OF inv assms(6,7)] fin(1) by auto
  from flushed(1) have sk1: "sk_start sk1 = start" "map_of (td_traces db1) ?id = Some start"
      "sk_run_head_hash sk1 = run_head ?H b3_zero (map (decision_of env ?ctx) ts)"
    by (auto elim: sink_invE)
  have rows: "trace_rows ?id db' = map (stored env ?ctx) ts"
    using flushed(2) fin(4) sorted_rows [OF assms(7)] by (simp add: trace_rows_def)
  have len: "length (rc_run_head_hash rc) = 32" "length (rc_output_digest rc) = 32" "length (rc_receipt_digest rc) = 32"
    using run_head_length [OF assms(1), of b3_zero] b3_zero_length by (simp_all add: fin(3) sk1(3) compute_output_digest_def
        compute_v8_digest_def b3_hash_def b3_hash_multi_def assms(1))
  have "map_of (td_receipts db') ?id = Some rc" using sk1(1) by (simp add: fin(4) lookup_am_insert)
  note load = load_issued [OF this len]
  have "\<not> billing_mismatch (fz_fields fz)"
    using fin(2) by (auto simp: check_billing_def billing_mismatch_def split: if_splits)
  then have "\<not> billing_mismatch (rc_fields rc)" by (simp add: fin(3))
  moreover have "map_of (td_traces db') ?id = Some start" using sk1(2) by (simp add: fin(4))
  moreover have "rc_receipt_digest rc = compute_v8_digest ?H (trace_receipt_input ?ctx
      (run_head ?H b3_zero (map (decision_of env ?ctx) ts)) (rc_output_digest rc) (rc_fields rc))"
    using sk1(1,3) by (simp add: fin(3))
  moreover have "fields_ok (rc_fields rc)" "sizes_stored (rc_fields rc)" using assms(9,10) by (simp_all add: fin(3))
  ultimately show ?thesis
    using recompute_matches [OF assms(1,6,5) _ rows load]
    by (simp add: read_fields_billing read_fields_input [OF assms(2)])
qed

section \<open>Altered traces\<close>

lemmas receipt_builders = receipt_input_new_def
  with_stop_controller_def with_kv_quota_def with_prefix_cache_def with_model_cache_identity_def 
  with_tokenizer_identity_def with_build_provenance_def with_decoder_config_def 
  with_concurrency_determinism_def with_stop_controller_inputs_def with_cache_proof_def 
  with_retrieval_tool_binding_def with_disclosure_level_def with_adapter_version_bindings_digest_def 
  with_equipment_profile_def with_citations_def with_backend_def with_seed_lineage_def 
  with_cross_run_lineage_def 

definition row_decision :: "'o trace_env \<Rightarrow> bytes \<Rightarrow> string option trace_token_row \<Rightarrow> token_decision option" where
  "row_decision env ctx row =
     (case (row_mask_digest (tr_policy_mask_digest row), row_allowed_mask (tr_allowed_mask_blob row),
            decode_overrides_json env (tr_policy_overrides row)) of
        (Ok digest, Ok allowed, Ok overrides) \<Rightarrow>
          Some \<lparr>td_context_digest = ctx, td_token_index = tr_token_index row,
            td_adapter_ids_blob = tr_adapter_ids_blob row, td_gates_blob = tr_gates_blob row,
            td_policy_mask_digest = digest, td_allowed_mask_blob = map_option encode_allowed_mask allowed,
            td_policy_overrides_json =
              map_option (\<lambda>v. case te_print env v of Ok s \<Rightarrow> s | Err _ \<Rightarrow> []) overrides,
            td_backend_id = tr_backend_id row, td_kernel_version_id = tr_kernel_version_id row\<rparr>
      | _ \<Rightarrow> None)"

text \<open>What a verified receipt is recomputed from: the fields of the receipt and the decisions of the rows.\<close>

definition verified_input :: "trace_receipt_verification \<Rightarrow> receipt_digest_input" where
  "verified_input v = trace_receipt_input (tv_context_digest v) (rc_run_head_hash (tv_recomputed v))
     (rc_output_digest (tv_recomputed v)) (rc_fields (tv_recomputed v))"

definition trace_decisions ::
  "'o trace_env \<Rightarrow> trace_db \<Rightarrow> string \<Rightarrow> trace_receipt_verification \<Rightarrow> token_decision list" where
  "trace_decisions env db i v = map (\<lambda>r. the (row_decision env (tv_context_digest v) r)) (trace_rows i db)"

definition verified_hashes ::
  "'o trace_env \<Rightarrow> trace_db \<Rightarrow> string \<Rightarrow> trace_receipt_verification \<Rightarrow> bytes set" where
  "verified_hashes env db i v = hashed_inputs (te_hash env) 8 (verified_input v) \<union>
     chain_inputs (te_hash env) b3_zero (trace_decisions env db i v)"

lemma verify_rows_mismatch_stays:
  "verify_rows env ctx rows head (Some n) \<noteq> Ok (h, None)"
  by (induction rows arbitrary: head) (auto simp: Let_def split: sum.splits)

lemma verify_rows_run_head:
  "verify_rows env ctx rows head None = Ok (h, None) \<Longrightarrow>
     h = run_head (te_hash env) head (map (\<lambda>r. the (row_decision env ctx r)) rows)"
proof (induction rows arbitrary: head)
  case (Cons row rows)
  then show ?case
    by (auto simp: Let_def row_decision_def run_head_def verify_rows_mismatch_stays
        split: sum.splits if_splits)
qed simp

lemma input_without_attestation:
  "trace_receipt_input ctx head output (tf\<lparr>tf_attestation := a\<rparr>) = trace_receipt_input ctx head output tf"
  "billing_mismatch (tf\<lparr>tf_attestation := a\<rparr>) = billing_mismatch tf"
  by (simp_all add: trace_receipt_input_def billing_mismatch_def)

lemma current_digest: "compute_receipt_digest H a receipt_schema_current = Some (compute_v8_digest H a)"
  by (simp add: compute_receipt_digest_def receipt_schema_current_def)

lemma recompute_verified:
  assumes "recompute_receipt env db i = Ok v" "tv_matches v"
  shows "rc_receipt_digest (tv_recomputed v) = compute_v8_digest (te_hash env) (verified_input v)"
    "rc_run_head_hash (tv_recomputed v) = run_head (te_hash env) b3_zero (trace_decisions env db i v)"
    "map_option rc_receipt_digest (tv_stored v) = Some (rc_receipt_digest (tv_recomputed v))"
    "\<not> billing_mismatch (rc_fields (tv_recomputed v))"
proof -
  obtain start where start: "map_of (td_traces db) i = Some start"
    using assms(1) by (auto simp: recompute_receipt_def split: option.splits)
  obtain ctx where ctx: "to_digest (st_context_digest start) = Ok ctx"
    using assms(1) start by (auto simp: recompute_receipt_def split: sum.splits)
  obtain head m where rows: "verify_rows env ctx (trace_rows i db) b3_zero None = Ok (head, m)"
    using assms(1) start ctx by (cases "verify_rows env ctx (trace_rows i db) b3_zero None")
      (auto simp: recompute_receipt_def)
  obtain st where st: "load_receipt env i db = Ok st"
    using assms(1) start ctx rows by (cases "load_receipt env i db") (auto simp: recompute_receipt_def)
  note all = assms start ctx rows st
  note step = recompute_receipt_def Let_def current_digest
  obtain rc where rc: "st = Some rc" using all by (cases st) (auto simp: step)
  have m: "m = None" using all by (auto simp: rc step)
  have c: "verify_rows env ctx (trace_rows i db) b3_zero None = Ok (head, None)" "tv_context_digest v = ctx"
      "tv_stored v = Some rc" "rc_run_head_hash (tv_recomputed v) = head"
      "rc_receipt_digest rc = compute_v8_digest (te_hash env)
         (trace_receipt_input ctx head (rc_output_digest rc) (rc_fields rc))"
      "rc_output_digest (tv_recomputed v) = rc_output_digest rc" "rc_receipt_digest (tv_recomputed v) = rc_receipt_digest rc"
      "rc_fields (tv_recomputed v) = rc_fields rc\<lparr>tf_attestation := None\<rparr>" "\<not> billing_mismatch (rc_fields rc)"
    using all by (auto simp: rc m step)
  then show "rc_receipt_digest (tv_recomputed v) = compute_v8_digest (te_hash env) (verified_input v)"
    "map_option rc_receipt_digest (tv_stored v) = Some (rc_receipt_digest (tv_recomputed v))"
    "\<not> billing_mismatch (rc_fields (tv_recomputed v))"
    by (simp_all add: verified_input_def input_without_attestation)
  show "rc_run_head_hash (tv_recomputed v) = run_head (te_hash env) b3_zero (trace_decisions env db i v)"
    using verify_rows_run_head [OF c(1)] c(2,4) by (simp add: trace_decisions_def)
qed

text \<open>
  (C34) Altered traces are detected: two databases in which a trace verifies under the same
  receipt digest give the same recomputed receipt (the context, the run head of the token rows, the
  output digest, billed and cached tokens, and every other field that the digest binds, an absent
  value counting as its sentinel) and the same number of tokens with the same decision at each,
  provided that no two of the byte strings that are hashed collide and none hashes to the zero
  digest the chain starts from. The run head here is the one that is recomputed from the
  rows; the column of the stored receipt that holds a run head is not compared with it.
\<close>

theorem verified_trace_is_unaltered:
  assumes "\<And>x. length (te_hash env x) = 32"
    and "recompute_receipt env db i = Ok v" "recompute_receipt env db' i = Ok v'" "tv_matches v" "tv_matches v'"
    and "map_option rc_receipt_digest (tv_stored v) = map_option rc_receipt_digest (tv_stored v')"
    and "receipt_ok (verified_input v)" "receipt_ok (verified_input v')"
    and "list_all decision_ok (trace_decisions env db i v @ trace_decisions env db' i v')"
    and "inj_on (te_hash env) (verified_hashes env db i v \<union> verified_hashes env db' i v')"
    and "b3_zero \<notin> te_hash env ` (verified_hashes env db i v \<union> verified_hashes env db' i v')"
  shows "receipt_norm (verified_input v) = receipt_norm (verified_input v') \<and>
    tf_billed_input_tokens (rc_fields (tv_recomputed v)) = tf_billed_input_tokens (rc_fields (tv_recomputed v')) \<and>
    map decision_slices (trace_decisions env db i v) = map decision_slices (trace_decisions env db' i v')"
proof -
  let ?H = "te_hash env"
  note r = recompute_verified [OF assms(2,4)] and r' = recompute_verified [OF assms(3,5)]
  have "compute_v8_digest ?H (verified_input v) = compute_v8_digest ?H (verified_input v')"
    using assms(6) r(1,3) r'(1,3) by simp
  moreover have "inj_on ?H (hashed_inputs ?H 8 (verified_input v) \<union> hashed_inputs ?H 8 (verified_input v'))"
    by (rule inj_on_subset [OF assms(10)]) (auto simp: verified_hashes_def)
  ultimately have eq: "receipt_slices 7 (verified_input v) = receipt_slices 7 (verified_input v')"
      "receipt_norm (verified_input v) = receipt_norm (verified_input v')"
    using receipt_v8_iff [OF assms(7,8,1)] receipt_norm_eq [OF assms(7,8)] by auto
  then have core: "rd_run_head_hash (verified_input v) = rd_run_head_hash (verified_input v')"
      "rd_billed_input_tokens (verified_input v) = rd_billed_input_tokens (verified_input v')"
    using core_slices_inject [of "verified_input v" "verified_input v'"] by (simp_all add: v7_slices_groups)
  have fields: "rd_run_head_hash (verified_input w) = rc_run_head_hash (tv_recomputed w)"
      "rd_billed_input_tokens (verified_input w) = tf_billed_input_tokens (rc_fields (tv_recomputed w))" for w
    by (simp_all add: verified_input_def trace_receipt_input_def receipt_builders)
  have "map decision_slices (trace_decisions env db i v) = map decision_slices (trace_decisions env db' i v')"
  proof (rule run_head_unique [where H = ?H and z = b3_zero])
    show "inj_on ?H (chain_inputs ?H b3_zero (trace_decisions env db i v) \<union>
        chain_inputs ?H b3_zero (trace_decisions env db' i v'))"
      by (rule inj_on_subset [OF assms(10)]) (auto simp: verified_hashes_def)
  qed (use assms(1,9,11) r(2) r'(2) core(1) fields(1) in \<open>auto simp: verified_hashes_def list_all_iff\<close>)
  with eq(2) core(2) fields(2) show ?thesis by simp
qed

lemma recompute_stored:
  "recompute_receipt env db i = Ok v \<Longrightarrow> load_receipt env i db = Ok (tv_stored v)"
  by (auto simp: recompute_receipt_def Let_def current_digest split: option.splits sum.splits)

text \<open>
  The stored run head is not checked: when another digest is written to that column, the verification gives the
  same verdict and the same recomputed receipt, and reports the altered run head as the stored one.
\<close>

theorem stored_run_head_unchecked:
  assumes "map_of (td_receipts db) i = Some rc" and "length (rc_run_head_hash rc) = 32" and "length head = 32"
    and "recompute_receipt env db i = Ok v"
  shows "\<exists>v'. recompute_receipt env (db\<lparr>td_receipts := am_insert i (rc\<lparr>rc_run_head_hash := head\<rparr>) (td_receipts db)\<rparr>) i = Ok v' \<and>
    tv_matches v' = tv_matches v \<and> tv_recomputed v' = tv_recomputed v \<and>
    tv_mismatched_token v' = tv_mismatched_token v \<and> map_option rc_run_head_hash (tv_stored v') = Some head"
proof -
  let ?db = "db\<lparr>td_receipts := am_insert i (rc\<lparr>rc_run_head_hash := head\<rparr>) (td_receipts db)\<rparr>"
  have rows: "trace_rows i ?db = trace_rows i db" by (simp add: trace_rows_def)
  obtain st where r: "read_receipt env i rc = Ok st"
    using recompute_stored [OF assms(4)] assms(1) by (auto simp: load_receipt_def split: sum.splits)
  then have "read_receipt env i (rc\<lparr>rc_run_head_hash := head\<rparr>) = Ok (st\<lparr>rc_run_head_hash := head\<rparr>)"
    using assms(2,3) by (auto simp: read_receipt_def to_digest_def split: sum.splits if_splits)
  then have st: "load_receipt env i db = Ok (Some st)"
    and rh: "load_receipt env i ?db = Ok (Some (st\<lparr>rc_run_head_hash := head\<rparr>))"
    using r assms(1) by (simp_all add: load_receipt_def lookup_am_insert)
  show ?thesis
    using assms(4) st rh
    by (auto simp: recompute_receipt_def rows current_digest Let_def split: option.splits sum.splits)
qed

section \<open>Verdicts\<close>

lemma load_receipt_input: "load_receipt env i db = Ok (Some rc) \<Longrightarrow> rc_input_digest_b3 rc = None"
  by (auto simp: load_receipt_def read_receipt_def split: option.splits sum.splits)

lemma no_crypto_digest:
  assumes "recompute_receipt env db i = Ok v"
  shows "crypto_lookup_digest H v = None"
  using recompute_stored [OF assms]
  by (cases "tv_stored v") (auto simp: crypto_lookup_digest_def dest: load_receipt_input)

lemma read_receipt_persisted:
  "read_receipt env i (rc\<lparr>rc_fields := (rc_fields rc)\<lparr>tf_crypto_receipt_digest_b3 := a, tf_receipt_parity_verified := b,
     tf_tenant_id := c\<rparr>\<rparr>) = read_receipt env i rc"
  by (simp add: read_receipt_def read_fields_def split: sum.split)

lemma load_persisted:
  "load_receipt env i (snd (persist_receipt_verification env e j v db)) = load_receipt env i db"
proof -
  have "map_of (map (\<lambda>(i, rc). if i = j then (i, f rc) else (i, rc)) m) i =
      map_option (if i = j then f else id) (map_of m i)" for f :: "trace_receipt \<Rightarrow> trace_receipt" and m
    by (induction m) (auto split: prod.splits)
  then show ?thesis
    by (auto simp: persist_receipt_verification_def load_receipt_def read_receipt_persisted map_option_case
        split: option.splits)
qed

lemma persist_keeps_rows:
  "td_traces (snd (persist_receipt_verification env e j v db)) = td_traces db"
  "trace_rows i (snd (persist_receipt_verification env e j v db)) = trace_rows i db"
  by (simp_all add: persist_receipt_verification_def trace_rows_def split: option.split)

text \<open>
  (C40) Writing a verdict back changes no verdict: every trace of the database verifies
  afterwards as it did before.
\<close>

theorem verdicts_are_stable:
  "recompute_receipt env (snd (recompute_receipt_and_persist env e j db)) i = recompute_receipt env db i"
proof -
  have "recompute_receipt env (snd (persist_receipt_verification env e j v db)) i = recompute_receipt env db i" for v
    unfolding recompute_receipt_def load_persisted persist_keeps_rows by (rule refl)
  then show ?thesis
    by (auto simp: recompute_receipt_and_persist_def split: sum.splits prod.splits) (metis snd_conv)+
qed

text \<open>
  The digest of the older receipt format is never computed: it needs the digest of the
  input tokens, which the query of the stored receipt does not select, so that writing a verdict
  back leaves the column of every receipt as it was.
\<close>

theorem crypto_digest_never_filled:
  "map (\<lambda>(i, rc). (i, tf_crypto_receipt_digest_b3 (rc_fields rc)))
     (td_receipts (snd (recompute_receipt_and_persist env e j db))) =
   map (\<lambda>(i, rc). (i, tf_crypto_receipt_digest_b3 (rc_fields rc))) (td_receipts db)"
  by (auto simp: recompute_receipt_and_persist_def persist_receipt_verification_def no_crypto_digest coalesce_def
      split: sum.splits prod.splits option.splits)

section \<open>Cache credits\<close>

text \<open>
  (C35) Cached tokens are credited only with a signature: unless the attestation at hand is a forgery (its
  signature verifies under the public key of the worker although the worker has signed no attestation with
  these bytes), every receipt with cached tokens was issued against an attestation the worker made for
  exactly that number of tokens and, when the receipt names a key of the prefix cache, for that key; what
  is billed is the prompt less the credit. Keys of the cache have 32 bytes and worker names fewer than
  \<open>2\<^sup>3\<^sup>2\<close>.
\<close>

theorem credited_tokens_signed:
  assumes "finalize env parse_key verify_sig tx db_error fz s = (Ok rc, s')"
    and "0 < tf_prefix_cached_token_count (rc_fields rc)" "fz_worker_public_key fz = Some pk"
    and "\<And>a vk. fz_cache_attestation fz = Some a \<Longrightarrow> parse_key pk = Ok vk \<Longrightarrow>
      verify_sig vk (attestation_bytes a) (att_signature a) = Ok () \<Longrightarrow> attestation_bytes a \<in> attestation_bytes ` issued"
    and "\<forall>b \<in> issued. length (att_cache_key_hash b) = 32 \<and> length (att_worker_id b) < 2 ^ 32"
    and "\<forall>a. fz_cache_attestation fz = Some a \<longrightarrow>
      length (att_cache_key_hash a) = 32 \<and> length (att_worker_id a) < 2 ^ 32"
  shows "(\<exists>b \<in> issued. att_token_count b = tf_prefix_cached_token_count (rc_fields rc) \<and>
      tf_prefix_kv_key_b3 (rc_fields rc) \<in> {None, Some (att_cache_key_hash b)}) \<and>
    tf_billed_input_tokens (rc_fields rc) =
      sat_sub32 (tf_logical_prompt_tokens (rc_fields rc)) (tf_prefix_cached_token_count (rc_fields rc))"
proof -
  have f: "rc_fields rc = fz_fields fz" "check_billing (fz_fields fz) = Ok ()"
      "check_cache_credits parse_key verify_sig fz = Ok ()"
    using assms(1) by (auto simp: finalize_def Let_def split: prod.splits sum.splits option.splits)
  obtain a where a: "fz_cache_attestation fz = Some a" "attestation_verify parse_key verify_sig a pk = Ok ()"
      "att_token_count a = tf_prefix_cached_token_count (fz_fields fz)"
      "tf_prefix_kv_key_b3 (fz_fields fz) \<in> {None, Some (att_cache_key_hash a)}"
    using f(1,3) assms(2,3)
    by (auto simp: check_cache_credits_def Let_def split: option.splits sum.splits if_splits)
  then obtain vk where "parse_key pk = Ok vk" "verify_sig vk (attestation_bytes a) (att_signature a) = Ok ()"
    by (auto simp: attestation_verify_def split: if_splits sum.splits)
  then obtain b where b: "b \<in> issued" "attestation_bytes a = attestation_bytes b"
    using assms(4) a(1) by blast
  then have "att_cache_key_hash a = att_cache_key_hash b \<and> att_token_count a = att_token_count b"
    using attestation_bytes_inject [OF _ _ _ _ b(2)] assms(5,6) a(1) by blast
  moreover have "tf_billed_input_tokens (fz_fields fz) =
      sat_sub32 (tf_logical_prompt_tokens (fz_fields fz)) (tf_prefix_cached_token_count (fz_fields fz))"
    using f(2) by (auto simp: check_billing_def split: if_splits)
  ultimately show ?thesis using a(3,4) b(1) f(1) by auto
qed

lemma insert_buffer_receipts:
  "td_receipts (snd (snd (insert_buffer env tx s))) = td_receipts (snd s)"
  by (auto simp: insert_buffer_def Let_def split: prod.splits tx_outcome.splits sum.splits)

text \<open>
  (C36) A cache hit without an attestation has no receipt: the finalization fails and stores
  none, whatever the outcome of the transaction. The worker finalizes every trace without an
  attestation, so a request that the prefix cache serves ends with this error.
\<close>

theorem unattested_hit_is_refused:
  assumes "0 < tf_prefix_cached_token_count (fz_fields fz)" "fz_cache_attestation fz = None"
  shows "case finalize env parse_key verify_sig tx db_error fz s of
    (r, sk', db') \<Rightarrow> (\<exists>e. r = Err e) \<and> td_receipts db' = td_receipts (snd s)"
  using assms insert_buffer_receipts [of env tx s]
  by (auto simp: finalize_def check_cache_credits_def split: prod.splits sum.splits)

section \<open>Blobs of a trace\<close>

lemma decode_gates_loop_map: "decode_gates_loop (length gs) (concat (map (le_bytes 2) gs)) = gs"
  by (induction gs) (simp_all add: le_bytes_roundtrip)

lemma decode_ids_loop_map:
  assumes "\<And>s. s \<in> set ids \<Longrightarrow> length s < 2 ^ 32 \<and> from_utf8 (str_bytes s) = Some s"
  shows "decode_ids_loop from_utf8 (length ids) (concat (map (\<lambda>s. concat (prefixed (str_bytes s))) ids)) = ids"
  using assms
proof (induction ids)
  case (Cons s ids)
  have "unat (from_le_bytes (le_bytes 4 (of_nat (length s) :: u32)) :: u32) = length s"
    using Cons.prems [of s] by (simp add: le_bytes_roundtrip unsigned_of_nat take_bit_nat_eq_self)
  then show ?case
    using Cons by (simp add: prefixed_def Let_def str_bytes_def)
qed simp

text \<open>What a trace shows of a token: the adapters and gates that were recorded.\<close>

lemma trace_blobs_roundtrip:
  assumes "length ids < 2 ^ 32" "length gates < 2 ^ 32"
    and "\<And>s. s \<in> set ids \<Longrightarrow> length s < 2 ^ 32 \<and> from_utf8 (str_bytes s) = Some s"
  shows "decode_adapter_ids from_utf8 (encode_adapter_ids ids) = ids \<and>
    decode_gates_q15 (encode_gates_q15 gates) = gates"
  using assms(1,2) decode_ids_loop_map [of ids from_utf8, OF assms(3)] decode_gates_loop_map [of gates]
  by (simp add: decode_adapter_ids_def encode_adapter_ids_def decode_gates_q15_def encode_gates_q15_def
      le_bytes_roundtrip unsigned_of_nat take_bit_nat_eq_self)

section \<open>Witnesses\<close>

lemma finalize_ok:
  assumes "sink_inv env start ts s" "list_all (token_ok env) ts" "sorted_wrt (<) (map ti_token_index ts)"
    and "check_billing (fz_fields fz) = Ok ()" "check_cache_credits parse_key verify_sig fz = Ok ()"
  shows "\<exists>rc sk db. finalize env parse_key verify_sig TxCommitted None fz s = (Ok rc, sk, db)"
  using flush_ok [OF assms(1-3)] assms(4,5) by (auto simp: finalize_def current_digest Let_def)

text \<open>A digest function with 32 bytes that separates inputs by their first byte and is never zero on them.\<close>

definition shift32 :: hash_fn where
  "shift32 x = take 32 (map (\<lambda>b. b + 1) x @ replicate 32 0)"

lemma length_shift32: "length (shift32 x) = 32"
  by (simp add: shift32_def)

lemma shift32_eq: "shift32 (b # xs) = shift32 (c # ys) \<Longrightarrow> b = c"
  by (simp add: shift32_def)

lemma shift32_nonzero: "b \<noteq> 255 \<Longrightarrow> b3_zero \<noteq> shift32 (b # xs)"
proof
  assume "b \<noteq> 255" "b3_zero = shift32 (b # xs)"
  then have "b + 1 = 0" by (simp add: shift32_def b3_zero_def numeral_eq_Suc)
  then have "b = - 1" by (simp add: eq_neg_iff_add_eq_0)
  with \<open>b \<noteq> 255\<close> show False by simp
qed

definition trace_example_env :: "string trace_env" where
  "trace_example_env =
     \<lparr>te_hash = shift32, te_print = Ok, te_parse = Ok, te_hex_encode = map (\<lambda>b. char_of (unat b)),
      te_hex_decode = (\<lambda>s. Inr (map (\<lambda>c. of_nat (of_char c)) s)), te_unique_error = ''UNIQUE''\<rparr>"

definition trace_example_start :: trace_start where
  "trace_example_start =
     \<lparr>st_trace_id = ''t'', st_tenant_id = ''tenant'', st_request_id = None, st_context_digest = replicate 32 1,
      st_stack_id = None, st_model_id = None, st_policy_id = None\<rparr>"

definition trace_example_token :: "string option \<Rightarrow> string trace_token_input" where
  "trace_example_token backend =
     \<lparr>ti_token_index = 0, ti_adapter_ids = [''a''], ti_gates_q15 = [7], ti_policy_mask_digest_b3 = None,
      ti_allowed_mask = Some [True, False], ti_policy_overrides_applied = Some ''{}'', ti_backend_id = backend,
      ti_kernel_version_id = None\<rparr>"

definition trace_example_fz :: trace_finalization where
  "trace_example_fz =
     \<lparr>fz_output_tokens = [5], fz_fields = (default_fields 1)
        \<lparr>tf_logical_prompt_tokens := 9, tf_billed_input_tokens := 9, tf_prefix_kv_key_b3 := Some (replicate 32 3)\<rparr>,
      fz_cache_attestation = None, fz_worker_public_key = None\<rparr>"

lemma u8_char: "of_nat (unat (b :: u8) mod 256) = b"
  using unsigned_less [of b, where 'a = nat] by simp

lemma trace_example_env_ok:
  "length (te_hash trace_example_env x) = 32"
  "te_hex_decode trace_example_env (te_hex_encode trace_example_env bs) = Inr bs"
  by (simp_all add: trace_example_env_def length_shift32 comp_def u8_char)

lemma trace_example_token_ok: "token_ok trace_example_env (trace_example_token b)"
  by (simp add: token_ok_def trace_example_token_def trace_example_env_def hash_ok_def)

theorem recorded_trace_verifies_witness:
  "\<exists>sk db rc sk' db' v.
     new_with_input_tokens trace_example_env True None trace_example_start 1 None \<lparr>td_traces = [], td_tokens = [],
       td_receipts = []\<rparr> = (Ok sk, db) \<and>
     finalize trace_example_env (\<lambda>k. Ok ()) (\<lambda>vk m s. Ok ()) TxCommitted None trace_example_fz
       (record_all trace_example_env [trace_example_token None, trace_example_token None\<lparr>ti_token_index := 1\<rparr>]
         (sk, db)) = (Ok rc, sk', db') \<and>
     recompute_receipt trace_example_env db' ''t'' = Ok v \<and> tv_matches v"
proof -
  let ?env = trace_example_env and ?db0 = "\<lparr>td_traces = [], td_tokens = [], td_receipts = []\<rparr>"
  let ?ts = "[trace_example_token None, trace_example_token None\<lparr>ti_token_index := 1\<rparr>]"
  obtain sk db where new: "new_with_input_tokens ?env True None trace_example_start 1 None ?db0 = (Ok sk, db)"
    by (simp add: new_with_input_tokens_def)
  have ts: "list_all (token_ok ?env) ?ts" "sorted_wrt (<) (map ti_token_index ?ts)"
    using trace_example_token_ok [of None] by (simp_all add: token_ok_def trace_example_token_def)
  have "sink_inv ?env trace_example_start ?ts (record_all ?env ?ts (sk, db))"
    using record_all_inv [OF new_sink_inv [OF new]] ts by simp
  moreover have "check_billing (fz_fields trace_example_fz) = Ok ()"
      "check_cache_credits (\<lambda>k. Ok ()) (\<lambda>vk m s. Ok ()) trace_example_fz = Ok ()"
    by (simp_all add: trace_example_fz_def default_fields_def check_billing_def check_cache_credits_def sat_sub32_def)
  ultimately obtain rc sk' db' where fin: "finalize ?env (\<lambda>k. Ok ()) (\<lambda>vk m s. Ok ()) TxCommitted None
      trace_example_fz (record_all ?env ?ts (sk, db)) = (Ok rc, sk', db')"
    using finalize_ok ts by blast
  have "\<exists>v. recompute_receipt ?env db' (st_trace_id trace_example_start) = Ok v \<and> tv_matches v \<and>
    tv_mismatched_token v = None \<and> rc_receipt_digest (tv_recomputed v) = rc_receipt_digest rc"
  proof (rule recorded_trace_verifies [OF trace_example_env_ok new _ _ ts fin])
    show "fields_ok (fz_fields trace_example_fz)" "sizes_stored (fz_fields trace_example_fz)"
      by (simp_all add: fields_ok_def sizes_stored_def u64_stored_def trace_example_fz_def default_fields_def hash_ok_def)
  qed (simp_all add: trace_example_start_def)
  then obtain v where "recompute_receipt ?env db' ''t'' = Ok v" "tv_matches v"
    by (auto simp: trace_example_start_def)
  with new fin show ?thesis by blast
qed

definition trace_example_attestation :: cache_attestation where
  "trace_example_attestation =
     \<lparr>att_schema_version = 1, att_cache_key_hash = replicate 32 3, att_token_count = 4, att_worker_id = ''w'',
      att_timestamp_tick = 9, att_signature = [1]\<rparr>"

theorem unattested_hit_is_refused_witness:
  "\<exists>e. fst (finalize trace_example_env (\<lambda>k. Ok ()) (\<lambda>vk m s. Ok ()) TxCommitted None
     (trace_example_fz\<lparr>fz_fields := (fz_fields trace_example_fz)
        \<lparr>tf_prefix_cached_token_count := 4, tf_billed_input_tokens := 5\<rparr>\<rparr>)
     (\<lparr>sk_start = trace_example_start, sk_buffer = [], sk_flush_every = 1, sk_run_head_hash = b3_zero,
       sk_input_digest_b3 = None\<rparr>, \<lparr>td_traces = [], td_tokens = [], td_receipts = []\<rparr>)) = Err e"
  using unattested_hit_is_refused [where fz = "trace_example_fz\<lparr>fz_fields := (fz_fields trace_example_fz)
        \<lparr>tf_prefix_cached_token_count := 4, tf_billed_input_tokens := 5\<rparr>\<rparr>" and env = trace_example_env
      and parse_key = "\<lambda>k. Ok ()" and verify_sig = "\<lambda>vk m s. Ok ()" and tx = TxCommitted and db_error = None and
      s = "(\<lparr>sk_start = trace_example_start, sk_buffer = [], sk_flush_every = 1, sk_run_head_hash = b3_zero,
        sk_input_digest_b3 = None\<rparr>, \<lparr>td_traces = [], td_tokens = [], td_receipts = []\<rparr>)"]
  by (auto simp: trace_example_fz_def split: prod.splits)

text \<open>A signature scheme for the example: the signature of any message is its checksum.\<close>

definition checksum_verify :: "unit \<Rightarrow> bytes \<Rightarrow> bytes \<Rightarrow> (string, unit) result" where
  "checksum_verify vk m sig = (if sig = [sum_list m] then Ok () else Err ''bad'')"

definition trace_example_signed :: cache_attestation where
  "trace_example_signed = trace_example_attestation
     \<lparr>att_signature := [sum_list (attestation_bytes trace_example_attestation)]\<rparr>"

definition trace_example_hit :: trace_finalization where
  "trace_example_hit = trace_example_fz\<lparr>fz_fields := (fz_fields trace_example_fz)
        \<lparr>tf_prefix_cached_token_count := 4, tf_billed_input_tokens := 5\<rparr>,
        fz_cache_attestation := Some trace_example_signed, fz_worker_public_key := Some []\<rparr>"

theorem credited_tokens_signed_witness:
  "\<exists>rc s'. finalize trace_example_env (\<lambda>k. Ok ()) checksum_verify TxCommitted None trace_example_hit
     (\<lparr>sk_start = trace_example_start, sk_buffer = [], sk_flush_every = 1, sk_run_head_hash = b3_zero,
       sk_input_digest_b3 = None\<rparr>, \<lparr>td_traces = [], td_tokens = [], td_receipts = []\<rparr>) = (Ok rc, s') \<and>
   att_token_count trace_example_signed = tf_prefix_cached_token_count (rc_fields rc) \<and>
   tf_billed_input_tokens (rc_fields rc) = 5"
proof -
  let ?s = "(\<lparr>sk_start = trace_example_start, sk_buffer = [], sk_flush_every = 1, sk_run_head_hash = b3_zero,
       sk_input_digest_b3 = None\<rparr>, \<lparr>td_traces = [], td_tokens = [], td_receipts = []\<rparr>)"
  have sig: "attestation_verify (\<lambda>k. Ok ()) checksum_verify trace_example_signed [] = Ok ()"
    by (simp add: attestation_verify_def checksum_verify_def trace_example_signed_def trace_example_attestation_def
        attestation_bytes_def)
  obtain rc s' where fin: "finalize trace_example_env (\<lambda>k. Ok ()) checksum_verify TxCommitted None trace_example_hit ?s = (Ok rc, s')"
      and rc: "rc_fields rc = fz_fields trace_example_hit"
    using sig by (simp add: finalize_def insert_buffer_def check_billing_def check_cache_credits_def trace_example_hit_def
        trace_example_fz_def trace_example_signed_def trace_example_attestation_def default_fields_def sat_sub32_def
        current_digest Let_def)
  have "(\<exists>b \<in> {trace_example_signed}. att_token_count b = tf_prefix_cached_token_count (rc_fields rc) \<and>
      tf_prefix_kv_key_b3 (rc_fields rc) \<in> {None, Some (att_cache_key_hash b)}) \<and>
    tf_billed_input_tokens (rc_fields rc) =
      sat_sub32 (tf_logical_prompt_tokens (rc_fields rc)) (tf_prefix_cached_token_count (rc_fields rc))"
    by (rule credited_tokens_signed [OF fin])
      (simp_all add: rc trace_example_hit_def trace_example_signed_def trace_example_attestation_def)
  with fin rc show ?thesis by (auto simp: trace_example_hit_def)
qed

definition trace_example_receipt :: trace_receipt where
  "trace_example_receipt =
     (let head = run_head shift32 b3_zero [decision_of trace_example_env (replicate 32 1) (trace_example_token None)] in
      \<lparr>rc_trace_id = ''t'', rc_run_head_hash = head, rc_output_digest = replicate 32 2,
       rc_receipt_digest = compute_v8_digest shift32
         (trace_receipt_input (replicate 32 1) head (replicate 32 2) (default_fields 1)),
       rc_signature = None, rc_input_digest_b3 = None, rc_fields = default_fields 1\<rparr>)"

definition trace_example_db :: "string option \<Rightarrow> trace_db" where
  "trace_example_db backend =
     \<lparr>td_traces = [(''t'', trace_example_start)],
      td_tokens = [(''t'', stored trace_example_env (replicate 32 1) (trace_example_token backend))],
      td_receipts = [(''t'', trace_example_receipt)]\<rparr>"

lemma trace_example_slices:
  assumes "b \<in> {None, Some []}"
  shows "decision_slices (decision_of trace_example_env ctx (trace_example_token b)) =
    decision_slices (decision_of trace_example_env ctx (trace_example_token None))"
  using assms by (auto simp: decision_slices_def decision_of_def trace_example_token_def opt_str_def)

definition trace_example_verified :: trace_receipt_verification where
  "trace_example_verified =
     \<lparr>tv_matches = True, tv_mismatched_token = None, tv_tenant_id = ''tenant'', tv_context_digest = replicate 32 1,
      tv_stored = Some (trace_example_receipt\<lparr>rc_fields := read_fields trace_example_env (default_fields 1)\<rparr>),
      tv_recomputed = trace_example_receipt
        \<lparr>rc_fields := read_fields trace_example_env (default_fields 1)\<lparr>tf_attestation := None\<rparr>\<rparr>\<rparr>"

lemma read_default_fields: "read_fields env (default_fields n) = default_fields n"
  by (simp add: read_fields_def default_fields_def db_digest_def db_u64_def db_hex_digest_def db_equipment_def)

lemma trace_example_recomputed:
  assumes "b \<in> {None, Some []}"
  shows "recompute_receipt trace_example_env (trace_example_db b) ''t'' = Ok trace_example_verified"
proof -
  let ?env = trace_example_env and ?ctx = "replicate 32 (1 :: u8)"
  have head: "run_head shift32 b3_zero [decision_of ?env ?ctx (trace_example_token b)] = rc_run_head_hash trace_example_receipt"
    using trace_example_slices [OF assms]
    by (auto simp: trace_example_receipt_def run_head_def hash_token_decision_slices trace_example_token_def Let_def)
  have "verify_rows ?env ?ctx (map (stored ?env ?ctx) [trace_example_token b]) b3_zero None =
      Ok (run_head (te_hash ?env) b3_zero [decision_of ?env ?ctx (trace_example_token b)], None)"
    using verify_rows_stored [OF trace_example_env_ok(1), of "[trace_example_token b]"] trace_example_token_ok by simp
  moreover have h: "te_hash ?env = shift32" by (simp add: trace_example_env_def)
  ultimately have rows: "verify_rows ?env ?ctx [stored ?env ?ctx (trace_example_token b)] b3_zero None =
      Ok (rc_run_head_hash trace_example_receipt, None)"
    using head by simp
  have load: "load_receipt ?env ''t'' (trace_example_db b) = Ok (Some trace_example_receipt)"
    by (subst load_issued [where rc = trace_example_receipt])
      (simp_all add: trace_example_db_def trace_example_receipt_def Let_def run_head_length length_shift32
        compute_v8_digest_def b3_hash_multi_def read_default_fields)
  have db: "map_of (td_traces (trace_example_db b)) ''t'' = Some trace_example_start"
      "trace_rows ''t'' (trace_example_db b) = [stored ?env ?ctx (trace_example_token b)]"
      "st_context_digest trace_example_start = ?ctx" "st_tenant_id trace_example_start = ''tenant''"
    by (simp_all add: trace_example_db_def trace_rows_def trace_example_start_def)
  have rc: "rc_fields trace_example_receipt = default_fields 1" "rc_trace_id trace_example_receipt = ''t''"
      "rc_signature trace_example_receipt = None" "rc_input_digest_b3 trace_example_receipt = None"
      "rc_receipt_digest trace_example_receipt = compute_v8_digest shift32 (trace_receipt_input ?ctx
        (rc_run_head_hash trace_example_receipt) (rc_output_digest trace_example_receipt) (default_fields 1))"
    by (simp_all add: trace_example_receipt_def Let_def)
  have "\<not> billing_mismatch (default_fields 1)"
    by (simp add: billing_mismatch_def default_fields_def sat_sub32_def)
  then have "recompute_receipt ?env (trace_example_db b) ''t'' = Ok
      \<lparr>tv_matches = True, tv_mismatched_token = None, tv_tenant_id = ''tenant'', tv_context_digest = ?ctx,
       tv_stored = Some trace_example_receipt, tv_recomputed = trace_example_receipt
         \<lparr>rc_fields := default_fields 1\<lparr>tf_attestation := None\<rparr>\<rparr>\<rparr>"
    by (simp add: recompute_receipt_def db to_digest_def rows load h current_digest rc Let_def del: verify_rows.simps)
  moreover have "trace_example_receipt\<lparr>rc_fields := default_fields 1\<rparr> = trace_example_receipt"
    by (rule trace_receipt.equality) (simp_all add: rc)
  ultimately show ?thesis by (simp add: trace_example_verified_def read_default_fields)
qed

lemma trace_example_decisions:
  "trace_decisions trace_example_env (trace_example_db b) ''t'' trace_example_verified =
     [decision_of trace_example_env (replicate 32 1) (trace_example_token b)]"
proof -
  have t: "token_ok trace_example_env (trace_example_token b)" by (rule trace_example_token_ok)
  then have "hash_ok (ti_policy_mask_digest_b3 (trace_example_token b))" by (simp add: token_ok_def)
  then have "row_decision trace_example_env ctx (stored trace_example_env ctx (trace_example_token b)) =
      Some (decision_of trace_example_env ctx (trace_example_token b))" for ctx
    using t by (simp add: row_decision_def row_mask_digest_ok row_allowed_mask_ok decode_overrides_ok
        reprint_overrides decision_of_def [symmetric])
  then show ?thesis
    by (simp add: trace_decisions_def trace_rows_def trace_example_db_def trace_example_verified_def)
qed

lemma trace_example_hashes:
  assumes "b \<in> {None, Some []}"
  shows "verified_hashes trace_example_env (trace_example_db b) ''t'' trace_example_verified =
    verified_hashes trace_example_env (trace_example_db None) ''t'' trace_example_verified"
  using trace_example_slices [OF assms]
  by (simp add: verified_hashes_def trace_example_decisions hash_token_decision_slices)
    (simp add: trace_example_token_def)

theorem verified_trace_is_unaltered_witness:
  "recompute_receipt trace_example_env (trace_example_db None) ''t'' = Ok trace_example_verified \<and>
   recompute_receipt trace_example_env (trace_example_db (Some [])) ''t'' = Ok trace_example_verified \<and>
   map decision_slices (trace_decisions trace_example_env (trace_example_db None) ''t'' trace_example_verified) =
   map decision_slices (trace_decisions trace_example_env (trace_example_db (Some [])) ''t'' trace_example_verified)"
proof -
  let ?env = trace_example_env and ?v = trace_example_verified
  let ?A = "verified_hashes ?env (trace_example_db None) ''t'' ?v"
  have h: "te_hash ?env = shift32" by (simp add: trace_example_env_def)
  have v: "recompute_receipt ?env (trace_example_db None) ''t'' = Ok ?v"
      "recompute_receipt ?env (trace_example_db (Some [])) ''t'' = Ok ?v" "tv_matches ?v"
    by (simp_all add: trace_example_recomputed, simp add: trace_example_verified_def)
  have "verified_input ?v = trace_receipt_input (replicate 32 1) (rc_run_head_hash trace_example_receipt)
      (replicate 32 2) (default_fields 1)"
    by (simp add: verified_input_def trace_example_verified_def read_default_fields input_without_attestation
        trace_example_receipt_def Let_def)
  then have ok: "receipt_ok (verified_input ?v)"
    by (simp add: receipt_ok_def trace_receipt_input_def receipt_builders default_fields_def hash_ok_def str_ok_def
        run_head_length length_shift32 trace_example_receipt_def Let_def)
  have dec: "list_all decision_ok (trace_decisions ?env (trace_example_db b) ''t'' ?v)" if "b \<in> {None, Some []}" for b
    unfolding trace_example_decisions using that by (auto simp: decision_ok_def decision_of_def trace_example_token_def
        opt_vec_def opt_str_def str_bytes_def encode_adapter_ids_def encode_gates_q15_def encode_allowed_mask_def
        prefixed_def overrides_text_def trace_example_env_def)
  let ?d = "decision_of ?env (replicate 32 1) (trace_example_token None)"
  have "\<exists>p. concat (receipt_slices 7 (verified_input ?v)) = 7 # p" by (simp add: receipt_slices_def)
  moreover have "\<exists>q. concat [[8], compute_v7_digest shift32 (verified_input ?v),
      opt_hash (rd_adapter_version_bindings_digest_b3 (verified_input ?v))] = 8 # q" by simp
  moreover have "\<exists>r. concat (decision_slices ?d) = 1 # r"
    by (simp add: decision_slices_def decision_of_def numeral_eq_Suc)
  moreover have "\<exists>s. concat [b3_zero, hash_token_decision shift32 ?d, le_bytes 4 (td_token_index ?d)] = 0 # s"
    by (simp add: b3_zero_def numeral_eq_Suc)
  ultimately obtain p q r s where A: "?A = {7 # p, 8 # q} \<union> ({1 # r, 0 # s} \<union> {})"
    unfolding verified_hashes_def hashed_inputs_def trace_example_decisions chain_inputs.simps h by auto
  have "inj_on shift32 ?A" "b3_zero \<notin> shift32 ` ?A"
    unfolding A by (auto dest: shift32_eq) (simp_all add: shift32_nonzero)
  then show ?thesis
    using verified_trace_is_unaltered [OF trace_example_env_ok(1) v(1,2,3,3) refl ok ok] dec v(1,2)
      trace_example_hashes [of "Some []"] by (simp add: h)
qed

end
