(* ===== verification/Spec2Isabelle.thy ===== *)
theory Spec2Isabelle
  imports LifecycleRules WorkerLifecycle BootSequence CircuitBreaker ReceiptMerkle AuditChain
    TenantIsolation AdapterHeat KvCache AdapterCache TtlManager Seeds RouterCorrect HotSwapRetire TableLocks
    ManagerCorrect StopController KvSlabCorrect PrefixKvCorrect TraceCorrect
begin

text \<open>
  \<^bold>\<open>A verification development of adapterOS.\<close>

  adapterOS serves language models with many LoRA adapters for several tenants. This library
  models the deciding parts of its Rust sources as HOL functions and proves what they promise.
  Paths below are relative to \<open>src/crates/\<close>.

  \<^bold>\<open>How the parts fit together.\<close> A control plane boots through fixed phases and then manages
  workers, each with a status. Adapters are versions with a lifecycle; moving one forward is
  checked against the tier and a set of constraints. On a worker an adapter has a heat state
  that decides whether it is loaded, available or evicted, pins have a lifetime, and the model
  server caches adapters and key-value sessions in bounded memory. For each token the router
  selects adapters and a routing policy masks and filters the selection. A worker swaps its
  active adapters while requests run: a request pins a snapshot of the index, a replaced stack
  is retired, and its adapters are detached from the kernels when no reference is left. The
  keys and values of a prompt come from the prefix cache or from slices of the worker's KV cache
  under the tenant's quota, and a stop controller ends the generation. Each token's decision goes
  into the trace of the request; the receipt of the trace binds the decisions, the output and the
  bill, in which cached tokens are credited against a signed attestation. Every access is
  checked for tenant isolation; calls to a failing service pass a circuit breaker; policy
  decisions are recorded in a hash-linked audit chain and receipts in Merkle batches.

  \<^bold>\<open>Theories, sources and results.\<close>

  \<^item> \<^verbatim>\<open>AosPrelude\<close>: results as sums, the variants of \<open>AosError\<close> in use, the string operations
    of the sources, and three interfaces: \<open>str_codec\<close> (an enumeration with its printed names),
    \<open>transition_system\<close> and \<open>ranked_machine\<close> (transition checks with terminal states and
    with a rank that every move climbs), with lemmas on runs. \<^verbatim>\<open>Floats\<close>: \<open>f32\<close> values as far as
    they are compared, bit patterns with their comparisons, and the record of rounding operations. \<^verbatim>\<open>B3Hash\<close>: the hash newtype of \<open>adapteros-infra-common/src/hash.rs\<close>.
    \<^verbatim>\<open>AssocMap\<close>: hash maps and ordered maps as association lists behind one interface
    \<open>map_interface\<close>, and the interface \<open>accounted_cache\<close> of a cache with a byte counter.

  \<^item> \<^verbatim>\<open>Lifecycle\<close> (\<open>adapteros-core/src/lifecycle.rs\<close>, first part): the seven lifecycle states,
    the tier-aware transition check and its error texts, semantic versions. The check is the
    step relation of a state machine; what is loadable was trained and ready, retirement
    comes after deprecation outside the ephemeral tier.

  \<^item> \<^verbatim>\<open>LifecycleRules\<close> (same file, second part): validation contexts, constraints, their
    evaluators, the validator and alias swaps. A transition is accepted exactly when the tier
    allows it and its requirements hold; the order of constraints is irrelevant; a
    rejection is bypassable exactly when the preflight bypass would accept it.

  \<^item> \<^verbatim>\<open>WorkerLifecycle\<close> (\<open>adapteros-core/src/worker_status.rs\<close>): a ranked machine; a worker
    changes its status at most five times and stops cleanly only through draining.

  \<^item> \<^verbatim>\<open>BootSequence\<close> (\<open>adapteros-boot/src/phase.rs\<close>, \<open>lifecycle_builder.rs\<close>,
    \<open>boot_report.rs\<close>): the phase table and the builder that walks it. The builder refines
    the table; artifacts and a ready phase exist only after every mandatory phase.

  \<^item> \<^verbatim>\<open>CircuitBreaker\<close> (\<open>adapteros-core/src/circuit_breaker.rs\<close>): the breaker's state with its
    packed cache word and counters at 64 bits. Invariants hold for all orders in which
    admissions and completions interleave; tripping, rejection and recovery are exact.

  \<^item> \<^verbatim>\<open>ReceiptMerkle\<close> (\<open>adapteros-core/src/receipt_merkle.rs\<close>): batches, roots and inclusion
    proofs; completeness, soundness, independence of arrival order.

  \<^item> \<^verbatim>\<open>AuditChain\<close> (\<open>adapteros-core/src/audit_chain.rs\<close>): the check accepts exactly the
    well-linked chains; the head commits to the whole chain; tenants are independent.

  \<^item> \<^verbatim>\<open>TenantIsolation\<close> (\<open>adapteros-core/src/tenant_isolation/\<close>): rules, engine and builder. The
    interface \<open>isolating_rule\<close> is what an extension rule has to promise; engines made of such
    rules isolate tenants.

  \<^item> \<^verbatim>\<open>AdapterHeat\<close> (\<open>adapteros-lora-lifecycle/src/state.rs\<close>, \<open>category_policies.rs\<close>): heat
    states, records and eviction decisions; pinned adapters stay.

  \<^item> \<^verbatim>\<open>TtlManager\<close> (\<open>adapteros-lora-lifecycle/src/ttl_manager.rs\<close>): lifetimes of pins; a pass
    evicts exactly the expired ones and logs them; extensions are bounded.

  \<^item> \<^verbatim>\<open>KvCache\<close> and \<^verbatim>\<open>AdapterCache\<close> (\<open>adapteros-model-server/src/kv_cache.rs\<close>,
    \<open>adapter_cache.rs\<close>): both interpret \<open>accounted_cache\<close>, so their byte counters are exact
    after any sequence of calls; evictions follow the order of use and the session cache
    evicts no more than needed and keeps its bound.

  \<^item> \<^verbatim>\<open>PolicyMask\<close> (\<open>adapteros-lora-router/src/policy_mask.rs\<close>): masks with their digest and
    the filter of router decisions; the digest binds the mask and the filter keeps exactly
    the permitted adapters.

  \<^item> \<^verbatim>\<open>Seeds\<close> (\<open>adapteros-core/src/determinism.rs\<close>, \<open>derive_seed\<close> of \<open>seed.rs\<close>): the seeds of a
    request by purpose; seeds of different purposes and steps differ.

  \<^item> \<^verbatim>\<open>RouterScore\<close>, \<^verbatim>\<open>Router\<close> and \<^verbatim>\<open>RouterCorrect\<close> (\<open>adapteros-lora-router/src/types.rs\<close>,
    \<open>orthogonal.rs\<close>, \<open>router.rs\<close>): scores under the mask, tie breaks, softmax, gates, abstain
    events and the decision hash. A decision obeys the mask, selects the best adapters in the
    total order of floating-point numbers (which tells the zeros apart and puts a positive NaN first), does
    not depend on the order in which adapters are listed, and routing never panics.

  \<^item> \<^verbatim>\<open>AdapterStore\<close> (\<open>adapteros-core/src/adapter_store.rs\<close>): the index of adapters by generation
    with reference counts. The interface \<open>generation_store\<close> is what publishing relies on;
    counters are exact for every order of installations, pins, releases and drains, and a drain
    frees exactly what nobody holds. \<^verbatim>\<open>StackHash\<close> (\<open>adapteros-core/src/stack.rs\<close>): the hash
    of a stack and what it identifies.

  \<^item> \<^verbatim>\<open>HotSwap\<close>, \<^verbatim>\<open>HotSwapCorrect\<close> and \<^verbatim>\<open>HotSwapRetire\<close>
    (\<open>adapteros-lora-worker/src/adapter_hotswap.rs\<close>, \<open>request_pinner.rs\<close>): the adapter table.
    A step relation lets the table's own calls follow one another in any order; under it the
    published index follows the active set, a swap is all or nothing, a rollback undoes it, pinned
    adapters stay attached, idle stacks leave the queue; and the ways in which the queue goes
    wrong. The manager's clean-up after a failed swap edits the table's maps from outside and is
    no step of this relation: it breaks the safety of pins, as \<^verbatim>\<open>ManagerCorrect\<close> shows.

  \<^item> \<^verbatim>\<open>LockOrder\<close>, \<^verbatim>\<open>StoreLocks\<close> and \<^verbatim>\<open>TableLocks\<close>: the locks of the calls of store and
    table, run step by step by concurrent threads. The interface \<open>lock_hierarchy\<close> is a set of
    calls that take locks in the order of a rank; such calls always return. Store and table
    interpret it for all calls but two, and those two deadlock.

  \<^item> \<^verbatim>\<open>AosArchive\<close> (\<open>adapteros-aos/src/writer.rs\<close>): the archive format with its writer and
    reader; what is written is read back, and an archive that opens has its index, payloads and
    manifest inside the file with matching hashes. \<^verbatim>\<open>GalaxyLoader\<close>
    (\<open>adapteros-lora-worker/src/galaxy_loader.rs\<close>): bundles of archives and the cached
    mappings; loading never slices out of range. \<^verbatim>\<open>AdapterIntegrity\<close>
    (\<open>adapter_integrity.rs\<close>): the check of a loaded adapter against the manifest's promises and
    its cache; the cache is transparent, and what is verified was hashed.

  \<^item> \<^verbatim>\<open>CacheBudget\<close>, \<^verbatim>\<open>HotSwapManager\<close> and \<^verbatim>\<open>ManagerCorrect\<close> (\<open>adapter_hotswap.rs\<close>, second half):
    the manager that puts table, loader, verifier and kernels together. The budget is exact as
    far as the kernels detach what they are told to, and spares what is in use; while nobody else
    swaps or stages, a swap with an expected hash ends with it, and in enforcing mode only
    verified adapters become active; failed swaps and preloads leave what is served as it was,
    but a failed swap drops counters of staged adapters that are still referenced.

  \<^item> \<^verbatim>\<open>StopController\<close> (\<open>adapteros-lora-worker/src/stop_controller.rs\<close>): when a generation
    ends. The sliding window decides as a specification on the whole stream of tokens does, the
    budget ends every generation, and the digest of the policy binds it up to one confusion.

  \<^item> \<^verbatim>\<open>KvQuota\<close>, \<^verbatim>\<open>KvSlab\<close> and \<^verbatim>\<open>KvSlabCorrect\<close> (\<open>adapteros-lora-worker/src/kv_quota.rs\<close>,
    \<open>kvcache.rs\<close>): the tenant's quota and the slab allocator of the worker. Slices of live
    sequences never overlap, the quota counts exactly the live bytes, guards follow the
    generation, zeroizing clears the sequence's own bytes; and three ways to lose memory or
    sequences.

  \<^item> \<^verbatim>\<open>ByteCode\<close> and \<^verbatim>\<open>ReceiptDigest\<close> (\<open>adapteros-core/src/receipt_digest.rs\<close>): receipts as
    digests of byte strings. The interface \<open>prefix_code\<close> is an encoder of which no code is a
    prefix of another; its interpretations give what a receipt binds, exactly, and that the
    head of a run commits to every token decision.

  \<^item> \<^verbatim>\<open>PrefixKvCache\<close> and \<^verbatim>\<open>PrefixKvCorrect\<close> (\<open>adapteros-lora-worker/src/prefix_kv_cache.rs\<close>,
    \<open>adapteros-core/src/prefix_kv_key.rs\<close>): the cache of prompt prefixes with its logical
    clock. The budget holds after any sequence of calls, accounting is exact without replaced
    keys, eviction goes by age and spares entries in use, a search finds the longest match; a
    damaged entry is served again and replaced bytes are lost. \<^verbatim>\<open>PrefixLookup\<close>
    (\<open>cache_prefix_lookup.rs\<close>, \<open>adapteros-core/src/cache_attestation.rs\<close>, \<open>context_digest.rs\<close>): the
    three lookups agree, credits are earned by shared tokens, attestations verify; with the
    digest the worker passes, only whole prompts are found.

  \<^item> \<^verbatim>\<open>TraceReceipts\<close> and \<^verbatim>\<open>TraceCorrect\<close> (\<open>adapteros-db/src/inference_trace.rs\<close>): the sink of a
    trace, the issue of its receipt and the verification by recomputation, on association lists
    for the three tables. A trace recorded in order verifies, one whose token rows or bound fields
    were altered does not verify under the same receipt digest (the stored run head alone is never
    compared), credits need a signature of the worker for that number of tokens, and writing a
    verdict back changes none.

  \<^bold>\<open>Conventions.\<close> A struct is a record, an enumeration a datatype, a result a sum with the
  error on the left. Machine integers are words of their width, and arithmetic on them wraps as
  in a release build. A method on \<open>&mut self\<close> or on atomics maps the old state to the new one;
  each call is one step on the data, while the order of calls is arbitrary in the invariants;
  interleavings inside calls are modelled for the locks of the hot-swap table only. Clock readings are arguments. Third-party code (the
  BLAKE3 digest, the hexadecimal codec, calendar arithmetic, the rounding of floating-point
  operations) is a parameter, and what is relied on is a hypothesis of the theorem that needs
  it: a digest does not collide on the inputs at hand, decoding inverts encoding, a hexadecimal
  string has two characters per byte, the attestation at hand is no forgery, adding hours
  adds hours. Logging and metrics output are left out. All functions are total; the eviction
  loop of the session cache terminates because every round shortens the recency list, and no
  definition uses fuel.

  \<^bold>\<open>Not modelled.\<close> The HTTP server, the database layer outside the inference traces, the command
  line, the user interface and telemetry are input and output; kernels and numerics of inference
  run in foreign code. Of the modelled components, these parts are left out: routing without
  metadata and by code features, checkpoint files of the hot-swap table, waiting for a prefix
  that another thread builds (\<open>adapteros-core/src/singleflight/\<close>), cancellation receipts,
  listings, provenance and backfill of traces, and the hashing of files.

  \<^bold>\<open>Candidates for extension.\<close> The retry policy and the registry of circuit breakers of
  \<open>adapteros-core\<close>, the replay cache of token identifiers and the worker key ring of
  \<open>adapteros-boot\<close>, the protocol for reducing the number of adapters under memory pressure, the
  buffer pool of the workers, evidence envelopes, and the single-flight protocol.
\<close>

end
